(* ===== verification/Prelude.thy ===== *)
theory Prelude
  imports Main "HOL-Library.Word" "HOL-Library.Char_ord" "HOL-Library.List_Lexorder"
begin

text \<open>
  Shared vocabulary of the development: the parts of the C and C++ standard library the
  sources use on characters (promotion of a signed \<open>char\<close> to \<open>int\<close>, the \<open>C\<close> locale's
  \<open>isspace\<close> and \<open>tolower\<close>), \<open>boost::tribool\<close>, faults of the C++ abstract machine as
  values of a sum type, buffers with out-of-bounds writes made explicit, and the generic
  lemmas and theorem collections the component theories build on.
\<close>

named_theorems scan_simps \<open>rewrite rules that run the JSON scanner\<close>
named_theorems parser_defs \<open>definitions of the HTTP parser's step functions\<close>
named_theorems frame_simps \<open>fields an operation leaves unchanged\<close>
named_theorems wf_intros \<open>operations preserve well-formedness\<close>

section \<open>Characters\<close>

abbreviation code :: "char \<Rightarrow> nat" where
  "code c \<equiv> of_char c"

text \<open>A \<open>char\<close> is signed on the platforms the sources target; passing it to an \<open>int\<close>
  parameter sign-extends it.\<close>

definition char_to_int :: "char \<Rightarrow> int" where
  "char_to_int c = (if code c < 128 then int (code c) else int (code c) - 256)"

text \<open>Conversion of an \<open>int\<close> back to \<open>char\<close> keeps the low eight bits.\<close>

definition int_to_char :: "int \<Rightarrow> char" where
  "int_to_char i = char_of (nat (i mod 256))"

definition isspace :: "char \<Rightarrow> bool" where
  "isspace c \<longleftrightarrow> code c = 32 \<or> (9 \<le> code c \<and> code c \<le> 13)"

definition tolower :: "char \<Rightarrow> char" where
  "tolower c = (if 65 \<le> code c \<and> code c \<le> 90 then char_of (code c + 32) else c)"

lemma code_lt_256 [simp]: "code c < 256"
  using of_char_mod_256 [of c, where ?'a = nat] by (metis mod_less_divisor zero_less_numeral)

lemma code_inj: "code c = code d \<longleftrightarrow> c = d"
  by (simp add: of_char_eq_iff)

lemma char_to_int_range: "- 128 \<le> char_to_int c" "char_to_int c < 128"
  using code_lt_256 [of c] by (auto simp: char_to_int_def simp del: code_lt_256)

lemma int_to_char_char_to_int [simp]: "int_to_char (char_to_int c) = c"
proof -
  have "char_to_int c mod 256 = int (code c)"
  proof (cases "code c < 128")
    case True
    then show ?thesis by (simp add: char_to_int_def)
  next
    case False
    have "(int (code c) - 256) mod 256 = int (code c) mod 256"
      by (rule minus_mod_self2)
    with False code_lt_256 [of c] show ?thesis by (simp add: char_to_int_def)
  qed
  then show ?thesis by (simp add: int_to_char_def)
qed

lemma char_to_int_inj: "char_to_int c = char_to_int d \<longleftrightarrow> c = d"
  by (metis int_to_char_char_to_int)

lemma tolower_idem [simp]: "tolower (tolower c) = tolower c"
proof (cases "65 \<le> code c \<and> code c \<le> 90")
  case True
  then have "code (tolower c) = code c + 32"
    by (simp add: tolower_def of_char_of)
  with True show ?thesis by (simp add: tolower_def [of "tolower c"])
qed (auto simp: tolower_def)

section \<open>Three-valued results\<close>

datatype tribool = TFalse | TTrue | Indeterminate

definition tribool_of :: "bool \<Rightarrow> tribool" where
  "tribool_of b = (if b then TTrue else TFalse)"

section \<open>Faults of the C++ abstract machine\<close>

text \<open>
  A step of the program that C++ leaves undefined or answers with an exception nobody in
  the component catches is a value of \<open>fault\<close>: reading or writing outside a buffer, a failed
  \<open>dynamic_cast\<close> of a reference, a violated \<open>assert\<close>, reading a byte that was never written,
  following a pointer whose object is gone, locking a mutex the thread already holds.
\<close>

datatype fault = Out_of_bounds | Bad_cast | Assertion_failed | Uninitialised_read | Dangling_pointer | Self_deadlock

definition bindE :: "'e + 'a \<Rightarrow> ('a \<Rightarrow> 'e + 'b) \<Rightarrow> 'e + 'b" where
  "bindE m f = (case m of Inl e \<Rightarrow> Inl e | Inr x \<Rightarrow> f x)"

lemma bindE_simps [simp]: "bindE (Inl e) f = Inl e" "bindE (Inr x) f = f x"
  by (simp_all add: bindE_def)

lemma bindE_eq_Inr [simp]:
  "bindE m f = Inr y \<longleftrightarrow> (\<exists>x. m = Inr x \<and> f x = Inr y)"
  by (cases m) auto

lemma bindE_eq_Inl:
  "bindE m f = Inl e \<longleftrightarrow> m = Inl e \<or> (\<exists>x. m = Inr x \<and> f x = Inl e)"
  by (cases m) auto

lemma bindE_assoc: "bindE (bindE m f) g = bindE m (\<lambda>x. bindE (f x) g)"
  by (cases m) auto

lemma bindE_cong [fundef_cong]:
  "m = m' \<Longrightarrow> (\<And>x. m' = Inr x \<Longrightarrow> f x = f' x) \<Longrightarrow> bindE m f = bindE m' f'"
  by (cases m') auto

section \<open>Byte buffers\<close>

text \<open>
  A heap array of \<open>char\<close> is a list of optional bytes; \<open>None\<close> is a byte that was allocated
  and never written. Writing outside the array is a fault.
\<close>

type_synonym buffer = "char option list"

definition write_at :: "nat \<Rightarrow> string \<Rightarrow> buffer \<Rightarrow> fault + buffer" where
  "write_at off xs buf =
     (if off + length xs \<le> length buf
      then Inr (take off buf @ map Some xs @ drop (off + length xs) buf)
      else Inl Out_of_bounds)"

definition read_buffer :: "buffer \<Rightarrow> nat \<Rightarrow> fault + char option list" where
  "read_buffer buf n = (if n \<le> length buf then Inr (take n buf) else Inl Out_of_bounds)"

lemma write_at_length: "write_at off xs buf = Inr buf' \<Longrightarrow> length buf' = length buf"
  by (auto simp: write_at_def split: if_splits)

lemma write_at_ok: "off + length xs \<le> length buf \<Longrightarrow> \<exists>buf'. write_at off xs buf = Inr buf'"
  by (simp add: write_at_def)

lemma write_at_prefix:
  assumes "write_at off xs buf = Inr buf'" and "take off buf = map Some pre" "off \<le> length buf"
  shows "take (off + length xs) buf' = map Some (pre @ xs)"
proof -
  have "length pre = off" using assms(2,3) by (metis length_map length_take min.absorb2)
  with assms show ?thesis by (auto simp: write_at_def split: if_splits)
qed

section \<open>Generic lemmas on lists\<close>

lemma takeWhile_append_stop [simp]:
  "(\<forall>x\<in>set xs. P x) \<Longrightarrow> \<not> P y \<Longrightarrow> takeWhile P (xs @ y # ys) = xs"
  by (simp add: takeWhile_append2)

lemma dropWhile_append_stop [simp]:
  "(\<forall>x\<in>set xs. P x) \<Longrightarrow> \<not> P y \<Longrightarrow> dropWhile P (xs @ y # ys) = y # ys"
  by (simp add: dropWhile_append2)

lemma length_takeWhile_not_in:
  "x \<notin> f ` set xs \<Longrightarrow> length (takeWhile (\<lambda>y. f y \<noteq> x) xs) = length xs"
  by (induction xs) auto

lemma takeWhile_less_length:
  "x \<in> f ` set xs \<Longrightarrow> length (takeWhile (\<lambda>y. f y \<noteq> x) xs) < length xs"
  by (induction xs) auto

lemma nth_takeWhile_hit:
  "x \<in> f ` set xs \<Longrightarrow> f (xs ! length (takeWhile (\<lambda>y. f y \<noteq> x) xs)) = x"
  by (induction xs) auto

lemma map_of_nth_takeWhile:
  "k \<in> fst ` set xs \<Longrightarrow> map_of xs k = Some (snd (xs ! length (takeWhile (\<lambda>y. fst y \<noteq> k) xs)))"
  by (induction xs) auto

end
