(* ===== verification/Json_Elements.thy ===== *)
theory Json_Elements
  imports Prelude
begin

text \<open>
  The element model of the bundled cajun JSON library
  (\<open>src/Contrib/cajun/json/elements.h\<close> and \<open>elements.inl\<close>). An \<open>UnknownElement\<close> is one of six
  element types; an \<open>Object\<close> is a \<open>std::list\<close> of members in insertion order, an \<open>Array\<close> a
  \<open>std::deque\<close>. Iterators are positions, \<open>End()\<close> is the length. The stored \<open>double\<close> of a
  \<open>Number\<close> is the type parameter \<open>'n\<close>, with \<open>0\<close> for \<open>double()\<close>.
\<close>

section \<open>Elements\<close>

datatype 'n UnknownElement =
    JObject "(string \<times> 'n UnknownElement) list"
  | JArray "'n UnknownElement list"
  | JNumber 'n
  | JBoolean bool
  | JString string
  | JNull

type_synonym 'n Member = "string \<times> 'n UnknownElement"
type_synonym 'n Members = "'n Member list"

datatype Exception = Exception string

datatype element_type = TObject | TArray | TNumber | TBoolean | TString | TNull

fun element_type_of :: "'n UnknownElement \<Rightarrow> element_type" where
  "element_type_of (JObject _) = TObject"
| "element_type_of (JArray _) = TArray"
| "element_type_of (JNumber _) = TNumber"
| "element_type_of (JBoolean _) = TBoolean"
| "element_type_of (JString _) = TString"
| "element_type_of JNull = TNull"

text \<open>The value-initialised element of each type, as \<open>ElementTypeT()\<close> builds it.\<close>

fun default_element :: "element_type \<Rightarrow> 'n::zero UnknownElement" where
  "default_element TObject = JObject []"
| "default_element TArray = JArray []"
| "default_element TNumber = JNumber 0"
| "default_element TBoolean = JBoolean False"
| "default_element TString = JString []"
| "default_element TNull = JNull"

text \<open>\<open>CastTo\<close> visits the element and throws when it has another type; \<open>ConvertTo\<close> replaces
  it by a fresh element of the wanted type instead.\<close>

definition CastTo :: "element_type \<Rightarrow> 'n UnknownElement \<Rightarrow> Exception + 'n UnknownElement" where
  "CastTo ty e = (if element_type_of e = ty then Inr e else Inl (Exception ''Bad cast''))"

definition ConvertTo :: "element_type \<Rightarrow> 'n::zero UnknownElement \<Rightarrow> 'n UnknownElement" where
  "ConvertTo ty e = (if element_type_of e = ty then e else default_element ty)"

section \<open>Objects\<close>

fun members_of :: "'n UnknownElement \<Rightarrow> 'n Members" where
  "members_of (JObject ms) = ms"
| "members_of _ = []"

definition Object_Find :: "string \<Rightarrow> 'n Members \<Rightarrow> nat" where
  "Object_Find name ms = length (takeWhile (\<lambda>m. fst m \<noteq> name) ms)"

definition Object_Insert_at :: "'n Member \<Rightarrow> nat \<Rightarrow> 'n Members \<Rightarrow> Exception + 'n Members" where
  "Object_Insert_at m itWhere ms =
     (if Object_Find (fst m) ms \<noteq> length ms
      then Inl (Exception (''Object member already exists: '' @ fst m))
      else Inr (take itWhere ms @ m # drop itWhere ms))"

definition Object_Insert :: "'n Member \<Rightarrow> 'n Members \<Rightarrow> Exception + 'n Members" where
  "Object_Insert m ms = Object_Insert_at m (length ms) ms"

text \<open>Erasing the end iterator is undefined behaviour, hence the fault.\<close>

definition Object_Erase :: "nat \<Rightarrow> 'n Members \<Rightarrow> fault + 'n Members" where
  "Object_Erase it ms =
     (if it < length ms then Inr (take it ms @ drop (Suc it) ms) else Inl Out_of_bounds)"

text \<open>The mutable \<open>operator[]\<close> returns a reference into the list: the members after a missing
  one was appended, and the position the reference denotes.\<close>

definition Object_index :: "string \<Rightarrow> 'n Members \<Rightarrow> 'n Members \<times> nat" where
  "Object_index name ms =
     (let it = Object_Find name ms
      in if it = length ms then (ms @ [(name, JNull)], it) else (ms, it))"

text \<open>\<open>object[name] = v\<close>: assignment through that reference.\<close>

definition Object_assign :: "string \<Rightarrow> 'n UnknownElement \<Rightarrow> 'n Members \<Rightarrow> 'n Members" where
  "Object_assign name v ms =
     (let (ms', it) = Object_index name ms in ms'[it := (fst (ms' ! it), v)])"

definition Object_at :: "string \<Rightarrow> 'n Members \<Rightarrow> Exception + 'n UnknownElement" where
  "Object_at name ms =
     (let it = Object_Find name ms
      in if it = length ms then Inl (Exception (''Object member not found: '' @ name))
         else Inr (snd (ms ! it)))"

definition Element_at :: "string \<Rightarrow> 'n UnknownElement \<Rightarrow> Exception + 'n UnknownElement" where
  "Element_at key e = bindE (CastTo TObject e) (\<lambda>obj. Object_at key (members_of obj))"

definition Element_index :: "string \<Rightarrow> 'n::zero UnknownElement \<Rightarrow> 'n UnknownElement \<times> nat" where
  "Element_index key e =
     (let (ms, it) = Object_index key (members_of (ConvertTo TObject e)) in (JObject ms, it))"

section \<open>Arrays\<close>

fun elements_of :: "'n UnknownElement \<Rightarrow> 'n UnknownElement list" where
  "elements_of (JArray xs) = xs"
| "elements_of _ = []"

definition Array_Insert_at :: "'n UnknownElement \<Rightarrow> nat \<Rightarrow> 'n UnknownElement list \<Rightarrow> 'n UnknownElement list" where
  "Array_Insert_at e itWhere xs = take itWhere xs @ e # drop itWhere xs"

definition Array_Insert :: "'n UnknownElement \<Rightarrow> 'n UnknownElement list \<Rightarrow> 'n UnknownElement list" where
  "Array_Insert e xs = Array_Insert_at e (length xs) xs"

definition Array_Erase :: "nat \<Rightarrow> 'n UnknownElement list \<Rightarrow> fault + 'n UnknownElement list" where
  "Array_Erase it xs =
     (if it < length xs then Inr (take it xs @ drop (Suc it) xs) else Inl Out_of_bounds)"

definition Array_Resize :: "nat \<Rightarrow> 'n UnknownElement list \<Rightarrow> 'n UnknownElement list" where
  "Array_Resize n xs = take n xs @ replicate (n - length xs) JNull"

text \<open>The mutable \<open>operator[]\<close> computes \<open>index + 1\<close> in \<open>size_t\<close>, 64 bits wide: for the
  largest index the sum wraps to zero, nothing is resized and the access is out of bounds.\<close>

definition Array_index :: "nat \<Rightarrow> 'n UnknownElement list \<Rightarrow> fault + 'n UnknownElement list \<times> nat" where
  "Array_index index xs =
     (let nMinSize = (index + 1) mod 2 ^ 64;
          xs' = (if length xs < nMinSize then Array_Resize nMinSize xs else xs)
      in if index < length xs' then Inr (xs', index) else Inl Out_of_bounds)"

definition Array_at :: "nat \<Rightarrow> 'n UnknownElement list \<Rightarrow> Exception + 'n UnknownElement" where
  "Array_at index xs =
     (if index \<ge> length xs then Inl (Exception ''Array out of bounds'') else Inr (xs ! index))"

section \<open>Equality\<close>

text \<open>\<open>operator==\<close> compares the dynamic types through a visitor and then the values;
  \<open>eqd\<close> is the \<open>==\<close> of \<open>double\<close>.\<close>

fun Compare :: "('n \<Rightarrow> 'n \<Rightarrow> bool) \<Rightarrow> 'n UnknownElement \<Rightarrow> 'n UnknownElement \<Rightarrow> bool"
  and Compare_members :: "('n \<Rightarrow> 'n \<Rightarrow> bool) \<Rightarrow> 'n Members \<Rightarrow> 'n Members \<Rightarrow> bool"
  and Compare_elements :: "('n \<Rightarrow> 'n \<Rightarrow> bool) \<Rightarrow> 'n UnknownElement list \<Rightarrow> 'n UnknownElement list \<Rightarrow> bool" where
  "Compare eqd (JObject ms) e = (case e of JObject ns \<Rightarrow> Compare_members eqd ms ns | _ \<Rightarrow> False)"
| "Compare eqd (JArray xs) e = (case e of JArray ys \<Rightarrow> Compare_elements eqd xs ys | _ \<Rightarrow> False)"
| "Compare eqd (JNumber x) e = (case e of JNumber y \<Rightarrow> eqd x y | _ \<Rightarrow> False)"
| "Compare eqd (JBoolean x) e = (case e of JBoolean y \<Rightarrow> x = y | _ \<Rightarrow> False)"
| "Compare eqd (JString x) e = (case e of JString y \<Rightarrow> x = y | _ \<Rightarrow> False)"
| "Compare eqd JNull e = (case e of JNull \<Rightarrow> True | _ \<Rightarrow> False)"
| "Compare_members eqd [] ns = (ns = [])"
| "Compare_members eqd (m # ms) ns =
     (case ns of [] \<Rightarrow> False
      | n # ns' \<Rightarrow> fst m = fst n \<and> Compare eqd (snd m) (snd n) \<and> Compare_members eqd ms ns')"
| "Compare_elements eqd [] ys = (ys = [])"
| "Compare_elements eqd (x # xs) ys =
     (case ys of [] \<Rightarrow> False | y # ys' \<Rightarrow> Compare eqd x y \<and> Compare_elements eqd xs ys')"

section \<open>Well-formed documents\<close>

text \<open>No object, at any depth, has two members of the same name.\<close>

fun wf_element :: "'n UnknownElement \<Rightarrow> bool" where
  "wf_element (JObject ms) = (distinct (map fst ms) \<and> (\<forall>m\<in>set ms. wf_element (snd m)))"
| "wf_element (JArray xs) = (\<forall>x\<in>set xs. wf_element x)"
| "wf_element _ = True"

abbreviation wf_members :: "'n Members \<Rightarrow> bool" where
  "wf_members ms \<equiv> wf_element (JObject ms)"

section \<open>Equality is structural\<close>

lemma Compare_correct:
  "(\<forall>x y. eqd x y = (x = y)) \<Longrightarrow> Compare eqd e e' \<longleftrightarrow> e = e'"
  "(\<forall>x y. eqd x y = (x = y)) \<Longrightarrow> Compare_members eqd ms ns \<longleftrightarrow> ms = ns"
  "(\<forall>x y. eqd x y = (x = y)) \<Longrightarrow> Compare_elements eqd xs ys \<longleftrightarrow> xs = ys"
  by (induction eqd e e' and eqd ms ns and eqd xs ys
      rule: Compare_Compare_members_Compare_elements.induct)
    (auto split: UnknownElement.splits list.splits simp: prod_eq_iff)

section \<open>Lookup after insertion\<close>

text \<open>What the users of an \<open>Object\<close> rely on, stated for any representation of its members:
  a lookup after an assignment sees the assigned value and no other name is disturbed.\<close>

locale member_store =
  fixes find :: "'k \<Rightarrow> 'm \<Rightarrow> 'v option"
    and assign :: "'k \<Rightarrow> 'v \<Rightarrow> 'm \<Rightarrow> 'm"
    and inv :: "'m \<Rightarrow> bool"
  assumes find_assign: "inv m \<Longrightarrow> find k (assign k' v m) = (if k = k' then Some v else find k m)"
    and inv_assign: "inv m \<Longrightarrow> inv (assign k v m)"
begin

lemma assign_same: "inv m \<Longrightarrow> find k (assign k v m) = Some v"
  by (simp add: find_assign)

lemma assign_other: "inv m \<Longrightarrow> k \<noteq> k' \<Longrightarrow> find k (assign k' v m) = find k m"
  by (simp add: find_assign)

lemma assign_overwrites: "inv m \<Longrightarrow> find k (assign k' v (assign k' w m)) = find k (assign k' v m)"
  by (simp add: find_assign inv_assign)

lemma assign_commute:
  "inv m \<Longrightarrow> k' \<noteq> k'' \<Longrightarrow>
     find k (assign k' v (assign k'' w m)) = find k (assign k'' w (assign k' v m))"
  by (simp add: find_assign inv_assign)

end

definition Object_lookup :: "string \<Rightarrow> 'n Members \<Rightarrow> 'n UnknownElement option" where
  "Object_lookup name ms = (case Object_at name ms of Inl _ \<Rightarrow> None | Inr e \<Rightarrow> Some e)"

lemma Object_Find_End: "Object_Find name ms = length ms \<longleftrightarrow> name \<notin> fst ` set ms"
  unfolding Object_Find_def
  by (metis length_takeWhile_not_in nat_neq_iff takeWhile_less_length)

lemma Object_Find_le: "Object_Find name ms \<le> length ms"
  by (simp add: Object_Find_def length_takeWhile_le)

lemma Object_at_eq:
  "Object_at name ms =
     (case map_of ms name of None \<Rightarrow> Inl (Exception (''Object member not found: '' @ name))
      | Some e \<Rightarrow> Inr e)"
proof (cases "name \<in> fst ` set ms")
  case True
  with map_of_nth_takeWhile [OF True] Object_Find_End [of name ms] show ?thesis
    by (simp add: Object_at_def Let_def) (simp add: Object_Find_def)
next
  case False
  then have "map_of ms name = None" by (simp add: map_of_eq_None_iff)
  with False Object_Find_End [of name ms] show ?thesis by (simp add: Object_at_def)
qed

lemma Object_lookup_map_of: "Object_lookup name ms = map_of ms name"
  by (simp add: Object_lookup_def Object_at_eq split: option.splits)

lemma Object_assign_Cons:
  "Object_assign name v (m # ms) =
     (if fst m = name then (fst m, v) # ms else m # Object_assign name v ms)"
  by (auto simp: Object_assign_def Object_index_def Object_Find_def Let_def split: prod.splits if_splits)

lemma Object_assign_Nil [simp]: "Object_assign name v [] = [(name, v)]"
  by (simp add: Object_assign_def Object_index_def Object_Find_def)

lemma fst_set_Object_assign: "fst ` set (Object_assign name v ms) = insert name (fst ` set ms)"
  by (induction ms) (auto simp: Object_assign_Cons)

lemma distinct_Object_assign:
  "distinct (map fst ms) \<Longrightarrow> distinct (map fst (Object_assign name v ms))"
  by (induction ms) (use fst_set_Object_assign in \<open>auto simp: Object_assign_Cons fst_set_Object_assign\<close>)

lemma map_of_Object_assign: "map_of (Object_assign name v ms) = (map_of ms)(name \<mapsto> v)"
  by (induction ms) (auto simp: Object_assign_Cons fun_eq_iff)

interpretation object_store: member_store Object_lookup Object_assign "\<lambda>ms. distinct (map fst ms)"
  by unfold_locales
    (auto simp: Object_lookup_map_of map_of_Object_assign intro: distinct_Object_assign)

end
