(* ===== verification/Json_Writer.thy ===== *)
theory Json_Writer
  imports Json_Elements
begin

text \<open>
  The cajun writer (\<open>src/Contrib/cajun/json/writer.h\<close>, \<open>writer.inl\<close>): a pretty printer
  that indents with tabs. The text it appends to the output stream is the result of the
  functions below; \<open>d\<close> is \<open>m_nTabDepth\<close>. How the standard library prints a \<open>double\<close> with
  twenty digits of precision is the parameter \<open>shw\<close>.
\<close>

abbreviation quote :: char where "quote \<equiv> CHR 0x22"
abbreviation backslash :: char where "backslash \<equiv> CHR 0x5C"
abbreviation LF :: char where "LF \<equiv> CHR 0x0A"
abbreviation TAB :: char where "TAB \<equiv> CHR 0x09"

definition tabs :: "nat \<Rightarrow> string" where
  "tabs d = replicate d TAB"

text \<open>One character of a string value.\<close>

definition escape_char :: "char \<Rightarrow> string" where
  "escape_char c =
     (if c = quote then [backslash, quote]
      else if c = backslash then [backslash, backslash]
      else if c = CHR 0x08 then [backslash, CHR ''b'']
      else if c = CHR 0x0C then [backslash, CHR ''f'']
      else if c = CHR 0x0A then [backslash, CHR ''n'']
      else if c = CHR 0x0D then [backslash, CHR ''r'']
      else if c = CHR 0x09 then [backslash, CHR ''t'']
      else [c])"

fun Write_chars :: "string \<Rightarrow> string" where
  "Write_chars [] = []"
| "Write_chars (c # cs) = escape_char c @ Write_chars cs"

definition Write_String :: "string \<Rightarrow> string" where
  "Write_String s = quote # Write_chars s @ [quote]"

definition Write_Boolean :: "bool \<Rightarrow> string" where
  "Write_Boolean b = (if b then ''true'' else ''false'')"

text \<open>Member names go to the stream as they are, string values through the escapes.\<close>

fun Write_element :: "('n \<Rightarrow> string) \<Rightarrow> nat \<Rightarrow> 'n UnknownElement \<Rightarrow> string"
  and Write_elements :: "('n \<Rightarrow> string) \<Rightarrow> nat \<Rightarrow> 'n UnknownElement list \<Rightarrow> string"
  and Write_members :: "('n \<Rightarrow> string) \<Rightarrow> nat \<Rightarrow> 'n Members \<Rightarrow> string" where
  "Write_element shw d (JArray xs) =
     (if xs = [] then ''[]''
      else ''['' @ [LF] @ Write_elements shw (Suc d) xs @ tabs d @ '']'')"
| "Write_element shw d (JObject ms) =
     (if ms = [] then ''{}''
      else ''{'' @ [LF] @ Write_members shw (Suc d) ms @ tabs d @ ''}'')"
| "Write_element shw d (JNumber n) = shw n"
| "Write_element shw d (JBoolean b) = Write_Boolean b"
| "Write_element shw d (JString s) = Write_String s"
| "Write_element shw d JNull = ''null''"
| "Write_elements shw d [] = []"
| "Write_elements shw d (x # xs) =
     tabs d @ Write_element shw d x @ (if xs = [] then [] else '','') @ [LF] @ Write_elements shw d xs"
| "Write_members shw d [] = []"
| "Write_members shw d ((name, e) # ms) =
     tabs d @ [quote] @ name @ [quote] @ '' : '' @ Write_element shw d e
       @ (if ms = [] then [] else '','') @ [LF] @ Write_members shw d ms"

text \<open>The entry points of the class: a fresh writer starts at depth zero.\<close>

definition Write :: "('n \<Rightarrow> string) \<Rightarrow> 'n UnknownElement \<Rightarrow> string" where
  "Write shw e = Write_element shw 0 e"

lemma set_tabs: "set (tabs d) \<subseteq> {TAB}"
  by (auto simp: tabs_def)

end
