(* ===== verification/Json_Reader.thy ===== *)
theory Json_Reader
  imports Json_Writer
begin

text \<open>
  The cajun reader (\<open>src/Contrib/cajun/json/reader.h\<close>, \<open>reader.inl\<close>): a scanner that turns an
  input stream into tokens with source locations, and a recursive descent parser over the
  tokens. An input stream is the list of characters still to come and the location reached;
  a token stream is the list of tokens still to come. The extraction of a \<open>double\<close> from a
  string stream is the parameter \<open>rd\<close>: the extracted value, whether the stream is at its
  end afterwards, and what \<open>peek\<close> then returns.
\<close>

section \<open>Locations, messages and exceptions\<close>

record Location =
  m_nLine :: "32 word"
  m_nLineOffset :: "32 word"
  m_nDocOffset :: "32 word"

definition Location0 :: Location where
  "Location0 = \<lparr>m_nLine = 0, m_nLineOffset = 0, m_nDocOffset = 0\<rparr>"

text \<open>
  Two messages are built as \<open>"literal" + c\<close> with a character or an \<open>int\<close> on the right: this
  is pointer arithmetic, a suffix of the literal for a small \<open>c\<close> and undefined otherwise.
\<close>

datatype message = Message string | Undefined_message

definition literal_plus :: "string \<Rightarrow> int \<Rightarrow> message" where
  "literal_plus lit i =
     (if 0 \<le> i \<and> i \<le> int (length lit) then Message (drop (nat i) lit) else Undefined_message)"

text \<open>The third way out of the reader is a violated \<open>assert\<close>, which the build leaves enabled: the
  parser peeks at the token stream before it tests for its end.\<close>

datatype json_exception =
    ScanException message Location
  | ParseException message Location Location
  | AssertFailed

section \<open>The input stream\<close>

record InputStream =
  m_iStr :: string
  m_Location :: Location

definition advance :: "char \<Rightarrow> Location \<Rightarrow> Location" where
  "advance c l =
     (let l' = l\<lparr>m_nDocOffset := m_nDocOffset l + 1\<rparr>
      in if c = LF then l'\<lparr>m_nLine := m_nLine l' + 1, m_nLineOffset := 0\<rparr>
         else l'\<lparr>m_nLineOffset := m_nLineOffset l' + 1\<rparr>)"

text \<open>\<open>Get\<close> and \<open>Peek\<close> assert that the stream is not at its end; \<open>None\<close> is that end, so one
  case distinction stands for the guard \<open>EOS()\<close> and the call.\<close>

definition InputStream_Get :: "InputStream \<Rightarrow> (char \<times> InputStream) option" where
  "InputStream_Get is =
     (case m_iStr is of [] \<Rightarrow> None
      | c # cs \<Rightarrow> Some (c, is\<lparr>m_iStr := cs, m_Location := advance c (m_Location is)\<rparr>))"

definition InputStream_EOS :: "InputStream \<Rightarrow> bool" where
  "InputStream_EOS is = (m_iStr is = [])"

lemma InputStream_Get_Some:
  "InputStream_Get is = Some (c, is') \<longleftrightarrow>
     m_iStr is = c # m_iStr is' \<and> m_Location is' = advance c (m_Location is)"
  by (cases "is", cases is') (auto simp: InputStream_Get_def split: list.splits)

lemma InputStream_Get_None: "InputStream_Get is = None \<longleftrightarrow> m_iStr is = []"
  by (auto simp: InputStream_Get_def split: list.splits)

lemma InputStream_Get_length [termination_simp]:
  "InputStream_Get is = Some (c, is') \<Longrightarrow> length (m_iStr is') < length (m_iStr is)"
  by (simp add: InputStream_Get_Some)

section \<open>The scanner\<close>

datatype TokenType =
    TOKEN_OBJECT_BEGIN | TOKEN_OBJECT_END | TOKEN_ARRAY_BEGIN | TOKEN_ARRAY_END
  | TOKEN_NEXT_ELEMENT | TOKEN_MEMBER_ASSIGN | TOKEN_STRING | TOKEN_NUMBER
  | TOKEN_BOOLEAN | TOKEN_NULL

record Token =
  nType :: TokenType
  sValue :: string
  locBegin :: Location
  locEnd :: Location

function EatWhiteSpace :: "InputStream \<Rightarrow> InputStream" where
  "EatWhiteSpace is =
     (case InputStream_Get is of None \<Rightarrow> is
      | Some (c, is') \<Rightarrow> if isspace c then EatWhiteSpace is' else is)"
  by pat_completeness auto
termination
  by (relation "measure (length \<circ> m_iStr)") (auto simp: InputStream_Get_length)

declare EatWhiteSpace.simps [simp del]

fun MatchExpected_loop :: "string \<Rightarrow> string \<Rightarrow> InputStream \<Rightarrow> json_exception + InputStream" where
  "MatchExpected_loop sExpected [] is = Inr is"
| "MatchExpected_loop sExpected (x # xs) is =
     (case InputStream_Get is of
        None \<Rightarrow> Inl (ScanException (Message (''Expected string: '' @ sExpected)) (m_Location is))
      | Some (c, is') \<Rightarrow>
          if c \<noteq> x
          then Inl (ScanException (Message (''Expected string: '' @ sExpected)) (m_Location is'))
          else MatchExpected_loop sExpected xs is')"

definition MatchExpectedString :: "string \<Rightarrow> InputStream \<Rightarrow> json_exception + InputStream" where
  "MatchExpectedString sExpected is = MatchExpected_loop sExpected sExpected is"

definition unescape_char :: "char \<Rightarrow> char option" where
  "unescape_char c =
     (if c = CHR ''/'' then Some (CHR ''/'')
      else if c = quote then Some quote
      else if c = backslash then Some backslash
      else if c = CHR ''b'' then Some (CHR 0x08)
      else if c = CHR ''f'' then Some (CHR 0x0C)
      else if c = CHR ''n'' then Some (CHR 0x0A)
      else if c = CHR ''r'' then Some (CHR 0x0D)
      else if c = CHR ''t'' then Some (CHR 0x09)
      else None)"

definition bad_escape :: "char \<Rightarrow> Location \<Rightarrow> json_exception" where
  "bad_escape c loc =
     ScanException
       (literal_plus (''Unrecognized escape sequence found in string: '' @ [backslash]) (char_to_int c))
       loc"

function MatchString_loop :: "string \<Rightarrow> InputStream \<Rightarrow> json_exception + string \<times> InputStream" where
  "MatchString_loop string is =
     (case InputStream_Get is of
        None \<Rightarrow> Inr (string, is)
      | Some (c, is') \<Rightarrow>
          if c = quote then Inr (string, is)
          else if c = backslash then
            (case InputStream_Get is' of
               None \<Rightarrow> MatchString_loop (string @ [c]) is'
             | Some (c', is'') \<Rightarrow>
                 (case unescape_char c' of
                    None \<Rightarrow> Inl (bad_escape c' (m_Location is''))
                  | Some x \<Rightarrow> MatchString_loop (string @ [x]) is''))
          else MatchString_loop (string @ [c]) is')"
  by pat_completeness auto
termination
  by (relation "measure (length \<circ> m_iStr \<circ> snd)")
    (auto simp: InputStream_Get_length, (metis InputStream_Get_length less_trans)+)

declare MatchString_loop.simps [simp del]

definition MatchString :: "InputStream \<Rightarrow> json_exception + string \<times> InputStream" where
  "MatchString is =
     bindE (MatchExpectedString [quote] is) (\<lambda>is1.
       bindE (MatchString_loop [] is1) (\<lambda>(string, is2).
         bindE (MatchExpectedString [quote] is2) (\<lambda>is3. Inr (string, is3))))"

text \<open>The set is filled from the whole array, so it holds the terminating NUL as well.\<close>

definition numericChar :: "char \<Rightarrow> bool" where
  "numericChar c \<longleftrightarrow> c \<in> set (''0123456789.eE-+'' @ [CHR 0x00])"

function MatchNumber :: "string \<Rightarrow> InputStream \<Rightarrow> string \<times> InputStream" where
  "MatchNumber sNumber is =
     (case InputStream_Get is of None \<Rightarrow> (sNumber, is)
      | Some (c, is') \<Rightarrow>
          if numericChar c then MatchNumber (sNumber @ [c]) is' else (sNumber, is))"
  by pat_completeness auto
termination
  by (relation "measure (length \<circ> m_iStr \<circ> snd)") (auto simp: InputStream_Get_length)

declare MatchNumber.simps [simp del]

definition mk_token :: "InputStream \<Rightarrow> TokenType \<Rightarrow> string \<times> InputStream \<Rightarrow> Token \<times> InputStream" where
  "mk_token is ty vi =
     (\<lparr>nType = ty, sValue = fst vi, locBegin = m_Location is, locEnd = m_Location (snd vi)\<rparr>, snd vi)"

definition Scan_expected :: "InputStream \<Rightarrow> TokenType \<Rightarrow> string \<Rightarrow> json_exception + Token \<times> InputStream" where
  "Scan_expected is ty s =
     bindE (MatchExpectedString s is) (\<lambda>is'. Inr (mk_token is ty (s, is')))"

text \<open>One pass of the scanning loop, at a non-space character \<open>c\<close>.\<close>

definition Scan_token :: "char \<Rightarrow> InputStream \<Rightarrow> json_exception + Token \<times> InputStream" where
  "Scan_token c is =
     (if c = CHR ''{'' then Scan_expected is TOKEN_OBJECT_BEGIN [c]
      else if c = CHR ''}'' then Scan_expected is TOKEN_OBJECT_END [c]
      else if c = CHR ''['' then Scan_expected is TOKEN_ARRAY_BEGIN [c]
      else if c = CHR '']'' then Scan_expected is TOKEN_ARRAY_END [c]
      else if c = CHR '','' then Scan_expected is TOKEN_NEXT_ELEMENT [c]
      else if c = CHR '':'' then Scan_expected is TOKEN_MEMBER_ASSIGN [c]
      else if c = quote then
        bindE (MatchString is) (\<lambda>vi. Inr (mk_token is TOKEN_STRING vi))
      else if c \<in> set ''-0123456789'' then Inr (mk_token is TOKEN_NUMBER (MatchNumber [] is))
      else if c = CHR ''t'' then Scan_expected is TOKEN_BOOLEAN ''true''
      else if c = CHR ''f'' then Scan_expected is TOKEN_BOOLEAN ''false''
      else if c = CHR ''n'' then Scan_expected is TOKEN_NULL ''null''
      else Inl (ScanException (Message (''Unexpected character in stream: '' @ [c])) (m_Location is)))"

text \<open>Every matcher consumes input: the scanning loop ends.\<close>

lemma EatWhiteSpace_iStr: "m_iStr (EatWhiteSpace is) = dropWhile isspace (m_iStr is)"
proof (induction "is" rule: EatWhiteSpace.induct)
  case (1 "is")
  then show ?case
    by (subst EatWhiteSpace.simps)
      (auto simp: InputStream_Get_Some InputStream_Get_None split: option.splits)
qed

lemma EatWhiteSpace_length: "length (m_iStr (EatWhiteSpace is)) \<le> length (m_iStr is)"
  by (simp add: EatWhiteSpace_iStr length_dropWhile_le)

lemma MatchExpected_loop_iStr:
  "MatchExpected_loop e xs is = Inr is' \<Longrightarrow> m_iStr is = xs @ m_iStr is'"
  by (induction e xs "is" rule: MatchExpected_loop.induct)
    (auto split: option.splits if_splits simp: InputStream_Get_Some)

lemma MatchString_loop_length:
  "MatchString_loop s is = Inr (s', is') \<Longrightarrow> length (m_iStr is') \<le> length (m_iStr is)"
proof (induction "length (m_iStr is)" arbitrary: s "is" rule: less_induct)
  case less
  have IH: "length (m_iStr is') \<le> length (m_iStr is)"
    if "length (m_iStr i) < length (m_iStr is)" "MatchString_loop t i = Inr (s', is')" for t i
    using less.hyps [OF that] that(1) by simp
  note len = InputStream_Get_length
  from less.prems show ?case
    unfolding MatchString_loop.simps [of s "is"]
    by (auto split: option.splits prod.splits if_splits dest: len
        intro: IH IH [OF less_trans, OF len len])
qed

lemma MatchNumber_eq:
  "fst (MatchNumber s is) = s @ takeWhile numericChar (m_iStr is) \<and>
   m_iStr (snd (MatchNumber s is)) = dropWhile numericChar (m_iStr is)"
proof (induction s "is" rule: MatchNumber.induct)
  case (1 s "is")
  show ?case
    unfolding MatchNumber.simps [of s "is"]
    using "1.IH" [OF _ refl]
    by (auto simp: InputStream_Get_Some InputStream_Get_None split: option.splits)
qed

declare MatchExpected_loop.simps [simp del]

lemma Scan_expected_length:
  "Scan_expected is ty s = Inr (t, is') \<Longrightarrow> s \<noteq> [] \<Longrightarrow> length (m_iStr is') < length (m_iStr is)"
  by (auto simp: Scan_expected_def MatchExpectedString_def mk_token_def
      dest!: MatchExpected_loop_iStr)

lemma MatchString_length:
  "MatchString is = Inr (v, is') \<Longrightarrow> length (m_iStr is') < length (m_iStr is)"
  by (fastforce simp: MatchString_def MatchExpectedString_def
      dest!: MatchExpected_loop_iStr MatchString_loop_length)

lemma Scan_token_length:
  assumes "Scan_token c is = Inr (t, is')" and "m_iStr is = c # cs"
  shows "length (m_iStr is') < length (m_iStr is)"
proof (cases "c \<in> set ''-0123456789''")
  case True
  then have "numericChar c" by (auto simp: numericChar_def)
  moreover from True assms(1) have "is' = snd (MatchNumber [] is)"
    by (auto simp: Scan_token_def mk_token_def)
  ultimately show ?thesis
    using assms(2) by (simp add: MatchNumber_eq length_dropWhile_le le_imp_less_Suc)
next
  case False
  with assms(1) show ?thesis
    by (auto simp: Scan_token_def mk_token_def prod_eq_iff
        dest: Scan_expected_length MatchString_length split: if_splits)
qed

function Scan :: "Token list \<Rightarrow> InputStream \<Rightarrow> json_exception + Token list \<times> InputStream" where
  "Scan tokens is =
     (case m_iStr (EatWhiteSpace is) of
        [] \<Rightarrow> Inr (tokens, EatWhiteSpace is)
      | c # cs \<Rightarrow> bindE (Scan_token c (EatWhiteSpace is)) (\<lambda>(t, is'). Scan (tokens @ [t]) is'))"
  by pat_completeness auto
termination
proof (relation "measure (length \<circ> m_iStr \<circ> snd)", goal_cases)
  case 1
  show ?case by simp
next
  case (2 tokens "is" c cs x t is')
  then show ?case
    using Scan_token_length [of c "EatWhiteSpace is" t is' cs] EatWhiteSpace_length [of "is"] by simp
qed

declare Scan.simps [simp del]

section \<open>The parser\<close>

text \<open>\<open>None\<close> is a run that exhausted its fuel; \<open>Parse_returns\<close> below shows that the fuel
  \<open>Read\<close> supplies always suffices.\<close>

type_synonym 'a run = "(json_exception + 'a) option"

definition bindR :: "'a run \<Rightarrow> ('a \<Rightarrow> 'b run) \<Rightarrow> 'b run" where
  "bindR m f = (case m of None \<Rightarrow> None | Some (Inl e) \<Rightarrow> Some (Inl e) | Some (Inr x) \<Rightarrow> f x)"

lemma bindR_simps [simp]:
  "bindR None f = None" "bindR (Some (Inl e)) f = Some (Inl e)" "bindR (Some (Inr x)) f = f x"
  by (simp_all add: bindR_def)

lemma bindR_eq_Inr:
  "bindR m f = Some (Inr y) \<longleftrightarrow> (\<exists>x. m = Some (Inr x) \<and> f x = Some (Inr y))"
  by (cases m; cases "the m") auto

lemma bindR_neq_None:
  "bindR m f \<noteq> None \<longleftrightarrow> m \<noteq> None \<and> (\<forall>x. m = Some (Inr x) \<longrightarrow> f x \<noteq> None)"
  by (cases m; cases "the m") auto

definition TokenStream_Peek :: "Token list \<Rightarrow> json_exception + Token" where
  "TokenStream_Peek ts = (case ts of [] \<Rightarrow> Inl AssertFailed | t # _ \<Rightarrow> Inr t)"

lemma TokenStream_Peek_simps [simp]:
  "TokenStream_Peek [] = Inl AssertFailed" "TokenStream_Peek (t # ts) = Inr t"
  by (simp_all add: TokenStream_Peek_def)

lemma TokenStream_Peek_Inr: "TokenStream_Peek ts = Inr t \<longleftrightarrow> (\<exists>ts'. ts = t # ts')"
  by (cases ts) auto

definition MatchExpectedToken :: "TokenType \<Rightarrow> Token list \<Rightarrow> json_exception + string \<times> Token list" where
  "MatchExpectedToken nExpected ts =
     (case ts of
        [] \<Rightarrow> Inl (ParseException (Message ''Unexpected End of token stream'') Location0 Location0)
      | t # ts' \<Rightarrow>
          if nType t \<noteq> nExpected
          then Inl (ParseException (Message (''Unexpected token: '' @ sValue t)) (locBegin t) (locEnd t))
          else Inr (sValue t, ts'))"

definition next_is :: "TokenType \<Rightarrow> Token list \<Rightarrow> bool" where
  "next_is ty ts = (case ts of [] \<Rightarrow> False | t # _ \<Rightarrow> nType t = ty)"

definition next_is_not :: "TokenType \<Rightarrow> Token list \<Rightarrow> bool" where
  "next_is_not ty ts = (case ts of [] \<Rightarrow> False | t # _ \<Rightarrow> nType t \<noteq> ty)"

definition Parse_number :: "(string \<Rightarrow> 'n \<times> bool \<times> int) \<Rightarrow> Token list \<Rightarrow> json_exception + 'n \<times> Token list" where
  "Parse_number rd ts =
     bindE (TokenStream_Peek ts) (\<lambda>currentToken.
       bindE (MatchExpectedToken TOKEN_NUMBER ts) (\<lambda>(s, ts').
         let (dValue, eof, peeked) = rd s
         in if eof then Inr (dValue, ts')
            else Inl (ParseException
                   (literal_plus ''Unexpected character in NUMBER token: '' peeked)
                   (locBegin currentToken) (locEnd currentToken))))"

definition Parse_boolean :: "Token list \<Rightarrow> json_exception + bool \<times> Token list" where
  "Parse_boolean ts =
     bindE (MatchExpectedToken TOKEN_BOOLEAN ts) (\<lambda>(s, ts'). Inr (s = ''true'', ts'))"

definition Parse_string :: "Token list \<Rightarrow> json_exception + string \<times> Token list" where
  "Parse_string ts = MatchExpectedToken TOKEN_STRING ts"

definition Parse_null :: "Token list \<Rightarrow> json_exception + unit \<times> Token list" where
  "Parse_null ts = bindE (MatchExpectedToken TOKEN_NULL ts) (\<lambda>(s, ts'). Inr ((), ts'))"

text \<open>A member that \<open>Object::Insert\<close> refuses is reported at the token of its name.\<close>

definition insert_member :: "Token \<Rightarrow> 'n Member \<Rightarrow> 'n Members \<Rightarrow> json_exception + 'n Members" where
  "insert_member tokenName m ms =
     (case Object_Insert m ms of
        Inl _ \<Rightarrow> Inl (ParseException (Message (''Duplicate object member token: '' @ fst m))
                       (locBegin tokenName) (locEnd tokenName))
      | Inr ms' \<Rightarrow> Inr ms')"

text \<open>\<open>Parse(Object&, TokenStream&)\<close> and \<open>Parse(Array&, TokenStream&)\<close> around their loops, and the
  \<open>switch\<close> of \<open>Parse(UnknownElement&, TokenStream&)\<close> around these.\<close>

definition Parse_object_with ::
  "('n Members \<Rightarrow> Token list \<Rightarrow> ('n Members \<times> Token list) run) \<Rightarrow> 'n Members \<Rightarrow> Token list
     \<Rightarrow> ('n Members \<times> Token list) run" where
  "Parse_object_with loop ms ts =
     bindR (Some (MatchExpectedToken TOKEN_OBJECT_BEGIN ts)) (\<lambda>(_, ts1).
       bindR (if next_is_not TOKEN_OBJECT_END ts1 then loop ms ts1 else Some (Inr (ms, ts1)))
         (\<lambda>(ms', ts2).
           bindR (Some (MatchExpectedToken TOKEN_OBJECT_END ts2)) (\<lambda>(_, ts3). Some (Inr (ms', ts3)))))"

definition Parse_array_with ::
  "('n UnknownElement list \<Rightarrow> Token list \<Rightarrow> ('n UnknownElement list \<times> Token list) run)
     \<Rightarrow> 'n UnknownElement list \<Rightarrow> Token list \<Rightarrow> ('n UnknownElement list \<times> Token list) run" where
  "Parse_array_with loop xs ts =
     bindR (Some (MatchExpectedToken TOKEN_ARRAY_BEGIN ts)) (\<lambda>(_, ts1).
       bindR (if next_is_not TOKEN_ARRAY_END ts1 then loop xs ts1 else Some (Inr (xs, ts1)))
         (\<lambda>(xs', ts2).
           bindR (Some (MatchExpectedToken TOKEN_ARRAY_END ts2)) (\<lambda>(_, ts3). Some (Inr (xs', ts3)))))"

definition Parse_element_with ::
  "(string \<Rightarrow> 'n \<times> bool \<times> int)
     \<Rightarrow> ('n Members \<Rightarrow> Token list \<Rightarrow> ('n Members \<times> Token list) run)
     \<Rightarrow> ('n UnknownElement list \<Rightarrow> Token list \<Rightarrow> ('n UnknownElement list \<times> Token list) run)
     \<Rightarrow> 'n::zero UnknownElement \<Rightarrow> Token list \<Rightarrow> ('n UnknownElement \<times> Token list) run" where
  "Parse_element_with rd oloop aloop e ts =
     (case ts of
        [] \<Rightarrow> Some (Inl (ParseException (Message ''Unexpected end of token stream'') Location0 Location0))
      | t # _ \<Rightarrow>
          (case nType t of
             TOKEN_OBJECT_BEGIN \<Rightarrow>
               bindR (Parse_object_with oloop (members_of (ConvertTo TObject e)) ts)
                 (\<lambda>(ms, ts'). Some (Inr (JObject ms, ts')))
           | TOKEN_ARRAY_BEGIN \<Rightarrow>
               bindR (Parse_array_with aloop (elements_of (ConvertTo TArray e)) ts)
                 (\<lambda>(xs, ts'). Some (Inr (JArray xs, ts')))
           | TOKEN_STRING \<Rightarrow> Some (bindE (Parse_string ts) (\<lambda>(s, ts'). Inr (JString s, ts')))
           | TOKEN_NUMBER \<Rightarrow> Some (bindE (Parse_number rd ts) (\<lambda>(n, ts'). Inr (JNumber n, ts')))
           | TOKEN_BOOLEAN \<Rightarrow> Some (bindE (Parse_boolean ts) (\<lambda>(b, ts'). Inr (JBoolean b, ts')))
           | TOKEN_NULL \<Rightarrow> Some (bindE (Parse_null ts) (\<lambda>(_, ts'). Inr (JNull, ts')))
           | _ \<Rightarrow> Some (Inl (ParseException (Message (''Unexpected token: '' @ sValue t))
                     (locBegin t) (locEnd t)))))"

text \<open>\<open>Parse_members\<close> and \<open>Parse_elements\<close> are the two \<open>while (bContinue)\<close> loops, entered when
  \<open>bContinue\<close> holds; each recursive call spends one unit of fuel.\<close>

function (sequential) Parse_element :: "(string \<Rightarrow> 'n \<times> bool \<times> int) \<Rightarrow> nat \<Rightarrow> 'n::zero UnknownElement
      \<Rightarrow> Token list \<Rightarrow> ('n UnknownElement \<times> Token list) run"
  and Parse_members :: "(string \<Rightarrow> 'n \<times> bool \<times> int) \<Rightarrow> nat \<Rightarrow> 'n::zero Members \<Rightarrow> Token list
      \<Rightarrow> ('n Members \<times> Token list) run"
  and Parse_elements :: "(string \<Rightarrow> 'n \<times> bool \<times> int) \<Rightarrow> nat \<Rightarrow> 'n::zero UnknownElement list \<Rightarrow> Token list
      \<Rightarrow> ('n UnknownElement list \<times> Token list) run" where
  "Parse_element rd 0 e ts = None"
| "Parse_element rd (Suc fuel) e ts =
     Parse_element_with rd (\<lambda>ms us. Parse_members rd fuel ms us) (\<lambda>xs us. Parse_elements rd fuel xs us) e ts"
| "Parse_members rd 0 ms ts = None"
| "Parse_members rd (Suc fuel) ms ts =
     bindR (Some (TokenStream_Peek ts)) (\<lambda>tokenName.
       bindR (Some (MatchExpectedToken TOKEN_STRING ts)) (\<lambda>(name, ts1).
         bindR (Some (MatchExpectedToken TOKEN_MEMBER_ASSIGN ts1)) (\<lambda>(_, ts2).
           bindR (Parse_element rd fuel JNull ts2) (\<lambda>(e, ts3).
             bindR (Some (insert_member tokenName (name, e) ms)) (\<lambda>ms'.
               if next_is TOKEN_NEXT_ELEMENT ts3 then Parse_members rd fuel ms' (tl ts3)
               else Some (Inr (ms', ts3)))))))"
| "Parse_elements rd 0 xs ts = None"
| "Parse_elements rd (Suc fuel) xs ts =
     bindR (Parse_element rd fuel JNull ts) (\<lambda>(e, ts1).
       let xs' = Array_Insert e xs
       in if next_is TOKEN_NEXT_ELEMENT ts1 then Parse_elements rd fuel xs' (tl ts1)
          else Some (Inr (xs', ts1)))"
  by pat_completeness auto
termination
  by (relation "measure (\<lambda>x. case x of Inl (_, f, _) \<Rightarrow> f | Inr (Inl (_, f, _)) \<Rightarrow> f | Inr (Inr (_, f, _)) \<Rightarrow> f)")
    auto

definition Parse_object :: "(string \<Rightarrow> 'n \<times> bool \<times> int) \<Rightarrow> nat \<Rightarrow> 'n::zero Members \<Rightarrow> Token list
      \<Rightarrow> ('n Members \<times> Token list) run" where
  "Parse_object rd fuel ms ts = Parse_object_with (Parse_members rd fuel) ms ts"

section \<open>Reading a document\<close>

definition open_stream :: "string \<Rightarrow> InputStream" where
  "open_stream s = \<lparr>m_iStr = s, m_Location = Location0\<rparr>"

definition parse_fuel :: "Token list \<Rightarrow> nat" where
  "parse_fuel ts = 2 * length ts + 2"

text \<open>What follows the document is an error.\<close>

definition expect_end :: "'a \<times> Token list \<Rightarrow> 'a run" where
  "expect_end r =
     (case snd r of [] \<Rightarrow> Some (Inr (fst r))
      | t # _ \<Rightarrow> Some (Inl (ParseException
                  (Message (''Expected End of token stream; found '' @ sValue t)) (locBegin t) (locEnd t))))"

definition Read_object :: "(string \<Rightarrow> 'n \<times> bool \<times> int) \<Rightarrow> 'n::zero Members \<Rightarrow> string \<Rightarrow> 'n Members run" where
  "Read_object rd ms s =
     bindR (Some (Scan [] (open_stream s))) (\<lambda>(tokens, _).
       bindR (Parse_object rd (parse_fuel tokens) ms tokens) expect_end)"

definition Read_element :: "(string \<Rightarrow> 'n \<times> bool \<times> int) \<Rightarrow> 'n::zero UnknownElement \<Rightarrow> string \<Rightarrow> 'n UnknownElement run" where
  "Read_element rd e s =
     bindR (Some (Scan [] (open_stream s))) (\<lambda>(tokens, _).
       bindR (Parse_element rd (parse_fuel tokens) e tokens) expect_end)"

end
