(* ===== verification/Json_Roundtrip.thy ===== *)
theory Json_Roundtrip
  imports Json_Reader
begin

text \<open>
  Correctness of the JSON library: the scanner's locations count what was read, the parser
  always returns and yields well-formed documents, and reading what the writer wrote gives
  the document back.
\<close>

section \<open>Consumption and well-formedness\<close>

lemma MatchExpectedToken_Inr:
  "MatchExpectedToken ty ts = Inr (s, ts') \<longleftrightarrow>
     (\<exists>t. ts = t # ts' \<and> nType t = ty \<and> sValue t = s)"
  by (auto simp: MatchExpectedToken_def split: list.splits)

lemma next_is_Cons: "next_is ty ts \<longleftrightarrow> (\<exists>t us. ts = t # us \<and> nType t = ty)"
  by (auto simp: next_is_def split: list.splits)

lemma Parse_object_with_Inr:
  "Parse_object_with loop ms ts = Some (Inr (ms', ts')) \<Longrightarrow>
     (\<And>us ns us'. length us < length ts \<Longrightarrow> loop ns us = Some (Inr (ms', us')) \<Longrightarrow> ns = ms \<Longrightarrow>
        length us' < length us \<and> P ns ms') \<Longrightarrow> P ms ms \<Longrightarrow>
     length ts' < length ts \<and> P ms ms'"
  by (fastforce simp: Parse_object_with_def bindR_eq_Inr MatchExpectedToken_Inr split: if_splits)

lemma Parse_array_with_Inr:
  "Parse_array_with loop xs ts = Some (Inr (xs', ts')) \<Longrightarrow>
     (\<And>us ys us'. length us < length ts \<Longrightarrow> loop ys us = Some (Inr (xs', us')) \<Longrightarrow> ys = xs \<Longrightarrow>
        length us' < length us \<and> P ys xs') \<Longrightarrow> P xs xs \<Longrightarrow>
     length ts' < length ts \<and> P xs xs'"
  by (fastforce simp: Parse_array_with_def bindR_eq_Inr MatchExpectedToken_Inr split: if_splits)

lemma insert_member_Inr:
  "insert_member t (n, e) ms = Inr ms' \<longleftrightarrow> n \<notin> fst ` set ms \<and> ms' = ms @ [(n, e)]"
  by (auto simp: insert_member_def Object_Insert_def Object_Insert_at_def Object_Find_End
      split: sum.splits if_splits)

lemma Parse_members_Suc_Inr:
  "Parse_members rd (Suc f) ms ts = Some (Inr r) \<longleftrightarrow>
    (\<exists>t0 t1 ts2 e ts3. ts = t0 # t1 # ts2 \<and> nType t0 = TOKEN_STRING \<and> nType t1 = TOKEN_MEMBER_ASSIGN \<and>
       Parse_element rd f JNull ts2 = Some (Inr (e, ts3)) \<and> sValue t0 \<notin> fst ` set ms \<and>
       (if next_is TOKEN_NEXT_ELEMENT ts3 then Parse_members rd f (ms @ [(sValue t0, e)]) (tl ts3)
        else Some (Inr (ms @ [(sValue t0, e)], ts3))) = Some (Inr r))"
proof (cases "\<exists>t0 t1 ts2. ts = t0 # t1 # ts2 \<and> nType t0 = TOKEN_STRING \<and> nType t1 = TOKEN_MEMBER_ASSIGN")
  case True
  then obtain t0 t1 ts2 where "ts = t0 # t1 # ts2" "nType t0 = TOKEN_STRING" "nType t1 = TOKEN_MEMBER_ASSIGN"
    by blast
  then show ?thesis
    by (simp add: MatchExpectedToken_def bindR_eq_Inr insert_member_Inr split_paired_Ex)
next
  case False
  then show ?thesis
    by (auto simp: bindR_eq_Inr MatchExpectedToken_Inr)
qed

lemma Parse_members_neq_None:
  "(Parse_members rd (Suc f) ms ts \<noteq> None) \<longleftrightarrow>
    (\<forall>t0 t1 ts2. ts = t0 # t1 # ts2 \<longrightarrow> nType t0 = TOKEN_STRING \<longrightarrow> nType t1 = TOKEN_MEMBER_ASSIGN \<longrightarrow>
       Parse_element rd f JNull ts2 \<noteq> None \<and> 
       (\<forall>e ts3. Parse_element rd f JNull ts2 = Some (Inr (e, ts3)) \<longrightarrow> sValue t0 \<notin> fst ` set ms \<longrightarrow>
       (next_is TOKEN_NEXT_ELEMENT ts3 \<longrightarrow> Parse_members rd f (ms @ [(sValue t0, e)]) (tl ts3) \<noteq> None)))"
  by (simp add: bindR_neq_None [unfolded not_None_eq] MatchExpectedToken_Inr TokenStream_Peek_Inr insert_member_Inr
      split_paired_All) blast

lemma Parse_elements_Suc_Inr:
  "Parse_elements rd (Suc f) xs ts = Some (Inr r) \<longleftrightarrow>
     (\<exists>e ts1. Parse_element rd f JNull ts = Some (Inr (e, ts1)) \<and>
        (if next_is TOKEN_NEXT_ELEMENT ts1 then Parse_elements rd f (xs @ [e]) (tl ts1)
         else Some (Inr (xs @ [e], ts1))) = Some (Inr r))"
  by (simp add: bindR_eq_Inr Array_Insert_def Array_Insert_at_def split_paired_Ex Let_def)

lemma Parse_elements_neq_None:
  "Parse_elements rd (Suc f) xs ts \<noteq> None \<longleftrightarrow>
     Parse_element rd f JNull ts \<noteq> None \<and>
     (\<forall>e ts1. Parse_element rd f JNull ts = Some (Inr (e, ts1)) \<longrightarrow>
        next_is TOKEN_NEXT_ELEMENT ts1 \<longrightarrow> Parse_elements rd f (xs @ [e]) (tl ts1) \<noteq> None)"
  by (simp add: bindR_neq_None [unfolded not_None_eq] Array_Insert_def Array_Insert_at_def
      split_paired_All Let_def) blast

declare Parse_members.simps(2) [simp del] Parse_elements.simps(2) [simp del]

lemma wf_ConvertTo:
  "wf_element e \<Longrightarrow> wf_members (members_of (ConvertTo TObject e))"
  "wf_element e \<Longrightarrow> \<forall>x\<in>set (elements_of (ConvertTo TArray e)). wf_element x"
  by (cases e; auto simp: ConvertTo_def)+

lemma Parse_consumes:
  "Parse_element rd f e ts = Some (Inr (e', ts')) \<Longrightarrow>
     length ts' < length ts \<and> (wf_element e \<longrightarrow> wf_element e')"
  "Parse_members rd f ms ts = Some (Inr (ms', ts')) \<Longrightarrow>
     length ts' < length ts \<and> (wf_members ms \<longrightarrow> wf_members ms')"
  "Parse_elements rd f xs ts = Some (Inr (xs', ts')) \<Longrightarrow>
     length ts' < length ts \<and> ((\<forall>x\<in>set xs. wf_element x) \<longrightarrow> (\<forall>x\<in>set xs'. wf_element x))"
proof (induction f arbitrary: e ts e' ts' ms ms' xs xs')
  case 0
  { case 1 then show ?case by simp next case 2 then show ?case by simp
  next case 3 then show ?case by simp }
next
  case (Suc f)
  {
    case 1
    then obtain t us where ts: "ts = t # us"
      by (auto simp: Parse_element_with_def split: list.splits)
    show ?case
    proof (cases "nType t")
      case TOKEN_OBJECT_BEGIN
      with 1 ts obtain ms' where e': "e' = JObject ms'"
        and p: "Parse_object_with (Parse_members rd f) (members_of (ConvertTo TObject e)) ts
                = Some (Inr (ms', ts'))"
        by (auto simp: Parse_element_with_def bindR_eq_Inr)
      have "length ts' < length ts \<and>
          (wf_members (members_of (ConvertTo TObject e)) \<longrightarrow> wf_members ms')"
        by (rule Parse_object_with_Inr [OF p]) (use Suc.IH(2) in blast)+
      with e' wf_ConvertTo(1) [of e] show ?thesis by blast
    next
      case TOKEN_ARRAY_BEGIN
      with 1 ts obtain xs' where e': "e' = JArray xs'"
        and p: "Parse_array_with (Parse_elements rd f) (elements_of (ConvertTo TArray e)) ts
                = Some (Inr (xs', ts'))"
        by (auto simp: Parse_element_with_def bindR_eq_Inr)
      have "length ts' < length ts \<and>
          ((\<forall>x\<in>set (elements_of (ConvertTo TArray e)). wf_element x) \<longrightarrow> (\<forall>x\<in>set xs'. wf_element x))"
        by (rule Parse_array_with_Inr [OF p]) (use Suc.IH(3) in blast)+
      with wf_ConvertTo(2) [of e] show ?thesis unfolding e' wf_element.simps by blast
    qed (use 1 ts in \<open>auto simp: Parse_element_with_def Parse_string_def Parse_number_def
        Parse_boolean_def Parse_null_def MatchExpectedToken_Inr Let_def split: prod.splits if_splits\<close>)
  next
    case 2
    from 2 [unfolded Parse_members_Suc_Inr] obtain t0 t1 ts2 e1 ts3 where ts: "ts = t0 # t1 # ts2"
      and pe: "Parse_element rd f JNull ts2 = Some (Inr (e1, ts3))"
      and ins: "sValue t0 \<notin> fst ` set ms"
      and rest: "(if next_is TOKEN_NEXT_ELEMENT ts3
                  then Parse_members rd f (ms @ [(sValue t0, e1)]) (tl ts3)
                  else Some (Inr (ms @ [(sValue t0, e1)], ts3))) = Some (Inr (ms', ts'))"
      by (elim exE conjE) (rule that; assumption)
    from Suc.IH(1) [OF pe] have pe': "length ts3 < length ts2" "wf_element e1" by auto
    have wf: "wf_members (ms @ [(sValue t0, e1)])" if "wf_members ms"
      using that ins pe'(2) by auto
    show ?case
    proof (cases "next_is TOKEN_NEXT_ELEMENT ts3")
      case True
      with rest have "Parse_members rd f (ms @ [(sValue t0, e1)]) (tl ts3) = Some (Inr (ms', ts'))"
        by simp
      note IH = Suc.IH(2) [OF this]
      show ?thesis
      proof (intro conjI impI)
        show "length ts' < length ts" using IH [THEN conjunct1] pe'(1) ts by simp
        show "wf_members ms \<Longrightarrow> wf_members ms'" using IH wf by blast
      qed
    next
      case False
      with rest have r: "ms' = ms @ [(sValue t0, e1)]" "ts' = ts3" by simp_all
      show ?thesis unfolding r using pe'(1) ts wf by (simp del: wf_element.simps)
    qed
  next
    case 3
    from 3 [unfolded Parse_elements_Suc_Inr] obtain e1 ts3 where pe: "Parse_element rd f JNull ts = Some (Inr (e1, ts3))"
      and rest: "(if next_is TOKEN_NEXT_ELEMENT ts3
                  then Parse_elements rd f (xs @ [e1]) (tl ts3)
                  else Some (Inr (xs @ [e1], ts3))) = Some (Inr (xs', ts'))"
      by (elim exE conjE) (rule that; assumption)
    from Suc.IH(1) [OF pe] have pe': "length ts3 < length ts" "wf_element e1" by auto
    show ?case
    proof (cases "next_is TOKEN_NEXT_ELEMENT ts3")
      case True
      with rest have "Parse_elements rd f (xs @ [e1]) (tl ts3) = Some (Inr (xs', ts'))" by simp
      from Suc.IH(3) [OF this] pe' show ?thesis by auto
    next
      case False
      with rest pe' show ?thesis by auto
    qed
  }
qed

section \<open>The parser returns\<close>

lemma Parse_enough_fuel:
  "2 * length ts < f \<Longrightarrow> Parse_element rd f e ts \<noteq> None"
  "2 * length ts + 1 < f \<Longrightarrow> Parse_members rd f ms ts \<noteq> None"
  "2 * length ts + 1 < f \<Longrightarrow> Parse_elements rd f xs ts \<noteq> None"
proof (induction f arbitrary: e ts ms xs)
  case 0
  { case 1 then show ?case by simp next case 2 then show ?case by simp
  next case 3 then show ?case by simp }
next
  case (Suc f)
  note len = Parse_consumes(1) [THEN conjunct1]
  {
    case 1
    have *: "length us < length ts \<Longrightarrow> Parse_members rd f ms us \<noteq> None"
      "length us < length ts \<Longrightarrow> Parse_elements rd f xs us \<noteq> None" for ms xs us
      using 1 Suc.IH(2,3) [of us] by auto
    show ?case
      by (auto simp: Parse_element_with_def Parse_object_with_def Parse_array_with_def
          bindR_def MatchExpectedToken_Inr * split: list.splits TokenType.splits option.splits
          sum.splits if_splits)
  next
    case 2
    show ?case
      unfolding Parse_members_neq_None
    proof (intro allI impI conjI)
      fix t0 t1 ts2
      assume ts: "ts = t0 # t1 # ts2"
      with 2 show "Parse_element rd f JNull ts2 \<noteq> None" by (intro Suc.IH(1)) auto
      fix e ts3
      assume "Parse_element rd f JNull ts2 = Some (Inr (e, ts3))"
      from len [OF this] ts 2 show "Parse_members rd f (ms @ [(sValue t0, e)]) (tl ts3) \<noteq> None"
        by (intro Suc.IH(2)) auto
    qed
  next
    case 3
    show ?case
      unfolding Parse_elements_neq_None
    proof (intro allI impI conjI)
      from 3 show "Parse_element rd f JNull ts \<noteq> None" by (intro Suc.IH(1)) auto
      fix e ts1
      assume "Parse_element rd f JNull ts = Some (Inr (e, ts1))" and "next_is TOKEN_NEXT_ELEMENT ts1"
      with len [OF this(1)] 3 show "Parse_elements rd f (xs @ [e]) (tl ts1) \<noteq> None"
        by (intro Suc.IH(3)) (auto simp: next_is_Cons)
    qed
  }
qed

section \<open>Scanning what the writer wrote\<close>

abbreviation tv :: "Token \<Rightarrow> TokenType \<times> string" where
  "tv t \<equiv> (nType t, sValue t)"

definition starts_plain :: "string \<Rightarrow> bool" where
  "starts_plain s \<longleftrightarrow> (case s of [] \<Rightarrow> True | c # _ \<Rightarrow> \<not> numericChar c)"

text \<open>\<open>scans xs tvs\<close>: wherever \<open>xs\<close> comes next, the scanner turns it into the tokens \<open>tvs\<close> and
  goes on behind it. In \<open>scans_before\<close> what follows must not continue a number.\<close>

definition scans_where :: "(string \<Rightarrow> bool) \<Rightarrow> string \<Rightarrow> (TokenType \<times> string) list \<Rightarrow> bool" where
  "scans_where P xs tvs \<longleftrightarrow>
     (\<forall>is rest tokens. m_iStr is = xs @ rest \<longrightarrow> P rest \<longrightarrow>
        (\<exists>ts is'. Scan tokens is = Scan (tokens @ ts) is' \<and> m_iStr is' = rest \<and> map tv ts = tvs))"

abbreviation scans :: "string \<Rightarrow> (TokenType \<times> string) list \<Rightarrow> bool" where
  "scans \<equiv> scans_where (\<lambda>_. True)"

abbreviation scans_before :: "string \<Rightarrow> (TokenType \<times> string) list \<Rightarrow> bool" where
  "scans_before \<equiv> scans_where starts_plain"

lemma scans_where_append:
  assumes "scans_where P xs a" and "scans_where Q ys b" and "\<And>rest. Q rest \<Longrightarrow> P (ys @ rest)"
  shows "scans_where Q (xs @ ys) (a @ b)"
  unfolding scans_where_def
proof (intro allI impI)
  fix "is" :: InputStream and rest tokens
  assume i: "m_iStr is = (xs @ ys) @ rest" and q: "Q rest"
  then obtain ts1 is1 where 1: "Scan tokens is = Scan (tokens @ ts1) is1" "m_iStr is1 = ys @ rest"
    "map tv ts1 = a"
    using assms(1,3) unfolding scans_where_def by (metis append_assoc)
  obtain ts2 is2 where "Scan (tokens @ ts1) is1 = Scan ((tokens @ ts1) @ ts2) is2" "m_iStr is2 = rest"
    "map tv ts2 = b"
    using assms(2) 1(2) q unfolding scans_where_def by metis
  with 1 show "\<exists>ts is'. Scan tokens is = Scan (tokens @ ts) is' \<and> m_iStr is' = rest \<and> map tv ts = a @ b"
    by (intro exI [of _ "ts1 @ ts2"] exI [of _ is2]) simp
qed

lemma scans_append: "scans xs a \<Longrightarrow> scans_where P ys b \<Longrightarrow> scans_where P (xs @ ys) (a @ b)"
  by (rule scans_where_append) auto

lemma scans_before_append:
  "scans_before xs a \<Longrightarrow> scans_where P ys b \<Longrightarrow> ys \<noteq> [] \<Longrightarrow> starts_plain ys \<Longrightarrow>
     scans_where P (xs @ ys) (a @ b)"
  by (erule scans_where_append, assumption) (auto simp: starts_plain_def split: list.splits)

lemma scans_weaken: "scans xs a \<Longrightarrow> scans_where P xs a"
  by (auto simp: scans_where_def)

lemma scans_Nil [simp]: "scans [] []"
  unfolding scans_where_def by (auto intro!: exI [of _ "[]"])

lemma Scan_step:
  assumes "m_iStr is = c # cs" "\<not> isspace c" "Scan_token c is = Inr (t, is')"
  shows "Scan tokens is = Scan (tokens @ [t]) is'"
proof -
  have "EatWhiteSpace is = is"
    using assms(1,2) by (subst EatWhiteSpace.simps) (auto simp: InputStream_Get_def)
  with assms show ?thesis by (subst Scan.simps) simp
qed

lemma Scan_space:
  assumes "m_iStr is = c # cs" "isspace c"
  shows "\<exists>is'. m_iStr is' = cs \<and> Scan tokens is = Scan tokens is'"
proof -
  obtain is' where g: "InputStream_Get is = Some (c, is')" "m_iStr is' = cs"
    using assms(1) by (auto simp: InputStream_Get_def)
  then have "EatWhiteSpace is = EatWhiteSpace is'"
    using assms(2) by (subst EatWhiteSpace.simps) simp
  then have "Scan tokens is = Scan tokens is'"
    by (simp only: Scan.simps [of tokens])
  with g show ?thesis by blast
qed

lemma scans_space: "isspace c \<Longrightarrow> scans [c] []"
  unfolding scans_where_def by (auto intro!: exI [of _ "[]"]) (metis Scan_space)

lemma scans_token:
  assumes "\<not> isspace c"
    and "\<And>is rest. m_iStr is = c # xs @ rest \<Longrightarrow> P rest \<Longrightarrow>
       \<exists>t is'. Scan_token c is = Inr (t, is') \<and> m_iStr is' = rest \<and> tv t = v"
  shows "scans_where P (c # xs) [v]"
  unfolding scans_where_def
proof (intro allI impI)
  fix "is" :: InputStream and rest tokens
  assume i: "m_iStr is = (c # xs) @ rest" and p: "P rest"
  then obtain t is' where t: "Scan_token c is = Inr (t, is')" "m_iStr is' = rest" "tv t = v"
    using assms(2) [of "is" rest] by auto
  from Scan_step [OF _ assms(1) t(1)] i have "Scan tokens is = Scan (tokens @ [t]) is'" by simp
  with t(2,3) show "\<exists>ts is'. Scan tokens is = Scan (tokens @ ts) is' \<and> m_iStr is' = rest \<and> map tv ts = [v]"
    by (intro exI [of _ "[t]"] exI [of _ is']) auto
qed

lemma MatchExpected_ok:
  "m_iStr is = xs @ rest \<Longrightarrow> \<exists>is'. MatchExpected_loop e xs is = Inr is' \<and> m_iStr is' = rest"
proof (induction xs arbitrary: "is")
  case Nil
  then show ?case by (simp add: MatchExpected_loop.simps)
next
  case (Cons x xs)
  obtain i1 where "InputStream_Get is = Some (x, i1)" "m_iStr i1 = xs @ rest"
    using Cons.prems by (auto simp: InputStream_Get_def)
  with Cons.IH [of i1] show ?case by (simp add: MatchExpected_loop.simps)
qed

lemma Scan_expected_ok:
  "m_iStr is = s @ rest \<Longrightarrow>
     \<exists>t is'. Scan_expected is ty s = Inr (t, is') \<and> m_iStr is' = rest \<and> tv t = (ty, s)"
  using MatchExpected_ok [of "is" s rest s]
  by (auto simp: Scan_expected_def MatchExpectedString_def mk_token_def)

lemma scans_expected:
  "\<not> isspace c \<Longrightarrow> (\<And>is. Scan_token c is = Scan_expected is ty (c # xs)) \<Longrightarrow>
     scans (c # xs) [(ty, c # xs)]"
  by (rule scans_token) (use Scan_expected_ok [of _ "c # xs"] in auto)

lemma scans_punctuation [simp]:
  "scans ''{'' [(TOKEN_OBJECT_BEGIN, ''{'')]" "scans ''}'' [(TOKEN_OBJECT_END, ''}'')]"
  "scans ''['' [(TOKEN_ARRAY_BEGIN, ''['')]" "scans '']'' [(TOKEN_ARRAY_END, '']'')]"
  "scans '','' [(TOKEN_NEXT_ELEMENT, '','')]" "scans '':'' [(TOKEN_MEMBER_ASSIGN, '':'')]"
  "scans ''true'' [(TOKEN_BOOLEAN, ''true'')]" "scans ''false'' [(TOKEN_BOOLEAN, ''false'')]"
  "scans ''null'' [(TOKEN_NULL, ''null'')]"
  by (rule scans_expected; simp add: Scan_token_def isspace_def)+

lemma scans_spaces: "(\<forall>c\<in>set ws. isspace c) \<Longrightarrow> scans ws []"
proof (induction ws)
  case (Cons c ws)
  then show ?case using scans_append [OF scans_space [of c], of "\<lambda>_. True" ws "[]"] by simp
qed simp

lemma MatchString_loop_step:
  assumes "m_iStr is = c # cs" "c \<noteq> quote" "c \<noteq> backslash"
  shows "\<exists>is'. m_iStr is' = cs \<and> MatchString_loop acc is = MatchString_loop (acc @ [c]) is'"
  using assms by (subst MatchString_loop.simps)
    (auto simp: InputStream_Get_def intro!: exI [of _ "is\<lparr>m_iStr := cs, m_Location := _\<rparr>"])

lemma MatchString_loop_escape:
  assumes "m_iStr is = backslash # c # cs" "unescape_char c = Some x"
  shows "\<exists>is'. m_iStr is' = cs \<and> MatchString_loop acc is = MatchString_loop (acc @ [x]) is'"
  using assms by (subst MatchString_loop.simps)
    (auto simp: InputStream_Get_def intro!: exI [of _ "is\<lparr>m_iStr := cs, m_Location := _\<rparr>"])

lemma MatchString_loop_char:
  assumes "m_iStr is = escape_char c @ cs"
  shows "\<exists>is'. m_iStr is' = cs \<and> MatchString_loop acc is = MatchString_loop (acc @ [c]) is'"
proof (cases "\<exists>d. escape_char c = [backslash, d] \<and> unescape_char d = Some c")
  case True
  with assms show ?thesis using MatchString_loop_escape by fastforce
next
  case False
  then have "escape_char c = [c]" "c \<noteq> quote" "c \<noteq> backslash"
    by (auto simp: escape_char_def unescape_char_def split: if_splits)
  with assms show ?thesis using MatchString_loop_step by fastforce
qed

lemma MatchString_loop_end:
  "m_iStr is = quote # cs \<Longrightarrow> MatchString_loop acc is = Inr (acc, is)"
  by (subst MatchString_loop.simps) (auto simp: InputStream_Get_def)

lemma MatchString_loop_written:
  "m_iStr is = Write_chars s @ quote # rest \<Longrightarrow>
     \<exists>is'. MatchString_loop acc is = Inr (acc @ s, is') \<and> m_iStr is' = quote # rest"
proof (induction s arbitrary: acc "is")
  case Nil
  then show ?case using MatchString_loop_end by auto
next
  case (Cons c s)
  then obtain i1 where "m_iStr i1 = Write_chars s @ quote # rest"
    "MatchString_loop acc is = MatchString_loop (acc @ [c]) i1"
    using MatchString_loop_char [of "is" c "Write_chars s @ quote # rest" acc] by auto
  with Cons.IH [of i1 "acc @ [c]"] show ?case by auto
qed

definition plain_name :: "string \<Rightarrow> bool" where
  "plain_name s \<longleftrightarrow> quote \<notin> set s \<and> backslash \<notin> set s"

lemma MatchString_loop_plain:
  "m_iStr is = s @ quote # rest \<Longrightarrow> plain_name s \<Longrightarrow>
     \<exists>is'. MatchString_loop acc is = Inr (acc @ s, is') \<and> m_iStr is' = quote # rest"
proof (induction s arbitrary: acc "is")
  case Nil
  then show ?case using MatchString_loop_end by auto
next
  case (Cons c s)
  then obtain i1 where "m_iStr i1 = s @ quote # rest"
    "MatchString_loop acc is = MatchString_loop (acc @ [c]) i1"
    using MatchString_loop_step [of "is" c "s @ quote # rest" acc] by (auto simp: plain_name_def)
  with Cons show ?case by (auto simp: plain_name_def dest!: Cons.IH [of i1 "acc @ [c]"])
qed

lemma MatchString_ok:
  assumes "m_iStr is = quote # body @ quote # rest"
    and "\<And>i. m_iStr i = body @ quote # rest \<Longrightarrow>
       \<exists>is'. MatchString_loop [] i = Inr (s, is') \<and> m_iStr is' = quote # rest"
  shows "\<exists>is'. MatchString is = Inr (s, is') \<and> m_iStr is' = rest"
proof -
  obtain i1 where 1: "MatchExpectedString [quote] is = Inr i1" "m_iStr i1 = body @ quote # rest"
    using MatchExpected_ok [of "is" "[quote]" "body @ quote # rest"] assms(1)
    by (auto simp: MatchExpectedString_def)
  obtain i2 where 2: "MatchString_loop [] i1 = Inr (s, i2)" "m_iStr i2 = quote # rest"
    using assms(2) [OF 1(2)] by blast
  obtain i3 where "MatchExpectedString [quote] i2 = Inr i3" "m_iStr i3 = rest"
    using MatchExpected_ok [of i2 "[quote]" rest] 2(2) by (auto simp: MatchExpectedString_def)
  with 1 2 show ?thesis by (simp add: MatchString_def)
qed

lemma scans_quoted:
  assumes "\<And>i rest. m_iStr i = body @ quote # rest \<Longrightarrow>
       \<exists>is'. MatchString_loop [] i = Inr (s, is') \<and> m_iStr is' = quote # rest"
  shows "scans (quote # body @ [quote]) [(TOKEN_STRING, s)]"
proof (rule scans_token)
  show "\<not> isspace quote" by (simp add: isspace_def)
  fix "is" :: InputStream and rest
  assume "m_iStr is = quote # (body @ [quote]) @ rest"
  then obtain is' where "MatchString is = Inr (s, is')" "m_iStr is' = rest"
    using MatchString_ok [of "is" body rest s] assms by auto
  then show "\<exists>t is'. Scan_token quote is = Inr (t, is') \<and> m_iStr is' = rest \<and> tv t = (TOKEN_STRING, s)"
    by (auto simp: Scan_token_def mk_token_def)
qed

lemma scans_Write_String: "scans (Write_String s) [(TOKEN_STRING, s)]"
  unfolding Write_String_def using MatchString_loop_written [where acc = "[]"]
  by (intro scans_quoted) auto

lemma scans_name: "plain_name s \<Longrightarrow> scans (quote # s @ [quote]) [(TOKEN_STRING, s)]"
  using MatchString_loop_plain [where acc = "[]"] by (intro scans_quoted) auto

text \<open>A number is readable when its printed form is a run of numeric characters that the
  scanner enters, and extraction from it gives the number back and consumes it all.\<close>

definition number_text :: "string \<Rightarrow> bool" where
  "number_text s \<longleftrightarrow> s \<noteq> [] \<and> hd s \<in> set ''-0123456789'' \<and> (\<forall>c\<in>set s. numericChar c)"

lemma scans_number:
  assumes "number_text s"
  shows "scans_before s [(TOKEN_NUMBER, s)]"
proof -
  obtain c xs where s: "s = c # xs" and c: "c \<in> set ''-0123456789''"
    using assms by (cases s) (auto simp: number_text_def)
  have num: "\<forall>c\<in>set s. numericChar c" using assms by (simp add: number_text_def)
  show ?thesis
    unfolding s
  proof (rule scans_token)
    show "\<not> isspace c" using c by (auto simp: isspace_def)
    fix "is" :: InputStream and rest
    assume i: "m_iStr is = c # xs @ rest" and p: "starts_plain rest"
    have "takeWhile numericChar (m_iStr is) = s \<and> dropWhile numericChar (m_iStr is) = rest"
    proof (cases rest)
      case Nil
      with i s num show ?thesis by (simp add: takeWhile_eq_all_conv dropWhile_eq_Nil_conv)
    next
      case (Cons d ds)
      with p have "\<not> numericChar d" by (simp add: starts_plain_def)
      with takeWhile_append_stop [OF num this] dropWhile_append_stop [OF num this] i s Cons
      show ?thesis by simp
    qed
    with MatchNumber_eq [of "[]" "is"] c s
    show "\<exists>t is'. Scan_token c is = Inr (t, is') \<and> m_iStr is' = rest \<and> tv t = (TOKEN_NUMBER, c # xs)"
      by (auto simp: Scan_token_def mk_token_def)
  qed
qed

section \<open>The token sequence of a document\<close>

fun tokens_of :: "('n \<Rightarrow> string) \<Rightarrow> 'n UnknownElement \<Rightarrow> (TokenType \<times> string) list"
  and tokens_of_elements :: "('n \<Rightarrow> string) \<Rightarrow> 'n UnknownElement list \<Rightarrow> (TokenType \<times> string) list"
  and tokens_of_members :: "('n \<Rightarrow> string) \<Rightarrow> 'n Members \<Rightarrow> (TokenType \<times> string) list" where
  "tokens_of shw (JArray xs) =
     (TOKEN_ARRAY_BEGIN, ''['') # tokens_of_elements shw xs @ [(TOKEN_ARRAY_END, '']'')]"
| "tokens_of shw (JObject ms) =
     (TOKEN_OBJECT_BEGIN, ''{'') # tokens_of_members shw ms @ [(TOKEN_OBJECT_END, ''}'')]"
| "tokens_of shw (JNumber n) = [(TOKEN_NUMBER, shw n)]"
| "tokens_of shw (JBoolean b) = [(TOKEN_BOOLEAN, Write_Boolean b)]"
| "tokens_of shw (JString s) = [(TOKEN_STRING, s)]"
| "tokens_of shw JNull = [(TOKEN_NULL, ''null'')]"
| "tokens_of_elements shw [] = []"
| "tokens_of_elements shw (x # xs) =
     tokens_of shw x @ (if xs = [] then [] else [(TOKEN_NEXT_ELEMENT, '','')]) @ tokens_of_elements shw xs"
| "tokens_of_members shw [] = []"
| "tokens_of_members shw (m # ms) =
     [(TOKEN_STRING, fst m), (TOKEN_MEMBER_ASSIGN, '':'')] @ tokens_of shw (snd m)
       @ (if ms = [] then [] else [(TOKEN_NEXT_ELEMENT, '','')]) @ tokens_of_members shw ms"

text \<open>What the writer can express: member names without quotes and backslashes (they are not
  escaped) and numbers whose printed form reads back.\<close>

fun writable :: "('n \<Rightarrow> string) \<Rightarrow> (string \<Rightarrow> 'n \<times> bool \<times> int) \<Rightarrow> 'n UnknownElement \<Rightarrow> bool" where
  "writable shw rd (JArray xs) = (\<forall>x\<in>set xs. writable shw rd x)"
| "writable shw rd (JObject ms) =
     (\<forall>m\<in>set ms. plain_name (fst m) \<and> writable shw rd (snd m))"
| "writable shw rd (JNumber n) =
     (number_text (shw n) \<and> fst (rd (shw n)) = n \<and> fst (snd (rd (shw n))))"
| "writable shw rd _ = True"

lemma scans_LF: "scans [LF] []"
  by (rule scans_space) (simp add: isspace_def)

lemma scans_tabs: "scans (tabs d) []"
  by (rule scans_spaces) (auto simp: tabs_def isspace_def)

lemma scans_colon: "scans '' : '' [(TOKEN_MEMBER_ASSIGN, '':'')]"
proof -
  have sp: "scans '' '' []" by (rule scans_space) (simp add: isspace_def)
  from scans_append [OF sp scans_append [OF scans_punctuation(6) sp]] show ?thesis by simp
qed

lemma starts_plain_sep: "starts_plain ((if b then [] else '','') @ [LF] @ xs)"
  by (simp add: starts_plain_def numericChar_def)

lemma scans_sep: "scans (if b then [] else '','') (if b then [] else [(TOKEN_NEXT_ELEMENT, '','')])"
  by simp

lemma scans_Write_element:
  "writable shw rd e \<Longrightarrow> scans_before (Write_element shw d e) (tokens_of shw e)"
  "\<forall>x\<in>set xs. writable shw rd x \<Longrightarrow> scans (Write_elements shw d xs) (tokens_of_elements shw xs)"
  "\<forall>m\<in>set ms. plain_name (fst m) \<and> writable shw rd (snd m) \<Longrightarrow>
     scans (Write_members shw d ms) (tokens_of_members shw ms)"
proof (induction shw d e and shw d xs and shw d ms
    rule: Write_element_Write_elements_Write_members.induct)
  case (1 shw d xs)
  show ?case
  proof (cases "xs = []")
    case True
    have "scans (''['' @ '']'') ([(TOKEN_ARRAY_BEGIN, ''['')] @ [(TOKEN_ARRAY_END, '']'')])"
      by (intro scans_append scans_punctuation)
    with True show ?thesis by (simp add: scans_weaken)
  next
    case False
    have "scans (Write_elements shw (Suc d) xs) (tokens_of_elements shw xs)"
      using 1 False by simp
    then have "scans (''['' @ [LF] @ Write_elements shw (Suc d) xs @ tabs d @ '']'')
       ([(TOKEN_ARRAY_BEGIN, ''['')] @ [] @ tokens_of_elements shw xs @ [] @ [(TOKEN_ARRAY_END, '']'')])"
      by (intro scans_append scans_LF scans_tabs scans_punctuation)
    with False show ?thesis by (simp add: scans_weaken)
  qed
next
  case (2 shw d ms)
  show ?case
  proof (cases "ms = []")
    case True
    have "scans (''{'' @ ''}'') ([(TOKEN_OBJECT_BEGIN, ''{'')] @ [(TOKEN_OBJECT_END, ''}'')])"
      by (intro scans_append scans_punctuation)
    with True show ?thesis by (simp add: scans_weaken)
  next
    case False
    have "scans (Write_members shw (Suc d) ms) (tokens_of_members shw ms)"
      using 2 False by simp
    then have "scans (''{'' @ [LF] @ Write_members shw (Suc d) ms @ tabs d @ ''}'')
       ([(TOKEN_OBJECT_BEGIN, ''{'')] @ [] @ tokens_of_members shw ms @ [] @ [(TOKEN_OBJECT_END, ''}'')])"
      by (intro scans_append scans_LF scans_tabs scans_punctuation)
    with False show ?thesis by (simp add: scans_weaken)
  qed
next
  case (3 shw d n)
  then show ?case by (simp add: scans_number)
next
  case (4 shw d b)
  then show ?case by (simp add: scans_weaken Write_Boolean_def)
next
  case (5 shw d s)
  then show ?case by (simp add: scans_weaken scans_Write_String)
next
  case (6 shw d)
  then show ?case by (simp add: scans_weaken)
next
  case (8 shw d x xs)
  have e: "scans_before (Write_element shw d x) (tokens_of shw x)"
    and r: "scans (Write_elements shw d xs) (tokens_of_elements shw xs)" using 8 by simp_all
  have "scans (tabs d @ Write_element shw d x @ ((if xs = [] then [] else '','') @ [LF] @ Write_elements shw d xs))
    ([] @ tokens_of shw x @ ((if xs = [] then [] else [(TOKEN_NEXT_ELEMENT, '','')]) @ [] @ tokens_of_elements shw xs))"
    by (intro scans_append scans_before_append scans_tabs scans_sep scans_LF starts_plain_sep e r) simp
  then show ?case by simp
next
  case (10 shw d name e ms)
  have e: "scans_before (Write_element shw d e) (tokens_of shw e)"
    and r: "scans (Write_members shw d ms) (tokens_of_members shw ms)"
    and n: "scans (quote # name @ [quote]) [(TOKEN_STRING, name)]" using 10 by (simp_all add: scans_name)
  have "scans (tabs d @ (quote # name @ [quote]) @ '' : '' @ Write_element shw d e
        @ ((if ms = [] then [] else '','') @ [LF] @ Write_members shw d ms))
    ([] @ [(TOKEN_STRING, name)] @ [(TOKEN_MEMBER_ASSIGN, '':'')] @ tokens_of shw e
        @ ((if ms = [] then [] else [(TOKEN_NEXT_ELEMENT, '','')]) @ [] @ tokens_of_members shw ms))"
    by (intro scans_append scans_before_append scans_tabs scans_sep scans_LF starts_plain_sep
        scans_colon n e r) simp
  then show ?case by simp
qed simp_all

section \<open>Parsing the token sequence\<close>

lemma tokens_of_Cons: "\<exists>ty v r. tokens_of shw e = (ty, v) # r \<and>
   ty \<notin> {TOKEN_OBJECT_END, TOKEN_ARRAY_END, TOKEN_NEXT_ELEMENT, TOKEN_MEMBER_ASSIGN}"
  by (cases e) auto

lemma map_tv_Cons:
  "map tv ts = (ty, v) # r \<longleftrightarrow> (\<exists>t us. ts = t # us \<and> nType t = ty \<and> sValue t = v \<and> map tv us = r)"
  by (cases ts) auto

lemma MatchExpectedToken_hit:
  "map tv ts = (ty, v) # r \<Longrightarrow> MatchExpectedToken ty ts = Inr (v, tl ts) \<and> map tv (tl ts) = r"
  by (auto simp: map_tv_Cons MatchExpectedToken_def)

abbreviation closes :: "(TokenType \<times> string) list \<Rightarrow> bool" where
  "closes r \<equiv> (\<exists>ty v q. r = (ty, v) # q \<and> (ty = TOKEN_OBJECT_END \<or> ty = TOKEN_ARRAY_END))"

lemma next_is_tv:
  "map tv ts = (ty, v) # r \<Longrightarrow> next_is ty' ts \<longleftrightarrow> ty = ty'"
  "map tv ts = (ty, v) # r \<Longrightarrow> next_is_not ty' ts \<longleftrightarrow> ty \<noteq> ty'"
  by (auto simp: map_tv_Cons next_is_def next_is_not_def)

lemma Parse_element_pos:
  "n < f \<Longrightarrow> Parse_element rd f e ts =
     Parse_element_with rd (Parse_members rd (f - 1)) (Parse_elements rd (f - 1)) e ts"
  by (cases f) simp_all

lemma Parse_tokens_of:
  "writable shw rd e \<Longrightarrow> wf_element e \<Longrightarrow> map tv ts = tokens_of shw e @ r \<Longrightarrow> 2 * length ts < f \<Longrightarrow>
     \<exists>us. Parse_element rd f JNull ts = Some (Inr (e, us)) \<and> map tv us = r"
  "\<forall>x\<in>set xs. writable shw rd x \<and> wf_element x \<Longrightarrow> xs \<noteq> [] \<Longrightarrow>
     map tv ts = tokens_of_elements shw xs @ r \<Longrightarrow> closes r \<Longrightarrow> 2 * length ts + 1 < f \<Longrightarrow>
     \<exists>us. Parse_elements rd f acc ts = Some (Inr (acc @ xs, us)) \<and> map tv us = r"
  "\<forall>m\<in>set ms. plain_name (fst m) \<and> writable shw rd (snd m) \<and> wf_element (snd m) \<Longrightarrow> ms \<noteq> [] \<Longrightarrow>
     distinct (map fst (macc @ ms)) \<Longrightarrow>
     map tv ts = tokens_of_members shw ms @ r \<Longrightarrow> closes r \<Longrightarrow> 2 * length ts + 1 < f \<Longrightarrow>
     \<exists>us. Parse_members rd f macc ts = Some (Inr (macc @ ms, us)) \<and> map tv us = r"
proof (induction shw e and shw xs and shw ms arbitrary: ts r f and ts r f acc and ts r f macc
    rule: tokens_of_tokens_of_elements_tokens_of_members.induct)
  case (1 shw xs)
  then obtain g where f: "f = Suc g" by (cases f) auto
  from 1 obtain t us where ts: "ts = t # us" and t: "nType t = TOKEN_ARRAY_BEGIN"
    and us: "map tv us = tokens_of_elements shw xs @ (TOKEN_ARRAY_END, '']'') # r"
    by (auto simp: map_tv_Cons)
  have "\<exists>vs. (if next_is_not TOKEN_ARRAY_END us then Parse_elements rd g [] us else Some (Inr ([], us)))
         = Some (Inr (xs, vs)) \<and> map tv vs = (TOKEN_ARRAY_END, '']'') # r"
  proof (cases xs)
    case Nil
    with us next_is_tv(2) [of us] show ?thesis by auto
  next
    case (Cons x ys)
    obtain ty v q where q: "tokens_of shw x = (ty, v) # q" "ty \<noteq> TOKEN_ARRAY_END"
      using tokens_of_Cons [of shw x] by auto
    then have "next_is_not TOKEN_ARRAY_END us"
      using us Cons next_is_tv(2) [of us ty v] by simp
    moreover have "\<exists>vs. Parse_elements rd g [] us = Some (Inr ([] @ xs, vs)) \<and>
        map tv vs = (TOKEN_ARRAY_END, '']'') # r"
      using "1.prems" Cons ts f by (intro "1.IH" us) simp_all
    ultimately show ?thesis by simp
  qed
  then obtain vs where vs: "(if next_is_not TOKEN_ARRAY_END us then Parse_elements rd g [] us
      else Some (Inr ([], us))) = Some (Inr (xs, vs))" "map tv vs = (TOKEN_ARRAY_END, '']'') # r"
    by (elim exE conjE) (rule that)
  with MatchExpectedToken_hit [OF vs(2)] ts t f show ?case
    by (auto simp: Parse_element_with_def Parse_array_with_def MatchExpectedToken_def [of TOKEN_ARRAY_BEGIN]
        ConvertTo_def)
next
  case (2 shw ms)
  then obtain g where f: "f = Suc g" by (cases f) auto
  from 2 obtain t us where ts: "ts = t # us" and t: "nType t = TOKEN_OBJECT_BEGIN"
    and us: "map tv us = tokens_of_members shw ms @ (TOKEN_OBJECT_END, ''}'') # r"
    by (auto simp: map_tv_Cons)
  have "\<exists>vs. (if next_is_not TOKEN_OBJECT_END us then Parse_members rd g [] us else Some (Inr ([], us)))
         = Some (Inr (ms, vs)) \<and> map tv vs = (TOKEN_OBJECT_END, ''}'') # r"
  proof (cases ms)
    case Nil
    with us next_is_tv(2) [of us] show ?thesis by auto
  next
    case (Cons x ys)
    then have "next_is_not TOKEN_OBJECT_END us"
      using us next_is_tv(2) [of us TOKEN_STRING "fst x"] by simp
    moreover have "\<exists>vs. Parse_members rd g [] us = Some (Inr ([] @ ms, vs)) \<and>
        map tv vs = (TOKEN_OBJECT_END, ''}'') # r"
      using "2.prems" Cons ts f by (intro "2.IH" us) simp_all
    ultimately show ?thesis by simp
  qed
  then obtain vs where vs: "(if next_is_not TOKEN_OBJECT_END us then Parse_members rd g [] us
      else Some (Inr ([], us))) = Some (Inr (ms, vs))" "map tv vs = (TOKEN_OBJECT_END, ''}'') # r"
    by (elim exE conjE) (rule that)
  with MatchExpectedToken_hit [OF vs(2)] ts t f show ?case
    by (auto simp: Parse_element_with_def Parse_object_with_def MatchExpectedToken_def [of TOKEN_OBJECT_BEGIN]
        ConvertTo_def)
next
  case (8 shw x xs)
  then obtain g where f: "f = Suc g" by (cases f) auto
  let ?sep = "if xs = [] then [] else [(TOKEN_NEXT_ELEMENT, '','')]"
  obtain us where pe: "Parse_element rd g JNull ts = Some (Inr (x, us))"
    and us: "map tv us = ?sep @ tokens_of_elements shw xs @ r"
    using "8.IH"(1) [of ts "?sep @ tokens_of_elements shw xs @ r" g] 8(3,5-) f by auto
  show ?case
  proof (cases "xs = []")
    case True
    with us 8 have "\<not> next_is TOKEN_NEXT_ELEMENT us" using next_is_tv(1) [of us] by auto
    with True pe us f show ?thesis by (auto simp: Parse_elements_Suc_Inr)
  next
    case False
    with us have n: "next_is TOKEN_NEXT_ELEMENT us" and tl: "map tv (tl us) = tokens_of_elements shw xs @ r"
      using next_is_tv(1) [of us] by (auto simp: map_tv_Cons)
    have "length (tl us) < length ts"
      using Parse_consumes(1) [OF pe] by auto
    then have "\<exists>vs. Parse_elements rd g (acc @ [x]) (tl us) = Some (Inr ((acc @ [x]) @ xs, vs)) \<and> map tv vs = r"
      using False tl 8(3,6,7) f by (intro "8.IH"(2)) auto
    with n pe f show ?thesis by (auto simp: Parse_elements_Suc_Inr)
  qed
next
  case (10 shw m ms)
  then obtain g where f: "f = Suc g" by (cases f) auto
  let ?sep = "if ms = [] then [] else [(TOKEN_NEXT_ELEMENT, '','')]"
  from 10(6) obtain t0 t1 ts2 where ts: "ts = t0 # t1 # ts2" "nType t0 = TOKEN_STRING" "sValue t0 = fst m"
     "nType t1 = TOKEN_MEMBER_ASSIGN"
    and ts2: "map tv ts2 = tokens_of shw (snd m) @ ?sep @ tokens_of_members shw ms @ r"
    by (auto simp: map_tv_Cons)
  obtain us where pe: "Parse_element rd g JNull ts2 = Some (Inr (snd m, us))"
    and us: "map tv us = ?sep @ tokens_of_members shw ms @ r"
    using "10.IH"(1) [of ts2 "?sep @ tokens_of_members shw ms @ r" g] 10(3,8) ts2 ts(1) f by auto
  have new: "fst m \<notin> fst ` set macc" using 10(5) by auto
  show ?case
  proof (cases "ms = []")
    case True
    with us 10(7) have "\<not> next_is TOKEN_NEXT_ELEMENT us" using next_is_tv(1) [of us] by auto
    with True pe us f ts new show ?thesis by (auto simp: Parse_members_Suc_Inr)
  next
    case False
    with us have n: "next_is TOKEN_NEXT_ELEMENT us" and tl: "map tv (tl us) = tokens_of_members shw ms @ r"
      using next_is_tv(1) [of us] by (auto simp: map_tv_Cons)
    have "length (tl us) < length ts"
      using Parse_consumes(1) [OF pe] ts(1) by auto
    then have "\<exists>vs. Parse_members rd g (macc @ [m]) (tl us) = Some (Inr ((macc @ [m]) @ ms, vs)) \<and> map tv vs = r"
      using False tl 10(3,5,7,8) f by (intro "10.IH"(2)) auto
    with n pe f ts new show ?thesis by (auto simp: Parse_members_Suc_Inr)
  qed
qed (auto simp: map_tv_Cons Parse_element_with_def Parse_number_def Parse_boolean_def Parse_string_def
    Parse_null_def MatchExpectedToken_def Write_Boolean_def Parse_element_pos split: prod.splits)


section \<open>Reading back\<close>

lemma scans_whole:
  assumes "scans_before xs tvs"
  shows "\<exists>ts is'. Scan [] (open_stream xs) = Inr (ts, is') \<and> map tv ts = tvs"
proof -
  have "m_iStr (open_stream xs) = xs @ []" and "starts_plain []"
    by (simp_all add: open_stream_def starts_plain_def)
  then obtain ts is' where *: "Scan [] (open_stream xs) = Scan ([] @ ts) is'" "m_iStr is' = []" "map tv ts = tvs"
    using assms unfolding scans_where_def by metis
  have "Scan ([] @ ts) is' = Inr (ts, EatWhiteSpace is')"
    using *(2) by (subst Scan.simps) (simp add: EatWhiteSpace_iStr)
  with * show ?thesis by auto
qed

lemma Read_Write_element:
  assumes "writable shw rd e" "wf_element e"
  shows "Read_element rd JNull (Write shw e) = Some (Inr e)"
proof -
  obtain ts is' where sc: "Scan [] (open_stream (Write shw e)) = Inr (ts, is')" "map tv ts = tokens_of shw e"
    using scans_whole [OF scans_Write_element(1) [OF assms(1), of 0]] by (auto simp: Write_def)
  obtain us where "Parse_element rd (parse_fuel ts) JNull ts = Some (Inr (e, us))" "map tv us = []"
    using Parse_tokens_of(1) [OF assms, of ts "[]" "parse_fuel ts"] sc(2) by (auto simp: parse_fuel_def)
  with sc show ?thesis by (simp add: Read_element_def expect_end_def)
qed

lemma Parse_object_of_element:
  "Parse_element rd (Suc f) JNull ts = Some (Inr (JObject ms, us)) \<Longrightarrow>
     Parse_object rd f [] ts = Some (Inr (ms, us))"
  by (auto simp: Parse_element_with_def Parse_object_def ConvertTo_def bindR_eq_Inr Parse_string_def
      Parse_number_def Parse_boolean_def Parse_null_def split: list.splits TokenType.splits prod.splits if_splits)

end
