(* ===== verification/Json_Locations.thy ===== *)
theory Json_Locations
  imports Json_Roundtrip
begin

text \<open>
  Source locations of the cajun scanner (\<open>reader.inl\<close>, \<open>InputStream::Get\<close> and \<open>Reader::Scan\<close>):
  the location a stream carries is a function of the characters read so far, and every token
  spans a segment of the document between two such locations.
\<close>

section \<open>Locations\<close>

text \<open>The location reached after a prefix of the document, and its three components.\<close>

definition loc_of :: "string \<Rightarrow> Location" where
  "loc_of pre = fold advance pre Location0"

lemma loc_of_snoc: "loc_of (pre @ [c]) = advance c (loc_of pre)"
  by (simp add: loc_of_def)

lemma loc_of_components:
  "m_nDocOffset (loc_of pre) = of_nat (length pre)"
  "m_nLine (loc_of pre) = of_nat (length (filter (\<lambda>c. c = LF) pre))"
  "m_nLineOffset (loc_of pre) = of_nat (length (takeWhile (\<lambda>c. c \<noteq> LF) (rev pre)))"
  by (induction pre rule: rev_induct)
    (auto simp: loc_of_snoc, auto simp: loc_of_def Location0_def advance_def Let_def)

definition at_prefix :: "string \<Rightarrow> InputStream \<Rightarrow> bool" where
  "at_prefix s is \<longleftrightarrow> (\<exists>pre. s = pre @ m_iStr is \<and> m_Location is = loc_of pre)"

definition later :: "InputStream \<Rightarrow> InputStream \<Rightarrow> bool" where
  "later is is' \<longleftrightarrow> (\<exists>mid. m_iStr is = mid @ m_iStr is' \<and>
      m_Location is' = fold advance mid (m_Location is))"

lemma later_refl [simp]: "later i i"
  by (auto simp: later_def)

lemma later_trans: "later a b \<Longrightarrow> later b c \<Longrightarrow> later a c"
  unfolding later_def by (metis append_assoc comp_apply fold_append)

lemma later_Get: "InputStream_Get is = Some (c, is') \<Longrightarrow> later is is'"
  unfolding later_def InputStream_Get_Some by (auto intro!: exI [of _ "[c]"])

lemma later_EatWhiteSpace: "later is (EatWhiteSpace is)"
proof (induction "is" rule: EatWhiteSpace.induct)
  case (1 "is")
  then show ?case
    by (subst EatWhiteSpace.simps) (auto split: option.splits intro: later_trans later_Get)
qed

lemma later_MatchExpected: "MatchExpected_loop e xs is = Inr is' \<Longrightarrow> later is is'"
  by (induction e xs "is" rule: MatchExpected_loop.induct)
    (auto simp: MatchExpected_loop.simps split: option.splits if_splits intro: later_trans later_Get)

lemma later_MatchString_loop: "MatchString_loop s is = Inr (s', is') \<Longrightarrow> later is is'"
proof (induction "length (m_iStr is)" arbitrary: s "is" rule: less_induct)
  case less
  have IH: "later is is'"
    if "later is i" "length (m_iStr i) < length (m_iStr is)" "MatchString_loop t i = Inr (s', is')" for t i
    using less.hyps [OF that(2,3)] that(1) later_trans by blast
  note len = InputStream_Get_length
  from less.prems show ?case
    unfolding MatchString_loop.simps [of s "is"]
    by (auto split: option.splits prod.splits if_splits
        intro: IH [OF later_Get len] IH [OF later_trans [OF later_Get later_Get] less_trans, OF _ _ len len])
qed

lemma later_MatchNumber: "later is (snd (MatchNumber s is))"
proof (induction s "is" rule: MatchNumber.induct)
  case (1 s "is")
  then show ?case
    by (subst MatchNumber.simps) (auto split: option.splits intro: later_trans later_Get)
qed

definition token_from :: "InputStream \<Rightarrow> Token \<times> InputStream \<Rightarrow> bool" where
  "token_from is r \<longleftrightarrow>
     later is (snd r) \<and> locBegin (fst r) = m_Location is \<and> locEnd (fst r) = m_Location (snd r)"

definition tokens_from :: "InputStream \<Rightarrow> json_exception + Token \<times> InputStream \<Rightarrow> bool" where
  "tokens_from is x \<longleftrightarrow> (\<forall>r. x = Inr r \<longrightarrow> token_from is r)"

lemma token_from_mk_token: "later is (snd vi) \<Longrightarrow> token_from is (mk_token is ty vi)"
  by (simp add: token_from_def mk_token_def)

lemma later_MatchString: "MatchString is = Inr vi \<Longrightarrow> later is (snd vi)"
  unfolding MatchString_def MatchExpectedString_def
  by (auto dest!: later_MatchExpected later_MatchString_loop) (meson later_trans)

lemma tokens_from_matchers:
  "tokens_from is (Scan_expected is ty s)"
  "tokens_from is (bindE (MatchString is) (\<lambda>vi. Inr (mk_token is TOKEN_STRING vi)))"
  "tokens_from is (Inr (mk_token is TOKEN_NUMBER (MatchNumber [] is)))"
  "tokens_from is (Inl e)"
  by (auto simp: tokens_from_def Scan_expected_def MatchExpectedString_def later_MatchNumber
      dest!: later_MatchExpected later_MatchString, (metis snd_conv token_from_mk_token later_MatchNumber)+)

lemma tokens_from_Scan_token: "tokens_from is (Scan_token c is)"
  unfolding Scan_token_def
  by (simp only: if_distrib [of "tokens_from is"] tokens_from_matchers if_cancel)

definition token_span :: "string \<Rightarrow> Token \<Rightarrow> bool" where
  "token_span s t \<longleftrightarrow> (\<exists>pre mid post. s = pre @ mid @ post \<and>
      locBegin t = loc_of pre \<and> locEnd t = loc_of (pre @ mid))"

lemma at_prefix_later:
  assumes "at_prefix s is" "later is is'"
  shows "at_prefix s is'"
  using assms unfolding at_prefix_def later_def loc_of_def by (metis append_assoc comp_apply fold_append)

lemma token_spanI:
  assumes "at_prefix s is" "later is is'" "locBegin t = m_Location is" "locEnd t = m_Location is'"
  shows "token_span s t"
  using assms unfolding at_prefix_def later_def loc_of_def token_span_def
  by (metis append_assoc comp_apply fold_append)

lemma Scan_spans:
  "Scan tokens is = Inr (ts, is') \<Longrightarrow> at_prefix s is \<Longrightarrow> \<forall>t\<in>set tokens. token_span s t \<Longrightarrow>
     \<forall>t\<in>set ts. token_span s t"
proof (induction tokens "is" rule: Scan.induct)
  case (1 tokens "is")
  let ?i = "EatWhiteSpace is"
  have at: "at_prefix s ?i" using "1.prems"(2) later_EatWhiteSpace at_prefix_later by blast
  show ?case
  proof (cases "m_iStr ?i")
    case Nil
    with "1.prems"(1,3) show ?thesis by (subst (asm) Scan.simps) simp
  next
    case (Cons c cs)
    with "1.prems"(1) obtain t i1 where t: "Scan_token c ?i = Inr (t, i1)"
      and sc: "Scan (tokens @ [t]) i1 = Inr (ts, is')"
      by (subst (asm) Scan.simps) auto
    have l: "later ?i i1" "locBegin t = m_Location ?i" "locEnd t = m_Location i1"
      using tokens_from_Scan_token [of ?i c] t by (auto simp: tokens_from_def token_from_def)
    have "token_span s t" by (rule token_spanI [OF at l])
    with "1.IH" [OF Cons t refl sc at_prefix_later [OF at l(1)]] "1.prems"(3) show ?thesis by auto
  qed
qed

lemma at_prefix_open: "at_prefix s (open_stream s)"
  by (simp add: at_prefix_def open_stream_def loc_of_def)

end
