(* ===== verification/Json_Properties.thy ===== *)
theory Json_Properties
  imports Json_Locations
begin

text \<open>
  The properties of the JSON library the backend answers its requests with: reading back what
  was written, totality of the reader, well-formedness of what it accepts, the locations it
  reports, the behaviour of object members as a map, and structural equality.
\<close>

section \<open>Properties\<close>

lemma Read_object_Write:
  assumes "wf_members ms" and "writable shw rd (JObject ms)"
  shows "Read_object rd [] (Write shw (JObject ms)) = Some (Inr ms)"
proof -
  obtain ts is' where sc: "Scan [] (open_stream (Write shw (JObject ms))) = Inr (ts, is')"
    "map tv ts = tokens_of shw (JObject ms)"
    using scans_whole [OF scans_Write_element(1) [OF assms(2), of 0]] by (auto simp: Write_def)
  obtain us where "Parse_element rd (Suc (parse_fuel ts)) JNull ts = Some (Inr (JObject ms, us))" "map tv us = []"
    using Parse_tokens_of(1) [OF assms(2,1), of ts "[]" "Suc (parse_fuel ts)"] sc(2)
    by (auto simp: parse_fuel_def simp del: Parse_element.simps tokens_of.simps)
  with sc Parse_object_of_element [OF this(1)] show ?thesis
    by (simp add: Read_object_def expect_end_def)
qed

text \<open>C2: Reading back what the writer wrote for a well-formed object gives exactly the members
  of that object, in their order, for every object whose member names need no escaping and whose
  numbers survive being printed and extracted by the standard library.\<close>

theorem json_roundtrip:
  assumes "wf_members ms" and "writable shw rd (JObject ms)"
  shows "Read_object rd [] (Write shw (JObject ms)) = Some (Inr ms)"
  using assms by (rule Read_object_Write)

definition example_shw :: "int \<Rightarrow> string" where
  "example_shw n = (if n = 0 then ''0'' else if n = 1 then ''1'' else ''-1e3'')"

definition example_rd :: "string \<Rightarrow> int \<times> bool \<times> int" where
  "example_rd s =
     (if s = ''0'' then (0, True, -1) else if s = ''1'' then (1, True, -1)
      else if s = ''-1e3'' then (-1000, True, -1) else (0, False, -1))"

definition example_members :: "int Members" where
  "example_members =
     [(''content'', JArray [JObject [(''id'', JNumber 1), (''name'', JString [quote, LF, backslash])], JNumber (- 1000)]),
      (''error'', JNull)]"

lemma example_members_ok:
  "wf_members example_members" "writable example_shw example_rd (JObject example_members)"
  by (simp_all add: example_members_def example_shw_def example_rd_def plain_name_def number_text_def
      numericChar_def)

theorem json_roundtrip_witness:
  "wf_members example_members \<and> writable example_shw example_rd (JObject example_members) \<and>
   Read_object example_rd [] (Write example_shw (JObject example_members)) = Some (Inr example_members)"
  using json_roundtrip [OF example_members_ok] example_members_ok by blast

text \<open>C35: The reader always returns: on every input, for every way of extracting numbers and every
  element it is given, it comes back with a document or with an exception.\<close>

theorem json_read_returns: "\<exists>r. Read_element rd e s = Some r"
proof (cases "Scan [] (open_stream s)")
  case (Inl x)
  then show ?thesis by (simp add: Read_element_def)
next
  case (Inr x)
  obtain ts is' where x: "x = (ts, is')" by (cases x)
  have "Parse_element rd (parse_fuel ts) e ts \<noteq> None"
    by (rule Parse_enough_fuel) (simp add: parse_fuel_def)
  with Inr x show ?thesis
    by (auto simp: Read_element_def bindR_def expect_end_def split: sum.splits list.splits)
qed

lemma expect_end_Inr: "expect_end r = Some (Inr x) \<longleftrightarrow> snd r = [] \<and> fst r = x"
  by (simp add: expect_end_def split: list.splits)

text \<open>C36: Whatever the input, a document the reader accepts has pairwise distinct member names in
  every object it contains.\<close>

theorem json_read_wf:
  fixes ms :: "'n::zero Members"
  assumes "Read_object rd [] s = Some (Inr ms)"
  shows "wf_members ms"
proof -
  obtain ts is' us where "Scan [] (open_stream s) = Inr (ts, is')"
    and p: "Parse_object_with (Parse_members rd (parse_fuel ts)) [] ts = Some (Inr (ms, us))"
    using assms by (auto simp: Read_object_def Parse_object_def bindR_eq_Inr expect_end_Inr)
  let ?P = "\<lambda>(ns :: 'n Members) (ns' :: 'n Members). wf_members ns \<longrightarrow> wf_members ns'"
  have "length us < length ts \<and> ?P [] ms"
  proof (rule Parse_object_with_Inr [where P = ?P, OF p])
    fix us ns us'
    assume "Parse_members rd (parse_fuel ts) ns us = Some (Inr (ms, us'))"
    from Parse_consumes(2) [OF this] show "length us' < length us \<and> ?P ns ms" .
  qed simp
  then show ?thesis by simp
qed

theorem json_read_wf_witness:
  "Read_object example_rd [] ''{}'' = Some (Inr []) \<and> wf_members ([] :: int Members)"
proof -
  have "Read_object example_rd [] (Write example_shw (JObject [])) = Some (Inr [])"
    using json_roundtrip [of "[]" example_shw example_rd] by simp
  then have r: "Read_object example_rd [] ''{}'' = Some (Inr [])" by (simp add: Write_def)
  with json_read_wf [OF r] show ?thesis by simp
qed

text \<open>Every token the scanner produces carries the place it was read from: it spans a segment of
  the input, and its two locations hold the number of characters, the number of line feeds and the
  number of characters since the last line feed before the segment's two ends, as 32-bit counters.\<close>

theorem json_token_locations:
  assumes "Scan [] (open_stream s) = Inr (ts, is')" and "t \<in> set ts"
  shows "\<exists>pre mid post. s = pre @ mid @ post \<and>
     locBegin t = \<lparr>m_nLine = of_nat (length (filter (\<lambda>c. c = LF) pre)),
                   m_nLineOffset = of_nat (length (takeWhile (\<lambda>c. c \<noteq> LF) (rev pre))),
                   m_nDocOffset = of_nat (length pre)\<rparr> \<and>
     m_nDocOffset (locEnd t) = of_nat (length pre + length mid)"
proof -
  from Scan_spans [OF assms(1) at_prefix_open] assms(2) obtain pre mid post where
    *: "s = pre @ mid @ post" "locBegin t = loc_of pre" "locEnd t = loc_of (pre @ mid)"
    by (auto simp: token_span_def)
  have "loc_of pre = \<lparr>m_nLine = of_nat (length (filter (\<lambda>c. c = LF) pre)),
                   m_nLineOffset = of_nat (length (takeWhile (\<lambda>c. c \<noteq> LF) (rev pre))),
                   m_nDocOffset = of_nat (length pre)\<rparr>"
    using loc_of_components [of pre] by (cases "loc_of pre") simp
  with * loc_of_components(1) [of "pre @ mid"] show ?thesis by auto
qed

lemma scan_example:
  "\<exists>ts is'. Scan [] (open_stream [LF, CHR '' '', CHR ''['', CHR '']'']) =
     Inr (\<lparr>nType = TOKEN_ARRAY_BEGIN, sValue = ''['',
            locBegin = \<lparr>m_nLine = 1, m_nLineOffset = 1, m_nDocOffset = 2\<rparr>,
            locEnd = \<lparr>m_nLine = 1, m_nLineOffset = 2, m_nDocOffset = 3\<rparr>\<rparr> # ts, is')"
  by (simp add: Scan.simps EatWhiteSpace.simps InputStream_Get_def open_stream_def isspace_def
      Location0_def advance_def Scan_token_def Scan_expected_def MatchExpectedString_def
      MatchExpected_loop.simps mk_token_def)

theorem json_token_locations_witness:
  "\<exists>ts is' t. Scan [] (open_stream [LF, CHR '' '', CHR ''['', CHR '']'']) = Inr (ts, is') \<and> t \<in> set ts \<and>
     (\<exists>pre mid post. [LF, CHR '' '', CHR ''['', CHR '']''] = pre @ mid @ post \<and>
       locBegin t = \<lparr>m_nLine = of_nat (length (filter (\<lambda>c. c = LF) pre)),
                     m_nLineOffset = of_nat (length (takeWhile (\<lambda>c. c \<noteq> LF) (rev pre))),
                     m_nDocOffset = of_nat (length pre)\<rparr> \<and>
       m_nDocOffset (locEnd t) = of_nat (length pre + length mid))"
  using scan_example json_token_locations list.set_intros(1) by meson

text \<open>The writer copies member names without escaping them: an object with one member whose
  name is a quotation mark is written as a document that the reader of the same library rejects,
  whatever the extraction of numbers does.\<close>

theorem json_quoted_name_rejected:
  "\<exists>loc. Read_object rd [] (Write shw (JObject [([quote], JNull)])) =
     Some (Inl (ScanException (Message (''Expected string: '' @ [quote])) loc))"
  by (simp add: Read_object_def Write_def Scan.simps EatWhiteSpace.simps InputStream_Get_def
      open_stream_def isspace_def
      Location0_def advance_def Scan_token_def Scan_expected_def MatchExpectedString_def
      MatchExpected_loop.simps mk_token_def MatchString_def MatchString_loop.simps Write_String_def
      tabs_def)

text \<open>The parser looks at the name token of a member before it tests for the end of the tokens: a
  document that stops after a comma violates the assertion in \<open>TokenStream::Peek\<close> instead of raising
  the exception for an unexpected end.\<close>

theorem json_truncated_asserts:
  "Read_object rd [] ([CHR ''{'', quote, CHR ''a'', quote] @ '':null,'') = Some (Inl AssertFailed)"
  by (simp add: Read_object_def Scan.simps EatWhiteSpace.simps InputStream_Get_def open_stream_def
      isspace_def Location0_def advance_def Scan_token_def Scan_expected_def MatchExpectedString_def
      MatchExpected_loop.simps mk_token_def MatchString_def MatchString_loop.simps parse_fuel_def
      Parse_object_def Parse_object_with_def MatchExpectedToken_def next_is_not_def next_is_def
      Parse_members.simps Parse_element_with_def insert_member_def Object_Insert_def
      Object_Insert_at_def Object_Find_def Parse_null_def eval_nat_numeral)

text \<open>The members of an object behave as a finite map: assigning through \<open>operator[]\<close> makes the
  name's lookup return the assigned value, changes the lookup of no other name, makes the absent
  name present at the end, and keeps the names distinct.\<close>

theorem object_assign_lookup:
  assumes "distinct (map fst ms)"
  shows "Object_at name (Object_assign name v ms) = Inr v \<and>
    (name' \<noteq> name \<longrightarrow> Object_at name' (Object_assign name v ms) = Object_at name' ms) \<and>
    distinct (map fst (Object_assign name v ms)) \<and>
    (name \<notin> fst ` set ms \<longrightarrow> Object_assign name v ms = ms @ [(name, v)])"
proof (intro conjI impI)
  show "Object_at name (Object_assign name v ms) = Inr v"
    using object_store.assign_same [OF assms, of name v] unfolding Object_lookup_def
    by (simp split: sum.splits)
  show "Object_at name' (Object_assign name v ms) = Object_at name' ms" if "name' \<noteq> name"
    using object_store.assign_other [OF assms that, of v]
    by (simp add: Object_at_eq Object_lookup_map_of)
  show "distinct (map fst (Object_assign name v ms))" by (rule object_store.inv_assign [OF assms])
  show "Object_assign name v ms = ms @ [(name, v)]" if "name \<notin> fst ` set ms"
    using that by (induction ms) (auto simp: Object_assign_Cons)
qed

theorem object_assign_lookup_witness:
  "Object_at ''b'' (Object_assign ''a'' JNull [(''b'', JNumber (1::int))]) = Inr (JNumber 1) \<and>
   Object_assign ''a'' JNull [(''b'', JNumber (1::int))] = [(''b'', JNumber 1), (''a'', JNull)] \<and>
   distinct (map fst (Object_assign ''a'' JNull [(''b'', JNumber (1::int))]))"
  using object_assign_lookup [of "[(''b'', JNumber (1::int))]" "''a''" JNull "''b''"]
  by (simp add: Object_at_eq)

text \<open>The visitor-based \<open>operator==\<close> on elements is equality of documents, when \<open>==\<close> on numbers
  is equality of numbers: same type at every node, same members in the same order.\<close>

theorem compare_is_equality:
  assumes "\<forall>x y. eqd x y = (x = y)"
  shows "Compare eqd e e' \<longleftrightarrow> e = e'"
  by (rule Compare_correct(1) [OF assms])

theorem compare_is_equality_witness:
  "\<not> Compare (\<lambda>x y. x = (y::int)) (JArray [JNull, JNumber 1]) (JArray [JNumber 1, JNull])"
  by (simp add: compare_is_equality del: Compare.simps)

text \<open>Writing to position \<open>index\<close> of an array grows it with \<open>null\<close> elements as far as needed and
  keeps every element it had, except for the largest 64-bit index, where \<open>index + 1\<close> wraps to
  zero, nothing grows and the access is out of bounds.\<close>

theorem array_index_grows:
  assumes "index < 2 ^ 64" and "length xs < 2 ^ 64"
  shows "Array_index index xs =
     (if index = 2 ^ 64 - 1 then Inl Out_of_bounds
      else Inr (xs @ replicate (Suc index - length xs) JNull, index))"
proof (cases "index = 2 ^ 64 - 1")
  case True
  then have "(index + 1) mod 2 ^ 64 = 0" by simp
  with True assms(2) show ?thesis by (simp add: Array_index_def)
next
  case False
  then have "(index + 1) mod 2 ^ 64 = Suc index" using assms(1) by simp
  with False show ?thesis by (auto simp: Array_index_def Array_Resize_def Let_def)
qed

theorem array_index_grows_witness:
  "Array_index 1 [JNumber (7::int)] = Inr ([JNumber 7, JNull], 1)"
  using array_index_grows [of 1 "[JNumber (7::int)]"] by simp

end
