(* ===== verification/Dictionary.thy ===== *)
theory Dictionary
  imports Prelude
begin

text \<open>
  The case-insensitive string dictionary of pion-common (\<open>PionHashMap.hpp\<close>) and the dictionary
  helpers of \<open>HTTPMessage.hpp\<close>. A \<open>StringDictionary\<close> is a hash multimap; the model is the list of
  its entries in iteration order. The standard asks that entries with equivalent keys be adjacent,
  and leaves the order otherwise open: the model inserts at the end of a group and puts a new
  group last. An iterator is a position, \<open>end()\<close> the length of the list.
\<close>

section \<open>Comparing and hashing strings without regard to case\<close>

definition CaseInsensitiveEqual :: "string \<Rightarrow> string \<Rightarrow> bool" where
  "CaseInsensitiveEqual str1 str2 \<longleftrightarrow>
     length str1 = length str2 \<and> list_all2 (\<lambda>a b. tolower a = tolower b) str1 str2"

fun CaseInsensitiveHash_loop :: "64 word \<Rightarrow> string \<Rightarrow> 64 word" where
  "CaseInsensitiveHash_loop v [] = v"
| "CaseInsensitiveHash_loop v (c # cs) =
     CaseInsensitiveHash_loop (of_nat (code (tolower c)) + push_bit 6 v + push_bit 16 v - v) cs"

definition CaseInsensitiveHash :: "string \<Rightarrow> 64 word" where
  "CaseInsensitiveHash str = CaseInsensitiveHash_loop 0 str"

fun CaseInsensitiveLess_loop :: "string \<Rightarrow> string \<Rightarrow> bool option" where
  "CaseInsensitiveLess_loop (a # as) (b # bs) =
     (if tolower a \<noteq> tolower b then Some (char_to_int (tolower a) < char_to_int (tolower b))
      else CaseInsensitiveLess_loop as bs)"
| "CaseInsensitiveLess_loop _ _ = None"

definition CaseInsensitiveLess :: "string \<Rightarrow> string \<Rightarrow> bool" where
  "CaseInsensitiveLess str1 str2 =
     (case CaseInsensitiveLess_loop str1 str2 of Some b \<Rightarrow> b | None \<Rightarrow> length str1 < length str2)"

definition lower :: "string \<Rightarrow> string" where
  "lower s = map tolower s"

lemma CaseInsensitiveEqual_iff:
  "CaseInsensitiveEqual a b \<longleftrightarrow> lower a = lower b"
proof -
  have "list_all2 (\<lambda>x y. tolower x = tolower y) a b \<longleftrightarrow> map tolower a = map tolower b"
    by (induction a arbitrary: b) (auto simp: list_all2_Cons1)
  then show ?thesis
    by (auto simp: CaseInsensitiveEqual_def lower_def dest: list_all2_lengthD)
qed

lemma CaseInsensitiveEqual_refl [simp]: "CaseInsensitiveEqual a a"
  by (simp add: CaseInsensitiveEqual_iff)

lemma CaseInsensitiveEqual_sym: "CaseInsensitiveEqual a b \<longleftrightarrow> CaseInsensitiveEqual b a"
  by (auto simp: CaseInsensitiveEqual_iff)

lemma CaseInsensitiveHash_loop_cong:
  "map tolower a = map tolower b \<Longrightarrow> CaseInsensitiveHash_loop v a = CaseInsensitiveHash_loop v b"
proof (induction a arbitrary: b v)
  case (Cons x a)
  then obtain y b' where "b = y # b'" "tolower x = tolower y" "map tolower a = map tolower b'"
    by (cases b) auto
  with Cons.IH [OF this(3)] show ?case by simp
qed simp

lemma CaseInsensitiveLess_loop_eq:
  "map tolower a = map tolower b \<Longrightarrow> CaseInsensitiveLess_loop a b = None"
  by (induction a b rule: CaseInsensitiveLess_loop.induct) auto

lemma CaseInsensitiveLess_iff_lexord:
  "CaseInsensitiveLess a b \<longleftrightarrow>
     (map (char_to_int \<circ> tolower) a, map (char_to_int \<circ> tolower) b) \<in> lexord {(x, y). x < y}"
proof (induction a b rule: CaseInsensitiveLess_loop.induct)
  case (1 a as b bs)
  then show ?case
    by (cases "CaseInsensitiveLess_loop as bs") (auto simp: CaseInsensitiveLess_def char_to_int_inj)
qed (auto simp: CaseInsensitiveLess_def map_eq_Cons_conv neq_Nil_conv split: list.splits)

section \<open>The dictionary\<close>

type_synonym StringDictionary = "(string \<times> string) list"

abbreviation key_eq :: "string \<Rightarrow> (string \<times> string) \<Rightarrow> bool" where
  "key_eq k e \<equiv> CaseInsensitiveEqual k (fst e)"

definition equal_range :: "string \<Rightarrow> StringDictionary \<Rightarrow> nat \<times> nat" where
  "equal_range k d =
     (let i = length (takeWhile (\<lambda>e. \<not> key_eq k e) d)
      in (i, i + length (takeWhile (key_eq k) (drop i d))))"

definition dict_insert :: "string \<Rightarrow> string \<Rightarrow> StringDictionary \<Rightarrow> StringDictionary" where
  "dict_insert k v d = (let (i, j) = equal_range k d in take j d @ (k, v) # drop j d)"

definition dict_find :: "string \<Rightarrow> StringDictionary \<Rightarrow> (string \<times> string) option" where
  "dict_find k d = (let (i, j) = equal_range k d in if i = length d then None else Some (d ! i))"

definition getValue :: "StringDictionary \<Rightarrow> string \<Rightarrow> string" where
  "getValue dict k = (case dict_find k dict of None \<Rightarrow> [] | Some e \<Rightarrow> snd e)"

text \<open>The loop of \<open>changeValue\<close> erases the entries of the group behind the first.\<close>

definition changeValue :: "string \<Rightarrow> string \<Rightarrow> StringDictionary \<Rightarrow> StringDictionary" where
  "changeValue k v dict =
     (let (i, j) = equal_range k dict
      in if i = length dict then dict_insert k v dict
         else take i dict @ (fst (dict ! i), v) # drop j dict)"

definition deleteValue :: "string \<Rightarrow> StringDictionary \<Rightarrow> StringDictionary" where
  "deleteValue k dict =
     (let (i, j) = equal_range k dict
      in if i \<noteq> length dict then take i dict @ drop j dict else dict)"

text \<open>All values of a key, in iteration order, and the invariant: groups are contiguous.\<close>

definition dict_values :: "string \<Rightarrow> StringDictionary \<Rightarrow> string list" where
  "dict_values k d = map snd (filter (key_eq k) d)"

fun grouped :: "StringDictionary \<Rightarrow> bool" where
  "grouped [] = True"
| "grouped (e # d) =
     (grouped d \<and> (d = [] \<or> key_eq (fst e) (hd d) \<or> (\<forall>x\<in>set d. \<not> key_eq (fst e) x)))"

section \<open>Equations over the entries\<close>

lemma equal_range_Cons:
  "equal_range k (e # d) =
     (if key_eq k e then (0, Suc (length (takeWhile (key_eq k) d)))
      else (case equal_range k d of (i, j) \<Rightarrow> (Suc i, Suc j)))"
  by (auto simp: equal_range_def Let_def)

lemma equal_range_Nil [simp]: "equal_range k [] = (0, 0)"
  by (simp add: equal_range_def)

lemma drop_takeWhile: "drop (length (takeWhile P xs)) xs = dropWhile P xs"
  by (simp add: dropWhile_eq_drop)

lemma take_takeWhile: "take (length (takeWhile P xs)) xs = takeWhile P xs"
  by (rule takeWhile_eq_take [symmetric])

lemma dict_insert_eqs:
  "dict_insert k v [] = [(k, v)]"
  "dict_insert k v (e # d) =
     (if key_eq k e then e # takeWhile (key_eq k) d @ (k, v) # dropWhile (key_eq k) d
      else e # dict_insert k v d)"
  by (auto simp: dict_insert_def equal_range_Cons drop_takeWhile take_takeWhile split: prod.splits)

lemma dict_find_eqs:
  "dict_find k [] = None"
  "dict_find k (e # d) = (if key_eq k e then Some e else dict_find k d)"
  by (auto simp: dict_find_def equal_range_Cons split: prod.splits)

lemma changeValue_eqs:
  "changeValue k v [] = [(k, v)]"
  "changeValue k v (e # d) =
     (if key_eq k e then (fst e, v) # dropWhile (key_eq k) d else e # changeValue k v d)"
  by (auto simp: changeValue_def dict_insert_eqs equal_range_Cons drop_takeWhile split: prod.splits)

lemma deleteValue_eqs:
  "deleteValue k [] = []"
  "deleteValue k (e # d) = (if key_eq k e then dropWhile (key_eq k) d else e # deleteValue k d)"
  by (auto simp: deleteValue_def equal_range_Cons drop_takeWhile split: prod.splits)

lemmas dict_eqs = dict_insert_eqs dict_find_eqs changeValue_eqs deleteValue_eqs

section \<open>Groups stay contiguous\<close>

lemma key_eq_trans: "key_eq k e \<Longrightarrow> key_eq (fst e) x \<longleftrightarrow> key_eq k x"
  by (simp add: CaseInsensitiveEqual_iff)

lemma grouped_dropWhile [simp]: "grouped d \<Longrightarrow> grouped (dropWhile P d)"
  by (induction d) auto

lemma grouped_rest:
  "grouped (e # d) \<Longrightarrow> key_eq k e \<Longrightarrow> filter (key_eq k) (dropWhile (key_eq k) d) = []"
proof (induction d arbitrary: e)
  case (Cons x d)
  show ?case
  proof (cases "key_eq k x")
    case True
    have "grouped (x # d)" using Cons.prems(1) by simp
    with True Cons.IH [of x] show ?thesis by simp
  next
    case False
    have "\<not> key_eq (fst e) x" using False Cons.prems(2) by (simp add: CaseInsensitiveEqual_iff)
    with Cons.prems(1) have "\<forall>y\<in>set (x # d). \<not> key_eq (fst e) y" by auto
    with Cons.prems(2) have "filter (key_eq k) (x # d) = []"
      by (simp add: CaseInsensitiveEqual_iff filter_empty_conv)
    with False show ?thesis by simp
  qed
qed simp

lemma hd_changeValue:
  "d \<noteq> [] \<Longrightarrow> fst (hd (changeValue k v d)) = fst (hd d)" "changeValue k v d \<noteq> []"
  by (cases d; simp add: changeValue_eqs)+

lemma hd_dict_insert: "d \<noteq> [] \<Longrightarrow> hd (dict_insert k v d) = hd d" "dict_insert k v d \<noteq> []"
  by (cases d; simp add: dict_insert_eqs)+

lemma set_dict_insert: "set (dict_insert k v d) = insert (k, v) (set d)"
proof (induction d)
  case (Cons e d)
  have "set (takeWhile P d) \<union> set (dropWhile P d) = set d" for P
    by (metis set_append takeWhile_dropWhile_id)
  with Cons show ?case by (auto simp: dict_insert_eqs)
qed (simp add: dict_insert_eqs)

lemma fst_changeValue:
  "e \<in> set (changeValue k v d) \<Longrightarrow> CaseInsensitiveEqual k (fst e) \<or> (\<exists>x\<in>set d. fst x = fst e)"
  by (induction d) (auto simp: changeValue_eqs split: if_splits dest: set_dropWhileD)

lemma set_deleteValue: "set (deleteValue k d) \<subseteq> set d"
  by (induction d) (auto simp: deleteValue_eqs dest: set_dropWhileD)

lemma grouped_dict_insert: "grouped d \<Longrightarrow> grouped (dict_insert k v d)"
proof (induction d)
  case Nil
  then show ?case by (simp add: dict_insert_eqs)
next
  case (Cons e d)
  show ?case
  proof (cases "key_eq k e")
    case True
    define rest where "rest = dropWhile (key_eq k) d"
    have r: "\<forall>x\<in>set rest. \<not> key_eq k x"
      using grouped_rest [OF Cons.prems True] unfolding filter_empty_conv rest_def .
    have "grouped rest" using Cons.prems by (simp add: rest_def)
    with r have tail: "grouped ((k, v) # rest)" by simp
    have "grouped (b @ (k, v) # rest)" if "\<forall>x\<in>set b. key_eq k x" for b
      using that tail
    proof (induction b)
      case (Cons x b)
      then have "key_eq (fst x) (hd (b @ (k, v) # rest))"
        by (cases b) (auto simp: CaseInsensitiveEqual_iff)
      with Cons show ?case by auto
    qed simp
    from this [of "e # takeWhile (key_eq k) d"] True show ?thesis
      by (auto simp: dict_insert_eqs rest_def [symmetric] dest: set_takeWhileD)
  next
    case False
    then show ?thesis using Cons
      by (cases "d = []") (auto simp: dict_insert_eqs set_dict_insert hd_dict_insert CaseInsensitiveEqual_iff)
  qed
qed

lemma grouped_changeValue: "grouped d \<Longrightarrow> grouped (changeValue k v d)"
proof (induction d)
  case (Cons e d)
  show ?case
  proof (cases "key_eq k e")
    case True
    define rest where "rest = dropWhile (key_eq k) d"
    have "\<forall>x\<in>set rest. \<not> key_eq k x"
      using grouped_rest [OF Cons.prems True] unfolding filter_empty_conv rest_def .
    then have "\<forall>x\<in>set rest. \<not> key_eq (fst e) x"
      using True by (simp add: CaseInsensitiveEqual_iff)
    moreover have "grouped rest" using Cons.prems by (simp add: rest_def)
    ultimately show ?thesis using True by (simp add: changeValue_eqs rest_def [symmetric])
  next
    case False
    then have "\<not> key_eq (fst e) x" if "CaseInsensitiveEqual k (fst x)" for x
      using that by (simp add: CaseInsensitiveEqual_iff)
    with False Cons show ?thesis
      using fst_changeValue [where d = d and k = k and v = v] hd_changeValue [where d = d and k = k and v = v]
      by (cases "d = []") (simp_all add: changeValue_eqs, metis)
  qed
qed (simp add: changeValue_eqs)

lemma grouped_deleteValue: "grouped d \<Longrightarrow> grouped (deleteValue k d)"
proof (induction d)
  case (Cons e d)
  show ?case
  proof (cases "key_eq k e")
    case False
    have hd: "hd (deleteValue k d) = hd d" if "d \<noteq> []" "key_eq (fst e) (hd d)"
      using that False by (cases d) (auto simp: deleteValue_eqs CaseInsensitiveEqual_iff)
    consider "d = []" | "d \<noteq> []" "key_eq (fst e) (hd d)" | "\<forall>x\<in>set (deleteValue k d). \<not> key_eq (fst e) x"
      using Cons.prems set_deleteValue [of k d] by fastforce
    then show ?thesis using hd False Cons by cases (simp_all add: deleteValue_eqs)
  qed (use Cons in \<open>simp add: deleteValue_eqs\<close>)
qed (simp add: deleteValue_eqs)

section \<open>The values of a key\<close>

lemma filter_key_cong:
  "CaseInsensitiveEqual k k' \<Longrightarrow> filter (key_eq k') d = filter (key_eq k) d"
  by (simp add: CaseInsensitiveEqual_iff)

lemma dict_values_insert:
  "grouped d \<Longrightarrow> dict_values k' (dict_insert k v d) =
     (if CaseInsensitiveEqual k k' then dict_values k' d @ [v] else dict_values k' d)"
proof (induction d)
  case Nil
  then show ?case by (auto simp: dict_insert_eqs dict_values_def CaseInsensitiveEqual_iff)
next
  case (Cons e d)
  show ?case
  proof (cases "key_eq k e")
    case True
    have split: "filter Q d = filter Q (takeWhile (key_eq k) d) @ filter Q (dropWhile (key_eq k) d)" for Q
      by (metis filter_append takeWhile_dropWhile_id)
    have "filter (key_eq k) (dropWhile (key_eq k) d) = []" by (rule grouped_rest [OF Cons.prems True])
    then have "CaseInsensitiveEqual k k' \<Longrightarrow> filter (key_eq k') (dropWhile (key_eq k) d) = []"
      by (simp add: CaseInsensitiveEqual_iff)
    with True split [of "key_eq k'"] show ?thesis
      by (auto simp: dict_insert_eqs dict_values_def CaseInsensitiveEqual_sym)
  next
    case False
    with Cons show ?thesis by (auto simp: dict_insert_eqs dict_values_def)
  qed
qed

lemma filter_dropWhile_other:
  "K \<noteq> K' \<Longrightarrow> filter (\<lambda>e. K' = f e) (dropWhile (\<lambda>e. K = f e) d) = filter (\<lambda>e. K' = f e) d"
  by (induction d) auto

lemma dict_values_delete:
  "grouped d \<Longrightarrow> dict_values k' (deleteValue k d) =
     (if CaseInsensitiveEqual k k' then [] else dict_values k' d)"
proof (induction d)
  case (Cons e d)
  show ?case
  proof (cases "key_eq k e")
    case True
    have "filter (key_eq k) (dropWhile (key_eq k) d) = []" by (rule grouped_rest [OF Cons.prems True])
    with True show ?thesis
      by (auto simp: deleteValue_eqs dict_values_def filter_dropWhile_other CaseInsensitiveEqual_iff)
  next
    case False
    with Cons show ?thesis by (auto simp: deleteValue_eqs dict_values_def CaseInsensitiveEqual_iff)
  qed
qed (simp add: deleteValue_eqs dict_values_def)

lemma dict_values_change:
  "grouped d \<Longrightarrow> dict_values k' (changeValue k v d) =
     (if CaseInsensitiveEqual k k' then [v] else dict_values k' d)"
proof (induction d)
  case Nil
  then show ?case by (auto simp: changeValue_eqs dict_values_def CaseInsensitiveEqual_iff)
next
  case (Cons e d)
  show ?case
  proof (cases "key_eq k e")
    case True
    have "filter (key_eq k) (dropWhile (key_eq k) d) = []" by (rule grouped_rest [OF Cons.prems True])
    with True show ?thesis
      by (auto simp: changeValue_eqs dict_values_def filter_dropWhile_other CaseInsensitiveEqual_iff)
  next
    case False
    with Cons show ?thesis by (auto simp: changeValue_eqs dict_values_def CaseInsensitiveEqual_iff)
  qed
qed

lemma dict_find_values:
  "dict_find k d = None \<longleftrightarrow> dict_values k d = []"
  "dict_find k d = Some e \<Longrightarrow> dict_values k d \<noteq> [] \<and> hd (dict_values k d) = snd e"
  by (induction d) (auto simp: dict_find_eqs dict_values_def split: if_splits)

lemma getValue_values: "getValue d k = (case dict_values k d of [] \<Rightarrow> [] | v # _ \<Rightarrow> v)"
  using dict_find_values [where k = k and d = d]
  by (cases "dict_find k d"; cases "dict_values k d") (auto simp: getValue_def)

section \<open>The contract\<close>

text \<open>What the message classes rely on, stated for any multimap: which values each key has after
  an insertion, a change and a deletion.\<close>

locale multi_dictionary =
  fixes eqv :: "'k \<Rightarrow> 'k \<Rightarrow> bool"
    and vals :: "'k \<Rightarrow> 'd \<Rightarrow> 'v list"
    and insert_entry :: "'k \<Rightarrow> 'v \<Rightarrow> 'd \<Rightarrow> 'd"
    and change :: "'k \<Rightarrow> 'v \<Rightarrow> 'd \<Rightarrow> 'd"
    and delete :: "'k \<Rightarrow> 'd \<Rightarrow> 'd"
    and inv :: "'d \<Rightarrow> bool"
  assumes vals_insert: "inv d \<Longrightarrow> vals k' (insert_entry k v d) = (if eqv k k' then vals k' d @ [v] else vals k' d)"
    and vals_change: "inv d \<Longrightarrow> vals k' (change k v d) = (if eqv k k' then [v] else vals k' d)"
    and vals_delete: "inv d \<Longrightarrow> vals k' (delete k d) = (if eqv k k' then [] else vals k' d)"
    and inv_insert: "inv d \<Longrightarrow> inv (insert_entry k v d)"
    and inv_change: "inv d \<Longrightarrow> inv (change k v d)"
    and inv_delete: "inv d \<Longrightarrow> inv (delete k d)"
    and eqv_refl: "eqv k k"
begin

lemma change_is_delete_insert:
  "inv d \<Longrightarrow> vals k' (change k v d) = vals k' (insert_entry k v (delete k d))"
  by (simp add: vals_insert vals_change vals_delete inv_delete)

lemma change_twice: "inv d \<Longrightarrow> vals k' (change k v (change k w d)) = vals k' (change k v d)"
  by (simp add: vals_change inv_change)

lemma change_collapses: "inv d \<Longrightarrow> vals k (change k v (insert_entry k w d)) = [v]"
  by (simp add: vals_change inv_insert eqv_refl)

lemma delete_removes: "inv d \<Longrightarrow> vals k (delete k d) = []"
  by (simp add: vals_delete eqv_refl)

end

interpretation string_dictionary:
  multi_dictionary CaseInsensitiveEqual dict_values dict_insert changeValue deleteValue grouped
  by unfold_locales
    (simp_all add: dict_values_insert dict_values_change dict_values_delete
      grouped_dict_insert grouped_changeValue grouped_deleteValue)

end
