(* ===== verification/Http_Types.thy ===== *)
theory Http_Types
  imports Dictionary
begin

text \<open>
  The constants and the codecs of \<open>HTTPTypes.cpp\<close>: base64, URL encoding, query strings and
  \<open>Set-Cookie\<close> headers. A \<open>char\<close> takes part in arithmetic as the \<open>int\<close> it is promoted to, and a
  read of \<open>decoding_data\<close> outside its 256 entries is a fault. Functions of boost are the fields of
  the record \<open>boost_lib\<close>, which the definitions that use them take as an argument.
\<close>

unbundle bit_operations_syntax

section \<open>Constants\<close>

definition STRING_CRLF :: string where "STRING_CRLF = [CHR 0x0D, CHR 0x0A]"
definition STRING_HTTP_VERSION :: string where "STRING_HTTP_VERSION = ''HTTP/''"
definition HEADER_NAME_VALUE_DELIMITER :: string where "HEADER_NAME_VALUE_DELIMITER = '': ''"

definition HEADER_COOKIE :: string where "HEADER_COOKIE = ''Cookie''"
definition HEADER_SET_COOKIE :: string where "HEADER_SET_COOKIE = ''Set-Cookie''"
definition HEADER_CONNECTION :: string where "HEADER_CONNECTION = ''Connection''"
definition HEADER_CONTENT_TYPE :: string where "HEADER_CONTENT_TYPE = ''Content-Type''"
definition HEADER_CONTENT_LENGTH :: string where "HEADER_CONTENT_LENGTH = ''Content-Length''"
definition HEADER_LAST_MODIFIED :: string where "HEADER_LAST_MODIFIED = ''Last-Modified''"
definition HEADER_TRANSFER_ENCODING :: string where "HEADER_TRANSFER_ENCODING = ''Transfer-Encoding''"

definition CONTENT_TYPE_HTML :: string where "CONTENT_TYPE_HTML = ''text/html''"
definition CONTENT_TYPE_URLENCODED :: string where
  "CONTENT_TYPE_URLENCODED = ''application/x-www-form-urlencoded''"

definition REQUEST_METHOD_HEAD :: string where "REQUEST_METHOD_HEAD = ''HEAD''"
definition REQUEST_METHOD_GET :: string where "REQUEST_METHOD_GET = ''GET''"
definition REQUEST_METHOD_PUT :: string where "REQUEST_METHOD_PUT = ''PUT''"
definition REQUEST_METHOD_POST :: string where "REQUEST_METHOD_POST = ''POST''"
definition REQUEST_METHOD_DELETE :: string where "REQUEST_METHOD_DELETE = ''DELETE''"

definition RESPONSE_MESSAGE_OK :: string where "RESPONSE_MESSAGE_OK = ''OK''"
definition RESPONSE_MESSAGE_FOUND :: string where "RESPONSE_MESSAGE_FOUND = ''Found''"
definition RESPONSE_MESSAGE_FORBIDDEN :: string where "RESPONSE_MESSAGE_FORBIDDEN = ''Forbidden''"
definition RESPONSE_MESSAGE_NOT_FOUND :: string where "RESPONSE_MESSAGE_NOT_FOUND = ''Not Found''"
definition RESPONSE_MESSAGE_METHOD_NOT_ALLOWED :: string where
  "RESPONSE_MESSAGE_METHOD_NOT_ALLOWED = ''Method Not Allowed''"
definition RESPONSE_MESSAGE_BAD_REQUEST :: string where "RESPONSE_MESSAGE_BAD_REQUEST = ''Bad Request''"
definition RESPONSE_MESSAGE_SERVER_ERROR :: string where "RESPONSE_MESSAGE_SERVER_ERROR = ''Server Error''"

definition RESPONSE_CODE_OK :: "32 word" where "RESPONSE_CODE_OK = 200"
definition RESPONSE_CODE_FOUND :: "32 word" where "RESPONSE_CODE_FOUND = 302"
definition RESPONSE_CODE_FORBIDDEN :: "32 word" where "RESPONSE_CODE_FORBIDDEN = 403"
definition RESPONSE_CODE_NOT_FOUND :: "32 word" where "RESPONSE_CODE_NOT_FOUND = 404"
definition RESPONSE_CODE_METHOD_NOT_ALLOWED :: "32 word" where "RESPONSE_CODE_METHOD_NOT_ALLOWED = 405"
definition RESPONSE_CODE_BAD_REQUEST :: "32 word" where "RESPONSE_CODE_BAD_REQUEST = 400"
definition RESPONSE_CODE_SERVER_ERROR :: "32 word" where "RESPONSE_CODE_SERVER_ERROR = 500"

section \<open>Functions of boost\<close>

text \<open>\<open>lexical_cast\<close> of an unsigned number to a string, of a string to \<open>size_t\<close> (\<open>None\<close> is the
  exception \<open>bad_lexical_cast\<close>), \<open>algorithm::trim\<close>, and the match against the case-insensitive
  regular expression \<open>chunked\<close>.\<close>

record boost_lib =
  lexical_cast_string :: "nat \<Rightarrow> string"
  lexical_cast_size :: "string \<Rightarrow> nat option"
  trim :: "string \<Rightarrow> string"
  regex_icase_chunked :: "string \<Rightarrow> bool"

section \<open>Base64\<close>

abbreviation nop :: int where "nop \<equiv> - 1"

definition decoding_data :: "int list" where
  "decoding_data =
     replicate 43 nop @ [62, nop, nop, nop, 63,
     52, 53, 54, 55, 56, 57, 58, 59, 60, 61, nop, nop, nop, nop, nop, nop,
     nop, 0, 1, 2, 3, 4, 5, 6, 7, 8, 9, 10, 11, 12, 13, 14,
     15, 16, 17, 18, 19, 20, 21, 22, 23, 24, 25, nop, nop, nop, nop, nop,
     nop, 26, 27, 28, 29, 30, 31, 32, 33, 34, 35, 36, 37, 38, 39, 40,
     41, 42, 43, 44, 45, 46, 47, 48, 49, 50, 51, nop, nop, nop, nop, nop]
     @ replicate 128 nop"

definition encoding_data :: string where
  "encoding_data = ''ABCDEFGHIJKLMNOPQRSTUVWXYZabcdefghijklmnopqrstuvwxyz0123456789+/''"

text \<open>The index is a signed \<open>char\<close> converted to \<open>int\<close>: negative for bytes above 127.\<close>

definition decoding_at :: "char \<Rightarrow> fault + int" where
  "decoding_at c =
     (let i = char_to_int c
      in if 0 \<le> i \<and> nat i < length decoding_data then Inr (decoding_data ! nat i) else Inl Out_of_bounds)"

definition byte0 :: "int \<Rightarrow> int \<Rightarrow> char" where
  "byte0 c0 c1 = int_to_char (push_bit 2 c0 OR (drop_bit 4 c1 AND 0x3))"

definition byte1 :: "int \<Rightarrow> int \<Rightarrow> char" where
  "byte1 c1 c2 = int_to_char ((push_bit 4 c1 AND 0xf0) OR (drop_bit 2 c2 AND 0x0f))"

definition byte2 :: "int \<Rightarrow> int \<Rightarrow> char" where
  "byte2 c2 c3 = int_to_char ((push_bit 6 c2 AND 0xc0) OR c3)"

text \<open>One pass of the loop reads up to four characters. The result is what the function returns
  and the output written so far; a violated \<open>BOOST_ASSERT\<close> is a fault.\<close>

fun base64_decode_loop :: "string \<Rightarrow> string \<Rightarrow> fault + bool \<times> string" where
  "base64_decode_loop [] out = Inr (True, out)"
| "base64_decode_loop [x0] out =
     bindE (decoding_at x0) (\<lambda>c0. Inr (False, out))"
| "base64_decode_loop [x0, x1] out =
     bindE (decoding_at x0) (\<lambda>c0. if c0 = nop then Inr (False, out) else
     bindE (decoding_at x1) (\<lambda>c1. if c1 = nop then Inr (False, out) else
     Inr (True, out @ [byte0 c0 c1])))"
| "base64_decode_loop [x0, x1, x2] out =
     bindE (decoding_at x0) (\<lambda>c0. if c0 = nop then Inr (False, out) else
     bindE (decoding_at x1) (\<lambda>c1. if c1 = nop then Inr (False, out) else
     if x2 = CHR ''='' then
       (if c1 AND 0x0f = 0 then Inr (True, out @ [byte0 c0 c1]) else Inl Assertion_failed) else
     bindE (decoding_at x2) (\<lambda>c2. if c2 = nop then Inr (False, out @ [byte0 c0 c1]) else
     Inr (True, out @ [byte0 c0 c1, byte1 c1 c2]))))"
| "base64_decode_loop (x0 # x1 # x2 # x3 # rest) out =
     bindE (decoding_at x0) (\<lambda>c0. if c0 = nop then Inr (False, out) else
     bindE (decoding_at x1) (\<lambda>c1. if c1 = nop then Inr (False, out) else
     if x2 = CHR ''='' then
       (if c1 AND 0x0f = 0 then Inr (True, out @ [byte0 c0 c1]) else Inl Assertion_failed) else
     bindE (decoding_at x2) (\<lambda>c2. if c2 = nop then Inr (False, out @ [byte0 c0 c1]) else
     if x3 = CHR ''='' then
       (if c2 AND 0x03 = 0 then Inr (True, out @ [byte0 c0 c1, byte1 c1 c2]) else Inl Assertion_failed) else
     bindE (decoding_at x3) (\<lambda>c3. if c3 = nop then Inr (False, out @ [byte0 c0 c1, byte1 c1 c2]) else
     base64_decode_loop rest (out @ [byte0 c0 c1, byte1 c1 c2, byte2 c2 c3])))))"

text \<open>The length is kept in an \<open>unsigned int\<close>: only the first \<open>size() mod 2 ^ 32\<close> characters are read.\<close>

definition uint32_prefix :: "string \<Rightarrow> string" where
  "uint32_prefix input = take (length input mod 2 ^ 32) input"

definition base64_decode :: "string \<Rightarrow> fault + bool \<times> string" where
  "base64_decode input = base64_decode_loop (uint32_prefix input) []"

definition encoding_at :: "int \<Rightarrow> char" where
  "encoding_at i = encoding_data ! nat i"

definition sextet0 :: "char \<Rightarrow> int" where
  "sextet0 a = drop_bit 2 (char_to_int a) AND 0x3f"

definition sextet1 :: "char \<Rightarrow> int" where
  "sextet1 a = push_bit 4 (char_to_int a) AND 0x3f"

definition sextet1_next :: "char \<Rightarrow> char \<Rightarrow> int" where
  "sextet1_next a b = sextet1 a OR (drop_bit 4 (char_to_int b) AND 0x0f)"

definition sextet2 :: "char \<Rightarrow> int" where
  "sextet2 b = push_bit 2 (char_to_int b) AND 0x3f"

definition sextet2_next :: "char \<Rightarrow> char \<Rightarrow> int" where
  "sextet2_next b c = sextet2 b OR (drop_bit 6 (char_to_int c) AND 0x03)"

definition sextet3 :: "char \<Rightarrow> int" where
  "sextet3 c = char_to_int c AND 0x3f"

fun base64_encode_loop :: "string \<Rightarrow> string" where
  "base64_encode_loop [] = []"
| "base64_encode_loop [a] = [encoding_at (sextet0 a), encoding_at (sextet1 a), CHR ''='', CHR ''='']"
| "base64_encode_loop [a, b] =
     [encoding_at (sextet0 a), encoding_at (sextet1_next a b), encoding_at (sextet2 b), CHR ''='']"
| "base64_encode_loop (a # b # c # rest) =
     [encoding_at (sextet0 a), encoding_at (sextet1_next a b), encoding_at (sextet2_next b c), encoding_at (sextet3 c)]
     @ base64_encode_loop rest"

definition base64_encode :: "string \<Rightarrow> bool \<times> string" where
  "base64_encode input = (True, base64_encode_loop (uint32_prefix input))"

section \<open>URL encoding\<close>

definition hex_digit :: "char \<Rightarrow> int option" where
  "hex_digit c =
     (if 48 \<le> code c \<and> code c \<le> 57 then Some (int (code c) - 48)
      else if 65 \<le> code c \<and> code c \<le> 70 then Some (int (code c) - 55)
      else if 97 \<le> code c \<and> code c \<le> 102 then Some (int (code c) - 87)
      else None)"

text \<open>\<open>strtol(s, 0, 16)\<close> on the short strings it is called with here: leading space, a sign, an
  optional \<open>0x\<close> before a digit, then the longest run of digits.\<close>

fun hex_value :: "int \<Rightarrow> string \<Rightarrow> int" where
  "hex_value v [] = v"
| "hex_value v (c # cs) = (case hex_digit c of None \<Rightarrow> v | Some d \<Rightarrow> hex_value (16 * v + d) cs)"

definition skip_0x :: "string \<Rightarrow> string" where
  "skip_0x s =
     (case s of z # x # d # r \<Rightarrow>
        if z = CHR ''0'' \<and> (x = CHR ''x'' \<or> x = CHR ''X'') \<and> hex_digit d \<noteq> None then d # r else s
      | _ \<Rightarrow> s)"

definition strtol16 :: "string \<Rightarrow> int" where
  "strtol16 s =
     (case dropWhile isspace s of
        [] \<Rightarrow> 0
      | c # cs \<Rightarrow>
          if c = CHR ''-'' then - hex_value 0 (skip_0x cs)
          else if c = CHR ''+'' then hex_value 0 (skip_0x cs)
          else hex_value 0 (skip_0x (c # cs)))"

fun url_decode :: "string \<Rightarrow> string" where
  "url_decode [] = []"
| "url_decode (c # cs) =
     (if c = CHR ''+'' then CHR '' '' # url_decode cs
      else if c = CHR ''%'' then
        (case cs of a # b # rest \<Rightarrow> int_to_char (strtol16 [a, b]) # url_decode rest
         | _ \<Rightarrow> CHR ''%'' # url_decode cs)
      else c # url_decode cs)"

definition url_reserved :: string where
  "url_reserved = '' $&+,/:;=?@'' @ [CHR 0x22] @ ''<>#%{}|'' @ [CHR 0x5C] @ ''^~[]'' @ [CHR 0x60]"

definition hex_upper :: "nat \<Rightarrow> char" where
  "hex_upper n = (if n < 10 then char_of (48 + n) else char_of (55 + n))"

definition url_encode_char :: "char \<Rightarrow> string" where
  "url_encode_char c =
     (if c \<notin> set url_reserved \<and> 32 < char_to_int c \<and> char_to_int c < 127 then [c]
      else [CHR ''%'', hex_upper (code c div 16), hex_upper (code c mod 16)])"

fun url_encode :: "string \<Rightarrow> string" where
  "url_encode [] = []"
| "url_encode (c # cs) = url_encode_char c @ url_encode cs"

fun make_query_string :: "StringDictionary \<Rightarrow> string" where
  "make_query_string [] = []"
| "make_query_string [(k, v)] = url_encode k @ ''='' @ url_encode v"
| "make_query_string ((k, v) # e # d) =
     url_encode k @ ''='' @ url_encode v @ ''&'' @ make_query_string (e # d)"

definition make_set_cookie_header ::
  "boost_lib \<Rightarrow> string \<Rightarrow> string \<Rightarrow> string \<Rightarrow> bool \<Rightarrow> nat \<Rightarrow> string" where
  "make_set_cookie_header lib name val path has_max_age max_age =
     name @ [CHR ''='', CHR 0x22] @ val @ [CHR 0x22] @ ''; Version='' @ [CHR 0x22, CHR ''1'', CHR 0x22]
     @ (if path \<noteq> [] then ''; Path='' @ [CHR 0x22] @ path @ [CHR 0x22] else [])
     @ (if has_max_age
        then ''; Max-Age='' @ [CHR 0x22] @ lexical_cast_string lib max_age @ [CHR 0x22] else [])"

end
