(* ===== verification/Http_Codecs.thy ===== *)
theory Http_Codecs
  imports Http_Types
begin

text \<open>
  Correctness of the codecs of \<open>HTTPTypes.cpp\<close> and of the case-insensitive dictionary: the bit
  manipulations of base64 as arithmetic on bytes, round trips, the characters an encoded URL may
  hold, and the faults of the base64 decoder.
\<close>

section \<open>Base64 round trip\<close>

lemma and_mask_mod:
  "x AND 0x3 = x mod 4" "x AND 0xf = x mod 16" "x AND 0x3f = x mod 64" for x :: int
  using take_bit_eq_mask [of 2 x] take_bit_eq_mask [of 4 x] take_bit_eq_mask [of 6 x]
  by (simp_all add: take_bit_eq_mod mask_eq_exp_minus_1)

lemma shifts:
  "push_bit 2 x = 4 * x" "push_bit 4 x = 16 * x" "push_bit 6 x = 64 * x"
  "drop_bit 2 x = x div 4" "drop_bit 4 x = x div 16" "drop_bit 6 x = x div 64" for x :: int
  by (simp_all add: push_bit_eq_mult drop_bit_eq_div)

lemma and_high_mask:
  fixes x :: int
  shows "16 * x AND 0xf0 = 16 * (x mod 16)" "64 * x AND 0xc0 = 64 * (x mod 4)"
proof -
  have "push_bit 4 (x AND mask 4) = push_bit 4 x AND push_bit 4 (mask 4)" by (rule push_bit_and)
  moreover have "mask 4 = (15 :: int)" by (simp add: mask_eq_exp_minus_1)
  ultimately show "16 * x AND 0xf0 = 16 * (x mod 16)" by (simp add: and_mask_mod shifts)
  have "push_bit 6 (x AND mask 2) = push_bit 6 x AND push_bit 6 (mask 2)" by (rule push_bit_and)
  moreover have "mask 2 = (3 :: int)" by (simp add: mask_eq_exp_minus_1)
  ultimately show "64 * x AND 0xc0 = 64 * (x mod 4)" by (simp add: and_mask_mod shifts)
qed

lemma or_disjoint:
  fixes h l :: int
  assumes "0 \<le> l" "l < 2 ^ n"
  shows "(2 ^ n * h) OR l = 2 ^ n * h + l"
proof -
  have l: "take_bit n l = l" using assms by (simp add: take_bit_int_eq_self)
  have "push_bit n h AND take_bit n l = 0"
    by (rule bit_eqI) (auto simp: bit_and_iff bit_push_bit_iff bit_take_bit_iff)
  then have "push_bit n h + l = push_bit n h OR l"
    using l by (simp add: disjunctive_add_eq_or)
  then show ?thesis by (simp add: push_bit_eq_mult mult.commute)
qed

lemmas or_disjoint_4 = or_disjoint [where n = 2, simplified]
  and or_disjoint_16 = or_disjoint [where n = 4, simplified]
  and or_disjoint_64 = or_disjoint [where n = 6, simplified]

lemma mod_sub: "(m - c * k) mod k = m mod (k::int)"
  using mod_mult_self1 [of m "- c" k] by simp

lemma byte_shifts:
  fixes n :: int
  assumes "0 \<le> n" "n < 256" "e = 0 \<or> e = 256"
  shows "(n - e) div 4 mod 64 = n div 4" "(n - e) div 16 mod 16 = n div 16" "(n - e) div 64 mod 4 = n div 64"
    "(n - e) mod 64 = n mod 64" "16 * (n - e) mod 64 = 16 * (n mod 4)" "4 * (n - e) mod 64 = 4 * (n mod 16)"
proof -
  have "(n - 256) div 4 = n div 4 - 64" "(n - 256) div 16 = n div 16 - 16" "(n - 256) div 64 = n div 64 - 4"
    by linarith+
  moreover have "n div 4 mod 64 = n div 4" "n div 16 mod 16 = n div 16" "n div 64 mod 4 = n div 64"
    using assms(1,2) by (simp_all add: mod_pos_pos_trivial)
  moreover have "(n div 4 - 64) mod 64 = n div 4 mod 64" "(n div 16 - 16) mod 16 = n div 16 mod 16"
    "(n div 64 - 4) mod 4 = n div 64 mod 4"
    by (rule minus_mod_self2)+
  ultimately show "(n - e) div 4 mod 64 = n div 4" "(n - e) div 16 mod 16 = n div 16" "(n - e) div 64 mod 4 = n div 64"
    using assms(3) by (metis diff_zero)+
  show "(n - e) mod 64 = n mod 64" using assms(3) mod_sub [of n 4 64] by auto
  show "16 * (n - e) mod 64 = 16 * (n mod 4)"
    using assms(3) mult_mod_right [of 16 "n - e" 4] mod_sub [of n 64 4] by auto
  show "4 * (n - e) mod 64 = 4 * (n mod 16)"
    using assms(3) mult_mod_right [of 4 "n - e" 16] mod_sub [of n 16 16] by auto
qed

lemma char_shifts:
  "char_to_int x div 4 mod 64 = int (code x) div 4" "char_to_int x div 16 mod 16 = int (code x) div 16"
  "char_to_int x div 64 mod 4 = int (code x) div 64" "char_to_int x mod 64 = int (code x) mod 64"
  "16 * char_to_int x mod 64 = 16 * (int (code x) mod 4)" "4 * char_to_int x mod 64 = 4 * (int (code x) mod 16)"
proof -
  have "\<exists>e. (e = 0 \<or> e = 256) \<and> char_to_int x = int (code x) - e"
    by (simp add: char_to_int_def)
  then obtain e where e: "e = 0 \<or> e = 256" "char_to_int x = int (code x) - e" by blast
  have "int (code x) < 256" by simp
  note byte_shifts [OF _ this e(1)]
  then show "char_to_int x div 4 mod 64 = int (code x) div 4" "char_to_int x div 16 mod 16 = int (code x) div 16"
  "char_to_int x div 64 mod 4 = int (code x) div 64" "char_to_int x mod 64 = int (code x) mod 64"
  "16 * char_to_int x mod 64 = 16 * (int (code x) mod 4)" "4 * char_to_int x mod 64 = 4 * (int (code x) mod 16)"
    unfolding e(2) by (simp_all only: of_nat_0_le_iff)
qed

lemma sextets:
  "sextet0 a = int (code a) div 4"
  "sextet1 a = 16 * (int (code a) mod 4)"
  "sextet1_next a b = 16 * (int (code a) mod 4) + int (code b) div 16"
  "sextet2 b = 4 * (int (code b) mod 16)"
  "sextet2_next b c = 4 * (int (code b) mod 16) + int (code c) div 64"
  "sextet3 c = int (code c) mod 64"
proof -
  note arith = and_mask_mod shifts char_shifts
  have r: "int (code b) < 256" "int (code c) < 256" by simp_all
  show "sextet0 a = int (code a) div 4" by (simp add: sextet0_def arith)
  show 1: "sextet1 a = 16 * (int (code a) mod 4)" by (simp add: sextet1_def arith)
  show 2: "sextet2 b = 4 * (int (code b) mod 16)" by (simp add: sextet2_def arith)
  show "sextet3 c = int (code c) mod 64" by (simp add: sextet3_def arith)
  have "int (code b) div 16 < 16" "int (code c) div 64 < 4" using r by linarith+
  then show "sextet1_next a b = 16 * (int (code a) mod 4) + int (code b) div 16"
    and "sextet2_next b c = 4 * (int (code b) mod 16) + int (code c) div 64"
    by (simp_all add: sextet1_next_def sextet2_next_def arith 1 2 or_disjoint_16 or_disjoint_4)
qed

lemma bytes:
  assumes "0 \<le> c0" "c0 < 64" "0 \<le> c1" "c1 < 64" "0 \<le> c2" "c2 < 64" "0 \<le> c3" "c3 < 64"
  shows "byte0 c0 c1 = int_to_char (4 * c0 + c1 div 16)"
    "byte1 c1 c2 = int_to_char (16 * (c1 mod 16) + c2 div 4)"
    "byte2 c2 c3 = int_to_char (64 * (c2 mod 4) + c3)"
proof -
  have "c1 div 16 < 4" "c2 div 4 < 16" "0 \<le> c1 div 16" "0 \<le> c2 div 4" using assms by auto
  then show "byte0 c0 c1 = int_to_char (4 * c0 + c1 div 16)"
    "byte1 c1 c2 = int_to_char (16 * (c1 mod 16) + c2 div 4)"
    "byte2 c2 c3 = int_to_char (64 * (c2 mod 4) + c3)"
    using assms or_disjoint_4 [of "c1 div 16" c0] or_disjoint_16 [of "c2 div 4" "c1 mod 16"]
      or_disjoint_64 [of c3 "c2 mod 4"]
    by (simp_all add: byte0_def byte1_def byte2_def and_mask_mod and_high_mask shifts)
qed

lemma decode_encode_table: "map decoding_at encoding_data = map (\<lambda>i. Inr (int i)) [0..<64]"
  by code_simp

lemma encoding_data_facts: "length encoding_data = 64" "CHR ''='' \<notin> set encoding_data"
  by code_simp+

lemma decoding_at_encoding_at:
  assumes "0 \<le> i" "i < 64"
  shows "decoding_at (encoding_at i) = Inr i" "encoding_at i \<noteq> CHR ''=''"
proof -
  have "nat i < 64" using assms by linarith
  then have "map decoding_at encoding_data ! nat i = Inr (int (nat i))"
    unfolding decode_encode_table by simp
  then show "decoding_at (encoding_at i) = Inr i"
    using assms by (simp add: encoding_at_def encoding_data_facts)
  have "encoding_at i \<in> set encoding_data"
    using assms by (simp add: encoding_at_def encoding_data_facts)
  then show "encoding_at i \<noteq> CHR ''=''" using encoding_data_facts(2) by metis
qed

lemma sextet_range:
  "0 \<le> sextet0 a \<and> sextet0 a < 64" "0 \<le> sextet1 a \<and> sextet1 a < 64"
  "0 \<le> sextet1_next a b \<and> sextet1_next a b < 64" "0 \<le> sextet2 a \<and> sextet2 a < 64"
  "0 \<le> sextet2_next a b \<and> sextet2_next a b < 64" "0 \<le> sextet3 a \<and> sextet3 a < 64"
proof -
  have r: "int (code x) < 256" for x by simp
  show "0 \<le> sextet0 a \<and> sextet0 a < 64" "0 \<le> sextet1 a \<and> sextet1 a < 64"
  "0 \<le> sextet1_next a b \<and> sextet1_next a b < 64" "0 \<le> sextet2 a \<and> sextet2 a < 64"
  "0 \<le> sextet2_next a b \<and> sextet2_next a b < 64" "0 \<le> sextet3 a \<and> sextet3 a < 64"
    unfolding sextets using r [of a] r [of b] by (auto, linarith+)
qed

lemma decode_sextet [simp]:
  "decoding_at (encoding_at (sextet0 a)) = Inr (sextet0 a)"
  "decoding_at (encoding_at (sextet1 a)) = Inr (sextet1 a)"
  "decoding_at (encoding_at (sextet1_next a b)) = Inr (sextet1_next a b)"
  "decoding_at (encoding_at (sextet2 a)) = Inr (sextet2 a)"
  "decoding_at (encoding_at (sextet2_next a b)) = Inr (sextet2_next a b)"
  "decoding_at (encoding_at (sextet3 a)) = Inr (sextet3 a)"
  using sextet_range decoding_at_encoding_at(1) by auto

lemma encode_not_pad [simp]:
  "encoding_at (sextet2 a) \<noteq> CHR ''=''" "encoding_at (sextet2_next a b) \<noteq> CHR ''=''"
  "encoding_at (sextet3 a) \<noteq> CHR ''=''"
  using sextet_range decoding_at_encoding_at(2) by auto

lemma sextet_not_nop [simp]:
  "sextet0 a \<noteq> nop" "sextet1 a \<noteq> nop" "sextet1_next a b \<noteq> nop" "sextet2 a \<noteq> nop" "sextet2_next a b \<noteq> nop"
  "sextet3 a \<noteq> nop"
  using sextet_range(1,2,4,6) [of a] sextet_range(3,5) [of a b] by auto

lemma int_to_char_code: "int_to_char (int (code c)) = c"
  by (simp add: int_to_char_def)

lemma byte_sextets [simp]:
  "byte0 (sextet0 a) (sextet1 a) = a" "byte0 (sextet0 a) (sextet1_next a b) = a"
  "byte1 (sextet1_next a b) (sextet2 b) = b" "byte1 (sextet1_next a b) (sextet2_next b c) = b"
  "byte2 (sextet2_next b c) (sextet3 c) = c"
proof -
  have r: "int (code x) div 16 < 16" "int (code x) div 64 < 4" "0 \<le> int (code x) div 16"
    "0 \<le> int (code x) div 64" for x
  proof -
    have "int (code x) < 256" by simp
    then show "int (code x) div 16 < 16" "int (code x) div 64 < 4" "0 \<le> int (code x) div 16"
      "0 \<le> int (code x) div 64" by linarith+
  qed
  have e: "4 * x mod 4 = 0" "(4 * x + y) div 4 = x + y div 4" "(4 * x + y) mod 4 = y mod 4"
     "(16 * x + y) div 16 = x + y div 16" "(16 * x + y) mod 16 = y mod 16" for x y :: int
    by simp_all
  show "byte0 (sextet0 a) (sextet1 a) = a"
    using bytes(1) [of "sextet0 a" "sextet1 a" 0 0] sextet_range
    by (simp add: sextets int_to_char_code)
  show "byte0 (sextet0 a) (sextet1_next a b) = a"
    using bytes(1) [of "sextet0 a" "sextet1_next a b" 0 0] sextet_range r
    by (simp add: sextets int_to_char_code e)
  show "byte1 (sextet1_next a b) (sextet2 b) = b"
    using bytes(2) [of 0 "sextet1_next a b" "sextet2 b" 0] sextet_range r
    by (simp add: sextets int_to_char_code e)
  show "byte1 (sextet1_next a b) (sextet2_next b c) = b"
    using bytes(2) [of 0 "sextet1_next a b" "sextet2_next b c" 0] sextet_range r
    by (simp add: sextets int_to_char_code e)
  show "byte2 (sextet2_next b c) (sextet3 c) = c"
    using bytes(3) [of 0 0 "sextet2_next b c" "sextet3 c"] sextet_range r
    by (simp add: sextets int_to_char_code e)
qed

lemma pad_bits [simp]: "sextet1 a AND 15 = 0" "sextet2 a AND 3 = 0"
  by (simp_all add: sextets and_mask_mod)

lemma base64_decode_encode_loop:
  "base64_decode_loop (base64_encode_loop s) out = Inr (True, out @ s)"
  by (induction s arbitrary: out rule: base64_encode_loop.induct) simp_all

lemma length_base64_encode_loop: "length (base64_encode_loop s) = 4 * ((length s + 2) div 3)"
proof (induction s rule: base64_encode_loop.induct)
  case (4 a b c rest)
  have "(5 + length rest) div 3 = Suc (Suc (Suc (length rest)) div 3)" by linarith
  with 4 show ?case by simp
qed simp_all

section \<open>URL encoding round trip\<close>

lemma code_hex_upper: "n < 16 \<Longrightarrow> code (hex_upper n) = (if n < 10 then 48 + n else 55 + n)"
  by (simp add: hex_upper_def)

lemma hex_digit_upper: "n < 16 \<Longrightarrow> hex_digit (hex_upper n) = Some (int n)"
  by (auto simp: hex_digit_def code_hex_upper)

lemma strtol16_hex: "h < 16 \<Longrightarrow> l < 16 \<Longrightarrow> strtol16 [hex_upper h, hex_upper l] = 16 * int h + int l"
proof -
  assume "h < 16" "l < 16"
  then have "\<not> isspace (hex_upper h)" "hex_upper h \<noteq> CHR ''-''" "hex_upper h \<noteq> CHR ''+''"
    by (auto simp: isspace_def code_hex_upper simp flip: code_inj split: if_splits)
  then show ?thesis using \<open>h < 16\<close> \<open>l < 16\<close>
    by (simp add: strtol16_def skip_0x_def hex_digit_upper)
qed

lemma url_decode_encode_char:
  "url_decode (url_encode_char c @ s) = c # url_decode s"
proof (cases "c \<notin> set url_reserved \<and> 32 < char_to_int c \<and> char_to_int c < 127")
  case True
  then have "c \<noteq> CHR ''+''" "c \<noteq> CHR ''%''" by (auto simp: url_reserved_def)
  with True show ?thesis by (simp add: url_encode_char_def)
next
  case False
  have "code c div 16 < 16" using code_lt_256 [of c] by linarith
  then have "strtol16 [hex_upper (code c div 16), hex_upper (code c mod 16)] = int (code c)"
    using strtol16_hex [of "code c div 16" "code c mod 16"]
    by (simp add: zdiv_int zmod_int)
  moreover have "url_encode_char c = [CHR ''%'', hex_upper (code c div 16), hex_upper (code c mod 16)]"
    using False unfolding url_encode_char_def by (rule if_not_P)
  ultimately show ?thesis by (simp add: int_to_char_code)
qed

lemma url_decode_encode: "url_decode (url_encode s) = s"
  by (induction s) (simp_all add: url_decode_encode_char del: url_decode.simps(2))

lemma url_encode_char_safe:
  "x \<in> set (url_encode_char c) \<Longrightarrow> x = CHR ''%'' \<or> (x \<notin> set url_reserved \<and> 32 < code x \<and> code x < 127)"
proof (cases "c \<notin> set url_reserved \<and> 32 < char_to_int c \<and> char_to_int c < 127")
  case True
  then show "x \<in> set (url_encode_char c) \<Longrightarrow> ?thesis"
    using code_lt_256 [of c]
    by (auto simp: url_encode_char_def char_to_int_def simp del: code_lt_256 split: if_splits)
next
  case False
  have hx: "hex_upper n \<notin> set url_reserved \<and> 32 < code (hex_upper n) \<and> code (hex_upper n) < 127" if "n < 16" for n
    using that by (auto simp: url_reserved_def code_hex_upper simp flip: code_inj)
  have "code c div 16 < 16" using code_lt_256 [of c] by linarith
  then show "x \<in> set (url_encode_char c) \<Longrightarrow> ?thesis"
    using False hx by (auto simp: url_encode_char_def)
qed

lemma url_encode_safe:
  "x \<in> set (url_encode s) \<Longrightarrow> x = CHR ''%'' \<or> (x \<notin> set url_reserved \<and> 32 < code x \<and> code x < 127)"
  by (induction s) (use url_encode_char_safe in auto)

section \<open>Properties\<close>

lemma uint32_prefix_id: "length s < 2 ^ 32 \<Longrightarrow> uint32_prefix s = s"
  by (simp add: uint32_prefix_def)

lemma base64_decode_encode:
  assumes "length s \<le> 3 * (2 ^ 30 - 1)"
  shows "base64_decode (snd (base64_encode s)) = Inr (True, s)"
proof -
  have "length (base64_encode_loop s) \<le> 4 * ((3 * (2 ^ 30 - 1) + 2) div 3)"
    unfolding length_base64_encode_loop using assms by (intro mult_le_mono2 div_le_mono) simp
  then have "length (base64_encode_loop s) < 2 ^ 32" by simp
  moreover have "length s < 2 ^ 32" using assms by simp
  ultimately show ?thesis
    by (simp add: base64_decode_def base64_encode_def uint32_prefix_id base64_decode_encode_loop)
qed

text \<open>Decoding what \<open>base64_encode\<close> produced succeeds and gives back the input, byte for byte and
  for every byte value, as long as the encoded text fits the 32-bit length counters.\<close>

theorem base64_roundtrip:
  assumes "length s \<le> 3 * (2 ^ 30 - 1)"
  shows "base64_decode (snd (base64_encode s)) = Inr (True, s)"
  using assms by (rule base64_decode_encode)

theorem base64_roundtrip_witness:
  "base64_decode (snd (base64_encode [CHR ''a'', CHR 0xFF])) = Inr (True, [CHR ''a'', CHR 0xFF])"
  by (rule base64_roundtrip) simp

text \<open>A byte above 127 where a base64 digit is expected indexes the decoding table with a negative
  number: the decoder reads outside the table instead of reporting a non-base64 symbol.\<close>

theorem base64_decode_high_byte:
  assumes "128 \<le> code c" and "length s < 2 ^ 32 - 1"
  shows "base64_decode (c # s) = Inl Out_of_bounds"
proof -
  have "char_to_int c < 0"
    using assms(1) code_lt_256 [of c] by (simp add: char_to_int_def)
  then have "decoding_at c = Inl Out_of_bounds" by (simp add: decoding_at_def)
  moreover have "uint32_prefix (c # s) = c # s" using assms(2) by (simp add: uint32_prefix_id)
  ultimately show ?thesis
    unfolding base64_decode_def
    by (cases "(c # s, [] :: string)" rule: base64_decode_loop.cases) auto
qed

theorem base64_decode_high_byte_witness:
  "128 \<le> code (CHR 0xE9) \<and> base64_decode [CHR 0xE9, CHR ''A''] = Inl Out_of_bounds"
  using base64_decode_high_byte [of "CHR 0xE9" "''A''"] by simp

text \<open>Padding after a digit whose unused bits are not zero violates an assertion of the decoder
  instead of making it return \<open>false\<close>.\<close>

theorem base64_decode_padding_asserts: "base64_decode ''QR=='' = Inl Assertion_failed"
proof -
  have "base64_decode_loop ''QR=='' [] = Inl Assertion_failed" by code_simp
  then show ?thesis by (simp add: base64_decode_def uint32_prefix_id del: base64_decode_loop.simps)
qed

text \<open>Decoding a URL-encoded string gives back the string, for every byte value.\<close>

theorem url_roundtrip: "url_decode (url_encode s) = s"
  by (rule url_decode_encode)

text \<open>A URL-encoded string consists of printable ASCII characters none of which is reserved, and
  of percent signs.\<close>

theorem url_encode_alphabet:
  "set (url_encode s) \<subseteq> {x. 32 < code x \<and> code x < 127} - (set url_reserved - {CHR ''%''})"
  using url_encode_safe [of _ s] by fastforce

text \<open>The hash function and the ordering agree with the equality the dictionary is built on:
  equal keys hash to the same bucket, and two keys are equal exactly when neither is less.\<close>

theorem dictionary_key_laws:
  "(CaseInsensitiveEqual a b \<longrightarrow> CaseInsensitiveHash a = CaseInsensitiveHash b) \<and>
   (CaseInsensitiveEqual a b \<longleftrightarrow> \<not> CaseInsensitiveLess a b \<and> \<not> CaseInsensitiveLess b a) \<and>
   (CaseInsensitiveLess a b \<longrightarrow> CaseInsensitiveLess b c \<longrightarrow> CaseInsensitiveLess a c)"
proof (intro conjI impI)
  assume "CaseInsensitiveEqual a b"
  then show "CaseInsensitiveHash a = CaseInsensitiveHash b"
    unfolding CaseInsensitiveHash_def CaseInsensitiveEqual_iff lower_def
    by (rule CaseInsensitiveHash_loop_cong)
next
  let ?f = "map (char_to_int \<circ> tolower)"
  have inj: "lower x = lower y \<longleftrightarrow> ?f x = ?f y" for x y
  proof -
    have "inj char_to_int" by (auto intro: injI simp: char_to_int_inj)
    then have "inj (map char_to_int)" by (rule inj_mapI)
    then show ?thesis by (simp add: lower_def inj_eq flip: map_map)
  qed
  have lin: "\<forall>a b. (a, b) \<in> {(x, y :: int). x < y} \<or> a = b \<or> (b, a) \<in> {(x, y). x < y}" by auto
  have "?f a = ?f b \<or> (?f a, ?f b) \<in> lexord {(x, y). x < y} \<or> (?f b, ?f a) \<in> lexord {(x, y). x < y}"
    using lexord_linear [OF lin, of "?f a" "?f b"] by blast
  moreover have "(x, x) \<notin> lexord {(x, y :: int). x < y}" for x by (simp add: lexord_irreflexive)
  moreover have "asym (lexord {(x, y :: int). x < y})" by (rule lexord_asym) (auto intro: asymI)
  ultimately show "CaseInsensitiveEqual a b \<longleftrightarrow> \<not> CaseInsensitiveLess a b \<and> \<not> CaseInsensitiveLess b a"
    by (auto simp: CaseInsensitiveEqual_iff inj CaseInsensitiveLess_iff_lexord)
next
  assume "CaseInsensitiveLess a b" "CaseInsensitiveLess b c"
  then show "CaseInsensitiveLess a c"
    unfolding CaseInsensitiveLess_iff_lexord
    by (rule lexord_trans) (auto intro: transI)
qed

theorem dictionary_key_laws_witness:
  "CaseInsensitiveEqual ''Host'' ''HOST'' \<and> CaseInsensitiveHash ''Host'' = CaseInsensitiveHash ''HOST'' \<and>
   CaseInsensitiveLess ''a'' ''C''"
proof -
  have "CaseInsensitiveEqual ''Host'' ''HOST''" "CaseInsensitiveLess ''a'' ''B''" "CaseInsensitiveLess ''B'' ''C''"
    by code_simp+
  with dictionary_key_laws [of "''Host''" "''HOST''" "[]"] dictionary_key_laws [of "''a''" "''B''" "''C''"]
  show ?thesis by blast
qed

text \<open>Changing a key of the dictionary leaves exactly the new value under every spelling of the
  key, whatever values it had, and the values of no other key change; \<open>getValue\<close> then returns it.
  Deleting a key leaves no value under any spelling of it.\<close>

theorem dictionary_change_delete:
  assumes "grouped d"
  shows "(CaseInsensitiveEqual k k' \<longrightarrow> dict_values k' (changeValue k v d) = [v] \<and>
            getValue (changeValue k v d) k' = v \<and> dict_find k' (deleteValue k d) = None) \<and>
         (\<not> CaseInsensitiveEqual k k' \<longrightarrow> dict_values k' (changeValue k v d) = dict_values k' d \<and>
            dict_values k' (deleteValue k d) = dict_values k' d) \<and>
         grouped (changeValue k v d) \<and> grouped (deleteValue k d)"
  using string_dictionary.vals_change [OF assms] string_dictionary.vals_delete [OF assms]
    string_dictionary.inv_change [OF assms] string_dictionary.inv_delete [OF assms]
  by (simp add: getValue_values dict_find_values(1))

theorem dictionary_change_delete_witness:
  "grouped [(''A'', ''1''), (''a'', ''2''), (''b'', ''3'')] \<and>
   dict_values ''a'' (changeValue ''A'' ''9'' [(''A'', ''1''), (''a'', ''2''), (''b'', ''3'')]) = [''9'']"
proof -
  have g: "grouped [(''A'', ''1''), (''a'', ''2''), (''b'', ''3'')]" "CaseInsensitiveEqual ''A'' ''a''"
    by code_simp+
  from dictionary_change_delete [OF g(1), of "''A''" "''a''" "''9''"] g show ?thesis by simp
qed

end
