(* ===== verification/Http_Message.thy ===== *)
theory Http_Message
  imports Http_Codecs
begin

text \<open>
  The message classes of pion-net: \<open>HTTPMessage.hpp\<close>, \<open>HTTPMessage.cpp\<close>, \<open>HTTPRequest.hpp\<close> and
  \<open>HTTPResponse.hpp\<close>. The two derived classes are a sum type in a field of the message, so that
  \<open>dynamic_cast<HTTPRequest&>\<close> is a case distinction with the fault \<open>Bad_cast\<close>. Sizes are 64-bit
  words; the content buffer is an array of bytes some of which may not have been written.
  The first line is cached and recomputed on demand, as in the code. Allocation does not fail.
  The user record a request gets after authentication belongs to the authentication classes.
\<close>

section \<open>State\<close>

datatype DataStatus = STATUS_NONE | STATUS_TRUNCATED | STATUS_PARTIAL | STATUS_OK

record HTTPRequest_part =
  m_method :: string
  m_resource :: string
  m_original_resource :: string
  m_query_string :: string
  m_query_params :: StringDictionary
  m_charset :: string

record HTTPResponse_part =
  m_status_code :: "32 word"
  m_status_message :: string
  m_request_method :: string

datatype message_class = Request HTTPRequest_part | Response HTTPResponse_part

record HTTPMessage =
  m_first_line :: string
  m_is_valid :: bool
  m_is_chunked :: bool
  m_chunks_supported :: bool
  m_do_not_send_content_length :: bool
  m_remote_ip :: "32 word"
  m_version_major :: "16 word"
  m_version_minor :: "16 word"
  m_content_length :: "64 word"
  m_content_buf :: "buffer option"
  m_chunk_cache :: string
  m_headers :: StringDictionary
  m_cookie_params :: StringDictionary
  m_status :: DataStatus
  m_has_missing_packets :: bool
  m_has_data_after_missing :: bool
  m_class :: message_class

definition HTTPMessage_init :: "message_class \<Rightarrow> HTTPMessage" where
  "HTTPMessage_init cl =
     \<lparr>m_first_line = [], m_is_valid = False, m_is_chunked = False, m_chunks_supported = False,
      m_do_not_send_content_length = False, m_remote_ip = 0, m_version_major = 1, m_version_minor = 1,
      m_content_length = 0, m_content_buf = None, m_chunk_cache = [], m_headers = [],
      m_cookie_params = [], m_status = STATUS_NONE, m_has_missing_packets = False,
      m_has_data_after_missing = False, m_class = cl\<rparr>"

definition HTTPRequest_init :: "string \<Rightarrow> HTTPMessage" where
  "HTTPRequest_init resource =
     HTTPMessage_init (Request \<lparr>m_method = REQUEST_METHOD_GET, m_resource = resource,
       m_original_resource = [], m_query_string = [], m_query_params = [], m_charset = []\<rparr>)"

definition HTTPResponse_init :: "string \<Rightarrow> HTTPMessage" where
  "HTTPResponse_init request_method =
     HTTPMessage_init (Response \<lparr>m_status_code = RESPONSE_CODE_OK,
       m_status_message = RESPONSE_MESSAGE_OK, m_request_method = request_method\<rparr>)"

definition is_request :: "HTTPMessage \<Rightarrow> bool" where
  "is_request msg = (case m_class msg of Request _ \<Rightarrow> True | Response _ \<Rightarrow> False)"

section \<open>Clearing\<close>

definition clearFirstLine :: "HTTPMessage \<Rightarrow> HTTPMessage" where
  "clearFirstLine msg = msg\<lparr>m_first_line := []\<rparr>"

definition HTTPMessage_clear :: "HTTPMessage \<Rightarrow> HTTPMessage" where
  "HTTPMessage_clear msg = HTTPMessage_init (m_class msg)"

text \<open>The virtual \<open>clear\<close>: the base class part, then the fields of the derived class.\<close>

definition clear :: "HTTPMessage \<Rightarrow> HTTPMessage" where
  "clear msg =
     (let msg' = HTTPMessage_clear msg
      in case m_class msg of
           Request _ \<Rightarrow> msg'\<lparr>m_class := Request \<lparr>m_method = [], m_resource = [], m_original_resource = [],
               m_query_string = [], m_query_params = [], m_charset = []\<rparr>\<rparr>
         | Response _ \<Rightarrow> msg'\<lparr>m_class := Response \<lparr>m_status_code = RESPONSE_CODE_OK,
               m_status_message = RESPONSE_MESSAGE_OK, m_request_method = []\<rparr>\<rparr>)"

definition isContentLengthImplied :: "HTTPMessage \<Rightarrow> bool" where
  "isContentLengthImplied msg =
     (case m_class msg of
        Request _ \<Rightarrow> False
      | Response r \<Rightarrow> m_request_method r = REQUEST_METHOD_HEAD
          \<or> (m_status_code r \<ge> 100 \<and> m_status_code r \<le> 199)
          \<or> m_status_code r = 204 \<or> m_status_code r = 205 \<or> m_status_code r = 304)"

section \<open>The derived classes\<close>

definition as_request :: "HTTPMessage \<Rightarrow> fault + HTTPRequest_part" where
  "as_request msg = (case m_class msg of Request r \<Rightarrow> Inr r | Response _ \<Rightarrow> Inl Bad_cast)"

definition as_response :: "HTTPMessage \<Rightarrow> fault + HTTPResponse_part" where
  "as_response msg = (case m_class msg of Request _ \<Rightarrow> Inl Bad_cast | Response r \<Rightarrow> Inr r)"

definition update_request :: "(HTTPRequest_part \<Rightarrow> HTTPRequest_part) \<Rightarrow> HTTPMessage \<Rightarrow> fault + HTTPMessage" where
  "update_request f msg = bindE (as_request msg) (\<lambda>r. Inr (msg\<lparr>m_class := Request (f r)\<rparr>))"

definition update_response :: "(HTTPResponse_part \<Rightarrow> HTTPResponse_part) \<Rightarrow> HTTPMessage \<Rightarrow> fault + HTTPMessage" where
  "update_response f msg = bindE (as_response msg) (\<lambda>r. Inr (msg\<lparr>m_class := Response (f r)\<rparr>))"

definition setMethod :: "string \<Rightarrow> HTTPMessage \<Rightarrow> fault + HTTPMessage" where
  "setMethod str msg = bindE (update_request (m_method_update (\<lambda>_. str)) msg) (\<lambda>m. Inr (clearFirstLine m))"

definition setResource :: "string \<Rightarrow> HTTPMessage \<Rightarrow> fault + HTTPMessage" where
  "setResource str msg =
     bindE (update_request (\<lambda>r. r\<lparr>m_resource := str, m_original_resource := str\<rparr>) msg)
       (\<lambda>m. Inr (clearFirstLine m))"

definition changeResource :: "string \<Rightarrow> HTTPMessage \<Rightarrow> fault + HTTPMessage" where
  "changeResource str msg = update_request (m_resource_update (\<lambda>_. str)) msg"

definition setQueryString :: "string \<Rightarrow> HTTPMessage \<Rightarrow> fault + HTTPMessage" where
  "setQueryString str msg =
     bindE (update_request (m_query_string_update (\<lambda>_. str)) msg) (\<lambda>m. Inr (clearFirstLine m))"

definition addQuery :: "string \<Rightarrow> string \<Rightarrow> HTTPMessage \<Rightarrow> fault + HTTPMessage" where
  "addQuery k v msg = update_request (m_query_params_update (dict_insert k v)) msg"

definition changeQuery :: "string \<Rightarrow> string \<Rightarrow> HTTPMessage \<Rightarrow> fault + HTTPMessage" where
  "changeQuery k v msg = update_request (m_query_params_update (changeValue k v)) msg"

definition deleteQuery :: "string \<Rightarrow> HTTPMessage \<Rightarrow> fault + HTTPMessage" where
  "deleteQuery k msg = update_request (m_query_params_update (deleteValue k)) msg"

definition setStatusCode :: "32 word \<Rightarrow> HTTPMessage \<Rightarrow> fault + HTTPMessage" where
  "setStatusCode n msg =
     bindE (update_response (m_status_code_update (\<lambda>_. n)) msg) (\<lambda>m. Inr (clearFirstLine m))"

definition setStatusMessage :: "string \<Rightarrow> HTTPMessage \<Rightarrow> fault + HTTPMessage" where
  "setStatusMessage s msg =
     bindE (update_response (m_status_message_update (\<lambda>_. s)) msg) (\<lambda>m. Inr (clearFirstLine m))"

text \<open>\<open>updateRequestInfo\<close> of a response for a given request.\<close>

definition updateRequestInfo :: "HTTPMessage \<Rightarrow> HTTPMessage \<Rightarrow> fault + HTTPMessage" where
  "updateRequestInfo http_request msg =
     bindE (as_request http_request) (\<lambda>r.
       bindE (update_response (m_request_method_update (\<lambda>_. m_method r)) msg) (\<lambda>m.
         Inr (if m_version_major http_request = 1 \<and> m_version_minor http_request \<ge> 1
              then m\<lparr>m_chunks_supported := True\<rparr> else m)))"

definition HTTPResponse_for :: "HTTPMessage \<Rightarrow> fault + HTTPMessage" where
  "HTTPResponse_for http_request = updateRequestInfo http_request (HTTPResponse_init [])"

section \<open>Headers\<close>

definition getHeader :: "string \<Rightarrow> HTTPMessage \<Rightarrow> string" where
  "getHeader k msg = getValue (m_headers msg) k"

definition hasHeader :: "string \<Rightarrow> HTTPMessage \<Rightarrow> bool" where
  "hasHeader k msg = (dict_find k (m_headers msg) \<noteq> None)"

definition addHeader :: "string \<Rightarrow> string \<Rightarrow> HTTPMessage \<Rightarrow> HTTPMessage" where
  "addHeader k v msg = msg\<lparr>m_headers := dict_insert k v (m_headers msg)\<rparr>"

definition changeHeader :: "string \<Rightarrow> string \<Rightarrow> HTTPMessage \<Rightarrow> HTTPMessage" where
  "changeHeader k v msg = msg\<lparr>m_headers := changeValue k v (m_headers msg)\<rparr>"

definition deleteHeader :: "string \<Rightarrow> HTTPMessage \<Rightarrow> HTTPMessage" where
  "deleteHeader k msg = msg\<lparr>m_headers := deleteValue k (m_headers msg)\<rparr>"

definition addCookie :: "string \<Rightarrow> string \<Rightarrow> HTTPMessage \<Rightarrow> HTTPMessage" where
  "addCookie k v msg = msg\<lparr>m_cookie_params := dict_insert k v (m_cookie_params msg)\<rparr>"

definition changeCookie :: "string \<Rightarrow> string \<Rightarrow> HTTPMessage \<Rightarrow> HTTPMessage" where
  "changeCookie k v msg = msg\<lparr>m_cookie_params := changeValue k v (m_cookie_params msg)\<rparr>"

definition deleteCookie_param :: "string \<Rightarrow> HTTPMessage \<Rightarrow> HTTPMessage" where
  "deleteCookie_param k msg = msg\<lparr>m_cookie_params := deleteValue k (m_cookie_params msg)\<rparr>"

definition setContentType :: "string \<Rightarrow> HTTPMessage \<Rightarrow> HTTPMessage" where
  "setContentType type msg = changeHeader HEADER_CONTENT_TYPE type msg"

definition setVersionMajor :: "16 word \<Rightarrow> HTTPMessage \<Rightarrow> HTTPMessage" where
  "setVersionMajor n msg = clearFirstLine (msg\<lparr>m_version_major := n\<rparr>)"

definition setVersionMinor :: "16 word \<Rightarrow> HTTPMessage \<Rightarrow> HTTPMessage" where
  "setVersionMinor n msg = clearFirstLine (msg\<lparr>m_version_minor := n\<rparr>)"

text \<open>\<open>None\<close> is the exception \<open>bad_lexical_cast\<close>; the message is unchanged then.\<close>

definition updateContentLengthUsingHeader :: "boost_lib \<Rightarrow> HTTPMessage \<Rightarrow> HTTPMessage option" where
  "updateContentLengthUsingHeader lib msg =
     (case dict_find HEADER_CONTENT_LENGTH (m_headers msg) of
        None \<Rightarrow> Some (msg\<lparr>m_content_length := 0\<rparr>)
      | Some e \<Rightarrow>
          (case lexical_cast_size lib (trim lib (snd e)) of
             None \<Rightarrow> None
           | Some n \<Rightarrow> Some (msg\<lparr>m_content_length := of_nat n\<rparr>)))"

definition updateTransferCodingUsingHeader :: "boost_lib \<Rightarrow> HTTPMessage \<Rightarrow> HTTPMessage" where
  "updateTransferCodingUsingHeader lib msg =
     (case dict_find HEADER_TRANSFER_ENCODING (m_headers msg) of
        None \<Rightarrow> msg\<lparr>m_is_chunked := False\<rparr>
      | Some e \<Rightarrow> msg\<lparr>m_is_chunked := regex_icase_chunked lib (snd e)\<rparr>)"

definition checkKeepAlive :: "HTTPMessage \<Rightarrow> bool" where
  "checkKeepAlive msg \<longleftrightarrow>
     getHeader HEADER_CONNECTION msg \<noteq> ''close'' \<and>
     (m_version_major msg > 1 \<or> (m_version_major msg \<ge> 1 \<and> m_version_minor msg \<ge> 1))"

section \<open>Content\<close>

text \<open>The size of the new array is computed in \<open>size_t\<close>: for the largest content length it wraps
  to zero, and the terminating NUL is written outside the array.\<close>

definition createContentBuffer :: "HTTPMessage \<Rightarrow> fault + HTTPMessage" where
  "createContentBuffer msg =
     (let buf = replicate (unat (m_content_length msg + 1)) None;
          i = unat (m_content_length msg)
      in if i < length buf then Inr (msg\<lparr>m_content_buf := Some (buf[i := Some (CHR 0x00)])\<rparr>)
         else Inl Out_of_bounds)"

definition fill_content :: "string \<Rightarrow> HTTPMessage \<Rightarrow> fault + HTTPMessage" where
  "fill_content s msg =
     (case m_content_buf msg of
        None \<Rightarrow> Inl Out_of_bounds
      | Some buf \<Rightarrow> bindE (write_at 0 s buf) (\<lambda>buf'. Inr (msg\<lparr>m_content_buf := Some buf'\<rparr>)))"

definition concatenateChunks :: "HTTPMessage \<Rightarrow> fault + HTTPMessage" where
  "concatenateChunks msg =
     bindE (createContentBuffer (msg\<lparr>m_content_length := of_nat (length (m_chunk_cache msg))\<rparr>)) (\<lambda>m.
       if m_chunk_cache m \<noteq> [] then fill_content (m_chunk_cache m) m else Inr m)"

definition setContent :: "string \<Rightarrow> HTTPMessage \<Rightarrow> fault + HTTPMessage" where
  "setContent val msg =
     bindE (createContentBuffer (msg\<lparr>m_content_length := of_nat (length val)\<rparr>)) (\<lambda>m.
       if val \<noteq> [] then fill_content val m else Inr m)"

definition useQueryParamsForQueryString :: "HTTPMessage \<Rightarrow> fault + HTTPMessage" where
  "useQueryParamsForQueryString msg =
     bindE (as_request msg) (\<lambda>r. setQueryString (make_query_string (m_query_params r)) msg)"

definition useQueryParamsForPostContent :: "HTTPMessage \<Rightarrow> fault + HTTPMessage" where
  "useQueryParamsForPostContent msg =
     bindE (as_request msg) (\<lambda>r.
       bindE (setContent (make_query_string (m_query_params r)) msg) (\<lambda>m.
         bindE (setMethod REQUEST_METHOD_POST m) (\<lambda>m'.
           Inr (setContentType CONTENT_TYPE_URLENCODED m'))))"

text \<open>The bytes of the content a reader sees: the first \<open>m_content_length\<close> of the buffer.\<close>

definition content :: "HTTPMessage \<Rightarrow> fault + char option list" where
  "content msg =
     (case m_content_buf msg of
        None \<Rightarrow> if m_content_length msg = 0 then Inr [] else Inl Out_of_bounds
      | Some buf \<Rightarrow> read_buffer buf (unat (m_content_length msg)))"

section \<open>Copying\<close>

definition copy_content :: "HTTPMessage \<Rightarrow> HTTPMessage \<Rightarrow> fault + HTTPMessage" where
  "copy_content http_msg msg =
     (case m_content_buf http_msg of
        None \<Rightarrow> Inr msg
      | Some src \<Rightarrow>
          bindE (createContentBuffer msg) (\<lambda>m.
            bindE (read_buffer src (unat (m_content_length m))) (\<lambda>bytes.
              Inr (m\<lparr>m_content_buf :=
                map_option (\<lambda>dst. bytes @ drop (length bytes) dst) (m_content_buf m)\<rparr>))))"

text \<open>The copy constructor of a response: every field but the cookies is copied.\<close>

definition HTTPResponse_copy :: "HTTPMessage \<Rightarrow> fault + HTTPMessage" where
  "HTTPResponse_copy http_msg =
     copy_content http_msg (http_msg\<lparr>m_content_buf := None, m_cookie_params := []\<rparr>)"

definition HTTPMessage_assign :: "HTTPMessage \<Rightarrow> HTTPMessage \<Rightarrow> fault + HTTPMessage" where
  "HTTPMessage_assign http_msg msg =
     copy_content http_msg
       (http_msg\<lparr>m_content_buf := m_content_buf msg, m_cookie_params := m_cookie_params msg,
         m_class := m_class msg\<rparr>)"

section \<open>Sending\<close>

definition getVersionString :: "boost_lib \<Rightarrow> HTTPMessage \<Rightarrow> string" where
  "getVersionString lib msg =
     STRING_HTTP_VERSION @ lexical_cast_string lib (unat (m_version_major msg)) @ ''.''
       @ lexical_cast_string lib (unat (m_version_minor msg))"

definition updateFirstLine :: "boost_lib \<Rightarrow> HTTPMessage \<Rightarrow> HTTPMessage" where
  "updateFirstLine lib msg =
     (case m_class msg of
        Request r \<Rightarrow>
          msg\<lparr>m_first_line := m_method r @ '' '' @ m_resource r
            @ (if m_query_string r \<noteq> [] then ''?'' @ m_query_string r else [])
            @ '' '' @ getVersionString lib msg\<rparr>
      | Response r \<Rightarrow>
          msg\<lparr>m_first_line := getVersionString lib msg @ '' ''
            @ lexical_cast_string lib (unat (m_status_code r)) @ '' '' @ m_status_message r\<rparr>)"

definition getFirstLine :: "boost_lib \<Rightarrow> HTTPMessage \<Rightarrow> string \<times> HTTPMessage" where
  "getFirstLine lib msg =
     (let msg' = (if m_first_line msg = [] then updateFirstLine lib msg else msg)
      in (m_first_line msg', msg'))"

definition prepareHeadersForSend :: "boost_lib \<Rightarrow> bool \<Rightarrow> bool \<Rightarrow> HTTPMessage \<Rightarrow> HTTPMessage" where
  "prepareHeadersForSend lib keep_alive using_chunks msg =
     (let m = changeHeader HEADER_CONNECTION (if keep_alive then ''Keep-Alive'' else ''close'') msg
      in if using_chunks then
           (if m_chunks_supported m then changeHeader HEADER_TRANSFER_ENCODING ''chunked'' m else m)
         else if \<not> m_do_not_send_content_length m then
           changeHeader HEADER_CONTENT_LENGTH (lexical_cast_string lib (unat (m_content_length m))) m
         else m)"

definition appendHeaders :: "HTTPMessage \<Rightarrow> string list" where
  "appendHeaders msg =
     concat (map (\<lambda>e. [fst e, HEADER_NAME_VALUE_DELIMITER, snd e, STRING_CRLF]) (m_headers msg))
       @ [STRING_CRLF]"

definition prepareBuffersForSend ::
  "boost_lib \<Rightarrow> bool \<Rightarrow> bool \<Rightarrow> HTTPMessage \<Rightarrow> string list \<times> HTTPMessage" where
  "prepareBuffersForSend lib keep_alive using_chunks msg =
     (let m = prepareHeadersForSend lib keep_alive using_chunks msg;
          (line, m') = getFirstLine lib m
      in ([line, STRING_CRLF] @ appendHeaders m', m'))"

text \<open>\<open>send\<close> hands these buffers, and the content if there is any, to the connection.\<close>

definition send :: "boost_lib \<Rightarrow> bool \<Rightarrow> HTTPMessage \<Rightarrow> fault + (string list \<times> char option list \<times> HTTPMessage)" where
  "send lib keep_alive msg =
     (let (bufs, m) = prepareBuffersForSend lib keep_alive False msg
      in if m_content_length m > 0 \<and> m_content_buf m \<noteq> None
         then bindE (content m) (\<lambda>bytes. Inr (bufs, bytes, m))
         else Inr (bufs, [], m))"

section \<open>Cookies of a response\<close>

definition setCookie :: "boost_lib \<Rightarrow> string \<Rightarrow> string \<Rightarrow> string \<Rightarrow> HTTPMessage \<Rightarrow> HTTPMessage" where
  "setCookie lib name val path msg =
     addHeader HEADER_SET_COOKIE (make_set_cookie_header lib name val path False 0) msg"

definition setCookie_max_age :: "boost_lib \<Rightarrow> string \<Rightarrow> string \<Rightarrow> string \<Rightarrow> nat \<Rightarrow> HTTPMessage \<Rightarrow> HTTPMessage" where
  "setCookie_max_age lib name val path max_age msg =
     addHeader HEADER_SET_COOKIE (make_set_cookie_header lib name val path True max_age) msg"

definition deleteCookie :: "boost_lib \<Rightarrow> string \<Rightarrow> string \<Rightarrow> HTTPMessage \<Rightarrow> HTTPMessage" where
  "deleteCookie lib name path msg =
     addHeader HEADER_SET_COOKIE (make_set_cookie_header lib name [] path True 0) msg"

end
