(* ===== verification/Http_Parser.thy ===== *)
theory Http_Parser
  imports Http_Message
begin

text \<open>
  The HTTP parser of pion-net (\<open>HTTPParser.hpp\<close>, \<open>HTTPParser.cpp\<close>): a state machine that consumes
  a message from successive read buffers. The read buffer is the list of bytes between
  \<open>m_read_ptr\<close> and \<open>m_read_end_ptr\<close>; a fresh parser has none. The switch of \<open>parseHeaders\<close> is one
  step function per group of states. Byte counters are natural numbers: each counts bytes that
  were received or announced by a 64-bit length, so none wraps. Logging is left out.
\<close>

section \<open>Limits\<close>

definition STATUS_MESSAGE_MAX :: nat where "STATUS_MESSAGE_MAX = 1024"
definition METHOD_MAX :: nat where "METHOD_MAX = 1024"
definition RESOURCE_MAX :: nat where "RESOURCE_MAX = 256 * 1024"
definition QUERY_STRING_MAX :: nat where "QUERY_STRING_MAX = 1024 * 1024"
definition HEADER_NAME_MAX :: nat where "HEADER_NAME_MAX = 1024"
definition HEADER_VALUE_MAX :: nat where "HEADER_VALUE_MAX = 1024 * 1024"
definition QUERY_NAME_MAX :: nat where "QUERY_NAME_MAX = 1024"
definition QUERY_VALUE_MAX :: nat where "QUERY_VALUE_MAX = 1024 * 1024"
definition COOKIE_NAME_MAX :: nat where "COOKIE_NAME_MAX = 1024"
definition COOKIE_VALUE_MAX :: nat where "COOKIE_VALUE_MAX = 1024 * 1024"
definition DEFAULT_CONTENT_MAX :: nat where "DEFAULT_CONTENT_MAX = 1024 * 1024"

section \<open>State\<close>

datatype MessageParseState =
    PARSE_START | PARSE_HEADERS | PARSE_CONTENT | PARSE_CONTENT_NO_LENGTH | PARSE_CHUNKS | PARSE_END

datatype HeadersParseState =
    PARSE_METHOD_START | PARSE_METHOD | PARSE_URI_STEM | PARSE_URI_QUERY
  | PARSE_HTTP_VERSION_H | PARSE_HTTP_VERSION_T_1 | PARSE_HTTP_VERSION_T_2
  | PARSE_HTTP_VERSION_P | PARSE_HTTP_VERSION_SLASH
  | PARSE_HTTP_VERSION_MAJOR_START | PARSE_HTTP_VERSION_MAJOR
  | PARSE_HTTP_VERSION_MINOR_START | PARSE_HTTP_VERSION_MINOR
  | PARSE_STATUS_CODE_START | PARSE_STATUS_CODE | PARSE_STATUS_MESSAGE
  | PARSE_EXPECTING_NEWLINE | PARSE_EXPECTING_CR
  | PARSE_HEADER_WHITESPACE | PARSE_HEADER_START | PARSE_HEADER_NAME
  | PARSE_SPACE_BEFORE_HEADER_VALUE | PARSE_HEADER_VALUE
  | PARSE_EXPECTING_FINAL_NEWLINE | PARSE_EXPECTING_FINAL_CR

datatype ChunkedContentParseState =
    PARSE_CHUNK_SIZE_START | PARSE_CHUNK_SIZE
  | PARSE_EXPECTING_CR_AFTER_CHUNK_SIZE | PARSE_EXPECTING_LF_AFTER_CHUNK_SIZE | PARSE_CHUNK
  | PARSE_EXPECTING_CR_AFTER_CHUNK | PARSE_EXPECTING_LF_AFTER_CHUNK
  | PARSE_EXPECTING_FINAL_CR_AFTER_LAST_CHUNK | PARSE_EXPECTING_FINAL_LF_AFTER_LAST_CHUNK

record HTTPParser =
  p_is_request :: bool
  p_read_buf :: string
  p_message_parse_state :: MessageParseState
  p_headers_parse_state :: HeadersParseState
  p_chunked_content_parse_state :: ChunkedContentParseState
  p_status_code :: "16 word"
  p_status_message :: string
  p_method :: string
  p_resource :: string
  p_query_string :: string
  p_raw_headers :: string
  p_header_name :: string
  p_header_value :: string
  p_chunk_size_str :: string
  p_size_of_current_chunk :: nat
  p_bytes_read_in_current_chunk :: nat
  p_bytes_content_remaining :: nat
  p_bytes_content_read :: nat
  p_bytes_last_read :: nat
  p_bytes_total_read :: nat
  p_max_content_length :: nat
  p_save_raw_headers :: bool

definition first_headers_state :: "bool \<Rightarrow> HeadersParseState" where
  "first_headers_state is_req = (if is_req then PARSE_METHOD_START else PARSE_HTTP_VERSION_H)"

text \<open>The two counters of the current chunk are not initialised by the constructor; they are set
  before they are read, and zero stands for them here.\<close>

definition HTTPParser_init :: "bool \<Rightarrow> nat \<Rightarrow> HTTPParser" where
  "HTTPParser_init is_req max_content_length =
     \<lparr>p_is_request = is_req, p_read_buf = [], p_message_parse_state = PARSE_START,
      p_headers_parse_state = first_headers_state is_req,
      p_chunked_content_parse_state = PARSE_CHUNK_SIZE_START, p_status_code = 0,
      p_status_message = [], p_method = [], p_resource = [], p_query_string = [],
      p_raw_headers = [], p_header_name = [], p_header_value = [], p_chunk_size_str = [],
      p_size_of_current_chunk = 0, p_bytes_read_in_current_chunk = 0,
      p_bytes_content_remaining = 0, p_bytes_content_read = 0, p_bytes_last_read = 0,
      p_bytes_total_read = 0, p_max_content_length = max_content_length,
      p_save_raw_headers = False\<rparr>"

definition setReadBuffer :: "string \<Rightarrow> HTTPParser \<Rightarrow> HTTPParser" where
  "setReadBuffer buf p = p\<lparr>p_read_buf := buf\<rparr>"

definition parser_eof :: "HTTPParser \<Rightarrow> bool" where
  "parser_eof p = (p_read_buf p = [])"

definition parser_reset :: "HTTPParser \<Rightarrow> HTTPParser" where
  "parser_reset p =
     p\<lparr>p_message_parse_state := PARSE_START,
       p_headers_parse_state := first_headers_state (p_is_request p),
       p_chunked_content_parse_state := PARSE_CHUNK_SIZE_START,
       p_status_code := 0, p_status_message := [], p_method := [], p_resource := [],
       p_query_string := [], p_raw_headers := [], p_bytes_content_read := 0,
       p_bytes_last_read := 0, p_bytes_total_read := 0\<rparr>"

section \<open>Character classes\<close>

definition isChar :: "char \<Rightarrow> bool" where
  "isChar c \<longleftrightarrow> char_to_int c \<ge> 0 \<and> char_to_int c \<le> 127"

definition isControl :: "char \<Rightarrow> bool" where
  "isControl c \<longleftrightarrow> (char_to_int c \<ge> 0 \<and> char_to_int c \<le> 31) \<or> char_to_int c = 127"

definition isSpecial :: "char \<Rightarrow> bool" where
  "isSpecial c \<longleftrightarrow> c \<in> set (''()<>@,;:'' @ [CHR 0x5C, CHR 0x22] @ ''/[]?={} '' @ [CHR 0x09])"

definition isDigit :: "char \<Rightarrow> bool" where
  "isDigit c \<longleftrightarrow> char_to_int c \<ge> 48 \<and> char_to_int c \<le> 57"

definition isHexDigit :: "char \<Rightarrow> bool" where
  "isHexDigit c \<longleftrightarrow> (char_to_int c \<ge> 48 \<and> char_to_int c \<le> 57)
     \<or> (char_to_int c \<ge> 97 \<and> char_to_int c \<le> 102) \<or> (char_to_int c \<ge> 65 \<and> char_to_int c \<le> 70)"

definition isCookieAttribute :: "string \<Rightarrow> bool \<Rightarrow> bool" where
  "isCookieAttribute name set_cookie_header \<longleftrightarrow>
     name = [] \<or> hd name = CHR ''$'' \<or>
     (set_cookie_header \<and> name \<in> {''Comment'', ''Domain'', ''Max-Age'', ''Path'', ''Secure'', ''Version'', ''Expires''})"

text \<open>The condition \<open>!isChar(c) || isControl(c) || isSpecial(c)\<close>, negated.\<close>

definition token_char :: "char \<Rightarrow> bool" where
  "token_char c \<longleftrightarrow> isChar c \<and> \<not> isControl c \<and> \<not> isSpecial c"

abbreviation CR :: char where "CR \<equiv> CHR 0x0D"
abbreviation NL :: char where "NL \<equiv> CHR 0x0A"
abbreviation HT :: char where "HT \<equiv> CHR 0x09"
abbreviation SP :: char where "SP \<equiv> CHR 0x20"

definition digit16 :: "char \<Rightarrow> 16 word" where
  "digit16 c = of_int (char_to_int c - 48)"

section \<open>Header parsing\<close>

text \<open>What one character does: \<open>Reject\<close> is \<open>return false\<close>, \<open>Finish\<close> is \<open>return true\<close> with or without
  consuming the character, \<open>Continue\<close> falls out of the switch.\<close>

datatype step_outcome = Reject | Finish bool | Continue HTTPParser HTTPMessage

abbreviation goto :: "HeadersParseState \<Rightarrow> HTTPParser \<Rightarrow> HTTPParser" where
  "goto st p \<equiv> p\<lparr>p_headers_parse_state := st\<rparr>"

definition step_method_start :: "char \<Rightarrow> HTTPParser \<Rightarrow> HTTPMessage \<Rightarrow> step_outcome" where
  "step_method_start c p msg =
     (if c \<noteq> SP \<and> c \<noteq> CR \<and> c \<noteq> NL then
        (if \<not> token_char c then Reject else Continue (goto PARSE_METHOD (p\<lparr>p_method := [c]\<rparr>)) msg)
      else Continue p msg)"

definition step_method :: "char \<Rightarrow> HTTPParser \<Rightarrow> HTTPMessage \<Rightarrow> step_outcome" where
  "step_method c p msg =
     (if c = SP then Continue (goto PARSE_URI_STEM (p\<lparr>p_resource := []\<rparr>)) msg
      else if \<not> token_char c then Reject
      else if length (p_method p) \<ge> METHOD_MAX then Reject
      else Continue (p\<lparr>p_method := p_method p @ [c]\<rparr>) msg)"

definition step_uri_stem :: "char \<Rightarrow> HTTPParser \<Rightarrow> HTTPMessage \<Rightarrow> step_outcome" where
  "step_uri_stem c p msg =
     (if c = SP then Continue (goto PARSE_HTTP_VERSION_H p) msg
      else if c = CHR ''?'' then Continue (goto PARSE_URI_QUERY (p\<lparr>p_query_string := []\<rparr>)) msg
      else if isControl c then Reject
      else if length (p_resource p) \<ge> RESOURCE_MAX then Reject
      else Continue (p\<lparr>p_resource := p_resource p @ [c]\<rparr>) msg)"

definition step_uri_query :: "char \<Rightarrow> HTTPParser \<Rightarrow> HTTPMessage \<Rightarrow> step_outcome" where
  "step_uri_query c p msg =
     (if c = SP then Continue (goto PARSE_HTTP_VERSION_H p) msg
      else if isControl c then Reject
      else if length (p_query_string p) \<ge> QUERY_STRING_MAX then Reject
      else Continue (p\<lparr>p_query_string := p_query_string p @ [c]\<rparr>) msg)"

definition step_expect :: "char \<Rightarrow> HeadersParseState \<Rightarrow> char \<Rightarrow> HTTPParser \<Rightarrow> HTTPMessage \<Rightarrow> step_outcome" where
  "step_expect x st c p msg = (if c \<noteq> x then Reject else Continue (goto st p) msg)"

definition step_major_start :: "char \<Rightarrow> HTTPParser \<Rightarrow> HTTPMessage \<Rightarrow> step_outcome" where
  "step_major_start c p msg =
     (if \<not> isDigit c then Reject
      else Continue (goto PARSE_HTTP_VERSION_MAJOR p) (setVersionMajor (digit16 c) msg))"

definition step_major :: "char \<Rightarrow> HTTPParser \<Rightarrow> HTTPMessage \<Rightarrow> step_outcome" where
  "step_major c p msg =
     (if c = CHR ''.'' then Continue (goto PARSE_HTTP_VERSION_MINOR_START p) msg
      else if isDigit c then Continue p (setVersionMajor (m_version_major msg * 10 + digit16 c) msg)
      else Reject)"

definition step_minor_start :: "char \<Rightarrow> HTTPParser \<Rightarrow> HTTPMessage \<Rightarrow> step_outcome" where
  "step_minor_start c p msg =
     (if \<not> isDigit c then Reject
      else Continue (goto PARSE_HTTP_VERSION_MINOR p) (setVersionMinor (digit16 c) msg))"

definition step_minor :: "char \<Rightarrow> HTTPParser \<Rightarrow> HTTPMessage \<Rightarrow> step_outcome" where
  "step_minor c p msg =
     (if c = SP then
        (if p_is_request p then Reject else Continue (goto PARSE_STATUS_CODE_START p) msg)
      else if c = CR then
        (if \<not> p_is_request p then Reject else Continue (goto PARSE_EXPECTING_NEWLINE p) msg)
      else if c = NL then
        (if \<not> p_is_request p then Reject else Continue (goto PARSE_EXPECTING_CR p) msg)
      else if isDigit c then Continue p (setVersionMinor (m_version_minor msg * 10 + digit16 c) msg)
      else Reject)"

definition step_status_code_start :: "char \<Rightarrow> HTTPParser \<Rightarrow> HTTPMessage \<Rightarrow> step_outcome" where
  "step_status_code_start c p msg =
     (if \<not> isDigit c then Reject
      else Continue (goto PARSE_STATUS_CODE (p\<lparr>p_status_code := digit16 c\<rparr>)) msg)"

definition step_status_code :: "char \<Rightarrow> HTTPParser \<Rightarrow> HTTPMessage \<Rightarrow> step_outcome" where
  "step_status_code c p msg =
     (if c = SP then Continue (goto PARSE_STATUS_MESSAGE (p\<lparr>p_status_message := []\<rparr>)) msg
      else if isDigit c then Continue (p\<lparr>p_status_code := p_status_code p * 10 + digit16 c\<rparr>) msg
      else Reject)"

definition step_status_message :: "char \<Rightarrow> HTTPParser \<Rightarrow> HTTPMessage \<Rightarrow> step_outcome" where
  "step_status_message c p msg =
     (if c = CR then Continue (goto PARSE_EXPECTING_NEWLINE p) msg
      else if c = NL then Continue (goto PARSE_EXPECTING_CR p) msg
      else if isControl c then Reject
      else if length (p_status_message p) \<ge> STATUS_MESSAGE_MAX then Reject
      else Continue (p\<lparr>p_status_message := p_status_message p @ [c]\<rparr>) msg)"

text \<open>The first character of a header name, after every kind of line end.\<close>

definition step_name_start :: "char \<Rightarrow> HTTPParser \<Rightarrow> HTTPMessage \<Rightarrow> step_outcome" where
  "step_name_start c p msg =
     (if \<not> token_char c then Reject
      else Continue (goto PARSE_HEADER_NAME (p\<lparr>p_header_name := [c]\<rparr>)) msg)"

definition step_expecting_newline :: "char \<Rightarrow> HTTPParser \<Rightarrow> HTTPMessage \<Rightarrow> step_outcome" where
  "step_expecting_newline c p msg =
     (if c = NL then Continue (goto PARSE_HEADER_START p) msg
      else if c = CR then Finish True
      else if c = HT \<or> c = SP then Continue (goto PARSE_HEADER_WHITESPACE p) msg
      else step_name_start c p msg)"

definition step_expecting_cr :: "char \<Rightarrow> HTTPParser \<Rightarrow> HTTPMessage \<Rightarrow> step_outcome" where
  "step_expecting_cr c p msg =
     (if c = CR then Continue (goto PARSE_HEADER_START p) msg
      else if c = NL then Finish True
      else if c = HT \<or> c = SP then Continue (goto PARSE_HEADER_WHITESPACE p) msg
      else step_name_start c p msg)"

definition step_header_whitespace :: "char \<Rightarrow> HTTPParser \<Rightarrow> HTTPMessage \<Rightarrow> step_outcome" where
  "step_header_whitespace c p msg =
     (if c = CR then Continue (goto PARSE_EXPECTING_NEWLINE p) msg
      else if c = NL then Continue (goto PARSE_EXPECTING_CR p) msg
      else if c \<noteq> HT \<and> c \<noteq> SP then step_name_start c p msg
      else Continue p msg)"

definition step_header_start :: "char \<Rightarrow> HTTPParser \<Rightarrow> HTTPMessage \<Rightarrow> step_outcome" where
  "step_header_start c p msg =
     (if c = CR then Continue (goto PARSE_EXPECTING_FINAL_NEWLINE p) msg
      else if c = NL then Continue (goto PARSE_EXPECTING_FINAL_CR p) msg
      else if c = HT \<or> c = SP then Continue (goto PARSE_HEADER_WHITESPACE p) msg
      else step_name_start c p msg)"

definition step_header_name :: "char \<Rightarrow> HTTPParser \<Rightarrow> HTTPMessage \<Rightarrow> step_outcome" where
  "step_header_name c p msg =
     (if c = CHR '':'' then Continue (goto PARSE_SPACE_BEFORE_HEADER_VALUE (p\<lparr>p_header_value := []\<rparr>)) msg
      else if \<not> token_char c then Reject
      else if length (p_header_name p) \<ge> HEADER_NAME_MAX then Reject
      else Continue (p\<lparr>p_header_name := p_header_name p @ [c]\<rparr>) msg)"

definition step_space_before_value :: "char \<Rightarrow> HTTPParser \<Rightarrow> HTTPMessage \<Rightarrow> step_outcome" where
  "step_space_before_value c p msg =
     (if c = SP then Continue (goto PARSE_HEADER_VALUE p) msg
      else if c = CR then
        Continue (goto PARSE_EXPECTING_NEWLINE p) (addHeader (p_header_name p) (p_header_value p) msg)
      else if c = NL then
        Continue (goto PARSE_EXPECTING_CR p) (addHeader (p_header_name p) (p_header_value p) msg)
      else if \<not> token_char c then Reject
      else Continue (goto PARSE_HEADER_VALUE (p\<lparr>p_header_value := p_header_value p @ [c]\<rparr>)) msg)"

definition step_header_value :: "char \<Rightarrow> HTTPParser \<Rightarrow> HTTPMessage \<Rightarrow> step_outcome" where
  "step_header_value c p msg =
     (if c = CR then
        Continue (goto PARSE_EXPECTING_NEWLINE p) (addHeader (p_header_name p) (p_header_value p) msg)
      else if c = NL then
        Continue (goto PARSE_EXPECTING_CR p) (addHeader (p_header_name p) (p_header_value p) msg)
      else if isControl c then Reject
      else if length (p_header_value p) \<ge> HEADER_VALUE_MAX then Reject
      else Continue (p\<lparr>p_header_value := p_header_value p @ [c]\<rparr>) msg)"

definition header_step :: "char \<Rightarrow> HTTPParser \<Rightarrow> HTTPMessage \<Rightarrow> step_outcome" where
  "header_step c p msg =
     (case p_headers_parse_state p of
        PARSE_METHOD_START \<Rightarrow> step_method_start c p msg
      | PARSE_METHOD \<Rightarrow> step_method c p msg
      | PARSE_URI_STEM \<Rightarrow> step_uri_stem c p msg
      | PARSE_URI_QUERY \<Rightarrow> step_uri_query c p msg
      | PARSE_HTTP_VERSION_H \<Rightarrow> step_expect (CHR ''H'') PARSE_HTTP_VERSION_T_1 c p msg
      | PARSE_HTTP_VERSION_T_1 \<Rightarrow> step_expect (CHR ''T'') PARSE_HTTP_VERSION_T_2 c p msg
      | PARSE_HTTP_VERSION_T_2 \<Rightarrow> step_expect (CHR ''T'') PARSE_HTTP_VERSION_P c p msg
      | PARSE_HTTP_VERSION_P \<Rightarrow> step_expect (CHR ''P'') PARSE_HTTP_VERSION_SLASH c p msg
      | PARSE_HTTP_VERSION_SLASH \<Rightarrow> step_expect (CHR ''/'') PARSE_HTTP_VERSION_MAJOR_START c p msg
      | PARSE_HTTP_VERSION_MAJOR_START \<Rightarrow> step_major_start c p msg
      | PARSE_HTTP_VERSION_MAJOR \<Rightarrow> step_major c p msg
      | PARSE_HTTP_VERSION_MINOR_START \<Rightarrow> step_minor_start c p msg
      | PARSE_HTTP_VERSION_MINOR \<Rightarrow> step_minor c p msg
      | PARSE_STATUS_CODE_START \<Rightarrow> step_status_code_start c p msg
      | PARSE_STATUS_CODE \<Rightarrow> step_status_code c p msg
      | PARSE_STATUS_MESSAGE \<Rightarrow> step_status_message c p msg
      | PARSE_EXPECTING_NEWLINE \<Rightarrow> step_expecting_newline c p msg
      | PARSE_EXPECTING_CR \<Rightarrow> step_expecting_cr c p msg
      | PARSE_HEADER_WHITESPACE \<Rightarrow> step_header_whitespace c p msg
      | PARSE_HEADER_START \<Rightarrow> step_header_start c p msg
      | PARSE_HEADER_NAME \<Rightarrow> step_header_name c p msg
      | PARSE_SPACE_BEFORE_HEADER_VALUE \<Rightarrow> step_space_before_value c p msg
      | PARSE_HEADER_VALUE \<Rightarrow> step_header_value c p msg
      | PARSE_EXPECTING_FINAL_NEWLINE \<Rightarrow> Finish (c = NL)
      | PARSE_EXPECTING_FINAL_CR \<Rightarrow> Finish (c = CR))"

definition save_raw :: "char \<Rightarrow> HTTPParser \<Rightarrow> HTTPParser" where
  "save_raw c p = (if p_save_raw_headers p then p\<lparr>p_raw_headers := p_raw_headers p @ [c]\<rparr> else p)"

text \<open>The bytes counted when \<open>parseHeaders\<close> or \<open>parseChunks\<close> returns after reading \<open>n\<close> of them.\<close>

definition count_read :: "string \<Rightarrow> nat \<Rightarrow> HTTPParser \<Rightarrow> HTTPParser" where
  "count_read rest n p =
     p\<lparr>p_read_buf := rest, p_bytes_last_read := n, p_bytes_total_read := p_bytes_total_read p + n\<rparr>"

definition count_none :: "string \<Rightarrow> HTTPParser \<Rightarrow> HTTPParser" where
  "count_none rest p = p\<lparr>p_read_buf := rest, p_bytes_last_read := 0\<rparr>"

fun parseHeaders_loop :: "string \<Rightarrow> nat \<Rightarrow> HTTPParser \<Rightarrow> HTTPMessage \<Rightarrow> tribool \<times> HTTPParser \<times> HTTPMessage" where
  "parseHeaders_loop [] n p msg = (Indeterminate, count_read [] n p, msg)"
| "parseHeaders_loop (c # cs) n p msg =
     (case header_step c p msg of
        Reject \<Rightarrow> (TFalse, count_none (c # cs) p, msg)
      | Finish consume \<Rightarrow>
          (TTrue, if consume then count_read cs (Suc n) p else count_read (c # cs) n p, msg)
      | Continue p' msg' \<Rightarrow> parseHeaders_loop cs (Suc n) (save_raw c p') msg')"

definition parseHeaders :: "HTTPParser \<Rightarrow> HTTPMessage \<Rightarrow> tribool \<times> HTTPParser \<times> HTTPMessage" where
  "parseHeaders p msg = parseHeaders_loop (p_read_buf p) 0 p msg"

end
