(* ===== verification/Http_Fields.thy ===== *)
theory Http_Fields
  imports Http_Parser
begin

text \<open>
  The two key-value parsers of \<open>HTTPParser.cpp\<close>: \<open>parseURLEncoded\<close> for query strings and form
  content, \<open>parseCookieHeader\<close> for \<open>Cookie\<close> and \<open>Set-Cookie\<close> headers. Each is a loop over the bytes
  with local variables; the dictionary is returned with the flag, since pairs found before an
  error stay in it.
\<close>

section \<open>Query strings\<close>

datatype QueryParseState = QUERY_PARSE_NAME | QUERY_PARSE_VALUE

fun parseURLEncoded_loop ::
  "QueryParseState \<Rightarrow> string \<Rightarrow> string \<Rightarrow> StringDictionary \<Rightarrow> string \<Rightarrow> bool \<times> StringDictionary" where
  "parseURLEncoded_loop st query_name query_value dict [] =
     (True, if query_name \<noteq> [] then dict_insert query_name query_value dict else dict)"
| "parseURLEncoded_loop QUERY_PARSE_NAME query_name query_value dict (c # cs) =
     (if c = CHR ''='' then
        (if query_name = [] then (False, dict)
         else parseURLEncoded_loop QUERY_PARSE_VALUE query_name query_value dict cs)
      else if c = CHR ''&'' then
        (if query_name \<noteq> []
         then parseURLEncoded_loop QUERY_PARSE_NAME [] query_value (dict_insert query_name query_value dict) cs
         else parseURLEncoded_loop QUERY_PARSE_NAME query_name query_value dict cs)
      else if c = CR \<or> c = NL then parseURLEncoded_loop QUERY_PARSE_NAME query_name query_value dict cs
      else if isControl c \<or> length query_name \<ge> QUERY_NAME_MAX then (False, dict)
      else parseURLEncoded_loop QUERY_PARSE_NAME (query_name @ [c]) query_value dict cs)"
| "parseURLEncoded_loop QUERY_PARSE_VALUE query_name query_value dict (c # cs) =
     (if c = CHR ''&'' then
        parseURLEncoded_loop QUERY_PARSE_NAME [] [] (dict_insert query_name query_value dict) cs
      else if c = CR \<or> c = NL then parseURLEncoded_loop QUERY_PARSE_VALUE query_name query_value dict cs
      else if isControl c \<or> length query_value \<ge> QUERY_VALUE_MAX then (False, dict)
      else parseURLEncoded_loop QUERY_PARSE_VALUE query_name (query_value @ [c]) dict cs)"

definition parseURLEncoded :: "StringDictionary \<Rightarrow> string \<Rightarrow> bool \<times> StringDictionary" where
  "parseURLEncoded dict s = parseURLEncoded_loop QUERY_PARSE_NAME [] [] dict s"

section \<open>Cookies\<close>

datatype CookieParseState = COOKIE_PARSE_NAME | COOKIE_PARSE_VALUE | COOKIE_PARSE_IGNORE

record cookie_vars =
  ck_state :: CookieParseState
  ck_name :: string
  ck_value :: string
  ck_quote :: char
  ck_dict :: StringDictionary

definition cookie_add :: "bool \<Rightarrow> cookie_vars \<Rightarrow> StringDictionary" where
  "cookie_add set_cookie_header v =
     (if \<not> isCookieAttribute (ck_name v) set_cookie_header
      then dict_insert (ck_name v) (ck_value v) (ck_dict v) else ck_dict v)"

text \<open>One character in each state; \<open>None\<close> is \<open>return false\<close>, which leaves the dictionary as it is.\<close>

definition cookie_name_step :: "bool \<Rightarrow> char \<Rightarrow> cookie_vars \<Rightarrow> cookie_vars option" where
  "cookie_name_step set_cookie_header c v =
     (if c = CHR ''='' then
        (if ck_name v = [] then None
         else Some (v\<lparr>ck_quote := CHR 0x00, ck_state := COOKIE_PARSE_VALUE\<rparr>))
      else if c = CHR '';'' \<or> c = CHR '','' then
        (if ck_name v \<noteq> []
         then Some (v\<lparr>ck_dict := cookie_add set_cookie_header v, ck_name := []\<rparr>) else Some v)
      else if c \<noteq> SP then
        (if isControl c \<or> length (ck_name v) \<ge> COOKIE_NAME_MAX then None
         else Some (v\<lparr>ck_name := ck_name v @ [c]\<rparr>))
      else Some v)"

definition cookie_unquoted_step :: "bool \<Rightarrow> char \<Rightarrow> cookie_vars \<Rightarrow> cookie_vars option" where
  "cookie_unquoted_step set_cookie_header c v =
     (if c = CHR '';'' \<or> c = CHR '','' then
        Some (v\<lparr>ck_dict := cookie_add set_cookie_header v, ck_name := [], ck_value := [],
                ck_state := COOKIE_PARSE_NAME\<rparr>)
      else if c = CHR 0x27 \<or> c = CHR 0x22 then
        (if ck_value v = [] then Some (v\<lparr>ck_quote := c\<rparr>)
         else if length (ck_value v) \<ge> COOKIE_VALUE_MAX then None
         else Some (v\<lparr>ck_value := ck_value v @ [c]\<rparr>))
      else if c \<noteq> SP then
        (if isControl c \<or> length (ck_value v) \<ge> COOKIE_VALUE_MAX then None
         else Some (v\<lparr>ck_value := ck_value v @ [c]\<rparr>))
      else Some v)"

definition cookie_quoted_step :: "bool \<Rightarrow> char \<Rightarrow> cookie_vars \<Rightarrow> cookie_vars option" where
  "cookie_quoted_step set_cookie_header c v =
     (if c = ck_quote v then
        Some (v\<lparr>ck_dict := cookie_add set_cookie_header v, ck_name := [], ck_value := [],
                ck_state := COOKIE_PARSE_IGNORE\<rparr>)
      else if length (ck_value v) \<ge> COOKIE_VALUE_MAX then None
      else Some (v\<lparr>ck_value := ck_value v @ [c]\<rparr>))"

definition cookie_step :: "bool \<Rightarrow> char \<Rightarrow> cookie_vars \<Rightarrow> cookie_vars option" where
  "cookie_step set_cookie_header c v =
     (case ck_state v of
        COOKIE_PARSE_NAME \<Rightarrow> cookie_name_step set_cookie_header c v
      | COOKIE_PARSE_VALUE \<Rightarrow>
          if ck_quote v = CHR 0x00 then cookie_unquoted_step set_cookie_header c v
          else cookie_quoted_step set_cookie_header c v
      | COOKIE_PARSE_IGNORE \<Rightarrow>
          Some (if c = CHR '';'' \<or> c = CHR '','' then v\<lparr>ck_state := COOKIE_PARSE_NAME\<rparr> else v))"

fun parseCookieHeader_loop :: "bool \<Rightarrow> cookie_vars \<Rightarrow> string \<Rightarrow> bool \<times> StringDictionary" where
  "parseCookieHeader_loop set_cookie_header v [] = (True, cookie_add set_cookie_header v)"
| "parseCookieHeader_loop set_cookie_header v (c # cs) =
     (case cookie_step set_cookie_header c v of
        None \<Rightarrow> (False, ck_dict v)
      | Some v' \<Rightarrow> parseCookieHeader_loop set_cookie_header v' cs)"

definition parseCookieHeader :: "StringDictionary \<Rightarrow> string \<Rightarrow> bool \<Rightarrow> bool \<times> StringDictionary" where
  "parseCookieHeader dict s set_cookie_header =
     parseCookieHeader_loop set_cookie_header
       \<lparr>ck_state = COOKIE_PARSE_NAME, ck_name = [], ck_value = [], ck_quote = CHR 0x00, ck_dict = dict\<rparr> s"

end
