(* ===== verification/Http_Body.thy ===== *)
theory Http_Body
  imports Http_Fields
begin

text \<open>
  The rest of the HTTP parser (\<open>HTTPParser.cpp\<close>): what happens between the headers and the end of
  a message, chunked content, content with and without a known length, data the caller knows to
  be missing, and the loop of \<open>parse\<close>. An operation that C++ leaves undefined, or that throws out
  of the parser, ends in a \<open>fault\<close>. The calls of a parser on a message are relations on the pair of
  both states.
\<close>

type_synonym parser_result = "tribool \<times> HTTPParser \<times> HTTPMessage"

section \<open>After the headers\<close>

text \<open>The values of the headers of one name, in the order of the iteration over \<open>equal_range\<close>.\<close>

definition header_range :: "string \<Rightarrow> HTTPMessage \<Rightarrow> string list" where
  "header_range name msg =
     (let (i, j) = equal_range name (m_headers msg) in map snd (take (j - i) (drop i (m_headers msg))))"

definition parse_cookies :: "string \<Rightarrow> bool \<Rightarrow> HTTPMessage \<Rightarrow> HTTPMessage" where
  "parse_cookies name set_cookie_header msg =
     msg\<lparr>m_cookie_params :=
       foldl (\<lambda>dict val. snd (parseCookieHeader dict val set_cookie_header)) (m_cookie_params msg)
         (header_range name msg)\<rparr>"

definition parse_query :: "string \<Rightarrow> HTTPMessage \<Rightarrow> fault + HTTPMessage" where
  "parse_query s msg = update_request (m_query_params_update (\<lambda>dict. snd (parseURLEncoded dict s))) msg"

definition update_with_request_data :: "HTTPParser \<Rightarrow> HTTPMessage \<Rightarrow> fault + HTTPMessage" where
  "update_with_request_data p msg =
     bindE (as_request msg) (\<lambda>_.
     bindE (setMethod (p_method p) msg) (\<lambda>m1.
     bindE (setResource (p_resource p) m1) (\<lambda>m2.
     bindE (setQueryString (p_query_string p) m2) (\<lambda>m3.
     bindE (if p_query_string p \<noteq> [] then parse_query (p_query_string p) m3 else Inr m3) (\<lambda>m4.
       Inr (parse_cookies HEADER_COOKIE False m4))))))"

definition update_with_response_data :: "HTTPParser \<Rightarrow> HTTPMessage \<Rightarrow> fault + HTTPMessage" where
  "update_with_response_data p msg =
     bindE (as_response msg) (\<lambda>_.
     bindE (setStatusCode (ucast (p_status_code p)) msg) (\<lambda>m1.
     bindE (setStatusMessage (p_status_message p) m1) (\<lambda>m2.
       Inr (parse_cookies HEADER_SET_COOKIE True m2))))"

definition updateMessageWithHeaderData :: "HTTPParser \<Rightarrow> HTTPMessage \<Rightarrow> fault + HTTPMessage" where
  "updateMessageWithHeaderData p msg =
     (if p_is_request p then update_with_request_data p msg else update_with_response_data p msg)"

abbreviation message_state :: "MessageParseState \<Rightarrow> HTTPParser \<Rightarrow> HTTPParser" where
  "message_state st p \<equiv> p\<lparr>p_message_parse_state := st\<rparr>"

text \<open>The branch for a message with a \<open>Content-Length\<close> header; \<open>None\<close> is \<open>return false\<close> out of the
  handler for a length that cannot be read.\<close>

definition use_content_length ::
  "boost_lib \<Rightarrow> HTTPParser \<Rightarrow> HTTPMessage \<Rightarrow> parser_result option" where
  "use_content_length lib p msg =
     (case updateContentLengthUsingHeader lib msg of
        None \<Rightarrow> None
      | Some m \<Rightarrow>
          if m_content_length m = 0 then Some (TTrue, message_state PARSE_END p, m)
          else
            let p' = (message_state PARSE_CONTENT p)\<lparr>p_bytes_content_remaining := unat (m_content_length m)\<rparr>;
                m' = (if p_bytes_content_remaining p' > p_max_content_length p'
                      then m\<lparr>m_content_length := of_nat (p_max_content_length p')\<rparr> else m)
            in Some (Indeterminate, p', m'))"

definition choose_content :: "boost_lib \<Rightarrow> HTTPParser \<Rightarrow> HTTPMessage \<Rightarrow> parser_result option" where
  "choose_content lib p msg =
     (if m_is_chunked msg then Some (Indeterminate, message_state PARSE_CHUNKS p, msg)
      else if isContentLengthImplied msg then Some (TTrue, message_state PARSE_END p, msg)
      else if hasHeader HEADER_CONTENT_LENGTH msg then use_content_length lib p msg
      else if \<not> p_is_request p
           then Some (Indeterminate, message_state PARSE_CONTENT_NO_LENGTH p, msg\<lparr>m_chunk_cache := []\<rparr>)
      else Some (TTrue, message_state PARSE_END p, msg))"

definition finishHeaderParsing :: "boost_lib \<Rightarrow> HTTPParser \<Rightarrow> HTTPMessage \<Rightarrow> fault + parser_result" where
  "finishHeaderParsing lib p msg =
     (let p0 = p\<lparr>p_bytes_content_remaining := 0, p_bytes_content_read := 0\<rparr>;
          m0 = updateTransferCodingUsingHeader lib (msg\<lparr>m_content_length := 0\<rparr>)
      in bindE (updateMessageWithHeaderData p0 m0) (\<lambda>m1.
           case choose_content lib p0 m1 of
             None \<Rightarrow> Inr (TFalse, p0, m1)
           | Some (rc, p2, m2) \<Rightarrow> bindE (createContentBuffer m2) (\<lambda>m3. Inr (rc, p2, m3))))"

section \<open>Chunked content\<close>

text \<open>\<open>strtol\<close> of a string of hexadecimal digits saturates at the largest \<open>long\<close>.\<close>

definition chunk_size_of :: "string \<Rightarrow> nat" where
  "chunk_size_of s = nat (min (hex_value 0 s) (2 ^ 63 - 1))"

datatype chunk_outcome = ChunkReject | ChunkFinish | ChunkContinue HTTPParser string

abbreviation goto_chunk :: "ChunkedContentParseState \<Rightarrow> HTTPParser \<Rightarrow> HTTPParser" where
  "goto_chunk st p \<equiv> p\<lparr>p_chunked_content_parse_state := st\<rparr>"

definition step_chunk_size_start :: "char \<Rightarrow> HTTPParser \<Rightarrow> string \<Rightarrow> chunk_outcome" where
  "step_chunk_size_start c p cache =
     (if isHexDigit c then ChunkContinue (goto_chunk PARSE_CHUNK_SIZE (p\<lparr>p_chunk_size_str := [c]\<rparr>)) cache
      else if c = SP \<or> c = HT \<or> c = CR \<or> c = NL then ChunkContinue p cache
      else ChunkReject)"

definition step_chunk_size :: "char \<Rightarrow> HTTPParser \<Rightarrow> string \<Rightarrow> chunk_outcome" where
  "step_chunk_size c p cache =
     (if isHexDigit c then ChunkContinue (p\<lparr>p_chunk_size_str := p_chunk_size_str p @ [c]\<rparr>) cache
      else if c = CR then ChunkContinue (goto_chunk PARSE_EXPECTING_LF_AFTER_CHUNK_SIZE p) cache
      else if c = SP \<or> c = HT then ChunkContinue (goto_chunk PARSE_EXPECTING_CR_AFTER_CHUNK_SIZE p) cache
      else ChunkReject)"

definition step_chunk_size_end :: "char \<Rightarrow> HTTPParser \<Rightarrow> string \<Rightarrow> chunk_outcome" where
  "step_chunk_size_end c p cache =
     (if c = NL then
        let p' = p\<lparr>p_bytes_read_in_current_chunk := 0,
                   p_size_of_current_chunk := chunk_size_of (p_chunk_size_str p)\<rparr>
        in ChunkContinue
             (goto_chunk (if p_size_of_current_chunk p' = 0 then PARSE_EXPECTING_FINAL_CR_AFTER_LAST_CHUNK
                          else PARSE_CHUNK) p') cache
      else ChunkReject)"

definition step_chunk_data :: "char \<Rightarrow> HTTPParser \<Rightarrow> string \<Rightarrow> chunk_outcome" where
  "step_chunk_data c p cache =
     (let (p', cache') =
        (if p_bytes_read_in_current_chunk p < p_size_of_current_chunk p
         then (p\<lparr>p_bytes_read_in_current_chunk := p_bytes_read_in_current_chunk p + 1\<rparr>,
               if length cache < p_max_content_length p then cache @ [c] else cache)
         else (p, cache))
      in ChunkContinue
           (if p_bytes_read_in_current_chunk p' = p_size_of_current_chunk p'
            then goto_chunk PARSE_EXPECTING_CR_AFTER_CHUNK p' else p') cache')"

definition step_chunk_expect :: "char \<Rightarrow> ChunkedContentParseState \<Rightarrow> char \<Rightarrow> HTTPParser \<Rightarrow> string \<Rightarrow> chunk_outcome" where
  "step_chunk_expect x st c p cache =
     (if c = x then ChunkContinue (goto_chunk st p) cache else ChunkReject)"

definition chunk_step :: "char \<Rightarrow> HTTPParser \<Rightarrow> string \<Rightarrow> chunk_outcome" where
  "chunk_step c p cache =
     (case p_chunked_content_parse_state p of
        PARSE_CHUNK_SIZE_START \<Rightarrow> step_chunk_size_start c p cache
      | PARSE_CHUNK_SIZE \<Rightarrow> step_chunk_size c p cache
      | PARSE_EXPECTING_CR_AFTER_CHUNK_SIZE \<Rightarrow>
          if c = SP \<or> c = HT then ChunkContinue p cache
          else step_chunk_expect CR PARSE_EXPECTING_LF_AFTER_CHUNK_SIZE c p cache
      | PARSE_EXPECTING_LF_AFTER_CHUNK_SIZE \<Rightarrow> step_chunk_size_end c p cache
      | PARSE_CHUNK \<Rightarrow> step_chunk_data c p cache
      | PARSE_EXPECTING_CR_AFTER_CHUNK \<Rightarrow> step_chunk_expect CR PARSE_EXPECTING_LF_AFTER_CHUNK c p cache
      | PARSE_EXPECTING_LF_AFTER_CHUNK \<Rightarrow> step_chunk_expect NL PARSE_CHUNK_SIZE_START c p cache
      | PARSE_EXPECTING_FINAL_CR_AFTER_LAST_CHUNK \<Rightarrow>
          step_chunk_expect CR PARSE_EXPECTING_FINAL_LF_AFTER_LAST_CHUNK c p cache
      | PARSE_EXPECTING_FINAL_LF_AFTER_LAST_CHUNK \<Rightarrow> if c = NL then ChunkFinish else ChunkReject)"

fun parseChunks_loop :: "string \<Rightarrow> nat \<Rightarrow> HTTPParser \<Rightarrow> string \<Rightarrow> tribool \<times> HTTPParser \<times> string" where
  "parseChunks_loop [] n p cache =
     (Indeterminate, (count_read [] n p)\<lparr>p_bytes_content_read := p_bytes_content_read p + n\<rparr>, cache)"
| "parseChunks_loop (c # cs) n p cache =
     (case chunk_step c p cache of
        ChunkReject \<Rightarrow> (TFalse, count_none (c # cs) p, cache)
      | ChunkFinish \<Rightarrow> (TTrue, count_read cs (Suc n) p, cache)
      | ChunkContinue p' cache' \<Rightarrow> parseChunks_loop cs (Suc n) p' cache')"

definition parseChunks :: "HTTPParser \<Rightarrow> string \<Rightarrow> tribool \<times> HTTPParser \<times> string" where
  "parseChunks p cache = parseChunks_loop (p_read_buf p) 0 p cache"

section \<open>Plain content\<close>

definition write_content :: "nat \<Rightarrow> string \<Rightarrow> HTTPMessage \<Rightarrow> fault + HTTPMessage" where
  "write_content off s msg =
     (case m_content_buf msg of
        None \<Rightarrow> Inl Out_of_bounds
      | Some buf \<Rightarrow> bindE (write_at off s buf) (\<lambda>buf'. Inr (msg\<lparr>m_content_buf := Some buf'\<rparr>)))"

definition consumeContent :: "HTTPParser \<Rightarrow> HTTPMessage \<Rightarrow> fault + parser_result" where
  "consumeContent p msg =
     (if p_bytes_content_remaining p = 0 then Inr (TTrue, p, msg)
      else
        let available = length (p_read_buf p);
            rc = (if available \<ge> p_bytes_content_remaining p then TTrue else Indeterminate);
            to_read = (if available \<ge> p_bytes_content_remaining p then p_bytes_content_remaining p else available);
            off = p_bytes_content_read p;
            maxlen = p_max_content_length p;
            p' = p\<lparr>p_bytes_content_remaining := p_bytes_content_remaining p - to_read,
                   p_read_buf := drop to_read (p_read_buf p),
                   p_bytes_content_read := off + to_read,
                   p_bytes_total_read := p_bytes_total_read p + to_read,
                   p_bytes_last_read := to_read\<rparr>
        in bindE (if off < maxlen
                  then write_content off
                         (take (if off + to_read > maxlen then maxlen - off else to_read) (p_read_buf p)) msg
                  else Inr msg)
             (\<lambda>m. Inr (rc, p', m)))"

text \<open>The bytes go to the chunk cache until it holds the maximal content length.\<close>

definition cache_append :: "nat \<Rightarrow> string \<Rightarrow> string \<Rightarrow> string" where
  "cache_append maxlen s cache = cache @ take (maxlen - length cache) s"

definition consumeContentAsNextChunk :: "HTTPParser \<Rightarrow> string \<Rightarrow> HTTPParser \<times> string" where
  "consumeContentAsNextChunk p cache =
     (if p_read_buf p = [] then (p\<lparr>p_bytes_last_read := 0\<rparr>, cache)
      else
        let n = length (p_read_buf p)
        in (p\<lparr>p_read_buf := [], p_bytes_last_read := n, p_bytes_total_read := p_bytes_total_read p + n,
              p_bytes_content_read := p_bytes_content_read p + n\<rparr>,
            cache_append (p_max_content_length p) (p_read_buf p) cache))"

section \<open>The end of a message\<close>

definition computeMsgStatus :: "HTTPMessage \<Rightarrow> bool \<Rightarrow> HTTPMessage" where
  "computeMsgStatus msg msg_parsed_ok =
     msg\<lparr>m_status :=
       (if m_has_missing_packets msg
        then (if m_has_data_after_missing msg then STATUS_PARTIAL else STATUS_TRUNCATED)
        else (if msg_parsed_ok then STATUS_OK else STATUS_TRUNCATED))\<rparr>"

fun written_bytes :: "char option list \<Rightarrow> fault + string" where
  "written_bytes [] = Inr []"
| "written_bytes (None # bs) = Inl Uninitialised_read"
| "written_bytes (Some c # bs) = bindE (written_bytes bs) (\<lambda>cs. Inr (c # cs))"

lemma written_bytes_map [simp]: "written_bytes (map Some s) = Inr s"
  by (induction s) simp_all

text \<open>The content as \<open>parseURLEncoded\<close> reads it: \<open>m_content_length\<close> bytes from the buffer on.\<close>

definition content_bytes :: "HTTPMessage \<Rightarrow> fault + string" where
  "content_bytes msg = bindE (content msg) written_bytes"

definition is_url_encoded_type :: "string \<Rightarrow> bool" where
  "is_url_encoded_type content_type = (take (length CONTENT_TYPE_URLENCODED) content_type = CONTENT_TYPE_URLENCODED)"

definition parse_post_content :: "HTTPParser \<Rightarrow> HTTPMessage \<Rightarrow> fault + HTTPMessage" where
  "parse_post_content p msg =
     (if p_is_request p then
        bindE (as_request msg) (\<lambda>_.
          if is_url_encoded_type (getHeader HEADER_CONTENT_TYPE msg)
          then bindE (content_bytes msg) (\<lambda>s. parse_query s msg)
          else Inr msg)
      else Inr msg)"

definition finish_content :: "HTTPParser \<Rightarrow> HTTPMessage \<Rightarrow> fault + HTTPMessage" where
  "finish_content p msg =
     (case p_message_parse_state p of
        PARSE_START \<Rightarrow> createContentBuffer (msg\<lparr>m_is_valid := False, m_content_length := 0\<rparr>)
      | PARSE_END \<Rightarrow> Inr (msg\<lparr>m_is_valid := True\<rparr>)
      | PARSE_HEADERS \<Rightarrow>
          bindE (updateMessageWithHeaderData p (msg\<lparr>m_is_valid := False\<rparr>)) (\<lambda>m.
            createContentBuffer (m\<lparr>m_content_length := 0\<rparr>))
      | PARSE_CONTENT \<Rightarrow>
          Inr (msg\<lparr>m_is_valid := False, m_content_length := of_nat (p_bytes_content_read p)\<rparr>)
      | PARSE_CHUNKS \<Rightarrow> concatenateChunks (msg\<lparr>m_is_valid := False\<rparr>)
      | PARSE_CONTENT_NO_LENGTH \<Rightarrow> concatenateChunks (msg\<lparr>m_is_valid := True\<rparr>))"

definition finish :: "HTTPParser \<Rightarrow> HTTPMessage \<Rightarrow> fault + HTTPMessage" where
  "finish p msg =
     bindE (finish_content p msg) (\<lambda>m.
       if p_message_parse_state p = PARSE_START then Inr m
       else parse_post_content p (computeMsgStatus m (m_is_valid m)))"

section \<open>The parser's operations\<close>

text \<open>The tail of \<open>parse\<close> and of \<open>parseMissingData\<close>.\<close>

definition conclude :: "parser_result \<Rightarrow> fault + parser_result" where
  "conclude r =
     (case r of (rc, p, msg) \<Rightarrow>
        (case rc of
           TTrue \<Rightarrow> bindE (finish (message_state PARSE_END p) msg) (\<lambda>m. Inr (rc, message_state PARSE_END p, m))
         | TFalse \<Rightarrow> Inr (rc, p, computeMsgStatus msg False)
         | Indeterminate \<Rightarrow> Inr (rc, p, msg)))"

definition parse_headers_step :: "boost_lib \<Rightarrow> HTTPParser \<Rightarrow> HTTPMessage \<Rightarrow> fault + parser_result" where
  "parse_headers_step lib p msg =
     (case parseHeaders p msg of (rc, p', m) \<Rightarrow>
        if rc = TTrue then finishHeaderParsing lib p' m else Inr (rc, p', m))"

text \<open>One pass through the \<open>do\<close> loop: the result, and the bytes this pass adds to
  \<open>total_bytes_parsed\<close>. \<open>rc\<close> is what the previous pass left.\<close>

definition parse_step :: "boost_lib \<Rightarrow> tribool \<Rightarrow> HTTPParser \<Rightarrow> HTTPMessage \<Rightarrow> fault + (nat \<times> parser_result)" where
  "parse_step lib rc p msg =
     (case p_message_parse_state p of
        PARSE_START \<Rightarrow>
          bindE (parse_headers_step lib (message_state PARSE_HEADERS p) msg)
            (\<lambda>(rc', p', m). Inr (p_bytes_last_read p', rc', p', m))
      | PARSE_HEADERS \<Rightarrow>
          bindE (parse_headers_step lib p msg) (\<lambda>(rc', p', m). Inr (p_bytes_last_read p', rc', p', m))
      | PARSE_CHUNKS \<Rightarrow>
          (case parseChunks p (m_chunk_cache msg) of (rc', p', cache) \<Rightarrow>
             let m = msg\<lparr>m_chunk_cache := cache\<rparr>
             in bindE (if rc' = TTrue then concatenateChunks m else Inr m)
                  (\<lambda>m'. Inr (p_bytes_last_read p', rc', p', m')))
      | PARSE_CONTENT \<Rightarrow>
          bindE (consumeContent p msg) (\<lambda>(rc', p', m). Inr (p_bytes_last_read p', rc', p', m))
      | PARSE_CONTENT_NO_LENGTH \<Rightarrow>
          (case consumeContentAsNextChunk p (m_chunk_cache msg) of (p', cache) \<Rightarrow>
             Inr (p_bytes_last_read p', rc, p', msg\<lparr>m_chunk_cache := cache\<rparr>))
      | PARSE_END \<Rightarrow> Inr (0, TTrue, p, msg))"

text \<open>The \<open>do\<close> loop with fuel; \<open>None\<close> is a run that exhausted it.\<close>

fun parse_loop :: "boost_lib \<Rightarrow> nat \<Rightarrow> nat \<Rightarrow> tribool \<Rightarrow> HTTPParser \<Rightarrow> HTTPMessage
    \<Rightarrow> (fault + (nat \<times> parser_result)) option" where
  "parse_loop lib 0 parsed rc p msg = None"
| "parse_loop lib (Suc fuel) parsed rc p msg =
     (case parse_step lib rc p msg of
        Inl f \<Rightarrow> Some (Inl f)
      | Inr (n, rc', p', m) \<Rightarrow>
          if rc' = Indeterminate \<and> \<not> parser_eof p' then parse_loop lib fuel (parsed + n) rc' p' m
          else Some (Inr (parsed + n, rc', p', m)))"

definition parse :: "boost_lib \<Rightarrow> HTTPParser \<Rightarrow> HTTPMessage \<Rightarrow> (fault + parser_result) option" where
  "parse lib p msg =
     (if parser_eof p then Some (Inl Assertion_failed)
      else
        let msg' = (if m_has_missing_packets msg then msg\<lparr>m_has_data_after_missing := True\<rparr> else msg)
        in case parse_loop lib 2 0 Indeterminate p msg' of
             None \<Rightarrow> None
           | Some (Inl f) \<Rightarrow> Some (Inl f)
           | Some (Inr (parsed, r)) \<Rightarrow>
               Some (bindE (conclude r) (\<lambda>(rc, p', m). Inr (rc, p'\<lparr>p_bytes_last_read := parsed\<rparr>, m))))"

abbreviation MISSING_DATA_CHAR :: char where "MISSING_DATA_CHAR \<equiv> CHR ''X''"

definition missing_in_chunk :: "HTTPParser \<Rightarrow> HTTPMessage \<Rightarrow> nat \<Rightarrow> parser_result" where
  "missing_in_chunk p msg len =
     (if p_chunked_content_parse_state p = PARSE_CHUNK
         \<and> p_bytes_read_in_current_chunk p < p_size_of_current_chunk p
         \<and> p_size_of_current_chunk p - p_bytes_read_in_current_chunk p \<ge> len
      then
        let p' = p\<lparr>p_bytes_read_in_current_chunk := p_bytes_read_in_current_chunk p + len,
                   p_bytes_last_read := len, p_bytes_total_read := p_bytes_total_read p + len,
                   p_bytes_content_read := p_bytes_content_read p + len\<rparr>
        in (Indeterminate,
            if p_bytes_read_in_current_chunk p' = p_size_of_current_chunk p'
            then goto_chunk PARSE_EXPECTING_CR_AFTER_CHUNK p' else p',
            msg\<lparr>m_chunk_cache := cache_append (p_max_content_length p) (replicate len MISSING_DATA_CHAR)
                  (m_chunk_cache msg)\<rparr>)
      else (TFalse, p, msg))"

definition missing_in_content :: "HTTPParser \<Rightarrow> HTTPMessage \<Rightarrow> nat \<Rightarrow> fault + parser_result" where
  "missing_in_content p msg len =
     (if p_bytes_content_remaining p = 0 then Inr (TTrue, p, msg)
      else if p_bytes_content_remaining p < len then Inr (TFalse, p, msg)
      else
        let p' = p\<lparr>p_bytes_content_read := p_bytes_content_read p + len,
                   p_bytes_content_remaining := p_bytes_content_remaining p - len,
                   p_bytes_total_read := p_bytes_total_read p + len, p_bytes_last_read := len\<rparr>
        in bindE (if p_bytes_content_read p + len \<le> p_max_content_length p
                  then write_content (p_bytes_content_read p) (replicate len MISSING_DATA_CHAR) msg
                  else Inr msg)
             (\<lambda>m. Inr (if p_bytes_content_remaining p' = 0 then TTrue else Indeterminate, p', m)))"

definition parseMissingData :: "HTTPParser \<Rightarrow> HTTPMessage \<Rightarrow> nat \<Rightarrow> fault + parser_result" where
  "parseMissingData p msg0 len =
     (let msg = msg0\<lparr>m_has_missing_packets := True\<rparr>
      in bindE
        (case p_message_parse_state p of
           PARSE_START \<Rightarrow> Inr (TFalse, p, msg)
         | PARSE_HEADERS \<Rightarrow> Inr (TFalse, p, msg)
         | PARSE_CHUNKS \<Rightarrow> Inr (missing_in_chunk p msg len)
         | PARSE_CONTENT \<Rightarrow> missing_in_content p msg len
         | PARSE_CONTENT_NO_LENGTH \<Rightarrow>
             Inr (Indeterminate,
               p\<lparr>p_bytes_last_read := len, p_bytes_total_read := p_bytes_total_read p + len,
                 p_bytes_content_read := p_bytes_content_read p + len\<rparr>,
               msg\<lparr>m_chunk_cache := cache_append (p_max_content_length p) (replicate len MISSING_DATA_CHAR)
                     (m_chunk_cache msg)\<rparr>)
         | PARSE_END \<Rightarrow> Inr (TTrue, p, msg))
        conclude)"

definition checkPrematureEOF :: "HTTPParser \<Rightarrow> HTTPMessage \<Rightarrow> fault + (bool \<times> HTTPParser \<times> HTTPMessage)" where
  "checkPrematureEOF p msg =
     (if p_message_parse_state p \<noteq> PARSE_CONTENT_NO_LENGTH then Inr (True, p, msg)
      else
        let p' = message_state PARSE_END p
        in bindE (concatenateChunks msg) (\<lambda>m. bindE (finish p' m) (\<lambda>m'. Inr (False, p', m'))))"

end
