(* ===== verification/Http_Parser_Inv.thy ===== *)
theory Http_Parser_Inv
  imports Http_Body
begin

text \<open>
  Invariants of the HTTP parser's state machines: the limits on what is kept of the headers, the
  fields a step leaves alone, and the independence of header parsing from the way the input is
  cut into read buffers.
\<close>

section \<open>Steps of the header parser\<close>

lemmas step_defs = step_method_start_def step_method_def step_uri_stem_def step_uri_query_def
  step_expect_def step_major_start_def step_major_def step_minor_start_def step_minor_def
  step_status_code_start_def step_status_code_def step_status_message_def step_name_start_def
  step_expecting_newline_def step_expecting_cr_def step_header_whitespace_def step_header_start_def
  step_header_name_def step_space_before_value_def step_header_value_def

text \<open>Sizes the limits promise.\<close>

definition fields_bounded :: "HTTPParser \<Rightarrow> bool" where
  "fields_bounded p \<longleftrightarrow>
     length (p_method p) \<le> METHOD_MAX \<and> length (p_resource p) \<le> RESOURCE_MAX \<and>
     length (p_query_string p) \<le> QUERY_STRING_MAX \<and> length (p_status_message p) \<le> STATUS_MESSAGE_MAX \<and>
     length (p_header_name p) \<le> HEADER_NAME_MAX \<and> length (p_header_value p) \<le> HEADER_VALUE_MAX"

definition headers_bounded :: "StringDictionary \<Rightarrow> bool" where
  "headers_bounded d \<longleftrightarrow>
     (\<forall>e\<in>set d. length (fst e) \<le> HEADER_NAME_MAX \<and> length (snd e) \<le> HEADER_VALUE_MAX)"

lemmas message_defs = addHeader_def setVersionMajor_def setVersionMinor_def clearFirstLine_def

text \<open>What a character that does not end the headers leaves alone, in the parser and in the message.\<close>

definition parser_frame :: "HTTPParser \<Rightarrow> HTTPParser \<Rightarrow> bool" where
  "parser_frame p p' \<longleftrightarrow>
     p_is_request p' = p_is_request p \<and> p_message_parse_state p' = p_message_parse_state p \<and>
     p_chunked_content_parse_state p' = p_chunked_content_parse_state p \<and>
     p_bytes_content_remaining p' = p_bytes_content_remaining p \<and>
     p_bytes_content_read p' = p_bytes_content_read p \<and> p_max_content_length p' = p_max_content_length p"

definition message_frame :: "HTTPMessage \<Rightarrow> HTTPMessage \<Rightarrow> bool" where
  "message_frame msg msg' \<longleftrightarrow>
     m_class msg' = m_class msg \<and> m_chunk_cache msg' = m_chunk_cache msg \<and>
     m_content_length msg' = m_content_length msg \<and> m_content_buf msg' = m_content_buf msg \<and>
     m_cookie_params msg' = m_cookie_params msg \<and> m_is_chunked msg' = m_is_chunked msg \<and>
     m_has_missing_packets msg' = m_has_missing_packets msg \<and>
     m_has_data_after_missing msg' = m_has_data_after_missing msg"

text \<open>A predicate on the states a step continues with, and its rules.\<close>

fun continues :: "(HTTPParser \<Rightarrow> HTTPMessage \<Rightarrow> bool) \<Rightarrow> step_outcome \<Rightarrow> bool" where
  "continues P (Continue p msg) = P p msg"
| "continues P Reject = True"
| "continues P (Finish b) = True"

lemma continuesD: "continues P r \<Longrightarrow> r = Continue p msg \<Longrightarrow> P p msg"
  by simp

lemma header_step_frame:
  "continues (\<lambda>p' msg'. parser_frame p p' \<and> message_frame msg msg' \<and>
    (m_headers msg' = m_headers msg \<or>
     m_headers msg' = dict_insert (p_header_name p) (p_header_value p) (m_headers msg)))
    (header_step c p msg)"
  unfolding header_step_def parser_frame_def message_frame_def
  by (cases "p_headers_parse_state p") (simp_all add: step_defs message_defs)

lemma limits_pos [simp]: "Suc 0 \<le> METHOD_MAX" "Suc 0 \<le> HEADER_NAME_MAX" "Suc 0 \<le> HEADER_VALUE_MAX"
  by (simp_all add: METHOD_MAX_def HEADER_NAME_MAX_def HEADER_VALUE_MAX_def)

definition header_inv :: "HTTPParser \<Rightarrow> bool" where
  "header_inv p \<longleftrightarrow> fields_bounded p \<and>
     (p_headers_parse_state p = PARSE_SPACE_BEFORE_HEADER_VALUE \<longrightarrow> p_header_value p = [])"

lemma header_step_bounded: "header_inv p \<Longrightarrow> continues (\<lambda>p' _. header_inv p') (header_step c p msg)"
  unfolding header_step_def fields_bounded_def header_inv_def
  by (cases "p_headers_parse_state p") (simp_all add: step_defs)

lemma header_step_headers_bounded:
  assumes "header_step c p msg = Continue p' msg'" "header_inv p" "headers_bounded (m_headers msg)"
  shows "headers_bounded (m_headers msg')"
  using continuesD [OF header_step_frame assms(1)] assms(2,3)
  by (auto simp: headers_bounded_def set_dict_insert header_inv_def fields_bounded_def)

lemma header_inv_counts [simp]:
  "header_inv (count_read rest n p) = header_inv p" "header_inv (count_none rest p) = header_inv p"
  "header_inv (save_raw c p) = header_inv p"
  by (simp_all add: header_inv_def fields_bounded_def count_read_def count_none_def save_raw_def)

lemma parser_frame_counts [simp]:
  "parser_frame q (count_read rest n p) = parser_frame q p"
  "parser_frame q (count_none rest p) = parser_frame q p"
  "parser_frame q (save_raw c p) = parser_frame q p" "parser_frame p p"
  by (simp_all add: parser_frame_def count_read_def count_none_def save_raw_def)

lemma count_buf [simp]: "p_read_buf (count_read rest n p) = rest" "p_read_buf (count_none rest p) = rest"
  by (simp_all add: count_read_def count_none_def)

lemma message_frame_refl [simp]: "message_frame msg msg"
  by (simp add: message_frame_def)

lemma frame_trans:
  "parser_frame p q \<Longrightarrow> parser_frame q r \<Longrightarrow> parser_frame p r"
  "message_frame a b \<Longrightarrow> message_frame b c \<Longrightarrow> message_frame a c"
  by (simp_all add: parser_frame_def message_frame_def)

lemma parseHeaders_loop_frame:
  "parseHeaders_loop cs n p msg = (rc, p', msg') \<Longrightarrow>
     parser_frame p p' \<and> message_frame msg msg' \<and> (rc = Indeterminate \<longrightarrow> p_read_buf p' = [])"
proof (induction cs arbitrary: n p msg)
  case Nil
  then show ?case by auto
next
  case (Cons c cs)
  show ?case
  proof (cases "header_step c p msg")
    case (Continue q m)
    have "parser_frame (save_raw c q) p' \<and> message_frame m msg' \<and> (rc = Indeterminate \<longrightarrow> p_read_buf p' = [])"
      using Cons.IH [of "Suc n" "save_raw c q" m] Cons.prems Continue by simp
    moreover have "parser_frame p (save_raw c q)" "message_frame msg m"
      using continuesD [OF header_step_frame Continue] by auto
    ultimately show ?thesis by (meson frame_trans)
  qed (use Cons.prems in \<open>auto split: if_splits\<close>)
qed

lemma parseHeaders_loop_bounded:
  "parseHeaders_loop cs n p msg = (rc, p', msg') \<Longrightarrow> header_inv p \<Longrightarrow> headers_bounded (m_headers msg) \<Longrightarrow>
     header_inv p' \<and> headers_bounded (m_headers msg')"
proof (induction cs arbitrary: n p msg)
  case (Cons c cs)
  show ?case
  proof (cases "header_step c p msg")
    case (Continue q m)
    have "header_inv (save_raw c q)" "headers_bounded (m_headers m)"
      using continuesD [OF header_step_bounded [OF Cons.prems(2)] Continue]
        header_step_headers_bounded [OF Continue Cons.prems(2,3)] by simp_all
    with Cons.IH [of "Suc n" "save_raw c q" m] Cons.prems(1) Continue show ?thesis by simp
  qed (use Cons.prems in \<open>auto split: if_splits\<close>)
qed auto

section \<open>Headers may arrive in pieces\<close>

text \<open>The fields a read buffer and the byte counts live in, forgotten.\<close>

definition forget :: "HTTPParser \<Rightarrow> HTTPParser" where
  "forget p = p\<lparr>p_read_buf := [], p_bytes_last_read := 0, p_bytes_total_read := 0\<rparr>"

fun map_step :: "(HTTPParser \<Rightarrow> HTTPParser) \<Rightarrow> step_outcome \<Rightarrow> step_outcome" where
  "map_step f (Continue p msg) = Continue (f p) msg"
| "map_step f Reject = Reject"
| "map_step f (Finish b) = Finish b"

lemma header_step_forget: "header_step c (forget p) msg = map_step forget (header_step c p msg)"
  unfolding header_step_def forget_def
  by (cases "p_headers_parse_state p") (simp_all add: step_defs)

lemma forget_counts [simp]:
  "forget (count_read rest n p) = forget p" "forget (count_none rest p) = forget p"
  "forget (save_raw c p) = save_raw c (forget p)" "forget (forget p) = forget p"
  "forget (setReadBuffer b p) = forget p"
  by (simp_all add: forget_def count_read_def count_none_def save_raw_def setReadBuffer_def)

lemma header_step_cong:
  assumes "forget p = forget q"
  shows "map_step forget (header_step c p msg) = map_step forget (header_step c q msg)"
  using header_step_forget [of c p msg] header_step_forget [of c q msg] assms by simp

lemma parseHeaders_loop_cong:
  "forget p = forget q \<Longrightarrow> parseHeaders_loop cs n p msg = (rc, p', msg') \<Longrightarrow>
     \<exists>q'. parseHeaders_loop cs k q msg = (rc, q', msg') \<and> forget q' = forget p' \<and> p_read_buf q' = p_read_buf p'"
proof (induction cs arbitrary: n k p q msg)
  case Nil
  then show ?case by auto
next
  case (Cons c cs)
  note cong = header_step_cong [OF Cons.prems(1), of c msg]
  show ?case
  proof (cases "header_step c p msg")
    case (Continue p1 m1)
    with cong obtain q1 where q1: "header_step c q msg = Continue q1 m1" "forget p1 = forget q1"
      by (cases "header_step c q msg") auto
    with Cons.IH [of "save_raw c p1" "save_raw c q1" "Suc n" m1 "Suc k"] Continue Cons.prems(2)
    show ?thesis by simp
  next
    case Reject
    with cong have "header_step c q msg = Reject" by (cases "header_step c q msg") auto
    with Reject Cons.prems show ?thesis by auto
  next
    case (Finish b)
    with cong have "header_step c q msg = Finish b" by (cases "header_step c q msg") auto
    with Finish Cons.prems show ?thesis by auto
  qed
qed

lemma parseHeaders_loop_append:
  "parseHeaders_loop as n p msg = (Indeterminate, p1, m1) \<Longrightarrow>
   parseHeaders_loop bs k p1 m1 = (rc, p2, m2) \<Longrightarrow>
     \<exists>q. parseHeaders_loop (as @ bs) n p msg = (rc, q, m2) \<and> forget q = forget p2 \<and> p_read_buf q = p_read_buf p2"
proof (induction as arbitrary: n p msg)
  case Nil
  then have "forget p1 = forget p" "m1 = msg" by auto
  with parseHeaders_loop_cong [OF this(1), of bs k msg rc p2 m2 n] Nil.prems(2) show ?case by simp
next
  case (Cons c as)
  then show ?case by (cases "header_step c p msg") auto
qed

section \<open>Chunked content\<close>

fun chunk_continues :: "(HTTPParser \<Rightarrow> string \<Rightarrow> bool) \<Rightarrow> chunk_outcome \<Rightarrow> bool" where
  "chunk_continues P (ChunkContinue p cache) = P p cache"
| "chunk_continues P ChunkReject = True"
| "chunk_continues P ChunkFinish = True"

lemmas chunk_defs = step_chunk_size_start_def step_chunk_size_def step_chunk_size_end_def
  step_chunk_data_def step_chunk_expect_def

lemma chunk_step_frame:
  "chunk_continues (\<lambda>p' cache'. p_is_request p' = p_is_request p \<and>
      p_message_parse_state p' = p_message_parse_state p \<and>
      p_max_content_length p' = p_max_content_length p \<and>
      (length cache \<le> p_max_content_length p \<longrightarrow> length cache' \<le> p_max_content_length p))
    (chunk_step c p cache)"
  unfolding chunk_step_def
  by (cases "p_chunked_content_parse_state p") (simp_all add: chunk_defs Let_def)

lemma parseChunks_loop_frame:
  "parseChunks_loop cs n p cache = (rc, p', cache') \<Longrightarrow>
     p_is_request p' = p_is_request p \<and> p_message_parse_state p' = p_message_parse_state p \<and>
     p_max_content_length p' = p_max_content_length p \<and>
     (length cache \<le> p_max_content_length p \<longrightarrow> length cache' \<le> p_max_content_length p) \<and>
     (rc = Indeterminate \<longrightarrow> p_read_buf p' = [])"
proof (induction cs arbitrary: n p cache)
  case Nil
  then show ?case by (auto simp: count_read_def)
next
  case (Cons c cs)
  show ?case
  proof (cases "chunk_step c p cache")
    case (ChunkContinue q cc)
    have "chunk_continues (\<lambda>p' cache'. p_is_request p' = p_is_request p \<and>
      p_message_parse_state p' = p_message_parse_state p \<and>
      p_max_content_length p' = p_max_content_length p \<and>
      (length cache \<le> p_max_content_length p \<longrightarrow> length cache' \<le> p_max_content_length p))
      (ChunkContinue q cc)"
      using chunk_step_frame [of p cache c] ChunkContinue by simp
    with Cons.IH [of "Suc n" q cc] Cons.prems ChunkContinue show ?thesis by simp
  qed (use Cons.prems in \<open>auto simp: count_none_def count_read_def\<close>)
qed

end
