(* ===== verification/Http_Parser_Safety.thy ===== *)
theory Http_Parser_Safety
  imports Http_Parser_Inv
begin

text \<open>
  Termination and memory safety of the HTTP parser: the loop of \<open>parse\<close> makes at most two passes,
  and from a state that satisfies \<open>parser_safe\<close> no call of \<open>parse\<close> reads or writes outside the content
  buffer, reads a byte that was not written, or fails a cast.
\<close>

section \<open>The parser returns\<close>

lemma finishHeaderParsing_Indeterminate:
  assumes "finishHeaderParsing lib p msg = Inr (Indeterminate, p', m')"
  shows "p_message_parse_state p' \<in> {PARSE_CHUNKS, PARSE_CONTENT, PARSE_CONTENT_NO_LENGTH}"
  using assms
  by (auto simp: finishHeaderParsing_def choose_content_def use_content_length_def Let_def
      split: option.splits if_splits prod.splits)

lemma parse_step_progress:
  assumes "parse_step lib rc p msg = Inr (n, Indeterminate, p', m')"
  shows "parser_eof p' \<or> (p_message_parse_state p \<in> {PARSE_START, PARSE_HEADERS} \<and>
     p_message_parse_state p' \<in> {PARSE_CHUNKS, PARSE_CONTENT, PARSE_CONTENT_NO_LENGTH})"
proof -
  have headers: "parser_eof q' \<or> p_message_parse_state q' \<in> {PARSE_CHUNKS, PARSE_CONTENT, PARSE_CONTENT_NO_LENGTH}"
    if "parse_headers_step lib q msg = Inr (Indeterminate, q', m)" for q q' m
  proof -
    obtain rc1 p1 m1 where ph: "parseHeaders q msg = (rc1, p1, m1)" by (cases "parseHeaders q msg")
    show ?thesis
    proof (cases "rc1 = TTrue")
      case True
      with that ph finishHeaderParsing_Indeterminate show ?thesis by (auto simp: parse_headers_step_def)
    next
      case False
      with that ph have "rc1 = Indeterminate" "q' = p1" by (auto simp: parse_headers_step_def)
      with parseHeaders_loop_frame ph show ?thesis by (auto simp: parseHeaders_def parser_eof_def)
    qed
  qed
  show ?thesis
  proof (cases "p_message_parse_state p")
    case PARSE_CHUNKS
    obtain rc1 p1 cc where pc: "parseChunks p (m_chunk_cache msg) = (rc1, p1, cc)"
      by (cases "parseChunks p (m_chunk_cache msg)")
    with assms PARSE_CHUNKS have "rc1 = Indeterminate" "p' = p1"
      by (auto simp: parse_step_def Let_def split: if_splits)
    with parseChunks_loop_frame pc show ?thesis by (auto simp: parseChunks_def parser_eof_def)
  next
    case PARSE_CONTENT
    with assms show ?thesis
      by (auto simp: parse_step_def consumeContent_def Let_def parser_eof_def split: if_splits)
  next
    case PARSE_CONTENT_NO_LENGTH
    with assms show ?thesis
      by (auto simp: parse_step_def consumeContentAsNextChunk_def Let_def parser_eof_def split: if_splits)
  next
    case PARSE_START
    with assms headers show ?thesis by (auto simp: parse_step_def)
  next
    case PARSE_HEADERS
    with assms headers show ?thesis by (auto simp: parse_step_def)
  qed (use assms in \<open>auto simp: parse_step_def\<close>)
qed

lemma parse_loop_body_returns:
  assumes "p_message_parse_state p \<notin> {PARSE_START, PARSE_HEADERS}"
  shows "\<exists>r. parse_loop lib (Suc fuel) k rc p msg = Some r"
  using parse_step_progress [of lib rc p msg] assms
  by (auto split: sum.splits)

lemma parse_loop_returns: "\<exists>r. parse_loop lib 2 k rc p msg = Some r"
proof (cases "parse_step lib rc p msg")
  case (Inr x)
  obtain n rc' p' m' where x: "x = (n, rc', p', m')" by (cases x)
  have "\<exists>r. parse_loop lib (Suc 0) (k + n) rc' p' m' = Some r" if "rc' = Indeterminate" "\<not> parser_eof p'"
    using parse_step_progress [of lib rc p msg n p' m'] that Inr x
    by (intro parse_loop_body_returns) auto
  with Inr x show ?thesis by (auto simp: numeral_2_eq_2)
qed (simp add: numeral_2_eq_2)

lemma parse_returns: "\<exists>r. parse lib p msg = Some r"
proof -
  define msg' where "msg' = (if m_has_missing_packets msg then msg\<lparr>m_has_data_after_missing := True\<rparr> else msg)"
  obtain r where "parse_loop lib 2 0 Indeterminate p msg' = Some r" using parse_loop_returns by blast
  then show ?thesis by (cases r) (auto simp: parse_def Let_def msg'_def)
qed

section \<open>Content buffers\<close>

lemma createContentBuffer_ok:
  assumes "m_content_length msg \<noteq> - 1"
  shows "createContentBuffer msg =
     Inr (msg\<lparr>m_content_buf := Some (replicate (unat (m_content_length msg)) None @ [Some (CHR 0x00)])\<rparr>)"
proof -
  have "unat (m_content_length msg + 1) = Suc (unat (m_content_length msg))"
    using assms unatSuc [of "m_content_length msg"] by (simp add: add.commute add_eq_0_iff)
  then show ?thesis
    by (simp add: createContentBuffer_def Let_def replicate_append_same [symmetric] list_update_append)
qed

lemma of_nat_not_max:
  assumes "n < 2 ^ 64 - 1"
  shows "(of_nat n :: 64 word) \<noteq> - 1" "unat (of_nat n :: 64 word) = n"
proof -
  show u: "unat (of_nat n :: 64 word) = n" using assms by (simp add: unat_of_nat)
  show "(of_nat n :: 64 word) \<noteq> - 1"
  proof
    assume "(of_nat n :: 64 word) = - 1"
    then have "unat (of_nat n :: 64 word) = 2 ^ 64 - 1" by (simp add: unsigned_minus_1_eq_mask mask_eq_exp_minus_1)
    with u assms show False by simp
  qed
qed

lemma write_at_0_full:
  "write_at 0 s (replicate (length s) None @ [z]) = Inr (map Some s @ [z])"
  by (simp add: write_at_def)

lemma concatenateChunks_ok:
  assumes "length (m_chunk_cache msg) < 2 ^ 64 - 1"
  shows "concatenateChunks msg =
     Inr (msg\<lparr>m_content_length := of_nat (length (m_chunk_cache msg)),
              m_content_buf := Some (map Some (m_chunk_cache msg) @ [Some (CHR 0x00)])\<rparr>)"
  using of_nat_not_max [OF assms]
  by (simp add: concatenateChunks_def createContentBuffer_ok fill_content_def write_at_0_full)

lemma content_bytes_full:
  assumes "m_content_buf msg = Some (map Some s @ z)" "unat (m_content_length msg) = length s"
  shows "content_bytes msg = Inr s"
  using assms by (simp add: content_bytes_def content_def read_buffer_def)

section \<open>The parser does not fault\<close>

text \<open>
  While content of known length arrives, the buffer holds as many bytes as the content length says
  and one more, the content length is the announced length cut at the maximum, and every byte read
  so far has been written. At the end of a message the content can be read back.
\<close>

definition content_inv :: "HTTPParser \<Rightarrow> HTTPMessage \<Rightarrow> bool" where
  "content_inv p msg \<longleftrightarrow>
     (\<exists>buf pre. m_content_buf msg = Some buf \<and> length buf = Suc (unat (m_content_length msg)) \<and>
        unat (m_content_length msg) =
          min (p_bytes_content_read p + p_bytes_content_remaining p) (p_max_content_length p) \<and>
        take (min (p_bytes_content_read p) (p_max_content_length p)) buf = map Some pre)"

definition state_inv :: "HTTPParser \<Rightarrow> HTTPMessage \<Rightarrow> bool" where
  "state_inv p msg =
     (case p_message_parse_state p of
        PARSE_CONTENT \<Rightarrow> content_inv p msg
      | PARSE_END \<Rightarrow> \<exists>s. content_bytes msg = Inr s
      | _ \<Rightarrow> True)"

definition parser_safe :: "HTTPParser \<Rightarrow> HTTPMessage \<Rightarrow> bool" where
  "parser_safe p msg \<longleftrightarrow>
     is_request msg = p_is_request p \<and> p_max_content_length p < 2 ^ 64 - 1 \<and>
     length (m_chunk_cache msg) \<le> p_max_content_length p \<and> state_inv p msg"

lemma parser_safe_init:
  "max_content_length < 2 ^ 64 - 1 \<Longrightarrow> is_request msg = is_req \<Longrightarrow> m_chunk_cache msg = [] \<Longrightarrow>
     parser_safe (HTTPParser_init is_req max_content_length) msg"
  by (simp add: parser_safe_def HTTPParser_init_def state_inv_def)

lemma parser_safe_setReadBuffer: "parser_safe p msg \<Longrightarrow> parser_safe (setReadBuffer s p) msg"
  by (cases "p_message_parse_state p")
    (simp_all add: parser_safe_def state_inv_def content_inv_def setReadBuffer_def)

subsection \<open>Updates of the message\<close>

text \<open>What the header data leaves of the message: everything but the class, the first line and the
  cookies.\<close>

definition same_body :: "HTTPMessage \<Rightarrow> HTTPMessage \<Rightarrow> bool" where
  "same_body a b \<longleftrightarrow>
     is_request b = is_request a \<and> m_chunk_cache b = m_chunk_cache a \<and>
     m_content_length b = m_content_length a \<and> m_content_buf b = m_content_buf a \<and>
     m_headers b = m_headers a \<and> m_is_chunked b = m_is_chunked a \<and> m_is_valid b = m_is_valid a"

lemma same_body_refl [simp]: "same_body a a"
  by (simp add: same_body_def)

lemma same_body_trans: "same_body a b \<Longrightarrow> same_body b c \<Longrightarrow> same_body a c"
  by (simp add: same_body_def)

definition keeps_body :: "HTTPMessage \<Rightarrow> fault + HTTPMessage \<Rightarrow> bool" where
  "keeps_body a x \<longleftrightarrow> (\<exists>m. x = Inr m \<and> same_body a m)"

lemma keeps_body_Inr [intro]: "same_body a m \<Longrightarrow> keeps_body a (Inr m)"
  by (simp add: keeps_body_def)

lemma keeps_body_bind [intro]:
  "keeps_body a x \<Longrightarrow> (\<And>m. same_body a m \<Longrightarrow> keeps_body a (f m)) \<Longrightarrow> keeps_body a (bindE x f)"
  by (auto simp: keeps_body_def)

lemma keeps_body_if [intro]:
  "keeps_body a x \<Longrightarrow> keeps_body a y \<Longrightarrow> keeps_body a (if b then x else y)"
  by simp

lemma same_body_steps [intro]:
  "same_body a m \<Longrightarrow> same_body a (clearFirstLine m)"
  "same_body a m \<Longrightarrow> same_body a (parse_cookies name b m)"
  by (simp_all add: same_body_def clearFirstLine_def parse_cookies_def is_request_def)

lemma keeps_body_update_request [intro]:
  assumes "is_request a" "same_body a m"
  shows "keeps_body a (update_request f m)"
proof -
  obtain r where "m_class m = Request r"
    using assms by (cases "m_class m") (simp_all add: same_body_def is_request_def)
  with assms show ?thesis
    by (simp add: keeps_body_def update_request_def as_request_def same_body_def is_request_def)
qed

lemma keeps_body_update_response [intro]:
  assumes "\<not> is_request a" "same_body a m"
  shows "keeps_body a (update_response f m)"
proof -
  obtain r where "m_class m = Response r"
    using assms by (cases "m_class m") (simp_all add: same_body_def is_request_def)
  with assms show ?thesis
    by (simp add: keeps_body_def update_response_def as_response_def same_body_def is_request_def)
qed

lemma keeps_body_setters [intro]:
  "is_request a \<Longrightarrow> same_body a m \<Longrightarrow> keeps_body a (setMethod s m)"
  "is_request a \<Longrightarrow> same_body a m \<Longrightarrow> keeps_body a (setResource s m)"
  "is_request a \<Longrightarrow> same_body a m \<Longrightarrow> keeps_body a (setQueryString s m)"
  "is_request a \<Longrightarrow> same_body a m \<Longrightarrow> keeps_body a (parse_query s m)"
  "\<not> is_request a \<Longrightarrow> same_body a m \<Longrightarrow> keeps_body a (setStatusCode n m)"
  "\<not> is_request a \<Longrightarrow> same_body a m \<Longrightarrow> keeps_body a (setStatusMessage s m)"
  unfolding setMethod_def setResource_def setQueryString_def parse_query_def setStatusCode_def
    setStatusMessage_def
  by blast+

lemma as_request_ok: "is_request a \<Longrightarrow> \<exists>r. as_request a = Inr r"
  by (cases "m_class a") (simp_all add: as_request_def is_request_def)

lemma as_response_ok: "\<not> is_request a \<Longrightarrow> \<exists>r. as_response a = Inr r"
  by (cases "m_class a") (simp_all add: as_response_def is_request_def)

lemma updateMessageWithHeaderData_ok:
  assumes "is_request msg = p_is_request p"
  shows "keeps_body msg (updateMessageWithHeaderData p msg)"
proof (cases "p_is_request p")
  case True
  with assms have r: "is_request msg" by simp
  obtain x where "as_request msg = Inr x" using as_request_ok [OF r] by blast
  then show ?thesis using True r
    unfolding updateMessageWithHeaderData_def update_with_request_data_def
    by (auto intro!: keeps_body_bind keeps_body_Inr keeps_body_setters same_body_steps)
next
  case False
  with assms have r: "\<not> is_request msg" by simp
  obtain x where "as_response msg = Inr x" using as_response_ok [OF r] by blast
  then show ?thesis using False r
    unfolding updateMessageWithHeaderData_def update_with_response_data_def
    by (auto intro!: keeps_body_bind keeps_body_Inr keeps_body_setters same_body_steps)
qed

subsection \<open>The steps\<close>

lemma content_bytes_nil: "m_content_length msg = 0 \<Longrightarrow> m_content_buf msg = Some buf \<Longrightarrow> content_bytes msg = Inr []"
  by (simp add: content_bytes_def content_def read_buffer_def)

lemma use_content_length_props:
  assumes "use_content_length lib p m = Some (rc, p', m')" "p_max_content_length p < 2 ^ 64 - 1"
    "p_bytes_content_read p = 0"
  shows "p_is_request p' = p_is_request p \<and> is_request m' = is_request m \<and>
    p_max_content_length p' = p_max_content_length p \<and> m_chunk_cache m' = m_chunk_cache m \<and>
    m_content_length m' \<noteq> - 1 \<and>
    (p_message_parse_state p' = PARSE_END \<and> rc = TTrue \<and> m_content_length m' = 0 \<or>
     p_message_parse_state p' = PARSE_CONTENT \<and> rc = Indeterminate \<and> p_bytes_content_read p' = 0 \<and>
     unat (m_content_length m') = min (p_bytes_content_remaining p') (p_max_content_length p'))"
proof -
  from assms(1) obtain m1 where m1: "updateContentLengthUsingHeader lib m = Some m1"
    by (cases "updateContentLengthUsingHeader lib m") (simp_all add: use_content_length_def)
  then have keep: "is_request m1 = is_request m" "m_chunk_cache m1 = m_chunk_cache m"
    by (auto simp: updateContentLengthUsingHeader_def is_request_def split: option.splits)
  have small: "w \<noteq> (- 1 :: 64 word)" if "unat w \<le> p_max_content_length p" for w
    using that assms(2) by (auto simp: unsigned_minus_1_eq_mask mask_eq_exp_minus_1)
  note big = of_nat_not_max [OF assms(2)]
  show ?thesis
  proof (cases "m_content_length m1 = 0")
    case True
    with assms(1) m1 have "rc = TTrue" "p' = message_state PARSE_END p" "m' = m1"
      by (simp_all add: use_content_length_def)
    with True keep show ?thesis by simp
  next
    case False
    show ?thesis
    proof (cases "unat (m_content_length m1) > p_max_content_length p")
      case True
      with False assms(1) m1 have "rc = Indeterminate"
        "p' = (message_state PARSE_CONTENT p)\<lparr>p_bytes_content_remaining := unat (m_content_length m1)\<rparr>"
        "m' = m1\<lparr>m_content_length := of_nat (p_max_content_length p)\<rparr>"
        by (simp_all add: use_content_length_def Let_def)
      with True big keep assms(3) show ?thesis by (simp add: is_request_def)
    next
      case 2: False
      with False assms(1) m1 have "rc = Indeterminate"
        "p' = (message_state PARSE_CONTENT p)\<lparr>p_bytes_content_remaining := unat (m_content_length m1)\<rparr>"
        "m' = m1"
        by (auto simp: use_content_length_def Let_def)
      with 2 small [of "m_content_length m1"] keep assms(3) show ?thesis by simp
    qed
  qed
qed

lemma choose_content_props:
  assumes "choose_content lib p m = Some (rc, p', m')" "p_max_content_length p < 2 ^ 64 - 1"
    "p_bytes_content_read p = 0" "m_content_length m = 0" "is_request m = p_is_request p"
    "length (m_chunk_cache m) \<le> p_max_content_length p"
  shows "is_request m' = p_is_request p' \<and> p_max_content_length p' = p_max_content_length p \<and>
    length (m_chunk_cache m') \<le> p_max_content_length p \<and> m_content_length m' \<noteq> - 1 \<and>
    (rc = TTrue \<longrightarrow> p_message_parse_state p' = PARSE_END) \<and>
    (p_message_parse_state p' = PARSE_END \<longrightarrow> m_content_length m' = 0) \<and>
    (p_message_parse_state p' = PARSE_CONTENT \<longrightarrow> p_bytes_content_read p' = 0 \<and>
       unat (m_content_length m') = min (p_bytes_content_remaining p') (p_max_content_length p'))"
proof (cases "\<not> m_is_chunked m \<and> \<not> isContentLengthImplied m \<and> hasHeader HEADER_CONTENT_LENGTH m")
  case True
  with assms(1) have "use_content_length lib p m = Some (rc, p', m')" by (simp add: choose_content_def)
  from use_content_length_props [OF this assms(2,3)] assms(5,6) show ?thesis by auto
next
  case False
  with assms show ?thesis
    by (auto simp: choose_content_def is_request_def split: if_splits)
qed

lemma finishHeaderParsing_safe:
  assumes "is_request msg = p_is_request p" "p_max_content_length p < 2 ^ 64 - 1"
    "length (m_chunk_cache msg) \<le> p_max_content_length p"
    "p_message_parse_state p = PARSE_HEADERS"
  shows "\<exists>rc p' m'. finishHeaderParsing lib p msg = Inr (rc, p', m') \<and> parser_safe p' m' \<and>
    (rc = TTrue \<longrightarrow> p_message_parse_state p' = PARSE_END)"
proof -
  define p0 where "p0 = p\<lparr>p_bytes_content_remaining := 0, p_bytes_content_read := 0\<rparr>"
  define m0 where "m0 = updateTransferCodingUsingHeader lib (msg\<lparr>m_content_length := 0\<rparr>)"
  have m0: "is_request m0 = p_is_request p0" "m_chunk_cache m0 = m_chunk_cache msg" "m_content_length m0 = 0"
    using assms(1) by (simp_all add: m0_def p0_def updateTransferCodingUsingHeader_def is_request_def split: option.splits)
  from updateMessageWithHeaderData_ok [OF m0(1)] obtain m1 where
    m1: "updateMessageWithHeaderData p0 m0 = Inr m1" "same_body m0 m1" by (auto simp: keeps_body_def)
  have f: "finishHeaderParsing lib p msg =
     (case choose_content lib p0 m1 of None \<Rightarrow> Inr (TFalse, p0, m1)
      | Some (rc, p2, m2) \<Rightarrow> bindE (createContentBuffer m2) (\<lambda>m3. Inr (rc, p2, m3)))"
    unfolding finishHeaderParsing_def Let_def p0_def [symmetric] m0_def [symmetric] m1(1) by simp
  show ?thesis
  proof (cases "choose_content lib p0 m1")
    case None
    with f assms m0 m1(2) show ?thesis
      by (simp add: parser_safe_def state_inv_def p0_def same_body_def)
  next
    case (Some y)
    obtain rc p2 m2 where y: "y = (rc, p2, m2)" by (cases y)
    have 1: "is_request m2 = p_is_request p2 \<and> p_max_content_length p2 = p_max_content_length p \<and>
        length (m_chunk_cache m2) \<le> p_max_content_length p \<and> m_content_length m2 \<noteq> - 1 \<and>
        (rc = TTrue \<longrightarrow> p_message_parse_state p2 = PARSE_END) \<and>
        (p_message_parse_state p2 = PARSE_END \<longrightarrow> m_content_length m2 = 0) \<and>
        (p_message_parse_state p2 = PARSE_CONTENT \<longrightarrow> p_bytes_content_read p2 = 0 \<and>
           unat (m_content_length m2) = min (p_bytes_content_remaining p2) (p_max_content_length p2))"
      using choose_content_props [of lib p0 m1 rc p2 m2] Some y m0 m1(2) assms
      by (simp add: p0_def same_body_def)
    define m3 where "m3 = m2\<lparr>m_content_buf := Some (replicate (unat (m_content_length m2)) None @ [Some (CHR 0x00)])\<rparr>"
    have "createContentBuffer m2 = Inr m3" using 1 by (simp add: createContentBuffer_ok m3_def)
    then have "finishHeaderParsing lib p msg = Inr (rc, p2, m3)" using f Some y by simp
    moreover have "parser_safe p2 m3"
      using 1 assms(2)
      by (cases "p_message_parse_state p2")
        (auto simp: parser_safe_def state_inv_def m3_def is_request_def content_inv_def content_bytes_nil)
    ultimately show ?thesis using 1 by blast
  qed
qed

lemma consumeContent_safe:
  assumes "parser_safe p msg" "p_message_parse_state p = PARSE_CONTENT"
  shows "\<exists>rc p' m'. consumeContent p msg = Inr (rc, p', m') \<and> parser_safe p' m' \<and>
    p_message_parse_state p' = PARSE_CONTENT \<and> rc \<noteq> TFalse \<and> (rc = TTrue \<longrightarrow> p_bytes_content_remaining p' = 0)"
proof (cases "p_bytes_content_remaining p = 0")
  case True
  with assms show ?thesis by (auto simp: consumeContent_def)
next
  case False
  define k where "k = min (length (p_read_buf p)) (p_bytes_content_remaining p)"
  define off where "off = p_bytes_content_read p"
  define maxlen where "maxlen = p_max_content_length p"
  define p' where "p' = p\<lparr>p_bytes_content_remaining := p_bytes_content_remaining p - k,
      p_read_buf := drop k (p_read_buf p), p_bytes_content_read := off + k,
      p_bytes_total_read := p_bytes_total_read p + k, p_bytes_last_read := k\<rparr>"
  define rc where "rc = (if length (p_read_buf p) \<ge> p_bytes_content_remaining p then TTrue else Indeterminate)"
  define s where "s = take (if off + k > maxlen then maxlen - off else k) (p_read_buf p)"
  have kk: "(if length (p_read_buf p) \<ge> p_bytes_content_remaining p then p_bytes_content_remaining p
      else length (p_read_buf p)) = k" by (simp add: k_def)
  have c: "consumeContent p msg =
     bindE (if off < maxlen then write_content off s msg else Inr msg) (\<lambda>m. Inr (rc, p', m))"
    using False unfolding consumeContent_def Let_def kk rc_def p'_def s_def off_def maxlen_def by simp
  from assms obtain buf pre where buf: "m_content_buf msg = Some buf"
    "length buf = Suc (unat (m_content_length msg))"
    "unat (m_content_length msg) = min (off + p_bytes_content_remaining p) maxlen"
    "take (min off maxlen) buf = map Some pre"
    by (auto simp: parser_safe_def state_inv_def content_inv_def off_def maxlen_def)
  have sum: "p_bytes_content_read p' + p_bytes_content_remaining p' = off + p_bytes_content_remaining p"
    by (simp add: p'_def k_def)
  have stay: "parser_safe p' m"
    if "m = msg\<lparr>m_content_buf := Some b\<rparr>" "length b = length buf" "take (min (off + k) maxlen) b = map Some pre'"
    for m b pre'
    using assms that buf(2,3) sum
    unfolding parser_safe_def state_inv_def content_inv_def
    by (simp add: p'_def is_request_def maxlen_def off_def)
  have st: "p_message_parse_state p' = PARSE_CONTENT" "rc \<noteq> TFalse"
    "rc = TTrue \<longrightarrow> p_bytes_content_remaining p' = 0"
    using assms(2) by (simp_all add: p'_def rc_def k_def)
  show ?thesis
  proof (cases "off < maxlen")
    case True
    have ls: "length s = min k (maxlen - off)" by (auto simp: s_def k_def)
    have fits: "off + length s \<le> length buf" using buf(2,3) ls True by (auto simp: k_def min_def)
    from write_at_ok [OF fits] obtain b where b: "write_at off s buf = Inr b" by blast
    have "take (off + length s) b = map Some (pre @ s)"
      by (rule write_at_prefix [OF b]) (use buf(4) True fits in \<open>simp_all add: min_def\<close>)
    moreover have "off + length s = min (off + k) maxlen" using ls True by simp
    ultimately have "parser_safe p' (msg\<lparr>m_content_buf := Some b\<rparr>)"
      using stay [OF refl write_at_length [OF b]] by metis
    then show ?thesis using c True b buf(1) st by (simp add: write_content_def)
  next
    case 2: False
    then have "min (off + k) maxlen = min off maxlen" by simp
    then have "take (min (off + k) maxlen) buf = map Some pre" using buf(4) by simp
    then have "parser_safe p' (msg\<lparr>m_content_buf := Some buf\<rparr>)" using stay [OF refl refl] by blast
    moreover have "msg\<lparr>m_content_buf := Some buf\<rparr> = msg" using buf(1) by simp
    ultimately show ?thesis using c 2 st by simp
  qed
qed

lemma parse_post_content_safe:
  assumes "is_request msg = p_is_request p" "content_bytes msg = Inr s"
  shows "\<exists>m. parse_post_content p msg = Inr m \<and> same_body msg m"
proof (cases "p_is_request p")
  case True
  then obtain r where "as_request msg = Inr r" using as_request_ok assms(1) by blast
  with True assms keeps_body_setters(4) [of msg msg s] show ?thesis
    by (auto simp: parse_post_content_def keeps_body_def)
qed (simp add: parse_post_content_def)

lemma content_bytes_cong:
  "m_content_buf b = m_content_buf a \<Longrightarrow> m_content_length b = m_content_length a \<Longrightarrow>
     content_bytes b = content_bytes a"
  by (cases "m_content_buf a") (simp_all add: content_bytes_def content_def)

lemma content_bytes_updates [simp]:
  "content_bytes (computeMsgStatus msg ok) = content_bytes msg"
  "content_bytes (msg\<lparr>m_is_valid := v\<rparr>) = content_bytes msg"
  "content_bytes (msg\<lparr>m_has_data_after_missing := v\<rparr>) = content_bytes msg"
  by (rule content_bytes_cong; simp add: computeMsgStatus_def)+

lemma computeMsgStatus_fields [simp]:
  "is_request (computeMsgStatus msg ok) = is_request msg"
  "m_chunk_cache (computeMsgStatus msg ok) = m_chunk_cache msg"
  "m_content_length (computeMsgStatus msg ok) = m_content_length msg"
  "m_content_buf (computeMsgStatus msg ok) = m_content_buf msg"
  "m_is_valid (computeMsgStatus msg ok) = m_is_valid msg"
  "is_request (msg\<lparr>m_is_valid := v\<rparr>) = is_request msg"
  "is_request (msg\<lparr>m_has_data_after_missing := v\<rparr>) = is_request msg"
  by (simp_all add: computeMsgStatus_def is_request_def)

lemma content_bytes_same: "same_body a b \<Longrightarrow> content_bytes b = content_bytes a"
  by (rule content_bytes_cong) (simp_all add: same_body_def)

lemma conclude_safe:
  assumes "parser_safe p msg" "rc = TTrue \<longrightarrow> (\<exists>s. content_bytes msg = Inr s)"
  shows "\<exists>p' m'. conclude (rc, p, msg) = Inr (rc, p', m') \<and> parser_safe p' m' \<and>
    p_read_buf p' = p_read_buf p \<and> (rc = TTrue \<longrightarrow> p_message_parse_state p' = PARSE_END \<and> m_is_valid m')"
proof (cases rc)
  case TTrue
  with assms(2) obtain s where s: "content_bytes msg = Inr s" by blast
  define p' where "p' = message_state PARSE_END p"
  define m where "m = computeMsgStatus (msg\<lparr>m_is_valid := True\<rparr>) True"
  have m: "content_bytes m = Inr s" "is_request m = p_is_request p'" "m_chunk_cache m = m_chunk_cache msg"
    "m_is_valid m"
    using s assms(1)
    by (simp_all add: m_def p'_def parser_safe_def)
  from parse_post_content_safe [OF m(2,1)] obtain m' where
    m': "parse_post_content p' m = Inr m'" "same_body m m'" by blast
  have "finish p' msg = Inr m'"
    using m'(1) by (simp add: finish_def finish_content_def p'_def m_def)
  then have "conclude (rc, p, msg) = Inr (rc, p', m')" using TTrue by (simp add: conclude_def p'_def)
  moreover have "parser_safe p' m'"
    using assms(1) m m'(2) content_bytes_same [OF m'(2)]
    by (simp add: parser_safe_def state_inv_def p'_def same_body_def)
  ultimately show ?thesis using m(4) m'(2) by (simp add: p'_def same_body_def)
next
  case TFalse
  have "parser_safe p (computeMsgStatus msg False)"
    using assms(1) by (cases "p_message_parse_state p")
      (simp_all add: parser_safe_def state_inv_def content_inv_def)
  with TFalse show ?thesis by (simp add: conclude_def)
next
  case Indeterminate
  with assms(1) show ?thesis by (simp add: conclude_def)
qed

lemma parse_headers_step_safe:
  assumes "parser_safe p msg" "p_message_parse_state p = PARSE_HEADERS"
  shows "\<exists>rc p' m'. parse_headers_step lib p msg = Inr (rc, p', m') \<and> parser_safe p' m' \<and>
    (rc = TTrue \<longrightarrow> p_message_parse_state p' = PARSE_END)"
proof -
  obtain rc p1 m1 where ph: "parseHeaders p msg = (rc, p1, m1)" by (cases "parseHeaders p msg")
  have fr: "parser_frame p p1" "message_frame msg m1"
    using parseHeaders_loop_frame [OF ph [unfolded parseHeaders_def]] by auto
  then have 1: "is_request m1 = p_is_request p1" "p_max_content_length p1 < 2 ^ 64 - 1"
    "length (m_chunk_cache m1) \<le> p_max_content_length p1" "p_message_parse_state p1 = PARSE_HEADERS"
    using assms by (simp_all add: parser_frame_def message_frame_def parser_safe_def is_request_def)
  show ?thesis
  proof (cases "rc = TTrue")
    case True
    with ph finishHeaderParsing_safe [OF 1] show ?thesis by (simp add: parse_headers_step_def)
  next
    case False
    with ph 1 show ?thesis by (simp add: parse_headers_step_def parser_safe_def state_inv_def)
  qed
qed

lemma parse_step_safe:
  assumes "parser_safe p msg" "rc = Indeterminate"
  shows "\<exists>n rc' p' m'. parse_step lib rc p msg = Inr (n, rc', p', m') \<and> parser_safe p' m' \<and>
    (rc' = TTrue \<longrightarrow> (\<exists>s. content_bytes m' = Inr s))"
proof (cases "p_message_parse_state p")
  case PARSE_START
  have "parser_safe (message_state PARSE_HEADERS p) msg"
    using assms(1) by (simp add: parser_safe_def state_inv_def)
  from parse_headers_step_safe [OF this, of lib] PARSE_START show ?thesis
    by (auto simp: parse_step_def parser_safe_def state_inv_def)
next
  case PARSE_HEADERS
  from parse_headers_step_safe [OF assms(1) this, of lib] PARSE_HEADERS show ?thesis
    by (auto simp: parse_step_def parser_safe_def state_inv_def)
next
  case PARSE_CONTENT
  from consumeContent_safe [OF assms(1) this] obtain rc' p' m' where
    c: "consumeContent p msg = Inr (rc', p', m')" "parser_safe p' m'" "p_message_parse_state p' = PARSE_CONTENT"
      "rc' = TTrue \<longrightarrow> p_bytes_content_remaining p' = 0" by blast
  have "\<exists>s. content_bytes m' = Inr s" if "rc' = TTrue"
  proof -
    from c(2,3) c(4) that obtain buf pre where b: "m_content_buf m' = Some buf"
      "length buf = Suc (unat (m_content_length m'))"
      "take (unat (m_content_length m')) buf = map Some pre"
      by (auto simp: parser_safe_def state_inv_def content_inv_def)
    then have "content_bytes m' = Inr pre"
      by (simp add: content_bytes_def content_def read_buffer_def)
    then show ?thesis by blast
  qed
  with c PARSE_CONTENT show ?thesis by (simp add: parse_step_def)
next
  case PARSE_CONTENT_NO_LENGTH
  obtain p' cc where c: "consumeContentAsNextChunk p (m_chunk_cache msg) = (p', cc)"
    by (cases "consumeContentAsNextChunk p (m_chunk_cache msg)")
  then have "parser_safe p' (msg\<lparr>m_chunk_cache := cc\<rparr>)"
    using assms(1) PARSE_CONTENT_NO_LENGTH
    by (auto simp: consumeContentAsNextChunk_def cache_append_def Let_def parser_safe_def state_inv_def is_request_def
        split: if_splits)
  with c PARSE_CONTENT_NO_LENGTH assms(2) show ?thesis by (simp add: parse_step_def)
next
  case PARSE_CHUNKS
  obtain rc' p' cc where c: "parseChunks p (m_chunk_cache msg) = (rc', p', cc)"
    by (cases "parseChunks p (m_chunk_cache msg)")
  define m where "m = msg\<lparr>m_chunk_cache := cc\<rparr>"
  have fr: "p_is_request p' = p_is_request p" "p_message_parse_state p' = PARSE_CHUNKS"
    "p_max_content_length p' = p_max_content_length p" "length cc \<le> p_max_content_length p"
    using parseChunks_loop_frame [OF c [unfolded parseChunks_def]] assms(1) PARSE_CHUNKS
    by (auto simp: parser_safe_def)
  then have s: "parser_safe p' m"
    using assms(1) by (simp add: parser_safe_def state_inv_def m_def is_request_def)
  show ?thesis
  proof (cases "rc' = TTrue")
    case True
    have "length (m_chunk_cache m) < 2 ^ 64 - 1" using fr assms(1) by (simp add: m_def parser_safe_def)
    note cat = concatenateChunks_ok [OF this] of_nat_not_max(2) [OF this]
    define m' where "m' = m\<lparr>m_content_length := of_nat (length (m_chunk_cache m)),
        m_content_buf := Some (map Some (m_chunk_cache m) @ [Some (CHR 0x00)])\<rparr>"
    have "concatenateChunks m = Inr m'" using cat(1) by (simp add: m'_def)
    moreover have "content_bytes m' = Inr (m_chunk_cache m)"
      by (rule content_bytes_full) (use cat(2) in \<open>simp_all add: m'_def\<close>)
    moreover have "parser_safe p' m'"
      using s fr(2) by (simp add: parser_safe_def state_inv_def m'_def is_request_def)
    ultimately show ?thesis using c True PARSE_CHUNKS by (simp add: parse_step_def m_def)
  next
    case False
    with c s PARSE_CHUNKS show ?thesis by (simp add: parse_step_def m_def)
  qed
next
  case PARSE_END
  with assms show ?thesis by (simp add: parse_step_def parser_safe_def state_inv_def)
qed

lemma parse_loop_safe:
  assumes "parser_safe p msg" "rc = Indeterminate"
  shows "case parse_loop lib fuel k rc p msg of None \<Rightarrow> True | Some (Inl f) \<Rightarrow> False
    | Some (Inr (n, rc', p', m')) \<Rightarrow> parser_safe p' m' \<and> (rc' = TTrue \<longrightarrow> (\<exists>s. content_bytes m' = Inr s))"
  using assms
proof (induction fuel arbitrary: k p msg rc)
  case (Suc fuel)
  from parse_step_safe [OF Suc.prems, of lib] obtain n rc' p' m' where
    st: "parse_step lib rc p msg = Inr (n, rc', p', m')" "parser_safe p' m'"
      "rc' = TTrue \<longrightarrow> (\<exists>s. content_bytes m' = Inr s)" by blast
  show ?case
  proof (cases "rc' = Indeterminate \<and> \<not> parser_eof p'")
    case True
    with st Suc.IH [of p' m' rc' "k + n"] show ?thesis by simp
  next
    case False
    with st show ?thesis by auto
  qed
qed simp

lemma parse_safe:
  assumes "parser_safe p msg" "\<not> parser_eof p"
  shows "\<exists>rc p' m'. parse lib p msg = Some (Inr (rc, p', m')) \<and> parser_safe p' m' \<and>
    (rc = TTrue \<longrightarrow> p_message_parse_state p' = PARSE_END \<and> m_is_valid m')"
proof -
  define msg' where "msg' = (if m_has_missing_packets msg then msg\<lparr>m_has_data_after_missing := True\<rparr> else msg)"
  have s: "parser_safe p msg'"
    using assms(1) by (cases "p_message_parse_state p")
      (simp_all add: msg'_def parser_safe_def state_inv_def content_inv_def)
  obtain r where r: "parse_loop lib 2 0 Indeterminate p msg' = Some r" using parse_loop_returns by blast
  obtain n rc p1 m1 where r': "r = Inr (n, rc, p1, m1)" "parser_safe p1 m1"
    "rc = TTrue \<longrightarrow> (\<exists>s. content_bytes m1 = Inr s)"
    using parse_loop_safe [OF s refl, of lib 2 0] r by (cases r) auto
  from conclude_safe [OF r'(2,3)] obtain p2 m2 where
    c: "conclude (rc, p1, m1) = Inr (rc, p2, m2)" "parser_safe p2 m2"
      "rc = TTrue \<longrightarrow> p_message_parse_state p2 = PARSE_END \<and> m_is_valid m2" by blast
  have "parse lib p msg = Some (Inr (rc, p2\<lparr>p_bytes_last_read := n\<rparr>, m2))"
    using assms(2) r r'(1) c(1) unfolding parse_def Let_def msg'_def [symmetric] by simp
  moreover have "parser_safe (p2\<lparr>p_bytes_last_read := n\<rparr>) m2"
    using c(2) by (cases "p_message_parse_state p2") (simp_all add: parser_safe_def state_inv_def content_inv_def)
  ultimately show ?thesis using c(3) by simp
qed

end
