(* ===== verification/Http_Receive.thy ===== *)
theory Http_Receive
  imports Http_Parser_Safety
begin

text \<open>
  \<open>HTTPMessage::receive\<close> (\<open>HTTPMessage.cpp\<close>): reading one message from a connection. What the socket
  delivers is the list of the results of \<open>read_some\<close>; a list that is used up stands for a call that
  still blocks, and the result is \<open>None\<close> then.
\<close>

section \<open>The connection\<close>

datatype read_event = Read_some string | Read_error

datatype LifecycleType = LIFECYCLE_CLOSE | LIFECYCLE_KEEPALIVE | LIFECYCLE_PIPELINED

datatype error_code = No_error | Socket_error | RECEIVE_ERROR

record connection =
  c_lifecycle :: LifecycleType
  c_saved :: string
  c_reads :: "read_event list"

definition getPipelined :: "connection \<Rightarrow> bool" where
  "getPipelined conn = (c_lifecycle conn = LIFECYCLE_PIPELINED)"

section \<open>Receiving a message\<close>

text \<open>How the parsing loop ends: with a parse result, or with the error return for a connection that
  ended too early. The flag is \<open>force_connection_closed\<close>.\<close>

datatype loop_end = Parsed tribool bool HTTPParser HTTPMessage | Premature error_code HTTPParser HTTPMessage

definition at_eof :: "error_code \<Rightarrow> HTTPParser \<Rightarrow> HTTPMessage \<Rightarrow> fault + loop_end" where
  "at_eof ec p msg =
     bindE (checkPrematureEOF p msg) (\<lambda>(premature, p', m').
       Inr (if premature then Premature (if ec = No_error then RECEIVE_ERROR else ec) p' m'
            else Parsed TTrue True p' m'))"

fun receive_loop :: "boost_lib \<Rightarrow> read_event list \<Rightarrow> HTTPParser \<Rightarrow> HTTPMessage
    \<Rightarrow> (fault + (loop_end \<times> read_event list)) option" where
  "receive_loop lib reads p msg =
     (case parse lib p msg of
        None \<Rightarrow> None
      | Some (Inl f) \<Rightarrow> Some (Inl f)
      | Some (Inr (rc, p', m')) \<Rightarrow>
          if rc \<noteq> Indeterminate then Some (Inr (Parsed rc False p' m', reads))
          else
            (case reads of
               [] \<Rightarrow> None
             | Read_error # rest \<Rightarrow> Some (bindE (at_eof Socket_error p' m') (\<lambda>e. Inr (e, rest)))
             | Read_some s # rest \<Rightarrow>
                 if s = [] then Some (bindE (at_eof No_error p' m') (\<lambda>e. Inr (e, rest)))
                 else receive_loop lib rest (setReadBuffer s p') m'))"

declare receive_loop.simps [simp del]

text \<open>The lifecycle the connection gets, and the bookmark of what is left in the read buffer.\<close>

definition set_lifecycle :: "bool \<Rightarrow> HTTPParser \<Rightarrow> HTTPMessage \<Rightarrow> connection \<Rightarrow> connection" where
  "set_lifecycle force_closed p msg conn =
     (if \<not> force_closed \<and> checkKeepAlive msg then
        (if parser_eof p then conn\<lparr>c_lifecycle := LIFECYCLE_KEEPALIVE\<rparr>
         else conn\<lparr>c_lifecycle := LIFECYCLE_PIPELINED, c_saved := p_read_buf p\<rparr>)
      else conn\<lparr>c_lifecycle := LIFECYCLE_CLOSE\<rparr>)"

definition finish_receive :: "loop_end \<Rightarrow> connection \<Rightarrow> error_code \<times> nat \<times> HTTPMessage \<times> connection" where
  "finish_receive e conn =
     (case e of
        Premature ec p msg \<Rightarrow> (ec, p_bytes_total_read p, msg, conn)
      | Parsed rc force_closed p msg \<Rightarrow>
          if rc = TFalse then (RECEIVE_ERROR, p_bytes_total_read p, msg, conn)
          else (No_error, p_bytes_total_read p, msg, set_lifecycle force_closed p msg conn))"

definition receive_from :: "boost_lib \<Rightarrow> string \<Rightarrow> HTTPMessage \<Rightarrow> connection
    \<Rightarrow> (fault + (error_code \<times> nat \<times> HTTPMessage \<times> connection)) option" where
  "receive_from lib buf msg conn =
     (case receive_loop lib (c_reads conn)
             (setReadBuffer buf (HTTPParser_init (is_request msg) DEFAULT_CONTENT_MAX)) msg of
        None \<Rightarrow> None
      | Some (Inl f) \<Rightarrow> Some (Inl f)
      | Some (Inr (e, rest)) \<Rightarrow> Some (Inr (finish_receive e (conn\<lparr>c_reads := rest\<rparr>))))"

definition receive :: "boost_lib \<Rightarrow> HTTPMessage \<Rightarrow> connection
    \<Rightarrow> (fault + (error_code \<times> nat \<times> HTTPMessage \<times> connection)) option" where
  "receive lib msg0 conn =
     (let msg = clear msg0
      in if getPipelined conn then receive_from lib (c_saved conn) msg conn
         else case c_reads conn of
                [] \<Rightarrow> None
              | Read_error # rest \<Rightarrow> Some (Inr (Socket_error, 0, msg, conn\<lparr>c_reads := rest\<rparr>))
              | Read_some s # rest \<Rightarrow>
                  if s = [] then Some (Inl Assertion_failed)
                  else receive_from lib s msg (conn\<lparr>c_reads := rest\<rparr>))"

section \<open>Receiving does not fault\<close>

lemma checkPrematureEOF_safe:
  assumes "parser_safe p msg"
  shows "\<exists>b p' m'. checkPrematureEOF p msg = Inr (b, p', m') \<and> parser_safe p' m' \<and>
    (\<not> b \<longrightarrow> p_message_parse_state p' = PARSE_END \<and> m_is_valid m')"
proof (cases "p_message_parse_state p = PARSE_CONTENT_NO_LENGTH")
  case True
  have len: "length (m_chunk_cache msg) < 2 ^ 64 - 1" using assms by (simp add: parser_safe_def)
  note cat = concatenateChunks_ok [OF len] of_nat_not_max(2) [OF len]
  define p' where "p' = message_state PARSE_END p"
  define m where "m = msg\<lparr>m_content_length := of_nat (length (m_chunk_cache msg)),
      m_content_buf := Some (map Some (m_chunk_cache msg) @ [Some (CHR 0x00)])\<rparr>"
  have bytes: "content_bytes m = Inr (m_chunk_cache msg)"
    by (rule content_bytes_full) (use cat(2) in \<open>simp_all add: m_def\<close>)
  have "parser_safe p' m"
    using assms bytes by (simp add: parser_safe_def state_inv_def p'_def m_def is_request_def)
  from conclude_safe [OF this, of TTrue] bytes obtain m' where
    m': "finish p' m = Inr m'" "parser_safe p' m'" "m_is_valid m'"
    by (auto simp: conclude_def p'_def)
  have "checkPrematureEOF p msg = Inr (False, p', m')"
    using True cat(1) m'(1) by (simp add: checkPrematureEOF_def p'_def m_def Let_def)
  with m' show ?thesis by (auto simp: p'_def)
next
  case False
  with assms show ?thesis by (auto simp: checkPrematureEOF_def)
qed

lemma at_eof_safe: "parser_safe p msg \<Longrightarrow> \<exists>e. at_eof ec p msg = Inr e"
  using checkPrematureEOF_safe [of p msg] by (auto simp: at_eof_def)

lemma receive_loop_safe:
  assumes "parser_safe p msg" "\<not> parser_eof p"
  shows "\<forall>f. receive_loop lib reads p msg \<noteq> Some (Inl f)"
  using assms
proof (induction lib reads p msg rule: receive_loop.induct)
  case (1 lib reads p msg)
  from parse_safe [OF "1.prems", of lib] obtain rc p' m' where
    pr: "parse lib p msg = Some (Inr (rc, p', m'))" "parser_safe p' m'" by blast
  show ?case
  proof (cases "rc = Indeterminate")
    case True
    have eof: "at_eof ec p' m' \<noteq> Inl f" for ec f
      using at_eof_safe [OF pr(2), of ec] by auto
    show ?thesis
    proof (cases reads)
      case Nil
      with pr True show ?thesis by (simp add: receive_loop.simps)
    next
      case (Cons ev rest)
      show ?thesis
      proof (cases ev)
        case (Read_some s)
        have "\<not> parser_eof (setReadBuffer s p')" if "s \<noteq> []"
          using that by (simp add: parser_eof_def setReadBuffer_def)
        with "1.IH" [OF pr(1) refl refl refl _ Cons Read_some] True pr(2)
        have "s \<noteq> [] \<Longrightarrow> \<forall>f. receive_loop lib rest (setReadBuffer s p') m' \<noteq> Some (Inl f)"
          using parser_safe_setReadBuffer by simp
        with eof Cons Read_some pr True show ?thesis
          by (subst receive_loop.simps) (simp add: bindE_eq_Inl)
      next
        case Read_error
        with eof Cons pr True show ?thesis
          by (subst receive_loop.simps) (simp add: bindE_eq_Inl)
      qed
    qed
  next
    case False
    with pr show ?thesis by (simp add: receive_loop.simps)
  qed
qed

lemma clear_fields [simp]:
  "is_request (clear msg) = is_request msg" "m_chunk_cache (clear msg) = []"
  by (simp_all add: clear_def HTTPMessage_clear_def HTTPMessage_init_def is_request_def Let_def
      split: message_class.splits)

lemma receive_from_safe:
  assumes "buf \<noteq> []" "m_chunk_cache msg = []"
  shows "receive_from lib buf msg conn \<noteq> Some (Inl f)"
proof -
  have "parser_safe (setReadBuffer buf (HTTPParser_init (is_request msg) DEFAULT_CONTENT_MAX)) msg"
    using assms(2) by (intro parser_safe_setReadBuffer parser_safe_init) (simp_all add: DEFAULT_CONTENT_MAX_def)
  from receive_loop_safe [OF this] assms(1) show ?thesis
    by (auto simp: receive_from_def parser_eof_def setReadBuffer_def split: option.splits sum.splits)
qed

end
