(* ===== verification/Http_Roundtrip.thy ===== *)
theory Http_Roundtrip
  imports Http_Receive
begin

text \<open>
  What is sent can be parsed: the header parser, run on the bytes that
  \<open>HTTPMessage::prepareBuffersForSend\<close> writes for a request, recovers the method, the resource, the
  query string, the version and every header. Numbers are printed by boost; the lemmas here assume
  its decimal representation.
\<close>

section \<open>Runs of characters\<close>

text \<open>Consuming a run of characters that keeps the parser in a state is a single update. Raw headers
  are not saved here, as in the parser \<open>receive\<close> creates.\<close>

abbreviation no_raw :: "HTTPParser \<Rightarrow> bool" where "no_raw p \<equiv> \<not> p_save_raw_headers p"

lemma save_raw_id [simp]: "no_raw p \<Longrightarrow> save_raw c p = p"
  by (simp add: save_raw_def)

lemma run_method:
  "\<forall>c\<in>set cs. token_char c \<Longrightarrow> length (p_method p) + length cs \<le> METHOD_MAX \<Longrightarrow> no_raw p \<Longrightarrow>
   p_headers_parse_state p = PARSE_METHOD \<Longrightarrow>
     parseHeaders_loop (cs @ rest) n p msg = parseHeaders_loop rest (n + length cs) (p\<lparr>p_method := p_method p @ cs\<rparr>) msg"
proof (induction cs arbitrary: n p)
  case (Cons c cs)
  have "c \<noteq> SP" using Cons.prems(1) by (auto simp: token_char_def isSpecial_def)
  then have "header_step c p msg = Continue (p\<lparr>p_method := p_method p @ [c]\<rparr>) msg"
    using Cons.prems by (simp add: header_step_def step_method_def)
  then show ?case using Cons by simp
qed simp

lemma run_uri_stem:
  "\<forall>c\<in>set cs. \<not> isControl c \<and> c \<noteq> SP \<and> c \<noteq> CHR ''?'' \<Longrightarrow> length (p_resource p) + length cs \<le> RESOURCE_MAX \<Longrightarrow>
   no_raw p \<Longrightarrow> p_headers_parse_state p = PARSE_URI_STEM \<Longrightarrow>
     parseHeaders_loop (cs @ rest) n p msg = parseHeaders_loop rest (n + length cs) (p\<lparr>p_resource := p_resource p @ cs\<rparr>) msg"
proof (induction cs arbitrary: n p)
  case (Cons c cs)
  have "header_step c p msg = Continue (p\<lparr>p_resource := p_resource p @ [c]\<rparr>) msg"
    using Cons.prems by (simp add: header_step_def step_uri_stem_def)
  then show ?case using Cons by simp
qed simp

lemma run_uri_query:
  "\<forall>c\<in>set cs. \<not> isControl c \<and> c \<noteq> SP \<Longrightarrow> length (p_query_string p) + length cs \<le> QUERY_STRING_MAX \<Longrightarrow>
   no_raw p \<Longrightarrow> p_headers_parse_state p = PARSE_URI_QUERY \<Longrightarrow>
     parseHeaders_loop (cs @ rest) n p msg = parseHeaders_loop rest (n + length cs) (p\<lparr>p_query_string := p_query_string p @ cs\<rparr>) msg"
proof (induction cs arbitrary: n p)
  case (Cons c cs)
  have "header_step c p msg = Continue (p\<lparr>p_query_string := p_query_string p @ [c]\<rparr>) msg"
    using Cons.prems by (simp add: header_step_def step_uri_query_def)
  then show ?case using Cons by simp
qed simp

lemma run_header_name:
  "\<forall>c\<in>set cs. token_char c \<Longrightarrow> length (p_header_name p) + length cs \<le> HEADER_NAME_MAX \<Longrightarrow>
   no_raw p \<Longrightarrow> p_headers_parse_state p = PARSE_HEADER_NAME \<Longrightarrow>
     parseHeaders_loop (cs @ rest) n p msg = parseHeaders_loop rest (n + length cs) (p\<lparr>p_header_name := p_header_name p @ cs\<rparr>) msg"
proof (induction cs arbitrary: n p)
  case (Cons c cs)
  have "c \<noteq> CHR '':''" using Cons.prems(1) by (auto simp: token_char_def isSpecial_def)
  then have "header_step c p msg = Continue (p\<lparr>p_header_name := p_header_name p @ [c]\<rparr>) msg"
    using Cons.prems by (simp add: header_step_def step_header_name_def)
  then show ?case using Cons by simp
qed simp

lemma control_CR_NL: "isControl CR" "isControl NL"
  by (simp_all add: isControl_def char_to_int_def)

lemma run_header_value:
  "\<forall>c\<in>set cs. \<not> isControl c \<Longrightarrow> length (p_header_value p) + length cs \<le> HEADER_VALUE_MAX \<Longrightarrow>
   no_raw p \<Longrightarrow> p_headers_parse_state p = PARSE_HEADER_VALUE \<Longrightarrow>
     parseHeaders_loop (cs @ rest) n p msg = parseHeaders_loop rest (n + length cs) (p\<lparr>p_header_value := p_header_value p @ cs\<rparr>) msg"
proof (induction cs arbitrary: n p)
  case (Cons c cs)
  have "c \<noteq> CR" "c \<noteq> NL" using Cons.prems(1) control_CR_NL by auto
  then have "header_step c p msg = Continue (p\<lparr>p_header_value := p_header_value p @ [c]\<rparr>) msg"
    using Cons.prems by (simp add: header_step_def step_header_value_def)
  then show ?case using Cons by simp
qed simp

section \<open>Version numbers\<close>

definition digit_char :: "nat \<Rightarrow> char" where
  "digit_char d = char_of (48 + d)"

text \<open>The decimal representation of a number.\<close>

fun decimal :: "nat \<Rightarrow> string" where
  "decimal n = (if n < 10 then [digit_char n] else decimal (n div 10) @ [digit_char (n mod 10)])"

declare decimal.simps [simp del]

definition decimal_value :: "16 word \<Rightarrow> string \<Rightarrow> 16 word" where
  "decimal_value v ds = foldl (\<lambda>acc c. acc * 10 + digit16 c) v ds"

lemma code_digit_char: "d < 10 \<Longrightarrow> code (digit_char d) = 48 + d"
  by (simp add: digit_char_def)

lemma char_to_int_digit: "d < 10 \<Longrightarrow> char_to_int (digit_char d) = 48 + int d"
  by (simp add: char_to_int_def code_digit_char)

lemma digit16_digit: "d < 10 \<Longrightarrow> digit16 (digit_char d) = of_nat d" "d < 10 \<Longrightarrow> isDigit (digit_char d)"
  by (simp_all add: digit16_def isDigit_def char_to_int_digit)

lemma decimal_digits: "\<forall>c\<in>set (decimal n). isDigit c"
  by (induction n rule: decimal.induct) (subst decimal.simps, auto simp: digit16_digit)

lemma decimal_value_decimal: "decimal_value 0 (decimal n) = of_nat n"
proof (induction n rule: decimal.induct)
  case (1 n)
  show ?case
  proof (cases "n < 10")
    case True
    then show ?thesis by (subst decimal.simps) (simp add: decimal_value_def digit16_digit)
  next
    case False
    with 1 have "decimal_value 0 (decimal n) = of_nat (n div 10) * 10 + of_nat (n mod 10)"
      by (subst decimal.simps) (simp add: decimal_value_def digit16_digit)
    also have "\<dots> = of_nat (n div 10 * 10 + n mod 10)" by (simp only: of_nat_add of_nat_mult of_nat_numeral)
    also have "n div 10 * 10 + n mod 10 = n" by simp
    finally show ?thesis .
  qed
qed

lemma decimal_not_Nil: "decimal n \<noteq> []"
  by (subst decimal.simps) simp

lemma run_major:
  "\<forall>c\<in>set ds. isDigit c \<Longrightarrow> no_raw p \<Longrightarrow> p_headers_parse_state p = PARSE_HTTP_VERSION_MAJOR \<Longrightarrow>
   m_first_line msg = [] \<Longrightarrow>
     parseHeaders_loop (ds @ rest) n p msg =
       parseHeaders_loop rest (n + length ds) p (msg\<lparr>m_version_major := decimal_value (m_version_major msg) ds\<rparr>)"
proof (induction ds arbitrary: n msg)
  case (Cons c ds)
  have "c \<noteq> CHR ''.''" using Cons.prems(1) by (auto simp: isDigit_def char_to_int_def)
  then have "header_step c p msg = Continue p (msg\<lparr>m_version_major := m_version_major msg * 10 + digit16 c\<rparr>)"
    using Cons.prems by (simp add: header_step_def step_major_def setVersionMajor_def clearFirstLine_def)
  then show ?case using Cons by (simp add: decimal_value_def)
qed (simp add: decimal_value_def)

lemma run_minor:
  "\<forall>c\<in>set ds. isDigit c \<Longrightarrow> no_raw p \<Longrightarrow> p_headers_parse_state p = PARSE_HTTP_VERSION_MINOR \<Longrightarrow>
   m_first_line msg = [] \<Longrightarrow>
     parseHeaders_loop (ds @ rest) n p msg =
       parseHeaders_loop rest (n + length ds) p (msg\<lparr>m_version_minor := decimal_value (m_version_minor msg) ds\<rparr>)"
proof (induction ds arbitrary: n msg)
  case (Cons c ds)
  have "c \<noteq> SP" "c \<noteq> CR" "c \<noteq> NL" using Cons.prems(1) by (auto simp: isDigit_def char_to_int_def)
  then have "header_step c p msg = Continue p (msg\<lparr>m_version_minor := m_version_minor msg * 10 + digit16 c\<rparr>)"
    using Cons.prems by (simp add: header_step_def step_minor_def setVersionMinor_def clearFirstLine_def)
  then show ?case using Cons by (simp add: decimal_value_def)
qed (simp add: decimal_value_def)

lemma setVersion_id:
  "m_first_line msg = [] \<Longrightarrow> setVersionMajor v msg = msg\<lparr>m_version_major := v\<rparr>"
  "m_first_line msg = [] \<Longrightarrow> setVersionMinor v msg = msg\<lparr>m_version_minor := v\<rparr>"
  by (cases msg; simp add: setVersionMajor_def setVersionMinor_def clearFirstLine_def)+

lemma run_version_digits:
  assumes "no_raw p" "p_headers_parse_state p = PARSE_HTTP_VERSION_H" "m_first_line msg = []"
  shows "\<exists>k. parseHeaders_loop (''HTTP/'' @ decimal a @ ''.'' @ decimal b @ rest) n p msg =
     parseHeaders_loop rest k (goto PARSE_HTTP_VERSION_MINOR p)
       (msg\<lparr>m_version_major := of_nat a, m_version_minor := of_nat b\<rparr>)"
proof -
  obtain da ra where da: "decimal a = da # ra" using decimal_not_Nil by (cases "decimal a") auto
  obtain db rb where db: "decimal b = db # rb" using decimal_not_Nil by (cases "decimal b") auto
  have dig: "isDigit da" "\<forall>c\<in>set ra. isDigit c" "isDigit db" "\<forall>c\<in>set rb. isDigit c"
    using decimal_digits [of a] decimal_digits [of b] da db by auto
  have va: "decimal_value (digit16 da) ra = of_nat a"
    using decimal_value_decimal [of a] da by (simp add: decimal_value_def)
  have vb: "decimal_value (digit16 db) rb = of_nat b"
    using decimal_value_decimal [of b] db by (simp add: decimal_value_def)
  define p1 where "p1 = goto PARSE_HTTP_VERSION_MAJOR p"
  define p2 where "p2 = goto PARSE_HTTP_VERSION_MINOR p"
  define m1 where "m1 = msg\<lparr>m_version_major := digit16 da\<rparr>"
  define m2 where "m2 = msg\<lparr>m_version_major := of_nat a, m_version_minor := digit16 db\<rparr>"
  define r1 where "r1 = CHR ''.'' # decimal b @ rest"
  have 1: "parseHeaders_loop (''HTTP/'' @ decimal a @ r1) n p msg = parseHeaders_loop (ra @ r1) (Suc (Suc (Suc (Suc (Suc (Suc n)))))) p1 m1"
    using assms dig(1) da
    by (simp add: header_step_def step_expect_def step_major_start_def setVersion_id p1_def m1_def)
  have 2: "parseHeaders_loop (ra @ r1) (Suc (Suc (Suc (Suc (Suc (Suc n)))))) p1 m1 =
      parseHeaders_loop r1 (Suc (Suc (Suc (Suc (Suc (Suc n))))) + length ra) p1 (msg\<lparr>m_version_major := of_nat a\<rparr>)"
    using run_major [of ra p1 m1 r1] assms dig(2) va by (simp add: p1_def m1_def)
  have 3: "parseHeaders_loop r1 k p1 (msg\<lparr>m_version_major := of_nat a\<rparr>) = parseHeaders_loop (rb @ rest) (k + 2) p2 m2" for k
    using assms dig(3) db
    by (simp add: r1_def p1_def p2_def m2_def header_step_def step_major_def step_minor_start_def
        setVersion_id)
  have 4: "parseHeaders_loop (rb @ rest) k p2 m2 =
      parseHeaders_loop rest (k + length rb) p2 (msg\<lparr>m_version_major := of_nat a, m_version_minor := of_nat b\<rparr>)" for k
    using run_minor [of rb p2 m2 rest] assms dig(4) vb by (simp add: p2_def m2_def)
  show ?thesis using 1 2 3 4 unfolding r1_def p2_def by (intro exI) simp
qed

lemma run_version:
  assumes "no_raw p" "p_headers_parse_state p = PARSE_HTTP_VERSION_H" "p_is_request p" "m_first_line msg = []"
  shows "\<exists>k. parseHeaders_loop (''HTTP/'' @ decimal a @ ''.'' @ decimal b @ CR # rest) n p msg =
     parseHeaders_loop rest k (goto PARSE_EXPECTING_NEWLINE p)
       (msg\<lparr>m_version_major := of_nat a, m_version_minor := of_nat b\<rparr>)"
  using run_version_digits [OF assms(1,2,4), of a b "CR # rest" n] assms(1,3)
  by (auto simp: header_step_def step_minor_def)

section \<open>Header fields\<close>

definition sendable_header :: "string \<times> string \<Rightarrow> bool" where
  "sendable_header e \<longleftrightarrow>
     fst e \<noteq> [] \<and> (\<forall>c\<in>set (fst e). token_char c) \<and> length (fst e) \<le> HEADER_NAME_MAX \<and>
     (\<forall>c\<in>set (snd e). \<not> isControl c) \<and> length (snd e) \<le> HEADER_VALUE_MAX"

definition header_text :: "string \<times> string \<Rightarrow> string" where
  "header_text e = fst e @ HEADER_NAME_VALUE_DELIMITER @ snd e @ STRING_CRLF"

lemma special_SP_HT: "isSpecial SP" "isSpecial HT"
  by (simp_all add: isSpecial_def)

lemma token_char_neq: "token_char c \<Longrightarrow> c \<noteq> CR \<and> c \<noteq> NL \<and> c \<noteq> HT \<and> c \<noteq> SP"
  unfolding token_char_def using control_CR_NL special_SP_HT by metis

lemma goto_same:
  "p_headers_parse_state p = st \<Longrightarrow>
     goto st (p\<lparr>p_header_name := a, p_header_value := b\<rparr>) = p\<lparr>p_header_name := a, p_header_value := b\<rparr>"
  by (cases p) simp

lemma run_header:
  assumes "sendable_header e" "no_raw p" "p_headers_parse_state p = PARSE_HEADER_START"
  shows "\<exists>k. parseHeaders_loop (header_text e @ rest) n p msg =
     parseHeaders_loop rest k (p\<lparr>p_header_name := fst e, p_header_value := snd e\<rparr>)
       (addHeader (fst e) (snd e) msg)"
proof -
  obtain c cs where e: "fst e = c # cs" using assms(1) by (cases "fst e") (auto simp: sendable_header_def)
  have tok: "token_char c" "\<forall>x\<in>set cs. token_char x" "Suc (length cs) \<le> HEADER_NAME_MAX"
    "\<forall>x\<in>set (snd e). \<not> isControl x" "length (snd e) \<le> HEADER_VALUE_MAX"
    using assms(1) e by (auto simp: sendable_header_def)
  define p1 where "p1 = goto PARSE_HEADER_NAME (p\<lparr>p_header_name := [c]\<rparr>)"
  define p2 where "p2 = goto PARSE_HEADER_VALUE (p\<lparr>p_header_name := fst e, p_header_value := []\<rparr>)"
  define r1 where "r1 = HEADER_NAME_VALUE_DELIMITER @ snd e @ STRING_CRLF @ rest"
  define r2 where "r2 = STRING_CRLF @ rest"
  have 1: "parseHeaders_loop (header_text e @ rest) n p msg = parseHeaders_loop (cs @ r1) (Suc n) p1 msg"
    using assms(2,3) tok(1) token_char_neq [OF tok(1)] e
    by (simp add: header_text_def header_step_def step_header_start_def step_name_start_def p1_def r1_def)
  have 2: "parseHeaders_loop (cs @ r1) (Suc n) p1 msg =
      parseHeaders_loop r1 (Suc n + length cs) (p1\<lparr>p_header_name := fst e\<rparr>) msg"
    using run_header_name [of cs p1 r1 "Suc n" msg] assms(2) tok(2,3) e by (simp add: p1_def)
  have 3: "parseHeaders_loop r1 k (p1\<lparr>p_header_name := fst e\<rparr>) msg = parseHeaders_loop (snd e @ r2) (k + 2) p2 msg" for k
    using assms(2)
    by (simp add: r1_def r2_def HEADER_NAME_VALUE_DELIMITER_def p1_def p2_def header_step_def step_header_name_def
        step_space_before_value_def)
  have 4: "parseHeaders_loop (snd e @ r2) k p2 msg =
      parseHeaders_loop r2 (k + length (snd e)) (p2\<lparr>p_header_value := snd e\<rparr>) msg" for k
    using run_header_value [of "snd e" p2 r2 k msg] assms(2) tok(4,5) by (simp add: p2_def)
  have 5: "parseHeaders_loop r2 k (p2\<lparr>p_header_value := snd e\<rparr>) msg =
      parseHeaders_loop rest (k + 2) (p\<lparr>p_header_name := fst e, p_header_value := snd e\<rparr>) (addHeader (fst e) (snd e) msg)" for k
    using assms(2) goto_same [OF assms(3), where a = "fst e" and b = "snd e"]
    by (simp add: r2_def STRING_CRLF_def p2_def header_step_def step_header_value_def step_expecting_newline_def)
  show ?thesis using 1 2 3 4 5 by (intro exI) simp
qed

definition add_headers :: "StringDictionary \<Rightarrow> HTTPMessage \<Rightarrow> HTTPMessage" where
  "add_headers es msg = foldl (\<lambda>m e. addHeader (fst e) (snd e) m) msg es"

lemma run_headers:
  assumes "\<forall>e\<in>set es. sendable_header e" "no_raw p" "p_headers_parse_state p = PARSE_HEADER_START"
  shows "\<exists>k nm vl. parseHeaders_loop (concat (map header_text es) @ rest) n p msg =
     parseHeaders_loop rest k (p\<lparr>p_header_name := nm, p_header_value := vl\<rparr>) (add_headers es msg)"
  using assms
proof (induction es arbitrary: n p msg)
  case Nil
  show ?case unfolding add_headers_def
    by (intro exI [of _ n] exI [of _ "p_header_name p"] exI [of _ "p_header_value p"]) simp
next
  case (Cons e es)
  obtain k where k: "parseHeaders_loop (header_text e @ concat (map header_text es) @ rest) n p msg =
     parseHeaders_loop (concat (map header_text es) @ rest) k (p\<lparr>p_header_name := fst e, p_header_value := snd e\<rparr>)
       (addHeader (fst e) (snd e) msg)"
    using run_header [of e p "concat (map header_text es) @ rest" n msg] Cons.prems by auto
  obtain k' nm vl where "parseHeaders_loop (concat (map header_text es) @ rest) k
      (p\<lparr>p_header_name := fst e, p_header_value := snd e\<rparr>) (addHeader (fst e) (snd e) msg) =
     parseHeaders_loop rest k' (p\<lparr>p_header_name := nm, p_header_value := vl\<rparr>)
       (add_headers es (addHeader (fst e) (snd e) msg))"
    using Cons.IH [of "p\<lparr>p_header_name := fst e, p_header_value := snd e\<rparr>" k "addHeader (fst e) (snd e) msg"] Cons.prems
    by auto
  with k show ?case by (auto simp: add_headers_def)
qed

lemma run_end:
  "no_raw p \<Longrightarrow> p_headers_parse_state p = PARSE_HEADER_START \<Longrightarrow>
     \<exists>k. parseHeaders_loop (STRING_CRLF @ rest) n p msg =
       (TTrue, count_read rest k (goto PARSE_EXPECTING_FINAL_NEWLINE p), msg)"
  by (auto simp: STRING_CRLF_def header_step_def step_header_start_def)

lemma run_header_block:
  assumes "\<forall>e\<in>set es. sendable_header e" "no_raw p" "p_headers_parse_state p = PARSE_HEADER_START"
  shows "\<exists>k nm vl. parseHeaders_loop (concat (map header_text es) @ STRING_CRLF @ rest) n p msg =
     (TTrue, count_read rest k (goto PARSE_EXPECTING_FINAL_NEWLINE (p\<lparr>p_header_name := nm, p_header_value := vl\<rparr>)),
      add_headers es msg)"
proof -
  obtain k nm vl where 1: "parseHeaders_loop (concat (map header_text es) @ STRING_CRLF @ rest) n p msg =
      parseHeaders_loop (STRING_CRLF @ rest) k (p\<lparr>p_header_name := nm, p_header_value := vl\<rparr>) (add_headers es msg)"
    using run_headers [OF assms, of "STRING_CRLF @ rest" n msg] by blast
  obtain k2 where "parseHeaders_loop (STRING_CRLF @ rest) k (p\<lparr>p_header_name := nm, p_header_value := vl\<rparr>) (add_headers es msg) =
     (TTrue, count_read rest k2 (goto PARSE_EXPECTING_FINAL_NEWLINE (p\<lparr>p_header_name := nm, p_header_value := vl\<rparr>)),
      add_headers es msg)"
    using run_end [of "p\<lparr>p_header_name := nm, p_header_value := vl\<rparr>" rest k "add_headers es msg"] assms(2,3) by auto
  with 1 show ?thesis by auto
qed

section \<open>Inserting a grouped list of entries\<close>

lemma dict_insert_last:
  "grouped (d @ [e]) \<Longrightarrow> dict_insert (fst e) (snd e) d = d @ [e]"
proof (induction d)
  case Nil
  then show ?case by (simp add: dict_insert_eqs)
next
  case (Cons x d)
  show ?case
  proof (cases "key_eq (fst e) x")
    case True
    have g: "grouped (x # (d @ [e]))" using Cons.prems by simp
    define rest where "rest = dropWhile (key_eq (fst e)) (d @ [e])"
    have r: "filter (key_eq (fst e)) rest = []" using grouped_rest [OF g True] by (simp add: rest_def)
    have "rest = []"
    proof (rule ccontr)
      assume "rest \<noteq> []"
      then have "last rest = e"
        by (metis rest_def last_appendR last_snoc takeWhile_dropWhile_id)
      with \<open>rest \<noteq> []\<close> have "e \<in> set rest" by (metis last_in_set)
      with r show False by (metis CaseInsensitiveEqual_refl filter_empty_conv)
    qed
    then have "\<forall>y\<in>set d. key_eq (fst e) y" by (simp add: rest_def dropWhile_eq_Nil_conv)
    then have "takeWhile (key_eq (fst e)) d = d" "dropWhile (key_eq (fst e)) d = []" by simp_all
    with True show ?thesis by (simp add: dict_insert_eqs)
  next
    case False
    with Cons show ?thesis by (simp add: dict_insert_eqs)
  qed
qed

lemma grouped_butlast: "grouped (d @ [e]) \<Longrightarrow> grouped d"
proof (induction d)
  case (Cons x d)
  then show ?case by (cases d) auto
qed simp

lemma m_headers_add_headers:
  "grouped es \<Longrightarrow> m_headers msg = [] \<Longrightarrow> m_headers (add_headers es msg) = es"
proof (induction es rule: rev_induct)
  case (snoc e es)
  then have "m_headers (add_headers es msg) = es" using grouped_butlast by blast
  then show ?case using dict_insert_last [OF snoc.prems(1)]
    by (simp add: add_headers_def addHeader_def)
qed (simp add: add_headers_def)

lemma add_headers_frame:
  "m_version_major (add_headers es msg) = m_version_major msg"
  "m_version_minor (add_headers es msg) = m_version_minor msg"
  "m_class (add_headers es msg) = m_class msg"
  unfolding add_headers_def by (induction es arbitrary: msg) (simp_all add: addHeader_def)

section \<open>A request as it is sent\<close>

definition sendable_request :: "HTTPRequest_part \<Rightarrow> bool" where
  "sendable_request r \<longleftrightarrow>
     m_method r \<noteq> [] \<and> (\<forall>c\<in>set (m_method r). token_char c) \<and> length (m_method r) \<le> METHOD_MAX \<and>
     (\<forall>c\<in>set (m_resource r). \<not> isControl c \<and> c \<noteq> SP \<and> c \<noteq> CHR ''?'') \<and> length (m_resource r) \<le> RESOURCE_MAX \<and>
     (\<forall>c\<in>set (m_query_string r). \<not> isControl c \<and> c \<noteq> SP) \<and> length (m_query_string r) \<le> QUERY_STRING_MAX"

lemma run_request_line:
  assumes "sendable_request r" "no_raw p" "p_headers_parse_state p = PARSE_METHOD_START" "p_query_string p = []"
  shows "\<exists>k. parseHeaders_loop (m_method r @ '' '' @ m_resource r
       @ (if m_query_string r \<noteq> [] then ''?'' @ m_query_string r else []) @ '' '' @ rest) n p msg =
     parseHeaders_loop rest k
       (goto PARSE_HTTP_VERSION_H (p\<lparr>p_method := m_method r, p_resource := m_resource r,
          p_query_string := m_query_string r\<rparr>)) msg"
proof -
  obtain c cs where e: "m_method r = c # cs" using assms(1) by (cases "m_method r") (auto simp: sendable_request_def)
  have tok: "token_char c" "\<forall>x\<in>set cs. token_char x" "Suc (length cs) \<le> METHOD_MAX"
    using assms(1) e by (auto simp: sendable_request_def)
  define q where "q = (if m_query_string r \<noteq> [] then ''?'' @ m_query_string r else [])"
  define r1 where "r1 = SP # m_resource r @ q @ SP # rest"
  define r2 where "r2 = q @ SP # rest"
  define p1 where "p1 = goto PARSE_METHOD (p\<lparr>p_method := [c]\<rparr>)"
  define p2 where "p2 = goto PARSE_URI_STEM (p\<lparr>p_method := m_method r, p_resource := []\<rparr>)"
  define p3 where "p3 = p2\<lparr>p_resource := m_resource r\<rparr>"
  have 1: "parseHeaders_loop (m_method r @ r1) n p msg = parseHeaders_loop (cs @ r1) (Suc n) p1 msg"
    using assms(2,3) tok(1) token_char_neq [OF tok(1)] e
    by (simp add: header_step_def step_method_start_def p1_def)
  have 2: "parseHeaders_loop (cs @ r1) (Suc n) p1 msg =
      parseHeaders_loop r1 (Suc n + length cs) (p1\<lparr>p_method := m_method r\<rparr>) msg"
    using run_method [of cs p1 r1 "Suc n" msg] assms(2) tok(2,3) e by (simp add: p1_def)
  have 3: "parseHeaders_loop r1 k (p1\<lparr>p_method := m_method r\<rparr>) msg = parseHeaders_loop (m_resource r @ r2) (Suc k) p2 msg" for k
    using assms(2) by (simp add: r1_def r2_def p1_def p2_def header_step_def step_method_def)
  have 4: "parseHeaders_loop (m_resource r @ r2) k p2 msg = parseHeaders_loop r2 (k + length (m_resource r)) p3 msg" for k
    using run_uri_stem [of "m_resource r" p2 r2 k msg] assms(1,2) by (simp add: p2_def p3_def sendable_request_def)
  have 5: "\<exists>k'. parseHeaders_loop r2 k p3 msg = parseHeaders_loop rest k'
      (goto PARSE_HTTP_VERSION_H (p\<lparr>p_method := m_method r, p_resource := m_resource r, p_query_string := m_query_string r\<rparr>)) msg" for k
  proof (cases "m_query_string r = []")
    case True
    have "p_query_string_update (\<lambda>_. []) p = p" using assms(4) by (cases p) simp
    with True assms(2,4) show ?thesis
      by (intro exI [of _ "Suc k"], cases p) (simp add: r2_def q_def p3_def p2_def header_step_def step_uri_stem_def)
  next
    case False
    define p4 where "p4 = goto PARSE_URI_QUERY (p3\<lparr>p_query_string := []\<rparr>)"
    have a: "parseHeaders_loop r2 k p3 msg = parseHeaders_loop (m_query_string r @ SP # rest) (Suc k) p4 msg"
      using False assms(2) by (simp add: r2_def q_def p3_def p4_def p2_def header_step_def step_uri_stem_def)
    have b: "parseHeaders_loop (m_query_string r @ SP # rest) (Suc k) p4 msg =
        parseHeaders_loop (SP # rest) (Suc k + length (m_query_string r)) (p4\<lparr>p_query_string := m_query_string r\<rparr>) msg"
      using run_uri_query [of "m_query_string r" p4 "SP # rest" "Suc k" msg] assms(1,2)
      by (simp add: p4_def p3_def p2_def sendable_request_def)
    show ?thesis using a b assms(2)
      by (intro exI [of _ "Suc (Suc k + length (m_query_string r))"])
        (simp add: p4_def p3_def p2_def header_step_def step_uri_query_def)
  qed
  from 5 [of "Suc (Suc n + length cs) + length (m_resource r)"] 1 2 3 4 show ?thesis
    unfolding q_def [symmetric] by (auto simp: r1_def)
qed

lemma header_buffers_text:
  "concat (concat (map (\<lambda>e. [fst e, HEADER_NAME_VALUE_DELIMITER, snd e, STRING_CRLF]) es)) =
     concat (map header_text es)"
  by (induction es) (simp_all add: header_text_def)

lemma appendHeaders_text: "concat (appendHeaders msg) = concat (map header_text (m_headers msg)) @ STRING_CRLF"
  by (simp add: appendHeaders_def header_buffers_text)

lemma prepareHeadersForSend_frame:
  "m_class (prepareHeadersForSend lib ka ch msg) = m_class msg"
  "m_first_line (prepareHeadersForSend lib ka ch msg) = m_first_line msg"
  "m_version_major (prepareHeadersForSend lib ka ch msg) = m_version_major msg"
  "m_version_minor (prepareHeadersForSend lib ka ch msg) = m_version_minor msg"
  by (simp_all add: prepareHeadersForSend_def changeHeader_def Let_def)

lemma prepareHeadersForSend_grouped:
  "grouped (m_headers msg) \<Longrightarrow> grouped (m_headers (prepareHeadersForSend lib ka ch msg))"
  by (simp add: prepareHeadersForSend_def changeHeader_def Let_def grouped_changeValue)

lemma request_text:
  assumes "m_class msg = Request r" "m_first_line msg = []" "\<forall>n. lexical_cast_string lib n = decimal n"
  shows "concat (fst (prepareBuffersForSend lib ka ch msg)) =
     m_method r @ '' '' @ m_resource r @ (if m_query_string r \<noteq> [] then ''?'' @ m_query_string r else []) @ '' ''
     @ ''HTTP/'' @ decimal (unat (m_version_major msg)) @ ''.'' @ decimal (unat (m_version_minor msg)) @ CR # NL
     # concat (map header_text (m_headers (prepareHeadersForSend lib ka ch msg))) @ STRING_CRLF"
  using assms(1,2) unfolding prepareBuffersForSend_def getFirstLine_def updateFirstLine_def getVersionString_def
  by (simp add: Let_def prepareHeadersForSend_frame appendHeaders_text assms(3) STRING_HTTP_VERSION_def
      STRING_CRLF_def appendHeaders_def header_buffers_text [unfolded STRING_CRLF_def])

lemma parse_request_exact:
  assumes "m_class msg = Request r" "m_first_line msg = []" "\<forall>n. lexical_cast_string lib n = decimal n"
    and "sendable_request r" "grouped (m_headers msg)"
    and "\<forall>e\<in>set (m_headers (prepareHeadersForSend lib ka ch msg)). sendable_header e"
    and "m_first_line fresh = []"
    and p0: "no_raw p0" "p_headers_parse_state p0 = PARSE_METHOD_START" "p_query_string p0 = []" "p_is_request p0"
    and buf0: "p_read_buf p0 = concat (fst (prepareBuffersForSend lib ka ch msg)) @ rest"
  shows "\<exists>p'. parseHeaders p0 fresh = (TTrue, p', add_headers (m_headers (prepareHeadersForSend lib ka ch msg))
          (fresh\<lparr>m_version_major := m_version_major msg, m_version_minor := m_version_minor msg\<rparr>)) \<and>
      p_method p' = m_method r \<and> p_resource p' = m_resource r \<and> p_query_string p' = m_query_string r \<and>
      p_read_buf p' = rest \<and> p_is_request p' \<and> p_max_content_length p' = p_max_content_length p0 \<and>
      p_message_parse_state p' = p_message_parse_state p0"
proof -
  define es where "es = m_headers (prepareHeadersForSend lib ka ch msg)"
  define p1 where "p1 = p0\<lparr>p_method := m_method r, p_resource := m_resource r, p_query_string := m_query_string r\<rparr>"
  define a where "a = unat (m_version_major msg)"
  define b where "b = unat (m_version_minor msg)"
  define hdrs where "hdrs = concat (map header_text es) @ STRING_CRLF @ rest"
  define fresh1 where "fresh1 = fresh\<lparr>m_version_major := of_nat a, m_version_minor := of_nat b\<rparr>"
  have buf: "p_read_buf p0 = m_method r @ '' '' @ m_resource r
       @ (if m_query_string r \<noteq> [] then ''?'' @ m_query_string r else []) @ '' ''
       @ (''HTTP/'' @ decimal a @ ''.'' @ decimal b @ CR # NL # hdrs)"
    using request_text [OF assms(1-3), of ka ch] buf0
    by (simp add: a_def b_def hdrs_def es_def)
  obtain k1 where k1: "parseHeaders p0 fresh =
      parseHeaders_loop (''HTTP/'' @ decimal a @ ''.'' @ decimal b @ CR # NL # hdrs) k1 (goto PARSE_HTTP_VERSION_H p1) fresh"
    unfolding parseHeaders_def buf p1_def using run_request_line [OF assms(4) p0(1-3)] by blast
  obtain k2 where k2: "parseHeaders p0 fresh =
      parseHeaders_loop (NL # hdrs) k2 (goto PARSE_EXPECTING_NEWLINE p1) fresh1"
    using run_version [of "goto PARSE_HTTP_VERSION_H p1" fresh a b "NL # hdrs" k1] p0 assms(7) k1
    by (auto simp: p1_def fresh1_def)
  have k3: "parseHeaders p0 fresh = parseHeaders_loop hdrs (Suc k2) (goto PARSE_HEADER_START p1) fresh1"
    using k2 p0(1) by (simp add: header_step_def step_expecting_newline_def p1_def)
  obtain k5 nm vl where "parseHeaders p0 fresh = (TTrue, count_read rest k5 (goto PARSE_EXPECTING_FINAL_NEWLINE
      ((goto PARSE_HEADER_START p1)\<lparr>p_header_name := nm, p_header_value := vl\<rparr>)), add_headers es fresh1)"
    using run_header_block [of es "goto PARSE_HEADER_START p1" rest "Suc k2" fresh1] assms(6) p0(1) k3
    by (auto simp: es_def hdrs_def p1_def)
  then show ?thesis unfolding es_def [symmetric]
    using p0(4) by (simp add: p1_def count_read_def fresh1_def a_def b_def)
qed

lemma parse_sent_request:
  assumes "m_class msg = Request r" "m_first_line msg = []" "\<forall>n. lexical_cast_string lib n = decimal n"
    and "sendable_request r" "grouped (m_headers msg)"
    and "\<forall>e\<in>set (m_headers (prepareHeadersForSend lib ka ch msg)). sendable_header e"
    and "m_headers fresh = []" "m_first_line fresh = []"
  shows "\<exists>p' m'. parseHeaders (setReadBuffer (concat (fst (prepareBuffersForSend lib ka ch msg)) @ rest)
        (HTTPParser_init True maxlen)) fresh = (TTrue, p', m') \<and>
      p_method p' = m_method r \<and> p_resource p' = m_resource r \<and> p_query_string p' = m_query_string r \<and>
      p_read_buf p' = rest \<and> m_headers m' = m_headers (prepareHeadersForSend lib ka ch msg) \<and>
      m_version_major m' = m_version_major msg \<and> m_version_minor m' = m_version_minor msg"
proof -
  let ?fresh = "fresh\<lparr>m_version_major := m_version_major msg, m_version_minor := m_version_minor msg\<rparr>"
  have "m_headers (add_headers (m_headers (prepareHeadersForSend lib ka ch msg)) ?fresh)
      = m_headers (prepareHeadersForSend lib ka ch msg)"
    by (rule m_headers_add_headers [OF prepareHeadersForSend_grouped [OF assms(5)]]) (simp add: assms(7))
  then show ?thesis
    using parse_request_exact [OF assms(1-6,8), of "setReadBuffer (concat (fst (prepareBuffersForSend lib ka ch msg)) @ rest)
        (HTTPParser_init True maxlen)" rest]
    by (auto simp: setReadBuffer_def HTTPParser_init_def first_headers_state_def add_headers_frame)
qed

section \<open>A response as it is sent\<close>

definition sendable_response :: "HTTPResponse_part \<Rightarrow> bool" where
  "sendable_response r \<longleftrightarrow>
     unat (m_status_code r) < 2 ^ 16 \<and> (\<forall>c\<in>set (m_status_message r). \<not> isControl c) \<and>
     length (m_status_message r) \<le> STATUS_MESSAGE_MAX"

lemma run_status_code:
  "\<forall>c\<in>set ds. isDigit c \<Longrightarrow> no_raw p \<Longrightarrow> p_headers_parse_state p = PARSE_STATUS_CODE \<Longrightarrow>
     parseHeaders_loop (ds @ rest) n p msg =
       parseHeaders_loop rest (n + length ds) (p\<lparr>p_status_code := decimal_value (p_status_code p) ds\<rparr>) msg"
proof (induction ds arbitrary: n p)
  case (Cons c ds)
  have "c \<noteq> SP" using Cons.prems(1) by (auto simp: isDigit_def char_to_int_def)
  then have "header_step c p msg = Continue (p\<lparr>p_status_code := p_status_code p * 10 + digit16 c\<rparr>) msg"
    using Cons.prems by (simp add: header_step_def step_status_code_def)
  then show ?case using Cons by (simp add: decimal_value_def)
qed (simp add: decimal_value_def)

lemma run_status_message:
  "\<forall>c\<in>set cs. \<not> isControl c \<Longrightarrow> length (p_status_message p) + length cs \<le> STATUS_MESSAGE_MAX \<Longrightarrow>
   no_raw p \<Longrightarrow> p_headers_parse_state p = PARSE_STATUS_MESSAGE \<Longrightarrow>
     parseHeaders_loop (cs @ rest) n p msg =
       parseHeaders_loop rest (n + length cs) (p\<lparr>p_status_message := p_status_message p @ cs\<rparr>) msg"
proof (induction cs arbitrary: n p)
  case (Cons c cs)
  have "c \<noteq> CR" "c \<noteq> NL" using Cons.prems(1) control_CR_NL by auto
  then have "header_step c p msg = Continue (p\<lparr>p_status_message := p_status_message p @ [c]\<rparr>) msg"
    using Cons.prems by (simp add: header_step_def step_status_message_def)
  then show ?case using Cons by simp
qed simp

lemma run_status_line:
  assumes "no_raw p" "p_headers_parse_state p = PARSE_HTTP_VERSION_H" "\<not> p_is_request p" "m_first_line msg = []"
    and "\<forall>c\<in>set reason. \<not> isControl c" "length reason \<le> STATUS_MESSAGE_MAX"
  shows "\<exists>k. parseHeaders_loop (''HTTP/'' @ decimal a @ ''.'' @ decimal b @ '' '' @ decimal st @ '' '' @ reason @ STRING_CRLF @ rest)
       n p msg =
     parseHeaders_loop rest k (goto PARSE_HEADER_START (p\<lparr>p_status_code := of_nat st, p_status_message := reason\<rparr>))
       (msg\<lparr>m_version_major := of_nat a, m_version_minor := of_nat b\<rparr>)"
proof -
  define msg1 where "msg1 = msg\<lparr>m_version_major := of_nat a, m_version_minor := of_nat b\<rparr>"
  obtain d ds where d: "decimal st = d # ds" using decimal_not_Nil by (cases "decimal st") auto
  have dig: "isDigit d" "\<forall>c\<in>set ds. isDigit c" using decimal_digits [of st] d by auto
  have val: "decimal_value (digit16 d) ds = of_nat st"
    using decimal_value_decimal [of st] d by (simp add: decimal_value_def)
  define r1 where "r1 = SP # reason @ STRING_CRLF @ rest"
  define r2 where "r2 = STRING_CRLF @ rest"
  define p1 where "p1 = goto PARSE_STATUS_CODE (p\<lparr>p_status_code := digit16 d\<rparr>)"
  define p2 where "p2 = goto PARSE_STATUS_MESSAGE (p\<lparr>p_status_code := of_nat st, p_status_message := []\<rparr>)"
  obtain k where 1: "parseHeaders_loop (''HTTP/'' @ decimal a @ ''.'' @ decimal b @ SP # decimal st @ r1) n p msg =
      parseHeaders_loop (SP # decimal st @ r1) k (goto PARSE_HTTP_VERSION_MINOR p) msg1"
    using run_version_digits [OF assms(1,2,4), of a b "SP # decimal st @ r1" n] by (auto simp: msg1_def)
  have 2: "parseHeaders_loop (SP # decimal st @ r1) k (goto PARSE_HTTP_VERSION_MINOR p) msg1 =
      parseHeaders_loop (ds @ r1) (Suc (Suc k)) p1 msg1"
    using assms(1,3) d dig(1) by (simp add: header_step_def step_minor_def step_status_code_start_def p1_def)
  have 3: "parseHeaders_loop (ds @ r1) j p1 msg1 =
      parseHeaders_loop r1 (j + length ds) (p1\<lparr>p_status_code := of_nat st\<rparr>) msg1" for j
    using run_status_code [of ds p1 r1 j msg1] assms(1) dig(2) val by (simp add: p1_def)
  have 4: "parseHeaders_loop r1 j (p1\<lparr>p_status_code := of_nat st\<rparr>) msg1 = parseHeaders_loop (reason @ r2) (Suc j) p2 msg1" for j
    using assms(1) by (simp add: r1_def r2_def p1_def p2_def header_step_def step_status_code_def)
  have 5: "parseHeaders_loop (reason @ r2) j p2 msg1 =
      parseHeaders_loop r2 (j + length reason) (p2\<lparr>p_status_message := reason\<rparr>) msg1" for j
    using run_status_message [of reason p2 r2 j msg1] assms(1,5,6) by (simp add: p2_def)
  have 6: "parseHeaders_loop r2 j (p2\<lparr>p_status_message := reason\<rparr>) msg1 =
      parseHeaders_loop rest (j + 2) (goto PARSE_HEADER_START (p\<lparr>p_status_code := of_nat st, p_status_message := reason\<rparr>)) msg1" for j
    using assms(1) by (simp add: r2_def STRING_CRLF_def p2_def header_step_def step_status_message_def step_expecting_newline_def)
  show ?thesis using 1 2 3 4 5 6 by (intro exI) (simp add: r1_def msg1_def)
qed

lemma response_text:
  assumes "m_class msg = Response r" "m_first_line msg = []" "\<forall>n. lexical_cast_string lib n = decimal n"
  shows "concat (fst (prepareBuffersForSend lib ka ch msg)) =
     ''HTTP/'' @ decimal (unat (m_version_major msg)) @ ''.'' @ decimal (unat (m_version_minor msg)) @ '' ''
     @ decimal (unat (m_status_code r)) @ '' '' @ m_status_message r @ STRING_CRLF
     @ concat (map header_text (m_headers (prepareHeadersForSend lib ka ch msg))) @ STRING_CRLF"
  using assms(1,2) unfolding prepareBuffersForSend_def getFirstLine_def updateFirstLine_def getVersionString_def
  by (simp add: Let_def prepareHeadersForSend_frame appendHeaders_text assms(3) STRING_HTTP_VERSION_def
      appendHeaders_def header_buffers_text)

lemma parse_response_exact:
  assumes "m_class msg = Response r" "m_first_line msg = []" "\<forall>n. lexical_cast_string lib n = decimal n"
    and "sendable_response r"
    and "\<forall>e\<in>set (m_headers (prepareHeadersForSend lib ka ch msg)). sendable_header e"
    and "m_first_line fresh = []"
    and p0: "no_raw p0" "p_headers_parse_state p0 = PARSE_HTTP_VERSION_H" "\<not> p_is_request p0"
    and buf0: "p_read_buf p0 = concat (fst (prepareBuffersForSend lib ka ch msg)) @ rest"
  shows "\<exists>p'. parseHeaders p0 fresh = (TTrue, p', add_headers (m_headers (prepareHeadersForSend lib ka ch msg))
          (fresh\<lparr>m_version_major := m_version_major msg, m_version_minor := m_version_minor msg\<rparr>)) \<and>
      p_status_code p' = ucast (m_status_code r) \<and> p_status_message p' = m_status_message r \<and>
      p_read_buf p' = rest \<and> \<not> p_is_request p' \<and> p_max_content_length p' = p_max_content_length p0 \<and>
      p_message_parse_state p' = p_message_parse_state p0"
proof -
  define es where "es = m_headers (prepareHeadersForSend lib ka ch msg)"
  define p1 where "p1 = goto PARSE_HEADER_START (p0\<lparr>p_status_code := ucast (m_status_code r), p_status_message := m_status_message r\<rparr>)"
  define fresh1 where "fresh1 = fresh\<lparr>m_version_major := m_version_major msg, m_version_minor := m_version_minor msg\<rparr>"
  obtain k where k: "parseHeaders p0 fresh = parseHeaders_loop (concat (map header_text es) @ STRING_CRLF @ rest) k p1 fresh1"
    using run_status_line [OF p0 assms(6), of "m_status_message r" "unat (m_version_major msg)" "unat (m_version_minor msg)"
        "unat (m_status_code r)" "concat (map header_text es) @ STRING_CRLF @ rest" 0] assms(4)
    by (auto simp: parseHeaders_def buf0 response_text [OF assms(1-3)] es_def sendable_response_def p1_def fresh1_def unsigned_ucast_eq)
  show ?thesis using run_header_block [of es p1 rest k fresh1] assms(5) k p0
    by (auto simp: es_def p1_def fresh1_def count_read_def)
qed

end
