(* ===== verification/Http_Properties.thy ===== *)
theory Http_Properties
  imports Http_Receive Http_Roundtrip
begin

text \<open>
  The properties of the HTTP message layer: the parser and \<open>receive\<close> return and do not fault, what
  is kept of the headers, query strings and cookies is bounded, header parsing does not depend on
  how the input is cut into reads, and what is sent can be parsed again.
\<close>

lemma grouped_append_left: "grouped (a @ b) \<Longrightarrow> grouped a"
  by (induction b arbitrary: a rule: rev_induct) (simp, metis append.assoc grouped_butlast)

section \<open>Query strings\<close>

lemma encoded_chars:
  assumes "x \<in> set (url_encode s)"
  shows "x \<noteq> CHR ''='' \<and> x \<noteq> CHR ''&'' \<and> x \<noteq> CR \<and> x \<noteq> NL \<and> \<not> isControl x"
proof -
  from url_encode_safe [OF assms] consider "x = CHR ''%''" | "x \<notin> set url_reserved" "32 < code x" "code x < 127" by blast
  then show ?thesis
  proof cases
    case 1
    then show ?thesis by (simp add: isControl_def char_to_int_def)
  next
    case 2
    have "CHR ''='' \<in> set url_reserved" "CHR ''&'' \<in> set url_reserved" by (simp_all add: url_reserved_def)
    with 2 have "x \<noteq> CHR ''=''" "x \<noteq> CHR ''&''" by blast+
    with 2 show ?thesis by (auto simp: isControl_def char_to_int_def)
  qed
qed

lemma run_query_name:
  "\<forall>x\<in>set cs. x \<noteq> CHR ''='' \<and> x \<noteq> CHR ''&'' \<and> x \<noteq> CR \<and> x \<noteq> NL \<and> \<not> isControl x \<Longrightarrow>
   length nm + length cs \<le> QUERY_NAME_MAX \<Longrightarrow>
     parseURLEncoded_loop QUERY_PARSE_NAME nm vl d (cs @ rest) = parseURLEncoded_loop QUERY_PARSE_NAME (nm @ cs) vl d rest"
  by (induction cs arbitrary: nm) auto

lemma run_query_value:
  "\<forall>x\<in>set cs. x \<noteq> CHR ''&'' \<and> x \<noteq> CR \<and> x \<noteq> NL \<and> \<not> isControl x \<Longrightarrow>
   length vl + length cs \<le> QUERY_VALUE_MAX \<Longrightarrow>
     parseURLEncoded_loop QUERY_PARSE_VALUE nm vl d (cs @ rest) = parseURLEncoded_loop QUERY_PARSE_VALUE nm (vl @ cs) d rest"
  by (induction cs arbitrary: vl) auto

definition encodable_pair :: "string \<times> string \<Rightarrow> bool" where
  "encodable_pair e \<longleftrightarrow> fst e \<noteq> [] \<and> length (url_encode (fst e)) \<le> QUERY_NAME_MAX \<and>
     length (url_encode (snd e)) \<le> QUERY_VALUE_MAX"

definition encode_pair :: "string \<times> string \<Rightarrow> string \<times> string" where
  "encode_pair e = (url_encode (fst e), url_encode (snd e))"

lemma url_encode_eq_Nil: "url_encode s = [] \<longleftrightarrow> s = []"
  by (cases s) (simp_all add: url_encode_char_def)

lemma run_query_pair:
  assumes "encodable_pair (k, v)"
  shows "parseURLEncoded_loop QUERY_PARSE_NAME [] [] d (url_encode k @ ''='' @ url_encode v @ rest) =
     parseURLEncoded_loop QUERY_PARSE_VALUE (url_encode k) (url_encode v) d rest"
proof -
  have "parseURLEncoded_loop QUERY_PARSE_NAME [] [] d (url_encode k @ CHR ''='' # url_encode v @ rest) =
      parseURLEncoded_loop QUERY_PARSE_NAME (url_encode k) [] d (CHR ''='' # url_encode v @ rest)"
    using run_query_name [of "url_encode k" "[]" "[]" d "CHR ''='' # url_encode v @ rest"] encoded_chars assms
    by (simp add: encodable_pair_def)
  also have "\<dots> = parseURLEncoded_loop QUERY_PARSE_VALUE (url_encode k) [] d (url_encode v @ rest)"
    using assms by (simp add: url_encode_eq_Nil encodable_pair_def)
  also have "\<dots> = parseURLEncoded_loop QUERY_PARSE_VALUE (url_encode k) (url_encode v) d rest"
    using run_query_value [of "url_encode v" "[]" "url_encode k" d rest] encoded_chars assms
    by (simp add: encodable_pair_def)
  finally show ?thesis by simp
qed

lemma parse_make_query_string:
  "\<forall>e\<in>set es. encodable_pair e \<Longrightarrow> grouped (d @ map encode_pair es) \<Longrightarrow>
     parseURLEncoded_loop QUERY_PARSE_NAME [] [] d (make_query_string es) = (True, d @ map encode_pair es)"
proof (induction es arbitrary: d rule: make_query_string.induct)
  case 1
  then show ?case by simp
next
  case (2 k v)
  then have "dict_insert (url_encode k) (url_encode v) d = d @ [(url_encode k, url_encode v)]"
    using dict_insert_last [of d "(url_encode k, url_encode v)"] by (simp add: encode_pair_def)
  with 2 run_query_pair [of k v d "[]"] show ?case
    by (simp add: encode_pair_def url_encode_eq_Nil encodable_pair_def)
next
  case (3 k v e es)
  have "grouped (d @ [encode_pair (k, v)])"
    using "3.prems"(2) grouped_append_left [of "d @ [encode_pair (k, v)]" "map encode_pair (e # es)"] by simp
  then have ins: "dict_insert (url_encode k) (url_encode v) d = d @ [encode_pair (k, v)]"
    using dict_insert_last [of d "(url_encode k, url_encode v)"] by (simp add: encode_pair_def)
  have "parseURLEncoded_loop QUERY_PARSE_NAME [] [] d (make_query_string ((k, v) # e # es)) =
      parseURLEncoded_loop QUERY_PARSE_NAME [] [] (d @ [encode_pair (k, v)]) (make_query_string (e # es))"
    using run_query_pair [of k v d "CHR ''&'' # make_query_string (e # es)"] "3.prems"(1) ins by simp
  with "3.IH" [of "d @ [encode_pair (k, v)]"] "3.prems" show ?case by simp
qed

section \<open>What the key-value parsers keep\<close>

definition query_bounded :: "string \<times> string \<Rightarrow> bool" where
  "query_bounded e \<longleftrightarrow> fst e \<noteq> [] \<and> length (fst e) \<le> QUERY_NAME_MAX \<and> length (snd e) \<le> QUERY_VALUE_MAX"

lemma parseURLEncoded_loop_bounded:
  "(\<forall>e\<in>set d. query_bounded e) \<Longrightarrow> length nm \<le> QUERY_NAME_MAX \<Longrightarrow> length vl \<le> QUERY_VALUE_MAX \<Longrightarrow>
   (st = QUERY_PARSE_VALUE \<longrightarrow> nm \<noteq> []) \<Longrightarrow>
     \<forall>e\<in>set (snd (parseURLEncoded_loop st nm vl d s)). query_bounded e"
  by (induction st nm vl d s rule: parseURLEncoded_loop.induct)
    (auto simp: query_bounded_def set_dict_insert)

lemma parseURLEncoded_loop_grouped:
  "grouped d \<Longrightarrow> grouped (snd (parseURLEncoded_loop st nm vl d s))"
  by (induction st nm vl d s rule: parseURLEncoded_loop.induct) (auto simp: grouped_dict_insert)

definition cookie_bounded :: "bool \<Rightarrow> string \<times> string \<Rightarrow> bool" where
  "cookie_bounded set_cookie_header e \<longleftrightarrow> \<not> isCookieAttribute (fst e) set_cookie_header \<and>
     length (fst e) \<le> COOKIE_NAME_MAX \<and> length (snd e) \<le> COOKIE_VALUE_MAX"

definition cookie_inv :: "bool \<Rightarrow> cookie_vars \<Rightarrow> bool" where
  "cookie_inv b v \<longleftrightarrow> length (ck_name v) \<le> COOKIE_NAME_MAX \<and> length (ck_value v) \<le> COOKIE_VALUE_MAX \<and>
     (\<forall>e\<in>set (ck_dict v). cookie_bounded b e) \<and> grouped (ck_dict v)"

lemma cookie_add_bounded:
  "cookie_inv b v \<Longrightarrow> (\<forall>e\<in>set (cookie_add b v). cookie_bounded b e) \<and> grouped (cookie_add b v)"
  by (auto simp: cookie_add_def cookie_inv_def cookie_bounded_def set_dict_insert grouped_dict_insert)

lemma cookie_step_inv: "cookie_inv b v \<Longrightarrow> cookie_step b c v = Some v' \<Longrightarrow> cookie_inv b v'"
  using cookie_add_bounded [of b v]
  by (cases "ck_state v")
    (auto simp: cookie_step_def cookie_name_step_def cookie_unquoted_step_def cookie_quoted_step_def cookie_inv_def
      split: if_splits)

lemma parseCookieHeader_loop_bounded:
  "cookie_inv b v \<Longrightarrow> (\<forall>e\<in>set (snd (parseCookieHeader_loop b v s)). cookie_bounded b e) \<and>
     grouped (snd (parseCookieHeader_loop b v s))"
proof (induction s arbitrary: v)
  case Nil
  then show ?case using cookie_add_bounded by simp
next
  case (Cons c s)
  then show ?case using cookie_step_inv [of b v c]
    by (cases "cookie_step b c v") (auto simp: cookie_inv_def)
qed

section \<open>Properties of the parser\<close>

text \<open>\<open>HTTPParser::parse\<close> returns for every parser state, message and read buffer: its loop makes
  at most two passes.\<close>

theorem http_parse_returns: "\<exists>r. parse lib p msg = Some r"
  by (rule parse_returns)

text \<open>C1: \<open>parse\<close> keeps the parser in a safe state and does not fault: for a message of the parser's
  kind, no content byte is read or written outside the content buffer, no byte is used before it
  was written and no cast fails, whatever the bytes received are; a message that is accepted is
  complete and valid, and its content can be read back.\<close>

theorem http_parse_safe:
  assumes "parser_safe p msg" "\<not> parser_eof p"
  shows "\<exists>rc p' m'. parse lib p msg = Some (Inr (rc, p', m')) \<and> parser_safe p' m' \<and>
    (rc = TTrue \<longrightarrow> p_message_parse_state p' = PARSE_END \<and> m_is_valid m' \<and> (\<exists>s. content_bytes m' = Inr s))"
proof -
  from parse_safe [OF assms, of lib] obtain rc p' m' where
    "parse lib p msg = Some (Inr (rc, p', m'))" "parser_safe p' m'"
    "rc = TTrue \<longrightarrow> p_message_parse_state p' = PARSE_END \<and> m_is_valid m'" by blast
  then show ?thesis by (auto simp: parser_safe_def state_inv_def)
qed

text \<open>A library in the sense of the parameter, for the examples.\<close>

definition example_lib :: boost_lib where
  "example_lib = \<lparr>lexical_cast_string = decimal, lexical_cast_size = (\<lambda>s. None), trim = (\<lambda>s. s),
     regex_icase_chunked = (\<lambda>s. s = ''chunked'')\<rparr>"

definition example_parser :: "string \<Rightarrow> HTTPParser" where
  "example_parser s = setReadBuffer s (HTTPParser_init True 1000)"

lemma example_parser_safe: "parser_safe (example_parser s) (HTTPRequest_init [])"
  unfolding example_parser_def
  by (intro parser_safe_setReadBuffer parser_safe_init)
    (simp_all add: is_request_def HTTPRequest_init_def HTTPMessage_init_def)

lemma http_parse_safe_witness:
  "\<exists>rc p' m'. parse example_lib (example_parser ''GET / HTTP/1.1'') (HTTPRequest_init []) = Some (Inr (rc, p', m'))
     \<and> parser_safe p' m'"
  using http_parse_safe [OF example_parser_safe, of "''GET / HTTP/1.1''" example_lib]
  by (auto simp: parser_eof_def example_parser_def setReadBuffer_def)

text \<open>C34: \<open>HTTPMessage::receive\<close> does not fault, whatever arrives on the connection in whatever pieces,
  as long as the read that starts the message is not empty (an empty read is an assertion failure)
  and a pipelined connection has saved bytes.\<close>

theorem http_receive_no_fault:
  assumes "getPipelined conn \<Longrightarrow> c_saved conn \<noteq> []"
    and "\<And>rest. \<not> getPipelined conn \<Longrightarrow> c_reads conn \<noteq> Read_some [] # rest"
  shows "receive lib msg conn \<noteq> Some (Inl f)"
proof (cases "getPipelined conn")
  case True
  with assms(1) receive_from_safe show ?thesis by (simp add: receive_def Let_def)
next
  case False
  then show ?thesis using assms(2) receive_from_safe
    by (auto simp: receive_def Let_def split: list.splits read_event.splits)
qed

lemma http_receive_no_fault_witness:
  "\<forall>f. receive example_lib (HTTPRequest_init [])
     \<lparr>c_lifecycle = LIFECYCLE_CLOSE, c_saved = [], c_reads = [Read_some ''GET /'', Read_error]\<rparr> \<noteq> Some (Inl f)"
  by (intro allI http_receive_no_fault) (simp_all add: getPipelined_def)

text \<open>C38: The header parser keeps the limits of the code on everything it stores: method, resource,
  query string, status message, and every header name and value, in every state it stops in,
  accepting, rejecting or waiting for more.\<close>

theorem http_header_limits:
  assumes "parseHeaders (setReadBuffer s (HTTPParser_init is_req maxlen)) msg = (rc, p', msg')"
    and "headers_bounded (m_headers msg)"
  shows "fields_bounded p' \<and> headers_bounded (m_headers msg')"
proof -
  have "header_inv (setReadBuffer s (HTTPParser_init is_req maxlen))"
    by (simp add: header_inv_def fields_bounded_def setReadBuffer_def HTTPParser_init_def first_headers_state_def)
  from parseHeaders_loop_bounded [OF assms(1) [unfolded parseHeaders_def] this assms(2)] show ?thesis
    by (simp add: header_inv_def)
qed

lemma http_header_limits_witness:
  "case parseHeaders (setReadBuffer ''GET / HTTP/1.1'' (HTTPParser_init True 10)) (HTTPRequest_init []) of
     (rc, p', msg') \<Rightarrow> fields_bounded p' \<and> headers_bounded (m_headers msg')"
  using http_header_limits [of "''GET / HTTP/1.1''" True 10 "HTTPRequest_init []"]
  by (auto simp: headers_bounded_def HTTPRequest_init_def HTTPMessage_init_def split: prod.splits)

text \<open>C14: Header parsing does not depend on how the input is cut: if the first part of the bytes leaves the
  parser waiting, giving it the second part has the result of giving it both at once, with the
  same message and the same parser state up to the byte counters.\<close>

theorem http_headers_incremental:
  assumes "parseHeaders (setReadBuffer as p) msg = (Indeterminate, p1, m1)"
    and "parseHeaders (setReadBuffer bs p1) m1 = (rc, p2, m2)"
  shows "\<exists>q. parseHeaders (setReadBuffer (as @ bs) p) msg = (rc, q, m2) \<and>
     forget q = forget p2 \<and> p_read_buf q = p_read_buf p2"
proof -
  define q1 where "q1 = setReadBuffer as p"
  define q2 where "q2 = setReadBuffer (as @ bs) p"
  have f: "forget q1 = forget q2" "forget p1 = forget (setReadBuffer bs p1)"
    by (simp_all add: q1_def q2_def forget_def setReadBuffer_def)
  have 1: "parseHeaders_loop as 0 q1 msg = (Indeterminate, p1, m1)"
    using assms(1) by (simp add: parseHeaders_def q1_def setReadBuffer_def)
  have 2: "parseHeaders_loop bs 0 (setReadBuffer bs p1) m1 = (rc, p2, m2)"
    using assms(2) by (simp add: parseHeaders_def setReadBuffer_def)
  obtain p2' where 3: "parseHeaders_loop bs 0 p1 m1 = (rc, p2', m2)" "forget p2' = forget p2"
      "p_read_buf p2' = p_read_buf p2"
    using parseHeaders_loop_cong [OF f(2) [symmetric] 2] by auto
  from parseHeaders_loop_append [OF 1 3(1)] obtain q where
    q: "parseHeaders_loop (as @ bs) 0 q1 msg = (rc, q, m2)" "forget q = forget p2'" "p_read_buf q = p_read_buf p2'"
    by blast
  with parseHeaders_loop_cong [OF f(1) q(1)] 3 obtain r where
    "parseHeaders_loop (as @ bs) 0 q2 msg = (rc, r, m2)" "forget r = forget p2" "p_read_buf r = p_read_buf p2"
    by auto
  then show ?thesis by (auto simp: parseHeaders_def q2_def setReadBuffer_def)
qed

lemma http_headers_incremental_witness:
  "\<exists>q. parseHeaders (setReadBuffer (''GET /'' @ '' HTTP/1.1'') (HTTPParser_init True 10)) (HTTPRequest_init []) =
       (Indeterminate, q, HTTPRequest_init []) \<and> p_read_buf q = []"
proof -
  obtain p1 m1 where 1: "parseHeaders (setReadBuffer ''GET /'' (HTTPParser_init True 10)) (HTTPRequest_init []) =
      (Indeterminate, p1, m1)" "m1 = HTTPRequest_init []" "p_headers_parse_state p1 = PARSE_URI_STEM"
      "p_save_raw_headers p1 = False" "p_is_request p1"
    by (simp add: parseHeaders_def setReadBuffer_def HTTPParser_init_def first_headers_state_def header_step_def
        step_method_start_def step_method_def step_uri_stem_def token_char_def isChar_def isControl_def isSpecial_def
        char_to_int_def save_raw_def count_read_def METHOD_MAX_def RESOURCE_MAX_def)
  obtain p2 where 2: "parseHeaders (setReadBuffer '' HTTP/1.1'' p1) m1 = (Indeterminate, p2, HTTPRequest_init [])"
      "p_read_buf p2 = []"
    using 1 by (simp add: parseHeaders_def setReadBuffer_def header_step_def step_uri_stem_def step_expect_def
        step_major_start_def step_major_def step_minor_start_def isDigit_def char_to_int_def digit16_def
        save_raw_def count_read_def setVersionMajor_def setVersionMinor_def clearFirstLine_def
        HTTPRequest_init_def HTTPMessage_init_def)
  from http_headers_incremental [OF 1(1) 2(1)] 2(2) show ?thesis by auto
qed

text \<open>A request that is sent is parsed again as it was: the bytes \<open>prepareBuffersForSend\<close> produces for
  a request with a well-formed request line and headers are accepted by the header parser of a fresh
  message, with the same method, resource, query string, version and the headers that were sent, in
  the order they were sent; the parser stops exactly at the content. The hypothesis on the library
  is that \<open>lexical_cast\<close> prints a number in decimal.\<close>

theorem http_request_roundtrip:
  assumes "m_class msg = Request r" "m_first_line msg = []" "\<forall>n. lexical_cast_string lib n = decimal n"
    and "sendable_request r" "grouped (m_headers msg)"
    and "\<forall>e\<in>set (m_headers (prepareHeadersForSend lib ka ch msg)). sendable_header e"
  shows "\<exists>p' m'. parseHeaders (setReadBuffer (concat (fst (prepareBuffersForSend lib ka ch msg)) @ rest)
        (HTTPParser_init True maxlen)) (clear msg0) = (TTrue, p', m') \<and>
      p_method p' = m_method r \<and> p_resource p' = m_resource r \<and> p_query_string p' = m_query_string r \<and>
      p_read_buf p' = rest \<and> m_headers m' = m_headers (prepareHeadersForSend lib ka ch msg) \<and>
      m_version_major m' = m_version_major msg \<and> m_version_minor m' = m_version_minor msg"
  by (rule parse_sent_request [OF assms])
    (simp_all add: clear_def HTTPMessage_clear_def HTTPMessage_init_def Let_def split: message_class.splits)

lemma http_request_roundtrip_witness:
  "\<exists>p' m'. parseHeaders (setReadBuffer (concat (fst (prepareBuffersForSend example_lib False False
        (HTTPRequest_init ''/list''))) @ ''body'') (HTTPParser_init True 10)) (clear (HTTPRequest_init [])) = (TTrue, p', m') \<and>
      p_method p' = ''GET'' \<and> p_resource p' = ''/list'' \<and> p_read_buf p' = ''body''"
proof -
  define r where "r = \<lparr>m_method = REQUEST_METHOD_GET, m_resource = ''/list'', m_original_resource = [],
    m_query_string = [], m_query_params = [], m_charset = []\<rparr>"
  have 1: "m_class (HTTPRequest_init ''/list'') = Request r" "m_first_line (HTTPRequest_init ''/list'') = []"
    "grouped (m_headers (HTTPRequest_init ''/list''))"
    by (simp_all add: HTTPRequest_init_def HTTPMessage_init_def r_def)
  have 2: "sendable_request r"
    by (simp add: sendable_request_def r_def REQUEST_METHOD_GET_def token_char_def isChar_def isControl_def
        isSpecial_def char_to_int_def METHOD_MAX_def RESOURCE_MAX_def)
  have "m_headers (prepareHeadersForSend example_lib False False (HTTPRequest_init ''/list'')) =
      [(HEADER_CONNECTION, ''close''), (HEADER_CONTENT_LENGTH, ''0'')]"
    by code_simp
  then have 3: "\<forall>e\<in>set (m_headers (prepareHeadersForSend example_lib False False (HTTPRequest_init ''/list''))). sendable_header e"
    by (simp add: sendable_header_def HEADER_CONNECTION_def HEADER_CONTENT_LENGTH_def token_char_def isChar_def
        isControl_def isSpecial_def char_to_int_def HEADER_NAME_MAX_def HEADER_VALUE_MAX_def)
  show ?thesis
    using http_request_roundtrip [OF 1(1,2) _ 2 1(3) 3, of "''body''" 10 "HTTPRequest_init []"]
    by (auto simp: example_lib_def r_def REQUEST_METHOD_GET_def)
qed

text \<open>A query string that \<open>make_query_string\<close> builds is parsed back into the same pairs in the same
  order, each name and value in its encoded form: the parser does not decode. Pairs need a non-empty
  name and encoded sizes within the limits.\<close>

theorem query_string_roundtrip:
  assumes "\<forall>e\<in>set es. encodable_pair e" "grouped (map encode_pair es)"
  shows "parseURLEncoded [] (make_query_string es) = (True, map encode_pair es) \<and>
     map (\<lambda>e. (url_decode (fst e), url_decode (snd e))) (map encode_pair es) = es"
proof -
  have "map (\<lambda>e. (url_decode (fst e), url_decode (snd e))) (map encode_pair es) = es"
    by (simp add: map_idI encode_pair_def url_decode_encode comp_def)
  with parse_make_query_string [of es "[]"] assms show ?thesis by (simp add: parseURLEncoded_def)
qed

lemma query_string_roundtrip_witness:
  "fst (parseURLEncoded [] (make_query_string [(''a b'', ''1&2''), (''c'', [])]))"
proof -
  have enc: "map encode_pair [(''a b'', ''1&2''), (''c'', [])] = [(''a%20b'', ''1%262''), (''c'', [])]" by code_simp
  have "grouped [(''a%20b'', ''1%262''), (''c'', [] :: string)]" by code_simp
  moreover have "url_encode ''a b'' = ''a%20b''" "url_encode ''1&2'' = ''1%262''" "url_encode ''c'' = ''c''" by code_simp+
  ultimately show ?thesis
    using query_string_roundtrip [of "[(''a b'', ''1&2''), (''c'', [])]"]
    unfolding enc by (simp add: encodable_pair_def QUERY_NAME_MAX_def QUERY_VALUE_MAX_def)
qed

text \<open>What the key-value parsers add to a dictionary is bounded, also when they reject their input:
  query names are not empty and, like the values, within their limits; cookies are never attributes,
  and within theirs; the dictionary keeps equal keys together.\<close>

theorem key_value_limits:
  "(\<forall>e\<in>set (snd (parseURLEncoded [] s)). query_bounded e) \<and> grouped (snd (parseURLEncoded [] s)) \<and>
   (\<forall>e\<in>set (snd (parseCookieHeader [] s b)). cookie_bounded b e) \<and> grouped (snd (parseCookieHeader [] s b))"
proof -
  have "cookie_inv b \<lparr>ck_state = COOKIE_PARSE_NAME, ck_name = [], ck_value = [], ck_quote = CHR 0x00, ck_dict = []\<rparr>"
    by (simp add: cookie_inv_def)
  from parseCookieHeader_loop_bounded [OF this] parseURLEncoded_loop_bounded [of "[]" "[]" "[]" QUERY_PARSE_NAME s]
    parseURLEncoded_loop_grouped [of "[]"]
  show ?thesis by (simp add: parseURLEncoded_def parseCookieHeader_def)
qed

lemma key_value_limits_witness: "query_bounded (''a'', ''1'') \<and> cookie_bounded True (''b'', ''2'')"
proof -
  have "snd (parseURLEncoded [] ''a=1'') = [(''a'', ''1'')]"
    by (simp add: parseURLEncoded_def QUERY_NAME_MAX_def QUERY_VALUE_MAX_def isControl_def char_to_int_def dict_insert_eqs)
  moreover have "snd (parseCookieHeader [] ''b=2'' True) = [(''b'', ''2'')]"
    by (simp add: parseCookieHeader_def cookie_step_def cookie_name_step_def cookie_unquoted_step_def cookie_add_def
        COOKIE_NAME_MAX_def COOKIE_VALUE_MAX_def isControl_def char_to_int_def isCookieAttribute_def dict_insert_eqs)
  ultimately show ?thesis using key_value_limits [of "''a=1''"] key_value_limits [of "''b=2''" True] by simp
qed

text \<open>The version numbers of the request line are read modulo \<open>2^16\<close>: there is no limit on their
  digits, and \<open>HTTP/65537.1\<close> is read as \<open>HTTP/1.1\<close>.\<close>

theorem http_version_modulo:
  assumes "\<not> p_save_raw_headers p" "p_headers_parse_state p = PARSE_HTTP_VERSION_H" "p_is_request p" "m_first_line msg = []"
  shows "\<exists>k. parseHeaders_loop (''HTTP/'' @ decimal a @ ''.'' @ decimal b @ CR # rest) n p msg =
     parseHeaders_loop rest k (goto PARSE_EXPECTING_NEWLINE p)
       (msg\<lparr>m_version_major := of_nat (a mod 2 ^ 16), m_version_minor := of_nat (b mod 2 ^ 16)\<rparr>)"
proof -
  have "(of_nat (x mod 2 ^ 16) :: 16 word) = of_nat x" for x
    by (simp add: word_of_nat_eq_iff take_bit_eq_mod)
  then show ?thesis using run_version [OF assms] by simp
qed

lemma http_version_modulo_witness:
  "\<exists>k. parseHeaders_loop (''HTTP/'' @ decimal 65537 @ ''.'' @ decimal 1 @ CR # []) 0
       (goto PARSE_HTTP_VERSION_H (HTTPParser_init True 10)) (HTTPRequest_init []) =
     parseHeaders_loop [] k (goto PARSE_EXPECTING_NEWLINE (goto PARSE_HTTP_VERSION_H (HTTPParser_init True 10)))
       ((HTTPRequest_init [])\<lparr>m_version_major := 1, m_version_minor := 1\<rparr>)"
proof -
  have v: "(of_nat (65537 mod 2 ^ 16) :: 16 word) = 1" "(of_nat (1 mod 2 ^ 16) :: 16 word) = 1" by simp_all
  show ?thesis
    by (rule http_version_modulo [of _ _ 65537 1, unfolded v])
      (simp_all add: HTTPParser_init_def HTTPRequest_init_def HTTPMessage_init_def)
qed

text \<open>Setting the content of a message and reading it gives the bytes that were set; only a content length
  of \<open>2^64 - 1\<close> makes the size of the new buffer wrap, and then the terminating byte is written outside.\<close>

theorem content_roundtrip:
  "(length val < 2 ^ 64 - 1 \<longrightarrow> (\<exists>m. setContent val msg = Inr m \<and> content_bytes m = Inr val)) \<and>
   (createContentBuffer msg = Inl Out_of_bounds \<longleftrightarrow> m_content_length msg = - 1)"
proof
  show "length val < 2 ^ 64 - 1 \<longrightarrow> (\<exists>m. setContent val msg = Inr m \<and> content_bytes m = Inr val)"
  proof
    assume len: "length val < 2 ^ 64 - 1"
    note n = of_nat_not_max [OF len]
    define m where "m = msg\<lparr>m_content_length := of_nat (length val), m_content_buf := Some (map Some val @ [Some (CHR 0x00)])\<rparr>"
    have "setContent val msg = Inr m"
      using n by (simp add: setContent_def createContentBuffer_ok fill_content_def write_at_0_full m_def)
    moreover have "content_bytes m = Inr val" by (rule content_bytes_full) (use n in \<open>simp_all add: m_def\<close>)
    ultimately show "\<exists>m. setContent val msg = Inr m \<and> content_bytes m = Inr val" by blast
  qed
next
  show "createContentBuffer msg = Inl Out_of_bounds \<longleftrightarrow> m_content_length msg = - 1"
  proof (cases "m_content_length msg = - 1")
    case False
    then show ?thesis by (simp add: createContentBuffer_ok)
  qed (simp add: createContentBuffer_def)
qed

lemma content_roundtrip_witness:
  "\<exists>m. setContent ''abc'' (HTTPRequest_init []) = Inr m \<and> content_bytes m = Inr ''abc''"
  using content_roundtrip [of "''abc''" "HTTPRequest_init []"] by simp

text \<open>\<open>finish\<close> called while content of known length is arriving sets the content length to the number of
  bytes received, also when more arrived than the buffer was made for: more than one byte past the
  maximum, a reader that trusts the content length reads outside the buffer.\<close>

theorem http_finish_overread:
  assumes "parser_safe p msg" "p_message_parse_state p = PARSE_CONTENT"
    and "p_bytes_content_read p < 2 ^ 64" "p_bytes_content_read p > Suc (p_max_content_length p)"
  shows "\<exists>m. finish_content p msg = Inr m \<and> content m = Inl Out_of_bounds"
proof -
  from assms(1,2) obtain buf where buf: "m_content_buf msg = Some buf" "length buf = Suc (unat (m_content_length msg))"
    "unat (m_content_length msg) \<le> p_max_content_length p"
    by (auto simp: parser_safe_def state_inv_def content_inv_def)
  have "unat (of_nat (p_bytes_content_read p) :: 64 word) = p_bytes_content_read p"
    using assms(3) by (simp add: unat_of_nat)
  with buf assms(2,4) show ?thesis
    by (simp add: finish_content_def content_def read_buffer_def)
qed

lemma http_finish_overread_witness:
  "\<exists>m. finish_content ((HTTPParser_init True 1)\<lparr>p_message_parse_state := PARSE_CONTENT, p_bytes_content_read := 3,
        p_bytes_content_remaining := 2\<rparr>)
      ((HTTPRequest_init [])\<lparr>m_content_length := 1, m_content_buf := Some [Some (CHR ''a''), Some (CHR 0x00)]\<rparr>) = Inr m
     \<and> content m = Inl Out_of_bounds"
proof (rule http_finish_overread)
  show "parser_safe ((HTTPParser_init True 1)\<lparr>p_message_parse_state := PARSE_CONTENT, p_bytes_content_read := 3,
        p_bytes_content_remaining := 2\<rparr>)
      ((HTTPRequest_init [])\<lparr>m_content_length := 1, m_content_buf := Some [Some (CHR ''a''), Some (CHR 0x00)]\<rparr>)"
    by (simp add: parser_safe_def state_inv_def content_inv_def HTTPParser_init_def HTTPRequest_init_def
        HTTPMessage_init_def is_request_def) (rule exI [of _ "''a''"], simp)
qed (simp_all add: HTTPParser_init_def)

text \<open>\<open>receive\<close> on a response does not depend on the request method the response was made for: \<open>clear\<close>
  drops it before anything is parsed, so the rule that the answer to a \<open>HEAD\<close> request has no content
  is never applied while receiving.\<close>

theorem http_receive_forgets_request:
  assumes "m_class msg = Response r"
  shows "receive lib (msg\<lparr>m_class := Response (r\<lparr>m_request_method := meth\<rparr>)\<rparr>) conn = receive lib msg conn"
  using assms by (simp add: receive_def clear_def HTTPMessage_clear_def Let_def HTTPMessage_init_def)

lemma http_receive_forgets_request_witness:
  "receive example_lib (HTTPResponse_init REQUEST_METHOD_HEAD) \<lparr>c_lifecycle = LIFECYCLE_CLOSE, c_saved = [], c_reads = [Read_error]\<rparr> =
     receive example_lib (HTTPResponse_init REQUEST_METHOD_GET) \<lparr>c_lifecycle = LIFECYCLE_CLOSE, c_saved = [], c_reads = [Read_error]\<rparr>"
  using http_receive_forgets_request [of "HTTPResponse_init REQUEST_METHOD_GET"
      "\<lparr>m_status_code = RESPONSE_CODE_OK, m_status_message = RESPONSE_MESSAGE_OK, m_request_method = REQUEST_METHOD_GET\<rparr>"
      example_lib REQUEST_METHOD_HEAD "\<lparr>c_lifecycle = LIFECYCLE_CLOSE, c_saved = [], c_reads = [Read_error]\<rparr>"]
  by (simp add: HTTPResponse_init_def HTTPMessage_init_def)

end
