(* ===== verification/Http_Writer.thy ===== *)
theory Http_Writer
  imports Http_Receive
begin

text \<open>
  Writing a response: \<open>HTTPWriter.hpp\<close>, \<open>HTTPWriter.cpp\<close> and \<open>HTTPResponseWriter.hpp\<close>, on the part of
  \<open>TCPConnection.hpp\<close> a server sees. A connection keeps the sequence of the asynchronous operations
  that were started on it and of the calls of \<open>finish\<close>; their completion is an event of its own.
  Content buffers hold the bytes they refer to, so the text and binary caches, which only keep those
  bytes alive, have no counterpart.
\<close>

section \<open>Connections\<close>

datatype conn_event = Async_read | Async_write string | Finish_called

record TCPConnection =
  tc_lifecycle :: LifecycleType
  tc_open :: bool
  tc_saved :: string
  tc_events :: "conn_event list"

definition TCPConnection_init :: TCPConnection where
  "TCPConnection_init = \<lparr>tc_lifecycle = LIFECYCLE_CLOSE, tc_open = True, tc_saved = [], tc_events = []\<rparr>"

definition setLifecycle :: "LifecycleType \<Rightarrow> TCPConnection \<Rightarrow> TCPConnection" where
  "setLifecycle t conn = conn\<lparr>tc_lifecycle := t\<rparr>"

definition getKeepAlive :: "TCPConnection \<Rightarrow> bool" where
  "getKeepAlive conn = (tc_lifecycle conn \<noteq> LIFECYCLE_CLOSE)"

definition saveReadPosition :: "string \<Rightarrow> TCPConnection \<Rightarrow> TCPConnection" where
  "saveReadPosition s conn = conn\<lparr>tc_saved := s\<rparr>"

definition close :: "TCPConnection \<Rightarrow> TCPConnection" where
  "close conn = conn\<lparr>tc_open := False\<rparr>"

definition async_read_some :: "TCPConnection \<Rightarrow> TCPConnection" where
  "async_read_some conn = conn\<lparr>tc_events := tc_events conn @ [Async_read]\<rparr>"

definition async_write :: "string \<Rightarrow> TCPConnection \<Rightarrow> TCPConnection" where
  "async_write s conn = conn\<lparr>tc_events := tc_events conn @ [Async_write s]\<rparr>"

definition conn_finish :: "TCPConnection \<Rightarrow> TCPConnection" where
  "conn_finish conn = conn\<lparr>tc_events := tc_events conn @ [Finish_called]\<rparr>"

section \<open>The writer\<close>

record HTTPWriter =
  w_content_buffers :: "string list"
  w_content_stream :: string
  w_content_length :: nat
  w_stream_is_empty :: bool
  w_client_supports_chunks :: bool
  w_sending_chunks :: bool
  w_sent_headers :: bool
  w_http_response :: HTTPMessage

datatype writer_error = LostConnectionException | Writer_fault fault

definition HTTPWriter_init :: "HTTPMessage \<Rightarrow> HTTPWriter" where
  "HTTPWriter_init resp =
     \<lparr>w_content_buffers = [], w_content_stream = [], w_content_length = 0, w_stream_is_empty = True,
      w_client_supports_chunks = True, w_sending_chunks = False, w_sent_headers = False,
      w_http_response = resp\<rparr>"

definition writer_clear :: "HTTPWriter \<Rightarrow> HTTPWriter" where
  "writer_clear w =
     w\<lparr>w_content_buffers := [], w_content_stream := [], w_stream_is_empty := True, w_content_length := 0\<rparr>"

definition writer_write :: "string \<Rightarrow> HTTPWriter \<Rightarrow> HTTPWriter" where
  "writer_write data w = w\<lparr>w_content_stream := w_content_stream w @ data, w_stream_is_empty := False\<rparr>"

definition flushContentStream :: "HTTPWriter \<Rightarrow> HTTPWriter" where
  "flushContentStream w =
     (if \<not> w_stream_is_empty w then
        (if w_content_stream w \<noteq> [] then
           w\<lparr>w_content_stream := [], w_content_length := w_content_length w + length (w_content_stream w),
             w_content_buffers := w_content_buffers w @ [w_content_stream w], w_stream_is_empty := True\<rparr>
         else w\<lparr>w_stream_is_empty := True\<rparr>)
      else w)"

text \<open>\<open>writeNoCopy\<close> on a string or on raw memory, and \<open>write\<close> of binary data, which copies it first.\<close>

definition writeNoCopy :: "string \<Rightarrow> HTTPWriter \<Rightarrow> HTTPWriter" where
  "writeNoCopy data w =
     (if data \<noteq> [] then
        let w' = flushContentStream w
        in w'\<lparr>w_content_buffers := w_content_buffers w' @ [data],
              w_content_length := w_content_length w' + length data\<rparr>
      else w)"

text \<open>The lower-case hexadecimal representation, as \<open>sprintf\<close> with \<open>%lx\<close> prints it.\<close>

definition hex_lower :: "nat \<Rightarrow> char" where
  "hex_lower d = char_of (if d < 10 then 48 + d else 87 + d)"

fun hex_string :: "nat \<Rightarrow> string" where
  "hex_string n = (if n < 16 then [hex_lower n] else hex_string (n div 16) @ [hex_lower (n mod 16)])"

declare hex_string.simps [simp del]

text \<open>The virtual \<open>prepareBuffersForSend\<close> of the response writer.\<close>

definition writer_prepareBuffersForSend ::
  "boost_lib \<Rightarrow> TCPConnection \<Rightarrow> HTTPWriter \<Rightarrow> string list \<times> HTTPWriter" where
  "writer_prepareBuffersForSend lib conn w =
     (let resp = (if w_content_length w > 0
                  then (w_http_response w)\<lparr>m_content_length := of_nat (w_content_length w)\<rparr>
                  else w_http_response w);
          (bufs, resp') = prepareBuffersForSend lib (getKeepAlive conn) (w_sending_chunks w) resp
      in (bufs, w\<lparr>w_http_response := resp'\<rparr>))"

definition prepareWriteBuffers ::
  "boost_lib \<Rightarrow> TCPConnection \<Rightarrow> bool \<Rightarrow> HTTPWriter \<Rightarrow> string list \<times> HTTPWriter" where
  "prepareWriteBuffers lib conn send_final_chunk w =
     (let (hdrs, w1) = (if \<not> w_sent_headers w
                        then let (bufs, w') = writer_prepareBuffersForSend lib conn w
                             in (bufs, w'\<lparr>w_sent_headers := True\<rparr>)
                        else ([], w));
          chunked = (w_client_supports_chunks w1 \<and> w_sending_chunks w1);
          body = (if w_content_length w1 > 0 then
                    (if chunked then [hex_string (w_content_length w1), STRING_CRLF] @ w_content_buffers w1 @ [STRING_CRLF]
                     else w_content_buffers w1)
                  else []);
          final = (if send_final_chunk \<and> chunked then [''0'', STRING_CRLF, STRING_CRLF] else [])
      in (hdrs @ body @ final, w1))"

definition sendMoreData ::
  "boost_lib \<Rightarrow> bool \<Rightarrow> TCPConnection \<Rightarrow> HTTPWriter \<Rightarrow> writer_error + (TCPConnection \<times> HTTPWriter)" where
  "sendMoreData lib send_final_chunk conn w =
     (if \<not> tc_open conn then Inl LostConnectionException
      else
        let (bufs, w') = prepareWriteBuffers lib conn send_final_chunk (flushContentStream w)
        in Inr (async_write (concat bufs) conn, w'))"

definition writer_send :: "boost_lib \<Rightarrow> TCPConnection \<Rightarrow> HTTPWriter \<Rightarrow> writer_error + (TCPConnection \<times> HTTPWriter)" where
  "writer_send lib conn w = sendMoreData lib False conn w"

definition sendChunk :: "boost_lib \<Rightarrow> TCPConnection \<Rightarrow> HTTPWriter \<Rightarrow> writer_error + (TCPConnection \<times> HTTPWriter)" where
  "sendChunk lib conn w =
     (let w' = w\<lparr>w_sending_chunks := True\<rparr>;
          conn' = (if \<not> w_client_supports_chunks w' then setLifecycle LIFECYCLE_CLOSE conn else conn)
      in sendMoreData lib False conn' w')"

definition sendFinalChunk :: "boost_lib \<Rightarrow> TCPConnection \<Rightarrow> HTTPWriter \<Rightarrow> writer_error + (TCPConnection \<times> HTTPWriter)" where
  "sendFinalChunk lib conn w = sendMoreData lib True conn (w\<lparr>w_sending_chunks := True\<rparr>)"

section \<open>Response writers\<close>

text \<open>The two constructors: for a given response, whose content is taken over when its first byte
  is not zero, and for a request.\<close>

definition HTTPResponseWriter_response :: "HTTPMessage \<Rightarrow> fault + HTTPWriter" where
  "HTTPResponseWriter_response resp =
     (let w = (HTTPWriter_init resp)\<lparr>w_client_supports_chunks := m_chunks_supported resp\<rparr>
      in if m_content_length resp > 0 \<and> m_content_buf resp \<noteq> None
         then bindE (content_bytes resp) (\<lambda>s.
                Inr (if s \<noteq> [] \<and> hd s \<noteq> CHR 0x00 then writeNoCopy s w else w))
         else Inr w)"

definition HTTPResponseWriter_create :: "HTTPMessage \<Rightarrow> fault + HTTPWriter" where
  "HTTPResponseWriter_create http_request =
     bindE (HTTPResponse_for http_request) (\<lambda>resp.
       Inr ((HTTPWriter_init resp)\<lparr>w_client_supports_chunks := m_chunks_supported resp\<rparr>))"

text \<open>The handler of a completed write; the finished handler of the servers is
  \<open>TCPConnection::finish\<close>.\<close>

definition handleWrite :: "bool \<Rightarrow> TCPConnection \<Rightarrow> TCPConnection" where
  "handleWrite write_error conn =
     conn_finish (if write_error then setLifecycle LIFECYCLE_CLOSE conn else conn)"

section \<open>Chunks are read back\<close>

lemma code_hex_lower: "d < 16 \<Longrightarrow> code (hex_lower d) = (if d < 10 then 48 + d else 87 + d)"
  by (simp add: hex_lower_def of_char_of)

lemma hex_lower_digit: "d < 16 \<Longrightarrow> isHexDigit (hex_lower d)" "d < 16 \<Longrightarrow> hex_digit (hex_lower d) = Some (int d)"
  by (auto simp: isHexDigit_def char_to_int_def code_hex_lower hex_digit_def)

lemma hex_string_digits: "\<forall>c\<in>set (hex_string n). isHexDigit c"
  by (induction n rule: hex_string.induct) (subst hex_string.simps, auto simp: hex_lower_digit)

lemma hex_string_not_Nil: "hex_string n \<noteq> []"
  by (subst hex_string.simps) simp

lemma hex_value_append:
  "\<forall>c\<in>set s. \<exists>d. hex_digit c = Some d \<Longrightarrow> hex_value v (s @ t) = hex_value (hex_value v s) t"
  by (induction s arbitrary: v) auto

lemma hex_string_Some: "\<forall>c\<in>set (hex_string n). \<exists>d. hex_digit c = Some d"
  by (induction n rule: hex_string.induct) (subst hex_string.simps, auto simp: hex_lower_digit)

lemma hex_value_hex_string: "hex_value 0 (hex_string n) = int n"
proof (induction n rule: hex_string.induct)
  case (1 n)
  show ?case
  proof (cases "n < 16")
    case True
    then show ?thesis by (simp add: hex_string.simps [of n] hex_lower_digit)
  next
    case False
    have "hex_value 0 (hex_string n) = hex_value (int (n div 16)) [hex_lower (n mod 16)]"
      using False 1 hex_value_append [OF hex_string_Some] by (simp add: hex_string.simps [of n])
    also have "\<dots> = 16 * int (n div 16) + int (n mod 16)" by (simp add: hex_lower_digit)
    also have "\<dots> = int n" by (metis mult_div_mod_eq of_nat_add of_nat_mult of_nat_numeral)
    finally show ?thesis .
  qed
qed

lemma chunk_size_hex_string: "n < 2 ^ 63 \<Longrightarrow> chunk_size_of (hex_string n) = n"
  by (simp add: chunk_size_of_def hex_value_hex_string)

text \<open>The steps of the chunk parser on what the writer produces.\<close>

lemma run_chunk_size:
  "\<forall>c\<in>set ds. isHexDigit c \<Longrightarrow> p_chunked_content_parse_state p = PARSE_CHUNK_SIZE \<Longrightarrow>
     parseChunks_loop (ds @ rest) n p cache =
       parseChunks_loop rest (n + length ds) (p\<lparr>p_chunk_size_str := p_chunk_size_str p @ ds\<rparr>) cache"
  by (induction ds arbitrary: n p) (simp_all add: chunk_step_def step_chunk_size_def)

lemma cache_append_step:
  "cache_append maxlen (c # cs) cache =
     cache_append maxlen cs (if length cache < maxlen then cache @ [c] else cache)"
proof (cases "length cache < maxlen")
  case True
  then obtain d where "maxlen - length cache = Suc d" by (metis Suc_diff_Suc)
  then have "maxlen - Suc (length cache) = d" by simp
  with \<open>maxlen - length cache = Suc d\<close> show ?thesis using True by (simp add: cache_append_def)
qed (simp add: cache_append_def)

lemma run_chunk_data:
  "cs \<noteq> [] \<Longrightarrow> p_chunked_content_parse_state p = PARSE_CHUNK \<Longrightarrow>
   p_bytes_read_in_current_chunk p + length cs = p_size_of_current_chunk p \<Longrightarrow>
     parseChunks_loop (cs @ rest) n p cache =
       parseChunks_loop rest (n + length cs)
         (goto_chunk PARSE_EXPECTING_CR_AFTER_CHUNK
           (p\<lparr>p_bytes_read_in_current_chunk := p_size_of_current_chunk p\<rparr>))
         (cache_append (p_max_content_length p) cs cache)"
proof (induction cs arbitrary: n p cache)
  case (Cons c cs)
  define cache' where "cache' = (if length cache < p_max_content_length p then cache @ [c] else cache)"
  define p' where "p' = p\<lparr>p_bytes_read_in_current_chunk := p_bytes_read_in_current_chunk p + 1\<rparr>"
  have less: "p_bytes_read_in_current_chunk p < p_size_of_current_chunk p" using Cons.prems(3) by simp
  show ?case
  proof (cases "cs = []")
    case True
    with Cons.prems(3) have last: "p_bytes_read_in_current_chunk p + 1 = p_size_of_current_chunk p" by simp
    have "chunk_step c p cache = ChunkContinue (goto_chunk PARSE_EXPECTING_CR_AFTER_CHUNK p') cache'"
      using Cons.prems(2) less last by (simp add: chunk_step_def step_chunk_data_def cache'_def p'_def)
    then show ?thesis using True last [symmetric]
      by (simp add: cache_append_step cache'_def p'_def) (simp add: cache_append_def)
  next
    case False
    with Cons.prems(3) have "p_bytes_read_in_current_chunk p + 1 \<noteq> p_size_of_current_chunk p" by (cases cs) auto
    then have "chunk_step c p cache = ChunkContinue p' cache'"
      using Cons.prems(2) less by (simp add: chunk_step_def step_chunk_data_def cache'_def p'_def)
    then show ?thesis using Cons.IH [of p' "Suc n" cache'] Cons.prems False
      by (simp add: cache_append_step cache'_def p'_def)
  qed
qed simp

definition chunk_text :: "string \<Rightarrow> string" where
  "chunk_text c = hex_string (length c) @ STRING_CRLF @ c @ STRING_CRLF"

lemma CR_not_hex: "\<not> isHexDigit CR"
  by (simp add: isHexDigit_def char_to_int_def)

lemma run_chunk_text:
  assumes "c \<noteq> []" "length c < 2 ^ 63" "p_chunked_content_parse_state p = PARSE_CHUNK_SIZE_START"
  shows "\<exists>k s. parseChunks_loop (chunk_text c @ rest) n p cache =
     parseChunks_loop rest k (p\<lparr>p_chunk_size_str := s, p_size_of_current_chunk := length c,
       p_bytes_read_in_current_chunk := length c\<rparr>) (cache_append (p_max_content_length p) c cache)"
proof -
  obtain h hs where hex: "hex_string (length c) = h # hs" using hex_string_not_Nil by (cases "hex_string (length c)") auto
  have dig: "isHexDigit h" "\<forall>x\<in>set hs. isHexDigit x" using hex_string_digits [of "length c"] hex by auto
  define p1 where "p1 = goto_chunk PARSE_CHUNK_SIZE (p\<lparr>p_chunk_size_str := [h]\<rparr>)"
  define p2 where "p2 = p\<lparr>p_chunk_size_str := h # hs\<rparr>"
  define p3 where "p3 = goto_chunk PARSE_CHUNK
    (p2\<lparr>p_bytes_read_in_current_chunk := 0, p_size_of_current_chunk := length c\<rparr>)"
  define r1 where "r1 = STRING_CRLF @ c @ STRING_CRLF @ rest"
  have 1: "parseChunks_loop (chunk_text c @ rest) n p cache = parseChunks_loop (hs @ r1) (Suc n) p1 cache"
    using assms(3) dig(1) by (simp add: chunk_text_def hex r1_def p1_def chunk_step_def step_chunk_size_start_def)
  have 2: "parseChunks_loop (hs @ r1) (Suc n) p1 cache =
      parseChunks_loop r1 (Suc n + length hs) (goto_chunk PARSE_CHUNK_SIZE p2) cache"
    using run_chunk_size [OF dig(2), of p1 r1 "Suc n" cache] by (cases p) (simp add: p1_def p2_def)
  have size: "chunk_size_of (p_chunk_size_str p2) = length c"
    using chunk_size_hex_string [OF assms(2)] hex by (simp add: p2_def)
  have 3: "parseChunks_loop r1 k (goto_chunk PARSE_CHUNK_SIZE p2) cache =
      parseChunks_loop (c @ STRING_CRLF @ rest) (k + 2) p3 cache" for k
    using assms(1) CR_not_hex size
    by (simp add: r1_def p3_def STRING_CRLF_def chunk_step_def step_chunk_size_def step_chunk_size_end_def Let_def)
  have 4: "parseChunks_loop (c @ STRING_CRLF @ rest) k p3 cache =
      parseChunks_loop (STRING_CRLF @ rest) (k + length c)
        (goto_chunk PARSE_EXPECTING_CR_AFTER_CHUNK (p3\<lparr>p_bytes_read_in_current_chunk := length c\<rparr>))
        (cache_append (p_max_content_length p) c cache)" for k
    using run_chunk_data [OF assms(1), of p3 "STRING_CRLF @ rest" k cache] by (simp add: p3_def p2_def)
  have "goto_chunk PARSE_CHUNK_SIZE_START (p3\<lparr>p_bytes_read_in_current_chunk := length c\<rparr>) =
      p\<lparr>p_chunk_size_str := h # hs, p_size_of_current_chunk := length c, p_bytes_read_in_current_chunk := length c\<rparr>"
    using assms(3) by (cases p) (simp add: p3_def p2_def)
  then have 5: "parseChunks_loop (STRING_CRLF @ rest) k
      (goto_chunk PARSE_EXPECTING_CR_AFTER_CHUNK (p3\<lparr>p_bytes_read_in_current_chunk := length c\<rparr>)) ca =
      parseChunks_loop rest (k + 2) (p\<lparr>p_chunk_size_str := h # hs, p_size_of_current_chunk := length c,
       p_bytes_read_in_current_chunk := length c\<rparr>) ca" for k ca
    by (simp add: STRING_CRLF_def chunk_step_def step_chunk_expect_def)
  show ?thesis using 1 2 3 4 5 by (intro exI) simp
qed

definition final_chunk :: string where
  "final_chunk = ''0'' @ STRING_CRLF @ STRING_CRLF"

lemma run_final_chunk:
  assumes "p_chunked_content_parse_state p = PARSE_CHUNK_SIZE_START"
  shows "\<exists>p'. parseChunks_loop (final_chunk @ rest) n p cache = (TTrue, p', cache) \<and> p_read_buf p' = rest"
proof -
  have "isHexDigit (CHR ''0'')" "chunk_size_of ''0'' = 0"
    by (simp_all add: isHexDigit_def char_to_int_def chunk_size_of_def hex_digit_def)
  with assms CR_not_hex show ?thesis
    by (simp add: final_chunk_def STRING_CRLF_def chunk_step_def step_chunk_size_start_def step_chunk_size_def
        step_chunk_size_end_def step_chunk_expect_def Let_def)
qed

lemma cache_append_append: "cache_append maxlen (a @ b) cache = cache_append maxlen b (cache_append maxlen a cache)"
  by (induction a arbitrary: cache) (simp_all add: cache_append_step, simp add: cache_append_def)

lemma run_chunks:
  "\<forall>c\<in>set cs. c \<noteq> [] \<and> length c < 2 ^ 63 \<Longrightarrow> p_chunked_content_parse_state p = PARSE_CHUNK_SIZE_START \<Longrightarrow>
     \<exists>p'. parseChunks_loop (concat (map chunk_text cs) @ final_chunk @ rest) n p cache =
         (TTrue, p', cache_append (p_max_content_length p) (concat cs) cache) \<and> p_read_buf p' = rest"
proof (induction cs arbitrary: n p cache)
  case Nil
  then show ?case using run_final_chunk by (simp add: cache_append_def)
next
  case (Cons c cs)
  from run_chunk_text [of c p "concat (map chunk_text cs) @ final_chunk @ rest" n cache] Cons.prems
  obtain k s where step: "parseChunks_loop (chunk_text c @ concat (map chunk_text cs) @ final_chunk @ rest) n p cache =
      parseChunks_loop (concat (map chunk_text cs) @ final_chunk @ rest) k
       (p\<lparr>p_chunk_size_str := s, p_size_of_current_chunk := length c, p_bytes_read_in_current_chunk := length c\<rparr>)
       (cache_append (p_max_content_length p) c cache)" by auto
  with Cons.IH [of "p\<lparr>p_chunk_size_str := s, p_size_of_current_chunk := length c,
      p_bytes_read_in_current_chunk := length c\<rparr>" k "cache_append (p_max_content_length p) c cache"] Cons.prems
  show ?case by (simp add: cache_append_append)
qed

section \<open>What a writer holds\<close>

text \<open>The abstract state of a writer is the content that was written to it; the buffers, the stream
  and the length it keeps represent that content.\<close>

definition writer_content :: "HTTPWriter \<Rightarrow> string" where
  "writer_content w = concat (w_content_buffers w) @ w_content_stream w"

definition writer_ok :: "HTTPWriter \<Rightarrow> bool" where
  "writer_ok w \<longleftrightarrow> w_content_length w = length (concat (w_content_buffers w)) \<and>
     (w_stream_is_empty w \<longrightarrow> w_content_stream w = [])"

locale content_sink =
  fixes put :: "string \<Rightarrow> 's \<Rightarrow> 's"
    and abs :: "'s \<Rightarrow> string"
    and inv :: "'s \<Rightarrow> bool"
  assumes inv_put: "inv s \<Longrightarrow> inv (put x s)"
    and abs_put: "inv s \<Longrightarrow> abs (put x s) = abs s @ x"
begin

lemma puts: "inv s \<Longrightarrow> inv (fold put xs s) \<and> abs (fold put xs s) = abs s @ concat xs"
  by (induction xs arbitrary: s) (simp_all add: inv_put abs_put)

end

lemma flushContentStream_ok:
  "writer_ok w \<Longrightarrow> writer_ok (flushContentStream w)"
  "writer_ok w \<Longrightarrow> writer_content (flushContentStream w) = writer_content w"
  "writer_ok w \<Longrightarrow> w_content_stream (flushContentStream w) = []"
  by (simp_all add: writer_ok_def writer_content_def flushContentStream_def)

interpretation text_sink: content_sink writer_write writer_content writer_ok
  by unfold_locales (simp_all add: writer_ok_def writer_content_def writer_write_def)

interpretation buffer_sink: content_sink writeNoCopy writer_content writer_ok
proof
  fix x w assume ok: "writer_ok w"
  note flush = flushContentStream_ok [OF ok]
  show "writer_ok (writeNoCopy x w)" using ok flush by (simp add: writeNoCopy_def Let_def writer_ok_def)
  show "writer_content (writeNoCopy x w) = writer_content w @ x"
    using flush(2,3) by (simp add: writeNoCopy_def Let_def writer_content_def)
qed

lemma writer_ok_init: "writer_ok (HTTPWriter_init resp)" "writer_content (HTTPWriter_init resp) = []"
  "writer_ok (writer_clear w)" "writer_content (writer_clear w) = []"
  by (simp_all add: writer_ok_def writer_content_def HTTPWriter_init_def writer_clear_def)

lemma flush_frame [simp]:
  "w_http_response (flushContentStream w) = w_http_response w"
  "w_sent_headers (flushContentStream w) = w_sent_headers w"
  "w_sending_chunks (flushContentStream w) = w_sending_chunks w"
  "w_client_supports_chunks (flushContentStream w) = w_client_supports_chunks w"
  by (simp_all add: flushContentStream_def)

lemma flush_buffers:
  assumes "writer_ok w"
  shows "concat (w_content_buffers (flushContentStream w)) = writer_content w"
    "w_content_length (flushContentStream w) = length (writer_content w)"
  using flushContentStream_ok [OF assms] by (simp_all add: writer_content_def writer_ok_def)

section \<open>What is sent\<close>

fun written :: "conn_event list \<Rightarrow> string" where
  "written [] = []"
| "written (Async_write s # es) = s @ written es"
| "written (_ # es) = written es"

lemma written_append [simp]: "written (es @ fs) = written es @ written fs"
  by (induction es rule: written.induct) simp_all

definition response_headers :: "boost_lib \<Rightarrow> bool \<Rightarrow> bool \<Rightarrow> HTTPMessage \<Rightarrow> string" where
  "response_headers lib keep_alive chunks resp = concat (fst (prepareBuffersForSend lib keep_alive chunks resp))"

definition with_length :: "nat \<Rightarrow> HTTPMessage \<Rightarrow> HTTPMessage" where
  "with_length n resp = (if n > 0 then resp\<lparr>m_content_length := of_nat n\<rparr> else resp)"

lemma writer_send_eq:
  assumes "tc_open conn" "writer_ok w" "\<not> w_sent_headers w" "\<not> w_sending_chunks w"
  shows "\<exists>w'. writer_send lib conn w =
     Inr (async_write (response_headers lib (getKeepAlive conn) False
            (with_length (length (writer_content w)) (w_http_response w)) @ writer_content w) conn, w') \<and>
     w_http_response w' = snd (prepareBuffersForSend lib (getKeepAlive conn) False
            (with_length (length (writer_content w)) (w_http_response w)))"
  using assms flush_buffers [OF assms(2)]
  by (auto simp: writer_send_def sendMoreData_def prepareWriteBuffers_def writer_prepareBuffersForSend_def
      response_headers_def with_length_def Let_def split: prod.splits)

text \<open>Sending content chunk by chunk, the way the class asks its users to: write, send the chunk, clear,
  and end with the final chunk.\<close>

fun send_chunks :: "boost_lib \<Rightarrow> string list \<Rightarrow> TCPConnection \<Rightarrow> HTTPWriter \<Rightarrow> writer_error + (TCPConnection \<times> HTTPWriter)" where
  "send_chunks lib [] conn w = sendFinalChunk lib conn w"
| "send_chunks lib (c # cs) conn w =
     bindE (sendChunk lib conn (writer_write c w)) (\<lambda>(conn', w'). send_chunks lib cs conn' (writer_clear w'))"

lemma response_headers_chunked:
  "response_headers lib ka True (resp\<lparr>m_content_length := n\<rparr>) = response_headers lib ka True resp"
  by (cases "m_class resp")
    (simp_all add: response_headers_def prepareBuffersForSend_def prepareHeadersForSend_def changeHeader_def
      getFirstLine_def updateFirstLine_def appendHeaders_def getVersionString_def Let_def)

definition headers_due :: "boost_lib \<Rightarrow> TCPConnection \<Rightarrow> HTTPWriter \<Rightarrow> string" where
  "headers_due lib conn w =
     (if w_sent_headers w then [] else response_headers lib (getKeepAlive conn) True (w_http_response w))"

lemma sendMoreData_chunked:
  assumes "tc_open conn" "writer_ok w" "w_client_supports_chunks w" "w_sending_chunks w"
  shows "\<exists>w'. sendMoreData lib final conn w = Inr (async_write (headers_due lib conn w
        @ (if writer_content w \<noteq> [] then chunk_text (writer_content w) else [])
        @ (if final then final_chunk else [])) conn, w') \<and>
     w_sent_headers w' \<and> w_client_supports_chunks w'"
proof -
  define w1 where "w1 = flushContentStream w"
  have f: "w_client_supports_chunks w1" "w_sending_chunks w1" "w_sent_headers w1 = w_sent_headers w"
    "w_http_response w1 = w_http_response w" "concat (w_content_buffers w1) = writer_content w"
    "w_content_length w1 = length (writer_content w)"
    using assms flush_buffers [OF assms(2)] by (simp_all add: w1_def)
  obtain bufs w2 where pw: "prepareWriteBuffers lib conn final w1 = (bufs, w2)" by fastforce
  have "concat bufs = headers_due lib conn w
      @ (if writer_content w \<noteq> [] then chunk_text (writer_content w) else []) @ (if final then final_chunk else [])
      \<and> w_sent_headers w2 \<and> w_client_supports_chunks w2"
    using pw f
    by (auto simp: prepareWriteBuffers_def writer_prepareBuffersForSend_def headers_due_def Let_def chunk_text_def
        final_chunk_def response_headers_chunked response_headers_def [symmetric]
        split: prod.splits if_splits
        dest!: arg_cong [where f = "\<lambda>x. concat (fst x)"] arg_cong [where f = fst])
  then show ?thesis using pw assms(1) by (simp add: sendMoreData_def w1_def [symmetric])
qed

lemma getKeepAlive_async_write [simp]: "getKeepAlive (async_write s conn) = getKeepAlive conn"
  "tc_open (async_write s conn) = tc_open conn" "tc_events (async_write s conn) = tc_events conn @ [Async_write s]"
  by (simp_all add: getKeepAlive_def async_write_def)

lemma send_chunks_written:
  assumes "tc_open conn" "w_client_supports_chunks w" "writer_ok w" "writer_content w = []" "\<forall>c\<in>set cs. c \<noteq> []"
  shows "\<exists>conn' w'. send_chunks lib cs conn w = Inr (conn', w') \<and>
     written (tc_events conn') = written (tc_events conn) @ headers_due lib conn w
       @ concat (map chunk_text cs) @ final_chunk"
  using assms
proof (induction cs arbitrary: conn w)
  case Nil
  define w1 where "w1 = w\<lparr>w_sending_chunks := True\<rparr>"
  have "writer_ok w1" "w_client_supports_chunks w1" "w_sending_chunks w1" "writer_content w1 = []"
    "headers_due lib conn w1 = headers_due lib conn w"
    using Nil.prems by (simp_all add: w1_def writer_ok_def writer_content_def headers_due_def)
  with sendMoreData_chunked [of conn w1 lib True] Nil.prems(1) show ?case
    by (auto simp: sendFinalChunk_def w1_def)
next
  case (Cons c cs)
  define w1 where "w1 = (writer_write c w)\<lparr>w_sending_chunks := True\<rparr>"
  have "writer_ok (writer_write c w)" "writer_content (writer_write c w) = c"
    using text_sink.inv_put text_sink.abs_put Cons.prems by auto
  then have "writer_ok w1" "w_client_supports_chunks w1" "w_sending_chunks w1" "writer_content w1 = c"
    "headers_due lib conn w1 = headers_due lib conn w"
    using Cons.prems(2) by (simp_all add: w1_def writer_ok_def writer_content_def headers_due_def writer_write_def)
  with sendMoreData_chunked [of conn w1 lib False] Cons.prems(1,5) obtain w2 where
    s: "sendMoreData lib False conn w1 = Inr (async_write (headers_due lib conn w @ chunk_text c) conn, w2)"
      "w_sent_headers w2" "w_client_supports_chunks w2" by auto
  then have "sendChunk lib conn (writer_write c w) = Inr (async_write (headers_due lib conn w @ chunk_text c) conn, w2)"
    using Cons.prems(2) by (simp add: sendChunk_def w1_def writer_write_def)
  moreover obtain conn' w' where "send_chunks lib cs (async_write (headers_due lib conn w @ chunk_text c) conn) (writer_clear w2) =
      Inr (conn', w')" "written (tc_events conn') =
      written (tc_events conn) @ headers_due lib conn w @ chunk_text c @ concat (map chunk_text cs) @ final_chunk"
  proof -
    have "headers_due lib x (writer_clear w2) = []" for x
      using s(2) by (simp add: headers_due_def writer_clear_def)
    moreover have "w_client_supports_chunks (writer_clear w2)" using s(3) by (simp add: writer_clear_def)
    ultimately show ?thesis
      using Cons.IH [of "async_write (headers_due lib conn w @ chunk_text c) conn" "writer_clear w2"]
        Cons.prems(1,5) writer_ok_init(3,4) that by auto
  qed
  ultimately show ?case by simp
qed

section \<open>Properties\<close>

text \<open>C13: A response sent in chunks is read back: with a client that supports chunks, the bytes written
  are the response headers followed by the chunks and the final chunk, and the chunk parser turns them
  into exactly the content, cut at the maximum content length, and stops behind the final chunk.\<close>

theorem chunked_response_roundtrip:
  assumes "tc_open conn" "w_client_supports_chunks w" "writer_ok w" "writer_content w = []" "\<not> w_sent_headers w"
    and "\<forall>c\<in>set cs. c \<noteq> [] \<and> length c < 2 ^ 63"
    and "p_chunked_content_parse_state p = PARSE_CHUNK_SIZE_START"
  shows "\<exists>conn' w' body p'. send_chunks lib cs conn w = Inr (conn', w') \<and>
     written (tc_events conn') = written (tc_events conn)
       @ response_headers lib (getKeepAlive conn) True (w_http_response w) @ body \<and>
     parseChunks (setReadBuffer (body @ rest) p) [] = (TTrue, p', take (p_max_content_length p) (concat cs)) \<and>
     p_read_buf p' = rest"
proof -
  define body where "body = concat (map chunk_text cs) @ final_chunk"
  obtain conn' w' where 1: "send_chunks lib cs conn w = Inr (conn', w')"
    "written (tc_events conn') = written (tc_events conn)
       @ response_headers lib (getKeepAlive conn) True (w_http_response w) @ body"
    using send_chunks_written [OF assms(1-4), of cs lib] assms(5,6) by (auto simp: body_def headers_due_def)
  have "\<exists>p'. parseChunks_loop (body @ rest) 0 (setReadBuffer (body @ rest) p) [] =
      (TTrue, p', cache_append (p_max_content_length p) (concat cs) []) \<and> p_read_buf p' = rest"
    using run_chunks [OF assms(6), of "setReadBuffer (body @ rest) p" rest 0 "[]"] assms(7)
    by (simp add: body_def setReadBuffer_def)
  then obtain p' where 2: "parseChunks (setReadBuffer (body @ rest) p) [] =
      (TTrue, p', take (p_max_content_length p) (concat cs))" "p_read_buf p' = rest"
    by (auto simp: parseChunks_def setReadBuffer_def cache_append_def)
  with 1 show ?thesis by blast
qed

definition writer_example_lib :: boost_lib where
  "writer_example_lib = \<lparr>lexical_cast_string = (\<lambda>n. ''1''), lexical_cast_size = (\<lambda>s. None), trim = (\<lambda>s. s),
     regex_icase_chunked = (\<lambda>s. s = ''chunked'')\<rparr>"

lemma chunked_response_roundtrip_witness:
  "\<exists>conn' w' body p'. send_chunks writer_example_lib [''ab'', ''c''] TCPConnection_init (HTTPWriter_init (HTTPResponse_init [])) =
       Inr (conn', w') \<and>
     parseChunks (setReadBuffer (body @ ''x'') (HTTPParser_init False 100)) [] = (TTrue, p', ''abc'')"
  using chunked_response_roundtrip [of TCPConnection_init "HTTPWriter_init (HTTPResponse_init [])" "[''ab'', ''c'']"
      "HTTPParser_init False 100" writer_example_lib "''x''"] writer_ok_init
  by (fastforce simp: TCPConnection_init_def HTTPWriter_init_def HTTPParser_init_def)

text \<open>A response sent as a whole has a \<open>Content-Length\<close> header with the number of content bytes
  that follow the headers, and those bytes are what was written to the writer, in order, whether it
  was written as text or as buffers.\<close>

theorem response_content_length:
  assumes "tc_open conn" "writer_ok w" "\<not> w_sent_headers w" "\<not> w_sending_chunks w"
    and "\<not> m_do_not_send_content_length (w_http_response w)" "m_content_length (w_http_response w) = 0"
    and "length (writer_content w) < 2 ^ 64" "grouped (m_headers (w_http_response w))"
  shows "\<exists>hdr w'. writer_send lib conn w = Inr (async_write (hdr @ writer_content w) conn, w') \<and>
     hdr = response_headers lib (getKeepAlive conn) False (with_length (length (writer_content w)) (w_http_response w)) \<and>
     dict_values HEADER_CONTENT_LENGTH (m_headers (w_http_response w')) =
       [lexical_cast_string lib (length (writer_content w))]"
proof -
  define n where "n = length (writer_content w)"
  define resp where "resp = with_length n (w_http_response w)"
  have resp: "unat (m_content_length resp) = n" "\<not> m_do_not_send_content_length resp" "grouped (m_headers resp)"
    using assms(5-8) by (simp_all add: resp_def with_length_def unat_of_nat n_def)
  have "m_headers (snd (prepareBuffersForSend lib ka False resp)) =
      changeValue HEADER_CONTENT_LENGTH (lexical_cast_string lib n)
        (changeValue HEADER_CONNECTION (if ka then ''Keep-Alive'' else ''close'') (m_headers resp))" for ka
    using resp(1,2) by (cases "m_class resp")
      (simp_all add: prepareBuffersForSend_def prepareHeadersForSend_def changeHeader_def getFirstLine_def
        updateFirstLine_def Let_def)
  then have "dict_values HEADER_CONTENT_LENGTH (m_headers (snd (prepareBuffersForSend lib ka False resp))) =
      [lexical_cast_string lib n]" for ka
    using dict_values_change [OF grouped_changeValue [OF resp(3)]] by simp
  with writer_send_eq [OF assms(1-4), of lib] show ?thesis by (auto simp: resp_def n_def)
qed

lemma response_content_length_witness:
  "\<exists>hdr w'. writer_send writer_example_lib TCPConnection_init
       (writeNoCopy ''b'' (writer_write ''a'' (HTTPWriter_init (HTTPResponse_init [])))) =
     Inr (async_write (hdr @ ''ab'') TCPConnection_init, w')"
proof -
  define w where "w = writeNoCopy ''b'' (writer_write ''a'' (HTTPWriter_init (HTTPResponse_init [])))"
  have "writer_ok w" "writer_content w = ''ab''" unfolding w_def
    using writer_ok_init buffer_sink.inv_put buffer_sink.abs_put text_sink.inv_put text_sink.abs_put by simp_all
  moreover have "tc_open TCPConnection_init" "\<not> w_sent_headers w" "\<not> w_sending_chunks w"
    "\<not> m_do_not_send_content_length (w_http_response w)" "m_content_length (w_http_response w) = 0"
    "grouped (m_headers (w_http_response w))"
    by (simp_all add: TCPConnection_init_def w_def writeNoCopy_def writer_write_def HTTPWriter_init_def
        HTTPResponse_init_def HTTPMessage_init_def flushContentStream_def Let_def)
  ultimately show ?thesis
    using response_content_length [of TCPConnection_init w writer_example_lib] unfolding w_def [symmetric] by auto
qed

end
