(* ===== verification/Std_Map.thy ===== *)
theory Std_Map
  imports Prelude
begin

text \<open>
  \<open>std::map\<close> as the sources use it: a list of pairs with strictly increasing keys, in iteration
  order. Strings are ordered byte by byte as unsigned characters, which is the order of
  \<open>std::string\<close>. \<open>insert\<close> keeps an existing entry, assignment through \<open>operator[]\<close> replaces it.
\<close>

section \<open>Operations\<close>

type_synonym ('k, 'v) std_map = "('k \<times> 'v) list"

fun map_insert :: "'k::linorder \<Rightarrow> 'v \<Rightarrow> ('k, 'v) std_map \<Rightarrow> ('k, 'v) std_map" where
  "map_insert k v [] = [(k, v)]"
| "map_insert k v (e # m) =
     (if k < fst e then (k, v) # e # m else if k = fst e then e # m else e # map_insert k v m)"

fun map_assign :: "'k::linorder \<Rightarrow> 'v \<Rightarrow> ('k, 'v) std_map \<Rightarrow> ('k, 'v) std_map" where
  "map_assign k v [] = [(k, v)]"
| "map_assign k v (e # m) =
     (if k < fst e then (k, v) # e # m else if k = fst e then (k, v) # m else e # map_assign k v m)"

definition map_find :: "'k \<Rightarrow> ('k, 'v) std_map \<Rightarrow> 'v option" where
  "map_find k m = map_of m k"

fun map_erase :: "'k \<Rightarrow> ('k, 'v) std_map \<Rightarrow> ('k, 'v) std_map" where
  "map_erase k [] = []"
| "map_erase k (e # m) = (if fst e = k then m else e # map_erase k m)"

text \<open>The position of the first entry with a greater key.\<close>

definition upper_bound :: "'k::linorder \<Rightarrow> ('k, 'v) std_map \<Rightarrow> nat" where
  "upper_bound k m = length (takeWhile (\<lambda>e. fst e \<le> k) m)"

definition ordered :: "('k::linorder, 'v) std_map \<Rightarrow> bool" where
  "ordered m \<longleftrightarrow> sorted_wrt (<) (map fst m)"

lemma ordered_simps [simp]:
  "ordered []" "ordered (e # m) \<longleftrightarrow> (\<forall>x\<in>set m. fst e < fst x) \<and> ordered m"
  by (auto simp: ordered_def)

section \<open>The contract\<close>

text \<open>What the clients rely on: keys are unique, the first insertion of a key stays, an erased key
  is gone, and other keys are not disturbed.\<close>

locale unique_map =
  fixes find :: "'k \<Rightarrow> 'm \<Rightarrow> 'v option"
    and ins :: "'k \<Rightarrow> 'v \<Rightarrow> 'm \<Rightarrow> 'm"
    and del :: "'k \<Rightarrow> 'm \<Rightarrow> 'm"
    and inv :: "'m \<Rightarrow> bool"
  assumes inv_ins: "inv m \<Longrightarrow> inv (ins k v m)"
    and inv_del: "inv m \<Longrightarrow> inv (del k m)"
    and find_ins: "inv m \<Longrightarrow> find k' (ins k v m) = (if k' = k \<and> find k m = None then Some v else find k' m)"
    and find_del: "inv m \<Longrightarrow> find k' (del k m) = (if k' = k then None else find k' m)"
begin

text \<open>Inserting a sequence of pairs: the value of a key that was absent is the first one.\<close>

lemma fold_ins:
  "inv m \<Longrightarrow> inv (foldl (\<lambda>m e. ins (fst e) (snd e) m) m es) \<and>
     find k (foldl (\<lambda>m e. ins (fst e) (snd e) m) m es) =
       (case find k m of Some v \<Rightarrow> Some v | None \<Rightarrow> map_of es k)"
proof (induction es arbitrary: m)
  case (Cons e es)
  then show ?case
    using Cons.IH [of "ins (fst e) (snd e) m"] by (auto simp: inv_ins find_ins split: option.splits)
qed (simp split: option.splits)

lemma del_ins: "inv m \<Longrightarrow> find k m = None \<Longrightarrow> find k' (del k (ins k v m)) = find k' m"
  by (simp add: find_del inv_ins find_ins)

lemma ins_twice: "inv m \<Longrightarrow> find k' (ins k w (ins k v m)) = find k' (ins k v m)"
  by (simp add: find_ins inv_ins)

end

section \<open>The lists satisfy the contract\<close>

lemma set_map_insert: "set (map_insert k v m) \<subseteq> insert (k, v) (set m)"
  by (induction m) auto

lemma fst_map_insert: "fst ` set (map_insert k v m) = insert k (fst ` set m)"
  by (induction m) (auto simp: image_iff)

lemma map_of_less: "\<forall>x\<in>set m. (k::'k::linorder) < fst x \<Longrightarrow> map_of m k = None"
  by (induction m) auto

lemma ordered_map_insert: "ordered m \<Longrightarrow> ordered (map_insert k v m)"
proof (induction m)
  case (Cons e m)
  then show ?case using set_map_insert [of k v m] by (auto dest: order.strict_trans)
qed simp

lemma ordered_map_erase: "ordered m \<Longrightarrow> ordered (map_erase k m)"
proof (induction m)
  case (Cons e m)
  have "set (map_erase k m) \<subseteq> set m" by (induction m) auto
  with Cons show ?case by auto
qed simp

lemma map_find_insert:
  "ordered m \<Longrightarrow> map_find k' (map_insert k v m) = (if k' = k \<and> map_find k m = None then Some v else map_find k' m)"
proof (induction m)
  case (Cons e m)
  have "k < fst e \<Longrightarrow> map_of m k = None" by (rule map_of_less) (use Cons.prems in \<open>auto dest: order.strict_trans\<close>)
  with Cons show ?case by (cases "k < fst e") (auto simp: map_find_def)
qed (simp add: map_find_def)

lemma map_find_erase:
  "ordered m \<Longrightarrow> map_find k' (map_erase k m) = (if k' = k then None else map_find k' m)"
proof (induction m)
  case (Cons e m)
  then show ?case using map_of_less [of m "fst e"] by (auto simp: map_find_def)
qed (simp add: map_find_def)

interpretation std: unique_map map_find map_insert map_erase ordered
  by unfold_locales (simp_all add: ordered_map_insert ordered_map_erase map_find_insert map_find_erase)

section \<open>Assignment\<close>

lemma fst_map_assign: "fst ` set (map_assign k v m) = insert k (fst ` set m)"
  by (induction m) (auto simp: image_iff)

lemma ordered_map_assign: "ordered m \<Longrightarrow> ordered (map_assign k v m)"
proof (induction m)
  case (Cons e m)
  have "set (map_assign k v m) \<subseteq> insert (k, v) (set m)" by (induction m) auto
  with Cons show ?case by (auto dest: order.strict_trans)
qed simp

lemma map_find_assign: "ordered m \<Longrightarrow> map_find k' (map_assign k v m) = (if k' = k then Some v else map_find k' m)"
proof (induction m)
  case (Cons e m)
  then show ?case using map_of_less [of m k] by (auto simp: map_find_def dest: order.strict_trans)
qed (simp add: map_find_def)

section \<open>Positions\<close>

lemma ordered_take_upper_bound:
  assumes "ordered m"
  shows "set (take (upper_bound k m) m) = {e \<in> set m. fst e \<le> k}"
  using assms
proof (induction m)
  case (Cons e m)
  then have "\<not> fst e \<le> k \<Longrightarrow> {x \<in> set m. fst x \<le> k} = {}" by (auto dest: order.strict_trans2)
  with Cons show ?case by (auto simp: upper_bound_def)
qed (simp add: upper_bound_def)

lemma upper_bound_le: "upper_bound k m \<le> length m"
  by (simp add: upper_bound_def length_takeWhile_le)

end
