(* ===== verification/Http_Server.thy ===== *)
theory Http_Server
  imports Http_Writer Std_Map "HOL-Library.Sublist"
begin

text \<open>
  \<open>HTTPServer.hpp\<close> and \<open>HTTPServer.cpp\<close>: the table of resources, redirects, dispatch of a request to
  its handler and the default error pages. A handler is a function on the request, the connection and
  the state of the program behind it, \<open>'w\<close>; it may throw, and what it did before stays. Logging and
  the mutex around the table are left out.
\<close>

section \<open>Handlers\<close>

text \<open>Exceptions a handler ends with. \<open>Abort\<close> is not an exception of C++ but the end of the program:
  a failed assertion or undefined behaviour.\<close>

datatype exn = Lost_connection | Bad_alloc | Std_exception string | Abort fault

record 'w ctx =
  x_request :: HTTPMessage
  x_conn :: TCPConnection
  x_world :: 'w

type_synonym ('w, 'a) action = "'w ctx \<Rightarrow> (exn + 'a) \<times> 'w ctx"
type_synonym 'w handler = "('w, unit) action"

definition returnA :: "'a \<Rightarrow> ('w, 'a) action" where
  "returnA a c = (Inr a, c)"

definition bindA :: "('w, 'a) action \<Rightarrow> ('a \<Rightarrow> ('w, 'b) action) \<Rightarrow> ('w, 'b) action" where
  "bindA m f c = (case m c of (Inl e, c') \<Rightarrow> (Inl e, c') | (Inr a, c') \<Rightarrow> f a c')"

definition lift_fault :: "fault + 'a \<Rightarrow> ('w, 'a) action" where
  "lift_fault r c = (case r of Inl f \<Rightarrow> (Inl (Abort f), c) | Inr a \<Rightarrow> (Inr a, c))"

definition modify_conn :: "(TCPConnection \<Rightarrow> TCPConnection) \<Rightarrow> 'w handler" where
  "modify_conn f c = (Inr (), c\<lparr>x_conn := f (x_conn c)\<rparr>)"

section \<open>Answers\<close>

definition send_writer :: "boost_lib \<Rightarrow> HTTPWriter \<Rightarrow> 'w handler" where
  "send_writer lib w c =
     (case writer_send lib (x_conn c) w of
        Inl LostConnectionException \<Rightarrow> (Inl Lost_connection, c)
      | Inl (Writer_fault f) \<Rightarrow> (Inl (Abort f), c)
      | Inr (conn, _) \<Rightarrow> (Inr (), c\<lparr>x_conn := conn\<rparr>))"

definition set_status :: "32 word \<Rightarrow> string \<Rightarrow> HTTPWriter \<Rightarrow> fault + HTTPWriter" where
  "set_status n text w =
     bindE (setStatusCode n (w_http_response w)) (\<lambda>r.
       bindE (setStatusMessage text r) (\<lambda>r'. Inr (w\<lparr>w_http_response := r'\<rparr>)))"

text \<open>Create a writer for the request, set the status, fill in the content and send.\<close>

definition respond :: "boost_lib \<Rightarrow> 32 word \<Rightarrow> string \<Rightarrow> (HTTPWriter \<Rightarrow> HTTPWriter) \<Rightarrow> 'w handler" where
  "respond lib n text fill c =
     bindA (lift_fault (bindE (HTTPResponseWriter_create (x_request c)) (set_status n text)))
       (\<lambda>w. send_writer lib (fill w)) c"

definition NEWLINE :: string where "NEWLINE = [CHR 0x0A]"

definition BAD_REQUEST_HTML :: string where
  "BAD_REQUEST_HTML =
     ''<html><head>'' @ NEWLINE @ ''<title>400 Bad Request</title>'' @ NEWLINE @ ''</head><body>'' @ NEWLINE
     @ ''<h1>Bad Request</h1>'' @ NEWLINE
     @ ''<p>Your browser sent a request that this server could not understand.</p>'' @ NEWLINE
     @ ''</body></html>'' @ NEWLINE"

definition handleBadRequest :: "boost_lib \<Rightarrow> 'w handler" where
  "handleBadRequest lib =
     respond lib RESPONSE_CODE_BAD_REQUEST RESPONSE_MESSAGE_BAD_REQUEST (writeNoCopy BAD_REQUEST_HTML)"

definition NOT_FOUND_HTML_START :: string where
  "NOT_FOUND_HTML_START =
     ''<html><head>'' @ NEWLINE @ ''<title>404 Not Found</title>'' @ NEWLINE @ ''</head><body>'' @ NEWLINE
     @ ''<h1>Not Found</h1>'' @ NEWLINE @ ''<p>The requested URL ''"

definition NOT_FOUND_HTML_FINISH :: string where
  "NOT_FOUND_HTML_FINISH = '' was not found on this server.</p>'' @ NEWLINE @ ''</body></html>'' @ NEWLINE"

definition handleNotFoundRequest :: "boost_lib \<Rightarrow> 'w handler" where
  "handleNotFoundRequest lib c =
     bindA (lift_fault (as_request (x_request c)))
       (\<lambda>r. respond lib RESPONSE_CODE_NOT_FOUND RESPONSE_MESSAGE_NOT_FOUND
          (\<lambda>w. writeNoCopy NOT_FOUND_HTML_FINISH (writer_write (m_resource r) (writeNoCopy NOT_FOUND_HTML_START w)))) c"

definition SERVER_ERROR_HTML_START :: string where
  "SERVER_ERROR_HTML_START =
     ''<html><head>'' @ NEWLINE @ ''<title>500 Server Error</title>'' @ NEWLINE @ ''</head><body>'' @ NEWLINE
     @ ''<h1>Internal Server Error</h1>'' @ NEWLINE
     @ ''<p>The server encountered an internal error: <strong>''"

definition SERVER_ERROR_HTML_FINISH :: string where
  "SERVER_ERROR_HTML_FINISH = ''</strong></p>'' @ NEWLINE @ ''</body></html>'' @ NEWLINE"

definition handleServerError :: "boost_lib \<Rightarrow> string \<Rightarrow> 'w handler" where
  "handleServerError lib error_msg =
     respond lib RESPONSE_CODE_SERVER_ERROR RESPONSE_MESSAGE_SERVER_ERROR
       (\<lambda>w. writeNoCopy SERVER_ERROR_HTML_FINISH (writer_write error_msg (writeNoCopy SERVER_ERROR_HTML_START w)))"

section \<open>The server\<close>

record 'w HTTPServer =
  s_resources :: "(string, 'w handler) std_map"
  s_redirects :: "(string, string) std_map"
  s_bad_request_handler :: "'w handler"
  s_not_found_handler :: "'w handler"
  s_server_error_handler :: "string \<Rightarrow> 'w handler"
  s_auth :: "('w, bool) action option"
  s_max_content_length :: nat

definition HTTPServer_init :: "boost_lib \<Rightarrow> 'w HTTPServer" where
  "HTTPServer_init lib =
     \<lparr>s_resources = [], s_redirects = [], s_bad_request_handler = handleBadRequest lib,
      s_not_found_handler = handleNotFoundRequest lib, s_server_error_handler = handleServerError lib,
      s_auth = None, s_max_content_length = DEFAULT_CONTENT_MAX\<rparr>"

definition MAX_REDIRECTS :: nat where "MAX_REDIRECTS = 10"

definition stripTrailingSlash :: "string \<Rightarrow> string" where
  "stripTrailingSlash str = (if str \<noteq> [] \<and> last str = CHR ''/'' then butlast str else str)"

definition addResource :: "string \<Rightarrow> 'w handler \<Rightarrow> 'w HTTPServer \<Rightarrow> 'w HTTPServer" where
  "addResource resource h s = s\<lparr>s_resources := map_insert (stripTrailingSlash resource) h (s_resources s)\<rparr>"

definition removeResource :: "string \<Rightarrow> 'w HTTPServer \<Rightarrow> 'w HTTPServer" where
  "removeResource resource s = s\<lparr>s_resources := map_erase (stripTrailingSlash resource) (s_resources s)\<rparr>"

definition addRedirect :: "string \<Rightarrow> string \<Rightarrow> 'w HTTPServer \<Rightarrow> 'w HTTPServer" where
  "addRedirect requested new_resource s =
     s\<lparr>s_redirects := map_insert (stripTrailingSlash requested) (stripTrailingSlash new_resource) (s_redirects s)\<rparr>"

definition setNotFoundHandler :: "'w handler \<Rightarrow> 'w HTTPServer \<Rightarrow> 'w HTTPServer" where
  "setNotFoundHandler h s = s\<lparr>s_not_found_handler := h\<rparr>"

definition server_clear :: "'w HTTPServer \<Rightarrow> 'w HTTPServer" where
  "server_clear s = s\<lparr>s_resources := []\<rparr>"

subsection \<open>Finding a handler\<close>

definition resource_matches :: "string \<Rightarrow> string \<Rightarrow> bool" where
  "resource_matches resource key \<longleftrightarrow>
     (key = [] \<or> take (length key) resource = key) \<and>
     (length resource = length key \<or> resource ! length key = CHR ''/'')"

fun search_back :: "string \<Rightarrow> (string \<times> 'h) list \<Rightarrow> 'h option" where
  "search_back resource [] = None"
| "search_back resource (e # es) =
     (if resource_matches resource (fst e) then Some (snd e) else search_back resource es)"

definition findRequestHandler :: "string \<Rightarrow> (string, 'h) std_map \<Rightarrow> 'h option" where
  "findRequestHandler resource m =
     (if m = [] then None else search_back resource (rev (take (upper_bound resource m) m)))"

subsection \<open>Handling a request\<close>

text \<open>The redirect loop: the flag is false when the maximum was exceeded.\<close>

function follow_redirects :: "(string, string) std_map \<Rightarrow> nat \<Rightarrow> string \<Rightarrow> HTTPMessage
    \<Rightarrow> fault + (bool \<times> string \<times> HTTPMessage)" where
  "follow_redirects redirects num_redirects resource req =
     (case map_find resource redirects of
        None \<Rightarrow> Inr (True, resource, req)
      | Some new_resource \<Rightarrow>
          if Suc num_redirects > MAX_REDIRECTS then Inr (False, resource, req)
          else bindE (changeResource new_resource req)
                 (follow_redirects redirects (Suc num_redirects) new_resource))"
  by pat_completeness auto
termination
  by (relation "measure (\<lambda>(_, n, _, _). MAX_REDIRECTS - n)") auto

declare follow_redirects.simps [simp del]

definition TOO_MANY_REDIRECTS :: string where
  "TOO_MANY_REDIRECTS = ''Maximum number of redirects (HTTPServer::MAX_REDIRECTS) exceeded for requested resource''"

definition call_handler :: "'w HTTPServer \<Rightarrow> 'w handler \<Rightarrow> 'w handler" where
  "call_handler s h c =
     (case h c of
        (Inl Lost_connection, c') \<Rightarrow> modify_conn (\<lambda>conn. conn_finish (setLifecycle LIFECYCLE_CLOSE conn)) c'
      | (Inl (Std_exception msg), c') \<Rightarrow> s_server_error_handler s msg c'
      | r \<Rightarrow> r)"

definition authorized :: "'w HTTPServer \<Rightarrow> ('w, bool) action" where
  "authorized s = (case s_auth s of None \<Rightarrow> returnA True | Some auth \<Rightarrow> auth)"

definition dispatch :: "'w HTTPServer \<Rightarrow> string \<Rightarrow> 'w handler" where
  "dispatch s resource =
     bindA (authorized s) (\<lambda>ok.
       if \<not> ok then returnA ()
       else case findRequestHandler resource (s_resources s) of
              Some h \<Rightarrow> call_handler s h
            | None \<Rightarrow> s_not_found_handler s)"

definition handleRequest :: "'w HTTPServer \<Rightarrow> 'w handler" where
  "handleRequest s c =
     (if \<not> m_is_valid (x_request c) then s_bad_request_handler s c
      else
        bindA (lift_fault (as_request (x_request c)))
          (\<lambda>r. bindA (lift_fault (follow_redirects (s_redirects s) 0 (stripTrailingSlash (m_resource r)) (x_request c)))
            (\<lambda>(ok, resource, req) c'.
              let c'' = c'\<lparr>x_request := req\<rparr>
              in if ok then dispatch s resource c'' else s_server_error_handler s TOO_MANY_REDIRECTS c'')) c)"

section \<open>The longest resource wins\<close>

text \<open>A registered resource covers a path when it is the path or an initial part of it that ends
  before a slash.\<close>

definition covers :: "string \<Rightarrow> string \<Rightarrow> bool" where
  "covers key resource \<longleftrightarrow> key = resource \<or> prefix (key @ ''/'') resource"

lemma resource_matches_covers: "resource_matches resource key \<longleftrightarrow> covers key resource"
proof
  assume m: "resource_matches resource key"
  then have p: "take (length key) resource = key" by (auto simp: resource_matches_def)
  show "covers key resource"
  proof (cases "length resource = length key")
    case True
    with p show ?thesis by (simp add: covers_def)
  next
    case False
    with p have len: "length key < length resource" by (metis length_take min.cobounded1 min.commute nat_neq_iff not_le)
    with False m have "resource ! length key = CHR ''/''" by (simp add: resource_matches_def)
    then have "take (Suc (length key)) resource = key @ ''/''" using p len by (simp add: take_Suc_conv_app_nth)
    then show ?thesis unfolding covers_def by (metis take_is_prefix)
  qed
next
  assume "covers key resource"
  then show "resource_matches resource key" by (auto simp: covers_def resource_matches_def prefix_def)
qed

lemma prefix_le: "prefix (a::string) b \<Longrightarrow> a \<le> b"
proof -
  have "a \<le> a @ c" for a c :: string by (induction a) simp_all
  moreover assume "prefix a b"
  ultimately show "a \<le> b" by (auto simp: prefix_def)
qed

lemma covers_prefix: "covers key resource \<Longrightarrow> prefix key resource"
  by (auto simp: covers_def prefix_def)

lemma covers_longer: "covers a resource \<Longrightarrow> covers b resource \<Longrightarrow> b \<le> a \<Longrightarrow> length b \<le> length a"
  by (metis covers_prefix prefix_le prefix_length_le prefix_same_cases order.antisym order.refl)

lemma search_back_Some:
  "search_back resource es = Some h \<Longrightarrow>
     \<exists>as k bs. es = as @ (k, h) # bs \<and> covers k resource \<and> (\<forall>e\<in>set as. \<not> covers (fst e) resource)"
proof (induction es)
  case (Cons e es)
  show ?case
  proof (cases "covers (fst e) resource")
    case True
    with Cons.prems have "e # es = [] @ (fst e, h) # es" by (simp add: resource_matches_covers prod_eq_iff)
    with True show ?thesis by fastforce
  next
    case False
    with Cons obtain as k bs where "es = as @ (k, h) # bs" "covers k resource" "\<forall>e\<in>set as. \<not> covers (fst e) resource"
      by (auto simp: resource_matches_covers)
    with False show ?thesis by (intro exI [of _ "e # as"]) auto
  qed
qed simp

lemma search_back_None: "search_back resource es = None \<longleftrightarrow> (\<forall>e\<in>set es. \<not> covers (fst e) resource)"
  by (induction es) (auto simp: resource_matches_covers)

lemma findRequestHandler_candidates:
  assumes "ordered m"
  shows "{e \<in> set (take (upper_bound resource m) m). covers (fst e) resource} = {e \<in> set m. covers (fst e) resource}"
  using ordered_take_upper_bound [OF assms, of resource] covers_prefix prefix_le by auto

lemma findRequestHandler_Some:
  assumes "ordered m" "findRequestHandler resource m = Some h"
  shows "\<exists>k. (k, h) \<in> set m \<and> covers k resource \<and>
    (\<forall>e\<in>set m. covers (fst e) resource \<longrightarrow> length (fst e) \<le> length k)"
proof -
  define es where "es = take (upper_bound resource m) m"
  from assms(2) have "search_back resource (rev es) = Some h" by (simp add: findRequestHandler_def es_def split: if_splits)
  from search_back_Some [OF this] obtain as k bs where
    s: "rev es = as @ (k, h) # bs" "covers k resource" "\<forall>e\<in>set as. \<not> covers (fst e) resource" by blast
  from s(1) have es: "es = rev bs @ (k, h) # rev as" by (metis append.assoc append_Cons append_Nil rev.simps(2) rev_append rev_rev_ident)
  have "ordered es" using assms(1) unfolding ordered_def es_def by (metis sorted_wrt_take take_map)
  then have below: "\<forall>e\<in>set bs. fst e < k" by (auto simp: es ordered_def sorted_wrt_append)
  have "length (fst e) \<le> length k" if "e \<in> set m" "covers (fst e) resource" for e
  proof -
    from that findRequestHandler_candidates [OF assms(1), of resource] have "e \<in> set es" by (auto simp: es_def)
    with s(3) that(2) have "e \<in> set bs \<or> e = (k, h)" by (auto simp: es)
    with below that(2) s(2) covers_longer show ?thesis by fastforce
  qed
  moreover have "(k, h) \<in> set es" by (simp add: es)
  then have "(k, h) \<in> set m" unfolding es_def by (rule in_set_takeD)
  ultimately show ?thesis using s(2) by blast
qed

lemma findRequestHandler_None:
  assumes "ordered m"
  shows "findRequestHandler resource m = None \<longleftrightarrow> (\<forall>e\<in>set m. \<not> covers (fst e) resource)"
  using findRequestHandler_candidates [OF assms, of resource]
  by (auto simp: findRequestHandler_def search_back_None)

section \<open>Redirects\<close>

inductive redirects_to :: "(string, string) std_map \<Rightarrow> nat \<Rightarrow> string \<Rightarrow> string \<Rightarrow> bool" for m where
  no_redirect: "redirects_to m 0 a a"
| redirect: "map_find a m = Some b \<Longrightarrow> redirects_to m n b c \<Longrightarrow> redirects_to m (Suc n) a c"

inductive_cases redirects_to_0E: "redirects_to m 0 a b"
inductive_cases redirects_to_SucE: "redirects_to m (Suc n) a b"

lemma changeResource_request:
  "m_class req = Request r \<Longrightarrow> changeResource s req = Inr (req\<lparr>m_class := Request (r\<lparr>m_resource := s\<rparr>)\<rparr>)"
  by (simp add: changeResource_def update_request_def as_request_def)

lemma follow_redirects_end:
  assumes "redirects_to m n a b" "map_find b m = None" "k + n \<le> MAX_REDIRECTS" "m_class req = Request r"
  shows "follow_redirects m k a req =
     Inr (True, b, req\<lparr>m_class := Request (if n = 0 then r else r\<lparr>m_resource := b\<rparr>)\<rparr>)"
  using assms
proof (induction arbitrary: k req r rule: redirects_to.induct)
  case (no_redirect a)
  then show ?case by (cases req) (simp add: follow_redirects.simps)
next
  case (redirect a b n c)
  define req' where "req' = req\<lparr>m_class := Request (r\<lparr>m_resource := b\<rparr>)\<rparr>"
  have "follow_redirects m (Suc k) b req' =
      Inr (True, c, req'\<lparr>m_class := Request (if n = 0 then r\<lparr>m_resource := b\<rparr> else r\<lparr>m_resource := b, m_resource := c\<rparr>)\<rparr>)"
    using redirect.IH [of "Suc k" req' "r\<lparr>m_resource := b\<rparr>"] redirect.prems by (simp add: req'_def)
  moreover have "n = 0 \<Longrightarrow> b = c" using redirect.hyps(2) by (auto elim: redirects_to_0E)
  ultimately show ?case
    using redirect.hyps(1) redirect.prems changeResource_request [of req r b]
    by (simp add: follow_redirects.simps [of m k] req'_def)
qed

lemma follow_redirects_too_many:
  assumes "\<And>n b. k + n \<le> MAX_REDIRECTS \<Longrightarrow> redirects_to m n a b \<Longrightarrow> map_find b m \<noteq> None"
    and "m_class req = Request r" "k \<le> MAX_REDIRECTS"
  shows "\<exists>b req'. follow_redirects m k a req = Inr (False, b, req')"
  using assms
proof (induction "MAX_REDIRECTS - k" arbitrary: k a req r)
  case 0
  then have "k = MAX_REDIRECTS" by simp
  moreover obtain b where "map_find a m = Some b" using "0.prems"(1) [of 0 a] "0.prems"(3) no_redirect by fastforce
  ultimately show ?case by (simp add: follow_redirects.simps [of m MAX_REDIRECTS a])
next
  case (Suc d)
  from Suc.prems(1) [of 0 a] obtain b where b: "map_find a m = Some b"
    using Suc.prems(3) by (auto intro: no_redirect)
  define req' where "req' = req\<lparr>m_class := Request (r\<lparr>m_resource := b\<rparr>)\<rparr>"
  have "\<exists>c req''. follow_redirects m (Suc k) b req' = Inr (False, c, req'')"
  proof (rule Suc.hyps(1))
    show "map_find c m \<noteq> None" if "Suc k + n \<le> MAX_REDIRECTS" "redirects_to m n b c" for n c
      using Suc.prems(1) [of "Suc n" c] that b by (auto intro: redirect)
  qed (use Suc.hyps(2) in \<open>auto simp: req'_def\<close>)
  with b Suc.hyps(2) changeResource_request [OF Suc.prems(2), of b] show ?case
    by (simp add: follow_redirects.simps [of m k] req'_def)
qed

section \<open>Every request is answered\<close>

text \<open>What the server expects of a handler: for a request on an open connection it either starts
  exactly one write, or throws before it did anything to the connection.\<close>

definition one_write :: "'w ctx \<Rightarrow> 'w ctx \<Rightarrow> bool" where
  "one_write c c' \<longleftrightarrow> (\<exists>s. tc_events (x_conn c') = tc_events (x_conn c) @ [Async_write s])"

locale answering =
  fixes h :: "'w handler"
  assumes answers: "is_request (x_request c) \<Longrightarrow> tc_open (x_conn c) \<Longrightarrow>
      (\<exists>c'. h c = (Inr (), c') \<and> one_write c c') \<or>
      (\<exists>msg c'. h c = (Inl (Std_exception msg), c') \<and> x_conn c' = x_conn c \<and> x_request c' = x_request c)"

text \<open>What it expects of the authentication: a request that may pass is left alone, one that may not is answered with
  one write, and only a fault keeps the authentication from deciding.\<close>

locale guarding =
  fixes auth :: "('w, bool) action"
  assumes guards: "is_request (x_request c) \<Longrightarrow> tc_open (x_conn c) \<Longrightarrow> auth c = (r, c') \<Longrightarrow>
      r = Inr True \<and> x_conn c' = x_conn c \<and> x_request c' = x_request c \<or> r = Inr False \<and> one_write c c' \<or> (\<exists>f. r = Inl (Abort f))"

definition never_throws :: "'w handler \<Rightarrow> bool" where
  "never_throws h \<longleftrightarrow> (\<forall>c msg c'. is_request (x_request c) \<longrightarrow> tc_open (x_conn c) \<longrightarrow> h c \<noteq> (Inl (Std_exception msg), c'))"

text \<open>The three handlers that are called outside of any \<open>try\<close>.\<close>

definition pages_never_throw :: "'w HTTPServer \<Rightarrow> bool" where
  "pages_never_throw s \<longleftrightarrow> never_throws (s_bad_request_handler s) \<and> never_throws (s_not_found_handler s) \<and>
     (\<forall>msg. never_throws (s_server_error_handler s msg))"

text \<open>A request is answered; only an exception of one of the three pages leaves it without an answer.\<close>

definition answered_or_thrown :: "'w HTTPServer \<Rightarrow> 'w ctx \<Rightarrow> (exn + unit) \<Rightarrow> 'w ctx \<Rightarrow> bool" where
  "answered_or_thrown s c r c' \<longleftrightarrow> r = Inr () \<and> one_write c c' \<or>
     (\<exists>msg. r = Inl (Std_exception msg)) \<and> x_conn c' = x_conn c \<and> \<not> pages_never_throw s"

lemma HTTPResponseWriter_create_request:
  assumes "is_request req"
  shows "\<exists>w r. HTTPResponseWriter_create req = Inr w \<and> writer_ok w \<and> writer_content w = [] \<and>
     \<not> w_sent_headers w \<and> \<not> w_sending_chunks w \<and> m_class (w_http_response w) = Response r \<and>
     m_headers (w_http_response w) = [] \<and> m_content_length (w_http_response w) = 0 \<and>
     \<not> m_do_not_send_content_length (w_http_response w)"
proof -
  obtain q where "m_class req = Request q" using assms by (auto simp: is_request_def split: message_class.splits)
  then show ?thesis
    by (simp add: HTTPResponseWriter_create_def HTTPResponse_for_def updateRequestInfo_def as_request_def
        update_response_def as_response_def HTTPResponse_init_def HTTPMessage_init_def HTTPWriter_init_def
        writer_ok_def writer_content_def)
qed

lemma set_status_response:
  assumes "m_class (w_http_response w) = Response r"
  shows "set_status n text w = Inr (w\<lparr>w_http_response := (w_http_response w)\<lparr>m_first_line := [],
     m_class := Response (r\<lparr>m_status_code := n, m_status_message := text\<rparr>)\<rparr>\<rparr>)"
  using assms
  by (simp add: set_status_def setStatusCode_def setStatusMessage_def update_response_def as_response_def
      clearFirstLine_def)

lemma send_writer_open:
  assumes "tc_open (x_conn c)"
  shows "\<exists>s. send_writer lib w c = (Inr (), c\<lparr>x_conn := async_write s (x_conn c)\<rparr>)"
  using assms by (auto simp: send_writer_def writer_send_def sendMoreData_def split: prod.splits)

lemma respond_open:
  assumes "is_request (x_request c)" "tc_open (x_conn c)"
  shows "\<exists>s. respond lib n text fill c = (Inr (), c\<lparr>x_conn := async_write s (x_conn c)\<rparr>)"
proof -
  from HTTPResponseWriter_create_request [OF assms(1)] obtain w r where
    w: "HTTPResponseWriter_create (x_request c) = Inr w" "m_class (w_http_response w) = Response r" by blast
  then obtain w' where "set_status n text w = Inr w'" by (simp add: set_status_response)
  with w(1) send_writer_open [OF assms(2)] show ?thesis by (simp add: respond_def bindA_def lift_fault_def)
qed

lemma error_pages_open:
  assumes "is_request (x_request c)" "tc_open (x_conn c)"
  shows "\<exists>s. handleBadRequest lib c = (Inr (), c\<lparr>x_conn := async_write s (x_conn c)\<rparr>)"
    "\<exists>s. handleNotFoundRequest lib c = (Inr (), c\<lparr>x_conn := async_write s (x_conn c)\<rparr>)"
    "\<exists>s. handleServerError lib msg c = (Inr (), c\<lparr>x_conn := async_write s (x_conn c)\<rparr>)"
proof -
  obtain r where "as_request (x_request c) = Inr r" using as_request_ok [OF assms(1)] by blast
  with respond_open [OF assms] show "\<exists>s. handleNotFoundRequest lib c = (Inr (), c\<lparr>x_conn := async_write s (x_conn c)\<rparr>)"
    by (simp add: handleNotFoundRequest_def bindA_def lift_fault_def)
qed (use respond_open [OF assms] in \<open>simp_all add: handleBadRequest_def handleServerError_def\<close>)

lemma one_write_async [simp]: "one_write c (c\<lparr>x_conn := async_write s (x_conn c)\<rparr>)"
  by (simp add: one_write_def)

interpretation bad_request_page: answering "handleBadRequest lib"
  by unfold_locales (use error_pages_open(1) in fastforce)

interpretation not_found_page: answering "handleNotFoundRequest lib"
  by unfold_locales (use error_pages_open(2) in fastforce)

interpretation server_error_page: answering "handleServerError lib msg"
  by unfold_locales (use error_pages_open(3) in fastforce)

lemma default_pages_never_throw: "never_throws (handleBadRequest lib)" "never_throws (handleNotFoundRequest lib)"
  "never_throws (handleServerError lib msg)"
  using error_pages_open unfolding never_throws_def by (metis Inl_Inr_False prod.inject)+

lemma page_answers:
  assumes "answering h" "pages_never_throw s \<Longrightarrow> never_throws h" "is_request (x_request c)" "tc_open (x_conn c)"
  shows "\<exists>r c'. h c = (r, c') \<and> answered_or_thrown s c r c'"
  using answering.answers [OF assms(1,3,4)] assms(2-4) unfolding answered_or_thrown_def never_throws_def by blast

lemma call_handler_answers:
  assumes "answering h" "\<And>msg. answering (s_server_error_handler s msg)" "is_request (x_request c)" "tc_open (x_conn c)"
  shows "\<exists>r c'. call_handler s h c = (r, c') \<and> answered_or_thrown s c r c'"
proof -
  from answering.answers [OF assms(1,3,4)] consider
    c' where "h c = (Inr (), c')" "one_write c c'"
    | msg c' where "h c = (Inl (Std_exception msg), c')" "x_conn c' = x_conn c" "x_request c' = x_request c" by blast
  then show ?thesis
  proof cases
    case 1
    then show ?thesis by (simp add: call_handler_def answered_or_thrown_def)
  next
    case 2
    have "pages_never_throw s \<Longrightarrow> never_throws (s_server_error_handler s msg)" by (simp add: pages_never_throw_def)
    from page_answers [where s = s and c = c', OF assms(2) this] 2 assms(3,4) obtain r c'' where
      "s_server_error_handler s msg c' = (r, c'')" "answered_or_thrown s c' r c''" by auto
    with 2 show ?thesis by (simp add: call_handler_def answered_or_thrown_def one_write_def)
  qed
qed

lemma follow_redirects_request:
  assumes "is_request req" "k \<le> MAX_REDIRECTS"
  shows "\<exists>ok b req'. follow_redirects m k a req = Inr (ok, b, req') \<and> is_request req' \<and> m_headers req' = m_headers req"
  using assms
proof (induction m k a req rule: follow_redirects.induct)
  case (1 m k a req)
  obtain r where r: "m_class req = Request r" using "1.prems"(1) by (auto simp: is_request_def split: message_class.splits)
  show ?case
  proof (cases "map_find a m")
    case (Some b)
    note ch = changeResource_request [OF r, of b]
    show ?thesis
    proof (cases "Suc k > MAX_REDIRECTS")
      case False
      with "1.IH" [OF Some False] ch Some show ?thesis
        by (simp add: follow_redirects.simps [of m k] is_request_def)
    qed (use Some "1.prems" in \<open>auto simp: follow_redirects.simps [of m k]\<close>)
  qed (use "1.prems" in \<open>auto simp: follow_redirects.simps [of m k]\<close>)
qed

section \<open>Properties\<close>

text \<open>C7: A resource is dispatched to the handler of the longest registered resource that is the path
  itself or an initial part of it that ends before a slash; there is no handler exactly when no
  registered resource covers the path.\<close>

theorem find_request_handler_longest:
  assumes "ordered m"
  shows "(findRequestHandler resource m = None \<longleftrightarrow> (\<forall>e\<in>set m. \<not> covers (fst e) resource)) \<and>
     (findRequestHandler resource m = Some h \<longleftrightarrow>
        (\<exists>k. map_find k m = Some h \<and> covers k resource \<and>
          (\<forall>e\<in>set m. covers (fst e) resource \<longrightarrow> length (fst e) \<le> length k)))"
proof
  have dist: "distinct (map fst m)" using assms unfolding ordered_def
    by (metis strict_sorted_iff strict_sorted_imp_sorted)
  show "findRequestHandler resource m = Some h \<longleftrightarrow>
        (\<exists>k. map_find k m = Some h \<and> covers k resource \<and>
          (\<forall>e\<in>set m. covers (fst e) resource \<longrightarrow> length (fst e) \<le> length k))" (is "_ \<longleftrightarrow> ?longest h")
  proof
    assume "findRequestHandler resource m = Some h"
    from findRequestHandler_Some [OF assms this] show "?longest h"
      using dist by (auto simp: map_find_def)
  next
    assume "?longest h"
    then obtain k where k: "(k, h) \<in> set m" "covers k resource"
      "\<forall>e\<in>set m. covers (fst e) resource \<longrightarrow> length (fst e) \<le> length k" using dist by (auto simp: map_find_def)
    then obtain h' where h': "findRequestHandler resource m = Some h'"
      using findRequestHandler_None [OF assms, of resource] by fastforce
    from findRequestHandler_Some [OF assms h'] obtain k' where k': "(k', h') \<in> set m" "covers k' resource"
      "\<forall>e\<in>set m. covers (fst e) resource \<longrightarrow> length (fst e) \<le> length k'" by blast
    have "length k = length k'" using k k' by fastforce
    moreover have "k = take (length k) resource" "k' = take (length k') resource"
      using k(2) k'(2) covers_prefix by (metis append_eq_conv_conj prefix_def)+
    ultimately have "k = k'" by simp
    with k(1) k'(1) dist h' show "findRequestHandler resource m = Some h" by (metis map_of_eq_Some_iff option.inject)
  qed
qed (rule findRequestHandler_None [OF assms])

lemma find_request_handler_longest_witness:
  "findRequestHandler ''/movies/1/x'' [(''/movies'', 1), (''/movies/1'', 2::nat), (''/tvshows'', 3)] = Some 2"
proof -
  define m where "m = [(''/movies'', 1), (''/movies/1'', 2::nat), (''/tvshows'', 3)]"
  have "ordered m" by (simp add: m_def)
  moreover have "map_find ''/movies/1'' m = Some 2" "covers ''/movies/1'' ''/movies/1/x''"
    "\<forall>e\<in>set m. covers (fst e) ''/movies/1/x'' \<longrightarrow> length (fst e) \<le> length ''/movies/1''"
    by (simp_all add: m_def map_find_def covers_def)
  ultimately show ?thesis
    using find_request_handler_longest [of m "''/movies/1/x''" 2] unfolding m_def [symmetric] by blast
qed

text \<open>Redirects are followed to the end of their chain, at most ten of them; the request then has the
  final resource and keeps the one it asked for. When the chain is longer, or runs in a circle, the
  loop stops and reports it.\<close>

theorem redirects_bounded:
  assumes "m_class req = Request r"
  shows "(\<exists>n b. n \<le> MAX_REDIRECTS \<and> redirects_to m n a b \<and> map_find b m = None \<and>
        follow_redirects m 0 a req =
          Inr (True, b, req\<lparr>m_class := Request (if n = 0 then r else r\<lparr>m_resource := b\<rparr>)\<rparr>)) \<or>
     ((\<forall>n b. redirects_to m n a b \<and> map_find b m = None \<longrightarrow> n > MAX_REDIRECTS) \<and>
        (\<exists>b req'. follow_redirects m 0 a req = Inr (False, b, req')))"
proof (cases "\<exists>n b. n \<le> MAX_REDIRECTS \<and> redirects_to m n a b \<and> map_find b m = None")
  case True
  then show ?thesis using follow_redirects_end [of m _ a _ 0 req r] assms by fastforce
next
  case False
  then have "\<And>n b. 0 + n \<le> MAX_REDIRECTS \<Longrightarrow> redirects_to m n a b \<Longrightarrow> map_find b m \<noteq> None" by auto
  from follow_redirects_too_many [OF this assms] have "\<exists>b req'. follow_redirects m 0 a req = Inr (False, b, req')" by simp
  moreover have "\<forall>n b. redirects_to m n a b \<and> map_find b m = None \<longrightarrow> n > MAX_REDIRECTS"
    using False by (meson not_le)
  ultimately show ?thesis by blast
qed

lemma redirects_bounded_witness:
  "\<exists>b req'. follow_redirects [(''/a'', ''/a'')] 0 ''/a'' (HTTPRequest_init ''/a'') = Inr (False, b, req')"
proof -
  obtain r where r: "m_class (HTTPRequest_init ''/a'') = Request r" by (simp add: HTTPRequest_init_def HTTPMessage_init_def)
  have "redirects_to [(''/a'', ''/a'')] n x y \<Longrightarrow> x = ''/a'' \<Longrightarrow> y = ''/a''" for n x y
    by (induction rule: redirects_to.induct) (auto simp: map_find_def split: if_splits)
  then have "\<not> (redirects_to [(''/a'', ''/a'')] n ''/a'' b \<and> map_find b [(''/a'', ''/a'')] = None)" for n b
    by (fastforce simp: map_find_def)
  with redirects_bounded [OF r, of "[(''/a'', ''/a'')]" "''/a''"] show ?thesis by blast
qed

lemma dispatch_answers:
  assumes "\<And>k h. (k, h) \<in> set (s_resources s) \<Longrightarrow> answering h" "answering (s_not_found_handler s)"
    and "\<And>msg. answering (s_server_error_handler s msg)" "\<And>auth. s_auth s = Some auth \<Longrightarrow> guarding auth"
    and "is_request (x_request c)" "tc_open (x_conn c)" "ordered (s_resources s)"
  shows "\<exists>r c'. dispatch s resource c = (r, c') \<and>
    (answered_or_thrown s c r c' \<or> (\<exists>auth f. s_auth s = Some auth \<and> fst (auth c) = Inl (Abort f) \<and> r = Inl (Abort f)))"
proof -
  obtain b c1 where a: "authorized s c = (b, c1)" by fastforce
  have "b = Inr True \<and> x_conn c1 = x_conn c \<and> x_request c1 = x_request c \<or> b = Inr False \<and> one_write c c1 \<or>
      (\<exists>auth f. s_auth s = Some auth \<and> fst (auth c) = Inl (Abort f) \<and> b = Inl (Abort f))"
  proof (cases "s_auth s")
    case None
    with a show ?thesis by (auto simp: authorized_def returnA_def)
  next
    case (Some auth)
    with guarding.guards [OF assms(4) [OF Some] assms(5,6), of b c1] a show ?thesis by (auto simp: authorized_def)
  qed
  then consider (pass) "b = Inr True" "x_conn c1 = x_conn c" "x_request c1 = x_request c" | (refused) "b = Inr False" "one_write c c1"
    | (fault) auth f where "s_auth s = Some auth" "fst (auth c) = Inl (Abort f)" "b = Inl (Abort f)" by blast
  then show ?thesis
  proof cases
    case pass
    then have c1: "is_request (x_request c1)" "tc_open (x_conn c1)" using assms(5,6) by simp_all
    have "\<exists>r c'. (case findRequestHandler resource (s_resources s) of Some h \<Rightarrow> call_handler s h | None \<Rightarrow> s_not_found_handler s) c1 = (r, c') \<and>
        answered_or_thrown s c1 r c'"
    proof (cases "findRequestHandler resource (s_resources s)")
      case None
      with page_answers [OF assms(2) _ c1, of s] show ?thesis by (simp add: pages_never_throw_def)
    next
      case (Some h)
      then have "answering h" using findRequestHandler_Some [OF assms(7) Some] assms(1) by blast
      with call_handler_answers [of h s, OF _ assms(3) c1] Some show ?thesis by simp
    qed
    moreover have "answered_or_thrown s c1 r c' = answered_or_thrown s c r c'" for r c'
      using pass by (simp add: answered_or_thrown_def one_write_def)
    ultimately show ?thesis using a pass(1) by (auto simp: dispatch_def bindA_def)
  next
    case refused
    with a show ?thesis by (simp add: dispatch_def bindA_def returnA_def answered_or_thrown_def)
  next
    case fault
    with a show ?thesis by (auto simp: dispatch_def bindA_def)
  qed
qed

text \<open>C10: On an open connection every request is answered with exactly one write: valid or not, redirected,
  refused by the authentication, dispatched, unknown or with a handler that throws. The handlers of the resources, of
  unknown resources and of errors are any that write once or throw before they touch the connection, and the
  authentication is any that lets a request through untouched or refuses it with one write. There are two exceptions.
  The handlers of bad requests, of unknown resources and of errors are called outside of any
  \<open>try\<close>: when one of them throws, the exception leaves the server and nothing is written; the default pages never throw.
  And the authentication may end in a fault.\<close>

theorem server_answers:
  assumes "\<And>k h. (k, h) \<in> set (s_resources s) \<Longrightarrow> answering h" "answering (s_not_found_handler s)" "answering (s_bad_request_handler s)"
    and "\<And>msg. answering (s_server_error_handler s msg)" "\<And>auth. s_auth s = Some auth \<Longrightarrow> guarding auth"
    and "is_request (x_request c)" "tc_open (x_conn c)" "ordered (s_resources s)"
  shows "\<exists>r c'. handleRequest s c = (r, c') \<and>
     (r = Inr () \<and> one_write c c' \<or>
      (\<exists>msg. r = Inl (Std_exception msg)) \<and> x_conn c' = x_conn c \<and>
        \<not> (never_throws (s_bad_request_handler s) \<and> never_throws (s_not_found_handler s) \<and> (\<forall>msg. never_throws (s_server_error_handler s msg))) \<or>
      (\<exists>auth f req. s_auth s = Some auth \<and> m_headers req = m_headers (x_request c) \<and> fst (auth (c\<lparr>x_request := req\<rparr>)) = Inl (Abort f) \<and>
        r = Inl (Abort f)))"
proof -
  have "\<exists>r c'. handleRequest s c = (r, c') \<and> (answered_or_thrown s c r c' \<or>
      (\<exists>auth f req. s_auth s = Some auth \<and> m_headers req = m_headers (x_request c) \<and> fst (auth (c\<lparr>x_request := req\<rparr>)) = Inl (Abort f) \<and>
        r = Inl (Abort f)))"
  proof (cases "m_is_valid (x_request c)")
    case False
    with page_answers [OF assms(3) _ assms(6,7), of s] show ?thesis by (auto simp: handleRequest_def pages_never_throw_def)
  next
    case True
    obtain r where r: "as_request (x_request c) = Inr r" using as_request_ok [OF assms(6)] by blast
    obtain ok resource req where f: "follow_redirects (s_redirects s) 0 (stripTrailingSlash (m_resource r)) (x_request c) =
        Inr (ok, resource, req)" "is_request req" "m_headers req = m_headers (x_request c)"
      using follow_redirects_request [OF assms(6)] by (metis zero_le)
    define c1 where "c1 = c\<lparr>x_request := req\<rparr>"
    have c1: "is_request (x_request c1)" "tc_open (x_conn c1)" "answered_or_thrown s c1 r' c' = answered_or_thrown s c r' c'" for r' c'
      using f(2) assms(7) by (simp_all add: c1_def one_write_def answered_or_thrown_def)
    have run: "handleRequest s c = (if ok then dispatch s resource c1 else s_server_error_handler s TOO_MANY_REDIRECTS c1)"
      using True r f(1) by (simp add: handleRequest_def bindA_def lift_fault_def c1_def)
    show ?thesis
    proof (cases ok)
      case True
      have "\<exists>r c'. dispatch s resource c1 = (r, c') \<and>
        (answered_or_thrown s c1 r c' \<or> (\<exists>auth f. s_auth s = Some auth \<and> fst (auth c1) = Inl (Abort f) \<and> r = Inl (Abort f)))"
        by (rule dispatch_answers [OF assms(1,2,4,5) c1(1,2) assms(8)])
      with run True f(3) c1(3) show ?thesis unfolding c1_def by auto
    next
      case False
      from page_answers [OF assms(4) _ c1(1,2), of s TOO_MANY_REDIRECTS] run False c1(3) show ?thesis by (auto simp: pages_never_throw_def)
    qed
  qed
  then show ?thesis unfolding answered_or_thrown_def pages_never_throw_def by blast
qed

text \<open>A server with a handler that throws, an authentication that lets everyone through and the default pages.\<close>

definition throwing_server :: "boost_lib \<Rightarrow> unit HTTPServer" where
  "throwing_server lib = (addResource ''/fail/'' (\<lambda>c. (Inl (Std_exception ''failed''), c)) (HTTPServer_init lib))\<lparr>s_auth := Some (returnA True)\<rparr>"

definition fail_ctx :: "unit ctx" where
  "fail_ctx = \<lparr>x_request = (HTTPRequest_init ''/fail/x'')\<lparr>m_is_valid := True\<rparr>, x_conn = TCPConnection_init, x_world = ()\<rparr>"

lemma throwing_server_parts:
  "s_resources (throwing_server lib) = [(''/fail'', \<lambda>c. (Inl (Std_exception ''failed''), c))]" "s_auth (throwing_server lib) = Some (returnA True)"
  "s_bad_request_handler (throwing_server lib) = handleBadRequest lib" "s_not_found_handler (throwing_server lib) = handleNotFoundRequest lib"
  "s_server_error_handler (throwing_server lib) = handleServerError lib"
  by (simp_all add: throwing_server_def HTTPServer_init_def addResource_def stripTrailingSlash_def)

lemma server_answers_witness:
  "m_is_valid (x_request fail_ctx) \<and> (\<exists>c'. handleRequest (throwing_server writer_example_lib) fail_ctx = (Inr (), c') \<and> one_write fail_ctx c')"
proof -
  have "answering (\<lambda>c :: unit ctx. (Inl (Std_exception ''failed''), c))" by unfold_locales auto
  then have "\<And>k h. (k, h) \<in> set (s_resources (throwing_server writer_example_lib)) \<Longrightarrow> answering h"
    by (simp add: throwing_server_parts)
  moreover have "\<And>auth. s_auth (throwing_server writer_example_lib) = Some auth \<Longrightarrow> guarding auth"
    by (simp add: throwing_server_parts) (unfold_locales, simp add: returnA_def)
  moreover have "is_request (x_request fail_ctx)" "tc_open (x_conn fail_ctx)"
    by (simp_all add: fail_ctx_def HTTPRequest_init_def HTTPMessage_init_def is_request_def TCPConnection_init_def)
  ultimately have "\<exists>c'. handleRequest (throwing_server writer_example_lib) fail_ctx = (Inr (), c') \<and> one_write fail_ctx c'"
    using server_answers [of "throwing_server writer_example_lib" fail_ctx] not_found_page.answering_axioms [of writer_example_lib]
      bad_request_page.answering_axioms [of writer_example_lib] server_error_page.answering_axioms [of writer_example_lib]
      default_pages_never_throw [of writer_example_lib]
    by (simp add: throwing_server_parts) (auto simp: returnA_def)
  then show ?thesis by (simp add: fail_ctx_def)
qed

end
