(* ===== verification/Http_Auth.thy ===== *)
theory Http_Auth
  imports Http_Server Http_Codecs
begin

text \<open>
  Authentication: \<open>PionUser.hpp\<close>, \<open>HTTPAuth.cpp\<close>, \<open>HTTPBasicAuth.cpp\<close> and \<open>HTTPCookieAuth.cpp\<close>, configured
  without SSL, so that passwords are kept and compared as text. A user object is known by its name,
  which never changes; the caches keep user objects alive after the user manager has dropped them. The
  clock and the numbers drawn from the generator are inputs. Mutexes and logging are left out.
\<close>

section \<open>Users\<close>

type_synonym UserMap = "(string, string) std_map"

definition matchPassword :: "string \<Rightarrow> string \<Rightarrow> bool" where
  "matchPassword m_password password = (m_password = password)"

definition addUser :: "string \<Rightarrow> string \<Rightarrow> UserMap \<Rightarrow> bool \<times> UserMap" where
  "addUser username password m =
     (if map_find username m \<noteq> None then (False, m) else (True, map_insert username password m))"

definition updateUser :: "string \<Rightarrow> string \<Rightarrow> UserMap \<Rightarrow> bool \<times> UserMap" where
  "updateUser username password m =
     (if map_find username m = None then (False, m) else (True, map_assign username password m))"

definition removeUser :: "string \<Rightarrow> UserMap \<Rightarrow> bool \<times> UserMap" where
  "removeUser username m = (if map_find username m = None then (False, m) else (True, map_erase username m))"

definition getUser :: "string \<Rightarrow> string \<Rightarrow> UserMap \<Rightarrow> string option" where
  "getUser username password m =
     (case map_find username m of
        None \<Rightarrow> None
      | Some p \<Rightarrow> if matchPassword p password then Some username else None)"

section \<open>Restricted resources\<close>

type_synonym AuthResourceSet = "(string, unit) std_map"

record HTTPAuth =
  a_users :: UserMap
  a_restrict_list :: AuthResourceSet
  a_white_list :: AuthResourceSet

definition addRestrict :: "string \<Rightarrow> 'a HTTPAuth_scheme \<Rightarrow> 'a HTTPAuth_scheme" where
  "addRestrict resource a = a\<lparr>a_restrict_list := map_insert (stripTrailingSlash resource) () (a_restrict_list a)\<rparr>"

definition addPermit :: "string \<Rightarrow> 'a HTTPAuth_scheme \<Rightarrow> 'a HTTPAuth_scheme" where
  "addPermit resource a = a\<lparr>a_white_list := map_insert (stripTrailingSlash resource) () (a_white_list a)\<rparr>"

definition findResource :: "AuthResourceSet \<Rightarrow> string \<Rightarrow> bool" where
  "findResource resource_set resource =
     (search_back resource (rev (take (upper_bound resource resource_set) resource_set)) \<noteq> None)"

definition needAuthentication :: "'a HTTPAuth_scheme \<Rightarrow> string \<Rightarrow> bool" where
  "needAuthentication a requested =
     (if a_users a = [] then False
      else
        let resource = stripTrailingSlash requested
        in if a_restrict_list a = [] then False
           else if findResource (a_restrict_list a) resource then
             (if a_white_list a = [] then True else \<not> findResource (a_white_list a) resource)
           else False)"

text \<open>The state behind a server with authentication: the user of the current request, the clock, and the
  rest of the program.\<close>

record ('a, 'r) guarded =
  g_auth :: 'a
  g_user :: "string option"
  g_now :: int
  g_rest :: 'r

definition modify_auth :: "('a \<Rightarrow> 'a) \<Rightarrow> (('a, 'r) guarded, unit) action" where
  "modify_auth f c = (Inr (), c\<lparr>x_world := (x_world c)\<lparr>g_auth := f (g_auth (x_world c))\<rparr>\<rparr>)"

definition setUser :: "string \<Rightarrow> (('a, 'r) guarded, unit) action" where
  "setUser u c = (Inr (), c\<lparr>x_world := (x_world c)\<lparr>g_user := Some u\<rparr>\<rparr>)"

section \<open>Basic authentication\<close>

type_synonym PionUserCache = "(string, int \<times> string) std_map"

record HTTPBasicAuth = HTTPAuth +
  b_realm :: string
  b_cache_cleanup_time :: int
  b_user_cache :: PionUserCache

definition BASIC_CACHE_EXPIRATION :: int where "BASIC_CACHE_EXPIRATION = 300"

definition HTTPBasicAuth_init :: "UserMap \<Rightarrow> string \<Rightarrow> int \<Rightarrow> HTTPBasicAuth" where
  "HTTPBasicAuth_init users realm now =
     \<lparr>a_users = users, a_restrict_list = [], a_white_list = [], b_realm = realm, b_cache_cleanup_time = now,
      b_user_cache = []\<rparr>"

definition basic_setOption :: "string \<Rightarrow> string \<Rightarrow> HTTPBasicAuth \<Rightarrow> exn + HTTPBasicAuth" where
  "basic_setOption name val a =
     (if name = ''realm'' then Inr (a\<lparr>b_realm := val\<rparr>)
      else Inl (Std_exception (''Option not recognized by authentication service: '' @ name)))"

definition expire :: "int \<Rightarrow> int \<Rightarrow> PionUserCache \<Rightarrow> PionUserCache" where
  "expire limit time_now cache = filter (\<lambda>e. \<not> (time_now > fst (snd e) + limit)) cache"

definition basic_expireCache :: "int \<Rightarrow> HTTPBasicAuth \<Rightarrow> HTTPBasicAuth" where
  "basic_expireCache time_now a =
     (if time_now > b_cache_cleanup_time a + BASIC_CACHE_EXPIRATION
      then a\<lparr>b_user_cache := expire BASIC_CACHE_EXPIRATION time_now (b_user_cache a), b_cache_cleanup_time := time_now\<rparr>
      else a)"

definition parseAuthorization :: "string \<Rightarrow> string option" where
  "parseAuthorization authorization =
     (if take 6 authorization \<noteq> ''Basic '' then None
      else let credentials = drop 6 authorization in if credentials = [] then None else Some credentials)"

definition parseCredentials :: "string \<Rightarrow> fault + (string \<times> string) option" where
  "parseCredentials credentials =
     bindE (base64_decode credentials) (\<lambda>(ok, user_password).
       if \<not> ok then Inr None
       else
         let username = takeWhile (\<lambda>c. c \<noteq> CHR '':'') user_password
         in if username = [] \<or> username = user_password then Inr None
            else Inr (Some (username, drop (Suc (length username)) user_password)))"

text \<open>The user the \<open>Authorization\<close> header proves, and the cache after it.\<close>

definition check_authorization :: "int \<Rightarrow> string \<Rightarrow> HTTPBasicAuth \<Rightarrow> fault + (string option \<times> HTTPBasicAuth)" where
  "check_authorization time_now authorization a =
     (if authorization = [] then Inr (None, a)
      else case parseAuthorization authorization of
             None \<Rightarrow> Inr (None, a)
           | Some credentials \<Rightarrow>
               (case map_find credentials (b_user_cache a) of
                  Some (t, user) \<Rightarrow>
                    Inr (Some user, a\<lparr>b_user_cache := map_assign credentials (time_now, user) (b_user_cache a)\<rparr>)
                | None \<Rightarrow>
                    bindE (parseCredentials credentials) (\<lambda>res.
                      case res of
                        None \<Rightarrow> Inr (None, a)
                      | Some (username, password) \<Rightarrow>
                          (case getUser username password (a_users a) of
                             None \<Rightarrow> Inr (None, a)
                           | Some user \<Rightarrow>
                               Inr (Some user, a\<lparr>b_user_cache := map_insert credentials (time_now, user) (b_user_cache a)\<rparr>)))))"

abbreviation dq :: string where "dq \<equiv> [CHR 0x22]"

definition error_document :: "string \<Rightarrow> string \<Rightarrow> string" where
  "error_document title heading =
     '' <!DOCTYPE HTML PUBLIC '' @ dq @ ''-//W3C//DTD HTML 4.01 Transitional//EN'' @ dq
     @ dq @ ''http://www.w3.org/TR/1999/REC-html401-19991224/loose.dtd'' @ dq @ ''>''
     @ ''<HTML>'' @ ''<HEAD>'' @ ''<TITLE>'' @ title @ ''</TITLE>''
     @ ''<META HTTP-EQUIV='' @ dq @ ''Content-Type'' @ dq @ '' CONTENT='' @ dq @ ''text/html; charset=ISO-8859-1'' @ dq @ ''>''
     @ ''</HEAD>'' @ ''<BODY><H1>'' @ heading @ ''</H1></BODY>'' @ ''</HTML> ''"

definition UNAUTHORIZED_CONTENT :: string where
  "UNAUTHORIZED_CONTENT = error_document ''Error'' ''401 Unauthorized.''"

definition RESPONSE_CODE_UNAUTHORIZED :: "32 word" where "RESPONSE_CODE_UNAUTHORIZED = 401"
definition RESPONSE_MESSAGE_UNAUTHORIZED :: string where "RESPONSE_MESSAGE_UNAUTHORIZED = ''Unauthorized''"
definition HEADER_AUTHORIZATION :: string where "HEADER_AUTHORIZATION = ''Authorization''"

definition with_response :: "(HTTPMessage \<Rightarrow> HTTPMessage) \<Rightarrow> HTTPWriter \<Rightarrow> HTTPWriter" where
  "with_response f w = w\<lparr>w_http_response := f (w_http_response w)\<rparr>"

definition basic_handleUnauthorized :: "boost_lib \<Rightarrow> string \<Rightarrow> 'w handler" where
  "basic_handleUnauthorized lib realm =
     respond lib RESPONSE_CODE_UNAUTHORIZED RESPONSE_MESSAGE_UNAUTHORIZED
       (\<lambda>w. writeNoCopy UNAUTHORIZED_CONTENT
              (with_response (addHeader ''WWW-Authenticate'' (''Basic realm='' @ dq @ realm @ dq)) w))"

definition basic_handleRequest :: "boost_lib \<Rightarrow> ((HTTPBasicAuth, 'r) guarded, bool) action" where
  "basic_handleRequest lib c =
     bindA (lift_fault (as_request (x_request c))) (\<lambda>r.
       if \<not> needAuthentication (g_auth (x_world c)) (m_resource r) then returnA True
       else
         let time_now = g_now (x_world c); a = basic_expireCache time_now (g_auth (x_world c))
         in bindA (lift_fault (check_authorization time_now (getHeader HEADER_AUTHORIZATION (x_request c)) a))
              (\<lambda>(user, a'). bindA (modify_auth (\<lambda>_. a')) (\<lambda>_.
                 case user of
                   Some u \<Rightarrow> bindA (setUser u) (\<lambda>_. returnA True)
                 | None \<Rightarrow> bindA (basic_handleUnauthorized lib (b_realm a')) (\<lambda>_. returnA False)))) c"

section \<open>Cookie authentication\<close>

text \<open>\<open>ca_random\<close> is the sequence the generator draws from, each number a byte.\<close>

record HTTPCookieAuth = HTTPAuth +
  ca_login :: string
  ca_logout :: string
  ca_redirect :: string
  ca_random :: "nat \<Rightarrow> nat"
  ca_cache_cleanup_time :: int
  ca_user_cache :: PionUserCache

definition COOKIE_CACHE_EXPIRATION :: int where "COOKIE_CACHE_EXPIRATION = 3600"
definition RANDOM_COOKIE_BYTES :: nat where "RANDOM_COOKIE_BYTES = 20"
definition AUTH_COOKIE_NAME :: string where "AUTH_COOKIE_NAME = ''pion_session_id''"

text \<open>The constructor draws a hundred numbers.\<close>

definition HTTPCookieAuth_init :: "UserMap \<Rightarrow> string \<Rightarrow> string \<Rightarrow> string \<Rightarrow> (nat \<Rightarrow> nat) \<Rightarrow> int \<Rightarrow> HTTPCookieAuth" where
  "HTTPCookieAuth_init users login logout redirect random now =
     \<lparr>a_users = users, a_restrict_list = [], a_white_list = [], ca_login = login, ca_logout = logout,
      ca_redirect = redirect, ca_random = (\<lambda>n. random (n + 100)), ca_cache_cleanup_time = now, ca_user_cache = []\<rparr>"

definition cookie_setOption :: "string \<Rightarrow> string \<Rightarrow> HTTPCookieAuth \<Rightarrow> exn + HTTPCookieAuth" where
  "cookie_setOption name val a =
     (if name = ''login'' then Inr (a\<lparr>ca_login := val\<rparr>)
      else if name = ''logout'' then Inr (a\<lparr>ca_logout := val\<rparr>)
      else if name = ''redirect'' then Inr (a\<lparr>ca_redirect := val\<rparr>)
      else Inl (Std_exception (''Option not recognized by authentication service: '' @ name)))"

definition cookie_expireCache :: "int \<Rightarrow> HTTPCookieAuth \<Rightarrow> HTTPCookieAuth" where
  "cookie_expireCache time_now a =
     (if time_now > ca_cache_cleanup_time a + COOKIE_CACHE_EXPIRATION
      then a\<lparr>ca_user_cache := expire COOKIE_CACHE_EXPIRATION time_now (ca_user_cache a), ca_cache_cleanup_time := time_now\<rparr>
      else a)"

definition draw :: "HTTPCookieAuth \<Rightarrow> string \<times> HTTPCookieAuth" where
  "draw a = (map (\<lambda>i. char_of (ca_random a i)) [0..<RANDOM_COOKIE_BYTES],
     a\<lparr>ca_random := \<lambda>n. ca_random a (n + RANDOM_COOKIE_BYTES)\<rparr>)"

definition RESPONSE_CODE_NO_CONTENT :: "32 word" where "RESPONSE_CODE_NO_CONTENT = 204"
definition RESPONSE_MESSAGE_NO_CONTENT :: string where "RESPONSE_MESSAGE_NO_CONTENT = ''No Content''"
definition HEADER_LOCATION :: string where "HEADER_LOCATION = ''Location''"

definition set_session_cookie :: "boost_lib \<Rightarrow> string \<Rightarrow> bool \<Rightarrow> HTTPMessage \<Rightarrow> HTTPMessage" where
  "set_session_cookie lib new_cookie delete_cookie resp =
     (if delete_cookie then deleteCookie lib AUTH_COOKIE_NAME [] resp
      else if new_cookie \<noteq> [] then setCookie lib AUTH_COOKIE_NAME new_cookie [] resp
      else resp)"

definition handleRedirection :: "boost_lib \<Rightarrow> string \<Rightarrow> string \<Rightarrow> bool \<Rightarrow> 'w handler" where
  "handleRedirection lib redirection_url new_cookie delete_cookie =
     respond lib RESPONSE_CODE_FOUND RESPONSE_MESSAGE_FOUND
       (\<lambda>w. writeNoCopy (error_document ''Redirect'' ''302 Found.'')
              (with_response (\<lambda>resp. set_session_cookie lib new_cookie delete_cookie
                 (addHeader HEADER_LOCATION redirection_url resp)) w))"

definition handleOk :: "boost_lib \<Rightarrow> string \<Rightarrow> bool \<Rightarrow> 'w handler" where
  "handleOk lib new_cookie delete_cookie =
     respond lib RESPONSE_CODE_NO_CONTENT RESPONSE_MESSAGE_NO_CONTENT
       (with_response (set_session_cookie lib new_cookie delete_cookie))"

definition cookie_handleUnauthorized :: "boost_lib \<Rightarrow> HTTPCookieAuth \<Rightarrow> 'w handler" where
  "cookie_handleUnauthorized lib a =
     (if ca_redirect a \<noteq> [] then handleRedirection lib (ca_redirect a) [] False
      else respond lib RESPONSE_CODE_UNAUTHORIZED RESPONSE_MESSAGE_UNAUTHORIZED (writeNoCopy UNAUTHORIZED_CONTENT))"

definition getCookie :: "string \<Rightarrow> HTTPMessage \<Rightarrow> string" where
  "getCookie k msg = getValue (m_cookie_params msg) k"

definition getQuery :: "string \<Rightarrow> HTTPRequest_part \<Rightarrow> string" where
  "getQuery k r = getValue (m_query_params r) k"

text \<open>What a login or logout does to the sessions: \<open>None\<close> for a failed login, else the new cookie, the
  flag that deletes it, and the state.\<close>

definition session_change :: "int \<Rightarrow> string \<Rightarrow> HTTPRequest_part \<Rightarrow> HTTPMessage \<Rightarrow> HTTPCookieAuth
    \<Rightarrow> (string \<times> bool \<times> HTTPCookieAuth) option" where
  "session_change time_now resource r msg a =
     (if resource = ca_login a then
        (case getUser (url_decode (getQuery ''user'' r)) (url_decode (getQuery ''pass'' r)) (a_users a) of
           None \<Rightarrow> None
         | Some user \<Rightarrow>
             (case draw a of (rand_binary, a') \<Rightarrow>
                let new_cookie = snd (base64_encode rand_binary)
                in Some (new_cookie, False, a'\<lparr>ca_user_cache := map_insert new_cookie (time_now, user) (ca_user_cache a')\<rparr>)))
      else
        let auth_cookie = getCookie AUTH_COOKIE_NAME msg
        in Some ([], True, if auth_cookie = [] then a
             else a\<lparr>ca_user_cache := map_erase auth_cookie (ca_user_cache a)\<rparr>))"

definition processLogin :: "boost_lib \<Rightarrow> ((HTTPCookieAuth, 'r) guarded, bool) action" where
  "processLogin lib c =
     bindA (lift_fault (as_request (x_request c))) (\<lambda>r.
       let a = g_auth (x_world c); resource = stripTrailingSlash (m_resource r)
       in if resource \<noteq> ca_login a \<and> resource \<noteq> ca_logout a then returnA False
          else
            let redirect_url = url_decode (getQuery ''url'' r)
            in case session_change (g_now (x_world c)) resource r (x_request c) a of
                 None \<Rightarrow> bindA (cookie_handleUnauthorized lib a) (\<lambda>_. returnA True)
               | Some (new_cookie, delete_cookie, a') \<Rightarrow>
                   bindA (modify_auth (\<lambda>_. a')) (\<lambda>_.
                     bindA (if redirect_url \<noteq> [] then handleRedirection lib redirect_url new_cookie delete_cookie
                            else handleOk lib new_cookie delete_cookie) (\<lambda>_. returnA True))) c"

definition check_session :: "int \<Rightarrow> string \<Rightarrow> HTTPCookieAuth \<Rightarrow> string option \<times> HTTPCookieAuth" where
  "check_session time_now auth_cookie a =
     (if auth_cookie = [] then (None, a)
      else case map_find auth_cookie (ca_user_cache a) of
             None \<Rightarrow> (None, a)
           | Some (t, user) \<Rightarrow> (Some user, a\<lparr>ca_user_cache := map_assign auth_cookie (time_now, user) (ca_user_cache a)\<rparr>))"

definition cookie_handleRequest :: "boost_lib \<Rightarrow> ((HTTPCookieAuth, 'r) guarded, bool) action" where
  "cookie_handleRequest lib c =
     bindA (processLogin lib) (\<lambda>processed.
       if processed then returnA False
       else (\<lambda>c. bindA (lift_fault (as_request (x_request c))) (\<lambda>r.
         if \<not> needAuthentication (g_auth (x_world c)) (m_resource r) then returnA True
         else if ca_redirect (g_auth (x_world c)) \<noteq> [] \<and> ca_redirect (g_auth (x_world c)) = m_resource r then returnA True
         else
           (case check_session (g_now (x_world c)) (getCookie AUTH_COOKIE_NAME (x_request c))
                   (cookie_expireCache (g_now (x_world c)) (g_auth (x_world c))) of
              (user, a') \<Rightarrow>
                bindA (modify_auth (\<lambda>_. a')) (\<lambda>_.
                  case user of
                    Some u \<Rightarrow> bindA (setUser u) (\<lambda>_. returnA True)
                  | None \<Rightarrow> bindA (cookie_handleUnauthorized lib a') (\<lambda>_. returnA False)))) c)) c"

section \<open>What the server relies on\<close>

definition decided :: "'w ctx \<Rightarrow> (exn + bool) \<Rightarrow> 'w ctx \<Rightarrow> bool" where
  "decided c r c' \<longleftrightarrow> r = Inr True \<and> x_conn c' = x_conn c \<and> x_request c' = x_request c \<or> r = Inr False \<and> one_write c c' \<or>
     (\<exists>f. r = Inl (Abort f))"

lemma respond_decided:
  assumes "is_request (x_request c)" "tc_open (x_conn c)" "x_conn c = x_conn c0"
  shows "\<exists>c'. bindA (respond lib n msg fill) (\<lambda>_. returnA b) c = (Inr b, c') \<and> one_write c0 c'"
  using respond_open [OF assms(1,2), of lib n msg fill] assms(3) by (auto simp: bindA_def returnA_def one_write_def)

lemma basic_decides:
  assumes "is_request (x_request c)" "tc_open (x_conn c)" "basic_handleRequest lib c = (r, c')"
  shows "decided c r c'"
proof -
  obtain q where q: "as_request (x_request c) = Inr q" using as_request_ok [OF assms(1)] by blast
  define a where "a = basic_expireCache (g_now (x_world c)) (g_auth (x_world c))"
  define checked where "checked = check_authorization (g_now (x_world c)) (getHeader HEADER_AUTHORIZATION (x_request c)) a"
  show ?thesis
  proof (cases "needAuthentication (g_auth (x_world c)) (m_resource q)")
    case False
    with assms(3) q show ?thesis by (auto simp: basic_handleRequest_def bindA_def lift_fault_def returnA_def decided_def)
  next
    case True
    show ?thesis
    proof (cases checked)
      case (Inl f)
      with True assms(3) q show ?thesis
        by (auto simp: basic_handleRequest_def bindA_def lift_fault_def decided_def Let_def a_def checked_def)
    next
      case (Inr x)
      obtain user a' where x: "x = (user, a')" by fastforce
      define c1 where "c1 = c\<lparr>x_world := (x_world c)\<lparr>g_auth := a'\<rparr>\<rparr>"
      have run: "basic_handleRequest lib c = (case user of
          Some u \<Rightarrow> (Inr True, c1\<lparr>x_world := (x_world c1)\<lparr>g_user := Some u\<rparr>\<rparr>)
        | None \<Rightarrow> bindA (basic_handleUnauthorized lib (b_realm a')) (\<lambda>_. returnA False) c1)"
        using True q Inr x by (simp add: basic_handleRequest_def bindA_def lift_fault_def returnA_def modify_auth_def setUser_def Let_def
            a_def checked_def c1_def split: option.splits)
      have "\<exists>c'. bindA (basic_handleUnauthorized lib (b_realm a')) (\<lambda>_. returnA False) c1 = (Inr False, c') \<and> one_write c c'"
        unfolding basic_handleUnauthorized_def by (rule respond_decided) (use assms(1,2) in \<open>simp_all add: c1_def\<close>)
      with run assms(3) show ?thesis by (cases user) (auto simp: decided_def c1_def)
    qed
  qed
qed

lemma unauthorized_decided:
  assumes "is_request (x_request c)" "tc_open (x_conn c)" "x_conn c = x_conn c0"
  shows "\<exists>c'. bindA (cookie_handleUnauthorized lib a) (\<lambda>_. returnA b) c = (Inr b, c') \<and> one_write c0 c'"
  by (cases "ca_redirect a = []") (simp_all add: cookie_handleUnauthorized_def handleRedirection_def respond_decided [OF assms])

lemma login_decided:
  assumes "is_request (x_request c)" "tc_open (x_conn c)"
  shows "processLogin lib c = (Inr False, c) \<or> (\<exists>c'. processLogin lib c = (Inr True, c') \<and> one_write c c')"
proof -
  obtain q where q: "as_request (x_request c) = Inr q" using as_request_ok [OF assms(1)] by blast
  define a where "a = g_auth (x_world c)"
  show ?thesis
  proof (cases "stripTrailingSlash (m_resource q) \<noteq> ca_login a \<and> stripTrailingSlash (m_resource q) \<noteq> ca_logout a")
    case True
    with q show ?thesis by (simp add: processLogin_def bindA_def lift_fault_def returnA_def Let_def a_def)
  next
    case False
    define change where "change = session_change (g_now (x_world c)) (stripTrailingSlash (m_resource q)) q (x_request c) a"
    have run: "processLogin lib c = (case change of
        None \<Rightarrow> bindA (cookie_handleUnauthorized lib a) (\<lambda>_. returnA True) c
      | Some (new_cookie, delete_cookie, a') \<Rightarrow>
          bindA (if url_decode (getQuery ''url'' q) \<noteq> [] then handleRedirection lib (url_decode (getQuery ''url'' q)) new_cookie delete_cookie
             else handleOk lib new_cookie delete_cookie) (\<lambda>_. returnA True) (c\<lparr>x_world := (x_world c)\<lparr>g_auth := a'\<rparr>\<rparr>))"
      using False q by (auto simp: processLogin_def bindA_def [of "lift_fault _"] bindA_def [of "modify_auth _"] lift_fault_def modify_auth_def Let_def
          a_def change_def split: option.splits)
    show ?thesis
    proof (cases change)
      case None
      with run unauthorized_decided [OF assms refl, of lib a True] show ?thesis by auto
    next
      case (Some x)
      obtain new_cookie delete_cookie a' where x: "x = (new_cookie, delete_cookie, a')" by (cases x)
      have "\<exists>c'. bindA (if url_decode (getQuery ''url'' q) \<noteq> [] then handleRedirection lib (url_decode (getQuery ''url'' q)) new_cookie delete_cookie
             else handleOk lib new_cookie delete_cookie) (\<lambda>_. returnA True) (c\<lparr>x_world := (x_world c)\<lparr>g_auth := a'\<rparr>\<rparr>) = (Inr True, c') \<and> one_write c c'"
        unfolding handleRedirection_def handleOk_def using assms by (auto intro!: respond_decided)
      with run Some x show ?thesis by simp
    qed
  qed
qed

lemma cookie_decides:
  assumes "is_request (x_request c)" "tc_open (x_conn c)" "cookie_handleRequest lib c = (r, c')"
  shows "decided c r c'"
proof (cases "processLogin lib c = (Inr False, c)")
  case False
  with login_decided [OF assms(1,2), of lib] assms(3) show ?thesis
    by (auto simp: cookie_handleRequest_def bindA_def [of "processLogin _"] returnA_def decided_def)
next
  case True
  obtain q where q: "as_request (x_request c) = Inr q" using as_request_ok [OF assms(1)] by blast
  show ?thesis
  proof (cases "\<not> needAuthentication (g_auth (x_world c)) (m_resource q) \<or>
      ca_redirect (g_auth (x_world c)) \<noteq> [] \<and> ca_redirect (g_auth (x_world c)) = m_resource q")
    case pass: True
    with True assms(3) q show ?thesis
      by (auto simp: cookie_handleRequest_def bindA_def lift_fault_def returnA_def decided_def split: if_splits)
  next
    case False
    obtain user a' where x: "check_session (g_now (x_world c)) (getCookie AUTH_COOKIE_NAME (x_request c))
        (cookie_expireCache (g_now (x_world c)) (g_auth (x_world c))) = (user, a')" by fastforce
    define c1 where "c1 = c\<lparr>x_world := (x_world c)\<lparr>g_auth := a'\<rparr>\<rparr>"
    have run: "cookie_handleRequest lib c = (case user of
        Some u \<Rightarrow> (Inr True, c1\<lparr>x_world := (x_world c1)\<lparr>g_user := Some u\<rparr>\<rparr>)
      | None \<Rightarrow> bindA (cookie_handleUnauthorized lib a') (\<lambda>_. returnA False) c1)"
      using False True q x by (auto simp: cookie_handleRequest_def bindA_def lift_fault_def returnA_def modify_auth_def setUser_def
          c1_def split: option.splits)
    have "\<exists>c'. bindA (cookie_handleUnauthorized lib a') (\<lambda>_. returnA False) c1 = (Inr False, c') \<and> one_write c c'"
      by (rule unauthorized_decided) (use assms(1,2) in \<open>simp_all add: c1_def\<close>)
    with run assms(3) show ?thesis by (cases user) (auto simp: decided_def c1_def)
  qed
qed

interpretation basic_guard: guarding "basic_handleRequest lib :: ((HTTPBasicAuth, 'r) guarded, bool) action"
  by unfold_locales (use basic_decides in \<open>unfold decided_def, blast\<close>)

interpretation cookie_guard: guarding "cookie_handleRequest lib :: ((HTTPCookieAuth, 'r) guarded, bool) action"
  by unfold_locales (use cookie_decides in \<open>unfold decided_def, blast\<close>)

end
