(* ===== verification/Auth_Properties.thy ===== *)
theory Auth_Properties
  imports Http_Auth
begin

text \<open>
  What authentication guarantees: which resources need it, that accepted credentials belong to a user,
  that a user is accepted, and how long access lasts.
\<close>

section \<open>Restricted resources\<close>

lemma findResource_covers: "ordered m \<Longrightarrow> findResource m resource \<longleftrightarrow> (\<exists>e\<in>set m. covers (fst e) resource)"
  using findRequestHandler_None [of m resource]
  by (cases "m = []") (auto simp: findResource_def findRequestHandler_def)

section \<open>Users\<close>

lemma getUser_Some: "getUser username password m = Some u \<longleftrightarrow> u = username \<and> map_find username m = Some password"
  by (auto simp: getUser_def matchPassword_def split: option.splits)

lemma users_ordered:
  "ordered m \<Longrightarrow> ordered (snd (addUser u p m))" "ordered m \<Longrightarrow> ordered (snd (updateUser u p m))"
  "ordered m \<Longrightarrow> ordered (snd (removeUser u m))"
  by (simp_all add: addUser_def updateUser_def removeUser_def std.inv_ins std.inv_del ordered_map_assign)

lemma base64_encode_nonempty:
  assumes "s \<noteq> []" "length s \<le> 1000000000"
  shows "snd (base64_encode s) \<noteq> []"
proof
  assume "snd (base64_encode s) = []"
  with base64_decode_encode [of s] assms show False by (simp add: base64_decode_def uint32_prefix_def)
qed

section \<open>The history of a basic authentication\<close>

text \<open>The states an object reaches by its operations, with the pairs of names and passwords that were valid
  at some time.\<close>

inductive basic_state :: "(string \<times> string) set \<Rightarrow> HTTPBasicAuth \<Rightarrow> bool" where
  created: "ordered users \<Longrightarrow> basic_state (set users) (HTTPBasicAuth_init users realm now)"
| added: "basic_state G a \<Longrightarrow> m = snd (addUser u p (a_users a)) \<Longrightarrow> basic_state (G \<union> set m) (a\<lparr>a_users := m\<rparr>)"
| updated: "basic_state G a \<Longrightarrow> m = snd (updateUser u p (a_users a)) \<Longrightarrow> basic_state (G \<union> set m) (a\<lparr>a_users := m\<rparr>)"
| removed: "basic_state G a \<Longrightarrow> m = snd (removeUser u (a_users a)) \<Longrightarrow> basic_state (G \<union> set m) (a\<lparr>a_users := m\<rparr>)"
| restricted: "basic_state G a \<Longrightarrow> basic_state G (addRestrict resource a)"
| permitted: "basic_state G a \<Longrightarrow> basic_state G (addPermit resource a)"
| option_set: "basic_state G a \<Longrightarrow> basic_setOption name v a = Inr a' \<Longrightarrow> basic_state G a'"
| request: "basic_state G a \<Longrightarrow> check_authorization now header (basic_expireCache now a) = Inr (user, a') \<Longrightarrow> basic_state G a'"

definition basic_inv :: "(string \<times> string) set \<Rightarrow> HTTPBasicAuth \<Rightarrow> bool" where
  "basic_inv G a \<longleftrightarrow> ordered (a_users a) \<and> ordered (b_user_cache a) \<and> set (a_users a) \<subseteq> G \<and>
     (\<forall>cred t u. map_find cred (b_user_cache a) = Some (t, u) \<longrightarrow>
        (\<exists>p. (u, p) \<in> G \<and> parseCredentials cred = Inr (Some (u, p))))"

lemma ordered_filter: "ordered m \<Longrightarrow> ordered (filter P m)"
  by (induction m) auto

lemma ordered_distinct: "ordered m \<Longrightarrow> distinct (map fst m)"
  unfolding ordered_def by (metis strict_sorted_iff)

lemma map_find_filter: "ordered m \<Longrightarrow> map_find k (filter P m) = Some v \<Longrightarrow> map_find k m = Some v"
proof -
  assume o: "ordered m" and f: "map_find k (filter P m) = Some v"
  have "distinct (map fst m)" using o by (rule ordered_distinct)
  moreover have "(k, v) \<in> set m" using f by (auto simp: map_find_def dest!: map_of_SomeD)
  ultimately show ?thesis by (simp add: map_find_def)
qed

lemma map_find_expire:
  assumes "ordered m" "map_find k m = Some (t, u)" "now \<le> t + limit"
  shows "map_find k (expire limit now m) = Some (t, u)"
proof -
  have "(k, (t, u)) \<in> set (expire limit now m)" using assms(2,3) by (auto simp: map_find_def expire_def dest: map_of_SomeD)
  moreover have "distinct (map fst (expire limit now m))"
    unfolding expire_def by (rule ordered_distinct [OF ordered_filter [OF assms(1)]])
  ultimately show ?thesis by (simp add: map_find_def)
qed

lemma expire_inv: "basic_inv G a \<Longrightarrow> basic_inv G (basic_expireCache now a)"
  using map_find_filter [of "b_user_cache a"]
  by (fastforce simp: basic_inv_def basic_expireCache_def expire_def intro: ordered_filter)

lemma check_inv:
  assumes "basic_inv G a" "check_authorization now header a = Inr (user, a')"
  shows "basic_inv G a' \<and> (\<forall>u. user = Some u \<longrightarrow>
     (\<exists>cred p. header = ''Basic '' @ cred \<and> parseCredentials cred = Inr (Some (u, p)) \<and> (u, p) \<in> G))"
proof (cases "parseAuthorization header")
  case None
  with assms show ?thesis by (auto simp: check_authorization_def split: if_splits)
next
  case (Some cred)
  then have hd: "header = ''Basic '' @ cred" "header \<noteq> []"
    unfolding parseAuthorization_def Let_def by (metis append_take_drop_id option.distinct(1) option.inject) (use Some in \<open>auto simp: parseAuthorization_def\<close>)
  note ords = assms(1) [unfolded basic_inv_def]
  show ?thesis
  proof (cases "map_find cred (b_user_cache a)")
    case (Some e)
    obtain t u where e: "e = (t, u)" by (cases e)
    with Some assms(2) \<open>parseAuthorization header = Some cred\<close> hd(2) have
      "user = Some u" "a' = a\<lparr>b_user_cache := map_assign cred (now, u) (b_user_cache a)\<rparr>"
      by (simp_all add: check_authorization_def)
    moreover obtain p where "(u, p) \<in> G" "parseCredentials cred = Inr (Some (u, p))" using ords Some e by blast
    ultimately show ?thesis using ords hd(1) by (auto simp: basic_inv_def ordered_map_assign map_find_assign)
  next
    case None
    obtain res where res: "parseCredentials cred = Inr res"
      using assms(2) Some hd(2) None by (cases "parseCredentials cred") (simp_all add: check_authorization_def)
    show ?thesis
    proof (cases "\<exists>un pw. res = Some (un, pw) \<and> getUser un pw (a_users a) \<noteq> None")
      case True
      then obtain un pw u where u: "res = Some (un, pw)" "getUser un pw (a_users a) = Some u" by auto
      with assms(2) Some hd(2) None res have
        "user = Some u" "a' = a\<lparr>b_user_cache := map_insert cred (now, u) (b_user_cache a)\<rparr>"
        by (simp_all add: check_authorization_def)
      moreover have "u = un" "(un, pw) \<in> G" using u(2) ords by (auto simp: getUser_Some map_find_def dest: map_of_SomeD)
      ultimately show ?thesis using ords hd(1) res u(1)
        by (auto simp: basic_inv_def ordered_map_insert map_find_insert split: if_splits)
    next
      case False
      with assms Some hd(2) None res show ?thesis
        by (auto simp: check_authorization_def split: option.splits)
    qed
  qed
qed

lemma users_inv:
  assumes "basic_inv G a" "ordered m"
  shows "basic_inv (G \<union> set m) (a\<lparr>a_users := m\<rparr>)"
proof -
  have "\<exists>p. (u, p) \<in> G \<union> set m \<and> parseCredentials cred = Inr (Some (u, p))"
    if "map_find cred (b_user_cache a) = Some (t, u)" for cred t u
    using assms(1) that unfolding basic_inv_def by blast
  with assms show ?thesis by (auto simp: basic_inv_def)
qed

lemma basic_state_inv: "basic_state G a \<Longrightarrow> basic_inv G a"
proof (induction rule: basic_state.induct)
  case (request G a now header user a')
  then show ?case using check_inv expire_inv by blast
next
  case (option_set G a name v a')
  then show ?case by (auto simp: basic_setOption_def basic_inv_def split: if_splits)
next
  case (added G a m u p)
  then show ?case using users_inv users_ordered(1) by (simp add: basic_inv_def)
next
  case (updated G a m u p)
  then show ?case using users_inv users_ordered(2) by (simp add: basic_inv_def)
next
  case (removed G a m u)
  then show ?case using users_inv users_ordered(3) by (simp add: basic_inv_def)
qed (auto simp: basic_inv_def HTTPBasicAuth_init_def addRestrict_def addPermit_def map_find_def)

section \<open>Requests\<close>

lemma basic_handleRequest_eq:
  assumes "m_class (x_request c) = Request r" "needAuthentication (g_auth (x_world c)) (m_resource r)"
    and "check_authorization (g_now (x_world c)) (getHeader HEADER_AUTHORIZATION (x_request c))
        (basic_expireCache (g_now (x_world c)) (g_auth (x_world c))) = Inr (user, a')"
  shows "basic_handleRequest lib c =
     (case user of
        Some u \<Rightarrow> (Inr True, c\<lparr>x_world := (x_world c)\<lparr>g_auth := a', g_user := Some u\<rparr>\<rparr>)
      | None \<Rightarrow> bindA (basic_handleUnauthorized lib (b_realm a')) (\<lambda>_. returnA False) (c\<lparr>x_world := (x_world c)\<lparr>g_auth := a'\<rparr>\<rparr>))"
  using assms
  by (simp add: basic_handleRequest_def bindA_def lift_fault_def as_request_def returnA_def modify_auth_def setUser_def Let_def
      split: option.splits)

lemma bindA_returnA: "bindA f (\<lambda>_. returnA b) c = (r, c') \<Longrightarrow> r = Inr b' \<Longrightarrow> b' = b"
  by (auto simp: bindA_def returnA_def split: prod.splits sum.splits)

lemma check_authorization_accepts:
  assumes "map_find u (a_users a) = Some p" "u \<noteq> []" "CHR '':'' \<notin> set u" "length (u @ '':'' @ p) \<le> 1000000000"
    and "map_find (snd (base64_encode (u @ '':'' @ p))) (b_user_cache a) = None" "ordered (b_user_cache a)"
  shows "\<exists>a'. check_authorization now (''Basic '' @ snd (base64_encode (u @ '':'' @ p))) a = Inr (Some u, a') \<and>
     map_find (snd (base64_encode (u @ '':'' @ p))) (b_user_cache a') = Some (now, u)"
proof -
  define cred where "cred = snd (base64_encode (u @ '':'' @ p))"
  have dec: "base64_decode cred = Inr (True, u @ '':'' @ p)"
    unfolding cred_def by (rule base64_decode_encode) (use assms(4) in simp)
  have tw: "takeWhile (\<lambda>c. c \<noteq> CHR '':'') (u @ CHR '':'' # p) = u" by (subst takeWhile_append2) (use assms(3) in auto)
  have "parseCredentials cred = Inr (Some (u, p))" using assms(2) by (simp add: parseCredentials_def dec tw Let_def)
  moreover have "cred \<noteq> []" unfolding cred_def by (rule base64_encode_nonempty) (use assms(4) in simp_all)
  then have "parseAuthorization (''Basic '' @ cred) = Some cred" by (simp add: parseAuthorization_def)
  moreover have "getUser u p (a_users a) = Some u" using assms(1) by (simp add: getUser_Some)
  ultimately show ?thesis using assms(5,6) unfolding cred_def [symmetric]
    by (simp add: check_authorization_def map_find_insert)
qed

section \<open>Properties\<close>

definition example_auth :: HTTPBasicAuth where
  "example_auth = addPermit ''/admin/login'' (addRestrict ''/admin/'' (HTTPBasicAuth_init [(''bob'', ''pw'')] ''R'' 0))"

lemma example_needs: "needAuthentication example_auth ''/admin''"
  by code_simp

text \<open>C31: A request needs authentication exactly when there is a user, a restricted resource covers its path
  and no permitted one does, whatever was added in which order.\<close>

theorem restricted_resources:
  assumes "ordered (a_restrict_list a)" "ordered (a_white_list a)"
  shows "needAuthentication a requested \<longleftrightarrow> a_users a \<noteq> [] \<and>
     (\<exists>e\<in>set (a_restrict_list a). covers (fst e) (stripTrailingSlash requested)) \<and>
     \<not> (\<exists>e\<in>set (a_white_list a). covers (fst e) (stripTrailingSlash requested))"
  using findResource_covers [OF assms(1)] findResource_covers [OF assms(2)]
  by (auto simp: needAuthentication_def Let_def)

lemma restricted_resources_witness:
  "needAuthentication example_auth ''/admin/x/'' \<and> \<not> needAuthentication example_auth ''/admin/login/1'' \<and>
   \<not> needAuthentication example_auth ''/administrator''"
  using restricted_resources [of example_auth]
  by (simp add: example_auth_def addPermit_def addRestrict_def HTTPBasicAuth_init_def stripTrailingSlash_def covers_def)

text \<open>C9: Basic authentication is sound over any history of users and requests: a request that is let through
  to a restricted resource has an \<open>Authorization\<close> header that decodes to the name and a password of a
  user, which were valid together when the credentials were presented or at an earlier time, and that user
  is the one set in the request.\<close>

theorem basic_auth_sound:
  assumes "basic_state G (g_auth (x_world c))" "m_class (x_request c) = Request r"
    and "needAuthentication (g_auth (x_world c)) (m_resource r)" "basic_handleRequest lib c = (Inr True, c')"
  shows "\<exists>cred u p. getHeader HEADER_AUTHORIZATION (x_request c) = ''Basic '' @ cred \<and>
     parseCredentials cred = Inr (Some (u, p)) \<and> (u, p) \<in> G \<and> g_user (x_world c') = Some u"
proof -
  define now where "now = g_now (x_world c)"
  define a where "a = basic_expireCache now (g_auth (x_world c))"
  obtain user a' where ch: "check_authorization now (getHeader HEADER_AUTHORIZATION (x_request c)) a = Inr (user, a')"
    using assms(2-4) by (cases "check_authorization now (getHeader HEADER_AUTHORIZATION (x_request c)) a")
      (auto simp: basic_handleRequest_def bindA_def lift_fault_def as_request_def now_def a_def Let_def)
  note eq = basic_handleRequest_eq [OF assms(2,3) ch [unfolded a_def now_def], of lib]
  have "user \<noteq> None"
  proof
    assume "user = None"
    with assms(4) eq have "bindA (basic_handleUnauthorized lib (b_realm a')) (\<lambda>_. returnA False)
        (c\<lparr>x_world := (x_world c)\<lparr>g_auth := a'\<rparr>\<rparr>) = (Inr True, c')" by simp
    from bindA_returnA [OF this refl] show False by simp
  qed
  then obtain u where u: "user = Some u" by blast
  have "basic_inv G a" unfolding a_def using basic_state_inv [OF assms(1)] by (rule expire_inv)
  from check_inv [OF this ch] u assms(4) show ?thesis unfolding eq by auto
qed

definition example_ctx :: "(HTTPBasicAuth, unit) guarded ctx" where
  "example_ctx = \<lparr>x_request = addHeader HEADER_AUTHORIZATION (''Basic '' @ snd (base64_encode ''bob:pw'')) (HTTPRequest_init ''/admin''),
     x_conn = TCPConnection_init, x_world = \<lparr>g_auth = example_auth, g_user = None, g_now = 7, g_rest = ()\<rparr>\<rparr>"

lemma example_ctx_accepted: "\<exists>c'. basic_handleRequest writer_example_lib example_ctx = (Inr True, c')"
proof -
  have "map_find ''bob'' (a_users example_auth) = Some ''pw''"
    by (simp add: example_auth_def addPermit_def addRestrict_def HTTPBasicAuth_init_def map_find_def)
  from check_authorization_accepts [OF this, of 7] obtain a' where
    a': "check_authorization 7 (''Basic '' @ snd (base64_encode ''bob:pw'')) example_auth = Inr (Some ''bob'', a')"
    by (auto simp: example_auth_def addPermit_def addRestrict_def HTTPBasicAuth_init_def map_find_def)
  have h: "getHeader HEADER_AUTHORIZATION (x_request example_ctx) = ''Basic '' @ snd (base64_encode ''bob:pw'')"
    by (simp add: example_ctx_def getHeader_def addHeader_def HTTPRequest_init_def HTTPMessage_init_def getValue_def dict_eqs)
  have "basic_expireCache 7 example_auth = example_auth"
    by (simp add: basic_expireCache_def example_auth_def addPermit_def addRestrict_def HTTPBasicAuth_init_def BASIC_CACHE_EXPIRATION_def)
  with a' h have ch: "check_authorization (g_now (x_world example_ctx)) (getHeader HEADER_AUTHORIZATION (x_request example_ctx))
      (basic_expireCache (g_now (x_world example_ctx)) (g_auth (x_world example_ctx))) = Inr (Some ''bob'', a')"
    by (simp add: example_ctx_def)
  show ?thesis
    using basic_handleRequest_eq [OF _ _ ch] by (simp add: example_ctx_def addHeader_def HTTPRequest_init_def HTTPMessage_init_def example_needs)
qed

lemma basic_auth_sound_witness:
  "\<exists>cred u p. getHeader HEADER_AUTHORIZATION (x_request example_ctx) = ''Basic '' @ cred \<and>
     parseCredentials cred = Inr (Some (u, p)) \<and> (u, p) \<in> {(''bob'', ''pw'')}"
proof -
  obtain c' where c': "basic_handleRequest writer_example_lib example_ctx = (Inr True, c')" using example_ctx_accepted by blast
  have "basic_state (set [(''bob'', ''pw'')]) example_auth"
    unfolding example_auth_def by (intro basic_state.permitted basic_state.restricted basic_state.created) simp
  then have st: "basic_state {(''bob'', ''pw'')} (g_auth (x_world example_ctx))" by (simp add: example_ctx_def)
  obtain r where r: "m_class (x_request example_ctx) = Request r" "m_resource r = ''/admin''"
    by (simp add: example_ctx_def addHeader_def HTTPRequest_init_def HTTPMessage_init_def)
  have "needAuthentication (g_auth (x_world example_ctx)) (m_resource r)" using r(2) example_needs by (simp add: example_ctx_def)
  from basic_auth_sound [OF st r(1) this c'] show ?thesis by blast
qed

text \<open>A user who presents name and password as the standard prescribes is let through, and the
  credentials stay in the cache.\<close>

theorem basic_auth_accepts:
  assumes "map_find u (a_users a) = Some p" "u \<noteq> []" "CHR '':'' \<notin> set u" "length (u @ '':'' @ p) \<le> 1000000000"
    and "map_find (snd (base64_encode (u @ '':'' @ p))) (b_user_cache a) = None" "ordered (b_user_cache a)"
  shows "\<exists>a'. check_authorization now (''Basic '' @ snd (base64_encode (u @ '':'' @ p))) a = Inr (Some u, a') \<and>
     map_find (snd (base64_encode (u @ '':'' @ p))) (b_user_cache a') = Some (now, u)"
  using assms by (rule check_authorization_accepts)

lemma basic_auth_accepts_witness:
  "\<exists>a'. check_authorization 7 (''Basic '' @ snd (base64_encode ''bob:pw'')) example_auth = Inr (Some ''bob'', a') \<and>
     map_find (snd (base64_encode ''bob:pw'')) (b_user_cache a') = Some (7, ''bob'')"
proof -
  have "map_find ''bob'' (a_users example_auth) = Some ''pw''"
    by (simp add: example_auth_def addPermit_def addRestrict_def HTTPBasicAuth_init_def map_find_def)
  from basic_auth_accepts [OF this] show ?thesis
    by (simp add: example_auth_def addPermit_def addRestrict_def HTTPBasicAuth_init_def map_find_def)
qed

text \<open>Removing a user does not end the access of a client that was let in before: as long as it comes back
  before its entry expires, its credentials are found in the cache, whatever the users are by then.\<close>

theorem removed_user_accepted:
  assumes "check_authorization t1 header a = Inr (Some u, a1)" "ordered (b_user_cache a)" "ordered (a_users a1)"
    and "a2 = a1\<lparr>a_users := snd (removeUser u (a_users a1))\<rparr>" "t2 \<le> t1 + BASIC_CACHE_EXPIRATION"
  shows "map_find u (a_users a2) = None \<and>
     (\<exists>a3. check_authorization t2 header (basic_expireCache t2 a2) = Inr (Some u, a3))"
proof
  show "map_find u (a_users a2) = None"
    using assms(3,4) by (auto simp: removeUser_def map_find_erase)
next
  obtain cred where cred: "parseAuthorization header = Some cred" "header \<noteq> []"
    using assms(1) by (auto simp: check_authorization_def split: if_splits option.splits)
  have cached: "map_find cred (b_user_cache a1) = Some (t1, u)" "ordered (b_user_cache a1)"
    using assms(1,2) cred
    by (auto simp: check_authorization_def map_find_assign map_find_insert ordered_map_assign ordered_map_insert bindE_def
        split: if_splits option.splits sum.splits)
  have "map_find cred (b_user_cache (basic_expireCache t2 a2)) = Some (t1, u)"
    using map_find_expire [OF cached(2,1) assms(5)] cached(1) assms(4) by (simp add: basic_expireCache_def)
  with cred show "\<exists>a3. check_authorization t2 header (basic_expireCache t2 a2) = Inr (Some u, a3)"
    by (simp add: check_authorization_def)
qed

lemma removed_user_accepted_witness:
  "\<exists>a1. check_authorization 7 (''Basic '' @ snd (base64_encode ''bob:pw'')) example_auth = Inr (Some ''bob'', a1) \<and>
     map_find ''bob'' (snd (removeUser ''bob'' (a_users a1))) = None \<and>
     (\<exists>a3. check_authorization 9 (''Basic '' @ snd (base64_encode ''bob:pw''))
       (basic_expireCache 9 (a1\<lparr>a_users := snd (removeUser ''bob'' (a_users a1))\<rparr>)) = Inr (Some ''bob'', a3))"
proof -
  have "map_find ''bob'' (a_users example_auth) = Some ''pw''"
    by (simp add: example_auth_def addPermit_def addRestrict_def HTTPBasicAuth_init_def map_find_def)
  from check_authorization_accepts [OF this, of 7] obtain a1 where
    a1: "check_authorization 7 (''Basic '' @ snd (base64_encode ''bob:pw'')) example_auth = Inr (Some ''bob'', a1)"
    by (auto simp: example_auth_def addPermit_def addRestrict_def HTTPBasicAuth_init_def map_find_def)
  have "a_users a1 = a_users example_auth" using a1
    by (auto simp: check_authorization_def bindE_def split: if_splits option.splits sum.splits)
  moreover have "ordered (a_users example_auth)" "ordered (b_user_cache example_auth)"
    by (simp_all add: example_auth_def addPermit_def addRestrict_def HTTPBasicAuth_init_def)
  ultimately show ?thesis using removed_user_accepted [OF a1 _ _ refl, of 9] a1 by (simp add: BASIC_CACHE_EXPIRATION_def)
qed

text \<open>C32: The life of a session of cookie authentication: a successful login was made with the name and
  password of a user and hands out a cookie that was not empty; if no other session has that cookie, it is accepted
  as that user until it expires, and after a logout with it it is refused.\<close>

theorem cookie_session_lifecycle:
  assumes "session_change t0 (ca_login a) r msg a = Some (cookie, delete_cookie, a1)" "ordered (ca_user_cache a)"
    and "map_find cookie (ca_user_cache a) = None" "ca_logout a \<noteq> ca_login a"
    and "t1 \<le> t0 + COOKIE_CACHE_EXPIRATION" "getCookie AUTH_COOKIE_NAME msg' = cookie"
  shows "\<exists>u a2 a3. map_find u (a_users a) = Some (url_decode (getQuery ''pass'' r)) \<and> u = url_decode (getQuery ''user'' r) \<and>
     cookie \<noteq> [] \<and> \<not> delete_cookie \<and> check_session t1 cookie (cookie_expireCache t1 a1) = (Some u, a2) \<and>
     session_change t2 (ca_logout a2) r' msg' a2 = Some ([], True, a3) \<and> check_session t3 cookie a3 = (None, a3)"
proof -
  define u where "u = url_decode (getQuery ''user'' r)"
  define p where "p = url_decode (getQuery ''pass'' r)"
  have user: "getUser u p (a_users a) = Some u"
    using assms(1) by (auto simp: session_change_def u_def p_def getUser_Some split: option.splits)
  then have a1: "a1 = a\<lparr>ca_random := \<lambda>n. ca_random a (n + RANDOM_COOKIE_BYTES), ca_user_cache := map_insert cookie (t0, u) (ca_user_cache a)\<rparr>"
    and ck: "cookie = snd (base64_encode (fst (draw a)))" and del: "\<not> delete_cookie"
    using assms(1) by (auto simp: session_change_def draw_def Let_def u_def p_def)
  have ne: "cookie \<noteq> []" unfolding ck by (rule base64_encode_nonempty) (simp_all add: draw_def RANDOM_COOKIE_BYTES_def)
  define b where "b = cookie_expireCache t1 a1"
  have o1: "ordered (ca_user_cache a1)" "map_find cookie (ca_user_cache a1) = Some (t0, u)"
    using assms(2,3) by (simp_all add: a1 ordered_map_insert map_find_insert)
  then have "ordered (ca_user_cache b)" "map_find cookie (ca_user_cache b) = Some (t0, u)"
    using map_find_expire [OF o1 assms(5)] ordered_filter [OF o1(1)] by (simp_all add: b_def cookie_expireCache_def expire_def)
  moreover define a2 where "a2 = b\<lparr>ca_user_cache := map_assign cookie (t1, u) (ca_user_cache b)\<rparr>"
  ultimately have a2: "check_session t1 cookie b = (Some u, a2)" "ordered (ca_user_cache a2)"
    using ne by (simp_all add: check_session_def ordered_map_assign)
  define a3 where "a3 = a2\<lparr>ca_user_cache := map_erase cookie (ca_user_cache a2)\<rparr>"
  have "ca_logout a2 \<noteq> ca_login a2" using assms(4) by (simp add: a2_def b_def a1 cookie_expireCache_def)
  then have "session_change t2 (ca_logout a2) r' msg' a2 = Some ([], True, a3)"
    using assms(6) ne by (simp add: session_change_def a3_def)
  moreover have "check_session t3 cookie a3 = (None, a3)" using a2(2) by (simp add: check_session_def a3_def map_find_erase)
  moreover have "map_find u (a_users a) = Some p" using user by (simp add: getUser_Some)
  ultimately show ?thesis using a2(1) ne del by (auto simp: u_def p_def b_def)
qed

definition example_cookie_auth :: HTTPCookieAuth where
  "example_cookie_auth = HTTPCookieAuth_init [(''bob'', ''pw'')] ''/login'' ''/logout'' [] (\<lambda>n. n) 0"

definition example_login :: HTTPRequest_part where
  "example_login = \<lparr>m_method = REQUEST_METHOD_GET, m_resource = ''/login'', m_original_resource = ''/login'', m_query_string = [],
     m_query_params = [(''user'', ''bob''), (''pass'', ''%70w'')], m_charset = []\<rparr>"

lemma cookie_session_lifecycle_witness:
  "\<exists>cookie delete_cookie a1 u a2 a3. session_change 5 ''/login'' example_login (HTTPRequest_init ''/login'') example_cookie_auth =
       Some (cookie, delete_cookie, a1) \<and> check_session 6 cookie (cookie_expireCache 6 a1) = (Some u, a2) \<and>
     session_change 7 (ca_logout a2) example_login (addCookie AUTH_COOKIE_NAME cookie (HTTPRequest_init ''/logout'')) a2 =
       Some ([], True, a3) \<and> check_session 8 cookie a3 = (None, a3)"
proof -
  have "url_decode (getQuery ''user'' example_login) = ''bob''" "url_decode (getQuery ''pass'' example_login) = ''pw''"
    by code_simp+
  then obtain cookie delete_cookie a1 where
    login: "session_change 5 (ca_login example_cookie_auth) example_login (HTTPRequest_init ''/login'') example_cookie_auth =
       Some (cookie, delete_cookie, a1)"
    by (simp add: session_change_def example_cookie_auth_def HTTPCookieAuth_init_def getUser_def matchPassword_def map_find_def draw_def Let_def) blast
  have "getCookie AUTH_COOKIE_NAME (addCookie AUTH_COOKIE_NAME cookie (HTTPRequest_init ''/logout'')) = cookie"
    by (simp add: getCookie_def addCookie_def HTTPRequest_init_def HTTPMessage_init_def getValue_def dict_eqs)
  with cookie_session_lifecycle [OF login, of 6 _ 7 example_login 8] login show ?thesis
    by (fastforce simp: example_cookie_auth_def HTTPCookieAuth_init_def map_find_def COOKIE_CACHE_EXPIRATION_def)
qed

end
