(* ===== verification/Http_Reader.thy ===== *)
theory Http_Reader
  imports Http_Server
begin

text \<open>
  Asynchronous reading: \<open>HTTPReader.cpp\<close>, \<open>HTTPRequestReader.hpp\<close>, \<open>TCPTimer.cpp\<close> and
  \<open>HTTPServer::handleConnection\<close>. A reader runs until it needs more bytes and is resumed with the
  result of the read; when the message is complete it calls its finished handler. The address of the
  client and the debug text of a bad message are left out.
\<close>

section \<open>Timers\<close>

record TCPTimer =
  t_timer_active :: bool
  t_was_cancelled :: bool

definition TCPTimer_init :: TCPTimer where
  "TCPTimer_init = \<lparr>t_timer_active = False, t_was_cancelled = False\<rparr>"

definition timer_start :: "TCPTimer \<Rightarrow> TCPTimer" where
  "timer_start t = t\<lparr>t_timer_active := True\<rparr>"

definition timer_cancel :: "TCPTimer \<Rightarrow> TCPTimer" where
  "timer_cancel t = t\<lparr>t_was_cancelled := True\<rparr>"

text \<open>The callback runs when the time is over and also when the timer is cancelled.\<close>

definition timerCallback :: "TCPTimer \<Rightarrow> TCPConnection \<Rightarrow> TCPTimer \<times> TCPConnection" where
  "timerCallback t conn = (t\<lparr>t_timer_active := False\<rparr>, if t_was_cancelled t then conn else close conn)"

section \<open>Readers\<close>

record HTTPReader =
  r_parser :: HTTPParser
  r_http_msg :: HTTPMessage
  r_timer :: "TCPTimer option"
  r_read_timeout :: nat

definition DEFAULT_READ_TIMEOUT :: nat where "DEFAULT_READ_TIMEOUT = 10"

definition HTTPRequestReader :: HTTPReader where
  "HTTPRequestReader =
     \<lparr>r_parser = HTTPParser_init True DEFAULT_CONTENT_MAX, r_http_msg = HTTPRequest_init [], r_timer = None,
      r_read_timeout = DEFAULT_READ_TIMEOUT\<rparr>"

definition setMaxContentLength :: "nat \<Rightarrow> HTTPReader \<Rightarrow> HTTPReader" where
  "setMaxContentLength n r = r\<lparr>r_parser := (r_parser r)\<lparr>p_max_content_length := n\<rparr>\<rparr>"

text \<open>A run of a reader ends waiting for bytes, with the reader that waits, or without one; or an
  exception leaves it.\<close>

type_synonym 'w reading = "(exn + HTTPReader option) \<times> 'w ctx"

text \<open>The parser always returns (\<open>parse_returns\<close>), so the first equation is never used.\<close>

definition parse_now :: "boost_lib \<Rightarrow> HTTPParser \<Rightarrow> HTTPMessage \<Rightarrow> fault + parser_result" where
  "parse_now lib p msg = (case parse lib p msg of None \<Rightarrow> Inl Assertion_failed | Some r \<Rightarrow> r)"

lemma parse_now: "parse lib p msg = Some (parse_now lib p msg)"
  using parse_returns [of lib p msg] by (auto simp: parse_now_def)

definition readBytesWithTimeout :: "HTTPReader \<Rightarrow> 'w ctx \<Rightarrow> 'w reading" where
  "readBytesWithTimeout r c =
     (Inr (Some (r\<lparr>r_timer := if r_read_timeout r > 0 then Some (timer_start TCPTimer_init) else None\<rparr>)),
      c\<lparr>x_conn := async_read_some (x_conn c)\<rparr>)"

definition finishedReading :: "'w handler \<Rightarrow> HTTPMessage \<Rightarrow> 'w ctx \<Rightarrow> 'w reading" where
  "finishedReading m_finished msg c =
     (case m_finished (c\<lparr>x_request := msg\<rparr>) of
        (Inl e, c') \<Rightarrow> (Inl e, c')
      | (Inr _, c') \<Rightarrow> (Inr None, c'))"

text \<open>The lifecycle after a valid message; the rest of the read buffer is bookmarked.\<close>

definition set_connection_lifecycle :: "HTTPParser \<Rightarrow> HTTPMessage \<Rightarrow> TCPConnection \<Rightarrow> TCPConnection" where
  "set_connection_lifecycle p msg conn =
     (if checkKeepAlive msg then
        (if parser_eof p then setLifecycle LIFECYCLE_KEEPALIVE conn
         else saveReadPosition (p_read_buf p) (setLifecycle LIFECYCLE_PIPELINED conn))
      else setLifecycle LIFECYCLE_CLOSE conn)"

definition consumeBytes :: "boost_lib \<Rightarrow> 'w handler \<Rightarrow> HTTPReader \<Rightarrow> 'w ctx \<Rightarrow> 'w reading" where
  "consumeBytes lib m_finished r c =
     (case parse_now lib (r_parser r) (r_http_msg r) of
        Inl f \<Rightarrow> (Inl (Abort f), c)
      | Inr (TTrue, p, msg) \<Rightarrow>
          finishedReading m_finished msg (c\<lparr>x_conn := set_connection_lifecycle p msg (x_conn c)\<rparr>)
      | Inr (TFalse, p, msg) \<Rightarrow>
          finishedReading m_finished (msg\<lparr>m_is_valid := False\<rparr>) (c\<lparr>x_conn := setLifecycle LIFECYCLE_CLOSE (x_conn c)\<rparr>)
      | Inr (Indeterminate, p, msg) \<Rightarrow>
          readBytesWithTimeout (r\<lparr>r_parser := p, r_http_msg := msg\<rparr>) c)"

definition handleReadError :: "'w handler \<Rightarrow> HTTPReader \<Rightarrow> 'w ctx \<Rightarrow> 'w reading" where
  "handleReadError m_finished r c =
     (let c' = c\<lparr>x_conn := setLifecycle LIFECYCLE_CLOSE (x_conn c)\<rparr>
      in case checkPrematureEOF (r_parser r) (r_http_msg r) of
           Inl f \<Rightarrow> (Inl (Abort f), c')
         | Inr (premature, p, msg) \<Rightarrow>
             if premature then (Inr None, c'\<lparr>x_conn := conn_finish (x_conn c')\<rparr>)
             else finishedReading m_finished msg c')"

text \<open>The completion of a read: the timer is cancelled first.\<close>

definition consumeBytes_read :: "boost_lib \<Rightarrow> 'w handler \<Rightarrow> read_event \<Rightarrow> HTTPReader \<Rightarrow> 'w ctx \<Rightarrow> 'w reading" where
  "consumeBytes_read lib m_finished ev r c =
     (let r' = r\<lparr>r_timer := None\<rparr>
      in case ev of
           Read_error \<Rightarrow> handleReadError m_finished r' c
         | Read_some s \<Rightarrow> consumeBytes lib m_finished (r'\<lparr>r_parser := setReadBuffer s (r_parser r')\<rparr>) c)"

definition reader_receive :: "boost_lib \<Rightarrow> 'w handler \<Rightarrow> HTTPReader \<Rightarrow> 'w ctx \<Rightarrow> 'w reading" where
  "reader_receive lib m_finished r c =
     (let pipelined = (tc_lifecycle (x_conn c) = LIFECYCLE_PIPELINED);
          c' = c\<lparr>x_conn := setLifecycle LIFECYCLE_CLOSE (x_conn c)\<rparr>
      in if pipelined
         then consumeBytes lib m_finished (r\<lparr>r_parser := setReadBuffer (tc_saved (x_conn c)) (r_parser r)\<rparr>) c'
         else readBytesWithTimeout r c')"

definition handleConnection :: "boost_lib \<Rightarrow> 'w HTTPServer \<Rightarrow> 'w ctx \<Rightarrow> 'w reading" where
  "handleConnection lib s c =
     reader_receive lib (handleRequest s) (setMaxContentLength (s_max_content_length s) HTTPRequestReader) c"

section \<open>A reader and the results of its reads\<close>

fun feed :: "boost_lib \<Rightarrow> 'w handler \<Rightarrow> read_event list \<Rightarrow> 'w reading \<Rightarrow> 'w reading" where
  "feed lib m_finished (ev # evs) (Inr (Some r), c) = feed lib m_finished evs (consumeBytes_read lib m_finished ev r c)"
| "feed lib m_finished _ res = res"

lemma feed_done: "feed lib fin evs (Inr None, c) = (Inr None, c)" "feed lib fin evs (Inl e, c) = (Inl e, c)"
  by (cases evs; simp)+

lemma finishedReading_done: "feed lib fin evs (finishedReading fin msg c) = finishedReading fin msg c"
  by (auto simp: finishedReading_def feed_done split: prod.splits sum.splits)

text \<open>The connection the blocking \<open>receive\<close> sees.\<close>

definition blocking :: "read_event list \<Rightarrow> TCPConnection \<Rightarrow> connection" where
  "blocking reads conn = \<lparr>c_lifecycle = tc_lifecycle conn, c_saved = tc_saved conn, c_reads = reads\<rparr>"

text \<open>What the reader does for each end of the blocking loop.\<close>

definition conclude_reading :: "'w handler \<Rightarrow> loop_end \<Rightarrow> 'w ctx \<Rightarrow> 'w reading" where
  "conclude_reading fin e c =
     (case e of
        Premature ec p msg \<Rightarrow> (Inr None, c\<lparr>x_conn := conn_finish (setLifecycle LIFECYCLE_CLOSE (x_conn c))\<rparr>)
      | Parsed rc forced p msg \<Rightarrow>
          if rc = TFalse
          then finishedReading fin (msg\<lparr>m_is_valid := False\<rparr>) (c\<lparr>x_conn := setLifecycle LIFECYCLE_CLOSE (x_conn c)\<rparr>)
          else finishedReading fin msg (c\<lparr>x_conn := if forced then setLifecycle LIFECYCLE_CLOSE (x_conn c)
                 else set_connection_lifecycle p msg (x_conn c)\<rparr>))"

definition reads_some :: "nat \<Rightarrow> 'w ctx \<Rightarrow> 'w ctx" where
  "reads_some n c = c\<lparr>x_conn := (x_conn c)\<lparr>tc_events := tc_events (x_conn c) @ replicate n Async_read\<rparr>\<rparr>"

lemma reads_some_0 [simp]: "reads_some 0 c = c"
  by (simp add: reads_some_def)

lemma reads_some_Suc: "reads_some (Suc n) c = reads_some n (c\<lparr>x_conn := async_read_some (x_conn c)\<rparr>)"
  by (simp add: reads_some_def async_read_some_def)

lemma feed_receive_loop:
  assumes "receive_loop lib reads (r_parser r) (r_http_msg r) = Some (Inr (e, rest))"
    and "\<forall>s. Read_some s \<in> set reads \<longrightarrow> s \<noteq> []"
  shows "\<exists>n. feed lib fin reads (consumeBytes lib fin r c) = conclude_reading fin e (reads_some n c)"
  using assms
proof (induction lib reads "r_parser r" "r_http_msg r" arbitrary: r c rule: receive_loop.induct)
  case (1 lib reads r)
  obtain rc p m where pr: "parse_now lib (r_parser r) (r_http_msg r) = Inr (rc, p, m)"
    using "1.prems"(1) parse_now [of lib "r_parser r" "r_http_msg r"]
    by (simp add: receive_loop.simps split: sum.splits prod.splits)
  show ?case
  proof (cases "rc = Indeterminate")
    case False
    then have "e = Parsed rc False p m"
      using "1.prems"(1) pr by (simp add: receive_loop.simps [of lib reads] parse_now)
    then have "feed lib fin reads (consumeBytes lib fin r c) = conclude_reading fin e (reads_some 0 c)"
      using pr False by (cases rc) (simp_all add: consumeBytes_def conclude_reading_def finishedReading_done)
    then show ?thesis by blast
  next
    case True
    define r' where "r' = r\<lparr>r_parser := p, r_http_msg := m, r_timer := if r_read_timeout r > 0 then Some (timer_start TCPTimer_init) else None\<rparr>"
    define c' where "c' = c\<lparr>x_conn := async_read_some (x_conn c)\<rparr>"
    have cb: "consumeBytes lib fin r c = (Inr (Some r'), c')"
      using pr True by (simp add: consumeBytes_def readBytesWithTimeout_def r'_def c'_def)
    show ?thesis
    proof (cases reads)
      case Nil
      then show ?thesis using "1.prems"(1) pr True by (simp add: receive_loop.simps parse_now)
    next
      case (Cons ev evs)
      show ?thesis
      proof (cases ev)
        case Read_error
        then have "\<exists>e'. at_eof Socket_error p m = Inr e' \<and> e = e'"
          using "1.prems"(1) pr True Cons by (simp add: receive_loop.simps [of lib "Read_error # evs"] parse_now)
        then have "feed lib fin reads (consumeBytes lib fin r c) = conclude_reading fin e (reads_some (Suc 0) c)"
          using Cons Read_error unfolding cb
          by (auto simp: consumeBytes_read_def handleReadError_def at_eof_def r'_def reads_some_Suc c'_def [symmetric]
              conclude_reading_def feed_done finishedReading_done Let_def split: sum.splits if_splits)
        then show ?thesis by blast
      next
        case (Read_some s)
        define r2 where "r2 = r'\<lparr>r_timer := None, r_parser := setReadBuffer s p\<rparr>"
        have s: "s \<noteq> []" using "1.prems"(2) Cons Read_some by auto
        have r2: "r_parser r2 = setReadBuffer s p" "r_http_msg r2 = m" by (simp_all add: r2_def r'_def)
        have "receive_loop lib evs (r_parser r2) (r_http_msg r2) = Some (Inr (e, rest))"
          using "1.prems"(1) pr True Cons Read_some s by (simp add: receive_loop.simps [of lib "Read_some s # evs"] parse_now r2)
        then have "\<exists>n. feed lib fin evs (consumeBytes lib fin r2 c') = conclude_reading fin e (reads_some n c')"
          using "1.hyps" "1.prems"(2) pr True Cons Read_some s r2
          by (simp add: parse_now)
        moreover have "feed lib fin reads (consumeBytes lib fin r c) = feed lib fin evs (consumeBytes lib fin r2 c')"
          unfolding cb using Cons Read_some by (simp add: consumeBytes_read_def r2_def r'_def Let_def)
        ultimately show ?thesis by (metis reads_some_Suc c'_def)
      qed
    qed
  qed
qed

lemma receive_loop_premature:
  "receive_loop lib reads p msg = Some (Inr (Premature ec p' m', rest)) \<Longrightarrow> ec \<noteq> No_error"
proof (induction lib reads p msg rule: receive_loop.induct)
  case (1 lib reads p msg)
  obtain rc p1 m1 where pr: "parse lib p msg = Some (Inr (rc, p1, m1))" "rc = Indeterminate"
    using "1.prems" by (simp add: receive_loop.simps [of lib reads] split: option.splits sum.splits prod.splits if_splits)
  have eof: "at_eof x p1 m1 = Inr (Premature ec p' m') \<Longrightarrow> ec \<noteq> No_error" for x
    by (cases "checkPrematureEOF p1 m1") (auto simp: at_eof_def split: if_splits)
  show ?case
  proof (cases reads)
    case Nil
    then show ?thesis using "1.prems" pr by (simp add: receive_loop.simps)
  next
    case (Cons ev evs)
    show ?thesis
    proof (cases ev)
      case Read_error
      then show ?thesis using "1.prems" pr Cons eof by (auto simp: receive_loop.simps [of lib "Read_error # evs"])
    next
      case (Read_some s)
      then show ?thesis
        using "1.prems" pr Cons eof "1.IH" [OF pr(1) refl refl refl _ Cons Read_some]
        by (auto simp: receive_loop.simps [of lib "Read_some s # evs"] split: if_splits)
    qed
  qed
qed

text \<open>The blocking \<open>receive\<close> starts from a cleared message; a reader for the same message.\<close>

definition reader_for :: "HTTPMessage \<Rightarrow> HTTPReader" where
  "reader_for msg = HTTPRequestReader\<lparr>r_http_msg := clear msg\<rparr>"

lemma clear_request: "is_request msg \<Longrightarrow> is_request (clear msg)"
  by (cases "m_class msg") (simp_all add: clear_def is_request_def)

definition first_run :: "boost_lib \<Rightarrow> 'w handler \<Rightarrow> HTTPMessage \<Rightarrow> string \<Rightarrow> 'w ctx \<Rightarrow> 'w reading" where
  "first_run lib fin msg s c =
     consumeBytes lib fin ((reader_for msg)\<lparr>r_parser := setReadBuffer s (r_parser (reader_for msg))\<rparr>) c"

text \<open>The outcome of an asynchronous read that corresponds to a result of the blocking one.\<close>

definition same_outcome :: "'w handler \<Rightarrow> 'w ctx \<Rightarrow> 'w reading \<Rightarrow> error_code \<times> nat \<times> HTTPMessage \<times> connection \<Rightarrow> bool" where
  "same_outcome fin c res out \<longleftrightarrow>
     (case out of (ec, _, msg, conn) \<Rightarrow>
        if ec = No_error
        then \<exists>c'. res = finishedReading fin msg c' \<and> tc_lifecycle (x_conn c') = c_lifecycle conn \<and>
          (c_lifecycle conn = LIFECYCLE_PIPELINED \<longrightarrow> tc_saved (x_conn c') = c_saved conn) \<and> x_world c' = x_world c
        else (\<exists>c'. res = (Inr None, c') \<and> last (tc_events (x_conn c')) = Finish_called \<and> x_world c' = x_world c) \<or>
          (\<exists>c'. res = finishedReading fin (msg\<lparr>m_is_valid := False\<rparr>) c' \<and> x_world c' = x_world c))"

lemma conclude_same:
  assumes "\<And>ec p m. e = Premature ec p m \<Longrightarrow> ec \<noteq> No_error" "x_world c' = x_world c"
  shows "same_outcome fin c (conclude_reading fin e c') (finish_receive e conn)"
proof (cases e)
  case (Parsed rc forced p m)
  define c2 where "c2 = c'\<lparr>x_conn := if forced then setLifecycle LIFECYCLE_CLOSE (x_conn c')
                 else set_connection_lifecycle p m (x_conn c')\<rparr>"
  have "tc_lifecycle (x_conn c2) = c_lifecycle (set_lifecycle forced p m conn)"
    "c_lifecycle (set_lifecycle forced p m conn) = LIFECYCLE_PIPELINED \<longrightarrow> tc_saved (x_conn c2) = c_saved (set_lifecycle forced p m conn)"
    "x_world c2 = x_world c"
    using assms(2) by (simp_all add: c2_def set_lifecycle_def set_connection_lifecycle_def setLifecycle_def saveReadPosition_def)
  moreover have "conclude_reading fin e c' = (if rc = TFalse
      then finishedReading fin (m\<lparr>m_is_valid := False\<rparr>) (c'\<lparr>x_conn := setLifecycle LIFECYCLE_CLOSE (x_conn c')\<rparr>)
      else finishedReading fin m c2)"
    using Parsed by (simp add: conclude_reading_def c2_def)
  moreover have "x_world (c'\<lparr>x_conn := setLifecycle LIFECYCLE_CLOSE (x_conn c')\<rparr>) = x_world c" using assms(2) by simp
  ultimately show ?thesis using Parsed by (cases "rc = TFalse") (auto simp: same_outcome_def finish_receive_def)
next
  case (Premature ec p m)
  with assms show ?thesis
    by (simp add: same_outcome_def finish_receive_def conclude_reading_def conn_finish_def)
qed

lemma reads_some_world [simp]: "x_world (reads_some n c) = x_world c"
  by (simp add: reads_some_def)

lemma first_run_receive:
  assumes "receive_from lib s (clear msg) (blocking reads conn) = Some (Inr out)"
    and "\<forall>s. Read_some s \<in> set reads \<longrightarrow> s \<noteq> []" "x_world c' = x_world c" "is_request (clear msg)"
  shows "same_outcome fin c (feed lib fin reads (first_run lib fin msg s c')) out"
proof -
  define r where "r = (reader_for msg)\<lparr>r_parser := setReadBuffer s (r_parser (reader_for msg))\<rparr>"
  obtain e rest where e: "receive_loop lib reads (r_parser r) (r_http_msg r) = Some (Inr (e, rest))"
    "out = finish_receive e ((blocking reads conn)\<lparr>c_reads := rest\<rparr>)"
    using assms(1,4) by (auto simp: receive_from_def blocking_def r_def reader_for_def HTTPRequestReader_def
        split: option.splits sum.splits)
  from feed_receive_loop [OF e(1) assms(2)] obtain n where
    "feed lib fin reads (consumeBytes lib fin r c') = conclude_reading fin e (reads_some n c')" by blast
  moreover have "\<And>ec p m. e = Premature ec p m \<Longrightarrow> ec \<noteq> No_error" using receive_loop_premature e(1) by blast
  ultimately show ?thesis using conclude_same [of e "reads_some n c'" c fin] assms(3) by (simp add: first_run_def r_def e(2))
qed

section \<open>Properties\<close>

text \<open>C15: Reading asynchronously agrees with the blocking \<open>receive\<close>: for the same results of the reads the
  finished handler is called with the message the blocking call delivers, the connection gets the
  same lifecycle and bookmark, and where the blocking call reports an error the connection is
  finished or the handler gets an invalid message.\<close>

theorem reader_like_receive:
  assumes "receive lib msg (blocking reads (x_conn c)) = Some (Inr out)"
    and "\<forall>s. Read_some s \<in> set reads \<longrightarrow> s \<noteq> []" "is_request msg"
  shows "same_outcome fin c (feed lib fin reads (reader_receive lib fin (reader_for msg) c)) out"
proof (cases "tc_lifecycle (x_conn c) = LIFECYCLE_PIPELINED")
  case True
  then have "receive_from lib (tc_saved (x_conn c)) (clear msg) (blocking reads (x_conn c)) = Some (Inr out)"
    using assms(1) by (simp add: receive_def getPipelined_def blocking_def)
  from first_run_receive [OF this assms(2), of "c\<lparr>x_conn := setLifecycle LIFECYCLE_CLOSE (x_conn c)\<rparr>" c fin] True clear_request [OF assms(3)]
  show ?thesis by (simp add: reader_receive_def first_run_def Let_def)
next
  case False
  define c' where "c' = c\<lparr>x_conn := async_read_some (setLifecycle LIFECYCLE_CLOSE (x_conn c))\<rparr>"
  have timer: "consumeBytes_read lib fin ev ((reader_for msg)\<lparr>r_timer := t\<rparr>) d = consumeBytes_read lib fin ev (reader_for msg) d"
    for ev t and d :: "'a ctx" by (simp add: consumeBytes_read_def reader_for_def HTTPRequestReader_def)
  obtain ev evs where reads: "reads = ev # evs"
    using assms(1) False by (cases reads) (simp_all add: receive_def blocking_def getPipelined_def)
  have run: "feed lib fin reads (reader_receive lib fin (reader_for msg) c) =
      feed lib fin evs (consumeBytes_read lib fin ev (reader_for msg) c')"
    using False by (simp add: reader_receive_def readBytesWithTimeout_def reads timer c'_def)
  show ?thesis
  proof (cases ev)
    case Read_error
    then show ?thesis unfolding run
      using assms(1) False reads
      by (auto simp: receive_def blocking_def getPipelined_def consumeBytes_read_def handleReadError_def checkPrematureEOF_def
          reader_for_def HTTPRequestReader_def HTTPParser_init_def same_outcome_def conn_finish_def feed_done c'_def)
  next
    case (Read_some s)
    then have s: "s \<noteq> []" using assms(2) reads by auto
    have "receive_from lib s (clear msg) (blocking evs (x_conn c)) = Some (Inr out)"
      using assms(1) False reads Read_some s by (simp add: receive_def blocking_def getPipelined_def)
    from first_run_receive [OF this, of c' c fin] assms(2) reads clear_request [OF assms(3)] show ?thesis
      unfolding run by (simp add: Read_some consumeBytes_read_def first_run_def reader_for_def HTTPRequestReader_def c'_def)
  qed
qed

lemma receive_bad_byte:
  "\<exists>n msg conn. receive lib (HTTPRequest_init []) (blocking [Read_some ''(''] TCPConnection_init) =
     Some (Inr (RECEIVE_ERROR, n, msg, conn))"
  by (simp add: receive_def blocking_def TCPConnection_init_def getPipelined_def receive_from_def receive_loop.simps
      parse_def parser_eof_def setReadBuffer_def HTTPParser_init_def numeral_2_eq_2 parse_step_def parse_headers_step_def
      parseHeaders_def header_step_def step_method_start_def token_char_def isChar_def isSpecial_def
      count_none_def conclude_def finish_receive_def clear_def HTTPMessage_clear_def first_headers_state_def HTTPRequest_init_def HTTPMessage_init_def is_request_def Let_def)

lemma reader_like_receive_witness:
  "same_outcome (returnA ()) \<lparr>x_request = HTTPRequest_init [], x_conn = TCPConnection_init, x_world = ()\<rparr>
     (feed writer_example_lib (returnA ()) [Read_some ''('']
       (reader_receive writer_example_lib (returnA ()) (reader_for (HTTPRequest_init []))
          \<lparr>x_request = HTTPRequest_init [], x_conn = TCPConnection_init, x_world = ()\<rparr>))
     (the (case receive writer_example_lib (HTTPRequest_init []) (blocking [Read_some ''(''] TCPConnection_init) of
        Some (Inr out) \<Rightarrow> Some out | _ \<Rightarrow> None))"
proof -
  obtain n msg conn where r: "receive writer_example_lib (HTTPRequest_init []) (blocking [Read_some ''(''] TCPConnection_init) =
      Some (Inr (RECEIVE_ERROR, n, msg, conn))" using receive_bad_byte by blast
  have "is_request (HTTPRequest_init [])" by (simp add: HTTPRequest_init_def HTTPMessage_init_def is_request_def)
  with reader_like_receive [of writer_example_lib "HTTPRequest_init []" "[Read_some ''('']"
      "\<lparr>x_request = HTTPRequest_init [], x_conn = TCPConnection_init, x_world = ()\<rparr>" "(RECEIVE_ERROR, n, msg, conn)" "returnA ()"] r
  show ?thesis by simp
qed

end
