(* ===== verification/Scheduler.thy ===== *)
theory Scheduler
  imports Prelude
begin

text \<open>
  \<open>PionScheduler.hpp\<close> and \<open>PionScheduler.cpp\<close>: the threads that run the completion handlers of a server,
  the users that keep them alive, and the two ways to hand out I/O services. A thread is known by the
  number of the service it runs; waiting for a thread to end takes no part in the state. The timer that
  keeps a service busy, the mutex and logging are left out.
\<close>

section \<open>The thread pool\<close>

definition DEFAULT_NUM_THREADS :: "32 word" where "DEFAULT_NUM_THREADS = 8"
definition NSEC_IN_SECOND :: nat where "NSEC_IN_SECOND = 1000000000"

record PionScheduler =
  sch_num_threads :: "32 word"
  sch_active_users :: "32 word"
  sch_is_running :: bool
  sch_thread_pool :: "nat list"

definition PionScheduler_init :: PionScheduler where
  "PionScheduler_init =
     \<lparr>sch_num_threads = DEFAULT_NUM_THREADS, sch_active_users = 0, sch_is_running = False, sch_thread_pool = []\<rparr>"

definition setNumThreads :: "32 word \<Rightarrow> 'a PionScheduler_scheme \<Rightarrow> 'a PionScheduler_scheme" where
  "setNumThreads n s = s\<lparr>sch_num_threads := n\<rparr>"

text \<open>All threads of a \<open>PionSingleServiceScheduler\<close> run the one service, number 0.\<close>

definition single_startup :: "PionScheduler \<Rightarrow> PionScheduler" where
  "single_startup s =
     (if \<not> sch_is_running s
      then s\<lparr>sch_is_running := True, sch_thread_pool := sch_thread_pool s @ replicate (unat (sch_num_threads s)) 0\<rparr>
      else s)"

definition addActiveUser :: "PionScheduler \<Rightarrow> PionScheduler" where
  "addActiveUser s =
     (let s' = (if \<not> sch_is_running s then single_startup s else s)
      in s'\<lparr>sch_active_users := sch_active_users s' + 1\<rparr>)"

definition removeActiveUser :: "'a PionScheduler_scheme \<Rightarrow> 'a PionScheduler_scheme" where
  "removeActiveUser s = s\<lparr>sch_active_users := sch_active_users s - 1\<rparr>"

text \<open>\<open>None\<close> while it waits for the users to finish.\<close>

definition shutdown :: "'a PionScheduler_scheme \<Rightarrow> 'a PionScheduler_scheme option" where
  "shutdown s =
     (if sch_is_running s then
        if sch_active_users s > 0 then None else Some (s\<lparr>sch_is_running := False, sch_thread_pool := []\<rparr>)
      else Some (s\<lparr>sch_thread_pool := []\<rparr>))"

section \<open>One service for each thread\<close>

text \<open>The services are the numbers below the size of the pool.\<close>

record PionOneToOneScheduler = PionScheduler +
  o_service_pool :: nat
  o_next_service :: "32 word"

definition fill_services :: "PionOneToOneScheduler \<Rightarrow> PionOneToOneScheduler" where
  "fill_services s = s\<lparr>o_service_pool := max (o_service_pool s) (unat (sch_num_threads s))\<rparr>"

definition one_getIOService :: "PionOneToOneScheduler \<Rightarrow> fault + (nat \<times> PionOneToOneScheduler)" where
  "one_getIOService s =
     (let s1 = fill_services s;
          n = (if o_next_service s1 + 1 \<ge> sch_num_threads s1 then 0 else o_next_service s1 + 1);
          s2 = s1\<lparr>o_next_service := n\<rparr>
      in if \<not> n < sch_num_threads s2 then Inl Assertion_failed
         else if unat n < o_service_pool s2 then Inr (unat n, s2) else Inl Out_of_bounds)"

definition one_getIOService_at :: "32 word \<Rightarrow> PionOneToOneScheduler \<Rightarrow> fault + nat" where
  "one_getIOService_at n s =
     (if n < sch_num_threads s \<and> unat n < o_service_pool s then Inr (unat n) else Inl Assertion_failed)"

definition one_startup :: "PionOneToOneScheduler \<Rightarrow> PionOneToOneScheduler" where
  "one_startup s =
     (if \<not> sch_is_running s
      then let s' = fill_services (s\<lparr>sch_is_running := True\<rparr>)
           in s'\<lparr>sch_thread_pool := sch_thread_pool s' @ [0..<unat (sch_num_threads s')]\<rparr>
      else s)"

definition one_finishServices :: "PionOneToOneScheduler \<Rightarrow> PionOneToOneScheduler" where
  "one_finishServices s = s\<lparr>o_service_pool := 0\<rparr>"

section \<open>Sleeping\<close>

text \<open>A wakeup time in seconds and nanoseconds after the current time.\<close>

definition getWakeupTime :: "nat \<times> nat \<Rightarrow> nat \<Rightarrow> nat \<Rightarrow> nat \<times> nat" where
  "getWakeupTime now sleep_sec sleep_nsec =
     (let sec = fst now + sleep_sec; nsec = snd now + sleep_nsec
      in if nsec mod 2 ^ 32 \<ge> NSEC_IN_SECOND then (sec + 1, nsec - NSEC_IN_SECOND) else (sec, nsec))"

section \<open>Facts\<close>

lemma getWakeupTime_normal:
  assumes "snd now < NSEC_IN_SECOND" "sleep_nsec < NSEC_IN_SECOND"
  shows "snd (getWakeupTime now sec sleep_nsec) < NSEC_IN_SECOND \<and>
     fst (getWakeupTime now sec sleep_nsec) * NSEC_IN_SECOND + snd (getWakeupTime now sec sleep_nsec) =
       (fst now + sec) * NSEC_IN_SECOND + snd now + sleep_nsec"
  using assms by (auto simp: getWakeupTime_def Let_def NSEC_IN_SECOND_def algebra_simps)

text \<open>The services are handed out in turn.\<close>

lemma one_getIOService_turn:
  assumes "0 < unat (sch_num_threads s)" "unat (o_next_service s) < unat (sch_num_threads s)"
  shows "\<exists>s'. one_getIOService s = Inr (Suc (unat (o_next_service s)) mod unat (sch_num_threads s), s') \<and>
     sch_num_threads s' = sch_num_threads s \<and>
     unat (o_next_service s') = Suc (unat (o_next_service s)) mod unat (sch_num_threads s)"
proof -
  have "unat (sch_num_threads s) < 2 ^ LENGTH(32)" by (rule unsigned_less)
  then have "Suc (unat (o_next_service s)) < 2 ^ 32" using assms(2) by simp
  then have nx: "unat (o_next_service s + 1) = Suc (unat (o_next_service s))"
    by (simp add: unat_word_ariths)
  show ?thesis
  proof (cases "o_next_service s + 1 \<ge> sch_num_threads s")
    case True
    then have "Suc (unat (o_next_service s)) = unat (sch_num_threads s)" using assms(2) nx by (simp add: word_le_nat_alt)
    with True assms show ?thesis
      by (auto simp: one_getIOService_def fill_services_def Let_def word_less_nat_alt)
  next
    case False
    then have "Suc (unat (o_next_service s)) < unat (sch_num_threads s)" using nx by (simp add: word_le_nat_alt)
    with False nx show ?thesis
      by (auto simp: one_getIOService_def fill_services_def Let_def word_less_nat_alt)
  qed
qed

end
