(* ===== verification/Tcp_Server.thy ===== *)
theory Tcp_Server
  imports Http_Reader Scheduler
begin

text \<open>
  \<open>TCPServer.cpp\<close> and \<open>TCPServer.hpp\<close>: the pool of connections of a server and what happens to it when an
  asynchronous operation completes. The server is a state machine: a step is the completion of an
  accept, a read or a write, a timer that runs out, or what a call of \<open>start\<close> or \<open>stop\<close> does while it
  holds the mutex. Both calls release it on the way: \<open>start\<close> before it listens, \<open>stop\<close> while it sleeps between
  two passes of its loop; the state counts the calls that are under way, and any other step may come in
  between, other calls of the two included. A connection holds
  the operations that are under way on it; it is \<open>unique\<close> in the pool when there are none. The mutex of
  the server is not recursive: locking it again in the same call is a fault. Which operations are
  completed, in which order and with which result is up to the environment; a completion handler is one step. SSL is
  configured off.
\<close>

section \<open>State\<close>

datatype operation = Op_accept | Op_read HTTPReader | Op_write

record pooled =
  k_conn :: TCPConnection
  k_ops :: "operation list"
  k_pooled :: bool

text \<open>\<open>ts_starting\<close> is the number of calls of \<open>start\<close> that have released the mutex and not yet listened,
  \<open>ts_adding\<close> of those that have listened and not yet told the scheduler, and \<open>ts_stoppers\<close> holds the argument of
  every call of \<open>stop\<close> that still waits for the pool to become empty.\<close>

record 'w TCPServer =
  ts_is_listening :: bool
  ts_starting :: nat
  ts_adding :: nat
  ts_stoppers :: "bool list"
  ts_connections :: "(nat, pooled) std_map"
  ts_next :: nat
  ts_port :: "16 word"
  ts_acceptor_open :: bool
  ts_scheduler :: PionScheduler
  ts_world :: 'w

text \<open>The port of an endpoint has 16 bits.\<close>

definition TCPServer_init :: "nat \<Rightarrow> 'w \<Rightarrow> 'w TCPServer" where
  "TCPServer_init tcp_port w =
     \<lparr>ts_is_listening = False, ts_starting = 0, ts_adding = 0, ts_stoppers = [], ts_connections = [], ts_next = 0, ts_port = of_nat tcp_port,
      ts_acceptor_open = False, ts_scheduler = PionScheduler_init, ts_world = w\<rparr>"

definition conn_pool :: "'w TCPServer \<Rightarrow> (nat, pooled) std_map" where
  "conn_pool s = filter (\<lambda>e. k_pooled (snd e)) (ts_connections s)"

definition put_connection :: "nat \<Rightarrow> pooled \<Rightarrow> 'w TCPServer \<Rightarrow> 'w TCPServer" where
  "put_connection i k s = s\<lparr>ts_connections := map_assign i k (ts_connections s)\<rparr>"

definition drop_op :: "operation \<Rightarrow> pooled \<Rightarrow> pooled" where
  "drop_op x k = k\<lparr>k_ops := remove1 x (k_ops k)\<rparr>"

section \<open>The connection pool\<close>

definition prune_one :: "pooled \<Rightarrow> pooled" where
  "prune_one k = (if k_pooled k \<and> k_ops k = [] then k\<lparr>k_conn := close (k_conn k), k_pooled := False\<rparr> else k)"

definition pruneConnections :: "'w TCPServer \<Rightarrow> 'w TCPServer" where
  "pruneConnections s = s\<lparr>ts_connections := map (map_prod id prune_one) (ts_connections s)\<rparr>"

definition getConnections :: "'w TCPServer \<Rightarrow> 64 word" where
  "getConnections s =
     (if ts_is_listening s then of_nat (length (conn_pool s)) - 1 else of_nat (length (conn_pool s)))"

definition listen :: "'w TCPServer \<Rightarrow> 'w TCPServer" where
  "listen s =
     (if ts_is_listening s then
        let s' = pruneConnections s
        in put_connection (ts_next s') \<lparr>k_conn = TCPConnection_init, k_ops = [Op_accept], k_pooled = True\<rparr>
             (s'\<lparr>ts_next := Suc (ts_next s')\<rparr>)
      else s)"

section \<open>Running the code of a connection\<close>

definition new_ops :: "exn + HTTPReader option \<Rightarrow> conn_event list \<Rightarrow> operation list" where
  "new_ops r evs =
     (case r of Inr (Some rd) \<Rightarrow> [Op_read rd] | _ \<Rightarrow> []) @
     concat (map (\<lambda>ev. case ev of Async_write _ \<Rightarrow> [Op_write] | _ \<Rightarrow> []) evs)"

text \<open>Code that runs on connection \<open>i\<close>; the flag says whether it called \<open>finish\<close>, which is the last thing
  any of it does. An exception that reaches the scheduler is logged there.\<close>

definition with_connection :: "('w ctx \<Rightarrow> 'w reading) \<Rightarrow> nat \<Rightarrow> pooled \<Rightarrow> 'w TCPServer \<Rightarrow> fault + ('w TCPServer \<times> bool)" where
  "with_connection f i k s =
     (case f \<lparr>x_request = HTTPRequest_init [], x_conn = (k_conn k)\<lparr>tc_events := []\<rparr>, x_world = ts_world s\<rparr> of
        (Inl (Abort e), _) \<Rightarrow> Inl e
      | (r, c) \<Rightarrow>
          Inr (put_connection i (k\<lparr>k_conn := x_conn c, k_ops := k_ops k @ new_ops r (tc_events (x_conn c))\<rparr>)
                 (s\<lparr>ts_world := x_world c\<rparr>),
               Finish_called \<in> set (tc_events (x_conn c))))"

definition finishConnection :: "boost_lib \<Rightarrow> 'w HTTPServer \<Rightarrow> nat \<Rightarrow> 'w TCPServer \<Rightarrow> fault + 'w TCPServer" where
  "finishConnection lib h i s =
     (case map_find i (ts_connections s) of
        None \<Rightarrow> Inr s
      | Some k \<Rightarrow>
          if ts_is_listening s \<and> getKeepAlive (k_conn k) then
            bindE (with_connection (handleConnection lib h) i k s)
              (\<lambda>(s', finished). if finished then Inl Self_deadlock else Inr s')
          else Inr (put_connection i (k\<lparr>k_pooled := False\<rparr>) s))"

definition run_unlocked :: "boost_lib \<Rightarrow> 'w HTTPServer \<Rightarrow> ('w ctx \<Rightarrow> 'w reading) \<Rightarrow> nat \<Rightarrow> pooled \<Rightarrow> 'w TCPServer
    \<Rightarrow> fault + 'w TCPServer" where
  "run_unlocked lib h f i k s =
     bindE (with_connection f i k s) (\<lambda>(s', finished). if finished then finishConnection lib h i s' else Inr s')"

section \<open>Completions\<close>

text \<open>\<open>listen\<close> runs while the completion handler still holds the connection.\<close>

definition handleAccept :: "boost_lib \<Rightarrow> 'w HTTPServer \<Rightarrow> bool \<Rightarrow> nat \<Rightarrow> pooled \<Rightarrow> 'w TCPServer \<Rightarrow> fault + 'w TCPServer" where
  "handleAccept lib h accept_error i k s =
     (let s' = listen s; k' = drop_op Op_accept k
      in if accept_error then finishConnection lib h i (put_connection i k' s')
         else run_unlocked lib h (handleConnection lib h) i k' s')"

definition read_completed :: "boost_lib \<Rightarrow> 'w HTTPServer \<Rightarrow> read_event \<Rightarrow> HTTPReader \<Rightarrow> nat \<Rightarrow> pooled \<Rightarrow> 'w TCPServer
    \<Rightarrow> fault + 'w TCPServer" where
  "read_completed lib h ev rd i k s =
     run_unlocked lib h (consumeBytes_read lib (handleRequest h) ev rd) i (drop_op (Op_read rd) k) s"

definition write_completed :: "boost_lib \<Rightarrow> 'w HTTPServer \<Rightarrow> bool \<Rightarrow> nat \<Rightarrow> pooled \<Rightarrow> 'w TCPServer \<Rightarrow> fault + 'w TCPServer" where
  "write_completed lib h write_error i k s =
     run_unlocked lib h (\<lambda>c. (Inr None, c\<lparr>x_conn := handleWrite write_error (x_conn c)\<rparr>)) i (drop_op Op_write k) s"

definition timer_completed :: "HTTPReader \<Rightarrow> TCPTimer \<Rightarrow> nat \<Rightarrow> pooled \<Rightarrow> 'w TCPServer \<Rightarrow> 'w TCPServer" where
  "timer_completed rd t i k s =
     (case timerCallback t (k_conn k) of (t', conn) \<Rightarrow>
        put_connection i (k\<lparr>k_conn := conn, k_ops := map (\<lambda>x. if x = Op_read rd then Op_read (rd\<lparr>r_timer := Some t'\<rparr>) else x) (k_ops k)\<rparr>) s)"

section \<open>Starting and stopping\<close>

text \<open>What the operating system makes of the calls on the acceptor: opening it fails, a call after that
  fails, or it listens on a port. An acceptor that is open cannot be opened again.\<close>

datatype acceptor_result = Open_failed | Setup_failed | Bound "16 word"

text \<open>The part of \<open>start\<close> under the mutex. The flag says whether it goes on or throws.\<close>

definition start :: "acceptor_result \<Rightarrow> 'w TCPServer \<Rightarrow> bool \<times> 'w TCPServer" where
  "start acc s =
     (if ts_is_listening s then (True, s)
      else if ts_acceptor_open s then (False, s)
      else case acc of
             Open_failed \<Rightarrow> (False, s)
           | Setup_failed \<Rightarrow> (False, s\<lparr>ts_acceptor_open := True\<rparr>)
           | Bound p \<Rightarrow> (True, s\<lparr>ts_acceptor_open := True, ts_port := if ts_port s = 0 then p else ts_port s,
                                ts_is_listening := True, ts_starting := Suc (ts_starting s)\<rparr>))"

text \<open>After it has released the mutex: \<open>listen\<close>, which takes it again, and the scheduler.\<close>

definition start_listen :: "'w TCPServer \<Rightarrow> 'w TCPServer" where
  "start_listen s = (listen s)\<lparr>ts_starting := ts_starting s - 1, ts_adding := Suc (ts_adding s)\<rparr>"

definition start_add :: "'w TCPServer \<Rightarrow> 'w TCPServer" where
  "start_add s = s\<lparr>ts_scheduler := addActiveUser (ts_scheduler s), ts_adding := ts_adding s - 1\<rparr>"

text \<open>A call of \<open>start\<close> that nothing interrupts.\<close>

definition start_alone :: "acceptor_result \<Rightarrow> 'w TCPServer \<Rightarrow> bool \<times> 'w TCPServer" where
  "start_alone acc s =
     (case start acc s of (ok, s') \<Rightarrow> (ok, if ts_starting s' = ts_starting s then s' else start_add (start_listen s')))"

text \<open>The test and one pass of the loop that waits for the connections, and what follows the last one; the flag says
  whether it was the last. Between two passes the call sleeps without the mutex.\<close>

definition stop_pass :: "'w TCPServer \<Rightarrow> bool \<times> 'w TCPServer" where
  "stop_pass s =
     (let s' = (if conn_pool s = [] then s else pruneConnections s)
      in if conn_pool s' = [] then (True, s'\<lparr>ts_scheduler := removeActiveUser (ts_scheduler s')\<rparr>) else (False, s'))"

definition stop :: "bool \<Rightarrow> 'w TCPServer \<Rightarrow> 'w TCPServer" where
  "stop wait_until_finished s =
     (if ts_is_listening s then
        (case stop_pass
           (s\<lparr>ts_is_listening := False, ts_acceptor_open := False,
              ts_connections := if wait_until_finished then ts_connections s
                else map (map_prod id (\<lambda>k. if k_pooled k then k\<lparr>k_conn := close (k_conn k)\<rparr> else k)) (ts_connections s)\<rparr>) of
           (finished, s') \<Rightarrow> if finished then s' else s'\<lparr>ts_stoppers := wait_until_finished # ts_stoppers s'\<rparr>)
      else s)"

text \<open>A call of \<open>stop\<close> that wakes up.\<close>

definition stop_waiting :: "bool \<Rightarrow> 'w TCPServer \<Rightarrow> 'w TCPServer" where
  "stop_waiting wait_until_finished s =
     (case stop_pass s of (finished, s') \<Rightarrow> if finished then s'\<lparr>ts_stoppers := remove1 wait_until_finished (ts_stoppers s')\<rparr> else s')"

text \<open>Whether \<open>join\<close> returns.\<close>

definition join :: "'w TCPServer \<Rightarrow> bool" where
  "join s = (\<not> ts_is_listening s)"

section \<open>Steps\<close>

text \<open>A read that succeeds delivers at least one byte.\<close>

inductive step :: "boost_lib \<Rightarrow> 'w HTTPServer \<Rightarrow> 'w TCPServer \<Rightarrow> fault + 'w TCPServer \<Rightarrow> bool" for lib h where
  accept: "map_find i (ts_connections s) = Some k \<Longrightarrow> Op_accept \<in> set (k_ops k) \<Longrightarrow> step lib h s (handleAccept lib h err i k s)"
| read: "map_find i (ts_connections s) = Some k \<Longrightarrow> Op_read rd \<in> set (k_ops k) \<Longrightarrow> ev \<noteq> Read_some [] \<Longrightarrow>
     step lib h s (read_completed lib h ev rd i k s)"
| written: "map_find i (ts_connections s) = Some k \<Longrightarrow> Op_write \<in> set (k_ops k) \<Longrightarrow> step lib h s (write_completed lib h err i k s)"
| timer: "map_find i (ts_connections s) = Some k \<Longrightarrow> Op_read rd \<in> set (k_ops k) \<Longrightarrow> r_timer rd = Some t \<Longrightarrow>
     t_timer_active t \<Longrightarrow> step lib h s (Inr (timer_completed rd t i k s))"
| start: "step lib h s (Inr (snd (start acc s)))"
| start_listen: "ts_starting s > 0 \<Longrightarrow> step lib h s (Inr (start_listen s))"
| start_add: "ts_adding s > 0 \<Longrightarrow> step lib h s (Inr (start_add s))"
| stop: "step lib h s (Inr (stop wait s))"
| stop_waiting: "wait \<in> set (ts_stoppers s) \<Longrightarrow> step lib h s (Inr (stop_waiting wait s))"

inductive reachable :: "boost_lib \<Rightarrow> 'w HTTPServer \<Rightarrow> 'w TCPServer \<Rightarrow> bool" for lib h where
  initial: "reachable lib h (TCPServer_init tcp_port w)"
| after: "reachable lib h s \<Longrightarrow> step lib h s (Inr s') \<Longrightarrow> reachable lib h s'"

text \<open>The number of calls of \<open>start\<close> and \<open>stop\<close> that are under way, and the states that are reached when each of them
  returns before the next is made.\<close>

definition calls_under_way :: "'w TCPServer \<Rightarrow> nat" where
  "calls_under_way s = ts_starting s + ts_adding s + length (ts_stoppers s)"

inductive reachable_serially :: "boost_lib \<Rightarrow> 'w HTTPServer \<Rightarrow> 'w TCPServer \<Rightarrow> bool" for lib h where
  initial: "reachable_serially lib h (TCPServer_init tcp_port w)"
| after: "reachable_serially lib h s \<Longrightarrow> step lib h s (Inr s') \<Longrightarrow> calls_under_way s' \<le> 1 \<Longrightarrow> reachable_serially lib h s'"

end
