(* ===== verification/Tcp_Server_Safety.thy ===== *)
theory Tcp_Server_Safety
  imports Tcp_Server Http_Auth
begin

text \<open>
  The state machine of the TCP server does not fault, but for a restart during \<open>stop(false)\<close>: the contract of the request
  handlers and of the authentication, what the reader and the handlers do to a connection, the invariant of the pool and its
  preservation by every step; the scheduler's users; and the run that reaches the exception.
\<close>

section \<open>What a request does to its connection\<close>

text \<open>The contract of the handlers: a request ends without touching its connection, or with one write on an
  open connection; a lost connection is only reported for a connection that is closed.\<close>

locale courteous =
  fixes h :: "'w handler"
  assumes courteous: "is_request (x_request c) \<Longrightarrow> h c = (r, c') \<Longrightarrow>
      (\<forall>f. r \<noteq> Inl (Abort f)) \<and> is_request (x_request c') \<and>
      (x_conn c' = x_conn c \<or> tc_open (x_conn c) \<and> r = Inr () \<and> (\<exists>s. x_conn c' = async_write s (x_conn c))) \<and>
      (r = Inl Lost_connection \<longrightarrow> \<not> tc_open (x_conn c))"

text \<open>The outcome of a request as a whole, where a lost connection is finished.\<close>

definition outcome :: "TCPConnection \<Rightarrow> TCPConnection \<Rightarrow> bool" where
  "outcome conn conn' \<longleftrightarrow> conn' = conn \<or> tc_open conn \<and> (\<exists>s. conn' = async_write s conn) \<or>
     \<not> tc_open conn \<and> conn' = conn_finish (setLifecycle LIFECYCLE_CLOSE conn)"

definition orderly :: "'w handler \<Rightarrow> bool" where
  "orderly f \<longleftrightarrow> (\<forall>c r c'. is_request (x_request c) \<longrightarrow> f c = (r, c') \<longrightarrow>
     (\<forall>e. r \<noteq> Inl (Abort e)) \<and> outcome (x_conn c) (x_conn c'))"

context courteous
begin

lemma orderly: "orderly h"
  unfolding orderly_def outcome_def using courteous by blast

lemma call_orderly:
  assumes "\<And>msg. courteous (s_server_error_handler s msg)"
  shows "orderly (call_handler s h)"
  unfolding orderly_def
proof (intro allI impI)
  fix c r c'
  assume req: "is_request (x_request c)" and call: "call_handler s h c = (r, c')"
  obtain r1 c1 where h: "h c = (r1, c1)" by (cases "h c")
  note hc = courteous [OF req h]
  show "(\<forall>e. r \<noteq> Inl (Abort e)) \<and> outcome (x_conn c) (x_conn c')"
  proof (cases r1)
    case (Inr u)
    then show ?thesis using call h hc by (auto simp: call_handler_def outcome_def)
  next
    case (Inl e)
    then have conn: "x_conn c1 = x_conn c" using hc by auto
    show ?thesis
    proof (cases e)
      case Lost_connection
      then show ?thesis using call h hc Inl conn by (auto simp: call_handler_def modify_conn_def outcome_def)
    next
      case Bad_alloc
      then show ?thesis using call h Inl conn by (auto simp: call_handler_def outcome_def)
    next
      case (Std_exception msg)
      then have "s_server_error_handler s msg c1 = (r, c')" using call h Inl by (simp add: call_handler_def)
      then show ?thesis using courteous.orderly [OF assms] hc conn unfolding orderly_def by metis
    next
      case (Abort f)
      then show ?thesis using hc Inl by simp
    qed
  qed
qed

end

lemma respond_courteous: "courteous (respond lib n text fill)"
proof
  fix c c' r
  assume req: "is_request (x_request c)" and res: "respond lib n text fill c = (r, c')"
  from HTTPResponseWriter_create_request [OF req] obtain w p where
    w: "HTTPResponseWriter_create (x_request c) = Inr w" "m_class (w_http_response w) = Response p" by blast
  then obtain w' where "set_status n text w = Inr w'" by (simp add: set_status_response)
  with w res have send: "send_writer lib (fill w') c = (r, c')" by (simp add: respond_def bindA_def lift_fault_def)
  show "(\<forall>f. r \<noteq> Inl (Abort f)) \<and> is_request (x_request c') \<and>
      (x_conn c' = x_conn c \<or> tc_open (x_conn c) \<and> r = Inr () \<and> (\<exists>s. x_conn c' = async_write s (x_conn c))) \<and>
      (r = Inl Lost_connection \<longrightarrow> \<not> tc_open (x_conn c))"
  proof (cases "tc_open (x_conn c)")
    case True
    with send_writer_open [OF True, of lib "fill w'"] send req show ?thesis by auto
  next
    case False
    then have "writer_send lib (x_conn c) (fill w') = Inl LostConnectionException"
      by (simp add: writer_send_def sendMoreData_def)
    with send req False show ?thesis by (auto simp: send_writer_def)
  qed
qed

interpretation bad_request: courteous "handleBadRequest lib"
  unfolding handleBadRequest_def by (rule respond_courteous)

interpretation server_error: courteous "handleServerError lib msg"
  unfolding handleServerError_def by (rule respond_courteous)

lemma not_found_courteous: "courteous (handleNotFoundRequest lib)"
proof
  fix c c' r
  assume req: "is_request (x_request c)" and res: "handleNotFoundRequest lib c = (r, c')"
  obtain q where "as_request (x_request c) = Inr q" using as_request_ok [OF req] by blast
  with res have "respond lib RESPONSE_CODE_NOT_FOUND RESPONSE_MESSAGE_NOT_FOUND
          (\<lambda>w. writeNoCopy NOT_FOUND_HTML_FINISH (writer_write (m_resource q) (writeNoCopy NOT_FOUND_HTML_START w))) c = (r, c')"
    by (simp add: handleNotFoundRequest_def bindA_def lift_fault_def)
  from courteous.courteous [OF respond_courteous req this]
  show "(\<forall>f. r \<noteq> Inl (Abort f)) \<and> is_request (x_request c') \<and>
      (x_conn c' = x_conn c \<or> tc_open (x_conn c) \<and> r = Inr () \<and> (\<exists>s. x_conn c' = async_write s (x_conn c))) \<and>
      (r = Inl Lost_connection \<longrightarrow> \<not> tc_open (x_conn c))" .
qed

interpretation not_found: courteous "handleNotFoundRequest lib"
  by (rule not_found_courteous)

text \<open>The contract of an authentication: it lets the request pass or refuses it with one write, and on a closed connection
  it only does nothing or throws. Actions that leave the connection alone are put together with one that keeps the
  contract.\<close>

definition polite :: "('w, 'a) action \<Rightarrow> bool" where
  "polite m \<longleftrightarrow> (\<forall>c r c'. is_request (x_request c) \<longrightarrow> m c = (r, c') \<longrightarrow> (\<forall>f. r \<noteq> Inl (Abort f)) \<and> is_request (x_request c') \<and>
     (x_conn c' = x_conn c \<or> tc_open (x_conn c) \<and> (\<exists>s. x_conn c' = async_write s (x_conn c))))"

definition quiet :: "('w, 'a) action \<Rightarrow> bool" where
  "quiet m \<longleftrightarrow> (\<forall>c r c'. is_request (x_request c) \<longrightarrow> m c = (r, c') \<longrightarrow> (\<forall>f. r \<noteq> Inl (Abort f)) \<and> is_request (x_request c') \<and>
     x_conn c' = x_conn c)"

locale courteous_auth =
  fixes auth :: "('w, bool) action"
  assumes polite: "polite auth"
    and passes: "is_request (x_request c) \<Longrightarrow> auth c = (Inr True, c') \<Longrightarrow> x_conn c' = x_conn c"

lemma quietD: "quiet m \<Longrightarrow> is_request (x_request c) \<Longrightarrow> m c = (r, c') \<Longrightarrow>
    (\<forall>f. r \<noteq> Inl (Abort f)) \<and> is_request (x_request c') \<and> x_conn c' = x_conn c"
  unfolding quiet_def by blast

lemma politeD: "polite m \<Longrightarrow> is_request (x_request c) \<Longrightarrow> m c = (r, c') \<Longrightarrow> (\<forall>f. r \<noteq> Inl (Abort f)) \<and> is_request (x_request c') \<and>
     (x_conn c' = x_conn c \<or> tc_open (x_conn c) \<and> (\<exists>s. x_conn c' = async_write s (x_conn c)))"
  unfolding polite_def by blast

lemma quiet_polite: "quiet m \<Longrightarrow> polite m"
  unfolding quiet_def polite_def by blast

lemma quiet_return: "quiet (returnA a)"
  by (auto simp: quiet_def returnA_def)

lemma polite_bind:
  assumes "polite m" "\<And>a. polite (f a)"
    and "\<And>c a c'. is_request (x_request c) \<Longrightarrow> m c = (Inr a, c') \<Longrightarrow> x_conn c' = x_conn c \<or> quiet (f a)"
  shows "polite (bindA m f)"
  unfolding polite_def
proof (intro allI impI)
  fix c r c' assume req: "is_request (x_request c)" and run: "bindA m f c = (r, c')"
  obtain r1 c1 where m: "m c = (r1, c1)" by fastforce
  note q = politeD [OF assms(1) req m]
  show "(\<forall>f. r \<noteq> Inl (Abort f)) \<and> is_request (x_request c') \<and>
     (x_conn c' = x_conn c \<or> tc_open (x_conn c) \<and> (\<exists>s. x_conn c' = async_write s (x_conn c)))"
  proof (cases r1)
    case (Inl e)
    with run m q show ?thesis by (auto simp: bindA_def)
  next
    case (Inr a)
    with run m have f: "f a c1 = (r, c')" by (simp add: bindA_def)
    from assms(3) [OF req m [unfolded Inr]] show ?thesis
    proof
      assume "x_conn c1 = x_conn c"
      with politeD [OF assms(2) _ f] q show ?thesis by simp
    next
      assume "quiet (f a)"
      from quietD [OF this _ f] q show ?thesis by simp
    qed
  qed
qed

lemma quiet_bind: "quiet m \<Longrightarrow> (\<And>a. polite (f a)) \<Longrightarrow> polite (bindA m f)"
  by (rule polite_bind) (auto intro: quiet_polite dest: quietD)

lemma polite_then: "polite m \<Longrightarrow> polite (bindA m (\<lambda>_. returnA b))"
  by (rule polite_bind) (simp_all add: quiet_return quiet_polite)

lemma polite_state: "(\<And>c. polite (F c)) \<Longrightarrow> polite (\<lambda>c. F c c)"
  unfolding polite_def by blast

lemma courteous_polite: "courteous h \<Longrightarrow> polite h"
  unfolding polite_def using courteous.courteous by blast

lemma polite_respond: "polite (respond lib n text fill)"
  by (rule courteous_polite [OF respond_courteous])

text \<open>The request of a context is one.\<close>

lemma polite_request:
  assumes "\<And>c q. polite (F c q)"
  shows "polite (\<lambda>c. bindA (lift_fault (as_request (x_request c))) (F c) c)"
proof -
  have "bindA (lift_fault (as_request (x_request c))) (F c) c = F c q c" if "as_request (x_request c) = Inr q" for c q
    using that by (simp add: bindA_def lift_fault_def)
  then show ?thesis unfolding polite_def using as_request_ok politeD [OF assms] by metis
qed

lemma polite_unauthorized: "polite (cookie_handleUnauthorized lib a)"
  by (simp add: cookie_handleUnauthorized_def handleRedirection_def polite_respond)

lemma quiet_auth: "quiet (modify_auth f)" "quiet (setUser u)"
  by (auto simp: quiet_def modify_auth_def setUser_def)

lemma polite_login: "polite (processLogin lib)"
  unfolding processLogin_def [abs_def] Let_def
  by (intro polite_request)
    (auto simp: handleRedirection_def handleOk_def intro!: polite_then quiet_bind quiet_auth polite_respond polite_unauthorized
      quiet_polite [OF quiet_return] split: option.splits)

lemma bind_return_False: "bindA m (\<lambda>_. returnA True) c \<noteq> (Inr False, c')"
  by (auto simp: bindA_def returnA_def split: prod.splits sum.splits)

lemma login_unprocessed: "processLogin lib c = (Inr False, c') \<Longrightarrow> c' = c"
  by (auto simp: processLogin_def bindA_def [of "lift_fault _"] bindA_def [of "modify_auth _"] lift_fault_def modify_auth_def returnA_def [of False]
      Let_def bind_return_False split: sum.splits if_splits option.splits prod.splits)

text \<open>What follows the login page.\<close>

definition session_check :: "boost_lib \<Rightarrow> ((HTTPCookieAuth, 'r) guarded, bool) action" where
  "session_check lib = (\<lambda>c. bindA (lift_fault (as_request (x_request c))) (\<lambda>r.
     if \<not> needAuthentication (g_auth (x_world c)) (m_resource r) then returnA True
     else if ca_redirect (g_auth (x_world c)) \<noteq> [] \<and> ca_redirect (g_auth (x_world c)) = m_resource r then returnA True
     else
       (case check_session (g_now (x_world c)) (getCookie AUTH_COOKIE_NAME (x_request c))
               (cookie_expireCache (g_now (x_world c)) (g_auth (x_world c))) of
          (user, a') \<Rightarrow>
            bindA (modify_auth (\<lambda>_. a')) (\<lambda>_.
              case user of
                Some u \<Rightarrow> bindA (setUser u) (\<lambda>_. returnA True)
              | None \<Rightarrow> bindA (cookie_handleUnauthorized lib a') (\<lambda>_. returnA False)))) c)"

lemma cookie_handleRequest_eq:
  "cookie_handleRequest lib = bindA (processLogin lib) (\<lambda>processed. if processed then returnA False else session_check lib)"
  unfolding cookie_handleRequest_def [abs_def] session_check_def ..

lemma polite_check: "polite (session_check lib)"
  unfolding session_check_def
  by (intro polite_request)
    (auto intro!: polite_then quiet_bind quiet_auth polite_unauthorized quiet_polite [OF quiet_return] quiet_polite [OF quiet_auth(2)]
      split: option.splits prod.splits)

lemma cookie_courteous: "courteous_auth (cookie_handleRequest lib)"
proof
  show "polite (cookie_handleRequest lib)"
    unfolding cookie_handleRequest_eq
  proof (rule polite_bind [OF polite_login])
    show "polite (if a then returnA False else session_check lib)" for a
      by (simp add: polite_check quiet_polite quiet_return)
    show "x_conn c' = x_conn c \<or> quiet (if a then returnA False else session_check lib)" if "processLogin lib c = (Inr a, c')" for c a c'
      using login_unprocessed [of lib c c'] that by (cases a) (simp_all add: quiet_return)
  qed
  show "x_conn c' = x_conn c" if req: "is_request (x_request c)" and run: "cookie_handleRequest lib c = (Inr True, c')" for c c'
  proof -
    obtain q where q: "as_request (x_request c) = Inr q" using as_request_ok [OF req] by blast
    obtain b c1 where login: "processLogin lib c = (b, c1)" by fastforce
    with run have b: "b = Inr False" by (auto simp: cookie_handleRequest_def bindA_def [of "processLogin _"] returnA_def split: sum.splits if_splits)
    then have "c1 = c" using login_unprocessed login by blast
    with run q login b show ?thesis
      by (auto simp: cookie_handleRequest_def bindA_def lift_fault_def returnA_def modify_auth_def setUser_def
          split: sum.splits if_splits option.splits prod.splits)
  qed
qed

interpretation cookie_auth: courteous_auth "cookie_handleRequest lib :: ((HTTPCookieAuth, 'r) guarded, bool) action"
  by (rule cookie_courteous)

text \<open>A server whose handlers and whose authentication keep the contract.\<close>

definition well_served :: "'w HTTPServer \<Rightarrow> bool" where
  "well_served h \<longleftrightarrow> (\<forall>e\<in>set (s_resources h). courteous (snd e)) \<and> courteous (s_bad_request_handler h) \<and>
     courteous (s_not_found_handler h) \<and> (\<forall>msg. courteous (s_server_error_handler h msg)) \<and> (\<forall>auth. s_auth h = Some auth \<longrightarrow> courteous_auth auth) \<and>
     ordered (s_resources h) \<and> s_max_content_length h < 2 ^ 64 - 1"

lemma orderlyD: "orderly f \<Longrightarrow> is_request (x_request c) \<Longrightarrow> f c = (r, c') \<Longrightarrow> r \<noteq> Inl (Abort e) \<and> outcome (x_conn c) (x_conn c')"
  by (simp add: orderly_def)

lemma dispatch_orderly:
  assumes "well_served h"
  shows "orderly (dispatch h resource)"
proof -
  define page where "page = (case findRequestHandler resource (s_resources h) of Some f \<Rightarrow> call_handler h f | None \<Rightarrow> s_not_found_handler h)"
  have page: "orderly page"
  proof (cases "findRequestHandler resource (s_resources h)")
    case None
    then show ?thesis using assms courteous.orderly unfolding page_def well_served_def by fastforce
  next
    case (Some f)
    have "ordered (s_resources h)" using assms by (simp add: well_served_def)
    from findRequestHandler_Some [OF this Some] have "courteous f" using assms by (auto simp: well_served_def)
    then have "orderly (call_handler h f)" using assms by (intro courteous.call_orderly) (simp_all add: well_served_def)
    with Some show ?thesis by (simp add: page_def)
  qed
  have disp: "dispatch h resource = bindA (authorized h) (\<lambda>ok. if \<not> ok then returnA () else page)"
    by (simp add: dispatch_def page_def cong: if_cong option.case_cong)
  show ?thesis
    unfolding orderly_def
  proof (intro allI impI)
    fix c r c' assume req: "is_request (x_request c)" and run: "dispatch h resource c = (r, c')"
    obtain b c1 where b: "authorized h c = (b, c1)" by fastforce
    have auth: "(\<forall>f. b \<noteq> Inl (Abort f)) \<and> is_request (x_request c1) \<and> (b = Inr True \<longrightarrow> x_conn c1 = x_conn c) \<and>
      (x_conn c1 = x_conn c \<or> tc_open (x_conn c) \<and> (\<exists>s. x_conn c1 = async_write s (x_conn c)))"
    proof (cases "s_auth h")
      case None
      with b req show ?thesis by (auto simp: authorized_def returnA_def)
    next
      case (Some auth)
      then have ca: "courteous_auth auth" using assms by (simp add: well_served_def)
      have run_auth: "auth c = (b, c1)" using b Some by (simp add: authorized_def)
      from politeD [OF courteous_auth.polite [OF ca] req run_auth] courteous_auth.passes [OF ca req, of c1] run_auth
      show ?thesis by simp
    qed
    show "(\<forall>e. r \<noteq> Inl (Abort e)) \<and> outcome (x_conn c) (x_conn c')"
    proof (cases "b = Inr True")
      case True
      then have "page c1 = (r, c')" using run b by (simp add: disp bindA_def)
      from orderlyD [OF page _ this] auth True show ?thesis by simp
    next
      case False
      then have "c' = c1 \<and> (\<forall>e. r \<noteq> Inl (Abort e))" using run b auth by (auto simp: disp bindA_def returnA_def split: sum.splits)
      then show ?thesis using auth unfolding outcome_def by blast
    qed
  qed
qed

lemma handleRequest_orderly:
  assumes "well_served h"
  shows "orderly (handleRequest h)"
  unfolding orderly_def
proof (intro allI impI)
  fix c r c'
  assume req: "is_request (x_request c)" and res: "handleRequest h c = (r, c')"
  have bad: "orderly (s_bad_request_handler h)" "\<And>msg. orderly (s_server_error_handler h msg)"
    using assms courteous.orderly unfolding well_served_def by blast+
  show "(\<forall>e. r \<noteq> Inl (Abort e)) \<and> outcome (x_conn c) (x_conn c')"
  proof (cases "m_is_valid (x_request c)")
    case True
    obtain q where q: "as_request (x_request c) = Inr q" using as_request_ok [OF req] by blast
    obtain ok resource rq where f: "follow_redirects (s_redirects h) 0 (stripTrailingSlash (m_resource q)) (x_request c) =
        Inr (ok, resource, rq)" "is_request rq" using follow_redirects_request [OF req] by (metis zero_le)
    have "(if ok then dispatch h resource (c\<lparr>x_request := rq\<rparr>)
        else s_server_error_handler h TOO_MANY_REDIRECTS (c\<lparr>x_request := rq\<rparr>)) = (r, c')"
      using res True q f by (simp add: handleRequest_def bindA_def lift_fault_def Let_def)
    then show ?thesis
      using orderlyD [OF dispatch_orderly [OF assms], of "c\<lparr>x_request := rq\<rparr>"] orderlyD [OF bad(2), of "c\<lparr>x_request := rq\<rparr>"] f(2)
      by (auto split: if_splits)
  next
    case False
    then show ?thesis using orderlyD [OF bad(1) req, of r c'] res by (auto simp: handleRequest_def)
  qed
qed

section \<open>What a reader does to its connection\<close>

lemma bindE_Inr: "bindE m f = Inr y \<longleftrightarrow> (\<exists>x. m = Inr x \<and> f x = Inr y)"
  by (cases m) simp_all

lemma choose_content_request: "choose_content lib p m = Some (rc, p', m') \<Longrightarrow> p_is_request p' = p_is_request p"
  by (auto simp: choose_content_def use_content_length_def Let_def split: if_splits option.splits)

lemma parse_headers_step_request:
  assumes "parse_headers_step lib p msg = Inr (rc, p', m')"
  shows "p_is_request p' = p_is_request p"
proof -
  obtain rc1 p1 m1 where ph: "parseHeaders p msg = (rc1, p1, m1)" by (cases "parseHeaders p msg")
  have "p_is_request p1 = p_is_request p"
    using parseHeaders_loop_frame [OF ph [unfolded parseHeaders_def]] by (simp add: parser_frame_def)
  then show ?thesis using assms ph choose_content_request
    by (fastforce simp: parse_headers_step_def finishHeaderParsing_def bindE_Inr Let_def split: if_splits option.splits)
qed

lemma parse_step_request:
  assumes "parse_step lib rc p msg = Inr (n, rc', p', m')"
  shows "p_is_request p' = p_is_request p"
proof (cases "p_message_parse_state p")
  case PARSE_START
  then show ?thesis using assms parse_headers_step_request [of lib "message_state PARSE_HEADERS p" msg]
    by (auto simp: parse_step_def bindE_Inr)
next
  case PARSE_HEADERS
  then show ?thesis using assms parse_headers_step_request [of lib p msg] by (auto simp: parse_step_def bindE_Inr)
next
  case PARSE_CHUNKS
  obtain rc1 p1 cache where pc: "parseChunks p (m_chunk_cache msg) = (rc1, p1, cache)" by (cases "parseChunks p (m_chunk_cache msg)")
  then show ?thesis using PARSE_CHUNKS assms parseChunks_loop_frame [OF pc [unfolded parseChunks_def]]
    by (auto simp: parse_step_def bindE_Inr Let_def)
next
  case PARSE_CONTENT
  then show ?thesis using assms by (auto simp: parse_step_def consumeContent_def bindE_Inr Let_def split: if_splits)
next
  case PARSE_CONTENT_NO_LENGTH
  then show ?thesis using assms
    by (auto simp: parse_step_def consumeContentAsNextChunk_def Let_def split: if_splits)
qed (use assms in \<open>simp_all add: parse_step_def\<close>)

lemma parse_loop_request:
  "parse_loop lib fuel k rc p msg = Some (Inr (n, rc', p', m')) \<Longrightarrow> p_is_request p' = p_is_request p"
proof (induction fuel arbitrary: k rc p msg)
  case (Suc fuel)
  then show ?case using parse_step_request [of lib rc p msg] by (auto split: sum.splits prod.splits if_splits)
qed simp

lemma parse_now_request:
  assumes "parse_now lib p msg = Inr (rc, p', m')"
  shows "p_is_request p' = p_is_request p"
proof -
  have "parse lib p msg = Some (Inr (rc, p', m'))" using assms parse_now by metis
  then show ?thesis
    using parse_loop_request [of lib 2 0 Indeterminate p]
    by (auto simp: parse_def conclude_def bindE_Inr Let_def split: if_splits option.splits sum.splits tribool.splits)
qed

definition reader_ok :: "HTTPReader \<Rightarrow> bool" where
  "reader_ok rd \<longleftrightarrow> parser_safe (r_parser rd) (r_http_msg rd) \<and> p_is_request (r_parser rd)"

definition conn_ok :: "TCPConnection \<Rightarrow> bool" where
  "conn_ok conn \<longleftrightarrow> (tc_lifecycle conn = LIFECYCLE_PIPELINED \<longrightarrow> tc_saved conn \<noteq> [])"

text \<open>The result of a run on a connection; it calls \<open>finish\<close> on a closed connection, or when \<open>b\<close> allows it.\<close>

definition reading_ok :: "bool \<Rightarrow> TCPConnection \<Rightarrow> exn + HTTPReader option \<Rightarrow> TCPConnection \<Rightarrow> bool" where
  "reading_ok b conn r conn' \<longleftrightarrow> (\<forall>e. r \<noteq> Inl (Abort e)) \<and> tc_open conn' = tc_open conn \<and> conn_ok conn' \<and>
     (if \<exists>rd. r = Inr (Some rd)
      then (\<exists>rd. r = Inr (Some rd) \<and> reader_ok rd) \<and> tc_events conn' = tc_events conn @ [Async_read] \<and>
        tc_lifecycle conn' = LIFECYCLE_CLOSE
      else tc_events conn' = tc_events conn \<or>
        tc_open conn \<and> (\<exists>s. tc_events conn' = tc_events conn @ [Async_write s]) \<or>
        (b \<or> \<not> tc_open conn) \<and> tc_events conn' = tc_events conn @ [Finish_called] \<and> tc_lifecycle conn' = LIFECYCLE_CLOSE)"

lemma reading_ok_weaken: "reading_ok False conn r conn' \<Longrightarrow> reading_ok b conn r conn'"
  by (auto simp: reading_ok_def split: if_splits)

lemma conn_simps [simp]:
  "tc_open (setLifecycle t conn) = tc_open conn" "tc_events (setLifecycle t conn) = tc_events conn"
  "tc_saved (setLifecycle t conn) = tc_saved conn" "tc_lifecycle (setLifecycle t conn) = t"
  "tc_open (conn_finish conn) = tc_open conn" "tc_events (conn_finish conn) = tc_events conn @ [Finish_called]"
  "tc_saved (conn_finish conn) = tc_saved conn" "tc_lifecycle (conn_finish conn) = tc_lifecycle conn"
  "tc_open (async_write s conn) = tc_open conn" "tc_events (async_write s conn) = tc_events conn @ [Async_write s]"
  "tc_saved (async_write s conn) = tc_saved conn" "tc_lifecycle (async_write s conn) = tc_lifecycle conn"
  "tc_open (async_read_some conn) = tc_open conn" "tc_events (async_read_some conn) = tc_events conn @ [Async_read]"
  "tc_saved (async_read_some conn) = tc_saved conn" "tc_lifecycle (async_read_some conn) = tc_lifecycle conn"
  "tc_open (close conn) = False" "tc_events (close conn) = tc_events conn"
  "tc_saved (close conn) = tc_saved conn" "tc_lifecycle (close conn) = tc_lifecycle conn"
  by (simp_all add: setLifecycle_def conn_finish_def async_write_def async_read_some_def close_def)

lemma conn_ok_close: "tc_lifecycle conn = LIFECYCLE_CLOSE \<Longrightarrow> conn_ok conn"
  by (simp add: conn_ok_def)

lemma set_connection_lifecycle_ok:
  "tc_open (set_connection_lifecycle p msg conn) = tc_open conn"
  "tc_events (set_connection_lifecycle p msg conn) = tc_events conn"
  "conn_ok (set_connection_lifecycle p msg conn)"
  by (simp_all add: set_connection_lifecycle_def setLifecycle_def saveReadPosition_def conn_ok_def parser_eof_def)

lemma finishedReading_ok:
  assumes "orderly fin" "is_request msg" "conn_ok (x_conn c)" "finishedReading fin msg c = (r, c')"
  shows "reading_ok False (x_conn c) r (x_conn c')"
proof -
  obtain r1 c1 where f: "fin (c\<lparr>x_request := msg\<rparr>) = (r1, c1)" by (cases "fin (c\<lparr>x_request := msg\<rparr>)")
  from orderlyD [OF assms(1) _ f] assms(2) have o: "\<And>e. r1 \<noteq> Inl (Abort e)" "outcome (x_conn c) (x_conn c1)" by auto
  have r: "c' = c1" "\<And>e. r \<noteq> Inl (Abort e)" "\<And>rd. r \<noteq> Inr (Some rd)"
    using assms(4) f o(1) by (auto simp: finishedReading_def split: sum.splits)
  show ?thesis using o(2) r assms(3) by (auto simp: reading_ok_def outcome_def conn_ok_def)
qed

lemma reading_ok_relabel:
  "reading_ok b conn r conn' \<Longrightarrow> tc_open conn = tc_open conn0 \<Longrightarrow> tc_events conn = tc_events conn0 \<Longrightarrow> reading_ok b conn0 r conn'"
  by (auto simp: reading_ok_def)

lemma readBytesWithTimeout_ok:
  assumes "reader_ok rd" "tc_lifecycle (x_conn c) = LIFECYCLE_CLOSE" "readBytesWithTimeout rd c = (r, c')"
  shows "reading_ok b (x_conn c) r (x_conn c')"
  using assms by (auto simp: readBytesWithTimeout_def reading_ok_def conn_ok_def reader_ok_def)

lemma consumeBytes_ok:
  assumes "orderly fin" "reader_ok rd" "\<not> parser_eof (r_parser rd)" "tc_lifecycle (x_conn c) = LIFECYCLE_CLOSE"
    and "consumeBytes lib fin rd c = (r, c')"
  shows "reading_ok False (x_conn c) r (x_conn c')"
proof -
  obtain rc p m where "parse lib (r_parser rd) (r_http_msg rd) = Some (Inr (rc, p, m))" and safe: "parser_safe p m"
    using parse_safe [of "r_parser rd" "r_http_msg rd" lib] assms(2,3) unfolding reader_ok_def by blast
  then have pr: "parse_now lib (r_parser rd) (r_http_msg rd) = Inr (rc, p, m)" by (simp add: parse_now_def)
  have req: "p_is_request p" "is_request m"
    using parse_now_request [OF pr] assms(2) safe by (simp_all add: reader_ok_def parser_safe_def)
  show ?thesis
  proof (cases rc)
    case TTrue
    with assms(5) pr have "finishedReading fin m (c\<lparr>x_conn := set_connection_lifecycle p m (x_conn c)\<rparr>) = (r, c')"
      by (simp add: consumeBytes_def)
    from finishedReading_ok [OF assms(1) req(2) _ this] show ?thesis
      by (auto intro: reading_ok_relabel simp: set_connection_lifecycle_ok)
  next
    case TFalse
    with assms(5) pr have "finishedReading fin (m\<lparr>m_is_valid := False\<rparr>) (c\<lparr>x_conn := setLifecycle LIFECYCLE_CLOSE (x_conn c)\<rparr>) = (r, c')"
      by (simp add: consumeBytes_def)
    from finishedReading_ok [OF assms(1) _ _ this] req(2) show ?thesis
      by (auto intro: reading_ok_relabel simp: is_request_def conn_ok_def)
  next
    case Indeterminate
    with assms(5) pr have "readBytesWithTimeout (rd\<lparr>r_parser := p, r_http_msg := m\<rparr>) c = (r, c')" by (simp add: consumeBytes_def)
    then show ?thesis using readBytesWithTimeout_ok [of "rd\<lparr>r_parser := p, r_http_msg := m\<rparr>" c r c'] safe req assms(4)
      by (simp add: reader_ok_def)
  qed
qed

lemma handleReadError_ok:
  assumes "orderly fin" "reader_ok rd" "handleReadError fin rd c = (r, c')"
  shows "reading_ok True (x_conn c) r (x_conn c')"
proof -
  obtain b p m where eof: "checkPrematureEOF (r_parser rd) (r_http_msg rd) = Inr (b, p, m)" "parser_safe p m"
    using checkPrematureEOF_safe [of "r_parser rd" "r_http_msg rd"] assms(2) unfolding reader_ok_def by blast
  have "p_is_request p" using eof(1) assms(2)
    by (auto simp: checkPrematureEOF_def bindE_Inr reader_ok_def Let_def split: if_splits)
  then have req: "is_request m" using eof(2) by (simp add: parser_safe_def)
  show ?thesis
  proof (cases b)
    case True
    with assms(3) eof(1) show ?thesis by (auto simp: handleReadError_def reading_ok_def conn_ok_def)
  next
    case False
    with assms(3) eof(1) have "finishedReading fin m (c\<lparr>x_conn := setLifecycle LIFECYCLE_CLOSE (x_conn c)\<rparr>) = (r, c')"
      by (simp add: handleReadError_def)
    from finishedReading_ok [OF assms(1) req _ this]
    have "reading_ok False (setLifecycle LIFECYCLE_CLOSE (x_conn c)) r (x_conn c')" by (simp add: conn_ok_def)
    then have "reading_ok False (x_conn c) r (x_conn c')" by (rule reading_ok_relabel) simp_all
    then show ?thesis by (rule reading_ok_weaken)
  qed
qed

lemma consumeBytes_read_ok:
  assumes "orderly fin" "reader_ok rd" "ev \<noteq> Read_some []" "tc_lifecycle (x_conn c) = LIFECYCLE_CLOSE"
    and "consumeBytes_read lib fin ev rd c = (r, c')"
  shows "reading_ok True (x_conn c) r (x_conn c')"
proof (cases ev)
  case (Read_some s)
  define rd' where "rd' = rd\<lparr>r_timer := None, r_parser := setReadBuffer s (r_parser rd)\<rparr>"
  have ok: "reader_ok rd'" "\<not> parser_eof (r_parser rd')"
    using assms(2,3) Read_some parser_safe_setReadBuffer
    by (auto simp: reader_ok_def rd'_def parser_eof_def) (simp_all add: setReadBuffer_def)
  have "consumeBytes lib fin rd' c = (r, c')" using assms(5) Read_some by (simp add: consumeBytes_read_def rd'_def)
  from consumeBytes_ok [OF assms(1) ok assms(4) this] show ?thesis by (rule reading_ok_weaken)
next
  case Read_error
  with assms(2,5) handleReadError_ok [OF assms(1), of "rd\<lparr>r_timer := None\<rparr>" c r c'] show ?thesis
    by (simp add: consumeBytes_read_def reader_ok_def)
qed

lemma handleConnection_ok:
  assumes "well_served h" "conn_ok (x_conn c)" "handleConnection lib h c = (r, c')"
  shows "reading_ok False (x_conn c) r (x_conn c')"
proof -
  define rd where "rd = setMaxContentLength (s_max_content_length h) HTTPRequestReader"
  define c1 where "c1 = c\<lparr>x_conn := setLifecycle LIFECYCLE_CLOSE (x_conn c)\<rparr>"
  have "r_parser rd = HTTPParser_init True (s_max_content_length h)" "r_http_msg rd = HTTPRequest_init []"
    by (simp_all add: rd_def setMaxContentLength_def HTTPRequestReader_def HTTPParser_init_def)
  moreover have "is_request (HTTPRequest_init [])" "m_chunk_cache (HTTPRequest_init []) = []"
    by (simp_all add: HTTPRequest_init_def HTTPMessage_init_def is_request_def)
  moreover have "s_max_content_length h < 2 ^ 64 - 1" using assms(1) by (simp add: well_served_def)
  ultimately have rd: "parser_safe (r_parser rd) (r_http_msg rd)" "p_is_request (r_parser rd)"
    using parser_safe_init by (simp_all add: HTTPParser_init_def)
  have ord: "orderly (handleRequest h)" by (rule handleRequest_orderly [OF assms(1)])
  show ?thesis
  proof (cases "tc_lifecycle (x_conn c) = LIFECYCLE_PIPELINED")
    case True
    define rd' where "rd' = rd\<lparr>r_parser := setReadBuffer (tc_saved (x_conn c)) (r_parser rd)\<rparr>"
    have "reader_ok rd'" "\<not> parser_eof (r_parser rd')"
      using rd parser_safe_setReadBuffer True assms(2)
      by (auto simp: rd'_def reader_ok_def parser_eof_def conn_ok_def) (simp_all add: setReadBuffer_def)
    moreover have "consumeBytes lib (handleRequest h) rd' c1 = (r, c')"
      using assms(3) True by (simp add: handleConnection_def reader_receive_def rd_def rd'_def c1_def Let_def)
    ultimately have "reading_ok False (x_conn c1) r (x_conn c')"
      by (intro consumeBytes_ok [OF ord, of rd' c1 lib r c']) (simp_all add: c1_def)
    then show ?thesis by (rule reading_ok_relabel) (simp_all add: c1_def)
  next
    case False
    then have "readBytesWithTimeout rd c1 = (r, c')"
      using assms(3) by (simp add: handleConnection_def reader_receive_def rd_def c1_def Let_def)
    from readBytesWithTimeout_ok [OF _ _ this, of False] rd have "reading_ok False (x_conn c1) r (x_conn c')"
      by (simp add: reader_ok_def c1_def)
    then show ?thesis by (rule reading_ok_relabel) (simp_all add: c1_def)
  qed
qed

section \<open>The invariant\<close>

text \<open>A call of \<open>stop\<close> that closed the connections still waits, and the server that was started again meanwhile.\<close>

definition abrupt :: "'w TCPServer \<Rightarrow> bool" where
  "abrupt s \<longleftrightarrow> False \<in> set (ts_stoppers s)"

definition restarted_early :: "'w TCPServer \<Rightarrow> bool" where
  "restarted_early s \<longleftrightarrow> ts_is_listening s \<and> abrupt s"

definition in_use :: "'w TCPServer \<Rightarrow> bool" where
  "in_use s \<longleftrightarrow> ts_is_listening s \<or> ts_stoppers s \<noteq> []"

text \<open>A connection that writes is open unless it will be closed: by then a pipelined request was closed with it.\<close>

definition k_ok :: "bool \<Rightarrow> pooled \<Rightarrow> bool" where
  "k_ok closed k \<longleftrightarrow> conn_ok (k_conn k) \<and>
     (k_ops k = [] \<or> k_pooled k \<and>
       (k_ops k = [Op_accept] \<and> tc_lifecycle (k_conn k) = LIFECYCLE_CLOSE \<or>
        (\<exists>rd. k_ops k = [Op_read rd] \<and> reader_ok rd) \<and> tc_lifecycle (k_conn k) = LIFECYCLE_CLOSE \<or>
        k_ops k = [Op_write] \<and> (\<not> closed \<and> getKeepAlive (k_conn k) \<longrightarrow> tc_open (k_conn k))))"

definition accepting :: "'w TCPServer \<Rightarrow> nat set" where
  "accepting s = {i. \<exists>k. map_find i (ts_connections s) = Some k \<and> Op_accept \<in> set (k_ops k)}"

definition connections_ok :: "'w TCPServer \<Rightarrow> bool" where
  "connections_ok s \<longleftrightarrow> ordered (ts_connections s) \<and>
     (\<forall>i k. map_find i (ts_connections s) = Some k \<longrightarrow> i < ts_next s \<and> k_ok (abrupt s) k \<and>
        (k_pooled k \<longrightarrow> in_use s))"

definition server_inv :: "'w TCPServer \<Rightarrow> bool" where
  "server_inv s \<longleftrightarrow> connections_ok s \<and> (ts_is_listening s \<and> accepting s = {} \<longrightarrow> ts_starting s > 0)"

text \<open>What the calls of \<open>start\<close> and \<open>stop\<close> have left, which completions do not change.\<close>

definition calls :: "'w TCPServer \<Rightarrow> bool \<times> bool list \<times> nat \<times> nat" where
  "calls s = (ts_is_listening s, ts_stoppers s, ts_starting s, ts_adding s)"

lemma callsD:
  assumes "calls s' = calls s"
  shows "ts_is_listening s' = ts_is_listening s" "ts_stoppers s' = ts_stoppers s" "ts_starting s' = ts_starting s" "ts_adding s' = ts_adding s"
    "in_use s' = in_use s" "abrupt s' = abrupt s" "restarted_early s' = restarted_early s" "calls_under_way s' = calls_under_way s"
  using assms by (simp_all add: calls_def in_use_def abrupt_def restarted_early_def calls_under_way_def)

lemma calls_frame [simp]:
  "calls (s\<lparr>ts_connections := m\<rparr>) = calls s" "calls (s\<lparr>ts_world := w\<rparr>) = calls s" "calls (s\<lparr>ts_next := n\<rparr>) = calls s"
  "calls (s\<lparr>ts_scheduler := x\<rparr>) = calls s" "calls (s\<lparr>ts_acceptor_open := o'\<rparr>) = calls s"
  by (simp_all add: calls_def)

lemma in_use_frame [simp]:
  "in_use (s\<lparr>ts_connections := m\<rparr>) = in_use s" "in_use (s\<lparr>ts_world := w\<rparr>) = in_use s" "in_use (s\<lparr>ts_next := n\<rparr>) = in_use s"
  "in_use (s\<lparr>ts_scheduler := x\<rparr>) = in_use s" "in_use (s\<lparr>ts_acceptor_open := o'\<rparr>) = in_use s"
  "in_use (s\<lparr>ts_starting := u\<rparr>) = in_use s" "in_use (s\<lparr>ts_adding := u\<rparr>) = in_use s"
  "abrupt (s\<lparr>ts_connections := m\<rparr>) = abrupt s" "abrupt (s\<lparr>ts_world := w\<rparr>) = abrupt s" "abrupt (s\<lparr>ts_next := n\<rparr>) = abrupt s"
  "abrupt (s\<lparr>ts_scheduler := x\<rparr>) = abrupt s" "abrupt (s\<lparr>ts_acceptor_open := o'\<rparr>) = abrupt s"
  "abrupt (s\<lparr>ts_starting := u\<rparr>) = abrupt s" "abrupt (s\<lparr>ts_adding := u\<rparr>) = abrupt s"
  "abrupt (s\<lparr>ts_is_listening := l\<rparr>) = abrupt s" "abrupt (s\<lparr>ts_port := p\<rparr>) = abrupt s" "in_use (s\<lparr>ts_port := p\<rparr>) = in_use s"
  by (simp_all add: in_use_def abrupt_def)

lemma map_find_map_prod [simp]: "map_find i (map (map_prod id f) m) = map_option f (map_find i m)"
  by (induction m) (simp_all add: map_find_def)

lemma ordered_map_prod [simp]: "ordered (map (map_prod id f) m) \<longleftrightarrow> ordered m"
  by (simp add: ordered_def comp_def)

lemma connections_okD:
  "connections_ok s \<Longrightarrow> map_find i (ts_connections s) = Some k \<Longrightarrow> i < ts_next s \<and> k_ok (abrupt s) k"
  by (simp add: connections_ok_def)

lemma put_frame [simp]:
  "ts_is_listening (put_connection i k s) = ts_is_listening s" "calls (put_connection i k s) = calls s"
  "ts_next (put_connection i k s) = ts_next s" "in_use (put_connection i k s) = in_use s" "abrupt (put_connection i k s) = abrupt s"
  by (simp_all add: put_connection_def)

lemma map_find_put:
  "connections_ok s \<Longrightarrow> map_find j (ts_connections (put_connection i k s)) = (if j = i then Some k else map_find j (ts_connections s))"
  by (simp add: put_connection_def connections_ok_def map_find_assign)

lemma connections_ok_put:
  assumes "connections_ok s" "i < ts_next s" "k_ok (abrupt s) k" "k_pooled k \<longrightarrow> in_use s"
  shows "connections_ok (put_connection i k s)"
proof -
  have "ordered (ts_connections (put_connection i k s))"
    using assms(1) by (simp add: connections_ok_def put_connection_def ordered_map_assign)
  moreover have "map_find j (ts_connections (put_connection i k s)) = Some k' \<Longrightarrow> j < ts_next s \<and> k_ok (abrupt s) k' \<and>
        (k_pooled k' \<longrightarrow> in_use s)" for j k'
    using assms unfolding map_find_put [OF assms(1)] by (auto simp: connections_ok_def split: if_splits)
  ultimately show ?thesis unfolding connections_ok_def put_frame by blast
qed

lemma accepting_put:
  "connections_ok s \<Longrightarrow> accepting (put_connection i k s) =
     (if Op_accept \<in> set (k_ops k) then insert i (accepting s) else accepting s - {i})"
  by (auto simp: accepting_def map_find_put)

lemma world_frame [simp]:
  "connections_ok (s\<lparr>ts_world := w\<rparr>) = connections_ok s" "accepting (s\<lparr>ts_world := w\<rparr>) = accepting s"
  by (simp_all add: connections_ok_def accepting_def)

lemma prune_one_ok: "k_ok l k \<Longrightarrow> k_ok l (prune_one k)" "k_ops (prune_one k) = k_ops k" "k_pooled (prune_one k) \<Longrightarrow> k_pooled k"
  by (simp_all add: prune_one_def k_ok_def conn_ok_def split: if_splits)

lemma prune_ok: "connections_ok s \<Longrightarrow> connections_ok (pruneConnections s)" "accepting (pruneConnections s) = accepting s"
  using prune_one_ok by (auto simp: connections_ok_def accepting_def pruneConnections_def)

lemma prune_frame [simp]:
  "ts_is_listening (pruneConnections s) = ts_is_listening s" "calls (pruneConnections s) = calls s"
  "ts_next (pruneConnections s) = ts_next s" "in_use (pruneConnections s) = in_use s" "abrupt (pruneConnections s) = abrupt s"
  by (simp_all add: pruneConnections_def)

lemma listen_ok:
  assumes "connections_ok s" "ts_is_listening s"
  shows "connections_ok (listen s)" "accepting (listen s) = insert (ts_next s) (accepting s)"
    "calls (listen s) = calls s" "ts_next (listen s) = Suc (ts_next s)"
proof -
  define s' where "s' = (pruneConnections s)\<lparr>ts_next := Suc (ts_next s)\<rparr>"
  define k where "k = \<lparr>k_conn = TCPConnection_init, k_ops = [Op_accept], k_pooled = True\<rparr>"
  have eq: "listen s = put_connection (ts_next s) k s'" using assms(2) by (simp add: listen_def s'_def k_def Let_def)
  have "connections_ok s'" using prune_ok(1) [OF assms(1)] unfolding connections_ok_def s'_def by (auto intro: less_SucI)
  moreover have "accepting s' = accepting (pruneConnections s)" by (simp add: accepting_def s'_def)
  ultimately have s': "connections_ok s'" "accepting s' = accepting s" "ts_is_listening s'"
    using assms(2) by (simp_all add: prune_ok(2)) (simp add: s'_def)
  have k: "k_ok cl k" "Op_accept \<in> set (k_ops k)" for cl by (simp_all add: k_def k_ok_def conn_ok_def TCPConnection_init_def)
  show "connections_ok (listen s)" unfolding eq
    by (rule connections_ok_put [OF s'(1)]) (use k s'(3) in \<open>simp_all add: s'_def in_use_def\<close>)
  show "accepting (listen s) = insert (ts_next s) (accepting s)" unfolding eq accepting_put [OF s'(1)] using k s' by simp
  show "calls (listen s) = calls s" "ts_next (listen s) = Suc (ts_next s)"
    unfolding eq by (simp_all add: s'_def)
qed

text \<open>Running code on connection \<open>i\<close> with no operation under way.\<close>

lemma with_connection_ok:
  assumes "k_ops k = []" "k_pooled k" "connections_ok s" "i < ts_next s" "in_use s"
    and "\<And>c r c'. x_conn c = (k_conn k)\<lparr>tc_events := []\<rparr> \<Longrightarrow> f c = (r, c') \<Longrightarrow> reading_ok b (x_conn c) r (x_conn c')"
  shows "\<exists>k' s' fin. with_connection f i k s = Inr (put_connection i k' s', fin) \<and> (\<exists>w. s' = s\<lparr>ts_world := w\<rparr>) \<and>
     k_ok (abrupt s) k' \<and> k_pooled k' \<and> Op_accept \<notin> set (k_ops k') \<and>
     (fin \<longrightarrow> (b \<or> \<not> tc_open (k_conn k)) \<and> k_ops k' = [] \<and> tc_lifecycle (k_conn k') = LIFECYCLE_CLOSE)"
proof -
  define c where "c = \<lparr>x_request = HTTPRequest_init [], x_conn = (k_conn k)\<lparr>tc_events := []\<rparr>, x_world = ts_world s\<rparr>"
  obtain r c' where f: "f c = (r, c')" by (cases "f c")
  have ok: "reading_ok b (x_conn c) r (x_conn c')" by (rule assms(6) [OF _ f]) (simp add: c_def)
  define k' where "k' = k\<lparr>k_conn := x_conn c', k_ops := new_ops r (tc_events (x_conn c'))\<rparr>"
  define fin where "fin = (Finish_called \<in> set (tc_events (x_conn c')))"
  have "\<And>e. r \<noteq> Inl (Abort e)" using ok by (simp add: reading_ok_def)
  then have eq: "with_connection f i k s = Inr (put_connection i k' (s\<lparr>ts_world := x_world c'\<rparr>), fin)"
    using f assms(1) unfolding with_connection_def c_def [symmetric] k'_def fin_def
    by (simp split: sum.splits exn.splits)
  have c: "tc_events (x_conn c) = []" "tc_open (x_conn c) = tc_open (k_conn k)" by (simp_all add: c_def)
  consider (read) rd where "r = Inr (Some rd)" "reader_ok rd" "tc_events (x_conn c') = [Async_read]" "tc_lifecycle (x_conn c') = LIFECYCLE_CLOSE"
    | (idle) "\<And>rd. r \<noteq> Inr (Some rd)" "tc_events (x_conn c') = []"
    | (writing) t where "\<And>rd. r \<noteq> Inr (Some rd)" "tc_events (x_conn c') = [Async_write t]" "tc_open (x_conn c')"
    | (finish) "\<And>rd. r \<noteq> Inr (Some rd)" "tc_events (x_conn c') = [Finish_called]" "b \<or> \<not> tc_open (k_conn k)"
        "tc_lifecycle (x_conn c') = LIFECYCLE_CLOSE"
    using ok c unfolding reading_ok_def by (auto split: if_splits)
  then have "k_ok (abrupt s) k' \<and> k_pooled k' \<and> Op_accept \<notin> set (k_ops k') \<and>
     (fin \<longrightarrow> (b \<or> \<not> tc_open (k_conn k)) \<and> k_ops k' = [] \<and> tc_lifecycle (k_conn k') = LIFECYCLE_CLOSE)"
  proof cases
    case read
    then show ?thesis using ok assms(2) by (simp add: k'_def k_ok_def new_ops_def fin_def reading_ok_def)
  next
    case idle
    then have "k_ops k' = []" by (simp add: k'_def new_ops_def split: sum.splits option.splits)
    then show ?thesis using idle ok assms(2) by (simp add: k'_def k_ok_def fin_def reading_ok_def)
  next
    case writing
    then have "k_ops k' = [Op_write]" by (simp add: k'_def new_ops_def split: sum.splits option.splits)
    then show ?thesis using writing ok assms(2) by (simp add: k'_def k_ok_def fin_def reading_ok_def)
  next
    case finish
    then have "k_ops k' = []" by (simp add: k'_def new_ops_def split: sum.splits option.splits)
    then show ?thesis using finish ok assms(2) by (simp add: k'_def k_ok_def fin_def reading_ok_def)
  qed
  with eq show ?thesis by blast
qed

text \<open>What a step may leave: the connections in order and the others still accepting.\<close>

definition settled :: "nat \<Rightarrow> 'w TCPServer \<Rightarrow> fault + 'w TCPServer \<Rightarrow> bool" where
  "settled i s r \<longleftrightarrow> (\<exists>s'. r = Inr s' \<and> connections_ok s' \<and> accepting s' = accepting s - {i} \<and> calls s' = calls s) \<or>
     r = Inl Self_deadlock \<and> restarted_early s"

lemma settled_put:
  assumes "connections_ok s" "i < ts_next s" "k_ok (abrupt s) k" "Op_accept \<notin> set (k_ops k)"
    and "k_pooled k \<longrightarrow> in_use s"
  shows "settled i s (Inr (put_connection i k s))"
  unfolding settled_def using connections_ok_put [OF assms(1-3,5)] accepting_put [OF assms(1)] assms(4) by simp

lemma settled_trans: "settled i s1 r \<Longrightarrow> accepting s1 - {i} = accepting s - {i} \<Longrightarrow> calls s1 = calls s \<Longrightarrow> settled i s r"
  using callsD(7) [of s1 s] by (auto simp: settled_def)

lemma settled_putD: "settled i s (Inr s') \<Longrightarrow> connections_ok s' \<and> accepting s' = accepting s - {i} \<and> calls s' = calls s"
  by (simp add: settled_def)

lemma finishConnection_ok:
  assumes "well_served h" "connections_ok s" "map_find i (ts_connections s) = Some k" "k_ops k = []" "k_pooled k"
    and "in_use s" "\<not> abrupt s \<and> getKeepAlive (k_conn k) \<longrightarrow> tc_open (k_conn k)"
  shows "settled i s (finishConnection lib h i s)"
proof -
  note k = connections_okD [OF assms(2,3)]
  show ?thesis
  proof (cases "ts_is_listening s \<and> getKeepAlive (k_conn k)")
    case True
    have "reading_ok False (x_conn c) r (x_conn c')"
      if "x_conn c = (k_conn k)\<lparr>tc_events := []\<rparr>" "handleConnection lib h c = (r, c')" for c r c'
      by (rule handleConnection_ok [OF assms(1) _ that(2)]) (use that(1) k in \<open>simp add: k_ok_def conn_ok_def\<close>)
    from with_connection_ok [OF assms(4,5,2) _ assms(6) this] k obtain k' s' fin w where
      w: "with_connection (handleConnection lib h) i k s = Inr (put_connection i k' s', fin)" "s' = s\<lparr>ts_world := w\<rparr>"
        "k_ok (abrupt s) k'" "Op_accept \<notin> set (k_ops k')" "fin \<longrightarrow> \<not> tc_open (k_conn k)" by blast
    have "fin \<Longrightarrow> restarted_early s" using w(5) True assms(7) unfolding restarted_early_def by blast
    moreover have "settled i s' (Inr (put_connection i k' s'))"
      by (rule settled_put) (use w(2-4) assms(2,6) k in simp_all)
    ultimately show ?thesis using w(1,2) True assms(3) by (auto simp: finishConnection_def settled_def)
  next
    case False
    have "settled i s (Inr (put_connection i (k\<lparr>k_pooled := False\<rparr>) s))"
      by (rule settled_put) (use assms k in \<open>simp_all add: k_ok_def\<close>)
    with False assms(3) show ?thesis by (auto simp: finishConnection_def)
  qed
qed

lemma run_unlocked_ok:
  assumes "well_served h" "connections_ok s" "k_ops k = []" "k_pooled k" "i < ts_next s" "in_use s"
    and "\<And>c r c'. x_conn c = (k_conn k)\<lparr>tc_events := []\<rparr> \<Longrightarrow> f c = (r, c') \<Longrightarrow> reading_ok True (x_conn c) r (x_conn c')"
  shows "settled i s (run_unlocked lib h f i k s)"
proof -
  from with_connection_ok [OF assms(3,4,2,5,6,7)] obtain k' s' fin w where
    w: "with_connection f i k s = Inr (put_connection i k' s', fin)" "s' = s\<lparr>ts_world := w\<rparr>"
      "k_ok (abrupt s) k'" "k_pooled k'" "Op_accept \<notin> set (k_ops k')"
      "fin \<longrightarrow> k_ops k' = [] \<and> tc_lifecycle (k_conn k') = LIFECYCLE_CLOSE" by blast
  define s1 where "s1 = put_connection i k' s'"
  have st: "settled i s' (Inr s1)"
    unfolding s1_def by (rule settled_put) (use w(2-5) assms(2,5,6) in simp_all)
  have "connections_ok s'" using w(2) assms(2) by simp
  then have find: "map_find i (ts_connections s1) = Some k'" unfolding s1_def by (simp add: map_find_put)
  have s1: "connections_ok s1" "accepting s1 = accepting s - {i}" "calls s1 = calls s"
    using settled_putD [OF st] w(2) by simp_all
  show ?thesis
  proof (cases fin)
    case True
    then have "settled i s1 (finishConnection lib h i s1)"
      by (intro finishConnection_ok [OF assms(1) s1(1) find]) (use w(4,6) callsD(5) [OF s1(3)] assms(6) in \<open>simp_all add: getKeepAlive_def\<close>)
    then have "settled i s (finishConnection lib h i s1)" by (rule settled_trans) (use s1 in simp_all)
    then show ?thesis using True w(1) by (simp add: run_unlocked_def s1_def)
  next
    case False
    then show ?thesis using w(1,2) st by (simp add: run_unlocked_def s1_def settled_def)
  qed
qed

section \<open>Every step keeps the invariant\<close>

lemma server_invD: "server_inv s \<Longrightarrow> connections_ok s"
  by (simp add: server_inv_def)

lemma ops_active:
  assumes "server_inv s" "map_find i (ts_connections s) = Some k" "x \<in> set (k_ops k)"
  shows "k_ops k = [x]" "k_pooled k" "in_use s" "i < ts_next s" "k_ok (abrupt s) k"
proof -
  have k: "k_ok (abrupt s) k" "i < ts_next s" "k_pooled k \<longrightarrow> in_use s"
    using assms(1,2) by (auto simp: server_inv_def connections_ok_def)
  then show "k_ops k = [x]" "k_pooled k" "in_use s" "i < ts_next s" "k_ok (abrupt s) k"
    using assms(3) by (auto simp: k_ok_def)
qed

lemma not_accepting: "map_find i (ts_connections s) = Some k \<Longrightarrow> Op_accept \<notin> set (k_ops k) \<Longrightarrow> accepting s - {i} = accepting s"
  by (auto simp: accepting_def)

text \<open>What every step does: the only fault is the mutex that is locked twice, after a restart during an abrupt stop.\<close>

definition kept :: "'w TCPServer \<Rightarrow> fault + 'w TCPServer \<Rightarrow> bool" where
  "kept s r \<longleftrightarrow> (\<exists>s'. r = Inr s' \<and> server_inv s') \<or> r = Inl Self_deadlock \<and> restarted_early s"

lemma settled_inv:
  assumes "settled i s r" "server_inv s" "accepting s - {i} = accepting s"
  shows "kept s r"
proof -
  from assms(1) consider s' where "r = Inr s'" "connections_ok s'" "accepting s' = accepting s - {i}" "calls s' = calls s"
    | "r = Inl Self_deadlock" "restarted_early s" by (auto simp: settled_def)
  then show ?thesis
  proof cases
    case 1
    with assms(2,3) callsD [OF 1(4)] have "server_inv s'" by (simp add: server_inv_def)
    with 1(1) show ?thesis by (simp add: kept_def)
  qed (simp add: kept_def)
qed

lemma listen_accepting:
  "connections_ok s \<Longrightarrow> accepting (listen s) = (if ts_is_listening s then insert (ts_next s) (accepting s) else accepting s)"
  "calls (listen s) = calls s"
  using listen_ok [of s] by (simp_all add: listen_def Let_def calls_def put_connection_def pruneConnections_def)

lemma handleAccept_settled:
  assumes "well_served h" "server_inv s" "map_find i (ts_connections s) = Some k" "Op_accept \<in> set (k_ops k)"
  shows "settled i (listen s) (handleAccept lib h err i k s)"
proof -
  note act = ops_active [OF assms(2-4)]
  define k' where "k' = drop_op Op_accept k"
  have k': "k_ops k' = []" "k_pooled k'" "k_conn k' = k_conn k" "k_ok l k'" "tc_lifecycle (k_conn k) = LIFECYCLE_CLOSE" for l
    using act by (auto simp: k'_def drop_op_def k_ok_def)
  define s1 where "s1 = listen s"
  have s1: "connections_ok s1" "i < ts_next s1" "calls s1 = calls s"
    using listen_ok [OF server_invD [OF assms(2)]] server_invD [OF assms(2)] act(4) unfolding s1_def
    by (cases "ts_is_listening s"; simp add: listen_def)+
  have active: "in_use s1" using act(3) callsD(5) [OF s1(3)] by simp
  have "settled i s1 (handleAccept lib h err i k s)"
  proof (cases err)
    case True
    define s2 where "s2 = put_connection i k' s1"
    have st: "settled i s1 (Inr s2)" unfolding s2_def by (rule settled_put [OF s1(1,2) k'(4)]) (use k'(1) active in simp_all)
    have "settled i s2 (finishConnection lib h i s2)"
      by (rule finishConnection_ok [OF assms(1), of _ _ k'])
        (use settled_putD [OF st] k' active map_find_put [OF s1(1)] in \<open>auto simp: s2_def getKeepAlive_def\<close>)
    then have "settled i s1 (finishConnection lib h i s2)" by (rule settled_trans) (use settled_putD [OF st] in auto)
    then show ?thesis using True by (simp add: handleAccept_def s1_def s2_def k'_def)
  next
    case False
    have "settled i s1 (run_unlocked lib h (handleConnection lib h) i k' s1)"
    proof (rule run_unlocked_ok [OF assms(1) s1(1) k'(1,2) s1(2) active])
      show "reading_ok True (x_conn c) r (x_conn c')"
        if "x_conn c = (k_conn k')\<lparr>tc_events := []\<rparr>" "handleConnection lib h c = (r, c')" for c r c'
        by (rule reading_ok_weaken [OF handleConnection_ok [OF assms(1) _ that(2)]]) (use that(1) k'(3,5) in \<open>simp add: conn_ok_def\<close>)
    qed
    then show ?thesis using False by (simp add: handleAccept_def s1_def k'_def)
  qed
  then show ?thesis by (simp add: s1_def)
qed

lemma handleAccept_ok:
  assumes "well_served h" "server_inv s" "map_find i (ts_connections s) = Some k" "Op_accept \<in> set (k_ops k)"
  shows "kept s (handleAccept lib h err i k s)"
proof -
  note l = listen_accepting [where s = s]
  note act = ops_active [OF assms(2-4)]
  from handleAccept_settled [OF assms, of lib err] callsD(7) [OF l(2)] l(2) consider
    s' where "handleAccept lib h err i k s = Inr s'" "connections_ok s'" "accepting s' = accepting (listen s) - {i}" "calls s' = calls s"
    | "handleAccept lib h err i k s = Inl Self_deadlock" "restarted_early s" by (auto simp: settled_def)
  then show ?thesis
  proof cases
    case 1
    have "ts_is_listening s' \<Longrightarrow> ts_next s \<in> accepting s'"
      using l(1) [OF server_invD [OF assms(2)]] callsD(1) [OF 1(4)] 1(3) act(4) by auto
    with 1(1,2) show ?thesis by (auto simp: kept_def server_inv_def)
  qed (simp add: kept_def)
qed

lemma busy_not_accepting:
  assumes "server_inv s" "map_find i (ts_connections s) = Some k" "x \<in> set (k_ops k)" "x \<noteq> Op_accept"
  shows "accepting s - {i} = accepting s"
  by (rule not_accepting [OF assms(2)]) (use ops_active(1) [OF assms(1-3)] assms(4) in simp)

lemma read_completed_settled:
  assumes "well_served h" "server_inv s" "map_find i (ts_connections s) = Some k" "Op_read rd \<in> set (k_ops k)" "ev \<noteq> Read_some []"
  shows "settled i s (read_completed lib h ev rd i k s)"
proof -
  note act = ops_active [OF assms(2-4)]
  define k' where "k' = drop_op (Op_read rd) k"
  have k': "k_ops k' = []" "k_pooled k'" "k_conn k' = k_conn k" using act by (auto simp: k'_def drop_op_def)
  have rd: "reader_ok rd" "tc_lifecycle (k_conn k) = LIFECYCLE_CLOSE" using act by (auto simp: k_ok_def)
  show ?thesis
    unfolding read_completed_def k'_def [symmetric]
  proof (rule run_unlocked_ok [OF assms(1) server_invD [OF assms(2)] k'(1,2) act(4,3)])
    show "reading_ok True (x_conn c) r (x_conn c')"
      if "x_conn c = (k_conn k')\<lparr>tc_events := []\<rparr>" "consumeBytes_read lib (handleRequest h) ev rd c = (r, c')" for c r c'
      by (rule consumeBytes_read_ok [OF handleRequest_orderly [OF assms(1)] rd(1) assms(5) _ that(2)])
        (use that(1) k'(3) rd(2) in simp)
  qed
qed

text \<open>A completed write finishes its connection. The connection still has the lifecycle of its request.\<close>

lemma write_completed_eq:
  "write_completed lib h err i k s =
     finishConnection lib h i (put_connection i ((drop_op Op_write k)\<lparr>k_conn := handleWrite err ((k_conn k)\<lparr>tc_events := []\<rparr>)\<rparr>) s)"
  by (cases k) (simp add: write_completed_def run_unlocked_def with_connection_def handleWrite_def new_ops_def drop_op_def)

lemma write_completed_settled:
  assumes "well_served h" "server_inv s" "map_find i (ts_connections s) = Some k" "Op_write \<in> set (k_ops k)"
  shows "settled i s (write_completed lib h err i k s)"
proof -
  note act = ops_active [OF assms(2-4)]
  define k' where "k' = (drop_op Op_write k)\<lparr>k_conn := handleWrite err ((k_conn k)\<lparr>tc_events := []\<rparr>)\<rparr>"
  have k': "k_ops k' = []" "k_pooled k'" "k_ok l k'" for l
    using act by (auto simp: k'_def drop_op_def k_ok_def conn_ok_def handleWrite_def)
  have open_conn: "\<not> abrupt s \<and> getKeepAlive (k_conn k') \<longrightarrow> tc_open (k_conn k')"
    using act by (auto simp: k'_def k_ok_def handleWrite_def getKeepAlive_def)
  define s1 where "s1 = put_connection i k' s"
  have st: "settled i s (Inr s1)" unfolding s1_def
    by (rule settled_put [OF server_invD [OF assms(2)] act(4) k'(3)]) (use k'(1) act(3) in simp_all)
  have "settled i s1 (finishConnection lib h i s1)"
    by (rule finishConnection_ok [OF assms(1), of _ _ k'])
      (use settled_putD [OF st] k' act(3) open_conn map_find_put [OF server_invD [OF assms(2)]] in \<open>auto simp: s1_def\<close>)
  then have "settled i s (finishConnection lib h i s1)" by (rule settled_trans) (use settled_putD [OF st] in auto)
  then show ?thesis by (simp add: write_completed_eq s1_def k'_def)
qed

lemma timer_completed_settled:
  assumes "server_inv s" "map_find i (ts_connections s) = Some k" "Op_read rd \<in> set (k_ops k)"
  shows "settled i s (Inr (timer_completed rd t i k s))"
proof -
  note act = ops_active [OF assms]
  define t' conn where "t' = fst (timerCallback t (k_conn k))" and "conn = snd (timerCallback t (k_conn k))"
  define k' where "k' = k\<lparr>k_conn := conn, k_ops := [Op_read (rd\<lparr>r_timer := Some t'\<rparr>)]\<rparr>"
  have eq: "timer_completed rd t i k s = put_connection i k' s"
    using act(1) by (simp add: timer_completed_def k'_def t'_def conn_def split: prod.splits)
  have "tc_lifecycle conn = tc_lifecycle (k_conn k)" by (simp add: conn_def timerCallback_def)
  then have "k_ok (abrupt s) k'" using act by (auto simp: k'_def k_ok_def reader_ok_def conn_ok_def)
  then show ?thesis unfolding eq
    by (intro settled_put [OF server_invD [OF assms(1)] act(4)]) (use act(3) in \<open>simp_all add: k'_def\<close>)
qed

lemma listening_frame [simp]:
  "connections_ok (s\<lparr>ts_scheduler := x\<rparr>) = connections_ok s" "accepting (s\<lparr>ts_scheduler := x\<rparr>) = accepting s"
  "connections_ok (s\<lparr>ts_acceptor_open := b\<rparr>) = connections_ok s" "accepting (s\<lparr>ts_acceptor_open := b\<rparr>) = accepting s"
  by (simp_all add: connections_ok_def accepting_def)

lemma start_ok:
  assumes "server_inv s"
  shows "server_inv (snd (start acc s))"
proof (cases "\<exists>p. \<not> ts_is_listening s \<and> \<not> ts_acceptor_open s \<and> acc = Bound p")
  case True
  then obtain p where p: "\<not> ts_is_listening s" "\<not> ts_acceptor_open s" "acc = Bound p" by blast
  define s1 where "s1 = s\<lparr>ts_acceptor_open := True, ts_port := if ts_port s = 0 then p else ts_port s, ts_is_listening := True,
      ts_starting := Suc (ts_starting s)\<rparr>"
  have "in_use s1" "abrupt s1 = abrupt s" by (simp_all add: s1_def in_use_def)
  then have "connections_ok s1" using server_invD [OF assms] by (simp add: connections_ok_def) (simp add: s1_def)
  then show ?thesis using p by (simp add: start_def s1_def [symmetric] server_inv_def) (simp add: s1_def)
next
  case False
  with assms show ?thesis by (cases acc) (auto simp: start_def server_inv_def)
qed

lemma counting_frame [simp]:
  "connections_ok (s\<lparr>ts_starting := u\<rparr>) = connections_ok s" "accepting (s\<lparr>ts_starting := u\<rparr>) = accepting s"
  "connections_ok (s\<lparr>ts_adding := u\<rparr>) = connections_ok s" "accepting (s\<lparr>ts_adding := u\<rparr>) = accepting s"
  by (simp_all add: connections_ok_def accepting_def)

lemma start_listen_ok:
  assumes "server_inv s"
  shows "server_inv (start_listen s)"
proof (cases "ts_is_listening s")
  case True
  with listen_ok [OF server_invD [OF assms]] show ?thesis by (simp add: start_listen_def server_inv_def)
next
  case False
  with assms show ?thesis by (simp add: start_listen_def listen_def server_inv_def)
qed

lemma start_add_ok: "server_inv s \<Longrightarrow> server_inv (start_add s)"
  by (simp add: start_add_def server_inv_def)

lemma conn_pool_empty: "ordered (ts_connections s) \<Longrightarrow> conn_pool s = [] \<Longrightarrow> map_find i (ts_connections s) = Some k \<Longrightarrow> \<not> k_pooled k"
  using map_of_SomeD [of "ts_connections s" i k] by (auto simp: conn_pool_def map_find_def filter_empty_conv)

text \<open>A pass of the loop of \<open>stop\<close>: after the last one no connection is in the pool, and none has an operation under way.\<close>

lemma stop_pass_ok:
  assumes "stop_pass s = (finished, s')" "connections_ok s"
  shows "connections_ok s'" "accepting s' = accepting s" "calls s' = calls s" "ts_next s' = ts_next s"
    "finished \<Longrightarrow> map_find i (ts_connections s') = Some k \<Longrightarrow> k_ops k = [] \<and> \<not> k_pooled k"
proof -
  define s1 where "s1 = (if conn_pool s = [] then s else pruneConnections s)"
  have s1: "connections_ok s1" "accepting s1 = accepting s" "calls s1 = calls s" "ts_next s1 = ts_next s"
    using prune_ok [of s] assms(2) by (simp_all add: s1_def)
  have pass: "stop_pass s = (if conn_pool s1 = [] then (True, s1\<lparr>ts_scheduler := removeActiveUser (ts_scheduler s1)\<rparr>) else (False, s1))"
    by (simp add: stop_pass_def s1_def [symmetric])
  have "\<exists>x. s' = s1\<lparr>ts_scheduler := x\<rparr>"
  proof (cases "conn_pool s1 = []")
    case True
    with pass assms(1) show ?thesis by auto
  next
    case False
    with pass assms(1) have "s' = s1\<lparr>ts_scheduler := ts_scheduler s1\<rparr>" by simp
    then show ?thesis by (rule exI)
  qed
  then obtain x where s': "s' = s1\<lparr>ts_scheduler := x\<rparr>" by blast
  have last_pass: "finished \<Longrightarrow> conn_pool s1 = []" using pass assms(1) by (simp split: if_splits)
  show "connections_ok s'" "accepting s' = accepting s" "calls s' = calls s" "ts_next s' = ts_next s" unfolding s' using s1 by simp_all
  show "k_ops k = [] \<and> \<not> k_pooled k" if "finished" "map_find i (ts_connections s') = Some k"
  proof -
    have find: "map_find i (ts_connections s1) = Some k" using that(2) unfolding s' by simp
    have "\<not> k_pooled k" using conn_pool_empty [OF _ _ find] last_pass that(1) s1(1) by (simp add: connections_ok_def)
    with connections_okD [OF s1(1) find] show ?thesis by (auto simp: k_ok_def)
  qed
qed

lemma idle_ok:
  assumes "connections_ok s" "\<And>i k. map_find i (ts_connections s) = Some k \<Longrightarrow> k_ops k = [] \<and> \<not> k_pooled k"
  shows "connections_ok (s\<lparr>ts_stoppers := ws\<rparr>)" "accepting s = {}"
proof -
  have "k_ok cl k" if "map_find i (ts_connections s) = Some k" for cl i k
    using assms(2) [OF that] connections_okD [OF assms(1) that] by (simp add: k_ok_def)
  note idle = this
  have "ordered (ts_connections s)" using assms(1) by (simp add: connections_ok_def)
  then show "connections_ok (s\<lparr>ts_stoppers := ws\<rparr>)" unfolding connections_ok_def
  proof (intro conjI allI impI)
    fix i k assume "map_find i (ts_connections (s\<lparr>ts_stoppers := ws\<rparr>)) = Some k"
    then have find: "map_find i (ts_connections s) = Some k" by simp
    show "k_ok (abrupt (s\<lparr>ts_stoppers := ws\<rparr>)) k" by (rule idle [OF find])
    show "i < ts_next (s\<lparr>ts_stoppers := ws\<rparr>)" using connections_okD [OF assms(1) find] by simp
    show "in_use (s\<lparr>ts_stoppers := ws\<rparr>)" if "k_pooled k" using that assms(2) [OF find] by blast
  qed simp
  show "accepting s = {}" using assms(2) by (auto simp: accepting_def)
qed

lemma stopper_ok:
  assumes "connections_ok (s\<lparr>ts_stoppers := w # ts_stoppers s\<rparr>)" "stop_pass (s\<lparr>ts_stoppers := w # ts_stoppers s\<rparr>) = (finished, s')"
  shows "connections_ok (if finished then s'\<lparr>ts_stoppers := ts_stoppers s\<rparr> else s')"
  using stop_pass_ok [OF assms(2,1)] idle_ok [of s'] by auto

lemma stop_pass_stoppers:
  "stop_pass (s\<lparr>ts_stoppers := ws\<rparr>) = (case stop_pass s of (finished, s') \<Rightarrow> (finished, s'\<lparr>ts_stoppers := ws\<rparr>))"
  by (simp add: stop_pass_def conn_pool_def pruneConnections_def Let_def)

lemma stop_ok:
  assumes "server_inv s"
  shows "server_inv (stop wait s)"
proof (cases "ts_is_listening s")
  case True
  define close_pooled where "close_pooled k = (if \<not> wait \<and> k_pooled k then k\<lparr>k_conn := close (k_conn k)\<rparr> else k)" for k :: pooled
  have cp: "k_ok cl k \<Longrightarrow> k_ok (\<not> wait \<or> cl) (close_pooled k)" "k_ops (close_pooled k) = k_ops k" "k_pooled (close_pooled k) = k_pooled k" for cl k
    by (auto simp: close_pooled_def k_ok_def conn_ok_def)
  define s1 where "s1 = s\<lparr>ts_is_listening := False, ts_acceptor_open := False,
      ts_connections := map (map_prod id close_pooled) (ts_connections s)\<rparr>"
  define s2 where "s2 = s1\<lparr>ts_stoppers := wait # ts_stoppers s1\<rparr>"
  have maps: "map (map_prod id close_pooled) m = (if wait then m
      else map (map_prod id (\<lambda>k. if k_pooled k then k\<lparr>k_conn := close (k_conn k)\<rparr> else k)) m)" for m :: "(nat, pooled) std_map"
    by (auto simp: close_pooled_def map_prod_def)
  obtain finished s' where p: "stop_pass s2 = (finished, s')" by fastforce
  obtain s0 where s0: "stop_pass s1 = (finished, s0)" "s' = s0\<lparr>ts_stoppers := wait # ts_stoppers s1\<rparr>"
    using p stop_pass_stoppers [where s = s1 and ws = "wait # ts_stoppers s1"] by (auto simp: s2_def split: prod.splits)
  have kept: "ts_stoppers s0 = ts_stoppers s1" using s0(1) by (auto simp: stop_pass_def pruneConnections_def Let_def split: if_splits)
  have eq: "stop wait s = (if finished then s'\<lparr>ts_stoppers := ts_stoppers s1\<rparr> else s')"
    using True s0 kept by (simp add: stop_def s1_def [symmetric] maps [symmetric])
  have "abrupt s2 = (\<not> wait \<or> abrupt s)" "in_use s2" by (auto simp: s2_def s1_def abrupt_def in_use_def)
  note s2 = this
  have closed: "i < ts_next s \<and> k_ok (abrupt s2) (close_pooled k)" if "map_find i (ts_connections s) = Some k" for i k
    using connections_okD [OF server_invD [OF assms] that] cp(1) [of "abrupt s" k] unfolding s2(1) by blast
  have c2: "connections_ok s2" unfolding connections_ok_def
  proof (intro conjI allI impI)
    show "ordered (ts_connections s2)" using server_invD [OF assms] by (simp add: s2_def s1_def connections_ok_def)
    show "in_use s2" by (rule s2(2))
    fix i k assume "map_find i (ts_connections s2) = Some k"
    then obtain k0 where "map_find i (ts_connections s) = Some k0" "k = close_pooled k0" by (auto simp: s2_def s1_def)
    with closed show "k_ok (abrupt s2) k" "i < ts_next s2" by (auto simp: s2_def s1_def)
  qed
  have "connections_ok (stop wait s)" unfolding eq using stopper_ok [OF c2 [unfolded s2_def] p [unfolded s2_def]] .
  moreover have "\<not> ts_is_listening (stop wait s)"
    using callsD(1) [OF stop_pass_ok(3) [OF p c2]] unfolding eq by (auto simp: s2_def s1_def)
  ultimately show ?thesis by (simp add: server_inv_def)
qed (use assms in \<open>simp add: stop_def\<close>)

lemma stop_waiting_ok:
  assumes "server_inv s" "wait \<in> set (ts_stoppers s)"
  shows "server_inv (stop_waiting wait s)"
proof -
  obtain finished s' where p: "stop_pass s = (finished, s')" by fastforce
  note sp = stop_pass_ok [OF p server_invD [OF assms(1)]]
  note cs = callsD [OF sp(3)]
  show ?thesis
  proof (cases finished)
    case False
    with p sp cs assms(1) show ?thesis by (simp add: stop_waiting_def server_inv_def)
  next
    case True
    define ws where "ws = remove1 wait (ts_stoppers s')"
    have "connections_ok (s'\<lparr>ts_stoppers := ws\<rparr>)" using idle_ok(1) [OF sp(1)] sp(5) True by blast
    moreover have "accepting (s'\<lparr>ts_stoppers := ws\<rparr>) = accepting s" using sp(2) by (simp add: accepting_def)
    ultimately show ?thesis using p True cs assms(1) by (simp add: stop_waiting_def server_inv_def ws_def)
  qed
qed

lemma step_ok:
  assumes "step lib h s r" "well_served h" "server_inv s"
  shows "kept s r"
  using assms
proof cases
  case (accept i k err)
  then show ?thesis using handleAccept_ok [OF assms(2,3)] by simp
next
  case (read i k rd ev)
  then show ?thesis
    using settled_inv [OF read_completed_settled [OF assms(2,3)] assms(3)] busy_not_accepting [OF assms(3)] by blast
next
  case (written i k err)
  then show ?thesis
    using settled_inv [OF write_completed_settled [OF assms(2,3)] assms(3)] busy_not_accepting [OF assms(3)] by blast
next
  case (timer i k rd t)
  then show ?thesis
    using settled_inv [OF timer_completed_settled [OF assms(3)] assms(3)] busy_not_accepting [OF assms(3)] by blast
qed (use assms(3) start_ok start_listen_ok start_add_ok stop_ok stop_waiting_ok in \<open>simp_all add: kept_def\<close>)

lemma reachable_inv: "reachable lib h s \<Longrightarrow> well_served h \<Longrightarrow> server_inv s"
proof (induction rule: reachable.induct)
  case (initial tcp_port w)
  then show ?case by (simp add: server_inv_def connections_ok_def TCPServer_init_def accepting_def map_find_def)
next
  case (after s s')
  then show ?case using step_ok unfolding kept_def by blast
qed

section \<open>One call at a time\<close>

text \<open>When every call of \<open>start\<close> and \<open>stop\<close> returns before the next is made, at most one connection waits to be
  accepted, and none before \<open>start\<close> has listened.\<close>

definition serial_inv :: "'w TCPServer \<Rightarrow> bool" where
  "serial_inv s \<longleftrightarrow> (\<exists>i. accepting s \<subseteq> {i}) \<and> (ts_starting s > 0 \<longrightarrow> accepting s = {})"

lemma accepting_used: "server_inv s \<Longrightarrow> accepting s \<noteq> {} \<Longrightarrow> in_use s"
  using ops_active(3) by (fastforce simp: accepting_def)

lemma serial_completion:
  assumes "serial_inv s" "settled i s r" "r = Inr s'"
  shows "serial_inv s'"
proof -
  have "accepting s' = accepting s - {i}" "calls s' = calls s" using assms(2,3) by (simp_all add: settled_def)
  with assms(1) callsD(3) [OF this(2)] show ?thesis unfolding serial_inv_def by auto
qed

lemma serial_accept:
  assumes "well_served h" "server_inv s" "map_find i (ts_connections s) = Some k" "Op_accept \<in> set (k_ops k)"
    and "handleAccept lib h err i k s = Inr s'" "serial_inv s"
  shows "serial_inv s'"
proof -
  have i: "accepting s = {i}" using assms(3,4,6) by (auto simp: accepting_def serial_inv_def)
  have "accepting s' = accepting (listen s) - {i}" "calls s' = calls s"
    using handleAccept_settled [OF assms(1-4), of lib err] listen_accepting(2) [of s] unfolding assms(5) by (simp_all add: settled_def)
  moreover have "accepting (listen s) - {i} \<subseteq> {ts_next s}" using listen_accepting(1) [OF server_invD [OF assms(2)]] i by auto
  ultimately show ?thesis using i assms(6) callsD(3) [of s' s] by (auto simp: serial_inv_def)
qed

lemma stop_pass_frame:
  assumes "stop_pass s = (finished, s')"
  obtains x where "s' = (if conn_pool s = [] then s else pruneConnections s)\<lparr>ts_scheduler := x\<rparr>"
proof -
  define s1 where "s1 = (if conn_pool s = [] then s else pruneConnections s)"
  have pass: "stop_pass s = (if conn_pool s1 = [] then (True, s1\<lparr>ts_scheduler := removeActiveUser (ts_scheduler s1)\<rparr>) else (False, s1))"
    by (simp add: stop_pass_def s1_def [symmetric])
  show ?thesis
  proof (cases "conn_pool s1 = []")
    case True
    with pass assms that show ?thesis unfolding s1_def by auto
  next
    case False
    with pass assms have "s' = s1\<lparr>ts_scheduler := ts_scheduler s1\<rparr>" by simp
    then show ?thesis unfolding s1_def by (rule that)
  qed
qed

lemma stop_pass_accepting:
  assumes "stop_pass s = (finished, s')"
  shows "accepting s' = accepting s" "ts_starting s' = ts_starting s"
proof -
  obtain x where s': "s' = (if conn_pool s = [] then s else pruneConnections s)\<lparr>ts_scheduler := x\<rparr>"
    using stop_pass_frame [OF assms] by blast
  have "accepting (pruneConnections s) = accepting s" by (rule prune_ok(2))
  then show "accepting s' = accepting s" "ts_starting s' = ts_starting s" unfolding s' by (simp_all add: pruneConnections_def)
qed

lemma stop_accepting: "accepting (stop wait s) = accepting s" "ts_starting (stop wait s) = ts_starting s"
proof -
  define close_pooled where "close_pooled k = (if k_pooled k then k\<lparr>k_conn := close (k_conn k)\<rparr> else k)" for k :: pooled
  have ops: "k_ops (close_pooled k) = k_ops k" for k by (simp add: close_pooled_def)
  define s1 where "s1 = s\<lparr>ts_is_listening := False, ts_acceptor_open := False,
      ts_connections := if wait then ts_connections s else map (map_prod id close_pooled) (ts_connections s)\<rparr>"
  obtain finished s' where p: "stop_pass s1 = (finished, s')" by fastforce
  have eq: "stop wait s = (if ts_is_listening s then if finished then s' else s'\<lparr>ts_stoppers := wait # ts_stoppers s'\<rparr> else s)"
    unfolding stop_def close_pooled_def [abs_def, symmetric] s1_def [symmetric] p by simp
  have "accepting s1 = accepting s" "ts_starting s1 = ts_starting s" using ops by (auto simp: accepting_def s1_def)
  with stop_pass_accepting [OF p] have "accepting s' = accepting s" "ts_starting s' = ts_starting s" by simp_all
  moreover have "accepting (s'\<lparr>ts_stoppers := ws\<rparr>) = accepting s'" for ws by (simp add: accepting_def)
  ultimately show "accepting (stop wait s) = accepting s" "ts_starting (stop wait s) = ts_starting s" unfolding eq by simp_all
qed

lemma stop_waiting_accepting: "accepting (stop_waiting wait s) = accepting s" "ts_starting (stop_waiting wait s) = ts_starting s"
proof -
  obtain finished s' where p: "stop_pass s = (finished, s')" by fastforce
  have "accepting (s'\<lparr>ts_stoppers := ws\<rparr>) = accepting s'" for ws by (simp add: accepting_def)
  with stop_pass_accepting [OF p] p show "accepting (stop_waiting wait s) = accepting s" "ts_starting (stop_waiting wait s) = ts_starting s"
    by (simp_all add: stop_waiting_def)
qed

lemma serial_start:
  assumes "serial_inv s" "server_inv s" "calls_under_way (snd (start acc s)) \<le> 1"
  shows "serial_inv (snd (start acc s))"
proof (cases "\<exists>p. \<not> ts_is_listening s \<and> \<not> ts_acceptor_open s \<and> acc = Bound p")
  case True
  then obtain p where p: "\<not> ts_is_listening s" "\<not> ts_acceptor_open s" "acc = Bound p" by blast
  with assms(3) have "ts_stoppers s = []" by (simp add: start_def calls_under_way_def)
  with p(1) accepting_used [OF assms(2)] have "accepting s = {}" by (auto simp: in_use_def)
  moreover have "accepting (snd (start acc s)) = accepting s" using p by (simp add: start_def accepting_def)
  ultimately show ?thesis unfolding serial_inv_def by simp
next
  case False
  then have "snd (start acc s) = s \<or> snd (start acc s) = s\<lparr>ts_acceptor_open := True\<rparr>" by (cases acc) (auto simp: start_def)
  then show ?thesis
  proof
    assume "snd (start acc s) = s\<lparr>ts_acceptor_open := True\<rparr>"
    with assms(1) show ?thesis by (simp add: serial_inv_def)
  qed (use assms(1) in simp)
qed

lemma serial_step:
  assumes "step lib h s r" "r = Inr s'" "well_served h" "server_inv s" "serial_inv s" "calls_under_way s \<le> 1" "calls_under_way s' \<le> 1"
  shows "serial_inv s'"
  using assms(1)
proof cases
  case (accept i k err)
  with serial_accept [OF assms(3,4)] assms(2,5) show ?thesis by metis
next
  case (read i k rd ev)
  then show ?thesis using serial_completion [OF assms(5) read_completed_settled [OF assms(3,4)]] assms(2) by metis
next
  case (written i k err)
  then show ?thesis using serial_completion [OF assms(5) write_completed_settled [OF assms(3,4)]] assms(2) by metis
next
  case (timer i k rd t)
  then show ?thesis using serial_completion [OF assms(5) timer_completed_settled [OF assms(4)]] assms(2) by metis
next
  case (start acc)
  then show ?thesis using serial_start [OF assms(5,4)] assms(2,7) by simp
next
  case start_listen
  then have "accepting s = {}" "ts_starting s - 1 = 0" using assms(5,6) by (auto simp: serial_inv_def calls_under_way_def)
  with start_listen assms(2) listen_accepting(1) [OF server_invD [OF assms(4)]] show ?thesis
    by (auto simp: start_listen_def serial_inv_def)
next
  case start_add
  then show ?thesis using assms(2,5) by (simp add: start_add_def serial_inv_def)
next
  case (stop wait)
  then show ?thesis using assms(2,5) by (simp add: serial_inv_def stop_accepting)
next
  case (stop_waiting wait)
  then show ?thesis using assms(2,5) by (simp add: serial_inv_def stop_waiting_accepting)
qed

lemma reachable_serially_inv:
  "reachable_serially lib h s \<Longrightarrow> well_served h \<Longrightarrow> reachable lib h s \<and> serial_inv s \<and> calls_under_way s \<le> 1"
proof (induction rule: reachable_serially.induct)
  case (initial tcp_port w)
  show ?case using reachable.initial [of lib h tcp_port w]
    by (simp add: serial_inv_def calls_under_way_def TCPServer_init_def accepting_def map_find_def)
next
  case (after s s')
  then have "serial_inv s'" using serial_step [OF after.hyps(2) refl after.prems reachable_inv] by blast
  with after reachable.after show ?case by blast
qed

section \<open>Properties\<close>

text \<open>C3: The steps of a server whose handlers and whose authentication, if there is one, keep their contract do not fault,
  whatever completes in whatever order and whatever calls of \<open>start\<close> and \<open>stop\<close> run at the same time: no step fails an assertion of the parser or reads outside a
  buffer, and none locks the mutex a second time, with one exception. When the server is started again while
  a call of \<open>stop(false)\<close> still waits for the connections it has closed, a request that was pipelined on one of them
  is handled with the mutex held, loses its connection and finishes it, which locks the mutex again; otherwise
  pipelined requests never finish their connection in the call that handles them.\<close>

theorem server_never_faults:
  assumes "well_served h" "reachable lib h s" "step lib h s r"
  shows "(\<exists>s'. r = Inr s') \<or> r = Inl Self_deadlock \<and> ts_is_listening s \<and> False \<in> set (ts_stoppers s)"
  using step_ok [OF assms(3,1) reachable_inv [OF assms(2,1)]] unfolding kept_def restarted_early_def abrupt_def by blast

lemma well_served_init: "well_served (HTTPServer_init lib)"
  by (simp add: well_served_def HTTPServer_init_def bad_request.courteous_axioms not_found.courteous_axioms
      server_error.courteous_axioms DEFAULT_CONTENT_MAX_def)

text \<open>A server on which \<open>start\<close> has released the mutex, and one on which it has returned.\<close>

definition starting :: "unit TCPServer" where
  "starting = snd (start (Bound 5555) (TCPServer_init 5555 ()))"

definition started :: "unit TCPServer" where
  "started = snd (start_alone (Bound 5555) (TCPServer_init 5555 ()))"

lemma starting_eq:
  "starting = \<lparr>ts_is_listening = True, ts_starting = 1, ts_adding = 0, ts_stoppers = [], ts_connections = [], ts_next = 0, ts_port = 5555,
     ts_acceptor_open = True, ts_scheduler = PionScheduler_init, ts_world = ()\<rparr>"
  by (simp add: starting_def start_def TCPServer_init_def)

lemma started_eq:
  "started = \<lparr>ts_is_listening = True, ts_starting = 0, ts_adding = 0, ts_stoppers = [],
     ts_connections = [(0, \<lparr>k_conn = TCPConnection_init, k_ops = [Op_accept], k_pooled = True\<rparr>)], ts_next = 1, ts_port = 5555,
     ts_acceptor_open = True, ts_scheduler = addActiveUser PionScheduler_init, ts_world = ()\<rparr>"
  "started = start_add (start_listen starting)"
  by (simp_all add: started_def start_alone_def start_def start_listen_def start_add_def listen_def TCPServer_init_def pruneConnections_def
      put_connection_def starting_def Let_def)

lemma reachable_starting: "reachable_serially lib h starting"
  unfolding starting_def by (rule reachable_serially.after [OF reachable_serially.initial step.start])
    (simp add: start_def TCPServer_init_def calls_under_way_def)

lemma reachable_started: "reachable_serially lib h started"
  unfolding started_eq(2)
  by (rule reachable_serially.after [OF reachable_serially.after [OF reachable_starting step.start_listen] step.start_add])
    (simp_all add: starting_eq start_listen_def start_add_def listen_def pruneConnections_def put_connection_def calls_under_way_def)

lemmas reachable_examples = conjunct1 [OF reachable_serially_inv [OF reachable_starting well_served_init]]
  conjunct1 [OF reachable_serially_inv [OF reachable_started well_served_init]]

lemma server_never_faults_witness:
  "\<exists>s'. handleAccept writer_example_lib (HTTPServer_init writer_example_lib) False 0
     \<lparr>k_conn = TCPConnection_init, k_ops = [Op_accept], k_pooled = True\<rparr> started = Inr s'"
proof -
  have "step writer_example_lib (HTTPServer_init writer_example_lib) started
     (handleAccept writer_example_lib (HTTPServer_init writer_example_lib) False 0
       \<lparr>k_conn = TCPConnection_init, k_ops = [Op_accept], k_pooled = True\<rparr> started)"
    by (rule step.accept) (simp_all add: started_eq map_find_def)
  from server_never_faults [OF well_served_init reachable_examples(2) this] show ?thesis by (simp add: started_eq)
qed

text \<open>C24: While a server listens and no call of \<open>start\<close> is between releasing the mutex and listening, a connection of its pool
  waits to be accepted, so the number of connections it reports, one less than the size of the pool, does not wrap around;
  it does for an empty pool, which a listening server only has within such a call. When every call of
  \<open>start\<close> and \<open>stop\<close> returns before the next is made, exactly one connection waits.\<close>

theorem connection_count:
  assumes "well_served h" "reachable lib h s" "length (conn_pool s) < 2 ^ 64"
  shows "(ts_is_listening s \<and> ts_starting s = 0 \<longrightarrow>
       (\<exists>i k. map_find i (ts_connections s) = Some k \<and> k_pooled k \<and> Op_accept \<in> set (k_ops k))) \<and>
     (ts_is_listening s \<and> conn_pool s = [] \<longrightarrow> ts_starting s > 0) \<and>
     unat (getConnections s) = (if \<not> ts_is_listening s then length (conn_pool s)
       else if conn_pool s = [] then 2 ^ 64 - 1 else length (conn_pool s) - 1) \<and>
     (reachable_serially lib h s \<and> ts_is_listening s \<and> ts_starting s = 0 \<longrightarrow>
       (\<exists>!i. \<exists>k. map_find i (ts_connections s) = Some k \<and> Op_accept \<in> set (k_ops k)))"
proof -
  note inv = reachable_inv [OF assms(2,1)]
  have waits: "\<exists>i k. map_find i (ts_connections s) = Some k \<and> k_pooled k \<and> Op_accept \<in> set (k_ops k)"
    if "ts_is_listening s" "ts_starting s = 0"
  proof -
    have "accepting s \<noteq> {}" using inv that by (auto simp: server_inv_def)
    then obtain i k where k: "map_find i (ts_connections s) = Some k" "Op_accept \<in> set (k_ops k)" by (auto simp: accepting_def)
    with ops_active(2) [OF inv k] show ?thesis by blast
  qed
  have empty: "ts_starting s > 0" if "ts_is_listening s" "conn_pool s = []"
  proof (rule ccontr)
    assume "\<not> ts_starting s > 0"
    with waits that(1) obtain i k where "map_find i (ts_connections s) = Some k" "k_pooled k" by auto
    with conn_pool_empty [OF _ that(2)] server_invD [OF inv] show False by (auto simp: connections_ok_def)
  qed
  have wraps: "unat (of_nat n - 1 :: 64 word) = (if n = 0 then 2 ^ 64 - 1 else n - 1)" if "n < 2 ^ 64" for n
  proof (cases n)
    case 0
    have "unat (- 1 :: 64 word) = 2 ^ 64 - 1" by (simp add: unsigned_minus_1_eq_mask mask_eq_exp_minus_1)
    with 0 show ?thesis by simp
  next
    case (Suc m)
    with that show ?thesis by (simp add: unat_of_nat take_bit_nat_eq_self)
  qed
  have count: "unat (getConnections s) = (if \<not> ts_is_listening s then length (conn_pool s)
       else if conn_pool s = [] then 2 ^ 64 - 1 else length (conn_pool s) - 1)"
    using wraps [OF assms(3)] assms(3) by (simp add: getConnections_def unat_of_nat take_bit_nat_eq_self)
  have one: "\<exists>!i. \<exists>k. map_find i (ts_connections s) = Some k \<and> Op_accept \<in> set (k_ops k)"
    if "reachable_serially lib h s" "ts_is_listening s" "ts_starting s = 0"
  proof -
    have "serial_inv s" using reachable_serially_inv [OF that(1) assms(1)] by blast
    moreover have "accepting s \<noteq> {}" using inv that(2,3) by (auto simp: server_inv_def)
    ultimately obtain j where "accepting s = {j}" by (auto simp: serial_inv_def)
    then show ?thesis by (intro ex1I [of _ j]) (auto simp: accepting_def)
  qed
  show ?thesis using waits empty count one by blast
qed

lemma connection_count_witness: "unat (getConnections started) = 0 \<and> unat (getConnections starting) = 2 ^ 64 - 1"
  using connection_count [OF well_served_init [of writer_example_lib] reachable_examples(1)]
    connection_count [OF well_served_init [of writer_example_lib] reachable_examples(2)]
  by (simp add: started_eq starting_eq conn_pool_def)

section \<open>The threads behind the server\<close>

text \<open>Completions leave the scheduler and the calls of \<open>start\<close> and \<open>stop\<close> alone.\<close>

definition same_phase :: "'w TCPServer \<Rightarrow> 'w TCPServer \<Rightarrow> bool" where
  "same_phase s s' \<longleftrightarrow> ts_scheduler s' = ts_scheduler s \<and> calls s' = calls s"

lemma same_phase_put [simp]: "same_phase s (put_connection i k s') = same_phase s s'" "same_phase s (s'\<lparr>ts_world := w\<rparr>) = same_phase s s'"
  by (simp_all add: same_phase_def put_connection_def)

lemma same_phase_listen: "same_phase s (listen s)"
  by (simp add: listen_def same_phase_def put_connection_def pruneConnections_def Let_def)

lemma same_phase_refl [simp]: "same_phase s s"
  by (simp add: same_phase_def)

lemma same_phase_trans: "same_phase s s' \<Longrightarrow> same_phase s' s'' \<Longrightarrow> same_phase s s''"
  by (simp add: same_phase_def)

lemma with_connection_phase: "with_connection f i k s = Inr (s', fin) \<Longrightarrow> same_phase s s'"
  by (auto simp: with_connection_def split: prod.splits sum.splits exn.splits)

lemma finishConnection_phase: "finishConnection lib h i s = Inr s' \<Longrightarrow> same_phase s s'"
  using with_connection_phase by (fastforce simp: finishConnection_def bindE_def split: option.splits if_splits sum.splits)

lemma run_unlocked_phase: "run_unlocked lib h f i k s = Inr s' \<Longrightarrow> same_phase s s'"
  using with_connection_phase [of f i k s] finishConnection_phase [of lib h i] same_phase_trans [of s]
  by (auto simp: run_unlocked_def bindE_def split: if_splits sum.splits)

lemma handleAccept_phase:
  assumes "handleAccept lib h err i k s = Inr s'"
  shows "same_phase s s'"
proof -
  have "\<exists>s1. same_phase s s1 \<and> same_phase s1 s'"
  proof (cases err)
    case True
    with assms have "finishConnection lib h i (put_connection i (drop_op Op_accept k) (listen s)) = Inr s'"
      by (simp add: handleAccept_def)
    from finishConnection_phase [OF this] same_phase_listen [of s] show ?thesis by (auto intro!: exI [of _ "put_connection i (drop_op Op_accept k) (listen s)"])
  next
    case False
    with assms have "run_unlocked lib h (handleConnection lib h) i (drop_op Op_accept k) (listen s) = Inr s'"
      by (simp add: handleAccept_def)
    from run_unlocked_phase [OF this] same_phase_listen [of s] show ?thesis by blast
  qed
  then show ?thesis using same_phase_trans by blast
qed

text \<open>The users of the scheduler: the server from the time it listens until it has stopped, less the calls of \<open>start\<close>
  that have yet to add it. The numbers are words of 32 bits and may pass through \<open>- 1\<close>.\<close>

definition needs :: "'w TCPServer \<Rightarrow> nat" where
  "needs s = (if ts_is_listening s then 1 else 0) + length (ts_stoppers s)"

definition pending :: "'w TCPServer \<Rightarrow> nat" where
  "pending s = ts_starting s + ts_adding s"

definition scheduler_inv :: "'w TCPServer \<Rightarrow> bool" where
  "scheduler_inv s \<longleftrightarrow>
     sch_active_users (ts_scheduler s) + of_nat (pending s) = of_nat (needs s) \<and>
     (sch_is_running (ts_scheduler s) \<or> needs s \<le> pending s) \<and>
     sch_thread_pool (ts_scheduler s) =
       (if sch_is_running (ts_scheduler s) then replicate (unat (sch_num_threads (ts_scheduler s))) 0 else [])"

lemma scheduler_frame:
  "ts_scheduler s' = ts_scheduler s \<Longrightarrow> needs s' + pending s = needs s + pending s' \<Longrightarrow> scheduler_inv s \<Longrightarrow> scheduler_inv s'"
proof -
  assume frame: "ts_scheduler s' = ts_scheduler s" "needs s' + pending s = needs s + pending s'" and inv: "scheduler_inv s"
  have "of_nat (needs s') + of_nat (pending s) = (of_nat (needs s) + of_nat (pending s') :: 32 word)"
    using arg_cong [OF frame(2), of "of_nat :: nat \<Rightarrow> 32 word"] by simp
  moreover have "sch_active_users (ts_scheduler s) + of_nat (pending s) = of_nat (needs s)" using inv by (simp add: scheduler_inv_def)
  ultimately have "(sch_active_users (ts_scheduler s) + of_nat (pending s')) + of_nat (pending s) = of_nat (needs s') + of_nat (pending s)"
    by (simp add: ac_simps)
  then have "sch_active_users (ts_scheduler s) + of_nat (pending s') = of_nat (needs s')" by (rule add_right_imp_eq)
  with frame inv show "scheduler_inv s'" by (auto simp: scheduler_inv_def)
qed

lemma needs_calls: "calls s' = calls s \<Longrightarrow> needs s' = needs s \<and> pending s' = pending s"
  by (simp add: calls_def needs_def pending_def)

lemma same_phase_inv:
  assumes "same_phase s s'" "scheduler_inv s"
  shows "scheduler_inv s'"
  by (rule scheduler_frame [OF _ _ assms(2)]) (use assms(1) needs_calls [of s' s] in \<open>simp_all add: same_phase_def\<close>)

lemma start_scheduler: "scheduler_inv s \<Longrightarrow> scheduler_inv (snd (start acc s))"
  by (rule scheduler_frame) (cases acc; simp add: start_def needs_def pending_def)+

lemma start_listen_scheduler:
  assumes "scheduler_inv s" "ts_starting s > 0"
  shows "scheduler_inv (start_listen s)"
proof -
  have "ts_scheduler (start_listen s) = ts_scheduler s" "needs (start_listen s) = needs s" "pending (start_listen s) = pending s"
    using same_phase_listen [of s] assms(2) by (simp_all add: start_listen_def same_phase_def calls_def needs_def pending_def)
  then show ?thesis by (intro scheduler_frame [OF _ _ assms(1)]) simp_all
qed

lemma start_add_scheduler:
  assumes "scheduler_inv s" "ts_adding s > 0"
  shows "scheduler_inv (start_add s)"
proof -
  have sch: "sch_active_users (addActiveUser (ts_scheduler s)) = sch_active_users (ts_scheduler s) + 1"
    "sch_is_running (addActiveUser (ts_scheduler s))"
    "sch_num_threads (addActiveUser (ts_scheduler s)) = sch_num_threads (ts_scheduler s)"
    "sch_thread_pool (addActiveUser (ts_scheduler s)) = replicate (unat (sch_num_threads (ts_scheduler s))) 0"
    using assms(1) by (simp_all add: addActiveUser_def single_startup_def scheduler_inv_def Let_def)
  have "pending s = Suc (pending (start_add s))" "needs (start_add s) = needs s"
    using assms(2) by (simp_all add: start_add_def pending_def needs_def)
  with assms(1) show ?thesis unfolding scheduler_inv_def by (simp add: start_add_def sch algebra_simps)
qed

lemma remove_scheduler:
  assumes "scheduler_inv s" "ts_scheduler s' = removeActiveUser (ts_scheduler s)" "needs s = Suc (needs s')" "pending s' = pending s"
  shows "scheduler_inv s'"
  using assms unfolding scheduler_inv_def by (auto simp: removeActiveUser_def algebra_simps)

lemma stop_pass_scheduler:
  assumes "stop_pass s = (finished, s')"
  shows "ts_scheduler s' = (if finished then removeActiveUser (ts_scheduler s) else ts_scheduler s)"
    "needs s' = needs s" "pending s' = pending s" "ts_is_listening s' = ts_is_listening s" "ts_stoppers s' = ts_stoppers s"
proof -
  have p: "ts_scheduler (pruneConnections s) = ts_scheduler s" by (simp add: pruneConnections_def)
  show "ts_scheduler s' = (if finished then removeActiveUser (ts_scheduler s) else ts_scheduler s)"
    using assms p by (auto simp: stop_pass_def Let_def split: if_splits)
  obtain x where s': "s' = (if conn_pool s = [] then s else pruneConnections s)\<lparr>ts_scheduler := x\<rparr>"
    using stop_pass_frame [OF assms] by blast
  show "needs s' = needs s" "pending s' = pending s" "ts_is_listening s' = ts_is_listening s" "ts_stoppers s' = ts_stoppers s"
    unfolding s' by (simp_all add: needs_def pending_def pruneConnections_def)
qed

lemma stop_scheduler:
  assumes "scheduler_inv s"
  shows "scheduler_inv (stop wait s)"
proof (cases "ts_is_listening s")
  case True
  define s1 where "s1 = s\<lparr>ts_is_listening := False, ts_acceptor_open := False,
      ts_connections := if wait then ts_connections s
        else map (map_prod id (\<lambda>k. if k_pooled k then k\<lparr>k_conn := close (k_conn k)\<rparr> else k)) (ts_connections s)\<rparr>"
  obtain finished s' where p: "stop_pass s1 = (finished, s')" by fastforce
  note sp = stop_pass_scheduler [OF p]
  have s1: "ts_scheduler s1 = ts_scheduler s" "needs s = Suc (needs s1)" "pending s1 = pending s" using True by (simp_all add: s1_def needs_def pending_def)
  have eq: "stop wait s = (if finished then s' else s'\<lparr>ts_stoppers := wait # ts_stoppers s'\<rparr>)"
    using True unfolding stop_def s1_def [symmetric] p by simp
  show ?thesis
  proof (cases finished)
    case True
    with sp s1 show ?thesis unfolding eq by (simp add: remove_scheduler [OF assms])
  next
    case False
    have "needs (s'\<lparr>ts_stoppers := wait # ts_stoppers s'\<rparr>) = Suc (needs s')" "pending (s'\<lparr>ts_stoppers := ws\<rparr>) = pending s'" for ws
      by (simp_all add: needs_def pending_def)
    with sp s1 False show ?thesis unfolding eq by (intro scheduler_frame [OF _ _ assms]) simp_all
  qed
qed (use assms in \<open>simp add: stop_def\<close>)

lemma stop_waiting_scheduler:
  assumes "scheduler_inv s" "wait \<in> set (ts_stoppers s)"
  shows "scheduler_inv (stop_waiting wait s)"
proof -
  obtain finished s' where p: "stop_pass s = (finished, s')" by fastforce
  note sp = stop_pass_scheduler [OF p]
  show ?thesis
  proof (cases finished)
    case True
    have "Suc (length (remove1 wait (ts_stoppers s))) = length (ts_stoppers s)"
      using assms(2) by (simp add: length_remove1) (metis Suc_pred length_pos_if_in_set)
    then have "needs s = Suc (needs (s'\<lparr>ts_stoppers := remove1 wait (ts_stoppers s')\<rparr>))" using sp(4,5) by (simp add: needs_def)
    moreover have "pending (s'\<lparr>ts_stoppers := ws\<rparr>) = pending s'" for ws by (simp add: pending_def)
    ultimately show ?thesis using p sp True by (simp add: stop_waiting_def remove_scheduler [OF assms(1)])
  next
    case False
    with p sp show ?thesis by (auto simp: stop_waiting_def intro: scheduler_frame [OF _ _ assms(1)])
  qed
qed

lemma step_scheduler:
  assumes "step lib h s r" "scheduler_inv s" "r = Inr s'"
  shows "scheduler_inv s'"
  using assms(1)
proof cases
  case (accept i k err)
  then show ?thesis using assms handleAccept_phase [of lib h err i k s s'] same_phase_inv [of s s'] by simp
next
  case (read i k rd ev)
  then show ?thesis using assms same_phase_inv [of s s'] run_unlocked_phase [of lib h _ i _ s s'] by (simp add: read_completed_def)
next
  case (written i k err)
  then show ?thesis using assms same_phase_inv [of s s'] run_unlocked_phase [of lib h _ i _ s s'] by (simp add: write_completed_def)
next
  case (timer i k rd t)
  then show ?thesis using assms same_phase_inv [of s s'] by (auto simp: timer_completed_def split: prod.splits)
qed (use assms(2,3) start_scheduler start_listen_scheduler start_add_scheduler stop_scheduler stop_waiting_scheduler in simp_all)

lemma reachable_scheduler: "reachable lib h s \<Longrightarrow> scheduler_inv s"
proof (induction rule: reachable.induct)
  case (initial tcp_port w)
  show ?case by (simp add: scheduler_inv_def TCPServer_init_def PionScheduler_init_def needs_def pending_def)
next
  case (after s s')
  then show ?case using step_scheduler by blast
qed

text \<open>The threads of a server live exactly as long as it needs them: in every reachable state in which no call of \<open>start\<close>
  is under way, the scheduler can be shut down without waiting exactly when the server neither listens nor
  waits for connections to finish, and while it does either all worker threads are there.\<close>

theorem scheduler_in_use:
  assumes "reachable lib h s" "ts_starting s = 0" "ts_adding s = 0" "length (ts_stoppers s) < 2 ^ 32 - 1"
  shows "(shutdown (ts_scheduler s) = None \<longleftrightarrow> ts_is_listening s \<or> ts_stoppers s \<noteq> []) \<and>
     (ts_is_listening s \<or> ts_stoppers s \<noteq> [] \<longrightarrow>
        length (sch_thread_pool (ts_scheduler s)) = unat (sch_num_threads (ts_scheduler s)))"
proof -
  have inv: "sch_active_users (ts_scheduler s) = of_nat (needs s)" "sch_is_running (ts_scheduler s) \<or> needs s = 0"
    "sch_thread_pool (ts_scheduler s) =
       (if sch_is_running (ts_scheduler s) then replicate (unat (sch_num_threads (ts_scheduler s))) 0 else [])"
    using reachable_scheduler [OF assms(1)] assms(2,3) by (simp_all add: scheduler_inv_def pending_def)
  have "needs s < 2 ^ 32" using assms(4) by (simp add: needs_def)
  then have "unat (of_nat (needs s) :: 32 word) = needs s" by (simp add: unat_of_nat take_bit_nat_eq_self)
  then have "(of_nat (needs s) :: 32 word) > 0 \<longleftrightarrow> needs s > 0" by (simp add: word_less_nat_alt)
  moreover have "needs s > 0 \<longleftrightarrow> ts_is_listening s \<or> ts_stoppers s \<noteq> []" by (simp add: needs_def)
  ultimately show ?thesis using inv by (auto simp: shutdown_def)
qed

lemma scheduler_in_use_witness: "shutdown (ts_scheduler started) = None \<and> length (sch_thread_pool (ts_scheduler started)) = 8"
  using scheduler_in_use [OF reachable_examples(2)]
  by (simp add: started_eq addActiveUser_def single_startup_def PionScheduler_init_def DEFAULT_NUM_THREADS_def)

text \<open>A server whose acceptor could be opened but not bound cannot be started any more.\<close>

lemma start_after_failed_bind: "\<not> ts_is_listening s \<Longrightarrow> \<not> fst (start acc (snd (start Setup_failed s)))"
  by (simp add: start_def)

text \<open>The exception of the safety property happens: the connection \<open>i\<close> of a listening server writes the answer to one
  request and has read another, whose answer will find the connection closed; \<open>stop(false)\<close> closes it and waits,
  the server is started again, and the write completes.\<close>

lemma stop_abruptly:
  assumes "ts_is_listening s" "connections_ok s" "map_find i (ts_connections s) = Some k" "k_pooled k" "k_ops k \<noteq> []"
  shows "map_find i (ts_connections (stop False s)) = Some (k\<lparr>k_conn := close (k_conn k)\<rparr>)"
    "\<not> ts_is_listening (stop False s)" "\<not> ts_acceptor_open (stop False s)"
proof -
  define s1 where "s1 = s\<lparr>ts_is_listening := False, ts_acceptor_open := False,
      ts_connections := if False then ts_connections s
        else map (map_prod id (\<lambda>k. if k_pooled k then k\<lparr>k_conn := close (k_conn k)\<rparr> else k)) (ts_connections s)\<rparr>"
  define k1 where "k1 = k\<lparr>k_conn := close (k_conn k)\<rparr>"
  obtain finished s' where p: "stop_pass s1 = (finished, s')" by fastforce
  have eq: "stop False s = (if finished then s' else s'\<lparr>ts_stoppers := False # ts_stoppers s'\<rparr>)"
    using assms(1) unfolding stop_def s1_def [symmetric] p by simp
  have k1: "map_find i (ts_connections s1) = Some k1" using assms(3,4) by (simp add: s1_def k1_def)
  obtain x where s': "s' = (if conn_pool s1 = [] then s1 else pruneConnections s1)\<lparr>ts_scheduler := x\<rparr>"
    using stop_pass_frame [OF p] by blast
  have "prune_one k1 = k1" using assms(5) by (simp add: prune_one_def k1_def)
  then have "map_find i (ts_connections s') = Some k1" unfolding s' using k1 by (simp add: pruneConnections_def)
  moreover have "\<not> ts_is_listening s'" "\<not> ts_acceptor_open s'" unfolding s' by (simp_all add: pruneConnections_def s1_def)
  ultimately show "map_find i (ts_connections (stop False s)) = Some (k\<lparr>k_conn := close (k_conn k)\<rparr>)"
    "\<not> ts_is_listening (stop False s)" "\<not> ts_acceptor_open (stop False s)" unfolding eq k1_def by simp_all
qed

theorem early_restart_deadlocks:
  assumes "well_served h" "reachable lib h s" "ts_is_listening s"
    and "map_find i (ts_connections s) = Some k" "k_ops k = [Op_write]" "tc_lifecycle (k_conn k) = LIFECYCLE_PIPELINED"
    and "\<And>c. \<not> tc_open (x_conn c) \<Longrightarrow> tc_lifecycle (x_conn c) = LIFECYCLE_PIPELINED \<Longrightarrow> tc_saved (x_conn c) = tc_saved (k_conn k) \<Longrightarrow>
      Finish_called \<in> set (tc_events (x_conn (snd (handleConnection lib h c))))"
  shows "\<exists>s'. reachable lib h s' \<and> step lib h s' (Inl Self_deadlock)"
proof -
  note inv = reachable_inv [OF assms(2,1)]
  have k: "k_pooled k" using ops_active(2) [OF inv assms(4)] assms(5) by simp
  define k1 where "k1 = k\<lparr>k_conn := close (k_conn k)\<rparr>"
  note st = stop_abruptly [OF assms(3) server_invD [OF inv] assms(4) k, folded k1_def]
  define s2 where "s2 = snd (start (Bound 5555) (stop False s))"
  have s2: "ts_is_listening s2" "map_find i (ts_connections s2) = Some k1" using st assms(5) by (simp_all add: s2_def start_def)
  have reach: "reachable lib h s2" unfolding s2_def
    by (rule reachable.after [OF reachable.after [OF assms(2) step.stop] step.start])
  have ops: "k_ops k1 = [Op_write]" using assms(5) by (simp add: k1_def)
  define k2 where "k2 = (drop_op Op_write k1)\<lparr>k_conn := handleWrite False ((k_conn k1)\<lparr>tc_events := []\<rparr>)\<rparr>"
  define s3 where "s3 = put_connection i k2 s2"
  have "connections_ok s2" using server_invD [OF reachable_inv [OF reach assms(1)]] .
  then have s3: "map_find i (ts_connections s3) = Some k2" "ts_is_listening s3" using s2(1) by (simp_all add: s3_def map_find_put)
  have conn: "\<not> tc_open (k_conn k2)" "tc_lifecycle (k_conn k2) = LIFECYCLE_PIPELINED" "tc_saved (k_conn k2) = tc_saved (k_conn k)"
    using assms(6) by (simp_all add: k2_def k1_def handleWrite_def drop_op_def conn_finish_def close_def)
  define c where "c = \<lparr>x_request = HTTPRequest_init [], x_conn = (k_conn k2)\<lparr>tc_events := []\<rparr>, x_world = ts_world s3\<rparr>"
  obtain r c' where hc: "handleConnection lib h c = (r, c')" by fastforce
  have "conn_ok (k_conn k2)" using connections_okD [OF server_invD [OF inv] assms(4)] conn(2,3) assms(6) by (simp add: k_ok_def conn_ok_def)
  then have "reading_ok False (x_conn c) r (x_conn c')"
    by (intro handleConnection_ok [OF assms(1) _ hc]) (simp add: c_def conn_ok_def)
  then have "\<And>e. r \<noteq> Inl (Abort e)" by (simp add: reading_ok_def)
  moreover have "Finish_called \<in> set (tc_events (x_conn c'))"
    using assms(7) [of c] hc conn by (simp add: c_def)
  ultimately have "\<exists>s4. with_connection (handleConnection lib h) i k2 s3 = Inr (s4, True)"
    using hc unfolding with_connection_def c_def [symmetric] by (auto split: sum.splits exn.splits)
  then have "finishConnection lib h i s3 = Inl Self_deadlock"
    using s3 conn(2) by (auto simp: finishConnection_def getKeepAlive_def)
  then have "write_completed lib h False i k1 s2 = Inl Self_deadlock" by (simp add: write_completed_eq s3_def k2_def)
  then have "step lib h s2 (Inl Self_deadlock)" using step.written [OF s2(2), of lib h False] ops by simp
  with reach show ?thesis by blast
qed

end
