(* ===== verification/Http_Date.thy ===== *)
theory Http_Date
  imports Prelude
begin

text \<open>
  \<open>HTTPTypes::get_date_string\<close>: a time in seconds since 1970, broken down by \<open>gmtime\<close> in the Gregorian
  calendar and printed by \<open>strftime\<close> in the \<open>C\<close> locale. Years count from March while a date is
  computed, so that the leap day is the last of its year.
\<close>

section \<open>The calendar\<close>

text \<open>The year within its 400 years, and the day within the year, of a day of 400 years that start in March.\<close>

definition year_of_era :: "int \<Rightarrow> int" where
  "year_of_era doe = (doe - doe div 1460 + doe div 36524 - doe div 146096) div 365"

definition day_of_year :: "int \<Rightarrow> int" where
  "day_of_year doe = doe - (365 * year_of_era doe + year_of_era doe div 4 - year_of_era doe div 100)"

definition month_day :: "int \<Rightarrow> int \<times> int" where
  "month_day doy = (let mp = (5 * doy + 2) div 153 in (mp, doy - (153 * mp + 2) div 5 + 1))"

text \<open>Year, month and day of a day counted from the first of January 1970.\<close>

definition civil_from_days :: "int \<Rightarrow> int \<times> int \<times> int" where
  "civil_from_days days =
     (let z = days + 719468; doe = z mod 146097; y = year_of_era doe + z div 146097 * 400
      in case month_day (day_of_year doe) of
           (mp, d) \<Rightarrow> if mp < 10 then (y, mp + 3, d) else (y + 1, mp - 9, d))"

section \<open>Printing\<close>

definition digit_char :: "nat \<Rightarrow> char" where
  "digit_char n = ''0123456789'' ! n"

fun digits :: "nat \<Rightarrow> string" where
  "digits n = (if n < 10 then [digit_char n] else digits (n div 10) @ [digit_char (n mod 10)])"

declare digits.simps [simp del]

definition two_digits :: "int \<Rightarrow> string" where
  "two_digits n = [digit_char (nat n div 10), digit_char (nat n mod 10)]"

definition year_string :: "int \<Rightarrow> string" where
  "year_string y = (if y < 0 then ''-'' @ digits (nat (- y)) else digits (nat y))"

definition weekday_names :: "string list" where
  "weekday_names = [''Thu'', ''Fri'', ''Sat'', ''Sun'', ''Mon'', ''Tue'', ''Wed'']"

definition month_names :: "string list" where
  "month_names = [''Jan'', ''Feb'', ''Mar'', ''Apr'', ''May'', ''Jun'', ''Jul'', ''Aug'', ''Sep'', ''Oct'', ''Nov'', ''Dec'']"

definition get_date_string :: "int \<Rightarrow> string" where
  "get_date_string t =
     (let days = t div 86400; secs = t mod 86400
      in case civil_from_days days of
           (y, m, d) \<Rightarrow>
             weekday_names ! nat (days mod 7) @ '', '' @ two_digits d @ '' '' @ month_names ! nat (m - 1) @ '' '' @ year_string y
             @ '' '' @ two_digits (secs div 3600) @ '':'' @ two_digits (secs div 60 mod 60) @ '':'' @ two_digits (secs mod 60)
             @ '' GMT'')"

lemma digits_4:
  assumes "1000 \<le> n" "n < 10000"
  shows "digits n = [digit_char (n div 1000), digit_char (n div 100 mod 10), digit_char (n div 10 mod 10), digit_char (n mod 10)]"
proof -
  have "n div 1000 < 10" "\<not> n div 100 < 10" "\<not> n div 10 < 10" "\<not> n < 10" using assms by auto
  moreover have "n div 10 div 10 = n div 100" "n div 100 div 10 = n div 1000" by (simp_all add: div_mult2_eq [symmetric])
  ultimately show ?thesis
    by (simp add: digits.simps [of n] digits.simps [of "n div 10"] digits.simps [of "n div 100"] digits.simps [of "n div 1000"])
qed

lemma day_of_year_examples:
  "year_of_era 135080 = 369" "day_of_year 135080 = 306" "year_of_era 144155 = 394" "day_of_year 144155 = 250"
  "year_of_era 146096 = 399" "day_of_year 146096 = 365"
  by (simp_all add: year_of_era_def day_of_year_def)

lemma civil_from_days_examples:
  "civil_from_days 0 = (1970, 1, 1)" "civil_from_days 9075 = (1994, 11, 6)" "civil_from_days 11016 = (2000, 2, 29)"
  by (simp_all add: civil_from_days_def day_of_year_examples month_day_def)

lemma get_date_string_examples:
  "get_date_string 0 = ''Thu, 01 Jan 1970 00:00:00 GMT''"
  "get_date_string 784111777 = ''Sun, 06 Nov 1994 08:49:37 GMT''"
  "get_date_string 951782400 = ''Tue, 29 Feb 2000 00:00:00 GMT''"
  by (simp_all add: get_date_string_def civil_from_days_examples digits_4 two_digits_def year_string_def weekday_names_def
      month_names_def digit_char_def)

lemma get_date_string_not_Nil: "get_date_string t \<noteq> []"
  by (simp add: get_date_string_def Let_def two_digits_def split: prod.splits)

end
