(* ===== verification/Disk_File.thy ===== *)
theory Disk_File
  imports Http_Server Http_Date
begin

text \<open>
  The files of \<open>FileService.hpp\<close> and \<open>FileService.cpp\<close>: \<open>DiskFile\<close>, what is known of a file on the disk, with or
  without its content, and \<open>DiskFileSender\<close>, which sends a file as one response or in chunks. The file
  system is a parameter: the record of the calls the code makes, on a state of its own; a call that
  throws gives the message. Paths are the strings that \<open>boost::filesystem::path\<close> holds.
\<close>

section \<open>The file system\<close>

record 'fs fs_lib =
  path_append :: "string \<Rightarrow> string \<Rightarrow> string"
  path_normalize :: "string \<Rightarrow> string"
  path_leaf :: "string \<Rightarrow> string"
  path_branch :: "string \<Rightarrow> string"
  fs_exists :: "'fs \<Rightarrow> string \<Rightarrow> string + bool"
  fs_is_directory :: "'fs \<Rightarrow> string \<Rightarrow> string + bool"
  fs_file_size :: "'fs \<Rightarrow> string \<Rightarrow> string + nat"
  fs_last_write_time :: "'fs \<Rightarrow> string \<Rightarrow> string + int"
  fs_contents :: "'fs \<Rightarrow> string \<Rightarrow> string option"
  fs_entries :: "'fs \<Rightarrow> string \<Rightarrow> string + string list"
  fs_write :: "bool \<Rightarrow> string \<Rightarrow> string \<Rightarrow> 'fs \<Rightarrow> 'fs"
  fs_remove :: "string \<Rightarrow> 'fs \<Rightarrow> (string + unit) \<times> 'fs"

text \<open>\<open>fs_contents\<close> is what a stream opened for reading delivers, \<open>None\<close> when it cannot be opened; \<open>fs_write\<close>
  opens a stream, for appending or not, and writes to it.\<close>

section \<open>Disk files\<close>

record DiskFile =
  f_path :: string
  f_content :: "buffer option"
  f_size :: nat
  f_last_modified :: int
  f_last_modified_string :: string
  f_mime_type :: string

definition DiskFile_init :: DiskFile where
  "DiskFile_init = \<lparr>f_path = [], f_content = None, f_size = 0, f_last_modified = 0, f_last_modified_string = [], f_mime_type = []\<rparr>"

definition DiskFile_for :: "string \<Rightarrow> string \<Rightarrow> DiskFile" where
  "DiskFile_for path mime = DiskFile_init\<lparr>f_path := path, f_mime_type := mime\<rparr>"

definition resetFileContent :: "nat \<Rightarrow> DiskFile \<Rightarrow> DiskFile" where
  "resetFileContent n f = f\<lparr>f_content := if n = 0 then None else Some (replicate n None)\<rparr>"

text \<open>The conversion of a file size to \<open>streamsize\<close> throws when it does not fit.\<close>

definition current_size :: "'fs fs_lib \<Rightarrow> 'fs \<Rightarrow> string \<Rightarrow> string + nat" where
  "current_size fl fs path =
     bindE (fs_file_size fl fs path)
       (\<lambda>n. if n < 2 ^ 63 then Inr n else Inl ''bad numeric conversion: positive overflow'')"

definition update :: "'fs fs_lib \<Rightarrow> 'fs \<Rightarrow> DiskFile \<Rightarrow> (string + unit) \<times> DiskFile" where
  "update fl fs f =
     (case current_size fl fs (f_path f) of
        Inl e \<Rightarrow> (Inl e, f)
      | Inr n \<Rightarrow>
          let f' = f\<lparr>f_size := n\<rparr>
          in case fs_last_write_time fl fs (f_path f) of
               Inl e \<Rightarrow> (Inl e, f')
             | Inr t \<Rightarrow> (Inr (), f'\<lparr>f_last_modified := t, f_last_modified_string := get_date_string t\<rparr>))"

definition file_read_error :: "DiskFile \<Rightarrow> string" where
  "file_read_error f = ''FileService unable to read file: '' @ f_path f"

text \<open>The new buffer stays when reading fails, with the bytes that were read.\<close>

definition read_file :: "'fs fs_lib \<Rightarrow> 'fs \<Rightarrow> DiskFile \<Rightarrow> (string + unit) \<times> DiskFile" where
  "read_file fl fs f =
     (let buf = replicate (f_size f) None
      in case fs_contents fl fs (f_path f) of
           None \<Rightarrow> (Inl (file_read_error f), f\<lparr>f_content := Some buf\<rparr>)
         | Some text \<Rightarrow>
             let got = take (f_size f) text
             in (if length got = f_size f then Inr () else Inl (file_read_error f),
                 f\<lparr>f_content := Some (map Some got @ drop (length got) buf)\<rparr>))"

definition checkUpdated :: "'fs fs_lib \<Rightarrow> 'fs \<Rightarrow> DiskFile \<Rightarrow> (string + bool) \<times> DiskFile" where
  "checkUpdated fl fs f =
     (case bindE (current_size fl fs (f_path f)) (\<lambda>n. bindE (fs_last_write_time fl fs (f_path f)) (\<lambda>t. Inr (n, t))) of
        Inl e \<Rightarrow> (Inl e, f)
      | Inr (n, t) \<Rightarrow>
          if t = f_last_modified f \<and> n = f_size f then (Inr False, f)
          else
            (case read_file fl fs (f\<lparr>f_size := n, f_last_modified := t, f_last_modified_string := get_date_string t\<rparr>) of
               (Inl e, f') \<Rightarrow> (Inl e, f')
             | (Inr _, f') \<Rightarrow> (Inr True, f')))"

section \<open>Sending\<close>

text \<open>The stream of a sender delivers what the file contained when it was opened; the buffer for the data
  that is read is allocated once.\<close>

record DiskFileSender =
  s_disk_file :: DiskFile
  s_writer :: HTTPWriter
  s_file_stream :: "string option"
  s_buffer_size :: "nat option"
  s_max_chunk_size :: nat
  s_file_bytes_to_send :: nat
  s_bytes_sent :: nat

definition DiskFileSender_create :: "DiskFile \<Rightarrow> HTTPMessage \<Rightarrow> nat \<Rightarrow> fault + DiskFileSender" where
  "DiskFileSender_create f request max_chunk_size =
     bindE (HTTPResponseWriter_create request) (\<lambda>w.
       bindE (set_status RESPONSE_CODE_OK RESPONSE_MESSAGE_OK
                (w\<lparr>w_http_response := addHeader HEADER_LAST_MODIFIED (f_last_modified_string f)
                     (setContentType (f_mime_type f) (w_http_response w))\<rparr>))
         (\<lambda>w'. Inr \<lparr>s_disk_file = f, s_writer = w', s_file_stream = None, s_buffer_size = None,
                    s_max_chunk_size = max_chunk_size, s_file_bytes_to_send = 0, s_bytes_sent = 0\<rparr>))"

definition read_bytes :: "nat \<Rightarrow> nat \<Rightarrow> buffer \<Rightarrow> fault + string" where
  "read_bytes off n buf = (if off + n \<le> length buf then written_bytes (take n (drop off buf)) else Inl Out_of_bounds)"

text \<open>The next piece of the file; \<open>None\<close> when the file cannot be opened or read, which is only logged.\<close>

definition next_piece :: "'fs fs_lib \<Rightarrow> 'fs \<Rightarrow> DiskFileSender \<Rightarrow> fault + (string option \<times> DiskFileSender)" where
  "next_piece fl fs s =
     (case f_content (s_disk_file s) of
        Some buf \<Rightarrow> bindE (read_bytes (s_bytes_sent s) (s_file_bytes_to_send s) buf) (\<lambda>text. Inr (Some text, s))
      | None \<Rightarrow>
          (case (case s_file_stream s of None \<Rightarrow> fs_contents fl fs (f_path (s_disk_file s)) | Some text \<Rightarrow> Some text) of
             None \<Rightarrow> Inr (None, s)
           | Some text \<Rightarrow>
               let size = (case s_buffer_size s of None \<Rightarrow> s_file_bytes_to_send s | Some n \<Rightarrow> n);
                   s' = s\<lparr>s_file_stream := Some text, s_buffer_size := Some size\<rparr>;
                   piece = take (s_file_bytes_to_send s) (drop (s_bytes_sent s) text)
               in if size < s_file_bytes_to_send s then Inl Out_of_bounds
                  else if length piece < s_file_bytes_to_send s then Inr (None, s') else Inr (Some piece, s')))"

definition send_piece :: "boost_lib \<Rightarrow> string \<Rightarrow> DiskFileSender \<Rightarrow> TCPConnection \<Rightarrow> writer_error + (TCPConnection \<times> HTTPWriter)" where
  "send_piece lib piece s conn =
     (let w = writeNoCopy piece (s_writer s)
      in if s_bytes_sent s + s_file_bytes_to_send s \<ge> f_size (s_disk_file s) then
           (if s_bytes_sent s > 0 then sendFinalChunk lib conn w else writer_send lib conn w)
         else sendChunk lib conn w)"

text \<open>Sending ends with the sender whose completion is pending, or with \<open>None\<close>: nothing is pending, or a
  write whose completion only finishes the connection.\<close>

definition sender_send :: "boost_lib \<Rightarrow> 'fs fs_lib \<Rightarrow> 'fs \<Rightarrow> DiskFileSender \<Rightarrow> ('w, DiskFileSender option) action" where
  "sender_send lib fl fs s c =
     (if f_size (s_disk_file s) \<le> s_bytes_sent s then bindA (send_writer lib (s_writer s)) (\<lambda>_. returnA None) c
      else
        let rest = f_size (s_disk_file s) - s_bytes_sent s;
            n = (if s_max_chunk_size s > 0 \<and> rest > s_max_chunk_size s then s_max_chunk_size s else rest)
        in bindA (lift_fault (next_piece fl fs (s\<lparr>s_file_bytes_to_send := n\<rparr>)))
             (\<lambda>(piece, s'). case piece of
                None \<Rightarrow> returnA None
              | Some text \<Rightarrow>
                  (\<lambda>c. case send_piece lib text s' (x_conn c) of
                         Inl LostConnectionException \<Rightarrow> (Inl Lost_connection, c)
                       | Inl (Writer_fault f) \<Rightarrow> (Inl (Abort f), c)
                       | Inr (conn, w) \<Rightarrow> (Inr (Some (s'\<lparr>s_writer := w\<rparr>)), c\<lparr>x_conn := conn\<rparr>))) c)"

definition sender_handleWrite :: "boost_lib \<Rightarrow> 'fs fs_lib \<Rightarrow> 'fs \<Rightarrow> bool \<Rightarrow> DiskFileSender \<Rightarrow> ('w, DiskFileSender option) action" where
  "sender_handleWrite lib fl fs write_error s =
     (if write_error then
        bindA (modify_conn (\<lambda>conn. conn_finish (setLifecycle LIFECYCLE_CLOSE conn))) (\<lambda>_. returnA None)
      else
        let s' = s\<lparr>s_bytes_sent := s_bytes_sent s + s_file_bytes_to_send s\<rparr>
        in if s_bytes_sent s' \<ge> f_size (s_disk_file s') then bindA (modify_conn conn_finish) (\<lambda>_. returnA None)
           else sender_send lib fl fs (s'\<lparr>s_writer := writer_clear (s_writer s')\<rparr>))"

text \<open>Successful completions until the sender has finished; every one but the last sends another piece.\<close>

fun sender_run :: "boost_lib \<Rightarrow> 'fs fs_lib \<Rightarrow> 'fs \<Rightarrow> nat \<Rightarrow> (exn + DiskFileSender option) \<times> 'w ctx \<Rightarrow> (exn + DiskFileSender option) \<times> 'w ctx" where
  "sender_run lib fl fs 0 r = r"
| "sender_run lib fl fs (Suc n) r =
     (case r of
        (Inr (Some s), c) \<Rightarrow> sender_run lib fl fs n (sender_handleWrite lib fl fs False s c)
      | _ \<Rightarrow> r)"

section \<open>A file is sent\<close>

text \<open>The pieces a file is cut into.\<close>

function pieces :: "nat \<Rightarrow> string \<Rightarrow> string list" where
  "pieces m text = (if m = 0 \<or> length text \<le> m then [text] else take m text # pieces m (drop m text))"
  by auto
termination by (relation "measure (\<lambda>(m, text). length text)") auto

declare pieces.simps [simp del]

lemma concat_pieces [simp]: "concat (pieces m xs) = xs"
proof (induction m xs rule: pieces.induct)
  case (1 m xs)
  then show ?case by (simp add: pieces.simps [of m xs])
qed

lemma pieces_length: "xs \<noteq> [] \<Longrightarrow> piece \<in> set (pieces m xs) \<Longrightarrow> piece \<noteq> [] \<and> length piece \<le> length xs"
proof (induction m xs rule: pieces.induct)
  case (1 m xs)
  show ?case
  proof (cases "m = 0 \<or> length xs \<le> m")
    case True
    with 1(2,3) show ?thesis by (simp add: pieces.simps [of m xs])
  next
    case False
    then have "drop m xs \<noteq> []" by simp
    with 1 False show ?thesis by (fastforce simp: pieces.simps [of m xs])
  qed
qed

definition piece_size :: "DiskFileSender \<Rightarrow> nat" where
  "piece_size s =
     (let rest = f_size (s_disk_file s) - s_bytes_sent s
      in if s_max_chunk_size s > 0 \<and> rest > s_max_chunk_size s then s_max_chunk_size s else rest)"

text \<open>The file has the content \<open>text\<close>, in memory or on the disk, and the sender has something left to send.\<close>

definition file_is :: "'fs fs_lib \<Rightarrow> 'fs \<Rightarrow> string \<Rightarrow> DiskFileSender \<Rightarrow> bool" where
  "file_is fl fs text s \<longleftrightarrow> f_size (s_disk_file s) = length text \<and>
     (case f_content (s_disk_file s) of
        Some buf \<Rightarrow> buf = map Some text
      | None \<Rightarrow> (case s_file_stream s of None \<Rightarrow> fs_contents fl fs (f_path (s_disk_file s)) | Some t \<Rightarrow> Some t) = Some text \<and>
          (case s_buffer_size s of None \<Rightarrow> True | Some n \<Rightarrow> piece_size s \<le> n))"

definition sending :: "'fs fs_lib \<Rightarrow> 'fs \<Rightarrow> string \<Rightarrow> DiskFileSender \<Rightarrow> bool" where
  "sending fl fs text s \<longleftrightarrow> file_is fl fs text s \<and> s_bytes_sent s < length text \<and>
     writer_ok (s_writer s) \<and> writer_content (s_writer s) = [] \<and> w_client_supports_chunks (s_writer s)"

lemma next_piece_ok:
  assumes "sending fl fs text s"
  shows "\<exists>s'. next_piece fl fs (s\<lparr>s_file_bytes_to_send := piece_size s\<rparr>) =
       Inr (Some (take (piece_size s) (drop (s_bytes_sent s) text)), s') \<and>
     s_disk_file s' = s_disk_file s \<and> s_writer s' = s_writer s \<and> s_max_chunk_size s' = s_max_chunk_size s \<and>
     s_bytes_sent s' = s_bytes_sent s \<and> s_file_bytes_to_send s' = piece_size s \<and>
     (f_content (s_disk_file s) = None \<longrightarrow> s_file_stream s' = Some text \<and> (\<exists>n. s_buffer_size s' = Some n \<and> piece_size s \<le> n))"
proof -
  have le: "s_bytes_sent s + piece_size s \<le> length text"
    using assms by (auto simp: sending_def file_is_def piece_size_def Let_def)
  show ?thesis
  proof (cases "f_content (s_disk_file s)")
    case None
    with assms le show ?thesis
      by (cases "s_buffer_size s") (auto simp: sending_def file_is_def next_piece_def Let_def split: option.splits)
  next
    case (Some buf)
    then have "buf = map Some text" using assms by (simp add: sending_def file_is_def)
    with le Some show ?thesis by (simp add: next_piece_def read_bytes_def take_map drop_map)
  qed
qed

lemma sender_send_eq:
  assumes "sending fl fs data s" "next_piece fl fs (s\<lparr>s_file_bytes_to_send := piece_size s\<rparr>) = Inr (Some piece, s')"
    and "send_piece lib piece s' (x_conn c) = Inr (conn, w)"
  shows "sender_send lib fl fs s c = (Inr (Some (s'\<lparr>s_writer := w\<rparr>)), c\<lparr>x_conn := conn\<rparr>)"
  using assms by (simp add: sender_send_def piece_size_def sending_def file_is_def bindA_def lift_fault_def returnA_def Let_def)

lemma piece_written:
  assumes "writer_ok w" "writer_content w = []" "w_client_supports_chunks w" "tc_open conn" "piece \<noteq> []"
  shows "\<exists>w'. sendFinalChunk lib conn (writeNoCopy piece w) =
       Inr (async_write (headers_due lib conn w @ chunk_text piece @ final_chunk) conn, w')"
    and "\<exists>w'. sendChunk lib conn (writeNoCopy piece w) = Inr (async_write (headers_due lib conn w @ chunk_text piece) conn, w') \<and>
       w_sent_headers w' \<and> w_client_supports_chunks w'"
proof -
  define w1 where "w1 = (writeNoCopy piece w)\<lparr>w_sending_chunks := True\<rparr>"
  have "writer_ok (writeNoCopy piece w)" "writer_content (writeNoCopy piece w) = piece"
    using buffer_sink.inv_put buffer_sink.abs_put assms(1,2) by auto
  then have w1: "writer_ok w1" "w_client_supports_chunks w1" "w_sending_chunks w1" "writer_content w1 = piece"
    "headers_due lib conn w1 = headers_due lib conn w" "w_client_supports_chunks (writeNoCopy piece w)"
    using assms(3) by (simp_all add: w1_def writer_ok_def writer_content_def headers_due_def writeNoCopy_def Let_def)
  show "\<exists>w'. sendFinalChunk lib conn (writeNoCopy piece w) =
       Inr (async_write (headers_due lib conn w @ chunk_text piece @ final_chunk) conn, w')"
    using sendMoreData_chunked [OF assms(4) w1(1-3), of lib True] w1(4,5) assms(5) by (auto simp: sendFinalChunk_def w1_def)
  show "\<exists>w'. sendChunk lib conn (writeNoCopy piece w) = Inr (async_write (headers_due lib conn w @ chunk_text piece) conn, w') \<and>
       w_sent_headers w' \<and> w_client_supports_chunks w'"
    using sendMoreData_chunked [OF assms(4) w1(1-3), of lib False] w1(4-6) assms(5)
    by (auto simp: sendChunk_def w1_def writeNoCopy_def Let_def)
qed

text \<open>What is sent in chunks, from any point on: the headers that are due, the pieces as chunks and the end.\<close>

lemma sender_run_chunks:
  assumes "sending fl fs data s" "tc_open (x_conn c)"
    and "s_bytes_sent s > 0 \<or> piece_size s < length data"
  shows "\<exists>n c'. sender_run lib fl fs n (sender_send lib fl fs s c) = (Inr None, c') \<and>
     written (tc_events (x_conn c')) = written (tc_events (x_conn c)) @ headers_due lib (x_conn c) (s_writer s)
       @ concat (map chunk_text (pieces (s_max_chunk_size s) (drop (s_bytes_sent s) data))) @ final_chunk \<and>
     (\<exists>es. tc_events (x_conn c') = es @ [Finish_called]) \<and> x_world c' = x_world c"
  using assms
proof (induction "length data - s_bytes_sent s" arbitrary: s c rule: less_induct)
  case less
  define m where "m = s_max_chunk_size s"
  define rest where "rest = drop (s_bytes_sent s) data"
  define piece where "piece = take (piece_size s) rest"
  note s = less.prems(1) [unfolded sending_def]
  obtain s' where np: "next_piece fl fs (s\<lparr>s_file_bytes_to_send := piece_size s\<rparr>) = Inr (Some piece, s')"
    "s_disk_file s' = s_disk_file s" "s_writer s' = s_writer s" "s_max_chunk_size s' = m" "s_bytes_sent s' = s_bytes_sent s"
    "s_file_bytes_to_send s' = piece_size s"
    "f_content (s_disk_file s) = None \<longrightarrow> s_file_stream s' = Some data \<and> (\<exists>n. s_buffer_size s' = Some n \<and> piece_size s \<le> n)"
    using next_piece_ok [OF less.prems(1)] unfolding piece_def rest_def m_def by auto
  have size: "f_size (s_disk_file s) = length data" using s by (simp add: file_is_def)
  have rest: "length rest = length data - s_bytes_sent s" "rest \<noteq> []" "s_bytes_sent s < length data" using s by (simp_all add: rest_def)
  have ps: "piece_size s = (if m > 0 \<and> length rest > m then m else length rest)"
    using size rest(1) by (simp add: piece_size_def m_def Let_def)
  then have piece: "piece \<noteq> []" "length piece = piece_size s" using rest by (auto simp: piece_def)
  show ?case
  proof (cases "m > 0 \<and> length rest > m")
    case False
    then have pc: "pieces m rest = [rest]" "piece = rest" "s_bytes_sent s > 0" "s_bytes_sent s + piece_size s = length data"
      using ps less.prems(3) rest s by (auto simp: pieces.simps [of m rest] piece_def)
    obtain w' where w': "sendFinalChunk lib (x_conn c) (writeNoCopy rest (s_writer s)) =
        Inr (async_write (headers_due lib (x_conn c) (s_writer s) @ chunk_text rest @ final_chunk) (x_conn c), w')"
      using piece_written(1) [of "s_writer s" "x_conn c" rest lib] s less.prems(2) rest(2) by auto
    define conn where "conn = async_write (headers_due lib (x_conn c) (s_writer s) @ chunk_text rest @ final_chunk) (x_conn c)"
    have "send_piece lib piece s' (x_conn c) = Inr (conn, w')"
      using w' pc np size by (simp add: send_piece_def conn_def)
    from sender_send_eq [OF less.prems(1) np(1) this]
    have "sender_run lib fl fs 1 (sender_send lib fl fs s c) = (Inr None, c\<lparr>x_conn := conn_finish conn\<rparr>)"
      using pc(4) np size by (simp add: sender_handleWrite_def bindA_def modify_conn_def returnA_def Let_def)
    moreover have "written (tc_events (conn_finish conn)) = written (tc_events (x_conn c)) @ headers_due lib (x_conn c) (s_writer s)
        @ chunk_text rest @ final_chunk" by (simp add: conn_finish_def conn_def)
    ultimately show ?thesis using pc(1) unfolding m_def [symmetric] rest_def [symmetric]
      by (intro exI [of _ 1] exI [of _ "c\<lparr>x_conn := conn_finish conn\<rparr>"]) (simp add: conn_finish_def)
  next
    case True
    then have pc: "pieces m rest = piece # pieces m (drop m rest)" "piece_size s = m"
      using ps by (simp_all add: pieces.simps [of m rest] piece_def)
    have more: "s_bytes_sent s + m < length data" using True rest(1) by linarith
    obtain w' where w': "sendChunk lib (x_conn c) (writeNoCopy piece (s_writer s)) =
        Inr (async_write (headers_due lib (x_conn c) (s_writer s) @ chunk_text piece) (x_conn c), w')"
        "w_sent_headers w'" "w_client_supports_chunks w'"
      using piece_written(2) [of "s_writer s" "x_conn c" piece lib] s less.prems(2) piece(1) by auto
    define c1 where "c1 = c\<lparr>x_conn := async_write (headers_due lib (x_conn c) (s_writer s) @ chunk_text piece) (x_conn c)\<rparr>"
    define s1 where "s1 = s'\<lparr>s_writer := writer_clear w', s_bytes_sent := s_bytes_sent s + m\<rparr>"
    have "send_piece lib piece s' (x_conn c) = Inr (x_conn c1, w')"
      using w' pc(2) np size more by (simp add: send_piece_def c1_def)
    from sender_send_eq [OF less.prems(1) np(1) this]
    have send: "sender_send lib fl fs s c = (Inr (Some (s'\<lparr>s_writer := w'\<rparr>)), c1)" by (simp add: c1_def)
    have "s'\<lparr>s_writer := w', s_bytes_sent := s_bytes_sent s + m, s_writer := writer_clear w'\<rparr> = s1" by (simp add: s1_def)
    then have hw: "sender_handleWrite lib fl fs False (s'\<lparr>s_writer := w'\<rparr>) c1 = sender_send lib fl fs s1 c1"
      using np size more pc(2) by (simp add: sender_handleWrite_def Let_def)
    have s1: "s_bytes_sent s1 = s_bytes_sent s + m" "s_max_chunk_size s1 = m" "s_disk_file s1 = s_disk_file s"
      "s_writer s1 = writer_clear w'" by (simp_all add: s1_def np)
    have ps1: "piece_size s1 \<le> m" using True size s1 rest(1) by (auto simp: piece_size_def Let_def)
    have "sending fl fs data s1"
      using s np(7) ps1 pc(2) s1 more w'(3) writer_ok_init
      by (cases "f_content (s_disk_file s)") (auto simp: sending_def file_is_def s1_def np writer_clear_def)
    moreover have "length data - s_bytes_sent s1 < length data - s_bytes_sent s" unfolding s1(1) using more True by linarith
    moreover have "tc_open (x_conn c1)" using less.prems(2) by (simp add: c1_def)
    moreover have "s_bytes_sent s1 > 0" using True s1 by simp
    ultimately obtain n c' where ih: "sender_run lib fl fs n (sender_send lib fl fs s1 c1) = (Inr None, c')"
      "written (tc_events (x_conn c')) = written (tc_events (x_conn c1)) @ headers_due lib (x_conn c1) (s_writer s1)
         @ concat (map chunk_text (pieces m (drop (s_bytes_sent s1) data))) @ final_chunk"
      "\<exists>es. tc_events (x_conn c') = es @ [Finish_called]" "x_world c' = x_world c1"
      using less.hyps [of s1 c1] s1(2) by auto
    have "headers_due lib (x_conn c1) (s_writer s1) = []" using w'(2) by (simp add: headers_due_def s1(4) writer_clear_def)
    moreover have "drop (s_bytes_sent s1) data = drop m rest" by (simp add: s1 rest_def add.commute)
    moreover have "sender_run lib fl fs (Suc n) (sender_send lib fl fs s c) = (Inr None, c')" using ih(1) send hw by simp
    ultimately show ?thesis using ih(2-4) pc(1) unfolding m_def [symmetric] rest_def [symmetric]
      by (intro exI [of _ "Suc n"] exI [of _ c']) (simp add: c1_def)
  qed
qed

lemma DiskFileSender_create_facts:
  assumes "DiskFileSender_create f request m = Inr s"
  shows "s_disk_file s = f" "s_file_stream s = None" "s_buffer_size s = None" "s_max_chunk_size s = m" "s_bytes_sent s = 0"
    "writer_ok (s_writer s)" "writer_content (s_writer s) = []" "\<not> w_sent_headers (s_writer s)" "\<not> w_sending_chunks (s_writer s)"
  using assms
  by (auto simp: DiskFileSender_create_def HTTPResponseWriter_create_def set_status_def HTTPWriter_init_def writer_ok_def writer_content_def)

section \<open>Properties\<close>

text \<open>C26: A file is sent as it is: on an open connection to a client that supports chunks, from memory or from
  the disk, the sender writes the headers and the file in one response with its length when it fits the
  maximum chunk size or there is none, and otherwise chunks that the chunk parser turns back into the
  file; then it finishes the connection.\<close>

theorem file_sent:
  assumes "DiskFileSender_create f request m = Inr s" "f_size f = length data" "data \<noteq> []" "length data < 2 ^ 63"
    and "f_content f = Some (map Some data) \<or> f_content f = None \<and> fs_contents fl fs (f_path f) = Some data"
    and "w_client_supports_chunks (s_writer s)" "tc_open (x_conn c)"
    and "p_chunked_content_parse_state p = PARSE_CHUNK_SIZE_START"
  shows "\<exists>n c' body p'. sender_run lib fl fs n (sender_send lib fl fs s c) = (Inr None, c') \<and>
     (\<exists>es. tc_events (x_conn c') = es @ [Finish_called]) \<and>
     (if m = 0 \<or> length data \<le> m then
        written (tc_events (x_conn c')) = written (tc_events (x_conn c))
          @ response_headers lib (getKeepAlive (x_conn c)) False (with_length (length data) (w_http_response (s_writer s))) @ data
      else written (tc_events (x_conn c')) = written (tc_events (x_conn c))
          @ response_headers lib (getKeepAlive (x_conn c)) True (w_http_response (s_writer s)) @ body \<and>
        parseChunks (setReadBuffer body p) [] = (TTrue, p', take (p_max_content_length p) data))"
proof -
  note cr = DiskFileSender_create_facts [OF assms(1)]
  have snd: "sending fl fs data s"
    using assms(2,3,5,6) cr by (cases "f_content f") (auto simp: sending_def file_is_def)
  show ?thesis
  proof (cases "m = 0 \<or> length data \<le> m")
    case True
    then have ps: "piece_size s = length data" using cr assms(2) by (auto simp: piece_size_def Let_def)
    obtain s' where np: "next_piece fl fs (s\<lparr>s_file_bytes_to_send := piece_size s\<rparr>) = Inr (Some data, s')"
      "s_disk_file s' = f" "s_writer s' = s_writer s" "s_bytes_sent s' = 0" "s_file_bytes_to_send s' = length data"
      using next_piece_ok [OF snd] cr ps by auto
    have w: "writer_ok (writeNoCopy data (s_writer s))" "writer_content (writeNoCopy data (s_writer s)) = data"
      "\<not> w_sent_headers (writeNoCopy data (s_writer s))" "\<not> w_sending_chunks (writeNoCopy data (s_writer s))"
      "w_http_response (writeNoCopy data (s_writer s)) = w_http_response (s_writer s)"
      using buffer_sink.inv_put buffer_sink.abs_put cr by (auto simp: writeNoCopy_def Let_def)
    obtain w' where w': "writer_send lib (x_conn c) (writeNoCopy data (s_writer s)) = Inr (async_write
        (response_headers lib (getKeepAlive (x_conn c)) False (with_length (length data) (w_http_response (s_writer s))) @ data)
        (x_conn c), w')"
      using writer_send_eq [OF assms(7) w(1,3,4), of lib] w(2,5) by auto
    define conn where "conn = async_write (response_headers lib (getKeepAlive (x_conn c)) False
        (with_length (length data) (w_http_response (s_writer s))) @ data) (x_conn c)"
    have "send_piece lib data s' (x_conn c) = Inr (conn, w')"
      using w' np assms(2) by (simp add: send_piece_def conn_def)
    from sender_send_eq [OF snd np(1) this]
    have run: "sender_run lib fl fs 1 (sender_send lib fl fs s c) = (Inr None, c\<lparr>x_conn := conn_finish conn\<rparr>)"
      using np assms(2) by (simp add: sender_handleWrite_def bindA_def modify_conn_def returnA_def Let_def)
    show ?thesis
      by (rule exI [of _ 1], rule exI [of _ "c\<lparr>x_conn := conn_finish conn\<rparr>"])
        (use True run in \<open>simp add: conn_finish_def conn_def\<close>)
  next
    case False
    define body where "body = concat (map chunk_text (pieces m data)) @ final_chunk"
    have "piece_size s < length data" using False cr assms(2) by (simp add: piece_size_def Let_def)
    then obtain n c' where run: "sender_run lib fl fs n (sender_send lib fl fs s c) = (Inr None, c')"
      "written (tc_events (x_conn c')) = written (tc_events (x_conn c))
          @ response_headers lib (getKeepAlive (x_conn c)) True (w_http_response (s_writer s)) @ body"
      "\<exists>es. tc_events (x_conn c') = es @ [Finish_called]"
      using sender_run_chunks [OF snd assms(7), of lib] cr by (auto simp: headers_due_def body_def)
    have "\<forall>x\<in>set (pieces m data). x \<noteq> [] \<and> length x < 2 ^ 63"
      using pieces_length [OF assms(3)] assms(4) by (meson le_less_trans)
    from run_chunks [OF this, of "setReadBuffer body p" "[]" 0 "[]"] assms(8)
    obtain p' where "parseChunks (setReadBuffer body p) [] = (TTrue, p', take (p_max_content_length p) data)"
      by (auto simp: body_def setReadBuffer_def parseChunks_def cache_append_def)
    then show ?thesis using False run by auto
  qed
qed

definition no_files :: "unit fs_lib" where
  "no_files = \<lparr>path_append = (\<lambda>a b. a @ ''/'' @ b), path_normalize = (\<lambda>s. s), path_leaf = (\<lambda>s. s), path_branch = (\<lambda>s. s),
     fs_exists = (\<lambda>_ _. Inr True), fs_is_directory = (\<lambda>_ _. Inr False), fs_file_size = (\<lambda>_ _. Inr 4),
     fs_last_write_time = (\<lambda>_ _. Inr 7), fs_contents = (\<lambda>_ _. None), fs_entries = (\<lambda>_ _. Inr []),
     fs_write = (\<lambda>_ _ _ fs. fs), fs_remove = (\<lambda>_ fs. (Inr (), fs))\<rparr>"

definition example_file :: "buffer option \<Rightarrow> DiskFile" where
  "example_file buf = (DiskFile_for ''a.txt'' ''text/plain'')\<lparr>f_content := buf, f_size := 5\<rparr>"

definition file_ctx :: "unit ctx" where
  "file_ctx = \<lparr>x_request = HTTPRequest_init ''/a.txt'', x_conn = TCPConnection_init, x_world = ()\<rparr>"

lemma example_request_sender:
  "\<exists>s. DiskFileSender_create f (HTTPRequest_init resource) m = Inr s \<and> w_client_supports_chunks (s_writer s)"
  by (simp add: DiskFileSender_create_def HTTPResponseWriter_create_def HTTPResponse_for_def updateRequestInfo_def as_request_def
      update_response_def as_response_def HTTPResponse_init_def HTTPMessage_init_def HTTPWriter_init_def HTTPRequest_init_def
      set_status_def setStatusCode_def setStatusMessage_def addHeader_def setContentType_def changeHeader_def clearFirstLine_def)

lemma file_sent_witness:
  "\<exists>s n c' body p'. DiskFileSender_create (example_file (Some (map Some ''hello''))) (HTTPRequest_init ''/a.txt'') 2 = Inr s \<and>
     sender_run writer_example_lib no_files () n (sender_send writer_example_lib no_files () s file_ctx) = (Inr None, c') \<and>
     written (tc_events (x_conn c')) =
       response_headers writer_example_lib False True (w_http_response (s_writer s)) @ body \<and>
     parseChunks (setReadBuffer body (HTTPParser_init False 100)) [] = (TTrue, p', ''hello'')"
proof -
  obtain s where s: "DiskFileSender_create (example_file (Some (map Some ''hello''))) (HTTPRequest_init ''/a.txt'') 2 = Inr s"
    "w_client_supports_chunks (s_writer s)" using example_request_sender by blast
  have "f_size (example_file (Some (map Some ''hello''))) = length ''hello''" "f_content (example_file (Some (map Some ''hello''))) = Some (map Some ''hello'')"
    by (simp_all add: example_file_def)
  from file_sent [OF s(1) this(1) _ _ disjI1 [OF this(2)] s(2), of file_ctx "HTTPParser_init False 100" writer_example_lib no_files "()"]
  show ?thesis using s(1) by (fastforce simp: file_ctx_def TCPConnection_init_def HTTPParser_init_def getKeepAlive_def)
qed

text \<open>When a cached file changed and can no longer be read, the request fails, but the entry keeps the new time
  and size with a buffer that was never filled: the next request finds the file unchanged and sends that
  buffer.\<close>

theorem unreadable_update_sent:
  assumes "current_size fl fs (f_path f) = Inr n" "n > 0" "fs_last_write_time fl fs (f_path f) = Inr t"
    and "fs_contents fl fs (f_path f) = None" "t \<noteq> f_last_modified f \<or> n \<noteq> f_size f"
  shows "\<exists>f'. checkUpdated fl fs f = (Inl (file_read_error f), f') \<and> checkUpdated fl fs f' = (Inr False, f') \<and>
     (\<forall>request m s (c :: 'w ctx). DiskFileSender_create f' request m = Inr s \<longrightarrow>
        fst (sender_send lib fl fs s c) = Inl (Abort Uninitialised_read))"
proof -
  define f' where "f' = f\<lparr>f_size := n, f_last_modified := t, f_last_modified_string := get_date_string t,
      f_content := Some (replicate n None)\<rparr>"
  have "checkUpdated fl fs f = (Inl (file_read_error f), f')" "checkUpdated fl fs f' = (Inr False, f')"
    using assms by (auto simp: checkUpdated_def read_file_def f'_def file_read_error_def)
  moreover have "fst (sender_send lib fl fs s c) = Inl (Abort Uninitialised_read)"
    if s: "DiskFileSender_create f' request m = Inr s" for request m s and c :: "'w ctx"
  proof -
    note cr = DiskFileSender_create_facts [OF s]
    obtain k where k: "piece_size s = Suc k" "piece_size s \<le> n" using cr assms(2)
      by (cases "piece_size s") (auto simp: piece_size_def f'_def Let_def split: if_splits)
    then have "take (piece_size s) (replicate n (None :: char option)) = None # replicate k None"
      by (simp add: min_absorb1)
    then have "next_piece fl fs (s\<lparr>s_file_bytes_to_send := piece_size s\<rparr>) = Inl Uninitialised_read"
      using cr k by (simp add: next_piece_def read_bytes_def f'_def)
    then show ?thesis using cr assms(2)
      by (simp add: sender_send_def piece_size_def f'_def bindA_def lift_fault_def Let_def)
  qed
  ultimately show ?thesis by blast
qed

lemma unreadable_update_sent_witness:
  "\<exists>f' s. checkUpdated no_files () (example_file (Some (map Some ''hello''))) = (Inl ''FileService unable to read file: a.txt'', f') \<and>
     DiskFileSender_create f' (HTTPRequest_init ''/a.txt'') 0 = Inr s \<and>
     fst (sender_send writer_example_lib no_files () s file_ctx) = Inl (Abort Uninitialised_read)"
proof -
  have "current_size no_files () (f_path (example_file (Some (map Some ''hello'')))) = Inr 4"
    by (simp add: current_size_def no_files_def)
  from unreadable_update_sent [OF this, of 7 writer_example_lib, where 'w = unit] obtain f' where
    f': "checkUpdated no_files () (example_file (Some (map Some ''hello''))) = (Inl ''FileService unable to read file: a.txt'', f')"
    "\<forall>request m s (c :: unit ctx). DiskFileSender_create f' request m = Inr s \<longrightarrow>
        fst (sender_send writer_example_lib no_files () s c) = Inl (Abort Uninitialised_read)"
    by (auto simp: no_files_def example_file_def DiskFile_for_def file_read_error_def)
  then show ?thesis using example_request_sender [of f' _ 0] by blast
qed

end
