(* ===== verification/Sqlite_Db.thy ===== *)
theory Sqlite_Db
  imports Http_Server
begin

text \<open>
  The database of the backend: \<open>Backend/include/DB.h\<close>, \<open>SQLiteDB.h\<close>, \<open>Conf.h\<close> and
  \<open>Backend/lib/SQLiteDB.cpp\<close>. The SQLite library itself is a parameter: a record of the calls the code
  makes. What \<open>sqlite3_step\<close> returns call after call is the list of the rows, then the code that ends
  the loop. A column text is a pointer into the statement, valid until the next step; the model keeps
  the number of the step it belongs to, so that using it later is a fault.
\<close>

section \<open>The library\<close>

abbreviation SQLITE_OK :: int where "SQLITE_OK \<equiv> 0"
abbreviation SQLITE_DONE :: int where "SQLITE_DONE \<equiv> 101"

definition sqlite_ok :: "int \<Rightarrow> bool" where
  "sqlite_ok ret \<longleftrightarrow> ret = SQLITE_DONE \<or> ret = SQLITE_OK"

type_synonym row = "string option list"

record ('db, 'stmt) sqlite_lib =
  sqlite3_open :: "string \<Rightarrow> int \<times> 'db"
  sqlite3_exec :: "'db \<Rightarrow> string \<Rightarrow> int \<times> string option \<times> (row \<times> row) list \<times> 'db"
  sqlite3_prepare :: "'db \<Rightarrow> string \<Rightarrow> int \<times> 'stmt"
  sqlite3_bind_text :: "'stmt \<Rightarrow> nat \<Rightarrow> string \<Rightarrow> int \<times> 'stmt"
  sqlite3_column_names :: "'stmt \<Rightarrow> row"
  sqlite3_steps :: "'db \<Rightarrow> 'stmt \<Rightarrow> row list \<times> int"

text \<open>\<open>sqlite3_exec\<close> yields a code, an error message, for every row its names and values, and the changed
  database.\<close>

section \<open>Column pointers and callbacks\<close>

datatype column_ptr = Null_ptr | Text_ptr nat string

definition column_text :: "nat \<Rightarrow> string option \<Rightarrow> column_ptr" where
  "column_text n v = (case v of None \<Rightarrow> Null_ptr | Some s \<Rightarrow> Text_ptr n s)"

text \<open>Reading the text a pointer denotes during step \<open>n\<close>.\<close>

definition deref :: "nat \<Rightarrow> column_ptr \<Rightarrow> fault + string option" where
  "deref n q =
     (case q of Null_ptr \<Rightarrow> Inr None
      | Text_ptr k s \<Rightarrow> if k = n then Inr (Some s) else Inl Dangling_pointer)"

text \<open>A callback gets the step, the column count and the two arrays, and changes a state. An empty
  \<open>boost::function\<close> throws when it is called.\<close>

type_synonym 's callback = "nat \<Rightarrow> nat \<Rightarrow> column_ptr list \<Rightarrow> string option list \<Rightarrow> 's \<Rightarrow> fault + 's"

definition call_function :: "'s callback option \<Rightarrow> nat \<Rightarrow> nat \<Rightarrow> column_ptr list \<Rightarrow> string option list \<Rightarrow> 's \<Rightarrow> exn + 's" where
  "call_function f n colCount colValues colNames s =
     (case f of
        None \<Rightarrow> Inl (Std_exception ''call to empty boost::function'')
      | Some cb \<Rightarrow> (case cb n colCount colValues colNames s of Inl e \<Rightarrow> Inl (Abort e) | Inr s' \<Rightarrow> Inr s'))"

section \<open>Executing a statement\<close>

type_synonym SanitizedParams = "(string, string) std_map"

text \<open>\<open>execCallback\<close> for every row of \<open>sqlite3_exec\<close>; the pointer to the callback is never null.\<close>

fun exec_rows :: "'s callback option \<Rightarrow> nat \<Rightarrow> (row \<times> row) list \<Rightarrow> 's \<Rightarrow> exn + 's" where
  "exec_rows f n [] s = Inr s"
| "exec_rows f n ((names, values) # rows) s =
     bindE (call_function f n (length names) (map (column_text n) values) names s) (exec_rows f (Suc n) rows)"

fun where_terms :: "bool \<Rightarrow> string list \<Rightarrow> string" where
  "where_terms notFirst [] = []"
| "where_terms notFirst (k # ks) = (if notFirst then '' AND '' else []) @ k @ '' = ?'' @ where_terms True ks"

definition whereClause :: "SanitizedParams \<Rightarrow> string" where
  "whereClause sp = '' WHERE '' @ where_terms False (map fst sp) @ '';''"

fun bind_params :: "('db, 'stmt) sqlite_lib \<Rightarrow> 'stmt \<Rightarrow> nat \<Rightarrow> string list \<Rightarrow> int \<times> 'stmt" where
  "bind_params sq stmt i [] = (SQLITE_OK, stmt)"
| "bind_params sq stmt i (v # vs) =
     (case sqlite3_bind_text sq stmt i v of
        (ret, stmt') \<Rightarrow> if ret \<noteq> SQLITE_OK then (ret, stmt') else bind_params sq stmt' (Suc i) vs)"

text \<open>The stepping loop. \<open>colValues\<close> is declared before the loop and grows with every row; the callback
  gets a pointer to its first element.\<close>

fun step_rows :: "'s callback option \<Rightarrow> row \<Rightarrow> nat \<Rightarrow> column_ptr list \<Rightarrow> row list \<Rightarrow> 's \<Rightarrow> exn + 's" where
  "step_rows f colNames n colValues [] s = Inr s"
| "step_rows f colNames n colValues (r # rows) s =
     (let colValues' = colValues @ map (column_text n) r
      in bindE (call_function f n (length colNames) colValues' colNames s)
           (step_rows f colNames (Suc n) colValues' rows))"

definition run_statement :: "('db, 'stmt) sqlite_lib \<Rightarrow> 'db \<Rightarrow> 'stmt \<Rightarrow> 's callback option \<Rightarrow> 's \<Rightarrow> exn + (bool \<times> 's)" where
  "run_statement sq db stmt f s =
     (case sqlite3_steps sq db stmt of
        (rows, ret) \<Rightarrow>
          let colNames = sqlite3_column_names sq stmt
          in if rows \<noteq> [] \<and> colNames = []
             then bindE (call_function f 0 0 [] [] s) (\<lambda>s'. Inr (True, s'))
             else bindE (step_rows f colNames 0 [] rows s)
                    (\<lambda>s'. Inr (sqlite_ok ret, s')))"

definition execute :: "('db, 'stmt) sqlite_lib \<Rightarrow> string \<Rightarrow> 's callback option \<Rightarrow> SanitizedParams \<Rightarrow> 'db \<Rightarrow> 's
    \<Rightarrow> exn + (bool \<times> string option \<times> 's \<times> 'db)" where
  "execute sq query f sp db s =
     (if query = [] then Inl (Abort Assertion_failed)
      else if sp = [] then
        (case sqlite3_exec sq db query of
           (ret, errMsg, rows, db') \<Rightarrow>
             bindE (exec_rows f 0 rows s) (\<lambda>s'. Inr (sqlite_ok ret, errMsg, s', db')))
      else
        (case sqlite3_prepare sq db (query @ whereClause sp) of
           (ret, stmt) \<Rightarrow>
             if ret \<noteq> SQLITE_OK then Inr (sqlite_ok ret, None, s, db)
             else
               (case bind_params sq stmt 1 (map snd sp) of
                  (ret', stmt') \<Rightarrow>
                    if ret' \<noteq> SQLITE_OK then Inr (sqlite_ok ret', None, s, db)
                    else bindE (run_statement sq db stmt' f s) (\<lambda>(ok, s'). Inr (ok, None, s', db)))))"

section \<open>Opening the database\<close>

definition DB_CACHE :: string where "DB_CACHE = ''cache.db''"

text \<open>The constructor ends the program when the file cannot be opened; \<open>Exited\<close> is the exit code.\<close>

datatype startup_failure = Exited int | Uncaught exn

definition SQLiteDB :: "('db, 'stmt) sqlite_lib \<Rightarrow> startup_failure + 'db" where
  "SQLiteDB sq = (case sqlite3_open sq DB_CACHE of (ret, db) \<Rightarrow> if ret \<noteq> 0 then Inl (Exited 1) else Inr db)"

section \<open>The statement text\<close>

lemma count_where_terms:
  "\<forall>k\<in>set ks. CHR ''?'' \<notin> set k \<Longrightarrow> count_list (where_terms b ks) (CHR ''?'') = length ks"
proof (induction ks arbitrary: b)
  case (Cons k ks)
  then have "count_list k (CHR ''?'') = 0" by (simp add: count_list_0_iff)
  with Cons show ?case by simp
qed simp

lemma bind_params_all:
  assumes "\<And>stmt i v. fst (sqlite3_bind_text sq stmt i v) = SQLITE_OK"
  shows "bind_params sq stmt i vs =
     (SQLITE_OK, foldl (\<lambda>st (j, v). snd (sqlite3_bind_text sq st j v)) stmt (enumerate i vs))"
proof (induction vs arbitrary: stmt i)
  case (Cons v vs)
  obtain st where "sqlite3_bind_text sq stmt i v = (SQLITE_OK, st)" using assms by (metis prod.collapse)
  with Cons show ?case by simp
qed simp

end
