(* ===== verification/Resource_Handler.thy ===== *)
theory Resource_Handler
  imports Sqlite_Db Json_Properties
begin

text \<open>
  The resource handlers of the backend: \<open>Backend/lib/ResourceHandler.cpp\<close> and its five derived classes,
  \<open>MoviesResourceHandler.cpp\<close>, \<open>MovieSourcesResourceHandler.cpp\<close>, \<open>TVShowsResourceHandler.cpp\<close>,
  \<open>SeasonsResourceHandler.cpp\<close> and \<open>EpisodesResourceHandler.cpp\<close>. The virtual functions a derived class
  overrides are the fields of a record. The state behind the handlers is the database; the number type
  of the JSON documents stays a parameter, no document here contains a number.
\<close>

section \<open>Collecting rows\<close>

record 'n Lister =
  l_doc :: "'n Members"
  l_content :: "'n UnknownElement list"

definition Lister_init :: "'n Lister" where
  "Lister_init = \<lparr>l_doc = [], l_content = []\<rparr>"

text \<open>The loop over the columns \<open>i\<close>, \<open>i + 1\<close>, \<dots> of one row.\<close>

fun lister_columns :: "nat \<Rightarrow> column_ptr list \<Rightarrow> string option list \<Rightarrow> nat list \<Rightarrow> 'n Members \<Rightarrow> fault + 'n Members" where
  "lister_columns n colValues colNames [] item = Inr item"
| "lister_columns n colValues colNames (i # is) item =
     (if i \<ge> length colNames \<or> i \<ge> length colValues then Inl Out_of_bounds
      else case colNames ! i of
             None \<Rightarrow> Inl Assertion_failed
           | Some name \<Rightarrow>
               bindE (deref n (colValues ! i)) (\<lambda>v.
                 lister_columns n colValues colNames is
                   (Object_assign name (case v of Some s \<Rightarrow> JString s | None \<Rightarrow> JNull) item)))"

definition Lister_callback :: "'n Lister callback" where
  "Lister_callback n colCount colValues colNames l =
     bindE (lister_columns n colValues colNames [0..<colCount] [])
       (\<lambda>item. Inr (l\<lparr>l_content := Array_Insert (JObject item) (l_content l)\<rparr>))"

definition Lister_finish :: "'n Lister \<Rightarrow> 'n Lister" where
  "Lister_finish l =
     l\<lparr>l_doc := Object_assign ''error'' JNull (Object_assign ''content'' (JArray (l_content l)) (l_doc l))\<rparr>"

section \<open>Answering with a document\<close>

text \<open>The bytes of a C string end before the first zero byte.\<close>

definition c_str :: "string \<Rightarrow> string" where
  "c_str s = takeWhile (\<lambda>c. c \<noteq> CHR 0x00) s"

definition writeJsonHttpResponse :: "('n \<Rightarrow> string) \<Rightarrow> boost_lib \<Rightarrow> 'n Members \<Rightarrow> bool \<Rightarrow> HTTPWriter \<Rightarrow> 'w handler" where
  "writeJsonHttpResponse shw lib obj setStatusOK w =
     bindA (lift_fault (if setStatusOK then set_status RESPONSE_CODE_OK RESPONSE_MESSAGE_OK w else Inr w))
       (\<lambda>w'. send_writer lib (writer_write (c_str (Write shw (JObject obj))) w'))"

definition create_writer :: "('w, HTTPWriter) action" where
  "create_writer c = lift_fault (HTTPResponseWriter_create (x_request c)) c"

definition RESPONSE_CODE_NOT_IMPLEMENTED :: "32 word" where "RESPONSE_CODE_NOT_IMPLEMENTED = 501"
definition RESPONSE_MESSAGE_NOT_IMPLEMENTED :: string where "RESPONSE_MESSAGE_NOT_IMPLEMENTED = ''Not Implemented''"

section \<open>The base class\<close>

record ResourceHandler =
  h_source :: string
  h_createStatement :: string
  h_sanitizedKey :: "string \<Rightarrow> string option"
  h_listStatement :: string
  h_viewStatement :: string
  h_testData :: "string list"

text \<open>\<open>sanitizeQueryParams\<close>: the loop all five classes share, over the keys each of them accepts.\<close>

fun sanitize_loop :: "(string \<Rightarrow> string option) \<Rightarrow> StringDictionary \<Rightarrow> SanitizedParams \<Rightarrow> SanitizedParams" where
  "sanitize_loop f [] sq = sq"
| "sanitize_loop f ((key, v) # dirty) sq =
     (case f key of None \<Rightarrow> sanitize_loop f dirty sq
      | Some sanitizedKey \<Rightarrow> sanitize_loop f dirty (map_insert sanitizedKey v sq))"

definition sanitizeQueryParams :: "ResourceHandler \<Rightarrow> StringDictionary \<Rightarrow> SanitizedParams" where
  "sanitizeQueryParams h dirty = sanitize_loop (h_sanitizedKey h) dirty []"

text \<open>The database call of \<open>list\<close> and \<open>view\<close> and the answer when it succeeds.\<close>

definition query_and_answer :: "('n \<Rightarrow> string) \<Rightarrow> boost_lib \<Rightarrow> ('db, 'stmt) sqlite_lib \<Rightarrow> string \<Rightarrow> SanitizedParams \<Rightarrow> 'db handler" where
  "query_and_answer shw lib sq stmt sp c =
     (case execute sq stmt (Some Lister_callback) sp (x_world c) (Lister_init :: 'n Lister) of
        Inl e \<Rightarrow> (Inl e, c)
      | Inr (ok, errMsg, l, db) \<Rightarrow>
          let c' = c\<lparr>x_world := db\<rparr>
          in if ok then bindA create_writer (writeJsonHttpResponse shw lib (l_doc (Lister_finish l)) True) c'
             else (Inr (), c'))"

definition list_resource :: "('n \<Rightarrow> string) \<Rightarrow> boost_lib \<Rightarrow> ('db, 'stmt) sqlite_lib \<Rightarrow> ResourceHandler \<Rightarrow> 'db handler" where
  "list_resource shw lib sq h c =
     (if h_listStatement h = [] then (Inl (Abort Assertion_failed), c)
      else query_and_answer shw lib sq (h_listStatement h) [] c)"

definition view_resource :: "('n \<Rightarrow> string) \<Rightarrow> boost_lib \<Rightarrow> ('db, 'stmt) sqlite_lib \<Rightarrow> ResourceHandler \<Rightarrow> 'db handler" where
  "view_resource shw lib sq h c =
     bindA (lift_fault (as_request (x_request c))) (\<lambda>r.
       let sp = sanitizeQueryParams h (m_query_params r)
       in if sp = [] then list_resource shw lib sq h
          else if h_viewStatement h = [] then (\<lambda>c. (Inl (Abort Assertion_failed), c))
          else query_and_answer shw lib sq (h_viewStatement h) sp) c"

definition hasQuery :: "string \<Rightarrow> HTTPRequest_part \<Rightarrow> bool" where
  "hasQuery key r = (dict_find key (m_query_params r) \<noteq> None)"

definition unrecognized_doc :: "HTTPRequest_part \<Rightarrow> 'n Members" where
  "unrecognized_doc r = Object_assign ''error'' (JString (''unrecognized query '' @ m_query_string r)) []"

definition handle :: "('n \<Rightarrow> string) \<Rightarrow> boost_lib \<Rightarrow> ('db, 'stmt) sqlite_lib \<Rightarrow> ResourceHandler \<Rightarrow> 'db handler" where
  "handle shw lib sq h c =
     bindA (lift_fault (as_request (x_request c))) (\<lambda>r.
       if hasQuery ''list'' r then list_resource shw lib sq h
       else if hasQuery ''view'' r then view_resource shw lib sq h
       else bindA create_writer (\<lambda>w.
              bindA (lift_fault (set_status RESPONSE_CODE_NOT_IMPLEMENTED RESPONSE_MESSAGE_NOT_IMPLEMENTED w)) (\<lambda>w'.
                writeJsonHttpResponse shw lib (unrecognized_doc r) False w'))) c"

section \<open>The five resources\<close>

abbreviation apos :: string where "apos \<equiv> [CHR 0x27]"

definition movies_key :: "string \<Rightarrow> string option" where
  "movies_key key =
     (if key = ''id'' then Some ''movie_id''
      else if key = ''name'' then Some ''movie_name''
      else if key = ''coverUrl'' then Some ''movie_coverurl''
      else if key = ''imdbId'' then Some ''movie_imdbid''
      else None)"

definition movies_view :: string where
  "movies_view = ''select movie_id as id, movie_name as name, movie_imdbid as imdbId, movie_coverurl as coverUrl from movies''"

definition movies_testData :: "string list" where
  "movies_testData =
     [''insert into movies(movie_id,movie_name,movie_imdbid,movie_coverurl) values (1, '' @ apos @ ''Sex and the City'' @ apos @ '', '' @ apos @ ''tt10000774'' @ apos @ '', '' @ apos @ ''http://www.pursepage.com/wp-content/uploads/2008/01/sex-and-the-city-movie-poster.jpg'' @ apos @ '');'',
      ''insert into movies(movie_id,movie_name,movie_imdbid,movie_coverurl) values (2, '' @ apos @ ''Twilight'' @ apos @ '', '' @ apos @ ''tt1099212'' @ apos @ '', '' @ apos @ ''http://juiceboxdotcom.com/wp-content/themes/mimbo2.2/images//twilight-movie-poster.jpg'' @ apos @ '');'']"

definition MoviesResourceHandler :: ResourceHandler where
  "MoviesResourceHandler =
     \<lparr>h_source = ''movies'',
      h_createStatement = ''create table if not exists movies (movie_id integer primary key asc autoincrement, movie_name text not null, movie_imdbid text, movie_coverurl text);'',
      h_sanitizedKey = movies_key, h_listStatement = movies_view @ '';'', h_viewStatement = movies_view,
      h_testData = movies_testData\<rparr>"

definition moviesources_key :: "string \<Rightarrow> string option" where
  "moviesources_key key =
     (if key = ''id'' then Some ''msrc_id''
      else if key = ''url'' then Some ''msrc_url''
      else if key = ''movie'' then Some ''movie_id''
      else None)"

definition moviesources_view :: string where
  "moviesources_view = ''select msrc_id as id, msrc_url as url, movie_id as movie from moviesources''"

definition moviesources_testData :: "string list" where
  "moviesources_testData =
     [''insert into moviesources(msrc_id,movie_id,msrc_url) values(1, 1, '' @ apos @ ''http://movies.apple.com/media/us/iphone/2010/ads/apple-iphone4-meet_her-us-20100711_r848-9cie.mov'' @ apos @ '');'',
      ''insert into moviesources(msrc_id,movie_id,msrc_url) values(2, 2, '' @ apos @ ''http://movies.apple.com/media/us/iphone/2010/ads/apple-iphone4-meet_her-us-20100711_r848-9cie.mov'' @ apos @ '');'']"

definition MovieSourcesResourceHandler :: ResourceHandler where
  "MovieSourcesResourceHandler =
     \<lparr>h_source = ''movieSources'',
      h_createStatement = ''create table if not exists moviesources (msrc_id integer primary key asc autoincrement, movie_id integer not null, msrc_url text, foreign key(movie_id) references movies(movie_id));'',
      h_sanitizedKey = moviesources_key, h_listStatement = moviesources_view @ '';'', h_viewStatement = moviesources_view,
      h_testData = moviesources_testData\<rparr>"

definition tvshows_key :: "string \<Rightarrow> string option" where
  "tvshows_key key =
     (if key = ''id'' then Some ''show_id''
      else if key = ''coverUrl'' then Some ''show_coverurl''
      else if key = ''name'' then Some ''show_name''
      else if key = ''imdbId'' then Some ''show_imdbid''
      else None)"

definition tvshows_view :: string where
  "tvshows_view = ''select show_id as id, show_imdbid as imdbId, show_name as name, show_coverurl as coverUrl from tvshows''"

definition tvshows_testData :: "string list" where
  "tvshows_testData =
     [''insert into tvshows (show_id,show_name,show_imdbid,show_coverurl) values (1, '' @ apos @ ''Desperate Housewives'' @ apos @ '', '' @ apos @ ''tt0410975'' @ apos @ '', '' @ apos @ ''http://getvideoartwork.com/gallery/main.php?g2_view=core.DownloadItem&g2_itemId=8131&g2_serialNumber=2'' @ apos @ '');'',
      ''insert into tvshows (show_id,show_name,show_imdbid,show_coverurl) values (2, '' @ apos @ ''Sex and the City'' @ apos @ '', '' @ apos @ ''tt0159206'' @ apos @ '', '' @ apos @ ''http://getvideoartwork.com/gallery/main.php?g2_view=core.DownloadItem&g2_itemId=70729&g2_serialNumber=1'' @ apos @ '');'']"

definition TVShowsResourceHandler :: ResourceHandler where
  "TVShowsResourceHandler =
     \<lparr>h_source = ''tvshows'',
      h_createStatement = ''create table if not exists tvshows (show_id integer primary key asc autoincrement, show_name text not null, show_imdbid text, show_coverurl text);'',
      h_sanitizedKey = tvshows_key, h_listStatement = tvshows_view @ '';'', h_viewStatement = tvshows_view,
      h_testData = tvshows_testData\<rparr>"

definition seasons_key :: "string \<Rightarrow> string option" where
  "seasons_key key =
     (if key = ''id'' then Some ''season_id''
      else if key = ''number'' then Some ''season_number''
      else if key = ''coverUrl'' then Some ''season_coverurl''
      else if key = ''tvShow'' then Some ''tvshow_id''
      else None)"

definition seasons_view :: string where
  "seasons_view = ''select season_id as id, season_number as number, season_coverurl as coverUrl, tvshow_id as tvShow from seasons''"

definition seasons_testData :: "string list" where
  "seasons_testData =
     [''insert into seasons(season_id,season_number,season_coverurl,tvshow_id) values (1,1,'' @ apos @ ''http://getvideoartwork.com/gallery/main.php?g2_view=core.DownloadItem&g2_itemId=8131&g2_serialNumber=2'' @ apos @ '',1);'',
      ''insert into seasons(season_id,season_number,season_coverurl,tvshow_id) values (2,2,'' @ apos @ ''http://getvideoartwork.com/gallery/main.php?g2_view=core.DownloadItem&g2_itemId=8131&g2_serialNumber=2'' @ apos @ '',1);'',
      ''insert into seasons(season_id,season_number,season_coverurl,tvshow_id) values (3,3,'' @ apos @ ''http://getvideoartwork.com/gallery/main.php?g2_view=core.DownloadItem&g2_itemId=8131&g2_serialNumber=3'' @ apos @ '',2);'',
      ''insert into seasons(season_id,season_number,season_coverurl,tvshow_id) values (4,4,'' @ apos @ ''http://getvideoartwork.com/gallery/main.php?g2_view=core.DownloadItem&g2_itemId=8131&g2_serialNumber=2'' @ apos @ '',2);'']"

definition SeasonsResourceHandler :: ResourceHandler where
  "SeasonsResourceHandler =
     \<lparr>h_source = ''seasons'',
      h_createStatement = ''create table if not exists seasons (season_id integer primary key asc autoincrement, season_number integer not null, season_coverurl text, tvshow_id integer not null, foreign key(tvshow_id) references tvshows(show_id), unique (season_number,tvshow_id));'',
      h_sanitizedKey = seasons_key, h_listStatement = seasons_view @ '';'', h_viewStatement = seasons_view,
      h_testData = seasons_testData\<rparr>"

definition episodes_key :: "string \<Rightarrow> string option" where
  "episodes_key key =
     (if key = ''id'' then Some ''episode_id''
      else if key = ''number'' then Some ''episode_number''
      else if key = ''tvShow'' then Some ''tvshow_id''
      else if key = ''season'' then Some ''season_id''
      else None)"

definition episodes_view :: string where
  "episodes_view = ''select episode_id as id, episode_name as name, episode_imdbid as imdbId, episode_number as number, season_id as season, tvshow_id as tvShow from episodes''"

definition episodes_testData :: "string list" where
  "episodes_testData =
     [''insert into episodes(episode_id,episode_number,episode_name,tvshow_id,season_id) values (1,1,'' @ apos @ ''Pilot'' @ apos @ '',1,1);'',
      ''insert into episodes(episode_id,episode_number,episode_name,tvshow_id,season_id) values (2,2,'' @ apos @ ''The story begins!'' @ apos @ '',1,1);'',
      ''insert into episodes(episode_id,episode_number,episode_name,tvshow_id,season_id) values (3,1,'' @ apos @ ''The story continues!'' @ apos @ '',2,1);'',
      ''insert into episodes(episode_id,episode_number,episode_name,tvshow_id,season_id) values (4,1,'' @ apos @ ''Pilot!'' @ apos @ '',3,2);'']"

definition EpisodesResourceHandler :: ResourceHandler where
  "EpisodesResourceHandler =
     \<lparr>h_source = ''episodes'',
      h_createStatement = ''create table if not exists episodes (episode_id integer primary key asc autoincrement, episode_number integer not null, tvshow_id integer not null, season_id integer not null, episode_name text, episode_imdbid text, episode_imageurl text, foreign key(season_id) references seasons(season_id), foreign key(tvshow_id) references tvshows(tvshow_id), unique (episode_number,season_id,tvshow_id));'',
      h_sanitizedKey = episodes_key, h_listStatement = episodes_view @ '';'', h_viewStatement = episodes_view,
      h_testData = episodes_testData\<rparr>"

end
