(* ===== verification/File_Service.thy ===== *)
theory File_Service
  imports Disk_File Http_Auth Resource_Handler
begin

text \<open>
  The web service that serves files: \<open>FileService.hpp\<close> and \<open>FileService.cpp\<close>, and \<open>getRelativeResource\<close> of
  \<open>WebService.hpp\<close>. A request either finds its file in the cache or on the disk; \<open>POST\<close>, \<open>PUT\<close> and \<open>DELETE\<close> change
  the disk when the service is writable. The mutex of the cache and logging are left out; an exception
  of the file system is thrown on.
\<close>

section \<open>Constants\<close>

definition HEADER_IF_MODIFIED_SINCE :: string where "HEADER_IF_MODIFIED_SINCE = ''If-Modified-Since''"
definition RESPONSE_MESSAGE_CREATED :: string where "RESPONSE_MESSAGE_CREATED = ''Created''"
definition RESPONSE_MESSAGE_NOT_MODIFIED :: string where "RESPONSE_MESSAGE_NOT_MODIFIED = ''Not Modified''"
definition RESPONSE_CODE_CREATED :: "32 word" where "RESPONSE_CODE_CREATED = 201"
definition RESPONSE_CODE_NOT_MODIFIED :: "32 word" where "RESPONSE_CODE_NOT_MODIFIED = 304"

definition DEFAULT_MIME_TYPE :: string where "DEFAULT_MIME_TYPE = ''application/octet-stream''"

definition mime_types :: "(string \<times> string) list" where
  "mime_types = [(''js'', ''text/javascript''), (''txt'', ''text/plain''), (''xml'', ''text/xml''), (''css'', ''text/css''),
     (''htm'', ''text/html''), (''html'', ''text/html''), (''xhtml'', ''text/html''), (''gif'', ''image/gif''),
     (''png'', ''image/png''), (''jpg'', ''image/jpeg''), (''jpeg'', ''image/jpeg'')]"

text \<open>What follows the last dot, or the whole name when there is none.\<close>

definition extension_of :: "string \<Rightarrow> string" where
  "extension_of file_name = map tolower (rev (takeWhile (\<lambda>c. c \<noteq> CHR ''.'') (rev file_name)))"

definition findMIMEType :: "string \<Rightarrow> string" where
  "findMIMEType file_name = (case map_of mime_types (extension_of file_name) of None \<Rightarrow> DEFAULT_MIME_TYPE | Some t \<Rightarrow> t)"

section \<open>Exceptions\<close>

text \<open>What the exceptions say; \<open>FileReadException\<close> is \<open>file_read_error\<close>.\<close>

definition DirectoryNotFoundException :: "string \<Rightarrow> string" where "DirectoryNotFoundException v = ''FileService directory not found: '' @ v"
definition NotADirectoryException :: "string \<Rightarrow> string" where "NotADirectoryException v = ''FileService option is not a directory: '' @ v"
definition FileNotFoundException :: "string \<Rightarrow> string" where "FileNotFoundException v = ''FileService file not found: '' @ v"
definition NotAFileException :: "string \<Rightarrow> string" where "NotAFileException v = ''FileService option is not a file: '' @ v"
definition InvalidCacheException :: "string \<Rightarrow> string" where "InvalidCacheException v = ''FileService invalid value for cache option: '' @ v"
definition InvalidScanException :: "string \<Rightarrow> string" where "InvalidScanException v = ''FileService invalid value for scan option: '' @ v"
definition UndefinedResponseException :: "string \<Rightarrow> string" where "UndefinedResponseException v = ''FileService has an undefined response: '' @ v"
definition UnknownOptionException :: "string \<Rightarrow> string" where "UnknownOptionException v = ''Option not recognized by web service: '' @ v"

definition InvalidOptionValueException :: "string \<Rightarrow> string \<Rightarrow> string" where
  "InvalidOptionValueException option_name v = ''FileService invalid value for '' @ option_name @ '' option: '' @ v"

section \<open>The service\<close>

text \<open>The cache is a hash table whose order plays no part. An empty path is an option that was not set.\<close>

record FileService =
  fs_resource :: string
  fs_directory :: string
  fs_file :: string
  fs_cache_map :: "(string, DiskFile) std_map"
  fs_cache_setting :: nat
  fs_scan_setting :: nat
  fs_max_cache_size :: nat
  fs_max_chunk_size :: nat
  fs_writable :: bool

definition FileService_init :: FileService where
  "FileService_init = \<lparr>fs_resource = [], fs_directory = [], fs_file = [], fs_cache_map = [], fs_cache_setting = 1,
     fs_scan_setting = 0, fs_max_cache_size = 0, fs_max_chunk_size = 0, fs_writable = False\<rparr>"

definition getRelativeResource :: "string \<Rightarrow> string \<Rightarrow> string" where
  "getRelativeResource resource requested =
     (if length requested \<le> length resource then [] else url_decode (drop (length resource + 1) requested))"

definition check_path :: "(string + bool) \<Rightarrow> (string + bool) \<Rightarrow> bool \<Rightarrow> string \<Rightarrow> string \<Rightarrow> string + unit" where
  "check_path exists_result directory_result want_directory missing wrong =
     bindE exists_result (\<lambda>e. if \<not> e then Inl missing
       else bindE directory_result (\<lambda>d. if d \<noteq> want_directory then Inl wrong else Inr ()))"

text \<open>The path is set before it is checked and stays when the check throws.\<close>

definition file_setOption :: "boost_lib \<Rightarrow> 'fs fs_lib \<Rightarrow> 'fs \<Rightarrow> string \<Rightarrow> string \<Rightarrow> FileService \<Rightarrow> (string + unit) \<times> FileService" where
  "file_setOption lib fl fs name val sv =
     (if name = ''directory'' then
        (check_path (fs_exists fl fs val) (fs_is_directory fl fs val) True
           (DirectoryNotFoundException val) (NotADirectoryException val),
         sv\<lparr>fs_directory := val\<rparr>)
      else if name = ''file'' then
        (check_path (fs_exists fl fs val) (fs_is_directory fl fs val) False
           (FileNotFoundException val) (NotAFileException val),
         sv\<lparr>fs_file := val\<rparr>)
      else if name = ''cache'' then
        (if val = ''0'' then (Inr (), sv\<lparr>fs_cache_setting := 0\<rparr>)
         else if val = ''1'' then (Inr (), sv\<lparr>fs_cache_setting := 1\<rparr>)
         else if val = ''2'' then (Inr (), sv\<lparr>fs_cache_setting := 2\<rparr>)
         else (Inl (InvalidCacheException val), sv))
      else if name = ''scan'' then
        (if val = ''0'' then (Inr (), sv\<lparr>fs_scan_setting := 0\<rparr>)
         else if val = ''1'' then (Inr (), sv\<lparr>fs_scan_setting := 1\<rparr>)
         else if val = ''2'' then (Inr (), sv\<lparr>fs_scan_setting := 2\<rparr>)
         else if val = ''3'' then (Inr (), sv\<lparr>fs_scan_setting := 3\<rparr>)
         else (Inl (InvalidScanException val), sv))
      else if name = ''max_chunk_size'' then
        (case lexical_cast_size lib val of
           None \<Rightarrow> (Inl ''bad lexical cast: source type value could not be interpreted as target'', sv)
         | Some n \<Rightarrow> (Inr (), sv\<lparr>fs_max_chunk_size := n\<rparr>))
      else if name = ''writable'' then
        (if val = ''true'' then (Inr (), sv\<lparr>fs_writable := True\<rparr>)
         else if val = ''false'' then (Inr (), sv\<lparr>fs_writable := False\<rparr>)
         else (Inl (InvalidOptionValueException ''writable'' val), sv))
      else (Inl (UnknownOptionException name), sv))"

section \<open>Starting and stopping\<close>

text \<open>An entry is not inserted when its file cannot be read; an exception of \<open>update\<close> is thrown on.\<close>

definition addCacheEntry :: "'fs fs_lib \<Rightarrow> 'fs \<Rightarrow> string \<Rightarrow> string \<Rightarrow> bool \<Rightarrow> FileService \<Rightarrow> (string + bool) \<times> FileService" where
  "addCacheEntry fl fs relative_path file_path placeholder sv =
     (let entry = DiskFile_for file_path (findMIMEType (path_leaf fl file_path));
          insert_entry = (\<lambda>e. (Inr (map_find relative_path (fs_cache_map sv) = None),
             sv\<lparr>fs_cache_map := map_insert relative_path e (fs_cache_map sv)\<rparr>))
      in if placeholder then insert_entry entry
         else case update fl fs entry of
                (Inl e, _) \<Rightarrow> (Inl e, sv)
              | (Inr _, entry') \<Rightarrow>
                  if fs_max_cache_size sv = 0 \<or> f_size entry' \<le> fs_max_cache_size sv then
                    (case read_file fl fs entry' of
                       (Inl e, _) \<Rightarrow> (Inr False, sv)
                     | (Inr _, entry'') \<Rightarrow> insert_entry entry'')
                  else insert_entry entry')"

text \<open>The recursion into directories, with fuel for their depth: \<open>None\<close> when it runs out.\<close>

fun scan_entries :: "(string \<Rightarrow> FileService \<Rightarrow> ((string + unit) \<times> FileService) option) \<Rightarrow> 'fs fs_lib \<Rightarrow> 'fs \<Rightarrow> string list \<Rightarrow> FileService
    \<Rightarrow> ((string + unit) \<times> FileService) option" where
  "scan_entries rec fl fs [] sv = Some (Inr (), sv)"
| "scan_entries rec fl fs (p # ps) sv =
     (case fs_is_directory fl fs p of
        Inl e \<Rightarrow> Some (Inl e, sv)
      | Inr True \<Rightarrow>
          (case rec p sv of
             None \<Rightarrow> None
           | Some (Inl e, sv') \<Rightarrow> Some (Inl e, sv')
           | Some (Inr _, sv') \<Rightarrow> scan_entries rec fl fs ps sv')
      | Inr False \<Rightarrow>
          if length p < length (fs_directory sv) + 1 then Some (Inl ''basic_string::substr'', sv)
          else
            (case addCacheEntry fl fs (drop (length (fs_directory sv) + 1) p) p (fs_scan_setting sv = 1) sv of
               (Inl e, sv') \<Rightarrow> Some (Inl e, sv')
             | (Inr _, sv') \<Rightarrow> scan_entries rec fl fs ps sv'))"

fun scanDirectory :: "nat \<Rightarrow> 'fs fs_lib \<Rightarrow> 'fs \<Rightarrow> string \<Rightarrow> FileService \<Rightarrow> ((string + unit) \<times> FileService) option" where
  "scanDirectory 0 fl fs dir_path sv = None"
| "scanDirectory (Suc n) fl fs dir_path sv =
     (case fs_entries fl fs dir_path of
        Inl e \<Rightarrow> Some (Inl e, sv)
      | Inr ps \<Rightarrow> scan_entries (scanDirectory n fl fs) fl fs ps sv)"

definition file_start :: "nat \<Rightarrow> 'fs fs_lib \<Rightarrow> 'fs \<Rightarrow> FileService \<Rightarrow> ((string + unit) \<times> FileService) option" where
  "file_start n fl fs sv =
     (if fs_scan_setting sv = 0 then Some (Inr (), sv)
      else
        let sv1 = (if fs_cache_setting sv = 0 \<and> fs_scan_setting sv > 1 then sv\<lparr>fs_cache_setting := 1\<rparr> else sv)
        in case (if fs_file sv1 \<noteq> [] then addCacheEntry fl fs [] (fs_file sv1) (fs_scan_setting sv1 = 1) sv1 else (Inr True, sv1)) of
             (Inl e, sv2) \<Rightarrow> Some (Inl e, sv2)
           | (Inr _, sv2) \<Rightarrow> if fs_directory sv2 \<noteq> [] then scanDirectory n fl fs (fs_directory sv2) sv2 else Some (Inr (), sv2))"

definition file_stop :: "FileService \<Rightarrow> FileService" where
  "file_stop sv = sv\<lparr>fs_cache_map := []\<rparr>"

section \<open>Finding the file\<close>

datatype ResponseType = RESPONSE_UNDEFINED | RESPONSE_OK | RESPONSE_HEAD_OK | RESPONSE_NOT_FOUND | RESPONSE_NOT_MODIFIED

definition response_type_for :: "bool \<Rightarrow> string \<Rightarrow> DiskFile \<Rightarrow> ResponseType" where
  "response_type_for head if_modified_since f =
     (if f_last_modified_string f = if_modified_since then RESPONSE_NOT_MODIFIED
      else if head then RESPONSE_HEAD_OK else RESPONSE_OK)"

text \<open>What happens to the entry of a request when the cache is enabled.\<close>

definition refresh_entry :: "'fs fs_lib \<Rightarrow> 'fs \<Rightarrow> FileService \<Rightarrow> DiskFile \<Rightarrow> (string + unit) \<times> DiskFile" where
  "refresh_entry fl fs sv entry =
     (if f_last_modified entry = 0 then
        (case update fl fs entry of
           (Inl e, entry') \<Rightarrow> (Inl e, entry')
         | (Inr _, entry') \<Rightarrow>
             if fs_max_cache_size sv = 0 \<or> f_size entry' \<le> fs_max_cache_size sv then read_file fl fs entry'
             else (Inr (), resetFileContent 0 entry'))
      else if fs_cache_setting sv = 1 then
        (case checkUpdated fl fs entry of (r, entry') \<Rightarrow> (bindE r (\<lambda>_. Inr ()), entry'))
      else (Inr (), entry))"

definition cached_response :: "'fs fs_lib \<Rightarrow> 'fs \<Rightarrow> bool \<Rightarrow> string \<Rightarrow> string \<Rightarrow> FileService
    \<Rightarrow> (string + ResponseType \<times> DiskFile) \<times> FileService" where
  "cached_response fl fs head if_modified_since relative_path sv =
     (if fs_cache_setting sv > 0 \<or> fs_scan_setting sv > 0 then
        (case map_find relative_path (fs_cache_map sv) of
           None \<Rightarrow>
             (Inr (if fs_scan_setting sv = 1 \<or> fs_scan_setting sv = 3 then RESPONSE_NOT_FOUND else RESPONSE_UNDEFINED, DiskFile_init), sv)
         | Some entry \<Rightarrow>
             if fs_cache_setting sv = 0 then
               (case update fl fs (DiskFile_for (f_path entry) (f_mime_type entry)) of
                  (Inl e, _) \<Rightarrow> (Inl e, sv)
                | (Inr _, f) \<Rightarrow> (Inr (response_type_for head if_modified_since f, f), sv))
             else
               (case refresh_entry fl fs sv entry of
                  (r, entry') \<Rightarrow>
                    (bindE r (\<lambda>_. Inr (response_type_for head if_modified_since entry', entry')),
                     sv\<lparr>fs_cache_map := map_assign relative_path entry' (fs_cache_map sv)\<rparr>)))
      else (Inr (RESPONSE_UNDEFINED, DiskFile_init), sv))"

text \<open>A file that is not in the cache.\<close>

definition fresh_response :: "'fs fs_lib \<Rightarrow> 'fs \<Rightarrow> bool \<Rightarrow> string \<Rightarrow> string \<Rightarrow> string \<Rightarrow> FileService
    \<Rightarrow> (string + ResponseType \<times> DiskFile) \<times> FileService" where
  "fresh_response fl fs head if_modified_since relative_path file_path sv =
     (case fs_exists fl fs file_path of
        Inl e \<Rightarrow> (Inl e, sv)
      | Inr False \<Rightarrow> (Inr (RESPONSE_NOT_FOUND, DiskFile_init), sv)
      | Inr True \<Rightarrow>
          (case update fl fs (DiskFile_for file_path (findMIMEType (path_leaf fl file_path))) of
             (Inl e, _) \<Rightarrow> (Inl e, sv)
           | (Inr _, f) \<Rightarrow>
               if response_type_for head if_modified_since f = RESPONSE_OK \<and> fs_cache_setting sv \<noteq> 0 then
                 (case (if fs_max_cache_size sv = 0 \<or> f_size f \<le> fs_max_cache_size sv then read_file fl fs f else (Inr (), f)) of
                    (Inl e, _) \<Rightarrow> (Inl e, sv)
                  | (Inr _, f') \<Rightarrow>
                      (Inr (RESPONSE_OK, f'), sv\<lparr>fs_cache_map := map_insert relative_path f' (fs_cache_map sv)\<rparr>))
               else (Inr (response_type_for head if_modified_since f, f), sv)))"

definition find_response :: "'fs fs_lib \<Rightarrow> 'fs \<Rightarrow> bool \<Rightarrow> string \<Rightarrow> string \<Rightarrow> string \<Rightarrow> FileService
    \<Rightarrow> (string + ResponseType \<times> DiskFile) \<times> FileService" where
  "find_response fl fs head if_modified_since relative_path file_path sv =
     (case cached_response fl fs head if_modified_since relative_path sv of
        (Inr (RESPONSE_UNDEFINED, _), sv') \<Rightarrow> fresh_response fl fs head if_modified_since relative_path file_path sv'
      | r \<Rightarrow> r)"

section \<open>Requests\<close>

record 'fs file_world =
  fw_service :: FileService
  fw_fs :: 'fs

definition lift_string :: "string + 'a \<Rightarrow> ('w, 'a) action" where
  "lift_string r c = (case r of Inl e \<Rightarrow> (Inl (Std_exception e), c) | Inr a \<Rightarrow> (Inr a, c))"

definition ask :: "('fs \<Rightarrow> string + 'a) \<Rightarrow> ('fs file_world, 'a) action" where
  "ask q c = lift_string (q (fw_fs (x_world c))) c"

definition change_fs :: "('fs \<Rightarrow> (string + 'a) \<times> 'fs) \<Rightarrow> ('fs file_world, string + 'a) action" where
  "change_fs f c = (case f (fw_fs (x_world c)) of (r, fs) \<Rightarrow> (Inr r, c\<lparr>x_world := (x_world c)\<lparr>fw_fs := fs\<rparr>\<rparr>))"

definition with_service :: "('fs \<Rightarrow> FileService \<Rightarrow> (string + 'a) \<times> FileService) \<Rightarrow> ('fs file_world, 'a) action" where
  "with_service f c =
     (case f (fw_fs (x_world c)) (fw_service (x_world c)) of
        (r, sv) \<Rightarrow> lift_string r (c\<lparr>x_world := (x_world c)\<lparr>fw_service := sv\<rparr>\<rparr>))"

definition page_start :: "string \<Rightarrow> string \<Rightarrow> string \<Rightarrow> string" where
  "page_start title heading lead =
     ''<html><head>'' @ NEWLINE @ ''<title>'' @ title @ ''</title>'' @ NEWLINE @ ''</head><body>'' @ NEWLINE
     @ ''<h1>'' @ heading @ ''</h1>'' @ NEWLINE @ ''<p>'' @ lead"

definition page_finish :: "string \<Rightarrow> string" where
  "page_finish trailer = trailer @ ''</p>'' @ NEWLINE @ ''</body></html>'' @ NEWLINE"

definition page :: "string \<Rightarrow> string \<Rightarrow> string \<Rightarrow> HTTPWriter \<Rightarrow> HTTPWriter" where
  "page beginning subject ending w = writeNoCopy ending (writer_write subject (writeNoCopy beginning w))"

definition unless_head :: "HTTPRequest_part \<Rightarrow> (HTTPWriter \<Rightarrow> HTTPWriter) \<Rightarrow> HTTPWriter \<Rightarrow> HTTPWriter" where
  "unless_head r f w = (if m_method r \<noteq> REQUEST_METHOD_HEAD then f w else w)"

definition sendNotFoundResponse :: "boost_lib \<Rightarrow> HTTPRequest_part \<Rightarrow> 'w handler" where
  "sendNotFoundResponse lib r =
     respond lib RESPONSE_CODE_NOT_FOUND RESPONSE_MESSAGE_NOT_FOUND
       (unless_head r (page (page_start ''404 Not Found'' ''Not Found'' ''The requested URL '') (m_resource r)
          (page_finish '' was not found on this server.'')))"

definition sendForbidden :: "boost_lib \<Rightarrow> HTTPRequest_part \<Rightarrow> string \<Rightarrow> 'w handler" where
  "sendForbidden lib r reason =
     respond lib RESPONSE_CODE_FORBIDDEN RESPONSE_MESSAGE_FORBIDDEN
       (unless_head r (page (page_start ''403 Forbidden'' ''Forbidden'' ''The requested URL '') (m_resource r) (page_finish reason)))"

definition respond_method :: "boost_lib \<Rightarrow> HTTPRequest_part \<Rightarrow> 32 word \<Rightarrow> string \<Rightarrow> string \<Rightarrow> string \<Rightarrow> string
    \<Rightarrow> (HTTPWriter \<Rightarrow> HTTPWriter) \<Rightarrow> 'w handler" where
  "respond_method lib r n msg title heading reason f =
     respond lib n msg (\<lambda>w. f (page (page_start title heading ''The requested method '') (m_method r) (page_finish reason) w))"

text \<open>\<open>GET\<close> and \<open>HEAD\<close>. The result is the sender whose write is pending, if there is one.\<close>

definition send_headers_only :: "boost_lib \<Rightarrow> 32 word \<Rightarrow> string \<Rightarrow> DiskFile \<Rightarrow> 'w handler" where
  "send_headers_only lib n msg f =
     respond lib n msg (with_response (\<lambda>resp. addHeader HEADER_LAST_MODIFIED (f_last_modified_string f)
       (setContentType (f_mime_type f) resp)))"

definition serve_file :: "boost_lib \<Rightarrow> 'fs fs_lib \<Rightarrow> HTTPRequest_part \<Rightarrow> string \<Rightarrow> string \<Rightarrow> ('fs file_world, DiskFileSender option) action" where
  "serve_file lib fl r relative_path file_path c =
     bindA (with_service (\<lambda>fs sv. find_response fl fs (m_method r = REQUEST_METHOD_HEAD)
              (getHeader HEADER_IF_MODIFIED_SINCE (x_request c)) relative_path file_path sv))
       (\<lambda>(response_type, f).
         case response_type of
           RESPONSE_OK \<Rightarrow>
             (\<lambda>c. bindA (lift_fault (DiskFileSender_create f (x_request c) (fs_max_chunk_size (fw_service (x_world c)))))
                (\<lambda>s. sender_send lib fl (fw_fs (x_world c)) s) c)
         | RESPONSE_NOT_FOUND \<Rightarrow> bindA (sendNotFoundResponse lib r) (\<lambda>_. returnA None)
         | RESPONSE_NOT_MODIFIED \<Rightarrow>
             bindA (send_headers_only lib RESPONSE_CODE_NOT_MODIFIED RESPONSE_MESSAGE_NOT_MODIFIED f) (\<lambda>_. returnA None)
         | RESPONSE_HEAD_OK \<Rightarrow>
             bindA (send_headers_only lib RESPONSE_CODE_OK RESPONSE_MESSAGE_OK f) (\<lambda>_. returnA None)
         | RESPONSE_UNDEFINED \<Rightarrow>
             lift_string (Inl (UndefinedResponseException (m_resource r)))) c"

text \<open>\<open>POST\<close>, \<open>PUT\<close> and \<open>DELETE\<close>, with a writer that is created first.\<close>

definition finish_writer :: "boost_lib \<Rightarrow> 32 word \<Rightarrow> string \<Rightarrow> HTTPWriter \<Rightarrow> 'w handler" where
  "finish_writer lib n msg w = bindA (lift_fault (set_status n msg w)) (send_writer lib)"

definition write_file :: "boost_lib \<Rightarrow> 'fs fs_lib \<Rightarrow> HTTPRequest_part \<Rightarrow> string \<Rightarrow> 32 word \<Rightarrow> string \<Rightarrow> HTTPWriter \<Rightarrow> ('fs file_world, unit) action" where
  "write_file lib fl r file_path n msg w c =
     bindA (lift_fault (content_bytes (x_request c))) (\<lambda>data.
       bindA (change_fs (\<lambda>fs. (Inr (), fs_write fl (m_method r = REQUEST_METHOD_POST) file_path data fs))) (\<lambda>_.
         bindA (ask (\<lambda>fs. fs_exists fl fs file_path)) (\<lambda>written.
           if written then finish_writer lib n msg w
           else finish_writer lib RESPONSE_CODE_SERVER_ERROR RESPONSE_MESSAGE_SERVER_ERROR
             (page (page_start ''500 Server Error'' ''Server Error'' ''Error writing to '') (m_resource r) (page_finish ''.'') w)))) c"

definition put_file :: "boost_lib \<Rightarrow> 'fs fs_lib \<Rightarrow> HTTPRequest_part \<Rightarrow> string \<Rightarrow> HTTPWriter \<Rightarrow> ('fs file_world, unit) action" where
  "put_file lib fl r file_path w =
     bindA (ask (\<lambda>fs. fs_exists fl fs file_path)) (\<lambda>found.
       if found then write_file lib fl r file_path RESPONSE_CODE_NO_CONTENT RESPONSE_MESSAGE_NO_CONTENT w
       else
         bindA (ask (\<lambda>fs. fs_exists fl fs (path_branch fl file_path))) (\<lambda>has_directory.
           if \<not> has_directory then
             finish_writer lib RESPONSE_CODE_NOT_FOUND RESPONSE_MESSAGE_NOT_FOUND
               (page (page_start ''404 Not Found'' ''Not Found'' ''The directory of the requested URL '') (m_resource r)
                 (page_finish '' was not found on this server.'') w)
           else
             write_file lib fl r file_path RESPONSE_CODE_CREATED RESPONSE_MESSAGE_CREATED
               (page (page_start ''201 Created'' ''Created'' []) (m_resource r) (page_finish [])
                 (with_response (addHeader HEADER_LOCATION (m_resource r)) w))))"

text \<open>\<open>catch (...)\<close>, which a fault of the machine does not reach. A writer that lost its connection is unchanged, so the
  handler starts from the same writer.\<close>

definition catch_all :: "('w, 'a) action \<Rightarrow> ('w, 'a) action \<Rightarrow> ('w, 'a) action" where
  "catch_all m handler c =
     (case m c of
        (Inl (Abort f), c') \<Rightarrow> (Inl (Abort f), c')
      | (Inl _, c') \<Rightarrow> handler c'
      | (Inr a, c') \<Rightarrow> (Inr a, c'))"

definition delete_file :: "boost_lib \<Rightarrow> 'fs fs_lib \<Rightarrow> HTTPRequest_part \<Rightarrow> string \<Rightarrow> HTTPWriter \<Rightarrow> ('fs file_world, unit) action" where
  "delete_file lib fl r file_path w =
     bindA (ask (\<lambda>fs. fs_exists fl fs file_path)) (\<lambda>found.
       if \<not> found then sendNotFoundResponse lib r
       else
         catch_all
           (bindA (change_fs (fs_remove fl file_path)) (\<lambda>removed.
              bindA (lift_string removed) (\<lambda>_. finish_writer lib RESPONSE_CODE_NO_CONTENT RESPONSE_MESSAGE_NO_CONTENT w)))
           (finish_writer lib RESPONSE_CODE_SERVER_ERROR RESPONSE_MESSAGE_SERVER_ERROR
              (page (page_start ''500 Server Error'' ''Server Error'' ''Could not delete '') (m_resource r) (page_finish ''.'') w)))"

definition modify_file :: "boost_lib \<Rightarrow> 'fs fs_lib \<Rightarrow> HTTPRequest_part \<Rightarrow> string \<Rightarrow> ('fs file_world, unit) action" where
  "modify_file lib fl r file_path c =
     (if \<not> fs_writable (fw_service (x_world c)) then
        respond_method lib r RESPONSE_CODE_METHOD_NOT_ALLOWED RESPONSE_MESSAGE_METHOD_NOT_ALLOWED
          ''405 Method Not Allowed'' ''Not Allowed'' '' is not allowed on this server.''
          (with_response (addHeader ''Allow'' ''GET, HEAD'')) c
      else
        bindA (lift_fault (HTTPResponseWriter_create (x_request c)))
          (if m_method r = REQUEST_METHOD_DELETE then delete_file lib fl r file_path else put_file lib fl r file_path) c)"

text \<open>The path a request asks for, \<open>None\<close> when the option it needs is not set.\<close>

definition requested_path :: "'fs fs_lib \<Rightarrow> FileService \<Rightarrow> string \<Rightarrow> string option" where
  "requested_path fl sv relative_path =
     (if relative_path = [] then (if fs_file sv = [] then None else Some (path_normalize fl (fs_file sv)))
      else if fs_directory sv = [] then None
      else Some (path_normalize fl (path_append fl (fs_directory sv) relative_path)))"

definition inside_directory :: "FileService \<Rightarrow> string \<Rightarrow> bool" where
  "inside_directory sv file_path \<longleftrightarrow> take (length (fs_directory sv)) file_path = fs_directory sv"

definition file_service :: "boost_lib \<Rightarrow> 'fs fs_lib \<Rightarrow> ('fs file_world, DiskFileSender option) action" where
  "file_service lib fl c =
     bindA (lift_fault (as_request (x_request c))) (\<lambda>r.
       let sv = fw_service (x_world c);
           relative_path = getRelativeResource (fs_resource sv) (m_resource r)
       in case requested_path fl sv relative_path of
            None \<Rightarrow> bindA (sendNotFoundResponse lib r) (\<lambda>_. returnA None)
          | Some file_path \<Rightarrow>
              if \<not> inside_directory sv file_path then
                bindA (sendForbidden lib r '' is not in the configured directory.'') (\<lambda>_. returnA None)
              else
                bindA (ask (\<lambda>fs. fs_is_directory fl fs file_path)) (\<lambda>directory.
                  if directory then bindA (sendForbidden lib r '' is a directory.'') (\<lambda>_. returnA None)
                  else if m_method r = REQUEST_METHOD_GET \<or> m_method r = REQUEST_METHOD_HEAD then
                    serve_file lib fl r relative_path file_path
                  else if m_method r = REQUEST_METHOD_POST \<or> m_method r = REQUEST_METHOD_PUT \<or> m_method r = REQUEST_METHOD_DELETE then
                    bindA (modify_file lib fl r file_path) (\<lambda>_. returnA None)
                  else
                    bindA (respond_method lib r RESPONSE_CODE_NOT_IMPLEMENTED RESPONSE_MESSAGE_NOT_IMPLEMENTED
                             ''501 Not Implemented'' ''Not Implemented'' '' is not implemented on this server.'' (\<lambda>w. w))
                      (\<lambda>_. returnA None))) c"

end
