(* ===== verification/File_Service_Properties.thy ===== *)
theory File_Service_Properties
  imports File_Service
begin

text \<open>
  What the file service guarantees: it reads and writes only below its directory or its file, which does
  not keep it from sibling directories with a longer name, and its cache delivers what is on the disk.
\<close>

section \<open>Frames\<close>

lemma update_frame: "update fl fs f = (r, f') \<Longrightarrow> f_path f' = f_path f \<and> f_content f' = f_content f \<and> f_mime_type f' = f_mime_type f"
  by (auto simp: update_def Let_def split: sum.splits)

lemma read_file_frame:
  "read_file fl fs f = (r, f') \<Longrightarrow> f_path f' = f_path f \<and> f_size f' = f_size f \<and> f_last_modified f' = f_last_modified f \<and>
     f_last_modified_string f' = f_last_modified_string f"
  by (auto simp: read_file_def Let_def split: option.splits)

lemma checkUpdated_path: "checkUpdated fl fs f = (r, f') \<Longrightarrow> f_path f' = f_path f"
  by (auto simp: checkUpdated_def split: sum.splits if_splits prod.splits dest!: read_file_frame)

lemma refresh_entry_path: "refresh_entry fl fs sv e = (r, e') \<Longrightarrow> f_path e' = f_path e"
  by (auto simp: refresh_entry_def resetFileContent_def split: if_splits sum.splits prod.splits
      dest!: read_file_frame checkUpdated_path update_frame)

section \<open>Confinement\<close>

text \<open>A service without a directory allows its file only, and one without a file its directory only.\<close>

definition allowed :: "'fs fs_lib \<Rightarrow> FileService \<Rightarrow> string \<Rightarrow> bool" where
  "allowed fl sv p \<longleftrightarrow> fs_directory sv \<noteq> [] \<and> prefix (fs_directory sv) p \<or>
     fs_file sv \<noteq> [] \<and> (p = fs_file sv \<or> p = path_normalize fl (fs_file sv))"

lemma inside_directory_prefix_eq: "inside_directory sv p \<longleftrightarrow> prefix (fs_directory sv) p"
  unfolding inside_directory_def by (metis prefix_def append_eq_conv_conj append_take_drop_id)

lemma requested_allowed: "requested_path fl sv rel = Some p \<Longrightarrow> inside_directory sv p \<Longrightarrow> allowed fl sv p"
  by (auto simp: requested_path_def allowed_def inside_directory_prefix_eq split: if_splits)

definition cache_confined :: "'fs fs_lib \<Rightarrow> FileService \<Rightarrow> bool" where
  "cache_confined fl sv \<longleftrightarrow> ordered (fs_cache_map sv) \<and>
     (\<forall>k f. map_find k (fs_cache_map sv) = Some f \<longrightarrow> allowed fl sv (f_path f))"

text \<open>Services that differ in their cache only.\<close>

definition same_service :: "FileService \<Rightarrow> FileService \<Rightarrow> bool" where
  "same_service sv sv' \<longleftrightarrow> (\<exists>m. sv' = sv\<lparr>fs_cache_map := m\<rparr>)"

lemma same_service_refl [simp]: "same_service sv sv"
  unfolding same_service_def by (rule exI [of _ "fs_cache_map sv"]) simp

lemma same_serviceD:
  "same_service sv sv' \<Longrightarrow> allowed fl sv' = allowed fl sv" "same_service sv sv' \<Longrightarrow> fs_directory sv' = fs_directory sv"
  "same_service sv sv' \<Longrightarrow> inside_directory sv' = inside_directory sv"
  by (auto simp: same_service_def allowed_def inside_directory_def fun_eq_iff)

lemma cache_confined_assign:
  "cache_confined fl sv \<Longrightarrow> allowed fl sv (f_path f) \<Longrightarrow> cache_confined fl (sv\<lparr>fs_cache_map := map_assign k f (fs_cache_map sv)\<rparr>)"
  by (auto simp: cache_confined_def ordered_map_assign map_find_assign allowed_def inside_directory_def)

lemma cache_confined_insert:
  "cache_confined fl sv \<Longrightarrow> allowed fl sv (f_path f) \<Longrightarrow> cache_confined fl (sv\<lparr>fs_cache_map := map_insert k f (fs_cache_map sv)\<rparr>)"
  by (auto simp: cache_confined_def ordered_map_insert map_find_insert allowed_def inside_directory_def split: if_splits)

lemma cached_response_confined:
  assumes "cache_confined fl sv" "cached_response fl fs head ims rel sv = (r, sv')"
  shows "cache_confined fl sv' \<and> same_service sv sv' \<and>
     (\<forall>t f. r = Inr (t, f) \<longrightarrow> t = RESPONSE_UNDEFINED \<or> t = RESPONSE_NOT_FOUND \<or> allowed fl sv (f_path f))"
proof (cases "map_find rel (fs_cache_map sv)")
  case None
  then show ?thesis using assms by (auto simp: cached_response_def split: if_splits)
next
  case (Some entry)
  then have al: "allowed fl sv (f_path entry)" using assms(1) by (simp add: cache_confined_def)
  show ?thesis
  proof (cases "fs_cache_setting sv = 0")
    case True
    show ?thesis
    proof (cases "fs_scan_setting sv > 0")
      case on: True
      obtain r1 f1 where u: "update fl fs (DiskFile_for (f_path entry) (f_mime_type entry)) = (r1, f1)" by fastforce
      have "f_path f1 = f_path entry" using update_frame [OF u] by (simp add: DiskFile_for_def)
      then show ?thesis using assms Some True on u al by (cases r1) (auto simp: cached_response_def)
    qed (use assms True in \<open>auto simp: cached_response_def\<close>)
  next
    case False
    obtain r1 e1 where u: "refresh_entry fl fs sv entry = (r1, e1)" by fastforce
    then have "f_path e1 = f_path entry" by (rule refresh_entry_path)
    moreover have "sv' = sv\<lparr>fs_cache_map := map_assign rel e1 (fs_cache_map sv)\<rparr>"
      "r = bindE r1 (\<lambda>_. Inr (response_type_for head ims e1, e1))"
      using assms(2) Some False u by (auto simp: cached_response_def)
    ultimately show ?thesis using cache_confined_assign [OF assms(1), of e1 rel] al
      by (cases r1) (auto simp: same_service_def)
  qed
qed

lemma fresh_response_confined:
  assumes "cache_confined fl sv" "allowed fl sv path" "fresh_response fl fs head ims rel path sv = (r, sv')"
  shows "cache_confined fl sv' \<and> same_service sv sv' \<and>
     (\<forall>t f. r = Inr (t, f) \<longrightarrow> t = RESPONSE_NOT_FOUND \<or> allowed fl sv (f_path f))"
proof -
  note al = assms(2)
  obtain r1 f1 where u: "update fl fs (DiskFile_for path (findMIMEType (path_leaf fl path))) = (r1, f1)" by fastforce
  have f1: "f_path f1 = path" using update_frame [OF u] by (simp add: DiskFile_for_def)
  obtain r2 f2 where rd: "(if fs_max_cache_size sv = 0 \<or> f_size f1 \<le> fs_max_cache_size sv then read_file fl fs f1 else (Inr (), f1)) = (r2, f2)"
    by fastforce
  then have f2: "f_path f2 = path" using f1 read_file_frame [of fl fs f1 r2 f2] by (auto split: if_splits)
  show ?thesis
  proof (cases "fs_exists fl fs path = Inr True \<and> r1 = Inr ()")
    case False
    then have "sv' = sv" "\<forall>t f. r = Inr (t, f) \<longrightarrow> t = RESPONSE_NOT_FOUND"
      using assms(3) u by (auto simp: fresh_response_def split: sum.splits bool.splits)
    then show ?thesis using assms(1) by auto
  next
    case True
    show ?thesis
    proof (cases "response_type_for head ims f1 = RESPONSE_OK \<and> fs_cache_setting sv \<noteq> 0")
      case on: True
      with True u rd assms(3) have "r2 = Inr () \<longrightarrow> r = Inr (RESPONSE_OK, f2) \<and> sv' = sv\<lparr>fs_cache_map := map_insert rel f2 (fs_cache_map sv)\<rparr>"
        "r2 \<noteq> Inr () \<longrightarrow> (\<exists>e. r = Inl e) \<and> sv' = sv"
        by (auto simp: fresh_response_def split: sum.splits)
      then show ?thesis using assms(1) f2 al cache_confined_insert [OF assms(1), of f2 rel]
        by (cases "r2 = Inr ()") (auto simp: same_service_def [of sv "sv\<lparr>fs_cache_map := _\<rparr>"])
    next
      case False
      with True u assms(3) have "r = Inr (response_type_for head ims f1, f1)" "sv' = sv" by (auto simp: fresh_response_def)
      then show ?thesis using assms(1) f1 al by auto
    qed
  qed
qed

lemma find_response_confined:
  assumes "cache_confined fl sv" "allowed fl sv path" "find_response fl fs head ims rel path sv = (r, sv')"
  shows "cache_confined fl sv' \<and> same_service sv sv' \<and>
     (\<forall>t f. r = Inr (t, f) \<longrightarrow> t = RESPONSE_UNDEFINED \<or> t = RESPONSE_NOT_FOUND \<or> allowed fl sv (f_path f))"
proof -
  obtain r1 sv1 where c: "cached_response fl fs head ims rel sv = (r1, sv1)" by fastforce
  note cc = cached_response_confined [OF assms(1) c]
  show ?thesis
  proof (cases "\<exists>f. r1 = Inr (RESPONSE_UNDEFINED, f)")
    case True
    then have "fresh_response fl fs head ims rel path sv1 = (r, sv')" using assms(3) c by (auto simp: find_response_def)
    from fresh_response_confined [OF _ _ this] cc assms(2) same_serviceD(1) [of sv sv1 fl]
    have "cache_confined fl sv'" "same_service sv1 sv'" "\<forall>t f. r = Inr (t, f) \<longrightarrow> t = RESPONSE_NOT_FOUND \<or> allowed fl sv (f_path f)" by auto
    moreover have "same_service sv sv'" using cc \<open>same_service sv1 sv'\<close> by (auto simp: same_service_def)
    ultimately show ?thesis by blast
  next
    case False
    then have "(r, sv') = (r1, sv1)" using assms(3) c
      by (auto simp: find_response_def split: sum.splits prod.splits ResponseType.splits)
    then show ?thesis using cc by simp
  qed
qed

section \<open>What the actions change\<close>

definition same_world :: "('w, 'a) action \<Rightarrow> bool" where
  "same_world m \<longleftrightarrow> (\<forall>c r c'. m c = (r, c') \<longrightarrow> x_world c' = x_world c)"

lemma same_worldD: "same_world m \<Longrightarrow> m c = (r, c') \<Longrightarrow> x_world c' = x_world c"
  by (simp add: same_world_def)

lemma same_world_bind [intro]:
  assumes "same_world m" "\<And>a. same_world (f a)"
  shows "same_world (bindA m f)"
  unfolding same_world_def
proof (intro allI impI)
  fix c r c' assume b: "bindA m f c = (r, c')"
  obtain r1 c1 where m: "m c = (r1, c1)" by fastforce
  show "x_world c' = x_world c"
    using b m same_worldD [OF assms(1) m] same_worldD [OF assms(2)] by (cases r1) (auto simp: bindA_def)
qed

lemma same_world_basic [intro]:
  "same_world (returnA a)" "same_world (lift_fault r)" "same_world (lift_string x)" "same_world (ask q)"
  "same_world (modify_conn g)" "same_world (send_writer lib w)"
  by (auto simp: same_world_def returnA_def lift_fault_def lift_string_def ask_def modify_conn_def send_writer_def
      split: sum.splits writer_error.splits prod.splits)

lemma same_world_respond [intro]: "same_world (respond lib n msg g)"
  unfolding same_world_def respond_def by (metis same_worldD same_world_bind same_world_basic(2,6))

definition touches :: "'fs fs_lib \<Rightarrow> string \<Rightarrow> ('fs file_world, 'a) action \<Rightarrow> bool" where
  "touches fl p m \<longleftrightarrow> (\<forall>c r c'. m c = (r, c') \<longrightarrow> fw_service (x_world c') = fw_service (x_world c) \<and>
     (fw_fs (x_world c') = fw_fs (x_world c) \<or> (\<exists>b d. fw_fs (x_world c') = fs_write fl b p d (fw_fs (x_world c))) \<or>
      fw_fs (x_world c') = snd (fs_remove fl p (fw_fs (x_world c)))))"

lemma touches_same [intro]: "same_world m \<Longrightarrow> touches fl p m"
  by (simp add: touches_def same_world_def)

lemma touches_after [intro]:
  assumes "same_world m" "\<And>a. touches fl p (f a)"
  shows "touches fl p (bindA m f)"
  unfolding touches_def
proof (intro allI impI)
  fix c r c' assume b: "bindA m f c = (r, c')"
  obtain r1 c1 where m: "m c = (r1, c1)" by fastforce
  note w = same_worldD [OF assms(1) m]
  show "fw_service (x_world c') = fw_service (x_world c) \<and>
     (fw_fs (x_world c') = fw_fs (x_world c) \<or> (\<exists>b d. fw_fs (x_world c') = fs_write fl b p d (fw_fs (x_world c))) \<or>
      fw_fs (x_world c') = snd (fs_remove fl p (fw_fs (x_world c))))"
  proof (cases r1)
    case (Inl e)
    with b m w show ?thesis by (simp add: bindA_def)
  next
    case (Inr a)
    with b m have "f a c1 = (r, c')" by (simp add: bindA_def)
    with assms(2) [of a] w show ?thesis unfolding touches_def by metis
  qed
qed

lemma touches_before:
  assumes "touches fl p m" "\<And>a. same_world (f a)"
  shows "touches fl p (bindA m f)"
  unfolding touches_def
proof (intro allI impI)
  fix c r c' assume b: "bindA m f c = (r, c')"
  obtain r1 c1 where m: "m c = (r1, c1)" by fastforce
  have "x_world c' = x_world c1" using b m same_worldD [OF assms(2)] by (cases r1) (auto simp: bindA_def)
  then show "fw_service (x_world c') = fw_service (x_world c) \<and>
     (fw_fs (x_world c') = fw_fs (x_world c) \<or> (\<exists>b d. fw_fs (x_world c') = fs_write fl b p d (fw_fs (x_world c))) \<or>
      fw_fs (x_world c') = snd (fs_remove fl p (fw_fs (x_world c))))"
    using assms(1) m unfolding touches_def by metis
qed

lemma same_world_finish [intro]: "same_world (finish_writer lib n msg w)"
  unfolding finish_writer_def by blast

lemma same_world_pages [intro]: "same_world (sendNotFoundResponse lib r)" "same_world (sendForbidden lib r reason)"
  "same_world (respond_method lib r n msg title heading reason g)" "same_world (send_headers_only lib n msg f)"
  unfolding sendNotFoundResponse_def sendForbidden_def respond_method_def send_headers_only_def by blast+

lemma touches_if: "touches fl p a \<Longrightarrow> touches fl p b \<Longrightarrow> touches fl p (if t then a else b)"
  by simp

lemma touches_write_file: "touches fl p (write_file lib fl r p n msg w)"
proof -
  have "touches fl p (change_fs (\<lambda>fs. (Inr (), fs_write fl b p d fs)) :: ('a file_world, string + unit) action)" for b d
    by (auto simp: touches_def change_fs_def)
  note ch = touches_before [OF this]
  have "touches fl p (\<lambda>c. bindA (lift_fault (content_bytes (x_request (c0 :: 'a file_world ctx)))) (\<lambda>data.
       bindA (change_fs (\<lambda>fs. (Inr (), fs_write fl (m_method r = REQUEST_METHOD_POST) p data fs))) (\<lambda>_.
         bindA (ask (\<lambda>fs. fs_exists fl fs p)) (\<lambda>written.
           if written then finish_writer lib n msg w
           else finish_writer lib RESPONSE_CODE_SERVER_ERROR RESPONSE_MESSAGE_SERVER_ERROR
             (page (page_start ''500 Server Error'' ''Server Error'' ''Error writing to '') (m_resource r) (page_finish ''.'') w)))) c)" for c0
    by (intro touches_after ch same_world_bind same_world_basic) auto
  then show ?thesis unfolding touches_def write_file_def by blast
qed

lemma touches_put_file: "touches fl p (put_file lib fl r p w)"
  unfolding put_file_def
  by (intro touches_after touches_if same_world_basic touches_write_file touches_same same_world_finish)

lemma touches_catch:
  assumes "touches fl p m" "same_world h"
  shows "touches fl p (catch_all m h)"
  unfolding touches_def
proof (intro allI impI)
  fix c r c' assume b: "catch_all m h c = (r, c')"
  obtain r1 c1 where m: "m c = (r1, c1)" by fastforce
  have "x_world c' = x_world c1"
    using b m same_worldD [OF assms(2), of c1] by (auto simp: catch_all_def split: sum.splits exn.splits)
  then show "fw_service (x_world c') = fw_service (x_world c) \<and>
     (fw_fs (x_world c') = fw_fs (x_world c) \<or> (\<exists>b d. fw_fs (x_world c') = fs_write fl b p d (fw_fs (x_world c))) \<or>
      fw_fs (x_world c') = snd (fs_remove fl p (fw_fs (x_world c))))"
    using assms(1) m unfolding touches_def by metis
qed

lemma touches_delete_file: "touches fl p (delete_file lib fl r p w)"
proof -
  have "touches fl p (change_fs (fs_remove fl p) :: ('a file_world, string + unit) action)"
    by (auto simp: touches_def change_fs_def split: prod.splits)
  then have "touches fl p (bindA (change_fs (fs_remove fl p) :: ('a file_world, string + unit) action) (\<lambda>removed.
      bindA (lift_string removed) (\<lambda>_. finish_writer lib RESPONSE_CODE_NO_CONTENT RESPONSE_MESSAGE_NO_CONTENT w)))"
    by (rule touches_before) (intro same_world_bind same_world_basic same_world_finish)
  from touches_catch [OF this same_world_finish] show ?thesis
    unfolding delete_file_def by (intro touches_after touches_if same_world_basic) auto
qed

lemma next_piece_file: "next_piece fl fs s = Inr (piece, s') \<Longrightarrow> s_disk_file s' = s_disk_file s"
  by (auto simp: next_piece_def Let_def split: option.splits if_splits)

lemma sender_send_frame:
  assumes "sender_send lib fl fs s c = (r, c')"
  shows "x_world c' = x_world c" "r = Inr (Some s') \<Longrightarrow> s_disk_file s' = s_disk_file s"
proof -
  have send: "bindA (send_writer lib (s_writer s)) (\<lambda>_. returnA (None :: DiskFileSender option)) c = (r, c') \<Longrightarrow>
      x_world c' = x_world c \<and> r \<noteq> Inr (Some s')"
    by (auto simp: bindA_def returnA_def send_writer_def split: sum.splits writer_error.splits prod.splits)
  have "x_world c' = x_world c \<and> (r = Inr (Some s') \<longrightarrow> s_disk_file s' = s_disk_file s)"
  proof (cases "f_size (s_disk_file s) \<le> s_bytes_sent s")
    case True
    with assms send show ?thesis by (auto simp: sender_send_def)
  next
    case False
    define s1 where "s1 = s\<lparr>s_file_bytes_to_send := (let rest = f_size (s_disk_file s) - s_bytes_sent s in
        if s_max_chunk_size s > 0 \<and> rest > s_max_chunk_size s then s_max_chunk_size s else rest)\<rparr>"
    show ?thesis
    proof (cases "next_piece fl fs s1")
      case (Inl e)
      with assms False show ?thesis by (auto simp: sender_send_def bindA_def lift_fault_def s1_def Let_def)
    next
      case (Inr x)
      obtain piece s2 where x: "x = (piece, s2)" by fastforce
      have "s_disk_file s2 = s_disk_file s" using next_piece_file [of fl fs s1 piece s2] Inr x by (simp add: s1_def)
      with assms False Inr x show ?thesis
        by (cases piece) (auto simp: sender_send_def bindA_def lift_fault_def s1_def Let_def returnA_def
            split: sum.splits writer_error.splits prod.splits)
    qed
  qed
  then show "x_world c' = x_world c" "r = Inr (Some s') \<Longrightarrow> s_disk_file s' = s_disk_file s" by auto
qed

lemma serve_file_confined:
  assumes "serve_file lib fl r rel path c = (res, c')" "cache_confined fl (fw_service (x_world c))"
    and "allowed fl (fw_service (x_world c)) path"
  shows "fw_fs (x_world c') = fw_fs (x_world c) \<and> cache_confined fl (fw_service (x_world c')) \<and>
     same_service (fw_service (x_world c)) (fw_service (x_world c')) \<and>
     (\<forall>s. res = Inr (Some s) \<longrightarrow> allowed fl (fw_service (x_world c)) (f_path (s_disk_file s)))"
proof -
  obtain fr sv' where find: "find_response fl (fw_fs (x_world c)) (m_method r = REQUEST_METHOD_HEAD)
      (getHeader HEADER_IF_MODIFIED_SINCE (x_request c)) rel path (fw_service (x_world c)) = (fr, sv')" by fastforce
  note cf = find_response_confined [OF assms(2,3) find]
  define c1 where "c1 = c\<lparr>x_world := (x_world c)\<lparr>fw_service := sv'\<rparr>\<rparr>"
  have c1: "fw_fs (x_world c1) = fw_fs (x_world c)" "fw_service (x_world c1) = sv'" by (simp_all add: c1_def)
  have headers: "bindA m (\<lambda>_. returnA (None :: DiskFileSender option)) c1 = (res, c') \<Longrightarrow> same_world m \<Longrightarrow>
      x_world c' = x_world c1 \<and> (\<forall>s. res \<noteq> Inr (Some s))" for m :: "('a file_world, unit) action"
    by (auto simp: bindA_def returnA_def split: prod.splits sum.splits dest: same_worldD)
  have "x_world c' = x_world c1 \<and> (\<forall>s. res = Inr (Some s) \<longrightarrow> allowed fl (fw_service (x_world c)) (f_path (s_disk_file s)))"
  proof (cases fr)
    case (Inl e)
    with assms(1) find show ?thesis by (auto simp: serve_file_def with_service_def bindA_def lift_string_def c1_def)
  next
    case (Inr x)
    obtain t f where x: "x = (t, f)" by fastforce
    show ?thesis
    proof (cases t)
      case RESPONSE_OK
      have al: "allowed fl (fw_service (x_world c)) (f_path f)" using cf Inr x RESPONSE_OK by auto
      note run = assms(1) [unfolded serve_file_def with_service_def bindA_def lift_string_def lift_fault_def]
      show ?thesis
      proof (cases "DiskFileSender_create f (x_request c) (fs_max_chunk_size sv')")
        case (Inl e)
        with run find \<open>fr = Inr x\<close> x RESPONSE_OK show ?thesis by (auto simp: c1_def)
      next
        case (Inr s)
        with run find \<open>fr = Inr x\<close> x RESPONSE_OK have "sender_send lib fl (fw_fs (x_world c1)) s c1 = (res, c')"
          by (simp add: c1_def)
        from sender_send_frame [OF this] al DiskFileSender_create_facts(1) [OF Inr] show ?thesis by auto
      qed
    qed (use assms(1) find Inr x headers same_world_pages in
        \<open>auto simp: serve_file_def with_service_def bindA_def [of "with_service _"] lift_string_def c1_def\<close>)
  qed
  with cf c1 show ?thesis by auto
qed

lemma touches_modify_file:
  assumes "modify_file lib fl r p c = (res, c')"
  shows "fw_service (x_world c') = fw_service (x_world c) \<and> (fw_fs (x_world c') = fw_fs (x_world c) \<or>
     fs_writable (fw_service (x_world c)) \<and> ((\<exists>b d. fw_fs (x_world c') = fs_write fl b p d (fw_fs (x_world c))) \<or>
       fw_fs (x_world c') = snd (fs_remove fl p (fw_fs (x_world c)))))"
proof (cases "fs_writable (fw_service (x_world c))")
  case False
  have "x_world c' = x_world c"
    by (rule same_worldD [OF same_world_pages(3) assms [unfolded modify_file_def if_P [OF False]]])
  then show ?thesis by simp
next
  case True
  have "touches fl p (bindA (lift_fault (HTTPResponseWriter_create (x_request c)))
      (if m_method r = REQUEST_METHOD_DELETE then delete_file lib fl r p else put_file lib fl r p))"
    by (intro touches_after same_world_basic) (auto intro: touches_delete_file touches_put_file)
  with assms True show ?thesis unfolding touches_def modify_file_def by (simp split: if_splits)
qed

lemma dispatch_returns:
  assumes "bindA m (\<lambda>_. returnA (None :: DiskFileSender option)) c = (res, c')"
  shows "\<exists>r. m c = (r, c') \<and> (\<forall>s. res \<noteq> Inr (Some s))"
  using assms by (auto simp: bindA_def returnA_def split: prod.splits sum.splits)

section \<open>Scanning\<close>

lemma addCacheEntry_confined:
  assumes "addCacheEntry fl fs rel path ph sv = (r, sv')" "cache_confined fl sv" "allowed fl sv path"
  shows "cache_confined fl sv' \<and> same_service sv sv'"
proof -
  define e where "e = DiskFile_for path (findMIMEType (path_leaf fl path))"
  obtain r1 e1 where u: "update fl fs e = (r1, e1)" by fastforce
  obtain r2 e2 where rd: "read_file fl fs e1 = (r2, e2)" by fastforce
  have paths: "f_path e = path" "f_path e1 = path" "f_path e2 = path"
    using update_frame [OF u] read_file_frame [OF rd] by (simp_all add: e_def DiskFile_for_def)
  have "sv' = sv \<or> (\<exists>f. f_path f = path \<and> sv' = sv\<lparr>fs_cache_map := map_insert rel f (fs_cache_map sv)\<rparr>)"
    using assms(1) u rd paths unfolding addCacheEntry_def e_def [symmetric] Let_def
    by (auto split: if_splits sum.splits)
  then show ?thesis
  proof
    assume "\<exists>f. f_path f = path \<and> sv' = sv\<lparr>fs_cache_map := map_insert rel f (fs_cache_map sv)\<rparr>"
    then obtain f where f: "f_path f = path" "sv' = sv\<lparr>fs_cache_map := map_insert rel f (fs_cache_map sv)\<rparr>" by blast
    then have "same_service sv sv'" unfolding same_service_def by blast
    with f cache_confined_insert [OF assms(2), of f rel] assms(3) show ?thesis by simp
  qed (use assms(2) in simp)
qed

text \<open>The entries of a directory are below it.\<close>

definition entries_below :: "'fs fs_lib \<Rightarrow> bool" where
  "entries_below fl \<longleftrightarrow> (\<forall>fs d ps p. fs_entries fl fs d = Inr ps \<longrightarrow> p \<in> set ps \<longrightarrow> prefix d p)"

definition allowed_dir :: "FileService \<Rightarrow> string \<Rightarrow> bool" where
  "allowed_dir sv p \<longleftrightarrow> fs_directory sv \<noteq> [] \<and> prefix (fs_directory sv) p"

lemma same_service_trans: "same_service a b \<Longrightarrow> same_service b c \<Longrightarrow> same_service a c"
  by (auto simp: same_service_def)

text \<open>Scanning keeps what adding the entries keeps.\<close>

lemma scan_entries_keeps:
  assumes "scan_entries rec fl fs ps sv = Some (r, sv')" "I sv" "\<forall>p\<in>set ps. ok p"
    and "\<And>p sv r sv'. rec p sv = Some (r, sv') \<Longrightarrow> I sv \<Longrightarrow> ok p \<Longrightarrow> I sv'"
    and "\<And>p sv r sv'. addCacheEntry fl fs (drop (length (fs_directory sv) + 1) p) p (fs_scan_setting sv = 1) sv = (r, sv') \<Longrightarrow>
      I sv \<Longrightarrow> ok p \<Longrightarrow> length p > length (fs_directory sv) \<Longrightarrow> I sv'"
  shows "I sv'"
  using assms(1-3)
proof (induction ps arbitrary: sv)
  case (Cons p ps)
  show ?case
  proof (cases "fs_is_directory fl fs p")
    case (Inl e)
    with Cons.prems show ?thesis by auto
  next
    case (Inr d)
    show ?thesis
    proof (cases d)
      case True
      with Cons.prems(1) Inr obtain r1 sv1 where rec: "rec p sv = Some (r1, sv1)" by (auto split: option.splits)
      with assms(4) [OF this] Cons.prems have "I sv1" by auto
      with Cons Inr True rec show ?thesis by (cases r1) auto
    next
      case False
      show ?thesis
      proof (cases "length p < length (fs_directory sv) + 1")
        case True
        with Cons.prems Inr False show ?thesis by auto
      next
        case long: False
        obtain r1 sv1 where add: "addCacheEntry fl fs (drop (length (fs_directory sv) + 1) p) p (fs_scan_setting sv = 1) sv = (r1, sv1)"
          by fastforce
        have "I sv1" using assms(5) [OF add] Cons.prems long by auto
        with Cons Inr False long add show ?thesis by (cases r1) auto
      qed
    qed
  qed
qed auto

lemma scanDirectory_keeps:
  assumes "\<And>fs d ps p. fs_entries fl fs d = Inr ps \<Longrightarrow> p \<in> set ps \<Longrightarrow> ok d \<Longrightarrow> ok p"
    and "\<And>p sv r sv'. addCacheEntry fl fs (drop (length (fs_directory sv) + 1) p) p (fs_scan_setting sv = 1) sv = (r, sv') \<Longrightarrow>
      I sv \<Longrightarrow> ok p \<Longrightarrow> length p > length (fs_directory sv) \<Longrightarrow> I sv'"
    and "scanDirectory n fl fs d sv = Some (r, sv')" "I sv" "ok d"
  shows "I sv'"
  using assms(3-)
proof (induction n arbitrary: d sv r sv')
  case (Suc n)
  show ?case
  proof (cases "fs_entries fl fs d")
    case (Inl e)
    with Suc.prems show ?thesis by auto
  next
    case (Inr ps)
    with assms(1) Suc.prems(3) have "\<forall>p\<in>set ps. ok p" by blast
    from scan_entries_keeps [of "scanDirectory n fl fs" fl fs ps sv r sv' I ok, OF _ Suc.prems(2) this Suc.IH assms(2)]
      Suc.prems(1) Inr show ?thesis by simp
  qed
qed simp

lemma scanDirectory_confined:
  assumes "entries_below fl" "scanDirectory n fl fs d sv = Some (r, sv')" "cache_confined fl sv" "allowed_dir sv d"
  shows "cache_confined fl sv' \<and> same_service sv sv'"
proof (rule scanDirectory_keeps [of fl "\<lambda>p. allowed_dir sv p" fs "\<lambda>sv'. cache_confined fl sv' \<and> same_service sv sv'"])
  show "scanDirectory n fl fs d sv = Some (r, sv')" by fact
  show "\<And>fs d ps p. fs_entries fl fs d = Inr ps \<Longrightarrow> p \<in> set ps \<Longrightarrow> allowed_dir sv d \<Longrightarrow> allowed_dir sv p"
    using assms(1) unfolding entries_below_def allowed_dir_def by (meson prefix_order.order_trans)
next
  fix p sva r' svb
  assume add: "addCacheEntry fl fs (drop (length (fs_directory sva) + 1) p) p (fs_scan_setting sva = 1) sva = (r', svb)"
    and a: "cache_confined fl sva \<and> same_service sv sva" "allowed_dir sv p"
  have al: "allowed fl sva p" using a same_serviceD(1) [of sv sva fl] by (auto simp: allowed_dir_def allowed_def)
  show "cache_confined fl svb \<and> same_service sv svb"
    using addCacheEntry_confined [OF add conjunct1 [OF a(1)] al] same_service_trans [OF conjunct2 [OF a(1)], of svb] by blast
qed (use assms in auto)

lemma file_start_confined:
  assumes "entries_below fl" "file_start n fl fs sv = Some (r, sv')" "cache_confined fl sv"
  shows "cache_confined fl sv'"
proof (cases "fs_scan_setting sv = 0")
  case True
  with assms show ?thesis by (simp add: file_start_def)
next
  case False
  define sv1 where "sv1 = (if fs_cache_setting sv = 0 \<and> fs_scan_setting sv > 1 then sv\<lparr>fs_cache_setting := 1\<rparr> else sv)"
  have c1: "cache_confined fl sv1" using assms(3) by (simp add: sv1_def cache_confined_def allowed_def)
  obtain r2 sv2 where add: "(if fs_file sv1 \<noteq> [] then addCacheEntry fl fs [] (fs_file sv1) (fs_scan_setting sv1 = 1) sv1
      else (Inr True, sv1)) = (r2, sv2)" by fastforce
  have "cache_confined fl sv2" using add c1 addCacheEntry_confined [of fl fs "[]" "fs_file sv1" _ sv1 r2 sv2]
    by (auto simp: allowed_def split: if_splits)
  with assms(2) False add scanDirectory_confined [OF assms(1), of n fs "fs_directory sv2" sv2 r sv'] show ?thesis
    unfolding file_start_def sv1_def [symmetric] Let_def by (cases r2) (auto simp: allowed_dir_def split: if_splits)
qed

section \<open>Properties\<close>

lemma same_file_serviceD: "x_world c' = x_world c \<Longrightarrow> fw_service (x_world c') = fw_service (x_world c) \<and> fw_fs (x_world c') = fw_fs (x_world c)"
  by simp

lemma answer_only:
  assumes "bindA m (\<lambda>_. returnA (None :: DiskFileSender option)) c = (res, c')" "same_world m"
  shows "x_world c' = x_world c \<and> (\<forall>s. res \<noteq> Inr (Some s))"
  using dispatch_returns [OF assms(1)] same_worldD [OF assms(2)] by blast

lemmas answer_pages = answer_only [OF _ same_world_pages(1)] answer_only [OF _ same_world_pages(2)]
  answer_only [OF _ same_world_pages(3)]

text \<open>A request is answered with a page, serves a file or modifies one; the path is inside the directory then.\<close>

lemma file_service_cases:
  assumes "file_service lib fl c = (res, c')"
  obtains "x_world c' = x_world c" "\<forall>s. res \<noteq> Inr (Some s)"
  | r rel path where "requested_path fl (fw_service (x_world c)) (getRelativeResource (fs_resource (fw_service (x_world c))) (m_resource r)) = Some path"
      "as_request (x_request c) = Inr r" "allowed fl (fw_service (x_world c)) path" "serve_file lib fl r rel path c = (res, c')"
  | r path x where "requested_path fl (fw_service (x_world c)) (getRelativeResource (fs_resource (fw_service (x_world c))) (m_resource r)) = Some path"
      "as_request (x_request c) = Inr r" "allowed fl (fw_service (x_world c)) path" "modify_file lib fl r path c = (x, c')" "\<forall>s. res \<noteq> Inr (Some s)"
proof (cases "as_request (x_request c)")
  case (Inl e)
  with assms that(1) show ?thesis by (auto simp: file_service_def bindA_def lift_fault_def)
next
  case (Inr r)
  define sv where "sv = fw_service (x_world c)"
  define rel where "rel = getRelativeResource (fs_resource sv) (m_resource r)"
  note run = assms [unfolded file_service_def bindA_def [of "lift_fault _"] lift_fault_def Inr, simplified,
      folded sv_def, folded rel_def]
  show ?thesis
  proof (cases "requested_path fl sv rel")
    case None
    with run show ?thesis by (intro that(1)) (auto simp: Let_def rel_def dest!: answer_pages)
  next
    case (Some path)
    consider (outside) "\<not> inside_directory sv path"
      | (failed) e where "inside_directory sv path" "fs_is_directory fl (fw_fs (x_world c)) path = Inl e"
      | (asked) d where "inside_directory sv path" "fs_is_directory fl (fw_fs (x_world c)) path = Inr d"
      by (cases "fs_is_directory fl (fw_fs (x_world c)) path") auto
    then show ?thesis
    proof cases
      case outside
      with run Some show ?thesis by (intro that(1)) (auto simp: Let_def rel_def dest!: answer_pages)
    next
      case failed
      with run Some show ?thesis by (intro that(1)) (auto simp: Let_def rel_def ask_def bindA_def lift_string_def)
    next
      case asked
      then have "bindA (ask (\<lambda>fs. fs_is_directory fl fs path)) g c = g d c" for g :: "bool \<Rightarrow> ('a file_world, DiskFileSender option) action"
        by (simp add: bindA_def ask_def lift_string_def)
      note run' = run [unfolded Let_def, simplified Some rel_def [symmetric] option.case asked(1) not_True_eq_False if_False this]
      show ?thesis
      proof (cases "d \<or> \<not> (m_method r = REQUEST_METHOD_GET \<or> m_method r = REQUEST_METHOD_HEAD) \<and>
          \<not> (m_method r = REQUEST_METHOD_POST \<or> m_method r = REQUEST_METHOD_PUT \<or> m_method r = REQUEST_METHOD_DELETE)")
        case True
        with run' show ?thesis by (intro that(1)) (auto split: if_splits dest!: answer_pages)
      next
        case False
        note al = Some [unfolded rel_def sv_def] Inr requested_allowed [OF Some asked(1), unfolded sv_def]
        with run' that(2) [OF al] that(3) [OF al] False show ?thesis
          by (auto dest!: dispatch_returns split: if_splits)
      qed
    qed
  qed
qed

text \<open>C25: Whatever a request asks for, a file is only sent when a directory is configured and the path of the file
  starts with it, or when it is the configured file; a service with neither sends nothing, and one without a
  directory sends its file only. This holds for the cache too. The disk changes only when the service is
  writable, and then in one file, the one whose path the request asks for, which is allowed in the same
  sense. What a path starts with is a matter of strings, so a sibling of the directory with a longer name
  counts as inside: \<open>sibling_directory_served\<close> below.\<close>

theorem file_service_confined:
  assumes "file_service lib fl c = (res, c')" "cache_confined fl (fw_service (x_world c))"
  shows "cache_confined fl (fw_service (x_world c')) \<and> same_service (fw_service (x_world c)) (fw_service (x_world c')) \<and>
     (\<forall>s. res = Inr (Some s) \<longrightarrow> allowed fl (fw_service (x_world c)) (f_path (s_disk_file s))) \<and>
     (fw_fs (x_world c') = fw_fs (x_world c) \<or>
      fs_writable (fw_service (x_world c)) \<and>
        (\<exists>r p. as_request (x_request c) = Inr r \<and>
           requested_path fl (fw_service (x_world c)) (getRelativeResource (fs_resource (fw_service (x_world c))) (m_resource r)) = Some p \<and>
           allowed fl (fw_service (x_world c)) p \<and>
           ((\<exists>b d. fw_fs (x_world c') = fs_write fl b p d (fw_fs (x_world c))) \<or>
            fw_fs (x_world c') = snd (fs_remove fl p (fw_fs (x_world c))))))"
  using assms(1)
proof (cases rule: file_service_cases)
  case 1
  with assms(2) show ?thesis by simp
next
  case (2 r rel path)
  with serve_file_confined [OF 2(4) assms(2) 2(3)] show ?thesis by blast
next
  case (3 r path x)
  with touches_modify_file [OF 3(4)] assms(2) show ?thesis by auto
qed

lemma world_unchanged [simp]:
  "c\<lparr>x_world := (x_world c)\<lparr>fw_service := fw_service (x_world c)\<rparr>\<rparr> = (c :: 'a file_world ctx)"
  by (cases c) (metis ctx.ext_inject ctx.surjective ctx.update_convs(3) file_world.surjective file_world.update_convs(1))

text \<open>With the cache off, a \<open>GET\<close> for a file whose normalised path extends the string of the directory is answered
  by a sender of that file, with its size and date. Only strings are compared: what follows the directory
  need not start with a slash, so a file in a sibling directory with a longer name is served as well.\<close>

theorem sibling_directory_served:
  fixes c :: "'a file_world ctx"
  assumes "as_request (x_request c) = Inr r" "m_method r = REQUEST_METHOD_GET"
    and "fw_service (x_world c) = sv" "fs_cache_setting sv = 0" "fs_scan_setting sv = 0" "fs_directory sv \<noteq> []"
    and "getRelativeResource (fs_resource sv) (m_resource r) = rel" "rel \<noteq> []"
    and "path_normalize fl (path_append fl (fs_directory sv) rel) = fs_directory sv @ rest"
    and "fs_is_directory fl (fw_fs (x_world c)) (fs_directory sv @ rest) = Inr False"
    and "fs_exists fl (fw_fs (x_world c)) (fs_directory sv @ rest) = Inr True"
    and "update fl (fw_fs (x_world c)) (DiskFile_for (fs_directory sv @ rest) (findMIMEType (path_leaf fl (fs_directory sv @ rest)))) = (Inr (), f)"
    and "getHeader HEADER_IF_MODIFIED_SINCE (x_request c) \<noteq> f_last_modified_string f"
    and "DiskFileSender_create f (x_request c) (fs_max_chunk_size sv) = Inr s"
  shows "file_service lib fl c = sender_send lib fl (fw_fs (x_world c)) s c \<and> f_path (s_disk_file s) = fs_directory sv @ rest"
proof -
  have path: "requested_path fl sv rel = Some (fs_directory sv @ rest)" "inside_directory sv (fs_directory sv @ rest)"
    using assms by (simp_all add: requested_path_def inside_directory_def)
  have "response_type_for False (getHeader HEADER_IF_MODIFIED_SINCE (x_request c)) f = RESPONSE_OK"
    using assms(13) by (simp add: response_type_for_def)
  then have find: "find_response fl (fw_fs (x_world c)) False (getHeader HEADER_IF_MODIFIED_SINCE (x_request c)) rel
      (fs_directory sv @ rest) sv = (Inr (RESPONSE_OK, f), sv)"
    using assms by (simp add: find_response_def cached_response_def fresh_response_def)
  have get: "m_method r \<noteq> REQUEST_METHOD_HEAD" using assms(2) by (simp add: REQUEST_METHOD_GET_def REQUEST_METHOD_HEAD_def)
  have serve: "serve_file lib fl r rel (fs_directory sv @ rest) c = sender_send lib fl (fw_fs (x_world c)) s c"
    using find get assms(14) unfolding assms(3) [symmetric] by (simp add: serve_file_def with_service_def bindA_def lift_string_def lift_fault_def)
  have "file_service lib fl c = sender_send lib fl (fw_fs (x_world c)) s c"
    using assms(1-3,7,10) path serve
    by (simp add: file_service_def bindA_def [of "lift_fault _"] bindA_def [of "ask _"] ask_def lift_string_def lift_fault_def Let_def)
  moreover have "f_path f = fs_directory sv @ rest" using update_frame [OF assms(12)] by (simp add: DiskFile_for_def)
  ultimately show ?thesis using DiskFileSender_create_facts(1) [OF assms(14)] by simp
qed

section \<open>The cache\<close>

text \<open>The content of the file \<open>p\<close> with the time \<open>t\<close> is \<open>V p t\<close>: the size of a file is that of its content, and whoever
  can read it reads its content. A file may be unreadable, or its size or time unknown.\<close>

definition described :: "(string \<Rightarrow> int \<Rightarrow> string) \<Rightarrow> 'fs fs_lib \<Rightarrow> 'fs \<Rightarrow> bool" where
  "described V fl fs \<longleftrightarrow> (\<forall>p n t. fs_file_size fl fs p = Inr n \<longrightarrow> fs_last_write_time fl fs p = Inr t \<longrightarrow>
     n = length (V p t) \<and> (\<forall>text. fs_contents fl fs p = Some text \<longrightarrow> text = V p t))"

definition holds_file :: "(string \<Rightarrow> int \<Rightarrow> string) \<Rightarrow> DiskFile \<Rightarrow> bool" where
  "holds_file V f \<longleftrightarrow> f_last_modified_string f = get_date_string (f_last_modified f) \<and>
     f_size f = length (V (f_path f) (f_last_modified f)) \<and>
     (f_content f = None \<or> f_content f = Some (map Some (V (f_path f) (f_last_modified f))))"

text \<open>The entry of a name is the file that a request for the name asks for; it holds that file unless it was not
  loaded yet.\<close>

definition cache_current :: "(string \<Rightarrow> int \<Rightarrow> string) \<Rightarrow> 'fs fs_lib \<Rightarrow> FileService \<Rightarrow> bool" where
  "cache_current V fl sv \<longleftrightarrow> ordered (fs_cache_map sv) \<and> fs_cache_setting sv = 1 \<and>
     (\<forall>k f. map_find k (fs_cache_map sv) = Some f \<longrightarrow>
        requested_path fl sv k = Some (f_path f) \<and> (f_last_modified f = 0 \<or> holds_file V f))"

definition current_file :: "(string \<Rightarrow> int \<Rightarrow> string) \<Rightarrow> 'fs fs_lib \<Rightarrow> 'fs \<Rightarrow> DiskFile \<Rightarrow> bool" where
  "current_file V fl fs f \<longleftrightarrow> fs_file_size fl fs (f_path f) = Inr (f_size f) \<and>
     fs_last_write_time fl fs (f_path f) = Inr (f_last_modified f) \<and> holds_file V f"

definition unreadable :: "'fs fs_lib \<Rightarrow> 'fs \<Rightarrow> string \<Rightarrow> (string + 'a) \<Rightarrow> bool" where
  "unreadable fl fs p r \<longleftrightarrow> fs_contents fl fs p = None \<and> r = Inl (''FileService unable to read file: '' @ p)"

lemma update_described:
  assumes "described V fl fs" "update fl fs f = (r, f')"
  shows "(\<exists>e. r = Inl e) \<and> f_last_modified f' = f_last_modified f \<or>
    r = Inr () \<and> f_content f' = f_content f \<and> (f_content f = None \<longrightarrow> current_file V fl fs f') \<and>
      fs_file_size fl fs (f_path f) = Inr (f_size f') \<and> fs_last_write_time fl fs (f_path f) = Inr (f_last_modified f') \<and>
      f_last_modified_string f' = get_date_string (f_last_modified f') \<and> f_path f' = f_path f"
proof (cases "fs_file_size fl fs (f_path f)")
  case (Inl e)
  with assms(2) show ?thesis by (auto simp: update_def current_size_def bindE_def)
next
  case (Inr n)
  show ?thesis
  proof (cases "n < 2 ^ 63")
    case False
    with Inr assms(2) show ?thesis by (auto simp: update_def current_size_def bindE_def)
  next
    case True
    note n = this
    show ?thesis
    proof (cases "fs_last_write_time fl fs (f_path f)")
      case (Inl e)
      with Inr n assms(2) show ?thesis by (auto simp: update_def current_size_def bindE_def Let_def)
    next
      case t: (Inr t)
      with Inr n assms(2) have f': "f' = f\<lparr>f_size := n, f_last_modified := t, f_last_modified_string := get_date_string t\<rparr>" "r = Inr ()"
        by (auto simp: update_def current_size_def bindE_def Let_def)
      have "n = length (V (f_path f) t)" using assms(1) Inr t unfolding described_def by blast
      with f' Inr t show ?thesis by (simp add: current_file_def holds_file_def)
    qed
  qed
qed

text \<open>A file that is read is current, unless it cannot be read.\<close>

lemma read_described:
  assumes "described V fl fs" "read_file fl fs f = (r, f')"
    and "fs_file_size fl fs (f_path f) = Inr (f_size f)" "fs_last_write_time fl fs (f_path f) = Inr (f_last_modified f)"
    and "f_last_modified_string f = get_date_string (f_last_modified f)"
  shows "unreadable fl fs (f_path f) r \<or> r = Inr () \<and> current_file V fl fs f'"
proof (cases "fs_contents fl fs (f_path f)")
  case None
  with assms(2) show ?thesis by (auto simp: read_file_def unreadable_def file_read_error_def Let_def)
next
  case (Some bs)
  with assms(1,3,4) have "bs = V (f_path f) (f_last_modified f)" "f_size f = length bs" unfolding described_def by blast+
  with assms(2-5) Some show ?thesis by (auto simp: read_file_def Let_def current_file_def holds_file_def)
qed

lemma checked_described:
  assumes "described V fl fs" "checkUpdated fl fs f = (r, f')" "holds_file V f"
  shows "(\<exists>e. r = Inl e) \<and> f' = f \<or> unreadable fl fs (f_path f) r \<or> (\<exists>b. r = Inr b) \<and> current_file V fl fs f'"
proof (cases "bindE (current_size fl fs (f_path f)) (\<lambda>n. bindE (fs_last_write_time fl fs (f_path f)) (\<lambda>t. Inr (n, t)))")
  case (Inl e)
  with assms(2) show ?thesis by (auto simp: checkUpdated_def)
next
  case (Inr x)
  obtain n t where x: "x = (n, t)" by fastforce
  with Inr have q: "fs_file_size fl fs (f_path f) = Inr n" "fs_last_write_time fl fs (f_path f) = Inr t"
    by (auto simp: current_size_def bindE_def split: sum.splits if_splits)
  show ?thesis
  proof (cases "t = f_last_modified f \<and> n = f_size f")
    case True
    with Inr x assms(2) have "f' = f" "r = Inr False" by (auto simp: checkUpdated_def)
    moreover have "current_file V fl fs f" using True q assms(3) by (simp add: current_file_def)
    ultimately show ?thesis by blast
  next
    case False
    define f1 where "f1 = f\<lparr>f_size := n, f_last_modified := t, f_last_modified_string := get_date_string t\<rparr>"
    obtain r2 f2 where rd: "read_file fl fs f1 = (r2, f2)" by fastforce
    have "unreadable fl fs (f_path f1) r2 \<or> r2 = Inr () \<and> current_file V fl fs f2"
      by (rule read_described [OF assms(1) rd]) (use q in \<open>simp_all add: f1_def\<close>)
    moreover have "checkUpdated fl fs f = (case r2 of Inl e \<Rightarrow> Inl e | Inr _ \<Rightarrow> Inr True, f2)"
      unfolding checkUpdated_def Inr x by (simp add: if_not_P [OF False] f1_def [symmetric] rd split: sum.splits)
    ultimately show ?thesis using assms(2) by (auto simp: unreadable_def f1_def)
  qed
qed

lemma refresh_described:
  assumes "described V fl fs" "refresh_entry fl fs sv f = (r, f')" "fs_cache_setting sv = 1"
    and "f_last_modified f = 0 \<or> holds_file V f"
  shows "(\<exists>e. r = Inl e) \<and> (f_last_modified f' = 0 \<or> holds_file V f') \<or> unreadable fl fs (f_path f) r \<or>
    r = Inr () \<and> current_file V fl fs f'"
proof (cases "f_last_modified f = 0")
  case False
  obtain r1 f1 where c: "checkUpdated fl fs f = (r1, f1)" by fastforce
  with assms(2,3) False have "r = bindE r1 (\<lambda>_. Inr ())" "f' = f1" by (auto simp: refresh_entry_def)
  with checked_described [OF assms(1) c] assms(4) False show ?thesis by (auto simp: bindE_def unreadable_def)
next
  case True
  obtain r1 f1 where u: "update fl fs f = (r1, f1)" by fastforce
  have step: "refresh_entry fl fs sv f = (case (r1, f1) of (Inl e, f1) \<Rightarrow> (Inl e, f1) | (Inr _, f1) \<Rightarrow>
      if fs_max_cache_size sv = 0 \<or> f_size f1 \<le> fs_max_cache_size sv then read_file fl fs f1 else (Inr (), resetFileContent 0 f1))"
    using True u by (simp add: refresh_entry_def)
  show ?thesis
  proof (cases r1)
    case (Inl e)
    with step assms(2) update_described [OF assms(1) u] True show ?thesis by auto
  next
    case (Inr x)
    with update_described [OF assms(1) u] have
      f1: "fs_file_size fl fs (f_path f1) = Inr (f_size f1)" "fs_last_write_time fl fs (f_path f1) = Inr (f_last_modified f1)"
        "f_last_modified_string f1 = get_date_string (f_last_modified f1)" "f_path f1 = f_path f" by auto
    then have "f_size f1 = length (V (f_path f1) (f_last_modified f1))" using assms(1) unfolding described_def by blast
    with f1 have "current_file V fl fs (resetFileContent 0 f1)" by (simp add: resetFileContent_def current_file_def holds_file_def)
    with step Inr assms(2) read_described [OF assms(1) _ f1(1-3), of r f'] f1(4) show ?thesis by (auto split: if_splits)
  qed
qed

lemma cache_current_update:
  assumes "cache_current V fl sv" "requested_path fl sv k = Some (f_path f)" "f_last_modified f = 0 \<or> holds_file V f"
  shows "cache_current V fl (sv\<lparr>fs_cache_map := map_assign k f (fs_cache_map sv)\<rparr>)"
    "cache_current V fl (sv\<lparr>fs_cache_map := map_insert k f (fs_cache_map sv)\<rparr>)"
  using assms by (auto simp: cache_current_def requested_path_def ordered_map_assign ordered_map_insert map_find_assign map_find_insert
      split: if_splits)

definition answered :: "(string \<Rightarrow> int \<Rightarrow> string) \<Rightarrow> 'fs fs_lib \<Rightarrow> 'fs \<Rightarrow> bool \<Rightarrow> string \<Rightarrow> string \<Rightarrow> (string + ResponseType \<times> DiskFile) \<Rightarrow> bool" where
  "answered V fl fs head ims path r \<longleftrightarrow> (\<forall>t f. r = Inr (t, f) \<longrightarrow> t = RESPONSE_UNDEFINED \<or> t = RESPONSE_NOT_FOUND \<or>
     t = response_type_for head ims f \<and> f_path f = path \<and> current_file V fl fs f)"

lemma cached_current:
  assumes "described V fl fs" "cache_current V fl sv" "requested_path fl sv rel = Some path"
    and "cached_response fl fs head ims rel sv = (r, sv')"
  shows "(cache_current V fl sv' \<or> unreadable fl fs path r) \<and> same_service sv sv' \<and> answered V fl fs head ims path r \<and>
    (\<forall>f. r = Inr (RESPONSE_UNDEFINED, f) \<longrightarrow> sv' = sv)"
proof -
  have setting: "fs_cache_setting sv = 1" using assms(2) by (simp add: cache_current_def)
  show ?thesis
  proof (cases "map_find rel (fs_cache_map sv)")
    case None
    with assms(2,4) setting show ?thesis by (auto simp: cached_response_def answered_def split: if_splits)
  next
    case (Some entry)
    obtain r1 e1 where u: "refresh_entry fl fs sv entry = (r1, e1)" by fastforce
    have "f_last_modified entry = 0 \<or> holds_file V entry" and path: "f_path entry = path"
      using assms(2,3) Some by (auto simp: cache_current_def)
    note ref = refresh_described [OF assms(1) u setting this(1)]
    have e1: "f_path e1 = path" using refresh_entry_path [OF u] path by simp
    have res: "sv' = sv\<lparr>fs_cache_map := map_assign rel e1 (fs_cache_map sv)\<rparr>"
      "r = bindE r1 (\<lambda>_. Inr (response_type_for head ims e1, e1))"
      using assms(4) Some setting u by (auto simp: cached_response_def)
    have same: "same_service sv sv'" unfolding same_service_def res(1) by blast
    have sane: "response_type_for head ims e1 \<noteq> RESPONSE_UNDEFINED" by (simp add: response_type_for_def)
    note keeps = cache_current_update(1) [OF assms(2), of rel e1, unfolded assms(3) e1]
    from ref consider "unreadable fl fs path r" "\<exists>e. r = Inl e" | "\<exists>e. r = Inl e" "f_last_modified e1 = 0 \<or> holds_file V e1"
      | "r1 = Inr ()" "current_file V fl fs e1"
      unfolding path res(2) unreadable_def by (auto simp: bindE_def)
    then show ?thesis
    proof cases
      case 1
      with same show ?thesis by (auto simp: answered_def)
    next
      case 2
      with same keeps res(1) show ?thesis by (auto simp: answered_def)
    next
      case 3
      then have "cache_current V fl sv'" unfolding res(1) by (intro keeps) (auto simp: current_file_def)
      with 3 same e1 sane res(2) show ?thesis by (auto simp: answered_def)
    qed
  qed
qed

lemma fresh_current:
  assumes "described V fl fs" "cache_current V fl sv" "requested_path fl sv rel = Some path"
    and "fresh_response fl fs head ims rel path sv = (r, sv')"
  shows "cache_current V fl sv' \<and> answered V fl fs head ims path r \<and>
    (\<forall>f. r = Inr (RESPONSE_NOT_FOUND, f) \<longrightarrow> fs_exists fl fs path = Inr False) \<and> (\<forall>f. r \<noteq> Inr (RESPONSE_UNDEFINED, f))"
proof -
  obtain r1 f1 where u: "update fl fs (DiskFile_for path (findMIMEType (path_leaf fl path))) = (r1, f1)" by fastforce
  obtain r2 f2 where rd: "(if fs_max_cache_size sv = 0 \<or> f_size f1 \<le> fs_max_cache_size sv then read_file fl fs f1 else (Inr (), f1)) = (r2, f2)"
    by fastforce
  have sane: "response_type_for head ims f1 \<noteq> RESPONSE_UNDEFINED" "response_type_for head ims f1 \<noteq> RESPONSE_NOT_FOUND"
    by (simp_all add: response_type_for_def)
  show ?thesis
  proof (cases "fs_exists fl fs path = Inr True \<and> r1 = Inr ()")
    case False
    then have "sv' = sv" "\<forall>t f. r = Inr (t, f) \<longrightarrow> t = RESPONSE_NOT_FOUND \<and> fs_exists fl fs path = Inr False"
      using assms(4) u by (auto simp: fresh_response_def split: sum.splits bool.splits)
    then show ?thesis using assms(2) by (auto simp: answered_def)
  next
    case True
    with update_described [OF assms(1) u] have cur: "current_file V fl fs f1" "f_path f1 = path"
      by (auto simp: DiskFile_for_def DiskFile_init_def)
    then have f1: "fs_file_size fl fs (f_path f1) = Inr (f_size f1)" "fs_last_write_time fl fs (f_path f1) = Inr (f_last_modified f1)"
      "f_last_modified_string f1 = get_date_string (f_last_modified f1)" by (simp_all add: current_file_def holds_file_def)
    show ?thesis
    proof (cases "response_type_for head ims f1 = RESPONSE_OK \<and> fs_cache_setting sv \<noteq> 0")
      case on: True
      have "(\<exists>e. r2 = Inl e) \<or> r2 = Inr () \<and> current_file V fl fs f2 \<and> f_path f2 = path \<and> f_last_modified_string f2 = f_last_modified_string f1"
        using rd cur read_described [OF assms(1) _ f1, of r2 f2] read_file_frame [of fl fs f1 r2 f2]
        by (auto simp: unreadable_def split: if_splits)
      then show ?thesis
      proof
        assume "\<exists>e. r2 = Inl e"
        with True u rd on assms(4) have "\<exists>e. r = Inl e" "sv' = sv" by (auto simp: fresh_response_def)
        with assms(2) show ?thesis by (auto simp: answered_def)
      next
        assume r2: "r2 = Inr () \<and> current_file V fl fs f2 \<and> f_path f2 = path \<and> f_last_modified_string f2 = f_last_modified_string f1"
        with True u rd on assms(4) have r: "r = Inr (RESPONSE_OK, f2)" "sv' = sv\<lparr>fs_cache_map := map_insert rel f2 (fs_cache_map sv)\<rparr>"
          by (auto simp: fresh_response_def)
        have "cache_current V fl sv'" unfolding r(2)
          by (rule cache_current_update(2) [OF assms(2)]) (use r2 assms(3) in \<open>auto simp: current_file_def\<close>)
        moreover have "response_type_for head ims f2 = RESPONSE_OK" using on r2 by (simp add: response_type_for_def)
        ultimately show ?thesis using r(1) r2 by (auto simp: answered_def)
      qed
    next
      case False
      with True u assms(4) have "r = Inr (response_type_for head ims f1, f1)" "sv' = sv" by (auto simp: fresh_response_def)
      with cur assms(2) sane show ?thesis by (auto simp: answered_def)
    qed
  qed
qed

text \<open>The scan when the service starts: the entries of a directory are named by what follows the directory of the
  service, and the paths of the options are normal.\<close>

definition entries_named :: "'fs fs_lib \<Rightarrow> string \<Rightarrow> bool" where
  "entries_named fl dir \<longleftrightarrow> (\<forall>fs d ps p. fs_entries fl fs d = Inr ps \<longrightarrow> p \<in> set ps \<longrightarrow> prefix dir d \<longrightarrow>
     prefix dir p \<and> drop (length dir + 1) p \<noteq> [] \<and> path_normalize fl (path_append fl dir (drop (length dir + 1) p)) = p)"

lemma addCacheEntry_current:
  assumes "described V fl fs" "cache_current V fl sv" "requested_path fl sv rel = Some path"
    and "addCacheEntry fl fs rel path ph sv = (r, sv')"
  shows "cache_current V fl sv' \<and> same_service sv sv'"
proof -
  define e where "e = DiskFile_for path (findMIMEType (path_leaf fl path))"
  obtain r1 e1 where u: "update fl fs e = (r1, e1)" by fastforce
  obtain r2 e2 where rd: "read_file fl fs e1 = (r2, e2)" by fastforce
  have e: "f_path e = path" "f_last_modified e = 0" "f_content e = None" by (simp_all add: e_def DiskFile_for_def DiskFile_init_def)
  have e1: "r1 = Inr () \<Longrightarrow> current_file V fl fs e1 \<and> f_path e1 = path" using update_described [OF assms(1) u] e by auto
  then have e2: "r1 = Inr () \<Longrightarrow> r2 = Inr () \<Longrightarrow> current_file V fl fs e2 \<and> f_path e2 = path"
    using read_described [OF assms(1) rd] read_file_frame [OF rd] by (auto simp: current_file_def holds_file_def unreadable_def)
  have "sv' = sv \<or> (\<exists>f. f_path f = path \<and> (f_last_modified f = 0 \<or> holds_file V f) \<and>
      sv' = sv\<lparr>fs_cache_map := map_insert rel f (fs_cache_map sv)\<rparr>)"
    using assms(4) u rd e e1 e2 unfolding addCacheEntry_def e_def [symmetric] Let_def
    by (auto simp: current_file_def split: if_splits sum.splits)
  then show ?thesis
  proof
    assume "\<exists>f. f_path f = path \<and> (f_last_modified f = 0 \<or> holds_file V f) \<and>
      sv' = sv\<lparr>fs_cache_map := map_insert rel f (fs_cache_map sv)\<rparr>"
    then obtain f where f: "f_path f = path" "f_last_modified f = 0 \<or> holds_file V f"
      "sv' = sv\<lparr>fs_cache_map := map_insert rel f (fs_cache_map sv)\<rparr>" by blast
    have "same_service sv sv'" unfolding same_service_def f(3) by blast
    with cache_current_update(2) [OF assms(2), of rel f] f assms(3) show ?thesis by simp
  qed (use assms(2) in simp)
qed

lemma file_start_current:
  assumes "described V fl fs" "cache_current V fl sv" "entries_named fl (fs_directory sv)"
    and "path_normalize fl (fs_file sv) = fs_file sv" "file_start n fl fs sv = Some (r, sv')"
  shows "cache_current V fl sv' \<and> same_service sv sv'"
proof (cases "fs_scan_setting sv = 0")
  case True
  with assms show ?thesis by (simp add: file_start_def)
next
  case False
  define dir where "dir = fs_directory sv"
  have setting: "fs_cache_setting sv = 1" using assms(2) by (simp add: cache_current_def)
  obtain r2 sv2 where add: "(if fs_file sv \<noteq> [] then addCacheEntry fl fs [] (fs_file sv) (fs_scan_setting sv = 1) sv
      else (Inr True, sv)) = (r2, sv2)" by fastforce
  have sv2: "cache_current V fl sv2 \<and> same_service sv sv2"
    using add assms(2,4) addCacheEntry_current [OF assms(1,2), of "[]" "fs_file sv" _ r2 sv2]
    by (auto simp: requested_path_def split: if_splits)
  have scan: "cache_current V fl sv' \<and> same_service sv sv'" if "dir \<noteq> []" "scanDirectory n fl fs dir sv2 = Some (r, sv')"
  proof (rule scanDirectory_keeps [of fl "\<lambda>p. prefix dir p \<and> (p = dir \<or> drop (length dir + 1) p \<noteq> [] \<and>
      path_normalize fl (path_append fl dir (drop (length dir + 1) p)) = p)" fs "\<lambda>sv'. cache_current V fl sv' \<and> same_service sv sv'", OF _ _ that(2) sv2])
    fix fs d ps p
    assume "fs_entries fl fs d = Inr ps" "p \<in> set ps" "prefix dir d \<and> (d = dir \<or> drop (length dir + 1) d \<noteq> [] \<and>
      path_normalize fl (path_append fl dir (drop (length dir + 1) d)) = d)"
    with assms(3) show "prefix dir p \<and> (p = dir \<or> drop (length dir + 1) p \<noteq> [] \<and>
      path_normalize fl (path_append fl dir (drop (length dir + 1) p)) = p)" unfolding entries_named_def dir_def by blast
  next
    fix p sva r' svb
    assume a: "addCacheEntry fl fs (drop (length (fs_directory sva) + 1) p) p (fs_scan_setting sva = 1) sva = (r', svb)"
      "cache_current V fl sva \<and> same_service sv sva" "prefix dir p \<and> (p = dir \<or> drop (length dir + 1) p \<noteq> [] \<and>
        path_normalize fl (path_append fl dir (drop (length dir + 1) p)) = p)" "length (fs_directory sva) < length p"
    have d: "fs_directory sva = dir" using a(2) same_serviceD(2) unfolding dir_def by blast
    with a(3,4) that(1) have "requested_path fl sva (drop (length (fs_directory sva) + 1) p) = Some p"
      by (auto simp: requested_path_def)
    from addCacheEntry_current [OF assms(1) conjunct1 [OF a(2)] this a(1)] same_service_trans [OF conjunct2 [OF a(2)], of svb]
    show "cache_current V fl svb \<and> same_service sv svb" by blast
  qed simp
  have "fs_directory sv2 = dir" using sv2 same_serviceD(2) unfolding dir_def by blast
  moreover have "file_start n fl fs sv = (case r2 of Inl e \<Rightarrow> Some (Inl e, sv2) | Inr _ \<Rightarrow>
      if fs_directory sv2 \<noteq> [] then scanDirectory n fl fs (fs_directory sv2) sv2 else Some (Inr (), sv2))"
    using False setting add by (simp add: file_start_def split: sum.splits)
  ultimately show ?thesis using assms(5) sv2 scan by (cases r2) (auto split: if_splits)
qed

text \<open>C28: With the checking cache, as long as the size of a file is that of its content and its content is determined by
  its path and time, the file that is delivered is the one whose path the request asks for, as it is on
  the disk at the time of the request: its size, its date and, when the cache holds it, its content, byte for byte
  what a reader of the file reads; and "not modified" exactly when its date is the one the client sent. "Not found" is
  said only of a file that is not in the cache and does not exist or may not be added. A request keeps the
  cache so, except one that is answered by an exception because the file cannot be read: then the entry
  of that file is broken, as \<open>unreadable_update_sent\<close> shows, and nothing is claimed of later requests.\<close>

theorem cache_serves_current:
  assumes "described V fl fs" "cache_current V fl sv" "requested_path fl sv rel = Some path"
    and "find_response fl fs head ims rel path sv = (r, sv')"
  shows "(cache_current V fl sv' \<or> fs_contents fl fs path = None \<and> r = Inl (''FileService unable to read file: '' @ path)) \<and>
     (\<forall>t f. r = Inr (t, f) \<longrightarrow> t \<noteq> RESPONSE_UNDEFINED \<and>
        (t = RESPONSE_NOT_FOUND \<longrightarrow> map_find rel (fs_cache_map sv) = None \<and>
           (fs_scan_setting sv = 1 \<or> fs_scan_setting sv = 3 \<or> fs_exists fl fs path = Inr False)) \<and>
        (t \<noteq> RESPONSE_NOT_FOUND \<longrightarrow> f_path f = path \<and> current_file V fl fs f \<and>
           (\<forall>text. fs_contents fl fs path = Some text \<longrightarrow>
              f_size f = length text \<and> (f_content f = None \<or> f_content f = Some (map Some text))) \<and>
           (t = RESPONSE_NOT_MODIFIED \<longleftrightarrow> f_last_modified_string f = ims) \<and>
           (t = RESPONSE_HEAD_OK \<longrightarrow> head) \<and> (t = RESPONSE_OK \<longrightarrow> \<not> head)))"
proof -
  obtain r1 sv1 where c: "cached_response fl fs head ims rel sv = (r1, sv1)" by fastforce
  note cc = cached_current [OF assms(1-3) c]
  have setting: "fs_cache_setting sv = 1" using assms(2) by (simp add: cache_current_def)
  have nf: "map_find rel (fs_cache_map sv) = None \<and> (fs_scan_setting sv = 1 \<or> fs_scan_setting sv = 3)"
    if "r1 = Inr (RESPONSE_NOT_FOUND, f)" for f
    using that c setting by (auto simp: cached_response_def response_type_for_def bindE_def split: option.splits if_splits prod.splits sum.splits)
  have un: "map_find rel (fs_cache_map sv) = None" if "r1 = Inr (RESPONSE_UNDEFINED, f)" for f
    using that c setting by (auto simp: cached_response_def response_type_for_def bindE_def split: option.splits if_splits prod.splits sum.splits)
  have all: "(cache_current V fl sv' \<or> unreadable fl fs path r) \<and> answered V fl fs head ims path r \<and>
    (\<forall>f. r \<noteq> Inr (RESPONSE_UNDEFINED, f)) \<and> (\<forall>f. r = Inr (RESPONSE_NOT_FOUND, f) \<longrightarrow> map_find rel (fs_cache_map sv) = None \<and>
       (fs_scan_setting sv = 1 \<or> fs_scan_setting sv = 3 \<or> fs_exists fl fs path = Inr False))"
  proof (cases "\<exists>f. r1 = Inr (RESPONSE_UNDEFINED, f)")
    case True
    then have "fresh_response fl fs head ims rel path sv = (r, sv')" using assms(4) c cc by (auto simp: find_response_def)
    from fresh_current [OF assms(1-3) this] un True show ?thesis by blast
  next
    case False
    then have "(r, sv') = (r1, sv1)" using assms(4) c
      by (auto simp: find_response_def split: sum.splits prod.splits ResponseType.splits)
    with cc False nf show ?thesis by auto
  qed
  have content: "f_size f = length bs \<and> (f_content f = None \<or> f_content f = Some (map Some bs))"
    if "current_file V fl fs f" "f_path f = path" "fs_contents fl fs path = Some bs" for f bs
  proof -
    have "bs = V (f_path f) (f_last_modified f)" using that assms(1) unfolding described_def current_file_def by metis
    with that(1) show ?thesis by (simp add: current_file_def holds_file_def)
  qed
  have found: "f_path f = path \<and> current_file V fl fs f \<and> t = response_type_for head ims f"
    if "r = Inr (t, f)" "t \<noteq> RESPONSE_NOT_FOUND" for t f
    using all that unfolding answered_def by blast
  have kind: "(t = RESPONSE_NOT_MODIFIED \<longleftrightarrow> f_last_modified_string f = ims) \<and> (t = RESPONSE_HEAD_OK \<longrightarrow> head) \<and> (t = RESPONSE_OK \<longrightarrow> \<not> head)"
    if "t = response_type_for head ims f" for t f
    using that by (simp add: response_type_for_def)
  have kept: "cache_current V fl sv' \<or> fs_contents fl fs path = None \<and> r = Inl (''FileService unable to read file: '' @ path)"
    using all unfolding unreadable_def by blast
  show ?thesis using kept all found kind content by blast
qed

section \<open>Witnesses\<close>

text \<open>A file system of regular files with POSIX paths.\<close>

fun split_path :: "string \<Rightarrow> string \<Rightarrow> string list" where
  "split_path part [] = [part]"
| "split_path part (c # cs) = (if c = CHR ''/'' then part # split_path [] cs else split_path (part @ [c]) cs)"

fun resolve :: "string list \<Rightarrow> string list \<Rightarrow> string list" where
  "resolve done_parts [] = done_parts"
| "resolve done_parts (p # ps) =
     (if p = ''.'' then resolve done_parts ps
      else if p = ''..'' then resolve (butlast done_parts) ps
      else resolve (done_parts @ [p]) ps)"

fun join_path :: "string list \<Rightarrow> string" where
  "join_path [] = []"
| "join_path [p] = p"
| "join_path (p # ps) = p @ ''/'' @ join_path ps"

definition tree_files :: "(string \<times> string) list fs_lib" where
  "tree_files = \<lparr>path_append = (\<lambda>a b. a @ ''/'' @ b), path_normalize = (\<lambda>s. join_path (resolve [] (split_path [] s))),
     path_leaf = (\<lambda>s. last (split_path [] s)), path_branch = (\<lambda>s. join_path (butlast (split_path [] s))),
     fs_exists = (\<lambda>fs p. Inr (map_of fs p \<noteq> None)), fs_is_directory = (\<lambda>_ _. Inr False),
     fs_file_size = (\<lambda>fs p. case map_of fs p of None \<Rightarrow> Inl ''no such file'' | Some t \<Rightarrow> Inr (length t)),
     fs_last_write_time = (\<lambda>fs p. case map_of fs p of None \<Rightarrow> Inl ''no such file'' | Some t \<Rightarrow> Inr 86400),
     fs_contents = map_of, fs_entries = (\<lambda>_ _. Inr []),
     fs_write = (\<lambda>app p d fs. (p, (if app then (case map_of fs p of None \<Rightarrow> [] | Some t \<Rightarrow> t) else []) @ d) # fs),
     fs_remove = (\<lambda>p fs. (Inr (), filter (\<lambda>e. fst e \<noteq> p) fs))\<rparr>"

definition www_service :: "nat \<Rightarrow> FileService" where
  "www_service cache = FileService_init\<lparr>fs_resource := ''/f'', fs_directory := ''/srv/www'', fs_cache_setting := cache\<rparr>"

definition secret_key :: string where
  "secret_key = ''/srv/www-secret/key''"

definition www_ctx :: "(string \<times> string) list file_world ctx" where
  "www_ctx = \<lparr>x_request = HTTPRequest_init ''/f/../www-secret/key'', x_conn = TCPConnection_init,
     x_world = \<lparr>fw_service = www_service 0, fw_fs = [(secret_key, ''k'')]\<rparr>\<rparr>"

definition secret_file :: DiskFile where
  "secret_file = (DiskFile_for secret_key DEFAULT_MIME_TYPE)\<lparr>f_size := 1, f_last_modified := 86400, f_last_modified_string := get_date_string 86400\<rparr>"

lemma secret_mime: "findMIMEType (path_leaf tree_files secret_key) = DEFAULT_MIME_TYPE"
  by (simp add: tree_files_def secret_key_def findMIMEType_def extension_of_def mime_types_def tolower_def)

lemma www_facts:
  "update tree_files [(secret_key, ''k'')] (DiskFile_for secret_key DEFAULT_MIME_TYPE) = (Inr (), secret_file)"
  "getRelativeResource ''/f'' ''/f/../www-secret/key'' = ''../www-secret/key''"
  "path_normalize tree_files (path_append tree_files ''/srv/www'' ''../www-secret/key'') = secret_key"
  by (simp_all add: update_def current_size_def tree_files_def secret_file_def secret_key_def DiskFile_for_def Let_def getRelativeResource_def)

lemma tree_queries: "fs_is_directory tree_files fs p = Inr False" "fs_exists tree_files fs p = Inr (map_of fs p \<noteq> None)"
  by (simp_all add: tree_files_def)

lemma www_service_off: "fs_cache_setting (www_service n) = n" "fs_scan_setting (www_service n) = 0"
  by (simp_all add: www_service_def FileService_init_def)

lemma sibling_directory_served_witness:
  "\<exists>s. file_service writer_example_lib tree_files www_ctx = sender_send writer_example_lib tree_files [(secret_key, ''k'')] s www_ctx \<and>
     f_path (s_disk_file s) = ''/srv/www-secret/key''"
proof -
  obtain s where "DiskFileSender_create secret_file (x_request www_ctx) 0 = Inr s"
    using example_request_sender [of secret_file "''/f/../www-secret/key''" 0] by (auto simp: www_ctx_def)
  then have s: "DiskFileSender_create secret_file (x_request www_ctx) (fs_max_chunk_size (www_service 0)) = Inr s"
    by (simp add: www_service_def FileService_init_def)
  have request: "as_request (x_request www_ctx) = Inr \<lparr>m_method = REQUEST_METHOD_GET, m_resource = ''/f/../www-secret/key'',
       m_original_resource = [], m_query_string = [], m_query_params = [], m_charset = []\<rparr>"
    by (simp add: www_ctx_def as_request_def HTTPRequest_init_def HTTPMessage_init_def)
  have "getHeader HEADER_IF_MODIFIED_SINCE (x_request www_ctx) = []"
    by (simp add: www_ctx_def getHeader_def HTTPRequest_init_def HTTPMessage_init_def getValue_def dict_find_def equal_range_def)
  then have date: "getHeader HEADER_IF_MODIFIED_SINCE (x_request www_ctx) \<noteq> f_last_modified_string secret_file"
    using get_date_string_not_Nil [of 86400, symmetric] by (simp add: secret_file_def)
  have dir: "fs_directory (www_service 0) = ''/srv/www''" "fs_resource (www_service 0) = ''/f''"
    "fs_directory (www_service 0) @ ''-secret/key'' = secret_key" "fw_fs (x_world www_ctx) = [(secret_key, ''k'')]"
    "fw_service (x_world www_ctx) = www_service 0"
    by (simp_all add: www_service_def FileService_init_def secret_key_def www_ctx_def)
  have "file_service writer_example_lib tree_files www_ctx = sender_send writer_example_lib tree_files (fw_fs (x_world www_ctx)) s www_ctx \<and>
      f_path (s_disk_file s) = fs_directory (www_service 0) @ ''-secret/key''"
    by (rule sibling_directory_served [OF request _ dir(5) _ _ _ _ _ _ _ _ _ date s, of "''../www-secret/key''"], unfold dir(3) secret_mime)
      (simp_all add: dir(1,2,4) www_facts tree_queries www_service_off)
  with dir show ?thesis by (auto simp: secret_key_def)
qed

lemma file_service_confined_witness:
  "\<exists>res c'. file_service writer_example_lib tree_files www_ctx = (res, c') \<and> cache_confined tree_files (fw_service (x_world c')) \<and>
     (\<forall>s. res = Inr (Some s) \<longrightarrow> prefix ''/srv/www'' (f_path (s_disk_file s))) \<and> fw_fs (x_world c') = [(secret_key, ''k'')]"
proof -
  obtain res c' where run: "file_service writer_example_lib tree_files www_ctx = (res, c')" by fastforce
  have "cache_confined tree_files (fw_service (x_world www_ctx))"
    by (simp add: www_ctx_def www_service_def FileService_init_def cache_confined_def map_find_def)
  from file_service_confined [OF run this] run show ?thesis
    by (auto simp: www_ctx_def www_service_def FileService_init_def allowed_def)
qed

lemma cache_serves_current_witness:
  "\<exists>t f sv'. find_response tree_files [(''/srv/www/a'', ''k'')] False [] ''a'' ''/srv/www/a'' (www_service 1) = (Inr (t, f), sv') \<and>
     f_path f = ''/srv/www/a'' \<and> f_size f = 1 \<and> f_content f \<in> {None, Some [Some (CHR ''k'')]} \<and> t = RESPONSE_OK \<and>
     cache_current (\<lambda>_ _. ''k'') tree_files sv'"
proof -
  have d: "described (\<lambda>_ _. ''k'') tree_files [(''/srv/www/a'', ''k'')]"
    by (auto simp: described_def tree_files_def)
  have c: "cache_current (\<lambda>_ _. ''k'') tree_files (www_service 1)"
    by (simp add: cache_current_def www_service_def FileService_init_def map_find_def)
  have p: "requested_path tree_files (www_service 1) ''a'' = Some ''/srv/www/a''"
    by (simp add: requested_path_def www_service_def FileService_init_def tree_files_def)
  obtain f sv' where "find_response tree_files [(''/srv/www/a'', ''k'')] False [] ''a'' ''/srv/www/a'' (www_service 1) = (Inr (RESPONSE_OK, f), sv')"
    by (simp add: find_response_def cached_response_def fresh_response_def www_service_def FileService_init_def map_find_def tree_files_def
        update_def current_size_def DiskFile_for_def response_type_for_def read_file_def Let_def get_date_string_not_Nil)
  with cache_serves_current [OF d c p this] show ?thesis by (auto simp: tree_files_def)
qed

end
