(* ===== verification/Plugin.thy ===== *)
theory Plugin
  imports Http_Server "HOL-Library.Multiset"
begin

text \<open>
  \<open>PionPlugin.hpp\<close> and \<open>PionPlugin.cpp\<close>: shared libraries that are found by name, opened once and closed when the
  last pointer to them goes. A \<open>PionPlugin\<close> object holds a pointer to reference-counted data; the objects of
  a program are numbered, and so are the data blocks on the heap. The file system and the dynamic linker
  are a parameter; a function is its address, and a null address is \<open>None\<close>. Locks, Windows and Cygwin are
  left out.
\<close>

section \<open>Computations on a state\<close>

text \<open>What a computation did before an exception stays.\<close>

type_synonym ('s, 'a) run_state = "'s \<Rightarrow> (exn + 'a) \<times> 's"

definition returnS :: "'a \<Rightarrow> ('s, 'a) run_state" where
  "returnS a s = (Inr a, s)"

definition throwS :: "string \<Rightarrow> ('s, 'a) run_state" where
  "throwS msg s = (Inl (Std_exception msg), s)"

definition faultS :: "fault \<Rightarrow> ('s, 'a) run_state" where
  "faultS f s = (Inl (Abort f), s)"

definition bindS :: "('s, 'a) run_state \<Rightarrow> ('a \<Rightarrow> ('s, 'b) run_state) \<Rightarrow> ('s, 'b) run_state" where
  "bindS m f s = (case m s of (Inl e, s') \<Rightarrow> (Inl e, s') | (Inr a, s') \<Rightarrow> f a s')"

definition modifyS :: "('s \<Rightarrow> 's) \<Rightarrow> ('s, unit) run_state" where
  "modifyS f s = (Inr (), f s)"

text \<open>A block whose objects are destroyed at its end, however it ends.\<close>

definition finallyS :: "('s, 'a) run_state \<Rightarrow> ('s, unit) run_state \<Rightarrow> ('s, 'a) run_state" where
  "finallyS m d s = (case m s of (r, s') \<Rightarrow> (case d s' of (Inl e, s'') \<Rightarrow> (Inl e, s'') | (Inr _, s'') \<Rightarrow> (r, s'')))"

lemma bindS_simps [simp]:
  "m s = (Inl e, s') \<Longrightarrow> bindS m f s = (Inl e, s')" "m s = (Inr a, s') \<Longrightarrow> bindS m f s = f a s'"
  "bindS (returnS a) f s = f a s" "bindS (throwS msg) f s = (Inl (Std_exception msg), s)" "bindS (modifyS g) h s = h () (g s)"
  by (simp_all add: bindS_def returnS_def throwS_def modifyS_def)

section \<open>The environment\<close>

record plugin_os =
  os_complete :: "string \<Rightarrow> string"
  os_exists :: "string \<Rightarrow> bool"
  os_is_regular :: "string \<Rightarrow> bool"
  os_append :: "string \<Rightarrow> string \<Rightarrow> string"
  os_basename :: "string \<Rightarrow> string"
  os_extension :: "string \<Rightarrow> string"
  os_leaf :: "string \<Rightarrow> string"
  os_entries :: "string \<Rightarrow> string list"
  os_dlopen :: "string \<Rightarrow> string option + nat"
  os_dlsym :: "nat \<Rightarrow> string \<Rightarrow> nat option"

text \<open>A failing \<open>dlopen\<close> delivers what \<open>dlerror\<close> says, if it says something.\<close>

section \<open>Names and exceptions\<close>

definition PION_PLUGIN_CREATE :: string where "PION_PLUGIN_CREATE = ''pion_create_''"
definition PION_PLUGIN_DESTROY :: string where "PION_PLUGIN_DESTROY = ''pion_destroy_''"
definition PION_PLUGIN_EXTENSION :: string where "PION_PLUGIN_EXTENSION = ''.so''"
definition PION_CONFIG_EXTENSION :: string where "PION_CONFIG_EXTENSION = ''.conf''"

definition PluginUndefinedException :: string where
  "PluginUndefinedException = ''Plug-in was not loaded properly''"
definition PluginDirectoryNotFoundException :: "string \<Rightarrow> string" where
  "PluginDirectoryNotFoundException dir = ''Plug-in directory not found: '' @ dir"
definition PluginLibraryNotFoundException :: "string \<Rightarrow> string" where
  "PluginLibraryNotFoundException file = ''Plug-in library not found: '' @ file"
definition OpenPluginException :: "string \<Rightarrow> string" where
  "OpenPluginException file = ''Unable to open plug-in library: '' @ file"
definition PluginMissingCreateException :: "string \<Rightarrow> string" where
  "PluginMissingCreateException file = ''Plug-in library does not include create() symbol: '' @ file"
definition PluginMissingDestroyException :: "string \<Rightarrow> string" where
  "PluginMissingDestroyException file = ''Plug-in library does not include destroy() symbol: '' @ file"

section \<open>The state\<close>

record PionPluginData =
  d_lib_handle :: "nat option"
  d_create_func :: "nat option"
  d_destroy_func :: "nat option"
  d_plugin_name :: string
  d_references :: nat

definition PionPluginData_init :: "string \<Rightarrow> PionPluginData" where
  "PionPluginData_init plugin_name =
     \<lparr>d_lib_handle = None, d_create_func = None, d_destroy_func = None, d_plugin_name = plugin_name, d_references = 0\<rparr>"

text \<open>\<open>pl_ptrs\<close> holds the live \<open>PionPlugin\<close> objects with their pointers; \<open>pl_loaded\<close> counts how often each library is open, and
  \<open>pl_closed\<close> lists the handles given to \<open>dlclose\<close>.\<close>

record plugins =
  pl_dirs :: "string list"
  pl_entry_points :: "(string \<times> nat \<times> nat) list"
  pl_map :: "(string, nat) std_map"
  pl_heap :: "nat \<Rightarrow> PionPluginData option"
  pl_next :: nat
  pl_ptrs :: "nat \<Rightarrow> nat option option"
  pl_loaded :: "nat multiset"
  pl_closed :: "nat option list"

definition plugins_init :: plugins where
  "plugins_init = \<lparr>pl_dirs = [], pl_entry_points = [], pl_map = [], pl_heap = (\<lambda>_. None), pl_next = 0,
     pl_ptrs = (\<lambda>_. None), pl_loaded = {#}, pl_closed = []\<rparr>"

section \<open>Search\<close>

definition addPluginDirectory :: "plugin_os \<Rightarrow> string \<Rightarrow> (plugins, unit) run_state" where
  "addPluginDirectory os dir =
     (let plugin_path = os_complete os dir
      in if \<not> os_exists os plugin_path then throwS (PluginDirectoryNotFoundException dir)
         else modifyS (\<lambda>s. s\<lparr>pl_dirs := pl_dirs s @ [plugin_path]\<rparr>))"

definition resetPluginDirectories :: "(plugins, unit) run_state" where
  "resetPluginDirectories = modifyS (\<lambda>s. s\<lparr>pl_dirs := []\<rparr>)"

definition checkForFile :: "plugin_os \<Rightarrow> string \<Rightarrow> string \<Rightarrow> string \<Rightarrow> string option" where
  "checkForFile os start_path name extension =
     (let test_path = (if name \<noteq> [] then os_append os start_path name else start_path);
          test_path' = (if name = [] then start_path @ extension else os_append os start_path (name @ extension))
      in if os_is_regular os test_path then Some test_path
         else if os_is_regular os test_path' then Some test_path' else None)"

fun search_dirs :: "plugin_os \<Rightarrow> string \<Rightarrow> string \<Rightarrow> string list \<Rightarrow> string option" where
  "search_dirs os name extension [] = None"
| "search_dirs os name extension (d # ds) =
     (case checkForFile os d name extension of Some f \<Rightarrow> Some f | None \<Rightarrow> search_dirs os name extension ds)"

definition findFile :: "plugin_os \<Rightarrow> string \<Rightarrow> string \<Rightarrow> plugins \<Rightarrow> string option" where
  "findFile os name extension s =
     (case checkForFile os name [] extension of Some f \<Rightarrow> Some f | None \<Rightarrow> search_dirs os name extension (pl_dirs s))"

definition findPluginFile :: "plugin_os \<Rightarrow> string \<Rightarrow> plugins \<Rightarrow> string option" where
  "findPluginFile os name = findFile os name PION_PLUGIN_EXTENSION"

definition findConfigFile :: "plugin_os \<Rightarrow> string \<Rightarrow> plugins \<Rightarrow> string option" where
  "findConfigFile os name = findFile os name PION_CONFIG_EXTENSION"

definition getPluginName :: "plugin_os \<Rightarrow> string \<Rightarrow> string" where
  "getPluginName os plugin_file = os_basename os plugin_file"

definition getAllPluginNames :: "plugin_os \<Rightarrow> plugins \<Rightarrow> string list" where
  "getAllPluginNames os s =
     concat (map (\<lambda>dir. map (\<lambda>p. getPluginName os (os_leaf os p))
       (filter (\<lambda>p. os_is_regular os p \<and> os_extension os p = PION_PLUGIN_EXTENSION) (os_entries os dir))) (pl_dirs s))"

fun find_entry_point :: "string \<Rightarrow> (string \<times> nat \<times> nat) list \<Rightarrow> (nat \<times> nat) option" where
  "find_entry_point plugin_name [] = None"
| "find_entry_point plugin_name (e # es) = (if fst e = plugin_name then Some (snd e) else find_entry_point plugin_name es)"

definition findStaticEntryPoint :: "string \<Rightarrow> plugins \<Rightarrow> (nat \<times> nat) option" where
  "findStaticEntryPoint plugin_name s = find_entry_point plugin_name (pl_entry_points s)"

definition addStaticEntryPoint :: "string \<Rightarrow> nat \<Rightarrow> nat \<Rightarrow> (plugins, unit) run_state" where
  "addStaticEntryPoint plugin_name create_func destroy_func =
     modifyS (\<lambda>s. s\<lparr>pl_entry_points := pl_entry_points s @ [(plugin_name, create_func, destroy_func)]\<rparr>)"

section \<open>The reference-counted data\<close>

definition dlclose :: "nat option \<Rightarrow> plugins \<Rightarrow> plugins" where
  "dlclose h s =
     (let s' = s\<lparr>pl_closed := pl_closed s @ [h]\<rparr>
      in case h of None \<Rightarrow> s' | Some n \<Rightarrow> s'\<lparr>pl_loaded := pl_loaded s' - {#n#}\<rparr>)"

definition set_ptr :: "nat \<Rightarrow> nat option \<Rightarrow> plugins \<Rightarrow> plugins" where
  "set_ptr i p s = s\<lparr>pl_ptrs := (pl_ptrs s)(i \<mapsto> p)\<rparr>"

definition set_data :: "nat \<Rightarrow> PionPluginData option \<Rightarrow> plugins \<Rightarrow> plugins" where
  "set_data a d s = s\<lparr>pl_heap := (pl_heap s)(a := d)\<rparr>"

text \<open>Access to an object that is gone, or through a pointer to a block that was deleted, is a fault. The
  counter is an \<open>unsigned long\<close>.\<close>

definition get_ptr :: "nat \<Rightarrow> (plugins, nat option) run_state" where
  "get_ptr i s = (case pl_ptrs s i of None \<Rightarrow> faultS Dangling_pointer s | Some p \<Rightarrow> returnS p s)"

definition get_data :: "nat \<Rightarrow> (plugins, PionPluginData) run_state" where
  "get_data a s = (case pl_heap s a of None \<Rightarrow> faultS Dangling_pointer s | Some d \<Rightarrow> returnS d s)"

definition release_block :: "nat \<Rightarrow> PionPluginData \<Rightarrow> plugins \<Rightarrow> plugins" where
  "release_block a d s =
     (let n = (if d_references d = 0 then 2 ^ 64 - 1 else d_references d - 1)
      in if n = 0 then
           (let s1 = dlclose (d_lib_handle d) s
            in set_data a None (s1\<lparr>pl_map := map_erase (d_plugin_name d) (pl_map s1)\<rparr>))
         else set_data a (Some (d\<lparr>d_references := n\<rparr>)) s)"

definition releaseData :: "nat \<Rightarrow> (plugins, unit) run_state" where
  "releaseData i =
     bindS (get_ptr i) (\<lambda>p. case p of
       None \<Rightarrow> returnS ()
     | Some a \<Rightarrow> bindS (get_data a) (\<lambda>d. modifyS (\<lambda>s. set_ptr i None (release_block a d s))))"

definition add_reference :: "nat \<Rightarrow> nat \<Rightarrow> (plugins, unit) run_state" where
  "add_reference i a =
     bindS (get_data a) (\<lambda>d. modifyS (\<lambda>s. set_ptr i (Some a) (set_data a (Some (d\<lparr>d_references := d_references d + 1\<rparr>)) s)))"

definition grabData :: "nat \<Rightarrow> nat \<Rightarrow> (plugins, unit) run_state" where
  "grabData i j =
     bindS (releaseData i) (\<lambda>_.
       bindS (get_ptr j) (\<lambda>p. case p of
         None \<Rightarrow> modifyS (set_ptr i None)
       | Some a \<Rightarrow> add_reference i a))"

section \<open>Objects\<close>

definition plugin_construct :: "nat \<Rightarrow> (plugins, unit) run_state" where
  "plugin_construct i = modifyS (set_ptr i None)"

definition plugin_copy :: "nat \<Rightarrow> nat \<Rightarrow> (plugins, unit) run_state" where
  "plugin_copy i j = bindS (plugin_construct i) (\<lambda>_. grabData i j)"

definition plugin_assign :: "nat \<Rightarrow> nat \<Rightarrow> (plugins, unit) run_state" where
  "plugin_assign i j = grabData i j"

definition plugin_close :: "nat \<Rightarrow> (plugins, unit) run_state" where
  "plugin_close i = releaseData i"

definition plugin_destruct :: "nat \<Rightarrow> (plugins, unit) run_state" where
  "plugin_destruct i = bindS (releaseData i) (\<lambda>_. modifyS (\<lambda>s. s\<lparr>pl_ptrs := (pl_ptrs s)(i := None)\<rparr>))"

section \<open>Opening\<close>

definition openPlugin :: "plugin_os \<Rightarrow> string \<Rightarrow> (plugins, PionPluginData) run_state" where
  "openPlugin os plugin_file =
     (let name = getPluginName os plugin_file
      in case os_dlopen os (os_complete os plugin_file) of
           Inl (Some error_msg) \<Rightarrow> throwS (OpenPluginException (plugin_file @ '' ('' @ error_msg @ '')''))
         | Inl None \<Rightarrow> throwS (OpenPluginException plugin_file)
         | Inr h \<Rightarrow>
             bindS (modifyS (\<lambda>s. s\<lparr>pl_loaded := add_mset h (pl_loaded s)\<rparr>)) (\<lambda>_.
               case os_dlsym os h (PION_PLUGIN_CREATE @ name) of
                 None \<Rightarrow> bindS (modifyS (dlclose (Some h))) (\<lambda>_. throwS (PluginMissingCreateException plugin_file))
               | Some create_func \<Rightarrow>
                   (case os_dlsym os h (PION_PLUGIN_DESTROY @ name) of
                      None \<Rightarrow> bindS (modifyS (dlclose (Some h))) (\<lambda>_. throwS (PluginMissingDestroyException plugin_file))
                    | Some destroy_func \<Rightarrow>
                        returnS (PionPluginData_init name\<lparr>d_lib_handle := Some h, d_create_func := Some create_func,
                          d_destroy_func := Some destroy_func\<rparr>))))"

text \<open>A new block enters the map under its name.\<close>

definition new_block :: "PionPluginData \<Rightarrow> (plugins, nat) run_state" where
  "new_block d s =
     (Inr (pl_next s),
      (set_data (pl_next s) (Some d) s)\<lparr>pl_next := Suc (pl_next s), pl_map := map_insert (d_plugin_name d) (pl_next s) (pl_map s)\<rparr>)"

text \<open>The block of a name that is in the map, or a new one.\<close>

definition find_or_open :: "string \<Rightarrow> (plugins, PionPluginData) run_state \<Rightarrow> (plugins, nat) run_state" where
  "find_or_open name open_data s =
     (case map_find name (pl_map s) of
        None \<Rightarrow> bindS open_data new_block s
      | Some a \<Rightarrow> (Inr a, s))"

definition openFile :: "plugin_os \<Rightarrow> nat \<Rightarrow> string \<Rightarrow> (plugins, unit) run_state" where
  "openFile os i plugin_file =
     bindS (releaseData i) (\<lambda>_.
       bindS (find_or_open (getPluginName os plugin_file) (openPlugin os plugin_file)) (add_reference i))"

definition openStaticLinked :: "nat \<Rightarrow> string \<Rightarrow> nat \<Rightarrow> nat \<Rightarrow> (plugins, unit) run_state" where
  "openStaticLinked i plugin_name create_func destroy_func =
     bindS (releaseData i) (\<lambda>_.
       bindS (find_or_open plugin_name
                (returnS (PionPluginData_init plugin_name\<lparr>d_create_func := Some create_func, d_destroy_func := Some destroy_func\<rparr>)))
         (add_reference i))"

definition plugin_open :: "plugin_os \<Rightarrow> nat \<Rightarrow> string \<Rightarrow> (plugins, unit) run_state" where
  "plugin_open os i plugin_name s =
     (case findPluginFile os plugin_name s of
        None \<Rightarrow> throwS (PluginLibraryNotFoundException plugin_name) s
      | Some plugin_file \<Rightarrow> openFile os i plugin_file s)"

section \<open>Using the functions of a plug-in\<close>

definition plugin_is_open :: "nat \<Rightarrow> (plugins, bool) run_state" where
  "plugin_is_open i = bindS (get_ptr i) (\<lambda>p. returnS (p \<noteq> None))"

text \<open>\<open>getPluginName\<close> of an object.\<close>

definition current_plugin_name :: "nat \<Rightarrow> (plugins, string) run_state" where
  "current_plugin_name i =
     bindS (get_ptr i) (\<lambda>p. case p of
       None \<Rightarrow> returnS []
     | Some a \<Rightarrow> bindS (get_data a) (\<lambda>d. returnS (d_plugin_name d)))"

definition plugin_function :: "(PionPluginData \<Rightarrow> nat option) \<Rightarrow> nat \<Rightarrow> (plugins, nat option) run_state" where
  "plugin_function which i =
     bindS (get_ptr i) (\<lambda>p. case p of
       None \<Rightarrow> returnS None
     | Some a \<Rightarrow> bindS (get_data a) (\<lambda>d. returnS (which d)))"

definition getCreateFunction :: "nat \<Rightarrow> (plugins, nat option) run_state" where
  "getCreateFunction = plugin_function d_create_func"

definition getDestroyFunction :: "nat \<Rightarrow> (plugins, nat option) run_state" where
  "getDestroyFunction = plugin_function d_destroy_func"

text \<open>The address that \<open>create\<close> and \<open>destroy\<close> call.\<close>

definition required_function :: "(plugins, nat option) run_state \<Rightarrow> (plugins, nat) run_state" where
  "required_function f =
     bindS f (\<lambda>p. case p of None \<Rightarrow> throwS PluginUndefinedException | Some a \<Rightarrow> returnS a)"

end
