(* ===== verification/Plugin_Safety.thy ===== *)
theory Plugin_Safety
  imports Plugin
begin

text \<open>
  The reference counts of plug-ins are exact in every state a program can reach: a block lives as long as
  an object points to it, the map names exactly the live blocks, and a library is open once for each block
  that came from it.
\<close>

section \<open>The invariant\<close>

definition pointers_to :: "nat \<Rightarrow> plugins \<Rightarrow> nat set" where
  "pointers_to a s = {i. pl_ptrs s i = Some (Some a)}"

definition blocks_of :: "nat \<Rightarrow> plugins \<Rightarrow> nat set" where
  "blocks_of h s = {a. \<exists>d. pl_heap s a = Some d \<and> d_lib_handle d = Some h}"

text \<open>The blocks of \<open>X\<close> may be without references.\<close>

definition plugins_ok_upto :: "nat set \<Rightarrow> plugins \<Rightarrow> bool" where
  "plugins_ok_upto X s \<longleftrightarrow>
     finite (dom (pl_ptrs s)) \<and> ordered (pl_map s) \<and>
     (\<forall>k a. map_find k (pl_map s) = Some a \<longleftrightarrow> (\<exists>d. pl_heap s a = Some d \<and> d_plugin_name d = k)) \<and>
     (\<forall>a d. pl_heap s a = Some d \<longrightarrow> d_references d = card (pointers_to a s) \<and> (a \<notin> X \<longrightarrow> 0 < d_references d)) \<and>
     (\<forall>i a. pl_ptrs s i = Some (Some a) \<longrightarrow> pl_heap s a \<noteq> None) \<and>
     (\<forall>a. pl_next s \<le> a \<longrightarrow> pl_heap s a = None) \<and>
     (\<forall>h. count (pl_loaded s) h = card (blocks_of h s))"

abbreviation plugins_ok :: "plugins \<Rightarrow> bool" where
  "plugins_ok \<equiv> plugins_ok_upto {}"

lemma plugins_okD:
  assumes "plugins_ok_upto X s"
  shows "finite (dom (pl_ptrs s))" "ordered (pl_map s)"
    "map_find k (pl_map s) = Some a \<longleftrightarrow> (\<exists>d. pl_heap s a = Some d \<and> d_plugin_name d = k)"
    "pl_heap s a = Some d \<Longrightarrow> d_references d = card (pointers_to a s)"
    "pl_heap s a = Some d \<Longrightarrow> a \<notin> X \<Longrightarrow> 0 < d_references d"
    "pl_ptrs s i = Some (Some a) \<Longrightarrow> pl_heap s a \<noteq> None"
    "pl_next s \<le> a \<Longrightarrow> pl_heap s a = None" "count (pl_loaded s) h = card (blocks_of h s)"
  using assms unfolding plugins_ok_upto_def by blast+

lemma plugins_okI:
  assumes "finite (dom (pl_ptrs s))" "ordered (pl_map s)"
    and "\<And>k a. map_find k (pl_map s) = Some a \<longleftrightarrow> (\<exists>d. pl_heap s a = Some d \<and> d_plugin_name d = k)"
    and "\<And>a d. pl_heap s a = Some d \<Longrightarrow> d_references d = card (pointers_to a s)"
    and "\<And>a d. pl_heap s a = Some d \<Longrightarrow> a \<notin> X \<Longrightarrow> 0 < d_references d"
    and "\<And>i a. pl_ptrs s i = Some (Some a) \<Longrightarrow> pl_heap s a \<noteq> None"
    and "\<And>a. pl_next s \<le> a \<Longrightarrow> pl_heap s a = None" "\<And>h. count (pl_loaded s) h = card (blocks_of h s)"
  shows "plugins_ok_upto X s"
  unfolding plugins_ok_upto_def by (intro conjI allI impI assms)

lemma finite_pointers: "finite (dom (pl_ptrs s)) \<Longrightarrow> finite (pointers_to a s)"
  by (rule finite_subset [of _ "dom (pl_ptrs s)"]) (auto simp: pointers_to_def)

lemma finite_blocks:
  assumes "plugins_ok_upto X s"
  shows "finite (blocks_of h s)"
proof (rule finite_subset)
  show "blocks_of h s \<subseteq> {..<pl_next s}"
  proof
    fix a assume "a \<in> blocks_of h s"
    then have "pl_heap s a \<noteq> None" by (auto simp: blocks_of_def)
    with plugins_okD(7) [OF assms, of a] show "a \<in> {..<pl_next s}" by (cases "pl_next s \<le> a") auto
  qed
qed simp

lemma plugins_ok_init: "plugins_ok plugins_init"
  by (simp add: plugins_ok_upto_def plugins_init_def pointers_to_def blocks_of_def map_find_def)

section \<open>Pointers that hold nothing\<close>

lemma ok_same_pointers:
  assumes "plugins_ok_upto X s" "pl_heap s' = pl_heap s" "pl_map s' = pl_map s" "pl_next s' = pl_next s" "pl_loaded s' = pl_loaded s"
    and "\<And>a. pointers_to a s' = pointers_to a s" "finite (dom (pl_ptrs s'))"
  shows "plugins_ok_upto X s'"
proof (rule plugins_okI)
  note D = plugins_okD [OF assms(1)]
  have "blocks_of h s' = blocks_of h s" for h by (simp add: blocks_of_def assms(2))
  then show "count (pl_loaded s') h = card (blocks_of h s')" for h using D(8) by (simp add: assms(5))
  show "pl_heap s' a \<noteq> None" if "pl_ptrs s' i = Some (Some a)" for i a
  proof -
    have "i \<in> pointers_to a s" using that assms(6) [of a] by (simp add: pointers_to_def set_eq_iff)
    then show ?thesis using D(6) by (simp add: pointers_to_def assms(2))
  qed
qed (use plugins_okD [OF assms(1)] assms(2-) in \<open>simp_all\<close>)

lemma ok_set_ptr_None:
  assumes "plugins_ok_upto X s" "\<And>a. pl_ptrs s i \<noteq> Some (Some a)"
  shows "plugins_ok_upto X (set_ptr i None s)"
  by (rule ok_same_pointers [OF assms(1)])
    (use assms(2) plugins_okD(1) [OF assms(1)] in \<open>auto simp: pointers_to_def set_ptr_def\<close>)

lemma ok_remove_ptr:
  assumes "plugins_ok_upto X s" "pl_ptrs s i = Some None"
  shows "plugins_ok_upto X (s\<lparr>pl_ptrs := (pl_ptrs s)(i := None)\<rparr>)"
proof (rule ok_same_pointers [OF assms(1)])
  have "dom ((pl_ptrs s)(i := None)) \<subseteq> dom (pl_ptrs s)" by auto
  then show "finite (dom (pl_ptrs (s\<lparr>pl_ptrs := (pl_ptrs s)(i := None)\<rparr>)))"
    using plugins_okD(1) [OF assms(1)] by (simp add: finite_subset)
qed (use assms(2) in \<open>auto simp: pointers_to_def\<close>)

section \<open>Releasing\<close>

lemma pointers_after_release:
  "pl_ptrs s i = Some (Some a) \<Longrightarrow> pointers_to b (set_ptr i None s) = (if b = a then pointers_to a s - {i} else pointers_to b s)"
  by (auto simp: pointers_to_def set_ptr_def)

lemma release_last:
  assumes ok: "plugins_ok s" and i: "pl_ptrs s i = Some (Some a)" and d: "pl_heap s a = Some d" and one: "d_references d = 1"
  shows "plugins_ok (set_ptr i None (release_block a d s))"
proof -
  define s' where "s' = set_ptr i None (release_block a d s)"
  note D = plugins_okD [OF ok]
  have s': "pl_heap s' = (pl_heap s)(a := None)" "pl_map s' = map_erase (d_plugin_name d) (pl_map s)" "pl_next s' = pl_next s"
    "pl_ptrs s' = (pl_ptrs s)(i \<mapsto> None)" "pl_loaded s' = (case d_lib_handle d of None \<Rightarrow> pl_loaded s | Some n \<Rightarrow> pl_loaded s - {#n#})"
    using one by (auto simp: s'_def release_block_def dlclose_def set_data_def set_ptr_def Let_def split: option.splits)
  have "pointers_to b s' = (if b = a then pointers_to a s - {i} else pointers_to b s)" for b
    using pointers_after_release [OF i, of b] by (simp add: pointers_to_def s'(4) set_ptr_def)
  moreover have mem: "i \<in> pointers_to a s" using i by (simp add: pointers_to_def)
  then have "pointers_to a s = {i}" using D(4) [OF d] one by (metis card_1_singletonE singletonD)
  ultimately have ptrs: "pointers_to a s' = {}" "b \<noteq> a \<Longrightarrow> pointers_to b s' = pointers_to b s" for b by auto
  have blocks: "blocks_of h s' = blocks_of h s - {a}" for h by (auto simp: blocks_of_def s'(1))
  have count: "count (pl_loaded s') h = card (blocks_of h s')" for h
  proof (cases "d_lib_handle d = Some h")
    case True
    then have "a \<in> blocks_of h s" using d by (simp add: blocks_of_def)
    with True show ?thesis using D(8) [of h] finite_blocks [OF ok] by (simp add: s'(5) blocks)
  next
    case False
    then have "a \<notin> blocks_of h s" using d by (auto simp: blocks_of_def)
    with False show ?thesis using D(8) [of h] by (auto simp: s'(5) blocks split: option.splits)
  qed
  have map_ok: "map_find k (pl_map s') = Some b \<longleftrightarrow> (\<exists>d'. pl_heap s' b = Some d' \<and> d_plugin_name d' = k)" for k b
    using D(3) [of k b] D(3) [of k a] d by (auto simp: s'(1,2) map_find_erase [OF D(2)])
  have "pl_heap s' b \<noteq> None" if "pl_ptrs s' j = Some (Some b)" for j b
  proof -
    have "j \<noteq> i" "pl_ptrs s j = Some (Some b)" using that by (auto simp: s'(4) split: if_splits)
    moreover from this have "b \<noteq> a" using \<open>pointers_to a s = {i}\<close> by (auto simp: pointers_to_def)
    ultimately show ?thesis using D(6) by (simp add: s'(1))
  qed
  moreover have "d_references e = card (pointers_to b s')" "0 < d_references e" if "pl_heap s' b = Some e" for b e
    using that D(4,5) [of b e] ptrs(2) [of b] by (auto simp: s'(1) split: if_splits)
  ultimately show ?thesis unfolding s'_def [symmetric]
    using D(1,2,7) count map_ok by (intro plugins_okI) (auto simp: s'(1-4) ordered_map_erase)
qed

lemma release_other:
  assumes ok: "plugins_ok s" and i: "pl_ptrs s i = Some (Some a)" and d: "pl_heap s a = Some d" and many: "d_references d \<noteq> 1"
  shows "plugins_ok (set_ptr i None (release_block a d s))"
proof -
  define s' where "s' = set_ptr i None (release_block a d s)"
  note D = plugins_okD [OF ok]
  have pos: "0 < d_references d" using D(5) [OF d] by simp
  have s': "pl_heap s' = (pl_heap s)(a \<mapsto> d\<lparr>d_references := d_references d - 1\<rparr>)" "pl_map s' = pl_map s" "pl_next s' = pl_next s"
    "pl_ptrs s' = (pl_ptrs s)(i \<mapsto> None)" "pl_loaded s' = pl_loaded s"
    using many pos by (auto simp: s'_def release_block_def set_data_def set_ptr_def Let_def)
  have ptrs: "pointers_to b s' = (if b = a then pointers_to a s - {i} else pointers_to b s)" for b
    using pointers_after_release [OF i, of b] by (simp add: pointers_to_def s'(4) set_ptr_def)
  have "i \<in> pointers_to a s" using i by (simp add: pointers_to_def)
  then have card_a: "card (pointers_to a s') = d_references d - 1"
    using ptrs [of a] D(4) [OF d] finite_pointers [OF D(1)] by simp
  have blocks: "blocks_of h s' = blocks_of h s" for h using d by (auto simp: blocks_of_def s'(1))
  have map_ok: "map_find k (pl_map s') = Some b \<longleftrightarrow> (\<exists>d'. pl_heap s' b = Some d' \<and> d_plugin_name d' = k)" for k b
    using D(3) [of k b] d by (cases "b = a") (simp_all add: s'(1,2))
  have "pl_heap s' b \<noteq> None" if "pl_ptrs s' j = Some (Some b)" for j b
    using that D(6) by (auto simp: s'(1,4) split: if_splits)
  moreover have "d_references e = card (pointers_to b s')" "0 < d_references e" if "pl_heap s' b = Some e" for b e
  proof -
    have "d_references e = card (pointers_to b s') \<and> 0 < d_references e"
    proof (cases "b = a")
      case True
      then have "e = d\<lparr>d_references := d_references d - 1\<rparr>" using that by (simp add: s'(1))
      then show ?thesis using card_a True many pos by simp
    next
      case False
      then have "pl_heap s b = Some e" using that by (simp add: s'(1))
      then show ?thesis using D(4,5) False ptrs [of b] by simp
    qed
    then show "d_references e = card (pointers_to b s')" "0 < d_references e" by simp_all
  qed
  moreover have "pl_heap s' b = None" if "pl_next s' \<le> b" for b using that D(7) d by (auto simp: s'(1,3))
  ultimately show ?thesis unfolding s'_def [symmetric]
    using D(1,2,8) map_ok by (intro plugins_okI) (simp_all add: s'(2,4,5) blocks)
qed

text \<open>Only the pointer itself changes among the objects.\<close>

lemma releaseData_ok:
  assumes "plugins_ok s" "pl_ptrs s i \<noteq> None"
  shows "\<exists>s'. releaseData i s = (Inr (), s') \<and> plugins_ok s' \<and> pl_ptrs s' = (pl_ptrs s)(i \<mapsto> None)"
proof -
  obtain p where p: "pl_ptrs s i = Some p" using assms(2) by blast
  show ?thesis
  proof (cases p)
    case None
    with p assms(1) show ?thesis
      by (intro exI [of _ s]) (auto simp: releaseData_def get_ptr_def returnS_def bindS_def)
  next
    case (Some a)
    with p plugins_okD(6) [OF assms(1)] obtain d where d: "pl_heap s a = Some d" by blast
    define s' where "s' = set_ptr i None (release_block a d s)"
    have "releaseData i s = (Inr (), s')"
      using p Some d by (simp add: releaseData_def get_ptr_def get_data_def returnS_def bindS_def modifyS_def s'_def)
    moreover have "plugins_ok s'" unfolding s'_def using release_last release_other assms(1) p Some d by blast
    moreover have "pl_ptrs s' = (pl_ptrs s)(i \<mapsto> None)"
      by (auto simp: s'_def set_ptr_def release_block_def set_data_def dlclose_def Let_def split: option.splits)
    ultimately show ?thesis by blast
  qed
qed

section \<open>Adding references and blocks\<close>

lemma add_reference_ok:
  assumes ok: "plugins_ok_upto {a} s" and i: "pl_ptrs s i = Some None" and a: "pl_heap s a \<noteq> None"
  shows "\<exists>s'. add_reference i a s = (Inr (), s') \<and> plugins_ok s' \<and> pl_ptrs s' = (pl_ptrs s)(i \<mapsto> Some a)"
proof -
  obtain d where d: "pl_heap s a = Some d" using a by blast
  note D = plugins_okD [OF ok]
  define s' where "s' = set_ptr i (Some a) (set_data a (Some (d\<lparr>d_references := d_references d + 1\<rparr>)) s)"
  have run: "add_reference i a s = (Inr (), s')"
    using d by (simp add: add_reference_def get_data_def returnS_def bindS_def modifyS_def s'_def)
  have s': "pl_heap s' = (pl_heap s)(a \<mapsto> d\<lparr>d_references := d_references d + 1\<rparr>)" "pl_map s' = pl_map s" "pl_next s' = pl_next s"
    "pl_ptrs s' = (pl_ptrs s)(i \<mapsto> Some a)" "pl_loaded s' = pl_loaded s"
    by (auto simp: s'_def set_data_def set_ptr_def)
  have ptrs: "pointers_to b s' = (if b = a then insert i (pointers_to a s) else pointers_to b s)" for b
    using i by (auto simp: pointers_to_def s'(4))
  have "i \<notin> pointers_to a s" using i by (simp add: pointers_to_def)
  then have card_a: "card (pointers_to a s') = d_references d + 1"
    using ptrs [of a] D(4) [OF d] finite_pointers [OF D(1)] by simp
  have blocks: "blocks_of h s' = blocks_of h s" for h using d by (auto simp: blocks_of_def s'(1))
  have map_ok: "map_find k (pl_map s') = Some b \<longleftrightarrow> (\<exists>d'. pl_heap s' b = Some d' \<and> d_plugin_name d' = k)" for k b
    using D(3) [of k b] d by (cases "b = a") (simp_all add: s'(1,2))
  have refs: "d_references e = card (pointers_to b s')" "0 < d_references e" if "pl_heap s' b = Some e" for b e
  proof -
    have "d_references e = card (pointers_to b s') \<and> 0 < d_references e"
    proof (cases "b = a")
      case True
      then have "e = d\<lparr>d_references := d_references d + 1\<rparr>" using that by (simp add: s'(1))
      then show ?thesis using card_a True by simp
    next
      case False
      then have "pl_heap s b = Some e" using that by (simp add: s'(1))
      then show ?thesis using D(4) [of b e] D(5) [of b e] False ptrs [of b] by simp
    qed
    then show "d_references e = card (pointers_to b s')" "0 < d_references e" by simp_all
  qed
  have "pl_heap s' b \<noteq> None" if "pl_ptrs s' j = Some (Some b)" for j b
    using that D(6) by (auto simp: s'(1,4) split: if_splits)
  moreover have "pl_heap s' b = None" if "pl_next s' \<le> b" for b using that D(7) d by (auto simp: s'(1,3))
  ultimately have "plugins_ok s'"
    using D(1,2,8) map_ok refs by (intro plugins_okI) (simp_all add: s'(2,4,5) blocks)
  with run s'(4) show ?thesis by blast
qed

definition load_of :: "PionPluginData \<Rightarrow> nat multiset \<Rightarrow> nat multiset" where
  "load_of d m = (case d_lib_handle d of None \<Rightarrow> m | Some h \<Rightarrow> add_mset h m)"

lemma new_block_ok:
  assumes ok: "plugins_ok s" and d: "d_references d = 0" and new: "map_find (d_plugin_name d) (pl_map s) = None"
  shows "\<exists>s'. new_block d (s\<lparr>pl_loaded := load_of d (pl_loaded s)\<rparr>) = (Inr (pl_next s), s') \<and> plugins_ok_upto {pl_next s} s' \<and>
    pl_heap s' (pl_next s) = Some d \<and> pl_ptrs s' = pl_ptrs s"
proof -
  note D = plugins_okD [OF ok]
  define a where "a = pl_next s"
  define s' where "s' = (set_data a (Some d) (s\<lparr>pl_loaded := load_of d (pl_loaded s)\<rparr>))
    \<lparr>pl_next := Suc a, pl_map := map_insert (d_plugin_name d) a (pl_map s)\<rparr>"
  have s': "pl_heap s' = (pl_heap s)(a \<mapsto> d)" "pl_map s' = map_insert (d_plugin_name d) a (pl_map s)" "pl_next s' = Suc a"
    "pl_ptrs s' = pl_ptrs s" "pl_loaded s' = load_of d (pl_loaded s)"
    by (simp_all add: s'_def set_data_def)
  have run: "new_block d (s\<lparr>pl_loaded := load_of d (pl_loaded s)\<rparr>) = (Inr a, s')"
    by (simp add: new_block_def s'_def a_def set_data_def)
  have fresh: "pl_heap s a = None" using D(7) by (simp add: a_def)
  have none: "pointers_to a s = {}" unfolding pointers_to_def using D(6) [of _ a] fresh by blast
  have ptrs: "pointers_to b s' = pointers_to b s" for b by (simp add: pointers_to_def s'(4))
  have blocks: "blocks_of h s' = (if d_lib_handle d = Some h then insert a (blocks_of h s) else blocks_of h s)" for h
    using fresh by (auto simp: blocks_of_def s'(1))
  have "a \<notin> blocks_of h s" for h using fresh by (simp add: blocks_of_def)
  then have count: "count (pl_loaded s') h = card (blocks_of h s')" for h
    using D(8) [of h] finite_blocks [OF ok, of h] by (simp add: blocks s'(5) load_of_def split: option.splits)
  have map_ok: "map_find k (pl_map s') = Some b \<longleftrightarrow> (\<exists>d'. pl_heap s' b = Some d' \<and> d_plugin_name d' = k)" for k b
    using D(3) [of k b] fresh new by (cases "b = a") (auto simp: s'(1,2) map_find_insert [OF D(2)])
  have refs: "d_references e = card (pointers_to b s') \<and> (b \<noteq> a \<longrightarrow> 0 < d_references e)" if "pl_heap s' b = Some e" for b e
    using that D(4) [of b e] D(5) [of b e] d none by (cases "b = a") (auto simp: s'(1) ptrs)
  have "plugins_ok_upto {a} s'"
  proof (rule plugins_okI)
    show "pl_heap s' b \<noteq> None" if "pl_ptrs s' j = Some (Some b)" for j b using that D(6) by (auto simp: s'(1,4))
    show "pl_heap s' b = None" if "pl_next s' \<le> b" for b using that D(7) by (auto simp: s'(1,3) a_def)
    show "0 < d_references e" if "pl_heap s' b = Some e" "b \<notin> {a}" for b e using refs [OF that(1)] that(2) by simp
    show "d_references e = card (pointers_to b s')" if "pl_heap s' b = Some e" for b e using refs [OF that] by simp
  qed (use D(1,2) map_ok count in \<open>simp_all add: s'(2,4) ordered_map_insert\<close>)
  then show ?thesis using run s'(1,4) unfolding a_def by simp
qed

text \<open>What opening promises: an exception leaves the libraries as they were; a block has no references yet.\<close>

definition opens_block :: "string \<Rightarrow> (plugins, PionPluginData) run_state \<Rightarrow> bool" where
  "opens_block name m \<longleftrightarrow> (\<forall>s. (\<exists>msg cl. m s = (Inl (Std_exception msg), s\<lparr>pl_closed := cl\<rparr>)) \<or>
     (\<exists>d. m s = (Inr d, s\<lparr>pl_loaded := load_of d (pl_loaded s)\<rparr>) \<and> d_references d = 0 \<and> d_plugin_name d = name))"

lemma opens_block_static: "opens_block name (returnS (PionPluginData_init name\<lparr>d_create_func := f, d_destroy_func := g\<rparr>))"
  by (simp add: opens_block_def returnS_def PionPluginData_init_def load_of_def)

lemma opens_block_file: "opens_block (getPluginName os plugin_file) (openPlugin os plugin_file)"
  unfolding opens_block_def
proof
  fix s :: plugins
  show "(\<exists>msg cl. openPlugin os plugin_file s = (Inl (Std_exception msg), s\<lparr>pl_closed := cl\<rparr>)) \<or>
     (\<exists>d. openPlugin os plugin_file s = (Inr d, s\<lparr>pl_loaded := load_of d (pl_loaded s)\<rparr>) \<and> d_references d = 0 \<and>
        d_plugin_name d = getPluginName os plugin_file)"
  proof (cases "os_dlopen os (os_complete os plugin_file)")
    case (Inl e)
    have "\<exists>cl. s = s\<lparr>pl_closed := cl\<rparr>" by (rule exI [of _ "pl_closed s"]) simp
    with Inl show ?thesis by (cases e) (simp_all add: openPlugin_def Let_def throwS_def)
  next
    case (Inr h)
    show ?thesis
    proof (cases "os_dlsym os h (PION_PLUGIN_CREATE @ getPluginName os plugin_file) = None \<or>
        os_dlsym os h (PION_PLUGIN_DESTROY @ getPluginName os plugin_file) = None")
      case True
      with Inr show ?thesis
        by (intro disjI1) (auto simp: openPlugin_def Let_def throwS_def dlclose_def split: option.splits)
    next
      case False
      with Inr show ?thesis
        by (intro disjI2) (auto simp: openPlugin_def Let_def returnS_def PionPluginData_init_def load_of_def)
    qed
  qed
qed

lemma find_or_open_ok:
  assumes "plugins_ok s" "opens_block name m"
  shows "(\<exists>msg s'. find_or_open name m s = (Inl (Std_exception msg), s') \<and> plugins_ok s' \<and> pl_ptrs s' = pl_ptrs s) \<or>
    (\<exists>a s'. find_or_open name m s = (Inr a, s') \<and> plugins_ok_upto {a} s' \<and> pl_heap s' a \<noteq> None \<and> pl_ptrs s' = pl_ptrs s)"
proof (cases "map_find name (pl_map s)")
  case (Some a)
  have "plugins_ok_upto {a} s" using assms(1) unfolding plugins_ok_upto_def by blast
  moreover have "pl_heap s a \<noteq> None" using Some plugins_okD(3) [OF assms(1), of name a] by auto
  ultimately show ?thesis using Some by (simp add: find_or_open_def)
next
  case None
  from assms(2) consider msg cl where "m s = (Inl (Std_exception msg), s\<lparr>pl_closed := cl\<rparr>)"
    | d where "m s = (Inr d, s\<lparr>pl_loaded := load_of d (pl_loaded s)\<rparr>)" "d_references d = 0" "d_plugin_name d = name"
    unfolding opens_block_def by blast
  then show ?thesis
  proof cases
    case 1
    have "plugins_ok (s\<lparr>pl_closed := cl\<rparr>)"
      by (rule ok_same_pointers [OF assms(1)]) (use plugins_okD(1) [OF assms(1)] in \<open>simp_all add: pointers_to_def\<close>)
    with 1 None show ?thesis by (simp add: find_or_open_def)
  next
    case 2
    from new_block_ok [OF assms(1) 2(2)] None 2 obtain s' where
      "new_block d (s\<lparr>pl_loaded := load_of d (pl_loaded s)\<rparr>) = (Inr (pl_next s), s')" "plugins_ok_upto {pl_next s} s'"
      "pl_heap s' (pl_next s) = Some d" "pl_ptrs s' = pl_ptrs s" by auto
    with 2 None show ?thesis by (auto simp: find_or_open_def)
  qed
qed

section \<open>The operations\<close>

text \<open>An operation ends without a fault, keeps the invariant, and changes at most one object.\<close>

definition plugin_safe :: "nat \<Rightarrow> (plugins, unit) run_state \<Rightarrow> plugins \<Rightarrow> bool" where
  "plugin_safe i m s \<longleftrightarrow> (\<forall>r s'. m s = (r, s') \<longrightarrow> plugins_ok s' \<and> (\<forall>f. r \<noteq> Inl (Abort f)) \<and>
     (\<forall>j. j \<noteq> i \<longrightarrow> pl_ptrs s' j = pl_ptrs s j))"

definition plugin_live :: "nat \<Rightarrow> (plugins, unit) run_state \<Rightarrow> plugins \<Rightarrow> bool" where
  "plugin_live i m s \<longleftrightarrow> plugin_safe i m s \<and> (\<forall>r s'. m s = (r, s') \<longrightarrow> pl_ptrs s' i \<noteq> None)"

lemma open_live:
  assumes ok: "plugins_ok s" and i: "pl_ptrs s i \<noteq> None" and opens: "opens_block name m"
  shows "plugin_live i (\<lambda>s. bindS (releaseData i) (\<lambda>_. bindS (find_or_open name m) (add_reference i)) s) s"
proof -
  from releaseData_ok [OF ok i] obtain s1 where
    s1: "releaseData i s = (Inr (), s1)" "plugins_ok s1" "pl_ptrs s1 = (pl_ptrs s)(i \<mapsto> None)" by blast
  from find_or_open_ok [OF s1(2) opens] consider
      msg s2 where "find_or_open name m s1 = (Inl (Std_exception msg), s2)" "plugins_ok s2" "pl_ptrs s2 = pl_ptrs s1"
    | a s2 where "find_or_open name m s1 = (Inr a, s2)" "plugins_ok_upto {a} s2" "pl_heap s2 a \<noteq> None" "pl_ptrs s2 = pl_ptrs s1"
    by blast
  then show ?thesis
  proof cases
    case 1
    with s1 show ?thesis by (simp add: plugin_live_def plugin_safe_def)
  next
    case 2
    then have "pl_ptrs s2 i = Some None" by (simp add: s1(3))
    from add_reference_ok [OF 2(2) this 2(3)] obtain s3 where
      "add_reference i a s2 = (Inr (), s3)" "plugins_ok s3" "pl_ptrs s3 = (pl_ptrs s2)(i \<mapsto> Some a)" by blast
    with s1 2 show ?thesis by (simp add: plugin_live_def plugin_safe_def)
  qed
qed

lemma openFile_live: "plugins_ok s \<Longrightarrow> pl_ptrs s i \<noteq> None \<Longrightarrow> plugin_live i (openFile os i file) s"
  unfolding openFile_def using open_live [OF _ _ opens_block_file] by simp

lemma openStaticLinked_live: "plugins_ok s \<Longrightarrow> pl_ptrs s i \<noteq> None \<Longrightarrow> plugin_live i (openStaticLinked i name f g) s"
  unfolding openStaticLinked_def using open_live [OF _ _ opens_block_static] by simp

lemma plugin_open_live: "plugins_ok s \<Longrightarrow> pl_ptrs s i \<noteq> None \<Longrightarrow> plugin_live i (plugin_open os i name) s"
  using openFile_live [of s i os]
  by (cases "findPluginFile os name s") (auto simp: plugin_live_def plugin_safe_def plugin_open_def throwS_def)

lemma releaseData_safe: "plugins_ok s \<Longrightarrow> pl_ptrs s i \<noteq> None \<Longrightarrow> plugin_safe i (releaseData i) s"
  using releaseData_ok [of s i] by (auto simp: plugin_safe_def)

lemma grabData_ok:
  assumes "plugins_ok s" "pl_ptrs s i \<noteq> None" "pl_ptrs s j \<noteq> None"
  shows "\<exists>s'. grabData i j s = (Inr (), s') \<and> plugins_ok s' \<and>
    pl_ptrs s' = (pl_ptrs s)(i := if i = j then Some None else pl_ptrs s j)"
proof -
  from releaseData_ok [OF assms(1,2)] obtain s1 where
    s1: "releaseData i s = (Inr (), s1)" "plugins_ok s1" "pl_ptrs s1 = (pl_ptrs s)(i \<mapsto> None)" by blast
  obtain p where p: "pl_ptrs s1 j = Some p" using assms(3) s1(3) by (cases "i = j") auto
  show ?thesis
  proof (cases p)
    case None
    have "plugins_ok (set_ptr i None s1)" by (rule ok_set_ptr_None [OF s1(2)]) (simp add: s1(3))
    moreover have "grabData i j s = (Inr (), set_ptr i None s1)"
      using s1(1) p None by (simp add: grabData_def get_ptr_def returnS_def bindS_def modifyS_def)
    ultimately show ?thesis using p None s1(3) by (auto simp: set_ptr_def split: if_splits)
  next
    case (Some a)
    then have "pl_heap s1 a \<noteq> None" using plugins_okD(6) [OF s1(2)] p by blast
    moreover have "plugins_ok_upto {a} s1" using s1(2) unfolding plugins_ok_upto_def by blast
    ultimately obtain s2 where "add_reference i a s1 = (Inr (), s2)" "plugins_ok s2" "pl_ptrs s2 = (pl_ptrs s1)(i \<mapsto> Some a)"
      using add_reference_ok [of a s1 i] s1(3) by auto
    moreover have "grabData i j s = add_reference i a s1"
      using s1(1) p Some by (simp add: grabData_def get_ptr_def returnS_def bindS_def)
    ultimately show ?thesis using p Some s1(3) by (auto split: if_splits)
  qed
qed

lemma plugin_construct_safe: "plugins_ok s \<Longrightarrow> pl_ptrs s i = None \<Longrightarrow> plugin_safe i (plugin_construct i) s"
  using ok_set_ptr_None [of "{}" s i] by (simp add: plugin_safe_def plugin_construct_def modifyS_def set_ptr_def)

lemma plugin_copy_safe:
  assumes "plugins_ok s" "pl_ptrs s i = None" "pl_ptrs s j \<noteq> None"
  shows "plugin_safe i (plugin_copy i j) s"
proof -
  have ok: "plugins_ok (set_ptr i None s)" by (rule ok_set_ptr_None) (use assms in simp_all)
  have "pl_ptrs (set_ptr i None s) i \<noteq> None" "pl_ptrs (set_ptr i None s) j \<noteq> None" using assms(3) by (auto simp: set_ptr_def)
  from grabData_ok [OF ok this] obtain s' where "grabData i j (set_ptr i None s) = (Inr (), s')" "plugins_ok s'"
    "pl_ptrs s' = (pl_ptrs (set_ptr i None s))(i := if i = j then Some None else pl_ptrs (set_ptr i None s) j)" by blast
  then show ?thesis by (simp add: plugin_safe_def plugin_copy_def plugin_construct_def modifyS_def bindS_def set_ptr_def)
qed

lemma plugin_assign_safe:
  "plugins_ok s \<Longrightarrow> pl_ptrs s i \<noteq> None \<Longrightarrow> pl_ptrs s j \<noteq> None \<Longrightarrow> plugin_safe i (plugin_assign i j) s"
  using grabData_ok [of s i j] by (auto simp: plugin_safe_def plugin_assign_def)

lemma plugin_destruct_safe:
  assumes "plugins_ok s" "pl_ptrs s i \<noteq> None"
  shows "plugin_safe i (plugin_destruct i) s"
proof -
  from releaseData_ok [OF assms] obtain s1 where
    s1: "releaseData i s = (Inr (), s1)" "plugins_ok s1" "pl_ptrs s1 = (pl_ptrs s)(i \<mapsto> None)" by blast
  from ok_remove_ptr [OF s1(2), of i] s1 show ?thesis
    by (simp add: plugin_safe_def plugin_destruct_def bindS_def modifyS_def)
qed

lemma plugin_close_safe: "plugins_ok s \<Longrightarrow> pl_ptrs s i \<noteq> None \<Longrightarrow> plugin_safe i (plugin_close i) s"
  using releaseData_safe [of s i] by (simp add: plugin_close_def)

section \<open>Programs\<close>

text \<open>A program constructs and destroys objects and uses those that live.\<close>

inductive plugin_step :: "plugin_os \<Rightarrow> plugins \<Rightarrow> exn + unit \<Rightarrow> plugins \<Rightarrow> bool" for os where
  construct: "pl_ptrs s i = None \<Longrightarrow> plugin_construct i s = (r, s') \<Longrightarrow> plugin_step os s r s'"
| copy: "pl_ptrs s i = None \<Longrightarrow> pl_ptrs s j \<noteq> None \<Longrightarrow> plugin_copy i j s = (r, s') \<Longrightarrow> plugin_step os s r s'"
| assign: "pl_ptrs s i \<noteq> None \<Longrightarrow> pl_ptrs s j \<noteq> None \<Longrightarrow> plugin_assign i j s = (r, s') \<Longrightarrow> plugin_step os s r s'"
| open_named: "pl_ptrs s i \<noteq> None \<Longrightarrow> plugin_open os i name s = (r, s') \<Longrightarrow> plugin_step os s r s'"
| open_file: "pl_ptrs s i \<noteq> None \<Longrightarrow> openFile os i path s = (r, s') \<Longrightarrow> plugin_step os s r s'"
| open_static: "pl_ptrs s i \<noteq> None \<Longrightarrow> openStaticLinked i name f g s = (r, s') \<Longrightarrow> plugin_step os s r s'"
| close: "pl_ptrs s i \<noteq> None \<Longrightarrow> plugin_close i s = (r, s') \<Longrightarrow> plugin_step os s r s'"
| destruct: "pl_ptrs s i \<noteq> None \<Longrightarrow> plugin_destruct i s = (r, s') \<Longrightarrow> plugin_step os s r s'"
| add_directory: "addPluginDirectory os dir s = (r, s') \<Longrightarrow> plugin_step os s r s'"
| reset_directories: "resetPluginDirectories s = (r, s') \<Longrightarrow> plugin_step os s r s'"
| add_entry_point: "addStaticEntryPoint name f g s = (r, s') \<Longrightarrow> plugin_step os s r s'"

inductive plugins_reachable :: "plugin_os \<Rightarrow> plugins \<Rightarrow> bool" for os where
  start: "plugins_reachable os plugins_init"
| step: "plugins_reachable os s \<Longrightarrow> plugin_step os s r s' \<Longrightarrow> plugins_reachable os s'"

lemma ok_other_fields:
  assumes "plugins_ok s"
  shows "plugins_ok (s\<lparr>pl_dirs := ds\<rparr>)" "plugins_ok (s\<lparr>pl_entry_points := es\<rparr>)"
  by (rule ok_same_pointers [OF assms], use plugins_okD(1) [OF assms] in \<open>simp_all add: pointers_to_def\<close>)+

lemma live_safe: "plugin_live i m s \<Longrightarrow> plugin_safe i m s"
  by (simp add: plugin_live_def)

lemma plugin_safeD: "plugin_safe i m s \<Longrightarrow> m s = (r, s') \<Longrightarrow> plugins_ok s' \<and> (\<forall>f. r \<noteq> Inl (Abort f))"
  by (auto simp: plugin_safe_def)

lemma plugin_step_ok:
  assumes "plugin_step os s r s'" "plugins_ok s"
  shows "plugins_ok s' \<and> (\<forall>f. r \<noteq> Inl (Abort f))"
  using assms
proof (induction rule: plugin_step.induct)
  case (add_directory dir s r s')
  then show ?case by (auto simp: addPluginDirectory_def Let_def throwS_def modifyS_def ok_other_fields split: if_splits)
next
  case (reset_directories s r s')
  then show ?case by (auto simp: resetPluginDirectories_def modifyS_def ok_other_fields)
next
  case (add_entry_point name f g s r s')
  then show ?case by (auto simp: addStaticEntryPoint_def modifyS_def ok_other_fields)
next
  case (construct s i r s')
  show ?case by (rule plugin_safeD [OF plugin_construct_safe construct(2)]) (use construct in simp_all)
next
  case (copy s i j r s')
  show ?case by (rule plugin_safeD [OF plugin_copy_safe copy(3)]) (use copy in simp_all)
next
  case (assign s i j r s')
  show ?case by (rule plugin_safeD [OF plugin_assign_safe assign(3)]) (use assign in simp_all)
next
  case (open_named s i name r s')
  show ?case by (rule plugin_safeD [OF live_safe [OF plugin_open_live] open_named(2)]) (use open_named in simp_all)
next
  case (open_file s i path r s')
  show ?case by (rule plugin_safeD [OF live_safe [OF openFile_live] open_file(2)]) (use open_file in simp_all)
next
  case (open_static s i name f g r s')
  show ?case by (rule plugin_safeD [OF live_safe [OF openStaticLinked_live] open_static(2)]) (use open_static in simp_all)
next
  case (close s i r s')
  show ?case by (rule plugin_safeD [OF plugin_close_safe close(2)]) (use close in simp_all)
next
  case (destruct s i r s')
  show ?case by (rule plugin_safeD [OF plugin_destruct_safe destruct(2)]) (use destruct in simp_all)
qed

lemma plugins_reachable_ok: "plugins_reachable os s \<Longrightarrow> plugins_ok s"
  by (induction rule: plugins_reachable.induct) (auto simp: plugins_ok_init dest: plugin_step_ok)

lemma loaded_library:
  assumes "plugins_ok s" "pl_heap s a = Some d" "d_lib_handle d = Some h"
  shows "h \<in># pl_loaded s"
proof -
  have "a \<in> blocks_of h s" using assms by (simp add: blocks_of_def)
  then have "0 < count (pl_loaded s) h"
    using plugins_okD(8) [OF assms(1), of h] finite_blocks [OF assms(1), of h] by (metis card_gt_0_iff empty_iff)
  then show ?thesis by simp
qed

section \<open>Properties\<close>

text \<open>C16: In every state a program can reach the counter of a plug-in is the number of objects that point to it,
  which is never zero, the plug-in is the one registered under its name and its library is open; no library
  is open without a plug-in, no object points to a deleted one, and no operation on live objects faults.\<close>

theorem plugin_references_exact:
  assumes "plugins_reachable os s"
  shows "(\<forall>a d. pl_heap s a = Some d \<longrightarrow> d_references d = card (pointers_to a s) \<and> pointers_to a s \<noteq> {} \<and>
       map_find (d_plugin_name d) (pl_map s) = Some a \<and> (\<forall>h. d_lib_handle d = Some h \<longrightarrow> h \<in># pl_loaded s)) \<and>
     (\<forall>h. h \<in># pl_loaded s \<longrightarrow> blocks_of h s \<noteq> {}) \<and>
     (\<forall>i a. pl_ptrs s i = Some (Some a) \<longrightarrow> pl_heap s a \<noteq> None) \<and>
     (\<forall>r s'. plugin_step os s r s' \<longrightarrow> (\<forall>f. r \<noteq> Inl (Abort f)))"
proof -
  note ok = plugins_reachable_ok [OF assms]
  note D = plugins_okD [OF ok]
  have "pointers_to a s \<noteq> {}" if "pl_heap s a = Some d" for a d using D(4) [OF that] D(5) [OF that] by auto
  moreover have "map_find (d_plugin_name d) (pl_map s) = Some a" if "pl_heap s a = Some d" for a d
    using D(3) that by blast
  moreover note loaded_library [OF ok]
  moreover have "blocks_of h s \<noteq> {}" if "h \<in># pl_loaded s" for h
    using that D(8) [of h] by (metis card.empty count_eq_zero_iff)
  ultimately show ?thesis using D(4,6) plugin_step_ok [OF _ ok] by blast
qed

text \<open>Closing the last object that points to a plug-in closes its library, deletes its data and removes its name;
  for a plug-in that was linked statically the handle that is closed is the null handle.\<close>

theorem plugin_last_close:
  assumes "plugins_reachable os s" "pl_heap s a = Some d" "pointers_to a s = {i}"
  shows "\<exists>s'. plugin_close i s = (Inr (), s') \<and> pl_closed s' = pl_closed s @ [d_lib_handle d] \<and> pl_heap s' a = None \<and>
     map_find (d_plugin_name d) (pl_map s') = None \<and> plugins_ok s'"
proof -
  note ok = plugins_reachable_ok [OF assms(1)]
  have i: "pl_ptrs s i = Some (Some a)" using assms(3) by (auto simp: pointers_to_def)
  have one: "d_references d = 1" using plugins_okD(4) [OF ok assms(2)] assms(3) by simp
  define s' where "s' = set_ptr i None (release_block a d s)"
  have "plugin_close i s = (Inr (), s')"
    using i assms(2) by (simp add: plugin_close_def releaseData_def get_ptr_def get_data_def returnS_def bindS_def modifyS_def s'_def)
  moreover have "pl_closed s' = pl_closed s @ [d_lib_handle d]" "pl_heap s' a = None"
    "pl_map s' = map_erase (d_plugin_name d) (pl_map s)"
    using one by (auto simp: s'_def release_block_def dlclose_def set_data_def set_ptr_def Let_def split: option.splits)
  moreover have "plugins_ok s'" unfolding s'_def by (rule release_last [OF ok i assms(2) one])
  ultimately show ?thesis using map_find_erase [OF plugins_okD(2) [OF ok]] by simp
qed

text \<open>A library is found by the base name of its file alone: opening a file while a plug-in of the same base name
  is open shares that plug-in, whatever directory the file is in, and does not open the file.\<close>

theorem plugin_same_name_shared:
  assumes "plugins_reachable os s" "pl_ptrs s i = Some None" "pl_ptrs s j = Some (Some a)" "pl_heap s a = Some d"
    and "getPluginName os path = d_plugin_name d"
  shows "\<exists>s'. openFile os i path s = (Inr (), s') \<and> pl_ptrs s' i = Some (Some a) \<and>
     pl_loaded s' = pl_loaded s \<and> getCreateFunction i s' = (Inr (d_create_func d), s')"
proof -
  note ok = plugins_reachable_ok [OF assms(1)]
  have "map_find (d_plugin_name d) (pl_map s) = Some a" using plugins_okD(3) [OF ok] assms(4) by blast
  moreover have "releaseData i s = (Inr (), s)" using assms(2) by (simp add: releaseData_def get_ptr_def returnS_def bindS_def)
  ultimately have "openFile os i path s = add_reference i a s" by (simp add: openFile_def bindS_def find_or_open_def assms(5))
  then show ?thesis
    using assms(4) by (simp add: add_reference_def get_data_def get_ptr_def returnS_def bindS_def modifyS_def set_ptr_def set_data_def
        getCreateFunction_def plugin_function_def)
qed

section \<open>Witnesses\<close>

text \<open>Two libraries, each in a directory of its own, with the same base name.\<close>

definition example_os :: plugin_os where
  "example_os = \<lparr>os_complete = (\<lambda>p. p), os_exists = (\<lambda>p. True), os_is_regular = (\<lambda>p. p = ''/a/Echo.so'' \<or> p = ''/b/Echo.so''),
     os_append = (\<lambda>a b. a @ ''/'' @ b), os_basename = (\<lambda>p. ''Echo''), os_extension = (\<lambda>p. ''.so''), os_leaf = (\<lambda>p. p),
     os_entries = (\<lambda>p. []), os_dlopen = (\<lambda>p. Inr (if p = ''/a/Echo.so'' then 7 else 8)), os_dlsym = (\<lambda>h name. Some (h * 10 + length name))\<rparr>"

definition two_objects :: plugins where
  "two_objects = snd (openFile example_os 0 ''/a/Echo.so'' (snd (plugin_construct 1 (snd (plugin_construct 0 plugins_init)))))"

lemma two_objects_reachable: "plugins_reachable example_os two_objects"
proof -
  define s1 where "s1 = snd (plugin_construct 0 plugins_init)"
  define s2 where "s2 = snd (plugin_construct 1 s1)"
  have 0: "pl_ptrs plugins_init 0 = None" by (simp add: plugins_init_def)
  have 1: "pl_ptrs s1 1 = None" by (simp add: s1_def plugin_construct_def modifyS_def set_ptr_def plugins_init_def)
  have 2: "pl_ptrs s2 0 \<noteq> None" by (simp add: s2_def s1_def plugin_construct_def modifyS_def set_ptr_def plugins_init_def)
  have "plugins_reachable example_os s1" unfolding s1_def
    by (rule plugins_reachable.step [OF plugins_reachable.start plugin_step.construct [OF 0]]) (rule prod.collapse [symmetric])
  then have "plugins_reachable example_os s2" unfolding s2_def
    by (rule plugins_reachable.step [OF _ plugin_step.construct [OF 1]]) (rule prod.collapse [symmetric])
  then show ?thesis unfolding two_objects_def s1_def [symmetric] s2_def [symmetric]
    by (rule plugins_reachable.step [OF _ plugin_step.open_file [OF 2]]) (rule prod.collapse [symmetric])
qed

lemma two_objects_facts:
  "pl_ptrs two_objects 0 = Some (Some 0)" "pl_ptrs two_objects 1 = Some None" "pointers_to 0 two_objects = {0}"
  "pl_heap two_objects 0 = Some (PionPluginData_init ''Echo''\<lparr>d_lib_handle := Some 7, d_create_func := Some 86,
      d_destroy_func := Some 87, d_references := 1\<rparr>)"
  "pl_closed two_objects = []"
  by (auto simp: two_objects_def plugin_construct_def modifyS_def set_ptr_def plugins_init_def openFile_def bindS_def releaseData_def
      get_ptr_def returnS_def find_or_open_def openPlugin_def Let_def example_os_def getPluginName_def new_block_def set_data_def
      add_reference_def get_data_def PION_PLUGIN_CREATE_def PION_PLUGIN_DESTROY_def PionPluginData_init_def map_find_def pointers_to_def)

lemma plugin_references_exact_witness:
  "\<exists>d. pl_heap two_objects 0 = Some d \<and> d_references d = card (pointers_to 0 two_objects) \<and> 7 \<in># pl_loaded two_objects"
proof -
  obtain d where "pl_heap two_objects 0 = Some d" "d_lib_handle d = Some 7" using two_objects_facts(4) by simp
  with conjunct1 [OF plugin_references_exact [OF two_objects_reachable]] show ?thesis by blast
qed

lemma plugin_last_close_witness:
  "\<exists>s'. plugin_close 0 two_objects = (Inr (), s') \<and> pl_closed s' = [Some 7] \<and> pl_heap s' 0 = None"
  using plugin_last_close [OF two_objects_reachable two_objects_facts(4,3)] by (auto simp: two_objects_facts(5) PionPluginData_init_def)

lemma plugin_same_name_shared_witness:
  "\<exists>s'. openFile example_os 1 ''/b/Echo.so'' two_objects = (Inr (), s') \<and> getCreateFunction 1 s' = (Inr (Some 86), s')"
  using plugin_same_name_shared [OF two_objects_reachable two_objects_facts(2,1,4), of "''/b/Echo.so''"]
  by (auto simp: PionPluginData_init_def getPluginName_def example_os_def)

end
