(* ===== verification/Plugin_Manager.thy ===== *)
theory Plugin_Manager
  imports Plugin_Safety
begin

text \<open>
  \<open>PluginManager.hpp\<close>: the objects made by plug-ins, or given by the program, under unique identifiers. An object
  is a value of type \<open>'o\<close> in a table of live objects; what a create function makes of it is a parameter. The
  copies of \<open>PionPluginPtr\<close> that only pass through temporaries are left out, and so is the mutex.
\<close>

section \<open>The manager\<close>

definition PluginNotFoundException :: "string \<Rightarrow> string" where
  "PluginNotFoundException plugin_id = ''No plug-ins found for identifier: '' @ plugin_id"
definition DuplicatePluginException :: "string \<Rightarrow> string" where
  "DuplicatePluginException plugin_id = ''A plug-in already exists for identifier: '' @ plugin_id"

text \<open>\<open>pm_map\<close> holds the address of the object and the \<open>PionPluginPtr\<close> of each identifier. \<open>pm_destroyed\<close> lists the objects that
  were destroyed with the function that did it, none for \<open>delete\<close>.\<close>

record 'o manager =
  pm_map :: "(string, nat \<times> nat) std_map"
  pm_objects :: "nat \<Rightarrow> 'o option"
  pm_next_object :: nat
  pm_next_ptr :: nat
  pm_plugins :: plugins
  pm_destroyed :: "(nat option \<times> nat) list"

definition manager_init :: "'o manager" where
  "manager_init = \<lparr>pm_map = [], pm_objects = (\<lambda>_. None), pm_next_object = 0, pm_next_ptr = 0, pm_plugins = plugins_init, pm_destroyed = []\<rparr>"

text \<open>A computation on the plug-ins as one on the manager.\<close>

definition liftP :: "(plugins, 'a) run_state \<Rightarrow> ('o manager, 'a) run_state" where
  "liftP m s = (case m (pm_plugins s) of (r, p) \<Rightarrow> (r, s\<lparr>pm_plugins := p\<rparr>))"

definition new_ptr :: "('o manager, nat) run_state" where
  "new_ptr s = bindS (liftP (plugin_construct (pm_next_ptr s))) (\<lambda>_. returnS (pm_next_ptr s)) (s\<lparr>pm_next_ptr := Suc (pm_next_ptr s)\<rparr>)"

definition copy_ptr :: "nat \<Rightarrow> ('o manager, nat) run_state" where
  "copy_ptr j s = bindS (liftP (plugin_copy (pm_next_ptr s) j)) (\<lambda>_. returnS (pm_next_ptr s)) (s\<lparr>pm_next_ptr := Suc (pm_next_ptr s)\<rparr>)"

definition new_object :: "'o \<Rightarrow> ('o manager, nat) run_state" where
  "new_object x s =
     (Inr (pm_next_object s), s\<lparr>pm_objects := (pm_objects s)(pm_next_object s \<mapsto> x), pm_next_object := Suc (pm_next_object s)\<rparr>)"

definition destroy_object :: "nat option \<Rightarrow> nat \<Rightarrow> ('o manager, unit) run_state" where
  "destroy_object f x s =
     (if pm_objects s x = None then faultS Dangling_pointer s
      else (Inr (), s\<lparr>pm_objects := (pm_objects s)(x := None), pm_destroyed := pm_destroyed s @ [(f, x)]\<rparr>))"

section \<open>Creating and destroying objects of a plug-in\<close>

definition ptr_create :: "(nat \<Rightarrow> 'o) \<Rightarrow> nat \<Rightarrow> ('o manager, nat) run_state" where
  "ptr_create mk i = bindS (liftP (required_function (getCreateFunction i))) (\<lambda>f. new_object (mk f))"

definition ptr_destroy :: "nat \<Rightarrow> nat \<Rightarrow> ('o manager, unit) run_state" where
  "ptr_destroy i x = bindS (liftP (required_function (getDestroyFunction i))) (\<lambda>f. destroy_object (Some f) x)"

text \<open>With the plug-in's function when it is open, and with \<open>delete\<close> otherwise.\<close>

definition destroy_entry :: "nat \<times> nat \<Rightarrow> ('o manager, unit) run_state" where
  "destroy_entry e =
     bindS (liftP (plugin_is_open (snd e))) (\<lambda>is_open.
       if is_open then ptr_destroy (snd e) (fst e) else destroy_object None (fst e))"

section \<open>Operations\<close>

definition manager_lookup :: "string \<Rightarrow> ('o manager, nat \<times> nat) run_state" where
  "manager_lookup plugin_id s =
     (case map_find plugin_id (pm_map s) of None \<Rightarrow> throwS (PluginNotFoundException plugin_id) s | Some e \<Rightarrow> returnS e s)"

definition manager_empty :: "'o manager \<Rightarrow> bool" where
  "manager_empty s \<longleftrightarrow> pm_map s = []"

text \<open>When the identifier exists the new entry is dropped, with its pointer.\<close>

definition manager_insert :: "string \<Rightarrow> nat \<Rightarrow> nat \<Rightarrow> ('o manager, unit) run_state" where
  "manager_insert plugin_id x i s =
     (if map_find plugin_id (pm_map s) = None then (Inr (), s\<lparr>pm_map := map_insert plugin_id (x, i) (pm_map s)\<rparr>)
      else liftP (plugin_destruct i) s)"

definition manager_add :: "string \<Rightarrow> nat \<Rightarrow> ('o manager, unit) run_state" where
  "manager_add plugin_id x = bindS new_ptr (manager_insert plugin_id x)"

definition manager_remove :: "string \<Rightarrow> ('o manager, unit) run_state" where
  "manager_remove plugin_id =
     bindS (manager_lookup plugin_id) (\<lambda>e.
       bindS (destroy_entry e) (\<lambda>_.
         bindS (modifyS (\<lambda>s. s\<lparr>pm_map := map_erase plugin_id (pm_map s)\<rparr>)) (\<lambda>_. liftP (plugin_destruct (snd e)))))"

definition manager_replace :: "string \<Rightarrow> nat \<Rightarrow> ('o manager, unit) run_state" where
  "manager_replace plugin_id x =
     bindS (manager_lookup plugin_id) (\<lambda>e.
       bindS (destroy_entry e) (\<lambda>_.
         modifyS (\<lambda>s. s\<lparr>pm_map := map_assign plugin_id (x, snd e) (pm_map s)\<rparr>)))"

definition manager_clone :: "(nat \<Rightarrow> 'o) \<Rightarrow> string \<Rightarrow> ('o manager, nat) run_state" where
  "manager_clone mk plugin_id = bindS (manager_lookup plugin_id) (\<lambda>e. ptr_create mk (snd e))"

text \<open>The local pointer is destroyed however the block ends; the entry keeps a copy.\<close>

definition open_plugin :: "plugin_os \<Rightarrow> nat \<Rightarrow> string \<Rightarrow> ('o manager, unit) run_state" where
  "open_plugin os i plugin_type s =
     (case findStaticEntryPoint plugin_type (pm_plugins s) of
        Some (create_func, destroy_func) \<Rightarrow> liftP (openStaticLinked i plugin_type create_func destroy_func) s
      | None \<Rightarrow> liftP (plugin_open os i plugin_type) s)"

definition manager_load :: "plugin_os \<Rightarrow> (nat \<Rightarrow> 'o) \<Rightarrow> string \<Rightarrow> string \<Rightarrow> ('o manager, nat) run_state" where
  "manager_load os mk plugin_id plugin_type s =
     (if map_find plugin_id (pm_map s) \<noteq> None then throwS (DuplicatePluginException plugin_id) s
      else
        bindS new_ptr (\<lambda>i.
          finallyS
            (bindS (open_plugin os i plugin_type) (\<lambda>_.
               bindS (ptr_create mk i) (\<lambda>x.
                 bindS (copy_ptr i) (\<lambda>j.
                   bindS (manager_insert plugin_id x j) (\<lambda>_. returnS x)))))
            (liftP (plugin_destruct i))) s)"

definition manager_get :: "string \<Rightarrow> 'o manager \<Rightarrow> nat option" where
  "manager_get plugin_id s = map_option fst (map_find plugin_id (pm_map s))"

text \<open>A new pointer to the library of an identifier, which holds nothing when there is none.\<close>

definition getLibPtr :: "string \<Rightarrow> ('o manager, nat) run_state" where
  "getLibPtr plugin_id s = (case map_find plugin_id (pm_map s) of None \<Rightarrow> new_ptr s | Some e \<Rightarrow> copy_ptr (snd e) s)"

text \<open>The search runs from the last identifier that is not greater than the resource towards the first. Where
  the resource does not start with an identifier it goes on only to a shorter one.\<close>

fun find_down :: "string \<Rightarrow> (string \<times> 'e) list \<Rightarrow> 'e option" where
  "find_down resource [] = None"
| "find_down resource (e # es) =
     (if take (length (fst e)) resource \<noteq> fst e then
        (case es of [] \<Rightarrow> None | e' # _ \<Rightarrow> if length (fst e') < length (fst e) then find_down resource es else None)
      else if length resource = length (fst e) \<or> resource ! length (fst e) = CHR ''/'' then Some (snd e)
      else find_down resource es)"

definition manager_find :: "string \<Rightarrow> 'o manager \<Rightarrow> nat option" where
  "manager_find resource s =
     (if pm_map s = [] then None
      else map_option fst (find_down resource (rev (take (upper_bound resource (pm_map s)) (pm_map s)))))"

text \<open>Calling a method of one object, which may throw, and of every object until one throws.\<close>

definition call_object :: "('o \<Rightarrow> (string + unit) \<times> 'o) \<Rightarrow> nat \<Rightarrow> ('o manager, unit) run_state" where
  "call_object f x s =
     (case pm_objects s x of
        None \<Rightarrow> faultS Dangling_pointer s
      | Some y \<Rightarrow> (case f y of (r, y') \<Rightarrow>
          (case r of Inl msg \<Rightarrow> Inl (Std_exception msg) | Inr _ \<Rightarrow> Inr (), s\<lparr>pm_objects := (pm_objects s)(x \<mapsto> y')\<rparr>)))"

fun call_objects :: "('o \<Rightarrow> (string + unit) \<times> 'o) \<Rightarrow> nat list \<Rightarrow> ('o manager, unit) run_state" where
  "call_objects f [] = returnS ()"
| "call_objects f (x # xs) = bindS (call_object f x) (\<lambda>_. call_objects f xs)"

definition manager_run_all :: "('o \<Rightarrow> (string + unit) \<times> 'o) \<Rightarrow> ('o manager, unit) run_state" where
  "manager_run_all f s = call_objects f (map (fst \<circ> snd) (pm_map s)) s"

definition manager_run :: "string \<Rightarrow> ('o \<Rightarrow> (string + unit) \<times> 'o) \<Rightarrow> ('o manager, unit) run_state" where
  "manager_run plugin_id f s =
     (case manager_get plugin_id s of None \<Rightarrow> throwS (PluginNotFoundException plugin_id) s | Some x \<Rightarrow> call_object f x s)"

text \<open>Statistics add up in 64 bits.\<close>

fun sum_statistics :: "('o \<Rightarrow> 64 word) \<Rightarrow> nat list \<Rightarrow> 'o manager \<Rightarrow> fault + 64 word" where
  "sum_statistics f [] s = Inr 0"
| "sum_statistics f (x # xs) s =
     (case pm_objects s x of None \<Rightarrow> Inl Dangling_pointer | Some y \<Rightarrow> bindE (sum_statistics f xs s) (\<lambda>n. Inr (f y + n)))"

definition getStatistic :: "('o \<Rightarrow> 64 word) \<Rightarrow> 'o manager \<Rightarrow> fault + 64 word" where
  "getStatistic f s = sum_statistics f (map (fst \<circ> snd) (pm_map s)) s"

definition getStatistic_of :: "string \<Rightarrow> ('o \<Rightarrow> 64 word) \<Rightarrow> ('o manager, 64 word) run_state" where
  "getStatistic_of plugin_id f s =
     (case manager_get plugin_id s of
        None \<Rightarrow> throwS (PluginNotFoundException plugin_id) s
      | Some x \<Rightarrow> (case pm_objects s x of None \<Rightarrow> faultS Dangling_pointer s | Some y \<Rightarrow> returnS (f y) s))"

text \<open>Clearing destroys every object in order and then the entries.\<close>

fun destroy_entries :: "(string \<times> nat \<times> nat) list \<Rightarrow> ('o manager, unit) run_state" where
  "destroy_entries [] = returnS ()"
| "destroy_entries (e # es) = bindS (destroy_entry (snd e)) (\<lambda>_. destroy_entries es)"

fun destruct_ptrs :: "nat list \<Rightarrow> ('o manager, unit) run_state" where
  "destruct_ptrs [] = returnS ()"
| "destruct_ptrs (i # is) = bindS (liftP (plugin_destruct i)) (\<lambda>_. destruct_ptrs is)"

definition manager_clear :: "('o manager, unit) run_state" where
  "manager_clear s =
     bindS (destroy_entries (pm_map s)) (\<lambda>_.
       bindS (destruct_ptrs (map (snd \<circ> snd) (pm_map s))) (\<lambda>_. modifyS (\<lambda>s. s\<lparr>pm_map := []\<rparr>))) s"

end
