(* ===== verification/Plugin_Manager_Safety.thy ===== *)
theory Plugin_Manager_Safety
  imports Plugin_Manager
begin

text \<open>
  What the plug-in manager guarantees: every object it manages is alive and, when a library made it, the library
  stays open until the object is destroyed; clearing leaves nothing behind. The search for the plug-in of a
  resource never returns a wrong one but may miss the right one.
\<close>

section \<open>Functions of plug-ins\<close>

definition functions_ok :: "plugins \<Rightarrow> bool" where
  "functions_ok s \<longleftrightarrow> (\<forall>a d. pl_heap s a = Some d \<longrightarrow> d_create_func d \<noteq> None \<and> d_destroy_func d \<noteq> None)"

lemma functions_ok_ptrs [simp]: "functions_ok (s\<lparr>pl_ptrs := f\<rparr>) = functions_ok s"
  by (simp add: functions_ok_def)

lemma functions_ok_release:
  assumes "functions_ok s" "releaseData i s = (r, s')"
  shows "functions_ok s'"
proof -
  have "functions_ok (set_ptr i None (release_block a d s))" if "pl_heap s a = Some d" for a d
    using assms(1) that
    by (auto simp: functions_ok_def set_ptr_def release_block_def set_data_def dlclose_def Let_def split: option.splits)
  then show ?thesis using assms
    by (auto simp: releaseData_def bindS_def get_ptr_def get_data_def returnS_def faultS_def modifyS_def split: option.splits)
qed

lemma functions_ok_add: "functions_ok s \<Longrightarrow> add_reference i a s = (r, s') \<Longrightarrow> functions_ok s'"
  by (auto simp: functions_ok_def add_reference_def bindS_def get_data_def returnS_def faultS_def modifyS_def set_ptr_def set_data_def
      split: option.splits if_splits)

lemma functions_ok_bind:
  assumes "bindS m f s = (r, s')" "\<And>a s1. m s = (Inr a, s1) \<Longrightarrow> f a s1 = (r, s') \<Longrightarrow> functions_ok s'" "\<And>e s1. m s = (Inl e, s1) \<Longrightarrow> functions_ok s1"
  shows "functions_ok s'"
  using assms by (auto simp: bindS_def split: prod.splits sum.splits)

lemma functions_ok_grab: "functions_ok s \<Longrightarrow> grabData i j s = (r, s') \<Longrightarrow> functions_ok s'"
  unfolding grabData_def
  by (erule functions_ok_bind)
    (auto simp: bindS_def get_ptr_def returnS_def faultS_def modifyS_def set_ptr_def
      dest: functions_ok_release functions_ok_add split: option.splits)

lemma functions_ok_construct: "functions_ok s \<Longrightarrow> plugin_construct i s = (r, s') \<Longrightarrow> functions_ok s'"
  by (auto simp: plugin_construct_def modifyS_def set_ptr_def)

lemma functions_ok_copy: "functions_ok s \<Longrightarrow> plugin_copy i j s = (r, s') \<Longrightarrow> functions_ok s'"
  unfolding plugin_copy_def by (erule functions_ok_bind) (auto dest: functions_ok_construct functions_ok_grab)

lemma functions_ok_destruct: "functions_ok s \<Longrightarrow> plugin_destruct i s = (r, s') \<Longrightarrow> functions_ok s'"
  unfolding plugin_destruct_def
  by (erule functions_ok_bind) (auto simp: modifyS_def dest: functions_ok_release)

text \<open>What a library or a static entry point provides has both functions.\<close>

lemma functions_ok_find_or_open:
  assumes "functions_ok s" "find_or_open name m s = (r, s')"
    and "\<And>d s1. m s = (Inr d, s1) \<Longrightarrow> functions_ok s1 \<and> d_create_func d \<noteq> None \<and> d_destroy_func d \<noteq> None"
    and "\<And>e s1. m s = (Inl e, s1) \<Longrightarrow> functions_ok s1"
  shows "functions_ok s'"
proof (cases "map_find name (pl_map s)")
  case None
  with assms(2) have "bindS m new_block s = (r, s')" by (simp add: find_or_open_def)
  then show ?thesis
  proof (rule functions_ok_bind)
    show "functions_ok s'" if "m s = (Inr d, s1)" "new_block d s1 = (r, s')" for d s1
      using assms(3) [OF that(1)] that(2) by (auto simp: functions_ok_def new_block_def set_data_def split: if_splits)
  qed (use assms(4) in blast)
qed (use assms in \<open>auto simp: find_or_open_def\<close>)

lemma functions_ok_openPlugin:
  assumes "functions_ok s" "openPlugin os file_name s = (r, s')"
  shows "functions_ok s' \<and> (\<forall>d. r = Inr d \<longrightarrow> d_create_func d \<noteq> None \<and> d_destroy_func d \<noteq> None)"
proof (cases "os_dlopen os (os_complete os file_name)")
  case (Inl e)
  with assms show ?thesis by (cases e) (auto simp: openPlugin_def Let_def throwS_def)
next
  case (Inr h)
  with assms show ?thesis
    by (auto simp: openPlugin_def Let_def throwS_def returnS_def dlclose_def functions_ok_def split: option.splits)
qed

lemma functions_ok_open: "functions_ok s \<Longrightarrow> plugin_open os i name s = (r, s') \<Longrightarrow> functions_ok s'"
proof (cases "findPluginFile os name s")
  case (Some file_name)
  assume ok: "functions_ok s" "plugin_open os i name s = (r, s')"
  then have "openFile os i file_name s = (r, s')" by (simp add: plugin_open_def Some)
  then show ?thesis unfolding openFile_def
  proof (rule functions_ok_bind)
    fix u s1 assume "releaseData i s = (Inr u, s1)"
    with ok have ok1: "functions_ok s1" by (blast dest: functions_ok_release)
    assume "bindS (find_or_open (getPluginName os file_name) (openPlugin os file_name)) (add_reference i) s1 = (r, s')"
    then show "functions_ok s'"
      by (rule functions_ok_bind)
        (use functions_ok_find_or_open [OF ok1] functions_ok_openPlugin [OF ok1] functions_ok_add in blast)+
  qed (use functions_ok_release ok in blast)
qed (auto simp: plugin_open_def throwS_def)

lemma functions_ok_static: "functions_ok s \<Longrightarrow> openStaticLinked i name f g s = (r, s') \<Longrightarrow> functions_ok s'"
  unfolding openStaticLinked_def
proof (erule functions_ok_bind)
  fix u s1 assume "functions_ok s" "releaseData i s = (Inr u, s1)"
  then have ok1: "functions_ok s1" by (blast dest: functions_ok_release)
  assume "bindS (find_or_open name (returnS (PionPluginData_init name\<lparr>d_create_func := Some f, d_destroy_func := Some g\<rparr>)))
    (add_reference i) s1 = (r, s')"
  then show "functions_ok s'"
  proof (rule functions_ok_bind)
    show "functions_ok s2" if "find_or_open name (returnS (PionPluginData_init name\<lparr>d_create_func := Some f, d_destroy_func := Some g\<rparr>)) s1 = (Inl e, s2)" for e s2
      using functions_ok_find_or_open [OF ok1 that] ok1 by (auto simp: returnS_def)
    show "functions_ok s'" if "find_or_open name (returnS (PionPluginData_init name\<lparr>d_create_func := Some f, d_destroy_func := Some g\<rparr>)) s1 = (Inr a, s2)"
      "add_reference i a s2 = (r, s')" for a s2
      using functions_ok_find_or_open [OF ok1 that(1)] ok1 that(2) functions_ok_add by (auto simp: returnS_def)
  qed
qed (blast dest: functions_ok_release)

section \<open>The invariant of the manager\<close>

definition entry_object :: "string \<times> nat \<times> nat \<Rightarrow> nat" where "entry_object e = fst (snd e)"
definition entry_ptr :: "string \<times> nat \<times> nat \<Rightarrow> nat" where "entry_ptr e = snd (snd e)"

lemma entry_simps [simp]: "entry_object (k, x, i) = x" "entry_ptr (k, x, i) = i"
  "map (fst \<circ> snd) es = map entry_object es" "map (snd \<circ> snd) es = map entry_ptr es"
  by (simp_all add: entry_object_def entry_ptr_def)

definition manager_ok :: "'o manager \<Rightarrow> bool" where
  "manager_ok s \<longleftrightarrow> plugins_ok (pm_plugins s) \<and> functions_ok (pm_plugins s) \<and> ordered (pm_map s) \<and>
     distinct (map entry_object (pm_map s)) \<and> distinct (map entry_ptr (pm_map s)) \<and>
     (\<forall>e\<in>set (pm_map s). pl_ptrs (pm_plugins s) (entry_ptr e) \<noteq> None \<and> pm_objects s (entry_object e) \<noteq> None) \<and>
     (\<forall>i. pm_next_ptr s \<le> i \<longrightarrow> pl_ptrs (pm_plugins s) i = None) \<and> (\<forall>x. pm_next_object s \<le> x \<longrightarrow> pm_objects s x = None)"

lemma manager_okI:
  assumes "plugins_ok (pm_plugins s)" "functions_ok (pm_plugins s)" "ordered (pm_map s)"
    and "distinct (map entry_object (pm_map s))" "distinct (map entry_ptr (pm_map s))"
    and "\<And>e. e \<in> set (pm_map s) \<Longrightarrow> pl_ptrs (pm_plugins s) (entry_ptr e) \<noteq> None"
    and "\<And>e. e \<in> set (pm_map s) \<Longrightarrow> pm_objects s (entry_object e) \<noteq> None"
    and "\<And>i. pm_next_ptr s \<le> i \<Longrightarrow> pl_ptrs (pm_plugins s) i = None" "\<And>x. pm_next_object s \<le> x \<Longrightarrow> pm_objects s x = None"
  shows "manager_ok s"
  unfolding manager_ok_def by (intro conjI ballI allI impI assms)

lemma manager_okD:
  assumes "manager_ok s"
  shows "plugins_ok (pm_plugins s)" "functions_ok (pm_plugins s)" "ordered (pm_map s)"
    "distinct (map entry_object (pm_map s))" "distinct (map entry_ptr (pm_map s))"
    "e \<in> set (pm_map s) \<Longrightarrow> pl_ptrs (pm_plugins s) (entry_ptr e) \<noteq> None"
    "e \<in> set (pm_map s) \<Longrightarrow> pm_objects s (entry_object e) \<noteq> None"
    "pm_next_ptr s \<le> i \<Longrightarrow> pl_ptrs (pm_plugins s) i = None" "pm_next_object s \<le> x \<Longrightarrow> pm_objects s x = None"
  using assms unfolding manager_ok_def by blast+

lemma manager_ok_init: "manager_ok manager_init"
  by (simp add: manager_ok_def manager_init_def plugins_ok_init functions_ok_def) (simp add: plugins_init_def)

text \<open>A pointer that is not part of an entry, and an object that is not managed.\<close>

definition own_ptr :: "nat \<Rightarrow> 'o manager \<Rightarrow> bool" where
  "own_ptr i s \<longleftrightarrow> pl_ptrs (pm_plugins s) i \<noteq> None \<and> i \<notin> entry_ptr ` set (pm_map s)"

definition own_object :: "nat \<Rightarrow> 'o manager \<Rightarrow> bool" where
  "own_object x s \<longleftrightarrow> pm_objects s x \<noteq> None \<and> x \<notin> entry_object ` set (pm_map s)"

section \<open>Triples\<close>

text \<open>From a state in \<open>P\<close> a computation does not fault, and it ends in \<open>Q\<close>, or in \<open>E\<close> after an exception.\<close>

definition triple :: "('s \<Rightarrow> bool) \<Rightarrow> ('s, 'a) run_state \<Rightarrow> ('a \<Rightarrow> 's \<Rightarrow> bool) \<Rightarrow> ('s \<Rightarrow> bool) \<Rightarrow> bool" where
  "triple P m Q E \<longleftrightarrow> (\<forall>s r s'. P s \<longrightarrow> m s = (r, s') \<longrightarrow>
     (case r of Inl (Abort f) \<Rightarrow> False | Inl e \<Rightarrow> E s' | Inr a \<Rightarrow> Q a s'))"

lemma tripleI:
  assumes "\<And>s r s'. P s \<Longrightarrow> m s = (r, s') \<Longrightarrow> (\<exists>e. r = Inl e \<and> (\<forall>f. e \<noteq> Abort f) \<and> E s') \<or> (\<exists>a. r = Inr a \<and> Q a s')"
  shows "triple P m Q E"
  unfolding triple_def using assms by (fastforce split: sum.splits exn.splits)

lemma tripleD:
  assumes "triple P m Q E" "P s" "m s = (r, s')"
  shows "(\<exists>e. r = Inl e \<and> (\<forall>f. e \<noteq> Abort f) \<and> E s') \<or> (\<exists>a. r = Inr a \<and> Q a s')"
proof (cases r)
  case (Inl e)
  with assms show ?thesis unfolding triple_def by (cases e) fastforce+
next
  case (Inr a)
  with assms show ?thesis unfolding triple_def by fastforce
qed

lemma triple_bind:
  assumes "triple P m Q E" "\<And>a. triple (Q a) (f a) R E"
  shows "triple P (bindS m f) R E"
proof (rule tripleI)
  fix s r s' assume p: "P s" and run: "bindS m f s = (r, s')"
  obtain r1 s1 where m: "m s = (r1, s1)" by fastforce
  from tripleD [OF assms(1) p m] show "(\<exists>e. r = Inl e \<and> (\<forall>f. e \<noteq> Abort f) \<and> E s') \<or> (\<exists>a. r = Inr a \<and> R a s')"
  proof
    assume "\<exists>e. r1 = Inl e \<and> (\<forall>f. e \<noteq> Abort f) \<and> E s1"
    with run m show ?thesis by (auto simp: bindS_def)
  next
    assume "\<exists>a. r1 = Inr a \<and> Q a s1"
    then obtain a where a: "r1 = Inr a" "Q a s1" by blast
    with run m have "f a s1 = (r, s')" by (simp add: bindS_def)
    from tripleD [OF assms(2) a(2) this] show ?thesis .
  qed
qed

lemma triple_finally:
  assumes "triple P m Q E" "\<And>a. triple (Q a) d (\<lambda>_. R a) (\<lambda>_. False)" "triple E d (\<lambda>_. F) (\<lambda>_. False)"
  shows "triple P (finallyS m d) R F"
proof (rule tripleI)
  fix s r s' assume p: "P s" and run: "finallyS m d s = (r, s')"
  obtain r1 s1 where m: "m s = (r1, s1)" by fastforce
  obtain r2 s2 where d: "d s1 = (r2, s2)" by fastforce
  from tripleD [OF assms(1) p m] show "(\<exists>e. r = Inl e \<and> (\<forall>f. e \<noteq> Abort f) \<and> F s') \<or> (\<exists>a. r = Inr a \<and> R a s')"
  proof
    assume "\<exists>e. r1 = Inl e \<and> (\<forall>f. e \<noteq> Abort f) \<and> E s1"
    with tripleD [OF assms(3) _ d] run m d show ?thesis by (auto simp: finallyS_def)
  next
    assume "\<exists>a. r1 = Inr a \<and> Q a s1"
    then obtain a where a: "r1 = Inr a" "Q a s1" by blast
    with tripleD [OF assms(2) a(2) d] run m d show ?thesis by (auto simp: finallyS_def)
  qed
qed

lemma triple_return: "(\<And>s. P s \<Longrightarrow> Q a s) \<Longrightarrow> triple P (returnS a) Q E"
  by (auto simp: triple_def returnS_def)

lemma triple_modify: "(\<And>s. P s \<Longrightarrow> Q () (f s)) \<Longrightarrow> triple P (modifyS f) Q E"
  by (auto simp: triple_def modifyS_def)

lemma triple_weaken: "triple P m Q E \<Longrightarrow> (\<And>s. P' s \<Longrightarrow> P s) \<Longrightarrow> (\<And>a s. Q a s \<Longrightarrow> Q' a s) \<Longrightarrow> (\<And>s. E s \<Longrightarrow> E' s) \<Longrightarrow> triple P' m Q' E'"
  unfolding triple_def by (fastforce split: sum.splits exn.splits)

section \<open>The operations on pointers\<close>

text \<open>The table and the objects are as given.\<close>

definition at_table :: "(string \<times> nat \<times> nat) list \<Rightarrow> (nat \<Rightarrow> 'o option) \<Rightarrow> 'o manager \<Rightarrow> bool" where
  "at_table M B s \<longleftrightarrow> manager_ok s \<and> pm_map s = M \<and> pm_objects s = B"

lemma manager_ok_plugins:
  assumes "manager_ok s" "plugins_ok p" "functions_ok p" "\<And>e. e \<in> set (pm_map s) \<Longrightarrow> pl_ptrs p (entry_ptr e) \<noteq> None"
    and "\<And>i. pm_next_ptr s \<le> i \<Longrightarrow> pl_ptrs p i = None"
  shows "manager_ok (s\<lparr>pm_plugins := p\<rparr>)"
  by (rule manager_okI) (use manager_okD [OF assms(1)] assms(2-) in simp_all)

lemma triple_open_ptr:
  assumes "\<And>p. plugins_ok p \<Longrightarrow> pl_ptrs p i \<noteq> None \<Longrightarrow> plugin_live i m p"
    and "\<And>p r p'. functions_ok p \<Longrightarrow> m p = (r, p') \<Longrightarrow> functions_ok p'"
  shows "triple (\<lambda>s. at_table M B s \<and> own_ptr i s) (liftP m) (\<lambda>_ s. at_table M B s \<and> own_ptr i s) (\<lambda>s. at_table M B s \<and> own_ptr i s)"
proof (rule tripleI)
  fix s r s' assume pre: "at_table M B s \<and> own_ptr i s" and run: "liftP m s = (r, s')"
  obtain r1 p where m: "m (pm_plugins s) = (r1, p)" by fastforce
  then have r: "r = r1" "s' = s\<lparr>pm_plugins := p\<rparr>" using run by (simp_all add: liftP_def)
  have ok: "manager_ok s" "pl_ptrs (pm_plugins s) i \<noteq> None" "i \<notin> entry_ptr ` set (pm_map s)"
    using pre unfolding at_table_def own_ptr_def by blast+
  note D = manager_okD [OF ok(1)]
  have live: "plugin_live i m (pm_plugins s)" by (rule assms(1) [OF D(1) ok(2)])
  then have p: "plugins_ok p" "\<forall>f. r1 \<noteq> Inl (Abort f)" "\<forall>j. j \<noteq> i \<longrightarrow> pl_ptrs p j = pl_ptrs (pm_plugins s) j" "pl_ptrs p i \<noteq> None"
    using m unfolding plugin_live_def plugin_safe_def by blast+
  have "manager_ok s'" unfolding r(2)
  proof (rule manager_ok_plugins [OF ok(1) p(1) assms(2) [OF D(2) m]])
    show "pl_ptrs p (entry_ptr e) \<noteq> None" if "e \<in> set (pm_map s)" for e
      using that D(6) [OF that] p(3,4) by (cases "entry_ptr e = i") auto
    show "pl_ptrs p j = None" if "pm_next_ptr s \<le> j" for j using that D(8) [OF that] ok(2) p(3) by (cases "j = i") auto
  qed
  then have "at_table M B s' \<and> own_ptr i s'" using pre p(4) by (auto simp: at_table_def own_ptr_def r(2))
  then show "(\<exists>e. r = Inl e \<and> (\<forall>f. e \<noteq> Abort f) \<and> at_table M B s' \<and> own_ptr i s') \<or> (\<exists>a. r = Inr a \<and> at_table M B s' \<and> own_ptr i s')"
    using p(2) r(1) by (cases r) auto
qed

lemma triple_open_named:
  "triple (\<lambda>s. at_table M B s \<and> own_ptr i s) (liftP (plugin_open os i name)) (\<lambda>_ s. at_table M B s \<and> own_ptr i s)
     (\<lambda>s. at_table M B s \<and> own_ptr i s)"
  by (rule triple_open_ptr) (erule (1) plugin_open_live, erule (1) functions_ok_open)

lemma triple_open_static:
  "triple (\<lambda>s. at_table M B s \<and> own_ptr i s) (liftP (openStaticLinked i name f g)) (\<lambda>_ s. at_table M B s \<and> own_ptr i s)
     (\<lambda>s. at_table M B s \<and> own_ptr i s)"
  by (rule triple_open_ptr) (erule (1) openStaticLinked_live, erule (1) functions_ok_static)

lemma triple_open_plugin:
  "triple (\<lambda>s. at_table M B s \<and> own_ptr i s) (open_plugin os i plugin_type) (\<lambda>_ s. at_table M B s \<and> own_ptr i s)
     (\<lambda>s. at_table M B s \<and> own_ptr i s)"
proof (rule tripleI)
  fix s r s' assume pre: "at_table M B s \<and> own_ptr i s" and run: "open_plugin os i plugin_type s = (r, s')"
  show "(\<exists>e. r = Inl e \<and> (\<forall>f. e \<noteq> Abort f) \<and> at_table M B s' \<and> own_ptr i s') \<or> (\<exists>a. r = Inr a \<and> at_table M B s' \<and> own_ptr i s')"
  proof (cases "findStaticEntryPoint plugin_type (pm_plugins s)")
    case None
    with run have "liftP (plugin_open os i plugin_type) s = (r, s')" by (simp add: open_plugin_def)
    from tripleD [OF triple_open_named pre this] show ?thesis .
  next
    case (Some fg)
    with run have "liftP (openStaticLinked i plugin_type (fst fg) (snd fg)) s = (r, s')" by (cases fg) (simp add: open_plugin_def)
    from tripleD [OF triple_open_static pre this] show ?thesis .
  qed
qed

text \<open>New pointers.\<close>

lemma fresh_own_ptr:
  assumes "manager_ok s" "plugins_ok p" "functions_ok p" "\<And>j. j \<noteq> pm_next_ptr s \<Longrightarrow> pl_ptrs p j = pl_ptrs (pm_plugins s) j"
    and "pl_ptrs p (pm_next_ptr s) \<noteq> None"
  shows "manager_ok (s\<lparr>pm_next_ptr := Suc (pm_next_ptr s), pm_plugins := p\<rparr>)"
    "own_ptr (pm_next_ptr s) (s\<lparr>pm_next_ptr := Suc (pm_next_ptr s), pm_plugins := p\<rparr>)"
proof -
  note D = manager_okD [OF assms(1)]
  have ne: "entry_ptr e \<noteq> pm_next_ptr s" if "e \<in> set (pm_map s)" for e using D(6) [OF that] D(8) [of "entry_ptr e"] by auto
  show "manager_ok (s\<lparr>pm_next_ptr := Suc (pm_next_ptr s), pm_plugins := p\<rparr>)"
    by (rule manager_okI) (use D(3-5,7-9) D(6) ne assms(2-4) in simp_all)
  show "own_ptr (pm_next_ptr s) (s\<lparr>pm_next_ptr := Suc (pm_next_ptr s), pm_plugins := p\<rparr>)"
    unfolding own_ptr_def using ne assms(5) by (simp add: image_iff) metis
qed

lemma triple_new_ptr:
  "triple (at_table M B) new_ptr (\<lambda>i s. at_table M B s \<and> own_ptr i s) (\<lambda>_. False)"
proof (rule tripleI)
  fix s r s' assume pre: "at_table M B s" and run: "new_ptr s = (r, s')"
  then have ok: "manager_ok s" by (simp add: at_table_def)
  note D = manager_okD [OF ok]
  define p where "p = set_ptr (pm_next_ptr s) None (pm_plugins s)"
  have "pl_ptrs (pm_plugins s) (pm_next_ptr s) = None" using D(8) by simp
  then have "plugins_ok p" unfolding p_def by (intro ok_set_ptr_None D(1)) simp
  moreover have "functions_ok p" using D(2) by (simp add: p_def set_ptr_def)
  ultimately have "manager_ok (s\<lparr>pm_next_ptr := Suc (pm_next_ptr s), pm_plugins := p\<rparr>)"
    "own_ptr (pm_next_ptr s) (s\<lparr>pm_next_ptr := Suc (pm_next_ptr s), pm_plugins := p\<rparr>)"
    using fresh_own_ptr [OF ok, of p] by (auto simp: p_def set_ptr_def)
  moreover have "r = Inr (pm_next_ptr s)" "s' = s\<lparr>pm_next_ptr := Suc (pm_next_ptr s), pm_plugins := p\<rparr>"
    using run by (auto simp: new_ptr_def liftP_def plugin_construct_def modifyS_def bindS_def returnS_def p_def)
  ultimately show "(\<exists>e. r = Inl e \<and> (\<forall>f. e \<noteq> Abort f) \<and> False) \<or> (\<exists>a. r = Inr a \<and> at_table M B s' \<and> own_ptr a s')"
    using pre by (simp add: at_table_def)
qed

lemma plugin_copy_eq:
  assumes "plugins_ok s" "pl_ptrs s i = None" "pl_ptrs s j \<noteq> None"
  shows "\<exists>s'. plugin_copy i j s = (Inr (), s') \<and> plugins_ok s' \<and> pl_ptrs s' = (pl_ptrs s)(i := pl_ptrs s j)"
proof -
  have ok: "plugins_ok (set_ptr i None s)" by (rule ok_set_ptr_None) (use assms in simp_all)
  have "i \<noteq> j" using assms(2,3) by auto
  moreover have "pl_ptrs (set_ptr i None s) i \<noteq> None" "pl_ptrs (set_ptr i None s) j \<noteq> None" using assms(3) by (auto simp: set_ptr_def)
  from grabData_ok [OF ok this] obtain s' where "grabData i j (set_ptr i None s) = (Inr (), s')" "plugins_ok s'"
    "pl_ptrs s' = (pl_ptrs (set_ptr i None s))(i := if i = j then Some None else pl_ptrs (set_ptr i None s) j)" by blast
  ultimately show ?thesis by (auto simp: plugin_copy_def plugin_construct_def modifyS_def bindS_def set_ptr_def)
qed

lemma triple_copy_ptr:
  "triple (\<lambda>s. at_table M B s \<and> own_ptr i s) (copy_ptr i) (\<lambda>j s. at_table M B s \<and> own_ptr i s \<and> own_ptr j s \<and> i \<noteq> j) (\<lambda>_. False)"
proof (rule tripleI)
  fix s r s' assume pre: "at_table M B s \<and> own_ptr i s" and run: "copy_ptr i s = (r, s')"
  then have ok: "manager_ok s" "pl_ptrs (pm_plugins s) i \<noteq> None" by (simp_all add: at_table_def own_ptr_def)
  note D = manager_okD [OF ok(1)]
  have new: "pl_ptrs (pm_plugins s) (pm_next_ptr s) = None" using D(8) by simp
  from plugin_copy_eq [OF D(1) new ok(2)] obtain p where
    p: "plugin_copy (pm_next_ptr s) i (pm_plugins s) = (Inr (), p)" "plugins_ok p"
      "pl_ptrs p = (pl_ptrs (pm_plugins s))(pm_next_ptr s := pl_ptrs (pm_plugins s) i)" by blast
  have "manager_ok (s\<lparr>pm_next_ptr := Suc (pm_next_ptr s), pm_plugins := p\<rparr>)"
    "own_ptr (pm_next_ptr s) (s\<lparr>pm_next_ptr := Suc (pm_next_ptr s), pm_plugins := p\<rparr>)"
    by (rule fresh_own_ptr [OF ok(1) p(2) functions_ok_copy [OF D(2) p(1)]], use p(3) ok(2) in simp_all)+
  moreover have "r = Inr (pm_next_ptr s)" "s' = s\<lparr>pm_next_ptr := Suc (pm_next_ptr s), pm_plugins := p\<rparr>"
    using run p(1) by (auto simp: copy_ptr_def liftP_def bindS_def returnS_def)
  moreover have "i \<noteq> pm_next_ptr s" using new ok(2) by auto
  ultimately show "(\<exists>e. r = Inl e \<and> (\<forall>f. e \<noteq> Abort f) \<and> False) \<or> (\<exists>a. r = Inr a \<and> at_table M B s' \<and> own_ptr i s' \<and> own_ptr a s' \<and> i \<noteq> a)"
    using pre p(3) by (auto simp: at_table_def own_ptr_def)
qed

lemma plugin_destruct_eq:
  assumes "plugins_ok s" "functions_ok s" "pl_ptrs s i \<noteq> None"
  shows "\<exists>s'. plugin_destruct i s = (Inr (), s') \<and> plugins_ok s' \<and> functions_ok s' \<and> pl_ptrs s' = (pl_ptrs s)(i := None)"
proof -
  from releaseData_ok [OF assms(1,3)] obtain s1 where
    s1: "releaseData i s = (Inr (), s1)" "plugins_ok s1" "pl_ptrs s1 = (pl_ptrs s)(i \<mapsto> None)" by blast
  from ok_remove_ptr [OF s1(2), of i] functions_ok_release [OF assms(2) s1(1)] s1 show ?thesis
    by (simp add: plugin_destruct_def bindS_def modifyS_def)
qed

lemma triple_destruct:
  "triple (\<lambda>s. at_table M B s \<and> own_ptr i s) (liftP (plugin_destruct i)) (\<lambda>_ s. at_table M B s) (\<lambda>_. False)"
proof (rule tripleI)
  fix s r s' assume pre: "at_table M B s \<and> own_ptr i s" and run: "liftP (plugin_destruct i) s = (r, s')"
  then have ok: "manager_ok s" "pl_ptrs (pm_plugins s) i \<noteq> None" "i \<notin> entry_ptr ` set (pm_map s)"
    unfolding at_table_def own_ptr_def by blast+
  note D = manager_okD [OF ok(1)]
  from plugin_destruct_eq [OF D(1,2) ok(2)] obtain p where p: "plugin_destruct i (pm_plugins s) = (Inr (), p)" "plugins_ok p"
    "functions_ok p" "pl_ptrs p = (pl_ptrs (pm_plugins s))(i := None)" by blast
  have "manager_ok (s\<lparr>pm_plugins := p\<rparr>)"
    by (rule manager_ok_plugins [OF ok(1) p(2,3)]) (use D(6,8) ok(3) p(4) in auto)
  with run p(1) pre show "(\<exists>e. r = Inl e \<and> (\<forall>f. e \<noteq> Abort f) \<and> False) \<or> (\<exists>a. r = Inr a \<and> at_table M B s')"
    by (auto simp: liftP_def at_table_def)
qed

section \<open>Objects\<close>

text \<open>The function that destroys the object of an entry.\<close>

definition destroyer :: "plugins \<Rightarrow> nat \<Rightarrow> nat option" where
  "destroyer p i = (case pl_ptrs p i of Some (Some a) \<Rightarrow> (case pl_heap p a of Some d \<Rightarrow> d_destroy_func d | None \<Rightarrow> None) | _ \<Rightarrow> None)"

lemma destroy_entry_eq:
  assumes "plugins_ok (pm_plugins s)" "functions_ok (pm_plugins s)" "pl_ptrs (pm_plugins s) i \<noteq> None" "pm_objects s x \<noteq> None"
  shows "destroy_entry (x, i) s = (Inr (), s\<lparr>pm_objects := (pm_objects s)(x := None),
     pm_destroyed := pm_destroyed s @ [(destroyer (pm_plugins s) i, x)]\<rparr>)"
proof -
  obtain p where p: "pl_ptrs (pm_plugins s) i = Some p" using assms(3) by blast
  show ?thesis
  proof (cases p)
    case None
    with p assms(4) show ?thesis
      by (auto simp: destroy_entry_def liftP_def plugin_is_open_def get_ptr_def returnS_def bindS_def destroy_object_def destroyer_def)
  next
    case (Some a)
    with p plugins_okD(6) [OF assms(1)] obtain d where d: "pl_heap (pm_plugins s) a = Some d" by blast
    with assms(2) obtain f where "d_destroy_func d = Some f" unfolding functions_ok_def by blast
    with p Some d assms(4) show ?thesis
      by (auto simp: destroy_entry_def liftP_def plugin_is_open_def get_ptr_def get_data_def returnS_def bindS_def destroy_object_def
          destroyer_def ptr_destroy_def required_function_def getDestroyFunction_def plugin_function_def)
  qed
qed

lemma destroy_entries_eq:
  assumes "plugins_ok (pm_plugins s)" "functions_ok (pm_plugins s)" "distinct (map entry_object es)"
    and "\<And>e. e \<in> set es \<Longrightarrow> pl_ptrs (pm_plugins s) (entry_ptr e) \<noteq> None"
    and "\<And>e. e \<in> set es \<Longrightarrow> pm_objects s (entry_object e) \<noteq> None"
  shows "destroy_entries es s = (Inr (), s\<lparr>pm_objects := (\<lambda>x. if x \<in> entry_object ` set es then None else pm_objects s x),
     pm_destroyed := pm_destroyed s @ map (\<lambda>e. (destroyer (pm_plugins s) (entry_ptr e), entry_object e)) es\<rparr>)"
  using assms
proof (induction es arbitrary: s)
  case Nil
  then show ?case by (simp add: returnS_def)
next
  case (Cons e es)
  define s1 where "s1 = s\<lparr>pm_objects := (pm_objects s)(entry_object e := None),
     pm_destroyed := pm_destroyed s @ [(destroyer (pm_plugins s) (entry_ptr e), entry_object e)]\<rparr>"
  have first: "destroy_entry (snd e) s = (Inr (), s1)"
    using destroy_entry_eq [OF Cons.prems(1,2), of "entry_ptr e" "entry_object e"] Cons.prems(4,5) [of e]
    by (simp add: s1_def entry_object_def entry_ptr_def)
  have "pm_objects s1 (entry_object e') \<noteq> None" if "e' \<in> set es" for e'
  proof -
    have "entry_object e' \<noteq> entry_object e" using Cons.prems(3) that by (metis distinct.simps(2) image_eqI list.set_map list.simps(9))
    then show ?thesis using Cons.prems(5) [of e'] that by (simp add: s1_def)
  qed
  then have "destroy_entries es s1 = (Inr (), s1\<lparr>pm_objects := (\<lambda>x. if x \<in> entry_object ` set es then None else pm_objects s1 x),
     pm_destroyed := pm_destroyed s1 @ map (\<lambda>e. (destroyer (pm_plugins s1) (entry_ptr e), entry_object e)) es\<rparr>)"
    using Cons.prems by (intro Cons.IH) (simp_all add: s1_def)
  with first show ?case by (auto simp: bindS_def s1_def fun_eq_iff)
qed

lemma destruct_ptrs_eq:
  assumes "plugins_ok (pm_plugins s)" "functions_ok (pm_plugins s)" "distinct js" "\<And>i. i \<in> set js \<Longrightarrow> pl_ptrs (pm_plugins s) i \<noteq> None"
  shows "\<exists>p. destruct_ptrs js s = (Inr (), s\<lparr>pm_plugins := p\<rparr>) \<and> plugins_ok p \<and> functions_ok p \<and>
     pl_ptrs p = (\<lambda>i. if i \<in> set js then None else pl_ptrs (pm_plugins s) i)"
  using assms
proof (induction js arbitrary: s)
  case Nil
  then show ?case by (intro exI [of _ "pm_plugins s"]) (simp add: returnS_def)
next
  case (Cons j js)
  have "pl_ptrs (pm_plugins s) j \<noteq> None" using Cons.prems(4) by simp
  from plugin_destruct_eq [OF Cons.prems(1,2) this] obtain p1 where p1: "plugin_destruct j (pm_plugins s) = (Inr (), p1)"
    "plugins_ok p1" "functions_ok p1" "pl_ptrs p1 = (pl_ptrs (pm_plugins s))(j := None)" by auto
  have "\<exists>p. destruct_ptrs js (s\<lparr>pm_plugins := p1\<rparr>) = (Inr (), s\<lparr>pm_plugins := p\<rparr>) \<and> plugins_ok p \<and> functions_ok p \<and>
     pl_ptrs p = (\<lambda>i. if i \<in> set js then None else pl_ptrs p1 i)"
    using Cons.IH [of "s\<lparr>pm_plugins := p1\<rparr>"] Cons.prems(3,4) p1 by fastforce
  then obtain p where p: "destruct_ptrs js (s\<lparr>pm_plugins := p1\<rparr>) = (Inr (), s\<lparr>pm_plugins := p\<rparr>)" "plugins_ok p" "functions_ok p"
    "pl_ptrs p = (\<lambda>i. if i \<in> set js then None else pl_ptrs p1 i)" by blast
  have "destruct_ptrs (j # js) s = (Inr (), s\<lparr>pm_plugins := p\<rparr>)" using p1(1) p(1) by (simp add: bindS_def liftP_def)
  with p p1(4) show ?case by (intro exI [of _ p]) auto
qed

text \<open>A new object is not managed.\<close>

lemma object_fresh:
  fixes y :: 'o
  assumes "manager_ok s"
  defines "s' \<equiv> s\<lparr>pm_objects := (pm_objects s)(pm_next_object s \<mapsto> y), pm_next_object := Suc (pm_next_object s)\<rparr>"
  shows "manager_ok s' \<and> own_object (pm_next_object s) s'"
proof -
  note D = manager_okD [OF assms(1)]
  have "pm_next_object s \<noteq> entry_object e" if "e \<in> set (pm_map s)" for e using D(7) [OF that] D(9) [of "pm_next_object s"] by force
  then have "pm_next_object s \<notin> entry_object ` set (pm_map s)" by blast
  moreover have "manager_ok s'" unfolding s'_def by (rule manager_okI) (use D in simp_all)
  ultimately show ?thesis by (simp add: own_object_def s'_def)
qed

lemma ptr_create_cases:
  assumes "manager_ok s" "pl_ptrs (pm_plugins s) i \<noteq> None" "ptr_create mk i s = (r, s')"
  shows "(r = Inl (Std_exception PluginUndefinedException) \<and> s' = s) \<or>
     (\<exists>x f. r = Inr x \<and> s' = s\<lparr>pm_objects := (pm_objects s)(x \<mapsto> mk f), pm_next_object := Suc x\<rparr> \<and> manager_ok s' \<and> own_object x s')"
proof -
  note D = manager_okD [OF assms(1)]
  obtain p where p: "pl_ptrs (pm_plugins s) i = Some p" using assms(2) by blast
  show ?thesis
  proof (cases p)
    case None
    with p assms(3) show ?thesis
      by (auto simp: ptr_create_def liftP_def required_function_def getCreateFunction_def plugin_function_def get_ptr_def returnS_def
          bindS_def throwS_def)
  next
    case (Some a)
    with p plugins_okD(6) [OF D(1)] obtain d where d: "pl_heap (pm_plugins s) a = Some d" by blast
    with D(2) obtain f where "d_create_func d = Some f" unfolding functions_ok_def by blast
    with p Some d assms(3) have r: "r = Inr (pm_next_object s)"
      "s' = s\<lparr>pm_objects := (pm_objects s)(pm_next_object s \<mapsto> mk f), pm_next_object := Suc (pm_next_object s)\<rparr>"
      by (auto simp: ptr_create_def liftP_def required_function_def getCreateFunction_def plugin_function_def get_ptr_def get_data_def
          returnS_def bindS_def new_object_def)
    from object_fresh [OF assms(1)] r show ?thesis by blast
  qed
qed

lemma triple_ptr_create:
  "triple (\<lambda>s. manager_ok s \<and> own_ptr i s \<and> pm_map s = M) (ptr_create mk i)
     (\<lambda>x s. manager_ok s \<and> own_ptr i s \<and> pm_map s = M \<and> own_object x s) (\<lambda>s. manager_ok s \<and> own_ptr i s \<and> pm_map s = M)"
proof (rule tripleI)
  fix s r s' assume pre: "manager_ok s \<and> own_ptr i s \<and> pm_map s = M" and run: "ptr_create mk i s = (r, s')"
  then have ok: "manager_ok s" and i: "pl_ptrs (pm_plugins s) i \<noteq> None" by (simp_all add: own_ptr_def)
  from ptr_create_cases [OF ok i run] pre
  show "(\<exists>e. r = Inl e \<and> (\<forall>f. e \<noteq> Abort f) \<and> manager_ok s' \<and> own_ptr i s' \<and> pm_map s' = M) \<or>
    (\<exists>a. r = Inr a \<and> manager_ok s' \<and> own_ptr i s' \<and> pm_map s' = M \<and> own_object a s')"
    by (elim disjE exE conjE) (simp_all add: own_ptr_def)
qed

section \<open>The operations of the manager\<close>

lemma at_tableD: "at_table M B s \<Longrightarrow> manager_ok s" "at_table M B s \<Longrightarrow> pm_map s = M"
  by (simp_all add: at_table_def)

lemma set_map_erase: "ordered m \<Longrightarrow> set (map_erase k m) = {e \<in> set m. fst e \<noteq> k}"
  by (induction m) auto

lemma set_new_entry: "map_find k m = None \<Longrightarrow> set (map_insert k v m) = insert (k, v) (set m)"
  by (induction m) (auto simp: map_find_def split: if_splits)

lemma distinct_map_erase: "distinct (map f m) \<Longrightarrow> distinct (map f (map_erase k m))"
proof (induction m)
  case (Cons e m)
  have "set (map_erase k m) \<subseteq> set m" by (induction m) auto
  with Cons show ?case by auto
qed simp

lemma distinct_map_insert:
  "distinct (map f m) \<Longrightarrow> f (k, v) \<notin> f ` set m \<Longrightarrow> map_find k m = None \<Longrightarrow> distinct (map f (map_insert k v m))"
proof (induction m)
  case (Cons e m)
  then show ?case using set_new_entry [of k m v] by (auto simp: map_find_def split: if_splits)
qed simp

text \<open>An own object and an own pointer become an entry.\<close>

lemma manager_ok_insert:
  assumes "manager_ok s" "own_object x s" "own_ptr i s" "map_find k (pm_map s) = None"
  shows "manager_ok (s\<lparr>pm_map := map_insert k (x, i) (pm_map s)\<rparr>)"
proof -
  note D = manager_okD [OF assms(1)]
  have fresh: "x \<notin> entry_object ` set (pm_map s)" "i \<notin> entry_ptr ` set (pm_map s)"
    using assms(2,3) by (simp_all add: own_object_def own_ptr_def)
  have "distinct (map entry_object (map_insert k (x, i) (pm_map s)))" "distinct (map entry_ptr (map_insert k (x, i) (pm_map s)))"
    using distinct_map_insert [OF D(4)] distinct_map_insert [OF D(5)] fresh assms(4) by simp_all
  moreover have "pl_ptrs (pm_plugins s) (entry_ptr e) \<noteq> None \<and> pm_objects s (entry_object e) \<noteq> None"
    if "e \<in> set (map_insert k (x, i) (pm_map s))" for e
    using that set_new_entry [OF assms(4), of "(x, i)"] D(6) [of e] D(7) [of e] assms(2,3)
    by (cases "e = (k, x, i)") (simp_all add: own_object_def own_ptr_def)
  ultimately show ?thesis by (intro manager_okI) (use D(1-3,8,9) in \<open>simp_all add: ordered_map_insert\<close>)
qed

lemma triple_manager_insert:
  "triple (\<lambda>s. manager_ok s \<and> own_object x s \<and> own_ptr i s \<and> map_find k (pm_map s) = None) (manager_insert k x i)
     (\<lambda>_ s. manager_ok s \<and> map_find k (pm_map s) = Some (x, i)) (\<lambda>_. False)"
  by (rule tripleI) (auto simp: manager_insert_def manager_ok_insert map_find_insert manager_okD(3))

lemma manager_ok_erase:
  assumes "manager_ok s"
  shows "manager_ok (s\<lparr>pm_map := map_erase k (pm_map s)\<rparr>)"
proof -
  note D = manager_okD [OF assms]
  note sub = set_map_erase [OF D(3), of k]
  show ?thesis
    by (rule manager_okI) (use D sub in \<open>simp_all add: ordered_map_erase distinct_map_erase\<close>)
qed

text \<open>What depends on the table and the objects only is kept by computations on pointers.\<close>

lemma triple_at:
  assumes "\<And>M B. triple (\<lambda>s. at_table M B s \<and> P s) m (\<lambda>a s. at_table M B s \<and> Q a s) (\<lambda>s. at_table M B s \<and> E s)"
  shows "triple (\<lambda>s. manager_ok s \<and> P s \<and> R (pm_map s) (pm_objects s)) m
     (\<lambda>a s. manager_ok s \<and> Q a s \<and> R (pm_map s) (pm_objects s)) (\<lambda>s. manager_ok s \<and> E s \<and> R (pm_map s) (pm_objects s))"
proof (rule tripleI)
  fix s r s' assume pre: "manager_ok s \<and> P s \<and> R (pm_map s) (pm_objects s)" and run: "m s = (r, s')"
  then have "at_table (pm_map s) (pm_objects s) s \<and> P s" by (simp add: at_table_def)
  from tripleD [OF assms this run] pre
  show "(\<exists>e. r = Inl e \<and> (\<forall>f. e \<noteq> Abort f) \<and> manager_ok s' \<and> E s' \<and> R (pm_map s') (pm_objects s')) \<or>
    (\<exists>a. r = Inr a \<and> manager_ok s' \<and> Q a s' \<and> R (pm_map s') (pm_objects s'))"
    unfolding at_table_def by auto
qed

definition own_in :: "nat \<Rightarrow> (string \<times> nat \<times> nat) list \<Rightarrow> (nat \<Rightarrow> 'o option) \<Rightarrow> bool" where
  "own_in x M B \<longleftrightarrow> B x \<noteq> None \<and> x \<notin> entry_object ` set M"

lemma own_object_in: "own_object x s \<longleftrightarrow> own_in x (pm_map s) (pm_objects s)"
  by (simp add: own_object_def own_in_def)

lemma triple_False: "triple P m Q (\<lambda>_. False) \<Longrightarrow> triple P m Q E"
  by (erule triple_weaken) simp_all

lemma triple_load_body:
  fixes mk :: "nat \<Rightarrow> 'o"
  shows "triple (\<lambda>s. manager_ok s \<and> own_ptr i s \<and> map_find k (pm_map s) = None)
     (bindS (open_plugin os i plugin_type) (\<lambda>_. bindS (ptr_create mk i) (\<lambda>x. bindS (copy_ptr i) (\<lambda>j.
        bindS (manager_insert k x j) (\<lambda>_. returnS x)))))
     (\<lambda>x s. manager_ok s \<and> own_ptr i s \<and> (\<exists>j. map_find k (pm_map s) = Some (x, j)))
     (\<lambda>s. manager_ok s \<and> own_ptr i s)"
proof -
  have op: "triple (\<lambda>s :: 'o manager. manager_ok s \<and> own_ptr i s \<and> map_find k (pm_map s) = None) (open_plugin os i plugin_type)
      (\<lambda>_ s. manager_ok s \<and> own_ptr i s \<and> map_find k (pm_map s) = None) (\<lambda>s. manager_ok s \<and> own_ptr i s)"
    by (rule triple_weaken [OF triple_at [OF triple_open_plugin, where R = "\<lambda>M B. map_find k M = None"]]) auto
  have cr: "triple (\<lambda>s :: 'o manager. manager_ok s \<and> own_ptr i s \<and> map_find k (pm_map s) = None) (ptr_create mk i)
      (\<lambda>x s. manager_ok s \<and> own_ptr i s \<and> own_object x s \<and> map_find k (pm_map s) = None) (\<lambda>s. manager_ok s \<and> own_ptr i s)"
    (is "triple ?P _ ?Q ?E")
  proof (rule tripleI)
    fix s r s' assume "?P s" "ptr_create mk i s = (r, s')"
    with tripleD [OF triple_ptr_create [of i "pm_map s" mk], of s r s']
    show "(\<exists>e. r = Inl e \<and> (\<forall>f. e \<noteq> Abort f) \<and> ?E s') \<or> (\<exists>x. r = Inr x \<and> ?Q x s')" by auto
  qed
  have cp: "triple (\<lambda>s :: 'o manager. manager_ok s \<and> own_ptr i s \<and> own_object x s \<and> map_find k (pm_map s) = None) (copy_ptr i)
      (\<lambda>j s. manager_ok s \<and> own_ptr i s \<and> own_ptr j s \<and> i \<noteq> j \<and> own_object x s \<and> map_find k (pm_map s) = None)
      (\<lambda>s. manager_ok s \<and> own_ptr i s)" for x
  proof -
    have "triple (\<lambda>s. at_table M B s \<and> own_ptr i s) (copy_ptr i) (\<lambda>j s. at_table M B s \<and> own_ptr i s \<and> own_ptr j s \<and> i \<noteq> j)
        (\<lambda>s. at_table M B s \<and> False)" for M and B :: "nat \<Rightarrow> 'o option"
      by (rule triple_weaken [OF triple_copy_ptr]) auto
    from triple_at [OF this, where R = "\<lambda>M B. own_in x M B \<and> map_find k M = None"] show ?thesis
      by (rule triple_weaken) (auto simp: own_object_in)
  qed
  have ins: "triple (\<lambda>s :: 'o manager. manager_ok s \<and> own_ptr i s \<and> own_ptr j s \<and> i \<noteq> j \<and> own_object x s \<and> map_find k (pm_map s) = None)
      (manager_insert k x j) (\<lambda>_ s. manager_ok s \<and> own_ptr i s \<and> map_find k (pm_map s) = Some (x, j)) (\<lambda>s. manager_ok s \<and> own_ptr i s)" for x j
    by (rule tripleI)
      (auto simp: manager_insert_def manager_ok_insert map_find_insert manager_okD(3) own_ptr_def [of i] set_new_entry)
  show ?thesis
    by (rule triple_bind [OF op], rule triple_bind [OF cr], rule triple_bind [OF cp], rule triple_bind [OF ins], rule triple_return) blast
qed

lemma triple_new_own:
  "triple (\<lambda>s. manager_ok s \<and> R (pm_map s) (pm_objects s)) new_ptr
     (\<lambda>i s. manager_ok s \<and> own_ptr i s \<and> R (pm_map s) (pm_objects s)) E"
proof -
  have "triple (\<lambda>s. at_table M B s \<and> True) new_ptr (\<lambda>i s. at_table M B s \<and> own_ptr i s) (\<lambda>s. at_table M B s \<and> False)" for M and B :: "nat \<Rightarrow> 'a option"
    by (rule triple_weaken [OF triple_new_ptr]) auto
  from triple_at [OF this, of R] show ?thesis by (rule triple_weaken) auto
qed

lemma triple_destruct_own:
  "triple (\<lambda>s. manager_ok s \<and> own_ptr i s \<and> R (pm_map s) (pm_objects s)) (liftP (plugin_destruct i))
     (\<lambda>_ s. manager_ok s \<and> R (pm_map s) (pm_objects s)) E"
proof -
  have "triple (\<lambda>s. at_table M B s \<and> own_ptr i s) (liftP (plugin_destruct i)) (\<lambda>_ s. at_table M B s \<and> True) (\<lambda>s. at_table M B s \<and> False)"
    for M and B :: "nat \<Rightarrow> 'a option"
    by (rule triple_weaken [OF triple_destruct]) auto
  from triple_at [OF this, of R] show ?thesis by (rule triple_weaken) auto
qed

lemma triple_load:
  fixes mk :: "nat \<Rightarrow> 'o"
  shows "triple manager_ok (manager_load os mk k plugin_type)
     (\<lambda>x s. manager_ok s \<and> (\<exists>j. map_find k (pm_map s) = Some (x, j))) manager_ok"
proof (rule tripleI)
  fix s :: "'o manager" and r s' assume ok: "manager_ok s" and run: "manager_load os mk k plugin_type s = (r, s')"
  show "(\<exists>e. r = Inl e \<and> (\<forall>f. e \<noteq> Abort f) \<and> manager_ok s') \<or>
      (\<exists>x. r = Inr x \<and> manager_ok s' \<and> (\<exists>j. map_find k (pm_map s') = Some (x, j)))"
  proof (cases "map_find k (pm_map s) = None")
    case False
    with ok run show ?thesis by (auto simp: manager_load_def throwS_def)
  next
    case True
    have fin: "triple (\<lambda>s :: 'o manager. manager_ok s \<and> own_ptr i s \<and> map_find k (pm_map s) = None)
        (finallyS (bindS (open_plugin os i plugin_type) (\<lambda>_. bindS (ptr_create mk i) (\<lambda>x. bindS (copy_ptr i) (\<lambda>j.
           bindS (manager_insert k x j) (\<lambda>_. returnS x))))) (liftP (plugin_destruct i)))
        (\<lambda>x s. manager_ok s \<and> (\<exists>j. map_find k (pm_map s) = Some (x, j))) manager_ok" for i
    proof (rule triple_finally [OF triple_load_body])
      show "triple (\<lambda>s :: 'o manager. manager_ok s \<and> own_ptr i s \<and> (\<exists>j. map_find k (pm_map s) = Some (x, j)))
          (liftP (plugin_destruct i)) (\<lambda>_ s. manager_ok s \<and> (\<exists>j. map_find k (pm_map s) = Some (x, j))) (\<lambda>_. False)" for x
        by (rule triple_destruct_own)
      show "triple (\<lambda>s :: 'o manager. manager_ok s \<and> own_ptr i s) (liftP (plugin_destruct i)) (\<lambda>_. manager_ok) (\<lambda>_. False)"
        by (rule triple_weaken [OF triple_destruct_own [where R = "\<lambda>_ _. True"]]) auto
    qed
    note tr = triple_bind [OF triple_new_own [where R = "\<lambda>M _. map_find k M = None" and E = manager_ok] fin]
    from run True have "bindS new_ptr (\<lambda>i. finallyS (bindS (open_plugin os i plugin_type) (\<lambda>_. bindS (ptr_create mk i) (\<lambda>x. bindS (copy_ptr i) (\<lambda>j.
           bindS (manager_insert k x j) (\<lambda>_. returnS x))))) (liftP (plugin_destruct i))) s = (r, s')" by (simp add: manager_load_def)
    from tripleD [OF tr _ this] ok True show ?thesis by blast
  qed
qed

text \<open>Removing and replacing destroy the object.\<close>

lemma map_find_set: "ordered m \<Longrightarrow> map_find k m = Some v \<longleftrightarrow> (k, v) \<in> set m"
proof (induction m)
  case (Cons e m)
  then show ?case by (cases "k = fst e") (auto simp: map_find_def prod_eq_iff)
qed (simp add: map_find_def)

lemma destroy_managed:
  assumes "manager_ok s" "map_find k (pm_map s) = Some (x, i)"
  shows "destroy_entry (x, i) s = (Inr (), s\<lparr>pm_objects := (pm_objects s)(x := None),
     pm_destroyed := pm_destroyed s @ [(destroyer (pm_plugins s) i, x)]\<rparr>)"
proof -
  note D = manager_okD [OF assms(1)]
  have "(k, x, i) \<in> set (pm_map s)" using assms(2) map_find_set [OF D(3)] by blast
  from D(6) [OF this] D(7) [OF this] show ?thesis by (intro destroy_entry_eq D(1,2)) simp_all
qed

text \<open>The entries other than one do not share its object or pointer.\<close>

lemma other_entries:
  assumes "manager_ok s" "map_find k (pm_map s) = Some (x, i)" "e \<in> set (pm_map s)" "fst e \<noteq> k"
  shows "entry_object e \<noteq> x" "entry_ptr e \<noteq> i"
proof -
  note D = manager_okD [OF assms(1)]
  have mem: "(k, x, i) \<in> set (pm_map s)" using assms(2) map_find_set [OF D(3)] by blast
  have ne: "e \<noteq> (k, x, i)" using assms(4) by auto
  show "entry_object e \<noteq> x" using D(4) mem assms(3) ne by (auto simp: distinct_map inj_on_def)
  show "entry_ptr e \<noteq> i" using D(5) mem assms(3) ne by (auto simp: distinct_map inj_on_def)
qed

lemma triple_remove:
  "triple manager_ok (manager_remove k) (\<lambda>_ s. manager_ok s \<and> map_find k (pm_map s) = None) manager_ok"
proof (rule tripleI)
  fix s :: "'a manager" and r s' assume ok: "manager_ok s" and run: "manager_remove k s = (r, s')"
  note D = manager_okD [OF ok]
  show "(\<exists>e. r = Inl e \<and> (\<forall>f. e \<noteq> Abort f) \<and> manager_ok s') \<or> (\<exists>a. r = Inr a \<and> manager_ok s' \<and> map_find k (pm_map s') = None)"
  proof (cases "map_find k (pm_map s)")
    case None
    with ok run show ?thesis by (auto simp: manager_remove_def bindS_def manager_lookup_def throwS_def)
  next
    case (Some v)
    obtain x i where v: "v = (x, i)" by fastforce
    have mem: "(k, x, i) \<in> set (pm_map s)" using Some v map_find_set [OF D(3)] by blast
    define s1 where "s1 = s\<lparr>pm_objects := (pm_objects s)(x := None), pm_destroyed := pm_destroyed s @ [(destroyer (pm_plugins s) i, x)],
       pm_map := map_erase k (pm_map s)\<rparr>"
    have sub: "e \<in> set (pm_map s1) \<Longrightarrow> e \<in> set (pm_map s) \<and> fst e \<noteq> k" for e by (simp add: s1_def set_map_erase [OF D(3)])
    have ok1: "manager_ok s1"
    proof (rule manager_okI)
      show "pm_objects s1 (entry_object e) \<noteq> None" if "e \<in> set (pm_map s1)" for e
        using sub [OF that] D(7) [of e] other_entries(1) [OF ok] Some v by (simp add: s1_def)
      show "pl_ptrs (pm_plugins s1) (entry_ptr e) \<noteq> None" if "e \<in> set (pm_map s1)" for e
        using sub [OF that] D(6) [of e] by (simp add: s1_def)
    qed (use D in \<open>simp_all add: s1_def ordered_map_erase distinct_map_erase\<close>)
    have "own_ptr i s1" unfolding own_ptr_def
    proof
      show "pl_ptrs (pm_plugins s1) i \<noteq> None" using D(6) [OF mem] by (simp add: s1_def)
      show "i \<notin> entry_ptr ` set (pm_map s1)" using sub other_entries(2) [OF ok] Some v by blast
    qed
    moreover have "liftP (plugin_destruct i) s1 = (r, s')"
      using run Some v destroy_managed [OF ok, of k x i]
      by (simp add: manager_remove_def bindS_def manager_lookup_def returnS_def modifyS_def s1_def)
    moreover have "map_find k (pm_map s1) = None" by (simp add: s1_def map_find_erase [OF D(3)])
    ultimately show ?thesis
      using tripleD [OF triple_destruct_own [where R = "\<lambda>M _. map_find k M = None" and E = manager_ok], of s1 i r s'] ok1 by blast
  qed
qed

lemma map_assign_entries:
  "map_find k m = Some (x', i) \<Longrightarrow> ordered m \<Longrightarrow>
     map entry_ptr (map_assign k (x, i) m) = map entry_ptr m \<and>
     (distinct (map entry_object m) \<longrightarrow> x \<notin> entry_object ` set m \<longrightarrow> distinct (map entry_object (map_assign k (x, i) m))) \<and>
     set (map_assign k (x, i) m) = insert (k, x, i) {e \<in> set m. fst e \<noteq> k}"
proof (induction m)
  case (Cons e m)
  consider "fst e = k" | "fst e < k" | "k < fst e" by force
  then show ?case
  proof cases
    case 1
    with Cons.prems show ?thesis by (auto simp: map_find_def entry_object_def entry_ptr_def)
  next
    case 2
    then have "map_find k m = Some (x', i)" using Cons.prems by (auto simp: map_find_def split: if_splits)
    with Cons 2 show ?thesis by auto
  next
    case 3
    with Cons.prems map_of_less [of m k] show ?thesis
      by (auto simp: map_find_def dest: order.strict_trans split: if_splits)
  qed
qed (simp add: map_find_def)

lemma triple_replace:
  "triple (\<lambda>s. manager_ok s \<and> own_object x s) (manager_replace k x) (\<lambda>_ s. manager_ok s \<and> (\<exists>i. map_find k (pm_map s) = Some (x, i))) manager_ok"
proof (rule tripleI)
  fix s :: "'a manager" and r s' assume pre: "manager_ok s \<and> own_object x s" and run: "manager_replace k x s = (r, s')"
  then have ok: "manager_ok s" by blast
  note D = manager_okD [OF ok]
  show "(\<exists>e. r = Inl e \<and> (\<forall>f. e \<noteq> Abort f) \<and> manager_ok s') \<or> (\<exists>a. r = Inr a \<and> manager_ok s' \<and> (\<exists>i. map_find k (pm_map s') = Some (x, i)))"
  proof (cases "map_find k (pm_map s)")
    case None
    with ok run show ?thesis by (auto simp: manager_replace_def bindS_def manager_lookup_def throwS_def)
  next
    case (Some v)
    obtain y i where v: "v = (y, i)" by fastforce
    note E = map_assign_entries [OF Some [unfolded v] D(3), of x]
    have mem: "(k, y, i) \<in> set (pm_map s)" using Some v map_find_set [OF D(3)] by blast
    have x: "pm_objects s x \<noteq> None" "x \<notin> entry_object ` set (pm_map s)" using pre by (simp_all add: own_object_def)
    then have "x \<noteq> y" using mem by (metis entry_simps(1) image_eqI)
    have s': "r = Inr ()" "s' = s\<lparr>pm_objects := (pm_objects s)(y := None), pm_destroyed := pm_destroyed s @ [(destroyer (pm_plugins s) i, y)],
       pm_map := map_assign k (x, i) (pm_map s)\<rparr>"
      using run Some v destroy_managed [OF ok, of k y i]
      by (simp_all add: manager_replace_def bindS_def manager_lookup_def returnS_def modifyS_def)
    have "manager_ok s'"
    proof (rule manager_okI)
      fix e assume "e \<in> set (pm_map s')"
      then consider "e = (k, x, i)" | "e \<in> set (pm_map s)" "fst e \<noteq> k" using E by (auto simp: s'(2))
      then have "pm_objects s' (entry_object e) \<noteq> None \<and> pl_ptrs (pm_plugins s') (entry_ptr e) \<noteq> None"
      proof cases
        case 1
        with D(6) [OF mem] x(1) \<open>x \<noteq> y\<close> show ?thesis by (simp add: s'(2))
      next
        case 2
        with D(6) [OF 2(1)] D(7) [OF 2(1)] other_entries(1) [OF ok Some [unfolded v] 2] show ?thesis by (simp add: s'(2))
      qed
      then show "pm_objects s' (entry_object e) \<noteq> None" "pl_ptrs (pm_plugins s') (entry_ptr e) \<noteq> None" by simp_all
    qed (use D E x(2) in \<open>simp_all add: s'(2) ordered_map_assign\<close>)
    with s' show ?thesis by (simp add: map_find_assign [OF D(3)])
  qed
qed

lemma triple_add: "triple (\<lambda>s :: 'o manager. manager_ok s \<and> own_object x s) (manager_add k x) (\<lambda>_. manager_ok) manager_ok"
proof -
  have new: "triple (\<lambda>s :: 'o manager. manager_ok s \<and> own_object x s) new_ptr (\<lambda>i s. manager_ok s \<and> own_ptr i s \<and> own_object x s) manager_ok"
    using triple_new_own [where R = "own_in x" and E = manager_ok] by (simp add: own_object_in)
  have "triple (\<lambda>s :: 'o manager. manager_ok s \<and> own_ptr i s \<and> own_object x s) (manager_insert k x i) (\<lambda>_. manager_ok) manager_ok" for i
  proof (rule tripleI)
    fix s :: "'o manager" and r s'
    assume pre: "manager_ok s \<and> own_ptr i s \<and> own_object x s" and run: "manager_insert k x i s = (r, s')"
    show "(\<exists>e. r = Inl e \<and> (\<forall>f. e \<noteq> Abort f) \<and> manager_ok s') \<or> (\<exists>a. r = Inr a \<and> manager_ok s')"
    proof (cases "map_find k (pm_map s) = None")
      case True
      with pre manager_ok_insert [of s x i k] have "manager_ok (s\<lparr>pm_map := map_insert k (x, i) (pm_map s)\<rparr>)" by blast
      with True run show ?thesis by (auto simp: manager_insert_def)
    next
      case False
      with run have "liftP (plugin_destruct i) s = (r, s')" by (simp add: manager_insert_def)
      with tripleD [OF triple_destruct_own [where R = "\<lambda>_ _. True" and E = manager_ok], of s i r s'] pre show ?thesis by blast
    qed
  qed
  from triple_bind [OF new this] show ?thesis unfolding manager_add_def .
qed

lemma manager_ok_object:
  assumes "manager_ok s" "pm_objects s x \<noteq> None"
  shows "manager_ok (s\<lparr>pm_objects := (pm_objects s)(x \<mapsto> y)\<rparr>)"
  by (rule manager_okI) (use manager_okD [OF assms(1)] assms(2) in auto)

lemma triple_call_objects:
  "triple (\<lambda>s. manager_ok s \<and> (\<forall>x\<in>set xs. pm_objects s x \<noteq> None)) (call_objects f xs) (\<lambda>_. manager_ok) manager_ok"
proof (induction xs)
  case Nil
  then show ?case by (auto intro: triple_return)
next
  case (Cons x xs)
  have one: "triple (\<lambda>s. manager_ok s \<and> (\<forall>x\<in>set (x # xs). pm_objects s x \<noteq> None)) (call_object f x)
      (\<lambda>_ s. manager_ok s \<and> (\<forall>x\<in>set xs. pm_objects s x \<noteq> None)) manager_ok"
    by (rule tripleI) (auto simp: call_object_def manager_ok_object split: prod.splits sum.splits)
  show ?case using triple_bind [OF one Cons.IH] by simp
qed

lemma triple_run_all: "triple manager_ok (manager_run_all f) (\<lambda>_. manager_ok) manager_ok"
proof (rule tripleI)
  fix s :: "'a manager" and r s' assume ok: "manager_ok s" and run: "manager_run_all f s = (r, s')"
  then have "\<forall>x\<in>set (map entry_object (pm_map s)). pm_objects s x \<noteq> None" using manager_okD(7) [OF ok] by auto
  with tripleD [OF triple_call_objects, of s "map entry_object (pm_map s)" f r s'] ok run
  show "(\<exists>e. r = Inl e \<and> (\<forall>f. e \<noteq> Abort f) \<and> manager_ok s') \<or> (\<exists>a. r = Inr a \<and> manager_ok s')"
    by (simp add: manager_run_all_def)
qed

lemma triple_run: "triple manager_ok (manager_run k f) (\<lambda>_. manager_ok) manager_ok"
proof (rule tripleI)
  fix s :: "'a manager" and r s' assume ok: "manager_ok s" and run: "manager_run k f s = (r, s')"
  show "(\<exists>e. r = Inl e \<and> (\<forall>f. e \<noteq> Abort f) \<and> manager_ok s') \<or> (\<exists>a. r = Inr a \<and> manager_ok s')"
  proof (cases "map_find k (pm_map s)")
    case None
    with ok run show ?thesis by (auto simp: manager_run_def manager_get_def throwS_def)
  next
    case (Some v)
    then have "(k, v) \<in> set (pm_map s)" using map_find_set [OF manager_okD(3) [OF ok]] by blast
    from manager_okD(7) [OF ok this] have "\<forall>x\<in>set [fst v]. pm_objects s x \<noteq> None" by (simp add: entry_object_def)
    with tripleD [OF triple_call_objects, of s "[fst v]" f] ok run Some show ?thesis
      by (cases "call_object f (fst v) s"; cases "fst (call_object f (fst v) s)") (auto simp: manager_run_def manager_get_def returnS_def)
  qed
qed

end
