(* ===== verification/Plugin_Manager_Properties.thy ===== *)
theory Plugin_Manager_Properties
  imports Plugin_Manager_Safety
begin

text \<open>
  Programs that use a plug-in manager: what holds in every state they reach, what clearing leaves, and what the
  search for the plug-in of a resource finds and misses.
\<close>

section \<open>Clearing\<close>

lemma manager_clear_eq:
  assumes "manager_ok s"
  shows "\<exists>s'. manager_clear s = (Inr (), s') \<and> manager_ok s' \<and> pm_map s' = [] \<and>
     pm_objects s' = (\<lambda>x. if x \<in> entry_object ` set (pm_map s) then None else pm_objects s x) \<and>
     pm_destroyed s' = pm_destroyed s @ map (\<lambda>e. (destroyer (pm_plugins s) (entry_ptr e), entry_object e)) (pm_map s) \<and>
     pl_ptrs (pm_plugins s') = (\<lambda>i. if i \<in> entry_ptr ` set (pm_map s) then None else pl_ptrs (pm_plugins s) i)"
proof -
  note D = manager_okD [OF assms]
  define s1 where "s1 = s\<lparr>pm_objects := (\<lambda>x. if x \<in> entry_object ` set (pm_map s) then None else pm_objects s x),
     pm_destroyed := pm_destroyed s @ map (\<lambda>e. (destroyer (pm_plugins s) (entry_ptr e), entry_object e)) (pm_map s)\<rparr>"
  have 1: "destroy_entries (pm_map s) s = (Inr (), s1)"
    unfolding s1_def by (rule destroy_entries_eq) (use D in auto)
  have "pl_ptrs (pm_plugins s1) i \<noteq> None" if "i \<in> set (map entry_ptr (pm_map s))" for i
    using that D(6) by (auto simp: s1_def)
  moreover have s1: "pm_plugins s1 = pm_plugins s" by (simp add: s1_def)
  ultimately obtain p where
    2: "destruct_ptrs (map entry_ptr (pm_map s)) s1 = (Inr (), s1\<lparr>pm_plugins := p\<rparr>)" "plugins_ok p" "functions_ok p"
      "pl_ptrs p = (\<lambda>i. if i \<in> entry_ptr ` set (pm_map s) then None else pl_ptrs (pm_plugins s) i)"
    using destruct_ptrs_eq [of s1 "map entry_ptr (pm_map s)"] D(1,2,5) unfolding s1 set_map by blast
  define s' where "s' = s1\<lparr>pm_plugins := p, pm_map := []\<rparr>"
  have "manager_clear s = (Inr (), s')" using 1 2(1) by (simp add: manager_clear_def bindS_def modifyS_def s'_def)
  moreover have "manager_ok s'" by (rule manager_okI) (use D 2 in \<open>auto simp: s'_def s1_def\<close>)
  ultimately show ?thesis using 2(4) by (simp add: s'_def s1_def)
qed

lemma no_pointers_no_plugins:
  assumes "plugins_ok p" "\<And>i. pl_ptrs p i = None"
  shows "pl_heap p = (\<lambda>_. None)" "pl_loaded p = {#}"
proof -
  have none: "pointers_to a p = {}" for a by (simp add: pointers_to_def assms(2))
  have heap: "pl_heap p a = None" for a
    using plugins_okD(4,5) [OF assms(1), of a] none [of a] by (cases "pl_heap p a") auto
  then show "pl_heap p = (\<lambda>_. None)" by blast
  have "count (pl_loaded p) h = 0" for h using plugins_okD(8) [OF assms(1), of h] by (simp add: blocks_of_def heap)
  then show "pl_loaded p = {#}" by (simp add: multiset_eq_iff)
qed

section \<open>Programs\<close>

text \<open>A program makes objects of its own and hands them to the manager, and it holds the pointers and the clones the
  manager gives it. What it destroys is its own.\<close>

definition thrown :: "exn + 'a \<Rightarrow> exn option" where
  "thrown r = (case r of Inl e \<Rightarrow> Some e | Inr _ \<Rightarrow> None)"

inductive manager_step :: "plugin_os \<Rightarrow> (nat \<Rightarrow> 'o) \<Rightarrow> 'o manager \<Rightarrow> exn option \<Rightarrow> 'o manager \<Rightarrow> bool" for os mk where
  create: "new_object y s = (r, s') \<Longrightarrow> manager_step os mk s (thrown r) s'"
| delete: "own_object x s \<Longrightarrow> destroy_object None x s = (r, s') \<Longrightarrow> manager_step os mk s (thrown r) s'"
| add: "own_object x s \<Longrightarrow> manager_add k x s = (r, s') \<Longrightarrow> manager_step os mk s (thrown r) s'"
| replace: "own_object x s \<Longrightarrow> manager_replace k x s = (r, s') \<Longrightarrow> manager_step os mk s (thrown r) s'"
| remove: "manager_remove k s = (r, s') \<Longrightarrow> manager_step os mk s (thrown r) s'"
| clone: "manager_clone mk k s = (r, s') \<Longrightarrow> manager_step os mk s (thrown r) s'"
| load: "manager_load os mk k plugin_type s = (r, s') \<Longrightarrow> manager_step os mk s (thrown r) s'"
| run_all: "manager_run_all f s = (r, s') \<Longrightarrow> manager_step os mk s (thrown r) s'"
| run: "manager_run k f s = (r, s') \<Longrightarrow> manager_step os mk s (thrown r) s'"
| library: "getLibPtr k s = (r, s') \<Longrightarrow> manager_step os mk s (thrown r) s'"
| drop_library: "own_ptr i s \<Longrightarrow> liftP (plugin_destruct i) s = (r, s') \<Longrightarrow> manager_step os mk s (thrown r) s'"
| clear: "manager_clear s = (r, s') \<Longrightarrow> manager_step os mk s (thrown r) s'"
| directory: "liftP (addPluginDirectory os dir) s = (r, s') \<Longrightarrow> manager_step os mk s (thrown r) s'"
| entry_point: "liftP (addStaticEntryPoint name f g) s = (r, s') \<Longrightarrow> manager_step os mk s (thrown r) s'"

inductive manager_reachable :: "plugin_os \<Rightarrow> (nat \<Rightarrow> 'o) \<Rightarrow> 'o manager \<Rightarrow> bool" for os mk where
  start: "manager_reachable os mk manager_init"
| step: "manager_reachable os mk s \<Longrightarrow> manager_step os mk s e s' \<Longrightarrow> manager_reachable os mk s'"

lemma triple_thrown:
  assumes "triple P m Q E" "P s" "m s = (r, s')" "\<And>a s. Q a s \<Longrightarrow> manager_ok s" "\<And>s. E s \<Longrightarrow> manager_ok s"
  shows "manager_ok s' \<and> (\<forall>f. thrown r \<noteq> Some (Abort f))"
  using tripleD [OF assms(1-3)] assms(4,5) by (auto simp: thrown_def)

lemma clone_ok:
  assumes "manager_ok s" "manager_clone mk k s = (r, s')"
  shows "manager_ok s' \<and> (\<forall>f. thrown r \<noteq> Some (Abort f))"
proof (cases "map_find k (pm_map s)")
  case None
  with assms show ?thesis by (auto simp: manager_clone_def manager_lookup_def bindS_def throwS_def thrown_def)
next
  case (Some e)
  then have "(k, e) \<in> set (pm_map s)" using map_find_set [OF manager_okD(3) [OF assms(1)]] by blast
  then have "pl_ptrs (pm_plugins s) (snd e) \<noteq> None" using manager_okD(6) [OF assms(1), of "(k, e)"] by (simp add: entry_ptr_def)
  moreover have "ptr_create mk (snd e) s = (r, s')"
    using assms(2) Some by (simp add: manager_clone_def manager_lookup_def bindS_def returnS_def)
  ultimately show ?thesis using ptr_create_cases [OF assms(1)] assms(1) by (fastforce simp: thrown_def)
qed

text \<open>Copying a pointer that is part of an entry.\<close>

lemma library_ok:
  assumes "manager_ok s" "getLibPtr k s = (r, s')"
  shows "manager_ok s' \<and> (\<forall>f. thrown r \<noteq> Some (Abort f))"
proof (cases "map_find k (pm_map s)")
  case None
  with assms(2) have "new_ptr s = (r, s')" by (simp add: getLibPtr_def)
  from triple_thrown [OF triple_new_own [where R = "\<lambda>_ _. True" and E = manager_ok] _ this] assms(1) show ?thesis by blast
next
  case (Some e)
  note D = manager_okD [OF assms(1)]
  have mem: "(k, e) \<in> set (pm_map s)" using Some map_find_set [OF D(3)] by blast
  have e: "pl_ptrs (pm_plugins s) (snd e) \<noteq> None" using D(6) [OF mem] by (simp add: entry_ptr_def)
  have "pl_ptrs (pm_plugins s) (pm_next_ptr s) = None" by (rule D(8)) simp
  from plugin_copy_eq [OF D(1) this e] obtain p where
    p: "plugin_copy (pm_next_ptr s) (snd e) (pm_plugins s) = (Inr (), p)" "plugins_ok p"
      "pl_ptrs p = (pl_ptrs (pm_plugins s))(pm_next_ptr s := pl_ptrs (pm_plugins s) (snd e))" by blast
  have s': "r = Inr (pm_next_ptr s)" "s' = s\<lparr>pm_next_ptr := Suc (pm_next_ptr s), pm_plugins := p\<rparr>"
    using assms(2) Some p(1) by (simp_all add: getLibPtr_def copy_ptr_def liftP_def bindS_def returnS_def)
  have "manager_ok s'" unfolding s'(2)
    by (rule fresh_own_ptr(1) [OF assms(1) p(2) functions_ok_copy [OF D(2) p(1)]]) (use p(3) e in auto)
  with s'(1) show ?thesis by (simp add: thrown_def)
qed

lemma other_fields_ok:
  assumes "manager_ok s"
  shows "manager_ok (s\<lparr>pm_plugins := pm_plugins s\<lparr>pl_dirs := ds\<rparr>\<rparr>)"
    "manager_ok (s\<lparr>pm_plugins := pm_plugins s\<lparr>pl_entry_points := es\<rparr>\<rparr>)"
  using manager_okD [OF assms] by (auto intro!: manager_ok_plugins assms ok_other_fields simp: functions_ok_def)

lemma manager_step_ok:
  assumes "manager_step os mk s e s'" "manager_ok s"
  shows "manager_ok s' \<and> (\<forall>f. e \<noteq> Some (Abort f))"
  using assms
proof (induction rule: manager_step.induct)
  case (create y s r s')
  then show ?case using object_fresh [of s y] by (auto simp: new_object_def thrown_def)
next
  case (delete x s r s')
  note D = manager_okD [OF delete(3)]
  have "x \<notin> entry_object ` set (pm_map s)" "pm_objects s x \<noteq> None" using delete(1) by (simp_all add: own_object_def)
  moreover from this have "manager_ok (s\<lparr>pm_objects := (pm_objects s)(x := None), pm_destroyed := pm_destroyed s @ [(None, x)]\<rparr>)"
    by (intro manager_okI) (use D in \<open>auto simp: image_iff\<close>)
  ultimately show ?case using delete(2) by (auto simp: destroy_object_def thrown_def)
next
  case (add x s k r s')
  with triple_thrown [OF triple_add _ add(2)] show ?case by blast
next
  case (replace x s k r s')
  with triple_thrown [OF triple_replace _ replace(2)] show ?case by blast
next
  case (remove k s r s')
  with triple_thrown [OF triple_remove _ remove(1)] show ?case by blast
next
  case (load k plugin_type s r s')
  with triple_thrown [OF triple_load _ load(1)] show ?case by blast
next
  case (run_all f s r s')
  with triple_thrown [OF triple_run_all _ run_all(1)] show ?case by blast
next
  case (run k f s r s')
  with triple_thrown [OF triple_run _ run(1)] show ?case by blast
next
  case (drop_library i s r s')
  with triple_thrown [OF triple_destruct_own [where R = "\<lambda>_ _. True" and E = manager_ok] _ drop_library(2)] show ?case by blast
next
  case (clear s r s')
  with manager_clear_eq [OF clear(2)] show ?case by (auto simp: thrown_def)
next
  case (directory dir s r s')
  then show ?case
    by (auto simp: liftP_def addPluginDirectory_def Let_def throwS_def modifyS_def other_fields_ok thrown_def split: if_splits)
next
  case (entry_point name f g s r s')
  then show ?case by (auto simp: liftP_def addStaticEntryPoint_def modifyS_def other_fields_ok thrown_def)
next
  case (clone k s r s')
  then show ?case by (intro clone_ok)
next
  case (library k s r s')
  then show ?case by (intro library_ok)
qed

lemma manager_reachable_ok: "manager_reachable os mk s \<Longrightarrow> manager_ok s"
  by (induction rule: manager_reachable.induct) (simp_all add: manager_ok_init manager_step_ok)

section \<open>Finding the plug-in of a resource\<close>

text \<open>What the search finds is what a search through all of them finds.\<close>

lemma find_down_search: "find_down resource es = Some v \<Longrightarrow> search_back resource es = Some v"
proof (induction resource es rule: find_down.induct)
  case (2 resource e es)
  show ?case
  proof (cases "take (length (fst e)) resource = fst e")
    case True
    then have "resource_matches resource (fst e) \<longleftrightarrow> length resource = length (fst e) \<or> resource ! length (fst e) = CHR ''/''"
      by (simp add: resource_matches_def)
    with 2 True show ?thesis by (auto split: if_splits)
  next
    case False
    then have "\<not> resource_matches resource (fst e)" by (auto simp: resource_matches_def)
    with 2 False show ?thesis by (cases es) (simp_all split: if_splits)
  qed
qed simp

lemma find_down_first: "find_down resource ((resource, v) # es) = Some v"
  by simp

lemma ordered_found_last:
  assumes "ordered m" "map_find k m = Some v"
  shows "\<exists>es. take (upper_bound k m) m = es @ [(k, v)]"
proof -
  define es where "es = take (upper_bound k m) m"
  have mem: "(k, v) \<in> set es"
    using assms map_find_set [OF assms(1), of k v] ordered_take_upper_bound [OF assms(1), of k] by (auto simp: es_def)
  then obtain as bs where es: "es = as @ (k, v) # bs" by (meson split_list)
  have "ordered es" using assms(1) unfolding ordered_def es_def by (metis sorted_wrt_take take_map)
  then have "\<forall>e\<in>set bs. k < fst e" by (auto simp: es ordered_def sorted_wrt_append)
  moreover have "\<forall>e\<in>set bs. fst e \<le> k" using ordered_take_upper_bound [OF assms(1), of k] es by (auto simp: es_def)
  ultimately have "bs = []" by (meson last_in_set leD)
  with es show ?thesis by (simp add: es_def)
qed

section \<open>Properties\<close>

text \<open>C18: In every state of a program with a plug-in manager each managed object is alive and none is managed twice; its
  library, when it has one, is loaded. No operation uses an object or a plug-in that is gone, and loading under
  an identifier that is taken is refused without a change.\<close>

theorem manager_objects_alive:
  assumes "manager_reachable os mk s"
  shows "distinct (map entry_object (pm_map s)) \<and>
     (\<forall>e\<in>set (pm_map s). pm_objects s (entry_object e) \<noteq> None \<and>
        (\<exists>p. pl_ptrs (pm_plugins s) (entry_ptr e) = Some p \<and>
          (\<forall>a. p = Some a \<longrightarrow> (\<exists>d. pl_heap (pm_plugins s) a = Some d \<and> (\<forall>h. d_lib_handle d = Some h \<longrightarrow> h \<in># pl_loaded (pm_plugins s)))))) \<and>
     (\<forall>e s'. manager_step os mk s e s' \<longrightarrow> (\<forall>f. e \<noteq> Some (Abort f))) \<and>
     (\<forall>k plugin_type. map_find k (pm_map s) \<noteq> None \<longrightarrow>
        manager_load os mk k plugin_type s = (Inl (Std_exception (DuplicatePluginException k)), s))"
proof -
  note ok = manager_reachable_ok [OF assms]
  note D = manager_okD [OF ok]
  have "\<exists>p. pl_ptrs (pm_plugins s) (entry_ptr e) = Some p \<and> (\<forall>a. p = Some a \<longrightarrow> (\<exists>d. pl_heap (pm_plugins s) a = Some d \<and>
      (\<forall>h. d_lib_handle d = Some h \<longrightarrow> h \<in># pl_loaded (pm_plugins s))))" if "e \<in> set (pm_map s)" for e
    using D(6) [OF that] plugins_okD(6) [OF D(1)] loaded_library [OF D(1)] by blast
  moreover have "manager_load os mk k plugin_type s = (Inl (Std_exception (DuplicatePluginException k)), s)"
    if "map_find k (pm_map s) \<noteq> None" for k plugin_type using that by (simp add: manager_load_def throwS_def)
  ultimately show ?thesis using D(4,7) manager_step_ok [OF _ ok] by blast
qed

text \<open>Clearing a manager destroys every managed object exactly once, in the order of the identifiers, with the
  function of the plug-in that the entry points to and otherwise with delete, and leaves the table empty; when
  the program holds no pointer of its own, no plug-in and no library stays open.\<close>

theorem manager_clear_releases:
  assumes "manager_reachable os mk s"
  shows "\<exists>s'. manager_clear s = (Inr (), s') \<and> manager_empty s' \<and>
     (\<forall>x. pm_objects s' x = (if x \<in> entry_object ` set (pm_map s) then None else pm_objects s x)) \<and>
     pm_destroyed s' = pm_destroyed s @ map (\<lambda>e. (destroyer (pm_plugins s) (entry_ptr e), entry_object e)) (pm_map s) \<and>
     ((\<forall>i. \<not> own_ptr i s) \<longrightarrow> pl_heap (pm_plugins s') = (\<lambda>_. None) \<and> pl_loaded (pm_plugins s') = {#})"
proof -
  note ok = manager_reachable_ok [OF assms]
  from manager_clear_eq [OF ok] obtain s' where s': "manager_clear s = (Inr (), s')" "manager_ok s'" "pm_map s' = []"
     "pm_objects s' = (\<lambda>x. if x \<in> entry_object ` set (pm_map s) then None else pm_objects s x)"
     "pm_destroyed s' = pm_destroyed s @ map (\<lambda>e. (destroyer (pm_plugins s) (entry_ptr e), entry_object e)) (pm_map s)"
     "pl_ptrs (pm_plugins s') = (\<lambda>i. if i \<in> entry_ptr ` set (pm_map s) then None else pl_ptrs (pm_plugins s) i)" by blast
  have "pl_heap (pm_plugins s') = (\<lambda>_. None) \<and> pl_loaded (pm_plugins s') = {#}" if "\<forall>i. \<not> own_ptr i s"
  proof -
    have "pl_ptrs (pm_plugins s') i = None" for i using that by (auto simp: s'(6) own_ptr_def)
    from no_pointers_no_plugins [OF manager_okD(1) [OF s'(2)] this] show ?thesis by blast
  qed
  with s' show ?thesis by (simp add: manager_empty_def)
qed

text \<open>The search for the plug-in of a resource returns the object of the longest identifier that is the resource or an
  initial part of it that ends before a slash, or none; an identifier that is the resource itself is always
  found.\<close>

theorem manager_find_sound:
  assumes "manager_reachable os mk s"
  shows "(\<forall>x. manager_find resource s = Some x \<longrightarrow>
       (\<exists>k i. map_find k (pm_map s) = Some (x, i) \<and> covers k resource \<and>
          (\<forall>e\<in>set (pm_map s). covers (fst e) resource \<longrightarrow> length (fst e) \<le> length k))) \<and>
     (\<forall>x i. map_find resource (pm_map s) = Some (x, i) \<longrightarrow> manager_find resource s = Some x)"
proof -
  note ord = manager_okD(3) [OF manager_reachable_ok [OF assms]]
  have "\<exists>k i. map_find k (pm_map s) = Some (x, i) \<and> covers k resource \<and>
      (\<forall>e\<in>set (pm_map s). covers (fst e) resource \<longrightarrow> length (fst e) \<le> length k)" if "manager_find resource s = Some x" for x
  proof -
    from that obtain i where "findRequestHandler resource (pm_map s) = Some (x, i)"
      by (auto simp: manager_find_def findRequestHandler_def dest: find_down_search split: if_splits)
    from findRequestHandler_Some [OF ord this] show ?thesis unfolding map_find_set [OF ord] by blast
  qed
  moreover have "manager_find resource s = Some x" if "map_find resource (pm_map s) = Some (x, i)" for x i
    using ordered_found_last [OF ord that] that by (auto simp: manager_find_def map_find_def)
  ultimately show ?thesis by blast
qed

text \<open>The search may miss the plug-in of a resource: when an identifier of the same length as the one before it
  sorts between the right identifier and the resource, the search stops there, so that a service under
  \<open>/a\<close> is not found for \<open>/a/d\<close> once others are under \<open>/a/b\<close> and \<open>/a/c\<close>, although the server finds
  a resource of its own in the same table.\<close>

theorem manager_find_misses:
  "manager_find ''/a/d'' (manager_init\<lparr>pm_map := [(''/a'', 0, 0), (''/a/b'', 1, 1), (''/a/c'', 2, 2)]\<rparr>) = None \<and>
   findRequestHandler ''/a/d'' [(''/a'', 0, 0), (''/a/b'', 1, 1), (''/a/c'', 2::nat, 2::nat)] = Some (0, 0)"
  by (simp add: manager_find_def findRequestHandler_def upper_bound_def manager_init_def resource_matches_def)

section \<open>Witnesses\<close>

text \<open>A manager with a service of the plug-in \<open>Echo\<close> at \<open>/echo\<close> and one of the program at \<open>/own\<close>.\<close>

definition example_manager :: "nat manager" where
  "example_manager = snd (manager_add ''/own'' 1 (snd (new_object 5 (snd (manager_load example_os (\<lambda>f. f) ''/echo'' ''/a/Echo.so''
     manager_init)))))"

lemma loaded_manager:
  "pm_map (snd (manager_load example_os (\<lambda>f. f) ''/echo'' ''/a/Echo.so'' manager_init)) = [(''/echo'', 0, 1)]"
  "pm_next_object (snd (manager_load example_os (\<lambda>f. f) ''/echo'' ''/a/Echo.so'' manager_init)) = 1"
  "pm_next_ptr (snd (manager_load example_os (\<lambda>f. f) ''/echo'' ''/a/Echo.so'' manager_init)) = 2"
  by code_simp+

lemma example_manager_map: "pm_map example_manager = [(''/echo'', 0, 1), (''/own'', 1, 2)]"
  by code_simp

lemma example_manager_reachable: "manager_reachable example_os (\<lambda>f. f) example_manager"
proof -
  define s1 where "s1 = snd (manager_load example_os (\<lambda>f. f) ''/echo'' ''/a/Echo.so'' manager_init)"
  define s2 where "s2 = snd (new_object 5 s1)"
  have "manager_reachable example_os (\<lambda>f. f) s1" unfolding s1_def
    by (rule manager_reachable.step [OF manager_reachable.start manager_step.load]) (rule prod.collapse [symmetric])
  then have s2: "manager_reachable example_os (\<lambda>f. f) s2" unfolding s2_def
    by (rule manager_reachable.step [OF _ manager_step.create]) (rule prod.collapse [symmetric])
  have own: "own_object 1 s2"
    using loaded_manager unfolding s1_def [symmetric] by (simp add: own_object_def s2_def new_object_def)
  show ?thesis unfolding example_manager_def s1_def [symmetric] s2_def [symmetric]
    by (rule manager_reachable.step [OF s2 manager_step.add [OF own]]) (rule prod.collapse [symmetric])
qed

lemma example_manager_facts:
  "pm_next_ptr example_manager = 3" "pl_ptrs (pm_plugins example_manager) 0 = None" "pm_destroyed example_manager = []"
  "destroyer (pm_plugins example_manager) 1 = Some 87" "destroyer (pm_plugins example_manager) 2 = None"
  "manager_find ''/echo/x'' example_manager = Some 0"
  by code_simp+

lemma example_manager_ptrs: "\<not> own_ptr i example_manager"
proof (cases "3 \<le> i")
  case True
  then show ?thesis
    using manager_okD(8) [OF manager_reachable_ok [OF example_manager_reachable], of i] example_manager_facts(1) by (simp add: own_ptr_def)
next
  case False
  then consider "i = 0" | "i = 1" | "i = 2" by linarith
  then show ?thesis by cases (simp_all add: own_ptr_def example_manager_facts example_manager_map)
qed

lemma manager_objects_alive_witness:
  "pm_objects example_manager 0 \<noteq> None \<and>
     manager_load example_os (\<lambda>f. f) ''/own'' ''Echo'' example_manager = (Inl (Std_exception (DuplicatePluginException ''/own'')), example_manager)"
proof -
  have "map_find ''/own'' (pm_map example_manager) \<noteq> None" by (simp add: example_manager_map map_find_def)
  with manager_objects_alive [OF example_manager_reachable] show ?thesis by (simp add: example_manager_map)
qed

lemma manager_clear_releases_witness:
  "\<exists>s'. manager_clear example_manager = (Inr (), s') \<and> pm_destroyed s' = [(Some 87, 0), (None, 1)] \<and>
     pm_objects s' 0 = None \<and> pl_heap (pm_plugins s') = (\<lambda>_. None) \<and> pl_loaded (pm_plugins s') = {#}"
  using manager_clear_releases [OF example_manager_reachable]
  by (auto simp: example_manager_ptrs example_manager_facts(3,5) example_manager_facts(4) [unfolded One_nat_def] example_manager_map)

lemma manager_find_sound_witness:
  "manager_find ''/own'' example_manager = Some 1 \<and>
     (\<exists>k i. map_find k (pm_map example_manager) = Some (0, i) \<and> covers k ''/echo/x'')"
proof -
  have "map_find ''/own'' (pm_map example_manager) = Some (1, 2)" by (simp add: example_manager_map map_find_def)
  with manager_find_sound [OF example_manager_reachable, of "''/own''"]
    manager_find_sound [OF example_manager_reachable, of "''/echo/x''"] example_manager_facts(6) show ?thesis by blast
qed

end
