(* ===== verification/Web_Services.thy ===== *)
theory Web_Services
  imports File_Service
begin

text \<open>
  The small services of the library: \<open>HelloService.cpp\<close>, \<open>AllowNothingService.cpp\<close>, \<open>EchoService.cpp\<close>,
  \<open>CookieService.cpp\<close> and \<open>LogService.cpp\<close>. Each answers a request with one response. Which logging library is
  configured is a parameter; what the library makes of an event is a string.
\<close>

section \<open>Answers\<close>

text \<open>A response with the status it is created with.\<close>

definition reply :: "boost_lib \<Rightarrow> (HTTPWriter \<Rightarrow> HTTPWriter) \<Rightarrow> 'w handler" where
  "reply lib fill = bindA create_writer (\<lambda>w. send_writer lib (fill w))"

definition line_end :: "HTTPWriter \<Rightarrow> HTTPWriter" where
  "line_end w = writeNoCopy STRING_CRLF w"

section \<open>Hello and nothing\<close>

definition HELLO_HTML :: string where "HELLO_HTML = ''<html><body>Hello World!</body></html>''"
definition DENY_HTML :: string where "DENY_HTML = ''<html><body>No, you can'' @ [CHR 0x27] @ ''t.</body></html>''"

definition hello_service :: "boost_lib \<Rightarrow> 'w handler" where
  "hello_service lib = reply lib (\<lambda>w. line_end (line_end (writeNoCopy HELLO_HTML w)))"

definition allow_nothing_service :: "boost_lib \<Rightarrow> 'w handler" where
  "allow_nothing_service lib =
     respond lib RESPONSE_CODE_METHOD_NOT_ALLOWED RESPONSE_MESSAGE_METHOD_NOT_ALLOWED
       (\<lambda>w. line_end (line_end (writeNoCopy DENY_HTML (with_response (addHeader ''Allow'' ''GET'') w))))"

section \<open>Echo\<close>

definition CONTENT_TYPE_TEXT :: string where "CONTENT_TYPE_TEXT = ''text/plain''"

definition writeDictionaryTerm :: "bool \<Rightarrow> string \<times> string \<Rightarrow> HTTPWriter \<Rightarrow> HTTPWriter" where
  "writeDictionaryTerm decode val w =
     writer_write STRING_CRLF (writer_write (if decode then url_decode (snd val) else snd val)
       (writer_write HEADER_NAME_VALUE_DELIMITER (writer_write (fst val) w)))"

definition heading :: "string \<Rightarrow> HTTPWriter \<Rightarrow> HTTPWriter" where
  "heading title w = line_end (line_end (writeNoCopy title w))"

definition request_lines :: "HTTPRequest_part \<Rightarrow> HTTPMessage \<Rightarrow> string list" where
  "request_lines r msg =
     [''Request method: '', m_method r, STRING_CRLF,
      ''Resource originally requested: '', m_original_resource r, STRING_CRLF,
      ''Resource delivered: '', m_resource r, STRING_CRLF,
      ''Query string: '', m_query_string r, STRING_CRLF,
      ''HTTP version: '', digits (unat (m_version_major msg)), ''.'', digits (unat (m_version_minor msg)), STRING_CRLF,
      ''Content length: '', digits (unat (m_content_length msg)), STRING_CRLF, STRING_CRLF]"

definition dictionary :: "string \<Rightarrow> bool \<Rightarrow> StringDictionary \<Rightarrow> HTTPWriter \<Rightarrow> HTTPWriter" where
  "dictionary title decode d w = line_end (fold (writeDictionaryTerm decode) d (heading title w))"

definition echo_page :: "HTTPRequest_part \<Rightarrow> HTTPMessage \<Rightarrow> string option \<Rightarrow> string option \<Rightarrow> HTTPWriter \<Rightarrow> HTTPWriter" where
  "echo_page r msg posted user w =
     (let w1 = heading ''[Request Echo]'' (with_response (setContentType CONTENT_TYPE_TEXT) w);
          w2 = fold writer_write (request_lines r msg) w1;
          w3 = dictionary ''[Request Headers]'' False (m_headers msg) w2;
          w4 = dictionary ''[Query Parameters]'' True (m_query_params r) w3;
          w5 = dictionary ''[Cookie Parameters]'' False (m_cookie_params msg) w4;
          w6 = heading ''[POST Content]'' w5;
          w7 = (case posted of None \<Rightarrow> w6 | Some s \<Rightarrow> line_end (line_end (writer_write s w6)))
      in case user of None \<Rightarrow> w7
         | Some name \<Rightarrow> line_end (writer_write name (writer_write ''User authenticated, username: '' (heading ''[USER Info]'' w7))))"

text \<open>The content is read when its length is not zero.\<close>

definition echo_service :: "boost_lib \<Rightarrow> string option \<Rightarrow> 'w handler" where
  "echo_service lib user c =
     bindA create_writer (\<lambda>w.
       bindA (lift_fault (as_request (x_request c))) (\<lambda>r.
         bindA (lift_fault (if m_content_length (x_request c) \<noteq> 0 then bindE (content_bytes (x_request c)) (\<lambda>s. Inr (Some s)) else Inr None))
           (\<lambda>posted. send_writer lib (echo_page r (x_request c) posted user w)))) c"

section \<open>Cookies\<close>

abbreviation nl :: string where "nl \<equiv> [CHR 0x0A]"

definition COOKIE_HEADER_HTML :: string where
  "COOKIE_HEADER_HTML = ''<html>'' @ nl @ ''<head>'' @ nl @ ''<title>Cookie Service</title>'' @ nl @ ''</head>'' @ nl @ ''<body>'' @ nl @ nl
     @ ''<h1>Cookie Service</h1>'' @ nl"
definition COOKIE_FOOTER_HTML :: string where
  "COOKIE_FOOTER_HTML = nl @ ''</body>'' @ nl @ ''</html>'' @ nl"

definition cookie_note :: "string \<Rightarrow> HTTPWriter \<Rightarrow> HTTPWriter" where
  "cookie_note s w = writer_write (nl @ ''<p>['' @ s @ '']</p>'' @ nl @ nl) w"

text \<open>The action a request asks for. Only the name \<open>Add Cookie\<close> is compared after decoding.\<close>

definition cookie_action :: "boost_lib \<Rightarrow> HTTPRequest_part \<Rightarrow> HTTPWriter \<Rightarrow> HTTPWriter" where
  "cookie_action lib r w =
     (let cookie_name = getQuery ''cookie_name'' r; cookie_value = getQuery ''cookie_value'' r
      in if \<not> hasQuery ''action'' r then w
         else if url_decode (getQuery ''action'' r) = ''Add Cookie'' then
           (if cookie_name = [] \<or> cookie_value = [] then cookie_note ''Error: You must specify a name and value to add a cookie'' w
            else cookie_note (''Added cookie '' @ cookie_name @ ''='' @ cookie_value)
                   (with_response (setCookie lib cookie_name cookie_value []) w))
         else if getQuery ''action'' r = ''delete'' then
           (if cookie_name = [] then cookie_note ''Error: You must specify a name to delete a cookie'' w
            else cookie_note (''Deleted cookie '' @ cookie_name) (with_response (deleteCookie lib cookie_name []) w))
         else cookie_note ''Error: Unrecognized action'' w)"

definition cookie_headers :: "HTTPMessage \<Rightarrow> string" where
  "cookie_headers msg =
     (if hasHeader HEADER_COOKIE msg then
        nl @ ''<h2>Cookie Headers</h2>'' @ nl @ ''<ul>'' @ nl
          @ concat (map (\<lambda>v. ''<li>Cookie: '' @ v @ nl) (dict_values HEADER_COOKIE (m_headers msg))) @ ''</ul>'' @ nl @ nl
      else nl @ ''<h2>No Cookie Headers</h2>'' @ nl @ nl)"

definition cookie_variables :: "HTTPRequest_part \<Rightarrow> HTTPMessage \<Rightarrow> string" where
  "cookie_variables r msg =
     (if m_cookie_params msg \<noteq> [] then
        nl @ ''<h2>Cookie Variables</h2>'' @ nl @ ''<ul>'' @ nl
          @ concat (map (\<lambda>e. ''<li>'' @ fst e @ '': '' @ snd e @ '' <a href='' @ dq @ m_resource r @ ''?action=delete&cookie_name='' @ fst e
               @ dq @ ''>[Delete]</a>'' @ nl) (m_cookie_params msg)) @ ''</ul>'' @ nl @ nl
      else nl @ ''<h2>No Cookie Variables</h2>'' @ nl @ nl)"

definition cookie_form :: "HTTPRequest_part \<Rightarrow> string" where
  "cookie_form r =
     nl @ ''<h2>Add Cookie</h2>'' @ nl @ ''<p><form action='' @ dq @ m_resource r @ dq @ '' method='' @ dq @ ''POST'' @ dq @ ''>'' @ nl
       @ ''Name: <input type='' @ dq @ ''text'' @ dq @ '' name='' @ dq @ ''cookie_name'' @ dq @ ''><br />'' @ nl
       @ ''Value: <input type='' @ dq @ ''text'' @ dq @ '' name='' @ dq @ ''cookie_value'' @ dq @ ''><br />'' @ nl
       @ ''<input type='' @ dq @ ''submit'' @ dq @ '' name='' @ dq @ ''action'' @ dq @ '' value='' @ dq @ ''Add Cookie'' @ dq @ ''></p>'' @ nl
       @ ''</form>'' @ nl @ nl"

definition cookie_page :: "boost_lib \<Rightarrow> HTTPRequest_part \<Rightarrow> HTTPMessage \<Rightarrow> HTTPWriter \<Rightarrow> HTTPWriter" where
  "cookie_page lib r msg w =
     (let w1 = cookie_action lib r (writeNoCopy COOKIE_HEADER_HTML (with_response (setContentType CONTENT_TYPE_HTML) w))
      in writeNoCopy COOKIE_FOOTER_HTML
           (writer_write (cookie_form r) (writer_write (cookie_variables r msg) (writer_write (cookie_headers msg) w1))))"

definition cookie_service :: "boost_lib \<Rightarrow> 'w handler" where
  "cookie_service lib c =
     bindA create_writer (\<lambda>w. bindA (lift_fault (as_request (x_request c))) (\<lambda>r.
       send_writer lib (cookie_page lib r (x_request c) w))) c"

section \<open>Logging\<close>

datatype logging = Log_library | Log_disabled | Log_ostream

record LogServiceAppender =
  la_max_events :: "32 word"
  la_num_events :: "32 word"
  la_log_events :: "string list"

definition DEFAULT_MAX_EVENTS :: "32 word" where "DEFAULT_MAX_EVENTS = 25"

definition LogServiceAppender_init :: LogServiceAppender where
  "LogServiceAppender_init = \<lparr>la_max_events = DEFAULT_MAX_EVENTS, la_num_events = 0, la_log_events = []\<rparr>"

definition setMaxEvents :: "32 word \<Rightarrow> LogServiceAppender \<Rightarrow> LogServiceAppender" where
  "setMaxEvents n a = a\<lparr>la_max_events := n\<rparr>"

text \<open>Erasing the first element of an empty list is a fault.\<close>

function trim_events :: "32 word \<Rightarrow> 32 word \<Rightarrow> string list \<Rightarrow> fault + (32 word \<times> string list)" where
  "trim_events max_events n es =
     (if n > max_events then (case es of [] \<Rightarrow> Inl Out_of_bounds | _ # es' \<Rightarrow> trim_events max_events (n - 1) es') else Inr (n, es))"
  by pat_completeness auto
termination
  by (relation "measure (\<lambda>(_, _, es). length es)") auto

declare trim_events.simps [simp del]

definition addLogString :: "string \<Rightarrow> LogServiceAppender \<Rightarrow> fault + LogServiceAppender" where
  "addLogString log_string a =
     bindE (trim_events (la_max_events a) (la_num_events a + 1) (la_log_events a @ [log_string]))
       (\<lambda>(n, es). Inr (a\<lparr>la_num_events := n, la_log_events := es\<rparr>))"

fun addLogStrings :: "string list \<Rightarrow> LogServiceAppender \<Rightarrow> fault + LogServiceAppender" where
  "addLogStrings [] a = Inr a"
| "addLogStrings (s # ss) a = bindE (addLogString s a) (addLogStrings ss)"

definition writeLogEvents :: "logging \<Rightarrow> LogServiceAppender \<Rightarrow> HTTPWriter \<Rightarrow> HTTPWriter" where
  "writeLogEvents log a w =
     (case log of
        Log_library \<Rightarrow> fold writer_write (la_log_events a) w
      | Log_disabled \<Rightarrow> writer_write STRING_CRLF (writer_write ''Logging is disabled.'' w)
      | Log_ostream \<Rightarrow> writer_write STRING_CRLF (writer_write ''Using ostream logging.'' w))"

definition log_service :: "boost_lib \<Rightarrow> logging \<Rightarrow> LogServiceAppender \<Rightarrow> 'w handler" where
  "log_service lib log a = reply lib (\<lambda>w. writeLogEvents log a (with_response (setContentType CONTENT_TYPE_TEXT) w))"

section \<open>Every service answers\<close>

lemma create_writer_request:
  assumes "is_request (x_request c)"
  shows "\<exists>w. create_writer c = (Inr w, c)"
  using HTTPResponseWriter_create_request [OF assms] by (auto simp: create_writer_def lift_fault_def)

lemma reply_open:
  assumes "is_request (x_request c)" "tc_open (x_conn c)"
  shows "\<exists>s. reply lib fill c = (Inr (), c\<lparr>x_conn := async_write s (x_conn c)\<rparr>)"
  using create_writer_request [OF assms(1)] send_writer_open [OF assms(2)] by (auto simp: reply_def bindA_def)

lemma page_open:
  assumes "is_request (x_request c)" "tc_open (x_conn c)"
  shows "\<exists>s. bindA create_writer (\<lambda>w. bindA (lift_fault (as_request (x_request c))) (\<lambda>r. send_writer lib (fill r w))) c =
     (Inr (), c\<lparr>x_conn := async_write s (x_conn c)\<rparr>)"
  using create_writer_request [OF assms(1)] as_request_ok [OF assms(1)] send_writer_open [OF assms(2)]
  by (auto simp: bindA_def lift_fault_def)

interpretation hello: answering "hello_service lib"
  by unfold_locales (use reply_open in \<open>fastforce simp: hello_service_def\<close>)

interpretation allow_nothing: answering "allow_nothing_service lib"
  by unfold_locales (use respond_open in \<open>fastforce simp: allow_nothing_service_def\<close>)

interpretation cookies: answering "cookie_service lib"
  by unfold_locales (use page_open in \<open>fastforce simp: cookie_service_def\<close>)

interpretation logs: answering "log_service lib log a"
  by unfold_locales (use reply_open in \<open>fastforce simp: log_service_def\<close>)

text \<open>Echo needs the content it copies.\<close>

lemma echo_open:
  assumes "is_request (x_request c)" "tc_open (x_conn c)" "m_content_length (x_request c) = 0 \<or> (\<exists>s. content_bytes (x_request c) = Inr s)"
  shows "\<exists>s. echo_service lib user c = (Inr (), c\<lparr>x_conn := async_write s (x_conn c)\<rparr>)"
proof -
  obtain w where w: "create_writer c = (Inr w, c)" using create_writer_request [OF assms(1)] by blast
  obtain r where r: "as_request (x_request c) = Inr r" using as_request_ok [OF assms(1)] by blast
  obtain posted where "(if m_content_length (x_request c) \<noteq> 0 then bindE (content_bytes (x_request c)) (\<lambda>s. Inr (Some s)) else Inr None) = (Inr posted :: fault + string option)"
    using assms(3) by (cases "m_content_length (x_request c) = 0") auto
  with w r send_writer_open [OF assms(2), of lib "echo_page r (x_request c) posted user w"] show ?thesis
    by (auto simp: echo_service_def bindA_def lift_fault_def)
qed

section \<open>The last events are kept\<close>

lemma unat_inc: "(n :: 32 word) \<noteq> - 1 \<Longrightarrow> unat (n + 1) = Suc (unat n)"
  using unatSuc [of n] by (simp add: add.commute [of n] add_eq_0_iff)

text \<open>Trimming drops from the front until the limit is kept.\<close>

lemma trim_events_eq:
  "unat n = length es \<Longrightarrow> unat m \<le> length es \<Longrightarrow>
     trim_events m n es = Inr (m, drop (length es - unat m) es)"
proof (induction m n es rule: trim_events.induct)
  case (1 m n es)
  show ?case
  proof (cases "n > m")
    case False
    with 1 have "n = m" by (simp add: word_less_nat_alt word_unat_eq_iff)
    with 1 show ?thesis by (simp add: trim_events.simps [of m m])
  next
    case True
    then obtain e es' where es: "es = e # es'" using 1(2) by (cases es) (auto simp: word_less_nat_alt)
    have n: "unat (n - 1) = length es'" using 1(2) True es by (metis length_Cons unat_minus_one word_not_simps(1) diff_Suc_1)
    have m: "unat m \<le> length es'" using True 1(2) es by (simp add: word_less_nat_alt)
    from "1.IH" [OF True es n m] True es m show ?thesis by (simp add: trim_events.simps [of m n] Suc_diff_le)
  qed
qed

definition log_ok :: "LogServiceAppender \<Rightarrow> bool" where
  "log_ok a \<longleftrightarrow> unat (la_num_events a) = length (la_log_events a) \<and> la_num_events a \<le> la_max_events a"

definition last_of :: "nat \<Rightarrow> 'a list \<Rightarrow> 'a list" where
  "last_of n xs = drop (length xs - n) xs"

lemma last_of_append: "last_of n (last_of n xs @ ys) = last_of n (xs @ ys)"
proof (cases "length xs \<le> n")
  case False
  then have "length (last_of n xs) = n" by (simp add: last_of_def)
  with False show ?thesis by (simp add: last_of_def add.commute)
qed (simp add: last_of_def)

lemma addLogString_eq:
  assumes "log_ok a" "la_max_events a \<noteq> - 1"
  shows "\<exists>a'. addLogString s a = Inr a' \<and> log_ok a' \<and> la_max_events a' = la_max_events a \<and>
     la_log_events a' = last_of (unat (la_max_events a)) (la_log_events a @ [s])"
proof -
  define m where "m = la_max_events a"
  define es where "es = la_log_events a @ [s]"
  have le: "unat (la_num_events a) \<le> unat m" using assms(1) by (simp add: log_ok_def m_def word_le_nat_alt)
  have "la_num_events a \<noteq> - 1"
    using assms unfolding log_ok_def by (metis word_order.extremum_uniqueI)
  then have n: "unat (la_num_events a + 1) = length es" using assms(1) by (simp add: unat_inc log_ok_def es_def)
  show ?thesis
  proof (cases "unat m \<le> length es")
    case True
    from trim_events_eq [OF n True] True show ?thesis
      by (simp add: addLogString_def m_def [symmetric] es_def [symmetric] log_ok_def last_of_def)
  next
    case False
    then have "\<not> la_num_events a + 1 > m" using n by (simp add: word_less_nat_alt)
    with n False show ?thesis
      by (simp add: addLogString_def m_def [symmetric] es_def [symmetric] log_ok_def last_of_def trim_events.simps [of m] word_le_nat_alt)
  qed
qed

lemma addLogStrings_eq:
  "log_ok a \<Longrightarrow> la_max_events a \<noteq> - 1 \<Longrightarrow>
     \<exists>a'. addLogStrings ss a = Inr a' \<and> log_ok a' \<and> la_max_events a' = la_max_events a \<and>
       la_log_events a' = last_of (unat (la_max_events a)) (la_log_events a @ ss)"
proof (induction ss arbitrary: a)
  case Nil
  then show ?case by (simp add: last_of_def log_ok_def word_le_nat_alt)
next
  case (Cons s ss)
  from addLogString_eq [OF Cons.prems, of s] obtain a1 where
    a1: "addLogString s a = Inr a1" "log_ok a1" "la_max_events a1 = la_max_events a"
      "la_log_events a1 = last_of (unat (la_max_events a)) (la_log_events a @ [s])" by blast
  from Cons.IH [OF a1(2)] a1(3) Cons.prems(2) obtain a' where
    "addLogStrings ss a1 = Inr a'" "log_ok a'" "la_max_events a' = la_max_events a"
      "la_log_events a' = last_of (unat (la_max_events a)) (la_log_events a1 @ ss)" by auto
  with a1(1,4) last_of_append [of "unat (la_max_events a)" "la_log_events a @ [s]" ss] show ?case by simp
qed

section \<open>Properties\<close>

text \<open>Each of the small services answers a request on an open connection with exactly one write, whatever the
  request asks for; the echo service does so when the content it copies is there.\<close>

theorem small_services_answer:
  assumes "is_request (x_request c)" "tc_open (x_conn c)"
  shows "(\<forall>h\<in>{hello_service lib, allow_nothing_service lib, cookie_service lib, log_service lib log a}.
       \<exists>s. h c = (Inr (), c\<lparr>x_conn := async_write s (x_conn c)\<rparr>)) \<and>
     (m_content_length (x_request c) = 0 \<or> (\<exists>s. content_bytes (x_request c) = Inr s) \<longrightarrow>
       (\<exists>s. echo_service lib user c = (Inr (), c\<lparr>x_conn := async_write s (x_conn c)\<rparr>)))"
proof -
  have "\<exists>s. hello_service lib c = (Inr (), c\<lparr>x_conn := async_write s (x_conn c)\<rparr>)"
    "\<exists>s. log_service lib log a c = (Inr (), c\<lparr>x_conn := async_write s (x_conn c)\<rparr>)"
    unfolding hello_service_def log_service_def by (rule reply_open [OF assms])+
  moreover have "\<exists>s. allow_nothing_service lib c = (Inr (), c\<lparr>x_conn := async_write s (x_conn c)\<rparr>)"
    unfolding allow_nothing_service_def by (rule respond_open [OF assms])
  moreover have "\<exists>s. cookie_service lib c = (Inr (), c\<lparr>x_conn := async_write s (x_conn c)\<rparr>)"
    unfolding cookie_service_def by (rule page_open [OF assms])
  ultimately show ?thesis using echo_open [OF assms] by blast
qed

text \<open>The log service keeps the last twenty-five events it was given, or as many as its limit says, in order; the
  counter is the number of events kept and trimming never erases from an empty list.\<close>

theorem log_keeps_last_events:
  assumes "n \<noteq> - 1"
  shows "\<exists>a. addLogStrings ss (setMaxEvents n LogServiceAppender_init) = Inr a \<and>
     la_log_events a = last_of (unat n) ss \<and> unat (la_num_events a) = length (la_log_events a)"
proof -
  define a0 where "a0 = setMaxEvents n LogServiceAppender_init"
  have "log_ok a0" "la_max_events a0 \<noteq> - 1" "la_max_events a0 = n" "la_log_events a0 = []"
    using assms by (simp_all add: a0_def log_ok_def setMaxEvents_def LogServiceAppender_init_def)
  with addLogStrings_eq [of a0 ss] show ?thesis unfolding a0_def [symmetric] by (auto simp: log_ok_def)
qed

section \<open>Witnesses\<close>

lemma small_services_answer_witness:
  "\<exists>s. echo_service writer_example_lib (Some ''ann'') \<lparr>x_request = HTTPRequest_init ''/x'', x_conn = TCPConnection_init, x_world = ()\<rparr> =
     (Inr (), \<lparr>x_request = HTTPRequest_init ''/x'', x_conn = async_write s TCPConnection_init, x_world = ()\<rparr>)"
proof -
  define c where "c = \<lparr>x_request = HTTPRequest_init ''/x'', x_conn = TCPConnection_init, x_world = ()\<rparr>"
  have c: "is_request (x_request c)" "tc_open (x_conn c)" "m_content_length (x_request c) = 0"
    by (simp_all add: c_def HTTPRequest_init_def HTTPMessage_init_def is_request_def TCPConnection_init_def)
  from conjunct2 [OF small_services_answer [OF c(1,2), where lib = writer_example_lib and user = "Some ''ann''"]] c(3)
  obtain s where "echo_service writer_example_lib (Some ''ann'') c = (Inr (), c\<lparr>x_conn := async_write s (x_conn c)\<rparr>)" by blast
  then show ?thesis by (auto simp: c_def)
qed

lemma log_keeps_last_events_witness:
  "\<exists>a. addLogStrings [''a'', ''b'', ''c''] (setMaxEvents 2 LogServiceAppender_init) = Inr a \<and> la_log_events a = [''b'', ''c'']"
  using log_keeps_last_events [of 2 "[''a'', ''b'', ''c'']"] by (auto simp: last_of_def)

end
