(* ===== verification/Web_Server.thy ===== *)
theory Web_Server
  imports Plugin_Manager_Properties Web_Services
begin

text \<open>
  \<open>WebServer.hpp\<close> and \<open>WebServer.cpp\<close>: an HTTP server whose resources are web services, objects that plug-ins make or
  the program adds, and the configuration file that loads them. The virtual functions of \<open>WebService.hpp\<close> are
  a record; the state behind the handlers is the authentication, the user of the request, the clock and the
  manager of the services. Logging is left out.
\<close>

section \<open>Services and exceptions\<close>

record 'x service_ops =
  so_call :: "string option \<Rightarrow> 'x handler"
  so_setOption :: "string \<Rightarrow> string \<Rightarrow> 'x \<Rightarrow> (string + unit) \<times> 'x"
  so_start :: "'x \<Rightarrow> (string + unit) \<times> 'x"
  so_stop :: "'x \<Rightarrow> (string + unit) \<times> 'x"
  so_setResource :: "string \<Rightarrow> 'x \<Rightarrow> 'x"

text \<open>What a service inherits when it does not override a function.\<close>

definition default_setOption :: "string \<Rightarrow> string \<Rightarrow> 'x \<Rightarrow> (string + unit) \<times> 'x" where
  "default_setOption name val x = (Inl (UnknownOptionException name), x)"

definition default_start :: "'x \<Rightarrow> (string + unit) \<times> 'x" where
  "default_start x = (Inr (), x)"

definition ServiceNotFoundException :: "string \<Rightarrow> string" where
  "ServiceNotFoundException resource = ''No web services are identified by the resource: '' @ resource"
definition ConfigNotFoundException :: "string \<Rightarrow> string" where
  "ConfigNotFoundException file = ''Web service configuration file not found: '' @ file"
definition ConfigParsingException :: "string \<Rightarrow> string" where
  "ConfigParsingException file = ''Unable to parse configuration file: '' @ file"
definition AuthConfigException :: "string \<Rightarrow> string" where
  "AuthConfigException error_msg = ''Error in web server authorization config: '' @ error_msg"
definition WebServiceException :: "string \<Rightarrow> string \<Rightarrow> string" where
  "WebServiceException resource file = ''WebService ('' @ resource @ ''): '' @ file"

section \<open>The state\<close>

datatype server_auth = Basic HTTPBasicAuth | Cookie HTTPCookieAuth

type_synonym 'x web_world = "(server_auth option, 'x manager) guarded"

record 'x web_server =
  wb_http :: "'x web_world HTTPServer"
  wb_world :: "'x web_world"
  wb_listening :: bool

text \<open>What the server is built with: the library, the linker and the file system, what a create function makes, the
  functions of the services, the random numbers of a seed and the contents of configuration files.\<close>

record 'x web_env =
  we_lib :: boost_lib
  we_os :: plugin_os
  we_make :: "nat \<Rightarrow> 'x"
  we_ops :: "'x service_ops"
  we_random :: "int \<Rightarrow> nat \<Rightarrow> nat"
  we_config :: "string \<Rightarrow> string option"

definition services :: "'x web_server \<Rightarrow> 'x manager" where
  "services s = g_rest (wb_world s)"

definition liftM :: "('x manager, 'a) run_state \<Rightarrow> ('x web_server, 'a) run_state" where
  "liftM m s = (case m (services s) of (r, p) \<Rightarrow> (r, s\<lparr>wb_world := (wb_world s)\<lparr>g_rest := p\<rparr>\<rparr>))"

definition on_http :: "('x web_world HTTPServer \<Rightarrow> 'x web_world HTTPServer) \<Rightarrow> ('x web_server, unit) run_state" where
  "on_http f = modifyS (\<lambda>s. s\<lparr>wb_http := f (wb_http s)\<rparr>)"

text \<open>Catching \<open>std::exception\<close>.\<close>

definition catchS :: "('s, 'a) run_state \<Rightarrow> (string \<Rightarrow> ('s, 'a) run_state) \<Rightarrow> ('s, 'a) run_state" where
  "catchS m h s = (case m s of (Inl (Std_exception msg), s') \<Rightarrow> h msg s' | r \<Rightarrow> r)"

section \<open>Handlers\<close>

text \<open>The handler of a service refers to the object; calling it after the object is gone is a fault.\<close>

definition service_handler :: "'x service_ops \<Rightarrow> nat \<Rightarrow> 'x web_world handler" where
  "service_handler ops x c =
     (let w = x_world c; m = g_rest w
      in case pm_objects m x of
           None \<Rightarrow> (Inl (Abort Dangling_pointer), c)
         | Some y \<Rightarrow>
             (case so_call ops (g_user w) \<lparr>x_request = x_request c, x_conn = x_conn c, x_world = y\<rparr> of (r, c') \<Rightarrow>
                (r, \<lparr>x_request = x_request c', x_conn = x_conn c',
                     x_world = w\<lparr>g_rest := m\<lparr>pm_objects := (pm_objects m)(x \<mapsto> x_world c')\<rparr>\<rparr>\<rparr>)))"

text \<open>The virtual call of the authentication the server has.\<close>

definition with_auth :: "('a \<Rightarrow> server_auth) \<Rightarrow> 'a \<Rightarrow> (('a, 'r) guarded, bool) action \<Rightarrow> ((server_auth option, 'r) guarded, bool) action" where
  "with_auth con a m c =
     (let w = x_world c
      in case m \<lparr>x_request = x_request c, x_conn = x_conn c,
                 x_world = \<lparr>g_auth = a, g_user = g_user w, g_now = g_now w, g_rest = g_rest w\<rparr>\<rparr> of (r, c') \<Rightarrow>
           (let w' = x_world c'
            in (r, \<lparr>x_request = x_request c', x_conn = x_conn c',
                    x_world = \<lparr>g_auth = Some (con (g_auth w')), g_user = g_user w', g_now = g_now w', g_rest = g_rest w'\<rparr>\<rparr>)))"

definition auth_action :: "boost_lib \<Rightarrow> ((server_auth option, 'r) guarded, bool) action" where
  "auth_action lib c =
     (case g_auth (x_world c) of
        None \<Rightarrow> (Inr True, c)
      | Some (Basic a) \<Rightarrow> with_auth Basic a (basic_handleRequest lib) c
      | Some (Cookie a) \<Rightarrow> with_auth Cookie a (cookie_handleRequest lib) c)"

definition setAuthentication :: "boost_lib \<Rightarrow> server_auth option \<Rightarrow> ('x web_server, unit) run_state" where
  "setAuthentication lib auth =
     modifyS (\<lambda>s. s\<lparr>wb_http := (wb_http s)\<lparr>s_auth := map_option (\<lambda>_. auth_action lib) auth\<rparr>,
                    wb_world := (wb_world s)\<lparr>g_auth := auth\<rparr>\<rparr>)"

section \<open>Services of the server\<close>

definition WebServer_init :: "boost_lib \<Rightarrow> int \<Rightarrow> 'x manager \<Rightarrow> 'x web_server" where
  "WebServer_init lib now m =
     \<lparr>wb_http = HTTPServer_init lib, wb_world = \<lparr>g_auth = None, g_user = None, g_now = now, g_rest = m\<rparr>, wb_listening = False\<rparr>"

definition set_resource :: "'x service_ops \<Rightarrow> nat \<Rightarrow> string \<Rightarrow> ('x web_server, unit) run_state" where
  "set_resource ops x str = liftM (call_object (\<lambda>y. (Inr (), so_setResource ops str y)) x)"

definition addService :: "'x service_ops \<Rightarrow> string \<Rightarrow> nat \<Rightarrow> ('x web_server, unit) run_state" where
  "addService ops resource x =
     (let clean_resource = stripTrailingSlash resource
      in bindS (set_resource ops x clean_resource) (\<lambda>_.
           catchS
             (bindS (liftM (manager_add clean_resource x)) (\<lambda>_. on_http (addResource clean_resource (service_handler ops x))))
             (\<lambda>what. throwS (WebServiceException resource what))))"

definition loadService :: "'x web_env \<Rightarrow> string \<Rightarrow> string \<Rightarrow> ('x web_server, unit) run_state" where
  "loadService env resource service_name =
     (let clean_resource = stripTrailingSlash resource
      in catchS
           (bindS (liftM (manager_load (we_os env) (we_make env) clean_resource service_name)) (\<lambda>x.
              bindS (on_http (addResource clean_resource (service_handler (we_ops env) x))) (\<lambda>_.
                set_resource (we_ops env) x clean_resource)))
           (\<lambda>what. throwS (WebServiceException resource what)))"

definition setServiceOption :: "'x service_ops \<Rightarrow> string \<Rightarrow> string \<Rightarrow> string \<Rightarrow> ('x web_server, unit) run_state" where
  "setServiceOption ops resource name val s =
     (let clean_resource = stripTrailingSlash resource
      in if manager_get clean_resource (services s) = None then throwS (ServiceNotFoundException resource) s
         else catchS (liftM (manager_run clean_resource (so_setOption ops name val)))
                (\<lambda>what. throwS (WebServiceException resource what)) s)"

definition beforeStarting :: "'x service_ops \<Rightarrow> ('x web_server, unit) run_state" where
  "beforeStarting ops =
     catchS (liftM (manager_run_all (so_start ops))) (\<lambda>what. throwS (WebServiceException ''[Startup]'' what))"

definition afterStopping :: "'x service_ops \<Rightarrow> ('x web_server, unit) run_state" where
  "afterStopping ops =
     catchS (liftM (manager_run_all (so_stop ops))) (\<lambda>what. throwS (WebServiceException ''[Shutdown]'' what))"

text \<open>Starting and stopping the server around these; the acceptor may fail.\<close>

definition web_start :: "'x service_ops \<Rightarrow> string option \<Rightarrow> ('x web_server, unit) run_state" where
  "web_start ops acceptor_error s =
     (if wb_listening s then returnS () s
      else bindS (beforeStarting ops) (\<lambda>_.
             case acceptor_error of
               Some what \<Rightarrow> throwS what
             | None \<Rightarrow> modifyS (\<lambda>s. s\<lparr>wb_listening := True\<rparr>)) s)"

definition web_stop :: "'x service_ops \<Rightarrow> ('x web_server, unit) run_state" where
  "web_stop ops s =
     (if wb_listening s then bindS (modifyS (\<lambda>s. s\<lparr>wb_listening := False\<rparr>)) (\<lambda>_. afterStopping ops) s else returnS () s)"

definition web_clear :: "'x service_ops \<Rightarrow> ('x web_server, unit) run_state" where
  "web_clear ops =
     bindS (web_stop ops) (\<lambda>_. bindS (liftM manager_clear) (\<lambda>_. on_http server_clear))"

section \<open>The configuration file\<close>

datatype ParseState = PARSE_NEWLINE | PARSE_COMMAND | PARSE_RESOURCE | PARSE_VALUE | PARSE_COMMENT | PARSE_USERNAME

record config_parser =
  cp_state :: ParseState
  cp_command :: string
  cp_resource :: string
  cp_username :: string
  cp_value :: string
  cp_auth :: "server_auth option"

definition config_init :: config_parser where
  "config_init = \<lparr>cp_state = PARSE_NEWLINE, cp_command = [], cp_resource = [], cp_username = [], cp_value = [], cp_auth = None\<rparr>"

definition isalpha :: "char \<Rightarrow> bool" where
  "isalpha c \<longleftrightarrow> 65 \<le> code c \<and> code c \<le> 90 \<or> 97 \<le> code c \<and> code c \<le> 122"

definition is_blank :: "char \<Rightarrow> bool" where "is_blank c \<longleftrightarrow> c = CHR '' '' \<or> c = CHR 0x09"
definition is_eol :: "char \<Rightarrow> bool" where "is_eol c \<longleftrightarrow> c = CHR 0x0D \<or> c = CHR 0x0A"

definition new_auth :: "(int \<Rightarrow> nat \<Rightarrow> nat) \<Rightarrow> string \<Rightarrow> int \<Rightarrow> server_auth option" where
  "new_auth random val now =
     (if val = ''basic'' then Some (Basic (HTTPBasicAuth_init [] ''PION:NET'' now))
      else if val = ''cookie'' then Some (Cookie (HTTPCookieAuth_init [] ''/login'' ''/logout'' [] (random now) now))
      else None)"

fun restrict_auth :: "string \<Rightarrow> server_auth \<Rightarrow> server_auth" where
  "restrict_auth resource (Basic a) = Basic (addRestrict resource a)"
| "restrict_auth resource (Cookie a) = Cookie (addRestrict resource a)"

fun add_auth_user :: "string \<Rightarrow> string \<Rightarrow> server_auth \<Rightarrow> server_auth" where
  "add_auth_user username password (Basic a) = Basic (a\<lparr>a_users := snd (addUser username password (a_users a))\<rparr>)"
| "add_auth_user username password (Cookie a) = Cookie (a\<lparr>a_users := snd (addUser username password (a_users a))\<rparr>)"

text \<open>A command that is complete; the authentication after it.\<close>

definition run_command :: "'x web_env \<Rightarrow> string \<Rightarrow> config_parser \<Rightarrow> ('x web_server, server_auth option) run_state" where
  "run_command env config_name p s =
     (let val = cp_value p; command = cp_command p; keep = (\<lambda>_. returnS (cp_auth p))
      in if val = [] then throwS (ConfigParsingException config_name) s
         else if command = ''path'' then
           bindS (catchS (liftM (liftP (addPluginDirectory (we_os env) val))) (\<lambda>_. returnS ())) keep s
         else if command = ''auth'' then
           (case new_auth (we_random env) val (g_now (wb_world s)) of
              None \<Rightarrow> throwS (AuthConfigException ''Only basic and cookie authentications are supported'') s
            | Some a \<Rightarrow> returnS (Some a) s)
         else if command = ''restrict'' then
           (case cp_auth p of
              None \<Rightarrow> throwS (AuthConfigException ''Authentication type must be defined before restrict'') s
            | Some a \<Rightarrow> returnS (Some (restrict_auth val a)) s)
         else if command = ''user'' then
           (case cp_auth p of
              None \<Rightarrow> throwS (AuthConfigException ''Authentication type must be defined before users'') s
            | Some a \<Rightarrow> returnS (Some (add_auth_user (cp_username p) val a)) s)
         else if command = ''service'' then bindS (loadService env (cp_resource p) val) keep s
         else if command = ''option'' then
           (let name = takeWhile (\<lambda>c. c \<noteq> CHR ''='') val
            in if name = val then throwS (ConfigParsingException config_name) s
               else bindS (setServiceOption (we_ops env) (cp_resource p) name (drop (Suc (length name)) val)) keep s)
         else keep () s)"

definition start_value :: "string \<Rightarrow> config_parser \<Rightarrow> config_parser option" where
  "start_value command p =
     (if command = ''path'' \<or> command = ''auth'' \<or> command = ''restrict'' then Some (p\<lparr>cp_value := [], cp_state := PARSE_VALUE\<rparr>)
      else if command = ''service'' \<or> command = ''option'' then Some (p\<lparr>cp_resource := [], cp_state := PARSE_RESOURCE\<rparr>)
      else if command = ''user'' then Some (p\<lparr>cp_username := [], cp_state := PARSE_USERNAME\<rparr>)
      else None)"

definition config_char :: "'x web_env \<Rightarrow> string \<Rightarrow> char \<Rightarrow> config_parser \<Rightarrow> ('x web_server, config_parser) run_state" where
  "config_char env config_name c p =
     (let parse_error = throwS (ConfigParsingException config_name)
      in case cp_state p of
           PARSE_NEWLINE \<Rightarrow>
             (if c = CHR ''#'' then returnS (p\<lparr>cp_state := PARSE_COMMENT\<rparr>)
              else if isalpha c then returnS (p\<lparr>cp_state := PARSE_COMMAND, cp_command := cp_command p @ [tolower c]\<rparr>)
              else if \<not> is_eol c then parse_error else returnS p)
         | PARSE_COMMAND \<Rightarrow>
             (if is_blank c then (case start_value (cp_command p) p of None \<Rightarrow> parse_error | Some p' \<Rightarrow> returnS p')
              else if \<not> isalpha c then parse_error
              else returnS (p\<lparr>cp_command := cp_command p @ [tolower c]\<rparr>))
         | PARSE_RESOURCE \<Rightarrow>
             (if is_blank c then
                returnS (if cp_resource p \<noteq> [] then p\<lparr>cp_value := [], cp_state := PARSE_VALUE\<rparr> else p)
              else if is_eol c then parse_error
              else returnS (p\<lparr>cp_resource := cp_resource p @ [c]\<rparr>))
         | PARSE_USERNAME \<Rightarrow>
             (if is_blank c then
                returnS (if cp_username p \<noteq> [] then p\<lparr>cp_value := [], cp_state := PARSE_VALUE\<rparr> else p)
              else if is_eol c then throwS (AuthConfigException ''No username defined for user parameter'')
              else returnS (p\<lparr>cp_username := cp_username p @ [c]\<rparr>))
         | PARSE_VALUE \<Rightarrow>
             (if is_eol c then
                bindS (run_command env config_name p) (\<lambda>auth.
                  returnS (p\<lparr>cp_auth := auth, cp_command := [], cp_state := PARSE_NEWLINE\<rparr>))
              else if is_blank c then returnS (if cp_value p \<noteq> [] then p\<lparr>cp_value := cp_value p @ [c]\<rparr> else p)
              else returnS (p\<lparr>cp_value := cp_value p @ [c]\<rparr>))
         | PARSE_COMMENT \<Rightarrow> returnS (if is_eol c then p\<lparr>cp_state := PARSE_NEWLINE\<rparr> else p))"

fun config_chars :: "'x web_env \<Rightarrow> string \<Rightarrow> string \<Rightarrow> config_parser \<Rightarrow> ('x web_server, config_parser) run_state" where
  "config_chars env config_name [] p = returnS p"
| "config_chars env config_name (c # cs) p = bindS (config_char env config_name c p) (config_chars env config_name cs)"

definition loadServiceConfig :: "'x web_env \<Rightarrow> string \<Rightarrow> ('x web_server, unit) run_state" where
  "loadServiceConfig env config_name s =
     (case findConfigFile (we_os env) config_name (pm_plugins (services s)) of
        None \<Rightarrow> throwS (ConfigNotFoundException config_name) s
      | Some config_file \<Rightarrow>
          (case we_config env config_file of
             None \<Rightarrow> throwS (ConfigParsingException config_name) s
           | Some config_text \<Rightarrow>
               bindS (config_chars env config_name config_text config_init)
                 (\<lambda>p. setAuthentication (we_lib env) (cp_auth p)) s))"

end
