(* ===== verification/Web_Server_Safety.thy ===== *)
theory Web_Server_Safety
  imports Web_Server
begin

text \<open>
  What a web server keeps while services are added and loaded, options are set, configuration files are read,
  requests are handled and the server starts, stops and is cleared: every resource is bound to a service that
  is alive.
\<close>

section \<open>Objects stay alive\<close>

definition objects_stay :: "('o manager, 'a) run_state \<Rightarrow> bool" where
  "objects_stay m \<longleftrightarrow> (\<forall>s r s'. m s = (r, s') \<longrightarrow> (\<forall>x. pm_objects s x \<noteq> None \<longrightarrow> pm_objects s' x \<noteq> None))"

lemma objects_stayI: "(\<And>s r s' x. m s = (r, s') \<Longrightarrow> pm_objects s x \<noteq> None \<Longrightarrow> pm_objects s' x \<noteq> None) \<Longrightarrow> objects_stay m"
  unfolding objects_stay_def by blast

lemma objects_stayD: "objects_stay m \<Longrightarrow> m s = (r, s') \<Longrightarrow> pm_objects s x \<noteq> None \<Longrightarrow> pm_objects s' x \<noteq> None"
  unfolding objects_stay_def by blast

lemma stay_bind:
  assumes "objects_stay m" "\<And>a. objects_stay (f a)"
  shows "objects_stay (bindS m f)"
proof (rule objects_stayI)
  fix s r s' x assume run: "bindS m f s = (r, s')" and x: "pm_objects s x \<noteq> None"
  obtain r1 s1 where m: "m s = (r1, s1)" by fastforce
  have x1: "pm_objects s1 x \<noteq> None" by (rule objects_stayD [OF assms(1) m x])
  show "pm_objects s' x \<noteq> None"
  proof (cases r1)
    case (Inl e)
    with run m x1 show ?thesis by simp
  next
    case (Inr a)
    with run m have "f a s1 = (r, s')" by simp
    from objects_stayD [OF assms(2) this x1] show ?thesis .
  qed
qed

lemma stay_finally:
  assumes "objects_stay m" "objects_stay d"
  shows "objects_stay (finallyS m d)"
proof (rule objects_stayI)
  fix s r s' x assume run: "finallyS m d s = (r, s')" and x: "pm_objects s x \<noteq> None"
  obtain r1 s1 where m: "m s = (r1, s1)" by fastforce
  obtain r2 s2 where d: "d s1 = (r2, s2)" by fastforce
  have "pm_objects s2 x \<noteq> None" by (rule objects_stayD [OF assms(2) d objects_stayD [OF assms(1) m x]])
  with run m d show "pm_objects s' x \<noteq> None" by (cases r2) (auto simp: finallyS_def)
qed

lemma stay_liftP: "objects_stay (liftP m)"
  by (rule objects_stayI) (auto simp: liftP_def split: prod.splits)

lemma stay_simple: "objects_stay (returnS a)" "objects_stay (throwS msg)" "objects_stay (faultS e)" "objects_stay (new_object y)"
  "objects_stay (manager_insert k x i)" "objects_stay (call_object f x)"
  by (auto intro!: objects_stayI simp: returnS_def throwS_def faultS_def new_object_def manager_insert_def liftP_def call_object_def
      split: prod.splits if_splits option.splits sum.splits)

lemma stay_at: "(\<And>s. \<exists>m'. m s = m' s \<and> objects_stay m') \<Longrightarrow> objects_stay m"
  by (rule objects_stayI) (metis objects_stayD)

lemma stay_new_ptr: "objects_stay new_ptr" "objects_stay (copy_ptr i)"
  by (auto intro!: objects_stayI simp: new_ptr_def copy_ptr_def bindS_def liftP_def returnS_def split: prod.splits sum.splits)

lemma stay_add: "objects_stay (manager_add k x)"
  unfolding manager_add_def by (intro stay_bind stay_new_ptr stay_simple)

lemma stay_load: "objects_stay (manager_load os mk k plugin_type)"
proof -
  have op: "objects_stay (open_plugin os i plugin_type)" for i
    by (rule objects_stayI) (auto simp: open_plugin_def liftP_def split: prod.splits option.splits)
  have "objects_stay (bindS new_ptr (\<lambda>i. finallyS (bindS (open_plugin os i plugin_type) (\<lambda>_. bindS (ptr_create mk i) (\<lambda>x.
      bindS (copy_ptr i) (\<lambda>j. bindS (manager_insert k x j) (\<lambda>_. returnS x))))) (liftP (plugin_destruct i))))"
    unfolding ptr_create_def by (intro stay_bind stay_finally op stay_liftP stay_simple stay_new_ptr)
  with stay_simple(2) show ?thesis by (intro stay_at) (auto simp: manager_load_def)
qed

lemma stay_call_objects: "objects_stay (call_objects f xs)"
  by (induction xs) (auto intro: stay_simple stay_bind)

lemma stay_run_all: "objects_stay (manager_run_all f)"
  using stay_call_objects by (intro stay_at) (auto simp: manager_run_all_def)

lemma stay_run: "objects_stay (manager_run k f)"
proof (rule objects_stayI)
  fix s r s' y assume run: "manager_run k f s = (r, s')" and y: "pm_objects s y \<noteq> None"
  show "pm_objects s' y \<noteq> None"
  proof (cases "manager_get k s")
    case (Some x)
    with run have "call_object f x s = (r, s')" by (simp add: manager_run_def)
    from objects_stayD [OF stay_simple(6) this y] show ?thesis .
  qed (use run y in \<open>simp add: manager_run_def throwS_def\<close>)
qed

section \<open>The invariant\<close>

definition bound_alive :: "'x service_ops \<Rightarrow> 'x manager \<Rightarrow> 'x web_world handler \<Rightarrow> bool" where
  "bound_alive ops m h \<longleftrightarrow> (\<exists>x. h = service_handler ops x \<and> pm_objects m x \<noteq> None)"

definition web_ok :: "'x web_env \<Rightarrow> 'x web_server \<Rightarrow> bool" where
  "web_ok env s \<longleftrightarrow> manager_ok (services s) \<and> ordered (s_resources (wb_http s)) \<and>
     (\<forall>e\<in>set (s_resources (wb_http s)). bound_alive (we_ops env) (services s) (snd e)) \<and>
     s_bad_request_handler (wb_http s) = handleBadRequest (we_lib env) \<and>
     s_not_found_handler (wb_http s) = handleNotFoundRequest (we_lib env) \<and>
     s_server_error_handler (wb_http s) = handleServerError (we_lib env) \<and>
     (s_auth (wb_http s) = None \<or> s_auth (wb_http s) = Some (auth_action (we_lib env)))"

lemma services_simps [simp]:
  "services (s\<lparr>wb_world := (wb_world s)\<lparr>g_rest := m\<rparr>\<rparr>) = m" "services (s\<lparr>wb_http := h\<rparr>) = services s"
  "services (s\<lparr>wb_listening := b\<rparr>) = services s"
  by (simp_all add: services_def)

lemma bound_alive_stay: "(\<And>x. pm_objects m x \<noteq> None \<Longrightarrow> pm_objects m' x \<noteq> None) \<Longrightarrow> bound_alive ops m h \<Longrightarrow> bound_alive ops m' h"
  unfolding bound_alive_def by blast

lemma web_ok_manager:
  assumes "web_ok env s" "manager_ok m" "\<And>x. pm_objects (services s) x \<noteq> None \<Longrightarrow> pm_objects m x \<noteq> None"
  shows "web_ok env (s\<lparr>wb_world := (wb_world s)\<lparr>g_rest := m\<rparr>\<rparr>)"
  using assms(1,2) bound_alive_stay [OF assms(3)] by (auto simp: web_ok_def)

text \<open>Computations that keep the invariant and do not fault.\<close>

abbreviation keeps_web :: "'x web_env \<Rightarrow> ('x web_server, 'a) run_state \<Rightarrow> bool" where
  "keeps_web env m \<equiv> triple (web_ok env) m (\<lambda>_. web_ok env) (web_ok env)"

text \<open>What the server relies on when it calls an operation of the plug-in manager: it does not fault, keeps the invariant
  of the manager and destroys no object.\<close>

locale manager_operation =
  fixes m :: "('x manager, 'a) run_state"
  assumes sound: "triple manager_ok m (\<lambda>_. manager_ok) manager_ok"
    and stays: "objects_stay m"
begin

lemma keeps: "keeps_web env (liftM m)"
proof (rule tripleI)
  fix s r s' assume ok: "web_ok env s" and run: "liftM m s = (r, s')"
  obtain r1 p where m: "m (services s) = (r1, p)" by fastforce
  then have s': "r = r1" "s' = s\<lparr>wb_world := (wb_world s)\<lparr>g_rest := p\<rparr>\<rparr>" using run by (simp_all add: liftM_def)
  have okm: "manager_ok (services s)" using ok by (simp add: web_ok_def)
  have okp: "(\<exists>e. r1 = Inl e \<and> (\<forall>f. e \<noteq> Abort f)) \<or> (\<exists>a. r1 = Inr a)" "manager_ok p"
    using tripleD [OF sound okm m] by auto
  have "web_ok env s'" unfolding s'(2) by (rule web_ok_manager [OF ok okp(2) objects_stayD [OF stays m]])
  with okp(1) s'(1) show "(\<exists>e. r = Inl e \<and> (\<forall>f. e \<noteq> Abort f) \<and> web_ok env s') \<or> (\<exists>a. r = Inr a \<and> web_ok env s')" by blast
qed

end

lemma triple_directory: "triple manager_ok (liftP (addPluginDirectory os dir)) (\<lambda>_. manager_ok) manager_ok"
  by (rule tripleI) (auto simp: liftP_def addPluginDirectory_def Let_def throwS_def modifyS_def other_fields_ok split: if_splits)

lemma triple_new_object: "triple manager_ok (new_object y) (\<lambda>_. manager_ok) manager_ok"
  by (rule tripleI) (use object_fresh [of _ y] in \<open>auto simp: new_object_def\<close>)

interpretation loading: manager_operation "manager_load os mk k plugin_type"
  by (unfold_locales, rule triple_weaken [OF triple_load]) (auto intro: stay_load)

interpretation run_all: manager_operation "manager_run_all f"
  by unfold_locales (rule triple_run_all stay_run_all)+

interpretation run_one: manager_operation "manager_run k f"
  by unfold_locales (rule triple_run stay_run)+

interpretation directories: manager_operation "liftP (addPluginDirectory os dir)"
  by unfold_locales (rule triple_directory stay_liftP)+

interpretation creation: manager_operation "new_object y"
  by unfold_locales (rule triple_new_object stay_simple)+

lemma triple_catch:
  assumes "triple P m Q E" "\<And>msg. triple E (h msg) Q E'" "\<And>s. E s \<Longrightarrow> E' s"
  shows "triple P (catchS m h) Q E'"
proof (rule tripleI)
  fix s r s' assume p: "P s" and run: "catchS m h s = (r, s')"
  obtain r1 s1 where m: "m s = (r1, s1)" by fastforce
  from tripleD [OF assms(1) p m] show "(\<exists>e. r = Inl e \<and> (\<forall>f. e \<noteq> Abort f) \<and> E' s') \<or> (\<exists>a. r = Inr a \<and> Q a s')"
  proof
    assume "\<exists>e. r1 = Inl e \<and> (\<forall>f. e \<noteq> Abort f) \<and> E s1"
    then obtain e where e: "r1 = Inl e" "\<forall>f. e \<noteq> Abort f" "E s1" by blast
    show ?thesis
    proof (cases e)
      case (Std_exception msg)
      with run m e have "h msg s1 = (r, s')" by (simp add: catchS_def)
      from tripleD [OF assms(2) e(3) this] show ?thesis .
    qed (use run m e assms(3) in \<open>auto simp: catchS_def\<close>)
  qed (use run m in \<open>auto simp: catchS_def\<close>)
qed

lemma triple_throw: "(\<And>s. P s \<Longrightarrow> E s) \<Longrightarrow> triple P (throwS msg) Q E"
  by (auto simp: triple_def throwS_def)

lemma keeps_throw: "keeps_web env (throwS msg)" by (rule triple_throw)
lemma keeps_return: "keeps_web env (returnS a)" by (rule triple_return)

lemma keeps_bind: "keeps_web env m \<Longrightarrow> (\<And>a. keeps_web env (f a)) \<Longrightarrow> keeps_web env (bindS m f)"
  by (rule triple_bind)

lemma keeps_catch: "keeps_web env m \<Longrightarrow> (\<And>msg. keeps_web env (h msg)) \<Longrightarrow> keeps_web env (catchS m h)"
  by (rule triple_catch) blast+

lemma keeps_at: "(\<And>s. \<exists>m'. m s = m' s \<and> keeps_web env m') \<Longrightarrow> keeps_web env m"
  unfolding triple_def by metis

section \<open>The operations of the server\<close>

text \<open>An object that is alive, in the state of the server.\<close>

definition alive :: "nat \<Rightarrow> 'x web_server \<Rightarrow> bool" where
  "alive x s \<longleftrightarrow> pm_objects (services s) x \<noteq> None"

lemma keeps_set_resource:
  "triple (\<lambda>s. web_ok env s \<and> alive x s) (set_resource ops x str) (\<lambda>_ s. web_ok env s \<and> alive x s) (web_ok env)"
proof (rule tripleI)
  fix s r s' assume pre: "web_ok env s \<and> alive x s" and run: "set_resource ops x str s = (r, s')"
  then obtain y where y: "pm_objects (services s) x = Some y" by (auto simp: alive_def)
  define m where "m = (services s)\<lparr>pm_objects := (pm_objects (services s))(x \<mapsto> so_setResource ops str y)\<rparr>"
  have s': "r = Inr ()" "s' = s\<lparr>wb_world := (wb_world s)\<lparr>g_rest := m\<rparr>\<rparr>"
    using run y by (auto simp: set_resource_def liftM_def call_object_def m_def)
  have "manager_ok m" unfolding m_def by (rule manager_ok_object) (use pre y in \<open>simp_all add: web_ok_def\<close>)
  then have "web_ok env s'" unfolding s'(2) by (intro web_ok_manager) (use pre in \<open>simp_all add: m_def\<close>)
  then show "(\<exists>e. r = Inl e \<and> (\<forall>f. e \<noteq> Abort f) \<and> web_ok env s') \<or> (\<exists>a. r = Inr a \<and> web_ok env s' \<and> alive x s')"
    using s' by (simp add: alive_def m_def)
qed

lemma keeps_addResource:
  "triple (\<lambda>s. web_ok env s \<and> alive x s) (on_http (addResource k (service_handler (we_ops env) x))) (\<lambda>_ s. web_ok env s \<and> alive x s) (web_ok env)"
proof (rule triple_weaken)
  show "triple (\<lambda>s. web_ok env s \<and> alive x s) (on_http (addResource k (service_handler (we_ops env) x))) (\<lambda>_ s. web_ok env s \<and> alive x s) (\<lambda>_. False)"
    unfolding on_http_def
  proof (rule triple_modify)
    fix s :: "'a web_server" assume pre: "web_ok env s \<and> alive x s"
    define h where "h = service_handler (we_ops env) x"
    have "bound_alive (we_ops env) (services s) h" using pre by (auto simp: bound_alive_def alive_def h_def)
    then have "\<forall>e\<in>set (map_insert (stripTrailingSlash k) h (s_resources (wb_http s))). bound_alive (we_ops env) (services s) (snd e)"
      using set_map_insert [of "stripTrailingSlash k" h "s_resources (wb_http s)"] pre by (auto simp: web_ok_def)
    with pre show "web_ok env (s\<lparr>wb_http := addResource k (service_handler (we_ops env) x) (wb_http s)\<rparr>) \<and>
        alive x (s\<lparr>wb_http := addResource k (service_handler (we_ops env) x) (wb_http s)\<rparr>)"
      unfolding h_def [symmetric] by (simp add: web_ok_def addResource_def alive_def ordered_map_insert)
  qed
qed auto

lemma keeps_removeResource: "keeps_web env (on_http (removeResource k))"
  unfolding on_http_def
proof (rule triple_modify)
  fix s :: "'a web_server" assume pre: "web_ok env s"
  then have "ordered (s_resources (wb_http s))" by (simp add: web_ok_def)
  from set_map_erase [OF this] ordered_map_erase [OF this] pre show "web_ok env (s\<lparr>wb_http := removeResource k (wb_http s)\<rparr>)"
    by (simp add: web_ok_def removeResource_def)
qed

text \<open>Loading delivers an object that is alive.\<close>

lemma triple_load_alive:
  "triple (web_ok env) (liftM (manager_load os mk k plugin_type)) (\<lambda>x s. web_ok env s \<and> alive x s) (web_ok env)"
proof (rule tripleI)
  fix s r s' assume ok: "web_ok env s" and run: "liftM (manager_load os mk k plugin_type) s = (r, s')"
  obtain r1 m where m: "manager_load os mk k plugin_type (services s) = (r1, m)" by fastforce
  then have r: "r = r1" "services s' = m" using run by (auto simp: liftM_def)
  have "manager_ok (services s)" using ok by (simp add: web_ok_def)
  note load = tripleD [OF triple_load this m]
  have keep: "keeps_web env (liftM (manager_load os mk k plugin_type))"
    by (rule loading.keeps)
  have alive: "alive x s'" if "r = Inr x" for x
  proof -
    have "manager_ok m" "\<exists>j. map_find k (pm_map m) = Some (x, j)" using load that r(1) by auto
    then obtain j where "(k, x, j) \<in> set (pm_map m)" using map_find_set [OF manager_okD(3)] by blast
    from manager_okD(7) [OF \<open>manager_ok m\<close> this] show ?thesis by (simp add: alive_def r(2))
  qed
  from tripleD [OF keep ok run] alive
  show "(\<exists>e. r = Inl e \<and> (\<forall>f. e \<noteq> Abort f) \<and> web_ok env s') \<or> (\<exists>x. r = Inr x \<and> web_ok env s' \<and> alive x s')" by blast
qed

lemma keeps_loadService: "keeps_web env (loadService env resource service_name)"
  unfolding loadService_def Let_def
proof (rule keeps_catch)
  show "keeps_web env (bindS (liftM (manager_load (we_os env) (we_make env) (stripTrailingSlash resource) service_name)) (\<lambda>x.
      bindS (on_http (addResource (stripTrailingSlash resource) (service_handler (we_ops env) x)))
        (\<lambda>_. set_resource (we_ops env) x (stripTrailingSlash resource))))"
    by (rule triple_bind [OF triple_load_alive], rule triple_bind [OF keeps_addResource], rule triple_weaken [OF keeps_set_resource]) auto
qed (rule keeps_throw)

lemma triple_add_alive:
  "triple (\<lambda>s. web_ok env s \<and> alive x s \<and> own_object x (services s)) (liftM (manager_add k x)) (\<lambda>_ s. web_ok env s \<and> alive x s) (web_ok env)"
proof (rule tripleI)
  fix s r s' assume pre: "web_ok env s \<and> alive x s \<and> own_object x (services s)" and run: "liftM (manager_add k x) s = (r, s')"
  obtain r1 m where m: "manager_add k x (services s) = (r1, m)" by fastforce
  then have r: "r = r1" "s' = s\<lparr>wb_world := (wb_world s)\<lparr>g_rest := m\<rparr>\<rparr>" using run by (simp_all add: liftM_def)
  have "manager_ok (services s) \<and> own_object x (services s)" using pre by (simp add: web_ok_def)
  note add = tripleD [OF triple_add this m]
  then have "manager_ok m" by blast
  then have "web_ok env s'" unfolding r(2) by (intro web_ok_manager objects_stayD [OF stay_add m]) (use pre in blast)+
  moreover have "alive x s'" using objects_stayD [OF stay_add m] pre by (simp add: alive_def r(2))
  ultimately show "(\<exists>e. r = Inl e \<and> (\<forall>f. e \<noteq> Abort f) \<and> web_ok env s') \<or> (\<exists>a. r = Inr a \<and> web_ok env s' \<and> alive x s')"
    using add r(1) by blast
qed

lemma set_resource_own:
  "set_resource ops x str s = (r, s') \<Longrightarrow> own_object x (services s) \<Longrightarrow> own_object x (services s')"
  by (auto simp: set_resource_def liftM_def call_object_def own_object_def faultS_def split: option.splits)

lemma keeps_addService:
  "triple (\<lambda>s. web_ok env s \<and> own_object x (services s)) (addService (we_ops env) resource x) (\<lambda>_. web_ok env) (web_ok env)"
  unfolding addService_def Let_def
proof (rule triple_bind)
  show "triple (\<lambda>s. web_ok env s \<and> own_object x (services s)) (set_resource (we_ops env) x (stripTrailingSlash resource))
      (\<lambda>_ s. web_ok env s \<and> alive x s \<and> own_object x (services s)) (web_ok env)"
  proof (rule tripleI)
    fix s r s' assume pre: "web_ok env s \<and> own_object x (services s)" and run: "set_resource (we_ops env) x (stripTrailingSlash resource) s = (r, s')"
    then have "web_ok env s \<and> alive x s" by (simp add: alive_def own_object_def)
    from tripleD [OF keeps_set_resource this run] set_resource_own [OF run] pre
    show "(\<exists>e. r = Inl e \<and> (\<forall>f. e \<noteq> Abort f) \<and> web_ok env s') \<or>
        (\<exists>a. r = Inr a \<and> web_ok env s' \<and> alive x s' \<and> own_object x (services s'))" by blast
  qed
  show "triple (\<lambda>s. web_ok env s \<and> alive x s \<and> own_object x (services s))
      (catchS (bindS (liftM (manager_add (stripTrailingSlash resource) x))
          (\<lambda>_. on_http (addResource (stripTrailingSlash resource) (service_handler (we_ops env) x))))
        (\<lambda>what. throwS (WebServiceException resource what))) (\<lambda>_. web_ok env) (web_ok env)" for u :: unit
  proof (rule triple_catch)
    show "triple (\<lambda>s. web_ok env s \<and> alive x s \<and> own_object x (services s)) (bindS (liftM (manager_add (stripTrailingSlash resource) x))
        (\<lambda>_. on_http (addResource (stripTrailingSlash resource) (service_handler (we_ops env) x)))) (\<lambda>_. web_ok env) (web_ok env)"
      by (rule triple_bind [OF triple_add_alive], rule triple_weaken [OF keeps_addResource]) auto
  qed (rule keeps_throw, assumption)
qed

lemma keeps_run_all: "keeps_web env (liftM (manager_run_all f))"
  by (rule run_all.keeps)

lemma keeps_setServiceOption: "keeps_web env (setServiceOption ops resource name val)"
proof (rule keeps_at)
  fix s :: "'a web_server"
  have "keeps_web env (catchS (liftM (manager_run (stripTrailingSlash resource) (so_setOption ops name val)))
      (\<lambda>what. throwS (WebServiceException resource what)))"
    by (intro keeps_catch keeps_throw run_one.keeps)
  then show "\<exists>m'. setServiceOption ops resource name val s = m' s \<and> keeps_web env m'"
    using keeps_throw by (auto simp: setServiceOption_def Let_def)
qed

lemma keeps_beforeStarting: "keeps_web env (beforeStarting ops)" "keeps_web env (afterStopping ops)"
  unfolding beforeStarting_def afterStopping_def by (intro keeps_catch keeps_throw keeps_run_all)+

lemma keeps_listening: "keeps_web env (modifyS (\<lambda>s. s\<lparr>wb_listening := b\<rparr>))"
  by (rule triple_modify) (simp add: web_ok_def)

lemma keeps_if: "keeps_web env m1 \<Longrightarrow> keeps_web env m2 \<Longrightarrow> keeps_web env (\<lambda>s. if C s then m1 s else m2 s)"
  unfolding triple_def by metis

lemma keeps_start: "keeps_web env (web_start ops acceptor_error)"
  unfolding web_start_def [abs_def]
  by (intro keeps_if keeps_bind keeps_beforeStarting keeps_return) (simp add: keeps_throw keeps_listening split: option.splits)

lemma keeps_stop: "keeps_web env (web_stop ops)"
  unfolding web_stop_def [abs_def] by (intro keeps_if keeps_bind keeps_beforeStarting keeps_return keeps_listening)

text \<open>Clearing destroys the services and then forgets the resources.\<close>

lemma clear_all:
  assumes "web_ok env s"
  shows "\<exists>s'. bindS (liftM manager_clear) (\<lambda>_. on_http server_clear) s = (Inr (), s') \<and> web_ok env s' \<and>
     s_resources (wb_http s') = [] \<and> pm_map (services s') = [] \<and>
     (\<forall>x. pm_objects (services s') x = (if x \<in> entry_object ` set (pm_map (services s)) then None else pm_objects (services s) x))"
proof -
  have "manager_ok (services s)" using assms by (simp add: web_ok_def)
  from manager_clear_eq [OF this] obtain m where m: "manager_clear (services s) = (Inr (), m)" "manager_ok m" "pm_map m = []"
    "pm_objects m = (\<lambda>x. if x \<in> entry_object ` set (pm_map (services s)) then None else pm_objects (services s) x)" by blast
  define s' where "s' = s\<lparr>wb_world := (wb_world s)\<lparr>g_rest := m\<rparr>, wb_http := server_clear (wb_http s)\<rparr>"
  have "bindS (liftM manager_clear) (\<lambda>_. on_http server_clear) s = (Inr (), s')"
    using m(1) by (simp add: bindS_def liftM_def on_http_def modifyS_def s'_def)
  moreover have srv: "services s' = m" by (simp add: s'_def services_def)
  moreover have "web_ok env s'" using assms m(2) unfolding web_ok_def srv by (simp add: s'_def server_clear_def)
  ultimately show ?thesis using m(3,4) by (simp add: s'_def server_clear_def)
qed

lemma keeps_clear: "keeps_web env (web_clear ops)"
  unfolding web_clear_def
proof (rule keeps_bind [OF keeps_stop], rule tripleI)
  fix u :: unit and s r s' assume "web_ok env s" "bindS (liftM manager_clear) (\<lambda>_. on_http server_clear) s = (r, s')"
  with clear_all [of env s] show "(\<exists>e. r = Inl e \<and> (\<forall>f. e \<noteq> Abort f) \<and> web_ok env s') \<or> (\<exists>a. r = Inr a \<and> web_ok env s')" by auto
qed

section \<open>Configuration files\<close>

lemma keeps_case:
  "keeps_web env m1 \<Longrightarrow> (\<And>a. keeps_web env (m2 a)) \<Longrightarrow> keeps_web env (\<lambda>s. case C s of None \<Rightarrow> m1 s | Some a \<Rightarrow> m2 a s)"
  by (rule keeps_at) (auto split: option.splits)

lemma keeps_directory: "keeps_web env (catchS (liftM (liftP (addPluginDirectory os dir))) (\<lambda>_. returnS ()))"
  by (intro keeps_catch keeps_return directories.keeps)

lemmas keeps_rules = keeps_if keeps_case keeps_bind keeps_throw keeps_return keeps_directory keeps_loadService keeps_setServiceOption

lemma keeps_run_command: "keeps_web env (run_command env config_name p)"
  unfolding run_command_def [abs_def] Let_def by (intro keeps_rules)

lemma keeps_branch: "keeps_web env m1 \<Longrightarrow> keeps_web env m2 \<Longrightarrow> keeps_web env (if b then m1 else m2)"
  by simp

lemma keeps_option: "keeps_web env m1 \<Longrightarrow> (\<And>a. keeps_web env (m2 a)) \<Longrightarrow> keeps_web env (case b of None \<Rightarrow> m1 | Some a \<Rightarrow> m2 a)"
  by (cases b) simp_all

lemma keeps_config_char: "keeps_web env (config_char env config_name c p)"
  unfolding config_char_def Let_def
  by (cases "cp_state p"; simp only: ParseState.case)
    (rule keeps_branch keeps_option keeps_bind keeps_throw keeps_return keeps_run_command)+

lemma keeps_config_chars: "keeps_web env (config_chars env config_name cs p)"
  by (induction cs arbitrary: p) (auto intro: keeps_return keeps_bind keeps_config_char)

lemma keeps_setAuthentication: "keeps_web env (setAuthentication (we_lib env) auth)"
  unfolding setAuthentication_def
  by (rule triple_modify) (auto simp: web_ok_def services_def split: option.splits)

lemma keeps_loadServiceConfig: "keeps_web env (loadServiceConfig env config_name)"
  unfolding loadServiceConfig_def [abs_def]
  by (intro keeps_rules keeps_config_chars keeps_setAuthentication)

section \<open>Requests\<close>

text \<open>A handler that keeps a property of the state behind it.\<close>

definition keeps_world :: "('w \<Rightarrow> bool) \<Rightarrow> ('w, 'a) action \<Rightarrow> bool" where
  "keeps_world I m \<longleftrightarrow> (\<forall>c r c'. I (x_world c) \<longrightarrow> m c = (r, c') \<longrightarrow> I (x_world c'))"

lemma keeps_worldI: "(\<And>c r c'. I (x_world c) \<Longrightarrow> m c = (r, c') \<Longrightarrow> I (x_world c')) \<Longrightarrow> keeps_world I m"
  unfolding keeps_world_def by blast

lemma keeps_worldD: "keeps_world I m \<Longrightarrow> I (x_world c) \<Longrightarrow> m c = (r, c') \<Longrightarrow> I (x_world c')"
  unfolding keeps_world_def by blast

lemma world_bind: "keeps_world I m \<Longrightarrow> (\<And>a. keeps_world I (f a)) \<Longrightarrow> keeps_world I (bindA m f)"
  by (rule keeps_worldI) (auto simp: bindA_def dest: keeps_worldD split: prod.splits sum.splits)

lemma world_result:
  "I (x_world c) \<Longrightarrow> keeps_world I m \<Longrightarrow> (\<And>a. keeps_world I (f a)) \<Longrightarrow> I (x_world (snd (bindA m f c)))"
  using keeps_worldD [OF world_bind [of I m f]] by (metis prod.collapse)

lemma keeps_worldI2: "(\<And>c. I (x_world c) \<Longrightarrow> I (x_world (snd (m c)))) \<Longrightarrow> keeps_world I m"
  by (rule keeps_worldI) (metis snd_conv)

lemma world_same:
  "keeps_world I (returnA a)" "keeps_world I (lift_fault q)" "keeps_world I (modify_conn g)" "keeps_world I (send_writer lib w)"
  by (auto intro!: keeps_worldI simp: returnA_def lift_fault_def modify_conn_def send_writer_def
      split: sum.splits writer_error.splits prod.splits)

lemma world_respond: "keeps_world I (respond lib n text fill)"
  by (rule keeps_worldI2, unfold respond_def) (rule world_result, assumption, (rule world_same)+)

lemma world_pages:
  "keeps_world I (handleBadRequest lib)" "keeps_world I (handleNotFoundRequest lib)" "keeps_world I (handleServerError lib msg)"
proof -
  show "keeps_world I (handleNotFoundRequest lib)"
    by (rule keeps_worldI2, unfold handleNotFoundRequest_def) (rule world_result, assumption, rule world_same, rule world_respond)
qed (simp_all add: handleBadRequest_def handleServerError_def world_respond)

lemma world_if: "keeps_world I m1 \<Longrightarrow> keeps_world I m2 \<Longrightarrow> keeps_world I (if b then m1 else m2)"
  by simp

lemma world_option: "keeps_world I m1 \<Longrightarrow> (\<And>a. keeps_world I (m2 a)) \<Longrightarrow> keeps_world I (case b of None \<Rightarrow> m1 | Some a \<Rightarrow> m2 a)"
  by (cases b) simp_all

lemma world_prod: "(\<And>a d. keeps_world I (m a d)) \<Longrightarrow> keeps_world I (case b of (a, d) \<Rightarrow> m a d)"
  by (cases b) simp_all

text \<open>Authentication changes only its own part.\<close>

lemma world_auth:
  "keeps_world (\<lambda>w. P (g_rest w)) (modify_auth f)" "keeps_world (\<lambda>w. P (g_rest w)) (setUser u)"
  by (auto intro!: keeps_worldI simp: modify_auth_def setUser_def)

lemmas world_rules = world_if world_option world_prod world_bind world_same world_respond world_auth

lemma world_basic: "keeps_world (\<lambda>w. P (g_rest w)) (basic_handleRequest lib)"
  by (rule keeps_worldI2, unfold basic_handleRequest_def Let_def basic_handleUnauthorized_def)
    (rule world_result [where I = "\<lambda>w. P (g_rest w)"], assumption, (rule world_rules)+)

lemma world_cookie_pages:
  "keeps_world (\<lambda>w. P (g_rest w)) (handleRedirection lib url new_cookie delete_cookie)"
  "keeps_world (\<lambda>w. P (g_rest w)) (handleOk lib new_cookie delete_cookie)"
  "keeps_world (\<lambda>w. P (g_rest w)) (cookie_handleUnauthorized lib a)"
  unfolding handleRedirection_def handleOk_def cookie_handleUnauthorized_def by (rule world_rules)+

lemma world_login: "keeps_world (\<lambda>w. P (g_rest w)) (processLogin lib)"
  by (rule keeps_worldI2, unfold processLogin_def Let_def)
    (rule world_result [where I = "\<lambda>w. P (g_rest w)"], assumption, (rule world_rules world_cookie_pages)+)

lemma world_cookie: "keeps_world (\<lambda>w. P (g_rest w)) (cookie_handleRequest lib)"
proof (rule keeps_worldI2, unfold cookie_handleRequest_def, rule world_result [where I = "\<lambda>w. P (g_rest w)"], assumption, rule world_login,
    rule world_if, rule world_same, rule keeps_worldI2, rule world_result [where I = "\<lambda>w. P (g_rest w)"])
qed (assumption | rule world_rules world_cookie_pages)+

lemma world_with_auth:
  assumes "keeps_world (\<lambda>w. P (g_rest w)) m" "P (g_rest (x_world c))"
  shows "P (g_rest (x_world (snd (with_auth con a m c))))"
proof -
  define c0 where "c0 = \<lparr>x_request = x_request c, x_conn = x_conn c,
    x_world = \<lparr>g_auth = a, g_user = g_user (x_world c), g_now = g_now (x_world c), g_rest = g_rest (x_world c)\<rparr>\<rparr>"
  obtain r c' where m: "m c0 = (r, c')" by fastforce
  have "P (g_rest (x_world c'))" by (rule keeps_worldD [OF assms(1) _ m]) (simp add: c0_def assms(2))
  with m show ?thesis unfolding c0_def by (simp add: with_auth_def Let_def)
qed

lemma world_auth_action: "keeps_world (\<lambda>w. P (g_rest w)) (auth_action lib)"
  by (rule keeps_worldI2) (simp add: auth_action_def world_with_auth world_basic world_cookie split: option.splits server_auth.splits)

text \<open>The services that are alive stay alive.\<close>

definition keeps_objects :: "nat set \<Rightarrow> 'x manager \<Rightarrow> bool" where
  "keeps_objects A m \<longleftrightarrow> manager_ok m \<and> (\<forall>x\<in>A. pm_objects m x \<noteq> None)"

lemma world_service: "keeps_world (\<lambda>w. keeps_objects A (g_rest w)) (service_handler ops x)"
proof (rule keeps_worldI)
  fix c r c' assume ok: "keeps_objects A (g_rest (x_world c))" and run: "service_handler ops x c = (r, c')"
  show "keeps_objects A (g_rest (x_world c'))"
  proof (cases "pm_objects (g_rest (x_world c)) x")
    case None
    with run ok show ?thesis by (simp add: service_handler_def Let_def)
  next
    case (Some y)
    then have "manager_ok ((g_rest (x_world c))\<lparr>pm_objects := (pm_objects (g_rest (x_world c)))(x \<mapsto> z)\<rparr>)" for z
      using ok manager_ok_object [of "g_rest (x_world c)" x z] by (simp add: keeps_objects_def)
    with run ok Some show ?thesis by (auto simp: service_handler_def Let_def keeps_objects_def split: prod.splits)
  qed
qed

lemma world_call_handler:
  assumes "keeps_world I h" "\<And>msg. keeps_world I (s_server_error_handler s msg)"
  shows "keeps_world I (call_handler s h)"
proof (rule keeps_worldI)
  fix c r c' assume i: "I (x_world c)" and run: "call_handler s h c = (r, c')"
  obtain r1 c1 where h: "h c = (r1, c1)" by fastforce
  have i1: "I (x_world c1)" by (rule keeps_worldD [OF assms(1) i h])
  show "I (x_world c')"
  proof (cases r1)
    case (Inl e)
    show ?thesis
    proof (cases e)
      case (Std_exception msg)
      with run h Inl have "s_server_error_handler s msg c1 = (r, c')" by (simp add: call_handler_def)
      from keeps_worldD [OF assms(2) i1 this] show ?thesis .
    qed (use run h Inl i1 in \<open>auto simp: call_handler_def modify_conn_def\<close>)
  qed (use run h i1 in \<open>auto simp: call_handler_def\<close>)
qed

lemma world_dispatch:
  assumes "\<And>e. e \<in> set (s_resources s) \<Longrightarrow> keeps_world I (snd e)" "ordered (s_resources s)"
    and "keeps_world I (s_not_found_handler s)" "\<And>msg. keeps_world I (s_server_error_handler s msg)" "keeps_world I (authorized s)"
  shows "keeps_world I (dispatch s resource)"
proof -
  have "keeps_world I (call_handler s h)" if "findRequestHandler resource (s_resources s) = Some h" for h
    using findRequestHandler_Some [OF assms(2) that] assms(1,4) by (intro world_call_handler) auto
  then have "keeps_world I (case findRequestHandler resource (s_resources s) of Some h \<Rightarrow> call_handler s h | None \<Rightarrow> s_not_found_handler s)"
    using assms(3) by (simp split: option.split)
  then show ?thesis unfolding dispatch_def by (intro world_bind assms(5) world_if world_same)
qed

lemma world_handleRequest:
  assumes "\<And>e. e \<in> set (s_resources s) \<Longrightarrow> keeps_world I (snd e)" "ordered (s_resources s)"
    and "keeps_world I (s_not_found_handler s)" "\<And>msg. keeps_world I (s_server_error_handler s msg)" "keeps_world I (authorized s)"
    and "keeps_world I (s_bad_request_handler s)"
  shows "keeps_world I (handleRequest s)"
proof (rule keeps_worldI2)
  fix c :: "'a ctx" assume i: "I (x_world c)"
  have d: "keeps_world I (\<lambda>c'. if ok then dispatch s resource (c'\<lparr>x_request := req\<rparr>) else s_server_error_handler s TOO_MANY_REDIRECTS (c'\<lparr>x_request := req\<rparr>))"
    for ok resource req
    using keeps_worldD [OF world_dispatch [OF assms(1-5)]] keeps_worldD [OF assms(4)]
    by (intro keeps_worldI) (metis ctx.select_convs(3) ctx.surjective ctx.update_convs(1))
  show "I (x_world (snd (handleRequest s c)))"
  proof (cases "m_is_valid (x_request c)")
    case False
    with keeps_worldD [OF assms(6) i] show ?thesis by (metis handleRequest_def prod.collapse)
  next
    case True
    have "I (x_world (snd (bindA (lift_fault (as_request (x_request c)))
        (\<lambda>r. bindA (lift_fault (follow_redirects (s_redirects s) 0 (stripTrailingSlash (m_resource r)) (x_request c)))
          (\<lambda>(ok, resource, req) c'. if ok then dispatch s resource (c'\<lparr>x_request := req\<rparr>)
             else s_server_error_handler s TOO_MANY_REDIRECTS (c'\<lparr>x_request := req\<rparr>))) c)))"
      by (rule world_result [where I = I], rule i) (auto intro!: world_bind world_same d split: prod.split)
    with True show ?thesis by (simp add: handleRequest_def Let_def)
  qed
qed

end
