(* ===== verification/Web_Config.thy ===== *)
theory Web_Config
  imports Web_Server
begin

text \<open>
  The configuration file of a web server as a list of lines: reading a file runs the commands of its lines in
  order, and a last line without its end is dropped.
\<close>

section \<open>Lines\<close>

datatype config_line = Blank | Comment string | Directive string "string option" string

fun render :: "config_line \<Rightarrow> string" where
  "render Blank = []"
| "render (Comment s) = ''#'' @ s"
| "render (Directive command None val) = command @ '' '' @ val"
| "render (Directive command (Some arg) val) = command @ '' '' @ arg @ '' '' @ val"

definition render_all :: "config_line list \<Rightarrow> string" where
  "render_all ls = concat (map (\<lambda>l. render l @ [LF]) ls)"

definition is_value :: "string \<Rightarrow> bool" where
  "is_value v \<longleftrightarrow> v \<noteq> [] \<and> (\<forall>c\<in>set v. \<not> is_eol c) \<and> \<not> is_blank (hd v)"

definition is_word :: "string \<Rightarrow> bool" where
  "is_word a \<longleftrightarrow> a \<noteq> [] \<and> (\<forall>c\<in>set a. \<not> is_eol c \<and> \<not> is_blank c)"

text \<open>Commands are written with letters of either case; which ones take a resource or a user name first.\<close>

fun line_ok :: "config_line \<Rightarrow> bool" where
  "line_ok Blank \<longleftrightarrow> True"
| "line_ok (Comment s) \<longleftrightarrow> (\<forall>c\<in>set s. \<not> is_eol c)"
| "line_ok (Directive command arg val) \<longleftrightarrow>
     list_all isalpha command \<and> is_value val \<and>
     (case arg of
        None \<Rightarrow> map tolower command \<in> {''path'', ''auth'', ''restrict''}
      | Some a \<Rightarrow> map tolower command \<in> {''service'', ''option'', ''user''} \<and> is_word a)"

text \<open>The command of a line, on the authentication so far.\<close>

fun exec_line :: "'x web_env \<Rightarrow> string \<Rightarrow> config_line \<Rightarrow> server_auth option \<Rightarrow> ('x web_server, server_auth option) run_state" where
  "exec_line env config_name Blank auth = returnS auth"
| "exec_line env config_name (Comment s) auth = returnS auth"
| "exec_line env config_name (Directive command arg val) auth =
     (let a = (case arg of None \<Rightarrow> [] | Some a \<Rightarrow> a)
      in run_command env config_name \<lparr>cp_state = PARSE_VALUE, cp_command = map tolower command, cp_resource = a, cp_username = a,
           cp_value = val, cp_auth = auth\<rparr>)"

fun exec_lines :: "'x web_env \<Rightarrow> string \<Rightarrow> config_line list \<Rightarrow> server_auth option \<Rightarrow> ('x web_server, server_auth option) run_state" where
  "exec_lines env config_name [] auth = returnS auth"
| "exec_lines env config_name (l # ls) auth = bindS (exec_line env config_name l auth) (exec_lines env config_name ls)"

section \<open>Reading a line\<close>

lemma config_chars_append:
  "config_chars env n (xs @ ys) p = bindS (config_chars env n xs p) (config_chars env n ys)"
  by (induction xs arbitrary: p) (auto simp: bindS_def returnS_def fun_eq_iff split: prod.splits sum.splits)

lemma bind_return [simp]: "bindS (returnS a) f = f a"
  by (simp add: bindS_def returnS_def fun_eq_iff)

lemma eol_facts [simp]: "is_eol LF" "\<not> is_blank LF" "\<not> isalpha LF" "LF \<noteq> CHR ''#''" "is_blank (CHR '' '')" "\<not> is_eol (CHR '' '')"
  "\<not> isalpha (CHR '' '')"
  by (simp_all add: is_eol_def is_blank_def isalpha_def)

lemma alpha_facts: "isalpha c \<Longrightarrow> c \<noteq> CHR ''#'' \<and> \<not> is_eol c \<and> \<not> is_blank c"
  by (auto simp: isalpha_def is_eol_def is_blank_def)

lemma read_command:
  "list_all isalpha cs \<Longrightarrow> cp_state p = PARSE_COMMAND \<Longrightarrow>
     config_chars env n cs p = returnS (p\<lparr>cp_command := cp_command p @ map tolower cs\<rparr>)"
  by (induction cs arbitrary: p) (auto simp: config_char_def alpha_facts)

lemma read_value:
  "\<forall>c\<in>set cs. \<not> is_eol c \<Longrightarrow> cp_state p = PARSE_VALUE \<Longrightarrow> cp_value p \<noteq> [] \<Longrightarrow>
     config_chars env n cs p = returnS (p\<lparr>cp_value := cp_value p @ cs\<rparr>)"
  by (induction cs arbitrary: p) (auto simp: config_char_def)

lemma read_whole_value:
  assumes "is_value v" "cp_state p = PARSE_VALUE" "cp_value p = []"
  shows "config_chars env n v p = returnS (p\<lparr>cp_value := v\<rparr>)"
proof (cases v)
  case (Cons c cs)
  with assms have "\<not> is_eol c" "\<not> is_blank c" "\<forall>c\<in>set cs. \<not> is_eol c" by (auto simp: is_value_def)
  with Cons assms show ?thesis by (simp add: config_char_def read_value)
qed (use assms in \<open>simp add: is_value_def\<close>)

lemma read_resource:
  "\<forall>c\<in>set cs. \<not> is_eol c \<and> \<not> is_blank c \<Longrightarrow> cp_state p = PARSE_RESOURCE \<Longrightarrow>
     config_chars env n cs p = returnS (p\<lparr>cp_resource := cp_resource p @ cs\<rparr>)"
  by (induction cs arbitrary: p) (auto simp: config_char_def)

lemma read_username:
  "\<forall>c\<in>set cs. \<not> is_eol c \<and> \<not> is_blank c \<Longrightarrow> cp_state p = PARSE_USERNAME \<Longrightarrow>
     config_chars env n cs p = returnS (p\<lparr>cp_username := cp_username p @ cs\<rparr>)"
  by (induction cs arbitrary: p) (auto simp: config_char_def)

lemma read_comment:
  "\<forall>c\<in>set cs. \<not> is_eol c \<Longrightarrow> cp_state p = PARSE_COMMENT \<Longrightarrow> config_chars env n cs p = returnS p"
  by (induction cs arbitrary: p) (auto simp: config_char_def)

text \<open>Between lines.\<close>

definition at_line :: "server_auth option \<Rightarrow> config_parser \<Rightarrow> bool" where
  "at_line auth p \<longleftrightarrow> cp_state p = PARSE_NEWLINE \<and> cp_command p = [] \<and> cp_auth p = auth"

lemma read_keyword:
  assumes "list_all isalpha command" "command \<noteq> []" "at_line auth p" "start_value (map tolower command) (p\<lparr>cp_state := PARSE_COMMAND, cp_command := map tolower command\<rparr>) = Some p'"
  shows "config_chars env n (command @ '' '') p = returnS p'"
proof (cases command)
  case (Cons c cs)
  have p: "cp_state p = PARSE_NEWLINE" "cp_command p = []" using assms(3) by (simp_all add: at_line_def)
  have c: "isalpha c" "list_all isalpha cs" using assms(1) Cons by simp_all
  have "config_char env n c p = returnS (p\<lparr>cp_state := PARSE_COMMAND, cp_command := [tolower c]\<rparr>)"
    using p c(1) alpha_facts [OF c(1)] by (simp add: config_char_def)
  then have "config_chars env n command p = returnS (p\<lparr>cp_state := PARSE_COMMAND, cp_command := map tolower command\<rparr>)"
    using Cons read_command [OF c(2), of "p\<lparr>cp_state := PARSE_COMMAND, cp_command := [tolower c]\<rparr>"] by simp
  with assms(4) show ?thesis by (simp add: config_chars_append config_char_def)
qed (use assms in simp)

text \<open>A line up to its end, and the command it runs then.\<close>

definition value_read :: "server_auth option \<Rightarrow> string \<Rightarrow> string option \<Rightarrow> string \<Rightarrow> config_parser \<Rightarrow> bool" where
  "value_read auth command arg val p \<longleftrightarrow> cp_state p = PARSE_VALUE \<and> cp_command p = map tolower command \<and> cp_value p = val \<and> cp_auth p = auth \<and>
     (\<forall>a. arg = Some a \<longrightarrow> (if map tolower command = ''user'' then cp_username p = a else cp_resource p = a))"

lemma read_directive:
  assumes "line_ok (Directive command arg val)" "at_line auth p"
  shows "\<exists>p'. config_chars env n (render (Directive command arg val)) p = returnS p' \<and> value_read auth command arg val p'"
proof -
  have alpha: "list_all isalpha command" and val: "is_value val" using assms(1) by simp_all
  have ne: "command \<noteq> []" using assms(1) by (auto split: option.splits)
  define p0 where "p0 = p\<lparr>cp_state := PARSE_COMMAND, cp_command := map tolower command\<rparr>"
  have auth: "cp_auth p = auth" using assms(2) by (simp add: at_line_def)
  show ?thesis
  proof (cases arg)
    case None
    define p1 where "p1 = p0\<lparr>cp_value := [], cp_state := PARSE_VALUE\<rparr>"
    have "start_value (map tolower command) p0 = Some p1" using assms(1) None by (auto simp: start_value_def p1_def)
    from read_keyword [OF alpha ne assms(2) this [unfolded p0_def]] have "config_chars env n (command @ '' '') p = returnS p1" .
    moreover have "config_chars env n val p1 = returnS (p1\<lparr>cp_value := val\<rparr>)" by (rule read_whole_value [OF val]) (simp_all add: p1_def)
    ultimately have "config_chars env n ((command @ '' '') @ val) p = returnS (p1\<lparr>cp_value := val\<rparr>)" by (simp only: config_chars_append bind_return)
    then show ?thesis using None auth by (intro exI [of _ "p1\<lparr>cp_value := val\<rparr>"]) (simp add: value_read_def p1_def p0_def)
  next
    case (Some a)
    then have a: "a \<noteq> []" "\<forall>c\<in>set a. \<not> is_eol c \<and> \<not> is_blank c" using assms(1) by (auto simp: is_word_def)
    show ?thesis
    proof (cases "map tolower command = ''user''")
      case True
      define p1 where "p1 = p0\<lparr>cp_username := [], cp_state := PARSE_USERNAME\<rparr>"
      define p2 where "p2 = p1\<lparr>cp_username := a\<rparr>\<lparr>cp_value := [], cp_state := PARSE_VALUE\<rparr>"
      have "start_value (map tolower command) p0 = Some p1" using True by (simp add: start_value_def p1_def)
      from read_keyword [OF alpha ne assms(2) this [unfolded p0_def]] have "config_chars env n (command @ '' '') p = returnS p1" .
      moreover have "config_chars env n (a @ '' '') p1 = returnS p2"
        using read_username [OF a(2), of p1 env n] a(1) by (simp add: config_chars_append p1_def p2_def config_char_def)
      moreover have "config_chars env n val p2 = returnS (p2\<lparr>cp_value := val\<rparr>)" by (rule read_whole_value [OF val]) (simp_all add: p2_def)
      ultimately have "config_chars env n ((command @ '' '') @ (a @ '' '') @ val) p = returnS (p2\<lparr>cp_value := val\<rparr>)"
        by (simp only: config_chars_append bind_return)
      then show ?thesis using Some True auth
        by (intro exI [of _ "p2\<lparr>cp_value := val\<rparr>"]) (simp add: value_read_def p2_def p1_def p0_def)
    next
      case False
      define p1 where "p1 = p0\<lparr>cp_resource := [], cp_state := PARSE_RESOURCE\<rparr>"
      define p2 where "p2 = p1\<lparr>cp_resource := a\<rparr>\<lparr>cp_value := [], cp_state := PARSE_VALUE\<rparr>"
      have "start_value (map tolower command) p0 = Some p1" using False Some assms(1) by (auto simp: start_value_def p1_def)
      from read_keyword [OF alpha ne assms(2) this [unfolded p0_def]] have "config_chars env n (command @ '' '') p = returnS p1" .
      moreover have "config_chars env n (a @ '' '') p1 = returnS p2"
        using read_resource [OF a(2), of p1 env n] a(1) by (simp add: config_chars_append p1_def p2_def config_char_def)
      moreover have "config_chars env n val p2 = returnS (p2\<lparr>cp_value := val\<rparr>)" by (rule read_whole_value [OF val]) (simp_all add: p2_def)
      ultimately have "config_chars env n ((command @ '' '') @ (a @ '' '') @ val) p = returnS (p2\<lparr>cp_value := val\<rparr>)"
        by (simp only: config_chars_append bind_return)
      then show ?thesis using Some False auth
        by (intro exI [of _ "p2\<lparr>cp_value := val\<rparr>"]) (simp add: value_read_def p2_def p1_def p0_def)
    qed
  qed
qed

section \<open>Running a line\<close>

text \<open>A command depends on its own parts only.\<close>

lemma run_command_parts:
  assumes "cp_command p = cp_command q" "cp_value p = cp_value q" "cp_auth p = cp_auth q"
    and "cp_command p = ''user'' \<Longrightarrow> cp_username p = cp_username q"
    and "cp_command p = ''service'' \<or> cp_command p = ''option'' \<Longrightarrow> cp_resource p = cp_resource q"
  shows "run_command env n p = run_command env n q"
  by (intro ext) (simp add: run_command_def Let_def assms cong: if_cong option.case_cong)

lemma directive_command:
  assumes "line_ok (Directive command arg val)" "value_read auth command arg val p"
  shows "run_command env n p = exec_line env n (Directive command arg val) auth"
  unfolding exec_line.simps Let_def
  by (rule run_command_parts) (use assms in \<open>auto simp: value_read_def split: option.splits\<close>)

lemma bind_assoc: "bindS (bindS m f) g = bindS m (\<lambda>a. bindS (f a) g)"
  by (auto simp: bindS_def fun_eq_iff split: prod.splits sum.splits)

text \<open>After the end of the line the parser is between lines again, with the authentication the command leaves.\<close>

lemma read_line:
  assumes "line_ok l" "at_line auth p"
  shows "\<exists>p'. (\<forall>a. at_line a (p' a)) \<and> config_chars env n (render l @ [LF]) p = bindS (exec_line env n l auth) (\<lambda>a. returnS (p' a))"
proof (cases l)
  case Blank
  with assms(2) show ?thesis
    by (intro exI [of _ "\<lambda>a. p\<lparr>cp_auth := a\<rparr>"]) (auto simp: at_line_def config_char_def)
next
  case (Comment s)
  have "config_chars env n s (p\<lparr>cp_state := PARSE_COMMENT\<rparr>) = returnS (p\<lparr>cp_state := PARSE_COMMENT\<rparr>)"
    by (rule read_comment) (use assms(1) Comment in simp_all)
  with assms(2) Comment show ?thesis
    by (intro exI [of _ "\<lambda>a. p\<lparr>cp_state := PARSE_NEWLINE, cp_auth := a\<rparr>"]) (auto simp: at_line_def config_char_def config_chars_append)
next
  case (Directive command arg val)
  from read_directive [OF assms(1) [unfolded Directive] assms(2), of env n] obtain q where
    q: "config_chars env n (render l) p = returnS q" "value_read auth command arg val q" unfolding Directive by blast
  have "cp_state q = PARSE_VALUE" using q(2) by (simp add: value_read_def)
  then have "config_chars env n [LF] q = bindS (run_command env n q) (\<lambda>a. returnS (q\<lparr>cp_auth := a, cp_command := [], cp_state := PARSE_NEWLINE\<rparr>))"
    by (simp add: config_char_def bind_assoc)
  with q directive_command [OF assms(1) [unfolded Directive] q(2), of env n] Directive show ?thesis
    by (intro exI [of _ "\<lambda>a. q\<lparr>cp_auth := a, cp_command := [], cp_state := PARSE_NEWLINE\<rparr>"])
      (simp add: config_chars_append at_line_def)
qed

text \<open>What follows the lines may depend on the authentication only.\<close>

lemma read_lines:
  assumes "\<And>a p q. at_line a p \<Longrightarrow> at_line a q \<Longrightarrow> K p = K q"
  shows "list_all line_ok ls \<Longrightarrow> at_line auth p \<Longrightarrow>
     bindS (config_chars env n (render_all ls) p) K = bindS (exec_lines env n ls auth) (\<lambda>a. K (config_init\<lparr>cp_auth := a\<rparr>))"
proof (induction ls arbitrary: p auth)
  case Nil
  have "at_line auth (config_init\<lparr>cp_auth := auth\<rparr>)" by (simp add: at_line_def config_init_def)
  from assms [OF Nil(2) this] show ?case by (simp add: render_all_def)
next
  case (Cons l ls)
  from Cons.prems have "line_ok l" "list_all line_ok ls" by simp_all
  from read_line [OF this(1) Cons.prems(2), of env n] obtain p' where
    p': "\<forall>a. at_line a (p' a)" "config_chars env n (render l @ [LF]) p = bindS (exec_line env n l auth) (\<lambda>a. returnS (p' a))" by blast
  have "render_all (l # ls) = (render l @ [LF]) @ render_all ls" by (simp add: render_all_def)
  then have "bindS (config_chars env n (render_all (l # ls)) p) K =
      bindS (exec_line env n l auth) (\<lambda>a. bindS (config_chars env n (render_all ls) (p' a)) K)"
    by (simp only: config_chars_append [of env n "render l @ [LF]"] p'(2)) (simp only: bind_assoc bind_return)
  also have "\<dots> = bindS (exec_line env n l auth) (\<lambda>a. bindS (exec_lines env n ls a) (\<lambda>a. K (config_init\<lparr>cp_auth := a\<rparr>)))"
    using Cons.IH [OF \<open>list_all line_ok ls\<close> spec [OF p'(1)]] by simp
  finally show ?case by (simp add: bind_assoc)
qed

text \<open>A line without its end leaves the authentication as it is.\<close>

lemma read_unfinished:
  assumes "line_ok l" "at_line auth p"
  shows "\<exists>p'. config_chars env n (render l) p = returnS p' \<and> cp_auth p' = auth"
proof (cases l)
  case (Comment s)
  have "config_chars env n s (p\<lparr>cp_state := PARSE_COMMENT\<rparr>) = returnS (p\<lparr>cp_state := PARSE_COMMENT\<rparr>)"
    by (rule read_comment) (use assms(1) Comment in simp_all)
  with assms(2) Comment show ?thesis by (auto simp: at_line_def config_char_def)
next
  case (Directive command arg val)
  with read_directive [OF assms(1) [unfolded Directive] assms(2), of env n] show ?thesis by (auto simp: value_read_def)
qed (use assms in \<open>auto simp: at_line_def\<close>)

section \<open>Authentication\<close>

definition auth_of :: "'x web_server \<Rightarrow> ('x web_world, bool) action option \<times> server_auth option" where
  "auth_of s = (s_auth (wb_http s), g_auth (wb_world s))"

definition keeps_auth :: "('x web_server, 'a) run_state \<Rightarrow> bool" where
  "keeps_auth m \<longleftrightarrow> (\<forall>s. auth_of (snd (m s)) = auth_of s)"

lemma keeps_authD: "keeps_auth m \<Longrightarrow> auth_of (snd (m s)) = auth_of s"
  unfolding keeps_auth_def by blast

lemma auth_bind:
  assumes "keeps_auth m" "\<And>a. keeps_auth (f a)"
  shows "keeps_auth (bindS m f)"
  unfolding keeps_auth_def
proof
  fix s
  obtain r s1 where m: "m s = (r, s1)" by fastforce
  with keeps_authD [OF assms(1), of s] keeps_authD [OF assms(2), of _ s1]
  show "auth_of (snd (bindS m f s)) = auth_of s" by (cases r) simp_all
qed

lemma auth_catch:
  assumes "keeps_auth m" "\<And>msg. keeps_auth (h msg)"
  shows "keeps_auth (catchS m h)"
  unfolding keeps_auth_def
proof
  fix s
  obtain r s1 where m: "m s = (r, s1)" by fastforce
  with keeps_authD [OF assms(1), of s] keeps_authD [OF assms(2), of _ s1]
  show "auth_of (snd (catchS m h s)) = auth_of s" by (simp add: catchS_def split: sum.split exn.split)
qed

lemma auth_simple: "keeps_auth (returnS a)" "keeps_auth (throwS msg)" "keeps_auth (liftM m)" "keeps_auth (on_http (addResource k h))"
  by (simp_all add: keeps_auth_def returnS_def throwS_def liftM_def on_http_def modifyS_def auth_of_def addResource_def split: prod.splits)

lemma auth_if: "keeps_auth m1 \<Longrightarrow> keeps_auth m2 \<Longrightarrow> keeps_auth (\<lambda>s. if C s then m1 s else m2 s)"
  "keeps_auth m1 \<Longrightarrow> (\<And>a. keeps_auth (m3 a)) \<Longrightarrow> keeps_auth (\<lambda>s. case D s of None \<Rightarrow> m1 s | Some a \<Rightarrow> m3 a s)"
  by (simp_all add: keeps_auth_def split: option.splits)

lemma auth_branch: "keeps_auth m1 \<Longrightarrow> keeps_auth m2 \<Longrightarrow> keeps_auth (if b then m1 else m2)"
  "keeps_auth m1 \<Longrightarrow> (\<And>a. keeps_auth (m3 a)) \<Longrightarrow> keeps_auth (case d of None \<Rightarrow> m1 | Some a \<Rightarrow> m3 a)"
  by (simp_all split: option.splits)

lemma auth_services: "keeps_auth (loadService env k v)" "keeps_auth (setServiceOption ops k name v)"
  unfolding loadService_def setServiceOption_def [abs_def] set_resource_def Let_def
  by (intro auth_catch auth_bind auth_simple auth_if(1))+

lemma auth_run_command: "keeps_auth (run_command env n p)"
  unfolding run_command_def [abs_def] Let_def by (intro auth_if auth_bind auth_catch auth_simple auth_services)

lemma auth_config_char: "keeps_auth (config_char env n c p)"
  unfolding config_char_def Let_def
  by (cases "cp_state p"; simp only: ParseState.case) (rule auth_branch auth_bind auth_simple auth_run_command)+

lemma auth_config_chars: "keeps_auth (config_chars env n cs p)"
  by (induction cs arbitrary: p) (auto intro: auth_simple auth_bind auth_config_char)

section \<open>Properties\<close>

text \<open>C29: Loading a configuration file whose lines are well formed runs the commands of its lines in order, each on the
  authentication the ones before it built, and then gives the server the authentication they end with; comments
  and blank lines do nothing. Whatever the last line says, it does nothing when the file ends before the end of
  that line.\<close>

theorem config_runs_lines:
  assumes "findConfigFile (we_os env) name (pm_plugins (services s)) = Some file"
    and "we_config env file = Some (render_all ls @ render unfinished)"
    and "list_all line_ok ls" "line_ok unfinished"
  shows "loadServiceConfig env name s =
     bindS (exec_lines env name ls None) (setAuthentication (we_lib env)) s"
proof -
  define K where "K = (\<lambda>p. bindS (config_chars env name (render unfinished) p) (\<lambda>p. setAuthentication (we_lib env) (cp_auth p)))"
  have K: "K p = setAuthentication (we_lib env) a" if "at_line a p" for a p
    using read_unfinished [OF assms(4) that, of env name] by (auto simp: K_def)
  have init: "at_line None config_init" by (simp add: at_line_def config_init_def)
  have "loadServiceConfig env name s = bindS (config_chars env name (render_all ls) config_init) K s"
    using assms(1,2) by (simp add: loadServiceConfig_def config_chars_append bind_assoc K_def)
  also have "\<dots> = bindS (exec_lines env name ls None) (\<lambda>a. K (config_init\<lparr>cp_auth := a\<rparr>)) s"
    using read_lines [OF _ assms(3) init, of K] K by auto
  also have "(\<lambda>a. K (config_init\<lparr>cp_auth := a\<rparr>)) = setAuthentication (we_lib env)"
    by (intro ext, subst K) (simp_all add: at_line_def config_init_def)
  finally show ?thesis .
qed

text \<open>A configuration file that fails leaves the authentication of the server as it was; one that is read to the end
  replaces it, so that an empty file, or one without an \<open>auth\<close> command, takes it away.\<close>

theorem config_replaces_authentication:
  "(\<forall>e s'. loadServiceConfig env name s = (Inl e, s') \<longrightarrow>
      s_auth (wb_http s') = s_auth (wb_http s) \<and> g_auth (wb_world s') = g_auth (wb_world s)) \<and>
   (\<forall>s'. loadServiceConfig env name s = (Inr (), s') \<longrightarrow>
      (s_auth (wb_http s') = None \<longleftrightarrow> g_auth (wb_world s') = None)) \<and>
   (\<forall>path. findConfigFile (we_os env) name (pm_plugins (services s)) = Some path \<and> we_config env path = Some [] \<longrightarrow>
      (\<exists>s'. loadServiceConfig env name s = (Inr (), s') \<and> s_auth (wb_http s') = None))"
proof (intro conjI allI impI)
  fix e s' assume run: "loadServiceConfig env name s = (Inl e, s')"
  have "auth_of s' = auth_of s"
  proof (cases "findConfigFile (we_os env) name (pm_plugins (services s))")
    case (Some path)
    show ?thesis
    proof (cases "we_config env path")
      case (Some cs)
      obtain r s1 where chars: "config_chars env name cs config_init s = (r, s1)" by fastforce
      have "auth_of s1 = auth_of s" using auth_config_chars [of env name cs config_init] chars unfolding keeps_auth_def by (metis snd_conv)
      moreover have "s' = s1" using run chars Some \<open>findConfigFile _ _ _ = Some path\<close>
        by (cases r) (auto simp: loadServiceConfig_def setAuthentication_def modifyS_def)
      ultimately show ?thesis by simp
    qed (use run Some in \<open>auto simp: loadServiceConfig_def throwS_def\<close>)
  qed (use run in \<open>auto simp: loadServiceConfig_def throwS_def\<close>)
  then show "s_auth (wb_http s') = s_auth (wb_http s)" "g_auth (wb_world s') = g_auth (wb_world s)" by (simp_all add: auth_of_def)
next
  fix s' assume "loadServiceConfig env name s = (Inr (), s')"
  then obtain p :: config_parser and s1 where "setAuthentication (we_lib env) (cp_auth p) s1 = (Inr (), s')"
    by (auto simp: loadServiceConfig_def throwS_def bindS_def split: option.splits prod.splits sum.splits)
  then show "s_auth (wb_http s') = None \<longleftrightarrow> g_auth (wb_world s') = None" by (auto simp: setAuthentication_def modifyS_def)
next
  fix path assume "findConfigFile (we_os env) name (pm_plugins (services s)) = Some path \<and> we_config env path = Some []"
  then show "\<exists>s'. loadServiceConfig env name s = (Inr (), s') \<and> s_auth (wb_http s') = None"
    by (simp add: loadServiceConfig_def config_init_def setAuthentication_def modifyS_def)
qed

section \<open>Witnesses\<close>

text \<open>A file whose last line has no end: the resource it restricts is open to everybody.\<close>

definition plain_ops :: "nat service_ops" where
  "plain_ops = \<lparr>so_call = (\<lambda>u. hello_service writer_example_lib), so_setOption = default_setOption, so_start = default_start,
     so_stop = default_start, so_setResource = (\<lambda>str x. x)\<rparr>"

definition unfinished_file :: string where
  "unfinished_file = render_all [Comment '' site'', Directive ''auth'' None ''basic'', Directive ''USER'' (Some ''ann'') ''secret'']
     @ render (Directive ''restrict'' None ''/admin'')"

definition config_env :: "nat web_env" where
  "config_env = \<lparr>we_lib = writer_example_lib, we_os = example_os\<lparr>os_is_regular := (\<lambda>p. p = ''site.conf'')\<rparr>, we_make = (\<lambda>f. f),
     we_ops = plain_ops, we_random = (\<lambda>t n. n), we_config = (\<lambda>p. Some unfinished_file)\<rparr>"

lemma lower_letters:
  "tolower (CHR ''a'') = CHR ''a''"
  "tolower (CHR ''u'') = CHR ''u''"
  "tolower (CHR ''t'') = CHR ''t''"
  "tolower (CHR ''h'') = CHR ''h''"
  "tolower (CHR ''r'') = CHR ''r''"
  "tolower (CHR ''e'') = CHR ''e''"
  "tolower (CHR ''s'') = CHR ''s''" "tolower (CHR ''i'') = CHR ''i''" "tolower (CHR ''c'') = CHR ''c''"
  "tolower (CHR ''U'') = CHR ''u''" "tolower (CHR ''S'') = CHR ''s''" "tolower (CHR ''E'') = CHR ''e''" "tolower (CHR ''R'') = CHR ''r''"
  by code_simp+

lemma config_runs_lines_witness:
  "\<exists>s' a. loadServiceConfig config_env ''site.conf'' (WebServer_init writer_example_lib 0 manager_init) = (Inr (), s') \<and>
     g_auth (wb_world s') = Some (Basic a) \<and> a_users a = [(''ann'', ''secret'')] \<and> \<not> needAuthentication a ''/admin''"
proof -
  define s :: "nat web_server" where "s = WebServer_init writer_example_lib 0 manager_init"
  define ls where "ls = [Comment '' site'', Directive ''auth'' None ''basic'', Directive ''USER'' (Some ''ann'') ''secret'']"
  define a where "a = (HTTPBasicAuth_init [] ''PION:NET'' 0)\<lparr>a_users := [(''ann'', ''secret'')]\<rparr>"
  have found: "findConfigFile (we_os config_env) ''site.conf'' (pm_plugins (services s)) = Some ''site.conf''"
    by (simp add: findConfigFile_def findFile_def checkForFile_def config_env_def)
  have "we_config config_env ''site.conf'' = Some (render_all ls @ render (Directive ''restrict'' None ''/admin''))"
    by (simp add: config_env_def unfinished_file_def ls_def)
  moreover have "list_all line_ok ls" "line_ok (Directive ''restrict'' None ''/admin'')"
    by (simp_all add: ls_def is_value_def is_word_def isalpha_def is_eol_def is_blank_def lower_letters)
  ultimately have "loadServiceConfig config_env ''site.conf'' s =
      bindS (exec_lines config_env ''site.conf'' ls None) (setAuthentication (we_lib config_env)) s"
    using config_runs_lines [OF found] by blast
  also have "exec_lines config_env ''site.conf'' ls None s = (Inr (Some (Basic a)), s)"
    by (simp add: ls_def run_command_def Let_def new_auth_def returnS_def config_env_def s_def WebServer_init_def a_def addUser_def map_find_def
        lower_letters HTTPBasicAuth_init_def bindS_def)
  then have "bindS (exec_lines config_env ''site.conf'' ls None) (setAuthentication (we_lib config_env)) s =
      setAuthentication (we_lib config_env) (Some (Basic a)) s" by simp
  finally show ?thesis unfolding s_def [symmetric]
    by (simp add: setAuthentication_def modifyS_def a_def HTTPBasicAuth_init_def needAuthentication_def)
qed

definition example_basic :: HTTPBasicAuth where
  "example_basic = HTTPBasicAuth_init [] ''PION:NET'' 0"

lemma config_replaces_authentication_witness:
  "\<exists>s'. loadServiceConfig (config_env\<lparr>we_config := \<lambda>p. Some []\<rparr>) ''site.conf''
     (snd (setAuthentication writer_example_lib (Some (Basic example_basic)) (WebServer_init writer_example_lib 0 manager_init))) = (Inr (), s') \<and>
     s_auth (wb_http s') = None"
proof -
  have "findConfigFile (we_os (config_env\<lparr>we_config := \<lambda>p. Some []\<rparr>)) ''site.conf'' p = Some ''site.conf''" for p
    by (simp add: findConfigFile_def findFile_def checkForFile_def config_env_def)
  with conjunct2 [OF conjunct2 [OF config_replaces_authentication [where env = "config_env\<lparr>we_config := \<lambda>p. Some []\<rparr>" and name = "''site.conf''"]]]
  show ?thesis by simp
qed

end
