(* ===== verification/Web_Server_Properties.thy ===== *)
theory Web_Server_Properties
  imports Web_Server_Safety Web_Config
begin

text \<open>
  Programs with a web server: which services their requests reach and what clearing leaves.
\<close>

section \<open>Programs\<close>

text \<open>A program makes services and hands them to the server, which then owns them. A request arrives with no user at a
  time the clock shows.\<close>

inductive web_step :: "'x web_env \<Rightarrow> 'x web_server \<Rightarrow> exn option \<Rightarrow> 'x web_server \<Rightarrow> bool" for env where
  create: "liftM (new_object y) s = (r, s') \<Longrightarrow> web_step env s (thrown r) s'"
| add: "own_object x (services s) \<Longrightarrow> addService (we_ops env) resource x s = (r, s') \<Longrightarrow> web_step env s (thrown r) s'"
| load: "loadService env resource service_name s = (r, s') \<Longrightarrow> web_step env s (thrown r) s'"
| option: "setServiceOption (we_ops env) resource name val s = (r, s') \<Longrightarrow> web_step env s (thrown r) s'"
| config: "loadServiceConfig env config_name s = (r, s') \<Longrightarrow> web_step env s (thrown r) s'"
| remove: "on_http (removeResource k) s = (r, s') \<Longrightarrow> web_step env s (thrown r) s'"
| authentication: "setAuthentication (we_lib env) auth s = (r, s') \<Longrightarrow> web_step env s (thrown r) s'"
| start: "web_start (we_ops env) acceptor_error s = (r, s') \<Longrightarrow> web_step env s (thrown r) s'"
| stop: "web_stop (we_ops env) s = (r, s') \<Longrightarrow> web_step env s (thrown r) s'"
| clear: "web_clear (we_ops env) s = (r, s') \<Longrightarrow> web_step env s (thrown r) s'"
| request: "handleRequest (wb_http s) \<lparr>x_request = req, x_conn = conn, x_world = (wb_world s)\<lparr>g_user := None, g_now := now\<rparr>\<rparr> = (r, c) \<Longrightarrow>
     web_step env s (thrown r) (s\<lparr>wb_world := x_world c\<rparr>)"

inductive web_reachable :: "'x web_env \<Rightarrow> 'x web_server \<Rightarrow> bool" for env where
  start: "web_reachable env (WebServer_init (we_lib env) now manager_init)"
| step: "web_reachable env s \<Longrightarrow> web_step env s e s' \<Longrightarrow> web_reachable env s'"

lemma triple_web:
  assumes "triple P m (\<lambda>_. web_ok env) (web_ok env)" "P s" "m s = (r, s')"
  shows "web_ok env s' \<and> (\<forall>f. thrown r \<noteq> Some (Abort f))"
  using tripleD [OF assms] by (auto simp: thrown_def)

lemma request_ok:
  assumes "web_ok env s" "x_world c = (wb_world s)\<lparr>g_user := None, g_now := now\<rparr>" "handleRequest (wb_http s) c = (r, c')"
  shows "web_ok env (s\<lparr>wb_world := x_world c'\<rparr>)"
proof -
  define A where "A = {x. pm_objects (services s) x \<noteq> None}"
  define I where "I = (\<lambda>w :: 'a web_world. keeps_objects A (g_rest w))"
  have ok: "manager_ok (services s)" "ordered (s_resources (wb_http s))"
    "\<forall>e\<in>set (s_resources (wb_http s)). bound_alive (we_ops env) (services s) (snd e)"
    using assms(1) unfolding web_ok_def by blast+
  have "keeps_world I (handleRequest (wb_http s))"
  proof (rule world_handleRequest)
    show "keeps_world I (snd e)" if "e \<in> set (s_resources (wb_http s))" for e
    proof -
      from bspec [OF ok(3) that] obtain x where "snd e = service_handler (we_ops env) x" unfolding bound_alive_def by blast
      then show ?thesis unfolding I_def by (simp add: world_service)
    qed
    show "keeps_world I (authorized (wb_http s))"
      using assms(1) unfolding authorized_def web_ok_def I_def by (auto simp: world_same world_auth_action)
  qed (use assms(1) world_pages in \<open>auto simp: web_ok_def\<close>)
  moreover have "I (x_world c)" using ok(1) by (simp add: I_def keeps_objects_def A_def assms(2) services_def)
  ultimately have "keeps_objects A (g_rest (x_world c'))" using assms(3) unfolding I_def by (rule keeps_worldD)
  then have "manager_ok (g_rest (x_world c'))" "\<And>x. pm_objects (services s) x \<noteq> None \<Longrightarrow> pm_objects (g_rest (x_world c')) x \<noteq> None"
    by (simp_all add: keeps_objects_def A_def)
  note web_ok_manager [OF assms(1) this]
  then show ?thesis by (simp add: web_ok_def services_def)
qed

lemma web_step_ok:
  assumes "web_step env s e s'" "web_ok env s"
  shows "web_ok env s'"
  using assms
proof (induction rule: web_step.induct)
  case (create y s r s')
  with triple_web [OF creation.keeps _ create(1)] show ?case by blast
next
  case (add x s resource r s')
  with triple_web [OF keeps_addService _ add(2)] show ?case by blast
next
  case (load resource service_name s r s')
  with triple_web [OF keeps_loadService _ load(1)] show ?case by blast
next
  case (option resource name val s r s')
  with triple_web [OF keeps_setServiceOption _ option(1)] show ?case by blast
next
  case (config config_name s r s')
  with triple_web [OF keeps_loadServiceConfig _ config(1)] show ?case by blast
next
  case (remove k s r s')
  with triple_web [OF keeps_removeResource _ remove(1)] show ?case by blast
next
  case (authentication auth s r s')
  with triple_web [OF keeps_setAuthentication _ authentication(1)] show ?case by blast
next
  case (start acceptor_error s r s')
  with triple_web [OF keeps_start _ start(1)] show ?case by blast
next
  case (stop s r s')
  with triple_web [OF keeps_stop _ stop(1)] show ?case by blast
next
  case (clear s r s')
  with triple_web [OF keeps_clear _ clear(1)] show ?case by blast
next
  case (request s req conn now r c)
  show ?case by (rule request_ok [OF request(2) _ request(1)]) simp
qed

lemma web_ok_init: "web_ok env (WebServer_init (we_lib env) now manager_init)"
  by (simp add: web_ok_def WebServer_init_def HTTPServer_init_def services_def manager_ok_init)

lemma web_reachable_ok: "web_reachable env s \<Longrightarrow> web_ok env s"
  by (induction rule: web_reachable.induct) (simp_all add: web_ok_init web_step_ok)

lemma call_objects_map: "call_objects f xs m = (r, m') \<Longrightarrow> pm_map m' = pm_map m"
proof (induction xs arbitrary: m)
  case (Cons x xs)
  obtain r1 m1 where one: "call_object f x m = (r1, m1)" by fastforce
  then have "pm_map m1 = pm_map m" by (auto simp: call_object_def faultS_def split: option.splits prod.splits)
  with Cons one show ?case by (cases r1) auto
qed (simp add: returnS_def)

lemma stop_keeps:
  assumes "afterStopping ops s = (r, s')"
  shows "wb_http s' = wb_http s" "wb_listening s' = wb_listening s" "pm_map (services s') = pm_map (services s)"
proof -
  obtain r1 m where m: "manager_run_all (so_stop ops) (services s) = (r1, m)" by fastforce
  then have "s' = s\<lparr>wb_world := (wb_world s)\<lparr>g_rest := m\<rparr>\<rparr>"
    using assms by (auto simp: afterStopping_def catchS_def liftM_def throwS_def split: sum.splits exn.splits)
  with call_objects_map m show "wb_http s' = wb_http s" "wb_listening s' = wb_listening s" "pm_map (services s') = pm_map (services s)"
    by (auto simp: manager_run_all_def)
qed

text \<open>The authentication of the server keeps what the server relies on, and leaves the services alone.\<close>

lemma with_auth_decides:
  assumes "guarding m" "is_request (x_request c)" "tc_open (x_conn c)" "with_auth con a m c = (r, c')"
  shows "decided c r c'"
proof -
  define c0 where "c0 = \<lparr>x_request = x_request c, x_conn = x_conn c,
      x_world = \<lparr>g_auth = a, g_user = g_user (x_world c), g_now = g_now (x_world c), g_rest = g_rest (x_world c)\<rparr>\<rparr>"
  obtain r1 c1 where m: "m c0 = (r1, c1)" by fastforce
  have "is_request (x_request c0)" "tc_open (x_conn c0)" using assms(2,3) by (simp_all add: c0_def)
  from guarding.guards [OF assms(1) this m] assms(4) m show ?thesis
    by (auto simp: with_auth_def Let_def c0_def [symmetric] decided_def one_write_def) (auto simp: c0_def)
qed

lemma auth_action_decides:
  assumes "is_request (x_request c)" "tc_open (x_conn c)" "auth_action lib c = (r, c')"
  shows "decided c r c'"
  using assms with_auth_decides [OF basic_guard.guarding_axioms assms(1,2)] with_auth_decides [OF cookie_guard.guarding_axioms assms(1,2)]
  by (auto simp: auth_action_def decided_def split: option.splits server_auth.splits)

interpretation auth_guard: guarding "auth_action lib :: ((server_auth option, 'r) guarded, bool) action"
  by unfold_locales (use auth_action_decides in \<open>unfold decided_def, blast\<close>)

lemma authorized_services:
  assumes "web_reachable env s" "authorized (wb_http s) c = (r, c1)"
  shows "g_rest (x_world c1) = g_rest (x_world c)"
proof -
  have "s_auth (wb_http s) = None \<or> s_auth (wb_http s) = Some (auth_action (we_lib env))"
    using web_reachable_ok [OF assms(1)] by (simp add: web_ok_def)
  then have "keeps_world (\<lambda>w. g_rest w = g_rest (x_world c)) (authorized (wb_http s))"
    unfolding authorized_def using world_auth_action [of "\<lambda>m. m = g_rest (x_world c)"] world_same(1) by auto
  from keeps_worldD [OF this _ assms(2)] show ?thesis by simp
qed

section \<open>Properties\<close>

text \<open>C11: Whatever a program has done with a web server, its authentication decides every request on an open connection:
  unless it ends in a fault, it refuses the request with one write and no service is touched, or it leaves the
  connection alone and lets the request through. A request that is let through and whose resource is covered reaches the service
  bound to the longest resource that covers it, that service is alive, it is told the user the authentication found, and
  only it changes: when it returns, what it returns is the server's answer; when it throws an exception, the
  server's error page is the answer; when it lost the connection, the connection is closed.\<close>

theorem web_requests_reach_services:
  assumes "web_reachable env s" "findRequestHandler resource (s_resources (wb_http s)) \<noteq> None" "g_rest (x_world c) = services s"
    and "is_request (x_request c)" "tc_open (x_conn c)" "authorized (wb_http s) c = (res, c1)"
  shows "(res = Inr False \<longrightarrow> dispatch (wb_http s) resource c = (Inr (), c1) \<and> one_write c c1 \<and> g_rest (x_world c1) = services s) \<and>
     (\<forall>e. res = Inl e \<longrightarrow> (\<exists>f. e = Abort f)) \<and>
     (\<exists>k x y. map_find k (s_resources (wb_http s)) = Some (service_handler (we_ops env) x) \<and> covers k resource \<and>
        (\<forall>e\<in>set (s_resources (wb_http s)). covers (fst e) resource \<longrightarrow> length (fst e) \<le> length k) \<and>
        pm_objects (services s) x = Some y \<and>
        (res = Inr True \<longrightarrow> x_conn c1 = x_conn c \<and> x_request c1 = x_request c \<and>
           (\<forall>r c2. so_call (we_ops env) (g_user (x_world c1)) \<lparr>x_request = x_request c, x_conn = x_conn c, x_world = y\<rparr> = (r, c2) \<longrightarrow>
              (let after = \<lparr>x_request = x_request c2, x_conn = x_conn c2,
                     x_world = (x_world c1)\<lparr>g_rest := (services s)\<lparr>pm_objects := (pm_objects (services s))(x \<mapsto> x_world c2)\<rparr>\<rparr>\<rparr>
               in (r = Inr () \<longrightarrow> dispatch (wb_http s) resource c = (Inr (), after)) \<and>
                  (\<forall>msg. r = Inl (Std_exception msg) \<longrightarrow> dispatch (wb_http s) resource c = handleServerError (we_lib env) msg after) \<and>
                  (r = Inl Lost_connection \<longrightarrow> dispatch (wb_http s) resource c =
                     (Inr (), after\<lparr>x_conn := conn_finish (setLifecycle LIFECYCLE_CLOSE (x_conn c2))\<rparr>))))))"
proof -
  note ok = web_reachable_ok [OF assms(1)]
  have ordered: "ordered (s_resources (wb_http s))" and bound: "\<forall>e\<in>set (s_resources (wb_http s)). bound_alive (we_ops env) (services s) (snd e)"
    and page: "s_server_error_handler (wb_http s) = handleServerError (we_lib env)"
    and auth: "s_auth (wb_http s) = None \<or> s_auth (wb_http s) = Some (auth_action (we_lib env))"
    using ok unfolding web_ok_def by blast+
  have decided: "decided c res c1"
    using auth assms(4-6) auth_action_decides [OF assms(4,5), of "we_lib env" res c1] by (auto simp: authorized_def returnA_def decided_def)
  have rest: "g_rest (x_world c1) = services s" using authorized_services [OF assms(1,6)] assms(3) by simp
  obtain h where h: "findRequestHandler resource (s_resources (wb_http s)) = Some h" using assms(2) by blast
  from findRequestHandler_Some [OF ordered h] obtain k where k: "(k, h) \<in> set (s_resources (wb_http s))" "covers k resource"
    "\<forall>e\<in>set (s_resources (wb_http s)). covers (fst e) resource \<longrightarrow> length (fst e) \<le> length k" by blast
  from bspec [OF bound k(1)] obtain x y where x: "h = service_handler (we_ops env) x" "pm_objects (services s) x = Some y"
    unfolding bound_alive_def by auto
  have pass: "dispatch (wb_http s) resource c = call_handler (wb_http s) (service_handler (we_ops env) x) c1" if "res = Inr True"
    using that assms(6) h x(1) by (simp add: dispatch_def bindA_def)
  have call: "service_handler (we_ops env) x c1 = (r, \<lparr>x_request = x_request c2, x_conn = x_conn c2,
      x_world = (x_world c1)\<lparr>g_rest := (services s)\<lparr>pm_objects := (pm_objects (services s))(x \<mapsto> x_world c2)\<rparr>\<rparr>\<rparr>)"
    if "res = Inr True" "so_call (we_ops env) (g_user (x_world c1)) \<lparr>x_request = x_request c, x_conn = x_conn c, x_world = y\<rparr> = (r, c2)" for r c2
    using that x(2) rest decided by (simp add: service_handler_def Let_def decided_def)
  have refused: "dispatch (wb_http s) resource c = (Inr (), c1) \<and> one_write c c1" if "res = Inr False"
    using that assms(6) decided by (simp add: dispatch_def bindA_def returnA_def decided_def)
  have found: "map_find k (s_resources (wb_http s)) = Some (service_handler (we_ops env) x)"
    using map_find_set [OF ordered] k(1) x(1) by blast
  show ?thesis
  proof (intro conjI exI [of _ k] exI [of _ x] exI [of _ y])
    show "res = Inr True \<longrightarrow> x_conn c1 = x_conn c \<and> x_request c1 = x_request c \<and>
           (\<forall>r c2. so_call (we_ops env) (g_user (x_world c1)) \<lparr>x_request = x_request c, x_conn = x_conn c, x_world = y\<rparr> = (r, c2) \<longrightarrow>
              (let after = \<lparr>x_request = x_request c2, x_conn = x_conn c2,
                     x_world = (x_world c1)\<lparr>g_rest := (services s)\<lparr>pm_objects := (pm_objects (services s))(x \<mapsto> x_world c2)\<rparr>\<rparr>\<rparr>
               in (r = Inr () \<longrightarrow> dispatch (wb_http s) resource c = (Inr (), after)) \<and>
                  (\<forall>msg. r = Inl (Std_exception msg) \<longrightarrow> dispatch (wb_http s) resource c = handleServerError (we_lib env) msg after) \<and>
                  (r = Inl Lost_connection \<longrightarrow> dispatch (wb_http s) resource c =
                     (Inr (), after\<lparr>x_conn := conn_finish (setLifecycle LIFECYCLE_CLOSE (x_conn c2))\<rparr>))))"
    proof (intro impI conjI allI)
      fix r c2 assume pos: "res = Inr True" and run: "so_call (we_ops env) (g_user (x_world c1)) \<lparr>x_request = x_request c, x_conn = x_conn c, x_world = y\<rparr> = (r, c2)"
      show "let after = \<lparr>x_request = x_request c2, x_conn = x_conn c2,
                     x_world = (x_world c1)\<lparr>g_rest := (services s)\<lparr>pm_objects := (pm_objects (services s))(x \<mapsto> x_world c2)\<rparr>\<rparr>\<rparr>
               in (r = Inr () \<longrightarrow> dispatch (wb_http s) resource c = (Inr (), after)) \<and>
                  (\<forall>msg. r = Inl (Std_exception msg) \<longrightarrow> dispatch (wb_http s) resource c = handleServerError (we_lib env) msg after) \<and>
                  (r = Inl Lost_connection \<longrightarrow> dispatch (wb_http s) resource c =
                     (Inr (), after\<lparr>x_conn := conn_finish (setLifecycle LIFECYCLE_CLOSE (x_conn c2))\<rparr>))"
        unfolding Let_def pass [OF pos] using call [OF pos run] page by (auto simp: call_handler_def modify_conn_def)
    qed (use decided in \<open>simp_all add: decided_def\<close>)
  qed (use refused rest decided found k x in \<open>auto simp: decided_def\<close>)
qed

text \<open>C33: Clearing a web server stops it, destroys every service it manages and forgets every resource; when a service
  throws as it stops, clearing ends with the exception and every service stays, although the server no longer
  listens.\<close>

theorem web_clear_destroys:
  assumes "web_reachable env s"
  shows "(\<forall>s1. web_stop (we_ops env) s = (Inr (), s1) \<longrightarrow>
       (\<exists>s'. web_clear (we_ops env) s = (Inr (), s') \<and> s_resources (wb_http s') = [] \<and> manager_empty (services s') \<and>
          (\<forall>e\<in>set (pm_map (services s1)). pm_objects (services s') (entry_object e) = None))) \<and>
     (\<forall>what s1. web_stop (we_ops env) s = (Inl (Std_exception what), s1) \<longrightarrow>
       web_clear (we_ops env) s = (Inl (Std_exception what), s1) \<and> \<not> wb_listening s1 \<and> s_resources (wb_http s1) = s_resources (wb_http s) \<and>
       pm_map (services s1) = pm_map (services s))"
proof -
  note ok = web_reachable_ok [OF assms]
  show ?thesis
  proof (intro conjI allI impI)
    fix s1 assume st: "web_stop (we_ops env) s = (Inr (), s1)"
    have "web_ok env s1" using tripleD [OF keeps_stop ok st] by blast
    from clear_all [OF this] st show "\<exists>s'. web_clear (we_ops env) s = (Inr (), s') \<and> s_resources (wb_http s') = [] \<and>
        manager_empty (services s') \<and> (\<forall>e\<in>set (pm_map (services s1)). pm_objects (services s') (entry_object e) = None)"
      by (auto simp: web_clear_def manager_empty_def)
  next
    fix what s1 assume st: "web_stop (we_ops env) s = (Inl (Std_exception what), s1)"
    then show "web_clear (we_ops env) s = (Inl (Std_exception what), s1)" by (simp add: web_clear_def)
    have listening: "wb_listening s" using st by (auto simp: web_stop_def returnS_def split: if_splits)
    show "\<not> wb_listening s1" "s_resources (wb_http s1) = s_resources (wb_http s)" "pm_map (services s1) = pm_map (services s)"
      using st listening stop_keeps [of "we_ops env" "s\<lparr>wb_listening := False\<rparr>" "Inl (Std_exception what)" s1]
      by (simp_all add: web_stop_def)
  qed
qed

section \<open>Witnesses\<close>

text \<open>A server with one service, which greets.\<close>

definition hello_server :: "nat web_server" where
  "hello_server = snd (addService plain_ops ''/hello/'' 0 (snd (liftM (new_object 5) (WebServer_init writer_example_lib 0 manager_init))))"

lemma hello_server_reachable: "web_reachable config_env hello_server"
proof -
  define s0 :: "nat web_server" where "s0 = WebServer_init writer_example_lib 0 manager_init"
  define s1 where "s1 = snd (liftM (new_object 5) s0)"
  have env: "we_lib config_env = writer_example_lib" "we_ops config_env = plain_ops" by (simp_all add: config_env_def)
  have "web_reachable config_env s0" unfolding s0_def using web_reachable.start [of config_env 0] by (simp add: env)
  then have s1: "web_reachable config_env s1" unfolding s1_def
    by (rule web_reachable.step [OF _ web_step.create]) (rule prod.collapse [symmetric])
  have own: "own_object 0 (services s1)"
    by (simp add: s1_def s0_def own_object_def liftM_def new_object_def services_def WebServer_init_def manager_init_def)
  show ?thesis unfolding hello_server_def s0_def [symmetric] s1_def [symmetric] env(2) [symmetric]
    by (rule web_reachable.step [OF s1 web_step.add [OF own]]) (rule prod.collapse [symmetric])
qed

lemma hello_server_facts:
  "s_auth (wb_http hello_server) = None" "s_resources (wb_http hello_server) = [(''/hello'', service_handler plain_ops 0)]"
  "pm_map (services hello_server) = [(''/hello'', 0, 0)]" "\<not> wb_listening hello_server"
  by (simp_all add: hello_server_def addService_def Let_def set_resource_def liftM_def call_object_def new_object_def WebServer_init_def
      manager_init_def services_def stripTrailingSlash_def catchS_def manager_add_def new_ptr_def liftP_def plugin_construct_def modifyS_def
      returnS_def manager_insert_def map_find_def on_http_def addResource_def HTTPServer_init_def bindS_def)

text \<open>The same server with basic authentication for everything: a request without credentials is refused, and without
  authentication it is answered by the service.\<close>

definition guarding_auth :: HTTPBasicAuth where
  "guarding_auth = addRestrict ''/hello'' (HTTPBasicAuth_init [(''ann'', ''secret'')] ''PION:NET'' 0)"

definition guarded_server :: "nat web_server" where
  "guarded_server = snd (setAuthentication writer_example_lib (Some (Basic guarding_auth)) hello_server)"

lemma guarded_server_reachable: "web_reachable config_env guarded_server"
proof -
  have "setAuthentication (we_lib config_env) (Some (Basic guarding_auth)) hello_server = (Inr (), guarded_server)"
    by (simp add: guarded_server_def setAuthentication_def modifyS_def config_env_def)
  from web_reachable.step [OF hello_server_reachable web_step.authentication [OF this]] show ?thesis .
qed

definition hello_ctx :: "nat web_server \<Rightarrow> (server_auth option, nat manager) guarded ctx" where
  "hello_ctx s = \<lparr>x_request = HTTPRequest_init ''/hello/x'', x_conn = TCPConnection_init, x_world = wb_world s\<rparr>"

lemma hello_ctx_parts: "is_request (x_request (hello_ctx s))" "tc_open (x_conn (hello_ctx s))" "g_rest (x_world (hello_ctx s)) = services s"
  by (simp_all add: hello_ctx_def HTTPRequest_init_def HTTPMessage_init_def is_request_def TCPConnection_init_def services_def)

lemma guarded_server_http: "wb_http guarded_server = (wb_http hello_server)\<lparr>s_auth := Some (auth_action writer_example_lib)\<rparr>"
  by (simp add: guarded_server_def setAuthentication_def modifyS_def)

lemma hello_found: "findRequestHandler ''/hello/x'' (s_resources (wb_http hello_server)) \<noteq> None"
  "findRequestHandler ''/hello/x'' (s_resources (wb_http guarded_server)) \<noteq> None"
  by (simp_all add: guarded_server_http hello_server_facts findRequestHandler_def upper_bound_def resource_matches_def)

lemma guarded_refuses: "\<exists>c1. authorized (wb_http guarded_server) (hello_ctx guarded_server) = (Inr False, c1)"
proof -
  define w where "w = wb_world guarded_server"
  define c0 where "c0 = \<lparr>x_request = HTTPRequest_init ''/hello/x'', x_conn = TCPConnection_init,
      x_world = \<lparr>g_auth = guarding_auth, g_user = g_user w, g_now = g_now w, g_rest = g_rest w\<rparr>\<rparr>"
  define a where "a = basic_expireCache (g_now w) guarding_auth"
  obtain r where r: "as_request (HTTPRequest_init ''/hello/x'') = Inr r" "m_resource r = ''/hello/x''"
    by (simp add: HTTPRequest_init_def HTTPMessage_init_def as_request_def)
  have need: "needAuthentication guarding_auth ''/hello/x''"
    by (simp add: guarding_auth_def needAuthentication_def addRestrict_def HTTPBasicAuth_init_def findResource_def stripTrailingSlash_def
        upper_bound_def resource_matches_def Let_def)
  have "getHeader HEADER_AUTHORIZATION (HTTPRequest_init ''/hello/x'') = []"
    by (simp add: getHeader_def HTTPRequest_init_def HTTPMessage_init_def getValue_def dict_find_def equal_range_def)
  then have run: "basic_handleRequest writer_example_lib c0 =
      bindA (basic_handleUnauthorized writer_example_lib (b_realm a)) (\<lambda>_. returnA False) (c0\<lparr>x_world := (x_world c0)\<lparr>g_auth := a\<rparr>\<rparr>)"
    using r need by (simp add: basic_handleRequest_def c0_def bindA_def [of "lift_fault _"] bindA_def [of "modify_auth _"] lift_fault_def
        check_authorization_def modify_auth_def Let_def a_def)
  have "\<exists>c1. basic_handleRequest writer_example_lib c0 = (Inr False, c1) \<and> one_write c0 c1"
    unfolding run basic_handleUnauthorized_def
    by (rule respond_decided) (simp_all add: c0_def HTTPRequest_init_def HTTPMessage_init_def is_request_def TCPConnection_init_def)
  then obtain c1 where c1: "basic_handleRequest writer_example_lib c0 = (Inr False, c1)" by blast
  have "g_auth w = Some (Basic guarding_auth)" by (simp add: w_def guarded_server_def setAuthentication_def modifyS_def)
  with c1 show ?thesis
    by (simp add: guarded_server_http authorized_def auth_action_def hello_ctx_def with_auth_def Let_def w_def [symmetric] c0_def [symmetric])
qed

lemma web_requests_reach_services_witness:
  "(\<exists>c'. dispatch (wb_http hello_server) ''/hello/x'' (hello_ctx hello_server) = (Inr (), c')) \<and>
   (\<exists>c'. dispatch (wb_http guarded_server) ''/hello/x'' (hello_ctx guarded_server) = (Inr (), c') \<and>
      one_write (hello_ctx guarded_server) c' \<and> g_rest (x_world c') = services guarded_server)"
proof
  have call: "\<exists>c'. so_call (we_ops config_env) u \<lparr>x_request = x_request (hello_ctx s), x_conn = x_conn (hello_ctx s), x_world = y\<rparr> = (Inr (), c')" for u y s
    using reply_open [of "\<lparr>x_request = HTTPRequest_init ''/hello/x'', x_conn = TCPConnection_init, x_world = y\<rparr>"]
    by (auto simp: hello_ctx_def config_env_def plain_ops_def hello_service_def HTTPRequest_init_def HTTPMessage_init_def is_request_def TCPConnection_init_def)
  have "authorized (wb_http hello_server) (hello_ctx hello_server) = (Inr True, hello_ctx hello_server)"
    by (simp add: authorized_def hello_server_facts returnA_def)
  from web_requests_reach_services [OF hello_server_reachable hello_found(1) hello_ctx_parts(3,1,2) this] call [of _ hello_server]
  show "\<exists>c'. dispatch (wb_http hello_server) ''/hello/x'' (hello_ctx hello_server) = (Inr (), c')" unfolding Let_def by metis
next
  obtain c1 where a: "authorized (wb_http guarded_server) (hello_ctx guarded_server) = (Inr False, c1)" using guarded_refuses by blast
  from web_requests_reach_services [OF guarded_server_reachable hello_found(2) hello_ctx_parts(3,1,2) a]
  show "\<exists>c'. dispatch (wb_http guarded_server) ''/hello/x'' (hello_ctx guarded_server) = (Inr (), c') \<and>
      one_write (hello_ctx guarded_server) c' \<and> g_rest (x_world c') = services guarded_server" by blast
qed

lemma web_clear_destroys_witness:
  "\<exists>s'. web_clear plain_ops hello_server = (Inr (), s') \<and> pm_objects (services s') 0 = None"
proof -
  have ops: "we_ops config_env = plain_ops" by (simp add: config_env_def)
  have "web_stop (we_ops config_env) hello_server = (Inr (), hello_server)" by (simp add: web_stop_def hello_server_facts returnS_def)
  with web_clear_destroys [OF hello_server_reachable] show ?thesis unfolding ops by (auto simp: hello_server_facts)
qed

end
