(* ===== verification/Test_Db.thy ===== *)
theory Test_Db
  imports Json_Properties
begin

text \<open>
  The mock database of \<open>Backend/lib/TestDB.cpp\<close> with its three instances, and the queries of \<open>DB.h\<close> that
  \<open>SQLiteDB\<close> does not support. The document of a mock database is shared by pointer; \<open>None\<close> is the null
  pointer. The file system is a parameter that gives the text of a file that can be opened.
\<close>

section \<open>The mock database\<close>

record 'n TestDB =
  db_doc :: "'n Members option"
  db_source :: string

definition TestDB_init :: "(string \<Rightarrow> 'n \<times> bool \<times> int) \<Rightarrow> (string \<Rightarrow> string option) \<Rightarrow> string \<Rightarrow> bool \<Rightarrow> 'n::zero TestDB run" where
  "TestDB_init rd files source createDoc =
     (if createDoc \<and> source \<noteq> [] then
        (case files (source @ ''.json'') of
           None \<Rightarrow> Some (Inr \<lparr>db_doc = Some [], db_source = source\<rparr>)
         | Some text \<Rightarrow> bindR (Read_object rd [] text) (\<lambda>ms. Some (Inr \<lparr>db_doc = Some ms, db_source = source\<rparr>)))
      else Some (Inr \<lparr>db_doc = (if createDoc then Some [] else None), db_source = source\<rparr>))"

definition MoviesTestDB :: "(string \<Rightarrow> 'n \<times> bool \<times> int) \<Rightarrow> (string \<Rightarrow> string option) \<Rightarrow> 'n::zero TestDB run" where
  "MoviesTestDB rd files = TestDB_init rd files ''movies'' True"

definition SeasonsTestDB :: "(string \<Rightarrow> 'n \<times> bool \<times> int) \<Rightarrow> (string \<Rightarrow> string option) \<Rightarrow> 'n::zero TestDB run" where
  "SeasonsTestDB rd files = TestDB_init rd files ''seasons'' True"

definition TVShowsTestDB :: "(string \<Rightarrow> 'n \<times> bool \<times> int) \<Rightarrow> (string \<Rightarrow> string option) \<Rightarrow> 'n::zero TestDB run" where
  "TVShowsTestDB rd files = TestDB_init rd files ''tvshows'' True"

definition unrecognized_source :: "string \<Rightarrow> 'n UnknownElement" where
  "unrecognized_source fromSource = JString (''unrecognized db source: '' @ fromSource)"

definition select :: "string \<Rightarrow> 'n TestDB \<Rightarrow> 'n Members option" where
  "select fromSource db =
     (if fromSource = db_source db then db_doc db
      else Some (Object_assign ''error'' (unrecognized_source fromSource) []))"

text \<open>The loop over the items, with the message of the exception that ended it.\<close>

fun select_items :: "string \<Rightarrow> string \<Rightarrow> 'n UnknownElement list \<Rightarrow> 'n UnknownElement list \<Rightarrow> string option \<times> 'n UnknownElement list" where
  "select_items key val [] results = (None, results)"
| "select_items key val (item # items) results =
     (case bindE (CastTo TObject item) (\<lambda>item. bindE (Object_at key (members_of item)) (CastTo TString)) of
        Inl (Exception what) \<Rightarrow> (Some what, results)
      | Inr itemValue \<Rightarrow>
          select_items key val items (if itemValue = JString val then Array_Insert item results else results))"

text \<open>\<open>(*doc())[''content'']\<close> is the mutable \<open>operator[]\<close>, and the mutable conversion to an array follows it:
  both change the document when the member is missing or no array.\<close>

definition content_array :: "'n::zero Members \<Rightarrow> 'n UnknownElement list \<times> 'n Members" where
  "content_array ms =
     (let (ms', it) = Object_index ''content'' ms; e = ConvertTo TArray (snd (ms' ! it))
      in (elements_of e, ms'[it := (fst (ms' ! it), e)]))"

definition query_result :: "string option \<Rightarrow> 'n UnknownElement list \<Rightarrow> 'n Members" where
  "query_result error results =
     (let r = Object_assign ''content'' (JArray []) [];
          r1 = (case error of None \<Rightarrow> r | Some what \<Rightarrow> Object_assign ''error'' (JString what) r);
          r2 = Object_assign ''content'' (JArray results) r1
      in case error of None \<Rightarrow> Object_assign ''error'' JNull r2 | Some _ \<Rightarrow> r2)"

definition selectWhere :: "string \<Rightarrow> string \<times> string \<Rightarrow> 'n::zero TestDB \<Rightarrow> fault + ('n Members \<times> 'n TestDB)" where
  "selectWhere fromSource query db =
     (if fromSource = db_source db then
        (case db_doc db of
           None \<Rightarrow> Inl Assertion_failed
         | Some ms \<Rightarrow>
             (case content_array ms of (items, ms') \<Rightarrow>
                (case select_items (fst query) (snd query) items [] of (error, results) \<Rightarrow>
                   Inr (query_result error results, db\<lparr>db_doc := Some ms'\<rparr>))))
      else Inr (query_result (Some (''unrecognized db source: '' @ fromSource)) [], db))"

definition sqlite_select :: "string \<Rightarrow> 'n Members" where
  "sqlite_select fromSource = []"

definition sqlite_selectWhere :: "string \<Rightarrow> string \<times> string \<Rightarrow> 'n Members" where
  "sqlite_selectWhere fromSource query = []"

section \<open>Queries\<close>

definition item_matches :: "string \<Rightarrow> string \<Rightarrow> 'n UnknownElement \<Rightarrow> bool" where
  "item_matches key val item \<longleftrightarrow> map_of (members_of item) key = Some (JString val)"

definition item_has :: "string \<Rightarrow> 'n UnknownElement \<Rightarrow> bool" where
  "item_has key item \<longleftrightarrow> (\<exists>ms v. item = JObject ms \<and> map_of ms key = Some (JString v))"

lemma select_items_filter:
  "list_all (item_has key) items \<Longrightarrow> select_items key val items results = (None, results @ filter (item_matches key val) items)"
  by (induction items arbitrary: results)
    (auto simp: item_has_def item_matches_def CastTo_def Object_at_eq Array_Insert_def Array_Insert_at_def)

lemma content_array_found: "map_of ms ''content'' = Some (JArray items) \<Longrightarrow> content_array ms = (items, ms)"
proof -
  assume a: "map_of ms ''content'' = Some (JArray items)"
  have mem: "''content'' \<in> fst ` set ms" using a by (metis map_of_eq_None_iff option.distinct(1))
  define it where "it = Object_Find ''content'' ms"
  have it: "it \<noteq> length ms" using mem Object_Find_End [of "''content''" ms] by (simp add: it_def)
  then have "snd (ms ! it) = JArray items" using Object_at_eq [of "''content''" ms] a by (simp add: Object_at_def Let_def it_def)
  with it show ?thesis
    by (simp add: content_array_def Object_index_def it_def [symmetric] Let_def ConvertTo_def)
      (metis list_update_id prod.collapse)
qed

text \<open>A mock database answers from its file: when the file of its source holds a document as the writer
  writes it, with an array of items that all have the asked key as a string, the constructor returns,
  \<open>select\<close> gives the document, and \<open>selectWhere\<close> gives exactly the items whose key has the value, in
  their order, with a null error, and leaves the database unchanged.\<close>

theorem test_db_query:
  assumes "files (source @ ''.json'') = Some (Write shw (JObject ms))" "source \<noteq> []"
    and "wf_members ms" "writable shw rd (JObject ms)"
    and "map_of ms ''content'' = Some (JArray items)" "list_all (item_has key) items"
  shows "\<exists>db. TestDB_init rd files source True = Some (Inr db) \<and> select source db = Some ms \<and>
     selectWhere source (key, val) db =
       Inr ([(''content'', JArray (filter (item_matches key val) items)), (''error'', JNull)], db)"
  using Read_object_Write [OF assms(3,4)] assms(1,2) content_array_found [OF assms(5)] select_items_filter [OF assms(6), of val "[]"]
  by (simp add: TestDB_init_def select_def selectWhere_def query_result_def Object_assign_Cons)

definition example_db :: "int Members" where
  "example_db = [(''content'', JArray [JObject [(''id'', JString ''1'')], JObject [(''id'', JString ''2'')]]), (''error'', JNull)]"

lemma test_db_query_witness:
  "\<exists>db. MoviesTestDB example_rd (\<lambda>f. if f = ''movies.json'' then Some (Write example_shw (JObject example_db)) else None) = Some (Inr db) \<and>
     selectWhere ''movies'' (''id'', ''2'') db =
       Inr ([(''content'', JArray [JObject [(''id'', JString ''2'')]]), (''error'', JNull)], db)"
proof -
  have "wf_members example_db" "writable example_shw example_rd (JObject example_db)"
    by (simp_all add: example_db_def plain_name_def)
  from test_db_query [OF _ _ this, where key = "''id''" and val = "''2''" and source = "''movies''"
      and files = "\<lambda>f. if f = ''movies.json'' then Some (Write example_shw (JObject example_db)) else None"]
  show ?thesis by (simp add: MoviesTestDB_def) (simp add: example_db_def item_has_def item_matches_def, blast)
qed

end
