(* ===== verification/Frontend.thy ===== *)
theory Frontend
  imports Resource_Handler
begin

text \<open>
  \<open>Backend/lib/FrontendServer.cpp\<close>: the server that ties the handlers to the HTTP server, from the
  constructor that creates the tables to the dispatch of a request.
\<close>

section \<open>Starting\<close>

text \<open>The constructor of a handler on a SQLite database, and \<open>initTestData\<close>, which ignores failures.\<close>

definition construct_handler :: "('db, 'stmt) sqlite_lib \<Rightarrow> ResourceHandler \<Rightarrow> 'db \<Rightarrow> startup_failure + 'db" where
  "construct_handler sq h db =
     (case execute sq (h_createStatement h) (None :: unit callback option) [] db () of
        Inl e \<Rightarrow> Inl (Uncaught e)
      | Inr (ok, errMsg, _, db') \<Rightarrow> if ok then Inr db' else Inl (Exited 1))"

fun run_statements :: "('db, 'stmt) sqlite_lib \<Rightarrow> string list \<Rightarrow> 'db \<Rightarrow> startup_failure + 'db" where
  "run_statements sq [] db = Inr db"
| "run_statements sq (s # ss) db =
     (case execute sq s (None :: unit callback option) [] db () of
        Inl e \<Rightarrow> Inl (Uncaught e)
      | Inr (ok, errMsg, _, db') \<Rightarrow> run_statements sq ss db')"

definition initTestData :: "('db, 'stmt) sqlite_lib \<Rightarrow> ResourceHandler \<Rightarrow> 'db \<Rightarrow> startup_failure + 'db" where
  "initTestData sq h db = run_statements sq (h_testData h) db"

definition handlers :: "ResourceHandler list" where
  "handlers = [MoviesResourceHandler, MovieSourcesResourceHandler, TVShowsResourceHandler,
     SeasonsResourceHandler, EpisodesResourceHandler]"

fun for_each :: "('a \<Rightarrow> 'db \<Rightarrow> 'e + 'db) \<Rightarrow> 'a list \<Rightarrow> 'db \<Rightarrow> 'e + 'db" where
  "for_each f [] db = Inr db"
| "for_each f (x # xs) db = bindE (f x db) (for_each f xs)"

definition open_cache :: "('db, 'stmt) sqlite_lib \<Rightarrow> startup_failure + 'db" where
  "open_cache sq =
     bindE (SQLiteDB sq) (\<lambda>db.
       bindE (for_each (construct_handler sq) handlers db) (for_each (initTestData sq) handlers))"

section \<open>The server\<close>

text \<open>\<open>handleNotFound\<close> prints the request and returns.\<close>

definition handleNotFound :: "'w handler" where
  "handleNotFound = returnA ()"

definition frontend :: "('n \<Rightarrow> string) \<Rightarrow> boost_lib \<Rightarrow> ('db, 'stmt) sqlite_lib \<Rightarrow> 'db HTTPServer" where
  "frontend shw lib sq =
     addResource ''/episodes'' (handle shw lib sq EpisodesResourceHandler)
      (addResource ''/seasons'' (handle shw lib sq SeasonsResourceHandler)
       (addResource ''/tvshows'' (handle shw lib sq TVShowsResourceHandler)
        (addResource ''/moviesources'' (handle shw lib sq MovieSourcesResourceHandler)
         (addResource ''/movies'' (handle shw lib sq MoviesResourceHandler)
           (setNotFoundHandler handleNotFound (HTTPServer_init lib))))))"

definition FrontendServer :: "('n \<Rightarrow> string) \<Rightarrow> boost_lib \<Rightarrow> ('db, 'stmt) sqlite_lib \<Rightarrow> startup_failure + ('db HTTPServer \<times> 'db)" where
  "FrontendServer shw lib sq = bindE (open_cache sq) (\<lambda>db. Inr (frontend shw lib sq, db))"

section \<open>Sanitized parameters\<close>

text \<open>The pairs the loop inserts, in order.\<close>

fun accepted :: "(string \<Rightarrow> string option) \<Rightarrow> StringDictionary \<Rightarrow> (string \<times> string) list" where
  "accepted f [] = []"
| "accepted f ((k, v) # dirty) = (case f k of None \<Rightarrow> accepted f dirty | Some c \<Rightarrow> (c, v) # accepted f dirty)"

lemma sanitize_loop_fold: "sanitize_loop f dirty sq = foldl (\<lambda>m e. map_insert (fst e) (snd e) m) sq (accepted f dirty)"
  by (induction f dirty sq rule: sanitize_loop.induct) (simp_all split: option.splits)

lemma sanitize_props:
  "ordered (sanitizeQueryParams h dirty)"
  "map_find col (sanitizeQueryParams h dirty) = map_of (accepted (h_sanitizedKey h) dirty) col"
  using std.fold_ins [of "[]" "accepted (h_sanitizedKey h) dirty"]
  by (simp_all add: sanitizeQueryParams_def sanitize_loop_fold map_find_def)

lemma map_find_keys: "fst ` set m = {k. map_find k m \<noteq> None}"
  by (auto simp: map_find_def map_of_eq_None_iff image_iff)

definition accepted_keys :: "(string \<Rightarrow> string option) \<Rightarrow> StringDictionary \<Rightarrow> string set" where
  "accepted_keys f dirty = {c. \<exists>k v. (k, v) \<in> set dirty \<and> f k = Some c}"

lemma fst_accepted: "fst ` set (accepted f dirty) = accepted_keys f dirty"
proof (induction f dirty rule: accepted.induct)
  case (2 f k v dirty)
  then show ?case by (cases "f k") (auto simp: accepted_keys_def)
qed (simp add: accepted_keys_def)

lemma sanitize_keys: "fst ` set (sanitizeQueryParams h dirty) = accepted_keys (h_sanitizedKey h) dirty"
proof -
  have "fst ` set (sanitizeQueryParams h dirty) = {c. map_of (accepted (h_sanitizedKey h) dirty) c \<noteq> None}"
    unfolding map_find_keys sanitize_props(2) ..
  also have "\<dots> = fst ` set (accepted (h_sanitizedKey h) dirty)"
    using map_find_keys [of "accepted (h_sanitizedKey h) dirty"] unfolding map_find_def by simp
  finally show ?thesis by (simp add: fst_accepted)
qed

lemma ordered_keys_unique: "ordered a \<Longrightarrow> ordered b \<Longrightarrow> fst ` set a = fst ` set b \<Longrightarrow> map fst a = map fst b"
  unfolding ordered_def by (metis list.set_map strict_sorted_equal)

text \<open>The columns each resource may be searched by.\<close>

definition columns :: "ResourceHandler \<Rightarrow> string set" where
  "columns h = {c. \<exists>k. h_sanitizedKey h k = Some c}"

definition plain_identifier :: "string \<Rightarrow> bool" where
  "plain_identifier s \<longleftrightarrow> s \<noteq> [] \<and> (\<forall>c\<in>set s. c = CHR ''_'' \<or> 97 \<le> code c \<and> code c \<le> 122)"

lemmas handler_defs = MoviesResourceHandler_def MovieSourcesResourceHandler_def TVShowsResourceHandler_def
  SeasonsResourceHandler_def EpisodesResourceHandler_def
lemmas key_defs = movies_key_def moviesources_key_def tvshows_key_def seasons_key_def episodes_key_def

lemma key_values:
  "movies_key k = Some c \<Longrightarrow> c \<in> set [''movie_id'', ''movie_name'', ''movie_coverurl'', ''movie_imdbid'']"
  "moviesources_key k = Some c \<Longrightarrow> c \<in> set [''msrc_id'', ''msrc_url'', ''movie_id'']"
  "tvshows_key k = Some c \<Longrightarrow> c \<in> set [''show_id'', ''show_coverurl'', ''show_name'', ''show_imdbid'']"
  "seasons_key k = Some c \<Longrightarrow> c \<in> set [''season_id'', ''season_number'', ''season_coverurl'', ''tvshow_id'']"
  "episodes_key k = Some c \<Longrightarrow> c \<in> set [''episode_id'', ''episode_number'', ''tvshow_id'', ''season_id'']"
  unfolding key_defs
  subgoal by (simp split: if_split_asm) (metis list.distinct(1))?
  subgoal by (simp split: if_split_asm)
  subgoal by (simp split: if_split_asm)
  subgoal by (simp split: if_split_asm)
  subgoal by (simp split: if_split_asm)
  done

definition plain_columns :: "string list" where
  "plain_columns = [''movie_id'', ''movie_name'', ''movie_coverurl'', ''movie_imdbid'', ''msrc_id'', ''msrc_url'',
     ''show_id'', ''show_coverurl'', ''show_name'', ''show_imdbid'', ''season_id'', ''season_number'',
     ''season_coverurl'', ''tvshow_id'', ''episode_id'', ''episode_number'']"

lemma plain_columns_plain: "list_all plain_identifier plain_columns"
  unfolding plain_columns_def plain_identifier_def by (simp add: of_char_def)

lemmas plain_column_facts = plain_columns_plain [unfolded plain_columns_def list.pred_inject]

lemma key_plain:
  "movies_key k = Some c \<Longrightarrow> plain_identifier c"
  "moviesources_key k = Some c \<Longrightarrow> plain_identifier c"
  "tvshows_key k = Some c \<Longrightarrow> plain_identifier c"
  "seasons_key k = Some c \<Longrightarrow> plain_identifier c"
  "episodes_key k = Some c \<Longrightarrow> plain_identifier c"
  using plain_column_facts key_values [of k c] unfolding list.set by blast+

end
