(* ===== verification/Backend_Properties.thy ===== *)
theory Backend_Properties
  imports Frontend
begin

text \<open>
  What the handlers of the backend answer: the rows of a query as a JSON document, the parameters a
  request may add to a statement, the requests that get no answer, and the way from a path to its
  handler.
\<close>

section \<open>Rows as documents\<close>

definition cell :: "string option \<Rightarrow> 'n UnknownElement" where
  "cell v = (case v of Some s \<Rightarrow> JString s | None \<Rightarrow> JNull)"

definition row_object :: "string list \<Rightarrow> row \<Rightarrow> 'n UnknownElement" where
  "row_object names r = JObject (zip names (map cell r))"

definition rows_doc :: "string list \<Rightarrow> row list \<Rightarrow> 'n Members" where
  "rows_doc names rows = [(''content'', JArray (map (row_object names) rows)), (''error'', JNull)]"

text \<open>A result table as SQLite documents it: distinct names, rows of that length, texts without zero
  bytes. The names contain no quote and no backslash, as the names in the statements do not.\<close>

definition valid_rows :: "string list \<Rightarrow> row list \<Rightarrow> bool" where
  "valid_rows names rows \<longleftrightarrow> distinct names \<and> (\<forall>k\<in>set names. plain_name k \<and> CHR 0x00 \<notin> set k) \<and>
     (\<forall>r\<in>set rows. length r = length names \<and> (\<forall>v\<in>set r. case v of None \<Rightarrow> True | Some s \<Rightarrow> CHR 0x00 \<notin> set s))"

lemma Object_assign_new: "name \<notin> fst ` set ms \<Longrightarrow> Object_assign name v ms = ms @ [(name, v)]"
proof -
  assume "name \<notin> fst ` set ms"
  then have "Object_Find name ms = length ms" unfolding Object_Find_def
    by (subst takeWhile_eq_all_conv [THEN iffD2]) auto
  then show ?thesis by (simp add: Object_assign_def Object_index_def)
qed

lemma deref_column_text [simp]: "deref n (column_text n v) = Inr v"
  by (simp add: deref_def column_text_def split: option.splits)

lemma lister_columns_cells:
  assumes "distinct names" "length vs = length names" "length cs = length names" "k \<le> length names"
    and "\<And>i. i < length names \<Longrightarrow> \<exists>v. deref n (vs ! i) = Inr v \<and> cs ! i = cell v"
  shows "lister_columns n vs (map Some names) [k..<length names] (take k (zip names cs)) = Inr (zip names cs)"
  using assms(4)
proof (induction "length names - k" arbitrary: k)
  case 0
  then show ?case using assms(3) by simp
next
  case (Suc d)
  then have k: "k < length names" and d: "d = length names - Suc k" by simp_all
  obtain v where v: "deref n (vs ! k) = Inr v" "cs ! k = cell v" using assms(5) [OF k] by blast
  have "fst ` set (take k (zip names cs)) = set (take k names)"
    using assms(3) by (metis map_fst_zip list.set_map take_map)
  then have new: "names ! k \<notin> fst ` set (take k (zip names cs))"
    using assms(1) k by (auto simp: distinct_conv_nth in_set_conv_nth)
  have "[k..<length names] = k # [Suc k..<length names]" using k by (simp add: upt_conv_Cons)
  moreover have "take (Suc k) (zip names cs) = take k (zip names cs) @ [(names ! k, cs ! k)]"
    using k assms(3) by (simp add: take_Suc_conv_app_nth)
  ultimately show ?case using Suc.hyps(1) [OF d] k assms(2,3) Object_assign_new [OF new] v
    by (simp add: cell_def)
qed

lemma Lister_callback_cells:
  assumes "distinct names" "length vs = length names" "length r = length names"
    and "\<And>i. i < length names \<Longrightarrow> deref n (vs ! i) = Inr (r ! i)"
  shows "Lister_callback n (length names) vs (map Some names) (l :: 'n Lister) =
     Inr (l\<lparr>l_content := l_content l @ [row_object names r]\<rparr>)"
proof -
  have "lister_columns n vs (map Some names) [0..<length names] (take 0 (zip names (map cell r))) =
      Inr (zip names (map cell r) :: 'n Members)"
    by (rule lister_columns_cells) (use assms in auto)
  then have "lister_columns n vs (map Some names) [0..<length names] [] = Inr (zip names (map cell r) :: 'n Members)" by simp
  then show ?thesis by (simp add: Lister_callback_def Array_Insert_def Array_Insert_at_def row_object_def)
qed

lemma Lister_callback_row:
  assumes "distinct names" "length r = length names"
  shows "Lister_callback n (length names) (map (column_text n) r) (map Some names) l =
     Inr (l\<lparr>l_content := l_content l @ [row_object names r]\<rparr>)"
  by (rule Lister_callback_cells) (use assms in simp_all)

lemma exec_rows_list:
  assumes "distinct names" "\<forall>r\<in>set rows. length r = length names"
  shows "exec_rows (Some Lister_callback) n (map (\<lambda>r. (map Some names, r)) rows) l =
     Inr (l\<lparr>l_content := l_content l @ map (row_object names) rows\<rparr>)"
  using assms(2) by (induction rows arbitrary: n l) (simp_all add: call_function_def Lister_callback_row [OF assms(1)])

lemma Lister_finish_doc:
  "l_doc (Lister_finish (Lister_init\<lparr>l_content := map (row_object names) rows\<rparr>)) = rows_doc names rows"
  by (simp add: Lister_finish_def Lister_init_def rows_doc_def Object_assign_new)

section \<open>The document survives\<close>

text \<open>No zero byte comes from the writer, so the C string is the whole text.\<close>

fun nul_free :: "('n \<Rightarrow> string) \<Rightarrow> 'n UnknownElement \<Rightarrow> bool" where
  "nul_free shw (JArray xs) = (\<forall>x\<in>set xs. nul_free shw x)"
| "nul_free shw (JObject ms) = (\<forall>m\<in>set ms. CHR 0x00 \<notin> set (fst m) \<and> nul_free shw (snd m))"
| "nul_free shw (JNumber n) = (CHR 0x00 \<notin> set (shw n))"
| "nul_free shw (JString s) = (CHR 0x00 \<notin> set s)"
| "nul_free shw _ = True"

lemma nul_Write_chars: "CHR 0x00 \<notin> set s \<Longrightarrow> CHR 0x00 \<notin> set (Write_chars s)"
  by (induction s) (auto simp: escape_char_def)

lemma nul_tabs [simp]: "CHR 0x00 \<notin> set (tabs d)"
  using set_tabs [of d] by auto

lemma nul_Write_element:
  "nul_free shw e \<Longrightarrow> CHR 0x00 \<notin> set (Write_element shw d e)"
  "\<forall>x\<in>set xs. nul_free shw x \<Longrightarrow> CHR 0x00 \<notin> set (Write_elements shw d xs)"
  "\<forall>m\<in>set ms. CHR 0x00 \<notin> set (fst m) \<and> nul_free shw (snd m) \<Longrightarrow> CHR 0x00 \<notin> set (Write_members shw d ms)"
  by (induction shw d e and shw d xs and shw d ms rule: Write_element_Write_elements_Write_members.induct)
    (auto simp: Write_String_def Write_Boolean_def nul_Write_chars split: if_splits)

lemma c_str_Write: "nul_free shw e \<Longrightarrow> c_str (Write shw e) = Write shw e"
  using nul_Write_element(1) [of shw e 0] by (auto simp: c_str_def Write_def takeWhile_eq_all_conv)

lemma cell_ok:
  assumes "valid_rows names rows" "r \<in> set rows" "(k, e) \<in> set (zip names (map cell r))"
  shows "wf_element e" "writable shw rd e" "nul_free shw e" "plain_name k" "CHR 0x00 \<notin> set k"
proof -
  obtain v where v: "v \<in> set r" "e = cell v" "k \<in> set names" using assms(3) by (metis set_zip_leftD set_zip_rightD imageE list.set_map)
  have "case v of None \<Rightarrow> True | Some s \<Rightarrow> CHR 0x00 \<notin> set s" using assms(1,2) v(1) unfolding valid_rows_def by blast
  then show "wf_element e" "writable shw rd e" "nul_free shw e" by (cases v, simp_all add: v(2) cell_def)+
  show "plain_name k" "CHR 0x00 \<notin> set k" using assms(1) v(3) by (auto simp: valid_rows_def)
qed

lemma row_object_ok:
  assumes "valid_rows names rows" "r \<in> set rows"
  shows "wf_element (row_object names r)" "writable shw rd (row_object names r)" "nul_free shw (row_object names r)"
proof -
  note ok = cell_ok [OF assms]
  have len: "length r = length names" "distinct names" using assms by (auto simp: valid_rows_def)
  show "wf_element (row_object names r)" using ok(1) len by (auto simp: row_object_def)
  show "writable shw rd (row_object names r)" "nul_free shw (row_object names r)"
    using ok(2,3) assms(1) by (auto simp: row_object_def valid_rows_def dest: set_zip_leftD)
qed

lemma rows_doc_ok:
  assumes "valid_rows names rows"
  shows "wf_members (rows_doc names rows)" "writable shw rd (JObject (rows_doc names rows))"
    "nul_free shw (JObject (rows_doc names rows))"
  using row_object_ok [OF assms] by (auto simp: rows_doc_def plain_name_def)

section \<open>Answers\<close>

text \<open>A document sent to the client of \<open>c\<close>: one write on its connection, of the headers of a response with
  the given status and the length of the document, and of the document.\<close>

definition answered :: "boost_lib \<Rightarrow> 32 word \<Rightarrow> string \<Rightarrow> string \<Rightarrow> 'w ctx \<Rightarrow> 'w ctx \<Rightarrow> bool" where
  "answered lib n text body c c' \<longleftrightarrow>
     (\<exists>resp r. m_class resp = Response r \<and> m_status_code r = n \<and> m_status_message r = text \<and>
        m_content_length resp = of_nat (length body) \<and>
        c' = c\<lparr>x_conn := async_write (response_headers lib (getKeepAlive (x_conn c)) False resp @ body) (x_conn c)\<rparr>)"

lemma answered_one_write: "answered lib n text body c c' \<Longrightarrow> one_write c c'"
  by (auto simp: answered_def)

lemma send_writer_answered:
  assumes "tc_open (x_conn c)" "writer_ok w" "writer_content w = []" "\<not> w_sent_headers w" "\<not> w_sending_chunks w"
    and "m_class (w_http_response w) = Response r" "m_content_length (w_http_response w) = 0"
  shows "\<exists>c'. send_writer lib (writer_write body w) c = (Inr (), c') \<and>
     answered lib (m_status_code r) (m_status_message r) body c c'"
proof -
  define w' where "w' = writer_write body w"
  have w': "writer_ok w'" "writer_content w' = body" "\<not> w_sent_headers w'" "\<not> w_sending_chunks w'"
    "w_http_response w' = w_http_response w"
    using text_sink.inv_put [OF assms(2)] text_sink.abs_put [OF assms(2)] assms(3-5)
    by (simp_all add: w'_def) (simp_all add: writer_write_def)
  define resp where "resp = with_length (length body) (w_http_response w)"
  have resp: "m_class resp = Response r" "m_content_length resp = of_nat (length body)"
    using assms(6,7) by (simp_all add: resp_def with_length_def)
  define c' where "c' = c\<lparr>x_conn := async_write (response_headers lib (getKeepAlive (x_conn c)) False resp @ body) (x_conn c)\<rparr>"
  have "answered lib (m_status_code r) (m_status_message r) body c c'"
    unfolding answered_def using resp c'_def by blast
  moreover have "send_writer lib w' c = (Inr (), c')"
    using writer_send_eq [OF assms(1) w'(1,3,4), of lib] w'(2,5)
    by (auto simp: send_writer_def c'_def resp_def)
  ultimately show ?thesis unfolding w'_def by blast
qed

lemma writeJson_answers:
  assumes "is_request (x_request c)" "tc_open (x_conn c)" "nul_free shw (JObject doc)"
  shows "\<exists>c'. bindA create_writer (writeJsonHttpResponse shw lib doc True) c = (Inr (), c') \<and>
     answered lib RESPONSE_CODE_OK RESPONSE_MESSAGE_OK (Write shw (JObject doc)) c c'"
proof -
  from HTTPResponseWriter_create_request [OF assms(1)] obtain w r where
    w: "HTTPResponseWriter_create (x_request c) = Inr w" "writer_ok w" "writer_content w = []" "\<not> w_sent_headers w"
      "\<not> w_sending_chunks w" "m_class (w_http_response w) = Response r" "m_content_length (w_http_response w) = 0" by blast
  define w' where "w' = w\<lparr>w_http_response := (w_http_response w)\<lparr>m_first_line := [],
     m_class := Response (r\<lparr>m_status_code := RESPONSE_CODE_OK, m_status_message := RESPONSE_MESSAGE_OK\<rparr>)\<rparr>\<rparr>"
  have "set_status RESPONSE_CODE_OK RESPONSE_MESSAGE_OK w = Inr w'"
    unfolding w'_def by (rule set_status_response [OF w(6)])
  moreover have "writer_ok w'" "writer_content w' = []" using w(2,3) by (simp_all add: w'_def writer_ok_def writer_content_def)
  ultimately show ?thesis
    using send_writer_answered [OF assms(2), of w' _ lib "Write shw (JObject doc)"] w c_str_Write [OF assms(3)]
    by (simp add: bindA_def create_writer_def lift_fault_def writeJsonHttpResponse_def w'_def)
qed

lemma query_and_answer_rows:
  assumes "execute sq stmt (Some Lister_callback) sp (x_world c) (Lister_init :: 'n Lister) =
      Inr (True, errMsg, Lister_init\<lparr>l_content := map (row_object names) rows\<rparr>, db)"
    and "is_request (x_request c)" "tc_open (x_conn c)" "valid_rows names rows"
  shows "\<exists>c'. query_and_answer (shw :: 'n \<Rightarrow> string) lib sq stmt sp c = (Inr (), c') \<and>
     answered lib RESPONSE_CODE_OK RESPONSE_MESSAGE_OK (Write shw (JObject (rows_doc names rows))) (c\<lparr>x_world := db\<rparr>) c'"
proof -
  have "query_and_answer shw lib sq stmt sp c =
      bindA create_writer (writeJsonHttpResponse shw lib (rows_doc names rows) True) (c\<lparr>x_world := db\<rparr>)"
    using assms(1) by (simp add: query_and_answer_def Lister_finish_doc Let_def)
  then show ?thesis using writeJson_answers [OF _ _ rows_doc_ok(3) [OF assms(4)], of "c\<lparr>x_world := db\<rparr>"] assms(2,3) by simp
qed

lemma query_and_answer_failed:
  assumes "execute sq stmt (Some Lister_callback) sp (x_world c) (Lister_init :: 'n Lister) = Inr (False, errMsg, l, db)"
  shows "query_and_answer (shw :: 'n \<Rightarrow> string) lib sq stmt sp c = (Inr (), c\<lparr>x_world := db\<rparr>)"
  using assms by (simp add: query_and_answer_def Let_def)

lemma handlers_statements: "h \<in> set handlers \<Longrightarrow> h_listStatement h \<noteq> [] \<and> h_viewStatement h \<noteq> []"
  by (auto simp: handlers_def handler_defs movies_view_def moviesources_view_def tvshows_view_def seasons_view_def
      episodes_view_def)

lemma handle_list:
  assumes "h \<in> set handlers" "m_class (x_request c) = Request r" "hasQuery ''list'' r"
  shows "handle shw lib sq h c = query_and_answer shw lib sq (h_listStatement h) [] c"
  using assms handlers_statements [OF assms(1)]
  by (simp add: handle_def bindA_def lift_fault_def as_request_def list_resource_def)

lemma handle_view:
  assumes "h \<in> set handlers" "m_class (x_request c) = Request r" "\<not> hasQuery ''list'' r" "hasQuery ''view'' r"
  shows "handle shw lib sq h c =
     (if sanitizeQueryParams h (m_query_params r) = [] then query_and_answer shw lib sq (h_listStatement h) [] c
      else query_and_answer shw lib sq (h_viewStatement h) (sanitizeQueryParams h (m_query_params r)) c)"
  using assms handlers_statements [OF assms(1)]
  by (simp add: handle_def view_resource_def bindA_def lift_fault_def as_request_def list_resource_def Let_def)

section \<open>Searching\<close>

text \<open>The stepping loop over a result of at most one row, and the second row, whose columns the callback
  reads from the first row's pointers.\<close>

lemma step_rows_single:
  assumes "distinct names" "length r = length names"
  shows "step_rows (Some Lister_callback) (map Some names) 0 [] [r] l =
     Inr (l\<lparr>l_content := l_content l @ [row_object names r]\<rparr>)"
  by (simp add: call_function_def Lister_callback_row [OF assms])

lemma lister_columns_dangling:
  assumes "\<forall>i\<in>set is. i < length vs \<and> i < length names \<and> (vs ! i = Null_ptr \<or> (\<exists>k s. vs ! i = Text_ptr k s \<and> k \<noteq> n))"
    and "\<exists>i\<in>set is. vs ! i \<noteq> Null_ptr"
  shows "lister_columns n vs (map Some names) is item = Inl Dangling_pointer"
  using assms
proof (induction "is" arbitrary: item)
  case (Cons i "is")
  then show ?case by (cases "vs ! i = Null_ptr") (auto simp: deref_def)
qed simp

lemma step_rows_dangling:
  assumes "distinct names" "length r = length names" "Some s \<in> set r"
  shows "step_rows (Some Lister_callback) (map Some names) 0 [] (r # r' # rows) (l :: 'n Lister) = Inl (Abort Dangling_pointer)"
proof -
  obtain i where i: "i < length r" "r ! i = Some s" using assms(3) by (auto simp: in_set_conv_nth)
  define vs where "vs = map (column_text 0) r @ map (column_text 1) r'"
  have nth: "j < length r \<Longrightarrow> vs ! j = column_text 0 (r ! j)" for j by (simp add: vs_def nth_append)
  have "lister_columns 1 vs (map Some names) [0..<length names] item = Inl Dangling_pointer" for item :: "'n Members"
  proof (rule lister_columns_dangling)
    show "\<exists>j\<in>set [0..<length names]. vs ! j \<noteq> Null_ptr"
      using i assms(2) nth [of i] by (intro bexI [of _ i]) (auto simp: column_text_def)
  qed (use assms(2) nth in \<open>auto simp: column_text_def vs_def split: option.splits\<close>)
  then have "Lister_callback 1 (length names) vs (map Some names) l' = Inl Dangling_pointer" for l' :: "'n Lister"
    by (simp add: Lister_callback_def)
  then show ?thesis by (simp add: Lister_callback_row [OF assms(1,2)] call_function_def vs_def)
qed

text \<open>A search that SQLite compiles, binds and runs: its columns and its rows.\<close>

definition search :: "('db, 'stmt) sqlite_lib \<Rightarrow> 'db \<Rightarrow> string \<Rightarrow> SanitizedParams \<Rightarrow> string list \<Rightarrow> row list \<Rightarrow> bool" where
  "search sq db stmt sp names rows \<longleftrightarrow>
     (case sqlite3_prepare sq db (stmt @ whereClause sp) of (ret, st) \<Rightarrow>
        ret = SQLITE_OK \<and>
        (case bind_params sq st 1 (map snd sp) of (ret', st') \<Rightarrow>
           ret' = SQLITE_OK \<and> sqlite3_column_names sq st' = map Some names \<and> names \<noteq> [] \<and>
           sqlite3_steps sq db st' = (rows, SQLITE_DONE)))"

lemma execute_search:
  assumes "search sq db stmt sp names rows" "stmt \<noteq> []" "sp \<noteq> []"
  shows "execute sq stmt f sp db s =
     bindE (step_rows f (map Some names) 0 [] rows s) (\<lambda>s'. Inr (True, None, s', db))"
  using assms
  by (cases "step_rows f (map Some names) 0 [] rows s")
    (auto simp: execute_def search_def run_statement_def sqlite_ok_def split: prod.splits)

section \<open>Routes\<close>

definition frontend_routes :: "(string \<times> ResourceHandler) list" where
  "frontend_routes =
     [(''/episodes'', EpisodesResourceHandler), (''/movies'', MoviesResourceHandler),
      (''/moviesources'', MovieSourcesResourceHandler), (''/seasons'', SeasonsResourceHandler),
      (''/tvshows'', TVShowsResourceHandler)]"

lemma frontend_resources:
  "s_resources (frontend shw lib sq) = map (map_prod id (handle shw lib sq)) frontend_routes"
  by (simp add: frontend_def addResource_def stripTrailingSlash_def setNotFoundHandler_def HTTPServer_init_def
      frontend_routes_def)

lemma frontend_parts:
  "s_redirects (frontend shw lib sq) = []" "s_auth (frontend shw lib sq) = None"
  "s_not_found_handler (frontend shw lib sq) = handleNotFound"
  "s_server_error_handler (frontend shw lib sq) = handleServerError lib"
  "s_bad_request_handler (frontend shw lib sq) = handleBadRequest lib"
  by (simp_all add: frontend_def addResource_def setNotFoundHandler_def HTTPServer_init_def)

lemma frontend_routes_ordered: "ordered (map (map_prod id f) frontend_routes)"
  by (simp add: frontend_routes_def)

text \<open>The first segment of a path decides which resource covers it.\<close>

definition first_segment :: "string \<Rightarrow> string" where
  "first_segment resource = takeWhile (\<lambda>c. c \<noteq> CHR ''/'') (tl resource)"

lemma covers_first_segment:
  assumes "covers (CHR ''/'' # name) resource" "CHR ''/'' \<notin> set name"
  shows "first_segment resource = name"
proof -
  from assms(1) obtain t where "tl resource = name @ t" "t = [] \<or> hd t = CHR ''/''"
    by (auto simp: covers_def prefix_def)
  with assms(2) show ?thesis unfolding first_segment_def by (cases t) (auto simp: takeWhile_append)
qed

lemma route_segment: "(k, h) \<in> set frontend_routes \<Longrightarrow> covers k resource \<Longrightarrow> k = CHR ''/'' # first_segment resource"
proof -
  assume k: "(k, h) \<in> set frontend_routes" and cov: "covers k resource"
  have "\<forall>e\<in>set frontend_routes. \<exists>name. fst e = CHR ''/'' # name \<and> CHR ''/'' \<notin> set name" by (simp add: frontend_routes_def)
  with k obtain name where "k = CHR ''/'' # name" "CHR ''/'' \<notin> set name" by fastforce
  with covers_first_segment cov show ?thesis by blast
qed

lemma routes_distinct: "distinct (map fst frontend_routes)"
  by (simp add: frontend_routes_def)

lemma find_route:
  assumes "(k, h) \<in> set frontend_routes" "covers k resource"
  shows "findRequestHandler resource (map (map_prod id f) frontend_routes) = Some (f h)"
proof -
  define m where "m = map (map_prod id f) frontend_routes"
  have ord: "ordered m" unfolding m_def by (rule frontend_routes_ordered)
  have "(k, f h) \<in> set m" unfolding m_def using assms(1) by force
  then have "findRequestHandler resource m \<noteq> None" using findRequestHandler_None [OF ord] assms(2) by fastforce
  then obtain g where g: "findRequestHandler resource m = Some g" by blast
  from findRequestHandler_Some [OF ord g] obtain k' where k': "(k', g) \<in> set m" "covers k' resource" by blast
  then obtain h' where h': "(k', h') \<in> set frontend_routes" "g = f h'" by (auto simp: m_def)
  have "k' = k" using route_segment [OF assms] route_segment [OF h'(1) k'(2)] by simp
  then have "h' = h" using assms(1) h'(1) routes_distinct by (metis eq_key_imp_eq_value)
  with g h'(2) show ?thesis by (simp add: m_def)
qed

lemma find_no_route:
  "\<forall>e\<in>set frontend_routes. \<not> covers (fst e) resource \<Longrightarrow>
     findRequestHandler resource (map (map_prod id f) frontend_routes) = None"
  using findRequestHandler_None [OF frontend_routes_ordered] by auto

lemma handleRequest_frontend:
  assumes "m_class (x_request c) = Request r" "m_is_valid (x_request c)"
  shows "handleRequest (frontend shw lib sq) c = dispatch (frontend shw lib sq) (stripTrailingSlash (m_resource r)) c"
  using assms
  by (cases c) (simp add: handleRequest_def bindA_def lift_fault_def as_request_def frontend_parts follow_redirects.simps
      map_find_def Let_def)

section \<open>Starting\<close>

text \<open>A statement without results leaves the database as \<open>sqlite3_exec\<close> does, whatever code it returns.\<close>

definition after :: "('db, 'stmt) sqlite_lib \<Rightarrow> 'db \<Rightarrow> string \<Rightarrow> 'db" where
  "after sq db stmt = snd (snd (snd (sqlite3_exec sq db stmt)))"

definition no_rows :: "('db, 'stmt) sqlite_lib \<Rightarrow> string \<Rightarrow> bool" where
  "no_rows sq stmt \<longleftrightarrow> (\<forall>db. fst (snd (snd (sqlite3_exec sq db stmt))) = [])"

lemma execute_plain:
  assumes "stmt \<noteq> []" "no_rows sq stmt"
  shows "\<exists>msg. execute sq stmt f [] db s = Inr (sqlite_ok (fst (sqlite3_exec sq db stmt)), msg, s, after sq db stmt)"
proof -
  obtain ret msg rows db' where e: "sqlite3_exec sq db stmt = (ret, msg, rows, db')" by (metis prod.collapse)
  have "fst (snd (snd (sqlite3_exec sq db stmt))) = []" using assms(2) unfolding no_rows_def by blast
  with e assms(1) show ?thesis by (simp add: execute_def after_def)
qed

lemma run_statements_all:
  assumes "\<forall>s\<in>set ss. s \<noteq> [] \<and> no_rows sq s"
  shows "run_statements sq ss db = Inr (foldl (after sq) db ss)"
  using assms
proof (induction ss arbitrary: db)
  case (Cons s ss)
  then show ?case using execute_plain [of s sq "None :: unit callback option" db "()"] by auto
qed simp

lemma for_each_Inr: "(\<And>x db. x \<in> set xs \<Longrightarrow> f x db = Inr (g db x)) \<Longrightarrow> for_each f xs db = Inr (foldl g db xs)"
  by (induction xs arbitrary: db) simp_all

lemma foldl_foldl: "foldl (\<lambda>a xs. foldl f a (g xs)) a xss = foldl f a (concat (map g xss))"
  by (induction xss arbitrary: a) simp_all

lemma statements_not_empty:
  "h \<in> set handlers \<Longrightarrow> h_createStatement h \<noteq> [] \<and> [] \<notin> set (h_testData h)"
  by (auto simp: handlers_def handler_defs movies_testData_def moviesources_testData_def tvshows_testData_def
      seasons_testData_def episodes_testData_def)

section \<open>Statement text\<close>

lemma handler_columns:
  assumes "h \<in> set handlers" "h_sanitizedKey h k = Some col"
  shows "plain_identifier col"
proof -
  from assms(1) have "h_sanitizedKey h \<in> {movies_key, moviesources_key, tvshows_key, seasons_key, episodes_key}"
    by (auto simp: handlers_def handler_defs)
  then show ?thesis using assms(2) key_plain [of k col] by auto
qed

lemma plain_no_mark:
  assumes "plain_identifier col"
  shows "CHR ''?'' \<notin> set col"
proof
  have all: "\<forall>c\<in>set col. c = CHR ''_'' \<or> 97 \<le> code c \<and> code c \<le> 122"
    using assms unfolding plain_identifier_def by (rule conjunct2)
  assume "CHR ''?'' \<in> set col"
  from bspec [OF all this] show False by simp
qed

lemma sanitized_plain:
  "h \<in> set handlers \<Longrightarrow> col \<in> fst ` set (sanitizeQueryParams h dirty) \<Longrightarrow> plain_identifier col"
  unfolding sanitize_keys accepted_keys_def using handler_columns by blast

lemma view_no_mark: "h \<in> set handlers \<Longrightarrow> count_list (h_viewStatement h) (CHR ''?'') = 0"
  by (auto simp: handlers_def handler_defs movies_view_def moviesources_view_def tvshows_view_def seasons_view_def
      episodes_view_def)

lemma search_marks:
  assumes "h \<in> set handlers"
  shows "count_list (h_viewStatement h @ whereClause (sanitizeQueryParams h dirty)) (CHR ''?'') =
     length (map snd (sanitizeQueryParams h dirty))"
proof -
  have "\<forall>k\<in>set (map fst (sanitizeQueryParams h dirty)). CHR ''?'' \<notin> set k"
    unfolding list.set_map by (intro ballI plain_no_mark sanitized_plain [OF assms])
  from count_where_terms [OF this] show ?thesis by (simp add: whereClause_def view_no_mark [OF assms])
qed

lemma search_text_keys:
  assumes "accepted_keys (h_sanitizedKey h) dirty = accepted_keys (h_sanitizedKey h) dirty'"
  shows "whereClause (sanitizeQueryParams h dirty) = whereClause (sanitizeQueryParams h dirty')"
proof -
  have "map fst (sanitizeQueryParams h dirty) = map fst (sanitizeQueryParams h dirty')"
    by (rule ordered_keys_unique [OF sanitize_props(1) sanitize_props(1)]) (use assms in \<open>simp only: sanitize_keys\<close>)
  then show ?thesis by (simp only: whereClause_def)
qed

section \<open>An example database\<close>

text \<open>What SQLite promises of a prepared statement: its text is the query, none of its parameters has a value at first,
  and binding a text gives a value to one parameter and changes nothing else. \<open>stmt_text\<close> and \<open>bound\<close> read
  the statement.\<close>

definition binds_parameters :: "('db, 'stmt) sqlite_lib \<Rightarrow> ('stmt \<Rightarrow> string) \<Rightarrow> ('stmt \<Rightarrow> nat \<Rightarrow> string option) \<Rightarrow> bool" where
  "binds_parameters sq stmt_text bound \<longleftrightarrow>
     (\<forall>db query st. sqlite3_prepare sq db query = (SQLITE_OK, st) \<longrightarrow> stmt_text st = query \<and> bound st = (\<lambda>_. None)) \<and>
     (\<forall>st i v st'. sqlite3_bind_text sq st i v = (SQLITE_OK, st') \<longrightarrow> stmt_text st' = stmt_text st \<and> bound st' = (bound st)(i \<mapsto> v))"

lemma bind_params_bound:
  assumes "binds_parameters sq stmt_text bound" "bind_params sq stmt i vs = (ret, stmt')"
  shows "(ret = SQLITE_OK \<longrightarrow> stmt_text stmt' = stmt_text stmt \<and>
       (\<forall>j. bound stmt' j = (if i \<le> j \<and> j < i + length vs then Some (vs ! (j - i)) else bound stmt j))) \<and>
     (ret \<noteq> SQLITE_OK \<longrightarrow> (\<exists>st j. j < length vs \<and> fst (sqlite3_bind_text sq st (i + j) (vs ! j)) = ret))"
  using assms(2)
proof (induction vs arbitrary: stmt i)
  case (Cons v vs)
  obtain ret1 st1 where b: "sqlite3_bind_text sq stmt i v = (ret1, st1)" by fastforce
  show ?case
  proof (cases "ret1 = SQLITE_OK")
    case False
    with Cons.prems b have "ret = ret1" by simp
    with b False show ?thesis by (intro conjI impI exI [of _ stmt] exI [of _ 0]) simp_all
  next
    case True
    with assms(1) b have st1: "stmt_text st1 = stmt_text stmt" "bound st1 = (bound stmt)(i \<mapsto> v)"
      unfolding binds_parameters_def by blast+
    have "bind_params sq st1 (Suc i) vs = (ret, stmt')" using Cons.prems b True by simp
    note ih = Cons.IH [OF this]
    have bounds: "bound stmt' j = (if i \<le> j \<and> j < i + length (v # vs) then Some ((v # vs) ! (j - i)) else bound stmt j)"
      if "ret = SQLITE_OK" for j
      using ih that st1(2) by (cases "j = i") (auto simp: nth_Cons')
    have "\<exists>st j. j < length (v # vs) \<and> fst (sqlite3_bind_text sq st (i + j) ((v # vs) ! j)) = ret" if "ret \<noteq> SQLITE_OK"
    proof -
      from ih that obtain st j where "j < length vs" "fst (sqlite3_bind_text sq st (Suc i + j) (vs ! j)) = ret" by blast
      then show ?thesis by (intro exI [of _ st] exI [of _ "Suc j"]) simp
    qed
    with bounds ih st1(1) show ?thesis by simp
  qed
qed auto

text \<open>One comparison with a parameter for every column, joined by \<open>AND\<close>.\<close>

fun comparisons :: "string list \<Rightarrow> string" where
  "comparisons [] = []"
| "comparisons (col # cols) = col @ '' = ?'' @ (if cols = [] then [] else '' AND '' @ comparisons cols)"

lemma where_terms_comparisons: "where_terms True cols = (if cols = [] then [] else '' AND '' @ comparisons cols)"
proof (induction cols)
  case (Cons c cols)
  then show ?case by (cases cols) simp_all
qed simp

lemma whereClause_comparisons: "whereClause sp = '' WHERE '' @ comparisons (map fst sp) @ '';''"
proof (cases sp)
  case (Cons e sp')
  then show ?thesis by (cases sp') (simp_all add: whereClause_def where_terms_comparisons)
qed (simp add: whereClause_def)

text \<open>A search prepares its statement, binds every value and only then runs it.\<close>

lemma execute_binds:
  assumes "binds_parameters sq stmt_text bound" "query \<noteq> []" "sp \<noteq> []"
  shows "(\<exists>stmt. execute sq query f sp db s = bindE (run_statement sq db stmt f s) (\<lambda>(ok, s'). Inr (ok, None, s', db)) \<and>
       stmt_text stmt = query @ whereClause sp \<and>
       (\<forall>j. bound stmt j = (if 1 \<le> j \<and> j \<le> length sp then Some (snd (sp ! (j - 1))) else None))) \<or>
     (\<exists>ret. ret \<noteq> SQLITE_OK \<and> execute sq query f sp db s = Inr (sqlite_ok ret, None, s, db) \<and>
       (fst (sqlite3_prepare sq db (query @ whereClause sp)) = ret \<or>
        (\<exists>st j. j < length sp \<and> fst (sqlite3_bind_text sq st (j + 1) (snd (sp ! j))) = ret)))"
proof -
  obtain ret st where p: "sqlite3_prepare sq db (query @ whereClause sp) = (ret, st)" by fastforce
  show ?thesis
  proof (cases "ret = SQLITE_OK")
    case False
    with p assms(2,3) show ?thesis by (intro disjI2 exI [of _ ret]) (simp add: execute_def)
  next
    case True
    with assms(1) p have st: "stmt_text st = query @ whereClause sp" "bound st = (\<lambda>_. None)" unfolding binds_parameters_def by blast+
    obtain ret' st' where b: "bind_params sq st 1 (map snd sp) = (ret', st')" by fastforce
    note bb = bind_params_bound [OF assms(1) b]
    show ?thesis
    proof (cases "ret' = SQLITE_OK")
      case False
      with bb obtain st2 j where "j < length sp" "fst (sqlite3_bind_text sq st2 (j + 1) (snd (sp ! j))) = ret'" by auto
      with p True b False assms(2,3) show ?thesis by (intro disjI2 exI [of _ ret']) (auto simp: execute_def)
    next
      case ok: True
      have "bound st' j = (if 1 \<le> j \<and> j \<le> length sp then Some (snd (sp ! (j - 1))) else None)" for j
        using bb ok st(2) by auto
      with p True b ok assms(2,3) bb st(1) show ?thesis by (intro disjI1 exI [of _ st']) (simp add: execute_def)
    qed
  qed
qed

text \<open>A library that answers every \<open>select\<close> with one table, and one that refuses every statement.\<close>

definition example_sqlite :: "string list \<Rightarrow> row list \<Rightarrow> (unit, unit) sqlite_lib" where
  "example_sqlite names rows =
     \<lparr>sqlite3_open = \<lambda>_. (0, ()),
      sqlite3_exec = \<lambda>_ q. (SQLITE_OK, None, if take 6 q = ''select'' then map (\<lambda>r. (map Some names, r)) rows else [], ()),
      sqlite3_prepare = \<lambda>_ _. (SQLITE_OK, ()), sqlite3_bind_text = \<lambda>_ _ _. (SQLITE_OK, ()),
      sqlite3_column_names = \<lambda>_. map Some names, sqlite3_steps = \<lambda>_ _. (rows, SQLITE_DONE)\<rparr>"

definition failing_sqlite :: "(unit, unit) sqlite_lib" where
  "failing_sqlite = (example_sqlite [] [])\<lparr>sqlite3_exec := \<lambda>_ _. (1, Some ''SQL logic error'', [], ())\<rparr>"

definition example_request :: "string \<Rightarrow> StringDictionary \<Rightarrow> HTTPRequest_part" where
  "example_request resource params = \<lparr>m_method = REQUEST_METHOD_GET, m_resource = resource,
     m_original_resource = [], m_query_string = [], m_query_params = params, m_charset = []\<rparr>"

definition example_ctx :: "string \<Rightarrow> StringDictionary \<Rightarrow> unit ctx" where
  "example_ctx resource params =
     \<lparr>x_request = (HTTPMessage_init (Request (example_request resource params)))\<lparr>m_is_valid := True\<rparr>,
      x_conn = TCPConnection_init, x_world = ()\<rparr>"

lemma example_ctx_parts:
  "m_class (x_request (example_ctx resource params)) = Request (example_request resource params)"
  "m_is_valid (x_request (example_ctx resource params))" "tc_open (x_conn (example_ctx resource params))"
  "(example_ctx resource params)\<lparr>x_world := ()\<rparr> = example_ctx resource params"
  "m_query_params (example_request resource params) = params" "m_resource (example_request resource params) = resource"
  by (simp_all add: example_ctx_def example_request_def HTTPMessage_init_def TCPConnection_init_def)

text \<open>A library whose statements are their text and the values of their parameters, and which finds nothing.\<close>

definition recording_sqlite :: "(unit, string \<times> (nat \<Rightarrow> string option)) sqlite_lib" where
  "recording_sqlite =
     \<lparr>sqlite3_open = \<lambda>_. (0, ()), sqlite3_exec = \<lambda>_ q. (SQLITE_OK, None, [], ()),
      sqlite3_prepare = \<lambda>_ q. (SQLITE_OK, (q, \<lambda>_. None)),
      sqlite3_bind_text = \<lambda>(q, b) i v. (SQLITE_OK, (q, b(i \<mapsto> v))),
      sqlite3_column_names = \<lambda>_. [], sqlite3_steps = \<lambda>_ _. ([], SQLITE_DONE)\<rparr>"

lemma recording_sqlite_binds: "binds_parameters recording_sqlite fst snd"
  by (auto simp: binds_parameters_def recording_sqlite_def)

lemma recording_sqlite_accepts: "fst (sqlite3_prepare recording_sqlite db q) = SQLITE_OK"
  "fst (sqlite3_bind_text recording_sqlite st i v) = SQLITE_OK"
  by (simp_all add: recording_sqlite_def split: prod.splits)

lemma bind_params_example: "bind_params (example_sqlite names rows) st i vs = (SQLITE_OK, st)"
  by (induction vs arbitrary: i) (simp_all add: example_sqlite_def)

lemma search_example: "names \<noteq> [] \<Longrightarrow> search (example_sqlite names rows) db stmt sp names rows"
  by (simp add: search_def bind_params_example) (simp add: example_sqlite_def)

lemma valid_rows_example: "valid_rows [''id''] [[Some ''1'']]" "valid_rows [''id''] [[Some ''1''], [None]]"
  by (simp_all add: valid_rows_def plain_name_def)

lemma movies_handler: "MoviesResourceHandler \<in> set handlers"
  by (simp add: handlers_def)

lemma example_list: "hasQuery ''list'' (example_request r [(''list'', [])])"
  by (simp add: hasQuery_def example_request_def dict_find_def equal_range_def)

lemma example_keys_differ: "\<not> CaseInsensitiveEqual ''list'' ''id''" "\<not> CaseInsensitiveEqual ''list'' ''view''"
  by code_simp+

lemma example_view:
  "\<not> hasQuery ''list'' (example_request r [(''view'', []), (''id'', ''1'')])"
  "hasQuery ''view'' (example_request r [(''view'', []), (''id'', ''1'')])"
  "sanitizeQueryParams MoviesResourceHandler (m_query_params (example_request r [(''view'', []), (''id'', ''1'')])) \<noteq> []"
  by (simp_all add: hasQuery_def example_request_def dict_find_def equal_range_def example_keys_differ sanitizeQueryParams_def MoviesResourceHandler_def
      movies_key_def)

section \<open>Properties\<close>

text \<open>C5: A search with the parameters of a request runs the select statement of the resource followed by one
  comparison for each recognised key, and by nothing else of the request: the columns are plain identifiers of the
  program, and requests with the same recognised keys run the same text. The statement is only run
  after the first value of the \<open>j\<close>-th key has been bound to the \<open>j\<close>-th question mark, for every \<open>j\<close>, and nothing else;
  when SQLite refuses to prepare it or to bind one of the values it is not run at all.\<close>

theorem search_statement_safe:
  assumes "sp = sanitizeQueryParams h dirty" "h \<in> set handlers" "sp \<noteq> []" "binds_parameters sq stmt_text bound"
  shows "((\<exists>stmt. execute sq (h_viewStatement h) f sp db s =
             bindE (run_statement sq db stmt f s) (\<lambda>(ok, s'). Inr (ok, None, s', db)) \<and>
           stmt_text stmt = h_viewStatement h @ '' WHERE '' @ comparisons (map fst sp) @ '';'' \<and>
           count_list (stmt_text stmt) (CHR ''?'') = length sp \<and>
           (\<forall>j. bound stmt j = (if 1 \<le> j \<and> j \<le> length sp then Some (snd (sp ! (j - 1))) else None))) \<or>
       (\<exists>ret. ret \<noteq> SQLITE_OK \<and> execute sq (h_viewStatement h) f sp db s = Inr (sqlite_ok ret, None, s, db) \<and>
           (fst (sqlite3_prepare sq db (h_viewStatement h @ '' WHERE '' @ comparisons (map fst sp) @ '';'')) = ret \<or>
            (\<exists>st j. j < length sp \<and> fst (sqlite3_bind_text sq st (j + 1) (snd (sp ! j))) = ret)))) \<and>
     (\<forall>col\<in>fst ` set sp. plain_identifier col) \<and>
     map_find col sp = map_of (accepted (h_sanitizedKey h) dirty) col \<and>
     (accepted_keys (h_sanitizedKey h) dirty = accepted_keys (h_sanitizedKey h) dirty' \<longrightarrow>
        comparisons (map fst sp) = comparisons (map fst (sanitizeQueryParams h dirty')))"
proof -
  have query: "h_viewStatement h \<noteq> []" using handlers_statements [OF assms(2)] by simp
  have marks: "count_list (h_viewStatement h @ '' WHERE '' @ comparisons (map fst sp) @ '';'') (CHR ''?'') = length sp"
    using search_marks [OF assms(2), of dirty] unfolding assms(1) whereClause_comparisons by simp
  have keys: "comparisons (map fst sp) = comparisons (map fst (sanitizeQueryParams h dirty'))"
    if "accepted_keys (h_sanitizedKey h) dirty = accepted_keys (h_sanitizedKey h) dirty'"
    using search_text_keys [OF that] unfolding assms(1) whereClause_comparisons by simp
  from execute_binds [OF assms(4) query assms(3), of f db s, unfolded whereClause_comparisons] marks
  have run: "(\<exists>stmt. execute sq (h_viewStatement h) f sp db s =
             bindE (run_statement sq db stmt f s) (\<lambda>(ok, s'). Inr (ok, None, s', db)) \<and>
           stmt_text stmt = h_viewStatement h @ '' WHERE '' @ comparisons (map fst sp) @ '';'' \<and>
           count_list (stmt_text stmt) (CHR ''?'') = length sp \<and>
           (\<forall>j. bound stmt j = (if 1 \<le> j \<and> j \<le> length sp then Some (snd (sp ! (j - 1))) else None))) \<or>
       (\<exists>ret. ret \<noteq> SQLITE_OK \<and> execute sq (h_viewStatement h) f sp db s = Inr (sqlite_ok ret, None, s, db) \<and>
           (fst (sqlite3_prepare sq db (h_viewStatement h @ '' WHERE '' @ comparisons (map fst sp) @ '';'')) = ret \<or>
            (\<exists>st j. j < length sp \<and> fst (sqlite3_bind_text sq st (j + 1) (snd (sp ! j))) = ret)))"
    by (elim disjE exE conjE) auto
  then show ?thesis
    using sanitized_plain [OF assms(2)] sanitize_props(2) keys unfolding assms(1) by blast
qed

lemma search_statement_safe_witness:
  "\<exists>stmt. execute recording_sqlite (h_viewStatement MoviesResourceHandler) (Some Lister_callback)
       [(''movie_id'', ''7''), (''movie_name'', ''x; drop table movies'')] () (Lister_init :: nat Lister) =
         bindE (run_statement recording_sqlite () stmt (Some Lister_callback) Lister_init) (\<lambda>(ok, s'). Inr (ok, None, s', ())) \<and>
     fst stmt = h_viewStatement MoviesResourceHandler @ '' WHERE movie_id = ? AND movie_name = ?;'' \<and>
     snd stmt 1 = Some ''7'' \<and> snd stmt 2 = Some ''x; drop table movies'' \<and> snd stmt 3 = None"
proof -
  have sp: "[(''movie_id'', ''7''), (''movie_name'', ''x; drop table movies'')] = sanitizeQueryParams MoviesResourceHandler
      [(''name'', ''x; drop table movies''), (''x'', ''y''), (''id'', ''7''), (''id'', ''8'')]"
    by (simp add: sanitizeQueryParams_def MoviesResourceHandler_def movies_key_def)
  have "MoviesResourceHandler \<in> set handlers" by (simp add: handlers_def)
  from conjunct1 [OF search_statement_safe [OF sp this _ recording_sqlite_binds, of "Some Lister_callback" "()" "Lister_init :: nat Lister"
      "[]" "[]"]] recording_sqlite_accepts
  obtain stmt where stmt: "execute recording_sqlite (h_viewStatement MoviesResourceHandler) (Some Lister_callback)
       [(''movie_id'', ''7''), (''movie_name'', ''x; drop table movies'')] () (Lister_init :: nat Lister) =
         bindE (run_statement recording_sqlite () stmt (Some Lister_callback) Lister_init) (\<lambda>(ok, s'). Inr (ok, None, s', ()))"
    "fst stmt = h_viewStatement MoviesResourceHandler @ '' WHERE '' @
       comparisons (map fst [(''movie_id'', ''7''), (''movie_name'', ''x; drop table movies'')]) @ '';''"
    "\<forall>j. snd stmt j = (if 1 \<le> j \<and> j \<le> length [(''movie_id'', ''7''), (''movie_name'', ''x; drop table movies'')]
       then Some (snd ([(''movie_id'', ''7''), (''movie_name'', ''x; drop table movies'')] ! (j - 1))) else None)" by auto
  then show ?thesis by (intro exI [of _ stmt]) simp
qed

text \<open>C4: A list request is answered with one write: status 200, and a body from which the JSON reader reads
  back the rows of the table, in their order and with their columns, and a null error.\<close>

theorem list_returns_rows:
  assumes "h \<in> set handlers" "m_class (x_request c) = Request r" "hasQuery ''list'' r" "tc_open (x_conn c)"
    and "sqlite3_exec sq (x_world c) (h_listStatement h) = (SQLITE_OK, None, map (\<lambda>r. (map Some names, r)) rows, db)"
    and "valid_rows names rows"
  shows "\<exists>body c'. handle (shw :: 'n::zero \<Rightarrow> string) lib sq h c = (Inr (), c') \<and>
     answered lib RESPONSE_CODE_OK RESPONSE_MESSAGE_OK body (c\<lparr>x_world := db\<rparr>) c' \<and>
     Read_object (rd :: string \<Rightarrow> 'n \<times> bool \<times> int) [] body = Some (Inr (rows_doc names rows))"
proof -
  have "exec_rows (Some Lister_callback) 0 (map (\<lambda>r. (map Some names, r)) rows) (Lister_init :: 'n Lister) =
      Inr (Lister_init\<lparr>l_content := map (row_object names) rows\<rparr>)"
    using assms(6) by (simp add: exec_rows_list valid_rows_def Lister_init_def)
  then have "execute sq (h_listStatement h) (Some Lister_callback) [] (x_world c) (Lister_init :: 'n Lister) =
      Inr (True, None, Lister_init\<lparr>l_content := map (row_object names) rows\<rparr>, db)"
    using handlers_statements [OF assms(1)] assms(5) by (simp add: execute_def sqlite_ok_def)
  from query_and_answer_rows [OF this _ assms(4,6), of shw lib] handle_list [OF assms(1-3), of shw lib sq] assms(2)
  have "\<exists>c'. handle shw lib sq h c = (Inr (), c') \<and>
      answered lib RESPONSE_CODE_OK RESPONSE_MESSAGE_OK (Write shw (JObject (rows_doc names rows))) (c\<lparr>x_world := db\<rparr>) c'"
    by (simp add: is_request_def)
  with Read_object_Write [OF rows_doc_ok(1,2) [OF assms(6)]] show ?thesis by blast
qed

lemma list_returns_rows_witness:
  "\<exists>body c'. handle example_shw writer_example_lib (example_sqlite [''id''] [[Some ''1'']]) MoviesResourceHandler
       (example_ctx ''/movies'' [(''list'', [])]) = (Inr (), c') \<and>
     answered writer_example_lib RESPONSE_CODE_OK RESPONSE_MESSAGE_OK body (example_ctx ''/movies'' [(''list'', [])]) c' \<and>
     Read_object example_rd [] body =
       Some (Inr [(''content'', JArray [JObject [(''id'', JString ''1'')]]), (''error'', JNull)])"
proof -
  define c where "c = example_ctx ''/movies'' [(''list'', [])]"
  have "sqlite3_exec (example_sqlite [''id''] [[Some ''1'']]) (x_world c) (h_listStatement MoviesResourceHandler) =
      (SQLITE_OK, None, map (\<lambda>r. (map Some [''id''], r)) [[Some ''1'']], ())"
    by (simp add: example_sqlite_def MoviesResourceHandler_def movies_view_def)
  from list_returns_rows [OF movies_handler _ example_list _ this valid_rows_example(1), of "''/movies''" example_shw writer_example_lib example_rd]
  show ?thesis unfolding c_def by (simp add: example_ctx_parts rows_doc_def row_object_def cell_def)
qed

text \<open>C30: A search that finds at most one row is answered with a body from which the JSON reader reads back
  that row, or no row.\<close>

theorem view_returns_row:
  assumes "h \<in> set handlers" "m_class (x_request c) = Request r" "\<not> hasQuery ''list'' r" "hasQuery ''view'' r"
    and "tc_open (x_conn c)" "sanitizeQueryParams h (m_query_params r) \<noteq> []"
    and "search sq (x_world c) (h_viewStatement h) (sanitizeQueryParams h (m_query_params r)) names rows"
    and "valid_rows names rows" "length rows \<le> 1"
  shows "\<exists>body c'. handle (shw :: 'n::zero \<Rightarrow> string) lib sq h c = (Inr (), c') \<and>
     answered lib RESPONSE_CODE_OK RESPONSE_MESSAGE_OK body c c' \<and>
     Read_object (rd :: string \<Rightarrow> 'n \<times> bool \<times> int) [] body = Some (Inr (rows_doc names rows))"
proof -
  have "step_rows (Some Lister_callback) (map Some names) 0 [] rows (Lister_init :: 'n Lister) =
      Inr (Lister_init\<lparr>l_content := map (row_object names) rows\<rparr>)"
  proof (cases rows)
    case (Cons x xs)
    with assms(8,9) have "rows = [x]" "distinct names" "length x = length names" by (auto simp: valid_rows_def)
    then show ?thesis by (simp only: step_rows_single) (simp add: Lister_init_def)
  qed (simp add: Lister_init_def)
  then have "execute sq (h_viewStatement h) (Some Lister_callback) (sanitizeQueryParams h (m_query_params r)) (x_world c)
        (Lister_init :: 'n Lister) =
      Inr (True, None, Lister_init\<lparr>l_content := map (row_object names) rows\<rparr>, x_world c)"
    unfolding execute_search [OF assms(7) conjunct2 [OF handlers_statements [OF assms(1)]] assms(6)] by simp
  from query_and_answer_rows [OF this _ assms(5,8), of shw lib] handle_view [OF assms(1-4), of shw lib sq] assms(2,6)
  have "\<exists>c'. handle shw lib sq h c = (Inr (), c') \<and>
      answered lib RESPONSE_CODE_OK RESPONSE_MESSAGE_OK (Write shw (JObject (rows_doc names rows))) c c'"
    by (simp add: is_request_def)
  with Read_object_Write [OF rows_doc_ok(1,2) [OF assms(8)]] show ?thesis by blast
qed

lemma view_returns_row_witness:
  "\<exists>body c'. handle example_shw writer_example_lib (example_sqlite [''id''] [[Some ''1'']]) MoviesResourceHandler
       (example_ctx ''/movies'' [(''view'', []), (''id'', ''1'')]) = (Inr (), c') \<and>
     answered writer_example_lib RESPONSE_CODE_OK RESPONSE_MESSAGE_OK body
       (example_ctx ''/movies'' [(''view'', []), (''id'', ''1'')]) c' \<and>
     Read_object example_rd [] body =
       Some (Inr [(''content'', JArray [JObject [(''id'', JString ''1'')]]), (''error'', JNull)])"
  using view_returns_row [OF movies_handler example_ctx_parts(1) example_view(1,2) example_ctx_parts(3) example_view(3)
      search_example valid_rows_example(1), where shw = example_shw and lib = writer_example_lib and rd = example_rd]
  by (simp add: rows_doc_def row_object_def cell_def)

text \<open>A search that finds a second row after a first one with a text in it reads that text through a
  pointer SQLite has invalidated by the step to the second row: the vector of column values is not
  cleared between the rows, so that its first entries stay those of the first row.\<close>

theorem view_second_row_dangling:
  assumes "h \<in> set handlers" "m_class (x_request c) = Request r" "\<not> hasQuery ''list'' r" "hasQuery ''view'' r"
    and "sanitizeQueryParams h (m_query_params r) \<noteq> []"
    and "search sq (x_world c) (h_viewStatement h) (sanitizeQueryParams h (m_query_params r)) names (row1 # row2 # rows)"
    and "valid_rows names (row1 # row2 # rows)" "Some s \<in> set row1"
  shows "handle (shw :: 'n \<Rightarrow> string) lib sq h c = (Inl (Abort Dangling_pointer), c)"
proof -
  have "step_rows (Some Lister_callback) (map Some names) 0 [] (row1 # row2 # rows) (Lister_init :: 'n Lister) =
      Inl (Abort Dangling_pointer)"
    using assms(7,8) by (intro step_rows_dangling [of names row1 s]) (auto simp: valid_rows_def)
  then have "execute sq (h_viewStatement h) (Some Lister_callback) (sanitizeQueryParams h (m_query_params r)) (x_world c)
        (Lister_init :: 'n Lister) = Inl (Abort Dangling_pointer)"
    unfolding execute_search [OF assms(6) conjunct2 [OF handlers_statements [OF assms(1)]] assms(5)]
    by (simp del: step_rows.simps)
  then show ?thesis unfolding handle_view [OF assms(1-4)] using assms(5) by (simp add: query_and_answer_def)
qed

lemma view_second_row_dangling_witness:
  "handle example_shw writer_example_lib (example_sqlite [''id''] [[Some ''1''], [None]]) MoviesResourceHandler
     (example_ctx ''/movies'' [(''view'', []), (''id'', ''1'')]) =
   (Inl (Abort Dangling_pointer), example_ctx ''/movies'' [(''view'', []), (''id'', ''1'')])"
  using view_second_row_dangling [OF movies_handler example_ctx_parts(1) example_view search_example valid_rows_example(2),
      of "''1''"] by simp

text \<open>A list request whose statement SQLite refuses gets no answer: the handler returns, nothing is
  written to the connection and it is not finished.\<close>

theorem failed_list_unanswered:
  assumes "h \<in> set handlers" "m_class (x_request c) = Request r" "hasQuery ''list'' r"
    and "sqlite3_exec sq (x_world c) (h_listStatement h) = (ret, msg, [], db)" "\<not> sqlite_ok ret"
  shows "handle (shw :: 'n \<Rightarrow> string) lib sq h c = (Inr (), c\<lparr>x_world := db\<rparr>)"
proof -
  have "execute sq (h_listStatement h) (Some Lister_callback) [] (x_world c) (Lister_init :: 'n Lister) =
      Inr (False, msg, Lister_init, db)"
    using handlers_statements [OF assms(1)] assms(4,5) by (simp add: execute_def)
  then show ?thesis unfolding handle_list [OF assms(1-3)] by (rule query_and_answer_failed)
qed

lemma failed_list_unanswered_witness:
  "handle example_shw writer_example_lib failing_sqlite MoviesResourceHandler (example_ctx ''/movies'' [(''list'', [])]) =
     (Inr (), example_ctx ''/movies'' [(''list'', [])])"
  using failed_list_unanswered [OF movies_handler example_ctx_parts(1) example_list, of failing_sqlite "''/movies''"
      1 "Some ''SQL logic error''" "()" example_shw writer_example_lib]
  by (simp add: failing_sqlite_def sqlite_ok_def)

text \<open>C12: A valid request goes to the handler of the resource that covers its path, and only \<open>/movies\<close> or a
  path below it goes to the movies; when no resource covers the path, the request gets no answer at
  all, because the server's own not-found page is replaced by a handler that only logs.\<close>

theorem frontend_dispatch:
  assumes "m_class (x_request c) = Request r" "m_is_valid (x_request c)"
  shows "((k, h) \<in> set frontend_routes \<and> covers k (stripTrailingSlash (m_resource r)) \<longrightarrow>
        handleRequest (frontend shw lib sq) c = call_handler (frontend shw lib sq) (handle shw lib sq h) c) \<and>
     ((\<forall>e\<in>set frontend_routes. \<not> covers (fst e) (stripTrailingSlash (m_resource r))) \<longrightarrow>
        handleRequest (frontend shw lib sq) c = (Inr (), c))"
  using find_route [of k h "stripTrailingSlash (m_resource r)" "handle shw lib sq"]
    find_no_route [of "stripTrailingSlash (m_resource r)" "handle shw lib sq"] handleRequest_frontend [OF assms, of shw lib sq]
  by (simp add: dispatch_def authorized_def frontend_parts frontend_resources bindA_def returnA_def handleNotFound_def)

lemma frontend_dispatch_witness:
  "handleRequest (frontend example_shw writer_example_lib failing_sqlite) (example_ctx ''/moviesources/'' []) =
     call_handler (frontend example_shw writer_example_lib failing_sqlite)
       (handle example_shw writer_example_lib failing_sqlite MovieSourcesResourceHandler) (example_ctx ''/moviesources/'' []) \<and>
   handleRequest (frontend example_shw writer_example_lib failing_sqlite) (example_ctx ''/movies2'' []) =
     (Inr (), example_ctx ''/movies2'' [])"
proof
  have "(''/moviesources'', MovieSourcesResourceHandler) \<in> set frontend_routes"
    "covers ''/moviesources'' (stripTrailingSlash (m_resource (example_request ''/moviesources/'' [])))"
    by (simp_all add: frontend_routes_def covers_def stripTrailingSlash_def example_ctx_parts)
  with frontend_dispatch [OF example_ctx_parts(1,2)]
  show "handleRequest (frontend example_shw writer_example_lib failing_sqlite) (example_ctx ''/moviesources/'' []) =
     call_handler (frontend example_shw writer_example_lib failing_sqlite)
       (handle example_shw writer_example_lib failing_sqlite MovieSourcesResourceHandler) (example_ctx ''/moviesources/'' [])"
    by blast
  have "\<forall>e\<in>set frontend_routes. \<not> covers (fst e) (stripTrailingSlash (m_resource (example_request ''/movies2'' [])))"
    by (simp add: frontend_routes_def covers_def stripTrailingSlash_def example_ctx_parts)
  with frontend_dispatch [OF example_ctx_parts(1,2)]
  show "handleRequest (frontend example_shw writer_example_lib failing_sqlite) (example_ctx ''/movies2'' []) =
     (Inr (), example_ctx ''/movies2'' [])" by blast
qed

text \<open>What the constructor of the server does to the database.\<close>

lemma FrontendServer_starts:
  assumes "\<And>h s. h \<in> set handlers \<Longrightarrow> s \<in> set (h_createStatement h # h_testData h) \<Longrightarrow> no_rows sq s"
    and "\<And>h db. h \<in> set handlers \<Longrightarrow> sqlite_ok (fst (sqlite3_exec sq db (h_createStatement h)))"
  shows "FrontendServer shw lib sq =
     (if fst (sqlite3_open sq DB_CACHE) \<noteq> 0 then Inl (Exited 1)
      else Inr (frontend shw lib sq, foldl (after sq) (snd (sqlite3_open sq DB_CACHE))
             (map h_createStatement handlers @ concat (map h_testData handlers))))"
proof -
  have create: "construct_handler sq h db = Inr (after sq db (h_createStatement h))" if "h \<in> set handlers" for h db
    using execute_plain [of "h_createStatement h" sq "None :: unit callback option" db "()"] assms that
      statements_not_empty [OF that] by (auto simp: construct_handler_def)
  have init: "initTestData sq h db = Inr (foldl (after sq) db (h_testData h))" if "h \<in> set handlers" for h db
    unfolding initTestData_def using assms(1) [OF that] statements_not_empty [OF that] by (intro run_statements_all) auto
  have "for_each (construct_handler sq) handlers db = Inr (foldl (after sq) db (map h_createStatement handlers))" for db
    by (simp add: for_each_Inr [OF create] foldl_map)
  moreover have "for_each (initTestData sq) handlers db = Inr (foldl (after sq) db (concat (map h_testData handlers)))" for db
    by (simp add: for_each_Inr [OF init] foldl_foldl)
  ultimately show ?thesis by (simp add: FrontendServer_def open_cache_def SQLiteDB_def split: prod.splits)
qed

end
