(* ===== verification/Program.thy ===== *)
theory Program
  imports Backend_Properties Tcp_Server
begin

text \<open>
  The program itself: \<open>Backend/src/main.cpp\<close>, \<open>Backend/include/Options.h\<close> and \<open>run\<close> of \<open>FrontendServer.cpp\<close>,
  from the command line to a server that listens.
\<close>

section \<open>The program\<close>

record Options =
  port :: nat

definition DEFAULT_PORT :: nat where "DEFAULT_PORT = 5555"

text \<open>What \<open>boost::program_options\<close> makes of the command line is a parameter: an exception, or whether help was
  asked for and the value of the port, if there is one.\<close>

definition getOptionsFromCommandLine :: "string + (bool \<times> nat option) \<Rightarrow> startup_failure + Options" where
  "getOptionsFromCommandLine parsed =
     (case parsed of
        Inl e \<Rightarrow> Inl (Uncaught (Std_exception e))
      | Inr (help, p) \<Rightarrow>
          if help then Inl (Exited 1) else Inr \<lparr>port = (case p of None \<Rightarrow> DEFAULT_PORT | Some n \<Rightarrow> n)\<rparr>)"

text \<open>\<open>run\<close> of the frontend server up to the wait for the server to stop. The one thread that has the server starts it.\<close>

definition run :: "acceptor_result \<Rightarrow> 'w TCPServer \<Rightarrow> bool \<times> 'w TCPServer" where
  "run acc s = (if \<not> ts_is_listening s then start_alone acc s else (True, s))"

datatype 'db program =
    Running "'db HTTPServer" "'db TCPServer"
  | Ended startup_failure
  | Returned

definition startServices :: "('n \<Rightarrow> string) \<Rightarrow> boost_lib \<Rightarrow> ('db, 'stmt) sqlite_lib \<Rightarrow> acceptor_result \<Rightarrow> Options \<Rightarrow> 'db program" where
  "startServices shw lib sq acc opts =
     (case FrontendServer shw lib sq of
        Inl (Exited n) \<Rightarrow> Ended (Exited n)
      | Inl (Uncaught (Abort e)) \<Rightarrow> Ended (Uncaught (Abort e))
      | Inl (Uncaught e) \<Rightarrow> Returned
      | Inr (h, db) \<Rightarrow> (case run acc (TCPServer_init (port opts) db) of (ok, s) \<Rightarrow> if ok then Running h s else Returned))"

definition main_program :: "('n \<Rightarrow> string) \<Rightarrow> boost_lib \<Rightarrow> ('db, 'stmt) sqlite_lib \<Rightarrow> acceptor_result
    \<Rightarrow> string + (bool \<times> nat option) \<Rightarrow> 'db program" where
  "main_program shw lib sq acc parsed =
     (case getOptionsFromCommandLine parsed of
        Inl failure \<Rightarrow> Ended failure
      | Inr opts \<Rightarrow> startServices shw lib sq acc opts)"

section \<open>Starting\<close>

text \<open>C39: When SQLite opens the cache and accepts the statements, the program started with a port creates the
  five tables in order, runs all test insertions and then listens, on the port modulo 65536, with no
  connection yet; if the acceptor cannot be set up, or the help is asked for, it does not serve.\<close>

theorem program_starts:
  assumes "\<And>h s. h \<in> set handlers \<Longrightarrow> s \<in> set (h_createStatement h # h_testData h) \<Longrightarrow> no_rows sq s"
    and "\<And>h db. h \<in> set handlers \<Longrightarrow> sqlite_ok (fst (sqlite3_exec sq db (h_createStatement h)))"
    and "fst (sqlite3_open sq DB_CACHE) = 0"
  shows "(\<exists>s. main_program shw lib sq (Bound p) (Inr (False, Some n)) = Running (frontend shw lib sq) s \<and>
       ts_is_listening s \<and> getConnections s = 0 \<and> ts_port s = (if n mod 2 ^ 16 = 0 then p else of_nat n) \<and>
       ts_world s = foldl (after sq) (snd (sqlite3_open sq DB_CACHE))
         (map h_createStatement handlers @ concat (map h_testData handlers))) \<and>
     main_program shw lib sq Setup_failed (Inr (False, Some n)) = Returned \<and>
     main_program shw lib sq acc (Inr (True, Some n)) = Ended (Exited 1)"
proof -
  have zero: "(of_nat n :: 16 word) = 0 \<longleftrightarrow> n mod 2 ^ 16 = 0"
    by (simp add: word_of_nat_eq_0_iff mod_eq_0_iff_dvd)
  define db where "db = foldl (after sq) (snd (sqlite3_open sq DB_CACHE))
      (map h_createStatement handlers @ concat (map h_testData handlers))"
  have fs: "FrontendServer shw lib sq = Inr (frontend shw lib sq, db)"
    unfolding db_def by (subst FrontendServer_starts) (use assms in simp_all)
  define s where "s = snd (start_alone (Bound p) (TCPServer_init n db))"
  note start_defs = start_alone_def start_def start_listen_def start_add_def TCPServer_init_def listen_def pruneConnections_def put_connection_def
  have "main_program shw lib sq (Bound p) (Inr (False, Some n)) = Running (frontend shw lib sq) s"
    by (simp add: main_program_def getOptionsFromCommandLine_def startServices_def fs run_def s_def start_defs Let_def)
  moreover have "ts_is_listening s" "getConnections s = 0" "ts_port s = (if n mod 2 ^ 16 = 0 then p else of_nat n)" "ts_world s = db"
    using zero by (simp_all add: s_def start_defs getConnections_def conn_pool_def Let_def)
  moreover have "main_program shw lib sq Setup_failed (Inr (False, Some n)) = Returned"
    by (simp add: main_program_def getOptionsFromCommandLine_def startServices_def fs run_def start_defs)
  moreover have "main_program shw lib sq acc (Inr (True, Some n)) = Ended (Exited 1)"
    by (simp add: main_program_def getOptionsFromCommandLine_def)
  ultimately show ?thesis unfolding db_def by blast
qed

lemma program_starts_witness:
  "\<exists>s. main_program example_shw writer_example_lib (example_sqlite [] []) (Bound 7) (Inr (False, Some 70000)) =
     Running (frontend example_shw writer_example_lib (example_sqlite [] [])) s \<and> ts_port s = 4464"
proof -
  have "fst (sqlite3_open (example_sqlite [] []) DB_CACHE) = 0" by (simp add: example_sqlite_def)
  moreover have "no_rows (example_sqlite [] []) s" "sqlite_ok (fst (sqlite3_exec (example_sqlite [] []) db s))" for s db
    by (simp_all add: no_rows_def sqlite_ok_def example_sqlite_def)
  ultimately obtain s where s: "main_program example_shw writer_example_lib (example_sqlite [] []) (Bound 7) (Inr (False, Some 70000)) =
       Running (frontend example_shw writer_example_lib (example_sqlite [] [])) s" "ts_port s = of_nat 70000"
    using program_starts [of "example_sqlite [] []" example_shw writer_example_lib 7 70000 Open_failed] by auto
  have "(of_nat 70000 :: 16 word) = 4464" by simp
  with s show ?thesis by auto
qed

end
