(* ===== verification/Interleaving.thy ===== *)
theory Interleaving
  imports Prelude
begin

text \<open>
  Threads that share an object, for the concurrent queues: a run of a schedule, in which every action is one atomic
  step of one thread (an action that is not enabled has no effect, so every list of actions is a schedule),
  and the interface between a model of that kind and the sequential object it implements.  A model
  satisfies the interface \<open>linearizable\<close> when every enabled step keeps a relation to a state of the
  sequential object, does not fault, and emits the events of the sequential object that it performs.
\<close>

section \<open>Schedules\<close>

fun run_schedule :: "('act \<Rightarrow> 's \<Rightarrow> (fault + 's \<times> 'e list) option) \<Rightarrow> 'act list \<Rightarrow> 's \<Rightarrow> fault + 's \<times> 'e list" where
  "run_schedule st [] s = Inr (s, [])"
| "run_schedule st (act # acts) s = (case st act s of
     None \<Rightarrow> run_schedule st acts s
   | Some (Inl f) \<Rightarrow> Inl f
   | Some (Inr (s', es)) \<Rightarrow> bindE (run_schedule st acts s') (\<lambda>(s'', es'). Inr (s'', es @ es')))"

fun run_spec :: "('e \<Rightarrow> 'q \<Rightarrow> 'q option) \<Rightarrow> 'e list \<Rightarrow> 'q \<Rightarrow> 'q option" where
  "run_spec sp [] q = Some q"
| "run_spec sp (e # es) q = (case sp e q of None \<Rightarrow> None | Some q' \<Rightarrow> run_spec sp es q')"

lemma run_spec_append:
  "run_spec sp (es @ es') q = (case run_spec sp es q of None \<Rightarrow> None | Some q' \<Rightarrow> run_spec sp es' q')"
  by (induction es arbitrary: q) (auto split: option.split)

lemma run_schedule_append:
  "run_schedule st (as @ bs) s
    = bindE (run_schedule st as s) (\<lambda>(s', es). bindE (run_schedule st bs s') (\<lambda>(s'', es'). Inr (s'', es @ es')))"
proof (induction as arbitrary: s)
  case Nil
  then show ?case by (cases "run_schedule st bs s") auto
next
  case (Cons a as)
  show ?case
  proof (cases "st a s")
    case None
    then show ?thesis using Cons.IH by simp
  next
    case (Some r)
    show ?thesis
    proof (cases r)
      case (Inl f)
      then show ?thesis using Some by simp
    next
      case (Inr p)
      then show ?thesis using Some Cons.IH [of "fst p"]
        by (cases "run_schedule st as (fst p)"; cases p) (auto simp: bindE_def split: sum.split)
    qed
  qed
qed

section \<open>The interface of a sequential object and its concurrent model\<close>

text \<open>In general the relation may hold for a bounded number of steps only, as when a tag has not yet been used up.\<close>

locale counted_linearizable =
  fixes st :: "'act \<Rightarrow> 's \<Rightarrow> (fault + 's \<times> 'e list) option"
    and allowed :: "'act \<Rightarrow> bool"
    and sp :: "'e \<Rightarrow> 'q \<Rightarrow> 'q option"
    and rel :: "nat \<Rightarrow> 's \<Rightarrow> 'q \<Rightarrow> bool"
  assumes counted_simulation: "rel (Suc n) s q \<Longrightarrow> allowed act \<Longrightarrow> st act s = Some r
      \<Longrightarrow> \<exists>s' es q'. r = Inr (s', es) \<and> run_spec sp es q = Some q' \<and> rel n s' q'"
    and spare: "rel (Suc n) s q \<Longrightarrow> rel n s q"
begin

lemma counted_runs:
  assumes "rel (length acts) s q" and "list_all allowed acts"
  shows "\<exists>s' es q'. run_schedule st acts s = Inr (s', es) \<and> run_spec sp es q = Some q' \<and> rel 0 s' q'"
  using assms
proof (induction acts arbitrary: s q)
  case Nil
  then show ?case by simp
next
  case (Cons act acts)
  show ?case
  proof (cases "st act s")
    case None
    then show ?thesis using Cons spare by simp
  next
    case (Some r)
    from counted_simulation [OF _ _ Some] Cons.prems
    obtain s1 es1 q1 where 1: "r = Inr (s1, es1)" "run_spec sp es1 q = Some q1" "rel (length acts) s1 q1" by fastforce
    from Cons.IH [OF 1(3)] Cons.prems(2)
    obtain s2 es2 q2 where 2: "run_schedule st acts s1 = Inr (s2, es2)" "run_spec sp es2 q1 = Some q2" "rel 0 s2 q2"
      by auto
    show ?thesis using Some 1 2 by (simp add: run_spec_append)
  qed
qed

end

locale linearizable =
  fixes st :: "'act \<Rightarrow> 's \<Rightarrow> (fault + 's \<times> 'e list) option"
    and allowed :: "'act \<Rightarrow> bool"
    and sp :: "'e \<Rightarrow> 'q \<Rightarrow> 'q option"
    and rel :: "'s \<Rightarrow> 'q \<Rightarrow> bool"
  assumes simulation: "rel s q \<Longrightarrow> allowed act \<Longrightarrow> st act s = Some r
      \<Longrightarrow> \<exists>s' es q'. r = Inr (s', es) \<and> run_spec sp es q = Some q' \<and> rel s' q'"

sublocale linearizable \<subseteq> counted: counted_linearizable st allowed sp "\<lambda>_. rel"
  by unfold_locales (use simulation in blast)

context linearizable begin

lemma runs:
  assumes "rel s q" and "list_all allowed acts"
  shows "\<exists>s' es q'. run_schedule st acts s = Inr (s', es) \<and> run_spec sp es q = Some q' \<and> rel s' q'"
  using counted.counted_runs assms by blast

lemma no_fault: "rel s q \<Longrightarrow> list_all allowed acts \<Longrightarrow> run_schedule st acts s \<noteq> Inl f"
  using runs by fastforce

end

end
