(* ===== verification/Locked_Queue.thy ===== *)
theory Locked_Queue
  imports Interleaving
begin

text \<open>
  The two-lock queue of \<open>PionLockedQueue.hpp\<close>: its nodes in a heap (an address that is not in the map is
  not allocated), its pointers, versions, locks and counter, the list of idle consumer threads, and
  every operation as the sequence of accesses to shared memory the code makes, one step per access (an access
  under a lock that no other thread can observe is one step with its neighbours).  The address that \<open>new\<close>
  returns is chosen by the schedule.  A condition variable is the fact that its thread sleeps on it:
  \<open>wait\<close> sleeps and releases the lock, \<open>notify_one\<close> wakes the thread, and a wake-up without notification
  is an action of the schedule.  Then the sequential FIFO queue the class promises.
\<close>

section \<open>The data\<close>

record 'a QueueNode =
  node_data :: 'a
  node_next :: "nat option"
  node_version :: "32 word"

record ConsumerThread =
  m_is_running :: bool
  m_wakeup_event :: bool
  m_next_ptr :: "nat option"

definition ConsumerThread_init :: ConsumerThread where
  "ConsumerThread_init = \<lparr>m_is_running = True, m_wakeup_event = False, m_next_ptr = None\<rparr>"

record 'a PionLockedQueue =
  lq_nodes :: "nat \<Rightarrow> 'a QueueNode option"
  lq_head_mutex :: "nat option"
  lq_tail_mutex :: "nat option"
  lq_head_ptr :: nat
  lq_tail_ptr :: nat
  lq_idle_ptr :: "nat option"
  lq_next_version :: "32 word"
  lq_size :: "64 word"
  lq_consumers :: "nat \<Rightarrow> ConsumerThread"

text \<open>The dummy node's data is what \<open>QueueNode()\<close> leaves in it.\<close>

definition PionLockedQueue_init :: "nat \<Rightarrow> 'a \<Rightarrow> 'a PionLockedQueue" where
  "PionLockedQueue_init a junk = \<lparr>lq_nodes = [a \<mapsto> \<lparr>node_data = junk, node_next = None, node_version = 0\<rparr>],
     lq_head_mutex = None, lq_tail_mutex = None, lq_head_ptr = a, lq_tail_ptr = a, lq_idle_ptr = None,
     lq_next_version = 1, lq_size = 0, lq_consumers = (\<lambda>_. ConsumerThread_init)\<rparr>"

datatype 'a queue_op = Push 'a | Pop | Pop_wait | Clear | Size | Empty | Stop nat | Reset nat | Destroy

datatype 'a queue_result = Unit | Item 'a | Nothing | Number nat | Flag bool

datatype 'a queue_event =
    Call nat "'a queue_op" | Enq nat 'a | Deq nat 'a | Saw_empty nat
  | Drop nat 'a | Cleared nat | Set_running nat nat bool | Local nat "'a queue_result" | Ret nat "'a queue_result"

text \<open>Where a thread is in an operation.  The flag of the dequeue is set inside \<open>pop(T&, ConsumerThread&)\<close>,
  the one of clear inside the destructor.\<close>

datatype 'a queue_pc =
    Ready
  | Push_wait 'a | Push_create 'a | Push_lock 'a nat | Push_version 'a nat | Push_link 'a nat
  | Push_swing 'a nat | Push_count 'a | Push_wake 'a
  | Deq_lock bool | Deq_read bool | Deq_empty bool | Deq_copy bool nat | Deq_advance bool 'a nat
  | Deq_free 'a nat | Deq_count 'a
  | Wait_run | Wait_lock "32 word" | Wait_check "32 word" | Waiting
  | Clear_tail bool | Clear_head bool | Clear_loop bool | Destroy_node
  | Size_read | Empty_read | Empty_next nat
  | Stop_flag nat | Stop_notify nat | Reset_flag nat | Reset_next nat

datatype 'a outcome = Blocked | Fault fault | Stepped "'a PionLockedQueue" "'a queue_pc" "'a queue_event list"

section \<open>Memory\<close>

definition with_node :: "nat \<Rightarrow> 'a PionLockedQueue \<Rightarrow> ('a QueueNode \<Rightarrow> 'a outcome) \<Rightarrow> 'a outcome" where
  "with_node a q k = (case lq_nodes q a of None \<Rightarrow> Fault Dangling_pointer | Some n \<Rightarrow> k n)"

definition write_node :: "nat \<Rightarrow> 'a QueueNode \<Rightarrow> 'a PionLockedQueue \<Rightarrow> 'a PionLockedQueue" where
  "write_node a n q = q\<lparr>lq_nodes := (lq_nodes q)(a \<mapsto> n)\<rparr>"

definition destroyNode :: "nat \<Rightarrow> 'a PionLockedQueue \<Rightarrow> 'a PionLockedQueue" where
  "destroyNode a q = q\<lparr>lq_nodes := (lq_nodes q)(a := None)\<rparr>"

definition update_consumer :: "nat \<Rightarrow> (ConsumerThread \<Rightarrow> ConsumerThread) \<Rightarrow> 'a PionLockedQueue \<Rightarrow> 'a PionLockedQueue" where
  "update_consumer c f q = q\<lparr>lq_consumers := (lq_consumers q)(c := f (lq_consumers q c))\<rparr>"

definition notify_one :: "nat \<Rightarrow> 'a PionLockedQueue \<Rightarrow> 'a PionLockedQueue" where
  "notify_one c = update_consumer c (m_wakeup_event_update (\<lambda>_. False))"

definition queue_size :: "'a PionLockedQueue \<Rightarrow> nat" where
  "queue_size q = unat (lq_size q)"

section \<open>push\<close>

definition wake_idle :: "'a PionLockedQueue \<Rightarrow> 'a PionLockedQueue" where
  "wake_idle q = (case lq_idle_ptr q of
     None \<Rightarrow> q
   | Some c \<Rightarrow> notify_one c (q\<lparr>lq_idle_ptr := m_next_ptr (lq_consumers q c)\<rparr>))"

fun push_step :: "nat \<Rightarrow> nat \<Rightarrow> nat \<Rightarrow> 'a queue_pc \<Rightarrow> 'a PionLockedQueue \<Rightarrow> 'a outcome" where
  "push_step MaxSize i a (Push_wait x) q =
     Stepped q (if 0 < MaxSize \<and> MaxSize \<le> queue_size q then Push_wait x else Push_create x) []"
| "push_step MaxSize i a (Push_create x) q =
     (if lq_nodes q a = None
      then Stepped (write_node a \<lparr>node_data = x, node_next = None, node_version = 0\<rparr> q) (Push_lock x a) []
      else Blocked)"
| "push_step MaxSize i a (Push_lock x p) q =
     (if lq_tail_mutex q = None then Stepped (q\<lparr>lq_tail_mutex := Some i\<rparr>) (Push_version x p) [] else Blocked)"
| "push_step MaxSize i a (Push_version x p) q =
     (let v = lq_next_version q + 2 in with_node p q (\<lambda>n.
        Stepped (write_node p (n\<lparr>node_version := v\<rparr>) (q\<lparr>lq_next_version := v\<rparr>)) (Push_link x p) []))"
| "push_step MaxSize i a (Push_link x p) q =
     with_node (lq_tail_ptr q) q (\<lambda>n.
        Stepped (write_node (lq_tail_ptr q) (n\<lparr>node_next := Some p\<rparr>) q) (Push_swing x p) [Enq i x])"
| "push_step MaxSize i a (Push_swing x p) q = Stepped (q\<lparr>lq_tail_ptr := p\<rparr>) (Push_count x) []"
| "push_step MaxSize i a (Push_count x) q = Stepped (q\<lparr>lq_size := lq_size q + 1\<rparr>) (Push_wake x) []"
| "push_step MaxSize i a (Push_wake x) q = Stepped ((wake_idle q)\<lparr>lq_tail_mutex := None\<rparr>) Ready [Ret i Unit]"
| "push_step MaxSize i a pc q = Blocked"

section \<open>pop\<close>

text \<open>When the list is empty, \<open>dequeue\<close> hands the version of the head to \<open>pop(T&, ConsumerThread&)\<close>;
  \<open>pop(T&)\<close> returns false.\<close>

fun dequeue :: "nat \<Rightarrow> 'a queue_pc \<Rightarrow> 'a PionLockedQueue \<Rightarrow> 'a outcome" where
  "dequeue i (Deq_lock w) q =
     (if lq_head_mutex q = None then Stepped (q\<lparr>lq_head_mutex := Some i\<rparr>) (Deq_read w) [] else Blocked)"
| "dequeue i (Deq_read w) q = with_node (lq_head_ptr q) q (\<lambda>n. case node_next n of
     None \<Rightarrow> Stepped q (Deq_empty w) (if w then [] else [Saw_empty i])
   | Some new_head_ptr \<Rightarrow> Stepped q (Deq_copy w new_head_ptr) [])"
| "dequeue i (Deq_empty w) q = with_node (lq_head_ptr q) q (\<lambda>n.
     Stepped (q\<lparr>lq_head_mutex := None\<rparr>) (if w then Wait_lock (node_version n) else Ready)
       (if w then [] else [Ret i Nothing]))"
| "dequeue i (Deq_copy w new_head_ptr) q = with_node new_head_ptr q (\<lambda>n.
     Stepped q (Deq_advance w (node_data n) new_head_ptr) [])"
| "dequeue i (Deq_advance w x new_head_ptr) q =
     Stepped (q\<lparr>lq_head_ptr := new_head_ptr, lq_head_mutex := None\<rparr>) (Deq_free x (lq_head_ptr q)) [Deq i x]"
| "dequeue i (Deq_free x old_head_ptr) q = with_node old_head_ptr q (\<lambda>n.
     Stepped (destroyNode old_head_ptr q) (Deq_count x) [])"
| "dequeue i (Deq_count x) q = Stepped (q\<lparr>lq_size := lq_size q - 1\<rparr>) Ready [Ret i (Item x)]"
| "dequeue i pc q = Blocked"

text \<open>Thread \<open>i\<close> passes its own \<open>ConsumerThread\<close> object, number \<open>i\<close>.  A thread that wakes up takes the
  lock again and releases it at the end of the loop's body.\<close>

fun pop_wait_step :: "nat \<Rightarrow> 'a queue_pc \<Rightarrow> 'a PionLockedQueue \<Rightarrow> 'a outcome" where
  "pop_wait_step i Wait_run q =
     (if m_is_running (lq_consumers q i) then Stepped q (Deq_lock True) []
      else Stepped q Ready [Local i Nothing, Ret i Nothing])"
| "pop_wait_step i (Wait_lock last_known_version) q =
     (if lq_tail_mutex q = None then Stepped (q\<lparr>lq_tail_mutex := Some i\<rparr>) (Wait_check last_known_version) []
      else Blocked)"
| "pop_wait_step i (Wait_check last_known_version) q = with_node (lq_tail_ptr q) q (\<lambda>n.
     if node_version n = last_known_version
     then Stepped ((update_consumer i (\<lambda>t. t\<lparr>m_next_ptr := lq_idle_ptr q, m_wakeup_event := True\<rparr>) q)
                     \<lparr>lq_idle_ptr := Some i, lq_tail_mutex := None\<rparr>) Waiting []
     else Stepped (q\<lparr>lq_tail_mutex := None\<rparr>) Wait_run [])"
| "pop_wait_step i Waiting q =
     (if m_wakeup_event (lq_consumers q i) \<or> lq_tail_mutex q \<noteq> None then Blocked else Stepped q Wait_run [])"
| "pop_wait_step i pc q = Blocked"

section \<open>The other operations\<close>

fun clear_step :: "nat \<Rightarrow> 'a queue_pc \<Rightarrow> 'a PionLockedQueue \<Rightarrow> 'a outcome" where
  "clear_step i (Clear_tail d) q =
     (if lq_tail_mutex q = None then Stepped (q\<lparr>lq_tail_mutex := Some i\<rparr>) (Clear_head d) [] else Blocked)"
| "clear_step i (Clear_head d) q =
     (if lq_head_mutex q = None then Stepped (q\<lparr>lq_head_mutex := Some i\<rparr>) (Clear_loop d) [] else Blocked)"
| "clear_step i (Clear_loop d) q = with_node (lq_head_ptr q) q (\<lambda>n. case node_next n of
     None \<Rightarrow> Stepped (q\<lparr>lq_tail_ptr := lq_head_ptr q, lq_head_mutex := None, lq_tail_mutex := None\<rparr>)
               (if d then Destroy_node else Ready) (if d then [] else [Cleared i, Ret i Unit])
   | Some p \<Rightarrow> with_node p q (\<lambda>m.
       Stepped (destroyNode (lq_head_ptr q)
                 (q\<lparr>lq_tail_ptr := lq_head_ptr q, lq_head_ptr := p, lq_size := lq_size q - 1\<rparr>))
               (Clear_loop d) [Drop i (node_data m)]))"
| "clear_step i Destroy_node q = with_node (lq_tail_ptr q) q (\<lambda>n.
     Stepped (destroyNode (lq_tail_ptr q) q) Ready [Cleared i, Ret i Unit])"
| "clear_step i pc q = Blocked"

fun query_step :: "nat \<Rightarrow> 'a queue_pc \<Rightarrow> 'a PionLockedQueue \<Rightarrow> 'a outcome" where
  "query_step i Size_read q =
     Stepped q Ready [Local i (Number (queue_size q)), Ret i (Number (queue_size q))]"
| "query_step i Empty_read q = Stepped q (Empty_next (lq_head_ptr q)) []"
| "query_step i (Empty_next p) q = with_node p q (\<lambda>n.
     Stepped q Ready [Local i (Flag (node_next n = None)), Ret i (Flag (node_next n = None))])"
| "query_step i pc q = Blocked"

fun consumer_step :: "nat \<Rightarrow> 'a queue_pc \<Rightarrow> 'a PionLockedQueue \<Rightarrow> 'a outcome" where
  "consumer_step i (Stop_flag c) q =
     Stepped (update_consumer c (m_is_running_update (\<lambda>_. False)) q) (Stop_notify c) [Set_running i c False]"
| "consumer_step i (Stop_notify c) q = Stepped (notify_one c q) Ready [Ret i Unit]"
| "consumer_step i (Reset_flag c) q =
     Stepped (update_consumer c (m_is_running_update (\<lambda>_. True)) q) (Reset_next c) [Set_running i c True]"
| "consumer_step i (Reset_next c) q =
     Stepped (update_consumer c (m_next_ptr_update (\<lambda>_. None)) q) Ready [Ret i Unit]"
| "consumer_step i pc q = Blocked"

section \<open>Threads\<close>

fun begin_op :: "'a queue_op \<Rightarrow> 'a queue_pc" where
  "begin_op (Push x) = Push_wait x"
| "begin_op Pop = Deq_lock False"
| "begin_op Pop_wait = Wait_run"
| "begin_op Clear = Clear_tail False"
| "begin_op Size = Size_read"
| "begin_op Empty = Empty_read"
| "begin_op (Stop c) = Stop_flag c"
| "begin_op (Reset c) = Reset_flag c"
| "begin_op Destroy = Clear_tail True"

datatype queue_part = Push_part | Deq_part | Wait_part | Clear_part | Query_part | Consumer_part | Outside

fun part_of :: "'a queue_pc \<Rightarrow> queue_part" where
  "part_of Ready = Outside"
| "part_of (Push_wait x) = Push_part" | "part_of (Push_create x) = Push_part" | "part_of (Push_lock x a) = Push_part"
| "part_of (Push_version x a) = Push_part" | "part_of (Push_link x a) = Push_part"
| "part_of (Push_swing x a) = Push_part" | "part_of (Push_count x) = Push_part" | "part_of (Push_wake x) = Push_part"
| "part_of (Deq_lock w) = Deq_part" | "part_of (Deq_read w) = Deq_part" | "part_of (Deq_empty w) = Deq_part"
| "part_of (Deq_copy w p) = Deq_part" | "part_of (Deq_advance w x p) = Deq_part"
| "part_of (Deq_free x p) = Deq_part" | "part_of (Deq_count x) = Deq_part"
| "part_of Wait_run = Wait_part" | "part_of (Wait_lock v) = Wait_part" | "part_of (Wait_check v) = Wait_part"
| "part_of Waiting = Wait_part"
| "part_of (Clear_tail d) = Clear_part" | "part_of (Clear_head d) = Clear_part" | "part_of (Clear_loop d) = Clear_part"
| "part_of Destroy_node = Clear_part"
| "part_of Size_read = Query_part" | "part_of Empty_read = Query_part" | "part_of (Empty_next p) = Query_part"
| "part_of (Stop_flag c) = Consumer_part" | "part_of (Stop_notify c) = Consumer_part"
| "part_of (Reset_flag c) = Consumer_part" | "part_of (Reset_next c) = Consumer_part"

definition thread_step :: "nat \<Rightarrow> nat \<Rightarrow> nat \<Rightarrow> 'a queue_pc \<Rightarrow> 'a PionLockedQueue \<Rightarrow> 'a outcome" where
  "thread_step MaxSize i a pc q = (case part_of pc of
     Push_part \<Rightarrow> push_step MaxSize i a pc q
   | Deq_part \<Rightarrow> dequeue i pc q
   | Wait_part \<Rightarrow> pop_wait_step i pc q
   | Clear_part \<Rightarrow> clear_step i pc q
   | Query_part \<Rightarrow> query_step i pc q
   | Consumer_part \<Rightarrow> consumer_step i pc q
   | Outside \<Rightarrow> Blocked)"

text \<open>The actions of a schedule: thread \<open>i\<close> calls an operation; thread \<open>i\<close> takes one step (with the address a
  \<open>new\<close> in that step returns); a thread that waits wakes up without having been notified.\<close>

datatype 'a queue_action = Invoke nat "'a queue_op" | Run nat nat | Spurious nat

type_synonym 'a queue_system = "'a PionLockedQueue \<times> 'a queue_pc list"

fun system_step ::
  "nat \<Rightarrow> 'a queue_action \<Rightarrow> 'a queue_system \<Rightarrow> (fault + 'a queue_system \<times> 'a queue_event list) option"
where
  "system_step MaxSize (Invoke i opn) (q, ts) =
     (case (if i < length ts then ts ! i else Size_read) of
        Ready \<Rightarrow> Some (Inr ((q, ts[i := begin_op opn]), [Call i opn]))
      | _ \<Rightarrow> None)"
| "system_step MaxSize (Run i a) (q, ts) =
     (if i < length ts
      then case thread_step MaxSize i a (ts ! i) q of
             Blocked \<Rightarrow> None
           | Fault f \<Rightarrow> Some (Inl f)
           | Stepped q' pc es \<Rightarrow> Some (Inr ((q', ts[i := pc]), es))
      else None)"
| "system_step MaxSize (Spurious i) (q, ts) = Some (Inr ((notify_one i q, ts), []))"

definition queue_run ::
  "nat \<Rightarrow> 'a queue_action list \<Rightarrow> 'a queue_system \<Rightarrow> fault + 'a queue_system \<times> 'a queue_event list" where
  "queue_run MaxSize = run_schedule (system_step MaxSize)"

definition queue_start :: "nat \<Rightarrow> 'a \<Rightarrow> nat \<Rightarrow> 'a queue_system" where
  "queue_start a junk threads = (PionLockedQueue_init a junk, replicate threads Ready)"

section \<open>The sequential queue\<close>

text \<open>What the class promises: a list, and for every consumer whether it runs, on which every call takes effect at one
  event between its call and its return, by any number of threads. A call of \<open>stop\<close> or \<open>reset\<close> that has
  taken effect is \<open>Finished\<close>, any other one is \<open>Done\<close> with its result.\<close>

datatype 'a call_status = Idle | Pending "'a queue_op" | Done "'a queue_result" | Finished

record 'a fifo =
  fifo_items :: "'a list"
  fifo_running :: "nat \<Rightarrow> bool"
  fifo_calls :: "'a call_status list"

definition fifo_set :: "nat \<Rightarrow> 'a call_status \<Rightarrow> 'a list \<Rightarrow> 'a fifo \<Rightarrow> 'a fifo option" where
  "fifo_set i c xs f = Some (f\<lparr>fifo_items := xs, fifo_calls := (fifo_calls f)[i := c]\<rparr>)"

definition fifo_status :: "nat \<Rightarrow> 'a fifo \<Rightarrow> 'a call_status" where
  "fifo_status i f = (if i < length (fifo_calls f) then fifo_calls f ! i else Idle)"

text \<open>Calls that do not touch the items. The size, a word of 64 bits, is the number of items, give or take the calls under
  way that have taken effect on the items and may not have counted themselves: it is too low by some of the pushes and too high by some of the
  pops. A pop that waits returns without an item only when its consumer is not running.\<close>

fun pushed_call :: "'a call_status \<Rightarrow> bool" where
  "pushed_call (Done Unit) = True"
| "pushed_call c = False"

fun popped_call :: "'a call_status \<Rightarrow> bool" where
  "popped_call (Done (Item x)) = True"
| "popped_call c = False"

definition size_result :: "'a fifo \<Rightarrow> nat \<Rightarrow> bool" where
  "size_result f n \<longleftrightarrow>
     (\<exists>k\<in>{- int (length (filter pushed_call (fifo_calls f)))..int (length (filter popped_call (fifo_calls f)))}.
        int n = (int (length (fifo_items f)) + k) mod 2 ^ 64)"

fun local_result :: "'a fifo \<Rightarrow> nat \<Rightarrow> 'a queue_op \<Rightarrow> 'a queue_result \<Rightarrow> bool" where
  "local_result f i Size (Number n) = size_result f n"
| "local_result f i Pop_wait Nothing = (\<not> fifo_running f i)"
| "local_result f i opn r = False"

fun fifo_step :: "'a queue_event \<Rightarrow> 'a fifo \<Rightarrow> 'a fifo option" where
  "fifo_step (Call i opn) f =
     (if i < length (fifo_calls f) \<and> fifo_status i f = Idle then fifo_set i (Pending opn) (fifo_items f) f else None)"
| "fifo_step (Enq i x) f =
     (if fifo_status i f = Pending (Push x) then fifo_set i (Done Unit) (fifo_items f @ [x]) f else None)"
| "fifo_step (Deq i x) f = (case fifo_items f of
     [] \<Rightarrow> None
   | y # ys \<Rightarrow> if x = y \<and> (fifo_status i f = Pending Pop \<or> fifo_status i f = Pending Pop_wait)
               then fifo_set i (Done (Item x)) ys f else None)"
| "fifo_step (Saw_empty i) f =
     (if fifo_status i f = Pending Pop \<and> fifo_items f = [] then fifo_set i (Done Nothing) [] f else None)"
| "fifo_step (Drop i x) f = (case fifo_items f of
     [] \<Rightarrow> None
   | y # ys \<Rightarrow> if x = y \<and> fifo_status i f = Pending Clear then fifo_set i (Pending Clear) ys f else None)"
| "fifo_step (Cleared i) f =
     (if fifo_status i f = Pending Clear \<and> fifo_items f = [] then fifo_set i (Done Unit) [] f else None)"
| "fifo_step (Local i r) f = (case fifo_status i f of
     Pending opn \<Rightarrow> if local_result f i opn r then fifo_set i (Done r) (fifo_items f) f else None
   | _ \<Rightarrow> None)"
| "fifo_step (Set_running i c b) f =
     (if fifo_status i f = Pending (if b then Reset c else Stop c)
      then fifo_set i Finished (fifo_items f) (f\<lparr>fifo_running := (fifo_running f)(c := b)\<rparr>) else None)"
| "fifo_step (Ret i r) f =
     (if fifo_status i f = Done r \<or> fifo_status i f = Finished \<and> r = Unit then fifo_set i Idle (fifo_items f) f else None)"

definition fifo_init :: "nat \<Rightarrow> 'a fifo" where
  "fifo_init threads = \<lparr>fifo_items = [], fifo_running = (\<lambda>_. True), fifo_calls = replicate threads Idle\<rparr>"

definition fifo_run :: "'a queue_event list \<Rightarrow> 'a fifo \<Rightarrow> 'a fifo option" where
  "fifo_run = run_spec fifo_step"

section \<open>The items in the nodes\<close>

text \<open>The addresses on the list that starts at an address, and the data of all nodes but the first, in order.\<close>

fun linked :: "(nat \<Rightarrow> 'a QueueNode option) \<Rightarrow> nat list \<Rightarrow> bool" where
  "linked h [] = False"
| "linked h [a] = (case h a of None \<Rightarrow> False | Some n \<Rightarrow> node_next n = None)"
| "linked h (a # b # ns) = ((case h a of None \<Rightarrow> False | Some n \<Rightarrow> node_next n = Some b) \<and> linked h (b # ns))"

definition list_items :: "(nat \<Rightarrow> 'a QueueNode option) \<Rightarrow> nat list \<Rightarrow> 'a list" where
  "list_items h ns = map (\<lambda>a. node_data (the (h a))) (tl ns)"

definition queue_holds :: "'a PionLockedQueue \<Rightarrow> nat list \<Rightarrow> 'a list \<Rightarrow> bool" where
  "queue_holds q ns xs \<longleftrightarrow> linked (lq_nodes q) ns \<and> hd ns = lq_head_ptr q \<and> list_items (lq_nodes q) ns = xs"

end
