(* ===== verification/Locked_Queue_Inv.thy ===== *)
theory Locked_Queue_Inv
  imports Locked_Queue "HOL-Library.Multiset"
begin

text \<open>
  The invariant of the two-lock queue under any schedule: the nodes form a list from the head, the locks
  are held by the threads whose place in the code says so, the allocated nodes are the list and the ones that single threads
  own (nothing is shared by mistake, freed twice or leaked), and the counter differs from the length only
  by the operations in flight.  What a step of one thread has to show so that it holds afterwards for all threads.
\<close>

section \<open>What the places in the code mean\<close>

fun owned :: "'a queue_pc \<Rightarrow> nat multiset" where
  "owned (Push_lock x a) = {#a#}"
| "owned (Push_version x a) = {#a#}"
| "owned (Push_link x a) = {#a#}"
| "owned (Deq_free x a) = {#a#}"
| "owned pc = {#}"

text \<open>How far the counter is from the length of the list because of a thread.\<close>

fun debt :: "'a queue_pc \<Rightarrow> int" where
  "debt (Push_swing x a) = 1"
| "debt (Push_count x) = 1"
| "debt (Deq_free x a) = - 1"
| "debt (Deq_count x) = - 1"
| "debt pc = 0"

fun holds_tail :: "'a queue_pc \<Rightarrow> bool" where
  "holds_tail (Push_version x a) = True"
| "holds_tail (Push_link x a) = True"
| "holds_tail (Push_swing x a) = True"
| "holds_tail (Push_count x) = True"
| "holds_tail (Push_wake x) = True"
| "holds_tail (Wait_check v) = True"
| "holds_tail (Clear_head d) = True"
| "holds_tail (Clear_loop d) = True"
| "holds_tail pc = False"

fun holds_head :: "'a queue_pc \<Rightarrow> bool" where
  "holds_head (Deq_read w) = True"
| "holds_head (Deq_empty w) = True"
| "holds_head (Deq_copy w p) = True"
| "holds_head (Deq_advance w x p) = True"
| "holds_head (Clear_loop d) = True"
| "holds_head pc = False"

fun tail_busy :: "'a queue_pc \<Rightarrow> bool" where
  "tail_busy (Push_swing x a) = True"
| "tail_busy (Clear_loop d) = True"
| "tail_busy pc = False"

fun status_of :: "'a queue_pc \<Rightarrow> 'a call_status" where
  "status_of Ready = Idle"
| "status_of (Push_wait x) = Pending (Push x)"
| "status_of (Push_create x) = Pending (Push x)"
| "status_of (Push_lock x a) = Pending (Push x)"
| "status_of (Push_version x a) = Pending (Push x)"
| "status_of (Push_link x a) = Pending (Push x)"
| "status_of (Push_swing x a) = Done Unit"
| "status_of (Push_count x) = Done Unit"
| "status_of (Push_wake x) = Done Unit"
| "status_of (Deq_lock w) = Pending (if w then Pop_wait else Pop)"
| "status_of (Deq_read w) = Pending (if w then Pop_wait else Pop)"
| "status_of (Deq_empty w) = (if w then Pending Pop_wait else Done Nothing)"
| "status_of (Deq_copy w p) = Pending (if w then Pop_wait else Pop)"
| "status_of (Deq_advance w x p) = Pending (if w then Pop_wait else Pop)"
| "status_of (Deq_free x a) = Done (Item x)"
| "status_of (Deq_count x) = Done (Item x)"
| "status_of Wait_run = Pending Pop_wait"
| "status_of (Wait_lock v) = Pending Pop_wait"
| "status_of (Wait_check v) = Pending Pop_wait"
| "status_of Waiting = Pending Pop_wait"
| "status_of (Clear_tail d) = Pending (if d then Destroy else Clear)"
| "status_of (Clear_head d) = Pending (if d then Destroy else Clear)"
| "status_of (Clear_loop d) = Pending (if d then Destroy else Clear)"
| "status_of Destroy_node = Pending Destroy"
| "status_of Size_read = Pending Size"
| "status_of Empty_read = Pending Empty"
| "status_of (Empty_next p) = Pending Empty"
| "status_of (Stop_flag c) = Pending (Stop c)"
| "status_of (Stop_notify c) = Finished"
| "status_of (Reset_flag c) = Pending (Reset c)"
| "status_of (Reset_next c) = Finished"

text \<open>The operations that other threads may run at the same time: all but the destructor, which the caller runs alone, and \<open>empty\<close>,
  which takes no lock and may read a node that another thread has freed.\<close>

fun shared_op :: "'a queue_op \<Rightarrow> bool" where
  "shared_op Empty = False"
| "shared_op Destroy = False"
| "shared_op opn = True"

fun shared_action :: "'a queue_action \<Rightarrow> bool" where
  "shared_action (Invoke i opn) = shared_op opn"
| "shared_action act = True"

fun shared_pc :: "'a queue_pc \<Rightarrow> bool" where
  "shared_pc (Clear_tail d) = (\<not> d)"
| "shared_pc (Clear_head d) = (\<not> d)"
| "shared_pc (Clear_loop d) = (\<not> d)"
| "shared_pc Destroy_node = False"
| "shared_pc Empty_read = False"
| "shared_pc (Empty_next p) = False"
| "shared_pc pc = True"

definition fresh_node :: "(nat \<Rightarrow> 'a QueueNode option) \<Rightarrow> 'a \<Rightarrow> nat \<Rightarrow> bool" where
  "fresh_node h x a \<longleftrightarrow> (\<exists>n. h a = Some n \<and> node_data n = x \<and> node_next n = None)"

fun node_ok :: "(nat \<Rightarrow> 'a QueueNode option) \<Rightarrow> nat list \<Rightarrow> 'a queue_pc \<Rightarrow> bool" where
  "node_ok h ns (Push_lock x a) = fresh_node h x a"
| "node_ok h ns (Push_version x a) = fresh_node h x a"
| "node_ok h ns (Push_link x a) = fresh_node h x a"
| "node_ok h ns (Push_swing x a) = (last ns = a)"
| "node_ok h ns (Deq_copy w p) = (tl ns \<noteq> [] \<and> hd (tl ns) = p)"
| "node_ok h ns (Deq_advance w x p) = (tl ns \<noteq> [] \<and> hd (tl ns) = p \<and> node_data (the (h p)) = x)"
| "node_ok h ns pc = True"

definition thread_ok :: "'a PionLockedQueue \<Rightarrow> nat list \<Rightarrow> nat \<Rightarrow> 'a queue_pc \<Rightarrow> bool" where
  "thread_ok q ns i pc \<longleftrightarrow>
     (holds_tail pc \<longleftrightarrow> lq_tail_mutex q = Some i) \<and> (holds_head pc \<longleftrightarrow> lq_head_mutex q = Some i)
     \<and> shared_pc pc \<and> node_ok (lq_nodes q) ns pc"

definition tail_ok :: "'a PionLockedQueue \<Rightarrow> 'a queue_pc list \<Rightarrow> nat list \<Rightarrow> bool" where
  "tail_ok q ts ns \<longleftrightarrow> (case lq_tail_mutex q of
     None \<Rightarrow> lq_tail_ptr q = last ns
   | Some j \<Rightarrow> j < length ts \<and> (tail_busy (ts ! j) \<or> lq_tail_ptr q = last ns))"

definition queue_inv :: "'a PionLockedQueue \<Rightarrow> 'a queue_pc list \<Rightarrow> nat list \<Rightarrow> bool" where
  "queue_inv q ts ns \<longleftrightarrow>
     linked (lq_nodes q) ns \<and> hd ns = lq_head_ptr q \<and> finite (dom (lq_nodes q))
     \<and> mset ns + sum_list (map owned ts) = mset_set (dom (lq_nodes q))
     \<and> lq_size q = of_int (int (length ns) - 1 - sum_list (map debt ts))
     \<and> tail_ok q ts ns \<and> (\<forall>j. lq_head_mutex q = Some j \<longrightarrow> j < length ts)
     \<and> (\<forall>j<length ts. thread_ok q ns j (ts ! j))"

definition fifo_of :: "'a PionLockedQueue \<Rightarrow> 'a queue_pc list \<Rightarrow> nat list \<Rightarrow> 'a fifo" where
  "fifo_of q ts ns = \<lparr>fifo_items = list_items (lq_nodes q) ns, fifo_running = (\<lambda>c. m_is_running (lq_consumers q c)),
     fifo_calls = map status_of ts\<rparr>"

section \<open>Lists of nodes\<close>

lemma linked_not_Nil: "linked h ns \<Longrightarrow> ns \<noteq> []"
  by (cases ns) auto

lemma linked_cong: "(\<And>a. a \<in> set ns \<Longrightarrow> map_option node_next (h' a) = map_option node_next (h a)) \<Longrightarrow> linked h' ns = linked h ns"
proof (induction h ns rule: linked.induct)
  case (2 h a)
  from "2.prems" [of a] show ?case by (auto split: option.split)
next
  case (3 h a b ns)
  have "linked h' (b # ns) = linked h (b # ns)" using "3.IH" "3.prems" by simp
  with "3.prems" [of a] show ?case by (auto split: option.split)
qed simp

lemma linked_Cons2: "linked h (a # b # ns) \<longleftrightarrow> (\<exists>n. h a = Some n \<and> node_next n = Some b) \<and> linked h (b # ns)"
  by (auto split: option.split)

lemma linked_hd:
  assumes "linked h ns"
  obtains n where "h (hd ns) = Some n" "node_next n = (if tl ns = [] then None else Some (hd (tl ns)))"
  using assms by (cases "(h, ns)" rule: linked.cases) (auto split: option.splits)

lemma linked_dom: "linked h ns \<Longrightarrow> set ns \<subseteq> dom h"
  by (induction h ns rule: linked.induct) (auto split: option.splits)

lemma linked_tl: "linked h ns \<Longrightarrow> tl ns \<noteq> [] \<Longrightarrow> linked h (tl ns)"
  by (cases "(h, ns)" rule: linked.cases) auto

lemma linked_snoc:
  assumes "linked h ns" and "distinct ns" and "p \<notin> set ns" and "h p = Some n" and "node_next n = None"
    and "h (last ns) = Some m"
  shows "linked (h(last ns \<mapsto> m\<lparr>node_next := Some p\<rparr>)) (ns @ [p])"
  using assms
proof (induction h ns rule: linked.induct)
  case (3 h a b ns)
  then have "a \<noteq> last (b # ns)" by (metis distinct.simps(2) last_in_set list.distinct(1))
  with 3 show ?case by (auto split: option.splits)
qed auto

lemma list_items_cong:
  "(\<And>a. a \<in> set (tl ns) \<Longrightarrow> map_option node_data (h' a) = map_option node_data (h a)) \<Longrightarrow> set (tl ns) \<subseteq> dom h
    \<Longrightarrow> list_items h' ns = list_items h ns"
  unfolding list_items_def by (rule map_cong) (force simp: map_option_case split: option.splits)+

lemma list_items_unlink:
  "tl ns \<noteq> [] \<Longrightarrow> list_items h ns = node_data (the (h (hd (tl ns)))) # list_items h (tl ns)"
  by (cases ns; cases "tl ns") (auto simp: list_items_def)

section \<open>One thread's step and the others\<close>

lemma sum_list_update:
  fixes f :: "'b \<Rightarrow> 'c::cancel_comm_monoid_add"
  assumes "i < length ts"
  obtains r where "sum_list (map f ts) = r + f (ts ! i)" "\<And>p. sum_list (map f (ts[i := p])) = r + f p"
proof
  let ?r = "sum_list (map f (take i ts)) + sum_list (map f (drop (Suc i) ts))"
  show "sum_list (map f ts) = ?r + f (ts ! i)"
    by (subst id_take_nth_drop [OF assms]) (simp add: ac_simps)
  show "sum_list (map f (ts[i := p])) = ?r + f p" for p
    by (simp add: upd_conv_take_nth_drop [OF assms] ac_simps)
qed

lemma queue_inv_count:
  assumes "queue_inv q ts ns"
  shows "count (mset ns) a + count (sum_list (map owned ts)) a = (if a \<in> dom (lq_nodes q) then 1 else 0)"
  using assms unfolding queue_inv_def by (metis count_mset_set(1) count_mset_set(3) count_union)

lemma queue_inv_distinct: "queue_inv q ts ns \<Longrightarrow> distinct ns"
proof (subst distinct_count_atmost_1, rule allI)
  fix a
  assume "queue_inv q ts ns"
  from queue_inv_count [OF this, of a] show "count (mset ns) a = (if a \<in> set ns then 1 else 0)"
    by (auto split: if_splits simp: count_eq_zero_iff) (metis add_is_1 count_mset_0_iff)+
qed

text \<open>A node that a thread owns is on no list and is no other thread's.\<close>

lemma owned_private:
  assumes inv: "queue_inv q ts ns" and i: "i < length ts" and a: "a \<in># owned (ts ! i)"
  shows "a \<notin> set ns" and "a \<in> dom (lq_nodes q)"
    and "\<And>j. j < length ts \<Longrightarrow> j \<noteq> i \<Longrightarrow> a \<notin># owned (ts ! j)"
proof -
  obtain r where r: "sum_list (map owned ts) = r + owned (ts ! i)" and u: "\<And>p. sum_list (map owned (ts[i := p])) = r + owned p"
    using sum_list_update [OF i] by blast
  have pos: "0 < count (owned (ts ! i)) a" using a by simp
  have sum: "count (mset ns) a + (count r a + count (owned (ts ! i)) a) = (if a \<in> dom (lq_nodes q) then 1 else 0)"
    using queue_inv_count [OF inv, of a] r by simp
  have le: "count (mset ns) a + (count r a + count (owned (ts ! i)) a) \<le> 1" unfolding sum by simp
  with pos have "count (mset ns) a = 0" by linarith
  then show "a \<notin> set ns" by simp
  show "a \<in> dom (lq_nodes q)"
  proof (rule ccontr)
    assume "a \<notin> dom (lq_nodes q)"
    with sum have "count (mset ns) a + (count r a + count (owned (ts ! i)) a) = 0" by presburger
    with pos show False by linarith
  qed
  fix j assume j: "j < length ts" "j \<noteq> i"
  then have "j < length (ts[i := Ready])" by simp
  then obtain r' where "sum_list (map owned (ts[i := Ready])) = r' + owned (ts ! j)"
    using sum_list_update [of j "ts[i := Ready]" owned] j by (metis nth_list_update_neq)
  with u [of Ready] have r': "r = r' + owned (ts ! j)" by simp
  have "count (owned (ts ! j)) a = 0" using le pos unfolding r' count_union by linarith
  then show "a \<notin># owned (ts ! j)" by (simp add: not_in_iff)
qed

lemma node_ok_frame:
  assumes "node_ok h ns pc"
    and "\<And>a. a \<in># owned pc \<Longrightarrow> h' a = h a"
    and "holds_tail pc \<Longrightarrow> last ns' = last ns"
    and "holds_head pc \<Longrightarrow> tl ns \<noteq> [] \<Longrightarrow> tl ns' \<noteq> [] \<and> hd (tl ns') = hd (tl ns)
          \<and> node_data (the (h' (hd (tl ns)))) = node_data (the (h (hd (tl ns))))"
  shows "node_ok h' ns' pc"
  using assms by (cases pc) (auto simp: fresh_node_def)

text \<open>What a step of thread \<open>i\<close> to \<open>pc'\<close> has to show for the invariant to hold after it.\<close>

definition mutex_moves :: "nat option \<Rightarrow> nat option \<Rightarrow> nat \<Rightarrow> bool" where
  "mutex_moves m m' i \<longleftrightarrow> m' = m \<or> (m = None \<or> m = Some i) \<and> (m' = None \<or> m' = Some i)"

lemma queue_inv_step:
  assumes inv: "queue_inv q ts ns" and i: "i < length ts"
    and list: "linked (lq_nodes q') ns'" "hd ns' = lq_head_ptr q'" "finite (dom (lq_nodes q'))"
    and own: "\<And>R. mset ns + (R + owned (ts ! i)) = mset_set (dom (lq_nodes q))
        \<Longrightarrow> mset ns' + (R + owned pc') = mset_set (dom (lq_nodes q'))"
    and size: "\<And>D. lq_size q = of_int (int (length ns) - 1 - (D + debt (ts ! i)))
        \<Longrightarrow> lq_size q' = of_int (int (length ns') - 1 - (D + debt pc'))"
    and locks: "mutex_moves (lq_tail_mutex q) (lq_tail_mutex q') i" "mutex_moves (lq_head_mutex q) (lq_head_mutex q') i"
    and tail: "lq_tail_mutex q' = None \<or> lq_tail_mutex q' = Some i \<Longrightarrow> tail_busy pc' \<or> lq_tail_ptr q' = last ns'"
      "lq_tail_mutex q' \<noteq> Some i \<Longrightarrow> \<not> tail_busy pc'"
      "lq_tail_mutex q' \<noteq> None \<Longrightarrow> lq_tail_mutex q' \<noteq> Some i \<Longrightarrow> lq_tail_ptr q' = lq_tail_ptr q \<and> last ns' = last ns"
    and self: "thread_ok q' ns' i pc'"
    and others: "\<And>j. j < length ts \<Longrightarrow> j \<noteq> i \<Longrightarrow> thread_ok q ns j (ts ! j)
        \<Longrightarrow> node_ok (lq_nodes q') ns' (ts ! j)"
  shows "queue_inv q' (ts[i := pc']) ns'"
proof -
  obtain R where R: "sum_list (map owned ts) = R + owned (ts ! i)" "\<And>p. sum_list (map owned (ts[i := p])) = R + owned p"
    using sum_list_update [OF i] by blast
  obtain D where D: "sum_list (map debt ts) = D + debt (ts ! i)" "\<And>p. sum_list (map debt (ts[i := p])) = D + debt p"
    using sum_list_update [OF i] by blast
  have "tail_ok q' (ts[i := pc']) ns'"
  proof (cases "lq_tail_mutex q'")
    case None
    then show ?thesis using tail by (simp add: tail_ok_def)
  next
    case (Some j)
    have "j < length ts \<and> (tail_busy (ts ! j) \<or> lq_tail_ptr q = last ns)" if "j \<noteq> i"
    proof -
      have "lq_tail_mutex q = Some j" using locks(1) Some that by (auto simp: mutex_moves_def)
      with inv show ?thesis by (simp add: queue_inv_def tail_ok_def)
    qed
    then show ?thesis using Some i tail by (cases "j = i") (auto simp: tail_ok_def)
  qed
  moreover have "thread_ok q' ns' j (ts[i := pc'] ! j)" if j: "j < length ts" for j
  proof (cases "j = i")
    case True
    then show ?thesis using self i by simp
  next
    case False
    have ok: "thread_ok q ns j (ts ! j)" using inv j by (simp add: queue_inv_def)
    from others [OF j False ok] ok False locks show ?thesis
      by (auto simp: thread_ok_def mutex_moves_def)
  qed
  moreover have "\<forall>j. lq_head_mutex q' = Some j \<longrightarrow> j < length ts"
    using inv i locks(2) by (auto simp: queue_inv_def mutex_moves_def)
  ultimately show ?thesis
    using list own size inv R D by (simp add: queue_inv_def)
qed

end
