(* ===== verification/Locked_Queue_Steps.thy ===== *)
theory Locked_Queue_Steps
  imports Locked_Queue_Inv
begin

text \<open>
  Every step of every thread keeps the invariant of the two-lock queue and is a step of the sequential
  queue, so that the model satisfies the interface \<open>linearizable\<close>.
\<close>

section \<open>Every step is a step of the sequential queue\<close>

definition good_step :: "'a PionLockedQueue \<Rightarrow> 'a queue_pc list \<Rightarrow> nat list \<Rightarrow> nat \<Rightarrow> 'a outcome \<Rightarrow> bool" where
  "good_step q ts ns i out \<longleftrightarrow> (case out of
     Blocked \<Rightarrow> True
   | Fault f \<Rightarrow> False
   | Stepped q' pc' es \<Rightarrow> \<exists>ns'. queue_inv q' (ts[i := pc']) ns'
       \<and> run_spec fifo_step es (fifo_of q ts ns) = Some (fifo_of q' (ts[i := pc']) ns'))"

lemma good_step_simps [simp]: "good_step q ts ns i Blocked" "\<not> good_step q ts ns i (Fault f)"
  by (simp_all add: good_step_def)

lemma good_stepI:
  "queue_inv q' (ts[i := pc']) ns' \<Longrightarrow> run_spec fifo_step es (fifo_of q ts ns) = Some (fifo_of q' (ts[i := pc']) ns')
    \<Longrightarrow> good_step q ts ns i (Stepped q' pc' es)"
  by (auto simp: good_step_def)

lemma fifo_status_of [simp]: "i < length ts \<Longrightarrow> fifo_status i (fifo_of q ts ns) = status_of (ts ! i)"
  by (simp add: fifo_status_def fifo_of_def)

lemma fifo_of_items [simp]: "fifo_items (fifo_of q ts ns) = list_items (lq_nodes q) ns"
  by (simp add: fifo_of_def)

lemma fifo_of_running [simp]: "fifo_running (fifo_of q ts ns) c = m_is_running (lq_consumers q c)"
  by (simp add: fifo_of_def)

lemma consumers_same [simp]:
  "lq_consumers (write_node a n q) = lq_consumers q" "lq_consumers (destroyNode a q) = lq_consumers q"
  "m_is_running (lq_consumers (notify_one c q) d) = m_is_running (lq_consumers q d)"
  "m_is_running (lq_consumers (wake_idle q) d) = m_is_running (lq_consumers q d)"
  by (simp_all add: write_node_def destroyNode_def wake_idle_def notify_one_def update_consumer_def split: option.split)

lemma fifo_set_of:
  "c = status_of pc' \<Longrightarrow> xs = list_items (lq_nodes q') ns' \<Longrightarrow> (\<And>c. m_is_running (lq_consumers q' c) = m_is_running (lq_consumers q c))
    \<Longrightarrow> fifo_set i c xs (fifo_of q ts ns) = Some (fifo_of q' (ts[i := pc']) ns')"
  by (simp add: fifo_set_def fifo_of_def map_update)

lemma fifo_of_quiet:
  "i < length ts \<Longrightarrow> status_of pc' = status_of (ts ! i) \<Longrightarrow> list_items (lq_nodes q') ns' = list_items (lq_nodes q) ns
    \<Longrightarrow> (\<And>c. m_is_running (lq_consumers q' c) = m_is_running (lq_consumers q c)) \<Longrightarrow> fifo_of q ts ns = fifo_of q' (ts[i := pc']) ns'"
  by (simp add: fifo_of_def map_update) (metis length_map list_update_id nth_map)

lemma tail_is_last:
  assumes "queue_inv q ts ns" "lq_tail_mutex q = None \<or> lq_tail_mutex q = Some i" "i < length ts" "\<not> tail_busy (ts ! i)"
  shows "lq_tail_ptr q = last ns"
  using assms by (auto simp: queue_inv_def tail_ok_def)

lemma tail_not_busy:
  assumes "queue_inv q ts ns" "i < length ts" "lq_tail_mutex q \<noteq> Some i"
  shows "\<not> tail_busy (ts ! i)"
proof -
  have "\<not> holds_tail (ts ! i)" using assms by (simp add: queue_inv_def thread_ok_def)
  then show ?thesis by (cases "ts ! i") auto
qed

text \<open>A step that leaves the nodes, the ends of the list and the counter alone.\<close>

lemma quiet_step:
  assumes inv: "queue_inv q ts ns" and i: "i < length ts"
    and same: "lq_nodes q' = lq_nodes q" "lq_head_ptr q' = lq_head_ptr q" "lq_tail_ptr q' = lq_tail_ptr q"
      "lq_size q' = lq_size q"
    and pcs: "owned pc' = owned (ts ! i)" "debt pc' = debt (ts ! i)" "\<not> tail_busy (ts ! i)" "\<not> tail_busy pc'"
    and locks: "mutex_moves (lq_tail_mutex q) (lq_tail_mutex q') i" "mutex_moves (lq_head_mutex q) (lq_head_mutex q') i"
    and self: "thread_ok q' ns i pc'"
    and spec: "run_spec fifo_step es (fifo_of q ts ns) = Some (fifo_of q' (ts[i := pc']) ns)"
  shows "good_step q ts ns i (Stepped q' pc' es)"
proof (rule good_stepI [OF _ spec], rule queue_inv_step [OF inv i])
  show "linked (lq_nodes q') ns" "hd ns = lq_head_ptr q'" "finite (dom (lq_nodes q'))"
    using inv same by (auto simp: queue_inv_def)
  show "mset ns + (R + owned pc') = mset_set (dom (lq_nodes q'))"
    if "mset ns + (R + owned (ts ! i)) = mset_set (dom (lq_nodes q))" for R
    using that same pcs by simp
  show "lq_size q' = word_of_int (int (length ns) - 1 - (D + debt pc'))"
    if "lq_size q = word_of_int (int (length ns) - 1 - (D + debt (ts ! i)))" for D
    using that same pcs by simp
  show "tail_busy pc' \<or> lq_tail_ptr q' = last ns" if "lq_tail_mutex q' = None \<or> lq_tail_mutex q' = Some i"
  proof -
    have "lq_tail_mutex q = None \<or> lq_tail_mutex q = Some i" using locks(1) that by (auto simp: mutex_moves_def)
    from tail_is_last [OF inv this i pcs(3)] same show ?thesis by simp
  qed
  show "node_ok (lq_nodes q') ns (ts ! j)" if "thread_ok q ns j (ts ! j)" for j
    using that same by (simp add: thread_ok_def)
qed (use same pcs locks self in auto)

lemma queue_inv_thread:
  assumes "queue_inv q ts ns" "i < length ts"
  shows "holds_tail (ts ! i) \<longleftrightarrow> lq_tail_mutex q = Some i" "holds_head (ts ! i) \<longleftrightarrow> lq_head_mutex q = Some i"
    "shared_pc (ts ! i)" "node_ok (lq_nodes q) ns (ts ! i)"
  using assms by (auto simp: queue_inv_def thread_ok_def)

lemma mutex_moves_simps [simp]: "mutex_moves m m i" "mutex_moves None (Some i) i" "mutex_moves (Some i) None i"
  by (simp_all add: mutex_moves_def)

lemma list_items_nodes: "lq_nodes q' = lq_nodes q \<Longrightarrow> list_items (lq_nodes q') ns = list_items (lq_nodes q) ns"
  by simp

lemma ret_spec:
  "i < length ts \<Longrightarrow> status_of (ts ! i) = Done r \<or> status_of (ts ! i) = Finished \<and> r = Unit \<Longrightarrow> lq_nodes q' = lq_nodes q
    \<Longrightarrow> (\<And>c. m_is_running (lq_consumers q' c) = m_is_running (lq_consumers q c))
    \<Longrightarrow> run_spec fifo_step [Ret i r] (fifo_of q ts ns) = Some (fifo_of q' (ts[i := Ready]) ns)"
  by (simp add: fifo_set_def fifo_status_def fifo_of_def map_update)

lemma local_spec:
  "i < length ts \<Longrightarrow> status_of (ts ! i) = Pending opn \<Longrightarrow> local_result (fifo_of q ts ns) i opn r \<Longrightarrow> lq_nodes q' = lq_nodes q
    \<Longrightarrow> (\<And>c. m_is_running (lq_consumers q' c) = m_is_running (lq_consumers q c))
    \<Longrightarrow> run_spec fifo_step [Local i r, Ret i r] (fifo_of q ts ns) = Some (fifo_of q' (ts[i := Ready]) ns)"
  by (auto simp: fifo_set_def fifo_status_def fifo_of_def map_update)

lemma set_running_spec:
  assumes "i < length ts" "status_of (ts ! i) = Pending (if b then Reset c else Stop c)" "status_of pc' = Finished"
  shows "run_spec fifo_step [Set_running i c b] (fifo_of q ts ns)
    = Some (fifo_of (update_consumer c (m_is_running_update (\<lambda>_. b)) q) (ts[i := pc']) ns)"
proof -
  have "(\<lambda>d. m_is_running (lq_consumers (update_consumer c (m_is_running_update (\<lambda>_. b)) q) d))
      = (\<lambda>d. m_is_running (lq_consumers q d))(c := b)"
    by (auto simp: update_consumer_def)
  then show ?thesis using assms
    by (simp add: fifo_set_def fifo_status_def fifo_of_def map_update) (simp add: update_consumer_def)
qed

text \<open>The counter is off by the calls that have taken effect and are under way.\<close>

lemma debt_bounds:
  "- int (length (filter popped_call (map status_of ts))) \<le> sum_list (map debt ts)"
  "sum_list (map debt ts) \<le> int (length (filter pushed_call (map status_of ts)))"
proof (induction ts)
  case (Cons pc ts)
  have "(if popped_call (status_of pc) then - 1 else 0) \<le> debt pc" "debt pc \<le> (if pushed_call (status_of pc) then 1 else 0)"
    by (cases pc; simp)+
  with Cons show "- int (length (filter popped_call (map status_of (pc # ts)))) \<le> sum_list (map debt (pc # ts))"
    "sum_list (map debt (pc # ts)) \<le> int (length (filter pushed_call (map status_of (pc # ts))))"
    by (simp_all split: if_splits)
qed simp_all

lemma size_result_now:
  assumes "queue_inv q ts ns"
  shows "size_result (fifo_of q ts ns) (queue_size q)"
proof -
  define D where "D = sum_list (map debt ts)"
  have "ns \<noteq> []" using linked_not_Nil assms unfolding queue_inv_def by blast
  then have "int (length (list_items (lq_nodes q) ns)) = int (length ns) - 1" by (cases ns) (simp_all add: list_items_def)
  then have "lq_size q = word_of_int (int (length (list_items (lq_nodes q) ns)) + - D)"
    using assms by (simp add: queue_inv_def D_def)
  then have "int (queue_size q) = (int (length (list_items (lq_nodes q) ns)) + - D) mod 2 ^ 64"
    using uint_word_of_int [of "int (length (list_items (lq_nodes q) ns)) + - D", where 'a = 64]
    unfolding queue_size_def by simp
  moreover have "- int (length (filter pushed_call (map status_of ts))) \<le> - D" "- D \<le> int (length (filter popped_call (map status_of ts)))"
    using debt_bounds [of ts] unfolding D_def by linarith+
  ultimately show ?thesis unfolding size_result_def fifo_of_def by (intro bexI [of _ "- D"]) simp_all
qed

lemma wake_idle_same [simp]:
  "lq_nodes (wake_idle q) = lq_nodes q" "lq_head_ptr (wake_idle q) = lq_head_ptr q"
  "lq_tail_ptr (wake_idle q) = lq_tail_ptr q" "lq_size (wake_idle q) = lq_size q"
  "lq_tail_mutex (wake_idle q) = lq_tail_mutex q" "lq_head_mutex (wake_idle q) = lq_head_mutex q"
  by (simp_all add: wake_idle_def notify_one_def update_consumer_def split: option.split)

lemma with_node_quiet:
  assumes "a \<in> dom (lq_nodes q)" "\<And>n. lq_nodes q a = Some n \<Longrightarrow> good_step q ts ns i (k n)"
  shows "good_step q ts ns i (with_node a q k)"
  using assms by (auto simp: with_node_def)


lemma push_quiet:
  assumes inv: "queue_inv q ts ns" and i: "i < length ts"
    and pc: "ts ! i = Push_wait x \<or> ts ! i = Push_lock x p \<or> ts ! i = Push_wake x"
  shows "good_step q ts ns i (push_step M i a (ts ! i) q)"
  using pc
proof (elim disjE)
  note t = queue_inv_thread [OF inv i]
  assume pc: "ts ! i = Push_wait x"
  show ?thesis unfolding pc push_step.simps
    by (rule quiet_step [OF inv i]) (use i pc t in \<open>auto intro!: fifo_of_quiet simp: thread_ok_def split: if_splits\<close>)
next
  note t = queue_inv_thread [OF inv i]
  assume pc: "ts ! i = Push_lock x p"
  show ?thesis
  proof (cases "lq_tail_mutex q")
    case None
    show ?thesis unfolding pc push_step.simps None
      by (simp, rule quiet_step [OF inv i]) (use i pc t None in \<open>auto intro!: fifo_of_quiet simp: thread_ok_def\<close>)
  qed (simp add: pc)
next
  note t = queue_inv_thread [OF inv i]
  assume pc: "ts ! i = Push_wake x"
  show ?thesis unfolding pc push_step.simps
    by (rule quiet_step [OF inv i], rule_tac [12] ret_spec) (use i pc t in \<open>auto simp: thread_ok_def\<close>)
qed


lemma mset_dom_new: "finite (dom h) \<Longrightarrow> h a = None \<Longrightarrow> mset_set (dom (h(a \<mapsto> n))) = add_mset a (mset_set (dom h))"
  by (simp add: domIff)

lemma mset_dom_upd: "a \<in> dom h \<Longrightarrow> dom (h(a \<mapsto> n)) = dom h"
  by auto

lemma mset_dom_del:
  assumes "finite (dom h)" "a \<in> dom h"
  shows "mset_set (dom h) = add_mset a (mset_set (dom (h(a := None))))"
  using assms mset_set.remove [of "dom h" a] by (simp add: dom_fun_upd)

lemma queue_inv_list:
  assumes "queue_inv q ts ns"
  shows "linked (lq_nodes q) ns" "hd ns = lq_head_ptr q" "finite (dom (lq_nodes q))" "ns \<noteq> []"
    "set ns \<subseteq> dom (lq_nodes q)" "distinct ns" "set (tl ns) \<subseteq> set ns" "last ns \<in> set ns" "hd ns \<in> set ns"
proof -
  show l: "linked (lq_nodes q) ns" and "hd ns = lq_head_ptr q" "finite (dom (lq_nodes q))"
    using assms by (simp_all add: queue_inv_def)
  show "ns \<noteq> []" "set ns \<subseteq> dom (lq_nodes q)" using linked_not_Nil [OF l] linked_dom [OF l] .
  then show "set (tl ns) \<subseteq> set ns" "last ns \<in> set ns" "hd ns \<in> set ns" by (auto intro: list.set_sel(2))
  show "distinct ns" by (rule queue_inv_distinct [OF assms])
qed

lemma hd_tl_in: "tl ns \<noteq> [] \<Longrightarrow> hd (tl ns) \<in> set ns"
  by (cases ns; cases "tl ns") auto

text \<open>A step that changes one node: a new one, or one that is not on the list.\<close>

lemma node_step:
  assumes inv: "queue_inv q ts ns" and i: "i < length ts" and q': "q' = write_node a n (q\<lparr>lq_next_version := v\<rparr>)"
    and a: "lq_nodes q a = None \<and> owned pc' = add_mset a (owned (ts ! i))
        \<or> a \<in># owned (ts ! i) \<and> owned pc' = owned (ts ! i)"
    and pcs: "debt pc' = debt (ts ! i)" "holds_tail pc' = holds_tail (ts ! i)" "holds_head pc' = holds_head (ts ! i)"
      "shared_pc pc'" "\<not> tail_busy (ts ! i)" "\<not> tail_busy pc'" "status_of pc' = status_of (ts ! i)"
    and self: "node_ok (lq_nodes q') ns pc'"
  shows "good_step q ts ns i (Stepped q' pc' [])"
proof -
  note l = queue_inv_list [OF inv] and t = queue_inv_thread [OF inv i]
  have nodes: "lq_nodes q' = (lq_nodes q)(a \<mapsto> n)" and same: "lq_head_ptr q' = lq_head_ptr q"
    "lq_tail_ptr q' = lq_tail_ptr q" "lq_size q' = lq_size q" "lq_tail_mutex q' = lq_tail_mutex q"
    "lq_head_mutex q' = lq_head_mutex q" "lq_consumers q' = lq_consumers q"
    by (simp_all add: q' write_node_def)
  have off: "a \<notin> set ns" using a owned_private [OF inv i] l(5) by blast
  have items: "list_items (lq_nodes q') ns = list_items (lq_nodes q) ns"
    by (rule list_items_cong) (use off l nodes in auto)
  show ?thesis
  proof (rule good_stepI, rule queue_inv_step [OF inv i])
    show "linked (lq_nodes q') ns" using l(1) off nodes linked_cong [of ns "lq_nodes q'" "lq_nodes q"] by fastforce
    show "mset ns + (R + owned pc') = mset_set (dom (lq_nodes q'))"
      if "mset ns + (R + owned (ts ! i)) = mset_set (dom (lq_nodes q))" for R
      using a
    proof
      assume "lq_nodes q a = None \<and> owned pc' = add_mset a (owned (ts ! i))"
      with that l(3) show ?thesis unfolding nodes by (simp add: domIff)
    next
      assume a: "a \<in># owned (ts ! i) \<and> owned pc' = owned (ts ! i)"
      with owned_private(2) [OF inv i] that show ?thesis unfolding nodes by (simp add: insert_absorb)
    qed
    show "tail_busy pc' \<or> lq_tail_ptr q' = last ns" if "lq_tail_mutex q' = None \<or> lq_tail_mutex q' = Some i"
      using tail_is_last [OF inv _ i pcs(5)] that same by simp
    show "node_ok (lq_nodes q') ns (ts ! j)" if j: "j < length ts" "j \<noteq> i" "thread_ok q ns j (ts ! j)" for j
    proof (rule node_ok_frame)
      show "lq_nodes q' b = lq_nodes q b" if "b \<in># owned (ts ! j)" for b
        using a owned_private [OF inv j(1) that] owned_private(3) [OF inv i _ j(1,2)] that nodes by fastforce
      show "tl ns \<noteq> [] \<and> hd (tl ns) = hd (tl ns)
            \<and> node_data (the (lq_nodes q' (hd (tl ns)))) = node_data (the (lq_nodes q (hd (tl ns))))" if "tl ns \<noteq> []"
        using that off l(7) nodes by (auto dest: list.set_sel)
    qed (use j in \<open>auto simp: thread_ok_def\<close>)
    show "run_spec fifo_step [] (fifo_of q ts ns) = Some (fifo_of q' (ts[i := pc']) ns)"
      using items i pcs same by (auto intro: fifo_of_quiet)
  qed (use same pcs self l t nodes in \<open>auto simp: thread_ok_def\<close>)
qed

lemma push_nodes:
  assumes inv: "queue_inv q ts ns" and i: "i < length ts" and pc: "ts ! i = Push_create x \<or> ts ! i = Push_version x p"
  shows "good_step q ts ns i (push_step M i a (ts ! i) q)"
  using pc
proof
  note t = queue_inv_thread [OF inv i]
  assume pc: "ts ! i = Push_create x"
  show ?thesis
  proof (cases "lq_nodes q a")
    case None
    show ?thesis unfolding pc push_step.simps None
      by (simp, rule node_step [OF inv i, where v = "lq_next_version q" and a = a
            and n = "\<lparr>node_data = x, node_next = None, node_version = 0\<rparr>"])
        (use pc None t in \<open>auto simp: write_node_def fresh_node_def\<close>)
  qed (simp add: pc)
next
  note t = queue_inv_thread [OF inv i]
  assume pc: "ts ! i = Push_version x p"
  show ?thesis unfolding pc push_step.simps Let_def
  proof (rule with_node_quiet)
    show "p \<in> dom (lq_nodes q)" using t(4) pc by (auto simp: fresh_node_def)
    fix n assume n: "lq_nodes q p = Some n"
    show "good_step q ts ns i (Stepped (write_node p (n\<lparr>node_version := lq_next_version q + 2\<rparr>)
        (q\<lparr>lq_next_version := lq_next_version q + 2\<rparr>)) (Push_link x p) [])"
      by (rule node_step [OF inv i, where v = "lq_next_version q + 2" and a = p
            and n = "n\<lparr>node_version := lq_next_version q + 2\<rparr>"])
        (use pc n t in \<open>auto simp: write_node_def fresh_node_def\<close>)
  qed
qed


text \<open>The step that makes an item visible: the node is linked behind the last one.\<close>

lemma push_link:
  assumes inv: "queue_inv q ts ns" and i: "i < length ts" and pc: "ts ! i = Push_link x p"
  shows "good_step q ts ns i (push_step M i a (ts ! i) q)"
proof -
  note l = queue_inv_list [OF inv] and t = queue_inv_thread [OF inv i]
  have tail: "lq_tail_ptr q = last ns" using tail_is_last [OF inv _ i] pc t by simp
  obtain n where n: "lq_nodes q p = Some n" "node_data n = x" "node_next n = None"
    using t(4) pc by (auto simp: fresh_node_def)
  obtain m where m: "lq_nodes q (last ns) = Some m" using l by blast
  have off: "p \<notin> set ns" using owned_private(1) [OF inv i] pc by simp
  let ?q = "write_node (last ns) (m\<lparr>node_next := Some p\<rparr>) q"
  have nodes: "lq_nodes ?q = (lq_nodes q)(last ns \<mapsto> m\<lparr>node_next := Some p\<rparr>)" by (simp add: write_node_def)
  have dom: "dom (lq_nodes ?q) = dom (lq_nodes q)" unfolding nodes using m by auto
  have "list_items (lq_nodes ?q) (ns @ [p]) = list_items (lq_nodes q) (ns @ [p])"
    by (rule list_items_cong) (use off l m n nodes in \<open>auto dest: in_set_butlastD\<close>)
  also have "\<dots> = list_items (lq_nodes q) ns @ [x]" using l(4) n by (simp add: list_items_def)
  finally have items: "list_items (lq_nodes ?q) (ns @ [p]) = list_items (lq_nodes q) ns @ [x]" .
  have "good_step q ts ns i (Stepped ?q (Push_swing x p) [Enq i x])"
  proof (rule good_stepI, rule queue_inv_step [OF inv i])
    show "linked (lq_nodes ?q) (ns @ [p])" unfolding nodes by (rule linked_snoc) (use l off n m in auto)
    show "mset (ns @ [p]) + (R + owned (Push_swing x p)) = mset_set (dom (lq_nodes ?q))"
      if "mset ns + (R + owned (ts ! i)) = mset_set (dom (lq_nodes q))" for R
      using that dom pc by simp
    show "lq_size ?q = word_of_int (int (length (ns @ [p])) - 1 - (D + debt (Push_swing x p)))"
      if "lq_size q = word_of_int (int (length ns) - 1 - (D + debt (ts ! i)))" for D
      using that pc by (simp add: write_node_def)
    show "node_ok (lq_nodes ?q) (ns @ [p]) (ts ! j)" if j: "j < length ts" "j \<noteq> i" "thread_ok q ns j (ts ! j)" for j
    proof (rule node_ok_frame)
      show "lq_nodes ?q b = lq_nodes q b" if "b \<in># owned (ts ! j)" for b
        using owned_private(1) [OF inv j(1) that] l nodes by auto
      show "last (ns @ [p]) = last ns" if "holds_tail (ts ! j)"
        using that j t pc by (simp add: thread_ok_def)
      show "tl (ns @ [p]) \<noteq> [] \<and> hd (tl (ns @ [p])) = hd (tl ns)
            \<and> node_data (the (lq_nodes ?q (hd (tl ns)))) = node_data (the (lq_nodes q (hd (tl ns))))" if "tl ns \<noteq> []"
        using that l(4) m nodes by (cases ns) auto
    qed (use j in \<open>auto simp: thread_ok_def\<close>)
    show "run_spec fifo_step [Enq i x] (fifo_of q ts ns) = Some (fifo_of ?q (ts[i := Push_swing x p]) (ns @ [p]))"
      using i pc items by (simp add: fifo_set_def fifo_of_def fifo_status_def map_update)
  qed (use l t pc dom in \<open>auto simp: write_node_def thread_ok_def\<close>)
  then show ?thesis unfolding pc push_step.simps tail using m by (simp add: with_node_def)
qed

text \<open>The steps on the tail pointer and on the counter.\<close>

lemma end_step:
  assumes inv: "queue_inv q ts ns" and i: "i < length ts"
    and same: "lq_nodes q' = lq_nodes q" "lq_head_ptr q' = lq_head_ptr q" "lq_tail_mutex q' = lq_tail_mutex q"
      "lq_head_mutex q' = lq_head_mutex q" "lq_consumers q' = lq_consumers q"
    and size: "lq_size q' = lq_size q + word_of_int (debt (ts ! i) - debt pc')"
    and tail: "lq_tail_ptr q' = lq_tail_ptr q \<and> \<not> tail_busy (ts ! i) \<or> holds_tail (ts ! i) \<and> lq_tail_ptr q' = last ns"
    and pcs: "owned pc' = owned (ts ! i)" "\<not> tail_busy pc'" "status_of pc' = (if es = [] then status_of (ts ! i) else Idle)"
      "es = [] \<or> pc' = Ready \<and> (\<exists>r. es = [Ret i r] \<and> status_of (ts ! i) = Done r)"
    and self: "thread_ok q' ns i pc'"
  shows "good_step q ts ns i (Stepped q' pc' es)"
proof (rule good_stepI, rule queue_inv_step [OF inv i])
  note t = queue_inv_thread [OF inv i]
  show "lq_size q' = word_of_int (int (length ns) - 1 - (D + debt pc'))"
    if "lq_size q = word_of_int (int (length ns) - 1 - (D + debt (ts ! i)))" for D
  proof -
    have "int (length ns) - 1 - (D + debt pc') = (int (length ns) - 1 - (D + debt (ts ! i))) + (debt (ts ! i) - debt pc')"
      by simp
    then show ?thesis using that size by (metis of_int_add)
  qed
  show "tail_busy pc' \<or> lq_tail_ptr q' = last ns" if "lq_tail_mutex q' = None \<or> lq_tail_mutex q' = Some i"
    using tail tail_is_last [OF inv _ i] that same by auto
  show "lq_tail_ptr q' = lq_tail_ptr q \<and> last ns = last ns"
    if "lq_tail_mutex q' \<noteq> None" "lq_tail_mutex q' \<noteq> Some i"
    using tail that same t by auto
  show "node_ok (lq_nodes q') ns (ts ! j)" if "thread_ok q ns j (ts ! j)" for j
    using that same by (simp add: thread_ok_def)
  show "run_spec fifo_step es (fifo_of q ts ns) = Some (fifo_of q' (ts[i := pc']) ns)"
    using pcs(4)
  proof
    assume "es = []"
    then show ?thesis using i pcs same by (auto intro: fifo_of_quiet)
  next
    assume "pc' = Ready \<and> (\<exists>r. es = [Ret i r] \<and> status_of (ts ! i) = Done r)"
    then show ?thesis using i same by (auto intro: ret_spec simp del: run_spec.simps)
  qed
qed (use queue_inv_list [OF inv] same pcs self in \<open>auto simp: queue_inv_def\<close>)

lemma push_ends:
  assumes inv: "queue_inv q ts ns" and i: "i < length ts" and pc: "ts ! i = Push_swing x p \<or> ts ! i = Push_count x"
  shows "good_step q ts ns i (push_step M i a (ts ! i) q)"
  using pc
proof
  assume pc: "ts ! i = Push_swing x p"
  show ?thesis unfolding pc push_step.simps
    by (rule end_step [OF inv i]) (use pc queue_inv_thread [OF inv i] in \<open>auto simp: thread_ok_def\<close>)
next
  assume pc: "ts ! i = Push_count x"
  show ?thesis unfolding pc push_step.simps
    by (rule end_step [OF inv i]) (use pc queue_inv_thread [OF inv i] in \<open>auto simp: thread_ok_def\<close>)
qed

lemma push_good:
  assumes "queue_inv q ts ns" "i < length ts" "part_of (ts ! i) = Push_part"
  shows "good_step q ts ns i (push_step M i a (ts ! i) q)"
  using assms(3) push_quiet [OF assms(1,2)] push_nodes [OF assms(1,2)] push_link [OF assms(1,2)] push_ends [OF assms(1,2)]
  by (cases "ts ! i") auto


section \<open>The steps of pop\<close>

lemma deq_quiet:
  assumes inv: "queue_inv q ts ns" and i: "i < length ts"
    and pc: "ts ! i = Deq_lock w \<or> ts ! i = Deq_read w \<or> ts ! i = Deq_empty w \<or> ts ! i = Deq_copy w p"
  shows "good_step q ts ns i (dequeue i (ts ! i) q)"
  using pc
proof (elim disjE)
  note t = queue_inv_thread [OF inv i]
  assume pc: "ts ! i = Deq_lock w"
  show ?thesis
  proof (cases "lq_head_mutex q")
    case None
    show ?thesis unfolding pc dequeue.simps None
      by (simp, rule quiet_step [OF inv i]) (use i pc t None in \<open>auto intro!: fifo_of_quiet simp: thread_ok_def\<close>)
  qed (simp add: pc)
next
  note t = queue_inv_thread [OF inv i] and l = queue_inv_list [OF inv]
  assume pc: "ts ! i = Deq_read w"
  obtain n where n: "lq_nodes q (lq_head_ptr q) = Some n" "node_next n = (if tl ns = [] then None else Some (hd (tl ns)))"
    using linked_hd [OF l(1)] l(2) by metis
  show ?thesis
  proof (cases "tl ns = []")
    case True
    have "good_step q ts ns i (Stepped q (Deq_empty w) (if w then [] else [Saw_empty i]))"
    proof (rule quiet_step [OF inv i])
      show "run_spec fifo_step (if w then [] else [Saw_empty i]) (fifo_of q ts ns)
          = Some (fifo_of q (ts[i := Deq_empty w]) ns)"
      proof (cases w)
        case True
        then show ?thesis using i pc by (auto intro: fifo_of_quiet)
      next
        case False
        with \<open>tl ns = []\<close> show ?thesis using i pc
          by (simp add: fifo_set_def fifo_of_def fifo_status_def map_update list_items_def)
      qed
    qed (use pc t in \<open>auto simp: thread_ok_def\<close>)
    then show ?thesis unfolding pc dequeue.simps with_node_def n(1) using n(2) True by simp
  next
    case False
    have "good_step q ts ns i (Stepped q (Deq_copy w (hd (tl ns))) [])"
      by (rule quiet_step [OF inv i]) (use i pc t False in \<open>auto intro!: fifo_of_quiet simp: thread_ok_def\<close>)
    then show ?thesis unfolding pc dequeue.simps with_node_def n(1) using n(2) False by simp
  qed
next
  note t = queue_inv_thread [OF inv i] and l = queue_inv_list [OF inv]
  assume pc: "ts ! i = Deq_empty w"
  show ?thesis unfolding pc dequeue.simps
  proof (rule with_node_quiet)
    show "lq_head_ptr q \<in> dom (lq_nodes q)" using l(2,5,9) by auto
    show "good_step q ts ns i (Stepped (q\<lparr>lq_head_mutex := None\<rparr>) (if w then Wait_lock (node_version n) else Ready)
        (if w then [] else [Ret i Nothing]))" for n
    proof (rule quiet_step [OF inv i])
      show "run_spec fifo_step (if w then [] else [Ret i Nothing]) (fifo_of q ts ns)
          = Some (fifo_of (q\<lparr>lq_head_mutex := None\<rparr>) (ts[i := if w then Wait_lock (node_version n) else Ready]) ns)"
        by (cases w) (use i pc in \<open>auto intro!: fifo_of_quiet ret_spec simp del: run_spec.simps(2)\<close>)
    qed (use pc t in \<open>auto simp: thread_ok_def\<close>)
  qed
next
  note t = queue_inv_thread [OF inv i] and l = queue_inv_list [OF inv]
  assume pc: "ts ! i = Deq_copy w p"
  show ?thesis unfolding pc dequeue.simps
  proof (rule with_node_quiet)
    show "p \<in> dom (lq_nodes q)" using t(4) l(5,7) pc list.set_sel(1) [of "tl ns"] by auto
    show "good_step q ts ns i (Stepped q (Deq_advance w (node_data n) p) [])" if "lq_nodes q p = Some n" for n
      by (rule quiet_step [OF inv i]) (use i pc t that in \<open>auto intro!: fifo_of_quiet simp: thread_ok_def\<close>)
  qed
qed

text \<open>The step that takes the item: the head moves, and the old head is the thread's own node.\<close>

lemma deq_advance:
  assumes inv: "queue_inv q ts ns" and i: "i < length ts" and pc: "ts ! i = Deq_advance w x p"
  shows "good_step q ts ns i (dequeue i (ts ! i) q)"
proof -
  note l = queue_inv_list [OF inv] and t = queue_inv_thread [OF inv i]
  have tl: "tl ns \<noteq> []" "hd (tl ns) = p" "node_data (the (lq_nodes q p)) = x" using t(4) pc by auto
  have ms: "mset ns = add_mset (lq_head_ptr q) (mset (tl ns))" "int (length (tl ns)) = int (length ns) - 1"
    "last (tl ns) = last ns"
    using l(2,4) tl(1) by (cases ns; simp)+
  let ?q = "q\<lparr>lq_head_ptr := p, lq_head_mutex := None\<rparr>"
  show ?thesis unfolding pc dequeue.simps
  proof (rule good_stepI, rule queue_inv_step [OF inv i])
    show "linked (lq_nodes ?q) (tl ns)" using linked_tl [OF l(1) tl(1)] by simp
    show "mset (tl ns) + (R + owned (Deq_free x (lq_head_ptr q))) = mset_set (dom (lq_nodes ?q))"
      if "mset ns + (R + owned (ts ! i)) = mset_set (dom (lq_nodes q))" for R
      using that pc ms(1) by simp
    show "lq_size ?q = word_of_int (int (length (tl ns)) - 1 - (D + debt (Deq_free x (lq_head_ptr q))))"
      if "lq_size q = word_of_int (int (length ns) - 1 - (D + debt (ts ! i)))" for D
      using that pc unfolding ms(2) by simp
    show "tail_busy (Deq_free x (lq_head_ptr q)) \<or> lq_tail_ptr ?q = last (tl ns)"
      if "lq_tail_mutex ?q = None \<or> lq_tail_mutex ?q = Some i"
      using tail_is_last [OF inv _ i] that pc ms(3) by simp
    show "node_ok (lq_nodes ?q) (tl ns) (ts ! j)" if j: "j < length ts" "j \<noteq> i" "thread_ok q ns j (ts ! j)" for j
    proof (rule node_ok_frame)
      show "tl (tl ns) \<noteq> [] \<and> hd (tl (tl ns)) = hd (tl ns)
            \<and> node_data (the (lq_nodes ?q (hd (tl ns)))) = node_data (the (lq_nodes q (hd (tl ns))))"
        if "holds_head (ts ! j)"
        using that j t pc by (simp add: thread_ok_def)
    qed (use j ms(3) in \<open>auto simp: thread_ok_def\<close>)
    show "run_spec fifo_step [Deq i x] (fifo_of q ts ns)
        = Some (fifo_of ?q (ts[i := Deq_free x (lq_head_ptr q)]) (tl ns))"
      using i pc list_items_unlink [OF tl(1), of "lq_nodes q"] tl
      by (simp add: fifo_set_def fifo_of_def fifo_status_def map_update)
  qed (use l t tl pc ms(3) in \<open>auto simp: thread_ok_def\<close>)
qed

lemma deq_free:
  assumes inv: "queue_inv q ts ns" and i: "i < length ts" and pc: "ts ! i = Deq_free x p"
  shows "good_step q ts ns i (dequeue i (ts ! i) q)"
proof -
  note l = queue_inv_list [OF inv] and t = queue_inv_thread [OF inv i]
  have own: "p \<in># owned (ts ! i)" using pc by simp
  note off = owned_private [OF inv i own]
  let ?q = "destroyNode p q"
  have nodes: "lq_nodes ?q = (lq_nodes q)(p := None)" by (simp add: destroyNode_def)
  have same: "lq_nodes ?q a = lq_nodes q a" if "a \<in> set ns" for a using that off(1) nodes by auto
  have items: "list_items (lq_nodes ?q) ns = list_items (lq_nodes q) ns"
    by (rule list_items_cong) (use same l(5,7) in auto)
  have "good_step q ts ns i (Stepped ?q (Deq_count x) [])"
  proof (rule good_stepI, rule queue_inv_step [OF inv i])
    show "linked (lq_nodes ?q) ns" using l(1) linked_cong [of ns "lq_nodes ?q" "lq_nodes q"] same by simp
    show "mset ns + (R + owned (Deq_count x)) = mset_set (dom (lq_nodes ?q))"
      if "mset ns + (R + owned (ts ! i)) = mset_set (dom (lq_nodes q))" for R
      using that pc mset_dom_del [OF l(3) off(2)] nodes by simp
    show "tail_busy (Deq_count x) \<or> lq_tail_ptr ?q = last ns" if "lq_tail_mutex ?q = None \<or> lq_tail_mutex ?q = Some i"
      using tail_is_last [OF inv _ i] that pc by (simp add: destroyNode_def)
    show "node_ok (lq_nodes ?q) ns (ts ! j)" if j: "j < length ts" "j \<noteq> i" "thread_ok q ns j (ts ! j)" for j
    proof (rule node_ok_frame)
      show "lq_nodes ?q b = lq_nodes q b" if "b \<in># owned (ts ! j)" for b
        using off(3) [OF j(1,2)] that nodes by auto
      show "tl ns \<noteq> [] \<and> hd (tl ns) = hd (tl ns)
            \<and> node_data (the (lq_nodes ?q (hd (tl ns)))) = node_data (the (lq_nodes q (hd (tl ns))))" if "tl ns \<noteq> []"
        using same [OF hd_tl_in [OF that]] that by simp
    qed (use j in \<open>auto simp: thread_ok_def\<close>)
    show "run_spec fifo_step [] (fifo_of q ts ns) = Some (fifo_of ?q (ts[i := Deq_count x]) ns)"
      using i pc items by (auto intro: fifo_of_quiet)
  qed (use l t pc in \<open>auto simp: thread_ok_def destroyNode_def\<close>)
  then show ?thesis unfolding pc dequeue.simps using off(2) by (auto simp: with_node_def)
qed

lemma deq_good:
  assumes inv: "queue_inv q ts ns" and i: "i < length ts" and "part_of (ts ! i) = Deq_part"
  shows "good_step q ts ns i (dequeue i (ts ! i) q)"
proof -
  have "good_step q ts ns i (dequeue i (ts ! i) q)" if pc: "ts ! i = Deq_count x" for x
    unfolding pc dequeue.simps
    by (rule end_step [OF inv i]) (use pc queue_inv_thread [OF inv i] in \<open>auto simp: thread_ok_def\<close>)
  then show ?thesis
    using assms(3) deq_quiet [OF inv i] deq_advance [OF inv i] deq_free [OF inv i] by (cases "ts ! i") auto
qed


lemma wait_good:
  assumes inv: "queue_inv q ts ns" and i: "i < length ts" and part: "part_of (ts ! i) = Wait_part"
  shows "good_step q ts ns i (pop_wait_step i (ts ! i) q)"
proof -
  note t = queue_inv_thread [OF inv i] and l = queue_inv_list [OF inv]
  show ?thesis
  proof (cases "ts ! i")
    case pc: Wait_run
    show ?thesis
    proof (cases "m_is_running (lq_consumers q i)")
      case True
      show ?thesis unfolding pc pop_wait_step.simps if_P [OF True]
        by (rule quiet_step [OF inv i]) (use i pc t in \<open>auto intro!: fifo_of_quiet simp: thread_ok_def\<close>)
    next
      case False
      show ?thesis unfolding pc pop_wait_step.simps if_not_P [OF False]
        by (rule quiet_step [OF inv i], rule_tac [12] local_spec) (use i pc t False in \<open>auto simp: thread_ok_def\<close>)
    qed
  next
    case pc: (Wait_lock v)
    show ?thesis
    proof (cases "lq_tail_mutex q")
      case None
      show ?thesis unfolding pc pop_wait_step.simps None
        by (simp, rule quiet_step [OF inv i]) (use i pc t None in \<open>auto intro!: fifo_of_quiet simp: thread_ok_def\<close>)
    qed (simp add: pc)
  next
    case pc: (Wait_check v)
    have "lq_tail_ptr q = last ns" using tail_is_last [OF inv _ i] t(1) pc by simp
    then have dom: "lq_tail_ptr q \<in> dom (lq_nodes q)" using l(5,8) by (metis subsetD)
    have sleep: "good_step q ts ns i (Stepped
        ((update_consumer i (\<lambda>t. t\<lparr>m_next_ptr := lq_idle_ptr q, m_wakeup_event := True\<rparr>) q)
           \<lparr>lq_idle_ptr := Some i, lq_tail_mutex := None\<rparr>) Waiting [])"
      by (rule quiet_step [OF inv i])
        (use i pc t in \<open>auto intro!: fifo_of_quiet simp: thread_ok_def update_consumer_def split: if_splits\<close>)
    have again: "good_step q ts ns i (Stepped (q\<lparr>lq_tail_mutex := None\<rparr>) Wait_run [])"
      by (rule quiet_step [OF inv i]) (use i pc t in \<open>auto intro!: fifo_of_quiet simp: thread_ok_def\<close>)
    show ?thesis unfolding pc pop_wait_step.simps
      by (rule with_node_quiet [OF dom]) (use sleep again in simp)
  next
    case pc: Waiting
    show ?thesis
    proof (cases "m_wakeup_event (lq_consumers q i) \<or> lq_tail_mutex q \<noteq> None")
      case False
      show ?thesis unfolding pc pop_wait_step.simps if_not_P [OF False]
        by (rule quiet_step [OF inv i]) (use i pc t in \<open>auto intro!: fifo_of_quiet simp: thread_ok_def\<close>)
    qed (simp add: pc)
  qed (use part in auto)
qed

section \<open>The steps of the other operations\<close>

lemma clear_lock:
  assumes inv: "queue_inv q ts ns" and i: "i < length ts" and pc: "ts ! i = Clear_tail d \<or> ts ! i = Clear_head d"
  shows "good_step q ts ns i (clear_step i (ts ! i) q)"
  using pc
proof
  note t = queue_inv_thread [OF inv i]
  assume pc: "ts ! i = Clear_tail d"
  show ?thesis
  proof (cases "lq_tail_mutex q")
    case None
    show ?thesis unfolding pc clear_step.simps None
      by (simp, rule quiet_step [OF inv i]) (use i pc t None in \<open>auto intro!: fifo_of_quiet simp: thread_ok_def\<close>)
  qed (simp add: pc)
next
  note t = queue_inv_thread [OF inv i] and l = queue_inv_list [OF inv]
  assume pc: "ts ! i = Clear_head d"
  show ?thesis
  proof (cases "lq_head_mutex q")
    case None
    have "good_step q ts ns i (Stepped (q\<lparr>lq_head_mutex := Some i\<rparr>) (Clear_loop d) [])"
    proof (rule good_stepI, rule queue_inv_step [OF inv i])
      show "run_spec fifo_step [] (fifo_of q ts ns)
          = Some (fifo_of (q\<lparr>lq_head_mutex := Some i\<rparr>) (ts[i := Clear_loop d]) ns)"
        using i pc by (auto intro: fifo_of_quiet)
    qed (use l t pc None in \<open>auto simp: thread_ok_def\<close>)
    then show ?thesis by (simp add: pc None)
  qed (simp add: pc)
qed

text \<open>Both locks are held: no other thread is on the list.\<close>

lemma clear_others:
  assumes inv: "queue_inv q ts ns" and i: "i < length ts" "ts ! i = Clear_loop d"
    and j: "j < length ts" "j \<noteq> i" and same: "\<And>a. a \<in># owned (ts ! j) \<Longrightarrow> lq_nodes q' a = lq_nodes q a"
  shows "node_ok (lq_nodes q') ns' (ts ! j)"
  by (rule node_ok_frame [OF queue_inv_thread(4) [OF inv j(1)] same])
    (use queue_inv_thread(1,2) [OF inv i(1)] queue_inv_thread(1,2) [OF inv j(1)] i j in auto)

lemma clear_drop:
  assumes inv: "queue_inv q ts ns" and i: "i < length ts" and pc: "ts ! i = Clear_loop d" and tl: "tl ns \<noteq> []"
    and m: "lq_nodes q (hd (tl ns)) = Some m"
  shows "good_step q ts ns i (Stepped (destroyNode (lq_head_ptr q)
           (q\<lparr>lq_tail_ptr := lq_head_ptr q, lq_head_ptr := hd (tl ns), lq_size := lq_size q - 1\<rparr>))
         (Clear_loop d) [Drop i (node_data m)])"
proof -
  note t = queue_inv_thread [OF inv i] and l = queue_inv_list [OF inv]
  let ?h = "lq_head_ptr q"
  let ?q = "destroyNode ?h (q\<lparr>lq_tail_ptr := ?h, lq_head_ptr := hd (tl ns), lq_size := lq_size q - 1\<rparr>)"
  have nodes: "lq_nodes ?q = (lq_nodes q)(?h := None)" by (simp add: destroyNode_def)
  have ms: "mset ns = add_mset ?h (mset (tl ns))" "int (length (tl ns)) = int (length ns) - 1" "?h \<notin> set (tl ns)"
    using l(2,4,6) tl by (cases ns; simp)+
  have h: "?h \<in> dom (lq_nodes q)" "?h \<in> set ns" using l(2,5,9) by auto
  have same: "lq_nodes ?q a = lq_nodes q a" if "a \<in> set (tl ns)" for a using that ms(3) nodes by auto
  have d: "\<not> d" using t(3) pc by simp
  have "set (tl (tl ns)) \<subseteq> set (tl ns)" by (cases "tl ns") auto
  then have "list_items (lq_nodes ?q) (tl ns) = list_items (lq_nodes q) (tl ns)"
    by (intro list_items_cong) (use same l(5,7) in auto)
  then have items: "list_items (lq_nodes q) ns = node_data m # list_items (lq_nodes ?q) (tl ns)"
    using list_items_unlink [OF tl, of "lq_nodes q"] m by simp
  show ?thesis
  proof (rule good_stepI, rule queue_inv_step [OF inv i])
    show "linked (lq_nodes ?q) (tl ns)"
      using linked_tl [OF l(1) tl] linked_cong [of "tl ns" "lq_nodes ?q" "lq_nodes q"] same by simp
    show "mset (tl ns) + (R + owned (Clear_loop d)) = mset_set (dom (lq_nodes ?q))"
      if "mset ns + (R + owned (ts ! i)) = mset_set (dom (lq_nodes q))" for R
      using that pc mset_dom_del [OF l(3) h(1)] nodes ms(1) by simp
    show "lq_size ?q = word_of_int (int (length (tl ns)) - 1 - (D + debt (Clear_loop d)))"
      if "lq_size q = word_of_int (int (length ns) - 1 - (D + debt (ts ! i)))" for D
      using that pc unfolding ms(2) by (simp add: destroyNode_def)
    show "node_ok (lq_nodes ?q) (tl ns) (ts ! j)" if j: "j < length ts" "j \<noteq> i" for j
      by (rule clear_others [OF inv i pc j]) (use owned_private(1) [OF inv j(1)] h(2) nodes in auto)
    show "run_spec fifo_step [Drop i (node_data m)] (fifo_of q ts ns)
        = Some (fifo_of ?q (ts[i := Clear_loop d]) (tl ns))"
      using i pc items d by (simp add: fifo_set_def fifo_of_def fifo_status_def map_update)
  qed (use l t pc in \<open>auto simp: thread_ok_def destroyNode_def\<close>)
qed

lemma clear_done:
  assumes inv: "queue_inv q ts ns" and i: "i < length ts" and pc: "ts ! i = Clear_loop d" and tl: "tl ns = []"
  shows "good_step q ts ns i (Stepped (q\<lparr>lq_tail_ptr := lq_head_ptr q, lq_head_mutex := None, lq_tail_mutex := None\<rparr>)
           Ready [Cleared i, Ret i Unit])"
proof -
  note t = queue_inv_thread [OF inv i] and l = queue_inv_list [OF inv]
  let ?q = "q\<lparr>lq_tail_ptr := lq_head_ptr q, lq_head_mutex := None, lq_tail_mutex := None\<rparr>"
  have d: "\<not> d" using t(3) pc by simp
  have ns: "ns = [lq_head_ptr q]" using tl l(2,4) by (cases ns) auto
  show ?thesis
  proof (rule good_stepI, rule queue_inv_step [OF inv i])
    show "node_ok (lq_nodes ?q) ns (ts ! j)" if j: "j < length ts" "j \<noteq> i" for j
      by (rule clear_others [OF inv i pc j]) simp
    show "run_spec fifo_step [Cleared i, Ret i Unit] (fifo_of q ts ns) = Some (fifo_of ?q (ts[i := Ready]) ns)"
      using i pc tl d by (simp add: fifo_set_def fifo_of_def fifo_status_def map_update list_items_def)
    show "linked (lq_nodes ?q) ns" using l(1) by simp
    show "tail_busy Ready \<or> lq_tail_ptr ?q = last ns" by (subst ns) simp
  qed (use l t pc in \<open>auto simp: thread_ok_def\<close>)
qed

lemma clear_good:
  assumes inv: "queue_inv q ts ns" and i: "i < length ts" and part: "part_of (ts ! i) = Clear_part"
  shows "good_step q ts ns i (clear_step i (ts ! i) q)"
proof (cases "ts ! i")
  case pc: (Clear_loop d)
  note l = queue_inv_list [OF inv]
  have d: "\<not> d" using queue_inv_thread(3) [OF inv i] pc by simp
  obtain n where n: "lq_nodes q (lq_head_ptr q) = Some n" "node_next n = (if tl ns = [] then None else Some (hd (tl ns)))"
    using linked_hd [OF l(1)] l(2) by metis
  show ?thesis
  proof (cases "tl ns = []")
    case True
    then show ?thesis using clear_done [OF inv i pc True] n d by (simp add: pc with_node_def)
  next
    case False
    then obtain m where m: "lq_nodes q (hd (tl ns)) = Some m" using hd_tl_in [OF False] l(5) by blast
    show ?thesis using clear_drop [OF inv i pc False m] n m False by (simp add: pc with_node_def)
  qed
qed (use part clear_lock [OF inv i] queue_inv_thread(3) [OF inv i] in auto)

lemma query_good:
  assumes inv: "queue_inv q ts ns" and i: "i < length ts" and part: "part_of (ts ! i) = Query_part"
  shows "good_step q ts ns i (query_step i (ts ! i) q)"
proof (cases "ts ! i")
  case pc: Size_read
  show ?thesis unfolding pc query_step.simps
    by (rule quiet_step [OF inv i], rule_tac [12] local_spec)
      (use i pc queue_inv_thread [OF inv i] size_result_now [OF inv] in \<open>auto simp: thread_ok_def\<close>)
qed (use part queue_inv_thread(3) [OF inv i] in auto)

lemma consumer_good:
  assumes inv: "queue_inv q ts ns" and i: "i < length ts" and part: "part_of (ts ! i) = Consumer_part"
  shows "good_step q ts ns i (consumer_step i (ts ! i) q)"
proof (cases "ts ! i")
  note t = queue_inv_thread [OF inv i]
  case pc: (Stop_flag c)
  show ?thesis unfolding pc consumer_step.simps
    by (rule quiet_step [OF inv i], rule_tac [12] set_running_spec) (use i pc t in \<open>auto simp: thread_ok_def update_consumer_def\<close>)
next
  note t = queue_inv_thread [OF inv i]
  case pc: (Reset_flag c)
  show ?thesis unfolding pc consumer_step.simps
    by (rule quiet_step [OF inv i], rule_tac [12] set_running_spec) (use i pc t in \<open>auto simp: thread_ok_def update_consumer_def\<close>)
next
  note t = queue_inv_thread [OF inv i]
  case pc: (Stop_notify c)
  show ?thesis unfolding pc consumer_step.simps
    by (rule quiet_step [OF inv i], rule_tac [12] ret_spec)
      (use i pc t in \<open>auto simp: thread_ok_def notify_one_def update_consumer_def\<close>)
next
  note t = queue_inv_thread [OF inv i]
  case pc: (Reset_next c)
  show ?thesis unfolding pc consumer_step.simps
    by (rule quiet_step [OF inv i], rule_tac [12] ret_spec)
      (use i pc t in \<open>auto simp: thread_ok_def update_consumer_def\<close>)
qed (use part in auto)

section \<open>The whole system\<close>

lemma thread_good:
  assumes "queue_inv q ts ns" "i < length ts"
  shows "good_step q ts ns i (thread_step M i a (ts ! i) q)"
  using push_good [OF assms] deq_good [OF assms] wait_good [OF assms] clear_good [OF assms] query_good [OF assms]
    consumer_good [OF assms]
  by (cases "part_of (ts ! i)") (simp_all add: thread_step_def)

lemma begin_op_facts:
  "owned (begin_op opn) = {#}" "debt (begin_op opn) = 0" "\<not> tail_busy (begin_op opn)" "\<not> holds_tail (begin_op opn)"
  "\<not> holds_head (begin_op opn)" "node_ok h ns (begin_op opn)" "status_of (begin_op opn) = Pending opn"
  "shared_op opn \<Longrightarrow> shared_pc (begin_op opn)"
  by (cases opn; simp)+

lemma invoke_good:
  assumes inv: "queue_inv q ts ns" and i: "i < length ts" and pc: "ts ! i = Ready" and opn: "shared_op opn"
  shows "good_step q ts ns i (Stepped q (begin_op opn) [Call i opn])"
proof (rule quiet_step [OF inv i])
  show "run_spec fifo_step [Call i opn] (fifo_of q ts ns) = Some (fifo_of q (ts[i := begin_op opn]) ns)"
    using i pc by (simp add: fifo_set_def fifo_of_def fifo_status_def map_update begin_op_facts)
qed (use pc opn queue_inv_thread [OF inv i] in \<open>auto simp: thread_ok_def begin_op_facts\<close>)

lemma notify_one_same [simp]:
  "lq_nodes (notify_one c q) = lq_nodes q" "lq_head_ptr (notify_one c q) = lq_head_ptr q"
  "lq_tail_ptr (notify_one c q) = lq_tail_ptr q" "lq_size (notify_one c q) = lq_size q"
  "lq_tail_mutex (notify_one c q) = lq_tail_mutex q" "lq_head_mutex (notify_one c q) = lq_head_mutex q"
  by (simp_all add: notify_one_def update_consumer_def)

lemma queue_inv_notify: "queue_inv (notify_one c q) ts ns = queue_inv q ts ns"
  by (simp add: queue_inv_def tail_ok_def thread_ok_def cong: option.case_cong)

definition queue_rel :: "'a queue_system \<Rightarrow> 'a fifo \<Rightarrow> bool" where
  "queue_rel s f \<longleftrightarrow> (\<exists>ns. queue_inv (fst s) (snd s) ns \<and> f = fifo_of (fst s) (snd s) ns)"

lemma queue_simulation:
  assumes rel: "queue_rel s f" and act: "shared_action act" and step: "system_step M act s = Some r"
  shows "\<exists>s' es f'. r = Inr (s', es) \<and> run_spec fifo_step es f = Some f' \<and> queue_rel s' f'"
proof -
  obtain q ts where s: "s = (q, ts)" by (cases s)
  obtain ns where inv: "queue_inv q ts ns" and f: "f = fifo_of q ts ns" using rel s by (auto simp: queue_rel_def)
  have good: "\<exists>s' es' f'. Inr ((q', ts[i := pc']), es) = Inr (s', es') \<and> run_spec fifo_step es' f = Some f' \<and> queue_rel s' f'"
    if "good_step q ts ns i (Stepped q' pc' es)" for q' pc' es i
    using that f by (auto simp: good_step_def queue_rel_def)
  show ?thesis
  proof (cases act)
    case (Invoke i opn)
    have i: "i < length ts" and pc: "ts ! i = Ready"
      using step s Invoke by (auto split: queue_pc.splits if_splits)
    have r: "r = Inr ((q, ts[i := begin_op opn]), [Call i opn])" using step s Invoke i pc by simp
    have "shared_op opn" using act Invoke by simp
    from good [OF invoke_good [OF inv i pc this]] show ?thesis unfolding r .
  next
    case (Run i a)
    then have i: "i < length ts" using step s by (auto split: if_splits)
    from thread_good [OF inv i, of M a] step s Run i show ?thesis
      by (cases "thread_step M i a (ts ! i) q") (auto dest: good)
  next
    case (Spurious i)
    have "queue_inv (notify_one i q) ts ns" using inv by (simp add: queue_inv_notify)
    moreover have "f = fifo_of (notify_one i q) ts ns" using f by (simp add: fifo_of_def)
    ultimately have "queue_rel (notify_one i q, ts) f" unfolding queue_rel_def fst_conv snd_conv by blast
    with step s Spurious show ?thesis by auto
  qed
qed

interpretation lq: linearizable "system_step M" shared_action fifo_step queue_rel for M
  by unfold_locales (rule queue_simulation)

lemma sum_replicate_empty: "sum_list (replicate n {#}) = {#}"
  by (induction n) auto

lemma queue_inv_start: "queue_inv (PionLockedQueue_init a junk) (replicate n Ready) [a]"
  by (auto simp: queue_inv_def PionLockedQueue_init_def tail_ok_def thread_ok_def sum_list_replicate sum_replicate_empty)

lemma fifo_of_start: "fifo_of (PionLockedQueue_init a junk) (replicate n Ready) [a] = fifo_init n"
  by (simp add: fifo_of_def fifo_init_def list_items_def PionLockedQueue_init_def ConsumerThread_init_def)

lemma queue_rel_start: "queue_rel (queue_start a junk n) (fifo_init n)"
  unfolding queue_rel_def queue_start_def fst_conv snd_conv
  by (intro exI conjI) (rule queue_inv_start, rule fifo_of_start [symmetric])

lemma queue_run_inv:
  assumes "list_all shared_action acts" and "queue_run M acts (queue_start a junk n) = Inr ((q, ts), es)"
  obtains ns where "queue_inv q ts ns" "fifo_run es (fifo_init n) = Some (fifo_of q ts ns)"
  using lq.runs [OF queue_rel_start assms(1), of M a junk n] assms(2)
  by (auto simp: queue_run_def fifo_run_def queue_rel_def)

end
