(* ===== verification/Locked_Queue_Wake.thy ===== *)
theory Locked_Queue_Wake
  imports Locked_Queue_Steps
begin

text \<open>
  The consumers that wait for items: the versions of the nodes grow along the list, so a consumer
  that finds the version it remembers under the lock of the tail goes to sleep on an empty queue; the idle list holds
  exactly the consumers that sleep, each once; and while one sleeps there are at least as many threads on their way to an
  item, or about to wake a consumer, as items.  These invariants hold as long as no consumer is
  stopped or reset, none wakes up without notification, and the 32-bit versions do not wrap around.
\<close>

section \<open>What wakes consumers up\<close>

fun weight :: "'a queue_pc \<Rightarrow> nat" where
  "weight (Deq_lock w) = of_bool w"
| "weight (Deq_read w) = of_bool w"
| "weight (Deq_empty w) = of_bool w"
| "weight (Deq_copy w p) = of_bool w"
| "weight (Deq_advance w x p) = of_bool w"
| "weight Wait_run = 1"
| "weight (Wait_lock v) = 1"
| "weight (Wait_check v) = 1"
| "weight Waiting = 1"
| "weight (Push_swing x a) = 1"
| "weight (Push_count x) = 1"
| "weight (Push_wake x) = 1"
| "weight pc = 0"

definition version_at :: "'a PionLockedQueue \<Rightarrow> nat \<Rightarrow> nat" where
  "version_at q a = unat (node_version (the (lq_nodes q a)))"

fun version_ok :: "'a PionLockedQueue \<Rightarrow> nat list \<Rightarrow> 'a queue_pc \<Rightarrow> bool" where
  "version_ok q ns (Push_link x p) =
     (version_at q p = unat (lq_next_version q) \<and> list_all (\<lambda>a. version_at q a < unat (lq_next_version q)) ns)"
| "version_ok q ns (Wait_lock v) = (unat v \<le> version_at q (hd ns))"
| "version_ok q ns (Wait_check v) = (unat v \<le> version_at q (hd ns))"
| "version_ok q ns (Stop_flag c) = False"
| "version_ok q ns (Stop_notify c) = False"
| "version_ok q ns (Reset_flag c) = False"
| "version_ok q ns (Reset_next c) = False"
| "version_ok q ns pc = True"

text \<open>The consumers on the idle list, from its first.\<close>

fun idle_list :: "(nat \<Rightarrow> ConsumerThread) \<Rightarrow> nat option \<Rightarrow> nat list \<Rightarrow> bool" where
  "idle_list C p [] = (p = None)"
| "idle_list C p (c # cs) = (p = Some c \<and> idle_list C (m_next_ptr (C c)) cs)"

definition versions_ok :: "'a PionLockedQueue \<Rightarrow> 'a queue_pc list \<Rightarrow> nat list \<Rightarrow> nat \<Rightarrow> bool" where
  "versions_ok q ts ns k \<longleftrightarrow>
     sorted_wrt (\<lambda>a b. version_at q a < version_at q b) ns
     \<and> list_all (\<lambda>a. version_at q a \<le> unat (lq_next_version q)) ns
     \<and> unat (lq_next_version q) \<le> 2 * k + 1
     \<and> (\<forall>j<length ts. version_ok q ns (ts ! j))"

definition idle_ok :: "'a PionLockedQueue \<Rightarrow> 'a queue_pc list \<Rightarrow> nat list \<Rightarrow> nat list \<Rightarrow> bool" where
  "idle_ok q ts ns cs \<longleftrightarrow>
     idle_list (lq_consumers q) (lq_idle_ptr q) cs \<and> distinct cs
     \<and> (\<forall>c. m_wakeup_event (lq_consumers q c) \<longleftrightarrow> c \<in> set cs)
     \<and> (\<forall>c. m_is_running (lq_consumers q c))
     \<and> (\<forall>c\<in>set cs. c < length ts \<and> ts ! c = Waiting)
     \<and> (cs \<noteq> [] \<longrightarrow> length ns - 1 + length cs \<le> sum_list (map weight ts))"

fun wake_action :: "'a queue_action \<Rightarrow> bool" where
  "wake_action (Invoke i (Stop c)) = False"
| "wake_action (Invoke i (Reset c)) = False"
| "wake_action (Invoke i opn) = shared_op opn"
| "wake_action (Run i a) = True"
| "wake_action (Spurious i) = False"

lemma linked_unique: "linked h ns \<Longrightarrow> linked h ms \<Longrightarrow> hd ns = hd ms \<Longrightarrow> ns = ms"
proof (induction h ns arbitrary: ms rule: linked.induct)
  case (2 h a)
  then show ?case by (cases "(h, ms)" rule: linked.cases) (auto split: option.splits)
next
  case (3 h a b ns)
  then obtain ms' where ms: "ms = a # b # ms'" by (cases "(h, ms)" rule: linked.cases) (auto split: option.splits)
  have "b # ns = b # ms'" by (rule "3.IH") (use "3.prems" ms in \<open>auto split: option.splits\<close>)
  with ms show ?case by simp
qed simp

lemma version_ok_frame:
  assumes "version_ok q ns pc" "lq_next_version q' = lq_next_version q"
    and "\<And>a. a \<in># owned pc \<Longrightarrow> version_at q' a = version_at q a"
    and "\<And>a. a \<in> set ns' \<Longrightarrow> a \<in> set ns \<and> version_at q' a = version_at q a"
    and "version_at q (hd ns) \<le> version_at q' (hd ns')"
  shows "version_ok q' ns' pc"
  using assms by (cases pc) (auto simp: list_all_iff)

text \<open>A step that does not lengthen the list and leaves the idle list alone.\<close>

lemma versions_shrink:
  assumes v: "versions_ok q ts ns k" and inv: "queue_inv q ts ns" and i: "i < length ts"
    and ns': "ns' = ns \<or> ns' = tl ns \<and> tl ns \<noteq> []"
    and nv: "lq_next_version q' = lq_next_version q"
    and same: "\<And>a. a \<in> set ns' \<Longrightarrow> version_at q' a = version_at q a"
      "\<And>a j. j < length ts \<Longrightarrow> j \<noteq> i \<Longrightarrow> a \<in># owned (ts ! j) \<Longrightarrow> version_at q' a = version_at q a"
    and self: "version_ok q' ns' pc'"
  shows "versions_ok q' (ts[i := pc']) ns' k"
proof -
  note l = queue_inv_list [OF inv]
  have sub: "set ns' \<subseteq> set ns" using ns' l(7) by auto
  have sorted: "sorted_wrt (\<lambda>a b. version_at q a < version_at q b) ns'"
    using ns' v by (cases ns) (auto simp: versions_ok_def)
  then have "sorted_wrt (\<lambda>a b. version_at q' a < version_at q' b) ns'"
    by (rule sorted_wrt_mono_rel [rotated]) (simp add: same(1))
  moreover have "list_all (\<lambda>a. version_at q' a \<le> unat (lq_next_version q')) ns'"
    using v sub same(1) nv by (auto simp: versions_ok_def list_all_iff)
  moreover have "version_ok q' ns' (ts[i := pc'] ! j)" if j: "j < length ts" for j
  proof (cases "j = i")
    case True
    then show ?thesis using self i by simp
  next
    case False
    have "version_at q (hd ns) \<le> version_at q (hd ns')"
      using ns' v hd_tl_in [of ns] by (cases ns; cases "tl ns") (auto simp: versions_ok_def)
    moreover have "hd ns' \<in> set ns'" using ns' l(9) by (auto intro: hd_in_set)
    ultimately have "version_at q (hd ns) \<le> version_at q' (hd ns')" using same(1) by simp
    then have "version_ok q' ns' (ts ! j)"
      by (intro version_ok_frame [OF _ nv same(2) [OF j False]]) (use v j sub same(1) in \<open>auto simp: versions_ok_def\<close>)
    with False show ?thesis by simp
  qed
  ultimately show ?thesis using v nv by (simp add: versions_ok_def)
qed

lemma idle_frame:
  assumes o: "idle_ok q ts ns cs" and i: "i < length ts"
    and same: "lq_consumers q' = lq_consumers q" "lq_idle_ptr q' = lq_idle_ptr q"
    and pc: "ts ! i \<noteq> Waiting \<or> \<not> m_wakeup_event (lq_consumers q i)"
    and w: "weight (ts ! i) + length ns' \<le> weight pc' + length ns" "ns' \<noteq> []"
  shows "idle_ok q' (ts[i := pc']) ns' cs"
proof -
  obtain r where r: "sum_list (map weight ts) = r + weight (ts ! i)" "\<And>p. sum_list (map weight (ts[i := p])) = r + weight p"
    using sum_list_update [OF i, of weight] by blast
  have "i \<notin> set cs" using o pc by (auto simp: idle_ok_def)
  then have "\<forall>c\<in>set cs. c < length ts \<and> ts[i := pc'] ! c = Waiting"
    using o by (metis idle_ok_def nth_list_update_neq)
  moreover have "length ns' - 1 + length cs \<le> r + weight pc'" if "cs \<noteq> []"
  proof -
    have "length ns - 1 + length cs \<le> r + weight (ts ! i)" using o that r(1) by (simp add: idle_ok_def)
    moreover have "0 < length ns'" using w(2) by simp
    ultimately show ?thesis using w(1) by linarith
  qed
  ultimately show ?thesis using o same r(2) by (simp add: idle_ok_def)
qed


text \<open>The nodes of the list after a step that keeps the head.\<close>

lemma same_list:
  assumes "queue_inv q ts ns" "queue_inv q' ts' ns'" "lq_head_ptr q' = lq_head_ptr q"
    and "\<And>a. a \<in> set ns \<Longrightarrow> map_option node_next (lq_nodes q' a) = map_option node_next (lq_nodes q a)"
  shows "ns' = ns"
  using linked_unique [of "lq_nodes q'" ns' ns] linked_cong [of ns "lq_nodes q'" "lq_nodes q"] assms
    queue_inv_list(1,2) [OF assms(1)] queue_inv_list(1,2) [OF assms(2)] by simp

definition woken_step :: "'a PionLockedQueue \<Rightarrow> 'a queue_pc list \<Rightarrow> nat list \<Rightarrow> nat list \<Rightarrow> nat \<Rightarrow> nat \<Rightarrow> 'a outcome \<Rightarrow> bool" where
  "woken_step q ts ns cs k i out \<longleftrightarrow> (\<forall>q' pc' es ns'. out = Stepped q' pc' es \<longrightarrow> queue_inv q' (ts[i := pc']) ns'
     \<longrightarrow> versions_ok q' (ts[i := pc']) ns' (Suc k) \<and> (\<exists>cs'. idle_ok q' (ts[i := pc']) ns' cs'))"

lemma versions_ok_Suc: "versions_ok q ts ns k \<Longrightarrow> versions_ok q ts ns (Suc k)"
  by (auto simp: versions_ok_def)

lemma woken_quiet:
  assumes v: "versions_ok q ts ns k" and o: "idle_ok q ts ns cs" and inv: "queue_inv q ts ns" and i: "i < length ts"
    and same: "lq_nodes q' = lq_nodes q" "lq_head_ptr q' = lq_head_ptr q" "lq_next_version q' = lq_next_version q"
      "lq_consumers q' = lq_consumers q" "lq_idle_ptr q' = lq_idle_ptr q"
    and self: "version_ok q' ns pc'" "weight (ts ! i) \<le> weight pc'"
      "ts ! i \<noteq> Waiting \<or> \<not> m_wakeup_event (lq_consumers q i)"
  shows "woken_step q ts ns cs k i (Stepped q' pc' es)"
  unfolding woken_step_def
proof (intro allI impI)
  fix q'' pc'' es' ns'
  assume "Stepped q' pc' es = Stepped q'' pc'' es'" and inv': "queue_inv q'' (ts[i := pc'']) ns'"
  then have eq: "q'' = q'" "pc'' = pc'" by auto
  have ns': "ns' = ns" by (rule same_list [OF inv inv']) (use same eq in auto)
  have "versions_ok q' (ts[i := pc']) ns k"
    by (rule versions_shrink [OF v inv i]) (use same self in \<open>auto simp: version_at_def\<close>)
  moreover have "idle_ok q' (ts[i := pc']) ns cs"
    by (rule idle_frame [OF o i]) (use same self queue_inv_list(4) [OF inv] in auto)
  ultimately show "versions_ok q'' (ts[i := pc'']) ns' (Suc k) \<and> (\<exists>cs'. idle_ok q'' (ts[i := pc'']) ns' cs')"
    using eq ns' versions_ok_Suc by blast
qed

lemma woken_Blocked [simp]: "woken_step q ts ns cs k i Blocked" "woken_step q ts ns cs k i (Fault f)"
  by (simp_all add: woken_step_def)

lemma woken_with_node:
  "(\<And>n. lq_nodes q a = Some n \<Longrightarrow> woken_step q ts ns cs k i (g n)) \<Longrightarrow> woken_step q ts ns cs k i (with_node a q g)"
  by (simp add: with_node_def split: option.split)

text \<open>The steps that push takes.\<close>

lemma woken_create:
  assumes v: "versions_ok q ts ns k" and o: "idle_ok q ts ns cs" and inv: "queue_inv q ts ns" and i: "i < length ts"
    and pc: "ts ! i = Push_create x"
  shows "woken_step q ts ns cs k i (push_step M i a (ts ! i) q)"
proof (cases "lq_nodes q a")
  case None
  let ?q = "write_node a \<lparr>node_data = x, node_next = None, node_version = 0\<rparr> q"
  have ne: "lq_nodes ?q b = lq_nodes q b" if "b \<in> dom (lq_nodes q)" for b using that None by (auto simp: write_node_def)
  have "versions_ok ?q (ts[i := Push_lock x a]) ns' (Suc k) \<and> (\<exists>cs'. idle_ok ?q (ts[i := Push_lock x a]) ns' cs')"
    if inv': "queue_inv ?q (ts[i := Push_lock x a]) ns'" for ns'
  proof -
    have "a \<notin> set ns" using queue_inv_list(5) [OF inv] None by auto
    then have "ns' = ns" by (intro same_list [OF inv inv']) (auto simp: write_node_def)
    moreover have "versions_ok ?q (ts[i := Push_lock x a]) ns k"
    proof (rule versions_shrink [OF v inv i])
      show "version_at ?q b = version_at q b" if "b \<in> set ns" for b
        using ne queue_inv_list(5) [OF inv] that unfolding version_at_def by (metis subsetD)
      show "version_at ?q b = version_at q b" if "j < length ts" "b \<in># owned (ts ! j)" for b j
        using ne [OF owned_private(2) [OF inv that]] unfolding version_at_def by simp
    qed (simp_all add: write_node_def)
    moreover have "idle_ok ?q (ts[i := Push_lock x a]) ns cs"
      by (rule idle_frame [OF o i]) (use pc queue_inv_list(4) [OF inv] in \<open>auto simp: write_node_def\<close>)
    ultimately show ?thesis using versions_ok_Suc by blast
  qed
  then show ?thesis by (simp add: pc None woken_step_def)
qed (simp add: pc)

lemma woken_version:
  assumes v: "versions_ok q ts ns k" and o: "idle_ok q ts ns cs" and inv: "queue_inv q ts ns" and i: "i < length ts"
    and pc: "ts ! i = Push_version x p" and k: "k \<le> 2 ^ 31 - 2"
  shows "woken_step q ts ns cs k i (push_step M i a (ts ! i) q)"
proof -
  note t = queue_inv_thread [OF inv i] and l = queue_inv_list [OF inv]
  let ?v = "lq_next_version q + 2"
  have "unat (lq_next_version q) \<le> 2 * k + 1" using v by (simp add: versions_ok_def)
  then have nv: "unat ?v = unat (lq_next_version q) + 2" using k
    by (subst unat_plus_simple [THEN iffD1]) (auto simp: no_olen_add_nat)
  have own: "p \<in># owned (ts ! i)" using pc by simp
  note off = owned_private [OF inv i own]
  obtain n where n: "lq_nodes q p = Some n" using off(2) by auto
  let ?q = "write_node p (n\<lparr>node_version := ?v\<rparr>) (q\<lparr>lq_next_version := ?v\<rparr>)"
  have ne: "lq_nodes ?q b = lq_nodes q b" if "b \<noteq> p" for b using that by (simp add: write_node_def)
  have "versions_ok ?q (ts[i := Push_link x p]) ns' (Suc k) \<and> (\<exists>cs'. idle_ok ?q (ts[i := Push_link x p]) ns' cs')"
    if inv': "queue_inv ?q (ts[i := Push_link x p]) ns'" for ns'
  proof -
    have ns': "ns' = ns" by (rule same_list [OF inv inv']) (use n in \<open>auto simp: write_node_def\<close>)
    have at: "version_at ?q b = version_at q b" if "b \<noteq> p" for b using ne [OF that] by (simp add: version_at_def)
    have at_ns: "version_at ?q b = version_at q b" if "b \<in> set ns" for b using that off(1) by (intro at) auto
    have "sorted_wrt (\<lambda>a b. version_at ?q a < version_at ?q b) ns"
      by (rule sorted_wrt_mono_rel [of _ "\<lambda>a b. version_at q a < version_at q b"])
        (use v at_ns in \<open>auto simp: versions_ok_def\<close>)
    moreover have less: "list_all (\<lambda>a. version_at ?q a < unat (lq_next_version ?q)) ns"
      using v at_ns nv by (fastforce simp: versions_ok_def list_all_iff write_node_def)
    moreover have "version_ok ?q ns (ts[i := Push_link x p] ! j)" if j: "j < length ts" for j
    proof (cases "j = i")
      case True
      then show ?thesis using less i by (simp add: version_at_def write_node_def)
    next
      case False
      then have "\<not> holds_tail (ts ! j)" using queue_inv_thread(1) [OF inv j] t(1) pc by auto
      then have "version_ok ?q ns (ts ! j) = version_ok q ns (ts ! j)"
        using at_ns l(9) by (cases "ts ! j") auto
      then show ?thesis using v j False by (simp add: versions_ok_def)
    qed
    moreover have "unat (lq_next_version ?q) \<le> 2 * Suc k + 1" using v nv by (simp add: versions_ok_def write_node_def)
    ultimately have "versions_ok ?q (ts[i := Push_link x p]) ns (Suc k)"
      by (auto simp: versions_ok_def list_all_iff less_imp_le)
    moreover have "idle_ok ?q (ts[i := Push_link x p]) ns cs"
      by (rule idle_frame [OF o i]) (use pc l(4) in \<open>auto simp: write_node_def\<close>)
    ultimately show ?thesis using ns' by blast
  qed
  then show ?thesis by (simp add: pc n woken_step_def with_node_def Let_def)
qed


lemma woken_link:
  assumes v: "versions_ok q ts ns k" and o: "idle_ok q ts ns cs" and inv: "queue_inv q ts ns" and i: "i < length ts"
    and pc: "ts ! i = Push_link x p"
  shows "woken_step q ts ns cs k i (push_step M i a (ts ! i) q)"
proof -
  note t = queue_inv_thread [OF inv i] and l = queue_inv_list [OF inv]
  have tail: "lq_tail_ptr q = last ns" using tail_is_last [OF inv _ i] pc t by simp
  obtain n where n: "lq_nodes q p = Some n" "node_next n = None" using t(4) pc by (auto simp: fresh_node_def)
  obtain m where m: "lq_nodes q (last ns) = Some m" using l by blast
  have off: "p \<notin> set ns" using owned_private(1) [OF inv i] pc by simp
  let ?q = "write_node (last ns) (m\<lparr>node_next := Some p\<rparr>) q"
  have at: "version_at ?q b = version_at q b" for b using m by (simp add: version_at_def write_node_def)
  have self: "version_at q p = unat (lq_next_version q)" "list_all (\<lambda>a. version_at q a < unat (lq_next_version q)) ns"
    using v i pc by (auto simp: versions_ok_def)
  have "versions_ok ?q (ts[i := Push_swing x p]) ns' (Suc k) \<and> (\<exists>cs'. idle_ok ?q (ts[i := Push_swing x p]) ns' cs')"
    if inv': "queue_inv ?q (ts[i := Push_swing x p]) ns'" for ns'
  proof -
    have "linked (lq_nodes ?q) (ns @ [p])"
      unfolding write_node_def by (simp, rule linked_snoc) (use l off n m in auto)
    then have ns': "ns' = ns @ [p]"
      by (rule linked_unique [OF queue_inv_list(1) [OF inv']])
        (use queue_inv_list(2) [OF inv'] l(2,4) in \<open>auto simp: write_node_def\<close>)
    have "version_ok ?q (ns @ [p]) (ts[i := Push_swing x p] ! j)" if j: "j < length ts" for j
    proof (cases "j = i")
      case False
      then have "\<not> holds_tail (ts ! j)" using queue_inv_thread(1) [OF inv j] t(1) pc by auto
      then have "version_ok ?q (ns @ [p]) (ts ! j) = version_ok q ns (ts ! j)"
        using at l(4) by (cases "ts ! j") auto
      then show ?thesis using v j False by (simp add: versions_ok_def)
    qed (use i in simp)
    then have "versions_ok ?q (ts[i := Push_swing x p]) (ns @ [p]) k"
      using v self at by (auto simp: versions_ok_def sorted_wrt_append list_all_iff write_node_def)
    moreover have "idle_ok ?q (ts[i := Push_swing x p]) (ns @ [p]) cs"
      by (rule idle_frame [OF o i]) (use pc l(4) in \<open>auto simp: write_node_def\<close>)
    ultimately show ?thesis using ns' versions_ok_Suc by blast
  qed
  then show ?thesis unfolding pc push_step.simps tail by (simp add: m woken_step_def with_node_def)
qed

text \<open>A push that finds an idle consumer takes it off the list and wakes it.\<close>

lemma idle_list_other:
  "c \<notin> set cs \<Longrightarrow> idle_list (C(c := t)) p cs = idle_list C p cs"
  by (induction cs arbitrary: p) auto

lemma woken_wake:
  assumes v: "versions_ok q ts ns k" and o: "idle_ok q ts ns cs" and inv: "queue_inv q ts ns" and i: "i < length ts"
    and pc: "ts ! i = Push_wake x"
  shows "woken_step q ts ns cs k i (push_step M i a (ts ! i) q)"
proof -
  note l = queue_inv_list [OF inv]
  let ?q = "(wake_idle q)\<lparr>lq_tail_mutex := None\<rparr>" and ?ts = "ts[i := Ready]"
  obtain r where r: "sum_list (map weight ts) = r + weight (ts ! i)" "\<And>p. sum_list (map weight (ts[i := p])) = r + weight p"
    using sum_list_update [OF i, of weight] by blast
  have nv: "lq_next_version ?q = lq_next_version q"
    by (simp add: wake_idle_def notify_one_def update_consumer_def split: option.split)
  have ver: "versions_ok ?q ?ts ns k"
    by (rule versions_shrink [OF v inv i]) (use nv in \<open>auto simp: version_at_def\<close>)
  have idle: "idle_ok ?q ?ts ns (tl cs)"
  proof (cases cs)
    case Nil
    then have "wake_idle q = q" using o by (simp add: idle_ok_def wake_idle_def)
    with Nil o show ?thesis by (simp add: idle_ok_def)
  next
    case (Cons c cs')
    then have c: "lq_idle_ptr q = Some c" "idle_list (lq_consumers q) (m_next_ptr (lq_consumers q c)) cs'" "c \<notin> set cs'"
      "distinct cs'" using o by (auto simp: idle_ok_def)
    have C: "lq_consumers ?q = (lq_consumers q)(c := (lq_consumers q c)\<lparr>m_wakeup_event := False\<rparr>)"
      "lq_idle_ptr ?q = m_next_ptr (lq_consumers q c)"
      using c(1) by (simp_all add: wake_idle_def notify_one_def update_consumer_def)
    have "i \<notin> set cs'" using o pc Cons by (auto simp: idle_ok_def)
    then have "\<forall>d\<in>set cs'. d < length ts \<and> ?ts ! d = Waiting" using o Cons
      by (metis idle_ok_def list.set_intros(2) nth_list_update_neq)
    moreover have "length ns - 1 + length cs' \<le> r"
      using o Cons r(1) pc by (simp add: idle_ok_def)
    moreover have "m_wakeup_event (lq_consumers ?q d) \<longleftrightarrow> d \<in> set cs'" for d
      using o Cons c(3) unfolding C(1) by (auto simp: idle_ok_def)
    moreover have "m_is_running (lq_consumers ?q d)" for d using o unfolding C(1) by (auto simp: idle_ok_def)
    ultimately show ?thesis using Cons c(2-4) r(2) unfolding idle_ok_def C by (simp add: idle_list_other)
  qed
  have "ns' = ns" if "queue_inv ?q ?ts ns'" for ns'
    by (rule same_list [OF inv that]) auto
  then show ?thesis using ver idle versions_ok_Suc by (fastforce simp: pc woken_step_def)
qed

lemma woken_push:
  assumes a: "versions_ok q ts ns k" "idle_ok q ts ns cs" "queue_inv q ts ns" "i < length ts"
    and "part_of (ts ! i) = Push_part" and k: "k \<le> 2 ^ 31 - 2"
  shows "woken_step q ts ns cs k i (push_step M i b (ts ! i) q)"
proof (cases "ts ! i")
  case pc: (Push_lock x p)
  have "woken_step q ts ns cs k i (Stepped (q\<lparr>lq_tail_mutex := Some i\<rparr>) (Push_version x p) [])"
    by (rule woken_quiet [OF a]) (use pc in auto)
  then show ?thesis by (simp add: pc)
next
  case pc: (Push_wait x)
  show ?thesis unfolding pc push_step.simps by (rule woken_quiet [OF a]) (use pc in auto)
next
  case pc: (Push_swing x p)
  show ?thesis unfolding pc push_step.simps by (rule woken_quiet [OF a]) (use pc in auto)
next
  case pc: (Push_count x)
  show ?thesis unfolding pc push_step.simps by (rule woken_quiet [OF a]) (use pc in auto)
qed (use assms(5) woken_create [OF a] woken_version [OF a _ k] woken_link [OF a] woken_wake [OF a] in auto)

text \<open>The steps of pop.\<close>

lemma woken_advance:
  assumes v: "versions_ok q ts ns k" and o: "idle_ok q ts ns cs" and inv: "queue_inv q ts ns" and i: "i < length ts"
    and pc: "ts ! i = Deq_advance w x p"
  shows "woken_step q ts ns cs k i (dequeue i (ts ! i) q)"
proof -
  note t = queue_inv_thread [OF inv i] and l = queue_inv_list [OF inv]
  have tl: "tl ns \<noteq> []" "hd (tl ns) = p" using t(4) pc by auto
  let ?q = "q\<lparr>lq_head_ptr := p, lq_head_mutex := None\<rparr>" and ?pc = "Deq_free x (lq_head_ptr q)"
  have "ns' = tl ns" if inv': "queue_inv ?q (ts[i := ?pc]) ns'" for ns'
    by (rule linked_unique [OF queue_inv_list(1) [OF inv']])
      (use queue_inv_list(2) [OF inv'] linked_tl [OF l(1) tl(1)] tl in auto)
  moreover have "versions_ok ?q (ts[i := ?pc]) (tl ns) k"
    by (rule versions_shrink [OF v inv i]) (use tl in \<open>auto simp: version_at_def\<close>)
  moreover have "idle_ok ?q (ts[i := ?pc]) (tl ns) cs"
    by (rule idle_frame [OF o i]) (use pc tl l(4) in \<open>auto simp: of_bool_def\<close>)
  ultimately show ?thesis using versions_ok_Suc by (fastforce simp: pc woken_step_def)
qed

lemma woken_free:
  assumes v: "versions_ok q ts ns k" and o: "idle_ok q ts ns cs" and inv: "queue_inv q ts ns" and i: "i < length ts"
    and pc: "ts ! i = Deq_free x p"
  shows "woken_step q ts ns cs k i (dequeue i (ts ! i) q)"
proof -
  note l = queue_inv_list [OF inv]
  have own: "p \<in># owned (ts ! i)" using pc by simp
  note off = owned_private [OF inv i own]
  let ?q = "destroyNode p q"
  have "ns' = ns" if inv': "queue_inv ?q (ts[i := Deq_count x]) ns'" for ns'
    by (rule same_list [OF inv inv']) (use off in \<open>auto simp: destroyNode_def\<close>)
  moreover have "versions_ok ?q (ts[i := Deq_count x]) ns k"
    by (rule versions_shrink [OF v inv i]) (use off in \<open>auto simp: version_at_def destroyNode_def\<close>)
  moreover have "idle_ok ?q (ts[i := Deq_count x]) ns cs"
    by (rule idle_frame [OF o i]) (use pc l(4) in \<open>auto simp: destroyNode_def\<close>)
  ultimately have "woken_step q ts ns cs k i (Stepped ?q (Deq_count x) [])"
    using versions_ok_Suc by (fastforce simp: woken_step_def)
  then show ?thesis unfolding pc dequeue.simps by (rule woken_with_node)
qed

lemma woken_dequeue:
  assumes a: "versions_ok q ts ns k" "idle_ok q ts ns cs" "queue_inv q ts ns" "i < length ts"
    and part: "part_of (ts ! i) = Deq_part"
  shows "woken_step q ts ns cs k i (dequeue i (ts ! i) q)"
proof (cases "ts ! i")
  case pc: (Deq_lock w)
  have "woken_step q ts ns cs k i (Stepped (q\<lparr>lq_head_mutex := Some i\<rparr>) (Deq_read w) [])"
    by (rule woken_quiet [OF a]) (use pc in auto)
  then show ?thesis by (simp add: pc)
next
  case pc: (Deq_read w)
  have "woken_step q ts ns cs k i (Stepped q (Deq_empty w) (if w then [] else [Saw_empty i]))"
    "woken_step q ts ns cs k i (Stepped q (Deq_copy w p) [])" for p
    by (rule woken_quiet [OF a]; use pc in simp)+
  then have "woken_step q ts ns cs k i (case nx of
      None \<Rightarrow> Stepped q (Deq_empty w) (if w then [] else [Saw_empty i])
    | Some new_head_ptr \<Rightarrow> Stepped q (Deq_copy w new_head_ptr) [])" for nx
    by (cases nx) (simp_all only: option.case)
  then show ?thesis unfolding pc dequeue.simps by (intro woken_with_node)
next
  case pc: (Deq_empty w)
  show ?thesis unfolding pc dequeue.simps
    by (rule woken_with_node, rule woken_quiet [OF a])
      (use pc queue_inv_list(2) [OF a(3)] in \<open>auto simp: version_at_def\<close>)
next
  case pc: (Deq_copy w p)
  show ?thesis unfolding pc dequeue.simps
    by (rule woken_with_node, rule woken_quiet [OF a]) (use pc in auto)
next
  case pc: (Deq_count x)
  show ?thesis unfolding pc dequeue.simps by (rule woken_quiet [OF a]) (use pc in auto)
qed (use part woken_advance [OF a] woken_free [OF a] in auto)


text \<open>The step that puts a consumer to sleep: the list is empty.\<close>

lemma waiting_weight:
  assumes "distinct cs" "\<forall>c\<in>set cs. c < length ts \<and> ts ! c = Waiting" "i < length ts" "ts ! i = Wait_check v"
  shows "length cs + 1 \<le> sum_list (map weight ts)"
proof -
  have i: "i \<notin> set cs" using assms(2,4) by auto
  have "length cs + 1 = (\<Sum>j\<in>set (i # cs). (1::nat))"
    using assms(1) i by (simp add: distinct_card)
  also have "\<dots> \<le> (\<Sum>j\<in>set (i # cs). weight (ts ! j))"
    by (rule sum_mono) (use assms in auto)
  also have "\<dots> \<le> (\<Sum>j\<in>{..<length ts}. weight (ts ! j))"
    by (rule sum_mono2) (use assms in auto)
  also have "\<dots> = sum_list (map weight ts)"
    by (simp add: sum_list_sum_nth atLeast0LessThan)
  finally show ?thesis .
qed

lemma version_last:
  assumes "sorted_wrt (\<lambda>a b. version_at q a < version_at q b) ns" "ns \<noteq> []"
    "version_at q (last ns) \<le> version_at q (hd ns)"
  shows "length ns = 1"
proof (cases ns)
  case (Cons a ms)
  show ?thesis
  proof (cases "ms = []")
    case False
    then have "version_at q a < version_at q (last ms)" using assms(1) Cons by simp
    with assms(3) Cons False show ?thesis by simp
  qed (simp add: Cons)
qed (use assms in simp)

lemma woken_sleep:
  assumes v: "versions_ok q ts ns k" and o: "idle_ok q ts ns cs" and inv: "queue_inv q ts ns" and i: "i < length ts"
    and pc: "ts ! i = Wait_check u" and tail: "version_at q (lq_tail_ptr q) = unat u"
  shows "woken_step q ts ns cs k i
    (Stepped ((update_consumer i (\<lambda>t. t\<lparr>m_next_ptr := lq_idle_ptr q, m_wakeup_event := True\<rparr>) q)
                     \<lparr>lq_idle_ptr := Some i, lq_tail_mutex := None\<rparr>) Waiting [])"
proof -
  note l = queue_inv_list [OF inv] and t = queue_inv_thread [OF inv i]
  let ?q = "(update_consumer i (\<lambda>t. t\<lparr>m_next_ptr := lq_idle_ptr q, m_wakeup_event := True\<rparr>) q)
              \<lparr>lq_idle_ptr := Some i, lq_tail_mutex := None\<rparr>" and ?ts = "ts[i := Waiting]"
  have "lq_tail_ptr q = last ns" using tail_is_last [OF inv _ i] t(1) pc by simp
  moreover have "unat u \<le> version_at q (hd ns)" using v i pc by (auto simp: versions_ok_def)
  ultimately have len: "length ns = 1"
    using version_last [of q ns] v l(4) tail by (simp add: versions_ok_def)
  have out: "i \<notin> set cs" using o pc by (auto simp: idle_ok_def)
  obtain r where r: "sum_list (map weight ts) = r + weight (ts ! i)" "\<And>p. sum_list (map weight (ts[i := p])) = r + weight p"
    using sum_list_update [OF i, of weight] by blast
  have C: "lq_consumers ?q = (lq_consumers q)(i := (lq_consumers q i)\<lparr>m_next_ptr := lq_idle_ptr q, m_wakeup_event := True\<rparr>)"
    "lq_idle_ptr ?q = Some i" "lq_nodes ?q = lq_nodes q" "lq_head_ptr ?q = lq_head_ptr q"
    "lq_next_version ?q = lq_next_version q"
    by (simp_all add: update_consumer_def)
  have "length cs + 1 \<le> r + weight (ts ! i)"
    using waiting_weight [OF _ _ i pc, of cs] o r(1) by (simp add: idle_ok_def)
  then have sum: "length ns - 1 + length (i # cs) \<le> r + weight Waiting" using pc len by simp
  have wait: "\<forall>c\<in>set cs. c < length ts \<and> ?ts ! c = Waiting"
    using o out by (metis idle_ok_def nth_list_update_neq)
  have idle: "idle_ok ?q ?ts ns (i # cs)"
    using o out i r(2) sum wait unfolding idle_ok_def C by (auto simp: idle_list_other)
  have ver: "versions_ok ?q ?ts ns k"
    by (rule versions_shrink [OF v inv i]) (use C in \<open>auto simp: version_at_def\<close>)
  have "ns' = ns" if "queue_inv ?q ?ts ns'" for ns'
    by (rule same_list [OF inv that]) (use C in auto)
  then show ?thesis using ver idle versions_ok_Suc by (fastforce simp: woken_step_def)
qed

lemma woken_wait:
  assumes a: "versions_ok q ts ns k" "idle_ok q ts ns cs" "queue_inv q ts ns" "i < length ts"
    and part: "part_of (ts ! i) = Wait_part"
  shows "woken_step q ts ns cs k i (pop_wait_step i (ts ! i) q)"
proof (cases "ts ! i")
  case pc: Wait_run
  have "m_is_running (lq_consumers q i)" using a(2) by (simp add: idle_ok_def)
  then show ?thesis unfolding pc pop_wait_step.simps
    by (simp, intro woken_quiet [OF a]) (use pc in auto)
next
  case pc: (Wait_lock v)
  have "woken_step q ts ns cs k i (Stepped (q\<lparr>lq_tail_mutex := Some i\<rparr>) (Wait_check v) [])"
    by (rule woken_quiet [OF a]) (use pc a(1,4) in \<open>auto simp: versions_ok_def version_at_def\<close>)
  then show ?thesis by (simp add: pc)
next
  case pc: (Wait_check v)
  have again: "woken_step q ts ns cs k i (Stepped (q\<lparr>lq_tail_mutex := None\<rparr>) Wait_run [])"
    by (rule woken_quiet [OF a]) (use pc in auto)
  show ?thesis unfolding pc pop_wait_step.simps
  proof (rule woken_with_node)
    fix n assume "lq_nodes q (lq_tail_ptr q) = Some n"
    then show "woken_step q ts ns cs k i (if node_version n = v
        then Stepped ((update_consumer i (\<lambda>t. t\<lparr>m_next_ptr := lq_idle_ptr q, m_wakeup_event := True\<rparr>) q)
                     \<lparr>lq_idle_ptr := Some i, lq_tail_mutex := None\<rparr>) Waiting []
        else Stepped (q\<lparr>lq_tail_mutex := None\<rparr>) Wait_run [])"
      using again woken_sleep [OF a pc] by (simp add: version_at_def)
  qed
next
  case pc: Waiting
  have "woken_step q ts ns cs k i (Stepped q Wait_run [])" if "\<not> m_wakeup_event (lq_consumers q i)"
    by (rule woken_quiet [OF a]) (use pc that in auto)
  then show ?thesis by (simp add: pc)
qed (use part in auto)

lemma woken_clear:
  assumes a: "versions_ok q ts ns k" "idle_ok q ts ns cs" "queue_inv q ts ns" "i < length ts"
    and part: "part_of (ts ! i) = Clear_part"
  shows "woken_step q ts ns cs k i (clear_step i (ts ! i) q)"
proof (cases "ts ! i")
  case pc: (Clear_tail d)
  have "woken_step q ts ns cs k i (Stepped (q\<lparr>lq_tail_mutex := Some i\<rparr>) (Clear_head d) [])"
    by (rule woken_quiet [OF a]) (use pc in auto)
  then show ?thesis by (simp add: pc)
next
  case pc: (Clear_head d)
  have "woken_step q ts ns cs k i (Stepped (q\<lparr>lq_head_mutex := Some i\<rparr>) (Clear_loop d) [])"
    by (rule woken_quiet [OF a]) (use pc in auto)
  then show ?thesis by (simp add: pc)
next
  case pc: (Clear_loop d)
  note l = queue_inv_list [OF a(3)]
  have d: "\<not> d" using queue_inv_thread(3) [OF a(3,4)] pc by simp
  have finished: "woken_step q ts ns cs k i (Stepped (q\<lparr>lq_tail_ptr := lq_head_ptr q, lq_head_mutex := None,
      lq_tail_mutex := None\<rparr>) Ready [Cleared i, Ret i Unit])"
    by (rule woken_quiet [OF a]) (use pc in auto)
  have drop: "woken_step q ts ns cs k i (Stepped (destroyNode (lq_head_ptr q)
      (q\<lparr>lq_tail_ptr := lq_head_ptr q, lq_head_ptr := p, lq_size := lq_size q - 1\<rparr>)) (Clear_loop d) es)"
    if tl: "tl ns \<noteq> []" "hd (tl ns) = p" for p es
  proof -
    let ?q = "destroyNode (lq_head_ptr q) (q\<lparr>lq_tail_ptr := lq_head_ptr q, lq_head_ptr := p, lq_size := lq_size q - 1\<rparr>)"
    have h: "lq_head_ptr q \<notin> set (tl ns)" "lq_head_ptr q \<in> set ns" using l(2,4,6,9) by (cases ns; simp)+
    have "linked (lq_nodes ?q) (tl ns) = linked (lq_nodes q) (tl ns)"
      by (rule linked_cong) (use h(1) in \<open>auto simp: destroyNode_def\<close>)
    then have "linked (lq_nodes ?q) (tl ns)" using linked_tl [OF l(1) tl(1)] by simp
    then have "ns' = tl ns" if inv': "queue_inv ?q (ts[i := Clear_loop d]) ns'" for ns'
      by (rule linked_unique [OF queue_inv_list(1) [OF inv']])
        (use queue_inv_list(2) [OF inv'] tl in \<open>auto simp: destroyNode_def\<close>)
    moreover have "versions_ok ?q (ts[i := Clear_loop d]) (tl ns) k"
      by (rule versions_shrink [OF a(1,3,4)])
        (use tl h owned_private(1) [OF a(3)] in \<open>auto simp: version_at_def destroyNode_def\<close>)
    moreover have "idle_ok ?q (ts[i := Clear_loop d]) (tl ns) cs"
      by (rule idle_frame [OF a(2,4)]) (use pc tl in \<open>auto simp: destroyNode_def\<close>)
    ultimately show ?thesis using versions_ok_Suc by (fastforce simp: woken_step_def)
  qed
  obtain n where n: "lq_nodes q (lq_head_ptr q) = Some n" "node_next n = (if tl ns = [] then None else Some (hd (tl ns)))"
    using linked_hd [OF l(1)] l(2) by metis
  show ?thesis unfolding pc clear_step.simps
    by (rule woken_with_node) (use n d finished drop in \<open>auto simp: with_node_def split: option.split\<close>)
next
  case Destroy_node
  then show ?thesis using queue_inv_thread(3) [OF a(3,4)] by simp
qed (use part in auto)

lemma woken_query:
  assumes a: "versions_ok q ts ns k" "idle_ok q ts ns cs" "queue_inv q ts ns" "i < length ts"
    and part: "part_of (ts ! i) = Query_part"
  shows "woken_step q ts ns cs k i (query_step i (ts ! i) q)"
proof (cases "ts ! i")
  case pc: Size_read
  show ?thesis unfolding pc query_step.simps by (rule woken_quiet [OF a]) (use pc in auto)
qed (use part queue_inv_thread(3) [OF a(3,4)] in auto)

lemma woken_thread:
  assumes a: "versions_ok q ts ns k" "idle_ok q ts ns cs" "queue_inv q ts ns" "i < length ts" and k: "k \<le> 2 ^ 31 - 2"
  shows "woken_step q ts ns cs k i (thread_step M i b (ts ! i) q)"
proof (cases "part_of (ts ! i)")
  case Consumer_part
  have "version_ok q ns (ts ! i)" using a(1,4) by (simp add: versions_ok_def)
  with Consumer_part show ?thesis by (cases "ts ! i") auto
qed (simp_all add: thread_step_def woken_push [OF a _ k] woken_dequeue [OF a] woken_wait [OF a] woken_clear [OF a]
  woken_query [OF a])


lemma begin_op_wake:
  assumes "wake_action (Invoke i opn)"
  shows "shared_op opn" "version_ok q ns (begin_op opn)"
  using assms by (cases opn; simp)+

lemma wake_system:
  assumes inv: "queue_inv q ts ns" and v: "versions_ok q ts ns k" and o: "idle_ok q ts ns cs"
    and act: "wake_action act" and k: "k \<le> 2 ^ 31 - 2" and step: "system_step M act (q, ts) = Some r"
  shows "\<exists>q' ts' es ns' cs'. r = Inr ((q', ts'), es) \<and> queue_inv q' ts' ns' \<and> versions_ok q' ts' ns' (Suc k)
           \<and> idle_ok q' ts' ns' cs'"
proof -
  have both: "\<exists>q'' ts'' es' ns' cs'. Inr ((q', ts[i := pc']), es) = Inr ((q'', ts''), es')
      \<and> queue_inv q'' ts'' ns' \<and> versions_ok q'' ts'' ns' (Suc k) \<and> idle_ok q'' ts'' ns' cs'"
    if "good_step q ts ns i (Stepped q' pc' es)" "woken_step q ts ns cs k i (Stepped q' pc' es)" for q' pc' es i
    using that by (fastforce simp: good_step_def woken_step_def)
  show ?thesis
  proof (cases act)
    case (Invoke i opn)
    have i: "i < length ts" and pc: "ts ! i = Ready"
      using step Invoke by (auto split: queue_pc.splits if_splits)
    note bo = begin_op_wake [OF act [unfolded Invoke]]
    have r: "r = Inr ((q, ts[i := begin_op opn]), [Call i opn])" using step Invoke i pc by simp
    have "woken_step q ts ns cs k i (Stepped q (begin_op opn) [Call i opn])"
      by (rule woken_quiet [OF v o inv i]) (use pc bo in auto)
    from both [OF invoke_good [OF inv i pc bo(1)] this] show ?thesis unfolding r .
  next
    case (Run i a)
    then have i: "i < length ts" using step by (auto split: if_splits)
    note good = thread_good [OF inv i, of M a] and woken = woken_thread [OF v o inv i k, of M a]
    show ?thesis
    proof (cases "thread_step M i a (ts ! i) q")
      case (Stepped q' pc' es)
      then have r: "r = Inr ((q', ts[i := pc']), es)" using step Run i by simp
      from both [OF good [unfolded Stepped] woken [unfolded Stepped]] show ?thesis unfolding r .
    next
      case Blocked
      then show ?thesis using step Run i by simp
    next
      case (Fault f)
      then show ?thesis using good by simp
    qed
  qed (use act in simp)
qed

lemma wake_run:
  assumes "queue_inv q ts ns" "versions_ok q ts ns k" "idle_ok q ts ns cs" "list_all wake_action acts"
    "k + length acts \<le> 2 ^ 31 - 1" "run_schedule (system_step M) acts (q, ts) = Inr ((q', ts'), es)"
  shows "\<exists>ns' cs'. queue_inv q' ts' ns' \<and> idle_ok q' ts' ns' cs'"
  using assms
proof (induction acts arbitrary: q ts ns k cs es)
  case Nil
  then show ?case by auto
next
  case (Cons act acts)
  show ?case
  proof (cases "system_step M act (q, ts)")
    case None
    with Cons show ?thesis by simp
  next
    case (Some r)
    from wake_system [OF Cons.prems(1-3) _ _ Some] Cons.prems(4,5)
    obtain q1 ts1 es1 ns1 cs1 where 1: "r = Inr ((q1, ts1), es1)" "queue_inv q1 ts1 ns1" "versions_ok q1 ts1 ns1 (Suc k)"
      "idle_ok q1 ts1 ns1 cs1" by auto
    from Cons.prems(6) Some 1(1) obtain es2 where "run_schedule (system_step M) acts (q1, ts1) = Inr ((q', ts'), es2)"
      by (auto simp: bindE_def split: sum.splits)
    from Cons.IH [OF 1(2-4) _ _ this] Cons.prems(4,5) show ?thesis by simp
  qed
qed

lemma wake_start:
  "versions_ok (PionLockedQueue_init a junk) (replicate n Ready) [a] 0"
  "idle_ok (PionLockedQueue_init a junk) (replicate n Ready) [a] []"
  by (simp_all add: versions_ok_def idle_ok_def PionLockedQueue_init_def version_at_def ConsumerThread_init_def)

section \<open>No wake-up is lost\<close>

text \<open>A thread that is on its way to an item or, having linked one, is about to wake a consumer.\<close>

definition on_the_way :: "'a PionLockedQueue \<Rightarrow> 'a queue_pc list \<Rightarrow> nat \<Rightarrow> bool" where
  "on_the_way q ts j \<longleftrightarrow> weight (ts ! j) = 1 \<and> \<not> m_wakeup_event (lq_consumers q j)"

definition asleep :: "'a PionLockedQueue \<Rightarrow> 'a queue_pc list \<Rightarrow> nat \<Rightarrow> bool" where
  "asleep q ts j \<longleftrightarrow> j < length ts \<and> ts ! j = Waiting \<and> m_wakeup_event (lq_consumers q j)"

lemma weight_le: "weight pc \<le> 1"
  by (cases pc) auto

lemma weight_count:
  assumes "idle_ok q ts ns cs"
  shows "sum_list (map weight ts) = length (filter (on_the_way q ts) [0..<length ts]) + length cs"
proof -
  have w: "weight (ts ! j) = of_bool (on_the_way q ts j) + of_bool (j \<in> set cs)" if "j < length ts" for j
    using assms weight_le [of "ts ! j"] by (auto simp: idle_ok_def on_the_way_def)
  have "sum_list (map weight ts) = (\<Sum>j<length ts. weight (ts ! j))"
    by (simp add: sum_list_sum_nth atLeast0LessThan)
  also have "\<dots> = (\<Sum>j<length ts. of_bool (on_the_way q ts j)) + (\<Sum>j<length ts. of_bool (j \<in> set cs))"
    using w by (simp add: sum.distrib)
  also have "(\<Sum>j<length ts. of_bool (j \<in> set cs)) = card (set cs)"
    using assms by (auto simp: idle_ok_def of_bool_def sum.If_cases Int_absorb1 subset_iff intro!: arg_cong [where f = card])
  also have "(\<Sum>j<length ts. of_bool (on_the_way q ts j) :: nat) = length (filter (on_the_way q ts) [0..<length ts])"
    by (simp add: of_bool_def sum.If_cases length_filter_conv_card Int_def conj_commute cong: conj_cong)
  finally show ?thesis using assms by (simp add: idle_ok_def distinct_card)
qed

lemma queue_wake_run:
  assumes "list_all wake_action acts" "length acts < 2 ^ 31"
    and "queue_run M acts (queue_start a junk n) = Inr ((q, ts), es)"
  obtains ns cs where "queue_inv q ts ns" "idle_ok q ts ns cs"
  using wake_run [OF queue_inv_start wake_start assms(1), of M a junk n q ts es] assms(2,3)
  by (auto simp: queue_run_def queue_start_def)

end
