(* ===== verification/Locked_Queue_Properties.thy ===== *)
theory Locked_Queue_Properties
  imports Locked_Queue_Wake
begin

text \<open>
  What the two-lock queue guarantees to any number of threads under any schedule: it behaves like the
  sequential queue, it neither leaks nor touches freed nodes, it does not deadlock; and what it does not
  guarantee: \<open>empty\<close> without a lock, and a consumer that is stopped.
\<close>

section \<open>Linearizability\<close>

text \<open>C8: Whatever the schedule of any number of threads that push, pop, pop with waiting, clear, query the size, stop and
  reset consumers, with wake-ups at any moment, but of which none calls \<open>empty\<close> (which may read a node that is freed) or the
  destructor, the two-lock queue never touches a node that is not allocated, and its calls and returns are those of a
  sequential FIFO queue in which every call takes effect at one moment between its call and its return (a clear takes the
  items away one by one, up to that moment). A pop returns the oldest item, or nothing when there is none; a pop that waits returns
  nothing only when its consumer is not running, which is what the last stop or reset of it made it; and the size is
  the number of items less some of the pushes and plus some of the pops that are under way and have taken
  effect, modulo \<open>2 ^ 64\<close>. The items of that queue are the data in the nodes behind the head.\<close>

theorem queue_linearizable:
  assumes "list_all shared_action acts"
  shows "\<exists>q ts es f ns. queue_run M acts (queue_start a junk n) = Inr ((q, ts), es)
           \<and> fifo_run es (fifo_init n) = Some f \<and> queue_holds q ns (fifo_items f)"
proof -
  obtain s es f where run: "queue_run M acts (queue_start a junk n) = Inr (s, es)"
    and f: "fifo_run es (fifo_init n) = Some f" and rel: "queue_rel s f"
    using lq.runs [OF queue_rel_start assms, of M a junk n] by (auto simp: queue_run_def fifo_run_def)
  obtain q ts where s: "s = (q, ts)" by (cases s)
  from rel s obtain ns where ns: "queue_inv q ts ns" "f = fifo_of q ts ns" by (auto simp: queue_rel_def)
  have "queue_holds q ns (fifo_items f)" using queue_inv_list(1,2) [OF ns(1)] ns(2) by (simp add: queue_holds_def)
  with run f s show ?thesis by blast
qed

lemmas queue_eval = queue_run_def queue_start_def PionLockedQueue_init_def thread_step_def with_node_def
  write_node_def destroyNode_def wake_idle_def notify_one_def update_consumer_def queue_size_def
  ConsumerThread_init_def numeral_2_eq_2 Let_def

text \<open>The size is read while a push has linked its node and not counted it, and a stopped consumer pops.\<close>

definition queue_mixed :: "nat queue_action list" where
  "queue_mixed = [Invoke 0 (Push 5), Run 0 7, Run 0 7, Run 0 0, Run 0 0, Run 0 0, Invoke 1 Size, Run 1 0,
     Invoke 1 (Stop 1), Run 1 0, Run 1 0, Invoke 1 Pop_wait, Run 1 0]"

definition queue_mixed_events :: "nat queue_event list" where
  "queue_mixed_events = [Call 0 (Push 5), Enq 0 5, Call 1 Size, Local 1 (Number 0), Ret 1 (Number 0), Call 1 (Stop 1),
     Set_running 1 1 False, Ret 1 Unit, Call 1 Pop_wait, Local 1 Nothing, Ret 1 Nothing]"

lemma queue_mixed_runs: "\<exists>s. queue_run 250000 queue_mixed (queue_start 1 0 2) = Inr (s, queue_mixed_events)"
  by (simp add: queue_mixed_def queue_mixed_events_def queue_eval)

lemma queue_linearizable_witness:
  "list_all shared_action queue_mixed \<and> (\<exists>q ts f ns. queue_run 250000 queue_mixed (queue_start 1 0 2) = Inr ((q, ts), queue_mixed_events)
     \<and> fifo_run queue_mixed_events (fifo_init 2) = Some f \<and> queue_holds q ns (fifo_items f))"
proof -
  have ok: "list_all shared_action queue_mixed" by (simp add: queue_mixed_def)
  obtain s where s: "queue_run 250000 queue_mixed (queue_start 1 0 2) = Inr (s, queue_mixed_events)" using queue_mixed_runs by blast
  obtain q ts es f ns where run: "queue_run 250000 queue_mixed (queue_start 1 0 2) = Inr ((q, ts), es)"
    "fifo_run es (fifo_init 2) = Some f" "queue_holds q ns (fifo_items f)" using queue_linearizable [OF ok] by blast
  from run(1) s have "es = queue_mixed_events" by simp
  with run ok show ?thesis by blast
qed

section \<open>Between operations\<close>

lemma queue_quiescent_list:
  assumes "list_all shared_action acts" and "queue_run M acts (queue_start a junk n) = Inr ((q, ts), es)"
    and "list_all (\<lambda>pc. pc = Ready) ts"
  shows "\<exists>ns xs. queue_holds q ns xs \<and> dom (lq_nodes q) = set ns \<and> distinct ns \<and> lq_tail_ptr q = last ns
           \<and> lq_size q = of_nat (length xs) \<and> lq_head_mutex q = None \<and> lq_tail_mutex q = None"
proof -
  obtain ns where inv: "queue_inv q ts ns" using queue_run_inv [OF assms(1,2)] by blast
  note l = queue_inv_list [OF inv]
  have ready: "ts ! i = Ready" if "i < length ts" for i using assms(3) that by (simp add: list_all_length)
  have ts: "ts = replicate (length ts) Ready" using assms(3) by (simp add: list_all_iff list_eq_iff_nth_eq)
  have own: "sum_list (map owned ts) = {#}" and debt: "sum_list (map debt ts) = 0"
    by (subst ts; simp add: sum_replicate_empty sum_list_replicate)+
  have "mset ns = mset_set (dom (lq_nodes q))" using inv own by (simp add: queue_inv_def)
  then have dom: "dom (lq_nodes q) = set ns" using l(3) by (metis finite_set_mset_mset_set set_mset_mset)
  have "length (list_items (lq_nodes q) ns) = length ns - 1" by (simp add: list_items_def)
  moreover have "lq_size q = word_of_int (int (length ns) - 1)" using inv debt by (simp add: queue_inv_def)
  moreover have "int (length ns) - 1 = int (length ns - 1)" using l(4) by (cases ns) auto
  ultimately have size: "lq_size q = of_nat (length (list_items (lq_nodes q) ns))" by (metis of_int_of_nat_eq)
  have tail: "lq_tail_mutex q = None"
  proof (cases "lq_tail_mutex q")
    case (Some j)
    then have j: "j < length ts" using inv by (simp add: queue_inv_def tail_ok_def)
    from queue_inv_thread(1) [OF inv j] ready [OF j] Some show ?thesis by simp
  qed
  have head: "lq_head_mutex q = None"
  proof (cases "lq_head_mutex q")
    case (Some j)
    then have j: "j < length ts" using inv by (simp add: queue_inv_def)
    from queue_inv_thread(2) [OF inv j] ready [OF j] Some show ?thesis by simp
  qed
  have "lq_tail_ptr q = last ns" using inv tail by (simp add: queue_inv_def tail_ok_def)
  with l dom size tail head show ?thesis by (auto simp: queue_holds_def)
qed

text \<open>Whenever no thread is in an operation, the allocated nodes of the two-lock queue are exactly the
  distinct ones on its list (nothing leaks), the tail pointer is the last of them, both locks are free and the
  counter is the number of items.\<close>

theorem queue_quiescent:
  assumes "list_all shared_action acts" and "queue_run M acts (queue_start a junk n) = Inr ((q, ts), es)"
    and "list_all (\<lambda>pc. pc = Ready) ts"
  shows "\<exists>ns xs. queue_holds q ns xs \<and> dom (lq_nodes q) = set ns \<and> distinct ns \<and> lq_tail_ptr q = last ns
           \<and> lq_size q = of_nat (length xs) \<and> lq_head_mutex q = None \<and> lq_tail_mutex q = None"
  by (rule queue_quiescent_list [OF assms])

definition queue_example :: "nat queue_action list" where
  "queue_example = [Invoke 0 (Push 5), Invoke 1 Pop, Run 0 7, Run 0 7, Run 1 0, Run 0 0, Run 0 0, Run 0 0, Run 1 0,
     Run 0 0, Run 0 0, Run 0 0, Run 1 0, Run 1 0, Run 1 0, Run 1 0, Run 1 0]"

definition queue_example_state :: "nat queue_system" where
  "queue_example_state = (\<lparr>lq_nodes = [7 \<mapsto> \<lparr>node_data = 5, node_next = None, node_version = 3\<rparr>],
     lq_head_mutex = None, lq_tail_mutex = None, lq_head_ptr = 7, lq_tail_ptr = 7, lq_idle_ptr = None,
     lq_next_version = 3, lq_size = 0, lq_consumers = (\<lambda>_. ConsumerThread_init)\<rparr>, [Ready, Ready])"

lemma queue_example_runs:
  "queue_run 250000 queue_example (queue_start 1 0 2)
    = Inr (queue_example_state, [Call 0 (Push 5), Call 1 Pop, Enq 0 5, Ret 0 Unit, Deq 1 5, Ret 1 (Item 5)])"
  by (simp add: queue_example_def queue_example_state_def queue_eval)

lemma queue_quiescent_witness:
  "\<exists>ns xs. queue_holds (fst queue_example_state) ns xs \<and> dom (lq_nodes (fst queue_example_state)) = set ns \<and> distinct ns
     \<and> lq_tail_ptr (fst queue_example_state) = last ns \<and> lq_size (fst queue_example_state) = of_nat (length xs)
     \<and> lq_head_mutex (fst queue_example_state) = None \<and> lq_tail_mutex (fst queue_example_state) = None"
proof -
  have "list_all shared_action queue_example" by (simp add: queue_example_def)
  moreover have "queue_run 250000 queue_example (queue_start 1 0 2)
    = Inr ((fst queue_example_state, snd queue_example_state), [Call 0 (Push 5), Call 1 Pop, Enq 0 5, Ret 0 Unit, Deq 1 5, Ret 1 (Item 5)])"
    using queue_example_runs by simp
  ultimately show ?thesis
    by (rule queue_quiescent) (simp add: queue_example_state_def)
qed

section \<open>Progress\<close>

lemma step_enabled:
  assumes inv: "queue_inv q ts ns" and i: "i < length ts" and pc: "ts ! i \<noteq> Ready"
    and free: "holds_tail (ts ! i) \<or> holds_head (ts ! i) \<or> lq_tail_mutex q = None"
      "holds_head (ts ! i) \<or> lq_head_mutex q = None"
    and up: "\<not> asleep q ts i"
  shows "\<exists>a. system_step M (Run i a) (q, ts) \<noteq> None"
proof -
  obtain a where a: "lq_nodes q a = None"
    using queue_inv_list(3) [OF inv] infinite_UNIV_nat by (metis (no_types, lifting) ex_new_if_finite domIff)
  have "thread_step M i a (ts ! i) q \<noteq> Blocked"
    using pc free up i a
    by (cases "ts ! i") (auto simp: thread_step_def with_node_def asleep_def Let_def split: option.split)
  then show ?thesis using i by (intro exI [of _ a]) (cases "thread_step M i a (ts ! i) q"; auto)
qed

text \<open>C27: The two-lock queue does not deadlock, whatever operations but \<open>empty\<close> and the destructor its threads run: as long
  as a thread is in an operation, some thread can take a step, unless all threads that are in an operation are consumers asleep.\<close>

theorem queue_no_deadlock:
  assumes "list_all shared_action acts" and "queue_run M acts (queue_start a junk n) = Inr ((q, ts), es)"
  shows "(\<exists>j b. system_step M (Run j b) (q, ts) \<noteq> None)
    \<or> list_all (\<lambda>j. ts ! j = Ready \<or> asleep q ts j) [0..<length ts]"
proof (rule disjCI)
  obtain ns where inv: "queue_inv q ts ns" using queue_run_inv [OF assms] by blast
  assume stuck: "\<not> list_all (\<lambda>j. ts ! j = Ready \<or> asleep q ts j) [0..<length ts]"
  then obtain i where i: "i < length ts" "ts ! i \<noteq> Ready" "\<not> asleep q ts i" by (auto simp: list_all_iff)
  have locked: "ts ! j \<noteq> Ready \<and> \<not> asleep q ts j" if "j < length ts" "holds_tail (ts ! j) \<or> holds_head (ts ! j)" for j
    using that by (cases "ts ! j") (auto simp: asleep_def)
  show "\<exists>j b. system_step M (Run j b) (q, ts) \<noteq> None"
  proof (cases "lq_head_mutex q")
    case (Some j)
    then have j: "j < length ts" using inv by (simp add: queue_inv_def)
    then have "holds_head (ts ! j)" using queue_inv_thread(2) [OF inv j] Some by simp
    with step_enabled [OF inv j] locked [OF j] show ?thesis by blast
  next
    case None
    show ?thesis
    proof (cases "lq_tail_mutex q")
      case (Some j)
      then have j: "j < length ts" using inv by (simp add: queue_inv_def tail_ok_def)
      then have "holds_tail (ts ! j)" using queue_inv_thread(1) [OF inv j] Some by simp
      with step_enabled [OF inv j] locked [OF j] None show ?thesis by blast
    next
      case free: None
      with step_enabled [OF inv i(1,2) _ _ i(3)] None show ?thesis by blast
    qed
  qed
qed

lemma queue_no_deadlock_witness:
  "(\<exists>j b. system_step 250000 (Run j b) queue_example_state \<noteq> None)
    \<or> list_all (\<lambda>j. snd queue_example_state ! j = Ready \<or> asleep (fst queue_example_state) (snd queue_example_state) j)
        [0..<length (snd queue_example_state)]"
proof -
  have "list_all shared_action queue_example" by (simp add: queue_example_def)
  moreover have "queue_run 250000 queue_example (queue_start 1 0 2)
    = Inr ((fst queue_example_state, snd queue_example_state), [Call 0 (Push 5), Call 1 Pop, Enq 0 5, Ret 0 Unit, Deq 1 5, Ret 1 (Item 5)])"
    using queue_example_runs by simp
  ultimately show ?thesis
    using queue_no_deadlock [of queue_example 250000 1 0 2 "fst queue_example_state" "snd queue_example_state"] by simp
qed

text \<open>C17: Wake-ups are not lost: in a run in which \<open>empty\<close> and the destructor are not called, no consumer is stopped or reset, none wakes up without
  notification and the 32-bit versions do not wrap around, whenever a consumer is asleep there are at least as
  many threads on their way to an item, or about to wake a consumer, as there are items in the queue.\<close>

theorem queue_no_lost_wakeup:
  assumes "list_all wake_action acts" "length acts < 2 ^ 31"
    and "queue_run M acts (queue_start a junk n) = Inr ((q, ts), es)"
    and "queue_holds q ns xs" and "asleep q ts i"
  shows "length xs \<le> length (filter (on_the_way q ts) [0..<length ts])"
proof -
  obtain ms cs where inv: "queue_inv q ts ms" and o: "idle_ok q ts ms cs" using queue_wake_run [OF assms(1-3)] .
  have "ns = ms" using linked_unique [of "lq_nodes q" ns ms] queue_inv_list(1,2) [OF inv] assms(4)
    by (simp add: queue_holds_def)
  then have "length xs = length ms - 1" using assms(4) by (auto simp: queue_holds_def list_items_def)
  moreover have "cs \<noteq> []" using o assms(5) by (auto simp: idle_ok_def asleep_def)
  ultimately show ?thesis using weight_count [OF o] o by (simp add: idle_ok_def)
qed

definition wakeup_example :: "nat queue_action list" where
  "wakeup_example = [Invoke 0 Pop_wait, Run 0 0, Run 0 0, Run 0 0, Run 0 0, Run 0 0, Run 0 0,
     Invoke 1 (Push 5), Run 1 7, Run 1 7, Run 1 0, Run 1 0, Run 1 0]"

definition wakeup_example_state :: "nat queue_system" where
  "wakeup_example_state = (\<lparr>lq_nodes = [1 \<mapsto> \<lparr>node_data = 0, node_next = Some 7, node_version = 0\<rparr>,
       7 \<mapsto> \<lparr>node_data = 5, node_next = None, node_version = 3\<rparr>],
     lq_head_mutex = None, lq_tail_mutex = Some 1, lq_head_ptr = 1, lq_tail_ptr = 1, lq_idle_ptr = Some 0,
     lq_next_version = 3, lq_size = 0,
     lq_consumers = (\<lambda>_. ConsumerThread_init)(0 := \<lparr>m_is_running = True, m_wakeup_event = True, m_next_ptr = None\<rparr>)\<rparr>,
     [Waiting, Push_swing 5 7])"

lemma wakeup_example_runs:
  "queue_run 250000 wakeup_example (queue_start 1 0 2)
    = Inr ((fst wakeup_example_state, snd wakeup_example_state), [Call 0 Pop_wait, Call 1 (Push 5), Enq 1 5])"
  by (simp add: wakeup_example_def wakeup_example_state_def queue_eval fun_upd_twist)

lemma queue_no_lost_wakeup_witness:
  "asleep (fst wakeup_example_state) (snd wakeup_example_state) 0
   \<and> length [5::nat] \<le> length (filter (on_the_way (fst wakeup_example_state) (snd wakeup_example_state))
        [0..<length (snd wakeup_example_state)])"
proof -
  have "list_all wake_action wakeup_example" "length wakeup_example < 2 ^ 31" by (simp_all add: wakeup_example_def)
  moreover note wakeup_example_runs
  moreover have "queue_holds (fst wakeup_example_state) [1, 7] [5]"
    by (simp add: queue_holds_def wakeup_example_state_def list_items_def)
  moreover have "asleep (fst wakeup_example_state) (snd wakeup_example_state) 0"
    by (simp add: wakeup_example_state_def asleep_def)
  ultimately show ?thesis
    using queue_no_lost_wakeup [of wakeup_example 250000 1 0 2 "fst wakeup_example_state" "snd wakeup_example_state"
      "[Call 0 Pop_wait, Call 1 (Push 5), Enq 1 5]" "[1, 7]" "[5]" 0] by simp
qed

section \<open>What the queue does not promise\<close>

text \<open>\<open>empty\<close> reads the head pointer and then the node behind it without the lock of the head: another thread may
  free that node in between.\<close>

lemma empty_reads_freed_node:
  "queue_run 250000 [Invoke 0 Empty, Run 0 0, Invoke 1 (Push 5), Run 1 7, Run 1 7, Run 1 0, Run 1 0, Run 1 0, Run 1 0, Run 1 0,
      Run 1 0, Invoke 1 Pop, Run 1 0, Run 1 0, Run 1 0, Run 1 0, Run 1 0, Run 0 0] (queue_start 1 (0::nat) 2)
    = Inl Dangling_pointer"
  by (simp add: queue_eval)

text \<open>The counter is changed after the list: a consumer that is faster than the producer makes it wrap
  around, and other producers wait although the queue is empty.\<close>

lemma unat_minus_1_64: "unat (- 1 :: 64 word) = 18446744073709551615"
  by (simp add: unsigned_minus_1_eq_mask mask_eq_exp_minus_1)

lemma size_wraps_around:
  "\<exists>q ts es. queue_run 250000 [Invoke 0 (Push 5), Run 0 7, Run 0 7, Run 0 0, Run 0 0, Run 0 0, Run 0 0,
      Invoke 1 Pop, Run 1 0, Run 1 0, Run 1 0, Run 1 0, Run 1 0, Run 1 0, Invoke 1 (Push 6), Run 1 0] (queue_start 1 (0::nat) 2)
        = Inr ((q, ts), es)
     \<and> queue_size q = 18446744073709551615 \<and> queue_holds q [7] [] \<and> ts ! 1 = Push_wait 6"
  by (simp add: queue_eval queue_holds_def list_items_def unat_minus_1_64)

text \<open>A consumer that has found itself running goes to sleep although \<open>stop\<close> has returned.\<close>

lemma stop_is_missed:
  "\<exists>q ts es. queue_run 250000 [Invoke 0 Pop_wait, Run 0 0, Invoke 1 (Stop 0), Run 1 0, Run 1 0, Run 0 0, Run 0 0, Run 0 0,
      Run 0 0, Run 0 0] (queue_start 1 (0::nat) 2) = Inr ((q, ts), es)
     \<and> asleep q ts 0 \<and> ts ! 1 = Ready \<and> \<not> m_is_running (lq_consumers q 0)"
  by (simp add: queue_eval asleep_def)

text \<open>A consumer that is stopped while it sleeps stays on the idle list: the next push wakes it instead of a
  consumer that still waits, which sleeps on although there is an item.\<close>

lemma stopped_consumer_takes_wakeup:
  "\<exists>q ts es. queue_run 250000 (replicate 1 (Invoke 1 Pop_wait) @ [Run 1 0, Run 1 0, Run 1 0, Run 1 0, Run 1 0, Run 1 0,
      Invoke 0 Pop_wait, Run 0 0, Run 0 0, Run 0 0, Run 0 0, Run 0 0, Run 0 0, Invoke 2 (Stop 0), Run 2 0, Run 2 0,
      Run 0 0, Run 0 0, Invoke 2 (Push 5), Run 2 7, Run 2 7, Run 2 0, Run 2 0, Run 2 0, Run 2 0, Run 2 0, Run 2 0])
        (PionLockedQueue_init 1 (0::nat), [Ready, Ready, Ready]) = Inr ((q, ts), es)
     \<and> asleep q ts 1 \<and> ts ! 0 = Ready \<and> ts ! 2 = Ready \<and> queue_holds q [1, 7] [5]"
  by (simp add: queue_eval asleep_def queue_holds_def list_items_def)

text \<open>A consumer that wakes up without notification puts itself on the idle list a second time: the list
  becomes a cycle, and the consumer that slept before it is not on it any more.\<close>

lemma spurious_wakeup_drops_consumer:
  "\<exists>q ts es. queue_run 250000 [Invoke 1 Pop_wait, Run 1 0, Run 1 0, Run 1 0, Run 1 0, Run 1 0, Run 1 0,
      Invoke 0 Pop_wait, Run 0 0, Run 0 0, Run 0 0, Run 0 0, Run 0 0, Run 0 0, Spurious 0,
      Run 0 0, Run 0 0, Run 0 0, Run 0 0, Run 0 0, Run 0 0, Run 0 0] (queue_start 1 (0::nat) 2) = Inr ((q, ts), es)
     \<and> asleep q ts 1 \<and> lq_idle_ptr q = Some 0 \<and> m_next_ptr (lq_consumers q 0) = Some 0"
  by (simp add: queue_eval asleep_def)

section \<open>The destructor\<close>

lemma destroy_loop:
  assumes "linked (lq_nodes q) ns" "distinct ns" "hd ns = lq_head_ptr q" "dom (lq_nodes q) = set ns" "i < length ts"
    "ts ! i = Clear_loop True"
  shows "\<exists>q' es. run_schedule (system_step M) (replicate (length ns + 1) (Run i a)) (q, ts) = Inr ((q', ts[i := Ready]), es)
    \<and> lq_nodes q' = Map.empty"
  using assms
proof (induction ns arbitrary: q ts)
  case (Cons b ns)
  obtain n where n: "lq_nodes q b = Some n" using Cons.prems(4) by auto
  have head: "lq_head_ptr q = b" using Cons.prems(3) by simp
  show ?case
  proof (cases ns)
    case Nil
    then have nx: "node_next n = None" using Cons.prems(1) n by simp
    have "dom (lq_nodes q) = {b}" using Cons.prems(4) Nil by simp
    then have "dom ((lq_nodes q)(b := None)) = {}" by simp
    then have "(lq_nodes q)(b := None) = Map.empty" by (rule dom_eq_empty_conv [THEN iffD1])
    then show ?thesis
      using Nil nx n head Cons.prems(5,6) by (simp add: thread_step_def with_node_def destroyNode_def)
  next
    case (Cons c ns')
    then have nx: "node_next n = Some c" "linked (lq_nodes q) ns" using Cons.prems(1) n by (auto split: option.splits)
    obtain m where m: "lq_nodes q c = Some m" using Cons.prems(4) Cons by auto
    let ?q = "destroyNode b (q\<lparr>lq_tail_ptr := b, lq_head_ptr := c, lq_size := lq_size q - 1\<rparr>)"
    have nodes: "lq_nodes ?q = (lq_nodes q)(b := None)" by (simp add: destroyNode_def)
    have off: "b \<notin> set ns" using Cons.prems(2) by simp
    have step: "system_step M (Run i a) (q, ts) = Some (Inr ((?q, ts[i := Clear_loop True]), [Drop i (node_data m)]))"
      using n m nx head Cons.prems(5,6) by (simp add: thread_step_def with_node_def)
    have "linked (lq_nodes ?q) ns = linked (lq_nodes q) ns" by (rule linked_cong) (use off nodes in auto)
    then have lin: "linked (lq_nodes ?q) ns" using nx(2) by simp
    have dom: "dom (lq_nodes ?q) = set ns"
    proof -
      have "dom (lq_nodes ?q) = dom (lq_nodes q) - {b}" unfolding nodes by simp
      also have "\<dots> = set ns" unfolding Cons.prems(4) using off by simp
      finally show ?thesis .
    qed
    have "distinct ns" using Cons.prems(2) by simp
    moreover have "hd ns = lq_head_ptr ?q" by (simp add: Cons destroyNode_def)
    moreover have "i < length (ts[i := Clear_loop True])" "ts[i := Clear_loop True] ! i = Clear_loop True"
      using Cons.prems(5) by simp_all
    ultimately obtain q' es where run: "run_schedule (system_step M) (replicate (length ns + 1) (Run i a)) (?q, ts[i := Clear_loop True])
        = Inr ((q', ts[i := Ready]), es)" and empty: "lq_nodes q' = Map.empty"
      using Cons.IH [OF lin _ _ dom, of "ts[i := Clear_loop True]"] by auto
    have "run_schedule (system_step M) (Run i a # replicate (length ns + 1) (Run i a)) (q, ts)
        = Inr ((q', ts[i := Ready]), [Drop i (node_data m)] @ es)"
      unfolding run_schedule.simps step option.case sum.case prod.case run by simp
    moreover have "Run i a # replicate (length ns + 1) (Run i a) = replicate (length (b # ns) + 1) (Run i a)" by simp
    ultimately show ?thesis using empty by metis
  qed
qed simp

text \<open>The destructor of the two-lock queue, called when no thread is in an operation, returns all
  nodes to the allocator, after as many steps as there are items and four more.\<close>

lemma queue_destructor_frees:
  assumes "list_all shared_action acts" and "queue_run M acts (queue_start a junk n) = Inr ((q, ts), es)"
    and "list_all (\<lambda>pc. pc = Ready) ts" and "i < length ts"
  shows "\<exists>k q' es'. queue_run M (Invoke i Destroy # replicate k (Run i b)) (q, ts) = Inr ((q', ts), es')
           \<and> lq_nodes q' = Map.empty"
proof -
  obtain ns xs where quiet: "queue_holds q ns xs" "dom (lq_nodes q) = set ns" "distinct ns" "lq_head_mutex q = None"
    "lq_tail_mutex q = None" using queue_quiescent_list [OF assms(1-3)] by blast
  have pc: "ts ! i = Ready" using assms(3,4) by (simp add: list_all_length)
  let ?q = "q\<lparr>lq_tail_mutex := Some i, lq_head_mutex := Some i\<rparr>"
  have "\<exists>q' es. run_schedule (system_step M) (replicate (length ns + 1) (Run i b)) (?q, ts[i := Clear_loop True])
        = Inr ((q', (ts[i := Clear_loop True])[i := Ready]), es) \<and> lq_nodes q' = Map.empty"
    by (rule destroy_loop) (use quiet assms(4) in \<open>auto simp: queue_holds_def\<close>)
  then obtain q' es' where "run_schedule (system_step M) (replicate (length ns + 1) (Run i b)) (?q, ts[i := Clear_loop True])
      = Inr ((q', ts[i := Ready]), es')" "lq_nodes q' = Map.empty" by auto
  then have "queue_run M (Invoke i Destroy # replicate (length ns + 3) (Run i b)) (q, ts)
      = Inr ((q', ts), Call i Destroy # es')"
    using pc assms(4) quiet(4,5) list_update_id [of ts i]
    by (simp add: queue_run_def thread_step_def numeral_3_eq_3)
  with \<open>lq_nodes q' = Map.empty\<close> show ?thesis by blast
qed

end
