(* ===== verification/Request_Writer.thy ===== *)
theory Request_Writer
  imports Http_Reader Http_Properties
begin

text \<open>
  The client's side of a connection: \<open>HTTPRequestWriter.hpp\<close>, which sends a request with the machinery of
  \<open>HTTPWriter\<close>, and \<open>HTTPResponseReader.hpp\<close>, which reads the answer with that of \<open>HTTPReader\<close>. The field
  \<open>w_http_response\<close> holds the message a writer sends, here the request. What a request writer sends is
  followed through the parser of the server, to the message the request handler gets.
\<close>

section \<open>Request writers\<close>

text \<open>The two constructors: with a new request, and for a given one, whose content is taken over when
  its first byte is not zero.\<close>

definition HTTPRequestWriter :: HTTPWriter where
  "HTTPRequestWriter = HTTPWriter_init (HTTPRequest_init [])"

definition HTTPRequestWriter_request :: "HTTPMessage \<Rightarrow> fault + HTTPWriter" where
  "HTTPRequestWriter_request http_request =
     (let w = HTTPWriter_init http_request
      in if m_content_length http_request > 0 \<and> m_content_buf http_request \<noteq> None
         then bindE (content_bytes http_request) (\<lambda>s.
                Inr (if s \<noteq> [] \<and> hd s \<noteq> CHR 0x00 then writeNoCopy s w else w))
         else Inr w)"

definition getRequest :: "HTTPWriter \<Rightarrow> HTTPMessage" where
  "getRequest w = w_http_response w"

text \<open>\<open>prepareBuffersForSend\<close>; the length goes to the request, the rest is \<open>HTTPMessage\<close>'s.\<close>

definition request_prepareBuffersForSend ::
  "boost_lib \<Rightarrow> TCPConnection \<Rightarrow> HTTPWriter \<Rightarrow> string list \<times> HTTPWriter" where
  "request_prepareBuffersForSend lib conn w =
     (let req = (if w_content_length w > 0
                 then (getRequest w)\<lparr>m_content_length := of_nat (w_content_length w)\<rparr>
                 else getRequest w);
          (bufs, req') = prepareBuffersForSend lib (getKeepAlive conn) (w_sending_chunks w) req
      in (bufs, w\<lparr>w_http_response := req'\<rparr>))"

text \<open>The two writers override \<open>prepareBuffersForSend\<close> in the same way, so the operations of the base
  class are the same for both.\<close>

lemma request_prepareBuffersForSend: "request_prepareBuffersForSend = writer_prepareBuffersForSend"
  by (intro ext) (simp add: request_prepareBuffersForSend_def writer_prepareBuffersForSend_def getRequest_def)

text \<open>The handler of a completed write, and \<open>finishedWriting\<close> with the handler of the client, if any.\<close>

definition finishedWriting :: "('c \<Rightarrow> 'c) option \<Rightarrow> 'c \<Rightarrow> 'c" where
  "finishedWriting m_finished c = (case m_finished of None \<Rightarrow> c | Some f \<Rightarrow> f c)"

definition request_handleWrite :: "bool \<Rightarrow> ('c \<Rightarrow> 'c) option \<Rightarrow> HTTPWriter \<Rightarrow> 'c \<Rightarrow> HTTPWriter \<times> 'c" where
  "request_handleWrite write_error m_finished w c =
     (let w' = (if write_error then w
                else if w_sending_chunks w then writer_clear w
                else w)
      in (w', finishedWriting m_finished c))"

section \<open>Response readers\<close>

text \<open>The reader of the answer to a request; \<open>readBytes\<close> and \<open>finishedReading\<close> are those of the request
  reader, and so are the operations of the base class.\<close>

definition HTTPResponseReader :: "HTTPMessage \<Rightarrow> fault + HTTPReader" where
  "HTTPResponseReader http_request =
     bindE (HTTPResponse_for http_request) (\<lambda>resp.
       Inr \<lparr>r_parser = HTTPParser_init False DEFAULT_CONTENT_MAX, r_http_msg = resp, r_timer = None,
            r_read_timeout = DEFAULT_READ_TIMEOUT\<rparr>)"

section \<open>The first line in the message\<close>

text \<open>What the first line of a message says: the method, the resource and the query string, or the
  status, with the method of the request it answers.\<close>

definition message_line :: "HTTPMessage \<Rightarrow> (string \<times> string \<times> string) + (32 word \<times> string \<times> string)" where
  "message_line msg =
     (case m_class msg of
        Request r \<Rightarrow> Inl (m_method r, m_resource r, m_query_string r)
      | Response r \<Rightarrow> Inr (m_status_code r, m_status_message r, m_request_method r))"

lemma message_line_parse_query: "parse_query s msg = Inr m \<Longrightarrow> message_line m = message_line msg"
  by (auto simp: parse_query_def update_request_def as_request_def message_line_def split: message_class.splits)

lemma message_line_updates [simp]:
  "message_line (computeMsgStatus msg ok) = message_line msg"
  "message_line (msg\<lparr>m_is_valid := v\<rparr>) = message_line msg"
  "message_line (msg\<lparr>m_content_length := n\<rparr>) = message_line msg"
  "message_line (msg\<lparr>m_content_buf := b\<rparr>) = message_line msg"
  "message_line (parse_cookies name set_cookie msg) = message_line msg"
  by (simp_all add: message_line_def computeMsgStatus_def parse_cookies_def)

lemma message_line_post_content: "parse_post_content p msg = Inr m \<Longrightarrow> message_line m = message_line msg"
  by (auto simp: parse_post_content_def message_line_parse_query split: if_splits)

lemma request_header_data:
  assumes "p_is_request p" "is_request msg"
  shows "\<exists>m. updateMessageWithHeaderData p msg = Inr m \<and> same_body msg m \<and>
     message_line m = Inl (p_method p, p_resource p, p_query_string p)"
proof -
  obtain r where r: "m_class msg = Request r"
    using assms(2) by (cases "m_class msg") (auto simp: is_request_def)
  obtain m where m: "updateMessageWithHeaderData p msg = Inr m" "same_body msg m"
    using updateMessageWithHeaderData_ok [of msg p] assms by (auto simp: keeps_body_def)
  define m3 where "m3 = msg\<lparr>m_class := Request (r\<lparr>m_method := p_method p, m_resource := p_resource p,
    m_original_resource := p_resource p, m_query_string := p_query_string p\<rparr>), m_first_line := []\<rparr>"
  have 3: "message_line m3 = Inl (p_method p, p_resource p, p_query_string p)"
    by (simp add: m3_def message_line_def)
  define x where "x = (if p_query_string p \<noteq> [] then parse_query (p_query_string p) m3 else Inr m3)"
  have "updateMessageWithHeaderData p msg = bindE x (\<lambda>m4. Inr (parse_cookies HEADER_COOKIE False m4))"
    using assms(1) r unfolding updateMessageWithHeaderData_def update_with_request_data_def setMethod_def setResource_def
      setQueryString_def update_request_def as_request_def clearFirstLine_def
    by (simp add: m3_def x_def)
  then obtain m4 where x: "x = Inr m4" and m4: "m = parse_cookies HEADER_COOKIE False m4"
    using m(1) by (cases x) auto
  have "(if p_query_string p \<noteq> [] then parse_query (p_query_string p) m3 else Inr m3) = Inr m4"
    using x by (simp only: x_def)
  then have "message_line m4 = message_line m3" by (auto split: if_splits dest: message_line_parse_query)
  with 3 m4 m show ?thesis by simp
qed

lemma response_header_data:
  assumes "\<not> p_is_request p" "m_class msg = Response r"
  shows "\<exists>m. updateMessageWithHeaderData p msg = Inr m \<and> same_body msg m \<and>
     message_line m = Inr (ucast (p_status_code p), p_status_message p, m_request_method r)"
proof -
  obtain m where m: "updateMessageWithHeaderData p msg = Inr m" "same_body msg m"
    using updateMessageWithHeaderData_ok [of msg p] assms by (auto simp: keeps_body_def is_request_def)
  with assms show ?thesis
    by (auto simp: updateMessageWithHeaderData_def update_with_response_data_def setStatusCode_def setStatusMessage_def
        update_response_def as_response_def clearFirstLine_def message_line_def parse_cookies_def)
qed

section \<open>A message as it is received\<close>

text \<open>The header step of the parser on a request, and on a response, that was sent.\<close>

lemma sent_request_headers:
  fixes rest :: string and maxlen :: nat
  assumes "m_class msg = Request r" "m_first_line msg = []" "\<forall>n. lexical_cast_string lib n = decimal n"
    and "sendable_request r" "grouped (m_headers msg)"
    and "\<forall>e\<in>set (m_headers (prepareHeadersForSend lib ka ch msg)). sendable_header e"
    and "m_headers fresh = []" "m_first_line fresh = []"
  defines "p0 \<equiv> setReadBuffer (concat (fst (prepareBuffersForSend lib ka ch msg)) @ rest) (HTTPParser_init True maxlen)"
  shows "\<exists>p m. parse_step lib Indeterminate p0 fresh =
       bindE (finishHeaderParsing lib p m) (\<lambda>(rc, p', m'). Inr (p_bytes_last_read p', rc, p', m')) \<and>
     \<not> parser_eof p0 \<and>
     p_method p = m_method r \<and> p_resource p = m_resource r \<and> p_query_string p = m_query_string r \<and>
     p_read_buf p = rest \<and> p_is_request p \<and> p_max_content_length p = maxlen \<and>
     m_headers m = m_headers (prepareHeadersForSend lib ka ch msg) \<and> m_class m = m_class fresh"
proof -
  define fresh1 where "fresh1 = fresh\<lparr>m_version_major := m_version_major msg, m_version_minor := m_version_minor msg\<rparr>"
  have hd: "m_headers (add_headers (m_headers (prepareHeadersForSend lib ka ch msg)) fresh1)
      = m_headers (prepareHeadersForSend lib ka ch msg)"
    by (rule m_headers_add_headers [OF prepareHeadersForSend_grouped [OF assms(5)]])
      (simp add: fresh1_def assms(7))
  have ne: "\<not> parser_eof p0"
    using request_text [OF assms(1-3), of ka ch] by (simp add: p0_def setReadBuffer_def parser_eof_def)
  have st: "p_message_parse_state p0 = PARSE_START" by (simp add: p0_def setReadBuffer_def HTTPParser_init_def)
  obtain p where p: "parseHeaders (message_state PARSE_HEADERS p0) fresh =
        (TTrue, p, add_headers (m_headers (prepareHeadersForSend lib ka ch msg)) fresh1)"
      "p_method p = m_method r" "p_resource p = m_resource r" "p_query_string p = m_query_string r"
      "p_read_buf p = rest" "p_is_request p" "p_max_content_length p = maxlen"
    using parse_request_exact [OF assms(1-6,8), of "message_state PARSE_HEADERS p0" rest]
    by (auto simp: p0_def setReadBuffer_def HTTPParser_init_def first_headers_state_def fresh1_def)
  have "parse_step lib Indeterminate p0 fresh =
      bindE (finishHeaderParsing lib p (add_headers (m_headers (prepareHeadersForSend lib ka ch msg)) fresh1))
        (\<lambda>(rc, p', m'). Inr (p_bytes_last_read p', rc, p', m'))"
    using p(1) st by (simp add: parse_step_def parse_headers_step_def)
  with p ne hd show ?thesis
    by (intro exI [of _ p] exI [of _ "add_headers (m_headers (prepareHeadersForSend lib ka ch msg)) fresh1"])
      (simp add: add_headers_frame fresh1_def)
qed

lemma sent_response_headers:
  fixes rest :: string and maxlen :: nat
  assumes "m_class msg = Response r" "m_first_line msg = []" "\<forall>n. lexical_cast_string lib n = decimal n"
    and "sendable_response r" "grouped (m_headers msg)"
    and "\<forall>e\<in>set (m_headers (prepareHeadersForSend lib ka ch msg)). sendable_header e"
    and "m_headers fresh = []" "m_first_line fresh = []"
  defines "p0 \<equiv> setReadBuffer (concat (fst (prepareBuffersForSend lib ka ch msg)) @ rest) (HTTPParser_init False maxlen)"
  shows "\<exists>p m. parse_step lib Indeterminate p0 fresh =
       bindE (finishHeaderParsing lib p m) (\<lambda>(rc, p', m'). Inr (p_bytes_last_read p', rc, p', m')) \<and>
     \<not> parser_eof p0 \<and>
     ucast (p_status_code p) = m_status_code r \<and> p_status_message p = m_status_message r \<and>
     p_read_buf p = rest \<and> \<not> p_is_request p \<and> p_max_content_length p = maxlen \<and>
     m_headers m = m_headers (prepareHeadersForSend lib ka ch msg) \<and> m_class m = m_class fresh"
proof -
  define fresh1 where "fresh1 = fresh\<lparr>m_version_major := m_version_major msg, m_version_minor := m_version_minor msg\<rparr>"
  have hd: "m_headers (add_headers (m_headers (prepareHeadersForSend lib ka ch msg)) fresh1)
      = m_headers (prepareHeadersForSend lib ka ch msg)"
    by (rule m_headers_add_headers [OF prepareHeadersForSend_grouped [OF assms(5)]])
      (simp add: fresh1_def assms(7))
  have ne: "\<not> parser_eof p0"
    using response_text [OF assms(1-3), of ka ch] by (simp add: p0_def setReadBuffer_def parser_eof_def)
  have st: "p_message_parse_state p0 = PARSE_START" by (simp add: p0_def setReadBuffer_def HTTPParser_init_def)
  obtain p where p: "parseHeaders (message_state PARSE_HEADERS p0) fresh =
        (TTrue, p, add_headers (m_headers (prepareHeadersForSend lib ka ch msg)) fresh1)"
      "p_status_code p = ucast (m_status_code r)" "p_status_message p = m_status_message r"
      "p_read_buf p = rest" "\<not> p_is_request p" "p_max_content_length p = maxlen"
    using parse_response_exact [OF assms(1-4,6,8), of "message_state PARSE_HEADERS p0" rest]
    by (auto simp: p0_def setReadBuffer_def HTTPParser_init_def first_headers_state_def fresh1_def)
  have code: "ucast (ucast (m_status_code r) :: 16 word) = m_status_code r"
    using assms(4) by (subst word_unat_eq_iff) (simp add: sendable_response_def unsigned_ucast_eq take_bit_eq_mod unat_mod)
  have "parse_step lib Indeterminate p0 fresh =
      bindE (finishHeaderParsing lib p (add_headers (m_headers (prepareHeadersForSend lib ka ch msg)) fresh1))
        (\<lambda>(rc, p', m'). Inr (p_bytes_last_read p', rc, p', m'))"
    using p(1) st by (simp add: parse_step_def parse_headers_step_def)
  with p ne hd code show ?thesis
    by (intro exI [of _ p] exI [of _ "add_headers (m_headers (prepareHeadersForSend lib ka ch msg)) fresh1"])
      (simp add: add_headers_frame fresh1_def)
qed

text \<open>The end of the headers, for a message that is not chunked and announces its length: without a body
  the message is complete, with one the parser expects as many bytes as were announced.\<close>

lemma finish_sized_headers:
  assumes "dict_values HEADER_TRANSFER_ENCODING (m_headers m) = []"
    and "dict_values HEADER_CONTENT_LENGTH (m_headers m) = [v]" "lexical_cast_size lib (trim lib v) = Some n"
    and "n \<le> p_max_content_length p" "n < 2 ^ 64 - 1"
    and m1: "updateMessageWithHeaderData (p\<lparr>p_bytes_content_remaining := 0, p_bytes_content_read := 0\<rparr>)
        (m\<lparr>m_content_length := 0, m_is_chunked := False\<rparr>) = Inr m1"
      "same_body (m\<lparr>m_content_length := 0, m_is_chunked := False\<rparr>) m1" "\<not> isContentLengthImplied m1"
  shows "\<exists>p' m'. finishHeaderParsing lib p m = Inr (if n = 0 then TTrue else Indeterminate, p', m') \<and>
     p_read_buf p' = p_read_buf p \<and> p_is_request p' = p_is_request p \<and> p_max_content_length p' = p_max_content_length p \<and>
     p_bytes_content_read p' = 0 \<and>
     (n \<noteq> 0 \<longrightarrow> p_message_parse_state p' = PARSE_CONTENT \<and> p_bytes_content_remaining p' = n) \<and>
     m_content_buf m' = Some (replicate n None @ [Some (CHR 0x00)]) \<and> m_content_length m' = of_nat n \<and>
     is_request m' = is_request m \<and> message_line m' = message_line m1 \<and> m_headers m' = m_headers m"
proof -
  define p0 where "p0 = p\<lparr>p_bytes_content_remaining := 0, p_bytes_content_read := 0\<rparr>"
  define m0 where "m0 = m\<lparr>m_content_length := 0, m_is_chunked := False\<rparr>"
  have te: "updateTransferCodingUsingHeader lib (m\<lparr>m_content_length := 0\<rparr>) = m0"
    using assms(1) dict_find_values(1) [of HEADER_TRANSFER_ENCODING "m_headers m"]
    by (simp add: updateTransferCodingUsingHeader_def m0_def)
  note m1 = m1 [folded p0_def m0_def]
  have b: "is_request m1 = is_request m" "\<not> m_is_chunked m1" "m_headers m1 = m_headers m"
    using m1(2) by (auto simp: same_body_def m0_def is_request_def)
  obtain e where e: "dict_find HEADER_CONTENT_LENGTH (m_headers m1) = Some e" "snd e = v"
    using assms(2) b(3) dict_find_values [of HEADER_CONTENT_LENGTH "m_headers m1"]
    by (cases "dict_find HEADER_CONTENT_LENGTH (m_headers m1)") auto
  have u: "updateContentLengthUsingHeader lib m1 = Some (m1\<lparr>m_content_length := of_nat n\<rparr>)"
    using e assms(3) by (simp add: updateContentLengthUsingHeader_def)
  have z: "(of_nat n :: 64 word) = 0 \<longleftrightarrow> n = 0" "unat (of_nat n :: 64 word) = n"
    using of_nat_not_max [OF assms(5)] by auto
  have has: "hasHeader HEADER_CONTENT_LENGTH m1"
    using e by (simp add: hasHeader_def)
  define p2 where "p2 = (if n = 0 then message_state PARSE_END p0
     else (message_state PARSE_CONTENT p0)\<lparr>p_bytes_content_remaining := n\<rparr>)"
  have c: "choose_content lib p0 m1 = Some (if n = 0 then TTrue else Indeterminate, p2, m1\<lparr>m_content_length := of_nat n\<rparr>)"
    using b m1(3) has u z assms(4) by (simp add: choose_content_def use_content_length_def Let_def p2_def p0_def)
  have buf: "createContentBuffer (m1\<lparr>m_content_length := of_nat n\<rparr>) =
      Inr (m1\<lparr>m_content_length := of_nat n, m_content_buf := Some (replicate n None @ [Some (CHR 0x00)])\<rparr>)"
    using createContentBuffer_ok [of "m1\<lparr>m_content_length := of_nat n\<rparr>"] of_nat_not_max [OF assms(5)] by simp
  have "finishHeaderParsing lib p m = Inr (if n = 0 then TTrue else Indeterminate, p2,
      m1\<lparr>m_content_length := of_nat n, m_content_buf := Some (replicate n None @ [Some (CHR 0x00)])\<rparr>)"
    unfolding finishHeaderParsing_def Let_def p0_def [symmetric] te using m1(1) c buf by simp
  with b show ?thesis by (auto simp: p2_def p0_def is_request_def)
qed

text \<open>The body, and the end of the message.\<close>

lemma consume_sent_body:
  assumes "p_bytes_content_remaining p = length s" "p_bytes_content_read p = 0" "p_read_buf p = s @ rest"
    and "0 < length s" "length s \<le> p_max_content_length p"
    and "m_content_buf m = Some (replicate (length s) None @ [z])"
  shows "\<exists>p'. consumeContent p m = Inr (TTrue, p', m\<lparr>m_content_buf := Some (map Some s @ [z])\<rparr>) \<and>
     p_read_buf p' = rest \<and> p_is_request p' = p_is_request p"
  using assms write_at_0_full [of s z] less_le_trans [OF assms(4,5)]
  by (simp add: consumeContent_def Let_def write_content_def)

lemma conclude_sent:
  assumes "is_request m = p_is_request p" "content_bytes m = Inr s"
  shows "\<exists>m'. conclude (TTrue, p, m) = Inr (TTrue, message_state PARSE_END p, m') \<and> m_is_valid m' \<and>
     content_bytes m' = Inr s \<and> message_line m' = message_line m \<and> m_headers m' = m_headers m"
proof -
  define m1 where "m1 = computeMsgStatus (m\<lparr>m_is_valid := True\<rparr>) True"
  have m1: "is_request m1 = p_is_request (message_state PARSE_END p)" "content_bytes m1 = Inr s" "m_is_valid m1"
    "m_headers m1 = m_headers m" "message_line m1 = message_line m"
    using assms by (simp_all add: m1_def) (simp add: computeMsgStatus_def)
  obtain m' where m': "parse_post_content (message_state PARSE_END p) m1 = Inr m'" "same_body m1 m'"
    using parse_post_content_safe [OF m1(1,2)] by blast
  then have "conclude (TTrue, p, m) = Inr (TTrue, message_state PARSE_END p, m')"
    by (simp add: conclude_def finish_def finish_content_def m1_def)
  with m1 m' content_bytes_same [OF m'(2)] message_line_post_content [OF m'(1)] show ?thesis
    by (simp add: same_body_def)
qed

lemma parse_sized:
  assumes "parse_step lib Indeterminate p0 fresh =
       bindE (finishHeaderParsing lib p1 m1) (\<lambda>(rc, p', m'). Inr (p_bytes_last_read p', rc, p', m'))"
    and "\<not> parser_eof p0" "\<not> m_has_missing_packets fresh"
    and fin: "finishHeaderParsing lib p1 m1 = Inr (if length s = 0 then TTrue else Indeterminate, p2, m2)"
      "p_read_buf p2 = s @ rest" "is_request m2 = p_is_request p2" "p_bytes_content_read p2 = 0"
      "length s \<noteq> 0 \<longrightarrow> p_message_parse_state p2 = PARSE_CONTENT \<and> p_bytes_content_remaining p2 = length s"
      "m_content_buf m2 = Some (replicate (length s) None @ [Some (CHR 0x00)])" "m_content_length m2 = of_nat (length s)"
    and "length s \<le> p_max_content_length p2" "length s < 2 ^ 64 - 1"
  shows "\<exists>p' m'. parse lib p0 fresh = Some (Inr (TTrue, p', m')) \<and> p_read_buf p' = rest \<and> m_is_valid m' \<and>
     content_bytes m' = Inr s \<and> message_line m' = message_line m2 \<and> m_headers m' = m_headers m2"
proof -
  have u: "unat (of_nat (length s) :: 64 word) = length s" using of_nat_not_max(2) [OF assms(12)] by simp
  obtain p3 m3 k where 3: "parse_loop lib 2 0 Indeterminate p0 fresh = Some (Inr (k, TTrue, p3, m3))"
     "p_read_buf p3 = rest" "is_request m3 = p_is_request p3" "content_bytes m3 = Inr s"
     "message_line m3 = message_line m2" "m_headers m3 = m_headers m2"
  proof (cases "length s = 0")
    case True
    have "content_bytes m2 = Inr []" by (rule content_bytes_nil) (use fin(6,7) True in auto)
    then show ?thesis using that [of _ p2 m2] assms(1) fin True by (simp add: numeral_2_eq_2)
  next
    case False
    define m3 where "m3 = m2\<lparr>m_content_buf := Some (map Some s @ [Some (CHR 0x00)])\<rparr>"
    obtain p3 where p3: "consumeContent p2 m2 = Inr (TTrue, p3, m3)" "p_read_buf p3 = rest" "p_is_request p3 = p_is_request p2"
      using consume_sent_body [of p2 s rest m2 "Some (CHR 0x00)"] fin False assms(11) by (auto simp: m3_def)
    have c: "content_bytes m3 = Inr s"
      by (rule content_bytes_full [where z = "[Some (CHR 0x00)]"]) (use fin(7) u in \<open>simp_all add: m3_def\<close>)
    have ne: "\<not> parser_eof p2" using fin(2) False by (simp add: parser_eof_def)
    have "parse_step lib Indeterminate p2 m2 = Inr (p_bytes_last_read p3, TTrue, p3, m3)"
      using fin(5) False p3(1) by (simp add: parse_step_def)
    then have "parse_loop lib 2 0 Indeterminate p0 fresh =
        Some (Inr (p_bytes_last_read p2 + p_bytes_last_read p3, TTrue, p3, m3))"
      using assms(1) fin(1) False ne by (simp add: numeral_2_eq_2)
    then show ?thesis using that p3 c fin(3) by (simp add: m3_def is_request_def)
  qed
  obtain m' where "conclude (TTrue, p3, m3) = Inr (TTrue, message_state PARSE_END p3, m')" "m_is_valid m'"
     "content_bytes m' = Inr s" "message_line m' = message_line m3" "m_headers m' = m_headers m3"
    using conclude_sent [OF 3(3,4)] by blast
  with assms(2,3) 3 show ?thesis by (simp add: parse_def Let_def)
qed

section \<open>The headers of a message that is sent as a whole\<close>

text \<open>A dictionary of headers that can be sent; what \<open>prepareHeadersForSend\<close> adds can be sent as well.\<close>

definition sendable_headers :: "StringDictionary \<Rightarrow> bool" where
  "sendable_headers d \<longleftrightarrow> grouped d \<and> (\<forall>e\<in>set d. sendable_header e) \<and> dict_values HEADER_TRANSFER_ENCODING d = []"

lemma sendable_value: "sendable_header e \<Longrightarrow> sendable_header (k, v) \<Longrightarrow> sendable_header (fst e, v)"
  by (simp add: sendable_header_def)

lemma sendable_changeValue:
  assumes "sendable_header (k, v)"
  shows "\<forall>e\<in>set d. sendable_header e \<Longrightarrow> \<forall>e\<in>set (changeValue k v d). sendable_header e"
proof (induction d)
  case (Cons e d)
  have "sendable_header (fst e, v)" using Cons.prems assms by (intro sendable_value) auto
  moreover have "\<forall>x\<in>set (dropWhile (key_eq k) d). sendable_header x" using Cons.prems by (auto dest: set_dropWhileD)
  ultimately show ?case using Cons by (simp add: changeValue_eqs)
qed (simp add: changeValue_eqs assms)

lemma length_decimal: "n < 10 ^ Suc k \<Longrightarrow> length (decimal n) \<le> Suc k"
proof (induction k arbitrary: n)
  case (Suc k)
  have "n div 10 < 10 ^ Suc k" using Suc.prems by (simp add: less_mult_imp_div_less)
  with Suc.IH show ?case by (subst decimal.simps) auto
qed (subst decimal.simps, simp)

lemma digit_not_control: "isDigit c \<Longrightarrow> \<not> isControl c"
  by (simp add: isDigit_def isControl_def)

lemma sendable_sized_headers:
  assumes "sendable_headers (m_headers msg)" "\<forall>n. lexical_cast_string lib n = decimal n"
    and "\<not> m_do_not_send_content_length msg" "unat (m_content_length msg) = n"
  shows "grouped (m_headers msg)"
    and "\<forall>e\<in>set (m_headers (prepareHeadersForSend lib ka False msg)). sendable_header e"
    and "dict_values HEADER_TRANSFER_ENCODING (m_headers (prepareHeadersForSend lib ka False msg)) = []"
    and "dict_values HEADER_CONTENT_LENGTH (m_headers (prepareHeadersForSend lib ka False msg)) = [decimal n]"
proof -
  define d where "d = changeValue HEADER_CONNECTION (if ka then ''Keep-Alive'' else ''close'') (m_headers msg)"
  have hs: "m_headers (prepareHeadersForSend lib ka False msg) = changeValue HEADER_CONTENT_LENGTH (decimal n) d"
    using assms(2-4) by (simp add: prepareHeadersForSend_def changeHeader_def Let_def d_def)
  show g: "grouped (m_headers msg)" using assms(1) by (simp add: sendable_headers_def)
  have gd: "grouped d" unfolding d_def by (rule grouped_changeValue [OF g])
  have ne: "\<not> CaseInsensitiveEqual HEADER_CONTENT_LENGTH HEADER_TRANSFER_ENCODING"
    "\<not> CaseInsensitiveEqual HEADER_CONNECTION HEADER_TRANSFER_ENCODING" by code_simp+
  have "dict_values HEADER_TRANSFER_ENCODING d = []"
    using ne(2) assms(1) by (simp add: d_def dict_values_change [OF g] sendable_headers_def)
  then show "dict_values HEADER_TRANSFER_ENCODING (m_headers (prepareHeadersForSend lib ka False msg)) = []"
    using ne(1) by (simp add: hs dict_values_change [OF gd])
  show "dict_values HEADER_CONTENT_LENGTH (m_headers (prepareHeadersForSend lib ka False msg)) = [decimal n]"
    by (simp add: hs dict_values_change [OF gd])
  have c: "sendable_header (HEADER_CONNECTION, ''Keep-Alive'')" "sendable_header (HEADER_CONNECTION, ''close'')"
    by (simp_all add: sendable_header_def HEADER_CONNECTION_def token_char_def isChar_def isControl_def isSpecial_def
        char_to_int_def HEADER_NAME_MAX_def HEADER_VALUE_MAX_def)
  have "unat (m_content_length msg) < 2 ^ LENGTH(64)" by (rule unsigned_less)
  then have "n < 2 ^ 64" using assms(4) by simp
  then have "length (decimal n) \<le> Suc 19" by (intro length_decimal) simp
  then have l: "sendable_header (HEADER_CONTENT_LENGTH, decimal n)"
    using decimal_digits [of n] digit_not_control
    by (simp add: sendable_header_def HEADER_CONTENT_LENGTH_def token_char_def isChar_def isControl_def isSpecial_def
        char_to_int_def HEADER_NAME_MAX_def HEADER_VALUE_MAX_def)
  have "\<forall>e\<in>set d. sendable_header e"
    unfolding d_def using assms(1) c by (intro sendable_changeValue) (simp_all add: sendable_headers_def)
  then show "\<forall>e\<in>set (m_headers (prepareHeadersForSend lib ka False msg)). sendable_header e"
    unfolding hs by (rule sendable_changeValue [OF l])
qed

section \<open>Both ends of a connection\<close>

lemma parse_sent_request_body:
  assumes "m_class msg = Request r" "m_first_line msg = []" "\<forall>n. lexical_cast_string lib n = decimal n"
    and "sendable_request r" "sendable_headers (m_headers msg)"
    and "\<not> m_do_not_send_content_length msg" "unat (m_content_length msg) = length s"
    and "lexical_cast_size lib (trim lib (decimal (length s))) = Some (length s)"
    and "length s \<le> maxlen" "length s < 2 ^ 64 - 1"
    and "m_headers fresh = []" "m_first_line fresh = []" "\<not> m_has_missing_packets fresh" "is_request fresh"
  shows "\<exists>p' m'. parse lib (setReadBuffer (concat (fst (prepareBuffersForSend lib ka False msg)) @ s @ rest)
        (HTTPParser_init True maxlen)) fresh = Some (Inr (TTrue, p', m')) \<and>
     p_read_buf p' = rest \<and> m_is_valid m' \<and> content_bytes m' = Inr s \<and>
     message_line m' = Inl (m_method r, m_resource r, m_query_string r) \<and>
     m_headers m' = m_headers (prepareHeadersForSend lib ka False msg)"
proof -
  note hs = sendable_sized_headers [OF assms(5,3,6,7)]
  obtain p1 m1 where 1: "parse_step lib Indeterminate (setReadBuffer (concat (fst (prepareBuffersForSend lib ka False msg)) @ s @ rest)
        (HTTPParser_init True maxlen)) fresh =
       bindE (finishHeaderParsing lib p1 m1) (\<lambda>(rc, p', m'). Inr (p_bytes_last_read p', rc, p', m'))"
     "\<not> parser_eof (setReadBuffer (concat (fst (prepareBuffersForSend lib ka False msg)) @ s @ rest) (HTTPParser_init True maxlen))"
     "p_method p1 = m_method r" "p_resource p1 = m_resource r" "p_query_string p1 = m_query_string r"
     "p_read_buf p1 = s @ rest" "p_is_request p1" "p_max_content_length p1 = maxlen"
     "m_headers m1 = m_headers (prepareHeadersForSend lib ka False msg)" "m_class m1 = m_class fresh"
    using sent_request_headers [OF assms(1-4) hs(1,2) assms(11,12), where rest = "s @ rest" and maxlen = maxlen] by blast
  have r: "is_request m1" using 1(10) assms(14) by (simp add: is_request_def)
  obtain m2 where m2: "updateMessageWithHeaderData (p1\<lparr>p_bytes_content_remaining := 0, p_bytes_content_read := 0\<rparr>)
        (m1\<lparr>m_content_length := 0, m_is_chunked := False\<rparr>) = Inr m2"
      "same_body (m1\<lparr>m_content_length := 0, m_is_chunked := False\<rparr>) m2"
      "message_line m2 = Inl (m_method r, m_resource r, m_query_string r)"
    using request_header_data [of "p1\<lparr>p_bytes_content_remaining := 0, p_bytes_content_read := 0\<rparr>"
        "m1\<lparr>m_content_length := 0, m_is_chunked := False\<rparr>"] r 1(3-7) by (auto simp: is_request_def)
  have i: "\<not> isContentLengthImplied m2"
    using m2(3) by (auto simp: isContentLengthImplied_def message_line_def split: message_class.splits)
  obtain p3 m3 where 3: "finishHeaderParsing lib p1 m1 = Inr (if length s = 0 then TTrue else Indeterminate, p3, m3)"
      "p_read_buf p3 = s @ rest" "p_is_request p3 = p_is_request p1" "p_max_content_length p3 = maxlen"
      "p_bytes_content_read p3 = 0"
      "length s \<noteq> 0 \<longrightarrow> p_message_parse_state p3 = PARSE_CONTENT \<and> p_bytes_content_remaining p3 = length s"
      "m_content_buf m3 = Some (replicate (length s) None @ [Some (CHR 0x00)])" "m_content_length m3 = of_nat (length s)"
      "is_request m3 = is_request m1" "message_line m3 = message_line m2" "m_headers m3 = m_headers m1"
    using finish_sized_headers [of m1 "decimal (length s)" lib "length s" p1 m2] hs(3,4) 1(6,8,9) assms(8-10) m2(1,2) i by auto
  show ?thesis
    using parse_sized [OF 1(1,2) assms(13) 3(1,2) _ 3(5-8)] 3(3,4,9,10,11) 1(7,9) m2(3) r assms(9,10) by auto
qed

lemma parse_sent_response_body:
  assumes "m_class msg = Response r" "m_first_line msg = []" "\<forall>n. lexical_cast_string lib n = decimal n"
    and "sendable_response r" "sendable_headers (m_headers msg)"
    and "\<not> m_do_not_send_content_length msg" "unat (m_content_length msg) = length s"
    and "lexical_cast_size lib (trim lib (decimal (length s))) = Some (length s)"
    and "length s \<le> maxlen" "length s < 2 ^ 64 - 1"
    and "m_headers fresh = []" "m_first_line fresh = []" "\<not> m_has_missing_packets fresh"
    and "m_class fresh = Response f" "\<not> isContentLengthImplied (fresh\<lparr>m_class := Response (r\<lparr>m_request_method := m_request_method f\<rparr>)\<rparr>)"
  shows "\<exists>p' m'. parse lib (setReadBuffer (concat (fst (prepareBuffersForSend lib ka False msg)) @ s @ rest)
        (HTTPParser_init False maxlen)) fresh = Some (Inr (TTrue, p', m')) \<and>
     p_read_buf p' = rest \<and> m_is_valid m' \<and> content_bytes m' = Inr s \<and>
     message_line m' = Inr (m_status_code r, m_status_message r, m_request_method f) \<and>
     m_headers m' = m_headers (prepareHeadersForSend lib ka False msg)"
proof -
  note hs = sendable_sized_headers [OF assms(5,3,6,7)]
  obtain p1 m1 where 1: "parse_step lib Indeterminate (setReadBuffer (concat (fst (prepareBuffersForSend lib ka False msg)) @ s @ rest)
        (HTTPParser_init False maxlen)) fresh =
       bindE (finishHeaderParsing lib p1 m1) (\<lambda>(rc, p', m'). Inr (p_bytes_last_read p', rc, p', m'))"
     "\<not> parser_eof (setReadBuffer (concat (fst (prepareBuffersForSend lib ka False msg)) @ s @ rest) (HTTPParser_init False maxlen))"
     "ucast (p_status_code p1) = m_status_code r" "p_status_message p1 = m_status_message r"
     "p_read_buf p1 = s @ rest" "\<not> p_is_request p1" "p_max_content_length p1 = maxlen"
     "m_headers m1 = m_headers (prepareHeadersForSend lib ka False msg)" "m_class m1 = m_class fresh"
    using sent_response_headers [OF assms(1-4) hs(1,2) assms(11,12), where rest = "s @ rest" and maxlen = maxlen] by blast
  obtain m2 where m2: "updateMessageWithHeaderData (p1\<lparr>p_bytes_content_remaining := 0, p_bytes_content_read := 0\<rparr>)
        (m1\<lparr>m_content_length := 0, m_is_chunked := False\<rparr>) = Inr m2"
      "same_body (m1\<lparr>m_content_length := 0, m_is_chunked := False\<rparr>) m2"
      "message_line m2 = Inr (m_status_code r, m_status_message r, m_request_method f)"
    using response_header_data [of "p1\<lparr>p_bytes_content_remaining := 0, p_bytes_content_read := 0\<rparr>"
        "m1\<lparr>m_content_length := 0, m_is_chunked := False\<rparr>" f] 1(3,4,6,9) assms(14) by auto
  have i: "\<not> isContentLengthImplied m2"
    using m2(3) assms(15) by (auto simp: isContentLengthImplied_def message_line_def split: message_class.splits)
  obtain p3 m3 where 3: "finishHeaderParsing lib p1 m1 = Inr (if length s = 0 then TTrue else Indeterminate, p3, m3)"
      "p_read_buf p3 = s @ rest" "p_is_request p3 = p_is_request p1" "p_max_content_length p3 = maxlen"
      "p_bytes_content_read p3 = 0"
      "length s \<noteq> 0 \<longrightarrow> p_message_parse_state p3 = PARSE_CONTENT \<and> p_bytes_content_remaining p3 = length s"
      "m_content_buf m3 = Some (replicate (length s) None @ [Some (CHR 0x00)])" "m_content_length m3 = of_nat (length s)"
      "is_request m3 = is_request m1" "message_line m3 = message_line m2" "m_headers m3 = m_headers m1"
    using finish_sized_headers [of m1 "decimal (length s)" lib "length s" p1 m2] hs(3,4) 1(5,7,8) assms(8-10) m2(1,2) i by auto
  have "\<not> is_request m1" using 1(9) assms(14) by (simp add: is_request_def)
  then show ?thesis
    using parse_sized [OF 1(1,2) assms(13) 3(1,2) _ 3(5-8)] 3(3,4,9,10,11) 1(6,8) m2(3) assms(9,10) by auto
qed

text \<open>What a writer sends as a whole, in terms of the message it holds.\<close>

lemma with_length_fields:
  assumes "m_content_length msg = 0" "n < 2 ^ 64"
  shows "m_class (with_length n msg) = m_class msg" "m_first_line (with_length n msg) = m_first_line msg"
    "m_headers (with_length n msg) = m_headers msg"
    "m_do_not_send_content_length (with_length n msg) = m_do_not_send_content_length msg"
    "unat (m_content_length (with_length n msg)) = n"
  using assms by (simp_all add: with_length_def unat_of_nat)

lemma consumeBytes_read_parsed:
  assumes "parse lib (setReadBuffer s (r_parser r)) (r_http_msg r) = Some (Inr (TTrue, p', m'))"
  shows "consumeBytes_read lib fin (Read_some s) r c =
     finishedReading fin m' (c\<lparr>x_conn := set_connection_lifecycle p' m' (x_conn c)\<rparr>)"
  using assms by (simp add: consumeBytes_read_def consumeBytes_def parse_now_def Let_def)

lemma request_reader: "setMaxContentLength n HTTPRequestReader =
    \<lparr>r_parser = HTTPParser_init True n, r_http_msg = HTTPRequest_init [], r_timer = None, r_read_timeout = DEFAULT_READ_TIMEOUT\<rparr>"
  by (simp add: setMaxContentLength_def HTTPRequestReader_def HTTPParser_init_def)

lemma HTTPResponse_for_fields:
  assumes "m_class req = Request q" "HTTPResponse_for req = Inr resp"
  shows "m_headers resp = []" "m_first_line resp = []" "\<not> m_has_missing_packets resp"
    "m_class resp = Response \<lparr>m_status_code = RESPONSE_CODE_OK, m_status_message = RESPONSE_MESSAGE_OK,
       m_request_method = m_method q\<rparr>"
  using assms by (auto simp: HTTPResponse_for_def updateRequestInfo_def as_request_def update_response_def as_response_def
      HTTPResponse_init_def HTTPMessage_init_def split: if_splits)

lemma response_reader:
  assumes "HTTPResponseReader req = Inr rd"
  shows "\<exists>resp. HTTPResponse_for req = Inr resp \<and>
     setMaxContentLength n rd = \<lparr>r_parser = HTTPParser_init False n, r_http_msg = resp, r_timer = None,
       r_read_timeout = DEFAULT_READ_TIMEOUT\<rparr>"
  using assms by (auto simp: HTTPResponseReader_def setMaxContentLength_def HTTPParser_init_def)

lemma sent_headers: "m_headers (snd (prepareBuffersForSend lib ka ch msg)) = m_headers (prepareHeadersForSend lib ka ch msg)"
  by (simp add: prepareBuffersForSend_def getFirstLine_def updateFirstLine_def Let_def split: message_class.splits)

section \<open>Properties\<close>

text \<open>C6: A request a client writes reaches the server's request handler as it was written. What a request
  writer sends for a request without content of its own, read in one piece by the request reader of a
  server, with any bytes behind it, calls the finished handler exactly once, with a valid message that has the
  method, the resource, the query string and the headers of the request that was sent and exactly
  the content that was written, up to the server's maximum; the bytes behind it are left for the next request.
  Boost's conversions of sizes to decimal text and back are assumed.\<close>

theorem request_reaches_handler:
  assumes "tc_open conn" "writer_ok w" "\<not> w_sent_headers w" "\<not> w_sending_chunks w"
    and "m_class (getRequest w) = Request r" "m_first_line (getRequest w) = []" "sendable_request r"
    and "sendable_headers (m_headers (getRequest w))" "\<not> m_do_not_send_content_length (getRequest w)"
    and "m_content_length (getRequest w) = 0"
    and "\<forall>n. lexical_cast_string lib n = decimal n"
    and "lexical_cast_size lib (trim lib (decimal (length (writer_content w)))) = Some (length (writer_content w))"
    and "length (writer_content w) \<le> maxlen" "length (writer_content w) < 2 ^ 64 - 1"
  shows "\<exists>bytes w' p' m'. writer_send lib conn w = Inr (async_write bytes conn, w') \<and>
     consumeBytes_read lib fin (Read_some (bytes @ rest)) (setMaxContentLength maxlen HTTPRequestReader) c =
       finishedReading fin m' (c\<lparr>x_conn := set_connection_lifecycle p' m' (x_conn c)\<rparr>) \<and>
     p_read_buf p' = rest \<and> m_is_valid m' \<and> content_bytes m' = Inr (writer_content w) \<and>
     message_line m' = Inl (m_method r, m_resource r, m_query_string r) \<and>
     m_headers m' = m_headers (getRequest w')"
proof -
  define msg where "msg = with_length (length (writer_content w)) (getRequest w)"
  have len: "length (writer_content w) < 2 ^ 64" using assms(14) by simp
  note f = with_length_fields [OF assms(10) len, folded msg_def]
  obtain w' where w': "writer_send lib conn w =
      Inr (async_write (response_headers lib (getKeepAlive conn) False msg @ writer_content w) conn, w')"
    "w_http_response w' = snd (prepareBuffersForSend lib (getKeepAlive conn) False msg)"
    using writer_send_eq [OF assms(1-4), of lib] by (auto simp: msg_def getRequest_def)
  have fresh: "m_headers (HTTPRequest_init []) = []" "m_first_line (HTTPRequest_init []) = []"
    "\<not> m_has_missing_packets (HTTPRequest_init [])" "is_request (HTTPRequest_init [])"
    by (simp_all add: HTTPRequest_init_def HTTPMessage_init_def is_request_def)
  obtain p' m' where p: "parse lib (setReadBuffer (response_headers lib (getKeepAlive conn) False msg @ writer_content w @ rest)
        (HTTPParser_init True maxlen)) (HTTPRequest_init []) = Some (Inr (TTrue, p', m'))"
     "p_read_buf p' = rest" "m_is_valid m'" "content_bytes m' = Inr (writer_content w)"
     "message_line m' = Inl (m_method r, m_resource r, m_query_string r)"
     "m_headers m' = m_headers (prepareHeadersForSend lib (getKeepAlive conn) False msg)"
    using parse_sent_request_body [OF _ _ assms(11,7) _ _ f(5) assms(12-14) fresh, of "getKeepAlive conn" rest] f assms(5,6,8,9)
    unfolding response_headers_def by auto
  have hd: "m_headers (getRequest w') = m_headers (prepareHeadersForSend lib (getKeepAlive conn) False msg)"
    using w'(2) by (simp add: getRequest_def sent_headers)
  have "consumeBytes_read lib fin (Read_some ((response_headers lib (getKeepAlive conn) False msg @ writer_content w) @ rest))
      (setMaxContentLength maxlen HTTPRequestReader) c =
      finishedReading fin m' (c\<lparr>x_conn := set_connection_lifecycle p' m' (x_conn c)\<rparr>)"
    by (rule consumeBytes_read_parsed) (use p(1) in \<open>simp add: request_reader\<close>)
  note run = this
  show ?thesis by (intro exI conjI) (rule w'(1), rule run, simp_all add: p hd)
qed

definition client_lib :: boost_lib where
  "client_lib = \<lparr>lexical_cast_string = decimal, lexical_cast_size = (\<lambda>s. if s = decimal 4 then Some 4 else None),
     trim = (\<lambda>s. s), regex_icase_chunked = (\<lambda>s. s = ''chunked'')\<rparr>"

definition client_request :: HTTPMessage where
  "client_request = (HTTPRequest_init ''/list'')\<lparr>m_headers := [(''Host'', ''brainslug'')]\<rparr>"

lemma client_request_sendable:
  "m_class client_request = Request \<lparr>m_method = REQUEST_METHOD_GET, m_resource = ''/list'', m_original_resource = [],
     m_query_string = [], m_query_params = [], m_charset = []\<rparr>"
  "sendable_request \<lparr>m_method = REQUEST_METHOD_GET, m_resource = ''/list'', m_original_resource = [],
     m_query_string = [], m_query_params = [], m_charset = []\<rparr>"
  "m_first_line client_request = []" "\<not> m_do_not_send_content_length client_request" "m_content_length client_request = 0"
  "sendable_headers (m_headers client_request)"
proof -
  have "sendable_header (''Host'', ''brainslug'')"
    by (simp add: sendable_header_def token_char_def isChar_def isControl_def isSpecial_def char_to_int_def
        HEADER_NAME_MAX_def HEADER_VALUE_MAX_def)
  moreover have "dict_values HEADER_TRANSFER_ENCODING [(''Host'', ''brainslug'')] = []" by code_simp
  ultimately show "sendable_headers (m_headers client_request)"
    by (simp add: sendable_headers_def client_request_def)
qed (simp_all add: client_request_def HTTPRequest_init_def HTTPMessage_init_def sendable_request_def REQUEST_METHOD_GET_def
    token_char_def isChar_def isControl_def isSpecial_def char_to_int_def METHOD_MAX_def RESOURCE_MAX_def)

lemma request_reaches_handler_witness:
  "\<forall>fin c. \<exists>bytes w' p' m'. writer_send client_lib TCPConnection_init (writer_write ''body'' (HTTPWriter_init client_request)) =
       Inr (async_write bytes TCPConnection_init, w') \<and>
     consumeBytes_read client_lib fin (Read_some (bytes @ ''GET'')) (setMaxContentLength 100 HTTPRequestReader) c =
       finishedReading fin m' (c\<lparr>x_conn := set_connection_lifecycle p' m' (x_conn c)\<rparr>) \<and>
     p_read_buf p' = ''GET'' \<and> content_bytes m' = Inr ''body''"
proof (intro allI, goal_cases)
  case (1 fin c)
  define w where "w = writer_write ''body'' (HTTPWriter_init client_request)"
  have w: "writer_ok w" "writer_content w = ''body''"
    using text_sink.inv_put text_sink.abs_put writer_ok_init by (simp_all add: w_def)
  have len: "length (writer_content w) = 4" using w(2) by simp
  have "tc_open TCPConnection_init" "\<not> w_sent_headers w" "\<not> w_sending_chunks w" "getRequest w = client_request"
    by (simp_all add: TCPConnection_init_def w_def writer_write_def HTTPWriter_init_def getRequest_def)
  moreover have "\<forall>n. lexical_cast_string client_lib n = decimal n"
    "lexical_cast_size client_lib (trim client_lib (decimal (length (writer_content w)))) = Some (length (writer_content w))"
    using len by (simp_all add: client_lib_def)
  ultimately show ?case
    using request_reaches_handler [of TCPConnection_init w _ client_lib 100 fin "''GET''" c] w client_request_sendable
    unfolding w_def [symmetric] by fastforce
qed

text \<open>C37: The answer reaches the client. What a response writer sends for a response without content of
  its own, read in one piece by the reader a client made for its request, calls the client's handler
  with a valid message that has the status, the reason, the headers and exactly the content that were sent, and the
  method of the client's request, provided the status and the method allow a body; the bytes behind it are left.\<close>

theorem response_reaches_client:
  assumes "tc_open conn" "writer_ok w" "\<not> w_sent_headers w" "\<not> w_sending_chunks w"
    and "m_class (w_http_response w) = Response r" "m_first_line (w_http_response w) = []" "sendable_response r"
    and "sendable_headers (m_headers (w_http_response w))" "\<not> m_do_not_send_content_length (w_http_response w)"
    and "m_content_length (w_http_response w) = 0"
    and "m_class req = Request q" "HTTPResponseReader req = Inr rd"
    and "\<not> isContentLengthImplied (req\<lparr>m_class := Response (r\<lparr>m_request_method := m_method q\<rparr>)\<rparr>)"
    and "\<forall>n. lexical_cast_string lib n = decimal n"
    and "lexical_cast_size lib (trim lib (decimal (length (writer_content w)))) = Some (length (writer_content w))"
    and "length (writer_content w) \<le> maxlen" "length (writer_content w) < 2 ^ 64 - 1"
  shows "\<exists>bytes w' p' m'. writer_send lib conn w = Inr (async_write bytes conn, w') \<and>
     consumeBytes_read lib fin (Read_some (bytes @ rest)) (setMaxContentLength maxlen rd) c =
       finishedReading fin m' (c\<lparr>x_conn := set_connection_lifecycle p' m' (x_conn c)\<rparr>) \<and>
     p_read_buf p' = rest \<and> m_is_valid m' \<and> content_bytes m' = Inr (writer_content w) \<and>
     message_line m' = Inr (m_status_code r, m_status_message r, m_method q) \<and>
     m_headers m' = m_headers (w_http_response w')"
proof -
  define msg where "msg = with_length (length (writer_content w)) (w_http_response w)"
  have len: "length (writer_content w) < 2 ^ 64" using assms(17) by simp
  note f = with_length_fields [OF assms(10) len, folded msg_def]
  obtain w' where w': "writer_send lib conn w =
      Inr (async_write (response_headers lib (getKeepAlive conn) False msg @ writer_content w) conn, w')"
    "w_http_response w' = snd (prepareBuffersForSend lib (getKeepAlive conn) False msg)"
    using writer_send_eq [OF assms(1-4), of lib] by (auto simp: msg_def)
  obtain resp where resp: "HTTPResponse_for req = Inr resp" "setMaxContentLength maxlen rd =
      \<lparr>r_parser = HTTPParser_init False maxlen, r_http_msg = resp, r_timer = None, r_read_timeout = DEFAULT_READ_TIMEOUT\<rparr>"
    using response_reader [OF assms(12)] by blast
  note fresh = HTTPResponse_for_fields [OF assms(11) resp(1)]
  have body: "\<not> isContentLengthImplied (resp\<lparr>m_class := Response (r\<lparr>m_request_method := m_request_method
      \<lparr>m_status_code = RESPONSE_CODE_OK, m_status_message = RESPONSE_MESSAGE_OK, m_request_method = m_method q\<rparr>\<rparr>)\<rparr>)"
    using assms(13) by (simp add: isContentLengthImplied_def)
  obtain p' m' where p: "parse lib (setReadBuffer (response_headers lib (getKeepAlive conn) False msg @ writer_content w @ rest)
        (HTTPParser_init False maxlen)) resp = Some (Inr (TTrue, p', m'))"
     "p_read_buf p' = rest" "m_is_valid m'" "content_bytes m' = Inr (writer_content w)"
     "message_line m' = Inr (m_status_code r, m_status_message r, m_method q)"
     "m_headers m' = m_headers (prepareHeadersForSend lib (getKeepAlive conn) False msg)"
    using parse_sent_response_body [OF _ _ assms(14,7) _ _ f(5) assms(15-17) fresh body, of "getKeepAlive conn" rest]
      f assms(5,6,8,9) unfolding response_headers_def by auto
  have hd: "m_headers (w_http_response w') = m_headers (prepareHeadersForSend lib (getKeepAlive conn) False msg)"
    using w'(2) by (simp add: sent_headers)
  have run: "consumeBytes_read lib fin (Read_some ((response_headers lib (getKeepAlive conn) False msg @ writer_content w) @ rest))
      (setMaxContentLength maxlen rd) c = finishedReading fin m' (c\<lparr>x_conn := set_connection_lifecycle p' m' (x_conn c)\<rparr>)"
    by (rule consumeBytes_read_parsed) (use p(1) in \<open>simp add: resp(2)\<close>)
  show ?thesis by (intro exI conjI) (rule w'(1), rule run, simp_all add: p hd)
qed

lemma response_reaches_client_witness:
  "\<forall>fin c. \<exists>rd bytes w' p' m'. HTTPResponseReader client_request = Inr rd \<and>
     writer_send client_lib TCPConnection_init (writer_write ''body'' (HTTPWriter_init (HTTPResponse_init []))) =
       Inr (async_write bytes TCPConnection_init, w') \<and>
     consumeBytes_read client_lib fin (Read_some (bytes @ ''HTTP'')) (setMaxContentLength 100 rd) c =
       finishedReading fin m' (c\<lparr>x_conn := set_connection_lifecycle p' m' (x_conn c)\<rparr>) \<and>
     content_bytes m' = Inr ''body'' \<and> message_line m' = Inr (200, ''OK'', ''GET'')"
proof (intro allI, goal_cases)
  case (1 fin c)
  define w where "w = writer_write ''body'' (HTTPWriter_init (HTTPResponse_init []))"
  define r where "r = \<lparr>m_status_code = RESPONSE_CODE_OK, m_status_message = RESPONSE_MESSAGE_OK, m_request_method = []\<rparr>"
  have w: "writer_ok w" "writer_content w = ''body''"
    using text_sink.inv_put text_sink.abs_put writer_ok_init by (simp_all add: w_def)
  have len: "length (writer_content w) = 4" using w(2) by simp
  have conn: "tc_open TCPConnection_init" by (simp add: TCPConnection_init_def)
  have m: "\<not> w_sent_headers w" "\<not> w_sending_chunks w" "m_class (w_http_response w) = Response r"
    "m_first_line (w_http_response w) = []" "sendable_response r" "sendable_headers (m_headers (w_http_response w))"
    "\<not> m_do_not_send_content_length (w_http_response w)" "m_content_length (w_http_response w) = 0"
    by (simp_all add: w_def writer_write_def HTTPWriter_init_def HTTPResponse_init_def HTTPMessage_init_def r_def
        sendable_response_def RESPONSE_CODE_OK_def RESPONSE_MESSAGE_OK_def isControl_def char_to_int_def
        STATUS_MESSAGE_MAX_def sendable_headers_def dict_values_def)
  obtain rd where rd: "HTTPResponseReader client_request = Inr rd"
    by (auto simp: HTTPResponseReader_def HTTPResponse_for_def updateRequestInfo_def as_request_def client_request_sendable(1)
        update_response_def as_response_def HTTPResponse_init_def HTTPMessage_init_def)
  have i: "\<not> isContentLengthImplied (client_request\<lparr>m_class := Response (r\<lparr>m_request_method := REQUEST_METHOD_GET\<rparr>)\<rparr>)"
    by (simp add: isContentLengthImplied_def r_def RESPONSE_CODE_OK_def REQUEST_METHOD_GET_def REQUEST_METHOD_HEAD_def)
  have lib: "\<forall>n. lexical_cast_string client_lib n = decimal n"
    "lexical_cast_size client_lib (trim client_lib (decimal (length (writer_content w)))) = Some (length (writer_content w))"
    "length (writer_content w) \<le> 100" "length (writer_content w) < 2 ^ 64 - 1"
    using len by (simp_all add: client_lib_def)
  show ?case
    using response_reaches_client [OF conn w(1) m client_request_sendable(1) rd _ lib, of fin "''HTTP''" c] i w(2) rd
    unfolding w_def [symmetric] by (simp add: r_def RESPONSE_CODE_OK_def RESPONSE_MESSAGE_OK_def REQUEST_METHOD_GET_def) blast
qed

section \<open>Requests in chunks\<close>

text \<open>A message that neither is chunked nor announces a length ends with its headers, for a request.\<close>

lemma finish_unsized_headers:
  assumes "p_is_request p" "is_request m"
    and "dict_values HEADER_TRANSFER_ENCODING (m_headers m) = []" "dict_values HEADER_CONTENT_LENGTH (m_headers m) = []"
  shows "\<exists>p' m'. finishHeaderParsing lib p m = Inr (TTrue, p', m') \<and> p_read_buf p' = p_read_buf p \<and>
     is_request m' = p_is_request p' \<and> content_bytes m' = Inr []"
proof -
  define p0 where "p0 = p\<lparr>p_bytes_content_remaining := 0, p_bytes_content_read := 0\<rparr>"
  define m0 where "m0 = m\<lparr>m_content_length := 0, m_is_chunked := False\<rparr>"
  have te: "updateTransferCodingUsingHeader lib (m\<lparr>m_content_length := 0\<rparr>) = m0"
    using assms(3) dict_find_values(1) [of HEADER_TRANSFER_ENCODING "m_headers m"]
    by (simp add: updateTransferCodingUsingHeader_def m0_def)
  obtain m1 where m1: "updateMessageWithHeaderData p0 m0 = Inr m1" "same_body m0 m1"
    "message_line m1 = Inl (p_method p0, p_resource p0, p_query_string p0)"
    using request_header_data [of p0 m0] assms(1,2) by (auto simp: p0_def m0_def is_request_def)
  have b: "is_request m1" "\<not> m_is_chunked m1" "m_headers m1 = m_headers m" "m_content_length m1 = 0"
    using m1(2) assms(2) by (auto simp: same_body_def m0_def is_request_def)
  have i: "\<not> isContentLengthImplied m1"
    using m1(3) by (auto simp: isContentLengthImplied_def message_line_def split: message_class.splits)
  have "\<not> hasHeader HEADER_CONTENT_LENGTH m1"
    using assms(4) b(3) dict_find_values(1) [of HEADER_CONTENT_LENGTH "m_headers m"] by (simp add: hasHeader_def)
  then have c: "choose_content lib p0 m1 = Some (TTrue, message_state PARSE_END p0, m1)"
    using b i assms(1) by (simp add: choose_content_def p0_def)
  have "createContentBuffer m1 = Inr (m1\<lparr>m_content_buf := Some [Some (CHR 0x00)]\<rparr>)"
    using createContentBuffer_ok [of m1] b(4) by simp
  then have f: "finishHeaderParsing lib p m = Inr (TTrue, message_state PARSE_END p0, m1\<lparr>m_content_buf := Some [Some (CHR 0x00)]\<rparr>)"
    unfolding finishHeaderParsing_def Let_def p0_def [symmetric] te using m1(1) c by simp
  have "content_bytes (m1\<lparr>m_content_buf := Some [Some (CHR 0x00)]\<rparr>) = Inr []"
    by (rule content_bytes_nil) (use b(4) in simp_all)
  with f b(1) assms(1) show ?thesis by (auto simp: p0_def is_request_def)
qed

text \<open>A request does not know whether the server supports chunks, and \<open>prepareHeadersForSend\<close> announces them
  only for a message that does: unless the client has set the flag on the request, the chunks follow
  headers that do not mention them. The server takes the request as complete and without content, and
  the chunks are the beginning of the next one.\<close>

lemma chunks_unannounced:
  assumes "tc_open conn" "writer_ok w" "\<not> w_sent_headers w" "w_client_supports_chunks w"
    and "m_class (getRequest w) = Request r" "m_first_line (getRequest w) = []" "sendable_request r"
    and "sendable_headers (m_headers (getRequest w))" "dict_values HEADER_CONTENT_LENGTH (m_headers (getRequest w)) = []"
    and "\<not> m_chunks_supported (getRequest w)" "writer_content w \<noteq> []"
    and "\<forall>n. lexical_cast_string lib n = decimal n"
  shows "\<exists>bytes w' p' m'. sendChunk lib conn w = Inr (async_write bytes conn, w') \<and>
     consumeBytes_read lib fin (Read_some bytes) (setMaxContentLength maxlen HTTPRequestReader) c =
       finishedReading fin m' (c\<lparr>x_conn := set_connection_lifecycle p' m' (x_conn c)\<rparr>) \<and>
     m_is_valid m' \<and> content_bytes m' = Inr [] \<and> p_read_buf p' = chunk_text (writer_content w)"
proof -
  define w1 where "w1 = w\<lparr>w_sending_chunks := True\<rparr>"
  define msg where "msg = getRequest w"
  define s where "s = chunk_text (writer_content w)"
  have w1: "writer_ok w1" "w_client_supports_chunks w1" "w_sending_chunks w1" "writer_content w1 = writer_content w"
    "headers_due lib conn w1 = response_headers lib (getKeepAlive conn) True msg"
    using assms(2-4) by (simp_all add: w1_def writer_ok_def writer_content_def headers_due_def msg_def getRequest_def)
  obtain w' where w': "sendChunk lib conn w = Inr (async_write (response_headers lib (getKeepAlive conn) True msg @ s) conn, w')"
    using sendMoreData_chunked [OF assms(1) w1(1-3), of lib False] w1(4,5) assms(4,11)
    by (auto simp: sendChunk_def w1_def [symmetric] s_def Let_def) (auto simp: w1_def)
  have g: "grouped (m_headers msg)" using assms(8) by (simp add: sendable_headers_def msg_def)
  have none: "dict_values HEADER_TRANSFER_ENCODING (m_headers msg) = []" "dict_values HEADER_CONTENT_LENGTH (m_headers msg) = []"
    using assms(8,9) by (simp_all add: sendable_headers_def msg_def)
  have hs: "m_headers (prepareHeadersForSend lib ka True msg) =
      changeValue HEADER_CONNECTION (if ka then ''Keep-Alive'' else ''close'') (m_headers msg)" for ka
    using assms(10) by (simp add: prepareHeadersForSend_def changeHeader_def Let_def msg_def)
  have ne: "\<not> CaseInsensitiveEqual HEADER_CONNECTION HEADER_CONTENT_LENGTH"
    "\<not> CaseInsensitiveEqual HEADER_CONNECTION HEADER_TRANSFER_ENCODING" by code_simp+
  have "sendable_header (HEADER_CONNECTION, ''Keep-Alive'')" "sendable_header (HEADER_CONNECTION, ''close'')"
    by (simp_all add: sendable_header_def HEADER_CONNECTION_def token_char_def isChar_def isControl_def isSpecial_def
        char_to_int_def HEADER_NAME_MAX_def HEADER_VALUE_MAX_def)
  then have sh: "\<forall>e\<in>set (m_headers (prepareHeadersForSend lib ka True msg)). sendable_header e" for ka
    unfolding hs using assms(8) by (intro sendable_changeValue) (simp_all add: sendable_headers_def msg_def)
  define p0 where "p0 = setReadBuffer (concat (fst (prepareBuffersForSend lib (getKeepAlive conn) True msg)) @ s) (HTTPParser_init True maxlen)"
  have fresh: "m_headers (HTTPRequest_init []) = []" "m_first_line (HTTPRequest_init []) = []"
    "\<not> m_has_missing_packets (HTTPRequest_init [])" "is_request (HTTPRequest_init [])"
    by (simp_all add: HTTPRequest_init_def HTTPMessage_init_def is_request_def)
  obtain p1 m1 where 1: "parse_step lib Indeterminate p0 (HTTPRequest_init []) =
       bindE (finishHeaderParsing lib p1 m1) (\<lambda>(rc, p', m'). Inr (p_bytes_last_read p', rc, p', m'))"
     "\<not> parser_eof p0" "p_read_buf p1 = s" "p_is_request p1"
     "m_headers m1 = m_headers (prepareHeadersForSend lib (getKeepAlive conn) True msg)" "m_class m1 = m_class (HTTPRequest_init [])"
    using sent_request_headers [OF _ _ assms(12,7) g sh fresh(1,2), where rest = s and maxlen = maxlen] assms(5,6)
    unfolding p0_def msg_def by blast
  have d: "dict_values HEADER_TRANSFER_ENCODING (m_headers m1) = []" "dict_values HEADER_CONTENT_LENGTH (m_headers m1) = []"
    using ne none by (simp_all add: 1(5) hs dict_values_change [OF g])
  have "is_request m1" using 1(6) fresh(4) by (simp add: is_request_def)
  then obtain p2 m2 where 2: "finishHeaderParsing lib p1 m1 = Inr (TTrue, p2, m2)" "p_read_buf p2 = s"
     "is_request m2 = p_is_request p2" "content_bytes m2 = Inr []"
    using finish_unsized_headers [OF 1(4) _ d, of lib] 1(3) by auto
  obtain m' where m': "conclude (TTrue, p2, m2) = Inr (TTrue, message_state PARSE_END p2, m')" "m_is_valid m'"
     "content_bytes m' = Inr []"
    using conclude_sent [OF 2(3,4)] by blast
  have "parse_loop lib 2 0 Indeterminate p0 (HTTPRequest_init []) = Some (Inr (p_bytes_last_read p2, TTrue, p2, m2))"
    using 1(1) 2(1) by (simp add: numeral_2_eq_2)
  then have "parse lib p0 (HTTPRequest_init []) =
      Some (Inr (TTrue, (message_state PARSE_END p2)\<lparr>p_bytes_last_read := p_bytes_last_read p2\<rparr>, m'))"
    using 1(2) fresh(3) m'(1) by (simp add: parse_def Let_def)
  then have run: "consumeBytes_read lib fin (Read_some (response_headers lib (getKeepAlive conn) True msg @ s))
      (setMaxContentLength maxlen HTTPRequestReader) c = finishedReading fin m'
      (c\<lparr>x_conn := set_connection_lifecycle ((message_state PARSE_END p2)\<lparr>p_bytes_last_read := p_bytes_last_read p2\<rparr>) m' (x_conn c)\<rparr>)"
    by (intro consumeBytes_read_parsed) (simp add: request_reader p0_def response_headers_def)
  show ?thesis by (intro exI conjI) (rule w', rule run, simp_all add: m' 2(2) s_def)
qed

text \<open>A failed write is only logged: the finished handler is called as after a successful one.\<close>

lemma request_write_error_unseen:
  "snd (request_handleWrite True fin w c) = snd (request_handleWrite False fin w c)"
  by (simp add: request_handleWrite_def Let_def)

end
