(* ===== verification/Tcp_Stream.thy ===== *)
theory Tcp_Stream
  imports Http_Receive "HOL-Library.Sublist"
begin

text \<open>
  \<open>TCPStream.hpp\<close>: the stream buffer over a connection.  Both buffers are arrays with positions, as the pointers of
  \<open>std::basic_streambuf\<close>; an operation starts one asynchronous operation of the connection and waits for its
  completion.  The completions are given by the environment, one list for writes and one for reads;
  an operation whose completion never comes is \<open>Blocked\<close>.  The wait is taken to end only when the operation is complete.
\<close>

section \<open>The buffer\<close>

definition PUT_BACK_MAX :: nat where "PUT_BACK_MAX = 10"
definition WRITE_BUFFER_SIZE :: nat where "WRITE_BUFFER_SIZE = 8192"
definition READ_BUFFER_SIZE :: nat where "READ_BUFFER_SIZE = 8192"

text \<open>\<open>async_write\<close> sends all bytes or fails after some of them.\<close>

datatype write_event = Write_ok | Write_failed nat

record TCPStreamBuffer =
  b_read_buf :: buffer
  b_eback :: nat
  b_gptr :: nat
  b_egptr :: nat
  b_write_buf :: buffer
  b_pptr :: nat
  b_async_error :: bool
  b_bytes_transferred :: nat
  b_sent :: string
  b_writes :: "write_event list"
  b_reads :: "read_event list"

datatype stream_stop = Stream_fault fault | Blocked

definition lift_fault :: "fault + 'a \<Rightarrow> stream_stop + 'a" where
  "lift_fault x = (case x of Inl f \<Rightarrow> Inl (Stream_fault f) | Inr y \<Rightarrow> Inr y)"

lemma lift_fault_simps [simp]: "lift_fault (Inl f) = Inl (Stream_fault f)" "lift_fault (Inr y) = Inr y"
  by (simp_all add: lift_fault_def)

text \<open>Reading \<open>n\<close> bytes behind a position, and \<open>memmove\<close> inside an array.\<close>

definition bytes_from :: "nat \<Rightarrow> nat \<Rightarrow> buffer \<Rightarrow> fault + string" where
  "bytes_from off n buf = (if off + n \<le> length buf then written_bytes (take n (drop off buf)) else Inl Out_of_bounds)"

definition memmove :: "nat \<Rightarrow> nat \<Rightarrow> nat \<Rightarrow> buffer \<Rightarrow> fault + buffer" where
  "memmove dst src n buf =
     (if src + n \<le> length buf \<and> dst + n \<le> length buf
      then Inr (take dst buf @ take n (drop src buf) @ drop (dst + n) buf)
      else Inl Out_of_bounds)"

definition setupBuffers :: "TCPStreamBuffer \<Rightarrow> TCPStreamBuffer" where
  "setupBuffers b = b\<lparr>b_eback := PUT_BACK_MAX, b_gptr := PUT_BACK_MAX, b_egptr := PUT_BACK_MAX, b_pptr := 0\<rparr>"

text \<open>The constructor for a connection, whose read buffer the stream uses; both arrays have no content yet.\<close>

definition TCPStreamBuffer_init :: "write_event list \<Rightarrow> read_event list \<Rightarrow> TCPStreamBuffer" where
  "TCPStreamBuffer_init writes reads = setupBuffers
     \<lparr>b_read_buf = replicate READ_BUFFER_SIZE None, b_eback = 0, b_gptr = 0, b_egptr = 0,
      b_write_buf = replicate WRITE_BUFFER_SIZE None, b_pptr = 0, b_async_error = False, b_bytes_transferred = 0,
      b_sent = [], b_writes = writes, b_reads = reads\<rparr>"

definition operationFinished :: "bool \<Rightarrow> nat \<Rightarrow> TCPStreamBuffer \<Rightarrow> TCPStreamBuffer" where
  "operationFinished error_code bytes_transferred b =
     b\<lparr>b_async_error := error_code, b_bytes_transferred := bytes_transferred\<rparr>"

text \<open>Starting a write and waiting for its end.\<close>

definition write_and_wait :: "string \<Rightarrow> TCPStreamBuffer \<Rightarrow> stream_stop + TCPStreamBuffer" where
  "write_and_wait s b =
     (case b_writes b of
        [] \<Rightarrow> Inl Blocked
      | ev # evs \<Rightarrow>
          let n = (case ev of Write_ok \<Rightarrow> length s | Write_failed k \<Rightarrow> min k (length s))
          in Inr (operationFinished (ev \<noteq> Write_ok) n (b\<lparr>b_writes := evs, b_sent := b_sent b @ take n s\<rparr>)))"

section \<open>Output\<close>

text \<open>The results of the virtual functions are characters or \<open>eof\<close>, which is \<open>None\<close>.\<close>

definition flushOutput :: "TCPStreamBuffer \<Rightarrow> stream_stop + (nat option \<times> TCPStreamBuffer)" where
  "flushOutput b =
     (if b_pptr b > 0 then
        bindE (lift_fault (bytes_from 0 (b_pptr b) (b_write_buf b))) (\<lambda>s.
        bindE (write_and_wait s b) (\<lambda>b1.
          let bytes_sent = b_bytes_transferred b1;
              b2 = b1\<lparr>b_pptr := b_pptr b1 - bytes_sent\<rparr>
          in Inr (if b_async_error b2 then None else Some bytes_sent, b2)))
      else Inr (Some 0, b))"

definition put_bytes :: "string \<Rightarrow> TCPStreamBuffer \<Rightarrow> stream_stop + TCPStreamBuffer" where
  "put_bytes s b =
     bindE (lift_fault (write_at (b_pptr b) s (b_write_buf b))) (\<lambda>buf.
       Inr (b\<lparr>b_write_buf := buf, b_pptr := b_pptr b + length s\<rparr>))"

definition overflow :: "char option \<Rightarrow> TCPStreamBuffer \<Rightarrow> stream_stop + (bool \<times> TCPStreamBuffer)" where
  "overflow c b =
     bindE (case c of None \<Rightarrow> Inr b | Some ch \<Rightarrow> put_bytes [ch] b) (\<lambda>b1.
     bindE (flushOutput b1) (\<lambda>(r, b2). Inr (r \<noteq> None, b2)))"

text \<open>The room left may be negative: after a flush that failed the position can be behind \<open>epptr\<close>.\<close>

definition bytes_available :: "TCPStreamBuffer \<Rightarrow> int" where
  "bytes_available b = int (WRITE_BUFFER_SIZE - 1) - int (b_pptr b)"

definition xsputn :: "string \<Rightarrow> TCPStreamBuffer \<Rightarrow> stream_stop + (nat \<times> TCPStreamBuffer)" where
  "xsputn s b =
     (let avail = bytes_available b; n = int (length s)
      in if avail \<ge> n then bindE (put_bytes s b) (\<lambda>b1. Inr (length s, b1))
         else
           bindE (if avail > 0 then put_bytes (take (nat avail) s) b else Inr b) (\<lambda>b1.
           bindE (flushOutput b1) (\<lambda>(r, b2).
             if r = None then Inr (0, b2)
             else if avail < 0 then Inl (Stream_fault Out_of_bounds)
             else
               let rest = drop (nat avail) s
               in if length rest \<ge> WRITE_BUFFER_SIZE - 1
                  then bindE (write_and_wait rest b2) (\<lambda>b3. Inr (nat avail + b_bytes_transferred b3, b3))
                  else bindE (lift_fault (write_at 0 rest (b_write_buf b2))) (\<lambda>buf.
                    Inr (length s, b2\<lparr>b_write_buf := buf, b_pptr := b_pptr b2 + length rest\<rparr>)))))"

definition sync :: "TCPStreamBuffer \<Rightarrow> stream_stop + (bool \<times> TCPStreamBuffer)" where
  "sync b = bindE (flushOutput b) (\<lambda>(r, b1). Inr (r \<noteq> None, b1))"

section \<open>Input\<close>

text \<open>The character under \<open>gptr\<close>.\<close>

definition get_char :: "TCPStreamBuffer \<Rightarrow> stream_stop + char" where
  "get_char b = bindE (lift_fault (bytes_from (b_gptr b) 1 (b_read_buf b))) (\<lambda>s. Inr (hd s))"

definition underflow :: "TCPStreamBuffer \<Rightarrow> stream_stop + (char option \<times> TCPStreamBuffer)" where
  "underflow b =
     (if b_gptr b < b_egptr b then bindE (get_char b) (\<lambda>c. Inr (Some c, b))
      else
        let put_back_num = min (b_gptr b - b_eback b) PUT_BACK_MAX
        in bindE (if put_back_num > 0
                  then lift_fault (memmove (PUT_BACK_MAX - put_back_num) (b_gptr b - put_back_num) put_back_num (b_read_buf b))
                  else Inr (b_read_buf b)) (\<lambda>buf.
           case b_reads b of
             [] \<Rightarrow> Inl Blocked
           | Read_error # evs \<Rightarrow> Inr (None, operationFinished True 0 (b\<lparr>b_read_buf := buf, b_reads := evs\<rparr>))
           | Read_some s # evs \<Rightarrow>
               bindE (lift_fault (write_at PUT_BACK_MAX s buf)) (\<lambda>buf'.
                 let b1 = (operationFinished False (length s) (b\<lparr>b_read_buf := buf', b_reads := evs\<rparr>))
                       \<lparr>b_eback := PUT_BACK_MAX - put_back_num, b_gptr := PUT_BACK_MAX, b_egptr := PUT_BACK_MAX + length s\<rparr>
                 in bindE (get_char b1) (\<lambda>c. Inr (Some c, b1)))))"

lemma underflow_reads:
  "\<not> b_gptr b < b_egptr b \<Longrightarrow> underflow b = Inr (Some c, b') \<Longrightarrow> length (b_reads b') < length (b_reads b)"
  by (cases "b_reads b"; cases "hd (b_reads b)") (auto simp: underflow_def Let_def operationFinished_def)

text \<open>The loop of \<open>xsgetn\<close>: each pass that goes on has consumed the completion of a read.\<close>

function xsgetn_loop :: "nat \<Rightarrow> string \<Rightarrow> TCPStreamBuffer \<Rightarrow> stream_stop + (string \<times> TCPStreamBuffer)" where
  "xsgetn_loop bytes_remaining out b =
     (if bytes_remaining = 0 then Inr (out, b)
      else
        let bytes_next_read = min (b_egptr b - b_gptr b) bytes_remaining
        in bindE (lift_fault (bytes_from (b_gptr b) bytes_next_read (b_read_buf b))) (\<lambda>s.
             let b1 = b\<lparr>b_gptr := b_gptr b + bytes_next_read\<rparr>
             in if bytes_remaining - bytes_next_read = 0 then Inr (out @ s, b1)
                else case underflow b1 of
                       Inl e \<Rightarrow> Inl e
                     | Inr (None, b2) \<Rightarrow> Inr (out @ s, b2)
                     | Inr (Some c, b2) \<Rightarrow> xsgetn_loop (bytes_remaining - bytes_next_read) (out @ s) b2))"
  by pat_completeness auto
termination
proof (relation "measure (\<lambda>(n, out, b). length (b_reads b))")
  fix n out b m s b1 r b2 c and p :: "char option \<times> TCPStreamBuffer"
  assume "n \<noteq> 0" and m: "m = min (b_egptr b - b_gptr b) n" and b1: "b1 = b\<lparr>b_gptr := b_gptr b + m\<rparr>" and "n - m \<noteq> 0"
    and u: "underflow b1 = Inr p" "(r, b2) = p" "r = Some c"
  then have "\<not> b_gptr b1 < b_egptr b1" by (auto simp: min_def split: if_splits)
  from underflow_reads [OF this, of c b2] u b1
  show "((n - m, out @ s, b2), (n, out, b)) \<in> measure (\<lambda>(n, out, b). length (b_reads b))" by auto
qed simp

declare xsgetn_loop.simps [simp del]

definition xsgetn :: "nat \<Rightarrow> TCPStreamBuffer \<Rightarrow> stream_stop + (string \<times> TCPStreamBuffer)" where
  "xsgetn n b = xsgetn_loop n [] b"

text \<open>What the standard stream buffer does itself: storing a character while there is room, taking
  the next one, and putting the last one back.\<close>

definition sputc :: "char \<Rightarrow> TCPStreamBuffer \<Rightarrow> stream_stop + (bool \<times> TCPStreamBuffer)" where
  "sputc c b =
     (if b_pptr b < WRITE_BUFFER_SIZE - 1 then bindE (put_bytes [c] b) (\<lambda>b1. Inr (True, b1))
      else overflow (Some c) b)"

definition sbumpc :: "TCPStreamBuffer \<Rightarrow> stream_stop + (char option \<times> TCPStreamBuffer)" where
  "sbumpc b =
     (if b_gptr b < b_egptr b then bindE (get_char b) (\<lambda>c. Inr (Some c, b\<lparr>b_gptr := b_gptr b + 1\<rparr>))
      else bindE (underflow b) (\<lambda>(r, b1). Inr (r, if r = None then b1 else b1\<lparr>b_gptr := b_gptr b1 + 1\<rparr>)))"

definition sungetc :: "TCPStreamBuffer \<Rightarrow> stream_stop + (char option \<times> TCPStreamBuffer)" where
  "sungetc b =
     (if b_eback b < b_gptr b
      then let b1 = b\<lparr>b_gptr := b_gptr b - 1\<rparr> in bindE (get_char b1) (\<lambda>c. Inr (Some c, b1))
      else Inr (None, b))"

section \<open>Connecting\<close>

text \<open>The calls of the socket are parameters: what accepting and connecting to an endpoint make of a connection, and
  an error code, \<open>None\<close> for success.  SSL is configured off, so the handshakes do nothing.\<close>

definition handshake_client :: "'c \<Rightarrow> 'e option \<times> 'c" where "handshake_client conn = (None, conn)"
definition handshake_server :: "'c \<Rightarrow> 'e option \<times> 'c" where "handshake_server conn = (None, conn)"

text \<open>The loop of \<open>connect\<close> with a host name: each endpoint until one succeeds; a failed attempt closes the socket.\<close>

fun try_endpoints :: "('ep \<Rightarrow> 'c \<Rightarrow> 'e option \<times> 'c) \<Rightarrow> ('c \<Rightarrow> 'c) \<Rightarrow> 'e option \<Rightarrow> 'c \<Rightarrow> 'ep list \<Rightarrow> 'e option \<times> 'c" where
  "try_endpoints connect_ep close_conn ec conn [] = (ec, conn)"
| "try_endpoints connect_ep close_conn ec conn (ep # eps) =
     (if ec = None then (ec, conn)
      else let (ec', conn') = connect_ep ep conn
           in try_endpoints connect_ep close_conn ec' (if ec' \<noteq> None then close_conn conn' else conn') eps)"

definition connect_host ::
  "('h \<Rightarrow> 'e + 'ep list) \<Rightarrow> ('ep \<Rightarrow> 'c \<Rightarrow> 'e option \<times> 'c) \<Rightarrow> ('c \<Rightarrow> 'c) \<Rightarrow> 'e \<Rightarrow> 'h \<Rightarrow> 'c \<Rightarrow> 'e option \<times> 'c" where
  "connect_host resolve connect_ep close_conn host_not_found query conn =
     (case resolve query of
        Inl ec \<Rightarrow> (Some ec, conn)
      | Inr endpoints \<Rightarrow> try_endpoints connect_ep close_conn (Some host_not_found) conn endpoints)"

text \<open>\<open>accept\<close> and \<open>connect\<close> of the stream.\<close>

definition stream_accept :: "('c \<Rightarrow> 'e option \<times> 'c) \<Rightarrow> 'c \<Rightarrow> 'e option \<times> 'c" where
  "stream_accept accept_conn conn =
     (let (ec, conn') = accept_conn conn in if ec = None then handshake_server conn' else (ec, conn'))"

definition stream_connect :: "('ep \<Rightarrow> 'c \<Rightarrow> 'e option \<times> 'c) \<Rightarrow> 'ep \<Rightarrow> 'c \<Rightarrow> 'e option \<times> 'c" where
  "stream_connect connect_ep ep conn =
     (let (ec, conn') = connect_ep ep conn in if ec = None then handshake_client conn' else (ec, conn'))"

text \<open>Connecting succeeds exactly when the name has an endpoint that accepts.\<close>

lemma connect_host_succeeds:
  assumes "\<And>ep conn. fst (connect_ep ep conn) = None \<longleftrightarrow> good ep"
  shows "fst (connect_host resolve connect_ep close_conn host_not_found query conn) = None \<longleftrightarrow>
     (\<exists>eps. resolve query = Inr eps \<and> (\<exists>ep\<in>set eps. good ep))"
proof -
  have stop: "try_endpoints connect_ep close_conn None c eps = (None, c)" for c eps by (cases eps) auto
  have "ec \<noteq> None \<Longrightarrow> fst (try_endpoints connect_ep close_conn ec c eps) = None \<longleftrightarrow> (\<exists>ep\<in>set eps. good ep)" for ec c eps
  proof (induction eps arbitrary: ec c)
    case (Cons ep eps)
    obtain ec' c' where e: "connect_ep ep c = (ec', c')" by (cases "connect_ep ep c")
    show ?case
    proof (cases ec')
      case None
      then show ?thesis using e Cons.prems assms [of ep c] stop by auto
    next
      case (Some x)
      then show ?thesis using e Cons assms [of ep c] by auto
    qed
  qed simp
  then show ?thesis by (auto simp: connect_host_def split: sum.splits)
qed

section \<open>What the output buffer holds\<close>

text \<open>The bytes that were accepted and are not sent yet.\<close>

definition out_buf :: "TCPStreamBuffer \<Rightarrow> string \<Rightarrow> bool" where
  "out_buf b pend \<longleftrightarrow> length (b_write_buf b) = WRITE_BUFFER_SIZE \<and> b_pptr b = length pend \<and>
     length pend < WRITE_BUFFER_SIZE \<and> take (length pend) (b_write_buf b) = map Some pend"

text \<open>While \<open>overflow\<close> works the buffer may be full.\<close>

definition out_full :: "TCPStreamBuffer \<Rightarrow> string \<Rightarrow> bool" where
  "out_full b pend \<longleftrightarrow> length (b_write_buf b) = WRITE_BUFFER_SIZE \<and> b_pptr b = length pend \<and>
     length pend \<le> WRITE_BUFFER_SIZE \<and> take (length pend) (b_write_buf b) = map Some pend"

text \<open>The part of the state that output leaves alone.\<close>

definition same_input :: "TCPStreamBuffer \<Rightarrow> TCPStreamBuffer \<Rightarrow> bool" where
  "same_input b b' \<longleftrightarrow> b_read_buf b' = b_read_buf b \<and> b_eback b' = b_eback b \<and> b_gptr b' = b_gptr b \<and>
     b_egptr b' = b_egptr b \<and> b_reads b' = b_reads b"

lemma same_input_trans: "same_input a b \<Longrightarrow> same_input b c \<Longrightarrow> same_input a c"
  by (simp add: same_input_def)

lemma put_bytes_ok:
  assumes "out_full b pend" "length pend + length s \<le> WRITE_BUFFER_SIZE"
  shows "\<exists>b'. put_bytes s b = Inr b' \<and> out_full b' (pend @ s) \<and> b_sent b' = b_sent b \<and> b_writes b' = b_writes b \<and>
     same_input b b'"
proof -
  have le: "b_pptr b + length s \<le> length (b_write_buf b)" using assms by (simp add: out_full_def)
  then obtain buf where buf: "write_at (b_pptr b) s (b_write_buf b) = Inr buf" using write_at_ok by blast
  have "take (b_pptr b + length s) buf = map Some (pend @ s)"
    using write_at_prefix [OF buf, of pend] assms le by (simp add: out_full_def)
  with buf write_at_length [OF buf] assms show ?thesis by (simp add: put_bytes_def out_full_def same_input_def)
qed

lemma bytes_from_full: "out_full b pend \<Longrightarrow> bytes_from 0 (b_pptr b) (b_write_buf b) = Inr pend"
  by (simp add: bytes_from_def out_full_def)

text \<open>What a flush does: it sends what is pending, or the beginning of it.\<close>

lemma flushOutput_ok:
  assumes "out_full b pend"
  shows "(pend = [] \<and> flushOutput b = Inr (Some 0, b)) \<or>
     (pend \<noteq> [] \<and> b_writes b = [] \<and> flushOutput b = Inl Blocked) \<or>
     (pend \<noteq> [] \<and> (\<exists>evs b'. b_writes b = Write_ok # evs \<and> flushOutput b = Inr (Some (length pend), b') \<and>
        out_full b' [] \<and> b_sent b' = b_sent b @ pend \<and> b_writes b' = evs \<and> same_input b b')) \<or>
     (pend \<noteq> [] \<and> (\<exists>k evs b'. b_writes b = Write_failed k # evs \<and> flushOutput b = Inr (None, b') \<and>
        b_sent b' = b_sent b @ take k pend \<and> b_writes b' = evs \<and> same_input b b'))"
proof (cases "pend = []")
  case True
  then show ?thesis using assms by (simp add: flushOutput_def out_full_def)
next
  case False
  with assms have p: "b_pptr b > 0" "b_pptr b = length pend" by (auto simp: out_full_def)
  have s: "bytes_from 0 (b_pptr b) (b_write_buf b) = Inr pend" by (rule bytes_from_full [OF assms])
  show ?thesis
  proof (cases "b_writes b")
    case Nil
    with False p s show ?thesis by (simp add: flushOutput_def write_and_wait_def)
  next
    case (Cons ev evs)
    show ?thesis
    proof (cases ev)
      case Write_ok
      with Cons False p s assms show ?thesis
        by (simp add: flushOutput_def write_and_wait_def operationFinished_def out_full_def same_input_def Let_def)
    next
      case (Write_failed k)
      with Cons False p s show ?thesis
        by (simp add: flushOutput_def write_and_wait_def operationFinished_def same_input_def Let_def)
          (cases "k \<le> length pend"; simp add: min_def)
    qed
  qed
qed

lemma out_buf_full: "out_buf b pend \<Longrightarrow> out_full b pend"
  by (simp add: out_buf_def out_full_def)

lemma full_out_buf: "out_full b pend \<Longrightarrow> length pend < WRITE_BUFFER_SIZE \<Longrightarrow> out_buf b pend"
  by (simp add: out_buf_def out_full_def)

text \<open>The promise of an output operation that accepts \<open>s\<close>: it never faults; what is sent is the beginning
  of what was pending and \<open>s\<close>; if it reports success nothing is lost and the rest is pending; and it
  succeeds if every write does. The argument counts the writes it may take.\<close>

definition outputs :: "nat \<Rightarrow> TCPStreamBuffer \<Rightarrow> string \<Rightarrow> stream_stop + (bool \<times> TCPStreamBuffer) \<Rightarrow> bool" where
  "outputs k b all res \<longleftrightarrow>
     (case res of
        Inl e \<Rightarrow> e = Blocked \<and> length (b_writes b) < k
      | Inr (ok, b') \<Rightarrow>
          prefix (b_sent b') (b_sent b @ all) \<and> same_input b b' \<and>
          (\<exists>used. b_writes b = used @ b_writes b' \<and> length used \<le> k) \<and>
          (set (b_writes b) \<subseteq> {Write_ok} \<longrightarrow> ok) \<and>
          (ok \<longrightarrow> (\<exists>pend. out_buf b' pend \<and> b_sent b' @ pend = b_sent b @ all)))"

lemma outputsI:
  assumes "prefix (b_sent b') (b_sent b @ all)" "same_input b b'" "b_writes b = used @ b_writes b'" "length used \<le> k"
    and "set (b_writes b) \<subseteq> {Write_ok} \<Longrightarrow> ok" "ok \<Longrightarrow> \<exists>pend. out_buf b' pend \<and> b_sent b' @ pend = b_sent b @ all"
  shows "outputs k b all (Inr (ok, b'))"
  using assms by (auto simp: outputs_def)

lemma same_input_refl [simp]: "same_input b b"
  by (simp add: same_input_def)

lemma sync_outputs:
  assumes "out_full b pend"
  shows "outputs 1 b pend (sync b)"
    "sync b = Inr (True, b') \<Longrightarrow> out_buf b' [] \<and> b_sent b' = b_sent b @ pend"
proof -
  consider "pend = []" "flushOutput b = Inr (Some 0, b)"
    | "b_writes b = []" "flushOutput b = Inl Blocked"
    | evs b1 where "b_writes b = Write_ok # evs" "flushOutput b = Inr (Some (length pend), b1)"
        "out_full b1 []" "b_sent b1 = b_sent b @ pend" "b_writes b1 = evs" "same_input b b1"
    | k evs b1 where "b_writes b = Write_failed k # evs" "flushOutput b = Inr (None, b1)"
        "b_sent b1 = b_sent b @ take k pend" "b_writes b1 = evs" "same_input b b1"
    using flushOutput_ok [OF assms] by blast
  note split = this
  have w: "out_full x [] \<Longrightarrow> out_buf x []" for x by (rule full_out_buf) (simp_all add: WRITE_BUFFER_SIZE_def)
  show "outputs 1 b pend (sync b)"
  proof (cases rule: split)
    case 1
    then show ?thesis using w [of b] assms by (auto simp: outputs_def sync_def)
  next
    case 2
    then show ?thesis by (simp add: outputs_def sync_def)
  next
    case 3
    then show ?thesis using w [of b1] by (auto simp: outputs_def sync_def)
  next
    case 4
    then show ?thesis by (auto simp: outputs_def sync_def take_is_prefix)
  qed
  show "sync b = Inr (True, b') \<Longrightarrow> out_buf b' [] \<and> b_sent b' = b_sent b @ pend"
    by (cases rule: split) (use w assms in \<open>auto simp: sync_def\<close>)
qed

lemma overflow_outputs:
  assumes "out_full b pend" "length pend < WRITE_BUFFER_SIZE"
  shows "outputs 1 b (pend @ (case c of None \<Rightarrow> [] | Some ch \<Rightarrow> [ch])) (overflow c b)"
proof -
  obtain b1 where b1: "(case c of None \<Rightarrow> Inr b | Some ch \<Rightarrow> put_bytes [ch] b) = (Inr b1 :: stream_stop + TCPStreamBuffer)"
    "out_full b1 (pend @ (case c of None \<Rightarrow> [] | Some ch \<Rightarrow> [ch]))" "b_sent b1 = b_sent b" "b_writes b1 = b_writes b" "same_input b b1"
  proof (cases c)
    case None
    then show ?thesis using that [of b] assms by simp
  next
    case (Some ch)
    then show ?thesis using that put_bytes_ok [of b pend "[ch]"] assms by auto
  qed
  have "overflow c b = sync b1" using b1(1) by (simp add: overflow_def sync_def)
  with sync_outputs(1) [OF b1(2)] b1(3-5) show ?thesis
    by (auto simp: outputs_def same_input_def split: sum.splits)
qed

lemma sputc_outputs:
  assumes "out_buf b pend"
  shows "outputs 1 b (pend @ [c]) (sputc c b)"
proof (cases "b_pptr b < WRITE_BUFFER_SIZE - 1")
  case True
  then obtain b' where b': "put_bytes [c] b = Inr b'" "out_full b' (pend @ [c])" "b_sent b' = b_sent b" "b_writes b' = b_writes b"
      "same_input b b'"
    using put_bytes_ok [OF out_buf_full [OF assms], of "[c]"] assms by (auto simp: out_buf_def)
  have "out_buf b' (pend @ [c])" using b'(2) True assms by (intro full_out_buf) (auto simp: out_buf_def)
  with b' True show ?thesis by (auto simp: sputc_def intro!: outputsI [where used = "[]"])
next
  case False
  with overflow_outputs [OF out_buf_full [OF assms], of "Some c"] assms show ?thesis
    by (simp add: sputc_def out_buf_def)
qed

lemma flush_cases:
  assumes "out_full b pend"
  obtains (empty) "pend = []" "flushOutput b = Inr (Some 0, b)"
    | (blocked) "b_writes b = []" "flushOutput b = Inl Blocked"
    | (sent) evs b1 where "b_writes b = Write_ok # evs" "flushOutput b = Inr (Some (length pend), b1)"
        "out_full b1 []" "b_sent b1 = b_sent b @ pend" "b_writes b1 = evs" "same_input b b1"
    | (failed) k evs b1 where "b_writes b = Write_failed k # evs" "flushOutput b = Inr (None, b1)"
        "b_sent b1 = b_sent b @ take k pend" "b_writes b1 = evs" "same_input b b1"
  using flushOutput_ok [OF assms] by blast

text \<open>The second half of \<open>xsputn\<close>: the buffer has been filled and flushed, and the rest is sent directly or stored.\<close>

definition xsputn_rest :: "nat \<Rightarrow> string \<Rightarrow> TCPStreamBuffer \<Rightarrow> stream_stop + (nat \<times> TCPStreamBuffer)" where
  "xsputn_rest avail s b2 =
     (let rest = drop avail s
      in if length rest \<ge> WRITE_BUFFER_SIZE - 1
         then bindE (write_and_wait rest b2) (\<lambda>b3. Inr (avail + b_bytes_transferred b3, b3))
         else bindE (lift_fault (write_at 0 rest (b_write_buf b2))) (\<lambda>buf.
           Inr (length s, b2\<lparr>b_write_buf := buf, b_pptr := b_pptr b2 + length rest\<rparr>)))"

definition succeeded :: "nat \<Rightarrow> stream_stop + (nat \<times> TCPStreamBuffer) \<Rightarrow> stream_stop + (bool \<times> TCPStreamBuffer)" where
  "succeeded n res = bindE res (\<lambda>(m, b). Inr (m = n, b))"

lemma xsputn_rest_outputs:
  assumes "out_full b []" "avail < length s"
  shows "outputs 1 b (drop avail s) (succeeded (length s) (xsputn_rest avail s b))"
proof (cases "length (drop avail s) \<ge> WRITE_BUFFER_SIZE - 1")
  case True
  then have r: "xsputn_rest avail s b = bindE (write_and_wait (drop avail s) b) (\<lambda>b3. Inr (avail + b_bytes_transferred b3, b3))"
    by (simp add: xsputn_rest_def)
  show ?thesis
  proof (cases "b_writes b")
    case Nil
    then show ?thesis by (simp add: r write_and_wait_def outputs_def succeeded_def)
  next
    case (Cons ev evs)
    define n where "n = (case ev of Write_ok \<Rightarrow> length (drop avail s) | Write_failed k \<Rightarrow> min k (length (drop avail s)))"
    define b3 where "b3 = operationFinished (ev \<noteq> Write_ok) n (b\<lparr>b_writes := evs, b_sent := b_sent b @ take n (drop avail s)\<rparr>)"
    have w: "write_and_wait (drop avail s) b = Inr b3"
      using Cons by (simp add: write_and_wait_def b3_def n_def Let_def)
    have b3: "b_bytes_transferred b3 = n" "b_sent b3 = b_sent b @ take n (drop avail s)" "b_writes b3 = evs" "same_input b b3"
      by (simp_all add: b3_def operationFinished_def same_input_def)
    have o3: "out_buf b3 []" using assms(1)
      by (simp add: b3_def operationFinished_def out_buf_def out_full_def WRITE_BUFFER_SIZE_def)
    have "avail + n = length s \<Longrightarrow> b_sent b3 @ [] = b_sent b @ drop avail s"
      using b3(2) by simp
    moreover have "set (b_writes b) \<subseteq> {Write_ok} \<Longrightarrow> avail + n = length s"
      using Cons assms(2) by (auto simp: n_def)
    ultimately show ?thesis
      using b3 o3 Cons unfolding r w succeeded_def bindE_simps prod.case
      by (intro outputsI [where used = "[ev]"]) (auto simp: take_is_prefix)
  qed
next
  case False
  define rest where "rest = drop avail s"
  have len: "length rest < WRITE_BUFFER_SIZE - 1" using False by (simp add: rest_def)
  have p: "b_pptr b = 0" "length (b_write_buf b) = WRITE_BUFFER_SIZE" using assms(1) by (simp_all add: out_full_def)
  obtain buf where buf: "write_at 0 rest (b_write_buf b) = Inr buf"
    using write_at_ok [of 0 rest "b_write_buf b"] p(2) len by (auto simp: WRITE_BUFFER_SIZE_def)
  have t: "take (length rest) buf = map Some rest" using write_at_prefix [OF buf, of "[]"] by simp
  have "out_buf (b\<lparr>b_write_buf := buf, b_pptr := b_pptr b + length rest\<rparr>) rest"
    using t p write_at_length [OF buf] len by (simp add: out_buf_def)
  then show ?thesis
    using False buf unfolding xsputn_rest_def rest_def [symmetric] succeeded_def Let_def
    by (auto intro!: outputsI [where used = "[]"] simp: same_input_def)
qed

lemma outputs_then:
  assumes "outputs k b1 rest res" "b_sent b1 = b_sent b @ pre" "same_input b b1" "b_writes b = Write_ok # b_writes b1"
  shows "outputs (Suc k) b (pre @ rest) res"
proof (cases res)
  case (Inl e)
  with assms show ?thesis by (simp add: outputs_def)
next
  case (Inr p)
  obtain ok b' where p: "p = (ok, b')" by (cases p)
  obtain used where u: "b_writes b1 = used @ b_writes b'" "length used \<le> k"
    using assms(1) Inr p by (auto simp: outputs_def)
  then show ?thesis
    using assms same_input_trans [OF assms(3), of b'] unfolding Inr p
    by (intro outputsI [where used = "Write_ok # used"]) (auto simp: outputs_def)
qed

lemma outputs_weaken:
  assumes "outputs k b1 all res" "b_sent b1 = b_sent b" "same_input b b1" "b_writes b = b_writes b1" "k \<le> n"
  shows "outputs n b all res"
proof (cases res)
  case (Inl e)
  with assms show ?thesis by (simp add: outputs_def)
next
  case (Inr p)
  obtain ok b' where p: "p = (ok, b')" by (cases p)
  obtain used where u: "b_writes b1 = used @ b_writes b'" "length used \<le> k"
    using assms(1) Inr p by (auto simp: outputs_def)
  then show ?thesis
    using assms same_input_trans [OF assms(3), of b'] unfolding Inr p
    by (intro outputsI [where used = used]) (auto simp: outputs_def)
qed

lemma xsputn_outputs:
  assumes "out_buf b pend"
  shows "outputs 2 b (pend @ s) (succeeded (length s) (xsputn s b))"
proof -
  note full = out_buf_full [OF assms]
  define avail where "avail = WRITE_BUFFER_SIZE - 1 - length pend"
  have av: "bytes_available b = int avail" "length pend + avail = WRITE_BUFFER_SIZE - 1"
    using assms by (auto simp: bytes_available_def avail_def out_buf_def)
  show ?thesis
  proof (cases "length s \<le> avail")
    case True
    have "length pend + length s \<le> WRITE_BUFFER_SIZE" using True av(2) by simp
    with put_bytes_ok [OF full, of s] obtain b' where b': "put_bytes s b = Inr b'" "out_full b' (pend @ s)"
        "b_sent b' = b_sent b" "b_writes b' = b_writes b" "same_input b b'"
      by blast
    have "out_buf b' (pend @ s)" using b'(2) True av(2)
      by (intro full_out_buf) (auto simp: WRITE_BUFFER_SIZE_def)
    with b' True av(1) show ?thesis
      by (auto simp: xsputn_def succeeded_def Let_def intro!: outputsI [where used = "[]"])
  next
    case False
    then have less: "avail < length s" by simp
    have le: "length pend + length (take avail s) \<le> WRITE_BUFFER_SIZE" using av(2) by simp
    obtain b1 where b1: "(if int avail > 0 then put_bytes (take avail s) b else Inr b) = Inr b1"
        "out_full b1 (pend @ take avail s)" "b_sent b1 = b_sent b" "b_writes b1 = b_writes b" "same_input b b1"
      using put_bytes_ok [OF full le] full by (cases "avail = 0") auto
    have x: "xsputn s b = bindE (flushOutput b1) (\<lambda>(r, b2). if r = None then Inr (0, b2) else xsputn_rest avail s b2)"
      using less av(1) b1(1) by (simp add: xsputn_def Let_def xsputn_rest_def cong: if_cong)
    have all: "pend @ s = (pend @ take avail s) @ drop avail s" by simp
    have "outputs 2 b1 (pend @ s) (succeeded (length s) (xsputn s b))"
      using b1(2)
    proof (cases rule: flush_cases)
      case empty
      have "out_full b1 []" using b1(2) unfolding empty(1) .
      then have "outputs 1 b1 (drop avail s) (succeeded (length s) (xsputn s b))"
        using xsputn_rest_outputs [of b1 avail s] empty(2) less by (simp add: x)
      then have "outputs 2 b1 (drop avail s) (succeeded (length s) (xsputn s b))"
        by (rule outputs_weaken) simp_all
      moreover have "pend @ s = drop avail s" using empty(1) less by auto
      ultimately show ?thesis by simp
    next
      case blocked
      then show ?thesis by (simp add: x succeeded_def outputs_def)
    next
      case (sent evs b2)
      then have "outputs 1 b2 (drop avail s) (succeeded (length s) (xsputn s b))"
        using xsputn_rest_outputs [of b2 avail s] less by (simp add: x)
      then show ?thesis unfolding all numeral_2_eq_2 One_nat_def [symmetric]
        by (rule outputs_then) (use sent in auto)
    next
      case (failed k evs b2)
      have "prefix (b_sent b2) (b_sent b1 @ pend @ s)"
        unfolding failed(3) all append_assoc [symmetric]
        by (metis append.assoc append_take_drop_id prefixI)
      with failed less show ?thesis unfolding x succeeded_def
        by (auto intro!: outputsI [where used = "[Write_failed k]"])
    qed
    then show ?thesis by (rule outputs_weaken) (use b1 in auto)
  qed
qed

section \<open>A sequence of output operations\<close>

text \<open>The operations of an output stream; like \<open>std::ostream\<close> it stops at the first that fails.\<close>

datatype out_op = Put char | Write string | Flush

fun op_text :: "out_op \<Rightarrow> string" where
  "op_text (Put c) = [c]"
| "op_text (Write s) = s"
| "op_text Flush = []"

fun out_op_step :: "out_op \<Rightarrow> TCPStreamBuffer \<Rightarrow> stream_stop + (bool \<times> TCPStreamBuffer)" where
  "out_op_step (Put c) b = sputc c b"
| "out_op_step (Write s) b = succeeded (length s) (xsputn s b)"
| "out_op_step Flush b = sync b"

fun run_output :: "out_op list \<Rightarrow> TCPStreamBuffer \<Rightarrow> stream_stop + (bool \<times> TCPStreamBuffer)" where
  "run_output [] b = Inr (True, b)"
| "run_output (op # ops) b =
     (case out_op_step op b of
        Inl e \<Rightarrow> Inl e
      | Inr (ok, b') \<Rightarrow> if ok then run_output ops b' else Inr (False, b'))"

lemma out_op_outputs: "out_buf b pend \<Longrightarrow> outputs 2 b (pend @ op_text op) (out_op_step op b)"
proof (cases op)
  case (Put c)
  assume "out_buf b pend"
  from sputc_outputs [OF this, of c] show ?thesis unfolding Put by (auto intro: outputs_weaken)
next
  case (Write s)
  assume "out_buf b pend"
  then show ?thesis using xsputn_outputs by (simp add: Write)
next
  case Flush
  assume "out_buf b pend"
  from sync_outputs(1) [OF out_buf_full [OF this]] show ?thesis unfolding Flush by (auto intro: outputs_weaken)
qed

lemma run_output_outputs:
  "out_buf b pend \<Longrightarrow> outputs (2 * length ops) b (pend @ concat (map op_text ops)) (run_output ops b)"
proof (induction ops arbitrary: b pend)
  case Nil
  then show ?case by (auto intro!: outputsI [where used = "[]"])
next
  case (Cons op ops)
  have step: "outputs 2 b (pend @ op_text op) (out_op_step op b)" by (rule out_op_outputs [OF Cons.prems])
  show ?case
  proof (cases "out_op_step op b")
    case (Inl e)
    with step show ?thesis by (simp add: outputs_def)
  next
    case (Inr p)
    obtain ok b1 where p: "p = (ok, b1)" by (cases p)
    from step [unfolded Inr p] obtain used where s: "prefix (b_sent b1) (b_sent b @ pend @ op_text op)" "same_input b b1"
      "b_writes b = used @ b_writes b1" "length used \<le> 2" "set (b_writes b) \<subseteq> {Write_ok} \<longrightarrow> ok"
      "ok \<longrightarrow> (\<exists>pend'. out_buf b1 pend' \<and> b_sent b1 @ pend' = b_sent b @ pend @ op_text op)"
      by (auto simp: outputs_def)
    show ?thesis
    proof (cases ok)
      case False
      have "prefix (b_sent b1) ((b_sent b @ pend @ op_text op) @ concat (map op_text ops))"
        by (rule prefix_prefix [OF s(1)])
      with False s show ?thesis unfolding run_output.simps Inr p
        by (auto intro!: outputsI [where used = used])
    next
      case True
      with s(6) obtain pend' where p': "out_buf b1 pend'" "b_sent b1 @ pend' = b_sent b @ pend @ op_text op" by blast
      have e: "b_sent b @ pend @ concat (map op_text (op # ops)) = b_sent b1 @ pend' @ concat (map op_text ops)"
        using arg_cong [OF p'(2), of "\<lambda>x. x @ concat (map op_text ops)"] by simp
      have ih: "outputs (2 * length ops) b1 (pend' @ concat (map op_text ops)) (run_output ops b1)"
        by (rule Cons.IH [OF p'(1)])
      show ?thesis
      proof (cases "run_output ops b1")
        case (Inl e)
        with ih s(3,4) True show ?thesis unfolding run_output.simps Inr p by (auto simp: outputs_def)
      next
        case (Inr q)
        obtain ok' b2 where q: "q = (ok', b2)" by (cases q)
        from ih [unfolded Inr q] obtain used' where i: "prefix (b_sent b2) (b_sent b1 @ pend' @ concat (map op_text ops))"
          "same_input b1 b2" "b_writes b1 = used' @ b_writes b2" "length used' \<le> 2 * length ops"
          "set (b_writes b1) \<subseteq> {Write_ok} \<longrightarrow> ok'"
          "ok' \<longrightarrow> (\<exists>pend''. out_buf b2 pend'' \<and> b_sent b2 @ pend'' = b_sent b1 @ pend' @ concat (map op_text ops))"
          by (auto simp: outputs_def)
        have run: "run_output (op # ops) b = Inr (ok', b2)"
          using \<open>out_op_step op b = Inr p\<close> True Inr by (simp add: p q)
        show ?thesis unfolding run
        proof (rule outputsI [where used = "used @ used'"])
          show "prefix (b_sent b2) (b_sent b @ pend @ concat (map op_text (op # ops)))" unfolding e by (rule i(1))
          show "same_input b b2" by (rule same_input_trans [OF s(2) i(2)])
          show "b_writes b = (used @ used') @ b_writes b2" using s(3) i(3) by simp
          show "length (used @ used') \<le> 2 * length (op # ops)" using s(4) i(4) by simp
          show "ok'" if "set (b_writes b) \<subseteq> {Write_ok}" using that i(5) s(3) by simp
          show "\<exists>pend''. out_buf b2 pend'' \<and> b_sent b2 @ pend'' = b_sent b @ pend @ concat (map op_text (op # ops))" if ok'
            unfolding e using i(6) that by blast
        qed
      qed
    qed
  qed
qed

section \<open>What the input buffer holds\<close>

text \<open>The bytes that can be put back, and behind them those that were received and not read yet.\<close>

definition in_buf :: "TCPStreamBuffer \<Rightarrow> string \<Rightarrow> string \<Rightarrow> bool" where
  "in_buf b back buf \<longleftrightarrow> length (b_read_buf b) = READ_BUFFER_SIZE \<and> b_gptr b = b_eback b + length back \<and>
     b_egptr b = b_gptr b + length buf \<and> b_egptr b \<le> READ_BUFFER_SIZE \<and>
     take (length back + length buf) (drop (b_eback b) (b_read_buf b)) = map Some (back @ buf)"

lemma take_of_take:
  assumes "take n xs = ys" "i + m \<le> n"
  shows "take m (drop i xs) = take m (drop i ys)"
proof -
  have "take m (drop i (take n xs)) = take m (drop i xs)" using assms(2) by (simp add: drop_take min_absorb1)
  then show ?thesis using assms(1) by simp
qed

lemma in_buf_bytes:
  assumes "in_buf b back buf" "i + m \<le> length back + length buf"
  shows "take m (drop (b_eback b + i) (b_read_buf b)) = map Some (take m (drop i (back @ buf)))"
proof -
  have e: "take (length back + length buf) (drop (b_eback b) (b_read_buf b)) = map Some (back @ buf)"
    using assms(1) by (simp only: in_buf_def)
  have "take m (drop (b_eback b + i) (b_read_buf b)) = take m (drop i (drop (b_eback b) (b_read_buf b)))"
    by (simp add: add.commute)
  also have "\<dots> = take m (drop i (map Some (back @ buf)))" by (rule take_of_take [OF e assms(2)])
  finally show ?thesis by (simp only: drop_map take_map)
qed

lemma in_buf_read:
  assumes "in_buf b back buf" "n \<le> length buf"
  shows "bytes_from (b_gptr b) n (b_read_buf b) = Inr (take n buf)"
proof -
  have "take n (drop (b_gptr b) (b_read_buf b)) = map Some (take n buf)"
    using in_buf_bytes [OF assms(1), of "length back" n] assms by (simp add: in_buf_def)
  with assms show ?thesis by (simp add: bytes_from_def in_buf_def)
qed

lemma in_buf_advance:
  assumes "in_buf b back buf" "n \<le> length buf"
  shows "in_buf (b\<lparr>b_gptr := b_gptr b + n\<rparr>) (back @ take n buf) (drop n buf)"
  using assms by (simp add: in_buf_def)

lemma in_buf_get_char: "in_buf b back buf \<Longrightarrow> buf \<noteq> [] \<Longrightarrow> get_char b = Inr (hd buf)"
  using in_buf_read [of b _ buf 1] by (cases buf) (simp_all add: get_char_def)

text \<open>The part of the state that input leaves alone.\<close>

definition same_output :: "TCPStreamBuffer \<Rightarrow> TCPStreamBuffer \<Rightarrow> bool" where
  "same_output b b' \<longleftrightarrow> b_write_buf b' = b_write_buf b \<and> b_pptr b' = b_pptr b \<and> b_sent b' = b_sent b \<and> b_writes b' = b_writes b"

lemma same_output_trans: "same_output a b \<Longrightarrow> same_output b c \<Longrightarrow> same_output a c"
  by (simp add: same_output_def)

text \<open>What a completed read delivers: at least one byte and at most what there is room for.\<close>

definition valid_read :: "read_event \<Rightarrow> bool" where
  "valid_read ev = (case ev of Read_error \<Rightarrow> True | Read_some s \<Rightarrow> s \<noteq> [] \<and> length s \<le> READ_BUFFER_SIZE - PUT_BACK_MAX)"

abbreviation kept_back :: "string \<Rightarrow> string" where
  "kept_back back \<equiv> drop (length back - PUT_BACK_MAX) back"

lemma memmove_back:
  assumes "in_buf b back []"
  defines "k \<equiv> min (b_gptr b - b_eback b) PUT_BACK_MAX"
  shows "\<exists>buf. (if k > 0 then lift_fault (memmove (PUT_BACK_MAX - k) (b_gptr b - k) k (b_read_buf b)) else Inr (b_read_buf b)) = Inr buf \<and>
     length buf = READ_BUFFER_SIZE \<and> take k (drop (PUT_BACK_MAX - k) buf) = map Some (kept_back back) \<and> length (kept_back back) = k"
proof -
  define B where "B = b_read_buf b"
  have g: "b_gptr b = b_eback b + length back" "length B = READ_BUFFER_SIZE" "b_gptr b \<le> READ_BUFFER_SIZE"
    using assms(1) by (simp_all add: in_buf_def B_def)
  have k: "k = min (length back) PUT_BACK_MAX" "k \<le> PUT_BACK_MAX" "length (kept_back back) = k" using g(1) by (auto simp: k_def)
  have src: "take k (drop (b_gptr b - k) B) = map Some (kept_back back)"
  proof -
    have "b_gptr b - k = b_eback b + (length back - PUT_BACK_MAX)" using g(1) k(1) by auto
    then show ?thesis
      using in_buf_bytes [OF assms(1), of "length back - PUT_BACK_MAX" k] k(1) by (simp add: B_def)
  qed
  show ?thesis
  proof (cases "k > 0")
    case True
    have le: "b_gptr b - k + k \<le> length B" "PUT_BACK_MAX - k + k \<le> length B"
      using g k by (auto simp: PUT_BACK_MAX_def READ_BUFFER_SIZE_def)
    define buf where "buf = take (PUT_BACK_MAX - k) B @ map Some (kept_back back) @ drop (PUT_BACK_MAX - k + k) B"
    have "memmove (PUT_BACK_MAX - k) (b_gptr b - k) k B = Inr buf"
      using le src by (simp add: memmove_def buf_def)
    moreover have "length buf = READ_BUFFER_SIZE" using le g(2) k(3) by (simp add: buf_def)
    moreover have "take k (drop (PUT_BACK_MAX - k) buf) = map Some (kept_back back)"
      using le k(3) by (simp add: buf_def)
    ultimately show ?thesis using True k(3) by (simp add: B_def)
  next
    case False
    then have "back = []" "k = 0" using k by (auto simp: PUT_BACK_MAX_def)
    with g show ?thesis by (simp add: B_def)
  qed
qed

lemma underflow_some:
  assumes "in_buf b back []" "b_reads b = Read_some s # evs" "valid_read (Read_some s)"
  shows "\<exists>b'. underflow b = Inr (Some (hd s), b') \<and> in_buf b' (kept_back back) s \<and> b_reads b' = evs \<and> same_output b b' \<and>
     \<not> b_async_error b'"
proof -
  define k where "k = min (b_gptr b - b_eback b) PUT_BACK_MAX"
  obtain buf where buf: "(if k > 0 then lift_fault (memmove (PUT_BACK_MAX - k) (b_gptr b - k) k (b_read_buf b)) else Inr (b_read_buf b)) = Inr buf"
     "length buf = READ_BUFFER_SIZE" "take k (drop (PUT_BACK_MAX - k) buf) = map Some (kept_back back)" "length (kept_back back) = k"
    using memmove_back [OF assms(1)] unfolding k_def by blast
  have s: "s \<noteq> []" "PUT_BACK_MAX + length s \<le> READ_BUFFER_SIZE"
    using assms(3) by (auto simp: valid_read_def PUT_BACK_MAX_def READ_BUFFER_SIZE_def)
  define buf' where "buf' = take PUT_BACK_MAX buf @ map Some s @ drop (PUT_BACK_MAX + length s) buf"
  have w: "write_at PUT_BACK_MAX s buf = Inr buf'" using s buf(2) by (simp add: write_at_def buf'_def)
  have l: "length buf' = READ_BUFFER_SIZE" using write_at_length [OF w] buf(2) by simp
  have kle: "k \<le> PUT_BACK_MAX" by (simp add: k_def)
  have p10: "PUT_BACK_MAX \<le> length buf" using buf(2) by (simp add: PUT_BACK_MAX_def READ_BUFFER_SIZE_def)
  have "drop (PUT_BACK_MAX - k) (take PUT_BACK_MAX buf) = take k (drop (PUT_BACK_MAX - k) buf)"
    using kle by (simp add: drop_take)
  then have d: "drop (PUT_BACK_MAX - k) buf' = map Some (kept_back back) @ map Some s @ drop (PUT_BACK_MAX + length s) buf"
    using p10 kle buf(3) by (simp add: buf'_def min_absorb2)
  define b1 where "b1 = (operationFinished False (length s) (b\<lparr>b_read_buf := buf', b_reads := evs\<rparr>))
    \<lparr>b_eback := PUT_BACK_MAX - k, b_gptr := PUT_BACK_MAX, b_egptr := PUT_BACK_MAX + length s\<rparr>"
  have r: "in_buf b1 (kept_back back) s"
    using l d buf(4) kle s(2) by (simp add: in_buf_def b1_def operationFinished_def)
  have "\<not> b_gptr b < b_egptr b" using assms(1) by (simp add: in_buf_def)
  then have "underflow b = Inr (Some (hd s), b1)"
    using assms(2) buf(1) w in_buf_get_char [OF r s(1)] by (simp add: underflow_def Let_def k_def [symmetric] b1_def)
  with r show ?thesis by (auto simp: b1_def operationFinished_def same_output_def)
qed

lemma underflow_error:
  assumes "in_buf b back []" "b_reads b = Read_error # evs"
  shows "\<exists>b'. underflow b = Inr (None, b') \<and> (\<exists>back'. in_buf b' back' []) \<and> b_reads b' = evs \<and> same_output b b' \<and> b_async_error b'"
proof -
  define k where "k = min (b_gptr b - b_eback b) PUT_BACK_MAX"
  obtain buf where buf: "(if k > 0 then lift_fault (memmove (PUT_BACK_MAX - k) (b_gptr b - k) k (b_read_buf b)) else Inr (b_read_buf b)) = Inr buf"
     "length buf = READ_BUFFER_SIZE" "take k (drop (PUT_BACK_MAX - k) buf) = map Some (kept_back back)" "length (kept_back back) = k"
    using memmove_back [OF assms(1)] unfolding k_def by blast
  have g: "b_gptr b = b_eback b + length back" "length (b_read_buf b) = READ_BUFFER_SIZE" "b_gptr b \<le> READ_BUFFER_SIZE"
    "take (length back) (drop (b_eback b) (b_read_buf b)) = map Some back"
    using assms(1) by (simp_all add: in_buf_def)
  have out: "buf ! i = b_read_buf b ! i" if "i < PUT_BACK_MAX - k \<or> PUT_BACK_MAX \<le> i" for i
    using buf(1) that by (auto simp: memmove_def k_def nth_append split: if_splits)
  have inside: "\<exists>c. buf ! i = Some c" if "PUT_BACK_MAX - k \<le> i" "i < PUT_BACK_MAX" for i
  proof -
    have "i - (PUT_BACK_MAX - k) < k" using that by simp
    moreover have "PUT_BACK_MAX - k + (i - (PUT_BACK_MAX - k)) = i" using that by simp
    moreover have "i < length buf" using that buf(2) by (simp add: PUT_BACK_MAX_def READ_BUFFER_SIZE_def)
    ultimately have "take k (drop (PUT_BACK_MAX - k) buf) ! (i - (PUT_BACK_MAX - k)) = buf ! i" by simp
    moreover have "i - (PUT_BACK_MAX - k) < length (kept_back back)"
      using \<open>i - (PUT_BACK_MAX - k) < k\<close> buf(4) by simp
    ultimately show ?thesis using buf(3) by (metis nth_map)
  qed
  have "\<exists>c. buf ! (b_eback b + i) = Some c" if "i < length back" for i
  proof (cases "b_eback b + i < PUT_BACK_MAX - k \<or> PUT_BACK_MAX \<le> b_eback b + i")
    case True
    have "take (length back) (drop (b_eback b) (b_read_buf b)) ! i = drop (b_eback b) (b_read_buf b) ! i"
      by (rule nth_take [OF that])
    also have "\<dots> = b_read_buf b ! (b_eback b + i)" by (rule nth_drop) (use g in simp)
    finally have "take (length back) (drop (b_eback b) (b_read_buf b)) ! i = b_read_buf b ! (b_eback b + i)" .
    with g(4) that have "b_read_buf b ! (b_eback b + i) = Some (back ! i)" by (metis nth_map)
    with out [OF True] show ?thesis by simp
  next
    case False
    then show ?thesis using inside [of "b_eback b + i"] by auto
  qed
  then obtain f where f: "\<And>i. i < length back \<Longrightarrow> buf ! (b_eback b + i) = Some (f i)" by metis
  define back' where "back' = map f [0..<length back]"
  have "take (length back) (drop (b_eback b) buf) = map Some back'"
    by (rule nth_equalityI) (use g buf(2) f in \<open>auto simp: back'_def\<close>)
  moreover have "length back' = length back" by (simp add: back'_def)
  ultimately have "in_buf (operationFinished True 0 (b\<lparr>b_read_buf := buf, b_reads := evs\<rparr>)) back' []"
    using assms(1) buf(2) by (simp add: in_buf_def operationFinished_def)
  moreover have "\<not> b_gptr b < b_egptr b" using assms(1) by (simp add: in_buf_def)
  then have "underflow b = Inr (None, operationFinished True 0 (b\<lparr>b_read_buf := buf, b_reads := evs\<rparr>))"
    using assms(2) buf(1) by (simp add: underflow_def Let_def k_def [symmetric])
  ultimately show ?thesis by (auto simp: operationFinished_def same_output_def)
qed

text \<open>Taking a character and putting it back; after the buffer has been filled again the last ten
  characters can still be put back (\<open>underflow_some\<close>).\<close>

lemma sbumpc_next:
  assumes "in_buf b old (c # cs)"
  shows "\<exists>b'. sbumpc b = Inr (Some c, b') \<and> in_buf b' (old @ [c]) cs \<and> same_output b b' \<and> b_reads b' = b_reads b"
proof -
  have "b_gptr b < b_egptr b" using assms by (simp add: in_buf_def)
  then show ?thesis using in_buf_get_char [OF assms] in_buf_advance [OF assms, of 1]
    by (simp add: sbumpc_def same_output_def)
qed

lemma sungetc_last:
  assumes "in_buf b (old @ [c]) buf"
  shows "\<exists>b'. sungetc b = Inr (Some c, b') \<and> in_buf b' old (c # buf) \<and> same_output b b' \<and> b_reads b' = b_reads b"
proof -
  define b1 where "b1 = b\<lparr>b_gptr := b_gptr b - 1\<rparr>"
  have rel: "in_buf b1 old (c # buf)" using assms by (simp add: in_buf_def b1_def)
  have "b_eback b < b_gptr b" using assms by (simp add: in_buf_def)
  then have "sungetc b = Inr (Some c, b1)"
    using in_buf_get_char [OF rel] by (simp add: sungetc_def Let_def b1_def)
  with rel show ?thesis by (auto simp: b1_def same_output_def)
qed

section \<open>Reading a block\<close>

text \<open>What the connection delivers until a read fails.\<close>

fun incoming :: "read_event list \<Rightarrow> string" where
  "incoming [] = []"
| "incoming (Read_some s # evs) = s @ incoming evs"
| "incoming (Read_error # evs) = []"

lemma xsgetn_loop_ok:
  assumes "in_buf b old buf" "\<forall>ev\<in>set (b_reads b). valid_read ev"
    and "n \<le> length (buf @ incoming (b_reads b)) \<or> Read_error \<in> set (b_reads b)"
  shows "\<exists>b' old' buf'. xsgetn_loop n out b = Inr (out @ take n (buf @ incoming (b_reads b)), b') \<and>
     in_buf b' old' buf' \<and> same_output b b' \<and> (\<forall>ev\<in>set (b_reads b'). valid_read ev) \<and>
     (n \<le> length (buf @ incoming (b_reads b)) \<longrightarrow> buf' @ incoming (b_reads b') = drop n (buf @ incoming (b_reads b)))"
  using assms
proof (induction "b_reads b" arbitrary: b n out old buf)
  case Nil
  define m where "m = min (length buf) n"
  define b1 where "b1 = b\<lparr>b_gptr := b_gptr b + m\<rparr>"
  have n: "n \<le> length buf" using Nil by simp
  have 1: "in_buf b1 (old @ take n buf) (drop n buf)"
    using in_buf_advance [OF Nil.prems(1) n] n by (simp add: b1_def m_def min_absorb2)
  have av: "b_egptr b - b_gptr b = length buf" using Nil.prems(1) by (simp add: in_buf_def)
  have "xsgetn_loop n out b = Inr (out @ take n buf, if n = 0 then b else b1)"
    using in_buf_read [OF Nil.prems(1) n] n
    by (subst xsgetn_loop.simps) (simp add: av Let_def b1_def m_def min_absorb2)
  moreover have "in_buf (if n = 0 then b else b1) (old @ take n buf) (drop n buf)" using 1 Nil.prems(1) by simp
  moreover have "b_reads (if n = 0 then b else b1) = []" "same_output b (if n = 0 then b else b1)"
    using Nil.hyps by (simp_all add: b1_def same_output_def)
  ultimately show ?case using n Nil.hyps by (intro exI [of _ "if n = 0 then b else b1"] exI) auto
next
  case (Cons ev evs)
  note rel = Cons.prems(1)
  have av: "b_egptr b - b_gptr b = length buf" using rel by (simp add: in_buf_def)
  show ?case
  proof (cases "n \<le> length buf")
    case True
    define b1 where "b1 = b\<lparr>b_gptr := b_gptr b + n\<rparr>"
    have 1: "in_buf b1 (old @ take n buf) (drop n buf)"
      using in_buf_advance [OF rel True] by (simp add: b1_def)
    have "xsgetn_loop n out b = Inr (out @ take n buf, if n = 0 then b else b1)"
      using in_buf_read [OF rel True] True
      by (subst xsgetn_loop.simps) (simp add: av Let_def b1_def min_absorb2)
    moreover have "in_buf (if n = 0 then b else b1) (old @ take n buf) (drop n buf)" using 1 rel by simp
    moreover have "b_reads (if n = 0 then b else b1) = b_reads b" "same_output b (if n = 0 then b else b1)"
      by (simp_all add: b1_def same_output_def)
    ultimately show ?thesis using True Cons.prems(2)
      by (intro exI [of _ "if n = 0 then b else b1"] exI [of _ "old @ take n buf"] exI [of _ "drop n buf"]) auto
  next
    case False
    define b1 where "b1 = b\<lparr>b_gptr := b_gptr b + length buf\<rparr>"
    have 1: "in_buf b1 (old @ buf) []" using in_buf_advance [OF rel, of "length buf"] by (simp add: b1_def)
    have reads: "b_reads b1 = ev # evs" "same_output b b1" using Cons.hyps(2) by (simp_all add: b1_def same_output_def)
    have loop: "xsgetn_loop n out b = (case underflow b1 of
        Inl e \<Rightarrow> Inl e
      | Inr (None, b2) \<Rightarrow> Inr (out @ buf, b2)
      | Inr (Some c, b2) \<Rightarrow> xsgetn_loop (n - length buf) (out @ buf) b2)"
      using in_buf_read [OF rel, of "length buf"] False
      by (subst xsgetn_loop.simps) (simp add: av Let_def b1_def min_absorb1)
    show ?thesis
    proof (cases ev)
      case Read_error
      then obtain b2 old2 where u: "underflow b1 = Inr (None, b2)" "in_buf b2 old2 []" "b_reads b2 = evs" "same_output b1 b2"
        using underflow_error [OF 1] reads(1) by blast
      have "xsgetn_loop n out b = Inr (out @ take n (buf @ incoming (b_reads b)), b2)"
        using loop u(1) False Read_error Cons.hyps(2) [symmetric] by simp
      then show ?thesis using u same_output_trans [OF reads(2) u(4)] Cons.prems(2) Cons.hyps(2) [symmetric] False Read_error
        by (intro exI [of _ b2] exI [of _ old2] exI [of _ "[]"]) auto
    next
      case (Read_some s)
      then obtain b2 where u: "underflow b1 = Inr (Some (hd s), b2)" "in_buf b2 (kept_back (old @ buf)) s" "b_reads b2 = evs"
          "same_output b1 b2"
        using underflow_some [OF 1, of s evs] reads(1) Cons.prems(2) Cons.hyps(2) [symmetric] by auto
      have v: "\<forall>ev\<in>set (b_reads b2). valid_read ev" using u(3) Cons.prems(2) Cons.hyps(2) [symmetric] by simp
      have e: "n - length buf \<le> length (s @ incoming (b_reads b2)) \<or> Read_error \<in> set (b_reads b2)"
        using Cons.prems(3) Cons.hyps(2) [symmetric] Read_some u(3) by auto
      obtain b' old' buf' where ih: "xsgetn_loop (n - length buf) (out @ buf) b2 =
          Inr ((out @ buf) @ take (n - length buf) (s @ incoming (b_reads b2)), b')"
        "in_buf b' old' buf'" "same_output b2 b'" "\<forall>ev\<in>set (b_reads b'). valid_read ev"
        "n - length buf \<le> length (s @ incoming (b_reads b2)) \<longrightarrow>
           buf' @ incoming (b_reads b') = drop (n - length buf) (s @ incoming (b_reads b2))"
        using Cons.hyps(1) [OF u(3) [symmetric] u(2) v e, of "out @ buf"] by blast
      have inc: "incoming (b_reads b) = s @ incoming evs" using Cons.hyps(2) [symmetric] Read_some by simp
      have "xsgetn_loop n out b = Inr (out @ take n (buf @ incoming (b_reads b)), b')"
        using loop u(1) ih(1) False by (simp add: inc u(3))
      moreover have "n \<le> length (buf @ incoming (b_reads b)) \<longrightarrow>
          buf' @ incoming (b_reads b') = drop n (buf @ incoming (b_reads b))"
        using ih(5) False by (simp add: inc u(3))
      moreover have "same_output b b'"
        by (rule same_output_trans [OF same_output_trans [OF reads(2) u(4)] ih(3)])
      ultimately show ?thesis using ih(2,4) by blast
    qed
  qed
qed

section \<open>Properties\<close>

lemma init_bufs: "out_buf (TCPStreamBuffer_init writes reads) []" "in_buf (TCPStreamBuffer_init writes reads) [] []"
  "b_sent (TCPStreamBuffer_init writes reads) = []" "b_writes (TCPStreamBuffer_init writes reads) = writes"
  "b_reads (TCPStreamBuffer_init writes reads) = reads"
  by (simp_all add: TCPStreamBuffer_init_def setupBuffers_def out_buf_def in_buf_def WRITE_BUFFER_SIZE_def
      READ_BUFFER_SIZE_def PUT_BACK_MAX_def)

text \<open>C20: The output side of a stream keeps its bytes in order. Any sequence of characters, blocks of any
  size and flushes, on a buffer that holds the bytes \<open>pend\<close>, stays inside the buffer; what has been sent is always a
  beginning of what was written; if every write of the connection succeeds so does the stream, and then nothing
  is lost: what was written is what was sent and what the buffer still holds. It waits for ever only if the
  connection completes too few writes, and two for each operation are enough.\<close>

theorem stream_output_in_order:
  assumes "out_buf b pend"
  shows "case run_output ops b of
       Inl e \<Rightarrow> e = Blocked \<and> length (b_writes b) < 2 * length ops
     | Inr (ok, b') \<Rightarrow>
         prefix (b_sent b') (b_sent b @ pend @ concat (map op_text ops)) \<and>
         (set (b_writes b) \<subseteq> {Write_ok} \<longrightarrow> ok) \<and>
         (ok \<longrightarrow> (\<exists>pend'. out_buf b' pend' \<and> b_sent b' @ pend' = b_sent b @ pend @ concat (map op_text ops)))"
  using run_output_outputs [OF assms, of ops] by (auto simp: outputs_def split: sum.splits)

lemma stream_output_in_order_witness:
  "\<exists>b' pend. run_output [Put (CHR ''a''), Write ''bc'', Flush] (TCPStreamBuffer_init (replicate 6 Write_ok) []) = Inr (True, b') \<and>
     b_sent b' @ pend = ''abc''"
  using stream_output_in_order [OF init_bufs(1), of "replicate 6 Write_ok" "[]" "[Put (CHR ''a''), Write ''bc'', Flush]"]
  by (auto simp: init_bufs split: sum.splits)

lemma run_output_append:
  "run_output (ops @ ops') b = (case run_output ops b of Inl e \<Rightarrow> Inl e
     | Inr (ok, b') \<Rightarrow> if ok then run_output ops' b' else Inr (False, b'))"
  by (induction ops arbitrary: b) (auto split: sum.splits)

lemma run_output_flushed:
  assumes "out_buf b pend" "run_output (ops @ [Flush]) b = Inr (True, b')"
  shows "b_sent b' = b_sent b @ pend @ concat (map op_text ops)"
proof -
  obtain b1 where b1: "run_output ops b = Inr (True, b1)" "sync b1 = Inr (True, b')"
    using assms(2) by (auto simp: run_output_append split: sum.splits if_splits)
  obtain pend' where p: "out_buf b1 pend'" "b_sent b1 @ pend' = b_sent b @ pend @ concat (map op_text ops)"
    using run_output_outputs [OF assms(1), of ops] b1(1) by (auto simp: outputs_def)
  from sync_outputs(2) [OF out_buf_full [OF p(1)] b1(2)] p(2) show ?thesis by simp
qed

text \<open>C19: What goes into a stream comes out at the other end. If a program writes characters and blocks to a stream and flushes
  it, and the connection delivers the bytes that were sent to a stream at the other end, in pieces of any size,
  then reading a block of \<open>n\<close> bytes there gives the first \<open>n\<close> bytes that were written, and the rest is still to be read.
  If the connection is closed before \<open>n\<close> bytes have come, it gives all there are.\<close>

theorem stream_roundtrip:
  assumes "run_output (ops @ [Flush]) (TCPStreamBuffer_init writes reads') = Inr (True, b)"
    and "incoming reads = b_sent b" "\<forall>ev\<in>set reads. valid_read ev"
    and "n \<le> length (concat (map op_text ops)) \<or> Read_error \<in> set reads"
  shows "\<exists>c old buf. xsgetn n (TCPStreamBuffer_init writes' reads) = Inr (take n (concat (map op_text ops)), c) \<and> in_buf c old buf \<and>
     (n \<le> length (concat (map op_text ops)) \<longrightarrow> buf @ incoming (b_reads c) = drop n (concat (map op_text ops)))"
proof -
  have "b_sent b = concat (map op_text ops)" using run_output_flushed [OF init_bufs(1) assms(1)] by (simp add: init_bufs)
  with xsgetn_loop_ok [OF init_bufs(2), of writes' reads n "[]"] assms(2-4) show ?thesis
    unfolding xsgetn_def by (simp add: init_bufs) blast
qed

lemma stream_roundtrip_witness:
  "\<exists>b c. run_output [Write ''hello'', Put (CHR ''!''), Flush] (TCPStreamBuffer_init [Write_ok] []) = Inr (True, b) \<and>
     xsgetn 4 (TCPStreamBuffer_init [] [Read_some ''hel'', Read_some ''lo!'']) = Inr (''hell'', c)"
proof -
  let ?ops = "[Write ''hello'', Put (CHR ''!'')]"
  obtain b1 where b1: "run_output ?ops (TCPStreamBuffer_init [Write_ok] []) = Inr (True, b1)" "b_writes b1 = [Write_ok]"
    by (simp add: TCPStreamBuffer_init_def setupBuffers_def xsputn_def bytes_available_def succeeded_def put_bytes_def
        write_at_def sputc_def WRITE_BUFFER_SIZE_def PUT_BACK_MAX_def Let_def)
  then obtain b where b: "run_output (?ops @ [Flush]) (TCPStreamBuffer_init [Write_ok] []) = Inr (True, b)"
  proof -
    have "outputs (2 * length ?ops) (TCPStreamBuffer_init [Write_ok] []) ([] @ concat (map op_text ?ops))
        (run_output ?ops (TCPStreamBuffer_init [Write_ok] []))"
      by (rule run_output_outputs [OF init_bufs(1)])
    then obtain pend where "out_buf b1 pend" using b1(1) by (auto simp: outputs_def)
    from sync_outputs(1) [OF out_buf_full [OF this]] b1(2) obtain b2 where "sync b1 = Inr (True, b2)"
      by (auto simp: outputs_def split: sum.splits)
    then have "run_output (?ops @ [Flush]) (TCPStreamBuffer_init [Write_ok] []) = Inr (True, b2)"
      unfolding run_output_append b1(1) by simp
    then show ?thesis by (rule that)
  qed
  have sent: "b_sent b = ''hello!''" using run_output_flushed [OF init_bufs(1) b] by (simp add: init_bufs)
  have "\<exists>c old buf. xsgetn 4 (TCPStreamBuffer_init [] [Read_some ''hel'', Read_some ''lo!'']) =
      Inr (take 4 (concat (map op_text ?ops)), c) \<and> in_buf c old buf \<and>
     (4 \<le> length (concat (map op_text ?ops)) \<longrightarrow> buf @ incoming (b_reads c) = drop 4 (concat (map op_text ?ops)))"
    by (rule stream_roundtrip [OF b]) (simp_all add: sent valid_read_def READ_BUFFER_SIZE_def PUT_BACK_MAX_def)
  with b show ?thesis by auto
qed

section \<open>After a failed write\<close>

text \<open>A flush that fails after some of the bytes takes as many off the end of the buffer as were sent from its
  beginning: the next flush sends bytes again that have been sent, and never the last ones.\<close>

lemma failed_flush_drops_wrong_bytes:
  assumes "out_full b pend" "b_writes b = Write_failed k # evs" "k \<le> length pend" "pend \<noteq> []"
  shows "\<exists>b'. flushOutput b = Inr (None, b') \<and> b_sent b' = b_sent b @ take k pend \<and>
     out_full b' (take (length pend - k) pend)"
proof -
  have p: "b_pptr b > 0" "b_pptr b = length pend" "length (b_write_buf b) = WRITE_BUFFER_SIZE" "length pend \<le> WRITE_BUFFER_SIZE"
    "take (length pend) (b_write_buf b) = map Some pend" using assms(1,4) by (auto simp: out_full_def)
  have "take (length pend - k) (b_write_buf b) = take (length pend - k) (take (length pend) (b_write_buf b))"
    by (simp add: min_def)
  then have t: "take (length pend - k) (b_write_buf b) = map Some (take (length pend - k) pend)"
    unfolding p(5) by (simp add: take_map)
  show ?thesis
    using p t bytes_from_full [OF assms(1)] assms(2,3)
    by (simp add: flushOutput_def write_and_wait_def operationFinished_def out_full_def Let_def min_absorb1)
qed

text \<open>If nothing was sent when the buffer was full the position stays behind \<open>epptr\<close>, in the spare byte: another
  character is stored outside the array, and a block is copied from one byte before its beginning.\<close>

lemma full_buffer_after_failed_overflow:
  assumes "out_buf b pend" "length pend = WRITE_BUFFER_SIZE - 1" "b_writes b = Write_failed 0 # Write_ok # evs"
  shows "\<exists>b'. sputc c b = Inr (False, b') \<and> sputc d b' = Inl (Stream_fault Out_of_bounds) \<and>
     xsputn s b' = Inl (Stream_fault Out_of_bounds)"
proof -
  have le: "length pend + length [c] \<le> WRITE_BUFFER_SIZE" using assms(2) by (simp add: WRITE_BUFFER_SIZE_def)
  obtain b1 where b1: "put_bytes [c] b = Inr b1" "out_full b1 (pend @ [c])" "b_writes b1 = b_writes b"
    using put_bytes_ok [OF out_buf_full [OF assms(1)] le] by blast
  obtain b2 where b2: "flushOutput b1 = Inr (None, b2)" "b_writes b2 = Write_ok # evs" "out_full b2 (pend @ [c])"
  proof -
    have "b_pptr b1 > 0" using b1(2) by (simp add: out_full_def)
    then show ?thesis using that bytes_from_full [OF b1(2)] b1(2,3) assms(3)
      by (simp add: flushOutput_def write_and_wait_def operationFinished_def Let_def out_full_def)
  qed
  have pp: "b_pptr b = WRITE_BUFFER_SIZE - 1" "b_pptr b2 = WRITE_BUFFER_SIZE" "length (b_write_buf b2) = WRITE_BUFFER_SIZE"
    using assms(1,2) b2(3) by (simp_all add: out_buf_def out_full_def WRITE_BUFFER_SIZE_def)
  have 1: "sputc c b = Inr (False, b2)" using b1(1) b2(1) pp(1) by (simp add: sputc_def overflow_def)
  have 2: "sputc d b2 = Inl (Stream_fault Out_of_bounds)"
    using pp(2,3) by (simp add: sputc_def overflow_def put_bytes_def write_at_def)
  obtain b3 where "flushOutput b2 = Inr (Some (length (pend @ [c])), b3)"
    using flush_cases [OF b2(3)] b2(2) by (metis append_is_Nil_conv list.inject list.simps(3) not_Cons_self2 write_event.distinct(1))
  moreover have "bytes_available b2 = -1" using pp(2) by (simp add: bytes_available_def WRITE_BUFFER_SIZE_def)
  ultimately have "xsputn s b2 = Inl (Stream_fault Out_of_bounds)" by (simp add: xsputn_def Let_def)
  with 1 2 show ?thesis by blast
qed

end
