(* ===== verification/Pion_Blob.thy ===== *)
theory Pion_Blob
  imports Interleaving "HOL-Library.List_Lexorder"
begin

text \<open>
  \<open>PionBlob.hpp\<close>: blobs that share their data and count the references to it.  The model has the heap of the data and the
  blob objects of a program, each with its pointer; memory that has been freed is not used again, so that
  following a pointer to it is noticed.  The allocator is the heap itself, and characters are of type \<open>char\<close>.
  The hash functions are boost's and are left out.
\<close>

section \<open>Data and objects\<close>

text \<open>\<open>m_copies\<close> counts the references besides the first.\<close>

record BlobData =
  m_text :: string
  m_copies :: nat

text \<open>\<open>bl_vars\<close> maps the objects that have been constructed to \<open>m_blob_ptr\<close>.\<close>

record blobs =
  bl_heap :: "nat \<Rightarrow> BlobData option"
  bl_next :: nat
  bl_vars :: "nat \<Rightarrow> nat option option"

definition blobs_init :: blobs where
  "blobs_init = \<lparr>bl_heap = (\<lambda>_. None), bl_next = 0, bl_vars = (\<lambda>_. None)\<rparr>"

definition m_blob_ptr :: "nat \<Rightarrow> blobs \<Rightarrow> fault + nat option" where
  "m_blob_ptr v s = (case bl_vars s v of None \<Rightarrow> Inl Dangling_pointer | Some p \<Rightarrow> Inr p)"

definition blob_data :: "nat \<Rightarrow> blobs \<Rightarrow> fault + BlobData" where
  "blob_data p s = (case bl_heap s p of None \<Rightarrow> Inl Dangling_pointer | Some d \<Rightarrow> Inr d)"

definition set_ptr :: "nat \<Rightarrow> nat option \<Rightarrow> blobs \<Rightarrow> blobs" where
  "set_ptr v p s = s\<lparr>bl_vars := (bl_vars s)(v \<mapsto> p)\<rparr>"

section \<open>References\<close>

definition create :: "string \<Rightarrow> blobs \<Rightarrow> nat \<times> blobs" where
  "create text_bytes s =
     (bl_next s, s\<lparr>bl_heap := (bl_heap s)(bl_next s \<mapsto> \<lparr>m_text = text_bytes, m_copies = 0\<rparr>), bl_next := Suc (bl_next s)\<rparr>)"

definition release :: "nat \<Rightarrow> blobs \<Rightarrow> fault + blobs" where
  "release v s =
     bindE (m_blob_ptr v s) (\<lambda>ptr.
       case ptr of
         None \<Rightarrow> Inr s
       | Some p \<Rightarrow>
           bindE (blob_data p s) (\<lambda>d.
             let s' = (if m_copies d = 0 then s\<lparr>bl_heap := (bl_heap s)(p := None)\<rparr>
                       else s\<lparr>bl_heap := (bl_heap s)(p \<mapsto> d\<lparr>m_copies := m_copies d - 1\<rparr>)\<rparr>)
             in Inr (set_ptr v None s')))"

definition grab :: "nat \<Rightarrow> blobs \<Rightarrow> fault + (nat option \<times> blobs)" where
  "grab v s =
     bindE (m_blob_ptr v s) (\<lambda>ptr.
       case ptr of
         None \<Rightarrow> Inr (None, s)
       | Some p \<Rightarrow>
           bindE (blob_data p s) (\<lambda>d.
             Inr (Some p, s\<lparr>bl_heap := (bl_heap s)(p \<mapsto> d\<lparr>m_copies := m_copies d + 1\<rparr>)\<rparr>)))"

text \<open>The bytes a blob is made from: memory of the caller, or the payload of a blob, whose address is taken before the call.\<close>

datatype source = Bytes string | Payload nat

definition source_ptr :: "source \<Rightarrow> blobs \<Rightarrow> fault + (string + nat option)" where
  "source_ptr src s = (case src of Bytes x \<Rightarrow> Inr (Inl x) | Payload w \<Rightarrow> bindE (m_blob_ptr w s) (\<lambda>p. Inr (Inr p)))"

text \<open>\<open>memcpy\<close> from there; the payload of a null blob is the empty string.\<close>

definition source_bytes :: "string + nat option \<Rightarrow> blobs \<Rightarrow> fault + string" where
  "source_bytes x s =
     (case x of
        Inl bytes \<Rightarrow> Inr bytes
      | Inr None \<Rightarrow> Inr []
      | Inr (Some p) \<Rightarrow> bindE (blob_data p s) (\<lambda>d. Inr (m_text d)))"

section \<open>The operations\<close>

text \<open>The constructors: the default one, the copy constructor, and the ones from memory and strings.\<close>

definition construct :: "nat \<Rightarrow> blobs \<Rightarrow> fault + blobs" where
  "construct v s = Inr (set_ptr v None s)"

definition construct_copy :: "nat \<Rightarrow> nat \<Rightarrow> blobs \<Rightarrow> fault + blobs" where
  "construct_copy v w s = bindE (grab w s) (\<lambda>(p, s'). Inr (set_ptr v p s'))"

definition fill :: "nat \<Rightarrow> string + nat option \<Rightarrow> blobs \<Rightarrow> fault + blobs" where
  "fill v x s = bindE (source_bytes x s) (\<lambda>bytes. let (p, s') = create bytes s in Inr (set_ptr v (Some p) s'))"

definition construct_from :: "nat \<Rightarrow> source \<Rightarrow> blobs \<Rightarrow> fault + blobs" where
  "construct_from v src s = bindE (source_ptr src s) (\<lambda>x. fill v x s)"

definition destroy :: "nat \<Rightarrow> blobs \<Rightarrow> fault + blobs" where
  "destroy v s = bindE (release v s) (\<lambda>s'. Inr (s'\<lparr>bl_vars := (bl_vars s')(v := None)\<rparr>))"

definition assign :: "nat \<Rightarrow> nat \<Rightarrow> blobs \<Rightarrow> fault + blobs" where
  "assign v w s = bindE (release v s) (\<lambda>s1. bindE (grab w s1) (\<lambda>(p, s2). Inr (set_ptr v p s2)))"

definition set_from :: "nat \<Rightarrow> source \<Rightarrow> blobs \<Rightarrow> fault + blobs" where
  "set_from v src s = bindE (source_ptr src s) (\<lambda>x. bindE (release v s) (\<lambda>s'. fill v x s'))"

text \<open>What can be asked of a blob.\<close>

definition get :: "nat \<Rightarrow> blobs \<Rightarrow> fault + string" where
  "get v s = bindE (m_blob_ptr v s) (\<lambda>p. source_bytes (Inr p) s)"

definition size_of :: "nat \<Rightarrow> blobs \<Rightarrow> fault + nat" where
  "size_of v s =
     bindE (m_blob_ptr v s) (\<lambda>ptr. case ptr of None \<Rightarrow> Inr 0 | Some p \<Rightarrow> bindE (blob_data p s) (\<lambda>d. Inr (length (m_text d))))"

definition use_count :: "nat \<Rightarrow> blobs \<Rightarrow> fault + nat" where
  "use_count v s =
     bindE (m_blob_ptr v s) (\<lambda>ptr. case ptr of None \<Rightarrow> Inr 0 | Some p \<Rightarrow> bindE (blob_data p s) (\<lambda>d. Inr (m_copies d + 1)))"

definition unique :: "nat \<Rightarrow> blobs \<Rightarrow> fault + bool" where
  "unique v s =
     bindE (m_blob_ptr v s) (\<lambda>ptr. case ptr of None \<Rightarrow> Inr True | Some p \<Rightarrow> bindE (blob_data p s) (\<lambda>d. Inr (m_copies d = 0)))"

text \<open>\<open>memcmp\<close> compares bytes as unsigned numbers.\<close>

fun memcmp :: "string \<Rightarrow> string \<Rightarrow> nat \<Rightarrow> int" where
  "memcmp (a # as) (b # bs) (Suc n) = (if code a = code b then memcmp as bs n else int (code a) - int (code b))"
| "memcmp _ _ _ = 0"

text \<open>The comparisons with a blob and with a string are the same on the contents.\<close>

definition blob_eq :: "string \<Rightarrow> string \<Rightarrow> bool" where
  "blob_eq a b = (if length a \<noteq> length b then False else a = [] \<or> memcmp a b (length a) = 0)"

definition blob_less :: "string \<Rightarrow> string \<Rightarrow> bool" where
  "blob_less a b =
     (let len = min (length a) (length b); val = memcmp a b len
      in if len > 0 \<and> val < 0 then True else if len > 0 \<and> val > 0 then False else length a < length b)"

definition blob_greater :: "string \<Rightarrow> string \<Rightarrow> bool" where
  "blob_greater a b =
     (let len = min (length a) (length b); val = memcmp a b len
      in if len > 0 \<and> val > 0 then True else if len > 0 \<and> val < 0 then False else length a > length b)"

definition compare_blobs :: "(string \<Rightarrow> string \<Rightarrow> bool) \<Rightarrow> nat \<Rightarrow> nat \<Rightarrow> blobs \<Rightarrow> fault + bool" where
  "compare_blobs cmp v w s = bindE (get v s) (\<lambda>a. bindE (get w s) (\<lambda>b. Inr (cmp a b)))"

section \<open>The invariant\<close>

text \<open>Data is allocated exactly while objects refer to it, and its count is their number.\<close>

definition refs :: "blobs \<Rightarrow> nat \<Rightarrow> nat set" where
  "refs s p = {v. bl_vars s v = Some (Some p)}"

definition counted :: "blobs \<Rightarrow> nat \<Rightarrow> bool" where
  "counted s p = (case bl_heap s p of None \<Rightarrow> refs s p = {} | Some d \<Rightarrow> card (refs s p) = Suc (m_copies d))"

definition blob_inv :: "blobs \<Rightarrow> bool" where
  "blob_inv s \<longleftrightarrow> finite (dom (bl_vars s)) \<and> (\<forall>p\<ge>bl_next s. bl_heap s p = None) \<and> (\<forall>p. counted s p)"

lemma counted_cong: "bl_heap s' p = bl_heap s p \<Longrightarrow> refs s' p = refs s p \<Longrightarrow> counted s p \<Longrightarrow> counted s' p"
  by (cases "bl_heap s p") (simp_all add: counted_def)

lemma blob_invD: "blob_inv s \<Longrightarrow> counted s p" "blob_inv s \<Longrightarrow> bl_next s \<le> p \<Longrightarrow> bl_heap s p = None"
  "blob_inv s \<Longrightarrow> finite (dom (bl_vars s))"
  by (simp_all add: blob_inv_def)

lemma blob_inv_init: "blob_inv blobs_init"
  by (simp add: blob_inv_def counted_def blobs_init_def refs_def)

text \<open>The value of each object, as if every one had its own copy.\<close>

definition blob_values :: "blobs \<Rightarrow> nat \<Rightarrow> string option" where
  "blob_values s v =
     (case bl_vars s v of
        None \<Rightarrow> None
      | Some None \<Rightarrow> Some []
      | Some (Some p) \<Rightarrow> map_option m_text (bl_heap s p))"

lemma blob_values_cong:
  assumes "bl_vars s' v = bl_vars s v"
    and "\<And>p. bl_vars s v = Some (Some p) \<Longrightarrow> map_option m_text (bl_heap s' p) = map_option m_text (bl_heap s p)"
  shows "blob_values s' v = blob_values s v"
proof (cases "bl_vars s v")
  case (Some ptr)
  with assms show ?thesis by (cases ptr) (simp_all add: blob_values_def)
qed (use assms(1) in \<open>simp add: blob_values_def\<close>)

lemma finite_refs: "blob_inv s \<Longrightarrow> finite (refs s p)"
  by (rule finite_subset [of _ "dom (bl_vars s)"]) (auto simp: blob_inv_def refs_def)

lemma inv_allocated:
  assumes "blob_inv s" "bl_vars s v = Some (Some p)"
  obtains d where "bl_heap s p = Some d" "card (refs s p) = Suc (m_copies d)" "p < bl_next s"
proof -
  have "v \<in> refs s p" using assms(2) by (simp add: refs_def)
  then obtain d where "bl_heap s p = Some d" "card (refs s p) = Suc (m_copies d)"
    using blob_invD(1) [OF assms(1), of p] by (cases "bl_heap s p") (auto simp: counted_def)
  moreover from this assms(1) have "p < bl_next s" by (metis blob_inv_def linorder_not_le option.distinct(1))
  ultimately show ?thesis using that by blast
qed

lemma refs_set_ptr:
  "refs (set_ptr v x s) p = (if x = Some p then insert v (refs s p) else refs s p - {v})"
  by (auto simp: refs_def set_ptr_def)

lemma refs_heap [simp]: "refs (s\<lparr>bl_heap := h\<rparr>) p = refs s p" "refs (s\<lparr>bl_heap := h, bl_next := n\<rparr>) p = refs s p"
  by (simp_all add: refs_def)

lemma set_ptr_fields [simp]:
  "bl_heap (set_ptr v x s) = bl_heap s" "bl_next (set_ptr v x s) = bl_next s"
  "bl_vars (set_ptr v x s) = (bl_vars s)(v \<mapsto> x)"
  by (simp_all add: set_ptr_def)

text \<open>Giving a pointer to an object that has none adds a reference.\<close>

lemma not_ref: "bl_vars s v \<in> {None, Some None} \<Longrightarrow> v \<notin> refs s p"
  by (auto simp: refs_def)

lemma release_ok:
  assumes "blob_inv s" "bl_vars s v = Some ptr"
  shows "\<exists>s'. release v s = Inr s' \<and> blob_inv s' \<and> blob_values s' = (blob_values s)(v \<mapsto> []) \<and>
     bl_vars s' = (bl_vars s)(v \<mapsto> None)"
proof (cases ptr)
  case None
  then have "blob_values s v = Some []" "(bl_vars s)(v \<mapsto> None) = bl_vars s"
    using assms(2) by (auto simp: blob_values_def)
  then show ?thesis using assms None by (auto simp: release_def m_blob_ptr_def)
next
  case (Some p)
  obtain d where d: "bl_heap s p = Some d" "card (refs s p) = Suc (m_copies d)" "p < bl_next s"
    using inv_allocated [OF assms(1), of v p] assms(2) Some by blast
  define h where "h = (if m_copies d = 0 then (bl_heap s)(p := None) else (bl_heap s)(p \<mapsto> d\<lparr>m_copies := m_copies d - 1\<rparr>))"
  define s' where "s' = set_ptr v None (s\<lparr>bl_heap := h\<rparr>)"
  have rel: "release v s = Inr s'"
    using assms(2) Some d(1) by (simp add: release_def m_blob_ptr_def blob_data_def s'_def h_def)
  have v: "v \<in> refs s p" using assms(2) Some by (simp add: refs_def)
  have c: "card (refs s p - {v}) = m_copies d" using d(2) v by simp
  have r: "refs s' q = (if q = p then refs s p - {v} else refs s q)" for q
    using assms(2) Some by (auto simp: s'_def refs_set_ptr) (auto simp: refs_def)
  have "blob_inv s'"
  proof -
    have "finite (dom (bl_vars s'))" using assms(1) by (simp add: s'_def blob_inv_def)
    moreover have "\<forall>q\<ge>bl_next s'. bl_heap s' q = None"
      using blob_invD(2) [OF assms(1)] d(3) by (simp add: s'_def h_def)
    moreover have "counted s' q" for q
    proof (cases "q = p")
      case True
      have "refs s p \<subseteq> {v}" if "m_copies d = 0"
        using that c finite_refs [OF assms(1), of p] by (metis Diff_eq_empty_iff card_0_eq finite_Diff)
      moreover have "bl_heap s' = h" by (simp add: s'_def)
      ultimately show ?thesis using c finite_refs [OF assms(1), of p] r [of p] True by (simp add: counted_def h_def)
    next
      case False
      then have "bl_heap s' q = bl_heap s q" "refs s' q = refs s q" using r by (simp_all add: s'_def h_def)
      then show ?thesis using blob_invD(1) [OF assms(1), of q] by (rule counted_cong)
    qed
    ultimately show ?thesis by (simp add: blob_inv_def)
  qed
  moreover have vals: "blob_values s' w = ((blob_values s)(v \<mapsto> [])) w" for w
  proof (cases "w = v")
    case True
    then show ?thesis by (simp add: blob_values_def s'_def)
  next
    case False
    have "map_option m_text (h q) = map_option m_text (bl_heap s q)" if q: "bl_vars s w = Some (Some q)" for q
    proof (cases "q = p")
      case True
      have "w \<in> refs s p - {v}" using q True False by (simp add: refs_def)
      then have "card (refs s p - {v}) \<noteq> 0" using finite_refs [OF assms(1), of p] by auto
      then show ?thesis using c d(1) True by (simp add: h_def)
    qed (simp add: h_def)
    moreover have "bl_heap s' = h" "bl_vars s' w = bl_vars s w" using False by (simp_all add: s'_def)
    ultimately have "blob_values s' w = blob_values s w" by (intro blob_values_cong) auto
    with False show ?thesis by simp
  qed
  moreover have "bl_vars s' = (bl_vars s)(v \<mapsto> None)" by (simp add: s'_def)
  ultimately show ?thesis using rel ext [OF vals] by blast
qed

lemma copy_ok:
  assumes "blob_inv s" "bl_vars s w = Some ptr" "bl_vars s v \<in> {None, Some None}" "v \<noteq> w"
  shows "\<exists>s'. bindE (grab w s) (\<lambda>(p, s'). Inr (set_ptr v p s')) = Inr s' \<and> blob_inv s' \<and>
     blob_values s' = (blob_values s)(v := blob_values s w)"
proof (cases ptr)
  case None
  define s' where "s' = set_ptr v None s"
  have r: "refs s' q = refs s q" for q using not_ref [OF assms(3)] by (simp add: s'_def refs_set_ptr)
  have "counted s' q" for q
    by (rule counted_cong [OF _ r blob_invD(1) [OF assms(1)]]) (simp add: s'_def)
  then have "blob_inv s'" using assms(1) by (simp add: blob_inv_def) (simp add: s'_def)
  moreover have "blob_values s' = (blob_values s)(v := blob_values s w)"
    using assms(2) None by (auto simp: blob_values_def s'_def split: option.splits)
  ultimately show ?thesis using assms(2) None by (simp add: grab_def m_blob_ptr_def s'_def)
next
  case (Some p)
  obtain d where d: "bl_heap s p = Some d" "card (refs s p) = Suc (m_copies d)" "p < bl_next s"
    using inv_allocated [OF assms(1), of w p] assms(2) Some by blast
  define s' where "s' = set_ptr v (Some p) (s\<lparr>bl_heap := (bl_heap s)(p \<mapsto> d\<lparr>m_copies := m_copies d + 1\<rparr>)\<rparr>)"
  have g: "bindE (grab w s) (\<lambda>(p, s'). Inr (set_ptr v p s')) = Inr s'"
    using assms(2) Some d(1) by (simp add: grab_def m_blob_ptr_def blob_data_def s'_def)
  have r: "refs s' q = (if q = p then insert v (refs s p) else refs s q)" for q
    using not_ref [OF assms(3)] by (simp add: s'_def refs_set_ptr)
  have "blob_inv s'"
  proof -
    have "finite (dom (bl_vars s'))" using assms(1) by (simp add: s'_def blob_inv_def)
    moreover have "\<forall>q\<ge>bl_next s'. bl_heap s' q = None"
      using blob_invD(2) [OF assms(1)] d(3) by (simp add: s'_def)
    moreover have "counted s' q" for q
    proof (cases "q = p")
      case True
      have heap: "bl_heap s' p = Some (d\<lparr>m_copies := m_copies d + 1\<rparr>)" by (simp add: s'_def)
      then show ?thesis using d(2) not_ref [OF assms(3), of p] finite_refs [OF assms(1), of p] r [of p] heap True
        by (simp add: counted_def)
    next
      case False
      then have "bl_heap s' q = bl_heap s q" "refs s' q = refs s q" using r by (simp_all add: s'_def)
      then show ?thesis using blob_invD(1) [OF assms(1), of q] by (rule counted_cong)
    qed
    ultimately show ?thesis by (simp add: blob_inv_def)
  qed
  moreover have vals: "blob_values s' x = ((blob_values s)(v := blob_values s w)) x" for x
  proof (cases "x = v")
    case True
    then show ?thesis using assms(2) Some d(1) by (simp add: blob_values_def s'_def)
  next
    case False
    have "map_option m_text (bl_heap s' q) = map_option m_text (bl_heap s q)" for q using d(1) by (simp add: s'_def)
    moreover have "bl_vars s' x = bl_vars s x" using False by (simp add: s'_def)
    ultimately have "blob_values s' x = blob_values s x" by (intro blob_values_cong)
    with False show ?thesis by simp
  qed
  ultimately show ?thesis using g ext [OF vals] by blast
qed

lemma fill_ok:
  assumes "blob_inv s" "source_bytes x s = Inr bytes" "bl_vars s v \<in> {None, Some None}"
  shows "\<exists>s'. fill v x s = Inr s' \<and> blob_inv s' \<and> blob_values s' = (blob_values s)(v \<mapsto> bytes)"
proof -
  define n where "n = bl_next s"
  define s' where "s' = set_ptr v (Some n) (s\<lparr>bl_heap := (bl_heap s)(n \<mapsto> \<lparr>m_text = bytes, m_copies = 0\<rparr>), bl_next := Suc n\<rparr>)"
  have f: "fill v x s = Inr s'" using assms(2) by (simp add: fill_def create_def s'_def n_def)
  have free: "bl_heap s n = None" using assms(1) by (simp add: blob_inv_def n_def)
  then have nr: "refs s n = {}" using blob_invD(1) [OF assms(1), of n] by (simp add: counted_def)
  have r: "refs s' q = (if q = n then {v} else refs s q)" for q
    using not_ref [OF assms(3)] nr by (simp add: s'_def refs_set_ptr)
  have "blob_inv s'"
  proof -
    have "finite (dom (bl_vars s'))" using assms(1) by (simp add: s'_def blob_inv_def)
    moreover have "\<forall>q\<ge>bl_next s'. bl_heap s' q = None" using assms(1) by (simp add: s'_def blob_inv_def n_def)
    moreover have "counted s' q" for q
    proof (cases "q = n")
      case True
      have "bl_heap s' n = Some \<lparr>m_text = bytes, m_copies = 0\<rparr>" by (simp add: s'_def)
      then show ?thesis using r [of n] True by (simp add: counted_def)
    next
      case False
      then have "bl_heap s' q = bl_heap s q" "refs s' q = refs s q" using r by (simp_all add: s'_def)
      then show ?thesis using blob_invD(1) [OF assms(1), of q] by (rule counted_cong)
    qed
    ultimately show ?thesis by (simp add: blob_inv_def)
  qed
  moreover have vals: "blob_values s' w = ((blob_values s)(v \<mapsto> bytes)) w" for w
  proof (cases "w = v")
    case True
    then show ?thesis by (simp add: blob_values_def s'_def)
  next
    case False
    have "bl_vars s w \<noteq> Some (Some n)" using nr by (auto simp: refs_def)
    then have "blob_values s' w = blob_values s w"
      using False by (intro blob_values_cong) (auto simp: s'_def)
    with False show ?thesis by simp
  qed
  ultimately show ?thesis using f ext [OF vals] by blast
qed

section \<open>Programs with blobs\<close>

datatype blob_op = Construct nat | Construct_copy nat nat | Construct_from nat source | Destroy nat
  | Assign nat nat | Set_from nat source | Clear nat

fun blob_step :: "blob_op \<Rightarrow> blobs \<Rightarrow> fault + blobs" where
  "blob_step (Construct v) s = construct v s"
| "blob_step (Construct_copy v w) s = construct_copy v w s"
| "blob_step (Construct_from v src) s = construct_from v src s"
| "blob_step (Destroy v) s = destroy v s"
| "blob_step (Assign v w) s = assign v w s"
| "blob_step (Set_from v src) s = set_from v src s"
| "blob_step (Clear v) s = release v s"

fun run_blobs :: "blob_op list \<Rightarrow> blobs \<Rightarrow> fault + blobs" where
  "run_blobs [] s = Inr s"
| "run_blobs (op # ops) s = bindE (blob_step op s) (run_blobs ops)"

text \<open>The abstract specification: objects with values of their own. An operation is defined on objects
  that exist, a constructor on one that does not; an object is not assigned to itself nor set from its own bytes.\<close>

fun source_value :: "(nat \<Rightarrow> string option) \<Rightarrow> source \<Rightarrow> string option" where
  "source_value m (Bytes x) = Some x"
| "source_value m (Payload w) = m w"

definition define_value :: "nat \<Rightarrow> string option \<Rightarrow> (nat \<Rightarrow> string option) \<Rightarrow> (nat \<Rightarrow> string option) option" where
  "define_value v x m = (case x of None \<Rightarrow> None | Some bytes \<Rightarrow> Some (m(v \<mapsto> bytes)))"

fun blob_spec :: "blob_op \<Rightarrow> (nat \<Rightarrow> string option) \<Rightarrow> (nat \<Rightarrow> string option) option" where
  "blob_spec (Construct v) m = (if m v = None then Some (m(v \<mapsto> [])) else None)"
| "blob_spec (Construct_copy v w) m = (if m v = None then define_value v (m w) m else None)"
| "blob_spec (Construct_from v src) m = (if m v = None then define_value v (source_value m src) m else None)"
| "blob_spec (Destroy v) m = (if m v \<noteq> None then Some (m(v := None)) else None)"
| "blob_spec (Assign v w) m = (if m v \<noteq> None \<and> v \<noteq> w then define_value v (m w) m else None)"
| "blob_spec (Set_from v src) m = (if m v \<noteq> None \<and> src \<noteq> Payload v then define_value v (source_value m src) m else None)"
| "blob_spec (Clear v) m = (if m v \<noteq> None then Some (m(v \<mapsto> [])) else None)"

fun run_values :: "blob_op list \<Rightarrow> (nat \<Rightarrow> string option) \<Rightarrow> (nat \<Rightarrow> string option) option" where
  "run_values [] m = Some m"
| "run_values (op # ops) m = (case blob_spec op m of None \<Rightarrow> None | Some m' \<Rightarrow> run_values ops m')"

lemma blob_values_None: "blob_inv s \<Longrightarrow> blob_values s v = None \<longleftrightarrow> bl_vars s v = None"
  by (cases "bl_vars s v") (auto simp: blob_values_def split: option.splits elim: inv_allocated)

lemma blob_values_dom: "blob_inv s \<Longrightarrow> blob_values s v = Some x \<Longrightarrow> \<exists>ptr. bl_vars s v = Some ptr"
  using blob_values_None [of s v] by (cases "bl_vars s v") auto

lemma source_ok:
  assumes "blob_inv s" "source_value (blob_values s) src = Some bytes"
  shows "\<exists>x. source_ptr src s = Inr x \<and> source_bytes x s = Inr bytes"
proof (cases src)
  case (Payload w)
  obtain ptr where ptr: "bl_vars s w = Some ptr" using blob_values_dom [OF assms(1)] assms(2) Payload by auto
  show ?thesis
  proof (cases ptr)
    case (Some p)
    then obtain d where "bl_heap s p = Some d" using inv_allocated [OF assms(1), of w p] ptr by blast
    then show ?thesis using assms(2) Payload ptr Some
      by (simp add: source_ptr_def source_bytes_def m_blob_ptr_def blob_data_def blob_values_def)
  qed (use assms(2) Payload ptr in \<open>simp add: source_ptr_def source_bytes_def m_blob_ptr_def blob_values_def\<close>)
qed (use assms in \<open>simp add: source_ptr_def source_bytes_def\<close>)

text \<open>After \<open>v\<close> has let go of its data the source is still there, if it is not \<open>v\<close>.\<close>

lemma source_survives:
  assumes "blob_inv s" "source_value (blob_values s) src = Some bytes" "src \<noteq> Payload v" "source_ptr src s = Inr x"
    and "blob_inv s'" "blob_values s' = (blob_values s)(v \<mapsto> [])" "bl_vars s' = (bl_vars s)(v \<mapsto> None)"
  shows "source_bytes x s' = Inr bytes"
proof -
  have "source_value (blob_values s') src = Some bytes" using assms(2,3,6) by (cases src) auto
  moreover have "source_ptr src s' = Inr x" using assms(3,4,7)
    by (cases src) (auto simp: source_ptr_def m_blob_ptr_def)
  ultimately show ?thesis using source_ok [OF assms(5), of src bytes] by auto
qed

lemma destroy_ok:
  assumes "blob_inv s" "bl_vars s v = Some ptr"
  shows "\<exists>s'. destroy v s = Inr s' \<and> blob_inv s' \<and> blob_values s' = (blob_values s)(v := None)"
proof -
  obtain s1 where s1: "release v s = Inr s1" "blob_inv s1" "blob_values s1 = (blob_values s)(v \<mapsto> [])"
    "bl_vars s1 = (bl_vars s)(v \<mapsto> None)"
    using release_ok [OF assms] by blast
  define s' where "s' = s1\<lparr>bl_vars := (bl_vars s1)(v := None)\<rparr>"
  have "refs s' p = refs s1 p" for p using s1(4) by (auto simp: refs_def s'_def)
  then have "counted s' p" for p by (rule counted_cong [OF _ _ blob_invD(1) [OF s1(2)], rotated]) (simp add: s'_def)
  moreover have "finite (dom (bl_vars s'))" using blob_invD(3) [OF s1(2)] by (simp add: s'_def)
  ultimately have "blob_inv s'" using s1(2) by (simp add: blob_inv_def) (simp add: s'_def)
  moreover have vals: "blob_values s' w = ((blob_values s)(v := None)) w" for w
  proof (cases "w = v")
    case True
    then show ?thesis by (simp add: blob_values_def s'_def)
  next
    case False
    then have "blob_values s' w = blob_values s1 w" by (intro blob_values_cong) (simp_all add: s'_def)
    with False s1(3) show ?thesis by simp
  qed
  moreover have "destroy v s = Inr s'" using s1(1) by (simp add: destroy_def s'_def)
  ultimately show ?thesis using ext [OF vals] by blast
qed

lemma assign_ok:
  assumes "blob_inv s" "bl_vars s v = Some pv" "blob_values s w = Some x" "v \<noteq> w"
  shows "\<exists>s'. assign v w s = Inr s' \<and> blob_inv s' \<and> blob_values s' = (blob_values s)(v \<mapsto> x)"
proof -
  obtain s1 where s1: "release v s = Inr s1" "blob_inv s1" "blob_values s1 = (blob_values s)(v \<mapsto> [])"
    "bl_vars s1 = (bl_vars s)(v \<mapsto> None)"
    using release_ok [OF assms(1,2)] by blast
  obtain ptr where ptr: "bl_vars s1 w = Some ptr"
    using blob_values_dom [OF s1(2), of w x] s1(3) assms(3,4) by auto
  have "bl_vars s1 v \<in> {None, Some None}" using s1(4) by simp
  then obtain s' where "bindE (grab w s1) (\<lambda>(p, s'). Inr (set_ptr v p s')) = Inr s'" "blob_inv s'"
    "blob_values s' = (blob_values s1)(v := blob_values s1 w)"
    using copy_ok [OF s1(2) ptr _ assms(4)] by blast
  moreover have "assign v w s = bindE (grab w s1) (\<lambda>(p, s'). Inr (set_ptr v p s'))"
    using s1(1) by (simp add: assign_def)
  ultimately show ?thesis using s1(3) assms(3,4) by auto
qed

lemma blob_step_refines:
  assumes "blob_inv s" "blob_spec op (blob_values s) = Some m"
  shows "\<exists>s'. blob_step op s = Inr s' \<and> blob_inv s' \<and> blob_values s' = m"
proof (cases op)
  case (Construct v)
  then have v: "bl_vars s v = None" "m = (blob_values s)(v \<mapsto> [])"
    using assms blob_values_None [OF assms(1), of v] by (auto split: if_splits)
  have "\<And>p. refs (set_ptr v None s) p = refs s p" using v(1) by (auto simp: refs_def set_ptr_def)
  then have "counted (set_ptr v None s) p" for p
    by (rule counted_cong [OF _ _ blob_invD(1) [OF assms(1)], rotated]) simp
  then have "blob_inv (set_ptr v None s)" using assms(1) by (simp add: blob_inv_def)
  moreover have "blob_values (set_ptr v None s) w = m w" for w
    using v(2) by (cases "w = v") (simp add: blob_values_def, simp, rule blob_values_cong, simp_all)
  then have "blob_values (set_ptr v None s) = m" by (rule ext)
  ultimately show ?thesis by (simp add: Construct construct_def)
next
  case (Construct_copy v w)
  then have v: "bl_vars s v = None" using assms blob_values_None [OF assms(1), of v] by (auto split: if_splits)
  obtain x where x: "blob_values s w = Some x" "m = (blob_values s)(v \<mapsto> x)"
    using assms(2) Construct_copy by (auto simp: define_value_def split: if_splits option.splits)
  obtain ptr where ptr: "bl_vars s w = Some ptr" using blob_values_dom [OF assms(1) x(1)] by blast
  then have "v \<noteq> w" using v by auto
  with copy_ok [OF assms(1) ptr, of v] v x show ?thesis by (auto simp: Construct_copy construct_copy_def)
next
  case (Construct_from v src)
  then have v: "bl_vars s v = None" using assms blob_values_None [OF assms(1), of v] by (auto split: if_splits)
  obtain bytes where x: "source_value (blob_values s) src = Some bytes" "m = (blob_values s)(v \<mapsto> bytes)"
    using assms(2) Construct_from by (auto simp: define_value_def split: if_splits option.splits)
  obtain a where a: "source_ptr src s = Inr a" "source_bytes a s = Inr bytes" using source_ok [OF assms(1) x(1)] by blast
  from fill_ok [OF assms(1) a(2), of v] v x(2) a(1) show ?thesis by (auto simp: Construct_from construct_from_def)
next
  case (Destroy v)
  then obtain ptr where ptr: "bl_vars s v = Some ptr" "m = (blob_values s)(v := None)"
    using assms blob_values_dom [OF assms(1), of v] by (auto split: if_splits)
  from destroy_ok [OF assms(1) ptr(1)] ptr(2) show ?thesis by (simp add: Destroy)
next
  case (Assign v w)
  then obtain x pv where x: "blob_values s w = Some x" "m = (blob_values s)(v \<mapsto> x)" "v \<noteq> w" "bl_vars s v = Some pv"
    using assms blob_values_dom [OF assms(1), of v] by (auto simp: define_value_def split: if_splits option.splits)
  from assign_ok [OF assms(1) x(4,1,3)] x(2) show ?thesis by (simp add: Assign)
next
  case (Set_from v src)
  then obtain bytes pv where x: "source_value (blob_values s) src = Some bytes" "m = (blob_values s)(v \<mapsto> bytes)"
    "src \<noteq> Payload v" "bl_vars s v = Some pv"
    using assms blob_values_dom [OF assms(1), of v] by (auto simp: define_value_def split: if_splits option.splits)
  obtain a where a: "source_ptr src s = Inr a" using source_ok [OF assms(1) x(1)] by blast
  obtain s1 where s1: "release v s = Inr s1" "blob_inv s1" "blob_values s1 = (blob_values s)(v \<mapsto> [])"
    "bl_vars s1 = (bl_vars s)(v \<mapsto> None)"
    using release_ok [OF assms(1) x(4)] by blast
  have "source_bytes a s1 = Inr bytes" by (rule source_survives [OF assms(1) x(1,3) a s1(2-4)])
  from fill_ok [OF s1(2) this, of v] s1 a x(2) show ?thesis by (auto simp: Set_from set_from_def)
next
  case (Clear v)
  then obtain ptr where ptr: "bl_vars s v = Some ptr" "m = (blob_values s)(v \<mapsto> [])"
    using assms blob_values_dom [OF assms(1), of v] by (auto split: if_splits)
  from release_ok [OF assms(1) ptr(1)] ptr(2) show ?thesis by (auto simp: Clear)
qed

lemma run_blobs_refines:
  "blob_inv s \<Longrightarrow> run_values ops (blob_values s) = Some m \<Longrightarrow>
     \<exists>s'. run_blobs ops s = Inr s' \<and> blob_inv s' \<and> blob_values s' = m"
proof (induction ops arbitrary: s)
  case (Cons op ops)
  obtain m1 where m1: "blob_spec op (blob_values s) = Some m1" "run_values ops m1 = Some m"
    using Cons.prems(2) by (auto split: option.splits)
  obtain s1 where "blob_step op s = Inr s1" "blob_inv s1" "blob_values s1 = m1"
    using blob_step_refines [OF Cons.prems(1) m1(1)] by blast
  with Cons.IH [of s1] m1(2) show ?case by simp
qed simp

section \<open>Comparisons\<close>

lemma memcmp_lex:
  "memcmp a b (min (length a) (length b)) < 0 \<or> (memcmp a b (min (length a) (length b)) = 0 \<and> length a < length b) \<longleftrightarrow>
     map code a < map code b"
  "memcmp a b (min (length a) (length b)) > 0 \<or> (memcmp a b (min (length a) (length b)) = 0 \<and> length b < length a) \<longleftrightarrow>
     map code b < map code a"
proof (induction a arbitrary: b)
  case Nil
  {
    case 1
    show ?case by (cases b) simp_all
  next
    case 2
    show ?case by simp
  }
next
  case (Cons x a)
  {
    case 1
    show ?case using Cons(1) by (cases b) auto
  next
    case 2
    show ?case using Cons(2) by (cases b) auto
  }
qed

lemma memcmp_eq: "length a = length b \<Longrightarrow> memcmp a b (length a) = 0 \<longleftrightarrow> a = b"
proof (induction a arbitrary: b)
  case (Cons x a)
  then show ?case by (cases b) auto
qed simp

section \<open>Properties\<close>

text \<open>C21: Sharing the data cannot be observed. Whatever a program does with blobs, as long as it uses objects that exist and
  neither assigns a blob to itself nor sets it from its own bytes, no operation follows a pointer to freed data, each object has
  the value it would have if nothing were shared, data is allocated exactly while an object refers to it, and the
  count an object reports is the number of objects that share its data.\<close>

theorem blobs_have_values:
  assumes "run_values ops (\<lambda>_. None) = Some m"
  shows "\<exists>s. run_blobs ops blobs_init = Inr s \<and> blob_values s = m \<and>
     (\<forall>p. bl_heap s p \<noteq> None \<longleftrightarrow> (\<exists>v. bl_vars s v = Some (Some p))) \<and>
     (\<forall>v p. bl_vars s v = Some (Some p) \<longrightarrow> use_count v s = Inr (card {w. bl_vars s w = Some (Some p)}))"
proof -
  have init: "blob_values blobs_init = (\<lambda>_. None)" by (simp add: fun_eq_iff blob_values_def blobs_init_def)
  obtain s where s: "run_blobs ops blobs_init = Inr s" "blob_inv s" "blob_values s = m"
    using run_blobs_refines [OF blob_inv_init, of ops m] assms init by auto
  have "bl_heap s p \<noteq> None \<longleftrightarrow> (\<exists>v. bl_vars s v = Some (Some p))" for p
  proof
    assume "bl_heap s p \<noteq> None"
    then have "card (refs s p) \<noteq> 0" using blob_invD(1) [OF s(2), of p] by (auto simp: counted_def)
    then have "refs s p \<noteq> {}" by auto
    then show "\<exists>v. bl_vars s v = Some (Some p)" by (auto simp: refs_def)
  qed (auto elim: inv_allocated [OF s(2)])
  moreover have "use_count v s = Inr (card {w. bl_vars s w = Some (Some p)})" if v: "bl_vars s v = Some (Some p)" for v p
  proof -
    obtain d where "bl_heap s p = Some d" "card (refs s p) = Suc (m_copies d)" using inv_allocated [OF s(2) v] by blast
    with v show ?thesis by (simp add: use_count_def m_blob_ptr_def blob_data_def refs_def)
  qed
  ultimately show ?thesis using s by blast
qed

lemma blobs_have_values_witness:
  "\<exists>s. run_blobs [Construct_from 0 (Bytes ''ab''), Construct_copy 1 0, Set_from 0 (Bytes ''c''), Destroy 1] blobs_init = Inr s \<and>
     blob_values s 0 = Some ''c'' \<and> blob_values s 1 = None"
  using blobs_have_values [of "[Construct_from 0 (Bytes ''ab''), Construct_copy 1 0, Set_from 0 (Bytes ''c''), Destroy 1]"]
  by (auto simp: define_value_def)

text \<open>The comparisons of blobs are the lexicographic order of their bytes, read as unsigned numbers; exactly one of
  equal, less and greater holds.\<close>

lemma blob_order:
  "blob_eq a b \<longleftrightarrow> a = b" "blob_less a b \<longleftrightarrow> map code a < map code b" "blob_greater a b \<longleftrightarrow> blob_less b a"
proof -
  show "blob_eq a b \<longleftrightarrow> a = b" using memcmp_eq [of a b] by (auto simp: blob_eq_def)
  have e: "memcmp a b 0 = 0" for a b by (cases "(a, b, 0 :: nat)" rule: memcmp.cases) auto
  show less: "blob_less a b \<longleftrightarrow> map code a < map code b" for a b
  proof (cases "min (length a) (length b) = 0")
    case True
    then show ?thesis using memcmp_lex(1) [of a b] e by (simp add: blob_less_def Let_def)
  next
    case False
    then have "blob_less a b \<longleftrightarrow> memcmp a b (min (length a) (length b)) < 0 \<or>
        (memcmp a b (min (length a) (length b)) = 0 \<and> length a < length b)"
      by (auto simp: blob_less_def Let_def)
    then show ?thesis using memcmp_lex(1) [of a b] by blast
  qed
  have "blob_greater a b \<longleftrightarrow> map code b < map code a"
  proof (cases "min (length a) (length b) = 0")
    case True
    then show ?thesis using memcmp_lex(2) [of a b] e by (simp add: blob_greater_def Let_def)
  next
    case False
    then have "blob_greater a b \<longleftrightarrow> memcmp a b (min (length a) (length b)) > 0 \<or>
        (memcmp a b (min (length a) (length b)) = 0 \<and> length b < length a)"
      by (auto simp: blob_greater_def Let_def)
    then show ?thesis using memcmp_lex(2) [of a b] by blast
  qed
  with less show "blob_greater a b \<longleftrightarrow> blob_less b a" by simp
qed

section \<open>Where sharing shows\<close>

text \<open>A blob that is assigned to itself lets go of its data first, and is empty then.\<close>

lemma self_assignment_loses_content:
  assumes "blob_inv s" "bl_vars s v = Some ptr"
  shows "\<exists>s'. assign v v s = Inr s' \<and> blob_values s' v = Some []"
proof -
  obtain s1 where s1: "release v s = Inr s1" "bl_vars s1 = (bl_vars s)(v \<mapsto> None)"
    using release_ok [OF assms] by blast
  then have "assign v v s = Inr (set_ptr v None s1)" by (simp add: assign_def grab_def m_blob_ptr_def)
  then show ?thesis by (simp add: blob_values_def)
qed

text \<open>Setting a blob that shares its data with no other from its own bytes copies from memory that has been freed.\<close>

lemma set_from_itself_dangles:
  assumes "bl_vars s v = Some (Some p)" "bl_heap s p = Some d" "m_copies d = 0"
  shows "set_from v (Payload v) s = Inl Dangling_pointer"
  using assms by (simp add: set_from_def source_ptr_def m_blob_ptr_def release_def blob_data_def fill_def source_bytes_def)

subsection \<open>Two threads\<close>

text \<open>\<open>m_copies\<close> is an atomic counter, but \<open>release\<close> tests it and then decrements it. The model has one step for each
  access, for threads that each let go of one reference to the same data.\<close>

datatype release_pc = Testing | Freeing | Decrementing | Released

record release_race =
  rr_copies :: int
  rr_freed :: bool
  rr_pc :: "nat \<Rightarrow> release_pc"

definition release_step :: "nat \<Rightarrow> release_race \<Rightarrow> (fault + release_race \<times> unit list) option" where
  "release_step t r =
     (case rr_pc r t of
        Released \<Rightarrow> None
      | Testing \<Rightarrow>
          if rr_freed r then Some (Inl Dangling_pointer)
          else Some (Inr (r\<lparr>rr_pc := (rr_pc r)(t := if rr_copies r = 0 then Freeing else Decrementing)\<rparr>, []))
      | Freeing \<Rightarrow>
          if rr_freed r then Some (Inl Dangling_pointer)
          else Some (Inr (r\<lparr>rr_freed := True, rr_pc := (rr_pc r)(t := Released)\<rparr>, []))
      | Decrementing \<Rightarrow>
          if rr_freed r then Some (Inl Dangling_pointer)
          else Some (Inr (r\<lparr>rr_copies := rr_copies r - 1, rr_pc := (rr_pc r)(t := Released)\<rparr>, [])))"

definition two_references :: release_race where
  "two_references = \<lparr>rr_copies = 1, rr_freed = False, rr_pc = (\<lambda>_. Testing)\<rparr>"

text \<open>One after the other they free the data; when both test before either decrements nobody frees it.\<close>

lemma releases_in_turn_free:
  "\<exists>r. run_schedule release_step [0, 0, 1, 1] two_references = Inr (r, []) \<and> rr_freed r"
  by (simp add: release_step_def two_references_def)

lemma releases_at_once_leak:
  "\<exists>r. run_schedule release_step [0, 1, 0, 1] two_references = Inr (r, []) \<and> \<not> rr_freed r \<and> rr_copies r = - 1 \<and>
     rr_pc r 0 = Released \<and> rr_pc r 1 = Released"
  by (simp add: release_step_def two_references_def)

end
