(* ===== verification/Lock_Free_List.thy ===== *)
theory Lock_Free_List
  imports Interleaving
begin

text \<open>
  \<open>boost/lockfree/detail/freelist.hpp\<close> and \<open>tagged_ptr\<close>: lists of free memory blocks that threads share without locks, and the
  allocator \<open>PionPoolAllocator.hpp\<close> built on the same loops.  Every access to shared memory is one step;
  a tagged pointer is read in two, first the pointer and then the tag, as the copy constructor of
  \<open>tagged_ptr_dcas.hpp\<close> does (a compressed pointer is the case of two steps in a row).  The width of the tag is the type
  of the words: 64 bits there, 16 bits in a compressed pointer.  A block belongs to the threads that got it until they give it
  back; its owner may write anything into it, where the list has its \<open>next\<close>, and hand it to another thread.
\<close>

section \<open>The data\<close>

record 't tagged_ptr =
  t_ptr :: "nat option"
  t_tag :: 't

text \<open>\<open>fl_memory\<close> has the pointer in \<open>next\<close> of each block of the process.\<close>

record 't free_list =
  pool :: "'t tagged_ptr"
  fl_memory :: "nat \<Rightarrow> nat option option"
  free_list_size :: "64 word"

datatype list_kind = Bounded nat | Caching | Static

datatype 't list_pc =
    Idle
  | Alloc_ptr | Alloc_tag "nat option" | Alloc_new | Alloc_next nat 't | Alloc_cas nat 't "nat option" | Alloc_count
  | Dealloc_size nat | Dealloc_ptr nat | Dealloc_tag nat "nat option" | Dealloc_link nat "nat option" 't
  | Dealloc_cas nat "nat option" 't | Dealloc_count

record 't list_state =
  ls_list :: "'t free_list"
  ls_pc :: "nat \<Rightarrow> 't list_pc"
  ls_blocks :: "nat \<Rightarrow> nat set"

datatype list_event = Allocated nat nat | Failed nat | Released nat nat

text \<open>A thread calls an operation, makes a step (the address is the one the system would allocate), writes into
  a block it has, or hands a block on.\<close>

datatype list_action = Allocate nat | Deallocate nat nat | Advance nat nat | Scribble nat nat "nat option" | Give nat nat nat

section \<open>Tagged pointers\<close>

definition tagged_set :: "nat option \<Rightarrow> 't \<Rightarrow> 't tagged_ptr" where
  "tagged_set p t = \<lparr>t_ptr = p, t_tag = t\<rparr>"

definition tagged_cas :: "'w::len word tagged_ptr \<Rightarrow> 'w word tagged_ptr \<Rightarrow> nat option \<Rightarrow> 'w word tagged_ptr option" where
  "tagged_cas x oldval newptr = (if x = oldval then Some (tagged_set newptr (t_tag oldval + 1)) else None)"

section \<open>The operations\<close>

type_synonym 'w list_outcome = "(fault + 'w word free_list \<times> 'w word list_pc \<times> nat set \<times> list_event list) option"

text \<open>The step of a thread \<open>i\<close> in an operation: the list, where it is then, the blocks it has got, and the events.\<close>

fun allocate_step :: "list_kind \<Rightarrow> nat \<Rightarrow> nat \<Rightarrow> 'w::len word list_pc \<Rightarrow> 'w word free_list \<Rightarrow> 'w list_outcome" where
  "allocate_step kind i a Alloc_ptr l = Some (Inr (l, Alloc_tag (t_ptr (pool l)), {}, []))"
| "allocate_step kind i a (Alloc_tag p) l =
     (case p of
        None \<Rightarrow> (if kind = Static then Some (Inr (l, Idle, {}, [Failed i])) else Some (Inr (l, Alloc_new, {}, [])))
      | Some n \<Rightarrow> Some (Inr (l, Alloc_next n (t_tag (pool l)), {}, [])))"
| "allocate_step kind i a Alloc_new l =
     (if fl_memory l a = None
      then Some (Inr (l\<lparr>fl_memory := (fl_memory l)(a \<mapsto> None)\<rparr>, Idle, {a}, [Allocated i a])) else None)"
| "allocate_step kind i a (Alloc_next n t) l =
     (case fl_memory l n of
        None \<Rightarrow> Some (Inl Dangling_pointer)
      | Some new_pool \<Rightarrow> Some (Inr (l, Alloc_cas n t new_pool, {}, [])))"
| "allocate_step kind i a (Alloc_cas n t new_pool) l =
     (case tagged_cas (pool l) (tagged_set (Some n) t) new_pool of
        None \<Rightarrow> Some (Inr (l, Alloc_ptr, {}, []))
      | Some x \<Rightarrow> Some (Inr (l\<lparr>pool := x\<rparr>, case kind of Bounded m \<Rightarrow> Alloc_count | _ \<Rightarrow> Idle, {n}, [Allocated i n])))"
| "allocate_step kind i a Alloc_count l = Some (Inr (l\<lparr>free_list_size := free_list_size l - 1\<rparr>, Idle, {}, []))"
| "allocate_step kind i a pc l = None"

fun deallocate_step :: "list_kind \<Rightarrow> 'w::len word list_pc \<Rightarrow> 'w word free_list \<Rightarrow> 'w list_outcome" where
  "deallocate_step kind (Dealloc_size n) l =
     (case kind of
        Bounded maximum_size \<Rightarrow>
          if unat (free_list_size l) > maximum_size
          then Some (Inr (l\<lparr>fl_memory := (fl_memory l)(n := None)\<rparr>, Idle, {}, []))
          else Some (Inr (l, Dealloc_ptr n, {}, []))
      | _ \<Rightarrow> None)"
| "deallocate_step kind (Dealloc_ptr n) l = Some (Inr (l, Dealloc_tag n (t_ptr (pool l)), {}, []))"
| "deallocate_step kind (Dealloc_tag n p) l = Some (Inr (l, Dealloc_link n p (t_tag (pool l)), {}, []))"
| "deallocate_step kind (Dealloc_link n p t) l =
     (case fl_memory l n of
        None \<Rightarrow> Some (Inl Dangling_pointer)
      | Some q \<Rightarrow> Some (Inr (l\<lparr>fl_memory := (fl_memory l)(n \<mapsto> p)\<rparr>, Dealloc_cas n p t, {}, [])))"
| "deallocate_step kind (Dealloc_cas n p t) l =
     (case tagged_cas (pool l) (tagged_set p t) (Some n) of
        None \<Rightarrow> Some (Inr (l, Dealloc_ptr n, {}, []))
      | Some x \<Rightarrow> Some (Inr (l\<lparr>pool := x\<rparr>, case kind of Bounded m \<Rightarrow> Dealloc_count | _ \<Rightarrow> Idle, {}, [])))"
| "deallocate_step kind Dealloc_count l = Some (Inr (l\<lparr>free_list_size := free_list_size l - 1\<rparr>, Idle, {}, []))"
| "deallocate_step kind pc l = None"

definition deallocate_start :: "list_kind \<Rightarrow> nat \<Rightarrow> 't list_pc" where
  "deallocate_start kind n = (case kind of Bounded m \<Rightarrow> Dealloc_size n | _ \<Rightarrow> Dealloc_ptr n)"

text \<open>The constructors: the nodes the list begins with are given to it one after the other.\<close>

fun give_nodes :: "nat list \<Rightarrow> 'w::len word free_list \<Rightarrow> 'w word free_list" where
  "give_nodes [] l = l"
| "give_nodes (n # ns) l = give_nodes ns
     (l\<lparr>fl_memory := (fl_memory l)(n \<mapsto> t_ptr (pool l)), pool := tagged_set (Some n) (t_tag (pool l) + 1)\<rparr>)"

definition free_list_init :: "nat list \<Rightarrow> 'w::len word free_list" where
  "free_list_init nodes = give_nodes nodes \<lparr>pool = tagged_set None 0, fl_memory = (\<lambda>_. None), free_list_size = 0\<rparr>"

text \<open>The destructor walks the list and returns every node to the system.\<close>

partial_function (option) free_memory_pool :: "nat option \<Rightarrow> (nat \<Rightarrow> nat option option) \<Rightarrow> (fault + (nat \<Rightarrow> nat option option)) option" where
  "free_memory_pool current mem =
     (case current of
        None \<Rightarrow> Some (Inr mem)
      | Some n \<Rightarrow> (case mem n of None \<Rightarrow> Some (Inl Dangling_pointer) | Some next_ptr \<Rightarrow> free_memory_pool next_ptr (mem(n := None))))"

section \<open>Threads\<close>

definition list_start :: "nat list \<Rightarrow> 'w::len word list_state" where
  "list_start nodes = \<lparr>ls_list = free_list_init nodes, ls_pc = (\<lambda>_. Idle), ls_blocks = (\<lambda>_. {})\<rparr>"

definition list_result :: "nat \<Rightarrow> 'w::len word list_state \<Rightarrow> 'w list_outcome \<Rightarrow> (fault + 'w word list_state \<times> list_event list) option" where
  "list_result i s out = map_option (map_sum id (\<lambda>(l, pc, got, es).
     (s\<lparr>ls_list := l, ls_pc := (ls_pc s)(i := pc), ls_blocks := (ls_blocks s)(i := ls_blocks s i \<union> got)\<rparr>, es))) out"

definition in_allocate :: "'t list_pc \<Rightarrow> bool" where
  "in_allocate pc \<longleftrightarrow> (case pc of
     Alloc_ptr \<Rightarrow> True | Alloc_tag p \<Rightarrow> True | Alloc_new \<Rightarrow> True | Alloc_next n t \<Rightarrow> True | Alloc_cas n t q \<Rightarrow> True | Alloc_count \<Rightarrow> True
   | _ \<Rightarrow> False)"

fun list_step :: "list_kind \<Rightarrow> list_action \<Rightarrow> 'w::len word list_state \<Rightarrow> (fault + 'w word list_state \<times> list_event list) option" where
  "list_step kind (Allocate i) s =
     (if ls_pc s i = Idle then Some (Inr (s\<lparr>ls_pc := (ls_pc s)(i := Alloc_ptr)\<rparr>, [])) else None)"
| "list_step kind (Deallocate i n) s =
     (if ls_pc s i = Idle \<and> n \<in> ls_blocks s i
      then Some (Inr (s\<lparr>ls_pc := (ls_pc s)(i := deallocate_start kind n), ls_blocks := (ls_blocks s)(i := ls_blocks s i - {n})\<rparr>,
        [Released i n]))
      else None)"
| "list_step kind (Advance i a) s = list_result i s
     (if in_allocate (ls_pc s i) then allocate_step kind i a (ls_pc s i) (ls_list s)
      else deallocate_step kind (ls_pc s i) (ls_list s))"
| "list_step kind (Scribble i n v) s =
     (if n \<in> ls_blocks s i
      then Some (Inr (s\<lparr>ls_list := (ls_list s)\<lparr>fl_memory := (fl_memory (ls_list s))(n \<mapsto> v)\<rparr>\<rparr>, [])) else None)"
| "list_step kind (Give i j n) s =
     (if n \<in> ls_blocks s i \<and> i \<noteq> j
      then Some (Inr (s\<lparr>ls_blocks := (ls_blocks s)(i := ls_blocks s i - {n}, j := ls_blocks s j \<union> {n})\<rparr>, [])) else None)"

text \<open>What an allocator promises: a block is given out only when nobody has it, and given back only when somebody has.\<close>

fun alloc_spec :: "list_event \<Rightarrow> nat set \<Rightarrow> nat set option" where
  "alloc_spec (Allocated i n) H = (if n \<in> H then None else Some (insert n H))"
| "alloc_spec (Failed i) H = Some H"
| "alloc_spec (Released i n) H = (if n \<in> H then Some (H - {n}) else None)"

section \<open>The invariant\<close>

text \<open>The nodes of the list from a pointer on.\<close>

fun chain :: "(nat \<Rightarrow> nat option option) \<Rightarrow> nat option \<Rightarrow> nat list \<Rightarrow> bool" where
  "chain mem p [] \<longleftrightarrow> p = None"
| "chain mem p (n # ns) \<longleftrightarrow> p = Some n \<and> (\<exists>q. mem n = Some q \<and> chain mem q ns)"

text \<open>The block a thread is giving back, and all it may write to.\<close>

fun pending :: "'t list_pc \<Rightarrow> nat set" where
  "pending (Dealloc_size n) = {n}"
| "pending (Dealloc_ptr n) = {n}"
| "pending (Dealloc_tag n p) = {n}"
| "pending (Dealloc_link n p t) = {n}"
| "pending (Dealloc_cas n p t) = {n}"
| "pending pc = {}"

definition own :: "(nat \<Rightarrow> 't list_pc) \<Rightarrow> (nat \<Rightarrow> nat set) \<Rightarrow> nat \<Rightarrow> nat set" where
  "own pcs bl i = bl i \<union> pending (pcs i)"

text \<open>What a thread knows after \<open>k\<close> changes of the head: a tag it has read is the one of an earlier moment, and
  what it has read of a node is still true if nothing has happened since.\<close>

fun local_ok :: "nat \<Rightarrow> nat option \<Rightarrow> (nat \<Rightarrow> nat option option) \<Rightarrow> 'w::len word list_pc \<Rightarrow> bool" where
  "local_ok k p mem (Alloc_tag (Some n)) \<longleftrightarrow> mem n \<noteq> None"
| "local_ok k p mem (Alloc_next n t) \<longleftrightarrow> mem n \<noteq> None \<and> (\<exists>j\<le>k. t = of_nat j)"
| "local_ok k p mem (Alloc_cas n t q) \<longleftrightarrow> mem n \<noteq> None \<and> (\<exists>j\<le>k. t = of_nat j \<and> (j = k \<and> p = Some n \<longrightarrow> mem n = Some q))"
| "local_ok k p mem (Dealloc_cas n q t) \<longleftrightarrow> mem n = Some q"
| "local_ok k p mem Alloc_count \<longleftrightarrow> False"
| "local_ok k p mem (Dealloc_size n) \<longleftrightarrow> False"
| "local_ok k p mem Dealloc_count \<longleftrightarrow> False"
| "local_ok k p mem pc \<longleftrightarrow> True"

definition list_inv ::
  "nat \<Rightarrow> nat list \<Rightarrow> nat option \<Rightarrow> (nat \<Rightarrow> nat option option) \<Rightarrow> (nat \<Rightarrow> 'w::len word list_pc) \<Rightarrow> (nat \<Rightarrow> nat set) \<Rightarrow> bool" where
  "list_inv k ns p mem pcs bl \<longleftrightarrow> chain mem p ns \<and> distinct ns \<and> (\<forall>i. local_ok k p mem (pcs i)) \<and>
     (\<forall>i. pending (pcs i) \<inter> bl i = {}) \<and> (\<forall>i j. i \<noteq> j \<longrightarrow> own pcs bl i \<inter> own pcs bl j = {}) \<and>
     (\<forall>i. own pcs bl i \<inter> set ns = {}) \<and> dom mem = set ns \<union> (\<Union>i. own pcs bl i)"

definition list_rel :: "nat \<Rightarrow> 'w::len word list_state \<Rightarrow> nat set \<Rightarrow> bool" where
  "list_rel n s H \<longleftrightarrow> H = (\<Union>i. ls_blocks s i) \<and> (\<exists>k ns. k + n < 2 ^ LENGTH('w) \<and> t_tag (pool (ls_list s)) = of_nat k \<and>
     list_inv k ns (t_ptr (pool (ls_list s))) (fl_memory (ls_list s)) (ls_pc s) (ls_blocks s))"

lemma list_invD:
  assumes "list_inv k ns p mem pcs bl"
  shows "chain mem p ns" "distinct ns" "local_ok k p mem (pcs i)" "pending (pcs i) \<inter> bl i = {}"
    "i \<noteq> j \<Longrightarrow> own pcs bl i \<inter> own pcs bl j = {}" "own pcs bl i \<inter> set ns = {}" "dom mem = set ns \<union> (\<Union>i. own pcs bl i)"
  using assms by (simp_all add: list_inv_def)

lemma chain_cong: "\<forall>n\<in>set ns. mem n = mem' n \<Longrightarrow> chain mem p ns \<longleftrightarrow> chain mem' p ns"
  by (induction ns arbitrary: p) auto

lemma own_upd:
  "own (pcs(i := pc)) bl = (own pcs bl)(i := bl i \<union> pending pc)"
  "own pcs (bl(i := b)) = (own pcs bl)(i := b \<union> pending (pcs i))"
  by (auto simp: own_def fun_eq_iff)

lemma disjoint_upd:
  fixes O1 :: "nat \<Rightarrow> nat set"
  assumes "\<And>i j. i \<noteq> j \<Longrightarrow> O1 i \<inter> O1 j = {}" "\<And>j. j \<noteq> i \<Longrightarrow> X \<inter> O1 j = {}"
  shows "a \<noteq> b \<longrightarrow> (O1(i := X)) a \<inter> (O1(i := X)) b = {}"
  using assms by (auto simp: fun_upd_def)

lemma Union_upd:
  fixes O1 :: "nat \<Rightarrow> nat set"
  shows "O1 i \<subseteq> X \<Longrightarrow> (\<Union>j. (O1(i := X)) j) = (\<Union>j. O1 j) \<union> X"
    and "\<forall>j. j \<noteq> i \<longrightarrow> n \<notin> O1 j \<Longrightarrow> (\<Union>j. (O1(i := O1 i - {n})) j) = (\<Union>j. O1 j) - {n}"
  by (auto simp: fun_upd_def split: if_splits)

text \<open>A step that only moves a thread on.\<close>

lemma inv_move:
  assumes "list_inv k ns p mem pcs bl" "pending pc = pending (pcs i)" "local_ok k p mem pc"
  shows "list_inv k ns p mem (pcs(i := pc)) bl"
proof -
  have "own (pcs(i := pc)) bl = own pcs bl" using assms(2) by (simp add: own_upd fun_eq_iff own_def)
  with assms show ?thesis by (simp add: list_inv_def)
qed

text \<open>A write to a node by its owner.\<close>

lemma local_ok_write:
  assumes "local_ok k p mem pc" "mem n \<noteq> None" "p \<noteq> Some n" "n \<notin> pending pc"
  shows "local_ok k p (mem(n \<mapsto> v)) pc"
  using assms by (cases "(k, p, mem, pc)" rule: local_ok.cases) auto

lemma chain_head: "chain mem p ns \<Longrightarrow> p = Some n \<Longrightarrow> n \<in> set ns"
  by (cases ns) auto

lemma inv_write:
  assumes "list_inv k ns p mem pcs bl" "n \<in> own pcs bl i" "n \<in> pending (pcs i) \<Longrightarrow> \<exists>q t. pcs i = Dealloc_link n q t"
  shows "list_inv k ns p (mem(n \<mapsto> v)) pcs bl"
proof -
  note D = list_invD [OF assms(1)]
  have n: "n \<notin> set ns" "mem n \<noteq> None" using D(6) [of i] D(7) assms(2) by auto
  then have p: "p \<noteq> Some n" using chain_head D(1) by blast
  have "local_ok k p (mem(n \<mapsto> v)) (pcs j)" for j
  proof (cases "n \<in> pending (pcs j)")
    case True
    then have "j = i" using D(5) [of i j] assms(2) by (auto simp: own_def)
    with True assms(3) show ?thesis by auto
  next
    case False
    then show ?thesis using local_ok_write [OF D(3) n(2) p] by simp
  qed
  moreover have "chain (mem(n \<mapsto> v)) p ns" using D(1) n(1) chain_cong [of ns mem "mem(n \<mapsto> v)" p] by auto
  moreover have "dom (mem(n \<mapsto> v)) = dom mem" using n(2) by auto
  ultimately show ?thesis using assms(1) unfolding list_inv_def by simp
qed

text \<open>A new node from the system.\<close>

lemma local_ok_new: "local_ok k p mem pc \<Longrightarrow> mem a = None \<Longrightarrow> local_ok k p (mem(a \<mapsto> v)) pc"
  by (cases "(k, p, mem, pc)" rule: local_ok.cases) auto

lemma inv_new:
  assumes "list_inv k ns p mem pcs bl" "mem a = None" "pending (pcs i) = {}"
  shows "list_inv k ns p (mem(a \<mapsto> v)) (pcs(i := Idle)) (bl(i := bl i \<union> {a}))"
proof -
  note D = list_invD [OF assms(1)]
  have a: "a \<notin> set ns" "a \<notin> own pcs bl j" for j
    using domIff [of a mem] assms(2) unfolding D(7) by auto
  have own: "own (pcs(i := Idle)) (bl(i := bl i \<union> {a})) = (own pcs bl)(i := own pcs bl i \<union> {a})"
    using assms(3) by (auto simp: own_def fun_eq_iff)
  have "chain (mem(a \<mapsto> v)) p ns" using D(1) a(1) chain_cong [of ns mem "mem(a \<mapsto> v)" p] by auto
  moreover have "local_ok k p (mem(a \<mapsto> v)) ((pcs(i := Idle)) j)" for j using local_ok_new [OF D(3) assms(2)] by simp
  moreover have "pending ((pcs(i := Idle)) j) \<inter> (bl(i := bl i \<union> {a})) j = {}" for j using D(4) by simp
  moreover have "b \<noteq> c \<longrightarrow> ((own pcs bl)(i := own pcs bl i \<union> {a})) b \<inter> ((own pcs bl)(i := own pcs bl i \<union> {a})) c = {}" for b c
    by (rule disjoint_upd) (use D(5) a(2) in auto)
  moreover have "((own pcs bl)(i := own pcs bl i \<union> {a})) j \<inter> set ns = {}" for j using D(6) a(1) by auto
  moreover have "dom (mem(a \<mapsto> v)) = set ns \<union> (\<Union>j. ((own pcs bl)(i := own pcs bl i \<union> {a})) j)"
    using D(7) by (simp only: Union_upd(1) [OF Un_upper1]) auto
  ultimately show ?thesis using D(2) unfolding list_inv_def own by simp
qed

text \<open>Taking a node out of the list: its tag shows that nothing has happened since the node was read.\<close>

lemma local_ok_next: "local_ok k p mem pc \<Longrightarrow> local_ok (Suc k) p' mem pc"
  by (cases "(k, p, mem, pc)" rule: local_ok.cases) (auto intro: le_SucI)

lemma tag_moment:
  assumes "(of_nat j :: 'w::len word) = of_nat k" "j \<le> k" "k < 2 ^ LENGTH('w)"
  shows "j = k"
  using arg_cong [OF assms(1), of unat] assms(2,3) by (simp add: unat_of_nat)

lemma inv_take:
  assumes "list_inv k ns (Some n) mem pcs bl" "pcs i = Alloc_cas n (of_nat k :: 'w::len word) q" "k < 2 ^ LENGTH('w)"
  shows "\<exists>ns'. ns = n # ns' \<and> list_inv (Suc k) ns' q mem (pcs(i := Idle)) (bl(i := bl i \<union> {n}))"
proof -
  note D = list_invD [OF assms(1)]
  obtain j where "j \<le> k" "(of_nat k :: 'w word) = of_nat j" "j = k \<longrightarrow> mem n = Some q" using D(3) [of i] assms(2) by auto
  then have q: "mem n = Some q" using tag_moment [of j k] assms(3) by metis
  obtain ns' where ns: "ns = n # ns'" using D(1) by (cases ns) auto
  have c: "chain mem q ns'" using D(1) q by (simp add: ns)
  have n: "n \<notin> own pcs bl j" for j using D(6) ns by auto
  have own: "own (pcs(i := Idle)) (bl(i := bl i \<union> {n})) = (own pcs bl)(i := own pcs bl i \<union> {n})"
    using assms(2) by (auto simp: own_def fun_eq_iff)
  have "local_ok (Suc k) q mem ((pcs(i := Idle)) j)" for j using local_ok_next [OF D(3)] by simp
  moreover have "pending ((pcs(i := Idle)) j) \<inter> (bl(i := bl i \<union> {n})) j = {}" for j using D(4) by simp
  moreover have "b \<noteq> c \<longrightarrow> ((own pcs bl)(i := own pcs bl i \<union> {n})) b \<inter> ((own pcs bl)(i := own pcs bl i \<union> {n})) c = {}" for b c
    by (rule disjoint_upd) (use D(5) n in auto)
  moreover have "((own pcs bl)(i := own pcs bl i \<union> {n})) j \<inter> set ns' = {}" for j using D(2,6) ns by auto
  moreover have "dom mem = set ns' \<union> (\<Union>j. ((own pcs bl)(i := own pcs bl i \<union> {n})) j)"
    using D(7) ns by (simp only: Union_upd(1) [OF Un_upper1]) auto
  ultimately have "list_inv (Suc k) ns' q mem (pcs(i := Idle)) (bl(i := bl i \<union> {n}))"
    using D(2) c ns unfolding list_inv_def own by simp
  with ns show ?thesis by blast
qed

text \<open>Putting a node back.\<close>

lemma inv_put:
  assumes "list_inv k ns p mem pcs bl" "pcs i = Dealloc_cas n p t"
  shows "list_inv (Suc k) (n # ns) (Some n) mem (pcs(i := Idle)) bl"
proof -
  note D = list_invD [OF assms(1)]
  have q: "mem n = Some p" using D(3) [of i] assms(2) by simp
  have n: "n \<in> own pcs bl i" "n \<notin> bl i" using D(4) [of i] assms(2) by (auto simp: own_def)
  then have o: "n \<notin> own pcs bl j" if "j \<noteq> i" for j using D(5) [of i j] that by blast
  have own: "own (pcs(i := Idle)) bl = (own pcs bl)(i := own pcs bl i - {n})"
    using assms(2) n(2) by (auto simp: own_def fun_eq_iff)
  have "local_ok (Suc k) (Some n) mem ((pcs(i := Idle)) j)" for j using local_ok_next [OF D(3)] by simp
  moreover have "pending ((pcs(i := Idle)) j) \<inter> bl j = {}" for j using D(4) by simp
  moreover have "b \<noteq> c \<longrightarrow> ((own pcs bl)(i := own pcs bl i - {n})) b \<inter> ((own pcs bl)(i := own pcs bl i - {n})) c = {}" for b c
    by (rule disjoint_upd) (use D(5) in auto)
  moreover have "((own pcs bl)(i := own pcs bl i - {n})) j \<inter> set (n # ns) = {}" for j using D(6) o by auto
  moreover have "dom mem = set (n # ns) \<union> (\<Union>j. ((own pcs bl)(i := own pcs bl i - {n})) j)"
    using D(7) n(1) o by (subst Union_upd(2)) auto
  moreover have "n \<notin> set ns" using D(6) [of i] n(1) by blast
  ultimately show ?thesis using D(1,2) q unfolding list_inv_def own by simp
qed

text \<open>Giving a block back, or to another thread.\<close>

lemma inv_release:
  assumes "list_inv k ns p mem pcs bl" "pcs i = Idle" "n \<in> bl i"
  shows "list_inv k ns p mem (pcs(i := Dealloc_ptr n)) (bl(i := bl i - {n}))"
proof -
  have "own (pcs(i := Dealloc_ptr n)) (bl(i := bl i - {n})) = own pcs bl"
    using assms(2,3) by (auto simp: own_def fun_eq_iff)
  with assms show ?thesis by (auto simp: list_inv_def)
qed

lemma inv_give:
  assumes "list_inv k ns p mem pcs bl" "n \<in> bl i" "i \<noteq> j"
  shows "list_inv k ns p mem pcs (bl(i := bl i - {n}, j := bl j \<union> {n}))"
proof -
  note D = list_invD [OF assms(1)]
  let ?O = "(own pcs bl)(i := own pcs bl i - {n}, j := own pcs bl j \<union> {n})"
  have n: "n \<in> own pcs bl i" "n \<notin> pending (pcs i)" using D(4) [of i] assms(2) by (auto simp: own_def)
  then have o: "n \<notin> own pcs bl h" if "h \<noteq> i" for h using D(5) [of i h] that by blast
  have own: "own pcs (bl(i := bl i - {n}, j := bl j \<union> {n})) = ?O"
    using n(2) assms(3) by (auto simp: own_def fun_eq_iff)
  have d: "b \<noteq> c \<longrightarrow> ((own pcs bl)(i := own pcs bl i - {n})) b \<inter> ((own pcs bl)(i := own pcs bl i - {n})) c = {}" for b c
    by (rule disjoint_upd) (use D(5) in auto)
  have "b \<noteq> c \<longrightarrow> ?O b \<inter> ?O c = {}" for b c
    by (rule disjoint_upd) (use d D(5) [of i j] D(5) [of j] o assms(3) in auto)
  moreover have "?O h \<inter> set ns = {}" for h using D(6) n(1) by (auto simp: fun_upd_def)
  moreover have "(\<Union>h. ?O h) = (\<Union>h. own pcs bl h)" using n(1) assms(3) by (auto simp: fun_upd_def split: if_splits)
  moreover have "pending (pcs h) \<inter> (bl(i := bl i - {n}, j := bl j \<union> {n})) h = {}" for h
    using D(4) [of h] o [of j] assms(3) by (auto simp: own_def)
  ultimately show ?thesis using assms(1) unfolding list_inv_def own by simp
qed

section \<open>The steps\<close>

definition unbounded :: "list_kind \<Rightarrow> bool" where
  "unbounded kind \<longleftrightarrow> (case kind of Bounded m \<Rightarrow> False | _ \<Rightarrow> True)"

definition good_step ::
  "nat \<Rightarrow> 'w::len word free_list \<Rightarrow> (nat \<Rightarrow> 'w word list_pc) \<Rightarrow> (nat \<Rightarrow> nat set) \<Rightarrow> nat \<Rightarrow> 'w word list_pc \<Rightarrow> nat set \<Rightarrow> list_event list \<Rightarrow> bool" where
  "good_step k l pcs bl i pc got es \<longleftrightarrow>
     (\<exists>k' ns. k' \<le> Suc k \<and> t_tag (pool l) = of_nat k' \<and>
        list_inv k' ns (t_ptr (pool l)) (fl_memory l) (pcs(i := pc)) (bl(i := bl i \<union> got))) \<and>
     (got = {} \<and> (es = [] \<or> es = [Failed i]) \<or> (\<exists>b. got = {b} \<and> es = [Allocated i b] \<and> (\<forall>j. b \<notin> bl j)))"

lemma good_move:
  assumes "list_inv k ns (t_ptr (pool l)) (fl_memory l) pcs bl" "t_tag (pool l) = of_nat k"
    and "pending pc = pending (pcs i)" "local_ok k (t_ptr (pool l)) (fl_memory l) pc" "es = [] \<or> es = [Failed i]"
  shows "good_step k l pcs bl i pc {} es"
proof -
  have "list_inv k ns (t_ptr (pool l)) (fl_memory l) (pcs(i := pc)) bl" by (rule inv_move [OF assms(1,3,4)])
  then have "\<exists>k' ns. k' \<le> Suc k \<and> t_tag (pool l) = of_nat k' \<and>
      list_inv k' ns (t_ptr (pool l)) (fl_memory l) (pcs(i := pc)) (bl(i := bl i \<union> {}))"
    using assms(2) by (intro exI [of _ k] exI [of _ ns]) simp
  then show ?thesis using assms(5) by (simp add: good_step_def)
qed

lemma moved:
  assumes "list_inv k ns (t_ptr (pool l)) (fl_memory l) pcs bl" "t_tag (pool l) = of_nat k"
    and "r = Inr (l, pc, {}, es)"
    and "pending pc = pending (pcs i)" "local_ok k (t_ptr (pool l)) (fl_memory l) pc" "es = [] \<or> es = [Failed i]"
  shows "\<exists>l' pc got es. r = Inr (l', pc, got, es) \<and> good_step k l' pcs bl i pc got es"
  using good_move [OF assms(1,2,4-6)] assms(3) by blast

lemma pool_in_memory:
  "list_inv k ns p mem pcs bl \<Longrightarrow> p = Some n \<Longrightarrow> mem n \<noteq> None"
  using list_invD(1) [of k ns p mem pcs bl] by (cases ns) auto

lemma tagged_cas_Some: "tagged_cas x old q = Some y \<longleftrightarrow> x = old \<and> y = tagged_set q (t_tag old + 1)"
  by (auto simp: tagged_cas_def)

lemma tagged_set_sel [simp]: "t_ptr (tagged_set p t) = p" "t_tag (tagged_set p t) = t"
  by (simp_all add: tagged_set_def)

lemma allocate_ok:
  fixes l :: "'w::len word free_list"
  assumes inv: "list_inv k ns (t_ptr (pool l)) (fl_memory l) pcs bl" "t_tag (pool l) = of_nat k" "Suc k < 2 ^ LENGTH('w)"
    and "unbounded kind" "allocate_step kind i a (pcs i) l = Some r"
  shows "\<exists>l' pc got es. r = Inr (l', pc, got, es) \<and> good_step k l' pcs bl i pc got es"
proof (cases "pcs i")
  case Alloc_ptr
  have "local_ok k (t_ptr (pool l)) (fl_memory l) (Alloc_tag (t_ptr (pool l)) :: 'w word list_pc)"
    using pool_in_memory [OF inv(1)] by (cases "t_ptr (pool l)") auto
  then show ?thesis using assms(5) Alloc_ptr by (intro moved [OF inv(1,2), of r "Alloc_tag (t_ptr (pool l))" "[]" i]) simp_all
next
  case (Alloc_tag p)
  show ?thesis
  proof (cases p)
    case None
    show ?thesis
    proof (cases "kind = Static")
      case True
      then show ?thesis using assms(5) Alloc_tag None by (intro moved [OF inv(1,2), of r Idle "[Failed i]" i]) simp_all
    next
      case False
      then show ?thesis using assms(5) Alloc_tag None by (intro moved [OF inv(1,2), of r Alloc_new "[]" i]) simp_all
    qed
  next
    case (Some n)
    have "local_ok k (t_ptr (pool l)) (fl_memory l) (Alloc_next n (t_tag (pool l)))"
      using list_invD(3) [OF inv(1), of i] Alloc_tag Some inv(2) by auto
    then show ?thesis using assms(5) Alloc_tag Some by (intro moved [OF inv(1,2), of r "Alloc_next n (t_tag (pool l))" "[]" i]) simp_all
  qed
next
  case Alloc_new
  then have a: "fl_memory l a = None" "r = Inr (l\<lparr>fl_memory := (fl_memory l)(a \<mapsto> None)\<rparr>, Idle, {a}, [Allocated i a])"
    using assms(5) by (auto split: if_splits)
  have "a \<notin> bl j" for j using domIff [of a "fl_memory l"] a(1) list_invD(7) [OF inv(1)] by (auto simp: own_def)
  moreover have "list_inv k ns (t_ptr (pool l)) ((fl_memory l)(a \<mapsto> None)) (pcs(i := Idle)) (bl(i := bl i \<union> {a}))"
    by (rule inv_new [OF inv(1) a(1)]) (simp add: Alloc_new)
  ultimately show ?thesis using a(2) inv(2) unfolding good_step_def by (auto intro!: exI [of _ k])
next
  case (Alloc_next n t)
  then obtain q where q: "fl_memory l n = Some q" using list_invD(3) [OF inv(1), of i] by auto
  have "local_ok k (t_ptr (pool l)) (fl_memory l) (Alloc_cas n t q)"
    using list_invD(3) [OF inv(1), of i] Alloc_next q by auto
  then show ?thesis using assms(5) Alloc_next q by (intro moved [OF inv(1,2), of r "Alloc_cas n t q" "[]" i]) simp_all
next
  case (Alloc_cas n t q)
  show ?thesis
  proof (cases "tagged_cas (pool l) (tagged_set (Some n) t) q")
    case None
    then show ?thesis using assms(5) Alloc_cas by (intro moved [OF inv(1,2), of r Alloc_ptr "[]" i]) simp_all
  next
    case (Some x)
    then have x: "pool l = tagged_set (Some n) t" "x = tagged_set q (t + 1)" by (simp_all add: tagged_cas_Some)
    then have t: "t_ptr (pool l) = Some n" "t = of_nat k" using inv(2) by simp_all
    have r: "r = Inr (l\<lparr>pool := x\<rparr>, Idle, {n}, [Allocated i n])"
      using assms(4,5) Alloc_cas Some by (auto simp: unbounded_def split: list_kind.splits)
    obtain ns' where ns': "ns = n # ns'" "list_inv (Suc k) ns' q (fl_memory l) (pcs(i := Idle)) (bl(i := bl i \<union> {n}))"
      using inv_take [of k ns n "fl_memory l" pcs bl i q] inv(1,3) Alloc_cas t by auto
    have "n \<notin> bl j" for j using list_invD(6) [OF inv(1), of j] ns'(1) by (auto simp: own_def)
    then show ?thesis using r ns'(2) x(2) t(2) unfolding good_step_def by (auto intro!: exI [of _ "Suc k"] simp: add.commute)
  qed
next
  case Alloc_count
  then show ?thesis using list_invD(3) [OF inv(1), of i] by simp
qed (use assms(5) in simp_all)

lemma deallocate_ok:
  fixes l :: "'w::len word free_list"
  assumes inv: "list_inv k ns (t_ptr (pool l)) (fl_memory l) pcs bl" "t_tag (pool l) = of_nat k"
    and "unbounded kind" "deallocate_step kind (pcs i) l = Some r"
  shows "\<exists>l' pc got es. r = Inr (l', pc, got, es) \<and> good_step k l' pcs bl i pc got es"
proof (cases "pcs i")
  case (Dealloc_size n)
  then show ?thesis using list_invD(3) [OF inv(1), of i] by simp
next
  case (Dealloc_ptr n)
  then show ?thesis using assms(4) by (intro moved [OF inv, of r "Dealloc_tag n (t_ptr (pool l))" "[]" i]) simp_all
next
  case (Dealloc_tag n p)
  then show ?thesis using assms(4) by (intro moved [OF inv, of r "Dealloc_link n p (t_tag (pool l))" "[]" i]) simp_all
next
  case (Dealloc_link n p t)
  have own: "n \<in> own pcs bl i" using Dealloc_link by (simp add: own_def)
  obtain q where q: "fl_memory l n = Some q" using list_invD(7) [OF inv(1)] own by blast
  then have r: "r = Inr (l\<lparr>fl_memory := (fl_memory l)(n \<mapsto> p)\<rparr>, Dealloc_cas n p t, {}, [])"
    using assms(4) Dealloc_link by simp
  have "list_inv k ns (t_ptr (pool l)) ((fl_memory l)(n \<mapsto> p)) pcs bl"
    by (rule inv_write [OF inv(1) own]) (use Dealloc_link in simp)
  then show ?thesis
    using good_move [of k ns "l\<lparr>fl_memory := (fl_memory l)(n \<mapsto> p)\<rparr>" pcs bl "Dealloc_cas n p t" i] inv(2) Dealloc_link r by simp
next
  case (Dealloc_cas n p t)
  show ?thesis
  proof (cases "tagged_cas (pool l) (tagged_set p t) (Some n)")
    case None
    then show ?thesis using assms(4) Dealloc_cas by (intro moved [OF inv, of r "Dealloc_ptr n" "[]" i]) simp_all
  next
    case (Some x)
    then have x: "pool l = tagged_set p t" "x = tagged_set (Some n) (t + 1)" by (simp_all add: tagged_cas_Some)
    have r: "r = Inr (l\<lparr>pool := x\<rparr>, Idle, {}, [])"
      using assms(3,4) Dealloc_cas Some by (auto simp: unbounded_def split: list_kind.splits)
    have "list_inv (Suc k) (n # ns) (Some n) (fl_memory l) (pcs(i := Idle)) bl"
      using inv_put [of k ns p "fl_memory l" pcs bl i n t] inv(1) x(1) Dealloc_cas by simp
    then show ?thesis using r x inv(2) unfolding good_step_def
      by (auto intro!: exI [of _ "Suc k"] exI [of _ "n # ns"] simp: add.commute)
  qed
next
  case Dealloc_count
  then show ?thesis using list_invD(3) [OF inv(1), of i] by simp
qed (use assms(4) in simp_all)

lemma list_step_ok:
  fixes s :: "'w::len word list_state"
  assumes "unbounded kind" "list_rel (Suc n) s H" "list_step kind act s = Some r"
  shows "\<exists>s' es H'. r = Inr (s', es) \<and> run_spec alloc_spec es H = Some H' \<and> list_rel n s' H'"
proof -
  obtain k ns where H: "H = (\<Union>i. ls_blocks s i)" and k: "k + Suc n < 2 ^ LENGTH('w)" "t_tag (pool (ls_list s)) = of_nat k"
    and inv: "list_inv k ns (t_ptr (pool (ls_list s))) (fl_memory (ls_list s)) (ls_pc s) (ls_blocks s)"
    using assms(2) unfolding list_rel_def by blast
  have quiet: "list_rel n s' H'" if "H' = (\<Union>i. ls_blocks s' i)" "t_tag (pool (ls_list s')) = of_nat k"
     "list_inv k ns (t_ptr (pool (ls_list s'))) (fl_memory (ls_list s')) (ls_pc s') (ls_blocks s')" for s' :: "'w word list_state" and H'
    using that k(1) unfolding list_rel_def by (auto intro!: exI [of _ k])
  show ?thesis
  proof (cases act)
    case (Allocate i)
    then have r: "ls_pc s i = Idle" "r = Inr (s\<lparr>ls_pc := (ls_pc s)(i := Alloc_ptr)\<rparr>, [])"
      using assms(3) by (auto split: if_splits)
    have "list_rel n (s\<lparr>ls_pc := (ls_pc s)(i := Alloc_ptr)\<rparr>) H"
      by (rule quiet) (use H k(2) inv_move [OF inv, of Alloc_ptr i] r(1) in simp_all)
    with r(2) show ?thesis by simp
  next
    case (Deallocate i m)
    then have r: "ls_pc s i = Idle" "m \<in> ls_blocks s i" "r = Inr (s\<lparr>ls_pc := (ls_pc s)(i := Dealloc_ptr m),
        ls_blocks := (ls_blocks s)(i := ls_blocks s i - {m})\<rparr>, [Released i m])"
      using assms(1,3) by (auto simp: deallocate_start_def unbounded_def split: if_splits list_kind.splits)
    have m: "m \<notin> ls_blocks s j" if "j \<noteq> i" for j
      using list_invD(5) [OF inv, of i j] that r(2) by (auto simp: own_def)
    have "list_rel n (s\<lparr>ls_pc := (ls_pc s)(i := Dealloc_ptr m), ls_blocks := (ls_blocks s)(i := ls_blocks s i - {m})\<rparr>) (H - {m})"
      by (rule quiet) (use H k(2) inv_release [OF inv r(1,2)] m Union_upd(2) [of i m "ls_blocks s"] in simp_all)
    moreover have "m \<in> H" using H r(2) by blast
    ultimately show ?thesis using r(3) by simp
  next
    case (Advance i a)
    let ?out = "if in_allocate (ls_pc s i) then allocate_step kind i a (ls_pc s i) (ls_list s) else deallocate_step kind (ls_pc s i) (ls_list s)"
    obtain r' where r': "?out = Some r'" using assms(3) Advance by (cases ?out) (auto simp: list_result_def)
    have "\<exists>l' pc got es. r' = Inr (l', pc, got, es) \<and> good_step k l' (ls_pc s) (ls_blocks s) i pc got es"
    proof (cases "in_allocate (ls_pc s i)")
      case True
      then show ?thesis using r' allocate_ok [OF inv k(2) _ assms(1)] k(1) by auto
    next
      case False
      then show ?thesis using r' deallocate_ok [OF inv k(2) assms(1)] by auto
    qed
    then obtain l' pc got es where g: "r' = Inr (l', pc, got, es)" "good_step k l' (ls_pc s) (ls_blocks s) i pc got es" by blast
    define s' where "s' = s\<lparr>ls_list := l', ls_pc := (ls_pc s)(i := pc), ls_blocks := (ls_blocks s)(i := ls_blocks s i \<union> got)\<rparr>"
    have r: "r = Inr (s', es)" using assms(3) r' g(1) Advance by (simp add: list_result_def s'_def)
    obtain k' ns' where k': "k' \<le> Suc k" "t_tag (pool l') = of_nat k'"
        "list_inv k' ns' (t_ptr (pool l')) (fl_memory l') ((ls_pc s)(i := pc)) ((ls_blocks s)(i := ls_blocks s i \<union> got))"
      using g(2) unfolding good_step_def by blast
    have U: "(\<Union>j. ls_blocks s' j) = H \<union> got" using Union_upd(1) [of "ls_blocks s" i "ls_blocks s i \<union> got"] H by (auto simp: s'_def)
    have "list_rel n s' (H \<union> got)" unfolding list_rel_def U using k' k(1) by (auto simp: s'_def intro!: exI [of _ k'])
    moreover have "run_spec alloc_spec es H = Some (H \<union> got)"
      using g(2) H unfolding good_step_def by auto
    ultimately show ?thesis using r by blast
  next
    case (Scribble i m v)
    then have r: "m \<in> ls_blocks s i" "r = Inr (s\<lparr>ls_list := (ls_list s)\<lparr>fl_memory := (fl_memory (ls_list s))(m \<mapsto> v)\<rparr>\<rparr>, [])"
      using assms(3) by (auto split: if_splits)
    have "m \<in> own (ls_pc s) (ls_blocks s) i" "m \<notin> pending (ls_pc s i)"
      using r(1) list_invD(4) [OF inv, of i] by (auto simp: own_def)
    then have "list_inv k ns (t_ptr (pool (ls_list s))) ((fl_memory (ls_list s))(m \<mapsto> v)) (ls_pc s) (ls_blocks s)"
      using inv_write [OF inv, of m i v] by blast
    then have "list_rel n (s\<lparr>ls_list := (ls_list s)\<lparr>fl_memory := (fl_memory (ls_list s))(m \<mapsto> v)\<rparr>\<rparr>) H"
      by (intro quiet) (use H k(2) in simp_all)
    with r(2) show ?thesis by simp
  next
    case (Give i j m)
    then have r: "m \<in> ls_blocks s i" "i \<noteq> j"
        "r = Inr (s\<lparr>ls_blocks := (ls_blocks s)(i := ls_blocks s i - {m}, j := ls_blocks s j \<union> {m})\<rparr>, [])"
      using assms(3) by (auto split: if_splits)
    have "(\<Union>h. ((ls_blocks s)(i := ls_blocks s i - {m}, j := ls_blocks s j \<union> {m})) h) = H"
      using H r(1,2) by (auto simp: fun_upd_def split: if_splits)
    then have "list_rel n (s\<lparr>ls_blocks := (ls_blocks s)(i := ls_blocks s i - {m}, j := ls_blocks s j \<union> {m})\<rparr>) H"
      by (intro quiet) (use k(2) inv_give [OF inv r(1,2)] in simp_all)
    with r(3) show ?thesis by simp
  qed
qed

lemma list_rel_fewer: "list_rel (Suc n) s H \<Longrightarrow> list_rel n s H"
  unfolding list_rel_def add_Suc_right using Suc_lessD by blast

text \<open>The list implements the allocator for as many steps as the tag can count.\<close>

interpretation free_nodes: counted_linearizable "list_step kind" "\<lambda>_. True" alloc_spec "\<lambda>n s H. unbounded kind \<and> list_rel n s H" for kind
proof
  fix n s q act r
  assume "unbounded kind \<and> list_rel (Suc n) s q" "list_step kind act s = Some r"
  then show "\<exists>s' es q'. r = Inr (s', es) \<and> run_spec alloc_spec es q = Some q' \<and> (unbounded kind \<and> list_rel n s' q')"
    using list_step_ok by blast
next
  fix n s q
  assume "unbounded kind \<and> list_rel (Suc n) s q"
  then show "unbounded kind \<and> list_rel n s q" using list_rel_fewer by blast
qed

section \<open>The beginning\<close>

lemma give_nodes_ok:
  assumes "chain (fl_memory l) (t_ptr (pool l)) ms" "distinct (nodes @ ms)" "dom (fl_memory l) = set ms" "t_tag (pool l) = of_nat k"
  shows "chain (fl_memory (give_nodes nodes l)) (t_ptr (pool (give_nodes nodes l))) (rev nodes @ ms) \<and>
     dom (fl_memory (give_nodes nodes l)) = set nodes \<union> set ms \<and> t_tag (pool (give_nodes nodes l)) = of_nat (k + length nodes)"
  using assms
proof (induction nodes arbitrary: l ms k)
  case (Cons n ns)
  let ?l = "l\<lparr>fl_memory := (fl_memory l)(n \<mapsto> t_ptr (pool l)), pool := tagged_set (Some n) (t_tag (pool l) + 1)\<rparr>"
  have "chain (fl_memory ?l) (t_ptr (pool l)) ms"
    using Cons.prems(1,2) chain_cong [of ms "fl_memory l" "fl_memory ?l" "t_ptr (pool l)"] by auto
  then have "chain (fl_memory ?l) (t_ptr (pool ?l)) (n # ms)" by simp
  moreover have "distinct (ns @ n # ms)" "dom (fl_memory ?l) = set (n # ms)" "t_tag (pool ?l) = of_nat (Suc k)"
    using Cons.prems by (auto simp: add.commute)
  note IH = Cons.IH [of ?l "n # ms" "Suc k", OF calculation(1) this]
  have g: "give_nodes (n # ns) l = give_nodes ns ?l" by simp
  from IH show ?case unfolding g by simp
qed simp

lemma list_start_rel:
  fixes nodes :: "nat list"
  assumes "distinct nodes" "length nodes + n < 2 ^ LENGTH('w::len)"
  shows "list_rel n (list_start nodes :: 'w word list_state) {}"
proof -
  let ?l = "free_list_init nodes :: 'w word free_list"
  have "chain (fl_memory ?l) (t_ptr (pool ?l)) (rev nodes) \<and> dom (fl_memory ?l) = set nodes \<and> t_tag (pool ?l) = of_nat (length nodes)"
    using give_nodes_ok [of "\<lparr>pool = tagged_set None 0, fl_memory = (\<lambda>_. None), free_list_size = 0\<rparr> :: 'w word free_list" "[]" nodes 0] assms(1)
    by (simp add: free_list_init_def)
  then have "list_inv (length nodes) (rev nodes) (t_ptr (pool ?l)) (fl_memory ?l) (\<lambda>_. Idle) (\<lambda>_. {})"
    using assms(1) by (simp add: list_inv_def own_def)
  with \<open>_ \<and> _ \<and> _\<close> show ?thesis using assms(2) unfolding list_rel_def list_start_def by auto
qed

section \<open>Properties\<close>

text \<open>C23: The free list is a correct allocator for threads that share it. Under every schedule of any number of threads, which may
  write into their blocks and hand them on, as long as the tag does not come round, no operation touches memory the process
  does not have, a block is given out only while nobody has it, no two threads have the same block, and when no
  operation is under way every block the process has is either in somebody's hands or on the list, once.\<close>

theorem free_list_exclusive:
  assumes "kind = Caching \<or> kind = Static" "distinct nodes" "length nodes + length acts < 2 ^ LENGTH('w::len)"
  shows "\<exists>s es. run_schedule (list_step kind) acts (list_start nodes :: 'w word list_state) = Inr (s, es) \<and>
     run_spec alloc_spec es {} = Some (\<Union>i. ls_blocks s i) \<and> (\<forall>i j. i \<noteq> j \<longrightarrow> ls_blocks s i \<inter> ls_blocks s j = {}) \<and>
     ((\<forall>i. ls_pc s i = Idle) \<longrightarrow>
        (\<exists>ns. chain (fl_memory (ls_list s)) (t_ptr (pool (ls_list s))) ns \<and> distinct ns \<and>
           set ns = dom (fl_memory (ls_list s)) - (\<Union>i. ls_blocks s i)))"
proof -
  have "unbounded kind" using assms(1) by (auto simp: unbounded_def)
  then obtain s es H where s: "run_schedule (list_step kind) acts (list_start nodes :: 'w word list_state) = Inr (s, es)"
      "run_spec alloc_spec es {} = Some H" "list_rel 0 s H"
    using free_nodes.counted_runs [of kind acts "list_start nodes" "{}"] list_start_rel [OF assms(2,3)] by (auto simp: list_all_iff)
  then obtain k ns where H: "H = (\<Union>i. ls_blocks s i)"
    and inv: "list_inv k ns (t_ptr (pool (ls_list s))) (fl_memory (ls_list s)) (ls_pc s) (ls_blocks s)"
    unfolding list_rel_def by blast
  have "ls_blocks s i \<inter> ls_blocks s j = {}" if "i \<noteq> j" for i j
    using list_invD(5) [OF inv that] by (auto simp: own_def)
  moreover have "\<exists>ns. chain (fl_memory (ls_list s)) (t_ptr (pool (ls_list s))) ns \<and> distinct ns \<and>
      set ns = dom (fl_memory (ls_list s)) - (\<Union>i. ls_blocks s i)" if "\<forall>i. ls_pc s i = Idle"
  proof -
    have "own (ls_pc s) (ls_blocks s) i = ls_blocks s i" for i using that by (simp add: own_def)
    then have "set ns = dom (fl_memory (ls_list s)) - (\<Union>i. ls_blocks s i)"
      using list_invD(6) [OF inv] unfolding list_invD(7) [OF inv] by auto
    then show ?thesis using list_invD(1,2) [OF inv] by blast
  qed
  ultimately show ?thesis using s H by blast
qed

lemma free_list_exclusive_witness:
  "\<exists>s es. run_schedule (list_step Caching) [Allocate 0, Allocate 1, Advance 0 7, Advance 1 8, Advance 1 8, Advance 0 7, Advance 1 8,
       Advance 0 7, Advance 0 7, Advance 1 8] (list_start [5, 6] :: 16 word list_state) = Inr (s, es) \<and>
     run_spec alloc_spec es {} = Some (\<Union>i. ls_blocks s i)"
  using free_list_exclusive [of Caching "[5, 6]" "[Allocate 0, Allocate 1, Advance 0 7, Advance 1 8, Advance 1 8, Advance 0 7, Advance 1 8,
       Advance 0 7, Advance 0 7, Advance 1 8]", where 'w = 16] by auto

text \<open>The destructor gives exactly the nodes of the list back to the system.\<close>

lemma free_memory_pool_frees:
  assumes "chain mem p ns" "distinct ns"
  shows "free_memory_pool p mem = Some (Inr (mem |` (- set ns)))"
  using assms
proof (induction ns arbitrary: p mem)
  case Nil
  then show ?case by (simp add: free_memory_pool.simps)
next
  case (Cons n ns)
  then obtain q where q: "p = Some n" "mem n = Some q" "chain mem q ns" by auto
  have "chain (mem(n := None)) q ns" using q(3) Cons.prems(2) chain_cong [of ns mem "mem(n := None)" q] by auto
  from Cons.IH [OF this] have "free_memory_pool q (mem(n := None)) = Some (Inr ((mem(n := None)) |` (- set ns)))"
    using Cons.prems(2) by (metis distinct.simps(2))
  moreover have "(mem(n := None)) |` (- set ns) = mem |` (- set (n # ns))" by (auto simp: restrict_map_def fun_eq_iff)
  ultimately show ?case using q by (subst free_memory_pool.simps) simp
qed

section \<open>Where the lists fail\<close>

text \<open>The list with a bound on its size counts down when a node is put on it as well: after the first it takes itself for
  full and returns nodes to the system, while another thread may be about to read one of them.\<close>

lemma bounded_list_reads_freed_memory:
  "run_schedule (list_step (Bounded 64))
     [Allocate 1, Advance 1 5, Advance 1 5, Advance 1 5,
      Deallocate 1 5, Advance 1 0, Advance 1 0, Advance 1 0, Advance 1 0, Advance 1 0, Advance 1 0,
      Allocate 0, Advance 0 0, Advance 0 0,
      Allocate 1, Advance 1 0, Advance 1 0, Advance 1 0, Advance 1 0, Advance 1 0, Deallocate 1 5, Advance 1 0,
      Advance 0 0] (list_start [] :: 64 word list_state) = Inl Dangling_pointer"
  by (simp add: list_start_def free_list_init_def list_result_def in_allocate_def tagged_cas_def tagged_set_def
      deallocate_start_def)

text \<open>A thread that sleeps while the tag comes round takes an old value for the new one, here with a tag of two bits and four
  changes: a block is given out that another thread has.\<close>

lemma tag_comes_round:
  "\<exists>s es. run_schedule (list_step Caching)
     ([Allocate 0, Advance 0 0, Advance 0 0, Advance 0 0] @
      concat (replicate 3 [Allocate 1, Advance 1 0, Advance 1 0, Advance 1 0, Advance 1 0]) @
      [Deallocate 1 5, Advance 1 0, Advance 1 0, Advance 1 0, Advance 1 0, Advance 0 0,
       Allocate 0, Advance 0 0, Advance 0 0, Advance 0 0, Advance 0 0]) (list_start [7, 6, 5] :: 2 word list_state) = Inr (s, es) \<and>
     6 \<in> ls_blocks s 0 \<and> 6 \<in> ls_blocks s 1 \<and> run_spec alloc_spec es {} = None"
  by (simp add: list_start_def free_list_init_def list_result_def in_allocate_def tagged_cas_def tagged_set_def
      deallocate_start_def numeral_3_eq_3)

section \<open>PionPoolAllocator\<close>

text \<open>The allocator has a pool for each multiple of \<open>MinSize\<close> up to \<open>MaxSize\<close>, each with a free list of its own; larger
  blocks are the system's.  \<open>getPool\<close> has assertions.\<close>

definition NumberOfAllocs :: "nat \<Rightarrow> nat \<Rightarrow> nat" where
  "NumberOfAllocs MinSize MaxSize = (MaxSize - 1) div MinSize + 1"

definition FixedSizeAlloc :: "nat \<Rightarrow> nat \<Rightarrow> nat" where
  "FixedSizeAlloc MinSize n = (n + 1) * MinSize"

definition getPool :: "nat \<Rightarrow> nat \<Rightarrow> nat \<Rightarrow> fault + nat" where
  "getPool MinSize MaxSize n = (if n > 0 \<and> n \<le> MaxSize then Inr ((n - 1) div MinSize) else Inl Assertion_failed)"

datatype block_source = System nat | Pool nat

definition pool_malloc :: "nat \<Rightarrow> nat \<Rightarrow> nat \<Rightarrow> fault + block_source" where
  "pool_malloc MinSize MaxSize n =
     (if n > MaxSize then Inr (System n) else bindE (getPool MinSize MaxSize n) (\<lambda>p. Inr (Pool p)))"

definition pool_free :: "nat \<Rightarrow> nat \<Rightarrow> nat \<Rightarrow> fault + block_source" where
  "pool_free MinSize MaxSize n =
     (if n > MaxSize then Inr (System n) else bindE (getPool MinSize MaxSize n) (\<lambda>p. Inr (Pool p)))"

text \<open>A block is large enough and wastes less than \<open>MinSize\<close> bytes, and it goes back to where it came from.\<close>

lemma pool_block_fits:
  assumes "0 < MinSize" "MinSize \<le> MaxSize" "MaxSize mod MinSize = 0" "0 < n"
  shows "\<exists>src. pool_malloc MinSize MaxSize n = Inr src \<and> pool_free MinSize MaxSize n = Inr src \<and>
     (case src of
        System m \<Rightarrow> m = n
      | Pool p \<Rightarrow> p < NumberOfAllocs MinSize MaxSize \<and> n \<le> FixedSizeAlloc MinSize p \<and>
          FixedSizeAlloc MinSize p < n + MinSize \<and> FixedSizeAlloc MinSize p \<le> MaxSize)"
proof (cases "n > MaxSize")
  case True
  then show ?thesis by (simp add: pool_malloc_def pool_free_def)
next
  case False
  define p where "p = (n - 1) div MinSize"
  have n: "n - 1 = p * MinSize + (n - 1) mod MinSize" "(n - 1) mod MinSize < MinSize" using assms(1) by (simp_all add: p_def)
  have p: "p \<le> (MaxSize - 1) div MinSize" using False by (simp add: p_def div_le_mono)
  have size: "FixedSizeAlloc MinSize p = p * MinSize + MinSize" by (simp add: FixedSizeAlloc_def)
  obtain d where d: "MaxSize = d * MinSize" using assms(3) by (metis mod_0_imp_dvd dvd_def mult.commute)
  have "(p + 1) * MinSize \<le> MaxSize"
  proof -
    have "p * MinSize < MaxSize" using n(1) False assms(4) by linarith
    then have "p < d" by (simp add: d)
    then have "(p + 1) * MinSize \<le> d * MinSize" by (intro mult_right_mono) auto
    then show ?thesis by (simp add: d)
  qed
  then have "n \<le> FixedSizeAlloc MinSize p" "FixedSizeAlloc MinSize p < n + MinSize" "FixedSizeAlloc MinSize p \<le> MaxSize"
    using n assms(4) unfolding size by auto
  moreover have "p < NumberOfAllocs MinSize MaxSize" using p by (simp add: NumberOfAllocs_def)
  ultimately show ?thesis using False assms(4) by (simp add: pool_malloc_def pool_free_def getPool_def p_def)
qed

end
