(* ===== verification/Lock_Free_Queue.thy ===== *)
theory Lock_Free_Queue
  imports Lock_Free_List
begin

text \<open>
  \<open>PionLockFreeQueue.hpp\<close>, the queue of Michael and Scott on tagged pointers.  Every access to shared memory is one step; tagged pointers
  are read in one, and an operation of the list of free nodes is one step (\<open>Lock_Free_List\<close> has its steps).  A node
  that has been destroyed stays in memory, on that list, whose link is where the node has its pointer
  \<open>next\<close>; its tag stays until the node is created again.  What the memory for a new node holds, and the tags the head and the
  tail begin with, are arbitrary: the constructor does not set them.
\<close>

section \<open>The data\<close>

record ('a, 't) QueueNode_lf =
  qn_next :: "'t tagged_ptr"
  qn_data :: 'a

record ('a, 't) PionLockFreeQueue =
  fq_nodes :: "nat \<Rightarrow> ('a, 't) QueueNode_lf option"
  fq_free :: "nat list"
  fq_head :: "'t tagged_ptr"
  fq_tail :: "'t tagged_ptr"
  fq_size :: "64 word"

datatype 'a lfq_op = Push 'a | Pop | Size | Empty

datatype 'a lfq_result = Unit | Item 'a | Nothing | Number nat | Flag bool

datatype 'a lfq_event = Call nat "'a lfq_op" | Enq nat 'a | Deq nat 'a | Saw_empty nat | Told nat "'a lfq_result" | Ret nat "'a lfq_result"

datatype ('a, 't) lfq_pc =
    Ready
  | Push_create 'a | Push_data 'a nat | Push_tail 'a nat | Push_next 'a nat "'t tagged_ptr"
  | Push_check 'a nat "'t tagged_ptr" "'t tagged_ptr" | Push_link 'a nat "'t tagged_ptr" "'t tagged_ptr"
  | Push_help 'a nat "'t tagged_ptr" nat | Push_swing 'a nat "'t tagged_ptr" | Push_count 'a
  | Pop_head | Pop_tail "'t tagged_ptr" | Pop_next "'t tagged_ptr" "'t tagged_ptr"
  | Pop_check "'t tagged_ptr" "'t tagged_ptr" "nat option" | Pop_help "'t tagged_ptr" nat
  | Pop_copy "'t tagged_ptr" nat | Pop_cas "'t tagged_ptr" nat 'a | Pop_free nat 'a | Pop_count 'a
  | Size_read | Empty_head | Empty_tail "nat option"

type_synonym ('a, 'w) lfq_outcome =
  "(fault + ('a, 'w word) PionLockFreeQueue \<times> ('a, 'w word) lfq_pc \<times> 'a lfq_event list) option"

definition follow ::
  "nat option \<Rightarrow> ('a, 'w::len word) PionLockFreeQueue \<Rightarrow> (('a, 'w word) QueueNode_lf \<Rightarrow> ('a, 'w) lfq_outcome) \<Rightarrow> ('a, 'w) lfq_outcome" where
  "follow p q k = (case p of
     None \<Rightarrow> Some (Inl Dangling_pointer)
   | Some a \<Rightarrow> (case fq_nodes q a of None \<Rightarrow> Some (Inl Dangling_pointer) | Some n \<Rightarrow> k n))"

definition put_node :: "nat \<Rightarrow> ('a, 't) QueueNode_lf \<Rightarrow> ('a, 't) PionLockFreeQueue \<Rightarrow> ('a, 't) PionLockFreeQueue" where
  "put_node a n q = q\<lparr>fq_nodes := (fq_nodes q)(a \<mapsto> n)\<rparr>"

section \<open>Nodes\<close>

text \<open>\<open>allocate\<close> takes the first node of the list of free ones, or memory from the system at the address the schedule
  chooses; then the constructor sets \<open>next\<close>, pointer and tag.\<close>

definition createNode_lf :: "nat \<Rightarrow> 'a \<Rightarrow> ('a, 'w::len word) PionLockFreeQueue \<Rightarrow> (nat \<times> ('a, 'w word) PionLockFreeQueue) option" where
  "createNode_lf a junk q = (case fq_free q of
     n # free \<Rightarrow> Some (n, put_node n \<lparr>qn_next = tagged_set None 0, qn_data = junk\<rparr> (q\<lparr>fq_free := free\<rparr>))
   | [] \<Rightarrow> (if fq_nodes q a = None then Some (a, put_node a \<lparr>qn_next = tagged_set None 0, qn_data = junk\<rparr> q) else None))"

text \<open>\<open>deallocate\<close> links the node to the list of free ones through its \<open>next\<close>.\<close>

definition free_head :: "nat list \<Rightarrow> nat option" where
  "free_head ns = (case ns of [] \<Rightarrow> None | n # _ \<Rightarrow> Some n)"

definition destroyNode_lf :: "nat \<Rightarrow> ('a, 't) QueueNode_lf \<Rightarrow> ('a, 't) PionLockFreeQueue \<Rightarrow> ('a, 't) PionLockFreeQueue" where
  "destroyNode_lf a n q = put_node a (n\<lparr>qn_next := tagged_set (free_head (fq_free q)) (t_tag (qn_next n))\<rparr>) (q\<lparr>fq_free := a # fq_free q\<rparr>)"

section \<open>push\<close>

fun push_step_lf :: "nat \<Rightarrow> nat \<Rightarrow> 'a \<Rightarrow> ('a, 'w::len word) lfq_pc \<Rightarrow> ('a, 'w word) PionLockFreeQueue \<Rightarrow> ('a, 'w) lfq_outcome" where
  "push_step_lf i a junk (Push_create x) q = map_option (\<lambda>(p, q'). Inr (q', Push_data x p, [])) (createNode_lf a junk q)"
| "push_step_lf i a junk (Push_data x p) q = follow (Some p) q (\<lambda>n.
     Some (Inr (put_node p (n\<lparr>qn_data := x\<rparr>) q, Push_tail x p, [])))"
| "push_step_lf i a junk (Push_tail x p) q = Some (Inr (q, Push_next x p (fq_tail q), []))"
| "push_step_lf i a junk (Push_next x p tail_ptr) q = follow (t_ptr tail_ptr) q (\<lambda>n.
     Some (Inr (q, Push_check x p tail_ptr (qn_next n), [])))"
| "push_step_lf i a junk (Push_check x p tail_ptr next_ptr) q = Some (Inr (q,
     (if tail_ptr = fq_tail q
      then case t_ptr next_ptr of None \<Rightarrow> Push_link x p tail_ptr next_ptr | Some n \<Rightarrow> Push_help x p tail_ptr n
      else Push_tail x p), []))"
| "push_step_lf i a junk (Push_link x p tail_ptr next_ptr) q = follow (t_ptr tail_ptr) q (\<lambda>n.
     case tagged_cas (qn_next n) next_ptr (Some p) of
       None \<Rightarrow> Some (Inr (q, Push_tail x p, []))
     | Some new_next \<Rightarrow> Some (Inr (put_node (the (t_ptr tail_ptr)) (n\<lparr>qn_next := new_next\<rparr>) q, Push_swing x p tail_ptr, [Enq i x])))"
| "push_step_lf i a junk (Push_help x p tail_ptr n) q =
     (case tagged_cas (fq_tail q) tail_ptr (Some n) of
        None \<Rightarrow> Some (Inr (q, Push_tail x p, []))
      | Some new_tail \<Rightarrow> Some (Inr (q\<lparr>fq_tail := new_tail\<rparr>, Push_tail x p, [])))"
| "push_step_lf i a junk (Push_swing x p tail_ptr) q =
     (case tagged_cas (fq_tail q) tail_ptr (Some p) of
        None \<Rightarrow> Some (Inr (q, Push_count x, []))
      | Some new_tail \<Rightarrow> Some (Inr (q\<lparr>fq_tail := new_tail\<rparr>, Push_count x, [])))"
| "push_step_lf i a junk (Push_count x) q = Some (Inr (q\<lparr>fq_size := fq_size q + 1\<rparr>, Ready, [Ret i Unit]))"
| "push_step_lf i a junk pc q = None"

section \<open>pop\<close>

text \<open>The event marks the moment at which a thread sees that there is no next node, with the head where it was.\<close>

fun pop_step_lf :: "nat \<Rightarrow> ('a, 'w::len word) lfq_pc \<Rightarrow> ('a, 'w word) PionLockFreeQueue \<Rightarrow> ('a, 'w) lfq_outcome" where
  "pop_step_lf i Pop_head q = Some (Inr (q, Pop_tail (fq_head q), []))"
| "pop_step_lf i (Pop_tail head_ptr) q = Some (Inr (q, Pop_next head_ptr (fq_tail q), []))"
| "pop_step_lf i (Pop_next head_ptr tail_ptr) q = follow (t_ptr head_ptr) q (\<lambda>n.
     Some (Inr (q, Pop_check head_ptr tail_ptr (t_ptr (qn_next n)),
       if t_ptr (qn_next n) = None \<and> fq_head q = head_ptr then [Saw_empty i] else [])))"
| "pop_step_lf i (Pop_check head_ptr tail_ptr next_ptr) q =
     (if head_ptr = fq_head q then
        if t_ptr head_ptr = t_ptr tail_ptr then
          (case next_ptr of
             None \<Rightarrow> Some (Inr (q, Ready, [Ret i Nothing]))
           | Some n \<Rightarrow> Some (Inr (q, Pop_help tail_ptr n, [])))
        else
          (case next_ptr of
             None \<Rightarrow> Some (Inl Dangling_pointer)
           | Some n \<Rightarrow> Some (Inr (q, Pop_copy head_ptr n, [])))
      else Some (Inr (q, Pop_head, [])))"
| "pop_step_lf i (Pop_help tail_ptr n) q =
     (case tagged_cas (fq_tail q) tail_ptr (Some n) of
        None \<Rightarrow> Some (Inr (q, Pop_head, []))
      | Some new_tail \<Rightarrow> Some (Inr (q\<lparr>fq_tail := new_tail\<rparr>, Pop_head, [])))"
| "pop_step_lf i (Pop_copy head_ptr n) q = follow (Some n) q (\<lambda>m. Some (Inr (q, Pop_cas head_ptr n (qn_data m), [])))"
| "pop_step_lf i (Pop_cas head_ptr n x) q =
     (case tagged_cas (fq_head q) head_ptr (Some n) of
        None \<Rightarrow> Some (Inr (q, Pop_head, []))
      | Some new_head \<Rightarrow> Some (Inr (q\<lparr>fq_head := new_head\<rparr>, Pop_free (the (t_ptr head_ptr)) x, [Deq i x])))"
| "pop_step_lf i (Pop_free h x) q = follow (Some h) q (\<lambda>n. Some (Inr (destroyNode_lf h n q, Pop_count x, [])))"
| "pop_step_lf i (Pop_count x) q = Some (Inr (q\<lparr>fq_size := fq_size q - 1\<rparr>, Ready, [Ret i (Item x)]))"
| "pop_step_lf i pc q = None"

section \<open>The other operations\<close>

fun ask_step_lf :: "nat \<Rightarrow> ('a, 'w::len word) lfq_pc \<Rightarrow> ('a, 'w word) PionLockFreeQueue \<Rightarrow> ('a, 'w) lfq_outcome" where
  "ask_step_lf i Size_read q = Some (Inr (q, Ready, [Told i (Number (unat (fq_size q))), Ret i (Number (unat (fq_size q)))]))"
| "ask_step_lf i Empty_head q = Some (Inr (q, Empty_tail (t_ptr (fq_head q)), []))"
| "ask_step_lf i (Empty_tail h) q = Some (Inr (q, Ready, [Told i (Flag (h = t_ptr (fq_tail q))), Ret i (Flag (h = t_ptr (fq_tail q)))]))"
| "ask_step_lf i pc q = None"

text \<open>\<open>clear\<close> and the destructor are for one thread alone.  The head takes the successor with its tag; the fuel bounds the loop.\<close>

definition empty_lf :: "('a, 't) PionLockFreeQueue \<Rightarrow> bool" where
  "empty_lf q \<longleftrightarrow> t_ptr (fq_head q) = t_ptr (fq_tail q)"

definition clear_one :: "nat \<Rightarrow> ('a, 't) QueueNode_lf \<Rightarrow> ('a, 't) PionLockFreeQueue \<Rightarrow> ('a, 't) PionLockFreeQueue" where
  "clear_one h n q = (let q' = destroyNode_lf h n (q\<lparr>fq_head := qn_next n\<rparr>) in q'\<lparr>fq_size := fq_size q' - 1\<rparr>)"

definition head_node :: "('a, 't) PionLockFreeQueue \<Rightarrow> (nat \<times> ('a, 't) QueueNode_lf) option" where
  "head_node q = (case t_ptr (fq_head q) of None \<Rightarrow> None | Some h \<Rightarrow> map_option (Pair h) (fq_nodes q h))"

fun clear_lf :: "nat \<Rightarrow> ('a, 't) PionLockFreeQueue \<Rightarrow> (fault + ('a, 't) PionLockFreeQueue) option" where
  "clear_lf 0 q = None"
| "clear_lf (Suc fuel) q =
     (if empty_lf q then Some (Inr q)
      else case head_node q of
        None \<Rightarrow> Some (Inl Dangling_pointer)
      | Some (h, n) \<Rightarrow> clear_lf fuel (clear_one h n q))"

definition destroy_queue_lf :: "nat \<Rightarrow> ('a, 't) PionLockFreeQueue \<Rightarrow> (fault + ('a, 't) PionLockFreeQueue) option" where
  "destroy_queue_lf fuel q = map_option (\<lambda>r. bindE r (\<lambda>q'. case head_node q' of
     None \<Rightarrow> Inl Dangling_pointer
   | Some (h, n) \<Rightarrow> Inr (destroyNode_lf h n q'))) (clear_lf fuel q)"

section \<open>Threads\<close>

record ('a, 't) lfq_state =
  ft_queue :: "('a, 't) PionLockFreeQueue"
  ft_pc :: "nat \<Rightarrow> ('a, 't) lfq_pc"

datatype 'a lfq_action = Invoke nat "'a lfq_op" | Run nat nat 'a

fun begin_lfq :: "'a lfq_op \<Rightarrow> ('a, 't) lfq_pc" where
  "begin_lfq (Push x) = Push_create x"
| "begin_lfq Pop = Pop_head"
| "begin_lfq Size = Size_read"
| "begin_lfq Empty = Empty_head"

datatype lfq_part = Push_part | Pop_part | Ask_part

fun lfq_part_of :: "('a, 't) lfq_pc \<Rightarrow> lfq_part" where
  "lfq_part_of Pop_head = Pop_part" | "lfq_part_of (Pop_tail hp) = Pop_part" | "lfq_part_of (Pop_next hp tp) = Pop_part"
| "lfq_part_of (Pop_check hp tp np) = Pop_part" | "lfq_part_of (Pop_help tp n) = Pop_part" | "lfq_part_of (Pop_copy hp n) = Pop_part"
| "lfq_part_of (Pop_cas hp n x) = Pop_part" | "lfq_part_of (Pop_free h x) = Pop_part" | "lfq_part_of (Pop_count x) = Pop_part"
| "lfq_part_of Ready = Ask_part" | "lfq_part_of Size_read = Ask_part" | "lfq_part_of Empty_head = Ask_part" | "lfq_part_of (Empty_tail h) = Ask_part"
| "lfq_part_of pc = Push_part"

definition lfq_thread_step ::
  "nat \<Rightarrow> nat \<Rightarrow> 'a \<Rightarrow> ('a, 'w::len word) lfq_pc \<Rightarrow> ('a, 'w word) PionLockFreeQueue \<Rightarrow> ('a, 'w) lfq_outcome" where
  "lfq_thread_step i a junk pc q = (case lfq_part_of pc of
     Push_part \<Rightarrow> push_step_lf i a junk pc q
   | Pop_part \<Rightarrow> pop_step_lf i pc q
   | Ask_part \<Rightarrow> ask_step_lf i pc q)"

fun lfq_step ::
  "'a lfq_action \<Rightarrow> ('a, 'w::len word) lfq_state \<Rightarrow> (fault + ('a, 'w word) lfq_state \<times> 'a lfq_event list) option" where
  "lfq_step (Invoke i opn) s =
     (case ft_pc s i of
        Ready \<Rightarrow> Some (Inr (s\<lparr>ft_pc := (ft_pc s)(i := begin_lfq opn)\<rparr>, [Call i opn]))
      | _ \<Rightarrow> None)"
| "lfq_step (Run i a junk) s =
     map_option (map_sum id (\<lambda>(q, pc, es). (\<lparr>ft_queue = q, ft_pc = (ft_pc s)(i := pc)\<rparr>, es)))
       (lfq_thread_step i a junk (ft_pc s i) (ft_queue s))"

text \<open>The constructor.\<close>

definition lfq_init :: "nat \<Rightarrow> 'a \<Rightarrow> 'w::len word \<Rightarrow> 'w word \<Rightarrow> ('a, 'w word) PionLockFreeQueue" where
  "lfq_init a junk head_tag tail_tag =
     \<lparr>fq_nodes = [a \<mapsto> \<lparr>qn_next = tagged_set None 0, qn_data = junk\<rparr>], fq_free = [],
      fq_head = tagged_set (Some a) head_tag, fq_tail = tagged_set (Some a) tail_tag, fq_size = 0\<rparr>"

definition lfq_start :: "nat \<Rightarrow> 'a \<Rightarrow> 'w::len word \<Rightarrow> 'w word \<Rightarrow> ('a, 'w word) lfq_state" where
  "lfq_start a junk head_tag tail_tag = \<lparr>ft_queue = lfq_init a junk head_tag tail_tag, ft_pc = (\<lambda>_. Ready)\<rparr>"

section \<open>The sequential queue\<close>

text \<open>What the class promises: every call takes effect at one moment between its call and its return.  A \<open>pop\<close> that returns
  nothing has seen the queue empty at some moment of the call.\<close>

datatype 'a lfq_call = Outside | Pending "'a lfq_op" | Seen_empty | Done "'a lfq_result"

record 'a lfq_spec_state =
  sp_items :: "'a list"
  sp_calls :: "nat \<Rightarrow> 'a lfq_call"

definition popping :: "'a lfq_call \<Rightarrow> bool" where
  "popping c \<longleftrightarrow> c = Pending Pop \<or> c = Seen_empty"

definition answers :: "'a lfq_call \<Rightarrow> 'a lfq_result \<Rightarrow> bool" where
  "answers c r \<longleftrightarrow> c = Done r \<or> c = Seen_empty \<and> r = Nothing"

definition sp_set :: "nat \<Rightarrow> 'a lfq_call \<Rightarrow> 'a list \<Rightarrow> 'a lfq_spec_state \<Rightarrow> 'a lfq_spec_state option" where
  "sp_set i c xs f = Some \<lparr>sp_items = xs, sp_calls = (sp_calls f)(i := c)\<rparr>"

fun lfq_spec :: "'a lfq_event \<Rightarrow> 'a lfq_spec_state \<Rightarrow> 'a lfq_spec_state option" where
  "lfq_spec (Call i opn) f = (if sp_calls f i = Outside then sp_set i (Pending opn) (sp_items f) f else None)"
| "lfq_spec (Enq i x) f = (if sp_calls f i = Pending (Push x) then sp_set i (Done Unit) (sp_items f @ [x]) f else None)"
| "lfq_spec (Deq i x) f = (case sp_items f of
     [] \<Rightarrow> None
   | y # ys \<Rightarrow> if x = y \<and> popping (sp_calls f i) then sp_set i (Done (Item x)) ys f else None)"
| "lfq_spec (Saw_empty i) f =
     (if popping (sp_calls f i) \<and> sp_items f = [] then sp_set i Seen_empty [] f else None)"
| "lfq_spec (Told i r) f =
     (if sp_calls f i = Pending Size \<or> sp_calls f i = Pending Empty then sp_set i (Done r) (sp_items f) f else None)"
| "lfq_spec (Ret i r) f = (if answers (sp_calls f i) r then sp_set i Outside (sp_items f) f else None)"

definition lfq_spec_init :: "'a lfq_spec_state" where
  "lfq_spec_init = \<lparr>sp_items = [], sp_calls = (\<lambda>_. Outside)\<rparr>"

end
