(* ===== verification/Lock_Free_Queue_Inv.thy ===== *)
theory Lock_Free_Queue_Inv
  imports Lock_Free_Queue
begin

text \<open>
  The invariant of the lock-free queue with one producer, thread 0, under any schedule: the nodes from the head
  form a list, the tail points to its end or one node before it, and what a thread has read of the head or the tail
  is still true as long as the tag it has read is the current one.
\<close>

section \<open>The nodes\<close>

definition next_of :: "('a, 't) PionLockFreeQueue \<Rightarrow> nat option \<Rightarrow> nat option" where
  "next_of q p = (case p of None \<Rightarrow> None | Some a \<Rightarrow> (case fq_nodes q a of None \<Rightarrow> None | Some n \<Rightarrow> t_ptr (qn_next n)))"

definition data_of :: "('a, 't) PionLockFreeQueue \<Rightarrow> nat \<Rightarrow> 'a" where
  "data_of q a = qn_data (the (fq_nodes q a))"

definition known :: "('a, 't) PionLockFreeQueue \<Rightarrow> nat option \<Rightarrow> bool" where
  "known q p \<longleftrightarrow> (case p of None \<Rightarrow> False | Some a \<Rightarrow> fq_nodes q a \<noteq> None)"

fun lf_linked :: "('a, 't) PionLockFreeQueue \<Rightarrow> nat list \<Rightarrow> bool" where
  "lf_linked q [] \<longleftrightarrow> True"
| "lf_linked q [a] \<longleftrightarrow> fq_nodes q a \<noteq> None \<and> next_of q (Some a) = None"
| "lf_linked q (a # b # ns) \<longleftrightarrow> fq_nodes q a \<noteq> None \<and> next_of q (Some a) = Some b \<and> lf_linked q (b # ns)"

section \<open>The threads\<close>

text \<open>A pointer read at one of the first \<open>k\<close> values of a tagged pointer; if it is the last, it is the current one and \<open>P\<close> holds.\<close>

definition moment :: "'w::len word \<Rightarrow> nat \<Rightarrow> 'w word tagged_ptr \<Rightarrow> 'w word tagged_ptr \<Rightarrow> bool \<Rightarrow> bool" where
  "moment base k cur x P \<longleftrightarrow> (\<exists>j\<le>k. t_tag x = base + of_nat j \<and> (j = k \<longrightarrow> x = cur \<and> P))"

definition fresh :: "('a, 't) PionLockFreeQueue \<Rightarrow> nat \<Rightarrow> 'a \<Rightarrow> bool" where
  "fresh q p x \<longleftrightarrow> fq_nodes q p \<noteq> None \<and> next_of q (Some p) = None \<and> data_of q p = x"

definition last_next :: "('a, 't) PionLockFreeQueue \<Rightarrow> nat list \<Rightarrow> 't tagged_ptr \<Rightarrow> bool" where
  "last_next q ns np \<longleftrightarrow> (\<exists>n. fq_nodes q (last ns) = Some n \<and> qn_next n = np)"

fun lfq_local ::
  "'w::len word \<Rightarrow> 'w word \<Rightarrow> nat \<Rightarrow> nat \<Rightarrow> nat list \<Rightarrow> ('a, 'w word) PionLockFreeQueue \<Rightarrow> 'a lfq_call \<Rightarrow> ('a, 'w word) lfq_pc \<Rightarrow> bool"
where
  "lfq_local hb tb kh kt ns q c Ready \<longleftrightarrow> c = Outside"
| "lfq_local hb tb kh kt ns q c (Push_create x) \<longleftrightarrow> c = Pending (Push x)"
| "lfq_local hb tb kh kt ns q c (Push_data x p) \<longleftrightarrow> c = Pending (Push x) \<and> fq_nodes q p \<noteq> None \<and> next_of q (Some p) = None"
| "lfq_local hb tb kh kt ns q c (Push_tail x p) \<longleftrightarrow> c = Pending (Push x) \<and> fresh q p x"
| "lfq_local hb tb kh kt ns q c (Push_next x p tp) \<longleftrightarrow>
     c = Pending (Push x) \<and> fresh q p x \<and> tp = fq_tail q \<and> t_ptr tp = Some (last ns)"
| "lfq_local hb tb kh kt ns q c (Push_check x p tp np) \<longleftrightarrow>
     c = Pending (Push x) \<and> fresh q p x \<and> tp = fq_tail q \<and> t_ptr tp = Some (last ns) \<and> last_next q ns np"
| "lfq_local hb tb kh kt ns q c (Push_link x p tp np) \<longleftrightarrow>
     c = Pending (Push x) \<and> fresh q p x \<and> tp = fq_tail q \<and> t_ptr tp = Some (last ns) \<and> last_next q ns np"
| "lfq_local hb tb kh kt ns q c (Push_help x p tp n) \<longleftrightarrow> False"
| "lfq_local hb tb kh kt ns q c (Push_swing x p tp) \<longleftrightarrow> c = Done Unit \<and> p = last ns"
| "lfq_local hb tb kh kt ns q c (Push_count x) \<longleftrightarrow> c = Done Unit"
| "lfq_local hb tb kh kt ns q c Pop_head \<longleftrightarrow> popping c"
| "lfq_local hb tb kh kt ns q c (Pop_tail hp) \<longleftrightarrow> popping c \<and> known q (t_ptr hp) \<and> moment hb kh (fq_head q) hp True"
| "lfq_local hb tb kh kt ns q c (Pop_next hp tp) \<longleftrightarrow> popping c \<and> known q (t_ptr hp) \<and>
     moment hb kh (fq_head q) hp (t_ptr tp \<noteq> t_ptr hp \<longrightarrow> t_ptr (fq_tail q) \<noteq> t_ptr hp) \<and> moment tb kt (fq_tail q) tp True"
| "lfq_local hb tb kh kt ns q c (Pop_check hp tp np) \<longleftrightarrow> popping c \<and> (np \<noteq> None \<longrightarrow> known q np) \<and>
     moment hb kh (fq_head q) hp ((t_ptr tp \<noteq> t_ptr hp \<longrightarrow> t_ptr (fq_tail q) \<noteq> t_ptr hp) \<and> (np \<noteq> None \<longrightarrow> next_of q (t_ptr hp) = np) \<and>
       (np = None \<longrightarrow> c = Seen_empty \<and> t_ptr tp = t_ptr hp)) \<and>
     moment tb kt (fq_tail q) tp (t_ptr tp = t_ptr hp \<and> np \<noteq> None \<longrightarrow> next_of q (t_ptr tp) = np)"
| "lfq_local hb tb kh kt ns q c (Pop_help tp n) \<longleftrightarrow> popping c \<and> moment tb kt (fq_tail q) tp (next_of q (t_ptr tp) = Some n)"
| "lfq_local hb tb kh kt ns q c (Pop_copy hp n) \<longleftrightarrow> popping c \<and> known q (Some n) \<and>
     moment hb kh (fq_head q) hp (t_ptr (fq_tail q) \<noteq> t_ptr hp \<and> next_of q (t_ptr hp) = Some n)"
| "lfq_local hb tb kh kt ns q c (Pop_cas hp n x) \<longleftrightarrow> popping c \<and>
     moment hb kh (fq_head q) hp (t_ptr (fq_tail q) \<noteq> t_ptr hp \<and> next_of q (t_ptr hp) = Some n \<and> data_of q n = x)"
| "lfq_local hb tb kh kt ns q c (Pop_free h x) \<longleftrightarrow> c = Done (Item x)"
| "lfq_local hb tb kh kt ns q c (Pop_count x) \<longleftrightarrow> c = Done (Item x)"
| "lfq_local hb tb kh kt ns q c Size_read \<longleftrightarrow> c = Pending Size"
| "lfq_local hb tb kh kt ns q c Empty_head \<longleftrightarrow> c = Pending Empty"
| "lfq_local hb tb kh kt ns q c (Empty_tail h) \<longleftrightarrow> c = Pending Empty"

fun owned_nodes :: "('a, 't) lfq_pc \<Rightarrow> nat set" where
  "owned_nodes (Push_data x p) = {p}"
| "owned_nodes (Push_tail x p) = {p}"
| "owned_nodes (Push_next x p tp) = {p}"
| "owned_nodes (Push_check x p tp np) = {p}"
| "owned_nodes (Push_link x p tp np) = {p}"
| "owned_nodes (Push_help x p tp n) = {p}"
| "owned_nodes (Pop_free h x) = {h}"
| "owned_nodes pc = {}"

text \<open>Where the producer relies on the tail it has read.\<close>

fun watching :: "('a, 't) lfq_pc \<Rightarrow> bool" where
  "watching (Push_next x p tp) = True"
| "watching (Push_check x p tp np) = True"
| "watching (Push_link x p tp np) = True"
| "watching pc = False"

definition pushing :: "('a, 't) lfq_pc \<Rightarrow> bool" where
  "pushing pc \<longleftrightarrow> lfq_part_of pc = Push_part"

section \<open>The invariant\<close>

definition tail_ok :: "nat list \<Rightarrow> ('a, 't) PionLockFreeQueue \<Rightarrow> ('a, 't) lfq_pc \<Rightarrow> bool" where
  "tail_ok ns q pc \<longleftrightarrow> t_ptr (fq_tail q) = Some (last ns) \<or>
     (\<exists>x p t ms. pc = Push_swing x p (fq_tail q) \<and> ns = ms @ [t, p] \<and> t_ptr (fq_tail q) = Some t)"

definition closed_links :: "(nat \<Rightarrow> ('a, 't) QueueNode_lf option) \<Rightarrow> bool" where
  "closed_links m \<longleftrightarrow> (\<forall>a n b. m a = Some n \<longrightarrow> t_ptr (qn_next n) = Some b \<longrightarrow> b \<in> dom m)"

definition memory_ok :: "nat list \<Rightarrow> ('a, 't) PionLockFreeQueue \<Rightarrow> (nat \<Rightarrow> ('a, 't) lfq_pc) \<Rightarrow> bool" where
  "memory_ok ns q pcs \<longleftrightarrow> distinct (fq_free q) \<and> set ns \<inter> set (fq_free q) = {} \<and>
     (\<forall>i. owned_nodes (pcs i) \<inter> (set ns \<union> set (fq_free q)) = {}) \<and>
     (\<forall>i j. i \<noteq> j \<longrightarrow> owned_nodes (pcs i) \<inter> owned_nodes (pcs j) = {}) \<and>
     dom (fq_nodes q) = set ns \<union> set (fq_free q) \<union> (\<Union>i. owned_nodes (pcs i)) \<and>
     closed_links (fq_nodes q)"

definition list_ok :: "'w::len word \<Rightarrow> 'w word \<Rightarrow> nat \<Rightarrow> nat \<Rightarrow> nat list \<Rightarrow> ('a, 'w word) PionLockFreeQueue \<Rightarrow> bool" where
  "list_ok hb tb kh kt ns q \<longleftrightarrow> ns \<noteq> [] \<and> distinct ns \<and> lf_linked q ns \<and> t_ptr (fq_head q) = Some (hd ns) \<and>
     t_tag (fq_head q) = hb + of_nat kh \<and> t_tag (fq_tail q) = tb + of_nat kt"

definition lfq_inv ::
  "'w::len word \<Rightarrow> 'w word \<Rightarrow> nat \<Rightarrow> nat \<Rightarrow> nat list \<Rightarrow> ('a, 'w word) PionLockFreeQueue \<Rightarrow> (nat \<Rightarrow> ('a, 'w word) lfq_pc) \<Rightarrow>
   (nat \<Rightarrow> 'a lfq_call) \<Rightarrow> bool" where
  "lfq_inv hb tb kh kt ns q pcs calls \<longleftrightarrow> list_ok hb tb kh kt ns q \<and> tail_ok ns q (pcs 0) \<and> memory_ok ns q pcs \<and>
     (\<forall>i. lfq_local hb tb kh kt ns q (calls i) (pcs i)) \<and> (\<forall>i. pushing (pcs i) \<longrightarrow> i = 0)"

definition lfq_rel :: "'w::len word \<Rightarrow> 'w word \<Rightarrow> nat \<Rightarrow> ('a, 'w word) lfq_state \<Rightarrow> 'a lfq_spec_state \<Rightarrow> bool" where
  "lfq_rel hb tb n s f \<longleftrightarrow> (\<exists>kh kt ns. kh + n < 2 ^ LENGTH('w) \<and> kt + n < 2 ^ LENGTH('w) \<and>
     lfq_inv hb tb kh kt ns (ft_queue s) (ft_pc s) (sp_calls f) \<and> sp_items f = map (data_of (ft_queue s)) (tl ns))"

section \<open>What others rely on\<close>

text \<open>A change of the queue that leaves what the other threads know: the nodes of the list keep their data and their
  successors, and a change of the head or the tail changes its tag.\<close>

definition undisturbed ::
  "nat \<Rightarrow> nat \<Rightarrow> nat list \<Rightarrow> ('a, 't) PionLockFreeQueue \<Rightarrow> nat \<Rightarrow> nat \<Rightarrow> nat list \<Rightarrow> ('a, 't) PionLockFreeQueue \<Rightarrow> ('a, 't) lfq_pc \<Rightarrow> bool" where
  "undisturbed kh kt ns q kh' kt' ns' q' pc \<longleftrightarrow>
     (\<forall>a. fq_nodes q a \<noteq> None \<longrightarrow> fq_nodes q' a \<noteq> None) \<and>
     (kh' = kh \<and> fq_head q' = fq_head q \<or> kh' = Suc kh) \<and>
     (kt' = kt \<and> fq_tail q' = fq_tail q \<or> kt' = Suc kt \<and> \<not> watching pc) \<and>
     (\<forall>a\<in>set ns. next_of q (Some a) \<noteq> None \<longrightarrow> next_of q' (Some a) = next_of q (Some a)) \<and>
     (\<forall>a\<in>set ns. data_of q' a = data_of q a) \<and>
     (\<forall>a\<in>owned_nodes pc. fq_nodes q' a = fq_nodes q a) \<and>
     (pushing pc \<longrightarrow> last ns' = last ns \<and> fq_nodes q' (last ns) = fq_nodes q (last ns)) \<and>
     (kh' = kh \<longrightarrow> t_ptr (fq_tail q) \<noteq> t_ptr (fq_head q) \<longrightarrow> t_ptr (fq_tail q') \<noteq> t_ptr (fq_head q))"

lemma moment_mono:
  assumes "moment base k cur x P" "k' = k \<and> cur' = cur \<or> k' = Suc k" "k' = k \<Longrightarrow> x = cur \<Longrightarrow> P \<Longrightarrow> P'"
  shows "moment base k' cur' x P'"
proof -
  obtain j where j: "j \<le> k" "t_tag x = base + of_nat j" "j = k \<longrightarrow> x = cur \<and> P" using assms(1) by (auto simp: moment_def)
  then show ?thesis using assms(2,3) unfolding moment_def by (intro exI [of _ j]) auto
qed

lemma moment_now: "t_tag cur = base + of_nat k \<Longrightarrow> P \<Longrightarrow> moment base k cur cur P"
  by (auto simp: moment_def)

lemma moment_current:
  fixes cur :: "'w::len word tagged_ptr"
  assumes "moment base k cur cur P" "t_tag cur = base + of_nat k" "k < 2 ^ LENGTH('w)"
  shows P
proof -
  obtain j where j: "j \<le> k" "t_tag cur = base + of_nat j" "j = k \<longrightarrow> P" using assms(1) by (auto simp: moment_def)
  then have "(of_nat j :: 'w word) = of_nat k" using assms(2) by simp
  then show ?thesis using tag_moment j assms(3) by blast
qed

lemma linked_next:
  assumes "lf_linked q ns" "a \<in> set ns"
  shows "fq_nodes q a \<noteq> None" "next_of q (Some a) = Some b \<Longrightarrow> b \<in> set ns" "next_of q (Some a) = None \<Longrightarrow> a = last ns"
  using assms by (induction q ns rule: lf_linked.induct) auto

lemma linked_last: "lf_linked q ns \<Longrightarrow> ns \<noteq> [] \<Longrightarrow> next_of q (Some (last ns)) = None"
  by (induction q ns rule: lf_linked.induct) auto

lemma tail_in_list: "tail_ok ns q pc \<Longrightarrow> ns \<noteq> [] \<Longrightarrow> \<exists>t\<in>set ns. t_ptr (fq_tail q) = Some t"
  by (auto simp: tail_ok_def)

lemma closed_links_put:
  assumes "closed_links m" "\<And>b. t_ptr (qn_next n) = Some b \<Longrightarrow> b = a \<or> b \<in> dom m"
  shows "closed_links (m(a \<mapsto> n))"
  using assms unfolding closed_links_def by (fastforce split: if_splits)

lemma closed_links_next: "closed_links (fq_nodes q) \<Longrightarrow> next_of q p \<noteq> None \<Longrightarrow> known q (next_of q p)"
  by (fastforce simp: closed_links_def next_of_def known_def split: option.splits)

lemma known_mono: "known q p \<Longrightarrow> (\<forall>a. fq_nodes q a \<noteq> None \<longrightarrow> fq_nodes q' a \<noteq> None) \<Longrightarrow> known q' p"
  by (cases p) (auto simp: known_def)

end
