(* ===== verification/Lock_Free_Queue_Steps.thy ===== *)
theory Lock_Free_Queue_Steps
  imports Lock_Free_Queue_Inv
begin

text \<open>
  The kinds of steps of the lock-free queue, each of which keeps the invariant: a step of one thread alone, a
  write to a node off the list, a move of the tail or the head, a node destroyed or created, its data, and the link of a new node to the end.
\<close>

section \<open>What a step leaves to the others\<close>


lemma list_okD:
  assumes "list_ok hb tb kh kt ns q"
  shows "ns \<noteq> []" "distinct ns" "lf_linked q ns" "t_ptr (fq_head q) = Some (hd ns)"
    "t_tag (fq_head q) = hb + of_nat kh" "t_tag (fq_tail q) = tb + of_nat kt"
  using assms by (simp_all add: list_ok_def)

text \<open>What the successor of the head and of the tail is, as far as a thread may know it.\<close>

lemma undisturbed_next:
  assumes "undisturbed kh kt ns q kh' kt' ns' q' pc" "a \<in> set ns" "next_of q (Some a) = Some b"
  shows "next_of q' (Some a) = Some b"
  using assms by (simp add: undisturbed_def)

lemma local_mono:
  assumes loc: "lfq_local hb tb kh kt ns q c pc" and und: "undisturbed kh kt ns q kh' kt' ns' q' pc"
    and ok: "list_ok hb tb kh kt ns q" and tail: "tail_ok ns q pc0"
  shows "lfq_local hb tb kh' kt' ns' q' c pc"
proof -
  note L = list_okD [OF ok]
  obtain t where t: "t \<in> set ns" "t_ptr (fq_tail q) = Some t" using tail_in_list [OF tail L(1)] by blast
  have hd: "hd ns \<in> set ns" using L(1) by simp
  have K: "known q p \<Longrightarrow> known q' p" for p using known_mono und unfolding undisturbed_def by blast
  have H: "kh' = kh \<and> fq_head q' = fq_head q \<or> kh' = Suc kh" using und by (simp add: undisturbed_def)
  have T: "kt' = kt \<and> fq_tail q' = fq_tail q \<or> kt' = Suc kt" using und by (auto simp: undisturbed_def)
  have HT: "kh' = kh \<Longrightarrow> t_ptr (fq_tail q) \<noteq> t_ptr (fq_head q) \<Longrightarrow> t_ptr (fq_tail q') \<noteq> t_ptr (fq_head q)"
    using und by (simp add: undisturbed_def)
  note N = undisturbed_next [OF und]
  have NH: "next_of q (t_ptr (fq_head q)) = Some b \<Longrightarrow> next_of q' (t_ptr (fq_head q)) = Some b" for b using N [OF hd] L(4) by simp
  have NT: "next_of q (t_ptr (fq_tail q)) = Some b \<Longrightarrow> next_of q' (t_ptr (fq_tail q)) = Some b" for b using N [OF t(1)] t(2) by simp
  have D: "next_of q (t_ptr (fq_head q)) = Some b \<Longrightarrow> data_of q' b = data_of q b" for b
    using linked_next(2) [OF L(3) hd, of b] L(4) und by (simp add: undisturbed_def)
  have O: "fq_nodes q' a = fq_nodes q a" if "a \<in> owned_nodes pc" for a using und that by (simp add: undisturbed_def)
  have F: "fresh q p x \<Longrightarrow> fresh q' p x" if "p \<in> owned_nodes pc" for p x
    using O [OF that] by (simp add: fresh_def next_of_def data_of_def)
  have W: "watching pc \<Longrightarrow> fq_tail q' = fq_tail q" using und by (auto simp: undisturbed_def)
  have P: "pushing pc \<Longrightarrow> last ns' = last ns" "pushing pc \<Longrightarrow> fq_nodes q' (last ns) = fq_nodes q (last ns)"
    using und by (simp_all add: undisturbed_def)
  show ?thesis
  proof (cases pc)
    case (Push_data x p)
    then show ?thesis using loc O [of p] by (simp add: next_of_def)
  next
    case (Push_tail x p)
    then show ?thesis using loc F [of p x] by simp
  next
    case (Push_next x p tp)
    then show ?thesis using loc F [of p x] W P(1) by (auto simp: pushing_def)
  next
    case (Push_check x p tp np)
    then show ?thesis using loc F [of p x] W P by (auto simp: pushing_def last_next_def)
  next
    case (Push_link x p tp np)
    then show ?thesis using loc F [of p x] W P by (auto simp: pushing_def last_next_def)
  next
    case (Push_swing x p tp)
    then show ?thesis using loc P(1) by (simp add: pushing_def)
  next
    case (Pop_tail hp)
    then show ?thesis using loc K moment_mono [OF _ H] by auto
  next
    case (Pop_next hp tp)
    have m: "moment hb kh (fq_head q) hp (t_ptr tp \<noteq> t_ptr hp \<longrightarrow> t_ptr (fq_tail q) \<noteq> t_ptr hp)" "moment tb kt (fq_tail q) tp True"
      using loc Pop_next by simp_all
    have "moment hb kh' (fq_head q') hp (t_ptr tp \<noteq> t_ptr hp \<longrightarrow> t_ptr (fq_tail q') \<noteq> t_ptr hp)"
      by (rule moment_mono [OF m(1) H]) (use HT in auto)
    moreover have "moment tb kt' (fq_tail q') tp True" by (rule moment_mono [OF m(2) T])
    ultimately show ?thesis using loc Pop_next K by simp
  next
    case (Pop_check hp tp np)
    have m: "moment hb kh (fq_head q) hp ((t_ptr tp \<noteq> t_ptr hp \<longrightarrow> t_ptr (fq_tail q) \<noteq> t_ptr hp) \<and> (np \<noteq> None \<longrightarrow> next_of q (t_ptr hp) = np) \<and>
       (np = None \<longrightarrow> c = Seen_empty \<and> t_ptr tp = t_ptr hp))"
      "moment tb kt (fq_tail q) tp (t_ptr tp = t_ptr hp \<and> np \<noteq> None \<longrightarrow> next_of q (t_ptr tp) = np)"
      using loc Pop_check by simp_all
    have "moment hb kh' (fq_head q') hp ((t_ptr tp \<noteq> t_ptr hp \<longrightarrow> t_ptr (fq_tail q') \<noteq> t_ptr hp) \<and> (np \<noteq> None \<longrightarrow> next_of q' (t_ptr hp) = np) \<and>
       (np = None \<longrightarrow> c = Seen_empty \<and> t_ptr tp = t_ptr hp))"
      by (rule moment_mono [OF m(1) H]) (use HT NH in auto)
    moreover have "moment tb kt' (fq_tail q') tp (t_ptr tp = t_ptr hp \<and> np \<noteq> None \<longrightarrow> next_of q' (t_ptr tp) = np)"
      by (rule moment_mono [OF m(2) T]) (use NT in auto)
    ultimately show ?thesis using loc Pop_check K by simp
  next
    case (Pop_help tp n)
    have m: "moment tb kt (fq_tail q) tp (next_of q (t_ptr tp) = Some n)" using loc Pop_help by simp
    have "moment tb kt' (fq_tail q') tp (next_of q' (t_ptr tp) = Some n)" by (rule moment_mono [OF m T]) (use NT in auto)
    then show ?thesis using loc Pop_help by simp
  next
    case (Pop_copy hp n)
    have m: "moment hb kh (fq_head q) hp (t_ptr (fq_tail q) \<noteq> t_ptr hp \<and> next_of q (t_ptr hp) = Some n)" using loc Pop_copy by simp
    have "moment hb kh' (fq_head q') hp (t_ptr (fq_tail q') \<noteq> t_ptr hp \<and> next_of q' (t_ptr hp) = Some n)"
      by (rule moment_mono [OF m H]) (use HT NH in auto)
    then show ?thesis using loc Pop_copy K by simp
  next
    case (Pop_cas hp n x)
    have m: "moment hb kh (fq_head q) hp (t_ptr (fq_tail q) \<noteq> t_ptr hp \<and> next_of q (t_ptr hp) = Some n \<and> data_of q n = x)"
      using loc Pop_cas by simp
    have "moment hb kh' (fq_head q') hp (t_ptr (fq_tail q') \<noteq> t_ptr hp \<and> next_of q' (t_ptr hp) = Some n \<and> data_of q' n = x)"
      by (rule moment_mono [OF m H]) (use HT NH D in auto)
    then show ?thesis using loc Pop_cas by simp
  qed (use loc in simp_all)
qed

text \<open>Putting the invariant together again after a step of thread \<open>i\<close>.\<close>

lemma inv_update:
  assumes inv: "lfq_inv hb tb kh kt ns q pcs calls"
    and und: "\<And>j. j \<noteq> i \<Longrightarrow> undisturbed kh kt ns q kh' kt' ns' q' (pcs j)"
    and new: "list_ok hb tb kh' kt' ns' q'" "tail_ok ns' q' ((pcs(i := pc)) 0)" "memory_ok ns' q' (pcs(i := pc))"
      "lfq_local hb tb kh' kt' ns' q' c pc" "pushing pc \<Longrightarrow> i = 0"
  shows "lfq_inv hb tb kh' kt' ns' q' (pcs(i := pc)) (calls(i := c))"
proof -
  have I: "list_ok hb tb kh kt ns q" "tail_ok ns q (pcs 0)" "\<And>j. lfq_local hb tb kh kt ns q (calls j) (pcs j)" "\<And>j. pushing (pcs j) \<Longrightarrow> j = 0"
    using inv by (simp_all add: lfq_inv_def)
  have "lfq_local hb tb kh' kt' ns' q' ((calls(i := c)) j) ((pcs(i := pc)) j)" for j
    using new(4) local_mono [OF I(3) und I(1,2)] by (cases "j = i") simp_all
  moreover have "pushing ((pcs(i := pc)) j) \<Longrightarrow> j = 0" for j using new(5) I(4) by (cases "j = i") simp_all
  ultimately show ?thesis using new(1-3) unfolding lfq_inv_def by blast
qed

section \<open>The kinds of steps\<close>

definition lfq_good ::
  "'w::len word \<Rightarrow> 'w word \<Rightarrow> nat \<Rightarrow> nat \<Rightarrow> (nat \<Rightarrow> ('a, 'w word) lfq_pc) \<Rightarrow> 'a lfq_spec_state \<Rightarrow> nat \<Rightarrow>
   ('a, 'w word) PionLockFreeQueue \<Rightarrow> ('a, 'w word) lfq_pc \<Rightarrow> 'a lfq_event list \<Rightarrow> bool" where
  "lfq_good hb tb kh kt pcs f i q' pc es \<longleftrightarrow> (\<exists>kh' kt' ns' c. kh' \<le> Suc kh \<and> kt' \<le> Suc kt \<and>
     lfq_inv hb tb kh' kt' ns' q' (pcs(i := pc)) ((sp_calls f)(i := c)) \<and>
     run_spec lfq_spec es f = Some \<lparr>sp_items = map (data_of q') (tl ns'), sp_calls = (sp_calls f)(i := c)\<rparr>)"

lemma lfq_invD:
  assumes "lfq_inv hb tb kh kt ns q pcs calls"
  shows "list_ok hb tb kh kt ns q" "tail_ok ns q (pcs 0)" "memory_ok ns q pcs" "lfq_local hb tb kh kt ns q (calls i) (pcs i)"
    "pushing (pcs i) \<Longrightarrow> i = 0"
  using assms by (simp_all add: lfq_inv_def)

text \<open>Only the thread moves, or the counter of items changes.\<close>

lemma inv_quiet:
  assumes inv: "lfq_inv hb tb kh kt ns q pcs calls" and "owned_nodes pc = owned_nodes (pcs i)"
    and "lfq_local hb tb kh kt ns (q\<lparr>fq_size := m\<rparr>) c pc" "pushing pc \<Longrightarrow> i = 0" "i = 0 \<Longrightarrow> tail_ok ns q pc"
  shows "lfq_inv hb tb kh kt ns (q\<lparr>fq_size := m\<rparr>) (pcs(i := pc)) (calls(i := c))"
proof (rule inv_update [OF inv])
  note I = lfq_invD [OF inv]
  have link: "lf_linked (q\<lparr>fq_size := m\<rparr>) xs = lf_linked q xs" for xs
    by (induction q xs rule: lf_linked.induct) (simp_all add: next_of_def)
  show "list_ok hb tb kh kt ns (q\<lparr>fq_size := m\<rparr>)" using I(1) by (simp add: list_ok_def link)
  show "tail_ok ns (q\<lparr>fq_size := m\<rparr>) ((pcs(i := pc)) 0)" using I(2) assms(5) by (simp add: tail_ok_def)
  have own: "owned_nodes ((pcs(i := pc)) j) = owned_nodes (pcs j)" for j using assms(2) by simp
  show "memory_ok ns (q\<lparr>fq_size := m\<rparr>) (pcs(i := pc))" using I(3) unfolding memory_ok_def own by simp
  show "undisturbed kh kt ns q kh kt ns (q\<lparr>fq_size := m\<rparr>) (pcs j)" for j by (simp add: undisturbed_def next_of_def data_of_def)
qed (use assms in simp_all)

lemma good_quiet:
  assumes inv: "lfq_inv hb tb kh kt ns q pcs (sp_calls f)" and "sp_items f = map (data_of q) (tl ns)"
    and "owned_nodes pc = owned_nodes (pcs i)"
    and "lfq_local hb tb kh kt ns (q\<lparr>fq_size := m\<rparr>) c pc" "pushing pc \<Longrightarrow> i = 0" "i = 0 \<Longrightarrow> tail_ok ns q pc"
    and "run_spec lfq_spec es f = Some \<lparr>sp_items = sp_items f, sp_calls = (sp_calls f)(i := c)\<rparr>"
  shows "lfq_good hb tb kh kt pcs f i (q\<lparr>fq_size := m\<rparr>) pc es"
proof -
  have "map (data_of (q\<lparr>fq_size := m\<rparr>)) (tl ns) = sp_items f" using assms(2) by (simp add: data_of_def)
  with inv_quiet [OF inv assms(3-6)] assms(7) show ?thesis unfolding lfq_good_def
    by (intro exI [of _ kh] exI [of _ kt] exI [of _ ns] exI [of _ c]) simp
qed

lemma lfq_good_move:
  assumes inv: "lfq_inv hb tb kh kt ns q pcs (sp_calls f)" and "sp_items f = map (data_of q) (tl ns)"
    and "owned_nodes pc = owned_nodes (pcs i)" "lfq_local hb tb kh kt ns q c pc" "pushing pc \<Longrightarrow> i = 0" "i = 0 \<Longrightarrow> tail_ok ns q pc"
    and "run_spec lfq_spec es f = Some \<lparr>sp_items = sp_items f, sp_calls = (sp_calls f)(i := c)\<rparr>"
  shows "lfq_good hb tb kh kt pcs f i q pc es"
  using good_quiet [OF inv assms(2,3), where m = "fq_size q" and c = c and es = es] assms(4-7) by simp

text \<open>A write to a node that is not on the list.\<close>

lemma lf_linked_cong: "\<forall>a\<in>set ns. fq_nodes q' a = fq_nodes q a \<Longrightarrow> lf_linked q' ns = lf_linked q ns"
  by (induction q ns rule: lf_linked.induct) (simp_all add: next_of_def)

lemma undisturbed_off_list:
  assumes "\<forall>b. b \<noteq> a \<longrightarrow> fq_nodes q' b = fq_nodes q b" "a \<notin> set ns" "ns \<noteq> []" "fq_nodes q' a \<noteq> None"
    and "fq_head q' = fq_head q" "fq_tail q' = fq_tail q" "a \<notin> owned_nodes pc"
  shows "undisturbed kh kt ns q kh kt ns q' pc"
proof -
  have same: "fq_nodes q' b = fq_nodes q b" if "b \<in> set ns \<or> b \<in> owned_nodes pc" for b using assms(1,2,7) that by metis
  moreover have "fq_nodes q' b \<noteq> None" if "fq_nodes q b \<noteq> None" for b using assms(1,4) that by metis
  ultimately show ?thesis using assms(3,5,6) unfolding undisturbed_def by (simp add: next_of_def data_of_def)
qed

lemma inv_off_list:
  assumes inv: "lfq_inv hb tb kh kt ns q pcs calls"
    and "\<forall>b. b \<noteq> a \<longrightarrow> fq_nodes q' b = fq_nodes q b" "a \<notin> set ns" "fq_nodes q' a \<noteq> None"
    and "fq_head q' = fq_head q" "fq_tail q' = fq_tail q" "\<forall>j. j \<noteq> i \<longrightarrow> a \<notin> owned_nodes (pcs j)"
    and "memory_ok ns q' (pcs(i := pc))" "lfq_local hb tb kh kt ns q' c pc" "pushing pc \<Longrightarrow> i = 0" "i = 0 \<Longrightarrow> tail_ok ns q pc"
  shows "lfq_inv hb tb kh kt ns q' (pcs(i := pc)) (calls(i := c))" "map (data_of q') (tl ns) = map (data_of q) (tl ns)"
proof -
  note I = lfq_invD [OF inv]
  note L = list_okD [OF I(1)]
  have same: "\<forall>b\<in>set ns. fq_nodes q' b = fq_nodes q b" using assms(2,3) by metis
  show "lfq_inv hb tb kh kt ns q' (pcs(i := pc)) (calls(i := c))"
  proof (rule inv_update [OF inv])
    show "undisturbed kh kt ns q kh kt ns q' (pcs j)" if "j \<noteq> i" for j
      by (rule undisturbed_off_list [OF assms(2,3) L(1) assms(4-6)]) (use assms(7) that in blast)
    show "list_ok hb tb kh kt ns q'" using L lf_linked_cong [OF same] assms(5,6) by (simp add: list_ok_def)
    show "tail_ok ns q' ((pcs(i := pc)) 0)" using I(2) assms(6,11) by (simp add: tail_ok_def)
  qed (use assms in simp_all)
  show "map (data_of q') (tl ns) = map (data_of q) (tl ns)"
    using same L(1) by (simp add: data_of_def list.set_sel(2))
qed

text \<open>The tail moves to the end of the list.\<close>

lemma inv_tail:
  assumes inv: "lfq_inv hb tb kh kt ns q pcs calls" and "\<And>j. j \<noteq> i \<Longrightarrow> \<not> watching (pcs j)"
    and "q' = q\<lparr>fq_tail := tagged_set (Some (last ns)) (t_tag (fq_tail q) + 1)\<rparr>" "owned_nodes pc = owned_nodes (pcs i)"
    and "lfq_local hb tb kh (Suc kt) ns q' c pc" "pushing pc \<Longrightarrow> i = 0"
  shows "lfq_inv hb tb kh (Suc kt) ns q' (pcs(i := pc)) (calls(i := c))"
proof (rule inv_update [OF inv])
  note I = lfq_invD [OF inv]
  note L = list_okD [OF I(1)]
  have nodes: "fq_nodes q' = fq_nodes q" "fq_head q' = fq_head q" "fq_free q' = fq_free q" "t_ptr (fq_tail q') = Some (last ns)"
    by (simp_all add: assms(3))
  show "list_ok hb tb kh (Suc kt) ns q'" using L lf_linked_cong [of ns q' q] by (simp add: list_ok_def assms(3) add.commute)
  show "tail_ok ns q' ((pcs(i := pc)) 0)" by (simp add: tail_ok_def nodes)
  have own: "owned_nodes ((pcs(i := pc)) j) = owned_nodes (pcs j)" for j using assms(4) by simp
  show "memory_ok ns q' (pcs(i := pc))" using I(3) unfolding memory_ok_def own nodes by simp
  obtain t where t: "t \<in> set ns" "t_ptr (fq_tail q) = Some t" using tail_in_list [OF I(2) L(1)] by blast
  have "t \<noteq> hd ns \<Longrightarrow> last ns \<noteq> hd ns" using t(1) L(1,2) by (cases ns) auto
  then have "t_ptr (fq_tail q) \<noteq> t_ptr (fq_head q) \<Longrightarrow> t_ptr (fq_tail q') \<noteq> t_ptr (fq_head q)" using t(2) L(4) nodes(4) by auto
  then show "undisturbed kh kt ns q kh (Suc kt) ns q' (pcs j)" if "j \<noteq> i" for j
    using assms(2) [OF that] by (simp add: undisturbed_def next_of_def data_of_def nodes)
qed (use assms in simp_all)

text \<open>The head moves on.\<close>

lemma inv_head:
  assumes inv: "lfq_inv hb tb kh kt (h # ns) q pcs calls" and "t_ptr (fq_tail q) \<noteq> Some h"
    and "q' = q\<lparr>fq_head := tagged_set (Some (hd ns)) (t_tag (fq_head q) + 1)\<rparr>" "owned_nodes (pcs i) = {}" "\<not> pushing (pcs i)"
  shows "ns \<noteq> []" "lfq_inv hb tb (Suc kh) kt ns q' (pcs(i := Pop_free h x)) (calls(i := Done (Item x)))"
proof -
  note I = lfq_invD [OF inv]
  note L = list_okD [OF I(1)]
  have ns: "ns \<noteq> []" using tail_in_list [OF I(2) L(1)] assms(2) by auto
  then show "ns \<noteq> []" .
  then obtain b ms where b: "ns = b # ms" by (cases ns) auto
  have nodes: "fq_nodes q' = fq_nodes q" "fq_free q' = fq_free q" "fq_tail q' = fq_tail q" by (simp_all add: assms(3))
  show "lfq_inv hb tb (Suc kh) kt ns q' (pcs(i := Pop_free h x)) (calls(i := Done (Item x)))"
  proof (rule inv_update [OF inv])
    have "lf_linked q' ns" using L(3) lf_linked_cong [of ns q' q] b nodes(1) by simp
    then show "list_ok hb tb (Suc kh) kt ns q'" using L ns by (simp add: list_ok_def assms(3) add.commute)
    have "tail_ok ns q (pcs 0)"
    proof -
      have "t_ptr (fq_tail q) = Some (last (h # ns)) \<or> (\<exists>y p t ms. pcs 0 = Push_swing y p (fq_tail q) \<and> h # ns = ms @ [t, p] \<and> t_ptr (fq_tail q) = Some t)"
        using I(2) by (simp add: tail_ok_def)
      then show ?thesis
      proof
        assume "t_ptr (fq_tail q) = Some (last (h # ns))"
        then show ?thesis using ns by (simp add: tail_ok_def)
      next
        assume "\<exists>y p t ms. pcs 0 = Push_swing y p (fq_tail q) \<and> h # ns = ms @ [t, p] \<and> t_ptr (fq_tail q) = Some t"
        then obtain y p t ms where m: "pcs 0 = Push_swing y p (fq_tail q)" "h # ns = ms @ [t, p]" "t_ptr (fq_tail q) = Some t" by blast
        then have "ms \<noteq> []" using assms(2) by auto
        then have "ns = tl ms @ [t, p]" using m(2) by (cases ms) auto
        then show ?thesis using m(1,3) unfolding tail_ok_def by blast
      qed
    qed
    moreover have "t_ptr (fq_tail q) = Some (last ns)" if "i = 0"
      using I(2) assms(5) that ns by (auto simp: tail_ok_def pushing_def)
    ultimately show "tail_ok ns q' ((pcs(i := Pop_free h x)) 0)" by (auto simp: tail_ok_def nodes(3))
    have o: "h \<notin> owned_nodes (pcs j)" "h \<notin> set (fq_free q)" for j using I(3) by (auto simp: memory_ok_def)
    have d: "owned_nodes ((pcs(i := Pop_free h x)) j) = (if j = i then {h} else owned_nodes (pcs j))" for j by simp
    have "(\<Union>j. if j = i then {h} else owned_nodes (pcs j)) = insert h (\<Union>j. owned_nodes (pcs j))" using assms(4) by (auto split: if_splits)
    then show "memory_ok ns q' (pcs(i := Pop_free h x))"
      using I(3) L(2) o unfolding memory_ok_def d nodes by auto
    show "undisturbed kh kt (h # ns) q (Suc kh) kt ns q' (pcs j)" for j
      using ns by (simp add: undisturbed_def next_of_def data_of_def nodes)
  qed (simp_all add: pushing_def)
qed

text \<open>Whose nodes are whose.\<close>

lemma owned_apart:
  assumes "memory_ok ns q pcs" "a \<in> owned_nodes (pcs i)"
  shows "a \<notin> set ns" "a \<notin> set (fq_free q)" "j \<noteq> i \<Longrightarrow> a \<notin> owned_nodes (pcs j)"
proof -
  have "owned_nodes (pcs i) \<inter> (set ns \<union> set (fq_free q)) = {}" "\<And>j. j \<noteq> i \<Longrightarrow> owned_nodes (pcs j) \<inter> owned_nodes (pcs i) = {}"
    using assms(1) unfolding memory_ok_def by blast+
  then show "a \<notin> set ns" "a \<notin> set (fq_free q)" "j \<noteq> i \<Longrightarrow> a \<notin> owned_nodes (pcs j)" using assms(2) by blast+
qed

lemma Union_if:
  fixes O1 :: "nat \<Rightarrow> nat set"
  shows "O1 i = {} \<Longrightarrow> (\<Union>j. if j = i then X else O1 j) = X \<union> (\<Union>j. O1 j)"
    and "O1 i = {a} \<Longrightarrow> (\<And>j. j \<noteq> i \<Longrightarrow> a \<notin> O1 j) \<Longrightarrow> (\<Union>j. if j = i then {} else O1 j) = (\<Union>j. O1 j) - {a}"
proof -
  have "(\<Union>j. O1 j) = O1 i \<union> (\<Union>j\<in>- {i}. O1 j)" for O1 :: "nat \<Rightarrow> nat set" by auto
  note split = this
  have rest: "(\<Union>j\<in>- {i}. if j = i then X else O1 j) = (\<Union>j\<in>- {i}. O1 j)" for X by (rule SUP_cong) auto
  show "O1 i = {} \<Longrightarrow> (\<Union>j. if j = i then X else O1 j) = X \<union> (\<Union>j. O1 j)"
    using split [of O1] split [of "\<lambda>j. if j = i then X else O1 j"] rest [of X] by simp
  show "O1 i = {a} \<Longrightarrow> (\<And>j. j \<noteq> i \<Longrightarrow> a \<notin> O1 j) \<Longrightarrow> (\<Union>j. if j = i then {} else O1 j) = (\<Union>j. O1 j) - {a}"
    using split [of O1] split [of "\<lambda>j. if j = i then {} else O1 j"] rest [of "{}"] by auto
qed

text \<open>A node goes back to the list of free ones.\<close>

lemma inv_destroy:
  assumes inv: "lfq_inv hb tb kh kt ns q pcs calls" and "pcs i = Pop_free h x" "fq_nodes q h = Some n"
  shows "lfq_inv hb tb kh kt ns (destroyNode_lf h n q) (pcs(i := Pop_count x)) (calls(i := Done (Item x)))"
    "map (data_of (destroyNode_lf h n q)) (tl ns) = map (data_of q) (tl ns)"
proof -
  note I = lfq_invD [OF inv]
  let ?q = "destroyNode_lf h n q"
  have h: "h \<in> owned_nodes (pcs i)" using assms(2) by simp
  then have o: "h \<notin> set ns" "h \<notin> set (fq_free q)" "j \<noteq> i \<Longrightarrow> h \<notin> owned_nodes (pcs j)" for j
    using owned_apart [OF I(3)] by blast+
  have nodes: "fq_head ?q = fq_head q" "fq_tail ?q = fq_tail q" "fq_free ?q = h # fq_free q" "\<forall>b. b \<noteq> h \<longrightarrow> fq_nodes ?q b = fq_nodes q b"
    "fq_nodes ?q h \<noteq> None" by (simp_all add: destroyNode_lf_def put_node_def)
  have own: "owned_nodes ((pcs(i := Pop_count x)) j) = (if j = i then {} else owned_nodes (pcs j))" for j by simp
  have U: "(\<Union>j. if j = i then {} else owned_nodes (pcs j)) = (\<Union>j. owned_nodes (pcs j)) - {h}"
    by (rule Union_if(2)) (use assms(2) o(3) in simp_all)
  have dom: "dom (fq_nodes ?q) = dom (fq_nodes q)" using assms(3) by (auto simp: destroyNode_lf_def put_node_def)
  have "closed_links (fq_nodes q)" "set (fq_free q) \<subseteq> dom (fq_nodes q)" using I(3) by (auto simp: memory_ok_def)
  then have "closed_links (fq_nodes ?q)" unfolding destroyNode_lf_def put_node_def
    by simp (rule closed_links_put, auto simp: free_head_def tagged_set_def split: list.splits)
  then have mem: "memory_ok ns ?q (pcs(i := Pop_count x))"
    using I(3) h o unfolding memory_ok_def own U nodes(3) dom by auto
  have tail: "tail_ok ns q (Pop_count x)" if "i = 0" using I(2) assms(2) that by (auto simp: tail_ok_def)
  note R = inv_off_list [OF inv nodes(4) o(1) nodes(5,1,2) _ mem, of "Done (Item x)"]
  show "lfq_inv hb tb kh kt ns ?q (pcs(i := Pop_count x)) (calls(i := Done (Item x)))"
    by (rule R(1)) (use o(3) tail in \<open>simp_all add: pushing_def\<close>)
  show "map (data_of ?q) (tl ns) = map (data_of q) (tl ns)" by (rule R(2)) (use o(3) tail in \<open>simp_all add: pushing_def\<close>)
qed

text \<open>A new node, from the list of free ones or from the system.\<close>

lemma inv_create:
  assumes inv: "lfq_inv hb tb kh kt ns q pcs calls" and "pcs 0 = Push_create x" "createNode_lf a junk q = Some (p, q')"
  shows "lfq_inv hb tb kh kt ns q' (pcs(0 := Push_data x p)) (calls(0 := Pending (Push x)))"
    "map (data_of q') (tl ns) = map (data_of q) (tl ns)"
proof -
  note I = lfq_invD [OF inv]
  have q': "fq_head q' = fq_head q" "fq_tail q' = fq_tail q" "fq_nodes q' = (fq_nodes q)(p \<mapsto> \<lparr>qn_next = tagged_set None 0, qn_data = junk\<rparr>)"
    "p \<notin> set ns" "p \<notin> owned_nodes (pcs j)" "distinct (fq_free q')" "set (fq_free q') = set (fq_free q) - {p}" for j
  proof -
    have "fq_head q' = fq_head q \<and> fq_tail q' = fq_tail q \<and> fq_nodes q' = (fq_nodes q)(p \<mapsto> \<lparr>qn_next = tagged_set None 0, qn_data = junk\<rparr>) \<and>
       p \<notin> set ns \<and> p \<notin> owned_nodes (pcs j) \<and> distinct (fq_free q') \<and> set (fq_free q') = set (fq_free q) - {p}" for j
    proof (cases "fq_free q")
      case Nil
      then have "fq_nodes q a = None" "p = a" "q' = put_node a \<lparr>qn_next = tagged_set None 0, qn_data = junk\<rparr> q"
        using assms(3) by (auto simp: createNode_lf_def split: if_splits)
      moreover from this have "a \<notin> set ns \<union> set (fq_free q) \<union> (\<Union>j. owned_nodes (pcs j))"
        using I(3) domIff [of a "fq_nodes q"] unfolding memory_ok_def by blast
      ultimately show ?thesis using Nil by (auto simp: put_node_def)
    next
      case (Cons b free)
      then have "p = b" "q' = put_node b \<lparr>qn_next = tagged_set None 0, qn_data = junk\<rparr> (q\<lparr>fq_free := free\<rparr>)"
        using assms(3) by (auto simp: createNode_lf_def)
      moreover have "b \<notin> set ns" "b \<notin> owned_nodes (pcs j)" "distinct (b # free)" using I(3) Cons by (auto simp: memory_ok_def)
      ultimately show ?thesis using Cons by (auto simp: put_node_def)
    qed
    then show "fq_head q' = fq_head q" "fq_tail q' = fq_tail q" "fq_nodes q' = (fq_nodes q)(p \<mapsto> \<lparr>qn_next = tagged_set None 0, qn_data = junk\<rparr>)"
      "p \<notin> set ns" "p \<notin> owned_nodes (pcs j)" "distinct (fq_free q')" "set (fq_free q') = set (fq_free q) - {p}" for j by blast+
  qed
  have own: "owned_nodes ((pcs(0 := Push_data x p)) j) = (if j = 0 then {p} else owned_nodes (pcs j))" for j by simp
  have U: "(\<Union>j. if j = 0 then {p} else owned_nodes (pcs j)) = insert p (\<Union>j. owned_nodes (pcs j))"
    using Union_if(1) [of "\<lambda>j. owned_nodes (pcs j)" 0 "{p}"] assms(2) by simp
  have dom: "dom (fq_nodes q') = insert p (dom (fq_nodes q))" using q'(3) by simp
  have "closed_links (fq_nodes q')" unfolding q'(3)
    by (rule closed_links_put) (use I(3) in \<open>auto simp: memory_ok_def tagged_set_def\<close>)
  then have mem: "memory_ok ns q' (pcs(0 := Push_data x p))"
    using I(3) q'(4-7) unfolding memory_ok_def own U dom by auto
  have tail: "tail_ok ns q (Push_data x p)" using I(2) assms(2) by (auto simp: tail_ok_def)
  have loc: "lfq_local hb tb kh kt ns q' (Pending (Push x)) (Push_data x p)" by (simp add: q'(3) next_of_def)
  have off: "\<forall>b. b \<noteq> p \<longrightarrow> fq_nodes q' b = fq_nodes q b" "fq_nodes q' p \<noteq> None" by (simp_all add: q'(3))
  note R = inv_off_list [OF inv off(1) q'(4) off(2) q'(1,2) _ mem loc]
  show "lfq_inv hb tb kh kt ns q' (pcs(0 := Push_data x p)) (calls(0 := Pending (Push x)))"
    by (rule R(1)) (use q'(5) tail in simp_all)
  show "map (data_of q') (tl ns) = map (data_of q) (tl ns)" by (rule R(2)) (use q'(5) tail in simp_all)
qed

text \<open>The data of a new node.\<close>

lemma inv_data:
  assumes inv: "lfq_inv hb tb kh kt ns q pcs calls" and "pcs 0 = Push_data x p" "fq_nodes q p = Some n"
    and q': "q' = put_node p (n\<lparr>qn_data := x\<rparr>) q"
  shows "lfq_inv hb tb kh kt ns q' (pcs(0 := Push_tail x p)) (calls(0 := Pending (Push x)))"
    "map (data_of q') (tl ns) = map (data_of q) (tl ns)"
proof -
  note I = lfq_invD [OF inv]
  have p: "p \<in> owned_nodes (pcs 0)" using assms(2) by simp
  then have o: "p \<notin> set ns" "j \<noteq> 0 \<Longrightarrow> p \<notin> owned_nodes (pcs j)" for j using owned_apart [OF I(3)] by blast+
  have nodes: "fq_head q' = fq_head q" "fq_tail q' = fq_tail q" "fq_free q' = fq_free q" "\<forall>b. b \<noteq> p \<longrightarrow> fq_nodes q' b = fq_nodes q b"
    "fq_nodes q' p \<noteq> None" "dom (fq_nodes q') = dom (fq_nodes q)" using assms(3) by (auto simp: q' put_node_def)
  have own: "owned_nodes ((pcs(0 := Push_tail x p)) j) = owned_nodes (pcs j)" for j using assms(2) by simp
  have closed: "closed_links (fq_nodes q)" using I(3) by (simp add: memory_ok_def)
  then have "closed_links (fq_nodes q')" unfolding q' put_node_def
    by simp (rule closed_links_put, use assms(3) in \<open>auto simp: closed_links_def\<close>)
  then have mem: "memory_ok ns q' (pcs(0 := Push_tail x p))" using I(3) unfolding memory_ok_def own nodes(3,6) by simp
  have tail: "tail_ok ns q (Push_tail x p)" using I(2) assms(2) by (auto simp: tail_ok_def)
  have "next_of q (Some p) = None" using I(4) [of 0] assms(2) by simp
  then have loc: "lfq_local hb tb kh kt ns q' (Pending (Push x)) (Push_tail x p)"
    using assms(3) by (simp add: fresh_def next_of_def data_of_def q' put_node_def)
  note R = inv_off_list [OF inv nodes(4) o(1) nodes(5,1,2) _ mem loc]
  show "lfq_inv hb tb kh kt ns q' (pcs(0 := Push_tail x p)) (calls(0 := Pending (Push x)))" by (rule R(1)) (use o(2) tail in simp_all)
  show "map (data_of q') (tl ns) = map (data_of q) (tl ns)" by (rule R(2)) (use o(2) tail in simp_all)
qed

text \<open>The new node becomes the last of the list.\<close>

lemma linked_append:
  assumes "lf_linked q ns" "ns \<noteq> []" "next_of q' (Some (last ns)) = Some p" "\<forall>a\<in>set (butlast ns). fq_nodes q' a = fq_nodes q a"
    and "fq_nodes q' (last ns) \<noteq> None" "fq_nodes q' p \<noteq> None" "next_of q' (Some p) = None"
  shows "lf_linked q' (ns @ [p])"
  using assms by (induction q ns rule: lf_linked.induct) (auto simp: next_of_def)

lemma inv_link:
  assumes inv: "lfq_inv hb tb kh kt ns q pcs calls" and "pcs 0 = Push_link x p tp np" "fq_nodes q (last ns) = Some n"
    and q': "q' = put_node (last ns) (n\<lparr>qn_next := tagged_set (Some p) t\<rparr>) q"
  shows "lfq_inv hb tb kh kt (ns @ [p]) q' (pcs(0 := Push_swing x p tp)) (calls(0 := Done Unit))"
    "map (data_of q') (tl (ns @ [p])) = map (data_of q) (tl ns) @ [x]"
proof -
  note I = lfq_invD [OF inv]
  note L = list_okD [OF I(1)]
  have loc: "fresh q p x" "tp = fq_tail q" "t_ptr tp = Some (last ns)" using I(4) [of 0] assms(2) by auto
  have p: "p \<in> owned_nodes (pcs 0)" using assms(2) by simp
  then have o: "p \<notin> set ns" "p \<notin> set (fq_free q)" "j \<noteq> 0 \<Longrightarrow> p \<notin> owned_nodes (pcs j)" for j using owned_apart [OF I(3)] by blast+
  have "last ns \<in> set ns" using L(1) by simp
  then have pl: "p \<noteq> last ns" using o(1) by metis
  have nodes: "fq_head q' = fq_head q" "fq_tail q' = fq_tail q" "fq_free q' = fq_free q" "dom (fq_nodes q') = dom (fq_nodes q)"
    "\<And>b. b \<noteq> last ns \<Longrightarrow> fq_nodes q' b = fq_nodes q b" using assms(3) by (auto simp: q' put_node_def)
  have last: "last ns \<notin> set (butlast ns)" using L(1,2) distinct_append [of "butlast ns" "[last ns]"] by simp
  have data: "data_of q' b = data_of q b" for b using assms(3) by (simp add: data_of_def q' put_node_def)
  have link: "lf_linked q' (ns @ [p])"
  proof (rule linked_append [OF L(3,1)])
    show "next_of q' (Some (last ns)) = Some p" by (simp add: q' put_node_def next_of_def)
    show "\<forall>a\<in>set (butlast ns). fq_nodes q' a = fq_nodes q a" using nodes(5) last by metis
    show "fq_nodes q' (last ns) \<noteq> None" by (simp add: q' put_node_def)
    show "fq_nodes q' p \<noteq> None" "next_of q' (Some p) = None" using loc(1) nodes(5) [OF pl] by (simp_all add: fresh_def next_of_def)
  qed
  show "lfq_inv hb tb kh kt (ns @ [p]) q' (pcs(0 := Push_swing x p tp)) (calls(0 := Done Unit))"
  proof (rule inv_update [OF inv])
    show "list_ok hb tb kh kt (ns @ [p]) q'" using L link o(1) by (simp add: list_ok_def nodes)
    have "ns @ [p] = butlast ns @ [last ns, p]" using L(1) by simp
    then show "tail_ok (ns @ [p]) q' ((pcs(0 := Push_swing x p tp)) 0)"
      using loc(2,3) nodes(2) unfolding tail_ok_def fun_upd_same by metis
    have own: "owned_nodes ((pcs(0 := Push_swing x p tp)) j) = (if j = 0 then {} else owned_nodes (pcs j))" for j by simp
    have U: "(\<Union>j. if j = 0 then {} else owned_nodes (pcs j)) = (\<Union>j. owned_nodes (pcs j)) - {p}"
      by (rule Union_if(2)) (use assms(2) o(3) in simp_all)
    have "closed_links (fq_nodes q)" "p \<in> dom (fq_nodes q)" using I(3) loc(1) by (auto simp: memory_ok_def fresh_def)
    then have "closed_links (fq_nodes q')" unfolding q' put_node_def by simp (rule closed_links_put, auto simp: tagged_set_def)
    then show "memory_ok (ns @ [p]) q' (pcs(0 := Push_swing x p tp))"
      using I(3) p o unfolding memory_ok_def own U nodes by auto
    show "undisturbed kh kt ns q kh kt (ns @ [p]) q' (pcs j)" if "j \<noteq> 0" for j
    proof -
      have "\<not> pushing (pcs j)" using I(5) that by blast
      moreover have "last ns \<notin> owned_nodes (pcs j)" using I(3) \<open>last ns \<in> set ns\<close> by (auto simp: memory_ok_def)
      then have "\<forall>a\<in>owned_nodes (pcs j). fq_nodes q' a = fq_nodes q a" using nodes(5) by metis
      moreover have "next_of q' (Some a) = next_of q (Some a)" if "a \<in> set ns" "next_of q (Some a) \<noteq> None" for a
        using that linked_last [OF L(3,1)] nodes(5) [of a] by (cases "a = last ns") (simp_all add: next_of_def)
      moreover have "\<forall>a. fq_nodes q a \<noteq> None \<longrightarrow> fq_nodes q' a \<noteq> None" using nodes(4) by (metis domIff)
      ultimately show ?thesis using nodes data unfolding undisturbed_def by simp
    qed
  qed (simp_all add: pushing_def)
  show "map (data_of q') (tl (ns @ [p])) = map (data_of q) (tl ns) @ [x]"
    using L(1) loc(1) data by (cases ns) (simp_all add: fresh_def)
qed

end
