(* ===== verification/Lock_Free_Queue_Safety.thy ===== *)
theory Lock_Free_Queue_Safety
  imports Lock_Free_Queue_Steps
begin

text \<open>
  Every step of the lock-free queue refines the sequential queue as long as there is one producer and no tag comes round; and
  the schedule with two producers in which the queue loses an order.
\<close>

section \<open>The steps of push\<close>

lemma good_result:
  assumes "lfq_inv hb tb kh' kt' ns' q' (pcs(i := pc)) ((sp_calls f)(i := c))" "kh' \<le> Suc kh" "kt' \<le> Suc kt"
    and "run_spec lfq_spec es f = Some \<lparr>sp_items = map (data_of q') (tl ns'), sp_calls = (sp_calls f)(i := c)\<rparr>"
    and "r = Inr (q', pc, es)"
  shows "\<exists>q' pc es. r = Inr (q', pc, es) \<and> lfq_good hb tb kh kt pcs f i q' pc es"
  using assms unfolding lfq_good_def by blast

lemma moved_result:
  assumes inv: "lfq_inv hb tb kh kt ns q pcs (sp_calls f)" and "sp_items f = map (data_of q) (tl ns)"
    and "r = Inr (q, pc, es)"
    and "owned_nodes pc = owned_nodes (pcs i)" "lfq_local hb tb kh kt ns q c pc" "pushing pc \<Longrightarrow> i = 0" "i = 0 \<Longrightarrow> tail_ok ns q pc"
    and "run_spec lfq_spec es f = Some \<lparr>sp_items = sp_items f, sp_calls = (sp_calls f)(i := c)\<rparr>"
  shows "\<exists>q' pc es. r = Inr (q', pc, es) \<and> lfq_good hb tb kh kt pcs f i q' pc es"
  using lfq_good_move [OF assms(1,2,4-8)] assms(3) by blast

lemma knownE:
  assumes "known q p"
  obtains a n where "p = Some a" "fq_nodes q a = Some n"
  using assms by (cases p) (auto simp: known_def)

lemma data_of_frame:
  "data_of (q\<lparr>fq_tail := p\<rparr>) = data_of q" "data_of (q\<lparr>fq_head := p\<rparr>) = data_of q"
  by (simp_all add: data_of_def fun_eq_iff)

lemma same_call: "sp_calls f i = c \<Longrightarrow> \<lparr>sp_items = sp_items f, sp_calls = (sp_calls f)(i := c)\<rparr> = f"
  by (simp add: fun_upd_idem)

lemma tail_at_end:
  assumes "tail_ok ns q pc" "\<And>x p tp. pc \<noteq> Push_swing x p tp"
  shows "t_ptr (fq_tail q) = Some (last ns)" "tail_ok ns q pc'"
  using assms by (auto simp: tail_ok_def)

lemma push_create_ok:
  fixes q :: "('a, 'w::len word) PionLockFreeQueue"
  assumes inv: "lfq_inv hb tb kh kt ns q pcs (sp_calls f)" and items: "sp_items f = map (data_of q) (tl ns)"
    and Push_create: "pcs 0 = Push_create x" and step: "push_step_lf 0 a junk (pcs 0) q = Some r"
  shows "\<exists>q' pc es. r = Inr (q', pc, es) \<and> lfq_good hb tb kh kt pcs f 0 q' pc es"
proof -
  note I = lfq_invD [OF inv]
  note L = list_okD [OF I(1)]
  note loc = I(4) [of 0]
  obtain p q' where c: "createNode_lf a junk q = Some (p, q')" "r = Inr (q', Push_data x p, [])"
    using Push_create step by (auto split: option.splits)
  note K = inv_create [OF inv Push_create c(1)]
  have "sp_calls f 0 = Pending (Push x)" using loc Push_create by simp
  then have "run_spec lfq_spec [] f = Some \<lparr>sp_items = map (data_of q') (tl ns), sp_calls = (sp_calls f)(0 := Pending (Push x))\<rparr>"
    unfolding K(2) items [symmetric] by (simp add: same_call)
  then show ?thesis by (intro good_result [OF K(1) _ _ _ c(2)]) simp_all
qed

lemma push_data_ok:
  fixes q :: "('a, 'w::len word) PionLockFreeQueue"
  assumes inv: "lfq_inv hb tb kh kt ns q pcs (sp_calls f)" and items: "sp_items f = map (data_of q) (tl ns)"
    and Push_data: "pcs 0 = Push_data x p" and step: "push_step_lf 0 a junk (pcs 0) q = Some r"
  shows "\<exists>q' pc es. r = Inr (q', pc, es) \<and> lfq_good hb tb kh kt pcs f 0 q' pc es"
proof -
  note I = lfq_invD [OF inv]
  note L = list_okD [OF I(1)]
  note loc = I(4) [of 0]
  obtain n where n: "fq_nodes q p = Some n" "r = Inr (put_node p (n\<lparr>qn_data := x\<rparr>) q, Push_tail x p, [])"
    using Push_data step loc by (auto simp: follow_def)
  note K = inv_data [OF inv Push_data n(1) refl]
  have "sp_calls f 0 = Pending (Push x)" using loc Push_data by simp
  then have "run_spec lfq_spec [] f = Some \<lparr>sp_items = map (data_of (put_node p (n\<lparr>qn_data := x\<rparr>) q)) (tl ns),
      sp_calls = (sp_calls f)(0 := Pending (Push x))\<rparr>"
    unfolding K(2) items [symmetric] by (simp add: same_call)
  then show ?thesis by (intro good_result [OF K(1) _ _ _ n(2)]) simp_all
qed

lemma push_next_ok:
  fixes q :: "('a, 'w::len word) PionLockFreeQueue"
  assumes inv: "lfq_inv hb tb kh kt ns q pcs (sp_calls f)" and items: "sp_items f = map (data_of q) (tl ns)"
    and Push_next: "pcs 0 = Push_next x p tp" and step: "push_step_lf 0 a junk (pcs 0) q = Some r"
  shows "\<exists>q' pc es. r = Inr (q', pc, es) \<and> lfq_good hb tb kh kt pcs f 0 q' pc es"
proof -
  note I = lfq_invD [OF inv]
  note L = list_okD [OF I(1)]
  note loc = I(4) [of 0]
  have last: "fq_nodes q (last ns) \<noteq> None" using linked_next(1) [OF L(3)] L(1) by simp
  obtain n where n: "fq_nodes q (last ns) = Some n" "r = Inr (q, Push_check x p tp (qn_next n), [])"
    using Push_next step loc last by (auto simp: follow_def)
  have t: "tail_ok ns q pc'" for pc' using tail_at_end [OF I(2)] Push_next by simp
  show ?thesis by (rule moved_result [OF inv items n(2), where c = "Pending (Push x)"])
      (use Push_next loc t n(1) in \<open>auto simp: last_next_def same_call\<close>)
qed

lemma push_check_ok:
  fixes q :: "('a, 'w::len word) PionLockFreeQueue"
  assumes inv: "lfq_inv hb tb kh kt ns q pcs (sp_calls f)" and items: "sp_items f = map (data_of q) (tl ns)"
    and Push_check: "pcs 0 = Push_check x p tp np" and step: "push_step_lf 0 a junk (pcs 0) q = Some r"
  shows "\<exists>q' pc es. r = Inr (q', pc, es) \<and> lfq_good hb tb kh kt pcs f 0 q' pc es"
proof -
  note I = lfq_invD [OF inv]
  note L = list_okD [OF I(1)]
  note loc = I(4) [of 0]
  have "next_of q (Some (last ns)) = None" by (rule linked_last [OF L(3,1)])
  then have "t_ptr np = None" using loc Push_check by (auto simp: last_next_def next_of_def)
  then have r: "r = Inr (q, Push_link x p tp np, [])" using step Push_check loc by simp
  have t: "tail_ok ns q pc'" for pc' using tail_at_end [OF I(2)] Push_check by simp
  show ?thesis by (rule moved_result [OF inv items r, where c = "Pending (Push x)"]) (use Push_check loc t in \<open>auto simp: same_call\<close>)
qed

lemma push_link_ok:
  fixes q :: "('a, 'w::len word) PionLockFreeQueue"
  assumes inv: "lfq_inv hb tb kh kt ns q pcs (sp_calls f)" and items: "sp_items f = map (data_of q) (tl ns)"
    and Push_link: "pcs 0 = Push_link x p tp np" and step: "push_step_lf 0 a junk (pcs 0) q = Some r"
  shows "\<exists>q' pc es. r = Inr (q', pc, es) \<and> lfq_good hb tb kh kt pcs f 0 q' pc es"
proof -
  note I = lfq_invD [OF inv]
  note L = list_okD [OF I(1)]
  note loc = I(4) [of 0]
  obtain n where n: "fq_nodes q (last ns) = Some n" "qn_next n = np" "t_ptr tp = Some (last ns)" "sp_calls f 0 = Pending (Push x)"
    using Push_link loc by (auto simp: last_next_def)
  have r: "r = Inr (put_node (last ns) (n\<lparr>qn_next := tagged_set (Some p) (t_tag np + 1)\<rparr>) q, Push_swing x p tp, [Enq 0 x])"
    using step Push_link n by (simp add: follow_def tagged_cas_def)
  note K = inv_link [OF inv Push_link n(1) refl, of "t_tag np + 1"]
  have "run_spec lfq_spec [Enq 0 x] f = Some \<lparr>sp_items = map (data_of (put_node (last ns)
      (n\<lparr>qn_next := tagged_set (Some p) (t_tag np + 1)\<rparr>) q)) (tl (ns @ [p])), sp_calls = (sp_calls f)(0 := Done Unit)\<rparr>"
    unfolding K(2) items [symmetric] using n(4) by (simp add: sp_set_def)
  then show ?thesis by (intro good_result [OF K(1) _ _ _ r]) simp_all
qed

lemma push_swing_ok:
  fixes q :: "('a, 'w::len word) PionLockFreeQueue"
  assumes inv: "lfq_inv hb tb kh kt ns q pcs (sp_calls f)" and items: "sp_items f = map (data_of q) (tl ns)"
    and Push_swing: "pcs 0 = Push_swing x p tp" and step: "push_step_lf 0 a junk (pcs 0) q = Some r"
  shows "\<exists>q' pc es. r = Inr (q', pc, es) \<and> lfq_good hb tb kh kt pcs f 0 q' pc es"
proof -
  note I = lfq_invD [OF inv]
  note L = list_okD [OF I(1)]
  note loc = I(4) [of 0]
  have d: "sp_calls f 0 = Done Unit" "p = last ns" using loc Push_swing by simp_all
  show ?thesis
  proof (cases "fq_tail q = tp")
    case True
    have r: "r = Inr (q\<lparr>fq_tail := tagged_set (Some (last ns)) (t_tag (fq_tail q) + 1)\<rparr>, Push_count x, [])"
      using step Push_swing True d(2) by (simp add: tagged_cas_def)
    have run: "run_spec lfq_spec [] f = Some \<lparr>sp_items = map (data_of
        (q\<lparr>fq_tail := tagged_set (Some (last ns)) (t_tag (fq_tail q) + 1)\<rparr>)) (tl ns), sp_calls = (sp_calls f)(0 := Done Unit)\<rparr>"
      unfolding data_of_frame items [symmetric] same_call [OF d(1)] by simp
    have "\<not> watching (pcs j)" if "j \<noteq> 0" for j
      using I(5) [of j] that by (cases "pcs j") (simp_all add: pushing_def)
    then show ?thesis 
      by (intro good_result [OF inv_tail [OF inv _ refl] _ _ run r]) (use Push_swing d run in simp_all)
  next
    case False
    then have r: "r = Inr (q, Push_count x, [])" using step Push_swing by (simp add: tagged_cas_def)
    have t: "tail_ok ns q (Push_count x)" using I(2) Push_swing False by (auto simp: tail_ok_def)
    show ?thesis 
      by (rule moved_result [OF inv items r, where c = "Done Unit"]) (use Push_swing d t in \<open>simp_all add: same_call\<close>)
  qed
qed

lemma push_ok:
  fixes q :: "('a, 'w::len word) PionLockFreeQueue"
  assumes inv: "lfq_inv hb tb kh kt ns q pcs (sp_calls f)" and items: "sp_items f = map (data_of q) (tl ns)"
    and i: "pushing (pcs i)" and step: "push_step_lf i a junk (pcs i) q = Some r"
  shows "\<exists>q' pc es. r = Inr (q', pc, es) \<and> lfq_good hb tb kh kt pcs f i q' pc es"
proof -
  note I = lfq_invD [OF inv]
  note L = list_okD [OF I(1)]
  note loc = I(4) [of 0]
  have i0: "i = 0" using I(5) i by blast
  note step0 = step [unfolded i0]
  show ?thesis
  proof (cases "pcs 0")
    case (Push_create x)
    show ?thesis unfolding i0 by (rule push_create_ok [OF inv items Push_create step0])
  next
    case (Push_data x p)
    show ?thesis unfolding i0 by (rule push_data_ok [OF inv items Push_data step0])
  next
    case (Push_tail x p)
    have t: "t_ptr (fq_tail q) = Some (last ns)" "tail_ok ns q pc'" for pc' using tail_at_end [OF I(2)] Push_tail by simp_all
    show ?thesis unfolding i0
      by (rule moved_result [OF inv items, where pc = "Push_next x p (fq_tail q)" and es = "[]" and c = "Pending (Push x)"])
        (use step i0 Push_tail loc t in \<open>simp_all add: same_call\<close>)
  next
    case (Push_next x p tp)
    show ?thesis unfolding i0 by (rule push_next_ok [OF inv items Push_next step0])
  next
    case (Push_check x p tp np)
    show ?thesis unfolding i0 by (rule push_check_ok [OF inv items Push_check step0])
  next
    case (Push_link x p tp np)
    show ?thesis unfolding i0 by (rule push_link_ok [OF inv items Push_link step0])
  next
    case (Push_help x p tp n)
    then show ?thesis using loc by simp
  next
    case (Push_swing x p tp)
    show ?thesis unfolding i0 by (rule push_swing_ok [OF inv items Push_swing step0])
  next
    case (Push_count x)
    have t: "tail_ok ns q Ready" using tail_at_end [OF I(2)] Push_count by simp
    have r: "r = Inr (q\<lparr>fq_size := fq_size q + 1\<rparr>, Ready, [Ret 0 Unit])" using step i0 Push_count by simp
    have "lfq_good hb tb kh kt pcs f 0 (q\<lparr>fq_size := fq_size q + 1\<rparr>) Ready [Ret 0 Unit]"
      by (rule good_quiet [OF inv items, where c = Outside]) (use Push_count loc t in \<open>simp_all add: answers_def sp_set_def\<close>)
    then show ?thesis using r i0 by blast
  qed (use i i0 in \<open>simp_all add: pushing_def\<close>)
qed

text \<open>A tail that has a successor is one node behind the end of the list, which the producer is about to announce.\<close>

lemma linked_second: "lf_linked q (ms @ [t, p]) \<Longrightarrow> next_of q (Some t) = Some p"
  by (induction ms) (auto elim: lf_linked.elims simp: neq_Nil_conv)

lemma linked_single: "lf_linked q ns \<Longrightarrow> ns \<noteq> [] \<Longrightarrow> next_of q (Some (hd ns)) = None \<Longrightarrow> ns = [hd ns]"
  by (cases "(q, ns)" rule: lf_linked.cases) auto

lemma lagging:
  assumes "ns \<noteq> []" "distinct ns" "lf_linked q ns" "tail_ok ns q pc" "next_of q (t_ptr (fq_tail q)) = Some n"
  shows "n = last ns \<and> (\<exists>x p tp. pc = Push_swing x p tp)"
proof -
  have "t_ptr (fq_tail q) \<noteq> Some (last ns)" using linked_last [OF assms(3,1)] assms(5) by auto
  then obtain x p t ms where m: "pc = Push_swing x p (fq_tail q)" "ns = ms @ [t, p]" "t_ptr (fq_tail q) = Some t"
    using assms(4) by (auto simp: tail_ok_def)
  then show ?thesis using linked_second [of q ms t p] assms(3,5) by auto
qed

section \<open>The steps of pop\<close>

lemma not_producer:
  assumes inv: "lfq_inv hb tb kh kt ns q pcs calls" and "\<not> pushing (pcs i)"
  shows "i = 0 \<Longrightarrow> t_ptr (fq_tail q) = Some (last ns)" "i = 0 \<Longrightarrow> tail_ok ns q pc'"
proof -
  note I = lfq_invD [OF inv]
  have "i = 0 \<Longrightarrow> pcs 0 \<noteq> Push_swing x p tp" for x p tp using assms(2) by (auto simp: pushing_def)
  then show "i = 0 \<Longrightarrow> t_ptr (fq_tail q) = Some (last ns)" "i = 0 \<Longrightarrow> tail_ok ns q pc'" using tail_at_end [OF I(2)] by blast+
qed

lemma pop_next_ok:
  fixes q :: "('a, 'w::len word) PionLockFreeQueue"
  assumes inv: "lfq_inv hb tb kh kt ns q pcs (sp_calls f)" and items: "sp_items f = map (data_of q) (tl ns)"
    and Pop_next: "pcs i = Pop_next hp tp" and step: "pop_step_lf i (pcs i) q = Some r"
  shows "\<exists>q' pc es. r = Inr (q', pc, es) \<and> lfq_good hb tb kh kt pcs f i q' pc es"
proof -
  note I = lfq_invD [OF inv]
  note L = list_okD [OF I(1)]
  note loc = I(4) [of i]
  have end0: "i = 0 \<Longrightarrow> tail_ok ns q pc'" for pc' using not_producer(2) [OF inv, of i pc'] Pop_next by (simp add: pushing_def)
  obtain t where t: "t \<in> set ns" "t_ptr (fq_tail q) = Some t" using tail_in_list [OF I(2) L(1)] by blast
  have k: "known q (t_ptr hp)" "popping (sp_calls f i)"
    "moment hb kh (fq_head q) hp (t_ptr tp \<noteq> t_ptr hp \<longrightarrow> t_ptr (fq_tail q) \<noteq> t_ptr hp)" "moment tb kt (fq_tail q) tp True"
    using Pop_next loc by simp_all
  obtain a n where an: "t_ptr hp = Some a" "fq_nodes q a = Some n" by (rule knownE [OF k(1)])
  then have a: "t_ptr hp = Some a" "fq_nodes q a = Some n"
    "r = Inr (q, Pop_check hp tp (t_ptr (qn_next n)), if t_ptr (qn_next n) = None \<and> fq_head q = hp then [Saw_empty i] else [])"
    using step Pop_next by (simp_all add: follow_def)
  define np where "np = t_ptr (qn_next n)"
  have np: "next_of q (t_ptr hp) = np" using a by (simp add: next_of_def np_def)
  have empty: "ns = [hd ns]" if "np = None" "hp = fq_head q"
    using linked_single [OF L(3,1)] np that L(4) by simp
  define c where "c = (if np = None \<and> fq_head q = hp then Seen_empty else sp_calls f i)"
  have "closed_links (fq_nodes q)" using I(3) by (simp add: memory_ok_def)
  then have known: "np \<noteq> None \<longrightarrow> known q np" using closed_links_next [of q "t_ptr hp"] np by simp
  have tail_eq: "t_ptr (fq_tail q) = t_ptr hp" if "np = None" "hp = fq_head q"
    using empty [OF that] t L(4) that(2) by (metis list.set(1) list.simps(15) singletonD)
  have m1: "moment hb kh (fq_head q) hp ((t_ptr tp \<noteq> t_ptr hp \<longrightarrow> t_ptr (fq_tail q) \<noteq> t_ptr hp) \<and> (np \<noteq> None \<longrightarrow> next_of q (t_ptr hp) = np) \<and>
     (np = None \<longrightarrow> c = Seen_empty \<and> t_ptr tp = t_ptr hp))"
    by (rule moment_mono [OF k(3)]) (use np tail_eq in \<open>auto simp: c_def\<close>)
  have m2: "moment tb kt (fq_tail q) tp (t_ptr tp = t_ptr hp \<and> np \<noteq> None \<longrightarrow> next_of q (t_ptr tp) = np)"
    by (rule moment_mono [OF k(4)]) (use np in auto)
  have "popping c" using k(2) by (simp add: c_def popping_def)
  moreover have "run_spec lfq_spec (if np = None \<and> fq_head q = hp then [Saw_empty i] else []) f =
      Some \<lparr>sp_items = sp_items f, sp_calls = (sp_calls f)(i := c)\<rparr>"
  proof (cases "np = None \<and> fq_head q = hp")
    case True
    then have "sp_items f = []" using empty items by (metis list.sel(3) list.simps(8))
    then show ?thesis using True k(2) by (simp add: c_def sp_set_def)
  next
    case False
    then show ?thesis unfolding c_def if_not_P [OF False] by simp
  qed
  ultimately show ?thesis
    by (intro moved_result [OF inv items a(3) [folded np_def], where c = c])
      (use Pop_next known m1 m2 end0 in \<open>simp_all add: pushing_def\<close>)
qed

lemma pop_check_ok:
  fixes q :: "('a, 'w::len word) PionLockFreeQueue"
  assumes inv: "lfq_inv hb tb kh kt ns q pcs (sp_calls f)" and items: "sp_items f = map (data_of q) (tl ns)"
    and Pop_check: "pcs i = Pop_check hp tp np" and step: "pop_step_lf i (pcs i) q = Some r"
    and small: "Suc kh < 2 ^ LENGTH('w)" "Suc kt < 2 ^ LENGTH('w)"
  shows "\<exists>q' pc es. r = Inr (q', pc, es) \<and> lfq_good hb tb kh kt pcs f i q' pc es"
proof -
  note I = lfq_invD [OF inv]
  note L = list_okD [OF I(1)]
  note loc = I(4) [of i]
  have end0: "i = 0 \<Longrightarrow> tail_ok ns q pc'" for pc' using not_producer(2) [OF inv, of i pc'] Pop_check by (simp add: pushing_def)
  have k: "popping (sp_calls f i)" "np \<noteq> None \<longrightarrow> known q np"
    "moment hb kh (fq_head q) hp ((t_ptr tp \<noteq> t_ptr hp \<longrightarrow> t_ptr (fq_tail q) \<noteq> t_ptr hp) \<and> (np \<noteq> None \<longrightarrow> next_of q (t_ptr hp) = np) \<and>
       (np = None \<longrightarrow> sp_calls f i = Seen_empty \<and> t_ptr tp = t_ptr hp))"
    "moment tb kt (fq_tail q) tp (t_ptr tp = t_ptr hp \<and> np \<noteq> None \<longrightarrow> next_of q (t_ptr tp) = np)" using Pop_check loc by simp_all
  show ?thesis
  proof (cases "hp = fq_head q")
    case False
    then have r: "r = Inr (q, Pop_head, [])" using step Pop_check by simp
    show ?thesis by (rule moved_result [OF inv items r, where c = "sp_calls f i"])
        (use Pop_check k end0 in \<open>simp_all add: pushing_def\<close>)
  next
    case True
    have now: "t_ptr tp \<noteq> t_ptr hp \<longrightarrow> t_ptr (fq_tail q) \<noteq> t_ptr hp" "np \<noteq> None \<longrightarrow> next_of q (t_ptr hp) = np"
      "np = None \<longrightarrow> sp_calls f i = Seen_empty \<and> t_ptr tp = t_ptr hp"
      using moment_current [of hb kh "fq_head q"] k(3) True L(5) small(1) by (metis Suc_lessD)+
    show ?thesis
    proof (cases np)
      case None
      then have r: "r = Inr (q, Ready, [Ret i Nothing])" using step Pop_check True now(3) by simp
      show ?thesis by (rule moved_result [OF inv items r, where c = Outside])
          (use Pop_check None now(3) end0 in \<open>simp_all add: pushing_def answers_def sp_set_def\<close>)
    next
      case (Some n)
      show ?thesis
      proof (cases "t_ptr hp = t_ptr tp")
        case True
        have r: "r = Inr (q, Pop_help tp n, [])" using step Pop_check \<open>hp = fq_head q\<close> Some True by simp
        have "moment tb kt (fq_tail q) tp (next_of q (t_ptr tp) = Some n)"
          by (rule moment_mono [OF k(4)]) (use Some True in auto)
        then show ?thesis by (intro moved_result [OF inv items r, where c = "sp_calls f i"])
            (use Pop_check k(1) end0 in \<open>simp_all add: pushing_def\<close>)
      next
        case False
        have r: "r = Inr (q, Pop_copy hp n, [])" using step Pop_check \<open>hp = fq_head q\<close> Some False by simp
        have "moment hb kh (fq_head q) hp (t_ptr (fq_tail q) \<noteq> t_ptr hp \<and> next_of q (t_ptr hp) = Some n)"
          by (rule moment_mono [OF k(3)]) (use Some False in auto)
        then show ?thesis by (intro moved_result [OF inv items r, where c = "sp_calls f i"])
            (use Pop_check k(1,2) Some end0 in \<open>simp_all add: pushing_def\<close>)
      qed
    qed
  qed
qed

lemma pop_help_ok:
  fixes q :: "('a, 'w::len word) PionLockFreeQueue"
  assumes inv: "lfq_inv hb tb kh kt ns q pcs (sp_calls f)" and items: "sp_items f = map (data_of q) (tl ns)"
    and Pop_help: "pcs i = Pop_help tp n" and step: "pop_step_lf i (pcs i) q = Some r"
    and small: "Suc kh < 2 ^ LENGTH('w)" "Suc kt < 2 ^ LENGTH('w)"
  shows "\<exists>q' pc es. r = Inr (q', pc, es) \<and> lfq_good hb tb kh kt pcs f i q' pc es"
proof -
  note I = lfq_invD [OF inv]
  note L = list_okD [OF I(1)]
  note loc = I(4) [of i]
  have end0: "i = 0 \<Longrightarrow> tail_ok ns q pc'" for pc' using not_producer(2) [OF inv, of i pc'] Pop_help by (simp add: pushing_def)
  have k: "popping (sp_calls f i)" "moment tb kt (fq_tail q) tp (next_of q (t_ptr tp) = Some n)" using Pop_help loc by simp_all
  show ?thesis
  proof (cases "fq_tail q = tp")
    case False
    then have r: "r = Inr (q, Pop_head, [])" using step Pop_help by (simp add: tagged_cas_def)
    show ?thesis by (rule moved_result [OF inv items r, where c = "sp_calls f i"])
        (use Pop_help k end0 in \<open>simp_all add: pushing_def\<close>)
  next
    case True
    have n: "next_of q (t_ptr (fq_tail q)) = Some n"
      using moment_current [of tb kt "fq_tail q"] k(2) True L(6) small(2) by (metis Suc_lessD)
    have lag: "n = last ns" "\<exists>x p tp. pcs 0 = Push_swing x p tp" using lagging [OF L(1-3) I(2) n] by blast+
    have r: "r = Inr (q\<lparr>fq_tail := tagged_set (Some (last ns)) (t_tag (fq_tail q) + 1)\<rparr>, Pop_head, [])"
      using step Pop_help True lag(1) by (simp add: tagged_cas_def)
    have "\<not> watching (pcs j)" for j
      using I(5) [of j] lag(2) by (cases "pcs j"; cases "j = 0") (auto simp: pushing_def)
    then show ?thesis
      by (intro good_result [OF inv_tail [OF inv _ refl] _ _ _ r, where c = "sp_calls f i"])
        (use Pop_help k(1) items in \<open>simp_all add: data_of_frame pushing_def\<close>)
  qed
qed

lemma pop_cas_ok:
  fixes q :: "('a, 'w::len word) PionLockFreeQueue"
  assumes inv: "lfq_inv hb tb kh kt ns q pcs (sp_calls f)" and items: "sp_items f = map (data_of q) (tl ns)"
    and Pop_cas: "pcs i = Pop_cas hp n x" and step: "pop_step_lf i (pcs i) q = Some r"
    and small: "Suc kh < 2 ^ LENGTH('w)" "Suc kt < 2 ^ LENGTH('w)"
  shows "\<exists>q' pc es. r = Inr (q', pc, es) \<and> lfq_good hb tb kh kt pcs f i q' pc es"
proof -
  note I = lfq_invD [OF inv]
  note L = list_okD [OF I(1)]
  note loc = I(4) [of i]
  have end0: "i = 0 \<Longrightarrow> tail_ok ns q pc'" for pc' using not_producer(2) [OF inv, of i pc'] Pop_cas by (simp add: pushing_def)
  have not_push: "\<not> pushing (pcs i)" using Pop_cas by (simp add: pushing_def)
  have k: "popping (sp_calls f i)"
    "moment hb kh (fq_head q) hp (t_ptr (fq_tail q) \<noteq> t_ptr hp \<and> next_of q (t_ptr hp) = Some n \<and> data_of q n = x)" using Pop_cas loc by simp_all
  show ?thesis
  proof (cases "fq_head q = hp")
    case False
    then have r: "r = Inr (q, Pop_head, [])" using step Pop_cas by (simp add: tagged_cas_def)
    show ?thesis by (rule moved_result [OF inv items r, where c = "sp_calls f i"])
        (use Pop_cas k(1) end0 in \<open>simp_all add: pushing_def\<close>)
  next
    case True
    have now: "t_ptr (fq_tail q) \<noteq> t_ptr hp" "next_of q (t_ptr hp) = Some n" "data_of q n = x"
      using moment_current [of hb kh "fq_head q"] k(2) True L(5) small(1) by (metis Suc_lessD)+
    obtain h ns' where ns: "ns = h # ns'" using L(1) by (cases ns) auto
    have h: "t_ptr hp = Some h" using L(4) True ns by simp
    have n: "ns' \<noteq> []" "hd ns' = n" using L(3) ns now(2) h by (cases ns'; simp)+
    note K = inv_head(2) [OF inv [unfolded ns] _ refl, where i = i and x = x]
    have r: "r = Inr (q\<lparr>fq_head := tagged_set (Some (hd ns')) (t_tag (fq_head q) + 1)\<rparr>, Pop_free h x, [Deq i x])"
      using step Pop_cas True h n(2) by (simp add: tagged_cas_def)
    have "sp_items f = x # map (data_of q) (tl ns')" using items ns n now(3) by (cases ns') simp_all
    then have "run_spec lfq_spec [Deq i x] f = Some \<lparr>sp_items = map (data_of (q\<lparr>fq_head := tagged_set (Some (hd ns')) (t_tag (fq_head q) + 1)\<rparr>)) (tl ns'),
        sp_calls = (sp_calls f)(i := Done (Item x))\<rparr>"
      using k(1) by (simp add: sp_set_def data_of_frame)
    note run = this
    have far: "t_ptr (fq_tail q) \<noteq> Some h" "owned_nodes (pcs i) = {}" using now(1) h Pop_cas by simp_all
    show ?thesis by (rule good_result [OF K [OF far not_push] le_refl le_SucI [OF le_refl] run r])
  qed
qed

lemma known_head: "list_ok hb tb kh kt ns q \<Longrightarrow> known q (t_ptr (fq_head q))"
  using linked_next(1) [of q ns "hd ns"] by (simp add: list_ok_def known_def)

lemma pop_ok:
  fixes q :: "('a, 'w::len word) PionLockFreeQueue"
  assumes inv: "lfq_inv hb tb kh kt ns q pcs (sp_calls f)" and items: "sp_items f = map (data_of q) (tl ns)"
    and i: "lfq_part_of (pcs i) = Pop_part" and step: "pop_step_lf i (pcs i) q = Some r"
    and small: "Suc kh < 2 ^ LENGTH('w)" "Suc kt < 2 ^ LENGTH('w)"
  shows "\<exists>q' pc es. r = Inr (q', pc, es) \<and> lfq_good hb tb kh kt pcs f i q' pc es"
proof -
  note I = lfq_invD [OF inv]
  note L = list_okD [OF I(1)]
  note loc = I(4) [of i]
  have quiet: "run_spec lfq_spec [] f = Some \<lparr>sp_items = sp_items f, sp_calls = (sp_calls f)(i := sp_calls f i)\<rparr>" by simp
  have end0: "i = 0 \<Longrightarrow> tail_ok ns q pc'" for pc' using not_producer(2) [OF inv, of i pc'] i by (simp add: pushing_def)
  show ?thesis
  proof (cases "pcs i")
    case Pop_head
    then have r: "r = Inr (q, Pop_tail (fq_head q), [])" using step by simp
    show ?thesis by (rule moved_result [OF inv items r, where c = "sp_calls f i"])
        (use Pop_head loc moment_now [OF L(5) TrueI] known_head [OF I(1)] end0 in \<open>simp_all add: pushing_def\<close>)
  next
    case (Pop_tail hp)
    then have r: "r = Inr (q, Pop_next hp (fq_tail q), [])" using step by simp
    have "moment hb kh (fq_head q) hp (t_ptr (fq_tail q) \<noteq> t_ptr hp \<longrightarrow> t_ptr (fq_tail q) \<noteq> t_ptr hp)"
      using loc Pop_tail by simp
    then show ?thesis by (intro moved_result [OF inv items r, where c = "sp_calls f i"])
        (use Pop_tail loc moment_now [OF L(6) TrueI] end0 in \<open>simp_all add: pushing_def\<close>)
  next
    case (Pop_next hp tp)
    show ?thesis by (rule pop_next_ok [OF inv items Pop_next step])
  next
    case (Pop_check hp tp np)
    show ?thesis by (rule pop_check_ok [OF inv items Pop_check step small])
  next
    case (Pop_help tp n)
    show ?thesis by (rule pop_help_ok [OF inv items Pop_help step small])
  next
    case (Pop_copy hp n)
    then have k: "popping (sp_calls f i)" "known q (Some n)"
      "moment hb kh (fq_head q) hp (t_ptr (fq_tail q) \<noteq> t_ptr hp \<and> next_of q (t_ptr hp) = Some n)" using loc by simp_all
    obtain a m where am: "Some n = Some a" "fq_nodes q a = Some m" by (rule knownE [OF k(2)])
    then have m: "fq_nodes q n = Some m" "r = Inr (q, Pop_cas hp n (qn_data m), [])"
      using step Pop_copy by (simp_all add: follow_def)
    have "moment hb kh (fq_head q) hp (t_ptr (fq_tail q) \<noteq> t_ptr hp \<and> next_of q (t_ptr hp) = Some n \<and> data_of q n = qn_data m)"
      by (rule moment_mono [OF k(3)]) (use m(1) in \<open>auto simp: data_of_def\<close>)
    then show ?thesis by (intro moved_result [OF inv items m(2), where c = "sp_calls f i"])
        (use Pop_copy k(1) end0 in \<open>simp_all add: pushing_def\<close>)
  next
    case (Pop_cas hp n x)
    show ?thesis by (rule pop_cas_ok [OF inv items Pop_cas step small])
  next
    case (Pop_free h x)
    have "h \<in> owned_nodes (pcs i)" using Pop_free by simp
    moreover have "dom (fq_nodes q) = set ns \<union> set (fq_free q) \<union> (\<Union>j. owned_nodes (pcs j))" using I(3) by (simp add: memory_ok_def)
    ultimately have "h \<in> dom (fq_nodes q)" by blast
    then obtain n where n: "fq_nodes q h = Some n" by blast
    then have r: "r = Inr (destroyNode_lf h n q, Pop_count x, [])" using step Pop_free by (simp add: follow_def)
    note K = inv_destroy [OF inv Pop_free n]
    have "sp_calls f i = Done (Item x)" using loc Pop_free by simp
    then have "run_spec lfq_spec [] f = Some \<lparr>sp_items = map (data_of (destroyNode_lf h n q)) (tl ns), sp_calls = (sp_calls f)(i := Done (Item x))\<rparr>"
      unfolding K(2) items [symmetric] using quiet by simp
    then show ?thesis by (intro good_result [OF K(1) _ _ _ r]) simp_all
  next
    case (Pop_count x)
    have r: "r = Inr (q\<lparr>fq_size := fq_size q - 1\<rparr>, Ready, [Ret i (Item x)])" using step Pop_count by simp
    have "lfq_good hb tb kh kt pcs f i (q\<lparr>fq_size := fq_size q - 1\<rparr>) Ready [Ret i (Item x)]"
      by (rule good_quiet [OF inv items, where c = Outside]) (use Pop_count loc end0 in \<open>simp_all add: answers_def sp_set_def pushing_def\<close>)
    then show ?thesis using r by blast
  qed (use i in simp_all)
qed

section \<open>The other steps\<close>


lemma ask_ok:
  fixes q :: "('a, 'w::len word) PionLockFreeQueue"
  assumes inv: "lfq_inv hb tb kh kt ns q pcs (sp_calls f)" and items: "sp_items f = map (data_of q) (tl ns)"
    and i: "lfq_part_of (pcs i) = Ask_part" and step: "ask_step_lf i (pcs i) q = Some r"
  shows "\<exists>q' pc es. r = Inr (q', pc, es) \<and> lfq_good hb tb kh kt pcs f i q' pc es"
proof -
  note I = lfq_invD [OF inv]
  note loc = I(4) [of i]
  have quiet: "run_spec lfq_spec [] f = Some \<lparr>sp_items = sp_items f, sp_calls = (sp_calls f)(i := sp_calls f i)\<rparr>" by simp
  have end0: "i = 0 \<Longrightarrow> tail_ok ns q pc'" for pc' using not_producer(2) [OF inv, of i pc'] i by (simp add: pushing_def)
  show ?thesis
  proof (cases "pcs i")
    case Size_read
    then have r: "r = Inr (q, Ready, [Told i (Number (unat (fq_size q))), Ret i (Number (unat (fq_size q)))])" using step by simp
    show ?thesis by (rule moved_result [OF inv items r, where c = Outside])
        (use Size_read loc end0 in \<open>simp_all add: pushing_def answers_def sp_set_def\<close>)
  next
    case Empty_head
    then have r: "r = Inr (q, Empty_tail (t_ptr (fq_head q)), [])" using step by simp
    show ?thesis by (rule moved_result [OF inv items r _ _ _ _ quiet])
        (use Empty_head loc end0 in \<open>simp_all add: pushing_def\<close>)
  next
    case (Empty_tail h)
    then have r: "r = Inr (q, Ready, [Told i (Flag (h = t_ptr (fq_tail q))), Ret i (Flag (h = t_ptr (fq_tail q)))])" using step by simp
    show ?thesis by (rule moved_result [OF inv items r, where c = Outside])
        (use Empty_tail loc end0 in \<open>simp_all add: pushing_def answers_def sp_set_def\<close>)
  qed (use i step in simp_all)
qed

lemma thread_ok:
  fixes q :: "('a, 'w::len word) PionLockFreeQueue"
  assumes inv: "lfq_inv hb tb kh kt ns q pcs (sp_calls f)" and items: "sp_items f = map (data_of q) (tl ns)"
    and step: "lfq_thread_step i a junk (pcs i) q = Some r" and small: "Suc kh < 2 ^ LENGTH('w)" "Suc kt < 2 ^ LENGTH('w)"
  shows "\<exists>q' pc es. r = Inr (q', pc, es) \<and> lfq_good hb tb kh kt pcs f i q' pc es"
proof (cases "lfq_part_of (pcs i)")
  case Push_part
  then show ?thesis using step push_ok [OF inv items, of i a junk r] by (simp add: lfq_thread_step_def pushing_def)
next
  case Pop_part
  then show ?thesis using step pop_ok [OF inv items Pop_part _ small] by (simp add: lfq_thread_step_def)
next
  case Ask_part
  then show ?thesis using step ask_ok [OF inv items Ask_part] by (simp add: lfq_thread_step_def)
qed

text \<open>One producer: only thread 0 calls \<open>push\<close>.\<close>

fun one_producer :: "'a lfq_action \<Rightarrow> bool" where
  "one_producer (Invoke i (Push x)) \<longleftrightarrow> i = 0"
| "one_producer act \<longleftrightarrow> True"

lemma one_producer_invoke: "one_producer (Invoke i opn) \<longleftrightarrow> (i = 0 \<or> (\<forall>x. opn \<noteq> Push x))"
  by (cases opn) auto

lemma invoke_ok:
  fixes q :: "('a, 'w::len word) PionLockFreeQueue"
  assumes inv: "lfq_inv hb tb kh kt ns q pcs (sp_calls f)" and items: "sp_items f = map (data_of q) (tl ns)"
    and "pcs i = Ready" "one_producer (Invoke i opn)"
  shows "lfq_good hb tb kh kt pcs f i q (begin_lfq opn) [Call i opn]"
proof -
  note I = lfq_invD [OF inv]
  have "sp_calls f i = Outside" using I(4) [of i] assms(3) by simp
  moreover have "tail_ok ns q pc'" if "i = 0" for pc' using tail_at_end [OF I(2)] assms(3) that by simp
  moreover have "lfq_local hb tb kh kt ns q (Pending opn) (begin_lfq opn)" "owned_nodes (begin_lfq opn :: ('a, 'w word) lfq_pc) = {}"
    "pushing (begin_lfq opn :: ('a, 'w word) lfq_pc) \<Longrightarrow> i = 0"
    using assms(4) by (cases opn; simp add: popping_def pushing_def)+
  ultimately show ?thesis
    by (intro lfq_good_move [OF inv items, where c = "Pending opn"]) (simp_all add: assms(3) sp_set_def)
qed

lemma good_rel:
  fixes s :: "('a, 'w::len word) lfq_state"
  assumes "lfq_good hb tb kh kt (ft_pc s) f i q' pc es" "kh + Suc n < 2 ^ LENGTH('w)" "kt + Suc n < 2 ^ LENGTH('w)"
  shows "\<exists>f'. run_spec lfq_spec es f = Some f' \<and> lfq_rel hb tb n \<lparr>ft_queue = q', ft_pc = (ft_pc s)(i := pc)\<rparr> f'"
proof -
  obtain kh' kt' ns' c where g: "kh' \<le> Suc kh" "kt' \<le> Suc kt" "lfq_inv hb tb kh' kt' ns' q' ((ft_pc s)(i := pc)) ((sp_calls f)(i := c))"
    "run_spec lfq_spec es f = Some \<lparr>sp_items = map (data_of q') (tl ns'), sp_calls = (sp_calls f)(i := c)\<rparr>"
    using assms(1) by (auto simp: lfq_good_def)
  then have "kh' + n < 2 ^ LENGTH('w)" "kt' + n < 2 ^ LENGTH('w)" using assms(2,3) by simp_all
  then have "lfq_rel hb tb n \<lparr>ft_queue = q', ft_pc = (ft_pc s)(i := pc)\<rparr> \<lparr>sp_items = map (data_of q') (tl ns'), sp_calls = (sp_calls f)(i := c)\<rparr>"
    using g(3) unfolding lfq_rel_def by (intro exI [of _ kh'] exI [of _ kt'] exI [of _ ns']) simp
  then show ?thesis using g(4) by blast
qed

lemma lfq_simulation:
  fixes s :: "('a, 'w::len word) lfq_state"
  assumes rel: "lfq_rel hb tb (Suc n) s f" and act: "one_producer act" and step: "lfq_step act s = Some r"
  shows "\<exists>s' es f'. r = Inr (s', es) \<and> run_spec lfq_spec es f = Some f' \<and> lfq_rel hb tb n s' f'"
proof -
  obtain kh kt ns where R: "kh + Suc n < 2 ^ LENGTH('w)" "kt + Suc n < 2 ^ LENGTH('w)"
    "lfq_inv hb tb kh kt ns (ft_queue s) (ft_pc s) (sp_calls f)" "sp_items f = map (data_of (ft_queue s)) (tl ns)"
    using rel by (auto simp: lfq_rel_def)
  show ?thesis
  proof (cases act)
    case (Invoke i opn)
    then have "ft_pc s i = Ready" "r = Inr (s\<lparr>ft_pc := (ft_pc s)(i := begin_lfq opn)\<rparr>, [Call i opn])"
      using step by (auto split: lfq_pc.splits)
    moreover have "s\<lparr>ft_pc := (ft_pc s)(i := begin_lfq opn)\<rparr> = \<lparr>ft_queue = ft_queue s, ft_pc = (ft_pc s)(i := begin_lfq opn)\<rparr>"
      by (cases s) simp
    ultimately show ?thesis using good_rel [OF invoke_ok [OF R(3,4)] R(1,2)] act Invoke by auto
  next
    case (Run i a junk)
    then obtain r' where r': "lfq_thread_step i a junk (ft_pc s i) (ft_queue s) = Some r'"
      "r = map_sum id (\<lambda>(q, pc, es). (\<lparr>ft_queue = q, ft_pc = (ft_pc s)(i := pc)\<rparr>, es)) r'"
      using step by auto
    have small: "Suc kh < 2 ^ LENGTH('w)" "Suc kt < 2 ^ LENGTH('w)" using R(1,2) by linarith+
    from thread_ok [OF R(3,4) r'(1) small] obtain q' pc es where
      "r' = Inr (q', pc, es)" "lfq_good hb tb kh kt (ft_pc s) f i q' pc es" by blast
    then show ?thesis using good_rel [OF _ R(1,2)] r'(2) by auto
  qed
qed

lemma lfq_rel_spare:
  fixes s :: "('a, 'w::len word) lfq_state"
  assumes "lfq_rel hb tb (Suc n) s f"
  shows "lfq_rel hb tb n s f"
proof -
  obtain kh kt ns where "kh + Suc n < 2 ^ LENGTH('w)" "kt + Suc n < 2 ^ LENGTH('w)"
    "lfq_inv hb tb kh kt ns (ft_queue s) (ft_pc s) (sp_calls f)" "sp_items f = map (data_of (ft_queue s)) (tl ns)"
    using assms by (auto simp: lfq_rel_def)
  then show ?thesis unfolding lfq_rel_def by (intro exI [of _ kh] exI [of _ kt] exI [of _ ns]) simp
qed

interpretation lock_free: counted_linearizable lfq_step one_producer lfq_spec "lfq_rel hb tb" for hb tb
  by unfold_locales (use lfq_simulation lfq_rel_spare in blast)+

lemma lfq_start_rel:
  fixes hb tb :: "'w::len word"
  assumes "n < 2 ^ LENGTH('w)"
  shows "lfq_rel hb tb n (lfq_start a junk hb tb) lfq_spec_init"
proof -
  have "lfq_inv hb tb 0 0 [a] (lfq_init a junk hb tb) (\<lambda>_. Ready) (\<lambda>_. Outside)"
    by (simp add: lfq_inv_def list_ok_def tail_ok_def memory_ok_def closed_links_def lfq_init_def tagged_set_def next_of_def pushing_def)
  then show ?thesis using assms unfolding lfq_rel_def
    by (intro exI [of _ 0] exI [of _ 0] exI [of _ "[a]"]) (simp add: lfq_start_def lfq_spec_init_def)
qed

section \<open>The promise of the class\<close>

text \<open>The items of a queue: those in the nodes behind the head.\<close>

definition items_behind :: "('a, 't) PionLockFreeQueue \<Rightarrow> nat list \<Rightarrow> 'a list" where
  "items_behind q ns = map (data_of q) (tl ns)"

text \<open>C22: With one producer, any number of consumers and any schedule, the lock-free queue is linearizable as a queue: no step reads memory
  the queue does not own, every call takes effect at one moment between its call and its return, items come
  out in the order in which they went in, none twice, a \<open>pop\<close> returns nothing only when the queue was empty at a
  moment of the call, and at the end the nodes from the head to the end of the list hold exactly the items that have not been
  taken.  The bound on the schedule is the width of the tags: within it no tag comes round.\<close>

theorem lock_free_queue_one_producer:
  fixes hb tb :: "'w::len word"
  assumes "list_all one_producer acts" and "length acts < 2 ^ LENGTH('w)"
  shows "\<exists>s es f ns. run_schedule lfq_step acts (lfq_start a junk hb tb) = Inr (s, es) \<and> run_spec lfq_spec es lfq_spec_init = Some f \<and>
    lf_linked (ft_queue s) ns \<and> t_ptr (fq_head (ft_queue s)) = Some (hd ns) \<and> ns \<noteq> [] \<and> distinct ns \<and> sp_items f = items_behind (ft_queue s) ns"
proof -
  from lock_free.counted_runs [OF lfq_start_rel [OF assms(2)] assms(1)]
  obtain s es f where "run_schedule lfq_step acts (lfq_start a junk hb tb) = Inr (s, es)"
    "run_spec lfq_spec es lfq_spec_init = Some f" "lfq_rel hb tb 0 s f" by blast
  then show ?thesis by (auto simp: lfq_rel_def lfq_inv_def items_behind_def dest: list_okD)
qed

text \<open>A schedule of a producer and two consumers, with a step of each in between.\<close>

definition contended_run :: "string lfq_action list" where
  "contended_run =
     [Invoke 0 (Push ''x''), Run 0 7 [], Invoke 1 Pop, Run 1 0 [], Run 0 0 []] @ replicate 7 (Run 0 0 []) @
     Invoke 2 Pop # replicate 9 (Run 2 0 []) @ replicate 9 (Run 1 0 [])"

theorem lock_free_queue_one_producer_witness:
  "list_all one_producer contended_run \<and> length contended_run < 2 ^ LENGTH(16) \<and>
   (\<exists>s es f ns. run_schedule lfq_step contended_run (lfq_start 1 [] (5 :: 16 word) 65535) = Inr (s, es) \<and>
    run_spec lfq_spec es lfq_spec_init = Some f \<and> lf_linked (ft_queue s) ns \<and> t_ptr (fq_head (ft_queue s)) = Some (hd ns) \<and>
    ns \<noteq> [] \<and> distinct ns \<and> sp_items f = items_behind (ft_queue s) ns)"
proof -
  have "list_all one_producer contended_run" "length contended_run < 2 ^ LENGTH(16)" by (simp_all add: contended_run_def list_all_iff)
  with lock_free_queue_one_producer [of contended_run 1 "[]" "5 :: 16 word" 65535] show ?thesis by blast
qed

section \<open>Clearing\<close>

lemma clear_one_linked:
  assumes "lf_linked q (h # b # ns)" "distinct (h # b # ns)" "fq_nodes q h = Some n" "t_ptr (fq_head q) = Some h"
  shows "lf_linked (clear_one h n q) (b # ns)" "t_ptr (fq_head (clear_one h n q)) = Some b" "fq_tail (clear_one h n q) = fq_tail q"
    "fq_free (clear_one h n q) = h # fq_free q" "dom (fq_nodes (clear_one h n q)) = dom (fq_nodes q)"
    "fq_size (clear_one h n q) = fq_size q - 1"
proof -
  have "\<forall>a\<in>set (b # ns). fq_nodes (clear_one h n q) a = fq_nodes q a"
    using assms(2) by (auto simp: clear_one_def destroyNode_lf_def put_node_def Let_def)
  from lf_linked_cong [OF this] show "lf_linked (clear_one h n q) (b # ns)" using assms(1) by simp
  show "t_ptr (fq_head (clear_one h n q)) = Some b" using assms(1,3)
    by (simp add: clear_one_def destroyNode_lf_def put_node_def Let_def next_of_def)
qed (use assms(3) in \<open>auto simp: clear_one_def destroyNode_lf_def put_node_def Let_def\<close>)

lemma clear_empties:
  assumes "lf_linked q ns" "ns \<noteq> []" "distinct ns" "t_ptr (fq_head q) = Some (hd ns)" "t_ptr (fq_tail q) = Some (last ns)"
  shows "\<exists>q'. clear_lf (length ns) q = Some (Inr q') \<and> empty_lf q' \<and> t_ptr (fq_head q') = Some (last ns) \<and>
    fq_free q' = rev (butlast ns) @ fq_free q \<and> dom (fq_nodes q') = dom (fq_nodes q) \<and> fq_size q' = fq_size q - of_nat (length (butlast ns))"
  using assms
proof (induction ns arbitrary: q)
  case (Cons h ns)
  show ?case
  proof (cases ns)
    case Nil
    then show ?thesis using Cons.prems by (auto simp: empty_lf_def)
  next
    case (Cons b ms)
    obtain n where n: "fq_nodes q h = Some n" using Cons.prems(1) Cons by auto
    note C = clear_one_linked [of q h b ms n, OF Cons.prems(1,3) [unfolded Cons] n]
    have "last ns \<noteq> h" using Cons.prems(3) Cons last_in_set [of ns] by auto
    then have "\<not> empty_lf q" using Cons.prems(4,5) Cons by (auto simp: empty_lf_def)
    moreover have "head_node q = Some (h, n)" using Cons.prems(4) n by (simp add: head_node_def)
    moreover have "t_ptr (fq_head q) = Some h" using Cons.prems(4) by simp
    ultimately show ?thesis
      using Cons.IH [of "clear_one h n q"] C Cons.prems Cons by (auto simp: algebra_simps)
  qed
qed simp

section \<open>Two producers\<close>

text \<open>With two producers the order is lost: a node that was taken out and created again has its tag back at zero, so the first producer, which has read
  \<open>next\<close> before, links its node to one that is no longer on the list.  Its item never comes out, and the next \<open>pop\<close> returns
  nothing although the call that put the item in has returned.\<close>

definition two_producers_run :: "string lfq_action list" where
  "two_producers_run =
     [Invoke 0 (Push ''x''), Run 0 10 [], Run 0 0 [], Run 0 0 [], Run 0 0 [], Run 0 0 []] @
     Invoke 1 (Push ''y'') # Run 1 11 [] # replicate 7 (Run 1 0 []) @
     Invoke 2 Pop # replicate 8 (Run 2 0 []) @
     [Invoke 1 (Push ''z''), Run 1 0 []] @
     replicate 3 (Run 0 0 []) @
     Invoke 2 Pop # replicate 4 (Run 2 0 [])"

lemma two_producers:
  "\<exists>s. run_schedule lfq_step two_producers_run (lfq_start 1 [] ht tt :: (string, 16 word) lfq_state)
   = Inr (s, [Call 0 (Push ''x''), Call 1 (Push ''y''), Enq 1 ''y'', Ret 1 Unit, Call 2 Pop, Deq 2 ''y'', Ret 2 (Item ''y''),
       Call 1 (Push ''z''), Enq 0 ''x'', Ret 0 Unit, Call 2 Pop, Saw_empty 2, Ret 2 Nothing])"
  by (simp add: two_producers_run_def lfq_start_def lfq_init_def lfq_thread_step_def follow_def put_node_def createNode_lf_def destroyNode_lf_def
      tagged_cas_def tagged_set_def free_head_def eval_nat_numeral)

text \<open>No queue answers like that.\<close>

lemma two_producers_not_a_queue:
  "run_spec lfq_spec [Call 0 (Push ''x''), Call 1 (Push ''y''), Enq 1 ''y'', Ret 1 Unit, Call 2 Pop, Deq 2 ''y'', Ret 2 (Item ''y''),
       Call 1 (Push ''z''), Enq 0 ''x'', Ret 0 Unit, Call 2 Pop, Saw_empty 2, Ret 2 Nothing] lfq_spec_init = None"
  by (simp add: lfq_spec_init_def sp_set_def popping_def answers_def)

end
