(* ===== verification/Pion_Id.thy ===== *)
theory Pion_Id
  imports Http_Writer Pion_Blob
begin

text \<open>
  \<open>PionId.hpp\<close>: universally unique identifiers, 16 bytes with a text form.  The bytes of an identifier that a
  constructor has not written are \<open>None\<close>, as in the other buffers.  The random number generator is a
  parameter, a function that gives one \<open>unsigned long\<close> of 64 bits and the next state; a number is
  stored with its lowest byte first.  The seed and the hash function are boost's and are left out.
\<close>

section \<open>Identifiers\<close>

definition PION_ID_DATA_BYTES :: nat where "PION_ID_DATA_BYTES = 16"
definition PION_ID_HEX_BYTES :: nat where "PION_ID_HEX_BYTES = 16 * 2 + 4"

text \<open>\<open>m_data\<close> before the body of a constructor.\<close>

definition m_data :: buffer where "m_data = replicate PION_ID_DATA_BYTES None"

fun id_text_loop :: "nat \<Rightarrow> string \<Rightarrow> string" where
  "id_text_loop i [] = []"
| "id_text_loop i (c # cs) =
     hex_lower (drop_bit 4 (code c)) # hex_lower (code c mod 16) #
     (if i = 3 \<or> i = 5 \<or> i = 7 \<or> i = 9 then CHR ''-'' # id_text_loop (i + 1) cs else id_text_loop (i + 1) cs)"

definition to_string :: "buffer \<Rightarrow> fault + string" where
  "to_string data = bindE (written_bytes data) (\<lambda>bytes. Inr (id_text_loop 0 bytes))"

definition isxdigit :: "char \<Rightarrow> bool" where
  "isxdigit c \<longleftrightarrow> hex_digit c \<noteq> None"

text \<open>The argument is a C string, which ends at the first null byte.\<close>

fun from_string_loop :: "string \<Rightarrow> nat \<Rightarrow> buffer \<Rightarrow> buffer" where
  "from_string_loop [] data_pos data = data"
| "from_string_loop (c # str) data_pos data =
     (if code c = 0 \<or> data_pos \<ge> PION_ID_DATA_BYTES then data
      else if isxdigit c then
        (case str of
           [] \<Rightarrow> data
         | d # str' \<Rightarrow>
             if code d = 0 \<or> \<not> isxdigit d then data
             else from_string_loop str' (data_pos + 1) (data[data_pos := Some (char_of (nat (strtol16 [c, d])))]))
      else from_string_loop str data_pos data)"

definition from_string :: "string \<Rightarrow> buffer \<Rightarrow> buffer" where
  "from_string str data = from_string_loop str 0 data"

text \<open>The constructor from a string, and the copies.\<close>

definition PionId_from :: "string \<Rightarrow> buffer" where
  "PionId_from str = from_string str m_data"

definition id_copy :: "buffer \<Rightarrow> buffer" where "id_copy other = take PION_ID_DATA_BYTES other"

definition id_byte :: "nat \<Rightarrow> buffer \<Rightarrow> fault + char" where
  "id_byte n data =
     (if n < length data then case data ! n of None \<Rightarrow> Inl Uninitialised_read | Some c \<Rightarrow> Inr c else Inl Out_of_bounds)"

text \<open>The comparisons.\<close>

definition id_compare :: "(int \<Rightarrow> bool) \<Rightarrow> buffer \<Rightarrow> buffer \<Rightarrow> fault + bool" where
  "id_compare test data data' =
     bindE (written_bytes data) (\<lambda>x. bindE (written_bytes data') (\<lambda>y. Inr (test (memcmp x y PION_ID_DATA_BYTES))))"

definition id_eq :: "buffer \<Rightarrow> buffer \<Rightarrow> fault + bool" where "id_eq = id_compare (\<lambda>n. n = 0)"
definition id_neq :: "buffer \<Rightarrow> buffer \<Rightarrow> fault + bool" where "id_neq = id_compare (\<lambda>n. n \<noteq> 0)"
definition id_less :: "buffer \<Rightarrow> buffer \<Rightarrow> fault + bool" where "id_less = id_compare (\<lambda>n. n < 0)"
definition id_greater :: "buffer \<Rightarrow> buffer \<Rightarrow> fault + bool" where "id_greater = id_compare (\<lambda>n. n > 0)"

section \<open>Generation\<close>

definition long_bytes :: "64 word \<Rightarrow> string" where
  "long_bytes w = map (\<lambda>k. char_of (unat (drop_bit (8 * k) w))) [0..<8]"

definition set_byte :: "nat \<Rightarrow> nat \<Rightarrow> nat \<Rightarrow> string \<Rightarrow> string" where
  "set_byte n keep bits data = data[n := char_of (or (and (code (data ! n)) keep) bits)]"

definition generate :: "('g \<Rightarrow> 64 word \<times> 'g) \<Rightarrow> 'g \<Rightarrow> string \<times> 'g" where
  "generate rng g =
     (let (a, g1) = rng g; (b, g2) = rng g1;
          data = long_bytes a @ long_bytes b;
          data1 = set_byte 8 0xBF 0x80 data;
          data2 = set_byte 6 0x4F 0x40 data1
      in (data2, g2))"

definition PionId_generated :: "('g \<Rightarrow> 64 word \<times> 'g) \<Rightarrow> 'g \<Rightarrow> buffer \<times> 'g" where
  "PionId_generated rng g = (let (data, g') = generate rng g in (map Some data, g'))"

section \<open>The text form\<close>

lemma nibbles: "drop_bit 4 (code c) < 16" "code c mod 16 < 16" "16 * drop_bit 4 (code c) + code c mod 16 = code c"
proof -
  have "drop_bit 4 (code c) = code c div 16" by (simp add: drop_bit_eq_div)
  moreover have "code c div 16 < 16" by (rule less_mult_imp_div_less) simp
  ultimately show "drop_bit 4 (code c) < 16" "16 * drop_bit 4 (code c) + code c mod 16 = code c" by simp_all
qed simp

lemma hex_digit_lower: "n < 16 \<Longrightarrow> hex_digit (hex_lower n) = Some (int n)"
  by (auto simp: hex_digit_def code_hex_lower)

lemma strtol16_pair:
  assumes "hex_digit c = Some h" "hex_digit d = Some l"
  shows "strtol16 [c, d] = 16 * h + l"
proof -
  have "\<not> isspace c" "c \<noteq> CHR ''-''" "c \<noteq> CHR ''+''"
    using assms(1) by (auto simp: hex_digit_def isspace_def split: if_splits)
  then show ?thesis using assms by (simp add: strtol16_def skip_0x_def)
qed

text \<open>Two digits give a byte, anything that is not a digit is skipped.\<close>

lemma from_pair:
  assumes "hex_digit c = Some (int h)" "hex_digit d = Some (int l)" "pos < PION_ID_DATA_BYTES"
  shows "from_string_loop (c # d # str) pos data = from_string_loop str (pos + 1) (data[pos := Some (char_of (16 * h + l))])"
proof -
  have "code c \<noteq> 0" "code d \<noteq> 0" using assms(1,2) by (auto simp: hex_digit_def split: if_splits)
  moreover have "nat (16 * int h + int l) = 16 * h + l" by linarith
  ultimately show ?thesis using assms by (simp add: isxdigit_def strtol16_pair [OF assms(1,2)])
qed

lemma from_separator:
  "hex_digit c = None \<Longrightarrow> code c \<noteq> 0 \<Longrightarrow> from_string_loop (c # str) pos data = from_string_loop str pos data"
  by (cases str; cases "pos \<ge> PION_ID_DATA_BYTES") (auto simp: isxdigit_def)

lemma from_full: "pos \<ge> PION_ID_DATA_BYTES \<Longrightarrow> from_string_loop str pos data = data"
  by (cases str) simp_all

text \<open>A text of separators and pairs of digits, in any case.\<close>

definition id_text :: "(string \<times> char \<times> char) list \<Rightarrow> string" where
  "id_text ps = concat (map (\<lambda>(sep, h, l). sep @ [h, l]) ps)"

definition id_pair :: "string \<times> char \<times> char \<Rightarrow> char \<Rightarrow> bool" where
  "id_pair p c = (case p of (sep, h, l) \<Rightarrow>
     (\<forall>x\<in>set sep. hex_digit x = None \<and> code x \<noteq> 0) \<and>
     hex_digit h = Some (int (code c div 16)) \<and> hex_digit l = Some (int (code c mod 16)))"

lemma from_separators:
  "\<forall>x\<in>set sep. hex_digit x = None \<and> code x \<noteq> 0 \<Longrightarrow>
   from_string_loop (sep @ str) pos data = from_string_loop str pos data"
  by (induction sep) (simp_all add: from_separator del: from_string_loop.simps(2))

lemma from_string_pairs:
  assumes "list_all2 id_pair ps bytes" "pos + length bytes = PION_ID_DATA_BYTES" "length data = PION_ID_DATA_BYTES"
  shows "from_string_loop (id_text ps @ rest) pos data = take pos data @ map Some bytes"
  using assms
proof (induction ps bytes arbitrary: pos data rule: list_all2_induct)
  case Nil
  then show ?case by (simp add: id_text_def from_full)
next
  case (Cons p ps c bytes)
  obtain sep h l where p: "p = (sep, h, l)" by (cases p)
  have pos: "pos < PION_ID_DATA_BYTES" using Cons.prems(1) by simp
  have byte: "char_of (16 * (code c div 16) + code c mod 16) = c" by simp
  have "from_string_loop (id_text (p # ps) @ rest) pos data =
      from_string_loop (id_text ps @ rest) (pos + 1) (data[pos := Some c])"
    using Cons.hyps(1) from_pair [OF _ _ pos, of h "code c div 16" l "code c mod 16"]
    unfolding byte by (simp add: p id_text_def id_pair_def from_separators del: from_string_loop.simps(2))
  also have "\<dots> = take (pos + 1) (data[pos := Some c]) @ map Some bytes" using Cons by simp
  also have "take (pos + 1) (data[pos := Some c]) = take pos data @ [Some c]"
    using pos Cons.prems(2) by (simp add: take_Suc_conv_app_nth)
  finally show ?case by simp
qed

text \<open>The pairs \<open>to_string\<close> writes.\<close>

definition sep_at :: "nat \<Rightarrow> string" where
  "sep_at i = (if i = 4 \<or> i = 6 \<or> i = 8 \<or> i = 10 then ''-'' else [])"

fun id_pairs :: "nat \<Rightarrow> string \<Rightarrow> (string \<times> char \<times> char) list" where
  "id_pairs i [] = []"
| "id_pairs i (c # cs) = (sep_at i, hex_lower (code c div 16), hex_lower (code c mod 16)) # id_pairs (i + 1) cs"

lemma id_pairs_ok: "list_all2 id_pair (id_pairs i bytes) bytes"
proof (induction bytes arbitrary: i)
  case (Cons c bytes)
  have "code c div 16 < 16" using nibbles(1) [of c] by (simp add: drop_bit_eq_div)
  moreover have "\<forall>x\<in>set (sep_at i). hex_digit x = None \<and> code x \<noteq> 0" by (simp add: sep_at_def hex_digit_def)
  ultimately have "id_pair (sep_at i, hex_lower (code c div 16), hex_lower (code c mod 16)) c"
    by (simp add: id_pair_def hex_digit_lower)
  with Cons show ?case by simp
qed simp

lemma id_text_loop_Cons:
  "id_text_loop i (c # cs) = hex_lower (code c div 16) # hex_lower (code c mod 16) # sep_at (i + 1) @ id_text_loop (i + 1) cs"
proof -
  have "i + 1 = 4 \<longleftrightarrow> i = 3" "i + 1 = 6 \<longleftrightarrow> i = 5" "i + 1 = 8 \<longleftrightarrow> i = 7" "i + 1 = 10 \<longleftrightarrow> i = 9" by auto
  then show ?thesis by (simp only: id_text_loop.simps sep_at_def drop_bit_eq_div) simp
qed

declare id_text_loop.simps(2) [simp del]

lemma id_text_loop_pairs:
  "i + length bytes = PION_ID_DATA_BYTES \<Longrightarrow> sep_at i @ id_text_loop i bytes = id_text (id_pairs i bytes)"
proof (induction bytes arbitrary: i)
  case Nil
  then show ?case by (simp add: id_text_def PION_ID_DATA_BYTES_def sep_at_def)
next
  case (Cons c bytes)
  have "sep_at (i + 1) @ id_text_loop (i + 1) bytes = id_text (id_pairs (i + 1) bytes)"
    using Cons.prems by (intro Cons.IH) simp
  then show ?case by (simp add: id_text_def id_text_loop_Cons)
qed

lemma to_string_text:
  assumes "length bytes = PION_ID_DATA_BYTES"
  shows "to_string (map Some bytes) = Inr (id_text_loop 0 bytes)" "id_text_loop 0 bytes = id_text (id_pairs 0 bytes)"
  using id_text_loop_pairs [of 0 bytes] assms by (simp_all add: to_string_def sep_at_def)

text \<open>The places of the text.\<close>

lemma sixteen:
  assumes "length bytes = PION_ID_DATA_BYTES"
  obtains a b c d e f g h i j k l m n p q where "bytes = [a, b, c, d, e, f, g, h, i, j, k, l, m, n, p, q]"
  using assms by (auto simp: PION_ID_DATA_BYTES_def eval_nat_numeral length_Suc_conv)

lemma id_text_shape:
  assumes "length bytes = PION_ID_DATA_BYTES"
  shows "length (id_text_loop 0 bytes) = PION_ID_HEX_BYTES"
    and "id_text_loop 0 bytes ! 14 = hex_lower (code (bytes ! 6) div 16)"
    and "id_text_loop 0 bytes ! 19 = hex_lower (code (bytes ! 8) div 16)"
    and "\<forall>i\<in>{8, 13, 18, 23}. id_text_loop 0 bytes ! i = CHR ''-''"
  using assms by (rule sixteen, simp add: id_text_loop_Cons sep_at_def PION_ID_HEX_BYTES_def)+

section \<open>The order\<close>

lemma digits_less: "(m :: nat) < n \<longleftrightarrow> m div 16 < n div 16 \<or> m div 16 = n div 16 \<and> m mod 16 < n mod 16"
proof -
  define a b c d where "a = m div 16" and "b = m mod 16" and "c = n div 16" and "d = n mod 16"
  then have "m = 16 * a + b" "n = 16 * c + d" "b < 16" "d < 16" by simp_all
  then have "m < n \<longleftrightarrow> a < c \<or> a = c \<and> b < d" by linarith
  then show ?thesis by (simp add: a_def b_def c_def d_def)
qed

lemma sgn_memcmp_text:
  assumes "length x = length y"
  shows "sgn (memcmp (id_text_loop i x) (id_text_loop i y) (length (id_text_loop i x))) = sgn (memcmp x y (length x))"
  using assms
proof (induction x y arbitrary: i rule: list_induct2)
  case Nil
  then show ?case by simp
next
  case (Cons c x d y)
  have prefix: "memcmp (u @ v) (u @ w) (length u + n) = memcmp v w n" for u v w n by (induction u) auto
  have n: "code c mod 16 < 16" "code c div 16 < 16" "code d mod 16 < 16" "code d div 16 < 16"
    using nibbles(1) [of c] nibbles(1) [of d] by (simp_all add: drop_bit_eq_div)
  have less: "code c < code d \<longleftrightarrow> code c div 16 < code d div 16 \<or> code c div 16 = code d div 16 \<and> code c mod 16 < code d mod 16"
    "code d < code c \<longleftrightarrow> code d div 16 < code c div 16 \<or> code d div 16 = code c div 16 \<and> code d mod 16 < code c mod 16"
    by (rule digits_less)+
  have IH: "sgn (memcmp (sep_at (i + 1) @ id_text_loop (i + 1) x) (sep_at (i + 1) @ id_text_loop (i + 1) y)
      (length (sep_at (i + 1)) + length (id_text_loop (i + 1) x))) = sgn (memcmp x y (length x))"
    unfolding prefix by (rule Cons.IH)
  consider "code c div 16 = code d div 16" "code c mod 16 = code d mod 16" | "code c div 16 = code d div 16" "code c mod 16 \<noteq> code d mod 16"
    | "code c div 16 \<noteq> code d div 16" by blast
  then show ?case
  proof cases
    case 1
    then have "code c = code d" by (metis div_mult_mod_eq)
    with 1 IH show ?thesis by (simp add: id_text_loop_Cons)
  next
    case 2
    then have "code c < code d \<longleftrightarrow> code c mod 16 < code d mod 16" "code d < code c \<longleftrightarrow> code d mod 16 < code c mod 16"
      "code c \<noteq> code d" using less by auto
    with 2 n show ?thesis by (auto simp: id_text_loop_Cons code_hex_lower sgn_if)
  next
    case 3
    then have "code c < code d \<longleftrightarrow> code c div 16 < code d div 16" "code d < code c \<longleftrightarrow> code d div 16 < code c div 16"
      "code c \<noteq> code d" using less by auto
    with 3 n show ?thesis by (auto simp: id_text_loop_Cons code_hex_lower sgn_if)
  qed
qed

section \<open>The generator\<close>

lemma long_bytes_length: "length (long_bytes w) = 8"
  by (simp add: long_bytes_def)

text \<open>The two bytes with fixed bits, for all values of a byte.\<close>

lemma high_digit: "code (char_of (n :: nat)) div 16 = take_bit 4 (drop_bit 4 n)"
proof -
  have "code (char_of n :: char) div 16 = drop_bit 4 (take_bit 8 n)" by (simp add: drop_bit_eq_div take_bit_eq_mod)
  also have "\<dots> = take_bit 4 (drop_bit 4 n)" by (simp add: drop_bit_take_bit)
  finally show ?thesis .
qed

lemma version_byte: "code (char_of (or (and (code c) 0x4F) 0x40)) div 16 = 4"
proof -
  have "list_all (\<lambda>m. take_bit 4 (or (and m 4) 4) = (4 :: nat)) [0..<16]" by code_simp
  then have "take_bit 4 (or (and (drop_bit 4 (code c)) 4) 4) = 4"
    unfolding list_all_iff by (rule bspec) (simp add: nibbles(1))
  moreover have "code (char_of (or (and (code c) 0x4F) 0x40)) div 16 = take_bit 4 (or (and (drop_bit 4 (code c)) 4) 4)"
    unfolding high_digit by (simp add: drop_bit_or drop_bit_and)
  ultimately show ?thesis by (simp only:)
qed

lemma variant_byte: "code (char_of (or (and (code c) 0xBF) 0x80)) div 16 \<in> {8, 9, 10, 11}"
proof -
  have "list_all (\<lambda>m. take_bit 4 (or (and m 11) 8) \<in> {8, 9, 10, 11 :: nat}) [0..<16]" by code_simp
  then have "take_bit 4 (or (and (drop_bit 4 (code c)) 11) 8) \<in> {8, 9, 10, 11}"
    unfolding list_all_iff by (rule bspec) (simp add: nibbles(1))
  moreover have "code (char_of (or (and (code c) 0xBF) 0x80)) div 16 = take_bit 4 (or (and (drop_bit 4 (code c)) 11) 8)"
    unfolding high_digit by (simp add: drop_bit_or drop_bit_and)
  ultimately show ?thesis by (simp only:)
qed

lemma generate_bytes:
  assumes "generate rng g = (data, g')"
  shows "length data = PION_ID_DATA_BYTES" "code (data ! 6) div 16 = 4" "code (data ! 8) div 16 \<in> {8, 9, 10, 11}"
proof -
  obtain x where x: "length x = 16" "data = set_byte 6 0x4F 0x40 (set_byte 8 0xBF 0x80 x)"
    using assms that [of "long_bytes (fst (rng g)) @ long_bytes (fst (rng (snd (rng g))))"]
    by (auto simp: generate_def long_bytes_length Let_def split: prod.splits)
  then have "data ! 6 = char_of (or (and (code (x ! 6)) 0x4F) 0x40)" "data ! 8 = char_of (or (and (code (x ! 8)) 0xBF) 0x80)"
    by (simp_all add: set_byte_def)
  then show "code (data ! 6) div 16 = 4" "code (data ! 8) div 16 \<in> {8, 9, 10, 11}"
    by (simp_all only: version_byte variant_byte)
  show "length data = PION_ID_DATA_BYTES" using x by (simp add: set_byte_def PION_ID_DATA_BYTES_def)
qed

section \<open>Properties\<close>

lemma from_own_text:
  assumes "length bytes = PION_ID_DATA_BYTES" "list_all2 id_pair ps bytes"
  shows "PionId_from (id_text ps @ rest) = map Some bytes"
  using from_string_pairs [OF assms(2), of 0 m_data rest] assms(1) by (simp add: PionId_from_def from_string_def m_data_def)

text \<open>C40: The text of an identifier has 36 characters, with dashes at the places of the standard form, and the constructor
  reads the same identifier back from it; it also does from any text that has the digits of each byte next to
  each other, in upper or lower case and with anything that is no digit between the bytes.\<close>

theorem id_text_roundtrip:
  assumes "length bytes = PION_ID_DATA_BYTES"
  shows "\<exists>t. to_string (map Some bytes) = Inr t \<and> length t = PION_ID_HEX_BYTES \<and> (\<forall>i\<in>{8, 13, 18, 23}. t ! i = CHR ''-'') \<and>
     PionId_from (t @ rest) = map Some bytes \<and>
     (\<forall>ps. list_all2 id_pair ps bytes \<longrightarrow> PionId_from (id_text ps @ rest) = map Some bytes)"
  using to_string_text [OF assms] id_text_shape [OF assms] from_own_text [OF assms] id_pairs_ok [of 0 bytes] by simp

lemma id_text_roundtrip_witness:
  "\<exists>t. to_string (map Some ''0123456789abcdef'') = Inr t \<and> PionId_from t = map Some ''0123456789abcdef''"
  using id_text_roundtrip [of "''0123456789abcdef''" "[]"] by (auto simp: PION_ID_DATA_BYTES_def)

text \<open>Comparing identifiers is comparing their texts in the order of the alphabet, and they are equal when
  their texts are.\<close>

theorem id_order_is_text_order:
  assumes "length x = PION_ID_DATA_BYTES" "length y = PION_ID_DATA_BYTES"
    and "to_string (map Some x) = Inr s" "to_string (map Some y) = Inr t"
  shows "id_less (map Some x) (map Some y) = Inr (map code s < map code t) \<and>
     id_greater (map Some x) (map Some y) = Inr (map code t < map code s) \<and>
     id_eq (map Some x) (map Some y) = Inr (s = t)"
proof -
  have st: "s = id_text_loop 0 x" "t = id_text_loop 0 y" using assms to_string_text(1) by simp_all
  have len: "length s = PION_ID_HEX_BYTES" "length t = PION_ID_HEX_BYTES" using id_text_shape(1) assms(1,2) st by simp_all
  have sgn: "sgn (memcmp s t PION_ID_HEX_BYTES) = sgn (memcmp x y PION_ID_DATA_BYTES)"
    using sgn_memcmp_text [of x y 0] assms(1,2) len st by simp
  have "memcmp s t PION_ID_HEX_BYTES < 0 \<longleftrightarrow> map code s < map code t" "memcmp s t PION_ID_HEX_BYTES > 0 \<longleftrightarrow> map code t < map code s"
    "memcmp s t PION_ID_HEX_BYTES = 0 \<longleftrightarrow> s = t"
    using memcmp_lex [of s t] memcmp_eq [of s t] len by simp_all
  moreover have "n < 0 \<longleftrightarrow> m < 0" "n > 0 \<longleftrightarrow> m > 0" "n = 0 \<longleftrightarrow> m = 0" if "sgn m = sgn n" for m n :: int
    using that by (auto simp: sgn_if split: if_splits)
  note this [OF sgn]
  ultimately show ?thesis by (simp add: id_less_def id_greater_def id_eq_def id_compare_def)
qed

lemma id_order_is_text_order_witness:
  "id_less (map Some ''0123456789abcdef'') (map Some ''0123456789abcdeg'') = Inr True"
proof -
  let ?s = "''30313233-3435-3637-3839-616263646566''" and ?t = "''30313233-3435-3637-3839-616263646567''"
  have "to_string (map Some ''0123456789abcdef'') = Inr ?s" "to_string (map Some ''0123456789abcdeg'') = Inr ?t"
    by code_simp+
  from id_order_is_text_order [OF _ _ this] show ?thesis by (simp add: PION_ID_DATA_BYTES_def)
qed

text \<open>A generated identifier is a random one of version 4: its text has the digit 4 at the place of the version and one of
  8, 9, a, b at the place of the variant, and can be read back.\<close>

theorem generated_id_version_4:
  assumes "PionId_generated rng g = (data, g')"
  shows "\<exists>t. to_string data = Inr t \<and> t ! 14 = CHR ''4'' \<and> t ! 19 \<in> set ''89ab'' \<and> PionId_from t = data"
proof -
  obtain bytes where b: "generate rng g = (bytes, g')" "data = map Some bytes"
    using assms by (auto simp: PionId_generated_def split: prod.splits)
  note G = generate_bytes [OF b(1)]
  have "hex_lower 4 = CHR ''4''" "hex_lower 8 = CHR ''8''" "hex_lower 9 = CHR ''9''" "hex_lower 10 = CHR ''a''" "hex_lower 11 = CHR ''b''"
    by code_simp+
  then show ?thesis
    using to_string_text [OF G(1)] id_text_shape(2,3) [OF G(1)] G from_own_text [OF G(1) id_pairs_ok, of 0 "[]"] b(2) by auto
qed

lemma generated_id_version_4_witness:
  "\<exists>data g' t. PionId_generated (\<lambda>n. (n, n + 1)) 41 = (data, g') \<and> to_string data = Inr t \<and> t ! 14 = CHR ''4''"
proof -
  obtain data g' where d: "PionId_generated (\<lambda>n. (n, n + 1)) 41 = (data, g')" by (cases "PionId_generated (\<lambda>n. (n, n + 1)) (41 :: 64 word)")
  with generated_id_version_4 [OF d] show ?thesis by blast
qed

text \<open>A text that ends early leaves the rest of the bytes as they were, which nobody has written.\<close>

lemma short_text_uninitialised:
  "to_string (PionId_from ''bb49b9ca-e733-47c0-9a26-0f8f53ea166'') = Inl Uninitialised_read"
  "id_eq (PionId_from ''bb49'') (PionId_from ''bb49'') = Inl Uninitialised_read"
  by code_simp+

end
