(* ===== verification/Pion_Utilities.thy ===== *)
theory Pion_Utilities
  imports Interleaving
begin

text \<open>
  Two small classes of the library: \<open>PionAdminRights\<close>, which raises the effective user of the process to the
  administrator for the life of an object, and \<open>PionCounter\<close>.  The calls of the operating system are parameters.
  \<open>boost::mutex\<close> is the thread that has it.
\<close>

section \<open>Administrator rights\<close>

definition ADMIN_USER_ID :: "16 word" where "ADMIN_USER_ID = 0"

record PionAdminRights =
  m_user_id :: "16 word"
  m_has_rights :: bool

text \<open>\<open>geteuid\<close>, and \<open>seteuid\<close> with success or failure; a user identifier has 32 bits.\<close>

record 'os process_calls =
  geteuid :: "'os \<Rightarrow> 32 word"
  seteuid :: "32 word \<Rightarrow> 'os \<Rightarrow> bool \<times> 'os"

record 'os rights_state =
  rs_os :: 'os
  rs_mutex :: "nat option"
  rs_objects :: "nat \<Rightarrow> PionAdminRights option"

text \<open>The constructor has the mutex from its start, and lets it go when it does not get the rights.  The saved
  identifier is a \<open>boost::int16_t\<close>.\<close>

definition acquire_rights :: "'os process_calls \<Rightarrow> 'os \<Rightarrow> PionAdminRights \<times> 'os" where
  "acquire_rights lib os =
     (let user_id = ucast (geteuid lib os) :: 16 word;
          (ok, os') = seteuid lib (scast ADMIN_USER_ID) os
      in (\<lparr>m_user_id = user_id, m_has_rights = ok\<rparr>, os'))"

definition construct_rights :: "'os process_calls \<Rightarrow> nat \<Rightarrow> 'os rights_state \<Rightarrow> 'os rights_state option" where
  "construct_rights lib i s =
     (if rs_mutex s = None \<and> rs_objects s i = None then
        let (r, os') = acquire_rights lib (rs_os s)
        in Some (s\<lparr>rs_os := os', rs_mutex := (if m_has_rights r then Some i else None), rs_objects := (rs_objects s)(i \<mapsto> r)\<rparr>)
      else None)"

definition release_rights :: "'os process_calls \<Rightarrow> nat \<Rightarrow> 'os rights_state \<Rightarrow> 'os rights_state option" where
  "release_rights lib i s =
     (case rs_objects s i of
        None \<Rightarrow> None
      | Some r \<Rightarrow>
          if m_has_rights r then
            let (ok, os') = seteuid lib (scast (m_user_id r)) (rs_os s)
            in Some (s\<lparr>rs_os := os', rs_mutex := None, rs_objects := (rs_objects s)(i \<mapsto> r\<lparr>m_has_rights := False\<rparr>)\<rparr>)
          else Some s)"

definition destroy_rights :: "'os process_calls \<Rightarrow> nat \<Rightarrow> 'os rights_state \<Rightarrow> 'os rights_state option" where
  "destroy_rights lib i s = map_option (\<lambda>s'. s'\<lparr>rs_objects := (rs_objects s')(i := None)\<rparr>) (release_rights lib i s)"

text \<open>Threads with an object each; a thread that waits for the mutex makes no step.\<close>

datatype rights_action = Construct nat | Release nat | Destruct nat

fun rights_step :: "'os process_calls \<Rightarrow> rights_action \<Rightarrow> 'os rights_state \<Rightarrow> (fault + 'os rights_state \<times> unit list) option" where
  "rights_step lib (Construct i) s = map_option (\<lambda>s'. Inr (s', [])) (construct_rights lib i s)"
| "rights_step lib (Release i) s = map_option (\<lambda>s'. Inr (s', [])) (release_rights lib i s)"
| "rights_step lib (Destruct i) s = map_option (\<lambda>s'. Inr (s', [])) (destroy_rights lib i s)"

definition rights_start :: "'os \<Rightarrow> 'os rights_state" where
  "rights_start os = \<lparr>rs_os = os, rs_mutex = None, rs_objects = (\<lambda>_. None)\<rparr>"

text \<open>The system: a call that succeeds sets the user, one that fails changes nothing, and the administrator may become anybody.\<close>

definition posix_calls :: "'os process_calls \<Rightarrow> bool" where
  "posix_calls lib \<longleftrightarrow>
     (\<forall>u os. (if fst (seteuid lib u os) then geteuid lib (snd (seteuid lib u os)) = u else snd (seteuid lib u os) = os)) \<and>
     (\<forall>u os. geteuid lib os = 0 \<longrightarrow> fst (seteuid lib u os))"

lemma posixD:
  assumes "posix_calls lib" "seteuid lib u os = (ok, os')"
  shows "ok \<Longrightarrow> geteuid lib os' = u" "\<not> ok \<Longrightarrow> os' = os" "geteuid lib os = 0 \<Longrightarrow> ok"
  using assms by (auto simp: posix_calls_def split: if_splits dest!: spec [of _ u] spec [of _ os])

text \<open>Either nobody has the rights and the process has its user, or one object has them, the mutex, and the saved user.\<close>

definition rights_inv :: "'os process_calls \<Rightarrow> 32 word \<Rightarrow> 'os rights_state \<Rightarrow> unit \<Rightarrow> bool" where
  "rights_inv lib u s q \<longleftrightarrow> (case rs_mutex s of
     None \<Rightarrow> geteuid lib (rs_os s) = u \<and> (\<forall>i r. rs_objects s i = Some r \<longrightarrow> \<not> m_has_rights r)
   | Some i \<Rightarrow> geteuid lib (rs_os s) = 0 \<and> (\<exists>r. rs_objects s i = Some r \<and> m_has_rights r \<and> m_user_id r = ucast u) \<and>
       (\<forall>j r. j \<noteq> i \<longrightarrow> rs_objects s j = Some r \<longrightarrow> \<not> m_has_rights r))"

lemma construct_inv:
  assumes "posix_calls lib" "rights_inv lib u s q" "construct_rights lib i s = Some s'"
  shows "rights_inv lib u s' q"
proof -
  have s: "rs_mutex s = None" using assms(3) by (auto simp: construct_rights_def split: if_splits)
  obtain ok os' where os': "seteuid lib 0 (rs_os s) = (ok, os')" by fastforce
  note P = posixD [OF assms(1) os']
  show ?thesis using assms(2,3) s os' P(1,2)
    by (cases ok) (auto simp: construct_rights_def acquire_rights_def ADMIN_USER_ID_def rights_inv_def Let_def split: if_splits)
qed

lemma release_inv:
  assumes "posix_calls lib" "scast (ucast u :: 16 word) = u" "rights_inv lib u s q" "release_rights lib i s = Some s'"
  shows "rights_inv lib u s' q" "\<And>r. rs_objects s' i = Some r \<Longrightarrow> \<not> m_has_rights r"
proof -
  obtain r where r: "rs_objects s i = Some r" using assms(4) by (auto simp: release_rights_def split: option.splits)
  have "rights_inv lib u s' q \<and> (\<forall>r. rs_objects s' i = Some r \<longrightarrow> \<not> m_has_rights r)"
  proof (cases "m_has_rights r")
    case False
    then show ?thesis using assms(3,4) r by (auto simp: release_rights_def)
  next
    case True
    have m: "rs_mutex s = Some i"
    proof (cases "rs_mutex s")
      case None
      then show ?thesis using assms(3) r True by (auto simp: rights_inv_def)
    next
      case (Some j)
      then show ?thesis using assms(3) r True by (cases "j = i") (auto simp: rights_inv_def)
    qed
    then have m2: "geteuid lib (rs_os s) = 0" "m_user_id r = ucast u"
      "\<And>j r'. j \<noteq> i \<Longrightarrow> rs_objects s j = Some r' \<Longrightarrow> \<not> m_has_rights r'"
      using assms(3) r by (auto simp: rights_inv_def)
    obtain ok os' where os': "seteuid lib u (rs_os s) = (ok, os')" by fastforce
    note P = posixD [OF assms(1) os']
    have "geteuid lib os' = u" using P m2(1) by blast
    then show ?thesis using assms(2,4) r True m m2 os' by (auto simp: release_rights_def rights_inv_def Let_def split: if_splits)
  qed
  then show "rights_inv lib u s' q" "\<And>r. rs_objects s' i = Some r \<Longrightarrow> \<not> m_has_rights r" by auto
qed

lemma destroy_inv:
  assumes "posix_calls lib" "scast (ucast u :: 16 word) = u" "rights_inv lib u s q" "destroy_rights lib i s = Some s'"
  shows "rights_inv lib u s' q"
proof -
  obtain s1 where s1: "release_rights lib i s = Some s1" "s' = s1\<lparr>rs_objects := (rs_objects s1)(i := None)\<rparr>"
    using assms(4) by (auto simp: destroy_rights_def)
  note I = release_inv [OF assms(1-3) s1(1)]
  show ?thesis
  proof (cases "rs_mutex s1")
    case None
    then show ?thesis using I(1) s1(2) by (auto simp: rights_inv_def)
  next
    case (Some j)
    then have "j \<noteq> i" using I by (auto simp: rights_inv_def)
    then show ?thesis using I(1) s1(2) Some by (auto simp: rights_inv_def)
  qed
qed

interpretation admin_rights: linearizable "rights_step lib" "\<lambda>_. True" "\<lambda>e q. Some q"
    "\<lambda>s q. posix_calls lib \<and> scast (ucast u :: 16 word) = u \<and> rights_inv lib u s q" for lib u
proof
  fix s q act r
  assume rel: "posix_calls lib \<and> scast (ucast u :: 16 word) = u \<and> rights_inv lib u s q" and step: "rights_step lib act s = Some r"
  have "\<exists>s'. r = Inr (s', []) \<and> rights_inv lib u s' q"
  proof (cases act)
    case (Construct i)
    then obtain s' where s': "construct_rights lib i s = Some s'" "r = Inr (s', [])" using step by auto
    then show ?thesis using construct_inv [of lib u s q i s'] rel by blast
  next
    case (Release i)
    then obtain s' where s': "release_rights lib i s = Some s'" "r = Inr (s', [])" using step by auto
    then show ?thesis using release_inv(1) [of lib u s q i s'] rel by blast
  next
    case (Destruct i)
    then obtain s' where s': "destroy_rights lib i s = Some s'" "r = Inr (s', [])" using step by auto
    then show ?thesis using destroy_inv [of lib u s q i s'] rel by blast
  qed
  then show "\<exists>s' es q'. r = Inr (s', es) \<and> run_spec (\<lambda>e q. Some q) es q = Some q' \<and>
      (posix_calls lib \<and> scast (ucast u :: 16 word) = u \<and> rights_inv lib u s' q')"
    using rel by auto
qed

text \<open>Administrator rights end with the object. Whatever threads do with objects of the class, at most one object has the
  rights at a time, and when none has them the process runs as the user it started with and the mutex is free;
  this holds for users whose identifier fits into 16 bits with a sign.\<close>

theorem admin_rights_restored:
  fixes os :: 'os
  assumes "posix_calls lib" "scast (ucast (geteuid lib os) :: 16 word) = geteuid lib os"
  shows "\<exists>s es. run_schedule (rights_step lib) acts (rights_start os) = Inr (s, es) \<and>
     (\<forall>i r. rs_objects s i = Some r \<and> m_has_rights r \<longrightarrow> rs_mutex s = Some i \<and> geteuid lib (rs_os s) = 0) \<and>
     ((\<forall>i r. rs_objects s i = Some r \<longrightarrow> \<not> m_has_rights r) \<longrightarrow>
        rs_mutex s = None \<and> geteuid lib (rs_os s) = geteuid lib os)"
proof -
  have "rights_inv lib (geteuid lib os) (rights_start os) ()" by (simp add: rights_inv_def rights_start_def)
  then obtain s es where s: "run_schedule (rights_step lib) acts (rights_start os) = Inr (s, es)" "rights_inv lib (geteuid lib os) s ()"
    using admin_rights.runs [of lib "geteuid lib os" "rights_start os" "()" acts] assms by (auto simp: list_all_iff)
  show ?thesis
  proof (cases "rs_mutex s")
    case None
    then show ?thesis using s by (intro exI conjI) (rule s(1), auto simp: rights_inv_def)
  next
    case (Some i)
    then have i: "geteuid lib (rs_os s) = 0" "\<exists>r. rs_objects s i = Some r \<and> m_has_rights r"
      "\<And>j r. j \<noteq> i \<Longrightarrow> rs_objects s j = Some r \<Longrightarrow> \<not> m_has_rights r" using s(2) by (auto simp: rights_inv_def)
    have "rs_mutex s = Some j \<and> geteuid lib (rs_os s) = 0" if "rs_objects s j = Some r" "m_has_rights r" for j r
      using i(1,3) Some that by (cases "j = i") auto
    then show ?thesis using s(1) i(2) by blast
  qed
qed

text \<open>A process of the administrator, whose state is the effective user.\<close>

definition root_calls :: "32 word process_calls" where
  "root_calls = \<lparr>geteuid = (\<lambda>os. os), seteuid = (\<lambda>u os. (True, u))\<rparr>"

lemma admin_rights_restored_witness:
  "\<exists>s es. run_schedule (rights_step root_calls) [Construct 0, Construct 1, Destruct 0] (rights_start 1000) = Inr (s, es) \<and>
     geteuid root_calls (rs_os s) = 1000"
proof -
  have "posix_calls root_calls" by (simp add: posix_calls_def root_calls_def)
  moreover have "scast (ucast (geteuid root_calls 1000) :: 16 word) = geteuid root_calls 1000" by (simp add: root_calls_def)
  ultimately obtain s es where s: "run_schedule (rights_step root_calls) [Construct 0, Construct 1, Destruct 0] (rights_start 1000) = Inr (s, es)"
    "(\<forall>i r. rs_objects s i = Some r \<longrightarrow> \<not> m_has_rights r) \<longrightarrow> geteuid root_calls (rs_os s) = geteuid root_calls 1000"
    using admin_rights_restored [of root_calls 1000 "[Construct 0, Construct 1, Destruct 0]"] by blast
  have "\<forall>i r. rs_objects s i = Some r \<longrightarrow> \<not> m_has_rights r"
    using s(1) by (auto simp: rights_start_def construct_rights_def acquire_rights_def destroy_rights_def release_rights_def
        root_calls_def Let_def split: if_splits)
  with s show ?thesis by (auto simp: root_calls_def)
qed

text \<open>A user identifier that does not fit is cut off: the process goes on as another user.\<close>

lemma rights_released_to_wrong_user:
  "\<exists>s. run_schedule (rights_step root_calls) [Construct 0, Destruct 0] (rights_start 70000) = Inr (s, []) \<and> rs_os s = 4464"
  by (simp add: rights_start_def construct_rights_def acquire_rights_def destroy_rights_def release_rights_def
      root_calls_def Let_def)

section \<open>Counters\<close>

text \<open>Every change is made under the mutex of the counter; the operators return the counter itself.\<close>

datatype counter_op = Increment | Decrement | Add int | Subtract int | Assign int

fun counter_step :: "counter_op \<Rightarrow> 64 word \<Rightarrow> 64 word" where
  "counter_step Increment m_value = m_value + 1"
| "counter_step Decrement m_value = m_value - 1"
| "counter_step (Add n) m_value = m_value + of_int n"
| "counter_step (Subtract n) m_value = m_value - of_int n"
| "counter_step (Assign n) m_value = of_int n"

definition PionCounter :: "nat \<Rightarrow> 64 word" where "PionCounter n = counter_step (Assign (int n)) 0"
definition counter_reset :: "64 word \<Rightarrow> 64 word" where "counter_reset = counter_step (Assign 0)"
definition counter_value :: "64 word \<Rightarrow> nat" where "counter_value m_value = unat m_value"

fun counter_sum :: "counter_op \<Rightarrow> int \<Rightarrow> int" where
  "counter_sum Increment v = v + 1"
| "counter_sum Decrement v = v - 1"
| "counter_sum (Add n) v = v + n"
| "counter_sum (Subtract n) v = v - n"
| "counter_sum (Assign n) v = n"

text \<open>A counter is the sum of what has been done to it, modulo \<open>2 ^ 64\<close>.\<close>

lemma counter_counts: "int (counter_value (fold counter_step ops (of_int v))) = fold counter_sum ops v mod 2 ^ 64"
proof -
  have "fold counter_step ops (of_int v :: 64 word) = of_int (fold counter_sum ops v)"
  proof (induction ops arbitrary: v)
    case (Cons op ops)
    have "counter_step op (of_int v) = of_int (counter_sum op v)" by (cases op) simp_all
    then show ?case using Cons by simp
  qed simp
  then show ?thesis by (simp add: counter_value_def uint_word_of_int)
qed

end
