(* ===== verification/Spec2Isabelle.thy ===== *)
theory Spec2Isabelle
  imports Json_Properties Http_Properties Auth_Properties Tcp_Server_Safety File_Service_Properties Web_Server_Properties Test_Db Program
    Locked_Queue_Properties Request_Writer Tcp_Stream Pion_Blob
    Lock_Free_Queue_Safety Pion_Id Pion_Utilities
begin

text \<open>
  A verification development for brainslug, a media server whose backend answers HTTP requests for
  movies, shows, seasons and episodes with JSON documents made from a SQLite database.

  \<^bold>\<open>The program.\<close> The backend under \<open>src/Backend\<close> is small and stands on two libraries that are part of the
  repository: cajun (\<open>src/Contrib/cajun/json\<close>), which holds, writes and reads JSON documents, and pion-net
  (\<open>src/Contrib/pion-net-3.0.15\<close>), an asynchronous HTTP server. \<open>main\<close> builds a \<open>FrontendServer\<close>, which opens the
  cache database, creates the tables through its five resource handlers, fills them with test data,
  registers one handler for each path and starts the server. A \<open>TCPServer\<close> keeps a pool of connections and one
  pending accept; an accepted connection gets an \<open>HTTPReader\<close> that feeds what it reads to an \<open>HTTPParser\<close>; a
  finished request goes to \<open>HTTPServer::handleRequest\<close>, which follows redirects, asks for authentication and
  calls the handler of the longest resource that covers the path; the handler runs a statement, collects
  the rows in a JSON object and sends it through an \<open>HTTPResponseWriter\<close>, whose completion finishes the connection or
  keeps it alive for the next request.

  \<^bold>\<open>The theories.\<close> Each holds the definitions of one part, in the order of the source, and the lemmas about
  them; definitions keep the names of the code.

  \<^item> \<open>Prelude\<close>: characters, tribools, faults of the C++ machine as values (out of bounds, failed assertions,
    dangling pointers, locking a mutex twice), buffers, shared lemmas and collections of rules. \<open>Std_Map\<close>: \<open>std::map\<close>
    as an ordered list, with a locale for its laws.
  \<^item> \<open>Json_Elements\<close>, \<open>Json_Writer\<close>, \<open>Json_Reader\<close>: \<open>elements.inl\<close>, \<open>writer.inl\<close>, \<open>reader.inl\<close>. \<open>Json_Roundtrip\<close> and
    \<open>Json_Locations\<close> relate the scanner to the text that was written and to positions; \<open>Json_Properties\<close> has
    the properties: the round trip, that reading returns, well-formedness of what is read, token positions,
    and the inputs that break the reader.
  \<^item> \<open>Dictionary\<close>, \<open>Http_Types\<close>, \<open>Http_Message\<close>: \<open>PionHashMap.hpp\<close>, \<open>HTTPTypes.cpp\<close>, \<open>HTTPMessage\<close>, \<open>HTTPRequest\<close>, \<open>HTTPResponse\<close>;
    \<open>Http_Codecs\<close> has the laws of the dictionaries and the round trips of the base64 and URL codecs.
  \<^item> \<open>Http_Parser\<close>, \<open>Http_Fields\<close>, \<open>Http_Body\<close>: \<open>HTTPParser.cpp\<close>, one definition for each state of the header and chunk
    parsers. \<open>Http_Parser_Inv\<close> and \<open>Http_Parser_Safety\<close> prove the invariants, \<open>Http_Receive\<close> is the blocking \<open>receive\<close>,
    \<open>Http_Roundtrip\<close> and \<open>Http_Properties\<close> have safety, limits, independence of the cutting into buffers and the
    round trip of a request; the same is proved of responses.
  \<^item> \<open>Http_Writer\<close>, \<open>Http_Server\<close>: the response writer with its chunked encoding, \<open>TCPConnection\<close> as a record of the
    operations started on it, the resource table, redirects, dispatch and the error pages.
  \<^item> \<open>Http_Reader\<close>, \<open>Scheduler\<close>, \<open>Tcp_Server\<close>: the asynchronous reader and its timer, the thread scheduler, and the server as
    a state machine whose steps are the completions of operations and what the calls of \<open>start\<close> and \<open>stop\<close> do between two
    points at which they release the mutex, so that any number of such calls overlap. \<open>Tcp_Server_Safety\<close> proves its invariants over every
    reachable state, and the run in which a restart during \<open>stop(false)\<close> makes the server lock its own mutex.
  \<^item> \<open>Http_Auth\<close>, \<open>Auth_Properties\<close>: the user manager, basic and cookie authentication.
  \<^item> \<open>Http_Date\<close>, \<open>Disk_File\<close>, \<open>File_Service\<close>, \<open>File_Service_Properties\<close>: the web service of the bundled library that serves files
    (\<open>FileService.hpp\<close>, \<open>FileService.cpp\<close>): dates, cached files and their sender, options, scanning, the cache and the
    requests, with the properties that the service sends nothing but the configured file or files below the configured directory, and
    that what it sends from the cache is the current content of the file that was asked for, unless a file cannot be read.
  \<^item> \<open>Plugin\<close>, \<open>Plugin_Safety\<close>, \<open>Plugin_Manager\<close>, \<open>Plugin_Manager_Safety\<close>, \<open>Plugin_Manager_Properties\<close>: \<open>PionPlugin.cpp\<close> and
    \<open>PluginManager.hpp\<close>, shared libraries with reference counts and the objects made from them, as computations on an
    explicit heap; the counts are exact and every managed object is alive in every state a program reaches.
  \<^item> \<open>Web_Services\<close>, \<open>Web_Server\<close>, \<open>Web_Server_Safety\<close>, \<open>Web_Config\<close>, \<open>Web_Server_Properties\<close>: the small services of the library, the
    server that loads services (\<open>WebServer.cpp\<close>), with the proof that requests reach services that are alive, and
    its configuration file, read character by character and related to the commands of its lines.
  \<^item> \<open>Sqlite_Db\<close>, \<open>Resource_Handler\<close>, \<open>Frontend\<close>, \<open>Backend_Properties\<close>, \<open>Test_Db\<close>, \<open>Program\<close>: the backend itself, from the
    statements and handlers to \<open>main\<close>, with the properties that run through all parts: a list request is
    answered with a document from which the JSON reader reads back the rows of the table, and a search hands every parameter of
    the request to \<open>sqlite3_bind_text\<close> and none to the text of the statement.
  \<^item> \<open>Interleaving\<close>, \<open>Locked_Queue\<close>, \<open>Locked_Queue_Inv\<close>, \<open>Locked_Queue_Steps\<close>, \<open>Locked_Queue_Wake\<close>, \<open>Locked_Queue_Properties\<close>: the two-lock
    queue of the library (\<open>PionLockedQueue.hpp\<close>), one step for each access to shared memory, under any schedule of
    any number of threads: without \<open>empty\<close> and the destructor it refines a sequential queue, which bounds what \<open>size\<close> returns, frees what it allocates, does not deadlock, and
    wakes its consumers, with runs that show where it does not keep what it promises.
  \<^item> \<open>Request_Writer\<close>: the client side, \<open>HTTPRequestWriter\<close> and \<open>HTTPResponseReader\<close>, with the whole way of a request from
    the client's writer to the server's handler and of a response back.
  \<^item> \<open>Tcp_Stream\<close>: the stream buffer over a connection (\<open>TCPStream.hpp\<close>), its order and its round trip, and connecting to a
    host by name.
  \<^item> \<open>Pion_Blob\<close>: reference-counted blobs (\<open>PionBlob.hpp\<close>) as a refinement of independent values, and the two-thread
    run in which their memory is never freed.
  \<^item> \<open>Lock_Free_List\<close>: tagged pointers and the free lists on them (\<open>freelist.hpp\<close>, \<open>tagged_ptr_dcas.hpp\<close>) as steps of threads, with
    the proof that no block is given out twice as long as no tag comes round, and \<open>PionPoolAllocator.hpp\<close>.
    \<open>Lock_Free_Queue\<close>, \<open>Lock_Free_Queue_Inv\<close>, \<open>Lock_Free_Queue_Steps\<close>, \<open>Lock_Free_Queue_Safety\<close>: the queue of Michael and Scott
    (\<open>PionLockFreeQueue.hpp\<close>); with one producer it refines a sequential queue, with two there is a run in which
    it does not.
  \<^item> \<open>Pion_Id\<close>: identifiers and their text (\<open>PionId.hpp\<close>). \<open>Pion_Utilities\<close>: administrator rights (\<open>PionAdminRights.cpp\<close>) and
    counters (\<open>PionCounter.hpp\<close>).

  \<^bold>\<open>Interfaces.\<close> Where one part relies on another the contract is a locale that the provider interprets:
  \<open>member_store\<close> (JSON objects), \<open>unique_map\<close> (\<open>std::map\<close>), \<open>multi_dictionary\<close> (headers, queries and cookies), \<open>content_sink\<close> (what is written to a response writer),
  \<open>answering\<close> and \<open>courteous\<close> (what the server expects of a handler, interpreted by its error pages and the small
  services), \<open>guarding\<close> and \<open>courteous_auth\<close> (what it expects of an authentication, interpreted by basic and cookie authentication), \<open>manager_operation\<close> (what the web server expects of the plug-in manager),
  \<open>linearizable\<close> (a concurrent model and the sequential object it implements) and \<open>counted_linearizable\<close>, which it extends (the same
  for a number of steps that is known, below which no tag comes round).

  \<^bold>\<open>Parameters.\<close> Code outside the repository is an argument of the definitions: boost as the record
  \<open>boost_lib\<close> (numbers in text, trimming, the pattern of the chunked coding), SQLite as the record \<open>sqlite_lib\<close> of the calls the code makes,
  printing and extraction of a double, the file system, the dynamic linker, the logging library, the command line, and what the operating system
  makes of an acceptor. Reads, writes, timers and their order are up to the environment of the state
  machine. Assertions are taken to be enabled and SSL to be configured off.

  \<^bold>\<open>Loops.\<close> Recursion is structural or has a measure, and loops over input end with it. The parser of JSON
  uses fuel, two units for each token and two more, and \<open>json_read_returns\<close> shows that they are enough. The loop
  of \<open>HTTPParser::parse\<close> changes its state at most twice for one buffer, which \<open>http_parse_returns\<close> proves. Redirects
  are bounded by the code itself.

  \<^bold>\<open>Faults.\<close> Where the code can leave the C++ machine the model says so with a fault value instead of an
  arbitrary result, and the safety properties exclude it: for the parser from every safe state, and for
  the server from every reachable state. Where it is not excluded the fault is a property of its own:
  base64 decoding of foreign bytes, \<open>finish\<close> during content that is too long, a JSON document cut after a comma, the
  second row of a search.

  \<^bold>\<open>Not modelled.\<close> Logging, mutexes other than those of the server, the two-lock queue and administrator rights, the length of timeouts, SSL; memory that
  other processors see late: an access to shared memory is one step; dates, and the lock-free containers of the bundled boost code that pion-net itself
  does not use; the JavaScript frontend.
\<close>

end
